(* ===== verification/FD_Prelude.thy ===== *)
theory FD_Prelude
  imports Main
begin

text \<open>
  What every component theory shares: the collections of rewrite and elimination rules, the
  names of the basic types, Go's 64-bit integers and times, the byte-string operations of
  package \<open>strings\<close> and \<open>strconv\<close> the code calls, and general lemmas on lists and maps.

  A Go string is a sequence of bytes, and so is the model's \<open>string\<close> (a list of 8-bit
  \<open>char\<close>s). Case folding, letters and white space are those of ASCII: a byte of 128 or more is
  kept as it is by \<open>lower\<close>, and is neither a letter nor a space. Everything else is
  exact on bytes.
\<close>

named_theorems guards \<open>unfolding of the code's own conditions\<close>
named_theorems frame \<open>fields an operation leaves alone\<close>

section \<open>Basic types\<close>

type_synonym time = int       \<comment> \<open>\<open>time.Time\<close>: nanoseconds on one fixed scale\<close>
type_synonym duration = int   \<comment> \<open>\<open>time.Duration\<close>: nanoseconds, a signed 64-bit value\<close>

abbreviation second :: duration where "second \<equiv> 1000000000"
abbreviation minute :: duration where "minute \<equiv> 60 * second"
abbreviation hour :: duration where "hour \<equiv> 60 * minute"

text \<open>The zero \<open>time.Time\<close>, year 1, on the Unix scale.\<close>

definition zero_time :: time where
  "zero_time = -62135596800 * second"

section \<open>Signed 64-bit arithmetic\<close>

definition i64 :: "int \<Rightarrow> int" where
  "i64 x = (x + 2 ^ 63) mod 2 ^ 64 - 2 ^ 63"

lemma i64_id [simp]: "- (2 ^ 63) \<le> x \<Longrightarrow> x < 2 ^ 63 \<Longrightarrow> i64 x = x"
  by (simp add: i64_def)

lemma i64_range: "- (2 ^ 63) \<le> i64 x \<and> i64 x < 2 ^ 63"
  by (simp add: i64_def)

text \<open>\<open>Time.Sub\<close> saturates at the ends of \<open>Duration\<close>.\<close>

definition time_sub :: "time \<Rightarrow> time \<Rightarrow> duration" where
  "time_sub a b = max (- (2 ^ 63)) (min (2 ^ 63 - 1) (a - b))"

lemma time_sub_ge: "0 \<le> d \<Longrightarrow> d < 2 ^ 63 \<Longrightarrow> time_sub a b \<ge> d \<longleftrightarrow> a - b \<ge> d"
  by (auto simp: time_sub_def)

lemma time_sub_less: "0 \<le> d \<Longrightarrow> d < 2 ^ 63 \<Longrightarrow> time_sub a b < d \<longleftrightarrow> a - b < d"
  by (auto simp: time_sub_def)

lemma time_sub_gr: "0 \<le> d \<Longrightarrow> d < 2 ^ 63 - 1 \<Longrightarrow> time_sub a b > d \<longleftrightarrow> a - b > d"
  by (auto simp: time_sub_def)

section \<open>Byte strings\<close>

definition has_prefix :: "string \<Rightarrow> string \<Rightarrow> bool" where
  "has_prefix s p = (take (length p) s = p)"

definition has_suffix :: "string \<Rightarrow> string \<Rightarrow> bool" where
  "has_suffix s p = (length p \<le> length s \<and> drop (length s - length p) s = p)"

definition cut_prefix :: "string \<Rightarrow> string \<Rightarrow> string option" where
  "cut_prefix s p = (if has_prefix s p then Some (drop (length p) s) else None)"

definition trim_suffix :: "string \<Rightarrow> string \<Rightarrow> string" where
  "trim_suffix s p = (if has_suffix s p then take (length s - length p) s else s)"

text \<open>\<open>strings.Index\<close>: where \<open>p\<close> first occurs in \<open>s\<close>.\<close>

fun str_index :: "string \<Rightarrow> string \<Rightarrow> nat option" where
  "str_index [] p = (if p = [] then Some 0 else None)"
| "str_index (c # s) p =
     (if has_prefix (c # s) p then Some 0 else map_option Suc (str_index s p))"

definition str_contains :: "string \<Rightarrow> string \<Rightarrow> bool" where
  "str_contains s p = (str_index s p \<noteq> None)"

text \<open>\<open>strings.Cut\<close>: what stands before and after the first \<open>sep\<close>; \<open>None\<close> where it is absent.\<close>

definition cut :: "string \<Rightarrow> string \<Rightarrow> (string \<times> string) option" where
  "cut s sep = (case str_index s sep of None \<Rightarrow> None
     | Some i \<Rightarrow> Some (take i s, drop (i + length sep) s))"

text \<open>\<open>strings.CutLast\<close> for a separator of one byte.\<close>

fun cut_last :: "string \<Rightarrow> char \<Rightarrow> (string \<times> string) option" where
  "cut_last [] c = None"
| "cut_last (x # s) c = (case cut_last s c of
     Some (a, b) \<Rightarrow> Some (x # a, b)
   | None \<Rightarrow> if x = c then Some ([], s) else None)"

definition lower_char :: "char \<Rightarrow> char" where
  "lower_char c = (let n = (of_char c :: nat) in if 65 \<le> n \<and> n \<le> 90 then char_of (n + 32) else c)"

definition lower :: "string \<Rightarrow> string" where
  "lower s = map lower_char s"

definition equal_fold :: "string \<Rightarrow> string \<Rightarrow> bool" where
  "equal_fold a b = (lower a = lower b)"

definition is_space :: "char \<Rightarrow> bool" where
  "is_space c = ((of_char c :: nat) \<in> {9, 10, 11, 12, 13, 32})"

definition trim_right_set :: "(char \<Rightarrow> bool) \<Rightarrow> string \<Rightarrow> string" where
  "trim_right_set P s = rev (dropWhile P (rev s))"

definition trim_space :: "string \<Rightarrow> string" where
  "trim_space s = trim_right_set is_space (dropWhile is_space s)"

definition is_letter :: "char \<Rightarrow> bool" where
  "is_letter c = (let n = (of_char c :: nat) in (65 \<le> n \<and> n \<le> 90) \<or> (97 \<le> n \<and> n \<le> 122))"

subsection \<open>Decimal numbers\<close>

definition digit :: "nat \<Rightarrow> char" where
  "digit n = char_of (48 + n)"

definition is_digit :: "char \<Rightarrow> bool" where
  "is_digit c = (48 \<le> (of_char c :: nat) \<and> (of_char c :: nat) \<le> 57)"

definition digit_val :: "char \<Rightarrow> nat" where
  "digit_val c = of_char c - 48"

fun nat_str :: "nat \<Rightarrow> string" where
  "nat_str n = (if n < 10 then [digit n] else nat_str (n div 10) @ [digit (n mod 10)])"

declare nat_str.simps [simp del]

text \<open>\<open>strconv.Itoa\<close>, and \<open>strconv.Atoi\<close> on an optional sign and digits, within 64 bits.\<close>

definition itoa :: "int \<Rightarrow> string" where
  "itoa n = (if n < 0 then CHR ''-'' # nat_str (nat (- n)) else nat_str (nat n))"

definition digits_val :: "string \<Rightarrow> nat" where
  "digits_val s = foldl (\<lambda>n c. 10 * n + digit_val c) 0 s"

definition unsigned_of :: "string \<Rightarrow> nat option" where
  "unsigned_of s = (if s \<noteq> [] \<and> list_all is_digit s then Some (digits_val s) else None)"

definition in_i64 :: "int \<Rightarrow> int option" where
  "in_i64 n = (if - (2 ^ 63) \<le> n \<and> n < 2 ^ 63 then Some n else None)"

definition atoi :: "string \<Rightarrow> int option" where
  "atoi s = (case s of
       [] \<Rightarrow> None
     | c # r \<Rightarrow>
         if c = CHR ''-'' then Option.bind (unsigned_of r) (\<lambda>n. in_i64 (- int n))
         else if c = CHR ''+'' then Option.bind (unsigned_of r) (\<lambda>n. in_i64 (int n))
         else Option.bind (unsigned_of s) (\<lambda>n. in_i64 (int n)))"

subsection \<open>Laws of the string operations\<close>

lemma has_prefix_append [simp]: "has_prefix (p @ s) p"
  by (simp add: has_prefix_def)

lemma has_prefix_nil [simp]: "has_prefix s []"
  by (simp add: has_prefix_def)

lemma has_suffix_append [simp]: "has_suffix (s @ p) p"
  by (simp add: has_suffix_def)

lemma has_prefix_single: "has_prefix s [c] \<longleftrightarrow> (\<exists>r. s = c # r)"
  by (cases s) (auto simp: has_prefix_def)

lemma has_prefix_iff: "has_prefix s p \<longleftrightarrow> (\<exists>r. s = p @ r)"
  by (auto simp: has_prefix_def) (metis append_take_drop_id)

lemma has_suffix_iff: "has_suffix s p \<longleftrightarrow> (\<exists>r. s = r @ p)"
  by (auto simp: has_suffix_def) (metis append_take_drop_id)

lemma str_index_single_None: "c \<notin> set s \<Longrightarrow> str_index s [c] = None"
  by (induction s) (auto simp: has_prefix_single)

lemma str_index_single: "c \<notin> set a \<Longrightarrow> str_index (a @ c # b) [c] = Some (length a)"
  by (induction a) (auto simp: has_prefix_single)

lemma cut_single: "c \<notin> set a \<Longrightarrow> cut (a @ c # b) [c] = Some (a, b)"
  by (simp add: cut_def str_index_single)

lemma cut_single_None: "c \<notin> set s \<Longrightarrow> cut s [c] = None"
  by (simp add: cut_def str_index_single_None)

lemma str_index_split:
  "str_index s p = Some i \<Longrightarrow> \<exists>a b. s = a @ p @ b \<and> length a = i"
proof (induction s arbitrary: i)
  case Nil
  then show ?case by (auto split: if_splits)
next
  case (Cons c s)
  show ?case
  proof (cases "has_prefix (c # s) p")
    case True
    with Cons.prems have "i = 0" by simp
    moreover from True obtain b where "c # s = p @ b" by (auto simp: has_prefix_iff)
    ultimately show ?thesis by (intro exI[of _ "[]"] exI[of _ b]) simp
  next
    case False
    with Cons.prems obtain j where "str_index s p = Some j" and i: "i = Suc j" by auto
    with Cons.IH obtain a b where "s = a @ p @ b" "length a = j" by blast
    with i show ?thesis by (intro exI[of _ "c # a"] exI[of _ b]) simp
  qed
qed

lemma cut_Some_append: "cut s sep = Some (a, b) \<Longrightarrow> s = a @ sep @ b"
  by (auto simp: cut_def split: option.splits dest!: str_index_split)

lemma cut_last_None: "cut_last s c = None \<longleftrightarrow> c \<notin> set s"
  by (induction s) (auto split: option.splits if_splits)

lemma cut_last_append: "c \<notin> set b \<Longrightarrow> cut_last (a @ c # b) c = Some (a, b)"
proof (induction a)
  case Nil
  then have "cut_last b c = None" by (simp add: cut_last_None)
  then show ?case by simp
next
  case (Cons x a)
  then show ?case by simp
qed

lemma cut_last_Some: "cut_last s c = Some (a, b) \<Longrightarrow> s = a @ c # b \<and> c \<notin> set b"
proof (induction s arbitrary: a b)
  case Nil
  then show ?case by simp
next
  case (Cons x s)
  then show ?case
    by (auto simp: cut_last_None split: option.splits if_splits)
qed

lemma lower_append [simp]: "lower (a @ b) = lower a @ lower b"
  by (simp add: lower_def)

lemma length_lower [simp]: "length (lower s) = length s"
  by (simp add: lower_def)

lemma lower_char_idem [simp]: "lower_char (lower_char c) = lower_char c"
proof -
  let ?n = "of_char c :: nat"
  show ?thesis
  proof (cases "65 \<le> ?n \<and> ?n \<le> 90")
    case True
    then have "(of_char (char_of (?n + 32) :: char) :: nat) = ?n + 32"
      by (simp add: of_char_of)
    with True show ?thesis by (simp add: lower_char_def Let_def)
  next
    case False
    then have "lower_char c = c" by (auto simp: lower_char_def Let_def)
    then show ?thesis by simp
  qed
qed

lemma lower_idem [simp]: "lower (lower s) = lower s"
  by (simp add: lower_def)

lemma equal_fold_refl [simp]: "equal_fold s s"
  by (simp add: equal_fold_def)

lemma trim_right_set_last: "trim_right_set P s \<noteq> [] \<Longrightarrow> \<not> P (last (trim_right_set P s))"
  by (simp add: trim_right_set_def last_rev hd_dropWhile)

lemma trim_right_set_id: "s = [] \<or> \<not> P (last s) \<Longrightarrow> trim_right_set P s = s"
  by (cases s rule: rev_cases) (auto simp: trim_right_set_def)

lemma trim_right_set_split: "\<exists>t. s = trim_right_set P s @ t \<and> list_all P t"
  using takeWhile_dropWhile_id[of P "rev s"]
  by (intro exI[of _ "rev (takeWhile P (rev s))"])
     (auto simp: trim_right_set_def list_all_iff dest: set_takeWhileD
           simp flip: rev_append)

subsection \<open>Laws of the decimal numbers\<close>

lemma of_char_digit: "n < 10 \<Longrightarrow> (of_char (digit n) :: nat) = 48 + n"
  by (simp add: digit_def of_char_of)

lemma is_digit_digit [simp]: "n < 10 \<Longrightarrow> is_digit (digit n)"
  by (simp add: is_digit_def of_char_digit)

lemma digit_val_digit [simp]: "n < 10 \<Longrightarrow> digit_val (digit n) = n"
  by (simp add: digit_val_def of_char_digit)

lemma nat_str_digits: "list_all is_digit (nat_str n)"
proof (induction n rule: nat_str.induct)
  case (1 n)
  then show ?case by (cases "n < 10") (simp_all add: nat_str.simps[of n])
qed

lemma nat_str_nonempty [simp]: "nat_str n \<noteq> []"
  by (subst nat_str.simps) simp

lemma digits_val_snoc: "digits_val (s @ [c]) = 10 * digits_val s + digit_val c"
  by (simp add: digits_val_def)

lemma digits_val_nat_str [simp]: "digits_val (nat_str n) = n"
proof (induction n rule: nat_str.induct)
  case (1 n)
  show ?case
  proof (cases "n < 10")
    case True
    then show ?thesis by (simp add: nat_str.simps[of n] digits_val_def)
  next
    case False
    with 1 show ?thesis
      by (simp add: nat_str.simps[of n] digits_val_snoc)
  qed
qed

lemma unsigned_of_nat_str [simp]: "unsigned_of (nat_str n) = Some n"
  by (simp add: unsigned_of_def nat_str_digits)

lemma digit_not_sign: "is_digit c \<Longrightarrow> c \<noteq> CHR ''-'' \<and> c \<noteq> CHR ''+''"
  by (auto simp: is_digit_def)

lemma atoi_itoa [simp]: "- (2 ^ 63) \<le> n \<Longrightarrow> n < 2 ^ 63 \<Longrightarrow> atoi (itoa n) = Some n"
proof (cases "n < 0")
  case True
  assume "- (2 ^ 63) \<le> n" "n < 2 ^ 63"
  with True show ?thesis by (simp add: atoi_def itoa_def in_i64_def)
next
  case False
  assume r: "- (2 ^ 63) \<le> n" "n < 2 ^ 63"
  obtain c t where ct: "nat_str (nat n) = c # t"
    by (cases "nat_str (nat n)") auto
  with nat_str_digits[of "nat n"] have "is_digit c" by simp
  then have "c \<noteq> CHR ''-''" "c \<noteq> CHR ''+''" using digit_not_sign by auto
  with False r ct show ?thesis
    using unsigned_of_nat_str[of "nat n"] by (simp add: atoi_def itoa_def in_i64_def)
qed

lemma itoa_chars: "c \<in> set (itoa n) \<Longrightarrow> is_digit c \<or> c = CHR ''-''"
  using nat_str_digits by (auto simp: itoa_def list_all_iff split: if_splits)

lemma hash_notin_itoa [simp]: "CHR ''#'' \<notin> set (itoa n)"
  using itoa_chars[of "CHR ''#''" n] by (auto simp: is_digit_def)

lemma slash_notin_itoa [simp]: "CHR ''/'' \<notin> set (itoa n)"
  using itoa_chars[of "CHR ''/''" n] by (auto simp: is_digit_def)

lemma nat_str_inj: "nat_str m = nat_str n \<Longrightarrow> m = n"
  using digits_val_nat_str by metis

lemma itoa_inj: "itoa m = itoa n \<longleftrightarrow> m = n"
proof
  assume eq: "itoa m = itoa n"
  have neg: "CHR ''-'' \<notin> set (nat_str k)" for k
    using nat_str_digits[of k] by (auto simp: list_all_iff is_digit_def)
  show "m = n"
  proof (cases "m < 0"; cases "n < 0")
    assume "m < 0" "n < 0"
    with eq show ?thesis by (auto simp: itoa_def dest: nat_str_inj)
  next
    assume "m < 0" "\<not> n < 0"
    with eq neg[of "nat n"] show ?thesis by (auto simp: itoa_def dest: sym)
  next
    assume "\<not> m < 0" "n < 0"
    with eq neg[of "nat m"] show ?thesis by (auto simp: itoa_def)
  next
    assume "\<not> m < 0" "\<not> n < 0"
    with eq show ?thesis by (auto simp: itoa_def dest: nat_str_inj)
  qed
qed simp

section \<open>Lists and maps\<close>

text \<open>The last element of a list that satisfies a test; \<open>find\<close> gives the first.\<close>

definition find_last :: "('a \<Rightarrow> bool) \<Rightarrow> 'a list \<Rightarrow> 'a option" where
  "find_last P xs = find P (rev xs)"

lemma find_Some_P: "find P xs = Some x \<Longrightarrow> x \<in> set xs \<and> P x"
  by (auto simp: find_Some_iff)

text \<open>\<open>delete(m, k)\<close> for every key that fails a test: the sweeps of the registries.\<close>

definition keep_keys :: "('k \<Rightarrow> bool) \<Rightarrow> ('k \<rightharpoonup> 'v) \<Rightarrow> ('k \<rightharpoonup> 'v)" where
  "keep_keys P m = (\<lambda>k. if P k then m k else None)"

lemma keep_keys_apply [simp]: "keep_keys P m k = (if P k then m k else None)"
  by (simp add: keep_keys_def)

lemma dom_keep_keys [simp]: "dom (keep_keys P m) = {k \<in> dom m. P k}"
  by (auto simp: keep_keys_def dom_def)

text \<open>A map over a list of rows by a key, later rows winning, as the loops \<open>m[key(x)] = x\<close> build it.\<close>

definition index_by :: "('a \<Rightarrow> 'k) \<Rightarrow> 'a list \<Rightarrow> ('k \<rightharpoonup> 'a)" where
  "index_by key xs = (\<lambda>k. find_last (\<lambda>x. key x = k) xs)"

lemma index_by_Some: "index_by key xs k = Some x \<Longrightarrow> x \<in> set xs \<and> key x = k"
  by (auto simp: index_by_def find_last_def dest!: find_Some_P)

lemma index_by_None: "index_by key xs k = None \<longleftrightarrow> k \<notin> key ` set xs"
  by (auto simp: index_by_def find_last_def find_None_iff)

lemma find_appended: "find P (xs @ ys) = (case find P xs of None \<Rightarrow> find P ys | r \<Rightarrow> r)"
  by (induction xs) auto

lemma find_last_append: "find_last P (xs @ ys) = (case find_last P ys of None \<Rightarrow> find_last P xs | r \<Rightarrow> r)"
  by (cases "find P (rev ys)") (simp_all add: find_last_def find_appended)

lemma index_by_append: "index_by key (xs @ ys) k = (case index_by key ys k of None \<Rightarrow> index_by key xs k | r \<Rightarrow> r)"
  by (cases "index_by key ys k") (simp_all add: index_by_def find_last_append)

lemma index_by_unique:
  assumes "distinct (map key xs)" "x \<in> set xs"
  shows "index_by key xs (key x) = Some x"
proof (cases "index_by key xs (key x)")
  case None
  then show ?thesis using assms(2) by (auto simp: index_by_None)
next
  case (Some y)
  then show ?thesis using index_by_Some[OF Some] assms by (auto simp: distinct_map dest: inj_onD)
qed

lemma index_by_latest:
  assumes key: "key i = n" "i \<in> set delta \<or> i \<in> set prev" and prev: "distinct (map key prev)"
    and delta: "\<And>j. j \<in> set delta \<Longrightarrow> key j = n \<Longrightarrow> j = i"
  shows "index_by key (prev @ delta) n = Some i"
proof (cases "index_by key delta n")
  case None
  then have "i \<notin> set delta" using key by (auto simp: index_by_None)
  then show ?thesis using None key index_by_unique[OF prev, of i] by (auto simp: index_by_append)
next
  case (Some j)
  then show ?thesis using index_by_Some[OF Some] delta by (auto simp: index_by_append)
qed

lemma find_last_Cons: "find_last P (x # xs) = (case find_last P xs of None \<Rightarrow> if P x then Some x else None | r \<Rightarrow> r)"
  using find_last_append[of P "[x]" xs] by (simp add: find_last_def split: option.splits)

lemma index_by_eq_None [simp]: "index_by key [] k = None"
  by (simp add: index_by_def find_last_def)

end
