(* ===== verification/FD_Model.thy ===== *)
theory FD_Model
  imports FD_Prelude
begin

text \<open>
  The domain model of \<open>internal/dashboard/model.go\<close> and the types that sit on it: the enums,
  the rows of a snapshot (pull requests, issues, repos, forge health, default branches), the
  requests a row carries, and the errors a forge client answers with. A Go struct is a record
  with the struct's fields in its order, under a short prefix; a pointer is an \<open>option\<close>; a
  slice is a list (nil is the empty list); an embedded struct is a record extension.

  A Go enum is a string type. Where a value comes from a forge or from saved JSON and need not
  be one of the constants, the datatype has one more constructor that holds any other string.
\<close>

section \<open>Enums\<close>

datatype forge = ForgeGitHub | ForgeForgejo | ForgeOther string

definition forge_str :: "forge \<Rightarrow> string" where
  "forge_str f = (case f of ForgeGitHub \<Rightarrow> ''github'' | ForgeForgejo \<Rightarrow> ''forgejo'' | ForgeOther s \<Rightarrow> s)"

definition forge_of :: "string \<Rightarrow> forge" where
  "forge_of s = (if s = ''github'' then ForgeGitHub
                 else if s = ''forgejo'' then ForgeForgejo else ForgeOther s)"

text \<open>A value that is the conversion of some string: every value the program can hold.\<close>

definition forge_ok :: "forge \<Rightarrow> bool" where
  "forge_ok f \<longleftrightarrow> forge_of (forge_str f) = f"

lemma forge_str_of [simp]: "forge_str (forge_of s) = s"
  by (simp add: forge_of_def forge_str_def)

lemma forge_of_str: "forge_ok f \<Longrightarrow> forge_of (forge_str f) = f"
  by (simp add: forge_ok_def)

lemma forge_ok_simps [simp]: "forge_ok ForgeGitHub" "forge_ok ForgeForgejo" "forge_ok (forge_of s)"
  by (simp_all add: forge_ok_def forge_of_def forge_str_def)

datatype ci_status = CISuccess | CIFailure | CIPending | CINone | CIOther string

datatype merge_status = MergeMergeable | MergeConflicting | MergeBlocked | MergeUnstable
  | MergeUnknown | MergeOther string

datatype check_state = CheckQueued | CheckRunning | CheckSuccess | CheckFailure | CheckCancelled
  | CheckSkipped | CheckTimedOut | CheckAwaitingApproval | CheckStateOther string

text \<open>A job's status and conclusion are the forge's own words, so they stay strings.\<close>

type_synonym check_status = string
type_synonym check_conclusion = string

datatype review_decision = ReviewApproved | ReviewChangesRequested | ReviewRequired | ReviewNone
  | ReviewOther string

datatype forge_error_kind = ForgeErrorUnreachable | ForgeErrorUnauthorized | ForgeErrorNotFound
  | ForgeErrorRateLimited | ForgeErrorConflict | ForgeErrorUnknown | ForgeErrorOther string

datatype auto_merge_holder = AutoMergeHeldByDashboard | AutoMergeHeldByForge

datatype main_branch_status = MainBranchFailed | MainBranchPassed | MainBranchRunning
  | MainBranchCancelled | MainBranchAwaitingApproval | MainBranchNone | MainBranchOther string

datatype bot_name = BotDependabot | BotRenovate
datatype bot_action = BotRebase | BotRecreate
datatype bot_phase = BotQueued | BotRebasing | BotExpired
datatype update_phase = UpdateQueued | UpdateExpired

section \<open>Rows\<close>

record check_counts =
  Passed :: int
  Skipped :: int
  Running :: int
  Waiting :: int
  Failed :: int

definition no_checks :: check_counts where
  "no_checks = \<lparr>Passed = 0, Skipped = 0, Running = 0, Waiting = 0, Failed = 0\<rparr>"

record label =
  lblName :: string
  lblColor :: string

record run_facts =
  rfStatus :: check_status
  rfConclusion :: check_conclusion
  rfStartedAt :: "time option"
  rfCompletedAt :: "time option"

record check =
  ckName :: string
  ckStatus :: check_status
  ckConclusion :: check_conclusion
  ckState :: check_state
  ckReportedConclusion :: string
  ckURL :: string
  ckJobID :: int
  ckRunID :: int
  ckRunName :: string
  ckRunNumber :: int
  ckRequired :: "bool option"
  ckStartedAt :: "time option"
  ckCompletedAt :: "time option"
  ckRunAttempt :: int
  ckRun :: "run_facts option"
  ckFailedStep :: string
  ckExcerpt :: string

record review_state =
  rvDecision :: review_decision
  rvApprovals :: int
  rvRequestedReviewers :: int

text \<open>\<open>DeriveReviewDecision\<close>: a standing change request wins, then any approval.\<close>

definition DeriveReviewDecision :: "int \<Rightarrow> int \<Rightarrow> int \<Rightarrow> review_decision" where
  "DeriveReviewDecision approvals changesRequested requested =
     (if changesRequested > 0 then ReviewChangesRequested
      else if approvals > 0 then ReviewApproved
      else if requested > 0 then ReviewRequired
      else ReviewNone)"

record stack_position =
  Position :: int
  StackSize :: int

record stack_ref =
  srNumber :: int
  srURL :: string

record issue_ref =
  irRepo :: string
  irNumber :: int
  irURL :: string

record bot_request =
  brBot :: bot_name
  brAction :: bot_action
  brPhase :: bot_phase
  brRequestedAt :: time
  brExpiresAt :: time
  brAcknowledgedAt :: "time option"
  brCommentURL :: string

record update_request =
  urPhase :: update_phase
  urRequestedAt :: time
  urExpiresAt :: time

record pull_request =
  prForge :: forge
  prRepo :: string
  prNumber :: int
  prTitle :: string
  prURL :: string
  prAuthor :: string
  prAuthorAvatarURL :: string
  prDraft :: bool
  prLabels :: "label list"
  prCreatedAt :: time
  prUpdatedAt :: time
  prCI :: ci_status
  prChecks :: check_counts
  prMergeStatus :: merge_status
  prBehind :: bool
  prBaseBranch :: string
  prHeadBranch :: string
  prCrossRepository :: bool
  prStack :: "stack_position option"
  prStackedOn :: "stack_ref option"
  prStackChildren :: "int list"
  prBotRequest :: "bot_request option"
  prUpdateRequest :: "update_request option"
  prRequestedReviewerLogins :: "string list"
  prReviewComments :: int
  prConversationComments :: int
  prClosesIssues :: "issue_ref list"
  prMentionsIssues :: "issue_ref list"
  prUnresolvedThreads :: "int option"
  prAwaitingWorkflowApproval :: bool
  prFailingOnlyForApproval :: bool
  prHeadSHA :: string
  prRenovateRebaseRequested :: bool
  prEmpty :: bool
  prAutoMergeEnabled :: "bool option"
  prAutoMergeHeldBy :: "auto_merge_holder option"
  prAutoMergeAllowed :: "bool option"
  prReview :: "review_state option"

text \<open>The zero value of the struct, the starting point of the concrete examples.\<close>

definition zero_pr :: pull_request where
  "zero_pr = \<lparr>prForge = ForgeGitHub, prRepo = '''', prNumber = 0, prTitle = '''', prURL = '''',
     prAuthor = '''', prAuthorAvatarURL = '''', prDraft = False, prLabels = [], prCreatedAt = 0,
     prUpdatedAt = 0, prCI = CINone, prChecks = no_checks, prMergeStatus = MergeUnknown,
     prBehind = False, prBaseBranch = '''', prHeadBranch = '''', prCrossRepository = False,
     prStack = None, prStackedOn = None, prStackChildren = [], prBotRequest = None,
     prUpdateRequest = None, prRequestedReviewerLogins = [], prReviewComments = 0,
     prConversationComments = 0, prClosesIssues = [], prMentionsIssues = [],
     prUnresolvedThreads = None, prAwaitingWorkflowApproval = False,
     prFailingOnlyForApproval = False, prHeadSHA = '''', prRenovateRebaseRequested = False,
     prEmpty = False, prAutoMergeEnabled = None, prAutoMergeHeldBy = None,
     prAutoMergeAllowed = None, prReview = None\<rparr>"

record issue =
  isForge :: forge
  isRepo :: string
  isNumber :: int
  isTitle :: string
  isURL :: string
  isAuthor :: string
  isAuthorAvatarURL :: string
  isLabels :: "label list"
  isCreatedAt :: time
  isUpdatedAt :: time

record rate_limit =
  rlLimit :: int
  rlRemaining :: int
  rlResetsAt :: time
  rlCost :: int

record forge_health =
  fhForge :: forge
  fhReachable :: bool
  fhError :: string
  fhErrorKind :: "forge_error_kind option"
  fhRepoCount :: int
  fhStarting :: bool
  fhStaleSince :: "time option"
  fhRateLimitGraphQL :: "rate_limit option"
  fhRateLimitREST :: "rate_limit option"
  fhDependabotCommandsBlocked :: string
  fhRerunChecksBlocked :: string

definition zero_health :: forge_health where
  "zero_health = \<lparr>fhForge = ForgeOther '''', fhReachable = False, fhError = '''',
     fhErrorKind = None, fhRepoCount = 0, fhStarting = False, fhStaleSince = None,
     fhRateLimitGraphQL = None, fhRateLimitREST = None, fhDependabotCommandsBlocked = '''',
     fhRerunChecksBlocked = ''''\<rparr>"

record repo =
  rpForge :: forge
  rpFullName :: string
  rpURL :: string
  rpLogoURL :: string
  rpHasWebhook :: bool
  rpCanManageWebhooks :: bool
  rpWebhookLockedByConnection :: bool
  rpWebhookNeedsToken :: bool
  rpStaleSince :: "time option"
  rpFailingSince :: "time option"

record main_branch_commit =
  mcSHA :: string
  mcSubject :: string
  mcAuthor :: string
  mcCommittedAt :: "time option"

record main_branch_run =
  mrRunID :: int
  mrRunAttempt :: int
  mrStatus :: check_status
  mrConclusion :: check_conclusion
  mrStartedAt :: "time option"
  mrCompletedAt :: "time option"
  mrJobsTruncated :: bool
  mrChecks :: "check list"

record main_branch_release =
  mlTag :: string
  mlURL :: string

record main_branch =
  mbForge :: forge
  mbFullName :: string
  mbURL :: string
  mbBranch :: string
  mbStatus :: main_branch_status
  mbCommit :: "main_branch_commit option"
  mbFailingJobs :: "string list"
  mbFinishedAt :: "time option"
  mbDurationSeconds :: "int option"
  mbRunURL :: string
  mbChecks :: check_counts
  mbRuns :: "main_branch_run list"
  mbLatestRelease :: "main_branch_release option"
  mbStaleSince :: "time option"

record snapshot =
  snGeneratedAt :: time
  snForges :: "forge_health list"
  snPullRequests :: "pull_request list"
  snIssues :: "issue list"
  snRepos :: "repo list"
  snMainBranches :: "main_branch list"

definition newEmptySnapshot :: snapshot where
  "newEmptySnapshot = \<lparr>snGeneratedAt = zero_time, snForges = [], snPullRequests = [],
     snIssues = [], snRepos = [], snMainBranches = []\<rparr>"

section \<open>Errors of the forge clients\<close>

record client_error =
  ceKind :: forge_error_kind
  ceErr :: string               \<comment> \<open>the text of the wrapped error\<close>
  ceRateLimit :: "rate_limit option"
  cePermissionMessage :: string
  ceUpstreamStatus :: int
  ceRequestID :: string
  cePartial :: string
  ceMayHaveRestarted :: bool

text \<open>
  A Go \<open>error\<close>, as the code looks at it: its text, and the \<open>*ClientError\<close> that
  \<open>errors.AsType\<close> finds in its chain, if there is one.
\<close>

record go_error =
  errText :: string
  errClient :: "client_error option"

definition ForgeFailed :: "client_error \<Rightarrow> bool" where
  "ForgeFailed e \<longleftrightarrow> ceUpstreamStatus e \<ge> 500 \<and> ceUpstreamStatus e < 600"

text \<open>The em dash the messages use, in UTF-8.\<close>

definition em_dash :: string where
  "em_dash = [CHR 0xE2, CHR 0x80, CHR 0x94]"

definition forgeErrorDetails :: "forge_error_kind \<rightharpoonup> string" where
  "forgeErrorDetails k = (case k of
     ForgeErrorUnreachable \<Rightarrow> Some ''The forge didn't respond, or the connection to it failed.''
   | ForgeErrorUnauthorized \<Rightarrow> Some (''The saved credential was rejected '' @ em_dash @ '' it may be missing, expired, or revoked.'')
   | ForgeErrorNotFound \<Rightarrow> Some ''The configured instance URL doesn't match anything reachable.''
   | ForgeErrorRateLimited \<Rightarrow> Some ''This account's request budget with the forge is used up for now.''
   | ForgeErrorConflict \<Rightarrow> Some ''The forge reported the change is no longer possible as requested.''
   | _ \<Rightarrow> None)"

definition HumanizeForgeError :: "forge_error_kind \<Rightarrow> string" where
  "HumanizeForgeError kind = (case forgeErrorDetails kind of Some msg \<Rightarrow> msg
     | None \<Rightarrow> ''An unexpected error occurred talking to the forge.'')"

section \<open>Keys\<close>

text \<open>
  One key form names a pull request everywhere: \<open>settledKey\<close>, \<open>dependabotPRKey\<close>,
  \<open>autoUpdateKey\<close> and \<open>pullRequestKey\<close> all build \<open>forge/repo#number\<close>.
\<close>

definition settledKey :: "forge \<Rightarrow> string \<Rightarrow> int \<Rightarrow> string" where
  "settledKey f r n = forge_str f @ ''/'' @ r @ ''#'' @ itoa n"

definition autoUpdateKey :: "forge \<Rightarrow> string \<Rightarrow> int \<Rightarrow> string" where
  "autoUpdateKey f r n = forge_str f @ ''/'' @ r @ ''#'' @ itoa n"

definition pullRequestKey :: "forge \<Rightarrow> string \<Rightarrow> int \<Rightarrow> string" where
  "pullRequestKey f r n = forge_str f @ ''/'' @ r @ ''#'' @ itoa n"

definition dependabotPRKey :: "pull_request \<Rightarrow> string" where
  "dependabotPRKey pr = forge_str (prForge pr) @ ''/'' @ prRepo pr @ ''#'' @ itoa (prNumber pr)"

definition pr_key :: "pull_request \<Rightarrow> string" where
  "pr_key pr = settledKey (prForge pr) (prRepo pr) (prNumber pr)"

lemma dependabotPRKey_eq: "dependabotPRKey pr = pr_key pr"
  by (simp add: dependabotPRKey_def pr_key_def settledKey_def)

text \<open>
  \<open>splitSettledKey\<close>: the forge before the first slash, the repo up to the last hash. The Go
  code slices \<open>rest[:LastIndex]\<close>, which panics where there is no hash; that is \<open>None\<close>.
\<close>

definition splitSettledKey :: "string \<Rightarrow> (forge \<times> string) option" where
  "splitSettledKey key =
     (let (f, rest) = (case cut key ''/'' of Some p \<Rightarrow> p | None \<Rightarrow> (key, ''''))
      in case cut_last rest (CHR ''#'') of
           Some (repo, _) \<Rightarrow> Some (forge_of f, repo)
         | None \<Rightarrow> None)"

definition splitAutoUpdateKey :: "string \<Rightarrow> (forge \<times> string) option" where
  "splitAutoUpdateKey key = (case cut key ''/'' of
       None \<Rightarrow> None
     | Some (f, rest) \<Rightarrow> (case cut_last rest (CHR ''#'') of
           None \<Rightarrow> None
         | Some (repo, _) \<Rightarrow> Some (forge_of f, repo)))"

definition parseAutoMergeKey :: "string \<Rightarrow> (forge \<times> string \<times> int) option" where
  "parseAutoMergeKey key = (case cut key ''/'' of
       None \<Rightarrow> None
     | Some (f, rest) \<Rightarrow> (case cut_last rest (CHR ''#'') of
           None \<Rightarrow> None
         | Some (repo, num) \<Rightarrow> (case atoi num of
               None \<Rightarrow> None
             | Some n \<Rightarrow> Some (forge_of f, repo, n))))"

text \<open>A forge whose name has no slash: both real ones. Keys of such forges split back.\<close>

definition slash_free :: "forge \<Rightarrow> bool" where
  "slash_free f \<longleftrightarrow> CHR ''/'' \<notin> set (forge_str f)"

lemma slash_free_simps [simp]: "slash_free ForgeGitHub" "slash_free ForgeForgejo"
  by (simp_all add: slash_free_def forge_str_def)

definition valid_forge :: "forge \<Rightarrow> bool" where
  "valid_forge f \<longleftrightarrow> forge_ok f \<and> slash_free f"

lemma valid_forge_simps [simp]: "valid_forge ForgeGitHub" "valid_forge ForgeForgejo"
  by (simp_all add: valid_forge_def)

lemma cut_key:
  "slash_free f \<Longrightarrow> cut (settledKey f r n) ''/'' = Some (forge_str f, r @ ''#'' @ itoa n)"
  by (simp add: settledKey_def slash_free_def cut_single)

lemma cut_last_key: "cut_last (r @ ''#'' @ itoa n) (CHR ''#'') = Some (r, itoa n)"
  by (simp add: cut_last_append)

lemmas key_split = cut_key cut_last_key

section \<open>The contract of a key\<close>

text \<open>
  Every registry of the aggregator (bot requests, box overrides, update requests, settled pull
  requests, attempts, choices) is a map under such a key, and the sweeps split the key back to
  ask which repo it belongs to. That is safe as long as a key splits back to what it was built
  from and tells two numbers of a repo apart.
\<close>

locale pr_keys =
  fixes key :: "forge \<Rightarrow> string \<Rightarrow> int \<Rightarrow> string"
    and split_key :: "string \<Rightarrow> (forge \<times> string) option"
  assumes split_key: "valid_forge f \<Longrightarrow> split_key (key f r n) = Some (f, r)"
    and key_number: "key f r n = key f r m \<Longrightarrow> n = m"
begin

lemma key_repo:
  "valid_forge f \<Longrightarrow> valid_forge f' \<Longrightarrow> key f r n = key f' r' m \<Longrightarrow> f = f' \<and> r = r'"
  using split_key[of f r n] split_key[of f' r' m] by simp

lemma key_inj:
  assumes "valid_forge f" "valid_forge f'" "key f r n = key f' r' m"
  shows "f = f' \<and> r = r' \<and> n = m"
  using key_repo[OF assms] assms(3) key_number by blast

end

interpretation settled: pr_keys settledKey splitSettledKey
proof unfold_locales
  fix f r n
  assume "valid_forge f"
  then show "splitSettledKey (settledKey f r n) = Some (f, r)"
    by (simp add: splitSettledKey_def key_split valid_forge_def forge_of_str del: append.simps)
next
  fix f r n m
  assume "settledKey f r n = settledKey f r m"
  then show "n = m" by (simp add: settledKey_def itoa_inj)
qed

interpretation choice: pr_keys autoUpdateKey splitAutoUpdateKey
proof unfold_locales
  fix f r n
  assume "valid_forge f"
  then show "splitAutoUpdateKey (autoUpdateKey f r n) = Some (f, r)"
    using cut_key[of f r n] cut_last_key[of r n]
    by (simp add: splitAutoUpdateKey_def autoUpdateKey_def settledKey_def valid_forge_def
        forge_of_str del: append.simps)
next
  fix f r n m
  assume "autoUpdateKey f r n = autoUpdateKey f r m"
  then show "n = m" by (simp add: autoUpdateKey_def itoa_inj)
qed

lemma parseAutoMergeKey_key:
  "valid_forge f \<Longrightarrow> - (2 ^ 63) \<le> n \<Longrightarrow> n < 2 ^ 63 \<Longrightarrow>
   parseAutoMergeKey (settledKey f r n) = Some (f, r, n)"
  by (simp add: parseAutoMergeKey_def key_split valid_forge_def forge_of_str del: append.simps)

text \<open>Two rows of one key are the same pull request.\<close>

lemma pr_key_inj:
  assumes "valid_forge (prForge p)" "valid_forge (prForge q)" "pr_key p = pr_key q"
  shows "prForge p = prForge q \<and> prRepo p = prRepo q \<and> prNumber p = prNumber q"
  using settled.key_inj[of "prForge p" "prForge q"] assms by (simp add: pr_key_def)

end
