(* ===== verification/Pull_Request_Kind.thy ===== *)
theory Pull_Request_Kind
  imports FD_Model
begin

text \<open>
  What sort of pull request a row is (\<open>bot_pr.go\<close>), the quick filters
  (\<open>quick_filters.go\<close>), the housekeeping rule (\<open>housekeeping.go\<close>) and the automatic-update
  state of one pull request (\<open>pull_request_auto_update.go\<close>).
\<close>

section \<open>Bots and releases\<close>

definition DependabotRebaseComment :: string where
  "DependabotRebaseComment = ''@dependabot rebase''"

definition DependabotRecreateComment :: string where
  "DependabotRecreateComment = ''@dependabot recreate''"

definition releasePleaseBranchPrefix :: string where
  "releasePleaseBranchPrefix = ''release-please--branches--''"

definition releasePleaseComponentSep :: string where
  "releasePleaseComponentSep = ''--components--''"

definition fromReleasePleaseBranch :: "pull_request \<Rightarrow> bool" where
  "fromReleasePleaseBranch pr =
     (if prCrossRepository pr \<or> prBaseBranch pr = '''' then False
      else case cut_prefix (prHeadBranch pr) releasePleaseBranchPrefix of
          None \<Rightarrow> False
        | Some rest \<Rightarrow>
            (case cut rest releasePleaseComponentSep of Some (base, _) \<Rightarrow> base | None \<Rightarrow> rest)
              = prBaseBranch pr)"

definition isReleasePleasePR :: "pull_request \<Rightarrow> bool" where
  "isReleasePleasePR pr =
     (if list_ex (\<lambda>l. has_prefix (lblName l) ''autorelease:'') (prLabels pr) then True
      else fromReleasePleaseBranch pr)"

definition isDependabotPR :: "pull_request \<Rightarrow> bool" where
  "isDependabotPR pr \<longleftrightarrow> prAuthor pr = ''dependabot'' \<or> prAuthor pr = ''dependabot[bot]''"

definition isRenovatePR :: "pull_request \<Rightarrow> string list \<Rightarrow> bool" where
  "isRenovatePR pr authors =
     (if equal_fold (prAuthor pr) ''renovatebot'' \<or> prAuthor pr = ''renovate''
         \<or> prAuthor pr = ''renovate[bot]'' then True
      else if has_prefix (prHeadBranch pr) ''renovate/'' then True
      else prAuthor pr \<noteq> '''' \<and> list_ex (\<lambda>a. equal_fold a (prAuthor pr)) authors)"

datatype pull_request_kind = KindRelease | KindDependency | KindRegular

definition KindOf :: "pull_request \<Rightarrow> string list \<Rightarrow> pull_request_kind" where
  "KindOf pr renovateAuthors =
     (if isReleasePleasePR pr then KindRelease
      else if isDependabotPR pr \<or> isRenovatePR pr renovateAuthors then KindDependency
      else KindRegular)"

definition isBotPR :: "pull_request \<Rightarrow> string list \<Rightarrow> bool" where
  "isBotPR pr renovateAuthors \<longleftrightarrow> isDependabotPR pr \<or> isRenovatePR pr renovateAuthors"

section \<open>Quick filters\<close>

definition IsReadyToMerge :: "pull_request \<Rightarrow> bool" where
  "IsReadyToMerge pr \<longleftrightarrow>
     prMergeStatus pr = MergeMergeable \<and> prCI pr = CISuccess \<and> \<not> prDraft pr"

definition IsFailingCI :: "pull_request \<Rightarrow> bool" where
  "IsFailingCI pr \<longleftrightarrow> prCI pr = CIFailure \<and> \<not> prFailingOnlyForApproval pr"

definition NeedsReview :: "pull_request \<Rightarrow> bool" where
  "NeedsReview pr =
     (if prDraft pr then False
      else case prReview pr of
          None \<Rightarrow> False
        | Some r \<Rightarrow> rvDecision r = ReviewRequired
            \<or> (rvDecision r = ReviewNone \<and> rvRequestedReviewers r > 0))"

definition ReviewRequestedFrom :: "pull_request \<Rightarrow> string \<Rightarrow> bool" where
  "ReviewRequestedFrom pr login =
     (if prDraft pr \<or> login = '''' then False
      else list_ex (\<lambda>l. equal_fold l login) (prRequestedReviewerLogins pr))"

definition dependencyDashboardTitle :: string where
  "dependencyDashboardTitle = ''Dependency Dashboard''"

definition IsHousekeepingIssue :: "issue \<Rightarrow> bool" where
  "IsHousekeepingIssue i \<longleftrightarrow> trim_space (isTitle i) = dependencyDashboardTitle"

section \<open>Automatic updates of one pull request\<close>

datatype auto_update_source = AutoUpdateFromRepo | AutoUpdateFromPullRequest

record auto_update_unavailable =
  auCode :: string
  auReason :: string

record auto_update =
  auEnabled :: bool
  auSource :: auto_update_source
  auUnavailable :: "auto_update_unavailable option"

definition PullRequestAutoUpdate :: "pull_request \<Rightarrow> bool \<Rightarrow> bool option \<Rightarrow> auto_update" where
  "PullRequestAutoUpdate pr repoEnabled own =
     (let start = \<lparr>auEnabled = repoEnabled, auSource = AutoUpdateFromRepo, auUnavailable = None\<rparr>;
          state = (case own of
              Some v \<Rightarrow> if v \<noteq> repoEnabled
                then start\<lparr>auEnabled := v, auSource := AutoUpdateFromPullRequest\<rparr> else start
            | None \<Rightarrow> start)
      in if prDraft pr then state\<lparr>auEnabled := False, auUnavailable :=
             Some \<lparr>auCode = ''draft'', auReason = ''A draft pull request is never updated automatically: its branch is still being worked on.''\<rparr>\<rparr>
         else if isReleasePleasePR pr then state\<lparr>auEnabled := False, auUnavailable :=
             Some \<lparr>auCode = ''release_please'', auReason = ''A release-please pull request is never updated automatically: release-please rewrites its own branch with every release.''\<rparr>\<rparr>
         else state)"

text \<open>The sets and maps of the settings store, under \<open>forge/owner/repo\<close> and the choice keys.\<close>

definition repo_path :: "forge \<Rightarrow> string \<Rightarrow> string" where
  "repo_path f r = forge_str f @ ''/'' @ r"

definition autoUpdateWanted :: "pull_request \<Rightarrow> string set \<Rightarrow> (string \<rightharpoonup> bool) \<Rightarrow> bool" where
  "autoUpdateWanted pr enabledRepos overrides =
     auEnabled (PullRequestAutoUpdate pr (repo_path (prForge pr) (prRepo pr) \<in> enabledRepos)
       (overrides (autoUpdateKey (prForge pr) (prRepo pr) (prNumber pr))))"

definition autoUpdateWantedWithBots ::
  "pull_request \<Rightarrow> string set \<Rightarrow> string set \<Rightarrow> (string \<rightharpoonup> bool) \<Rightarrow> string list \<Rightarrow> bool" where
  "autoUpdateWantedWithBots pr enabledRepos rebaseBots overrides renovateAuthors =
     (let repo = repo_path (prForge pr) (prRepo pr);
          enabled = (if repo \<in> rebaseBots \<and> isBotPR pr renovateAuthors then {repo} else enabledRepos)
      in autoUpdateWanted pr enabled overrides)"

section \<open>Properties\<close>

lemma fromReleasePleaseBranch_cross [simp]: "prCrossRepository pr \<Longrightarrow> \<not> fromReleasePleaseBranch pr"
  by (simp add: fromReleasePleaseBranch_def)

text \<open>
  The branch rule, read as a fact about the names: the head branch is the prefix, the base
  branch, and nothing more or a component after the separator.
\<close>

lemma fromReleasePleaseBranch_shape:
  assumes "fromReleasePleaseBranch pr"
  shows "\<not> prCrossRepository pr \<and> prBaseBranch pr \<noteq> '''' \<and>
    (prHeadBranch pr = releasePleaseBranchPrefix @ prBaseBranch pr \<or>
     (\<exists>c. prHeadBranch pr = releasePleaseBranchPrefix @ prBaseBranch pr @ releasePleaseComponentSep @ c))"
proof -
  from assms have nc: "\<not> prCrossRepository pr" "prBaseBranch pr \<noteq> ''''"
    by (auto simp: fromReleasePleaseBranch_def split: if_splits)
  with assms obtain rest where rest: "cut_prefix (prHeadBranch pr) releasePleaseBranchPrefix = Some rest"
    and base: "(case cut rest releasePleaseComponentSep of Some (b, _) \<Rightarrow> b | None \<Rightarrow> rest) = prBaseBranch pr"
    by (auto simp: fromReleasePleaseBranch_def split: option.splits)
  from rest have head: "prHeadBranch pr = releasePleaseBranchPrefix @ rest"
    by (auto simp: cut_prefix_def has_prefix_iff split: if_splits)
  show ?thesis
  proof (cases "cut rest releasePleaseComponentSep")
    case None
    with nc head base show ?thesis by simp
  next
    case (Some p)
    then obtain b c where p: "cut rest releasePleaseComponentSep = Some (b, c)" by (cases p) auto
    with nc head base cut_Some_append[OF p] show ?thesis by auto
  qed
qed

lemma KindOf_regular_iff:
  "KindOf pr rs = KindRegular \<longleftrightarrow> \<not> isReleasePleasePR pr \<and> \<not> isBotPR pr rs"
  by (simp add: KindOf_def isBotPR_def)

lemma isRenovatePR_fold:
  "a \<in> set authors \<Longrightarrow> equal_fold a (prAuthor pr) \<Longrightarrow> prAuthor pr \<noteq> '''' \<Longrightarrow> isRenovatePR pr authors"
  by (auto simp: isRenovatePR_def list_ex_iff)

text \<open>A draft or a release-please pull request is never updated, whatever was chosen.\<close>

lemma autoUpdate_enabled_iff:
  "auEnabled (PullRequestAutoUpdate pr r own) \<longleftrightarrow>
     \<not> prDraft pr \<and> \<not> isReleasePleasePR pr \<and> (case own of Some v \<Rightarrow> v | None \<Rightarrow> r)"
  by (auto simp: PullRequestAutoUpdate_def Let_def split: option.splits)

lemma autoUpdate_unavailable_iff:
  "auUnavailable (PullRequestAutoUpdate pr r own) \<noteq> None \<longleftrightarrow> prDraft pr \<or> isReleasePleasePR pr"
  by (auto simp: PullRequestAutoUpdate_def Let_def split: option.splits)

end
