(* ===== verification/Allowed_Actions.thy ===== *)
theory Allowed_Actions
  imports Pull_Request_Kind
begin

text \<open>
  \<open>allowed_actions.go\<close> and \<open>pull_request_status.go\<close>: which actions a pull request offers,
  why an offered one is blocked, which one is the main button, and the one reason the row shows.
  The rules are translated in the code's order, one definition per function; a Go slice that the
  code edits in place (\<open>blockHeadPushes\<close>, \<open>markPrimary\<close>) is returned changed.
\<close>

section \<open>Actions and codes\<close>

datatype action_name = ActionMerge | ActionClose | ActionUpdateBranch | ActionAutoMerge
  | ActionCancelAutoMerge | ActionDependabotRebase | ActionDependabotRecreate
  | ActionRenovateRebase | ActionCancelRenovateRebase | ActionRerunChecks | ActionCancelRun

datatype action_code = ActionAlreadyMerged | ActionAlreadyClosed | ActionNotMergeable
  | ActionConflict | ActionBehind | ActionChecksPending | ActionChecksFailing
  | ActionBlockedByProtection | ActionAlreadyUpToDate | ActionAutoMergeNotAllowed
  | ActionReadyToMerge | ActionLabelMissing | ActionPermission | ActionRateLimited
  | ActionForgeError | ActionStacked | ActionAlreadyRequested | ActionNotRateLimited
  | ActionNotOpen | ActionNotReopenable | ActionUnknown

record blocked =
  blCode :: action_code
  blMessage :: string
  blNext :: string

record action_availability =
  aaAction :: action_name
  aaBlocked :: "blocked option"
  aaPrimary :: bool

abbreviation avail :: "action_name \<Rightarrow> action_availability" where
  "avail a \<equiv> \<lparr>aaAction = a, aaBlocked = None, aaPrimary = False\<rparr>"

section \<open>Merge\<close>

definition approvalReason :: blocked where
  "approvalReason = \<lparr>blCode = ActionBlockedByProtection,
     blMessage = ''Workflow runs are waiting for approval'',
     blNext = ''Approve them on GitHub to unlock Merge''\<rparr>"

definition mergeBlocked :: "action_code \<Rightarrow> string \<Rightarrow> string \<Rightarrow> action_availability" where
  "mergeBlocked code message next =
     (avail ActionMerge)\<lparr>aaBlocked := Some \<lparr>blCode = code, blMessage = message, blNext = next\<rparr>\<rparr>"

definition heldForApproval :: "pull_request \<Rightarrow> bool" where
  "heldForApproval pr \<longleftrightarrow> prAwaitingWorkflowApproval pr \<and> prCI pr \<noteq> CIPending \<and>
     (prMergeStatus pr = MergeBlocked \<or> prMergeStatus pr = MergeUnknown)"

definition forgeMergeAvailability :: "pull_request \<Rightarrow> action_availability" where
  "forgeMergeAvailability pr =
     (if prMergeStatus pr = MergeBlocked \<and> prCI pr = CIFailure
        then mergeBlocked ActionChecksFailing ''Blocked, CI is failing'' ''Fix the failing check to unlock Merge''
      else if prMergeStatus pr = MergeBlocked
        then mergeBlocked ActionBlockedByProtection ''Blocked by the forge'' ''A required check or review is missing''
      else if prMergeStatus pr \<noteq> MergeMergeable
        then mergeBlocked ActionNotMergeable ''Merge status not known yet'' ''Merge unlocks once the forge reports it''
      else avail ActionMerge)"

definition mergeAvailability :: "pull_request \<Rightarrow> action_availability" where
  "mergeAvailability pr =
     (case prStackedOn pr of
        Some s \<Rightarrow> (let parent = ''#'' @ itoa (srNumber s) in
          mergeBlocked ActionStacked (''Stacked on '' @ parent @ ''. Merge that one first.'')
            (''Merge unlocks once '' @ parent @ '' merges and this pull request is retargeted.''))
      | None \<Rightarrow>
        if prMergeStatus pr = MergeConflicting
          then mergeBlocked ActionConflict ''Merge conflict'' ''Resolve it on the forge to unlock Merge''
        else if prDraft pr
          then mergeBlocked ActionNotMergeable ''Draft pull request'' ''Mark it ready for review to unlock Merge''
        else if prMergeStatus pr = MergeUnstable then avail ActionMerge
        else if prCI pr = CIPending
          then mergeBlocked ActionChecksPending ''Waiting for CI to finish''
                 (if prAutoMergeEnabled pr = Some True then '''' else ''Merge unlocks automatically'')
        else if heldForApproval pr
          then mergeBlocked (blCode approvalReason) (blMessage approvalReason) (blNext approvalReason)
        else if prBehind pr \<and> prMergeStatus pr \<noteq> MergeMergeable
          then mergeBlocked ActionBehind ''Behind the base branch'' ''Bring it up to date to unlock Merge''
        else forgeMergeAvailability pr)"

section \<open>The other actions\<close>

definition updateBranchAvailability ::
  "pull_request \<Rightarrow> string list \<Rightarrow> action_availability option" where
  "updateBranchAvailability pr renovateAuthors =
     (if \<not> prBehind pr \<or> prEmpty pr then None
      else if (isDependabotPR pr \<or> isRenovatePR pr renovateAuthors) \<and> \<not> isReleasePleasePR pr then None
      else if prMergeStatus pr = MergeConflicting
        then Some ((avail ActionUpdateBranch)\<lparr>aaBlocked := Some \<lparr>blCode = ActionConflict,
               blMessage = ''Conflicts need fixing by hand '' @ em_dash @ '' resolve them on the forge.'',
               blNext = ''''\<rparr>\<rparr>)
      else Some (avail ActionUpdateBranch))"

definition autoMergeOffered :: "pull_request \<Rightarrow> bool" where
  "autoMergeOffered pr =
     (if prForge pr \<noteq> ForgeGitHub \<and> prForge pr \<noteq> ForgeForgejo then False
      else if prForge pr = ForgeForgejo \<and> prDraft pr then False
      else if prAutoMergeEnabled pr = Some True then False
      else if prAutoMergeAllowed pr = Some False then False
      else if prEmpty pr \<or> prMergeStatus pr = MergeConflicting then False
      else if prStackedOn pr \<noteq> None then False
      else if prMergeStatus pr = MergeMergeable \<and> prCI pr = CISuccess \<and> \<not> prBehind pr then False
      else True)"

definition botRequestPending :: "pull_request \<Rightarrow> bot_name \<Rightarrow> bool" where
  "botRequestPending pr b = (case prBotRequest pr of None \<Rightarrow> False
     | Some req \<Rightarrow> brBot req = b \<and> (brPhase req = BotQueued \<or> brPhase req = BotRebasing))"

definition renovateRebasing :: "pull_request \<Rightarrow> bool" where
  "renovateRebasing pr = (case prBotRequest pr of None \<Rightarrow> False
     | Some req \<Rightarrow> brBot req = BotRenovate \<and> brPhase req = BotRebasing)"

definition renovateRebaseActions :: "pull_request \<Rightarrow> action_availability list" where
  "renovateRebaseActions pr =
     (if renovateRebasing pr then []
      else if prRenovateRebaseRequested pr then [avail ActionCancelRenovateRebase]
      else if botRequestPending pr BotRenovate then []
      else [avail ActionRenovateRebase])"

text \<open>The list as the code appends it, before head pushes are blocked and one entry is marked.\<close>

definition offeredActions :: "pull_request \<Rightarrow> string list \<Rightarrow> action_availability list" where
  "offeredActions pr renovateAuthors =
     (if \<not> prEmpty pr then [mergeAvailability pr] else []) @
     [avail ActionClose] @
     (case updateBranchAvailability pr renovateAuthors of Some a \<Rightarrow> [a] | None \<Rightarrow> []) @
     (if autoMergeOffered pr then [avail ActionAutoMerge] else []) @
     (if prAutoMergeEnabled pr = Some True then [avail ActionCancelAutoMerge] else []) @
     (if prForge pr = ForgeGitHub \<and> isDependabotPR pr \<and> \<not> botRequestPending pr BotDependabot
        then [avail ActionDependabotRebase, avail ActionDependabotRecreate] else []) @
     (if isRenovatePR pr renovateAuthors then renovateRebaseActions pr else []) @
     (if IsFailingCI pr then [avail ActionRerunChecks] else []) @
     (if prCI pr = CIPending \<or> Running (prChecks pr) > 0 \<or> Waiting (prChecks pr) > 0
        then [avail ActionCancelRun] else [])"

section \<open>Blocking head pushes\<close>

fun mergeHeldForApproval :: "action_availability list \<Rightarrow> bool" where
  "mergeHeldForApproval [] = False"
| "mergeHeldForApproval (a # as) =
     (if aaAction a = ActionMerge then aaBlocked a = Some approvalReason
      else mergeHeldForApproval as)"

definition HeadPushBlockedNext :: string where
  "HeadPushBlockedNext = ''Approve them on GitHub, then this can run''"

definition pushesHead :: "action_name \<Rightarrow> bool" where
  "pushesHead a \<longleftrightarrow> a \<in> {ActionUpdateBranch, ActionRenovateRebase, ActionDependabotRebase,
     ActionDependabotRecreate}"

definition blockHeadPushes ::
  "pull_request \<Rightarrow> action_availability list \<Rightarrow> action_availability list" where
  "blockHeadPushes pr actions =
     (if \<not> prBehind pr \<or> \<not> mergeHeldForApproval actions then actions
      else map (\<lambda>a. if pushesHead (aaAction a) \<and> aaBlocked a = None
             then a\<lparr>aaBlocked := Some \<lparr>blCode = ActionBlockedByProtection,
                      blMessage = blMessage approvalReason, blNext = HeadPushBlockedNext\<rparr>\<rparr>
             else a) actions)"

section \<open>The main button\<close>

definition botRebases :: "action_name list" where
  "botRebases = [ActionRenovateRebase, ActionDependabotRebase]"

definition botRebaseWorthOffering :: "pull_request \<Rightarrow> bool" where
  "botRebaseWorthOffering pr \<longleftrightarrow> prBehind pr \<and> prMergeStatus pr \<noteq> MergeConflicting
     \<and> \<not> prDraft pr \<and> prStackedOn pr = None"

fun mergeCandidates :: "pull_request \<Rightarrow> action_availability list \<Rightarrow> action_name list" where
  "mergeCandidates pr [] = []"
| "mergeCandidates pr (a # as) =
     (if aaAction a \<noteq> ActionMerge then mergeCandidates pr as
      else if aaBlocked a = None \<and> prCI pr \<noteq> CIFailure then [ActionMerge]
      else if (case aaBlocked a of Some b \<Rightarrow> blCode b = ActionBehind | None \<Rightarrow> False)
        then ActionUpdateBranch # botRebases
      else if botRebaseWorthOffering pr then botRebases
      else mergeCandidates pr as)"

definition primaryCandidates :: "pull_request \<Rightarrow> action_availability list \<Rightarrow> action_name list" where
  "primaryCandidates pr actions =
     (if prEmpty pr then [ActionClose] else mergeCandidates pr actions)"

fun markFirst :: "action_name \<Rightarrow> action_availability list \<Rightarrow> action_availability list option" where
  "markFirst n [] = None"
| "markFirst n (a # as) =
     (if aaAction a = n \<and> aaBlocked a = None then Some (a\<lparr>aaPrimary := True\<rparr> # as)
      else map_option ((#) a) (markFirst n as))"

fun markAny :: "action_name list \<Rightarrow> action_availability list \<Rightarrow> action_availability list" where
  "markAny [] actions = actions"
| "markAny (n # ns) actions =
     (case markFirst n actions of Some marked \<Rightarrow> marked | None \<Rightarrow> markAny ns actions)"

definition markPrimary ::
  "pull_request \<Rightarrow> action_availability list \<Rightarrow> action_availability list" where
  "markPrimary pr actions = markAny (primaryCandidates pr actions) actions"

definition AllowedActions :: "pull_request \<Rightarrow> string list \<Rightarrow> action_availability list" where
  "AllowedActions pr renovateAuthors =
     (let out = blockHeadPushes pr (offeredActions pr renovateAuthors) in markPrimary pr out)"

section \<open>The status line\<close>

record status = blocked +
  stAction :: "action_name option"

fun fixForLoop :: "action_availability list \<Rightarrow> action_name option" where
  "fixForLoop [] = None"
| "fixForLoop (a # as) =
     (if aaPrimary a \<and> (aaAction a = ActionUpdateBranch \<or> aaAction a = ActionRenovateRebase
         \<or> aaAction a = ActionDependabotRebase) then Some (aaAction a)
      else fixForLoop as)"

definition fixFor :: "blocked \<Rightarrow> action_availability list \<Rightarrow> action_name option" where
  "fixFor b actions = (if blCode b \<noteq> ActionBehind then None else fixForLoop actions)"

definition statusOf :: "blocked \<Rightarrow> action_name option \<Rightarrow> status" where
  "statusOf b a = \<lparr>blCode = blCode b, blMessage = blMessage b, blNext = blNext b, stAction = a\<rparr>"

fun statusLoop :: "action_availability list \<Rightarrow> action_availability list \<Rightarrow> status option" where
  "statusLoop all [] = None"
| "statusLoop all (a # as) = (case aaBlocked a of
       Some b \<Rightarrow> if aaAction a = ActionMerge then Some (statusOf b (fixFor b all)) else statusLoop all as
     | None \<Rightarrow> statusLoop all as)"

definition PullRequestStatus :: "pull_request \<Rightarrow> action_availability list \<Rightarrow> status option" where
  "PullRequestStatus pr actions =
     (if prEmpty pr then Some (statusOf \<lparr>blCode = ActionAlreadyUpToDate,
          blMessage = ''Nothing to merge: the branch is already on the target branch.'',
          blNext = ''Close it. There is nothing left to land.''\<rparr> None)
      else statusLoop actions actions)"

section \<open>When Merge is open\<close>

text \<open>The conditions under which Merge is offered and not blocked, in one place.\<close>

definition merge_open :: "pull_request \<Rightarrow> bool" where
  "merge_open pr \<longleftrightarrow> \<not> prEmpty pr \<and> prStackedOn pr = None \<and> \<not> prDraft pr \<and>
     (prMergeStatus pr = MergeUnstable \<or> prMergeStatus pr = MergeMergeable \<and> prCI pr \<noteq> CIPending)"

lemma mergeBlocked_simps [simp]:
  "aaAction (mergeBlocked c m n) = ActionMerge"
  "aaBlocked (mergeBlocked c m n) = Some \<lparr>blCode = c, blMessage = m, blNext = n\<rparr>"
  "aaPrimary (mergeBlocked c m n) = False"
  by (simp_all add: mergeBlocked_def)

lemmas merge_rules = mergeAvailability_def forgeMergeAvailability_def Let_def

lemma mergeAvailability_simps [simp]:
  "aaAction (mergeAvailability pr) = ActionMerge" "\<not> aaPrimary (mergeAvailability pr)"
  by (simp_all add: merge_rules split: option.splits)

lemma mergeAvailability_open_iff:
  "\<not> prEmpty pr \<Longrightarrow> aaBlocked (mergeAvailability pr) = None \<longleftrightarrow> merge_open pr"
  by (auto simp: merge_rules merge_open_def heldForApproval_def split: option.splits)

lemma merge_held_iff:
  "aaBlocked (mergeAvailability pr) = Some approvalReason \<longleftrightarrow>
     prStackedOn pr = None \<and> \<not> prDraft pr \<and> heldForApproval pr"
  by (auto simp: merge_rules heldForApproval_def approvalReason_def split: option.splits)

lemma merge_behind_iff:
  "(\<exists>b. aaBlocked (mergeAvailability pr) = Some b \<and> blCode b = ActionBehind) \<longleftrightarrow>
     prBehind pr \<and> prStackedOn pr = None \<and> \<not> prDraft pr \<and> prCI pr \<noteq> CIPending \<and>
     \<not> heldForApproval pr \<and> prMergeStatus pr \<notin> {MergeConflicting, MergeUnstable, MergeMergeable}"
  by (auto simp: merge_rules heldForApproval_def approvalReason_def split: option.splits)

section \<open>The offered list\<close>

lemma updateBranch_action [simp]:
  "updateBranchAvailability pr ra = Some a \<Longrightarrow> aaAction a = ActionUpdateBranch \<and> \<not> aaPrimary a"
  by (auto simp: updateBranchAvailability_def split: if_splits)

text \<open>Which actions apply to a pull request at all.\<close>

definition offers :: "pull_request \<Rightarrow> string list \<Rightarrow> action_name \<Rightarrow> bool" where
  "offers pr ra a \<longleftrightarrow> (case a of
       ActionMerge \<Rightarrow> \<not> prEmpty pr
     | ActionClose \<Rightarrow> True
     | ActionUpdateBranch \<Rightarrow> prBehind pr \<and> \<not> prEmpty pr \<and> (isBotPR pr ra \<longrightarrow> isReleasePleasePR pr)
     | ActionAutoMerge \<Rightarrow> autoMergeOffered pr
     | ActionCancelAutoMerge \<Rightarrow> prAutoMergeEnabled pr = Some True
     | ActionDependabotRebase \<Rightarrow> prForge pr = ForgeGitHub \<and> isDependabotPR pr \<and> \<not> botRequestPending pr BotDependabot
     | ActionDependabotRecreate \<Rightarrow> prForge pr = ForgeGitHub \<and> isDependabotPR pr \<and> \<not> botRequestPending pr BotDependabot
     | ActionRenovateRebase \<Rightarrow> isRenovatePR pr ra \<and> \<not> prRenovateRebaseRequested pr \<and> \<not> botRequestPending pr BotRenovate
     | ActionCancelRenovateRebase \<Rightarrow> isRenovatePR pr ra \<and> prRenovateRebaseRequested pr \<and> \<not> renovateRebasing pr
     | ActionRerunChecks \<Rightarrow> IsFailingCI pr
     | ActionCancelRun \<Rightarrow> prCI pr = CIPending \<or> Running (prChecks pr) > 0 \<or> Waiting (prChecks pr) > 0)"

definition action_order :: "action_name list" where
  "action_order = [ActionMerge, ActionClose, ActionUpdateBranch, ActionAutoMerge,
     ActionCancelAutoMerge, ActionDependabotRebase, ActionDependabotRecreate,
     ActionRenovateRebase, ActionCancelRenovateRebase, ActionRerunChecks, ActionCancelRun]"

lemma updateBranch_names:
  "map aaAction (case updateBranchAvailability pr ra of Some a \<Rightarrow> [a] | None \<Rightarrow> []) =
     (if offers pr ra ActionUpdateBranch then [ActionUpdateBranch] else [])"
  by (auto simp: updateBranchAvailability_def offers_def isBotPR_def)

lemma renovate_names:
  "map aaAction (if isRenovatePR pr ra then renovateRebaseActions pr else []) =
     (if offers pr ra ActionRenovateRebase then [ActionRenovateRebase] else []) @
     (if offers pr ra ActionCancelRenovateRebase then [ActionCancelRenovateRebase] else [])"
  by (auto simp: renovateRebaseActions_def offers_def renovateRebasing_def botRequestPending_def
      split: option.splits)

lemma offeredActions_names:
  "map aaAction (offeredActions pr ra) = filter (offers pr ra) action_order"
proof -
  have "map aaAction (offeredActions pr ra) =
      (if offers pr ra ActionMerge then [ActionMerge] else []) @ [ActionClose] @
      (if offers pr ra ActionUpdateBranch then [ActionUpdateBranch] else []) @
      (if offers pr ra ActionAutoMerge then [ActionAutoMerge] else []) @
      (if offers pr ra ActionCancelAutoMerge then [ActionCancelAutoMerge] else []) @
      (if offers pr ra ActionDependabotRebase then [ActionDependabotRebase, ActionDependabotRecreate] else []) @
      ((if offers pr ra ActionRenovateRebase then [ActionRenovateRebase] else []) @
       (if offers pr ra ActionCancelRenovateRebase then [ActionCancelRenovateRebase] else [])) @
      (if offers pr ra ActionRerunChecks then [ActionRerunChecks] else []) @
      (if offers pr ra ActionCancelRun then [ActionCancelRun] else [])"
    unfolding offeredActions_def map_append renovate_names updateBranch_names
    by (simp add: offers_def)
  also have "\<dots> = filter (offers pr ra) action_order"
    by (simp add: action_order_def) (simp add: offers_def)
  finally show ?thesis .
qed

lemma blockHeadPushes_names [simp]:
  "map aaAction (blockHeadPushes pr as) = map aaAction as"
  by (simp add: blockHeadPushes_def)

lemma markFirst_names: "markFirst n as = Some bs \<Longrightarrow> map aaAction bs = map aaAction as"
  by (induction as arbitrary: bs) (auto split: if_splits)

lemma markAny_names [simp]: "map aaAction (markAny ns as) = map aaAction as"
  by (induction ns) (auto split: option.splits dest: markFirst_names)

lemma AllowedActions_names:
  "map aaAction (AllowedActions pr ra) = filter (offers pr ra) action_order"
  by (simp add: AllowedActions_def markPrimary_def Let_def offeredActions_names)

lemma AllowedActions_set:
  "aaAction ` set (AllowedActions pr ra) = {a. offers pr ra a}"
proof -
  have all: "set action_order = UNIV"
    by (auto simp: action_order_def) (metis action_name.exhaust)
  have "aaAction ` set (AllowedActions pr ra) = set (filter (offers pr ra) action_order)"
    unfolding AllowedActions_names[symmetric] by simp
  also have "\<dots> = {a. offers pr ra a}" using all by auto
  finally show ?thesis .
qed

lemma AllowedActions_distinct: "distinct (map aaAction (AllowedActions pr ra))"
  by (simp add: AllowedActions_names action_order_def)

section \<open>What can be taken now\<close>

text \<open>An entry that is listed and not blocked.\<close>

definition open_in :: "action_name \<Rightarrow> action_availability list \<Rightarrow> bool" where
  "open_in n as \<longleftrightarrow> list_ex (\<lambda>a. aaAction a = n \<and> aaBlocked a = None) as"

lemma open_in_simps [simp]:
  "\<not> open_in n []"
  "open_in n (a # as) \<longleftrightarrow> aaAction a = n \<and> aaBlocked a = None \<or> open_in n as"
  "open_in n (as @ bs) \<longleftrightarrow> open_in n as \<or> open_in n bs"
  by (simp_all add: open_in_def)

lemma open_in_iff: "open_in n as \<longleftrightarrow> (\<exists>a \<in> set as. aaAction a = n \<and> aaBlocked a = None)"
  by (simp add: open_in_def list_ex_iff)

text \<open>Runs held for approval keep every push of a new head back, on a behind pull request.\<close>

definition held_pushes :: "pull_request \<Rightarrow> bool" where
  "held_pushes pr \<longleftrightarrow> prBehind pr \<and> \<not> prEmpty pr \<and> prStackedOn pr = None \<and> \<not> prDraft pr
     \<and> heldForApproval pr"

definition opens :: "pull_request \<Rightarrow> string list \<Rightarrow> action_name \<Rightarrow> bool" where
  "opens pr ra a \<longleftrightarrow> offers pr ra a \<and>
     (a = ActionMerge \<longrightarrow> merge_open pr) \<and>
     (a = ActionUpdateBranch \<longrightarrow> prMergeStatus pr \<noteq> MergeConflicting) \<and>
     (pushesHead a \<longrightarrow> \<not> held_pushes pr)"

lemma open_in_offered:
  "open_in n (offeredActions pr ra) \<longleftrightarrow> offers pr ra n \<and> (n = ActionMerge \<longrightarrow> merge_open pr)
     \<and> (n = ActionUpdateBranch \<longrightarrow> prMergeStatus pr \<noteq> MergeConflicting)"
  unfolding offeredActions_def
  by (cases n)
     (auto simp: offers_def mergeAvailability_open_iff updateBranchAvailability_def isBotPR_def
        renovateRebaseActions_def renovateRebasing_def botRequestPending_def merge_open_def
        split: option.splits if_splits)

lemma mergeHeldForApproval_offered:
  "mergeHeldForApproval (offeredActions pr ra) \<longleftrightarrow>
     \<not> prEmpty pr \<and> aaBlocked (mergeAvailability pr) = Some approvalReason"
proof -
  have no: "ActionMerge \<notin> aaAction ` set as \<Longrightarrow> \<not> mergeHeldForApproval as" for as
    by (induction as) auto
  show ?thesis
  proof (cases "prEmpty pr")
    case True
    have "ActionMerge \<notin> set (filter (offers pr ra) action_order)" using True by (simp add: offers_def)
    then have "ActionMerge \<notin> aaAction ` set (offeredActions pr ra)"
      by (simp flip: offeredActions_names)
    with True no show ?thesis by simp
  next
    case False
    then show ?thesis by (simp add: offeredActions_def)
  qed
qed

lemma held_pushes_iff:
  "prBehind pr \<and> mergeHeldForApproval (offeredActions pr ra) \<longleftrightarrow> held_pushes pr"
  by (auto simp: mergeHeldForApproval_offered merge_held_iff held_pushes_def)

lemma open_in_blockHeadPushes:
  "open_in n (blockHeadPushes pr as) \<longleftrightarrow> open_in n as \<and>
     (pushesHead n \<longrightarrow> \<not> (prBehind pr \<and> mergeHeldForApproval as))"
  by (auto simp: blockHeadPushes_def open_in_iff)

lemma open_in_blocked_offered:
  "open_in n (blockHeadPushes pr (offeredActions pr ra)) \<longleftrightarrow> opens pr ra n"
  by (auto simp: open_in_blockHeadPushes open_in_offered opens_def held_pushes_iff)

section \<open>Marking\<close>

definition primaries :: "action_availability list \<Rightarrow> action_name list" where
  "primaries as = map aaAction (filter aaPrimary as)"

definition unmarked :: "action_availability list \<Rightarrow> bool" where
  "unmarked as \<longleftrightarrow> primaries as = []"

lemma markFirst_None: "markFirst n as = None \<longleftrightarrow> \<not> open_in n as"
  by (induction as) auto

lemma markFirst_view:
  "markFirst n as = Some bs \<Longrightarrow>
     map (\<lambda>a. (aaAction a, aaBlocked a)) bs = map (\<lambda>a. (aaAction a, aaBlocked a)) as"
  by (induction as arbitrary: bs) (auto split: if_splits)

lemma markAny_view:
  "map (\<lambda>a. (aaAction a, aaBlocked a)) (markAny ns as) = map (\<lambda>a. (aaAction a, aaBlocked a)) as"
  by (induction ns) (auto split: option.splits dest: markFirst_view)

lemma open_in_view:
  assumes "map (\<lambda>a. (aaAction a, aaBlocked a)) as = map (\<lambda>a. (aaAction a, aaBlocked a)) bs"
  shows "open_in n as = open_in n bs"
proof -
  have "open_in n as \<longleftrightarrow> (n, None) \<in> set (map (\<lambda>a. (aaAction a, aaBlocked a)) as)" for as
    by (force simp: open_in_iff)
  then show ?thesis using assms by metis
qed

lemma markFirst_primaries:
  "markFirst n as = Some bs \<Longrightarrow> unmarked as \<Longrightarrow>
     primaries bs = [n] \<and> (\<forall>a \<in> set bs. aaPrimary a \<longrightarrow> aaBlocked a = None)"
proof (induction as arbitrary: bs)
  case Nil
  then show ?case by simp
next
  case (Cons a as)
  from Cons.prems have a: "\<not> aaPrimary a" and as: "unmarked as"
    by (auto simp: unmarked_def primaries_def split: if_splits)
  then have rest: "filter aaPrimary as = []" by (simp add: unmarked_def primaries_def)
  show ?case
  proof (cases "aaAction a = n \<and> aaBlocked a = None")
    case True
    with Cons.prems rest show ?thesis by (auto simp: primaries_def filter_empty_conv)
  next
    case False
    with Cons.prems obtain cs where "markFirst n as = Some cs" "bs = a # cs" by auto
    with Cons.IH as a show ?thesis by (simp add: primaries_def)
  qed
qed

lemma markAny_primaries:
  assumes "unmarked as"
  shows "primaries (markAny ns as) = (case find (\<lambda>n. open_in n as) ns of None \<Rightarrow> [] | Some n \<Rightarrow> [n])
     \<and> (\<forall>a \<in> set (markAny ns as). aaPrimary a \<longrightarrow> aaBlocked a = None)"
proof (induction ns)
  case Nil
  from assms show ?case by (auto simp: unmarked_def primaries_def filter_empty_conv)
next
  case (Cons n ns)
  show ?case
  proof (cases "markFirst n as")
    case None
    then have "\<not> open_in n as" by (simp add: markFirst_None)
    with None Cons show ?thesis by simp
  next
    case (Some bs)
    then have "open_in n as" using markFirst_None[of n as] by auto
    with Some markFirst_primaries[OF Some assms] show ?thesis by simp
  qed
qed

lemma unmarked_append: "unmarked (as @ bs) \<longleftrightarrow> unmarked as \<and> unmarked bs"
  by (simp add: unmarked_def primaries_def)

lemma unmarked_simps [simp]: "unmarked []" "unmarked (a # as) \<longleftrightarrow> \<not> aaPrimary a \<and> unmarked as"
  by (simp_all add: unmarked_def primaries_def)

lemma unmarked_renovate: "unmarked (renovateRebaseActions pr)"
  by (simp add: renovateRebaseActions_def)

lemma unmarked_offered: "unmarked (blockHeadPushes pr (offeredActions pr ra))"
proof -
  have "unmarked (case updateBranchAvailability pr ra of Some a \<Rightarrow> [a] | None \<Rightarrow> [])"
    by (simp split: option.splits)
  then have off: "unmarked (offeredActions pr ra)"
    by (simp add: offeredActions_def unmarked_append unmarked_renovate)
  have "unmarked as \<Longrightarrow> unmarked (map (\<lambda>a. if pushesHead (aaAction a) \<and> aaBlocked a = None
      then a\<lparr>aaBlocked := b\<rparr> else a) as)" for as b
    by (induction as) auto
  with off show ?thesis by (simp add: blockHeadPushes_def)
qed

lemma open_in_AllowedActions: "open_in n (AllowedActions pr ra) \<longleftrightarrow> opens pr ra n"
  using open_in_view[OF markAny_view] open_in_blocked_offered
  by (auto simp: AllowedActions_def markPrimary_def Let_def)

section \<open>Which button, in terms of the row\<close>

text \<open>
  What the main button may be, best first, read off the pull request alone: Close for an empty
  one, Merge when it is open and CI is not failing, an update when being behind is all that holds
  the merge back, a bot's rebase for any other behind pull request that is neither a draft, nor
  stacked, nor in conflict.
\<close>

definition merge_behind :: "pull_request \<Rightarrow> bool" where
  "merge_behind pr \<longleftrightarrow> prBehind pr \<and> prStackedOn pr = None \<and> \<not> prDraft pr \<and>
     prCI pr \<noteq> CIPending \<and> \<not> heldForApproval pr \<and>
     prMergeStatus pr \<notin> {MergeConflicting, MergeUnstable, MergeMergeable}"

definition button_order :: "pull_request \<Rightarrow> action_name list" where
  "button_order pr =
     (if prEmpty pr then [ActionClose]
      else if merge_open pr \<and> prCI pr \<noteq> CIFailure then [ActionMerge]
      else if merge_behind pr then ActionUpdateBranch # botRebases
      else if botRebaseWorthOffering pr then botRebases
      else [])"

lemma mergeCandidates_skip:
  "ActionMerge \<notin> aaAction ` set as \<Longrightarrow> mergeCandidates pr as = []"
  by (induction as) auto

lemma mergeCandidates_merge:
  assumes "aaAction a = ActionMerge" "ActionMerge \<notin> aaAction ` set as"
  shows "mergeCandidates pr (a # as) =
     (if aaBlocked a = None \<and> prCI pr \<noteq> CIFailure then [ActionMerge]
      else if \<exists>b. aaBlocked a = Some b \<and> blCode b = ActionBehind then ActionUpdateBranch # botRebases
      else if botRebaseWorthOffering pr then botRebases else [])"
  using assms by (auto simp: mergeCandidates_skip split: option.splits)

lemma blockHeadPushes_Cons:
  "aaAction a = ActionMerge \<Longrightarrow> \<exists>as. blockHeadPushes pr (a # bs) = a # as"
  by (simp add: blockHeadPushes_def pushesHead_def del: mergeHeldForApproval.simps)

lemma offered_head:
  assumes "\<not> prEmpty pr"
  obtains as where "blockHeadPushes pr (offeredActions pr ra) = mergeAvailability pr # as"
    and "ActionMerge \<notin> aaAction ` set as"
proof -
  obtain bs where bs: "offeredActions pr ra = mergeAvailability pr # bs"
    using assms by (simp add: offeredActions_def)
  let ?cs = "blockHeadPushes pr (offeredActions pr ra)"
  have "\<exists>as. ?cs = mergeAvailability pr # as"
    unfolding bs by (rule blockHeadPushes_Cons) simp
  then obtain as where as: "?cs = mergeAvailability pr # as" by blast
  have "distinct (map aaAction ?cs)" by (simp add: offeredActions_names action_order_def)
  then have "ActionMerge \<notin> aaAction ` set as" by (simp add: as)
  with as show thesis by (rule that)
qed

lemma primaryCandidates_eq:
  "primaryCandidates pr (blockHeadPushes pr (offeredActions pr ra)) = button_order pr"
proof (cases "prEmpty pr")
  case True
  then show ?thesis by (simp add: primaryCandidates_def button_order_def)
next
  case False
  then obtain as where "blockHeadPushes pr (offeredActions pr ra) = mergeAvailability pr # as"
    and "ActionMerge \<notin> aaAction ` set as" by (rule offered_head)
  with False show ?thesis
    by (simp add: primaryCandidates_def button_order_def mergeCandidates_merge
        mergeAvailability_open_iff merge_behind_iff merge_behind_def del: mergeCandidates.simps)
qed

lemma AllowedActions_marked:
  "primaries (AllowedActions pr ra) =
     (case find (opens pr ra) (button_order pr) of None \<Rightarrow> [] | Some n \<Rightarrow> [n]) \<and>
   (\<forall>a \<in> set (AllowedActions pr ra). aaPrimary a \<longrightarrow> aaBlocked a = None)"
  using markAny_primaries[OF unmarked_offered, where ns = "button_order pr" and pr1 = pr and ra1 = ra]
  by (simp add: AllowedActions_def Let_def markPrimary_def primaryCandidates_eq
      open_in_blocked_offered)

lemma AllowedActions_head:
  assumes "\<not> prEmpty pr"
  obtains a as where "AllowedActions pr ra = a # as" "aaAction a = ActionMerge"
    "aaBlocked a = aaBlocked (mergeAvailability pr)"
proof -
  obtain bs where bs: "blockHeadPushes pr (offeredActions pr ra) = mergeAvailability pr # bs"
    using assms by (rule offered_head)
  have "map (\<lambda>a. (aaAction a, aaBlocked a)) (AllowedActions pr ra) =
      map (\<lambda>a. (aaAction a, aaBlocked a)) (mergeAvailability pr # bs)"
    unfolding AllowedActions_def markPrimary_def Let_def markAny_view bs ..
  then show thesis using that by (auto simp: map_eq_Cons_conv)
qed

lemma fixForLoop_primary:
  "fixForLoop as = Some n \<Longrightarrow> n \<in> set (primaries as)"
  by (induction as) (auto simp: primaries_def split: if_splits)

lemma primaries_single: "primaries as = [n] \<Longrightarrow> m \<in> set (primaries as) \<Longrightarrow> m = n"
  by simp

section \<open>Properties\<close>

text \<open>
  C9: The row shows no blocking status exactly when Merge can be taken: on a pull request that
  is not empty, not stacked and not a draft, whose merge state is unstable, or mergeable with CI
  not running. So the status line and the merge button never disagree.
\<close>

theorem status_silent_iff_merge_open:
  "(PullRequestStatus pr (AllowedActions pr ra) = None \<longleftrightarrow> merge_open pr) \<and>
   (open_in ActionMerge (AllowedActions pr ra) \<longleftrightarrow> merge_open pr)"
proof
  have push: "\<not> pushesHead ActionMerge" by (simp add: pushesHead_def)
  then show "open_in ActionMerge (AllowedActions pr ra) \<longleftrightarrow> merge_open pr"
    by (auto simp: open_in_AllowedActions opens_def offers_def merge_open_def)
  have later: "ActionMerge \<notin> aaAction ` set as \<Longrightarrow> statusLoop all as = None" for all as
    by (induction as) (auto split: option.splits)
  show "PullRequestStatus pr (AllowedActions pr ra) = None \<longleftrightarrow> merge_open pr"
  proof (cases "prEmpty pr")
    case True
    then show ?thesis by (simp add: PullRequestStatus_def merge_open_def)
  next
    case False
    then obtain a as where a: "AllowedActions pr ra = a # as" "aaAction a = ActionMerge"
      "aaBlocked a = aaBlocked (mergeAvailability pr)" by (rule AllowedActions_head)
    have "distinct (map aaAction (a # as))" using AllowedActions_distinct[of pr ra] a by simp
    with a have "ActionMerge \<notin> aaAction ` set as" by simp
    with False a later show ?thesis
      by (simp add: PullRequestStatus_def mergeAvailability_open_iff[symmetric] split: option.splits)
  qed
qed

text \<open>
  At most one action is marked as the main button, it is never a blocked one, and it is the
  first action a user can take now in the order the row calls for: Close for an empty pull
  request, else Merge, else an update of a branch that is merely behind, else a bot's rebase.
\<close>

theorem main_button:
  "primaries (AllowedActions pr ra) =
     (case find (opens pr ra) (button_order pr) of None \<Rightarrow> [] | Some n \<Rightarrow> [n]) \<and>
   (\<forall>a \<in> set (AllowedActions pr ra). aaPrimary a \<longrightarrow> aaBlocked a = None)"
  by (rule AllowedActions_marked)

definition behind_pr :: pull_request where
  "behind_pr = zero_pr\<lparr>prBehind := True, prMergeStatus := MergeBlocked, prCI := CISuccess\<rparr>"

lemma main_button_witness:
  "primaries (AllowedActions behind_pr []) = [ActionUpdateBranch] \<and>
   (\<exists>a \<in> set (AllowedActions behind_pr []). aaPrimary a \<and> aaBlocked a = None)"
proof -
  have p: "primaries (AllowedActions behind_pr []) = [ActionUpdateBranch]" by code_simp
  then have "primaries (AllowedActions behind_pr []) \<noteq> []" by simp
  then obtain a where "a \<in> set (AllowedActions behind_pr [])" "aaPrimary a"
    by (auto simp: primaries_def filter_empty_conv)
  with main_button[of behind_pr "[]"] p show ?thesis by blast
qed

text \<open>
  The list names each action at most once, in the one order of the code, and exactly those
  that apply to the pull request.
\<close>

theorem allowed_names:
  "map aaAction (AllowedActions pr ra) = filter (offers pr ra) action_order \<and>
   distinct (map aaAction (AllowedActions pr ra)) \<and>
   (\<forall>a. a \<in> aaAction ` set (AllowedActions pr ra) \<longleftrightarrow> offers pr ra a)"
  by (simp add: AllowedActions_names[symmetric] AllowedActions_distinct AllowedActions_set)

text \<open>
  While workflow runs wait for approval on a behind pull request, every action that would
  push a new head is blocked, and nothing else is blocked by it: whether an entry can be taken
  is decided by \<open>opens\<close> alone. Approving the runs is then never undone by a rebase.
\<close>

theorem held_pushes_blocked:
  "(open_in n (AllowedActions pr ra) \<longleftrightarrow> opens pr ra n) \<and>
   (held_pushes pr \<longrightarrow> pushesHead n \<longrightarrow> \<not> open_in n (AllowedActions pr ra))"
  using open_in_AllowedActions[of n pr ra] by (simp add: opens_def)

definition held_pr :: pull_request where
  "held_pr = zero_pr\<lparr>prBehind := True, prMergeStatus := MergeBlocked,
     prAwaitingWorkflowApproval := True\<rparr>"

lemma held_pushes_blocked_witness:
  "held_pushes held_pr \<and> pushesHead ActionUpdateBranch \<and>
   \<not> open_in ActionUpdateBranch (AllowedActions held_pr [])"
proof -
  have h: "held_pushes held_pr" "pushesHead ActionUpdateBranch"
    by (simp_all add: held_pushes_def held_pr_def zero_pr_def heldForApproval_def pushesHead_def)
  with held_pushes_blocked[of ActionUpdateBranch held_pr "[]"] show ?thesis by blast
qed

text \<open>
  When the status line names an action as its fix, that action is the main button, and the
  merge is held only because the pull request is behind.
\<close>

theorem status_fix_is_main_button:
  assumes "PullRequestStatus pr (AllowedActions pr ra) = Some st" "stAction st = Some n"
  shows "primaries (AllowedActions pr ra) = [n] \<and> opens pr ra n \<and> merge_behind pr \<and>
    n \<in> {ActionUpdateBranch, ActionRenovateRebase, ActionDependabotRebase}"
proof -
  let ?as = "AllowedActions pr ra"
  have loop: "statusLoop all as = Some st \<Longrightarrow> stAction st = Some n \<Longrightarrow>
      fixForLoop all = Some n \<and> (\<exists>a \<in> set as. \<exists>b. aaAction a = ActionMerge \<and>
        aaBlocked a = Some b \<and> blCode b = ActionBehind)" for all as
    by (induction as) (auto simp: statusOf_def fixFor_def split: option.splits if_splits)
  from assms have ne: "\<not> prEmpty pr"
    by (auto simp: PullRequestStatus_def statusOf_def)
  with assms have fix1: "fixForLoop ?as = Some n" and
    "\<exists>a \<in> set ?as. \<exists>b. aaAction a = ActionMerge \<and> aaBlocked a = Some b \<and> blCode b = ActionBehind"
    using loop[of ?as ?as] by (simp_all add: PullRequestStatus_def)
  then obtain a where a: "a \<in> set ?as" "aaAction a = ActionMerge"
    "\<exists>b. aaBlocked a = Some b \<and> blCode b = ActionBehind" by blast
  obtain m as where m: "?as = m # as" "aaAction m = ActionMerge"
    "aaBlocked m = aaBlocked (mergeAvailability pr)" using ne by (rule AllowedActions_head)
  have "a = m"
    using AllowedActions_distinct[of pr ra] a(1,2) m(2)
    by (force simp: m(1))
  with a(3) m(3) have behind: "merge_behind pr"
    by (simp add: merge_behind_iff merge_behind_def)
  have kinds: "fixForLoop as = Some n \<Longrightarrow>
      n \<in> {ActionUpdateBranch, ActionRenovateRebase, ActionDependabotRebase}" for as
    by (induction as) (auto split: if_splits)
  from fixForLoop_primary[OF fix1] AllowedActions_marked[of pr ra]
  have n: "find (opens pr ra) (button_order pr) = Some n"
    by (auto split: option.splits)
  then have "opens pr ra n" by (auto simp: find_Some_iff)
  with n behind kinds[OF fix1] AllowedActions_marked[of pr ra] show ?thesis by simp
qed

lemma status_fix_is_main_button_witness:
  "primaries (AllowedActions behind_pr []) = [ActionUpdateBranch]"
proof -
  have "PullRequestStatus behind_pr (AllowedActions behind_pr []) =
      Some (statusOf \<lparr>blCode = ActionBehind, blMessage = ''Behind the base branch'',
        blNext = ''Bring it up to date to unlock Merge''\<rparr> (Some ActionUpdateBranch))"
    by code_simp
  then show ?thesis using status_fix_is_main_button by (simp add: statusOf_def)
qed

end
