(* ===== verification/Stacks.thy ===== *)
theory Stacks
  imports FD_Model
begin

text \<open>
  \<open>stack.go\<close>: which open pull requests are stacked on one another. \<open>parents\<close> finds, for
  each one, the pull request whose head branch is its base branch; \<open>dropCycles\<close> unlinks what runs
  into a loop of branches; \<open>AnnotateStacks\<close> fills the rows. A slice of indices with -1 for none
  is a list of \<open>nat option\<close>. The walk to the root is a loop that need not end on any slice, so
  it is a partial function and \<open>AnnotateStacks\<close> returns an option; it is proved to return.
\<close>

section \<open>The code\<close>

type_synonym branch_key = "(forge \<times> string) \<times> string"

definition ownerStep ::
  "pull_request list \<Rightarrow> nat \<times> pull_request \<Rightarrow> (branch_key \<rightharpoonup> nat) \<Rightarrow> (branch_key \<rightharpoonup> nat)" where
  "ownerStep prs = (\<lambda>(i, pr) owner.
     if prCrossRepository pr \<or> prHeadBranch pr = '''' then owner
     else let key = ((prForge pr, prRepo pr), prHeadBranch pr) in
       (case owner key of
          None \<Rightarrow> owner(key \<mapsto> i)
        | Some current \<Rightarrow>
            if prNumber pr < prNumber (prs ! current) then owner(key \<mapsto> i) else owner))"

definition owners :: "pull_request list \<Rightarrow> (branch_key \<rightharpoonup> nat)" where
  "owners prs = fold (ownerStep prs) (enumerate 0 prs) Map.empty"

definition parentOf :: "(branch_key \<rightharpoonup> nat) \<Rightarrow> nat \<times> pull_request \<Rightarrow> nat option" where
  "parentOf owner = (\<lambda>(i, pr).
     if prCrossRepository pr \<or> prBaseBranch pr = '''' then None
     else (case owner ((prForge pr, prRepo pr), prBaseBranch pr) of
         Some p \<Rightarrow> if p \<noteq> i then Some p else None
       | None \<Rightarrow> None))"

definition parents :: "pull_request list \<Rightarrow> nat option list" where
  "parents prs = map (parentOf (owners prs)) (enumerate 0 prs)"

text \<open>
  One walk of \<open>dropCycles\<close>: what was walked when the chain of parents comes back to a place it
  has seen, \<open>None\<close> when the chain ends. An index past the end of the slice, which \<open>parents\<close>
  never gives, ends it too.
\<close>

function walk :: "nat option list \<Rightarrow> nat list \<Rightarrow> nat option \<Rightarrow> nat list option" where
  "walk parent walked None = None"
| "walk parent walked (Some at) =
     (if at \<in> set walked then Some walked
      else if at < length parent then walk parent (walked @ [at]) (parent ! at)
      else None)"
  by pat_completeness auto
termination
proof (relation "measure (\<lambda>(parent, walked, x). card ({..<length parent} - set walked))", simp)
  fix parent :: "nat option list" and walked and at :: nat
  assume "at \<notin> set walked" "at < length parent"
  then have "{..<length parent} - set (walked @ [at]) \<subset> {..<length parent} - set walked" by auto
  then have "card ({..<length parent} - set (walked @ [at])) < card ({..<length parent} - set walked)"
    by (intro psubset_card_mono) auto
  then show "((parent, walked @ [at], parent ! at), parent, walked, Some at)
      \<in> measure (\<lambda>(parent, walked, x). card ({..<length parent} - set walked))" by simp
qed

definition badNodes :: "nat option list \<Rightarrow> nat list" where
  "badNodes parent = concat (map (\<lambda>start. case walk parent [] (Some start) of
       Some walked \<Rightarrow> walked | None \<Rightarrow> []) [0..<length parent])"

definition dropCycles :: "nat option list \<Rightarrow> nat option list" where
  "dropCycles parent = (let bad = badNodes parent in
     map (\<lambda>i. if i \<in> set bad \<or> (case parent ! i of Some p \<Rightarrow> p \<in> set bad | None \<Rightarrow> False)
          then None else parent ! i) [0..<length parent])"

partial_function (option) rootWalk :: "nat option list \<Rightarrow> nat \<Rightarrow> nat \<Rightarrow> (nat \<times> nat) option" where
  [code]: "rootWalk parent r depth = (case parent ! r of
       None \<Rightarrow> Some (r, depth)
     | Some p \<Rightarrow> rootWalk parent p (depth + 1))"

definition childrenOf :: "nat option list \<Rightarrow> nat \<Rightarrow> nat list" where
  "childrenOf parent p = filter (\<lambda>c. parent ! c = Some p) [0..<length parent]"

fun all_some :: "'a option list \<Rightarrow> 'a list option" where
  "all_some [] = Some []"
| "all_some (x # xs) = (case x of None \<Rightarrow> None | Some y \<Rightarrow> map_option ((#) y) (all_some xs))"

definition annotateRow ::
  "pull_request list \<Rightarrow> nat option list \<Rightarrow> (nat \<times> nat) list \<Rightarrow> nat \<Rightarrow> pull_request" where
  "annotateRow prs parent walks i =
     (let children = childrenOf parent i in
      (prs ! i)\<lparr>
        prStackedOn := (case parent ! i of
            Some p \<Rightarrow> Some \<lparr>srNumber = prNumber (prs ! p), srURL = prURL (prs ! p)\<rparr> | None \<Rightarrow> None),
        prStackChildren := sort (map (\<lambda>c. prNumber (prs ! c)) children),
        prStack := (if parent ! i \<noteq> None \<or> children \<noteq> []
            then Some \<lparr>Position = int (snd (walks ! i)) + 1,
                       StackSize = int (count_list (map fst walks) (fst (walks ! i)))\<rparr>
            else None)\<rparr>)"

definition AnnotateStacks :: "pull_request list \<Rightarrow> pull_request list option" where
  "AnnotateStacks prs = (let parent = dropCycles (parents prs) in
     (case all_some (map (\<lambda>i. rootWalk parent i 0) [0..<length prs]) of
        None \<Rightarrow> None
      | Some walks \<Rightarrow> Some (map (annotateRow prs parent walks) [0..<length prs])))"

section \<open>Chains of parents\<close>

definition next_up :: "nat option list \<Rightarrow> nat option \<Rightarrow> nat option" where
  "next_up parent x = Option.bind x (\<lambda>i. parent ! i)"

definition ends :: "nat option list \<Rightarrow> nat \<Rightarrow> bool" where
  "ends parent i \<longleftrightarrow> (\<exists>n. (next_up parent ^^ n) (Some i) = None)"

definition in_range :: "nat option list \<Rightarrow> bool" where
  "in_range parent \<longleftrightarrow> (\<forall>i < length parent. \<forall>p. parent ! i = Some p \<longrightarrow> p < length parent)"

lemma next_up_simps [simp]: "next_up parent None = None" "next_up parent (Some i) = parent ! i"
  by (simp_all add: next_up_def)

lemma next_up_None [simp]: "(next_up parent ^^ n) None = None"
  by (induction n) simp_all

lemma ends_step: "parent ! i = Some p \<Longrightarrow> ends parent i \<longleftrightarrow> ends parent p"
proof
  assume p: "parent ! i = Some p"
  {
    assume "ends parent i"
    then obtain n where n: "(next_up parent ^^ n) (Some i) = None" by (auto simp: ends_def)
    then have "(next_up parent ^^ (n - 1)) (Some p) = None"
      using p by (cases n) (simp_all add: funpow_Suc_right del: funpow.simps)
    then show "ends parent p" by (auto simp: ends_def)
  next
    assume "ends parent p"
    then obtain n where "(next_up parent ^^ n) (Some p) = None" by (auto simp: ends_def)
    then have "(next_up parent ^^ Suc n) (Some i) = None"
      using p by (simp add: funpow_Suc_right del: funpow.simps)
    then show "ends parent i" unfolding ends_def by blast
  }
qed

lemma ends_root: "parent ! i = None \<Longrightarrow> ends parent i"
  unfolding ends_def by (intro exI[of _ 1]) simp

lemma ends_induct [consumes 1, case_names root up]:
  assumes "ends parent i"
    and "\<And>i. parent ! i = None \<Longrightarrow> P i"
    and "\<And>i p. parent ! i = Some p \<Longrightarrow> ends parent p \<Longrightarrow> P p \<Longrightarrow> P i"
  shows "P i"
proof -
  have up: "(next_up parent ^^ Suc n) (Some i) = (next_up parent ^^ n) (parent ! i)" for n i
    by (simp add: funpow_Suc_right del: funpow.simps)
  have "(next_up parent ^^ n) (Some i) = None \<Longrightarrow> P i" for n
  proof (induction n arbitrary: i)
    case 0
    then show ?case by simp
  next
    case (Suc n)
    show ?case
    proof (cases "parent ! i")
      case None
      then show ?thesis by (rule assms(2))
    next
      case (Some p)
      with Suc.prems have p: "(next_up parent ^^ n) (Some p) = None" by (simp only: up)
      then have "ends parent p" unfolding ends_def by blast
      from assms(3)[OF Some this Suc.IH[OF p]] show ?thesis .
    qed
  qed
  with assms(1) show ?thesis by (auto simp: ends_def)
qed

text \<open>A set of indices that every step stays in has no end.\<close>

lemma closed_never_ends:
  assumes "\<forall>x \<in> S. \<exists>y \<in> S. parent ! x = Some y" "i \<in> S"
  shows "\<not> ends parent i"
proof
  assume "ends parent i"
  then have "i \<notin> S" using assms(1)
    by (induction rule: ends_induct) force+
  with assms(2) show False by simp
qed

section \<open>\<open>dropCycles\<close> keeps exactly the chains that end\<close>

lemma walk_None_ends:
  "in_range parent \<Longrightarrow> (\<forall>i. x = Some i \<longrightarrow> i < length parent) \<Longrightarrow> walk parent ws x = None \<Longrightarrow>
     (\<forall>i. x = Some i \<longrightarrow> ends parent i)"
proof (induction parent ws x rule: walk.induct)
  case (1 parent walked)
  then show ?case by simp
next
  case (2 parent walked "at")
  then have "at \<notin> set walked" "at < length parent" by (auto split: if_splits)
  with 2 have "\<forall>i. parent ! at = Some i \<longrightarrow> ends parent i"
    by (auto simp: in_range_def)
  then show ?case by (cases "parent ! at") (auto intro: ends_root simp: ends_step)
qed

lemma walk_Some_closed:
  "walk parent ws x = Some w \<Longrightarrow> \<forall>y \<in> set ws. \<exists>z. parent ! y = Some z \<and> (z \<in> set ws \<or> x = Some z) \<Longrightarrow>
     set ws \<subseteq> set w \<and> (\<forall>i. x = Some i \<longrightarrow> i \<in> set w) \<and>
     (\<forall>y \<in> set w. \<exists>z \<in> set w. parent ! y = Some z)"
proof (induction parent ws x rule: walk.induct)
  case (1 parent walked)
  then show ?case by simp
next
  case (2 parent walked "at")
  show ?case
  proof (cases "at \<in> set walked")
    case True
    with 2 show ?thesis by auto
  next
    case False
    with 2(2) have len: "at < length parent" and w: "walk parent (walked @ [at]) (parent ! at) = Some w"
      by (auto split: if_splits)
    then obtain p where p: "parent ! at = Some p" by (cases "parent ! at") auto
    have "\<forall>y \<in> set (walked @ [at]). \<exists>z. parent ! y = Some z \<and> (z \<in> set (walked @ [at]) \<or> parent ! at = Some z)"
      using 2(3) p by auto
    from 2(1)[OF False len w this] show ?thesis by auto
  qed
qed

lemma badNodes_iff:
  assumes "in_range parent" "i < length parent"
  shows "i \<in> set (badNodes parent) \<longleftrightarrow> \<not> ends parent i"
proof
  assume "i \<in> set (badNodes parent)"
  then obtain start w where "walk parent [] (Some start) = Some w" "i \<in> set w"
    by (auto simp: badNodes_def simp del: walk.simps split: option.splits dest: sym)
  with walk_Some_closed[of parent "[]" "Some start" w] show "\<not> ends parent i"
    by (intro closed_never_ends[of "set w"]) auto
next
  assume "\<not> ends parent i"
  with assms walk_None_ends[of parent "Some i" "[]"]
  obtain w where w: "walk parent [] (Some i) = Some w" by (cases "walk parent [] (Some i)") auto
  with walk_Some_closed[of parent "[]" "Some i" w] have "i \<in> set w" by auto
  with w assms show "i \<in> set (badNodes parent)" by (force simp: badNodes_def)
qed

lemma length_dropCycles [simp]: "length (dropCycles parent) = length parent"
  by (simp add: dropCycles_def Let_def)

lemma dropCycles_nth:
  assumes "in_range parent" "i < length parent"
  shows "dropCycles parent ! i = (if ends parent i then parent ! i else None)"
proof (cases "parent ! i")
  case None
  then show ?thesis using assms by (simp add: dropCycles_def Let_def)
next
  case (Some p)
  with assms have "p < length parent" by (simp add: in_range_def)
  with Some assms show ?thesis by (simp add: dropCycles_def Let_def badNodes_iff ends_step)
qed

lemma in_range_dropCycles: "in_range parent \<Longrightarrow> in_range (dropCycles parent)"
  by (auto simp: in_range_def dropCycles_nth split: if_splits)

lemma ends_dropCycles:
  assumes "in_range parent" "i < length parent"
  shows "ends (dropCycles parent) i"
proof (cases "ends parent i")
  case False
  with assms show ?thesis by (intro ends_root) (simp add: dropCycles_nth)
next
  case True
  then show ?thesis using assms(2)
  proof (induction rule: ends_induct)
    case (root i)
    with assms(1) show ?case by (intro ends_root) (simp add: dropCycles_nth)
  next
    case (up i p)
    with assms(1) have "p < length parent" by (auto simp: in_range_def)
    with up assms(1) have "dropCycles parent ! i = Some p" "ends (dropCycles parent) p"
      by (simp_all add: dropCycles_nth ends_step)
    then show ?case by (simp add: ends_step)
  qed
qed

section \<open>Who owns a branch\<close>

definition head_key :: "pull_request \<Rightarrow> branch_key option" where
  "head_key pr = (if prCrossRepository pr \<or> prHeadBranch pr = '''' then None
     else Some ((prForge pr, prRepo pr), prHeadBranch pr))"

definition base_key :: "pull_request \<Rightarrow> branch_key option" where
  "base_key pr = (if prCrossRepository pr \<or> prBaseBranch pr = '''' then None
     else Some ((prForge pr, prRepo pr), prBaseBranch pr))"

text \<open>
  Among the first \<open>k\<close> pull requests, \<open>p\<close> is the one a branch belongs to: it comes from that
  branch and has the lowest number, the first of equals.
\<close>

definition owner_among :: "pull_request list \<Rightarrow> nat \<Rightarrow> branch_key \<Rightarrow> nat \<Rightarrow> bool" where
  "owner_among prs k key p \<longleftrightarrow> p < k \<and> head_key (prs ! p) = Some key \<and>
     (\<forall>q < k. head_key (prs ! q) = Some key \<longrightarrow>
        prNumber (prs ! p) < prNumber (prs ! q) \<or> prNumber (prs ! p) = prNumber (prs ! q) \<and> p \<le> q)"

lemma enumerate_map: "enumerate 0 xs = map (\<lambda>i. (i, xs ! i)) [0..<length xs]"
  by (rule nth_equalityI) (simp_all add: nth_enumerate_eq)

lemma owners_upto:
  "case fold (ownerStep prs) (map (\<lambda>i. (i, prs ! i)) [0..<k]) Map.empty key of
     None \<Rightarrow> \<forall>q < k. head_key (prs ! q) \<noteq> Some key
   | Some p \<Rightarrow> owner_among prs k key p"
proof (induction k)
  case 0
  then show ?case by simp
next
  case (Suc k)
  let ?o = "fold (ownerStep prs) (map (\<lambda>i. (i, prs ! i)) [0..<k]) Map.empty"
  have step: "fold (ownerStep prs) (map (\<lambda>i. (i, prs ! i)) [0..<Suc k]) Map.empty =
      ownerStep prs (k, prs ! k) ?o" by simp
  show ?case
  proof (cases "head_key (prs ! k) = Some key")
    case False
    then have "ownerStep prs (k, prs ! k) ?o key = ?o key"
      by (auto simp: ownerStep_def head_key_def Let_def split: option.splits if_splits)
    with Suc False show ?thesis
      by (auto simp: step owner_among_def less_Suc_eq split: option.splits)
  next
    case True
    then have "ownerStep prs (k, prs ! k) ?o key = (case ?o key of None \<Rightarrow> Some k
        | Some c \<Rightarrow> if prNumber (prs ! k) < prNumber (prs ! c) then Some k else Some c)"
      by (auto simp: ownerStep_def head_key_def Let_def split: option.splits if_splits)
    with Suc True show ?thesis
      by (cases "?o key") (auto simp: step owner_among_def less_Suc_eq)
  qed
qed

lemma owner_unique: "owner_among prs k key p \<Longrightarrow> owner_among prs k key q \<Longrightarrow> p = q"
  unfolding owner_among_def by (metis le_antisym less_asym less_irrefl)

lemma owners_iff: "owners prs key = Some p \<longleftrightarrow> owner_among prs (length prs) key p"
  using owners_upto[where k = "length prs" and prs = prs and key = key]
    owner_unique[where k = "length prs" and prs = prs and key = key]
  by (auto simp: owners_def enumerate_map owner_among_def split: option.splits)

lemma length_parents [simp]: "length (parents prs) = length prs"
  by (simp add: parents_def)

lemma parents_nth:
  "i < length prs \<Longrightarrow> parents prs ! i = Some p \<longleftrightarrow>
     p \<noteq> i \<and> (\<exists>key. base_key (prs ! i) = Some key \<and> owner_among prs (length prs) key p)"
  by (auto simp: parents_def nth_enumerate_eq parentOf_def base_key_def owners_iff[symmetric]
      split: option.splits)

lemma in_range_parents [simp]: "in_range (parents prs)"
  by (auto simp: in_range_def parents_nth owner_among_def)

section \<open>The annotated rows\<close>

abbreviation links :: "pull_request list \<Rightarrow> nat option list" where
  "links prs \<equiv> dropCycles (parents prs)"

lemma links_less: "i < length prs \<Longrightarrow> links prs ! i = Some p \<Longrightarrow> p < length prs"
  using in_range_dropCycles[OF in_range_parents, of prs] by (simp add: in_range_def)

declare rootWalk.simps [simp del]

lemma rootWalk_ends:
  "ends parent i \<Longrightarrow> \<exists>r d. \<forall>e. rootWalk parent i e = Some (r, d + e)"
proof (induction rule: ends_induct)
  case (root i)
  then show ?case by (intro exI[of _ i] exI[of _ 0]) (simp add: rootWalk.simps)
next
  case (up i p)
  then obtain r d where "\<forall>e. rootWalk parent p e = Some (r, d + e)" by blast
  with up show ?case by (intro exI[of _ r] exI[of _ "Suc d"]) (simp add: rootWalk.simps[of parent i])
qed

definition rootOf :: "nat option list \<Rightarrow> nat \<Rightarrow> nat" where
  "rootOf parent i = fst (the (rootWalk parent i 0))"

definition depthOf :: "nat option list \<Rightarrow> nat \<Rightarrow> nat" where
  "depthOf parent i = snd (the (rootWalk parent i 0))"

lemma rootWalk_eq: "ends parent i \<Longrightarrow> rootWalk parent i 0 = Some (rootOf parent i, depthOf parent i)"
  using rootWalk_ends[of parent i] by (auto simp: rootOf_def depthOf_def)

lemma root_up:
  assumes "ends parent i" "parent ! i = Some p"
  shows "rootOf parent i = rootOf parent p" "depthOf parent i = Suc (depthOf parent p)"
proof -
  from assms have "ends parent p" by (simp add: ends_step)
  then obtain r d where "\<forall>e. rootWalk parent p e = Some (r, d + e)" using rootWalk_ends by blast
  with assms(2) show "rootOf parent i = rootOf parent p" "depthOf parent i = Suc (depthOf parent p)"
    by (simp_all add: rootOf_def depthOf_def rootWalk.simps[of parent i])
qed

lemma root_bottom:
  "parent ! i = None \<Longrightarrow> rootOf parent i = i" "parent ! i = None \<Longrightarrow> depthOf parent i = 0"
  by (simp_all add: rootOf_def depthOf_def rootWalk.simps[of parent i])

lemma all_some_map: "(\<forall>x \<in> set xs. f x = Some (g x)) \<Longrightarrow> all_some (map f xs) = Some (map g xs)"
  by (induction xs) auto

definition stack_size :: "pull_request list \<Rightarrow> nat \<Rightarrow> nat" where
  "stack_size prs i = card {j. j < length prs \<and> rootOf (links prs) j = rootOf (links prs) i}"

definition annotated :: "pull_request list \<Rightarrow> nat \<Rightarrow> pull_request" where
  "annotated prs i = (prs ! i)\<lparr>
     prStackedOn := map_option (\<lambda>p. \<lparr>srNumber = prNumber (prs ! p), srURL = prURL (prs ! p)\<rparr>) (links prs ! i),
     prStackChildren := sort (map (\<lambda>c. prNumber (prs ! c)) (childrenOf (links prs) i)),
     prStack := (if links prs ! i \<noteq> None \<or> childrenOf (links prs) i \<noteq> []
        then Some \<lparr>Position = int (depthOf (links prs) i) + 1, StackSize = int (stack_size prs i)\<rparr>
        else None)\<rparr>"

lemma count_list_map: "count_list (map f xs) y = length (filter (\<lambda>x. f x = y) xs)"
  by (induction xs) auto

lemma card_indices: "card {j. j < n \<and> P j} = length (filter P [0..<n])"
proof -
  have "{j. j < n \<and> P j} = set (filter P [0..<n])" by auto
  then show ?thesis by (simp only: distinct_card[OF distinct_filter[OF distinct_upt]])
qed

lemma ends_links: "i < length prs \<Longrightarrow> ends (links prs) i"
  by (simp add: ends_dropCycles)

lemma AnnotateStacks_eq: "AnnotateStacks prs = Some (map (annotated prs) [0..<length prs])"
proof -
  let ?w = "map (\<lambda>i. (rootOf (links prs) i, depthOf (links prs) i)) [0..<length prs]"
  have walks: "all_some (map (\<lambda>i. rootWalk (links prs) i 0) [0..<length prs]) = Some ?w"
    by (rule all_some_map) (simp add: rootWalk_eq ends_links)
  have size: "count_list (map fst ?w) (fst (?w ! i)) = stack_size prs i" if "i < length prs" for i
    using that by (simp add: count_list_map stack_size_def card_indices comp_def)
  have "annotateRow prs (links prs) ?w i = annotated prs i" if "i < length prs" for i
    unfolding annotateRow_def annotated_def Let_def size[OF that] using that
    by (auto split: option.splits)
  then show ?thesis by (simp add: AnnotateStacks_def Let_def walks)
qed

section \<open>Annotating again\<close>

lemma head_key_annotated [simp]: "head_key (annotated prs i) = head_key (prs ! i)"
  and base_key_annotated [simp]: "base_key (annotated prs i) = base_key (prs ! i)"
  and prNumber_annotated [simp]: "prNumber (annotated prs i) = prNumber (prs ! i)"
  and prURL_annotated [simp]: "prURL (annotated prs i) = prURL (prs ! i)"
  by (simp_all add: annotated_def head_key_def base_key_def)

lemma parents_annotated: "parents (map (annotated prs) [0..<length prs]) = parents prs"
proof (rule nth_equalityI)
  let ?rs = "map (annotated prs) [0..<length prs]"
  show "length (parents ?rs) = length (parents prs)" by simp
  fix i assume i: "i < length (parents ?rs)"
  have own: "owner_among ?rs (length prs) key p \<longleftrightarrow> owner_among prs (length prs) key p" for key p
    by (auto simp: owner_among_def)
  have "parents ?rs ! i = Some p \<longleftrightarrow> parents prs ! i = Some p" for p
    using i by (simp add: parents_nth own)
  then show "parents ?rs ! i = parents prs ! i"
    by (metis not_Some_eq)
qed

lemma childrenOf_less: "c \<in> set (childrenOf parent p) \<Longrightarrow> c < length parent"
  by (simp add: childrenOf_def)

lemma annotated_annotated:
  assumes "i < length prs"
  shows "annotated (map (annotated prs) [0..<length prs]) i = annotated prs i"
proof -
  let ?rs = "map (annotated prs) [0..<length prs]"
  have links: "links ?rs = links prs" by (simp add: parents_annotated)
  have kids: "map (\<lambda>c. prNumber (?rs ! c)) (childrenOf (links prs) i) =
      map (\<lambda>c. prNumber (prs ! c)) (childrenOf (links prs) i)"
    by (rule map_cong) (auto dest!: childrenOf_less)
  have ref: "map_option (\<lambda>p. \<lparr>srNumber = prNumber (?rs ! p), srURL = prURL (?rs ! p)\<rparr>) (links prs ! i) =
      map_option (\<lambda>p. \<lparr>srNumber = prNumber (prs ! p), srURL = prURL (prs ! p)\<rparr>) (links prs ! i)"
    using assms links_less[of i prs] by (cases "links prs ! i") auto
  have size: "stack_size ?rs i = stack_size prs i" by (simp add: stack_size_def parents_annotated)
  show ?thesis
    unfolding annotated_def[of ?rs] links kids ref size using assms
    by (simp add: annotated_def)
qed

section \<open>Properties\<close>

lemma nth_AnnotateStacks:
  "AnnotateStacks prs = Some rs \<Longrightarrow> length rs = length prs \<and> (\<forall>i < length prs. rs ! i = annotated prs i)"
  by (auto simp: AnnotateStacks_eq)

text \<open>
  C10: Annotating always returns, whatever loops of branches the pull requests form, and links
  exactly the chains that end: row \<open>i\<close> is stacked on what its base branch belongs to (the
  lowest-numbered pull request from that branch, same repository and forge, no fork) unless its
  chain of parents runs into a loop, and then it is stacked on nothing.
\<close>

theorem AnnotateStacks_links:
  "\<exists>rs. AnnotateStacks prs = Some rs \<and> length rs = length prs \<and>
     (\<forall>i < length prs. prStackedOn (rs ! i) = (if ends (parents prs) i
        then map_option (\<lambda>p. \<lparr>srNumber = prNumber (prs ! p), srURL = prURL (prs ! p)\<rparr>) (parents prs ! i)
        else None)) \<and>
     (\<forall>i < length prs. \<forall>p. parents prs ! i = Some p \<longleftrightarrow> p \<noteq> i \<and>
        (\<exists>key. base_key (prs ! i) = Some key \<and> owner_among prs (length prs) key p))"
  by (simp add: AnnotateStacks_eq annotated_def dropCycles_nth parents_nth)

definition loop_prs :: "pull_request list" where
  "loop_prs = [zero_pr\<lparr>prNumber := 1, prHeadBranch := ''a'', prBaseBranch := ''b''\<rparr>,
     zero_pr\<lparr>prNumber := 2, prHeadBranch := ''b'', prBaseBranch := ''a''\<rparr>,
     zero_pr\<lparr>prNumber := 3, prHeadBranch := ''c'', prBaseBranch := ''main''\<rparr>,
     zero_pr\<lparr>prNumber := 4, prHeadBranch := ''d'', prBaseBranch := ''c''\<rparr>]"

lemma AnnotateStacks_links_witness:
  "map (\<lambda>p. (prStackedOn p \<noteq> None, prStackChildren p)) (the (AnnotateStacks loop_prs)) =
     [(False, []), (False, []), (False, [4]), (True, [])] \<and> length loop_prs = 4 \<and>
   length (the (AnnotateStacks loop_prs)) = 4"
proof -
  have "length loop_prs = 4" by (simp add: loop_prs_def)
  moreover from AnnotateStacks_links[of loop_prs] this
  have "length (the (AnnotateStacks loop_prs)) = 4" by auto
  moreover have "map (\<lambda>p. (prStackedOn p \<noteq> None, prStackChildren p)) (the (AnnotateStacks loop_prs)) =
     [(False, []), (False, []), (False, [4]), (True, [])]" by code_simp
  ultimately show ?thesis by simp
qed

text \<open>
  Positions read up the stack. A row stacked on row \<open>p\<close> stands one above it, in a stack of
  the same size, and is among its children; a row stacked on nothing that has children is at
  position 1; a row outside every stack carries no position; no position exceeds the size of
  its stack.
\<close>

lemma depth_less_size:
  assumes "i < length prs"
  shows "depthOf (links prs) i < stack_size prs i"
proof -
  let ?S = "\<lambda>r. {j. j < length prs \<and> rootOf (links prs) j = r}"
  have "ends (links prs) i" using assms by (rule ends_links)
  then have "i < length prs \<Longrightarrow> \<exists>S. S \<subseteq> ?S (rootOf (links prs) i) \<and>
      card S = Suc (depthOf (links prs) i) \<and> finite S \<and> (\<forall>j \<in> S. depthOf (links prs) j \<le> depthOf (links prs) i)"
  proof (induction rule: ends_induct)
    case (root i)
    then show ?case by (intro exI[of _ "{i}"]) (simp add: root_bottom)
  next
    case (up i p)
    then have p: "p < length prs" using links_less by blast
    with up obtain S where S: "S \<subseteq> ?S (rootOf (links prs) p)" "card S = Suc (depthOf (links prs) p)"
      "finite S" "\<forall>j \<in> S. depthOf (links prs) j \<le> depthOf (links prs) p" by blast
    have r: "rootOf (links prs) i = rootOf (links prs) p" "depthOf (links prs) i = Suc (depthOf (links prs) p)"
      using root_up[of "links prs" i p] up ends_step by blast+
    with S have "i \<notin> S" by force
    with S r up show ?case by (intro exI[of _ "insert i S"]) (auto simp: le_Suc_eq)
  qed
  then obtain S where "S \<subseteq> ?S (rootOf (links prs) i)" "card S = Suc (depthOf (links prs) i)"
    using assms by blast
  moreover have "finite (?S (rootOf (links prs) i))" by simp
  ultimately show ?thesis unfolding stack_size_def by (metis card_mono Suc_le_lessD)
qed

lemma childrenOf_links:
  "c \<in> set (childrenOf (links prs) p) \<longleftrightarrow> c < length prs \<and> links prs ! c = Some p"
  by (auto simp: childrenOf_def)

theorem stack_positions:
  assumes "AnnotateStacks prs = Some rs" "i < length prs"
  shows "(\<forall>p. links prs ! i = Some p \<longrightarrow> (\<exists>lower upper.
        prStack (rs ! p) = Some lower \<and> prStack (rs ! i) = Some upper \<and>
        Position upper = Position lower + 1 \<and> StackSize upper = StackSize lower \<and>
        prNumber (prs ! i) \<in> set (prStackChildren (rs ! p)))) \<and>
    (links prs ! i = None \<longrightarrow> prStack (rs ! i) =
        (if prStackChildren (rs ! i) = [] then None
         else Some \<lparr>Position = 1, StackSize = int (stack_size prs i)\<rparr>)) \<and>
    (\<forall>pos. prStack (rs ! i) = Some pos \<longrightarrow> 1 \<le> Position pos \<and> Position pos \<le> StackSize pos) \<and>
    sorted (prStackChildren (rs ! i))"
proof (intro conjI allI impI)
  note rs = nth_AnnotateStacks[OF assms(1)]
  fix p assume p: "links prs ! i = Some p"
  then have pl: "p < length prs" using links_less assms(2) by blast
  have kid: "i \<in> set (childrenOf (links prs) p)" using p assms(2) by (simp add: childrenOf_links)
  then have "childrenOf (links prs) p \<noteq> []" by auto
  then show "\<exists>lower upper. prStack (rs ! p) = Some lower \<and> prStack (rs ! i) = Some upper \<and>
        Position upper = Position lower + 1 \<and> StackSize upper = StackSize lower \<and>
        prNumber (prs ! i) \<in> set (prStackChildren (rs ! p))"
    using rs pl assms(2) p kid root_up[OF ends_links p]
    by (simp add: annotated_def stack_size_def)
next
  note rs = nth_AnnotateStacks[OF assms(1)]
  assume "links prs ! i = None"
  then show "prStack (rs ! i) = (if prStackChildren (rs ! i) = [] then None
         else Some \<lparr>Position = 1, StackSize = int (stack_size prs i)\<rparr>)"
    using rs assms(2) by (simp add: annotated_def root_bottom flip: set_empty)
next
  note rs = nth_AnnotateStacks[OF assms(1)]
  fix pos assume "prStack (rs ! i) = Some pos"
  then show "1 \<le> Position pos" "Position pos \<le> StackSize pos"
    using rs assms(2) depth_less_size[OF assms(2)] by (auto simp: annotated_def split: if_splits)
next
  show "sorted (prStackChildren (rs ! i))"
    using nth_AnnotateStacks[OF assms(1)] assms(2) by (simp add: annotated_def)
qed

lemma stack_positions_witness:
  "\<exists>rs. AnnotateStacks loop_prs = Some rs \<and> sorted (prStackChildren (rs ! 2))"
proof -
  obtain rs where rs: "AnnotateStacks loop_prs = Some rs" by (simp add: AnnotateStacks_eq)
  with stack_positions[of loop_prs rs 2] show ?thesis by (simp add: loop_prs_def)
qed

text \<open>
  Annotating an annotated list changes nothing, so a row that goes through the pass twice
  (merged into a snapshot and merged again) is the same row.
\<close>

theorem AnnotateStacks_idempotent:
  assumes "AnnotateStacks prs = Some rs"
  shows "AnnotateStacks rs = Some rs"
  using assms by (auto simp: AnnotateStacks_eq annotated_annotated)

lemma AnnotateStacks_idempotent_witness:
  "Option.bind (AnnotateStacks loop_prs) AnnotateStacks = AnnotateStacks loop_prs"
proof -
  obtain rs where "AnnotateStacks loop_prs = Some rs" by (simp add: AnnotateStacks_eq)
  with AnnotateStacks_idempotent show ?thesis by simp
qed

end
