(* ===== verification/Action_Refusal.thy ===== *)
theory Action_Refusal
  imports Allowed_Actions
begin

text \<open>
  \<open>action_refusal.go\<close>: what a refused action is answered with. The forge's error and, where it
  was re-read, the pull request's state are mapped onto one fixed set of codes and a message for a
  person. The regular expression of \<open>ForgeMessage\<close> is written out as the deterministic scan it
  is: its tokens hold no white space and its separators are single spaces.
\<close>

section \<open>Data\<close>

record action_refusal =
  arCode :: action_code
  arMessage :: string
  arResetsAt :: "time option"

abbreviation refusal :: "action_code \<Rightarrow> string \<Rightarrow> action_refusal" where
  "refusal c m \<equiv> \<lparr>arCode = c, arMessage = m, arResetsAt = None\<rparr>"

record pull_request_state =
  psMerged :: bool
  psClosed :: bool
  psDraft :: bool
  psConflicting :: bool
  psBehind :: bool
  psBlocked :: bool
  psChecksFailing :: bool
  psConflictUnconfirmed :: bool
  psChangesWorkflows :: bool

datatype pull_request_action = PullRequestActionMerge | PullRequestActionClose
  | PullRequestActionReopen | PullRequestActionUpdateBranch | PullRequestActionAutoMerge
  | PullRequestActionCancelAutoMerge | PullRequestActionDependabot
  | PullRequestActionRenovateRebase | PullRequestActionCancelRenovateRebase
  | PullRequestActionRerunChecks | PullRequestActionCancelRun
  | PullRequestActionRerunBranchChecks

text \<open>Whether the error is a client error of one kind.\<close>

definition has_kind :: "go_error \<Rightarrow> forge_error_kind \<Rightarrow> bool" where
  "has_kind e k = (case errClient e of None \<Rightarrow> False | Some c \<Rightarrow> ceKind c = k)"

section \<open>The forge's own text\<close>

text \<open>\<open>\s\<close> of the expression: no vertical tab.\<close>

definition re_space :: "char \<Rightarrow> bool" where
  "re_space c = ((of_char c :: nat) \<in> {9, 10, 12, 13, 32})"

definition token :: "string \<Rightarrow> string \<times> string" where
  "token s = (takeWhile (\<lambda>c. \<not> re_space c) s, dropWhile (\<lambda>c. \<not> re_space c) s)"

definition strip_diagnostic :: "string \<Rightarrow> string \<Rightarrow> string option" where
  "strip_diagnostic name msg = (case cut_prefix msg (name @ '': '') of
       None \<Rightarrow> None
     | Some s1 \<Rightarrow> (let (w1, r1) = token s1 in
         case cut_prefix r1 '' '' of
           None \<Rightarrow> None
         | Some s2 \<Rightarrow> (let (w2, r2) = token s2 in
             case cut_prefix r2 '' '' of
               None \<Rightarrow> None
             | Some rest \<Rightarrow>
                 if w1 \<noteq> '''' \<and> length w2 \<ge> 2 \<and> last w2 = CHR '':'' \<and> rest \<noteq> ''''
                    \<and> CHR 0x0A \<notin> set rest then Some rest else None)))"

definition ForgeMessage :: "go_error \<Rightarrow> string" where
  "ForgeMessage e = (case strip_diagnostic ''github'' (errText e) of
       Some m \<Rightarrow> m
     | None \<Rightarrow> (case strip_diagnostic ''forgejo'' (errText e) of Some m \<Rightarrow> m | None \<Rightarrow> errText e))"

section \<open>Sentences\<close>

text \<open>\<open>strings.TrimRight\<close> for a set that holds runes of several bytes.\<close>

lemma trim_suffix_shorter: "r \<noteq> [] \<Longrightarrow> has_suffix s r \<Longrightarrow> length (trim_suffix s r) < length s"
  by (cases r) (auto simp: trim_suffix_def has_suffix_def)

function trim_right_runes :: "string list \<Rightarrow> string \<Rightarrow> string" where
  "trim_right_runes rs s = (case find (\<lambda>r. r \<noteq> [] \<and> has_suffix s r) rs of
       None \<Rightarrow> s
     | Some r \<Rightarrow> trim_right_runes rs (trim_suffix s r))"
  by pat_completeness auto
termination
  by (relation "measure (\<lambda>(rs, s). length s)")
     (auto dest!: find_Some_P intro: trim_suffix_shorter)

declare trim_right_runes.simps [simp del]

definition closers :: "string list" where
  "closers = [[CHR 0x22], [CHR 0x27], '')'', '']'', ''}'', [CHR 0xE2, CHR 0x80, CHR 0x9D],
     [CHR 0xE2, CHR 0x80, CHR 0x99]]"

definition endSentence :: "string \<Rightarrow> string" where
  "endSentence msg0 =
     (let msg = trim_right_set (\<lambda>c. (of_char c :: nat) \<in> {32, 9, 13, 10}) msg0;
          trimmed = trim_right_runes closers msg
      in if has_suffix trimmed ''.'' \<or> has_suffix trimmed ''?'' \<or> has_suffix trimmed ''!'' then msg
         else let msg = trim_right_set (\<lambda>c. c \<in> set '':;, '') msg
              in if msg = '''' then '''' else msg @ ''.'')"

definition maxPlainMessageSize :: nat where
  "maxPlainMessageSize = 200"

definition isPlainSentence :: "string \<Rightarrow> bool" where
  "isPlainSentence text0 = (let text = trim_space text0 in
     if text = '''' \<or> length text > maxPlainMessageSize then False
     else if \<not> is_letter (hd text) then False
     else if list_ex (\<lambda>p. has_prefix (lower text) p) [''dashboard:'', ''forgejo:'', ''github:'']
       then False
     else \<not> list_ex (\<lambda>c. c \<in> set ''/{}'') text \<and> \<not> str_contains text ''://'')"

section \<open>The fixed messages\<close>

definition notReopenableMessage :: string where
  "notReopenableMessage = ''The forge won't reopen this pull request. Usually its branch was deleted or rewritten after it was closed: restore the branch on the forge, then try again.''"
definition notFoundMessage :: string where
  "notFoundMessage = ''The forge couldn't find that run, job or pull request. It may not support rerunning checks from here, or the token can't see this repository.''"
definition branchNotFoundMessage :: string where
  "branchNotFoundMessage = ''The forge couldn't find that run or job. It may not support rerunning checks from here, or the token can't see this repository.''"
definition noReasonMessage :: string where
  "noReasonMessage = ''The forge refused this action and gave no reason.''"
definition noAnswerMessage :: string where
  "noAnswerMessage = ''The forge didn't answer.''"
definition retryAdvice :: string where
  "retryAdvice = ''Try again in a moment.''"
definition unreachableMessage :: string where
  "unreachableMessage = noAnswerMessage @ '' '' @ retryAdvice"
definition forgeFailedMessage :: string where
  "forgeFailedMessage = ''The forge had a server error. '' @ retryAdvice"

lemmas message_defs = notReopenableMessage_def notFoundMessage_def branchNotFoundMessage_def
  noReasonMessage_def noAnswerMessage_def retryAdvice_def unreachableMessage_def forgeFailedMessage_def

section \<open>Classification\<close>

definition unknownRefusal :: "go_error \<Rightarrow> string \<Rightarrow> action_refusal" where
  "unknownRefusal e forgeText = (case errClient e of
       Some c \<Rightarrow>
         if ceKind c = ForgeErrorUnreachable then refusal ActionUnknown unreachableMessage
         else if isPlainSentence forgeText then refusal ActionUnknown forgeText
         else refusal ActionUnknown noReasonMessage
     | None \<Rightarrow> refusal ActionUnknown noReasonMessage)"

definition refusalFromKind :: "go_error \<Rightarrow> action_refusal option" where
  "refusalFromKind e = (case errClient e of
       None \<Rightarrow> None
     | Some c \<Rightarrow>
         if ceKind c = ForgeErrorRateLimited then
           Some \<lparr>arCode = ActionRateLimited,
             arMessage = ''The forge's API rate limit is reached. Try again once it resets.'',
             arResetsAt = (case ceRateLimit c of
                 Some rl \<Rightarrow> if rlResetsAt rl \<noteq> zero_time then Some (rlResetsAt rl) else None
               | None \<Rightarrow> None)\<rparr>
         else if ceKind c = ForgeErrorUnauthorized then
           (if cePermissionMessage c \<noteq> '''' then Some (refusal ActionPermission (cePermissionMessage c))
            else Some (refusal ActionPermission
              (''Missing permission '' @ em_dash @ '' check your token in Settings.'')))
         else if ForgeFailed c then Some (refusal ActionForgeError forgeFailedMessage)
         else None)"

definition ClassifyForgeRefusal :: "go_error \<Rightarrow> action_refusal" where
  "ClassifyForgeRefusal e = (case refusalFromKind e of
       Some r \<Rightarrow> r
     | None \<Rightarrow>
         if has_kind e ForgeErrorNotFound
           then refusal ActionUnknown ''The forge couldn't find this repo, or the token can't see it.''
         else unknownRefusal e (ForgeMessage e))"

definition refusalFromFlags :: "pull_request_state \<Rightarrow> action_refusal option" where
  "refusalFromFlags st =
     (if psConflicting st then Some (refusal ActionConflict ''Merge conflict. Resolve it on the forge, then merge.'')
      else if psConflictUnconfirmed st then Some (refusal ActionConflict ''Probably a merge conflict: the forge says this isn't mergeable but not why, and says the same while it is still checking. Refresh in a moment; if it stays, resolve the conflict on the forge.'')
      else if psBehind st then Some (refusal ActionBehind ''Behind the base branch. Bring it up to date, then merge.'')
      else if psDraft st then Some (refusal ActionNotMergeable ''Draft pull request. Mark it ready for review to merge.'')
      else if psChecksFailing st then Some (refusal ActionChecksFailing ''A check is failing. Fix it, then merge.'')
      else None)"

definition refusalFromFinishedState ::
  "pull_request_action \<Rightarrow> pull_request_state option \<Rightarrow> action_refusal option" where
  "refusalFromFinishedState action state = (case state of
       None \<Rightarrow> None
     | Some st \<Rightarrow>
         if psMerged st then Some (refusal ActionAlreadyMerged ''This pull request was already merged.'')
         else if psClosed st \<and> action \<noteq> PullRequestActionReopen
           then Some (refusal ActionAlreadyClosed ''This pull request was closed without merging.'')
         else None)"

definition refusalFromWorkflowChange ::
  "pull_request_action \<Rightarrow> go_error \<Rightarrow> pull_request_state option \<Rightarrow> action_refusal option" where
  "refusalFromWorkflowChange action e state =
     (if action \<noteq> PullRequestActionUpdateBranch
         \<or> \<not> (case state of Some st \<Rightarrow> psChangesWorkflows st | None \<Rightarrow> False) then None
      else if \<not> has_kind e ForgeErrorUnauthorized then None
      else Some (refusal ActionPermission ''GitHub won't let this app update a branch that changes workflow files. The app needs the Workflows permission, or update the branch by hand.''))"

definition classifyMergeRefusal :: "string \<Rightarrow> pull_request_state \<Rightarrow> action_refusal" where
  "classifyMergeRefusal forgeText st = (case refusalFromFlags st of
       Some r \<Rightarrow> r
     | None \<Rightarrow> (let l = lower forgeText in
         if str_contains l ''approval'' \<or> str_contains l ''requested change''
           then refusal ActionBlockedByProtection ''Blocked by branch protection: a required review is missing.''
         else if str_contains l ''status check'' then
           (if str_contains l ''fail''
              then refusal ActionChecksFailing ''A required check is failing. Fix it, then merge.''
            else refusal ActionChecksPending ''A required check hasn't finished. Merge once it passes.'')
         else if psBlocked st
           then refusal ActionBlockedByProtection ''Blocked by branch protection: a required review or check is missing.''
         else if str_contains l ''not mergeable''
           then refusal ActionNotMergeable ''No longer mergeable. Refresh to see the current state.''
         else refusal ActionNotMergeable forgeText))"

definition classifyUpdateBranchRefusal ::
  "go_error \<Rightarrow> string \<Rightarrow> pull_request_state option \<Rightarrow> action_refusal" where
  "classifyUpdateBranchRefusal e forgeText state = (let l = lower forgeText;
       conflicting = (case state of Some st \<Rightarrow> psConflicting st | None \<Rightarrow> False) in
     if str_contains l ''no new commits'' \<or> str_contains l ''up to date'' \<or> str_contains l ''up-to-date''
       then refusal ActionAlreadyUpToDate ''The branch is already up to date with its base.''
     else if str_contains l ''expected head sha'' \<and> \<not> conflicting
       then refusal ActionUnknown ''The branch changed while updating. Refresh and try again.''
     else if has_kind e ForgeErrorConflict \<or> conflicting
       then refusal ActionConflict ''Can't update cleanly. Resolve the conflict on the forge.''
     else unknownRefusal e forgeText)"

definition classifyAutoMergeRefusal :: "go_error \<Rightarrow> string \<Rightarrow> action_refusal" where
  "classifyAutoMergeRefusal e forgeText = (let l = lower forgeText in
     if str_contains l ''auto merge is not allowed'' \<or> str_contains l ''auto-merge is not allowed''
       then refusal ActionAutoMergeNotAllowed ''Auto-merge isn't allowed for this pull request. Turn it on in the repo's settings.''
     else if str_contains l ''is in clean status''
       then refusal ActionReadyToMerge ''This pull request is already ready to merge, so there's nothing for auto-merge to wait for. Use Merge instead.''
     else if str_contains l ''is in unstable status''
       then refusal ActionChecksPending ''GitHub reports this pull request as unstable: a non-required check is still running or has failed. Try again once it settles.''
     else if str_contains l ''protected branch rules not configured''
       then refusal ActionBlockedByProtection ''Auto-merge needs a branch protection rule with a required check or review on the base branch.''
     else unknownRefusal e forgeText)"

definition rerunNotFound :: "pull_request_action \<Rightarrow> go_error \<Rightarrow> string \<Rightarrow> action_refusal option" where
  "rerunNotFound action e forgeText =
     (if \<not> has_kind e ForgeErrorNotFound then None
      else if isPlainSentence forgeText \<and> \<not> str_contains (lower forgeText) ''page not found'' then None
      else if action = PullRequestActionRerunBranchChecks
        then Some (refusal ActionUnknown branchNotFoundMessage)
      else Some (refusal ActionUnknown notFoundMessage))"

definition classifyReopenRefusal :: "go_error \<Rightarrow> action_refusal option" where
  "classifyReopenRefusal e = (case errClient e of
       None \<Rightarrow> None
     | Some c \<Rightarrow>
         if ceKind c \<noteq> ForgeErrorConflict \<and> ceKind c \<noteq> ForgeErrorUnknown then None
         else Some (refusal ActionNotReopenable notReopenableMessage))"

definition classifyByAction ::
  "pull_request_action \<Rightarrow> go_error \<Rightarrow> string \<Rightarrow> pull_request_state option \<Rightarrow> action_refusal" where
  "classifyByAction action e forgeText state = (case action of
       PullRequestActionMerge \<Rightarrow> (case state of
           Some st \<Rightarrow> classifyMergeRefusal forgeText st
         | None \<Rightarrow> unknownRefusal e forgeText)
     | PullRequestActionUpdateBranch \<Rightarrow> classifyUpdateBranchRefusal e forgeText state
     | PullRequestActionAutoMerge \<Rightarrow> classifyAutoMergeRefusal e forgeText
     | PullRequestActionRenovateRebase \<Rightarrow>
         if has_kind e ForgeErrorNotFound \<and> state \<noteq> None
           then refusal ActionLabelMissing ''The rebase label doesn't exist on this repo. Create it there first.''
         else unknownRefusal e forgeText
     | PullRequestActionReopen \<Rightarrow> (case classifyReopenRefusal e of
           Some r \<Rightarrow> r | None \<Rightarrow> unknownRefusal e forgeText)
     | PullRequestActionRerunChecks \<Rightarrow> (case rerunNotFound action e forgeText of
           Some r \<Rightarrow> r | None \<Rightarrow> unknownRefusal e forgeText)
     | PullRequestActionRerunBranchChecks \<Rightarrow> (case rerunNotFound action e forgeText of
           Some r \<Rightarrow> r | None \<Rightarrow> unknownRefusal e forgeText)
     | _ \<Rightarrow> unknownRefusal e forgeText)"

definition classifyActionRefusal ::
  "pull_request_action \<Rightarrow> go_error \<Rightarrow> pull_request_state option \<Rightarrow> action_refusal" where
  "classifyActionRefusal action e state =
     (case refusalFromKind e of
        Some r \<Rightarrow> if arCode r = ActionRateLimited then r else
          (case refusalFromFinishedState action state of Some r' \<Rightarrow> r'
           | None \<Rightarrow> (case refusalFromWorkflowChange action e state of Some r' \<Rightarrow> r' | None \<Rightarrow> r))
      | None \<Rightarrow>
          (case refusalFromFinishedState action state of Some r' \<Rightarrow> r'
           | None \<Rightarrow> (case refusalFromWorkflowChange action e state of Some r' \<Rightarrow> r'
               | None \<Rightarrow> classifyByAction action e (ForgeMessage e) state)))"

definition ClassifyActionRefusalFor ::
  "pull_request_action \<Rightarrow> go_error \<Rightarrow> pull_request_state option \<Rightarrow> action_refusal" where
  "ClassifyActionRefusalFor action e state = (let r = classifyActionRefusal action e state in
     if action = PullRequestActionRerunChecks \<or> action = PullRequestActionRerunBranchChecks then
       (case errClient e of
          Some c \<Rightarrow>
            if cePartial c \<noteq> '''' then
              let r = (if ceMayHaveRestarted c
                       then r\<lparr>arMessage := trim_suffix (arMessage r) ('' '' @ retryAdvice)\<rparr> else r)
              in r\<lparr>arMessage := trim_space (endSentence (arMessage r) @ '' '' @ cePartial c)\<rparr>
            else r
        | None \<Rightarrow> r)
     else r)"

definition ClassifyActionRefusal :: "go_error \<Rightarrow> pull_request_state option \<Rightarrow> action_refusal" where
  "ClassifyActionRefusal e state = ClassifyActionRefusalFor PullRequestActionMerge e state"

section \<open>Sentences close\<close>

lemma trim_right_set_subset: "set (trim_right_set P s) \<subseteq> set s"
  using set_dropWhileD by (fastforce simp: trim_right_set_def)

lemma trim_right_set_idem [simp]: "trim_right_set P (trim_right_set P s) = trim_right_set P s"
  by (simp add: trim_right_set_def)

lemma trim_right_set_snoc [simp]: "\<not> P c \<Longrightarrow> trim_right_set P (s @ [c]) = s @ [c]"
  by (simp add: trim_right_set_def)

lemma trim_suffix_subset: "set (trim_suffix s r) \<subseteq> set s"
  by (simp add: trim_suffix_def set_take_subset)

lemma trim_right_runes_dot: "trim_right_runes closers (s @ ''.'') = s @ ''.''"
proof -
  have "find (\<lambda>r. r \<noteq> [] \<and> has_suffix (s @ ''.'') r) closers = None"
    by (auto simp: find_None_iff closers_def has_suffix_iff append_eq_append_conv2 append_eq_Cons_conv
        dest!: arg_cong[where f = rev])
  then show ?thesis by (simp add: trim_right_runes.simps)
qed

definition closed_sentence :: "string \<Rightarrow> bool" where
  "closed_sentence m \<longleftrightarrow> (\<exists>c \<in> set ''.?!''. has_suffix (trim_right_runes closers m) [c])"

lemma endSentence_cases:
  obtains (kept) "endSentence m = trim_right_set (\<lambda>c. (of_char c :: nat) \<in> {32, 9, 13, 10}) m"
      "closed_sentence (endSentence m)"
    | (empty) "endSentence m = ''''"
    | (stopped) s where "endSentence m = s @ ''.''" "s \<noteq> ''''"
        "set s \<subseteq> set m"
proof -
  let ?t = "trim_right_set (\<lambda>c. (of_char c :: nat) \<in> {32, 9, 13, 10}) m"
  let ?u = "trim_right_set (\<lambda>c. c \<in> set '':;, '') ?t"
  have eq: "endSentence m = (if closed_sentence ?t then ?t else if ?u = '''' then '''' else ?u @ ''.'')"
    by (simp add: endSentence_def Let_def closed_sentence_def)
  have sub: "set ?u \<subseteq> set m" using trim_right_set_subset by blast
  show thesis
  proof (cases "closed_sentence ?t")
    case True
    with eq kept show thesis by simp
  next
    case False
    with eq empty stopped[of ?u] sub show thesis by (cases "?u = ''''") auto
  qed
qed

lemma closed_dot: "closed_sentence (s @ ''.'')"
  by (simp add: closed_sentence_def trim_right_runes_dot)

lemma endSentence_chars: "set (endSentence m) \<subseteq> insert (CHR ''.'') (set m)"
proof (cases m rule: endSentence_cases)
  case kept
  then show ?thesis using trim_right_set_subset by fastforce
qed auto

section \<open>Codes\<close>

lemma unknownRefusal_code [simp]: "arCode (unknownRefusal e t) = ActionUnknown"
  by (simp add: unknownRefusal_def split: option.splits)

lemma merge_refusal_code:
  "arCode (classifyMergeRefusal t st) \<in> {ActionConflict, ActionBehind, ActionNotMergeable,
     ActionChecksFailing, ActionChecksPending, ActionBlockedByProtection}"
  by (simp add: classifyMergeRefusal_def refusalFromFlags_def Let_def)

lemma update_refusal_code:
  "arCode (classifyUpdateBranchRefusal e t st) \<in> {ActionAlreadyUpToDate, ActionUnknown, ActionConflict}"
  by (simp add: classifyUpdateBranchRefusal_def Let_def)

lemma auto_merge_refusal_code:
  "arCode (classifyAutoMergeRefusal e t) \<in> {ActionAutoMergeNotAllowed, ActionReadyToMerge,
     ActionChecksPending, ActionBlockedByProtection, ActionUnknown}"
  by (simp add: classifyAutoMergeRefusal_def Let_def)

definition outcome_codes :: "action_code set" where
  "outcome_codes = {ActionRateLimited, ActionAlreadyMerged, ActionAlreadyClosed, ActionPermission,
     ActionForgeError}"

lemma classifyByAction_code: "arCode (classifyByAction a e t st) \<notin> outcome_codes"
proof (cases a)
  case PullRequestActionMerge
  then show ?thesis
    using merge_refusal_code[of t "the st"] by (cases st) (auto simp: classifyByAction_def outcome_codes_def)
next
  case PullRequestActionUpdateBranch
  then show ?thesis
    using update_refusal_code[of e t st] by (auto simp: classifyByAction_def outcome_codes_def)
next
  case PullRequestActionAutoMerge
  then show ?thesis
    using auto_merge_refusal_code[of e t] by (auto simp: classifyByAction_def outcome_codes_def)
qed (auto simp: classifyByAction_def outcome_codes_def classifyReopenRefusal_def rerunNotFound_def
      split: option.splits)

lemma refusal_code_kept [simp]:
  "arCode (ClassifyActionRefusalFor a e st) = arCode (classifyActionRefusal a e st)"
  by (simp add: ClassifyActionRefusalFor_def Let_def split: option.splits)

lemma refusalFromKind_code:
  "(\<exists>r. refusalFromKind e = Some r \<and> arCode r = ActionRateLimited) \<longleftrightarrow> has_kind e ForgeErrorRateLimited"
  "(\<exists>r. refusalFromKind e = Some r \<and> arCode r = ActionPermission) \<longleftrightarrow> has_kind e ForgeErrorUnauthorized"
  "refusalFromKind e = Some r \<Longrightarrow> arCode r \<in> {ActionRateLimited, ActionPermission, ActionForgeError}"
  by (auto simp: refusalFromKind_def has_kind_def split: option.splits if_splits)

lemma finished_code:
  "refusalFromFinishedState a st = Some r \<Longrightarrow> arCode r \<in> {ActionAlreadyMerged, ActionAlreadyClosed}"
  by (auto simp: refusalFromFinishedState_def split: option.splits if_splits)

lemma workflow_code:
  "refusalFromWorkflowChange a e st = Some r \<Longrightarrow>
     arCode r = ActionPermission \<and> has_kind e ForgeErrorUnauthorized"
  by (auto simp: refusalFromWorkflowChange_def split: if_splits)

lemma has_kind_unique: "has_kind e k \<Longrightarrow> has_kind e k' \<Longrightarrow> k = k'"
  by (auto simp: has_kind_def split: option.splits)

text \<open>
  C11: Which outcome a refusal is classified as does not depend on the action's own wording: a
  rate limit is reported exactly when the forge said so, then a pull request found merged or
  closed (for a reopen only merged counts), and only then a missing permission.
\<close>

theorem refusal_order:
  "(arCode (ClassifyActionRefusalFor a e st) = ActionRateLimited \<longleftrightarrow> has_kind e ForgeErrorRateLimited) \<and>
   (arCode (ClassifyActionRefusalFor a e st) = ActionAlreadyMerged \<longleftrightarrow>
      \<not> has_kind e ForgeErrorRateLimited \<and> (\<exists>s. st = Some s \<and> psMerged s)) \<and>
   (arCode (ClassifyActionRefusalFor a e st) = ActionAlreadyClosed \<longleftrightarrow>
      \<not> has_kind e ForgeErrorRateLimited \<and> (\<exists>s. st = Some s \<and> \<not> psMerged s \<and> psClosed s)
      \<and> a \<noteq> PullRequestActionReopen) \<and>
   (arCode (ClassifyActionRefusalFor a e st) = ActionPermission \<longleftrightarrow>
      has_kind e ForgeErrorUnauthorized \<and> refusalFromFinishedState a st = None)"
proof -
  let ?c = "arCode (classifyActionRefusal a e st)"
  have fin: "refusalFromFinishedState a st = Some r \<Longrightarrow>
      (arCode r = ActionAlreadyMerged \<longleftrightarrow> (\<exists>s. st = Some s \<and> psMerged s)) \<and>
      (arCode r = ActionAlreadyClosed \<longleftrightarrow> (\<exists>s. st = Some s \<and> \<not> psMerged s \<and> psClosed s)
        \<and> a \<noteq> PullRequestActionReopen)" for r
    by (auto simp: refusalFromFinishedState_def split: option.splits if_splits)
  have nofin: "refusalFromFinishedState a st = None \<Longrightarrow>
      \<not> (\<exists>s. st = Some s \<and> psMerged s) \<and>
      \<not> ((\<exists>s. st = Some s \<and> \<not> psMerged s \<and> psClosed s) \<and> a \<noteq> PullRequestActionReopen)"
    by (auto simp: refusalFromFinishedState_def split: option.splits if_splits)
  have other: "arCode (classifyByAction a e (ForgeMessage e) st) \<notin> outcome_codes"
    by (rule classifyByAction_code)
  show ?thesis
  proof (cases "has_kind e ForgeErrorRateLimited")
    case True
    then obtain r where "refusalFromKind e = Some r" "arCode r = ActionRateLimited"
      using refusalFromKind_code(1) by blast
    moreover have "\<not> has_kind e ForgeErrorUnauthorized" using True has_kind_unique by blast
    ultimately show ?thesis using True by (simp add: classifyActionRefusal_def)
  next
    case nolimit: False
    show ?thesis
    proof (cases "refusalFromFinishedState a st")
      case (Some r)
      with nolimit refusalFromKind_code(1)[of e] have "?c = arCode r"
        by (auto simp: classifyActionRefusal_def split: option.splits)
      with Some nolimit fin[OF Some] finished_code[OF Some] show ?thesis by auto
    next
      case None
      then have "?c = ActionPermission \<longleftrightarrow> has_kind e ForgeErrorUnauthorized"
        "?c \<notin> {ActionRateLimited, ActionAlreadyMerged, ActionAlreadyClosed}"
        using nolimit refusalFromKind_code[of e] other workflow_code[of a e st]
        by (auto simp: classifyActionRefusal_def outcome_codes_def split: option.splits)
      with None nolimit nofin show ?thesis by auto
    qed
  qed
qed

section \<open>Messages for a person\<close>

text \<open>None of the marks that give away an API path, a URL or a JSON body.\<close>

definition plain :: "string \<Rightarrow> bool" where
  "plain m \<longleftrightarrow> CHR ''/'' \<notin> set m \<and> CHR ''{'' \<notin> set m \<and> CHR ''}'' \<notin> set m"

lemma plain_simps [simp]:
  "plain ''''" "plain (c # s) \<longleftrightarrow> c \<notin> set ''/{}'' \<and> plain s" "plain (a @ b) \<longleftrightarrow> plain a \<and> plain b"
  by (auto simp: plain_def)

lemma plain_subset: "set a \<subseteq> set b \<Longrightarrow> plain b \<Longrightarrow> plain a"
  by (auto simp: plain_def)

lemma plain_trim_space: "plain m \<Longrightarrow> plain (trim_space m)"
  using set_dropWhileD trim_right_set_subset by (fastforce simp: trim_space_def plain_def)

lemma plain_endSentence: "plain m \<Longrightarrow> plain (endSentence m)"
  using endSentence_chars[of m] by (auto simp: plain_def)

lemma isPlainSentence_plain: "isPlainSentence t \<Longrightarrow> plain t"
proof -
  assume t: "isPlainSentence t"
  then have "plain (trim_space t)"
    by (auto simp: isPlainSentence_def Let_def plain_def list_ex_iff split: if_splits)
  moreover have "c \<in> set t \<Longrightarrow> \<not> is_space c \<Longrightarrow> c \<in> set (trim_space t)" for c
  proof -
    assume c: "c \<in> set t" "\<not> is_space c"
    let ?d = "dropWhile is_space t"
    have "c \<in> set ?d" using c
      by (metis UnE set_append set_takeWhileD takeWhile_dropWhile_id)
    moreover obtain u where "?d = trim_right_set is_space ?d @ u" "list_all is_space u"
      using trim_right_set_split by blast
    ultimately show ?thesis using c(2) unfolding trim_space_def list_all_iff
      by (metis UnE set_append)
  qed
  moreover have "\<not> is_space (CHR ''/'')" "\<not> is_space (CHR ''{'')" "\<not> is_space (CHR ''}'')"
    by (simp_all add: is_space_def)
  ultimately show "plain t" by (auto simp: plain_def)
qed

lemma plain_unknown: "plain (arMessage (unknownRefusal e t))"
  by (auto simp: unknownRefusal_def message_defs isPlainSentence_plain split: option.splits)

lemma plain_update: "plain (arMessage (classifyUpdateBranchRefusal e t st))"
  by (simp add: classifyUpdateBranchRefusal_def Let_def plain_unknown)

lemma plain_auto: "plain (arMessage (classifyAutoMergeRefusal e t))"
  by (simp add: classifyAutoMergeRefusal_def Let_def plain_unknown)

lemma plain_rerun: "rerunNotFound a e t = Some r \<Longrightarrow> plain (arMessage r)"
  by (auto simp: rerunNotFound_def message_defs split: if_splits)

lemma plain_reopen: "classifyReopenRefusal e = Some r \<Longrightarrow> plain (arMessage r)"
  by (auto simp: classifyReopenRefusal_def message_defs split: if_splits option.splits)

lemma plain_by_action:
  assumes "a = PullRequestActionMerge \<longrightarrow> st = None"
  shows "plain (arMessage (classifyByAction a e t st))"
  using assms
  by (cases a)
     (auto simp: classifyByAction_def plain_unknown plain_update plain_auto
       split: option.splits dest: plain_rerun plain_reopen)

lemma plain_finished: "refusalFromFinishedState a st = Some r \<Longrightarrow> plain (arMessage r)"
  by (auto simp: refusalFromFinishedState_def split: option.splits if_splits)

lemma plain_workflow: "refusalFromWorkflowChange a e st = Some r \<Longrightarrow> plain (arMessage r)"
  by (auto simp: refusalFromWorkflowChange_def split: if_splits)

text \<open>The sentences a forge client writes itself, shown as they are.\<close>

definition plain_client :: "go_error \<Rightarrow> bool" where
  "plain_client e \<longleftrightarrow> (case errClient e of None \<Rightarrow> True
     | Some c \<Rightarrow> plain (cePermissionMessage c) \<and> plain (cePartial c))"

lemma plain_kind: "plain_client e \<Longrightarrow> refusalFromKind e = Some r \<Longrightarrow> plain (arMessage r)"
  by (auto simp: refusalFromKind_def plain_client_def em_dash_def message_defs
      split: option.splits if_splits)

text \<open>
  The message of a refusal never carries the forge's path, URL or JSON, for every action
  but a Merge that was re-read: there the forge's own text is shown when nothing else matched.
\<close>

theorem refusal_message_plain:
  assumes "plain_client e" "a = PullRequestActionMerge \<longrightarrow> st = None"
  shows "plain (arMessage (ClassifyActionRefusalFor a e st))"
proof -
  have base: "plain (arMessage (classifyActionRefusal a e st))"
    using assms plain_kind plain_finished plain_workflow plain_by_action
    by (auto simp: classifyActionRefusal_def split: option.splits)
  have cut: "plain m \<Longrightarrow> plain (trim_suffix m s)" for m s
    using trim_suffix_subset plain_subset by blast
  have glue: "plain m \<Longrightarrow> plain p \<Longrightarrow> plain (trim_space (endSentence m @ '' '' @ p))" for m p
    by (intro plain_trim_space) (simp add: plain_endSentence)
  show ?thesis
    using base cut glue assms(1)
    by (auto simp: ClassifyActionRefusalFor_def Let_def plain_client_def split: option.splits
        simp del: append.simps)
qed

definition some_client :: client_error where
  "some_client = \<lparr>ceKind = ForgeErrorUnreachable, ceErr = ''Put https://api.host: timeout'',
     ceRateLimit = None, cePermissionMessage = '''', ceUpstreamStatus = 0, ceRequestID = '''',
     cePartial = '''', ceMayHaveRestarted = False\<rparr>"

definition timeout_error :: go_error where
  "timeout_error = \<lparr>errText = ''github: PUT /repos/a/b: Put https://api.host: timeout'',
     errClient = Some some_client\<rparr>"

definition open_state :: pull_request_state where
  "open_state = \<lparr>psMerged = False, psClosed = False, psDraft = False, psConflicting = False,
     psBehind = False, psBlocked = False, psChecksFailing = False, psConflictUnconfirmed = False,
     psChangesWorkflows = False\<rparr>"

lemma refusal_message_plain_witness:
  "plain (arMessage (ClassifyActionRefusalFor PullRequestActionClose timeout_error (Some open_state)))
   \<and> arMessage (ClassifyActionRefusalFor PullRequestActionMerge timeout_error (Some open_state)) =
     ''Put https://api.host: timeout''"
proof
  show "plain (arMessage (ClassifyActionRefusalFor PullRequestActionClose timeout_error (Some open_state)))"
    by (rule refusal_message_plain)
       (simp_all add: plain_client_def timeout_error_def some_client_def)
  show "arMessage (ClassifyActionRefusalFor PullRequestActionMerge timeout_error (Some open_state)) =
     ''Put https://api.host: timeout''" by code_simp
qed

text \<open>
  \<open>endSentence\<close> leaves nothing, or a sentence another can follow: its text, past closing
  quotes and brackets, ends with a full stop, a question mark or an exclamation mark; closing a
  closed sentence again changes nothing.
\<close>

theorem endSentence_closed:
  "(endSentence m = '''' \<or> closed_sentence (endSentence m)) \<and>
   endSentence (endSentence m) = endSentence m"
proof (cases m rule: endSentence_cases)
  case kept
  let ?t = "trim_right_set (\<lambda>c. (of_char c :: nat) \<in> {32, 9, 13, 10}) m"
  from kept have "closed_sentence ?t" by simp
  then have "endSentence ?t = ?t" by (simp add: endSentence_def Let_def closed_sentence_def)
  with kept show ?thesis by simp
next
  case empty
  have "endSentence '''' = ''''" by code_simp
  with empty show ?thesis by simp
next
  case (stopped s)
  have dot: "trim_right_set (\<lambda>c. (of_char c :: nat) \<in> {32, 9, 13, 10}) (s @ ''.'') = s @ ''.''"
    by simp
  have "endSentence (s @ ''.'') = s @ ''.''"
    unfolding endSentence_def Let_def dot trim_right_runes_dot by simp
  with stopped show ?thesis by (simp add: closed_dot)
qed

end
