(* ===== verification/Refresh_Schedule.thy ===== *)
theory Refresh_Schedule
  imports FD_Model
begin

text \<open>
  When the board asks the forges again: \<open>pending_schedule.go\<close> (which pending pull requests a CI
  poll asks about), \<open>refresh_interval.go\<close> (how long the full refresh waits), \<open>reserve.go\<close> (what
  part of a budget background work leaves alone) and \<open>NextRefreshDelay\<close> of \<open>aggregator.go\<close>.
  Durations and their sums and products are signed 64-bit, wrap-around included.

  Two floating-point expressions are written in integers: \<open>int(float64(l)*0.10)\<close> as
  the truncated tenth of \<open>l\<close>, and \<open>float64(r)/float64(l) < 0.05\<close> as \<open>20 * r < l\<close>; both agree with
  the code for limits below \<open>2 ^ 50\<close>.
\<close>

section \<open>The poll schedule\<close>

definition pendingPollCap :: duration where
  "pendingPollCap = 15 * minute"

definition overdueMultiple :: int where
  "overdueMultiple = 3"

record pending_entry =
  peNext :: time
  peInterval :: duration

record pending_schedule =
  psEntries :: "string \<rightharpoonup> pending_entry"
  psHeldSince :: "string \<rightharpoonup> time"

definition holdOff ::
  "pending_schedule \<Rightarrow> string \<Rightarrow> time \<Rightarrow> duration \<Rightarrow> bool \<times> pending_schedule" where
  "holdOff s key now base = (case psHeldSince s key of
       None \<Rightarrow> (True, s\<lparr>psHeldSince := (psHeldSince s)(key \<mapsto> now)\<rparr>)
     | Some since \<Rightarrow> (time_sub now since < max pendingPollCap base, s))"

text \<open>\<open>base / 2\<close> truncates towards zero.\<close>

definition half :: "int \<Rightarrow> int" where
  "half x = sgn x * (\<bar>x\<bar> div 2)"

definition due :: "pending_schedule \<Rightarrow> string \<Rightarrow> time \<Rightarrow> duration \<Rightarrow> bool" where
  "due s key now base = (case psEntries s key of
       None \<Rightarrow> True
     | Some e \<Rightarrow> \<not> now + half base < peNext e)"

definition polled ::
  "pending_schedule \<Rightarrow> string \<Rightarrow> time \<Rightarrow> duration \<Rightarrow> bool \<Rightarrow> pending_schedule" where
  "polled s key now base changed =
     (let e = (case psEntries s key of
            Some e \<Rightarrow> if changed then \<lparr>peNext = zero_time, peInterval = base\<rparr> else e
          | None \<Rightarrow> \<lparr>peNext = zero_time, peInterval = base\<rparr>);
          e' = \<lparr>peNext = now + peInterval e,
                peInterval = min (i64 (peInterval e * 2)) (max pendingPollCap base)\<rparr>
      in s\<lparr>psEntries := (psEntries s)(key \<mapsto> e'), psHeldSince := (psHeldSince s)(key := None)\<rparr>)"

definition keepOnly :: "pending_schedule \<Rightarrow> string set \<Rightarrow> pending_schedule" where
  "keepOnly s live = s\<lparr>psEntries := keep_keys (\<lambda>k. k \<in> live) (psEntries s),
     psHeldSince := keep_keys (\<lambda>k. k \<in> live) (psHeldSince s)\<rparr>"

section \<open>The full refresh\<close>

definition stretchFactor :: int where "stretchFactor = 4"
definition maxStretchedInterval :: duration where "maxStretchedInterval = 2 * hour"
definition permanentFailureIntervals :: int where "permanentFailureIntervals = 3"

definition StretchedInterval :: "duration \<Rightarrow> duration" where
  "StretchedInterval interval =
     (if interval \<ge> maxStretchedInterval then interval
      else min (i64 (stretchFactor * interval)) maxStretchedInterval)"

definition FailingForGood :: "repo \<Rightarrow> duration \<Rightarrow> time \<Rightarrow> bool" where
  "FailingForGood r interval now = (case rpFailingSince r of
       None \<Rightarrow> False
     | Some since \<Rightarrow> time_sub now since \<ge> i64 (permanentFailureIntervals * interval))"

text \<open>The repo loop of \<open>webhooksCover\<close>, over the set of forges that answered.\<close>

fun coverRepos :: "(forge \<Rightarrow> bool) \<Rightarrow> duration \<Rightarrow> time \<Rightarrow> repo list \<Rightarrow> bool" where
  "coverRepos reachable interval now [] = True"
| "coverRepos reachable interval now (r # rs) =
     (if \<not> rpHasWebhook r \<or> \<not> reachable (rpForge r) then False
      else if rpStaleSince r \<noteq> None \<and> \<not> FailingForGood r interval now then False
      else coverRepos reachable interval now rs)"

definition webhooksCover :: "snapshot \<Rightarrow> duration \<Rightarrow> time \<Rightarrow> bool" where
  "webhooksCover snap interval now =
     (if snRepos snap = [] then False
      else if list_ex (\<lambda>h. \<not> fhReachable h) (snForges snap) then False
      else coverRepos (\<lambda>f. list_ex (\<lambda>h. fhForge h = f) (snForges snap)) interval now (snRepos snap))"

definition criticallyLow :: "rate_limit option \<Rightarrow> bool" where
  "criticallyLow rl = (case rl of
       None \<Rightarrow> False
     | Some r \<Rightarrow> rlLimit r > 0 \<and> 20 * rlRemaining r < rlLimit r)"

definition backoffBuffer :: duration where "backoffBuffer = 30 * second"
definition maxBackoff :: duration where "maxBackoff = hour"

definition backoffStep :: "time \<Rightarrow> rate_limit option \<Rightarrow> duration \<Rightarrow> duration" where
  "backoffStep now rl delay = (case rl of
       None \<Rightarrow> delay
     | Some r \<Rightarrow>
         if \<not> criticallyLow rl \<or> rlRemaining r = 0 then delay
         else let untilReset = min (i64 (time_sub (rlResetsAt r) now + backoffBuffer)) maxBackoff
              in max delay untilReset)"

definition budgets :: "snapshot \<Rightarrow> rate_limit option list" where
  "budgets snap = concat (map (\<lambda>f. [fhRateLimitGraphQL f, fhRateLimitREST f]) (snForges snap))"

definition NextRefreshDelay :: "snapshot \<Rightarrow> time \<Rightarrow> duration \<Rightarrow> duration" where
  "NextRefreshDelay snap now interval = fold (backoffStep now) (budgets snap) interval"

definition NextDelay :: "snapshot \<Rightarrow> time \<Rightarrow> duration \<Rightarrow> duration" where
  "NextDelay snap now interval =
     (let interval = (if webhooksCover snap interval now then StretchedInterval interval else interval)
      in NextRefreshDelay snap now interval)"

section \<open>The reserve\<close>

datatype call_kind = KindFull | KindScopedWebhook | KindCIPoll | KindAutoMergePoll | KindDetails
  | KindHookMaintenance | KindAdvisories | KindUserAction | KindUnknown

definition reserveFloor :: int where "reserveFloor = 50"
definition costWindow :: nat where "costWindow = 3"

definition tenth :: "int \<Rightarrow> int" where
  "tenth x = sgn x * (\<bar>x\<bar> div 10)"

definition reserveOf :: "rate_limit \<Rightarrow> int" where
  "reserveOf rl = min (max reserveFloor (tenth (rlLimit rl))) (half (rlLimit rl))"

type_synonym cost_key = "forge \<times> bool"   \<comment> \<open>the forge, and whether the budget is GraphQL's\<close>
type_synonym reserve_ledger = "cost_key \<Rightarrow> int list"

definition lastCost :: "reserve_ledger \<Rightarrow> cost_key \<Rightarrow> int" where
  "lastCost l k = fold max (l k) 0"

definition record_cost :: "reserve_ledger \<Rightarrow> cost_key \<Rightarrow> int \<Rightarrow> reserve_ledger" where
  "record_cost l k points =
     (let xs = l k @ [points]; over = length xs - costWindow
      in l(k := (if over > 0 then drop over xs else xs)))"

record spend =
  spGraphQL :: int
  spREST :: int

text \<open>What \<open>noteSpend\<close> reads of one source's result: its forge, its health and its spend.\<close>

definition noteSpend ::
  "reserve_ledger \<Rightarrow> (forge \<times> forge_health \<times> spend option) list \<Rightarrow> reserve_ledger" where
  "noteSpend l results = fold (\<lambda>(forge, health, spent) l. case spent of
       None \<Rightarrow> l
     | Some sp \<Rightarrow>
         if \<not> fhReachable health \<or> fhError health \<noteq> '''' then l
         else let l = (if spGraphQL sp > 0 then record_cost l (forge, True) (spGraphQL sp) else l)
              in record_cost l (forge, False) (spREST sp)) results l"

definition healthOf :: "snapshot \<Rightarrow> forge \<Rightarrow> forge_health option" where
  "healthOf snap forge = find (\<lambda>h. fhForge h = forge) (snForges snap)"

definition budgetOf :: "forge_health \<Rightarrow> bool \<Rightarrow> rate_limit option" where
  "budgetOf h graphQL = (if graphQL then fhRateLimitGraphQL h else fhRateLimitREST h)"

definition budgetHeld ::
  "reserve_ledger \<Rightarrow> forge_health \<Rightarrow> time \<Rightarrow> forge \<Rightarrow> call_kind \<Rightarrow> bool \<Rightarrow> bool" where
  "budgetHeld l h now forge kind graphQL = (case budgetOf h graphQL of
       None \<Rightarrow> False
     | Some rl \<Rightarrow>
         if rlLimit rl \<le> 0 \<or> \<not> rlResetsAt rl > now then False
         else if kind \<noteq> KindScopedWebhook then
           (let left = (if kind = KindFull then rlRemaining rl - lastCost l (forge, graphQL)
                        else rlRemaining rl)
            in \<not> left > reserveOf rl)
         else \<not> rlRemaining rl > 0)"

definition budgetHold ::
  "reserve_ledger \<Rightarrow> snapshot \<Rightarrow> time \<Rightarrow> forge \<Rightarrow> call_kind \<Rightarrow> bool" where
  "budgetHold l snap now forge kind = (case healthOf snap forge of
       None \<Rightarrow> False
     | Some h \<Rightarrow> list_ex (budgetHeld l h now forge kind) [True, False])"

text \<open>\<open>exhaustedHealth\<close>: the health of a forge one of whose budgets is spent until a reset ahead.\<close>

definition spentBudget :: "time \<Rightarrow> rate_limit option \<Rightarrow> bool" where
  "spentBudget now rl = (case rl of
       None \<Rightarrow> False
     | Some r \<Rightarrow> rlLimit r > 0 \<and> rlRemaining r = 0 \<and> rlResetsAt r > now)"

definition exhaustedHealth :: "snapshot \<Rightarrow> forge \<Rightarrow> time \<Rightarrow> forge_health option" where
  "exhaustedHealth snap forge now = find (\<lambda>h. fhForge h = forge \<and>
     list_ex (spentBudget now) [fhRateLimitGraphQL h, fhRateLimitREST h]) (snForges snap)"

section \<open>Laws of the schedule\<close>

text \<open>A changed poll of a key, then unchanged ones at the given times.\<close>

definition pollRun :: "pending_schedule \<Rightarrow> string \<Rightarrow> duration \<Rightarrow> time \<Rightarrow> time list \<Rightarrow> pending_schedule" where
  "pollRun s key base t0 ts = fold (\<lambda>t s. polled s key t base False) ts (polled s key t0 base True)"

lemma pollCap_pos: "0 < pendingPollCap" "pendingPollCap < 2 ^ 62"
  by (simp_all add: pendingPollCap_def)

lemma polled_same:
  "psEntries s key = Some e \<Longrightarrow> psEntries (polled s key now base False) key =
     Some \<lparr>peNext = now + peInterval e, peInterval = min (i64 (peInterval e * 2)) (max pendingPollCap base)\<rparr>"
  by (simp add: polled_def Let_def)

lemma polled_changed:
  "psEntries (polled s key now base True) key =
     Some \<lparr>peNext = now + base, peInterval = min (i64 (base * 2)) (max pendingPollCap base)\<rparr>"
  by (simp add: polled_def Let_def split: option.splits)

lemma polled_frame [frame]:
  "k \<noteq> key \<Longrightarrow> psEntries (polled s key now base ch) k = psEntries s k"
  "k \<noteq> key \<Longrightarrow> psHeldSince (polled s key now base ch) k = psHeldSince s k"
  "psHeldSince (polled s key now base ch) key = None"
  by (simp_all add: polled_def Let_def)

lemma double_capped:
  fixes x c base :: int
  assumes "0 < base" "base < 2 ^ 62" "base \<le> c" "c < 2 ^ 62"
  shows "min (i64 (min (base * 2 ^ n) c * 2)) c = min (base * 2 ^ Suc n) c"
proof -
  let ?m = "min (base * 2 ^ n) c"
  have "0 < base * 2 ^ n" using assms(1) by simp
  then have "0 \<le> ?m * 2" "?m * 2 < 2 ^ 63" using assms by auto
  then have eq: "i64 (?m * 2) = ?m * 2" by (intro i64_id) auto
  show ?thesis unfolding eq using assms by (auto simp: min_def)
qed

lemma pollRun_entry:
  assumes "0 < base" "base < 2 ^ 62"
  shows "psEntries (pollRun s key base t0 ts) key = Some
     \<lparr>peNext = last (t0 # ts) + min (base * 2 ^ length ts) (max pendingPollCap base),
      peInterval = min (base * 2 ^ Suc (length ts)) (max pendingPollCap base)\<rparr>"
proof (induction ts rule: rev_induct)
  case Nil
  from assms have "i64 (base * 2) = base * 2" by simp
  then show ?case using assms by (simp add: pollRun_def polled_changed)
next
  case (snoc t ts)
  have "min (i64 (min (base * 2 ^ Suc (length ts)) (max pendingPollCap base) * 2)) (max pendingPollCap base)
      = min (base * 2 ^ Suc (Suc (length ts))) (max pendingPollCap base)"
    using assms pollCap_pos by (intro double_capped) auto
  with snoc polled_same[OF snoc] show ?case by (simp add: pollRun_def)
qed

text \<open>
  A pull request that keeps reading the same is asked about after one base interval, then
  two, then four, and never later than the cap (fifteen minutes, or the base interval where that
  is longer); any change starts it over.
\<close>

theorem poll_backoff:
  assumes "0 < base" "base < 2 ^ 62"
  shows "\<exists>e. psEntries (pollRun s key base t0 ts) key = Some e \<and>
     peNext e = last (t0 # ts) + min (base * 2 ^ length ts) (max pendingPollCap base) \<and>
     peNext e - last (t0 # ts) \<ge> base"
proof -
  have "base * 1 \<le> base * 2 ^ length ts"
    using assms(1) by (intro mult_left_mono) simp_all
  with pollRun_entry[OF assms, of s key t0 ts] show ?thesis by (auto simp: min_def max_def)
qed

definition empty_schedule :: pending_schedule where
  "empty_schedule = \<lparr>psEntries = Map.empty, psHeldSince = Map.empty\<rparr>"

lemma poll_backoff_witness:
  "\<exists>e. psEntries (pollRun empty_schedule ''k'' minute 0 [minute, 3 * minute]) ''k'' = Some e \<and>
     peNext e = 7 * minute"
proof -
  have cap: "min (minute * 2 ^ length [minute, 3 * minute]) (max pendingPollCap minute) = 4 * minute"
    by (simp add: pendingPollCap_def)
  have "(0::int) < minute" "minute < (2::int) ^ 62" by simp_all
  from poll_backoff[OF this, of empty_schedule "''k''" 0 "[minute, 3 * minute]"] show ?thesis
    unfolding cap by auto
qed

text \<open>
  A webhook cannot silence a pull request for ever. However often its poll is held back,
  and at whatever times, it is held back only while less than the cap has passed since the first
  time; the poll that then happens restarts the clock.
\<close>

lemma holdOff_keeps:
  "psHeldSince s key = Some since \<Longrightarrow> psHeldSince (snd (holdOff s key t base)) key = Some since"
  by (simp add: holdOff_def)

definition heldRun :: "pending_schedule \<Rightarrow> string \<Rightarrow> duration \<Rightarrow> time \<Rightarrow> time list \<Rightarrow> pending_schedule" where
  "heldRun s key base t0 ts =
     fold (\<lambda>t s. snd (holdOff s key t base)) ts (snd (holdOff s key t0 base))"

theorem holdOff_bounded:
  assumes "psHeldSince s key = None" "max pendingPollCap base < 2 ^ 63"
  shows "(fst (holdOff (heldRun s key base t0 ts) key t base) \<longleftrightarrow> t - t0 < max pendingPollCap base) \<and>
     psHeldSince (polled (heldRun s key base t0 ts) key t base changed) key = None"
proof -
  have "psHeldSince (heldRun s key base t0 ts) key = Some t0"
  proof (induction ts rule: rev_induct)
    case Nil
    from assms(1) show ?case by (simp add: heldRun_def holdOff_def)
  next
    case (snoc x xs)
    then show ?case by (simp add: heldRun_def holdOff_keeps)
  qed
  then show ?thesis
    using assms(2) pollCap_pos by (simp add: holdOff_def time_sub_less frame)
qed

lemma holdOff_bounded_witness:
  "\<not> fst (holdOff (heldRun empty_schedule ''k'' minute 0 [minute]) ''k'' (15 * minute) minute)"
proof -
  have "psHeldSince empty_schedule ''k'' = None" "max pendingPollCap minute < 2 ^ 63"
    "\<not> 15 * minute - 0 < max pendingPollCap minute"
    by (simp_all add: empty_schedule_def pendingPollCap_def)
  with holdOff_bounded[of empty_schedule "''k''" minute 0 "[minute]" "15 * minute"] show ?thesis
    by blast
qed

section \<open>Laws of the full refresh\<close>

lemma StretchedInterval_bounds:
  assumes "0 \<le> interval"
  shows "interval \<le> StretchedInterval interval" "StretchedInterval interval \<le> max interval maxStretchedInterval"
proof -
  have "interval < maxStretchedInterval \<Longrightarrow> i64 (stretchFactor * interval) = stretchFactor * interval"
    using assms by (intro i64_id) (simp_all add: maxStretchedInterval_def stretchFactor_def)
  then show "interval \<le> StretchedInterval interval" "StretchedInterval interval \<le> max interval maxStretchedInterval"
    using assms by (auto simp: StretchedInterval_def stretchFactor_def)
qed

lemma backoff_ge: "delay \<le> fold (backoffStep now) rls delay"
proof (induction rls arbitrary: delay)
  case (Cons rl rls)
  have "delay \<le> backoffStep now rl delay"
    by (simp add: backoffStep_def Let_def split: option.splits)
  with Cons[of "backoffStep now rl delay"] show ?case by simp
qed simp

lemma backoff_le: "fold (backoffStep now) rls delay \<le> max delay maxBackoff"
proof (induction rls arbitrary: delay)
  case (Cons rl rls)
  have "backoffStep now rl delay \<le> max delay maxBackoff"
    by (auto simp: backoffStep_def Let_def split: option.splits)
  with Cons[of "backoffStep now rl delay"] show ?case by simp
qed simp

lemma backoff_critical:
  assumes "Some r \<in> set rls" "criticallyLow (Some r)" "rlRemaining r \<noteq> 0"
    "time_sub (rlResetsAt r) now + backoffBuffer < 2 ^ 63"
  shows "min (time_sub (rlResetsAt r) now + backoffBuffer) maxBackoff \<le> fold (backoffStep now) rls delay"
  using assms(1)
proof (induction rls arbitrary: delay)
  case (Cons rl rls)
  show ?case
  proof (cases "rl = Some r")
    case True
    have "- (2 ^ 63) \<le> time_sub (rlResetsAt r) now + backoffBuffer"
      by (simp add: time_sub_def backoffBuffer_def)
    with assms(4) have "i64 (time_sub (rlResetsAt r) now + backoffBuffer) = time_sub (rlResetsAt r) now + backoffBuffer"
      by (intro i64_id)
    with True assms(2,3)
    have "min (time_sub (rlResetsAt r) now + backoffBuffer) maxBackoff \<le> backoffStep now rl delay"
      by (simp add: backoffStep_def Let_def)
    with backoff_ge[of "backoffStep now rl delay" now rls] show ?thesis by simp
  next
    case False
    with Cons show ?thesis by simp
  qed
qed simp

text \<open>
  C12: The next full refresh never comes sooner than the configured interval and never later than
  the longer of that interval and two hours; and while a forge's budget is critically low but not
  spent, it waits until thirty seconds past that budget's reset, or an hour, whichever is sooner.
  A reset so far ahead (292 years) that the sum wraps is the one case the last part excludes.
\<close>

theorem NextDelay_bounds:
  assumes "0 \<le> interval"
  shows "interval \<le> NextDelay snap now interval \<and>
     NextDelay snap now interval \<le> max interval maxStretchedInterval \<and>
     (\<forall>r. Some r \<in> set (budgets snap) \<longrightarrow> criticallyLow (Some r) \<longrightarrow> rlRemaining r \<noteq> 0 \<longrightarrow>
        time_sub (rlResetsAt r) now + backoffBuffer < 2 ^ 63 \<longrightarrow>
        min (time_sub (rlResetsAt r) now + backoffBuffer) maxBackoff \<le> NextDelay snap now interval)"
proof -
  let ?i = "if webhooksCover snap interval now then StretchedInterval interval else interval"
  have i: "interval \<le> ?i" "?i \<le> max interval maxStretchedInterval"
    using StretchedInterval_bounds[OF assms] by auto
  have cap: "maxBackoff \<le> maxStretchedInterval" by (simp add: maxBackoff_def maxStretchedInterval_def)
  have eq: "NextDelay snap now interval = fold (backoffStep now) (budgets snap) ?i"
    by (simp add: NextDelay_def NextRefreshDelay_def Let_def)
  show ?thesis
    unfolding eq using i cap backoff_ge[of ?i now "budgets snap"] backoff_le[of now "budgets snap" ?i]
      backoff_critical[of _ "budgets snap" now ?i]
    by auto
qed

definition low_budget :: rate_limit where
  "low_budget = \<lparr>rlLimit = 5000, rlRemaining = 100, rlResetsAt = 50 * minute, rlCost = 1\<rparr>"

definition low_snapshot :: snapshot where
  "low_snapshot = newEmptySnapshot\<lparr>snForges := [zero_health\<lparr>fhForge := ForgeGitHub,
     fhReachable := True, fhRateLimitGraphQL := Some low_budget\<rparr>]\<rparr>"

lemma NextDelay_bounds_witness:
  "50 * minute + 30 * second \<le> NextDelay low_snapshot 0 (20 * minute)"
proof -
  have b: "Some low_budget \<in> set (budgets low_snapshot)" "criticallyLow (Some low_budget)"
    "rlRemaining low_budget \<noteq> 0"
    by (simp_all add: budgets_def low_snapshot_def criticallyLow_def low_budget_def)
  have t: "time_sub (rlResetsAt low_budget) 0 + backoffBuffer = 50 * minute + 30 * second"
    by (simp add: time_sub_def low_budget_def backoffBuffer_def)
  have "(0::int) \<le> 20 * minute" by simp
  from NextDelay_bounds[OF this, of low_snapshot 0] b
  have "time_sub (rlResetsAt low_budget) 0 + backoffBuffer < 2 ^ 63 \<longrightarrow>
      min (time_sub (rlResetsAt low_budget) 0 + backoffBuffer) maxBackoff \<le> NextDelay low_snapshot 0 (20 * minute)"
    by auto
  then have "min (50 * minute + 30 * second) maxBackoff \<le> NextDelay low_snapshot 0 (20 * minute)"
    unfolding t by simp
  then show ?thesis by (simp add: maxBackoff_def)
qed

text \<open>The excluded case: the buffer pushes a saturated wait past the end of a duration.\<close>

lemma backoff_wraps:
  assumes "2 ^ 63 - 1 \<le> rlResetsAt r - now" "0 \<le> delay"
  shows "backoffStep now (Some r) delay = delay"
proof -
  have "time_sub (rlResetsAt r) now = 2 ^ 63 - 1" using assms(1) by (simp add: time_sub_def)
  then have "i64 (time_sub (rlResetsAt r) now + backoffBuffer) < 0"
    by (simp add: i64_def backoffBuffer_def)
  with assms(2) show ?thesis by (simp add: backoffStep_def Let_def)
qed

section \<open>Laws of the reserve\<close>

lemma fold_max: "fold max xs m = Max (set (m # xs))" for m :: int
proof (induction xs arbitrary: m)
  case (Cons x xs)
  have "fold max (x # xs) m = Max (insert (max x m) (set xs))" using Cons[of "max x m"] by simp
  also have "\<dots> = Max (set (m # x # xs))"
    by (cases "xs = []") (simp_all add: max.assoc max.commute max.left_commute)
  finally show ?case .
qed simp

lemma lastCost_Max: "lastCost l k = Max (set (0 # l k))"
  by (simp add: lastCost_def fold_max)

lemma lastCost_nonneg: "0 \<le> lastCost l k"
  by (simp add: lastCost_Max)

lemma record_cost_same:
  "record_cost l k x k = drop (length (l k) - 2) (l k) @ [x]"
  by (auto simp: record_cost_def Let_def costWindow_def)

lemma record_costs:
  "fold (\<lambda>x l. record_cost l k x) xs (\<lambda>_. []) k = drop (length xs - 3) xs"
proof (induction xs rule: rev_induct)
  case Nil
  then show ?case by simp
next
  case (snoc x xs)
  have "length xs - (length xs - 3) - 2 + (length xs - 3) = length xs - 2" by arith
  moreover have "Suc (length xs) - 3 = length xs - 2" by arith
  ultimately show ?case by (simp add: record_cost_same snoc)
qed

lemma reserveOf_nonneg: "0 < rlLimit rl \<Longrightarrow> 0 \<le> reserveOf rl"
  by (simp add: reserveOf_def reserveFloor_def half_def)

text \<open>
  What is left for the person clicking. When a full refresh is let through, every budget
  the forge reports with its reset ahead still holds more than its reserve after any cost the
  dearest of the last three refreshes predicts; and when even a webhook refresh is held, a budget
  is spent, so every other background call is held with it.
\<close>

theorem reserve_kept:
  "(\<not> budgetHold l snap now forge KindFull \<longrightarrow>
     (\<forall>h g rl cost. healthOf snap forge = Some h \<longrightarrow> budgetOf h g = Some rl \<longrightarrow> 0 < rlLimit rl \<longrightarrow>
        now < rlResetsAt rl \<longrightarrow> cost \<le> lastCost l (forge, g) \<longrightarrow> reserveOf rl < rlRemaining rl - cost)) \<and>
   (budgetHold l snap now forge KindScopedWebhook \<longrightarrow> budgetHold l snap now forge kind)"
proof (intro conjI impI allI)
  fix h g rl cost
  assume nh: "\<not> budgetHold l snap now forge KindFull" and h: "healthOf snap forge = Some h"
    and rl: "budgetOf h g = Some rl" "0 < rlLimit rl" "now < rlResetsAt rl"
    and cost: "cost \<le> lastCost l (forge, g)"
  from nh h have "\<not> budgetHeld l h now forge KindFull g"
    by (cases g) (auto simp: budgetHold_def)
  with rl cost show "reserveOf rl < rlRemaining rl - cost"
    by (simp add: budgetHeld_def Let_def)
next
  assume "budgetHold l snap now forge KindScopedWebhook"
  moreover have "budgetHeld l h now forge KindScopedWebhook g \<Longrightarrow> budgetHeld l h now forge kind g" for h g
    using lastCost_nonneg[of l "(forge, g)"] reserveOf_nonneg
    by (fastforce simp: budgetHeld_def Let_def not_less split: option.splits if_splits)
  ultimately show "budgetHold l snap now forge kind"
    by (auto simp: budgetHold_def split: option.splits)
qed

lemma reserve_kept_witness:
  "reserveOf \<lparr>rlLimit = 5000, rlRemaining = 900, rlResetsAt = hour, rlCost = 1\<rparr> < 900 - 250"
proof -
  let ?rl = "\<lparr>rlLimit = 5000, rlRemaining = 900, rlResetsAt = hour, rlCost = 1\<rparr>"
  let ?h = "zero_health\<lparr>fhForge := ForgeGitHub, fhReachable := True, fhRateLimitGraphQL := Some ?rl\<rparr>"
  let ?s = "newEmptySnapshot\<lparr>snForges := [?h]\<rparr>"
  let ?l = "record_cost (record_cost (\<lambda>_. []) (ForgeGitHub, True) 250) (ForgeGitHub, True) 90"
  have c: "lastCost ?l (ForgeGitHub, True) = 250" by (simp add: lastCost_def record_cost_def costWindow_def)
  have "healthOf ?s ForgeGitHub = Some ?h" "budgetOf ?h True = Some ?rl"
    by (simp_all add: healthOf_def budgetOf_def)
  moreover have "\<not> budgetHold ?l ?s 0 ForgeGitHub KindFull"
    by (simp add: budgetHold_def healthOf_def budgetHeld_def budgetOf_def c reserveOf_def half_def
        tenth_def reserveFloor_def zero_health_def Let_def)
  ultimately show ?thesis using reserve_kept[of ?l ?s 0 ForgeGitHub] c by fastforce
qed

text \<open>
  The ledger predicts from the last three refreshes only: after any costs, the prediction is
  the dearest of the newest three, or nothing before the first.
\<close>

theorem ledger_window:
  "lastCost (fold (\<lambda>x l. record_cost l k x) xs (\<lambda>_. [])) k = Max (set (0 # drop (length xs - 3) xs))"
  by (simp only: lastCost_Max record_costs)

end
