(* ===== verification/Coalesce.thy ===== *)
theory Coalesce
  imports FD_Prelude
begin

text \<open>
  \<open>coalesce.go\<close>: one run at a time, and for every caller a run that began at or after its call.
  Each stretch of code under the mutex is one function on the struct (\<open>enter\<close>, \<open>after_run\<close>,
  \<open>recheck\<close>); a step relation interleaves them over any number of callers. A caller that waits on
  the condition variable is asleep until a broadcast wakes it, and then looks again. The state
  also carries the caller that runs and a clock with the times calls came in and runs began, which
  no step reads.

  The 64-bit epochs are unbounded here: they count runs.
\<close>

section \<open>The code under the lock\<close>

record coalescer =
  coRunning :: bool
  coPending :: bool
  startedEpoch :: int
  completedEpoch :: int

definition newCoalescer :: coalescer where
  "newCoalescer = \<lparr>coRunning = False, coPending = False, startedEpoch = 0, completedEpoch = 0\<rparr>"

text \<open>Where a caller is: not there yet, running \<open>fn\<close>, waiting with the epoch it arrived in, or back.\<close>

datatype caller = Absent | Runs | Asleep int | Awake int | Returned

definition recheck :: "coalescer \<Rightarrow> int \<Rightarrow> caller" where
  "recheck c arrivedAfter = (if completedEpoch c \<le> arrivedAfter then Asleep arrivedAfter else Returned)"

definition enter :: "coalescer \<Rightarrow> coalescer \<times> caller" where
  "enter c =
     (if coRunning c then (let c' = c\<lparr>coPending := True\<rparr> in (c', recheck c' (startedEpoch c')))
      else (c\<lparr>coRunning := True, startedEpoch := startedEpoch c + 1\<rparr>, Runs))"

definition after_run :: "coalescer \<Rightarrow> coalescer \<times> caller" where
  "after_run c = (let c = c\<lparr>completedEpoch := startedEpoch c\<rparr> in
     if \<not> coPending c then (c\<lparr>coRunning := False\<rparr>, Returned)
     else (c\<lparr>coPending := False, startedEpoch := startedEpoch c + 1\<rparr>, Runs))"

text \<open>\<open>Broadcast\<close> wakes every sleeper.\<close>

fun wake :: "caller \<Rightarrow> caller" where
  "wake (Asleep n) = Awake n"
| "wake p = p"

text \<open>A coalescer per key, made when the key is first asked for.\<close>

definition byKey :: "(string \<rightharpoonup> coalescer) \<Rightarrow> string \<Rightarrow> coalescer" where
  "byKey m key = (case m key of Some c \<Rightarrow> c | None \<Rightarrow> newCoalescer)"

definition keyedEnter ::
  "(string \<rightharpoonup> coalescer) \<Rightarrow> string \<Rightarrow> (string \<rightharpoonup> coalescer) \<times> caller" where
  "keyedEnter m key = (let (c, p) = enter (byKey m key) in (m(key \<mapsto> c), p))"

section \<open>The interleaving\<close>

record co_state =
  shared :: coalescer
  callers :: "nat \<Rightarrow> caller"
  clock :: nat
  calledAt :: "nat \<Rightarrow> nat"
  beganAt :: "int \<Rightarrow> nat"
  runner :: nat

definition co_init :: co_state where
  "co_init = \<lparr>shared = newCoalescer, callers = \<lambda>_. Absent, clock = 0, calledAt = \<lambda>_. 0,
     beganAt = \<lambda>_. 0, runner = 0\<rparr>"

text \<open>The effect of a locked stretch by caller \<open>t\<close>: a run that begins in it begins now.\<close>

definition co_put :: "co_state \<Rightarrow> (nat \<Rightarrow> caller) \<Rightarrow> nat \<Rightarrow> coalescer \<times> caller \<Rightarrow> co_state" where
  "co_put s ps t r = s\<lparr>shared := fst r, callers := ps(t := snd r), clock := Suc (clock s),
     beganAt := (if snd r = Runs then (beganAt s)(startedEpoch (fst r) := clock s) else beganAt s),
     runner := (if snd r = Runs then t else runner s)\<rparr>"

inductive co_step :: "co_state \<Rightarrow> co_state \<Rightarrow> bool" where
  call: "callers s t = Absent \<Longrightarrow>
    co_step s ((co_put s (callers s) t (enter (shared s)))\<lparr>calledAt := (calledAt s)(t := clock s)\<rparr>)"
| finish: "callers s t = Runs \<Longrightarrow>
    co_step s (co_put s (wake \<circ> callers s) t (after_run (shared s)))"
| look: "callers s t = Awake n \<Longrightarrow>
    co_step s (s\<lparr>callers := (callers s)(t := recheck (shared s) n), clock := Suc (clock s)\<rparr>)"

inductive co_reachable :: "co_state \<Rightarrow> bool" where
  init: "co_reachable co_init"
| step: "co_reachable s \<Longrightarrow> co_step s s' \<Longrightarrow> co_reachable s'"

lemmas locked_defs = enter_def after_run_def recheck_def co_put_def Let_def

section \<open>The invariant\<close>

definition waits :: "caller \<Rightarrow> int \<Rightarrow> bool" where
  "waits p n \<longleftrightarrow> p = Asleep n \<or> p = Awake n"

text \<open>Who runs, and how the epochs stand to each other.\<close>

definition one_runner :: "co_state \<Rightarrow> bool" where
  "one_runner s \<longleftrightarrow> (let c = shared s in
     (\<forall>t. callers s t = Runs \<longleftrightarrow> coRunning c \<and> t = runner s) \<and>
     startedEpoch c = completedEpoch c + (if coRunning c then 1 else 0) \<and>
     (\<not> coRunning c \<longrightarrow> \<not> coPending c))"

text \<open>A waiting caller is either let go already or has a later run coming.\<close>

definition no_lost_wakeup :: "co_state \<Rightarrow> bool" where
  "no_lost_wakeup s \<longleftrightarrow> (let c = shared s in
     (\<forall>t n. waits (callers s t) n \<longrightarrow> n \<le> startedEpoch c \<and>
        (n < completedEpoch c \<or> coRunning c \<and> (n < startedEpoch c \<or> coPending c))) \<and>
     (\<forall>t n. callers s t = Asleep n \<longrightarrow> completedEpoch c \<le> n))"

text \<open>Some run up to number \<open>k\<close> began at or after the time \<open>a\<close>.\<close>

definition covered :: "(int \<Rightarrow> nat) \<Rightarrow> int \<Rightarrow> nat \<Rightarrow> bool" where
  "covered began k a \<longleftrightarrow> (\<exists>m \<le> k. a \<le> began m)"

lemma covered_later: "k < j \<Longrightarrow> covered (b(j := x)) k a \<longleftrightarrow> covered b k a"
  unfolding covered_def by (metis fun_upd_apply linorder_not_less)

lemma covered_now: "j \<le> k \<Longrightarrow> a \<le> x \<Longrightarrow> covered (b(j := x)) k a"
  by (auto simp: covered_def intro: exI[of _ j])

lemma covered_mono: "covered b k a \<Longrightarrow> k \<le> j \<Longrightarrow> covered b j a"
  unfolding covered_def by (meson order_trans)

text \<open>Runs a caller waits for begin after its call.\<close>

definition served :: "co_state \<Rightarrow> bool" where
  "served s \<longleftrightarrow> (let c = shared s in
     (\<forall>t. callers s t \<noteq> Absent \<longrightarrow> calledAt s t < clock s) \<and>
     (\<forall>t n m. waits (callers s t) n \<longrightarrow> n < m \<longrightarrow> m \<le> startedEpoch c \<longrightarrow> calledAt s t \<le> beganAt s m) \<and>
     (\<forall>t. callers s t = Runs \<longrightarrow> covered (beganAt s) (startedEpoch c) (calledAt s t)) \<and>
     (\<forall>t. callers s t = Returned \<longrightarrow> covered (beganAt s) (completedEpoch c) (calledAt s t)))"

lemma wake_simps [simp]:
  "wake p = Runs \<longleftrightarrow> p = Runs" "wake p = Absent \<longleftrightarrow> p = Absent" "wake p = Returned \<longleftrightarrow> p = Returned"
  "wake p \<noteq> Asleep n" "waits (wake p) n \<longleftrightarrow> waits p n"
  by (cases p; auto simp: waits_def)+

lemma waits_simps [simp]:
  "waits (Asleep m) n \<longleftrightarrow> m = n" "waits (Awake m) n \<longleftrightarrow> m = n" "\<not> waits Runs n" "\<not> waits Absent n"
  "\<not> waits Returned n"
  by (auto simp: waits_def)

lemma enter_running:
  "coRunning c \<Longrightarrow> completedEpoch c \<le> startedEpoch c \<Longrightarrow>
     enter c = (c\<lparr>coPending := True\<rparr>, Asleep (startedEpoch c))"
  by (simp add: enter_def recheck_def Let_def)

lemma enter_idle:
  "\<not> coRunning c \<Longrightarrow> enter c = (c\<lparr>coRunning := True, startedEpoch := startedEpoch c + 1\<rparr>, Runs)"
  by (simp add: enter_def)

lemma after_last:
  "\<not> coPending c \<Longrightarrow> after_run c = (c\<lparr>completedEpoch := startedEpoch c, coRunning := False\<rparr>, Returned)"
  by (simp add: after_run_def Let_def)

lemma after_more:
  "coPending c \<Longrightarrow> after_run c = (c\<lparr>completedEpoch := startedEpoch c, coPending := False,
     startedEpoch := startedEpoch c + 1\<rparr>, Runs)"
  by (simp add: after_run_def Let_def)

text \<open>The five transitions, with what the invariant says of the struct in each.\<close>

lemma co_step_cases [consumes 2, case_names wait start last more look]:
  assumes "co_step s s'" "one_runner s"
  obtains (wait) t where "callers s t = Absent" "coRunning (shared s)"
      "startedEpoch (shared s) = completedEpoch (shared s) + 1"
      "s' = s\<lparr>shared := (shared s)\<lparr>coPending := True\<rparr>, clock := Suc (clock s),
        callers := (callers s)(t := Asleep (startedEpoch (shared s))), calledAt := (calledAt s)(t := clock s)\<rparr>"
    | (start) t where "callers s t = Absent" "\<not> coRunning (shared s)" "\<not> coPending (shared s)"
      "startedEpoch (shared s) = completedEpoch (shared s)"
      "s' = s\<lparr>shared := (shared s)\<lparr>coRunning := True, startedEpoch := startedEpoch (shared s) + 1\<rparr>,
        callers := (callers s)(t := Runs), clock := Suc (clock s), calledAt := (calledAt s)(t := clock s),
        beganAt := (beganAt s)(startedEpoch (shared s) + 1 := clock s), runner := t\<rparr>"
    | (last) t where "callers s t = Runs" "coRunning (shared s)" "\<not> coPending (shared s)"
      "startedEpoch (shared s) = completedEpoch (shared s) + 1" "runner s = t"
      "s' = s\<lparr>shared := (shared s)\<lparr>completedEpoch := startedEpoch (shared s), coRunning := False\<rparr>,
        callers := (wake \<circ> callers s)(t := Returned), clock := Suc (clock s)\<rparr>"
    | (more) t where "callers s t = Runs" "coRunning (shared s)" "coPending (shared s)"
      "startedEpoch (shared s) = completedEpoch (shared s) + 1" "runner s = t"
      "s' = s\<lparr>shared := (shared s)\<lparr>completedEpoch := startedEpoch (shared s), coPending := False,
          startedEpoch := startedEpoch (shared s) + 1\<rparr>,
        callers := (wake \<circ> callers s)(t := Runs), clock := Suc (clock s),
        beganAt := (beganAt s)(startedEpoch (shared s) + 1 := clock s), runner := t\<rparr>"
    | (look) t n where "callers s t = Awake n"
      "s' = s\<lparr>callers := (callers s)(t := recheck (shared s) n), clock := Suc (clock s)\<rparr>"
  using assms(1)
proof (cases rule: co_step.cases)
  case (call t)
  show thesis
  proof (cases "coRunning (shared s)")
    case True
    with call assms(2) show thesis
      by (intro wait[of t]) (auto simp: one_runner_def Let_def co_put_def enter_running)
  next
    case False
    with call assms(2) show thesis
      by (intro start[of t]) (auto simp: one_runner_def Let_def co_put_def enter_idle)
  qed
next
  case (finish t)
  then have "coRunning (shared s)" "runner s = t"
    "startedEpoch (shared s) = completedEpoch (shared s) + 1"
    using assms(2) by (auto simp: one_runner_def Let_def)
  note f = this
  show thesis
  proof (cases "coPending (shared s)")
    case True
    with f finish show thesis by (intro more[of t]) (simp_all add: co_put_def after_more)
  next
    case False
    with f finish show thesis by (intro last[of t]) (simp_all add: co_put_def after_last)
  qed
next
  case (look t n)
  from look(2,1) show thesis by (rule that(5))
qed

lemma awake_waits: "callers s t = Awake n \<Longrightarrow> waits (callers s t) n"
  by simp

lemma one_runner_step:
  assumes "co_step s s'" "one_runner s"
  shows "one_runner s'"
proof -
  have iff: "callers s u = Runs \<longleftrightarrow> coRunning (shared s) \<and> u = runner s" for u
    using assms(2) by (simp add: one_runner_def Let_def)
  from assms show ?thesis
  proof (cases rule: co_step_cases)
    case (wait t)
    with iff[of t] have "t \<noteq> runner s" by auto
    with wait assms(2) show ?thesis by (auto simp: one_runner_def Let_def)
  next
    case (look t n)
    with iff[of t] have "t \<noteq> runner s \<or> \<not> coRunning (shared s)" by auto
    with look assms(2) show ?thesis by (auto simp: one_runner_def Let_def recheck_def)
  qed (use assms(2) in \<open>auto simp: one_runner_def Let_def\<close>)
qed

lemma no_lost_wakeup_step:
  assumes "co_step s s'" "one_runner s" "no_lost_wakeup s"
  shows "no_lost_wakeup s'"
  using assms(1,2)
proof (cases rule: co_step_cases)
  case (look t n)
  with assms(3) awake_waits[OF look(1)] show ?thesis
    unfolding no_lost_wakeup_def Let_def recheck_def by (auto; metis leD)
qed (use assms(3) in \<open>force simp: no_lost_wakeup_def Let_def\<close>)+

lemma served_step:
  assumes "co_step s s'" "one_runner s" "no_lost_wakeup s" "served s"
  shows "served s'"
proof -
  have present: "waits p n \<Longrightarrow> p \<noteq> Absent" for p n by (cases p) auto
  from assms(1,2) show ?thesis
  proof (cases rule: co_step_cases)
    case (wait t)
    then show ?thesis using assms(4) by (auto simp: served_def Let_def less_Suc_eq)
  next
    case (start t)
    have "callers s u \<noteq> Runs" for u using assms(2) start(2) by (simp add: one_runner_def Let_def)
    with start show ?thesis using assms(3,4)
      by (auto simp: served_def no_lost_wakeup_def Let_def less_Suc_eq covered_later covered_now
          dest: present)
  next
    case (last t)
    then show ?thesis using assms(4) by (auto simp: served_def Let_def less_Suc_eq intro: covered_mono)
  next
    case (more t)
    have le: "callers s u \<noteq> Absent \<Longrightarrow> calledAt s u \<le> clock s" for u
      using assms(4) by (auto simp: served_def Let_def intro: less_imp_le)
    from more show ?thesis using assms(4)
      by (auto simp: served_def Let_def less_Suc_eq covered_later covered_now le
          intro: covered_mono less_imp_le dest: present)
  next
    case (look t n)
    have "covered (beganAt s) (completedEpoch (shared s)) (calledAt s t)" if "n < completedEpoch (shared s)"
    proof -
      have "completedEpoch (shared s) \<le> startedEpoch (shared s)"
        using assms(2) by (simp add: one_runner_def Let_def)
      with that look(1) assms(4) have "calledAt s t \<le> beganAt s (completedEpoch (shared s))"
        by (auto simp: served_def Let_def)
      then show ?thesis by (auto simp: covered_def)
    qed
    with look assms(4) show ?thesis
      by (auto simp: served_def Let_def less_Suc_eq recheck_def)
  qed
qed

lemma co_invariant: "co_reachable s \<Longrightarrow> one_runner s \<and> no_lost_wakeup s \<and> served s"
proof (induction rule: co_reachable.induct)
  case init
  show ?case
    by (simp add: co_init_def one_runner_def no_lost_wakeup_def served_def newCoalescer_def Let_def)
next
  case (step s s')
  then show ?case using one_runner_step no_lost_wakeup_step served_step by blast
qed

section \<open>Properties\<close>

text \<open>
  C13: However calls interleave, at most one run is under way, and a call that has returned saw a
  run, now finished, that began at or after the call came in: its own trigger is never missed.
\<close>

theorem coalesce_guarantee:
  assumes "co_reachable s"
  shows "(callers s t = Runs \<and> callers s u = Runs \<longrightarrow> t = u) \<and>
     (callers s t = Returned \<longrightarrow>
        (\<exists>m. m \<le> completedEpoch (shared s) \<and> calledAt s t \<le> beganAt s m))"
  using co_invariant[OF assms] by (auto simp: one_runner_def served_def covered_def Let_def)

text \<open>A caller, one that comes while it runs and waits, the first run's end, and the second's.\<close>

definition one_call :: co_state where
  "one_call = (co_put co_init (callers co_init) 0 (enter (shared co_init)))\<lparr>calledAt := (calledAt co_init)(0 := clock co_init)\<rparr>"

lemma one_call_reachable: "co_reachable one_call"
  unfolding one_call_def by (rule co_reachable.step[OF co_reachable.init]) (rule co_step.call, simp add: co_init_def)

lemma one_call_runs: "callers one_call 0 = Runs"
  by (simp add: one_call_def co_init_def co_put_def enter_def newCoalescer_def)

lemma coalesce_guarantee_witness:
  "\<exists>s. co_reachable s \<and> callers s 0 = Returned \<and>
     (\<exists>m. m \<le> completedEpoch (shared s) \<and> calledAt s 0 \<le> beganAt s m)"
proof -
  let ?s = "co_put one_call (wake \<circ> callers one_call) 0 (after_run (shared one_call))"
  have r: "co_reachable ?s"
    using one_call_reachable one_call_runs by (blast intro: co_reachable.step co_step.finish)
  have "callers ?s 0 = Returned"
    by (simp add: one_call_def co_init_def co_put_def enter_def newCoalescer_def after_run_def Let_def)
  with coalesce_guarantee[OF r, of 0 0] r show ?thesis by blast
qed

text \<open>Steps of the runner alone.\<close>

inductive runner_steps :: "co_state \<Rightarrow> co_state \<Rightarrow> bool" where
  stay: "runner_steps s s"
| finish_run: "callers s t = Runs \<Longrightarrow>
    runner_steps (co_put s (wake \<circ> callers s) t (after_run (shared s))) s' \<Longrightarrow> runner_steps s s'"

text \<open>
  C14: No wake-up is lost. A caller that waits is waiting for a run that is under way or already
  promised, and the runner's own steps alone, one or two ends of \<open>fn\<close>, let it go: afterwards it
  is awake, and what it looks for has happened.
\<close>

theorem waiter_is_released:
  assumes "co_reachable s" "callers s t = Asleep n"
  shows "\<exists>s'. runner_steps s s' \<and> callers s' t = Awake n \<and> recheck (shared s') n = Returned"
proof -
  from co_invariant[OF assms(1)] have inv: "one_runner s" "no_lost_wakeup s" by auto
  have "waits (callers s t) n" using assms(2) by simp
  with inv(2) assms(2) have n: "n \<le> startedEpoch (shared s)" "completedEpoch (shared s) \<le> n"
    "n < completedEpoch (shared s) \<or> coRunning (shared s) \<and> (n < startedEpoch (shared s) \<or> coPending (shared s))"
    unfolding no_lost_wakeup_def Let_def by blast+
  then have run: "coRunning (shared s)" by auto
  with inv(1) have r: "callers s (runner s) = Runs" and e: "startedEpoch (shared s) = completedEpoch (shared s) + 1"
    by (auto simp: one_runner_def Let_def)
  with assms(2) have tr: "t \<noteq> runner s" by auto
  let ?s1 = "co_put s (wake \<circ> callers s) (runner s) (after_run (shared s))"
  have s1: "runner_steps s ?s1" using r runner_steps.finish_run runner_steps.stay by blast
  have c1: "callers ?s1 t = Awake n" using tr assms(2) by (simp add: co_put_def)
  show ?thesis
  proof (cases "n < startedEpoch (shared s)")
    case True
    then have "recheck (shared ?s1) n = Returned"
      by (simp add: recheck_def co_put_def after_run_def Let_def)
    with s1 c1 show ?thesis by blast
  next
    case False
    with n have p: "coPending (shared s)" by auto
    then have a1: "after_run (shared s) = ((shared s)\<lparr>completedEpoch := startedEpoch (shared s),
        coPending := False, startedEpoch := startedEpoch (shared s) + 1\<rparr>, Runs)" by (rule after_more)
    then have r1: "callers ?s1 (runner s) = Runs" by (simp add: co_put_def)
    let ?s2 = "co_put ?s1 (wake \<circ> callers ?s1) (runner s) (after_run (shared ?s1))"
    have "runner_steps s ?s2" using r r1 runner_steps.finish_run runner_steps.stay by blast
    moreover have "callers ?s2 t = Awake n" using tr c1 by (simp add: co_put_def)
    moreover have "recheck (shared ?s2) n = Returned"
      using n a1 by (simp add: recheck_def co_put_def after_run_def Let_def)
    ultimately show ?thesis by blast
  qed
qed

lemma waiter_is_released_witness:
  "\<exists>s s'. co_reachable s \<and> callers s 1 = Asleep 1 \<and> runner_steps s s' \<and> callers s' 1 = Awake 1"
proof -
  let ?s = "(co_put one_call (callers one_call) 1 (enter (shared one_call)))\<lparr>calledAt := (calledAt one_call)(1 := clock one_call)\<rparr>"
  have "callers one_call 1 = Absent" by (simp add: one_call_def co_init_def co_put_def)
  then have r: "co_reachable ?s"
    using one_call_reachable by (blast intro: co_reachable.step co_step.call)
  have "callers ?s 1 = Asleep 1"
    by (simp add: one_call_def co_init_def locked_defs newCoalescer_def)
  with waiter_is_released[OF r, of 1 1] r show ?thesis by blast
qed

text \<open>A call for one key leaves the coalescers of the others as they were.\<close>

lemma keyedEnter_frame [frame]: "k \<noteq> key \<Longrightarrow> fst (keyedEnter m key) k = m k"
  by (simp add: keyedEnter_def split: prod.splits)

end
