(* ===== verification/Debounce.thy ===== *)
theory Debounce
  imports FD_Prelude
begin

text \<open>
  \<open>debounce.go\<close>: a burst of events for one key becomes one call of the newest function. The struct
  and its three locked operations (\<open>Submit\<close>, \<open>fire\<close>, \<open>drop\<close>) and \<open>close\<close> are written over a world that
  also holds what \<open>time.AfterFunc\<close> and \<open>context.AfterFunc\<close> hold for them: the timers that are armed,
  the callbacks that were started and wait for the lock, and the registrations on contexts. A timer
  or registration that is stopped in time never starts its callback; one already started runs, as in
  Go. Submissions are numbered, and the number stands for the submitted function, its timer and its
  registration.
\<close>

section \<open>The struct\<close>

definition webhookQuiet :: duration where "webhookQuiet = 2 * second"
definition webhookMaxHold :: duration where "webhookMaxHold = 5 * second"

record debounce_entry =
  deFirst :: time
  deFn :: nat
  deGen :: nat
  deStop :: nat
  deRelease :: nat

record debouncer =
  dbQuiet :: duration
  dbMaxHold :: duration
  dbEntries :: "string \<rightharpoonup> debounce_entry"
  dbClosed :: bool

record world =
  wD :: debouncer
  wClock :: time
  wOwnerEnded :: bool
  wArmed :: "nat \<rightharpoonup> string \<times> nat \<times> time"
  wReady :: "(string \<times> nat) list"
  wRegs :: "nat \<rightharpoonup> nat \<times> string \<times> nat"
  wDropping :: "(string \<times> nat) list"
  wNext :: nat
  wFired :: "(string \<times> nat) list"
  wAccepted :: "(string \<times> nat) list"

abbreviation entries :: "world \<Rightarrow> string \<rightharpoonup> debounce_entry" where
  "entries w \<equiv> dbEntries (wD w)"

abbreviation set_entries :: "(string \<rightharpoonup> debounce_entry) \<Rightarrow> world \<Rightarrow> world" where
  "set_entries m w \<equiv> w\<lparr>wD := (wD w)\<lparr>dbEntries := m\<rparr>\<rparr>"

definition burstWait :: "debouncer \<Rightarrow> time \<Rightarrow> time \<Rightarrow> duration" where
  "burstWait d now first = (let left = i64 (dbMaxHold d - time_sub now first) in
     if left < dbQuiet d then max left 0 else dbQuiet d)"

definition stopEntry :: "debounce_entry option \<Rightarrow> world \<Rightarrow> world" where
  "stopEntry old w = (case old of None \<Rightarrow> w
     | Some e \<Rightarrow> w\<lparr>wArmed := (wArmed w)(deStop e := None), wRegs := (wRegs w)(deRelease e := None)\<rparr>)"

definition Submit :: "world \<Rightarrow> nat \<Rightarrow> string \<Rightarrow> world \<times> bool" where
  "Submit w ctx key =
     (if dbClosed (wD w) \<or> wOwnerEnded w then (w, False)
      else let now = wClock w; n = wNext w; old = entries w key;
               w1 = stopEntry old w;
               first = (case old of Some e \<Rightarrow> deFirst e | None \<Rightarrow> now);
               gen = (case old of Some e \<Rightarrow> deGen e | None \<Rightarrow> 0) + 1;
               wait = burstWait (wD w) now first
           in ((set_entries ((entries w)(key \<mapsto>
                    \<lparr>deFirst = first, deFn = n, deGen = gen, deStop = n, deRelease = n\<rparr>)) w1)
                 \<lparr>wArmed := (wArmed w1)(n \<mapsto> (key, gen, now + wait)),
                  wRegs := (wRegs w1)(n \<mapsto> (ctx, key, gen)),
                  wNext := Suc n, wAccepted := (key, n) # wAccepted w1\<rparr>, True))"

definition fire :: "world \<Rightarrow> string \<Rightarrow> nat \<Rightarrow> world" where
  "fire w key gen = (case entries w key of
       None \<Rightarrow> w
     | Some e \<Rightarrow>
         if deGen e \<noteq> gen then w
         else (set_entries ((entries w)(key := None)) w)
           \<lparr>wRegs := (wRegs w)(deRelease e := None), wFired := (key, deFn e) # wFired w\<rparr>)"

definition drop_entry :: "world \<Rightarrow> string \<Rightarrow> nat \<Rightarrow> world" where
  "drop_entry w key gen = (case entries w key of
       None \<Rightarrow> w
     | Some e \<Rightarrow>
         if deGen e = gen then (set_entries ((entries w)(key := None)) w)\<lparr>wArmed := (wArmed w)(deStop e := None)\<rparr>
         else w)"

definition close_debouncer :: "world \<Rightarrow> world" where
  "close_debouncer w =
     (w\<lparr>wD := (wD w)\<lparr>dbClosed := True, dbEntries := Map.empty\<rparr>,
        wArmed := (\<lambda>i. if \<exists>e \<in> ran (entries w). deStop e = i then None else wArmed w i),
        wRegs := (\<lambda>i. if \<exists>e \<in> ran (entries w). deRelease e = i then None else wRegs w i)\<rparr>)"

definition newDebouncer :: "duration \<Rightarrow> duration \<Rightarrow> debouncer" where
  "newDebouncer quiet maxHold = \<lparr>dbQuiet = quiet, dbMaxHold = maxHold, dbEntries = Map.empty, dbClosed = False\<rparr>"

definition new_world :: "duration \<Rightarrow> duration \<Rightarrow> world" where
  "new_world quiet maxHold = \<lparr>wD = newDebouncer quiet maxHold, wClock = 0, wOwnerEnded = False,
     wArmed = Map.empty, wReady = [], wRegs = Map.empty, wDropping = [], wNext = 0, wFired = [],
     wAccepted = []\<rparr>"

section \<open>Steps\<close>

text \<open>A timer that is due starts its callback; a context that ends starts those registered on it.\<close>

definition expire :: "world \<Rightarrow> nat \<Rightarrow> world" where
  "expire w i = (case wArmed w i of
       Some (key, gen, due) \<Rightarrow>
         if due \<le> wClock w then w\<lparr>wArmed := (wArmed w)(i := None), wReady := (key, gen) # wReady w\<rparr> else w
     | None \<Rightarrow> w)"

definition cancel_reg :: "world \<Rightarrow> nat \<Rightarrow> world" where
  "cancel_reg w i = (case wRegs w i of
       Some (ctx, key, gen) \<Rightarrow> w\<lparr>wRegs := (wRegs w)(i := None), wDropping := (key, gen) # wDropping w\<rparr>
     | None \<Rightarrow> w)"

text \<open>The steps in which no context ends; \<open>db_step_any\<close> adds those in which one does.\<close>

inductive db_step :: "world \<Rightarrow> world \<Rightarrow> bool" where
  submit: "db_step w (fst (Submit w ctx key))"
| expire: "db_step w (expire w i)"
| fire: "(key, gen) \<in> set (wReady w) \<Longrightarrow>
    db_step w (fire (w\<lparr>wReady := remove1 (key, gen) (wReady w)\<rparr>) key gen)"
| tick: "wClock w \<le> now \<Longrightarrow> db_step w (w\<lparr>wClock := now\<rparr>)"

inductive db_step_any :: "world \<Rightarrow> world \<Rightarrow> bool" where
  base: "db_step w w' \<Longrightarrow> db_step_any w w'"
| cancel: "db_step_any w (cancel_reg w i)"
| dropped: "(key, gen) \<in> set (wDropping w) \<Longrightarrow>
    db_step_any w (drop_entry (w\<lparr>wDropping := remove1 (key, gen) (wDropping w)\<rparr>) key gen)"
| ended: "db_step_any w (w\<lparr>wOwnerEnded := True\<rparr>)"
| closed: "wOwnerEnded w \<Longrightarrow> db_step_any w (close_debouncer w)"

inductive db_run :: "(world \<Rightarrow> world \<Rightarrow> bool) \<Rightarrow> world \<Rightarrow> world \<Rightarrow> bool" for step where
  refl: "db_run step w w"
| snoc: "db_run step w w' \<Longrightarrow> step w' w'' \<Longrightarrow> db_run step w w''"

section \<open>The invariant\<close>

definition hold_ok :: "debouncer \<Rightarrow> bool" where
  "hold_ok d \<longleftrightarrow> 0 \<le> dbQuiet d \<and> 0 \<le> dbMaxHold d \<and> dbMaxHold d < 2 ^ 62"

lemma burstWait_due:
  assumes "hold_ok d" "first \<le> now"
  shows "0 \<le> burstWait d now first" "now + burstWait d now first \<le> max now (first + dbMaxHold d)"
proof -
  have "0 \<le> time_sub now first" "time_sub now first < 2 ^ 63" "time_sub now first \<le> now - first"
    "time_sub now first = now - first \<or> time_sub now first = 2 ^ 63 - 1"
    using assms(2) by (auto simp: time_sub_def)
  moreover have "i64 (dbMaxHold d - time_sub now first) = dbMaxHold d - time_sub now first"
    using assms(1) calculation by (intro i64_id) (auto simp: hold_ok_def)
  ultimately show "0 \<le> burstWait d now first" "now + burstWait d now first \<le> max now (first + dbMaxHold d)"
    using assms(1) by (auto simp: burstWait_def Let_def hold_ok_def)
qed

text \<open>Every pending entry has its own timer armed and due in time, or its callback started.\<close>

definition timed :: "world \<Rightarrow> string \<Rightarrow> debounce_entry \<Rightarrow> bool" where
  "timed w k e \<longleftrightarrow> (\<exists>due. wArmed w (deStop e) = Some (k, deGen e, due) \<and>
      due \<le> max (wClock w) (deFirst e + dbMaxHold (wD w))) \<or> (k, deGen e) \<in> set (wReady w)"

definition well_timed :: "world \<Rightarrow> bool" where
  "well_timed w \<longleftrightarrow> hold_ok (wD w) \<and>
     (\<forall>k e. entries w k = Some e \<longrightarrow> timed w k e \<and> deStop e < wNext w \<and> deFn e < wNext w
        \<and> deFirst e \<le> wClock w) \<and>
     (\<forall>k e k' e'. entries w k = Some e \<longrightarrow> entries w k' = Some e' \<longrightarrow> deStop e = deStop e' \<longrightarrow> k = k')"

text \<open>Every accepted event is covered by a call that ran, or by the pending one.\<close>

definition no_loss :: "world \<Rightarrow> bool" where
  "no_loss w \<longleftrightarrow> (\<forall>(k, n) \<in> set (wAccepted w).
     (\<exists>m \<ge> n. (k, m) \<in> set (wFired w)) \<or> (\<exists>e. entries w k = Some e \<and> n \<le> deFn e))"

lemma well_timedD:
  assumes "well_timed w" "entries w k = Some e"
  shows "timed w k e" "deStop e < wNext w" "deFn e < wNext w" "deFirst e \<le> wClock w"
  using assms by (auto simp: well_timed_def)

lemma timed_frame:
  assumes "timed w k e" "wArmed w' (deStop e) = wArmed w (deStop e)" "wClock w \<le> wClock w'"
    "dbMaxHold (wD w') = dbMaxHold (wD w)" "set (wReady w) \<subseteq> set (wReady w') \<union> {(k', g')}"
    "(k', g') \<noteq> (k, deGen e)"
  shows "timed w' k e"
  using assms by (fastforce simp: timed_def)

lemma well_timed_new: "hold_ok (newDebouncer q m) \<Longrightarrow> well_timed (new_world q m)"
  by (simp add: well_timed_def new_world_def newDebouncer_def)

lemma Submit_accepts:
  assumes "\<not> (dbClosed (wD w) \<or> wOwnerEnded w)"
  obtains gen first w' where "fst (Submit w ctx key) = w'"
    "entries w' = (entries w)(key \<mapsto>
       \<lparr>deFirst = first, deFn = wNext w, deGen = gen, deStop = wNext w, deRelease = wNext w\<rparr>)"
    "wArmed w' (wNext w) = Some (key, gen, wClock w + burstWait (wD w) (wClock w) first)"
    "\<forall>i. i \<noteq> wNext w \<longrightarrow> (\<forall>e. entries w key = Some e \<longrightarrow> i \<noteq> deStop e) \<longrightarrow> wArmed w' i = wArmed w i"
    "first = wClock w \<or> (\<exists>e. entries w key = Some e \<and> first = deFirst e)"
    "wReady w' = wReady w" "wClock w' = wClock w" "wNext w' = Suc (wNext w)" "wFired w' = wFired w"
    "dbMaxHold (wD w') = dbMaxHold (wD w)" "dbQuiet (wD w') = dbQuiet (wD w)"
    "wAccepted w' = (key, wNext w) # wAccepted w"
proof (cases "entries w key")
  case None
  with assms show thesis
    by (intro that[of "fst (Submit w ctx key)" "wClock w" 1]) (simp_all add: Submit_def Let_def stopEntry_def)
next
  case (Some e)
  with assms show thesis
    by (intro that[of "fst (Submit w ctx key)" "deFirst e" "deGen e + 1"]) (simp_all add: Submit_def Let_def stopEntry_def)
qed

lemma well_timed_submit:
  assumes "well_timed w"
  shows "well_timed (fst (Submit w ctx key))"
proof (cases "dbClosed (wD w) \<or> wOwnerEnded w")
  case True
  with assms show ?thesis by (simp add: Submit_def)
next
  case False
  then obtain gen first w' where eq: "fst (Submit w ctx key) = w'" and
    s: "entries w' = (entries w)(key \<mapsto>
       \<lparr>deFirst = first, deFn = wNext w, deGen = gen, deStop = wNext w, deRelease = wNext w\<rparr>)"
    "wArmed w' (wNext w) = Some (key, gen, wClock w + burstWait (wD w) (wClock w) first)"
    "\<forall>i. i \<noteq> wNext w \<longrightarrow> (\<forall>e. entries w key = Some e \<longrightarrow> i \<noteq> deStop e) \<longrightarrow> wArmed w' i = wArmed w i"
    "first = wClock w \<or> (\<exists>e. entries w key = Some e \<and> first = deFirst e)"
    "wReady w' = wReady w" "wClock w' = wClock w" "wNext w' = Suc (wNext w)"
    "dbMaxHold (wD w') = dbMaxHold (wD w)" "dbQuiet (wD w') = dbQuiet (wD w)"
    by (rule Submit_accepts)
  have hold: "hold_ok (wD w)" using assms by (simp add: well_timed_def)
  have first: "first \<le> wClock w" using s(4) well_timedD(4)[OF assms] by auto
  have new: "timed w' key \<lparr>deFirst = first, deFn = wNext w, deGen = gen, deStop = wNext w, deRelease = wNext w\<rparr>"
    using s(2,6,8) burstWait_due(2)[OF hold first] by (simp add: timed_def)
  have old: "timed w' k e" if "entries w k = Some e" "k \<noteq> key" for k e
  proof -
    have "deStop e \<noteq> wNext w" using well_timedD(2)[OF assms that(1)] by simp
    moreover have "\<forall>e'. entries w key = Some e' \<longrightarrow> deStop e \<noteq> deStop e'"
      using assms that unfolding well_timed_def by blast
    ultimately have "wArmed w' (deStop e) = wArmed w (deStop e)" using s(3) by blast
    with well_timedD(1)[OF assms that(1)] s(5,6,8) show ?thesis by (simp add: timed_def)
  qed
  have distinct: "\<forall>k e k' e'. entries w k = Some e \<longrightarrow> entries w k' = Some e' \<longrightarrow> deStop e = deStop e' \<longrightarrow> k = k'"
    using assms by (simp add: well_timed_def)
  have bounds: "\<forall>k e. entries w k = Some e \<longrightarrow> deStop e < wNext w \<and> deFn e < wNext w \<and> deFirst e \<le> wClock w"
    using assms by (simp add: well_timed_def)
  have "hold_ok (wD w')" using hold s(8,9) by (simp add: hold_ok_def)
  moreover have "\<forall>k e. entries w' k = Some e \<longrightarrow> timed w' k e \<and> deStop e < wNext w' \<and> deFn e < wNext w'
      \<and> deFirst e \<le> wClock w'"
    using s(1,6,7) new old first bounds by (auto simp: less_Suc_eq)
  moreover have "\<forall>k e k' e'. entries w' k = Some e \<longrightarrow> entries w' k' = Some e' \<longrightarrow> deStop e = deStop e' \<longrightarrow> k = k'"
  proof -
    have "entries w k = Some e \<Longrightarrow> deStop e \<noteq> wNext w \<and> wNext w \<noteq> deStop e" for k e
      using bounds by fastforce
    then show ?thesis using s(1) distinct by (auto simp: fun_upd_apply split: if_splits)
  qed
  ultimately show ?thesis unfolding eq well_timed_def by blast
qed

lemma well_timed_expire:
  assumes "well_timed w"
  shows "well_timed (expire w i)"
proof -
  have "entries (expire w i) = entries w" "wNext (expire w i) = wNext w" "wD (expire w i) = wD w"
    "wClock (expire w i) = wClock w"
    by (simp_all add: expire_def split: option.splits)
  moreover have "timed w k e \<Longrightarrow> timed (expire w i) k e" for k e
    by (auto simp: timed_def expire_def split: option.splits)
  ultimately show ?thesis using assms by (simp add: well_timed_def)
qed

text \<open>Taking an entry out, with its timer stopped or its callback used up.\<close>

lemma well_timed_remove:
  assumes "well_timed w" "entries w' = (entries w)(key := None)" "wD w' = (wD w)\<lparr>dbEntries := entries w'\<rparr>"
    "wClock w' = wClock w" "wNext w' = wNext w"
    "\<forall>k e. k \<noteq> key \<longrightarrow> entries w k = Some e \<longrightarrow> timed w k e \<longrightarrow> timed w' k e"
  shows "well_timed w'"
proof -
  have "hold_ok (wD w')"
    by (subst assms(3)) (use assms(1) in \<open>simp add: well_timed_def hold_ok_def\<close>)
  moreover have "\<forall>k e. entries w' k = Some e \<longrightarrow> timed w' k e \<and> deStop e < wNext w' \<and> deFn e < wNext w'
      \<and> deFirst e \<le> wClock w'"
    using assms by (auto simp: well_timed_def)
  moreover have "\<forall>k e k' e'. entries w' k = Some e \<longrightarrow> entries w' k' = Some e' \<longrightarrow> deStop e = deStop e' \<longrightarrow> k = k'"
    using assms(1,2) by (auto simp: well_timed_def)
  ultimately show ?thesis unfolding well_timed_def by blast
qed

lemma well_timed_fire:
  assumes "well_timed w"
  shows "well_timed (fire (w\<lparr>wReady := remove1 (key, gen) (wReady w)\<rparr>) key gen)" (is "well_timed ?w'")
proof (cases "\<exists>e. entries w key = Some e \<and> deGen e = gen")
  case True
  then have "?w' = (set_entries ((entries w)(key := None)) w)\<lparr>wReady := remove1 (key, gen) (wReady w),
      wRegs := (wRegs w)(deRelease (the (entries w key)) := None),
      wFired := (key, deFn (the (entries w key))) # wFired w\<rparr>"
    by (auto simp: fire_def)
  then show ?thesis
    by (intro well_timed_remove[OF assms, of _ key]) (auto simp: timed_def in_set_remove1)
next
  case False
  then have eq: "?w' = w\<lparr>wReady := remove1 (key, gen) (wReady w)\<rparr>"
    by (auto simp: fire_def split: option.splits)
  have "timed w k e \<Longrightarrow> entries w k = Some e \<Longrightarrow> timed ?w' k e" for k e
  proof -
    assume t: "timed w k e" "entries w k = Some e"
    with False have "(k, deGen e) \<noteq> (key, gen)" by auto
    with t(1) show ?thesis unfolding eq by (simp add: timed_def in_set_remove1)
  qed
  then show ?thesis using assms unfolding eq by (simp add: well_timed_def)
qed

lemma well_timed_drop:
  assumes "well_timed w"
  shows "well_timed (drop_entry (w\<lparr>wDropping := ds\<rparr>) key gen)" (is "well_timed ?w'")
proof (cases "\<exists>e. entries w key = Some e \<and> deGen e = gen")
  case True
  then obtain e where e: "entries w key = Some e" "deGen e = gen" by blast
  then have eq: "?w' = (set_entries ((entries w)(key := None)) w)\<lparr>wDropping := ds,
      wArmed := (wArmed w)(deStop e := None)\<rparr>"
    by (auto simp: drop_entry_def)
  have "deStop e' \<noteq> deStop e" if "k \<noteq> key" "entries w k = Some e'" for k e'
    using assms e(1) that unfolding well_timed_def by blast
  then show ?thesis unfolding eq
    by (intro well_timed_remove[OF assms, of _ key]) (auto simp: timed_def)
next
  case False
  then have "?w' = w\<lparr>wDropping := ds\<rparr>"
    by (auto simp: drop_entry_def split: option.splits)
  with assms show ?thesis by (simp add: well_timed_def timed_def)
qed

lemma well_timed_step: "db_step w w' \<Longrightarrow> well_timed w \<Longrightarrow> well_timed w'"
proof (induction rule: db_step.induct)
  case (tick w now)
  then have "timed w k e \<Longrightarrow> timed (w\<lparr>wClock := now\<rparr>) k e" for k e
    by (auto simp: timed_def)
  with tick show ?case by (fastforce simp: well_timed_def)
qed (auto intro: well_timed_submit well_timed_expire well_timed_fire)

lemma well_timed_any: "db_step_any w w' \<Longrightarrow> well_timed w \<Longrightarrow> well_timed w'"
proof (induction rule: db_step_any.induct)
  case (base w w')
  then show ?case by (rule well_timed_step)
next
  case (cancel w i)
  then show ?case by (simp add: cancel_reg_def well_timed_def timed_def split: option.splits)
next
  case (dropped key gen w)
  then show ?case by (intro well_timed_drop)
next
  case (ended w)
  then show ?case by (simp add: well_timed_def timed_def)
next
  case (closed w)
  then show ?case by (simp add: close_debouncer_def well_timed_def hold_ok_def)
qed

lemma db_run_invariant:
  assumes "db_run step w w'" "I w" "\<And>w w'. step w w' \<Longrightarrow> I w \<Longrightarrow> I w'"
  shows "I w'"
  using assms by (induction rule: db_run.induct) auto

lemma no_loss_step: "db_step w w' \<Longrightarrow> well_timed w \<and> no_loss w \<Longrightarrow> no_loss w'"
proof (induction rule: db_step.induct)
  case (submit w ctx key)
  then have less: "entries w k = Some e \<Longrightarrow> deFn e \<le> wNext w" for k e
    using well_timedD(3) by (auto intro: less_imp_le)
  show ?case
  proof (cases "dbClosed (wD w) \<or> wOwnerEnded w")
    case True
    with submit show ?thesis by (simp add: Submit_def)
  next
    case False
    then obtain w' first gen where s: "fst (Submit w ctx key) = w'" "entries w' = (entries w)(key \<mapsto>
       \<lparr>deFirst = first, deFn = wNext w, deGen = gen, deStop = wNext w, deRelease = wNext w\<rparr>)"
      "wFired w' = wFired w" "wAccepted w' = (key, wNext w) # wAccepted w"
      by (rule Submit_accepts)
    have "(\<exists>m \<ge> n. (k, m) \<in> set (wFired w')) \<or> (\<exists>e. entries w' k = Some e \<and> n \<le> deFn e)"
      if "(k, n) \<in> set (wAccepted w')" for k n
    proof (cases "(k, n) = (key, wNext w)")
      case True
      then show ?thesis using s(2) by simp
    next
      case False
      with that s(4) have "(k, n) \<in> set (wAccepted w)" by auto
      with submit consider m where "m \<ge> n" "(k, m) \<in> set (wFired w)"
        | e where "entries w k = Some e" "n \<le> deFn e" by (auto simp: no_loss_def)
      then show ?thesis
      proof cases
        case 1
        then show ?thesis using s(3) by auto
      next
        case 2
        with less[of k e] have "n \<le> wNext w" by simp
        with 2 s(2) show ?thesis by (cases "k = key") auto
      qed
    qed
    then show ?thesis unfolding s(1) no_loss_def by blast
  qed
next
  case (expire w i)
  then show ?case by (auto simp: expire_def no_loss_def split: option.splits)
next
  case (fire key gen w)
  then show ?case by (fastforce simp: fire_def no_loss_def split: option.splits)
next
  case (tick w now)
  then show ?case by (auto simp: no_loss_def)
qed

section \<open>Properties\<close>

lemma run_well_timed:
  "db_run db_step_any (new_world q m) w \<Longrightarrow> hold_ok (newDebouncer q m) \<Longrightarrow> well_timed w"
  using db_run_invariant[where I = well_timed] well_timed_any well_timed_new by blast

text \<open>
  No event is pushed back for ever. In every reachable state, cancellations and shutdown
  included, each pending call either has its callback started, or has a timer of its own armed;
  and once the maximum hold has passed since the first event of the burst, that timer is due,
  however many events came in since.
\<close>

theorem pending_call_comes:
  assumes "db_run db_step_any (new_world quiet maxHold) w" "hold_ok (newDebouncer quiet maxHold)"
    "entries w key = Some e"
  shows "(key, deGen e) \<in> set (wReady w) \<or>
     (\<exists>due. wArmed w (deStop e) = Some (key, deGen e, due) \<and>
        (deFirst e + dbMaxHold (wD w) \<le> wClock w \<longrightarrow> due \<le> wClock w))"
  using well_timedD(1)[OF run_well_timed[OF assms(1,2)] assms(3)] by (auto simp: timed_def)

text \<open>The world after one submission, and after a second one two seconds later.\<close>

definition w_one :: world where
  "w_one = fst (Submit (new_world webhookQuiet webhookMaxHold) 7 ''k'')"

lemma w_one_run: "db_run db_step (new_world webhookQuiet webhookMaxHold) w_one"
  unfolding w_one_def by (rule db_run.snoc[where step = db_step, OF db_run.refl db_step.submit])

lemma hold_ok_webhook: "hold_ok (newDebouncer webhookQuiet webhookMaxHold)"
  by (simp add: hold_ok_def newDebouncer_def webhookQuiet_def webhookMaxHold_def)

lemma w_one_entry:
  "entries w_one ''k'' = Some \<lparr>deFirst = 0, deFn = 0, deGen = 1, deStop = 0, deRelease = 0\<rparr>"
  by (simp add: w_one_def Submit_def new_world_def newDebouncer_def Let_def stopEntry_def)

lemma db_run_mono:
  "db_run db_step w w' \<Longrightarrow> db_run db_step_any w w'"
  by (induction rule: db_run.induct) (auto intro: db_run.intros db_step_any.base)

lemma pending_call_comes_witness:
  "\<exists>due. wArmed w_one 0 = Some (''k'', 1, due)"
proof -
  have "wReady w_one = []"
    by (simp add: w_one_def Submit_def new_world_def newDebouncer_def Let_def stopEntry_def)
  with pending_call_comes[OF db_run_mono[OF w_one_run] hold_ok_webhook w_one_entry] show ?thesis
    by auto
qed

text \<open>
  C15: While no context ends, no event is lost: for every accepted event, a call submitted with it
  or after it for the same key has run, or one is pending.
\<close>

theorem no_event_lost:
  assumes "db_run db_step (new_world quiet maxHold) w" "hold_ok (newDebouncer quiet maxHold)"
    "(key, n) \<in> set (wAccepted w)"
  shows "(\<exists>m \<ge> n. (key, m) \<in> set (wFired w)) \<or> (\<exists>e. entries w key = Some e \<and> n \<le> deFn e)"
proof -
  have "no_loss (new_world quiet maxHold)" by (simp add: no_loss_def new_world_def)
  with assms(1,2) have "well_timed w \<and> no_loss w"
    using db_run_invariant[where I = "\<lambda>w. well_timed w \<and> no_loss w" and step = db_step]
      well_timed_new well_timed_step no_loss_step by blast
  with assms(3) show ?thesis by (auto simp: no_loss_def)
qed

lemma no_event_lost_witness:
  "\<exists>e. entries w_one ''k'' = Some e \<and> 0 \<le> deFn e"
proof -
  have "(''k'', 0) \<in> set (wAccepted w_one)" "wFired w_one = []"
    by (simp_all add: w_one_def Submit_def new_world_def newDebouncer_def Let_def stopEntry_def)
  with no_event_lost[OF w_one_run hold_ok_webhook] show ?thesis by fastforce
qed

text \<open>
  With contexts that end, it does not hold: the generation starts again at 1 with a new entry, so a
  cancel callback that was started for a burst that has run meanwhile drops the next burst, whose
  own context never ended.
\<close>

definition race1 :: world where
  "race1 = cancel_reg (expire (w_one\<lparr>wClock := 2 * second\<rparr>) 0) 0"
definition race2 :: world where
  "race2 = fst (Submit (fire (race1\<lparr>wReady := remove1 (''k'', 1) (wReady race1)\<rparr>) ''k'' 1) 8 ''k'')"
definition race3 :: world where
  "race3 = drop_entry (race2\<lparr>wDropping := remove1 (''k'', 1) (wDropping race2)\<rparr>) ''k'' 1"

lemmas race_defs = race1_def race2_def race3_def w_one_def Submit_def new_world_def newDebouncer_def
  Let_def stopEntry_def fire_def drop_entry_def cancel_reg_def expire_def burstWait_def time_sub_def
  webhookQuiet_def webhookMaxHold_def

lemma race_run: "db_run db_step_any (new_world webhookQuiet webhookMaxHold) race3"
proof -
  let ?run = "db_run db_step_any (new_world webhookQuiet webhookMaxHold)"
  have any: "?run w \<Longrightarrow> db_step_any w w' \<Longrightarrow> ?run w'" for w w' by (rule db_run.snoc)
  have base: "?run w \<Longrightarrow> db_step w w' \<Longrightarrow> ?run w'" for w w'
    by (rule any, assumption) (rule db_step_any.base)
  have "?run w_one" by (rule db_run_mono[OF w_one_run])
  then have "?run (w_one\<lparr>wClock := 2 * second\<rparr>)"
    by (rule base) (rule db_step.tick, simp add: race_defs)
  then have "?run (expire (w_one\<lparr>wClock := 2 * second\<rparr>) 0)"
    by (rule base) (rule db_step.expire)
  then have r1: "?run race1" unfolding race1_def by (rule any) (rule db_step_any.cancel)
  have "(''k'', 1) \<in> set (wReady race1)" by (simp add: race_defs)
  from base[OF r1 db_step.fire[OF this]]
  have r2: "?run race2" unfolding race2_def by (rule base) (rule db_step.submit)
  have "(''k'', 1) \<in> set (wDropping race2)" by (simp add: race_defs)
  from any[OF r2 db_step_any.dropped[OF this]] show ?thesis unfolding race3_def .
qed

lemma stale_cancel_loses_event:
  "(''k'', 1) \<in> set (wAccepted race3)" "wFired race3 = [(''k'', 0)]" "entries race3 ''k'' = None"
  "wReady race3 = []" "wArmed race3 1 = None" "wRegs race3 1 = Some (8, ''k'', 1)"
  by (simp_all add: race_defs)

end
