(* ===== verification/Bot_Requests.thy ===== *)
theory Bot_Requests
  imports Allowed_Actions
begin

text \<open>
  \<open>bot_request.go\<close>, \<open>update_request.go\<close> and \<open>bot_ack.go\<close>: what this app has asked a bot or the forge
  for and not seen done yet. Three registries under pull request keys (bot requests, update
  requests, rebase-box overrides) are the state; snapshots move the requests along and the rows are
  annotated from them. Each operation returns the registries and the rows it changed; the mutexes,
  which make each one atomic, are not modelled, and \<open>a.now()\<close> and \<open>a.fetchSeq\<close> are arguments.
\<close>

section \<open>The registries\<close>

record bot_entry = bot_request +
  beWasBehind :: bool
  beHead :: string
  beSeq :: nat

record update_entry = update_request +
  ueSeq :: nat

record box_override =
  boTicked :: bool
  boSeq :: nat

record bot_state =
  bsRequests :: "string \<rightharpoonup> bot_entry"
  bsUpdates :: "string \<rightharpoonup> update_entry"
  bsOverrides :: "string \<rightharpoonup> box_override"

definition botQueuedWait :: duration where "botQueuedWait = 10 * minute"
definition botRebasingWait :: duration where "botRebasingWait = 2 * minute"
definition botExpiredKeep :: duration where "botExpiredKeep = hour"
definition updateQueuedWait :: duration where "updateQueuedWait = 5 * minute"
definition updateExpiredKeep :: duration where "updateExpiredKeep = hour"

lemmas wait_defs = botQueuedWait_def botRebasingWait_def botExpiredKeep_def updateQueuedWait_def
  updateExpiredKeep_def

section \<open>Annotating the rows\<close>

definition updateRequestOf :: "bot_state \<Rightarrow> pull_request \<Rightarrow> update_request option" where
  "updateRequestOf st pr = map_option update_request.truncate (bsUpdates st (pr_key pr))"

definition annotateRowRequests :: "bot_state \<Rightarrow> pull_request \<Rightarrow> pull_request" where
  "annotateRowRequests st pr = pr\<lparr>
     prBotRequest := map_option bot_request.truncate (bsRequests st (pr_key pr)),
     prUpdateRequest := updateRequestOf st pr\<rparr>"

definition annotateBotRequests :: "bot_state \<Rightarrow> pull_request list \<Rightarrow> pull_request list" where
  "annotateBotRequests st prs = map (annotateRowRequests st) prs"

section \<open>Recording\<close>

fun update_first :: "('a \<Rightarrow> bool) \<Rightarrow> 'a \<Rightarrow> 'a list \<Rightarrow> 'a list" where
  "update_first P y [] = []"
| "update_first P y (x # xs) = (if P x then y # xs else x # update_first P y xs)"

definition amendPullRequest ::
  "forge \<Rightarrow> string \<Rightarrow> int \<Rightarrow> (pull_request \<Rightarrow> string \<Rightarrow> bot_state \<Rightarrow> pull_request \<times> bot_state) \<Rightarrow>
   bot_state \<times> pull_request list \<Rightarrow> bot_state \<times> pull_request list" where
  "amendPullRequest forge repo number amend = (\<lambda>(st, prs).
     let key = settledKey forge repo number in
     (case find (\<lambda>pr. pr_key pr = key) prs of
        None \<Rightarrow> (st, prs)
      | Some pr \<Rightarrow>
          let (pr', st') = amend pr key st
          in (st', annotateBotRequests st' (update_first (\<lambda>pr. pr_key pr = key) pr' prs))))"

definition recordBotLocked ::
  "time \<Rightarrow> nat \<Rightarrow> bot_name \<Rightarrow> bot_action \<Rightarrow> pull_request \<Rightarrow> string \<Rightarrow> bot_state \<Rightarrow> bot_state" where
  "recordBotLocked now seq who action pr key st = st\<lparr>bsRequests := (bsRequests st)(key \<mapsto>
     \<lparr>brBot = who, brAction = action, brPhase = BotQueued, brRequestedAt = now,
      brExpiresAt = now + botQueuedWait, brAcknowledgedAt = None, brCommentURL = '''',
      beWasBehind = prBehind pr, beHead = prHeadSHA pr, beSeq = seq\<rparr>)\<rparr>"

definition setBoxLocked ::
  "nat \<Rightarrow> bool \<Rightarrow> pull_request \<Rightarrow> string \<Rightarrow> bot_state \<Rightarrow> pull_request \<times> bot_state" where
  "setBoxLocked seq ticked pr key st =
     (pr\<lparr>prRenovateRebaseRequested := ticked\<rparr>,
      st\<lparr>bsOverrides := (bsOverrides st)(key \<mapsto> \<lparr>boTicked = ticked, boSeq = seq\<rparr>),
        bsRequests := (case bsRequests st key of
            Some e \<Rightarrow> if \<not> ticked \<and> brBot e = BotRenovate then (bsRequests st)(key := None) else bsRequests st
          | None \<Rightarrow> bsRequests st)\<rparr>)"

definition RecordBotRequest ::
  "time \<Rightarrow> nat \<Rightarrow> forge \<Rightarrow> string \<Rightarrow> int \<Rightarrow> bot_name \<Rightarrow> bot_action \<Rightarrow>
   bot_state \<times> pull_request list \<Rightarrow> bot_state \<times> pull_request list" where
  "RecordBotRequest now seq forge repo number who action =
     amendPullRequest forge repo number (\<lambda>pr key st. (pr, recordBotLocked now seq who action pr key st))"

definition RecordRenovateRebase ::
  "time \<Rightarrow> nat \<Rightarrow> forge \<Rightarrow> string \<Rightarrow> int \<Rightarrow>
   bot_state \<times> pull_request list \<Rightarrow> bot_state \<times> pull_request list" where
  "RecordRenovateRebase now seq forge repo number =
     amendPullRequest forge repo number (\<lambda>pr key st.
       setBoxLocked seq True pr key (recordBotLocked now seq BotRenovate BotRebase pr key st))"

definition SetRenovateRebaseBox ::
  "nat \<Rightarrow> forge \<Rightarrow> string \<Rightarrow> int \<Rightarrow> bool \<Rightarrow>
   bot_state \<times> pull_request list \<Rightarrow> bot_state \<times> pull_request list" where
  "SetRenovateRebaseBox seq forge repo number ticked =
     amendPullRequest forge repo number (setBoxLocked seq ticked)"

definition RecordUpdateRequest ::
  "time \<Rightarrow> nat \<Rightarrow> forge \<Rightarrow> string \<Rightarrow> int \<Rightarrow>
   bot_state \<times> pull_request list \<Rightarrow> bot_state \<times> pull_request list" where
  "RecordUpdateRequest now seq forge repo number = (\<lambda>(st, prs).
     let key = settledKey forge repo number in
     if find (\<lambda>pr. pr_key pr = key) prs = None then (st, prs)
     else let st' = st\<lparr>bsUpdates := (bsUpdates st)(key \<mapsto>
                \<lparr>urPhase = UpdateQueued, urRequestedAt = now, urExpiresAt = now + updateQueuedWait,
                 ueSeq = seq\<rparr>)\<rparr>
          in (st', annotateBotRequests st' prs))"

section \<open>Moving requests along\<close>

text \<open>One snapshot applied to one request: the request as it stands after it, or \<open>None\<close> to forget it.\<close>

definition advance :: "bot_entry \<Rightarrow> pull_request \<Rightarrow> nat \<Rightarrow> time \<Rightarrow> bot_entry option" where
  "advance e pr seq now = (case brPhase e of
       BotQueued \<Rightarrow>
         (let landed = seq > beSeq e \<and>
            ((beHead e \<noteq> '''' \<and> prHeadSHA pr \<noteq> beHead e) \<or> (beWasBehind e \<and> \<not> prBehind pr))
          in if landed \<and> prCI pr = CIPending then None
             else if landed then Some (e\<lparr>brPhase := BotRebasing, brExpiresAt := now + botRebasingWait\<rparr>)
             else if \<not> now < brExpiresAt e then Some (e\<lparr>brPhase := BotExpired\<rparr>)
             else Some e)
     | BotRebasing \<Rightarrow> if prCI pr = CIPending \<or> \<not> now < brExpiresAt e then None else Some e
     | BotExpired \<Rightarrow> if now > brExpiresAt e + botExpiredKeep then None else Some e)"

definition advanceUpdate :: "update_entry \<Rightarrow> pull_request \<Rightarrow> nat \<Rightarrow> time \<Rightarrow> update_entry option" where
  "advanceUpdate e pr seq now = (case urPhase e of
       UpdateQueued \<Rightarrow>
         if seq > ueSeq e \<and> \<not> prBehind pr then None
         else if \<not> now < urExpiresAt e then Some (e\<lparr>urPhase := UpdateExpired\<rparr>)
         else Some e
     | UpdateExpired \<Rightarrow> if now > urExpiresAt e + updateExpiredKeep then None else Some e)"

definition listedByKey :: "pull_request list \<Rightarrow> (string \<rightharpoonup> pull_request)" where
  "listedByKey prs = index_by pr_key prs"

definition botGone :: "string \<Rightarrow> (forge \<Rightarrow> string \<Rightarrow> bool) \<Rightarrow> bool" where
  "botGone key covers = (case splitSettledKey key of Some (f, r) \<Rightarrow> covers f r | None \<Rightarrow> False)"

text \<open>The loop both registries are swept by.\<close>

definition sweep :: "('e \<Rightarrow> pull_request \<Rightarrow> nat \<Rightarrow> time \<Rightarrow> 'e option) \<Rightarrow> pull_request list \<Rightarrow> nat \<Rightarrow> time \<Rightarrow>
    (forge \<Rightarrow> string \<Rightarrow> bool) \<Rightarrow> (string \<rightharpoonup> 'e) \<Rightarrow> (string \<rightharpoonup> 'e)" where
  "sweep adv prs seq now covers m = (\<lambda>key. case m key of
       None \<Rightarrow> None
     | Some e \<Rightarrow> (case listedByKey prs key of
           None \<Rightarrow> if botGone key covers then None else Some e
         | Some pr \<Rightarrow> adv e pr seq now))"

definition applyBotRequests :: "nat \<Rightarrow> time \<Rightarrow> (forge \<Rightarrow> string \<Rightarrow> bool) \<Rightarrow>
    bot_state \<times> pull_request list \<Rightarrow> bot_state \<times> pull_request list" where
  "applyBotRequests seq now covers = (\<lambda>(st, prs).
     let st' = st\<lparr>bsUpdates := sweep advanceUpdate prs seq now covers (bsUpdates st),
                 bsRequests := sweep advance prs seq now covers (bsRequests st)\<rparr>
     in (st', annotateBotRequests st' prs))"

section \<open>Box overrides\<close>

record read_rows =
  rrKeys :: "string set"
  rrLimited :: bool

definition onlyRead :: "string set \<Rightarrow> read_rows" where
  "onlyRead keys = \<lparr>rrKeys = keys, rrLimited = True\<rparr>"

definition all_rows :: read_rows where
  "all_rows = \<lparr>rrKeys = {}, rrLimited = False\<rparr>"

definition row_read :: "read_rows \<Rightarrow> string \<Rightarrow> bool" where
  "row_read r key \<longleftrightarrow> \<not> rrLimited r \<or> key \<in> rrKeys r"

definition settles :: "(forge \<Rightarrow> string \<Rightarrow> bool) \<Rightarrow> read_rows \<Rightarrow> pull_request \<Rightarrow> bool" where
  "settles covers read pr \<longleftrightarrow> covers (prForge pr) (prRepo pr) \<and> row_read read (pr_key pr)"

fun settleRows :: "nat \<Rightarrow> (forge \<Rightarrow> string \<Rightarrow> bool) \<Rightarrow> read_rows \<Rightarrow> (string \<rightharpoonup> box_override) \<Rightarrow>
    pull_request list \<Rightarrow> (string \<rightharpoonup> box_override) \<times> pull_request list" where
  "settleRows seq covers read ov [] = (ov, [])"
| "settleRows seq covers read ov (pr # prs) =
     (case ov (pr_key pr) of
        None \<Rightarrow> (let (ov', prs') = settleRows seq covers read ov prs in (ov', pr # prs'))
      | Some ovr \<Rightarrow>
          if \<not> settles covers read pr then
            (let (ov', prs') = settleRows seq covers read ov prs in (ov', pr # prs'))
          else if seq \<le> boSeq ovr then
            (let (ov', prs') = settleRows seq covers read ov prs
             in (ov', pr\<lparr>prRenovateRebaseRequested := boTicked ovr\<rparr> # prs'))
          else
            (let (ov', prs') = settleRows seq covers read (ov(pr_key pr := None)) prs
             in (ov', pr # prs')))"

definition settleBoxOverrides :: "nat \<Rightarrow> (forge \<Rightarrow> string \<Rightarrow> bool) \<Rightarrow> read_rows \<Rightarrow>
    bot_state \<times> pull_request list \<Rightarrow> bot_state \<times> pull_request list" where
  "settleBoxOverrides seq covers read = (\<lambda>(st, prs).
     let listed = listedByKey prs;
         (ov, prs') = settleRows seq covers read (bsOverrides st) prs;
         ov' = (\<lambda>key. case ov key of
             Some ovr \<Rightarrow> if listed key = None \<and> seq > boSeq ovr \<and> botGone key covers then None else Some ovr
           | None \<Rightarrow> None)
     in (st\<lparr>bsOverrides := ov'\<rparr>, prs'))"

definition annotateUnderLock :: "nat \<Rightarrow> (forge \<Rightarrow> string \<Rightarrow> bool) \<Rightarrow> read_rows \<Rightarrow>
    bot_state \<times> pull_request list \<Rightarrow> bot_state \<times> pull_request list" where
  "annotateUnderLock seq covers read x =
     (let (st, prs) = settleBoxOverrides seq covers read x in (st, annotateBotRequests st prs))"

section \<open>Dependabot's thumbs-up\<close>

record ack_lookup =
  akForge :: forge
  akOwner :: string
  akName :: string
  akNumber :: int
  akKey :: string
  akRequestedAt :: time

record command_ack =
  caAcknowledged :: bool
  caCommentURL :: string

text \<open>The lookup \<open>pendingAcks\<close> lists for one registered request, if it lists one.\<close>

definition pendingAck :: "string \<Rightarrow> bot_entry \<Rightarrow> ack_lookup option" where
  "pendingAck key e =
     (if brBot e \<noteq> BotDependabot \<or> brAction e \<noteq> BotRebase \<or> brAcknowledgedAt e \<noteq> None
         \<or> brPhase e = BotRebasing then None
      else (case splitSettledKey key of
          None \<Rightarrow> None
        | Some (forge, repo) \<Rightarrow> (case cut repo ''/'' of
              None \<Rightarrow> None
            | Some (owner, name) \<Rightarrow> (case cut_last key (CHR ''#'') of
                  None \<Rightarrow> None
                | Some (_, num) \<Rightarrow> (case atoi num of
                      None \<Rightarrow> None
                    | Some n \<Rightarrow> Some \<lparr>akForge = forge, akOwner = owner, akName = name,
                         akNumber = n, akKey = key, akRequestedAt = brRequestedAt e\<rparr>)))))"

definition recordAck :: "time \<Rightarrow> ack_lookup \<Rightarrow> command_ack \<Rightarrow> bot_state \<Rightarrow> bot_state" where
  "recordAck now l ack st = (case bsRequests st (akKey l) of
       None \<Rightarrow> st
     | Some e \<Rightarrow>
         if brRequestedAt e \<noteq> akRequestedAt l then st
         else let e1 = (if caCommentURL ack \<noteq> '''' then e\<lparr>brCommentURL := caCommentURL ack\<rparr> else e);
                  e2 = (if \<not> caAcknowledged ack then e1
                        else let a = e1\<lparr>brAcknowledgedAt := Some now\<rparr>
                             in if brPhase a = BotQueued \<or> brPhase a = BotExpired
                                then a\<lparr>brPhase := BotQueued, brExpiresAt := now + botQueuedWait\<rparr> else a)
              in st\<lparr>bsRequests := (bsRequests st)(akKey l \<mapsto> e2)\<rparr>)"

text \<open>The lookups in turn, each answered by the forge; \<open>None\<close> is a forge that cannot say or fails.\<close>

definition checkDependabotAcks ::
  "time \<Rightarrow> (ack_lookup \<Rightarrow> command_ack option) \<Rightarrow> ack_lookup list \<Rightarrow> bot_state \<Rightarrow> bot_state" where
  "checkDependabotAcks now answer ls st = fold (\<lambda>l st. case answer l of
       None \<Rightarrow> st | Some ack \<Rightarrow> recordAck now l ack st) ls st"

section \<open>The contract of a swept registry\<close>

text \<open>
  Both registries hold requests that wait for a fetch begun after them, until a deadline, and are
  forgotten some time after it. A request's rank falls each time a late sweep does not drop it.
\<close>

locale swept_requests =
  fixes adv :: "'e \<Rightarrow> pull_request \<Rightarrow> nat \<Rightarrow> time \<Rightarrow> 'e option"
    and waiting :: "'e \<Rightarrow> bool"
    and asked :: "'e \<Rightarrow> nat"
    and deadline :: "'e \<Rightarrow> time"
    and keep :: duration
    and rank :: "'e \<Rightarrow> nat"
  assumes waits: "waiting e \<Longrightarrow> seq \<le> asked e \<Longrightarrow> now < deadline e \<Longrightarrow> adv e pr seq now = Some e"
    and late: "deadline e + keep < now \<Longrightarrow> adv e pr seq now = Some e' \<Longrightarrow> rank e' < rank e"
begin

lemma sweep_keys: "dom (sweep adv prs seq now covers m) \<subseteq> dom m"
  by (auto simp: sweep_def split: option.splits)

lemma sweep_unlisted:
  "listedByKey prs key = None \<Longrightarrow> \<not> botGone key covers \<Longrightarrow> sweep adv prs seq now covers m key = m key"
  by (simp add: sweep_def split: option.splits)

lemma sweep_waits:
  assumes "m key = Some e" "waiting e" "seq \<le> asked e" "now < deadline e"
    "listedByKey prs key \<noteq> None \<or> \<not> botGone key covers"
  shows "sweep adv prs seq now covers m key = Some e"
  using assms waits by (auto simp: sweep_def split: option.splits)

text \<open>Any number of such sweeps, each with its own rows, fetch, time and cover.\<close>

lemma sweeps_wait:
  assumes "m key = Some e" "waiting e"
    "\<forall>(prs, seq, now, covers) \<in> set xs. seq \<le> asked e \<and> now < deadline e \<and>
       (listedByKey prs key \<noteq> None \<or> \<not> botGone key covers)"
  shows "fold (\<lambda>(prs, seq, now, covers). sweep adv prs seq now covers) xs m key = Some e"
  using assms(1,3)
proof (induction xs arbitrary: m)
  case (Cons x xs)
  obtain prs seq now covers where x: "x = (prs, seq, now, covers)" by (cases x)
  with Cons.prems assms(2) have "sweep adv prs seq now covers m key = Some e"
    by (intro sweep_waits) auto
  with Cons x show ?case by simp
qed simp

lemma sweep_late:
  assumes "m key = Some e" "listedByKey prs key \<noteq> None" "deadline e + keep < now"
  shows "case sweep adv prs seq now covers m key of None \<Rightarrow> True | Some e' \<Rightarrow> rank e' < rank e"
  using assms late by (auto simp: sweep_def split: option.splits)

end

definition bot_rank :: "bot_entry \<Rightarrow> nat" where
  "bot_rank e = (if brPhase e = BotQueued then 2 else 1)"

definition update_rank :: "update_entry \<Rightarrow> nat" where
  "update_rank e = (if urPhase e = UpdateQueued then 2 else 1)"

interpretation bots: swept_requests advance "\<lambda>e. brPhase e = BotQueued" beSeq brExpiresAt
  botExpiredKeep bot_rank
  by unfold_locales
     (auto simp: advance_def bot_rank_def wait_defs Let_def split: bot_phase.splits if_splits)

interpretation updates: swept_requests advanceUpdate "\<lambda>e. urPhase e = UpdateQueued" ueSeq urExpiresAt
  updateExpiredKeep update_rank
  by unfold_locales
     (auto simp: advanceUpdate_def update_rank_def wait_defs split: update_phase.splits if_splits)

section \<open>Rows and keys\<close>

lemma pr_key_annotate [simp]: "pr_key (annotateRowRequests st pr) = pr_key pr"
  by (simp add: annotateRowRequests_def pr_key_def)

lemma applyBotRequests_simps [simp]:
  "bsRequests (fst (applyBotRequests seq now covers (st, prs))) = sweep advance prs seq now covers (bsRequests st)"
  "bsUpdates (fst (applyBotRequests seq now covers (st, prs))) = sweep advanceUpdate prs seq now covers (bsUpdates st)"
  "snd (applyBotRequests seq now covers (st, prs)) =
     annotateBotRequests (fst (applyBotRequests seq now covers (st, prs))) prs"
  by (simp_all add: applyBotRequests_def Let_def)

lemma listedByKey_member: "pr \<in> set prs \<Longrightarrow> listedByKey prs (pr_key pr) \<noteq> None"
  by (auto simp: listedByKey_def index_by_None)

lemma update_first_other:
  "distinct (map key xs) \<Longrightarrow> find (\<lambda>x. key x = k) xs \<noteq> None \<Longrightarrow> key z = k \<Longrightarrow>
     y \<in> set (update_first (\<lambda>x. key x = k) z xs) \<Longrightarrow> key y = k \<Longrightarrow> y = z"
proof (induction xs)
  case (Cons x xs)
  show ?case
  proof (cases "key x = k")
    case True
    with Cons.prems show ?thesis by (auto simp: image_iff)
  next
    case False
    with Cons show ?thesis by auto
  qed
qed simp

text \<open>What an amendment makes of the one row it is for.\<close>

lemma amendPullRequest_row:
  assumes "amendPullRequest f r n amend (st, prs) = (st', prs')" "pr' \<in> set prs'"
    "pr_key pr' = settledKey f r n" "distinct (map pr_key prs)"
    "\<And>pr key st. pr_key (fst (amend pr key st)) = pr_key pr"
  shows "\<exists>pr \<in> set prs. pr_key pr = settledKey f r n \<and> st' = snd (amend pr (settledKey f r n) st) \<and>
     pr' = annotateRowRequests st' (fst (amend pr (settledKey f r n) st))"
proof -
  let ?k = "settledKey f r n"
  show ?thesis
  proof (cases "find (\<lambda>pr. pr_key pr = ?k) prs")
    case None
    with assms(1-3) show ?thesis by (auto simp: amendPullRequest_def Let_def find_None_iff)
  next
    case (Some pr)
    then have pr: "pr \<in> set prs" "pr_key pr = ?k" using find_Some_P by force+
    let ?y = "fst (amend pr ?k st)"
    from Some assms(1) have st': "st' = snd (amend pr ?k st)"
      and prs': "prs' = annotateBotRequests st' (update_first (\<lambda>pr. pr_key pr = ?k) ?y prs)"
      by (auto simp: amendPullRequest_def Let_def split: prod.splits)
    from assms(2) prs' obtain q where q: "q \<in> set (update_first (\<lambda>pr. pr_key pr = ?k) ?y prs)"
      "pr' = annotateRowRequests st' q" by (auto simp: annotateBotRequests_def)
    have "q = ?y"
    proof (rule update_first_other[OF assms(4) _ _ q(1)])
      show "find (\<lambda>x. pr_key x = ?k) prs \<noteq> None" using Some by simp
      show "pr_key ?y = ?k" using assms(5) pr(2) by simp
      show "pr_key q = ?k" using q(2) assms(3) by simp
    qed
    with pr st' q(2) show ?thesis by blast
  qed
qed

lemma amendPullRequest_keys:
  assumes "amendPullRequest f r n amend (st, prs) = (st', prs')"
    "\<And>pr key st. pr_key (fst (amend pr key st)) = pr_key pr"
  shows "map pr_key prs' = map pr_key prs"
proof -
  have "find P prs = Some x \<Longrightarrow> pr_key y = pr_key x \<Longrightarrow> map pr_key (update_first P y prs) = map pr_key prs"
    for P x y by (induction prs) (auto split: if_splits)
  with assms show ?thesis
    by (auto simp: amendPullRequest_def Let_def annotateBotRequests_def comp_def
        split: option.splits prod.splits) (metis fst_conv)
qed

section \<open>Properties\<close>

text \<open>
  A request is not settled by what a fetch could not have seen. Recorded at fetch \<open>asked\<close>, a
  queued request stays exactly as it was through any number of later snapshots from fetches that
  had started by then, whatever they show, until its ten minutes are over; only a fetch that covers
  its repo and does not list the pull request ends it sooner.
\<close>

theorem bot_request_waits:
  assumes "RecordBotRequest now0 asked f r n who act (st, prs) = (st', prs')"
    "pr' \<in> set prs'" "pr_key pr' = settledKey f r n" "distinct (map pr_key prs)"
    "\<forall>(rows, seq, now, covers) \<in> set xs. seq \<le> asked \<and> now < now0 + botQueuedWait \<and>
       (listedByKey rows (settledKey f r n) \<noteq> None \<or> \<not> botGone (settledKey f r n) covers)"
  shows "\<exists>e. fold (\<lambda>(rows, seq, now, covers). sweep advance rows seq now covers) xs (bsRequests st')
        (settledKey f r n) = Some e \<and> prBotRequest pr' = Some (bot_request.truncate e) \<and>
      brBot e = who \<and> brAction e = act \<and> brPhase e = BotQueued \<and> brExpiresAt e = now0 + botQueuedWait"
proof -
  let ?k = "settledKey f r n"
  obtain pr where "st' = recordBotLocked now0 asked who act pr ?k st"
    and pr': "pr' = annotateRowRequests st' pr" "pr_key pr = ?k"
    using amendPullRequest_row[OF assms(1)[unfolded RecordBotRequest_def] assms(2-4)] by auto
  then obtain e where e: "bsRequests st' ?k = Some e" "brBot e = who" "brAction e = act"
    "brPhase e = BotQueued" "brExpiresAt e = now0 + botQueuedWait" "beSeq e = asked"
    by (simp add: recordBotLocked_def)
  have "fold (\<lambda>(rows, seq, now, covers). sweep advance rows seq now covers) xs (bsRequests st') ?k = Some e"
    using assms(5) e by (intro bots.sweeps_wait) auto
  moreover have "prBotRequest pr' = Some (bot_request.truncate e)"
    using pr' e(1) by (simp add: annotateRowRequests_def)
  ultimately show ?thesis using e by blast
qed

definition no_requests :: bot_state where
  "no_requests = \<lparr>bsRequests = Map.empty, bsUpdates = Map.empty, bsOverrides = Map.empty\<rparr>"

definition one_pr :: pull_request where
  "one_pr = zero_pr\<lparr>prRepo := ''a/b'', prNumber := 7, prHeadSHA := ''s'', prAuthor := ''renovate[bot]''\<rparr>"

lemma one_pr_key [simp]: "pr_key one_pr = settledKey ForgeGitHub ''a/b'' 7"
  by (simp add: one_pr_def zero_pr_def pr_key_def)

lemma record_request_one:
  "RecordBotRequest 0 3 ForgeGitHub ''a/b'' 7 BotRenovate BotRebase (no_requests, [one_pr]) =
     (let st = recordBotLocked 0 3 BotRenovate BotRebase one_pr (settledKey ForgeGitHub ''a/b'' 7) no_requests
      in (st, [annotateRowRequests st one_pr]))"
  by (simp add: RecordBotRequest_def amendPullRequest_def annotateBotRequests_def Let_def)

lemma bot_request_waits_witness:
  "\<exists>e. fold (\<lambda>(rows, seq, now, covers). sweep advance rows seq now covers)
       [([one_pr\<lparr>prHeadSHA := ''t''\<rparr>], 3, minute, \<lambda>_ _. True)]
       (bsRequests (fst (RecordBotRequest 0 3 ForgeGitHub ''a/b'' 7 BotRenovate BotRebase (no_requests, [one_pr]))))
       (settledKey ForgeGitHub ''a/b'' 7) = Some e \<and> brPhase e = BotQueued"
proof -
  let ?x = "RecordBotRequest 0 3 ForgeGitHub ''a/b'' 7 BotRenovate BotRebase (no_requests, [one_pr])"
  let ?k = "settledKey ForgeGitHub ''a/b'' 7"
  let ?rows = "[one_pr\<lparr>prHeadSHA := ''t''\<rparr>]"
  have key: "pr_key (one_pr\<lparr>prHeadSHA := ''t''\<rparr>) = ?k"
    using one_pr_key by (simp add: pr_key_def)
  then have "listedByKey ?rows ?k \<noteq> None" using listedByKey_member[of "one_pr\<lparr>prHeadSHA := ''t''\<rparr>" ?rows] by simp
  then have "\<forall>(rows, seq, now, covers) \<in> set [(?rows, 3, minute, \<lambda>_ _. True)].
      seq \<le> (3::nat) \<and> now < 0 + botQueuedWait \<and> (listedByKey rows ?k \<noteq> None \<or> \<not> botGone ?k covers)"
    by (simp add: wait_defs)
  moreover have "?x = (fst ?x, snd ?x)" by simp
  moreover obtain q where "q \<in> set (snd ?x)" "pr_key q = ?k" by (simp add: record_request_one Let_def)
  ultimately show ?thesis
    using bot_request_waits[of 0 3 ForgeGitHub "''a/b''" 7 BotRenovate BotRebase no_requests "[one_pr]"
        "fst ?x" "snd ?x" q "[(?rows, 3, minute, \<lambda>_ _. True)]"] by auto
qed

text \<open>
  A rebase box ticked or cleared here is not undone by a fetch that began before: such a fetch,
  read from the forge for this row, shows the box as this app set it and keeps the override; a fetch
  that began later decides the box itself and retires the override; a row no fetch read (carried
  over, or of another repo) changes neither.
\<close>

lemma settleRows_other:
  "k \<notin> pr_key ` set prs \<Longrightarrow> fst (settleRows seq covers read ov prs) k = ov k"
  by (induction prs arbitrary: ov) (auto simp: split_beta Let_def split: option.splits)

lemma settleRows_row:
  "distinct (map pr_key prs) \<Longrightarrow> i < length prs \<Longrightarrow> ov (pr_key (prs ! i)) = Some ovr \<Longrightarrow>
     (let (ov', prs') = settleRows seq covers read ov prs in
      if settles covers read (prs ! i) \<and> seq \<le> boSeq ovr then
        prs' ! i = (prs ! i)\<lparr>prRenovateRebaseRequested := boTicked ovr\<rparr> \<and> ov' (pr_key (prs ! i)) = Some ovr
      else prs' ! i = prs ! i \<and>
        ov' (pr_key (prs ! i)) = (if settles covers read (prs ! i) then None else Some ovr))"
proof (induction prs arbitrary: ov i)
  case (Cons p prs)
  show ?case
  proof (cases i)
    case 0
    with Cons.prems settleRows_other[of "pr_key p" prs seq covers read] show ?thesis
      by (auto simp: split_beta Let_def)
  next
    case (Suc j)
    with Cons.prems have ne: "pr_key (prs ! j) \<noteq> pr_key p" "j < length prs" "distinct (map pr_key prs)"
      by (auto simp: image_iff) (metis nth_mem)
    have "\<And>ov. ov (pr_key (prs ! j)) = Some ovr \<Longrightarrow> (let (ov', prs') = settleRows seq covers read ov prs in
      if settles covers read (prs ! j) \<and> seq \<le> boSeq ovr then
        prs' ! j = (prs ! j)\<lparr>prRenovateRebaseRequested := boTicked ovr\<rparr> \<and> ov' (pr_key (prs ! j)) = Some ovr
      else prs' ! j = prs ! j \<and>
        ov' (pr_key (prs ! j)) = (if settles covers read (prs ! j) then None else Some ovr))"
      using Cons.IH ne by blast
    from this[of ov] this[of "ov(pr_key p := None)"] show ?thesis
      using Suc Cons.prems(3) ne by (simp add: split_beta Let_def split: option.splits)
  qed
qed simp

lemma listedByKey_distinct:
  "i < length prs \<Longrightarrow> listedByKey prs (pr_key (prs ! i)) \<noteq> None"
  by (simp add: listedByKey_member)

theorem box_override_settled:
  assumes "settleBoxOverrides seq covers read (st, prs) = (st', prs')" "distinct (map pr_key prs)"
    "i < length prs" "bsOverrides st (pr_key (prs ! i)) = Some ovr"
  shows "if settles covers read (prs ! i) \<and> seq \<le> boSeq ovr then
       prRenovateRebaseRequested (prs' ! i) = boTicked ovr \<and> bsOverrides st' (pr_key (prs ! i)) = Some ovr
     else prs' ! i = prs ! i \<and>
       bsOverrides st' (pr_key (prs ! i)) = (if settles covers read (prs ! i) then None else Some ovr)"
proof -
  from assms(1) have st': "bsOverrides st' (pr_key (prs ! i)) =
      fst (settleRows seq covers read (bsOverrides st) prs) (pr_key (prs ! i))"
    and prs': "prs' = snd (settleRows seq covers read (bsOverrides st) prs)"
    using listedByKey_distinct[OF assms(3)]
    by (auto simp: settleBoxOverrides_def Let_def split_beta split: option.splits)
  from settleRows_row[OF assms(2,3), where ov = "bsOverrides st" and ovr = ovr and seq = seq and
      covers = covers and read = read] assms(4) show ?thesis
    by (simp add: st' prs' split_beta Let_def split: if_splits)
qed

lemma box_override_settled_witness:
  "prRenovateRebaseRequested (snd (settleBoxOverrides 4 (\<lambda>_ _. True) all_rows
     (no_requests\<lparr>bsOverrides := [pr_key one_pr \<mapsto> \<lparr>boTicked = True, boSeq = 4\<rparr>]\<rparr>, [one_pr])) ! 0)"
proof -
  let ?st = "no_requests\<lparr>bsOverrides := [pr_key one_pr \<mapsto> \<lparr>boTicked = True, boSeq = 4\<rparr>]\<rparr>"
  let ?x = "settleBoxOverrides 4 (\<lambda>_ _. True) all_rows (?st, [one_pr])"
  have "?x = (fst ?x, snd ?x)" by simp
  from box_override_settled[OF this, of 0 "\<lparr>boTicked = True, boSeq = 4\<rparr>"] show ?thesis
    by (simp add: settles_def row_read_def all_rows_def)
qed

text \<open>
  Request and box land together. After a Renovate rebase was recorded for a pull request on the
  board, its row offers the cancel and not another rebase; after the box is cleared, the request is
  gone and the row offers the rebase again.
\<close>

theorem renovate_rebase_then_cancel:
  assumes "RecordRenovateRebase now seq f r n (st, prs) = (st1, prs1)"
    "SetRenovateRebaseBox seq' f r n False (st1, prs1) = (st2, prs2)"
    "distinct (map pr_key prs)" "p1 \<in> set prs1" "p2 \<in> set prs2"
    "pr_key p1 = settledKey f r n" "pr_key p2 = settledKey f r n"
    "isRenovatePR p1 ra" "isRenovatePR p2 ra"
  shows "(let names1 = map aaAction (AllowedActions p1 ra); names2 = map aaAction (AllowedActions p2 ra) in
     ActionCancelRenovateRebase \<in> set names1 \<and> ActionRenovateRebase \<notin> set names1 \<and>
     ActionRenovateRebase \<in> set names2 \<and> ActionCancelRenovateRebase \<notin> set names2 \<and>
     prBotRequest p2 = None)"
proof -
  let ?k = "settledKey f r n"
  have frame: "pr_key (fst (setBoxLocked s b pr key x)) = pr_key pr" for s b pr key x
    by (simp add: setBoxLocked_def pr_key_def)
  obtain pr where pr: "pr_key pr = ?k"
    "st1 = snd (setBoxLocked seq True pr ?k (recordBotLocked now seq BotRenovate BotRebase pr ?k st))"
    "p1 = annotateRowRequests st1 (fst (setBoxLocked seq True pr ?k (recordBotLocked now seq BotRenovate BotRebase pr ?k st)))"
    using amendPullRequest_row[OF assms(1)[unfolded RecordRenovateRebase_def] assms(4,6,3) frame] by blast
  then have k: "pr_key (fst (setBoxLocked seq True pr ?k y)) = ?k" for y by (simp add: frame)
  obtain e where e: "bsRequests st1 ?k = Some e" "brBot e = BotRenovate" "brPhase e = BotQueued"
    using pr(2) by (simp add: setBoxLocked_def recordBotLocked_def)
  have p1: "prBotRequest p1 = Some (bot_request.truncate e)" "prRenovateRebaseRequested p1"
    using pr(3) k e(1) by (simp_all add: annotateRowRequests_def) (simp add: setBoxLocked_def)
  have "map pr_key prs1 = map pr_key prs"
    by (rule amendPullRequest_keys[OF assms(1)[unfolded RecordRenovateRebase_def] frame])
  with assms(3) have d1: "distinct (map pr_key prs1)" by simp
  obtain q where q: "pr_key q = ?k" "st2 = snd (setBoxLocked seq' False q ?k st1)"
    "p2 = annotateRowRequests st2 (fst (setBoxLocked seq' False q ?k st1))"
    using amendPullRequest_row[OF assms(2)[unfolded SetRenovateRebaseBox_def] assms(5,7) d1 frame] by blast
  have "bsRequests st2 ?k = None" using q(2) e by (simp add: setBoxLocked_def)
  then have p2: "prBotRequest p2 = None" "\<not> prRenovateRebaseRequested p2"
    using q(3) frame[of seq' False q ?k st1] q(1)
    by (simp_all add: annotateRowRequests_def) (simp add: setBoxLocked_def)
  have "offers p1 ra ActionCancelRenovateRebase" "\<not> offers p1 ra ActionRenovateRebase"
    using p1 e assms(8) by (simp_all add: offers_def renovateRebasing_def bot_request.defs)
  moreover have "offers p2 ra ActionRenovateRebase" "\<not> offers p2 ra ActionCancelRenovateRebase"
    using p2 assms(9) by (simp_all add: offers_def botRequestPending_def)
  moreover have "a \<in> set (map aaAction (AllowedActions p ra)) \<longleftrightarrow> offers p ra a" for a p
    using AllowedActions_set[of p ra] by auto
  ultimately show ?thesis using p2(1) by (simp add: Let_def del: set_map)
qed

lemma renovate_rebase_then_cancel_witness:
  "prBotRequest (hd (snd (SetRenovateRebaseBox 3 ForgeGitHub ''a/b'' 7 False
     (RecordRenovateRebase 0 3 ForgeGitHub ''a/b'' 7 (no_requests, [one_pr]))))) = None"
proof -
  let ?x = "RecordRenovateRebase 0 3 ForgeGitHub ''a/b'' 7 (no_requests, [one_pr])"
  let ?y = "SetRenovateRebaseBox 3 ForgeGitHub ''a/b'' 7 False (fst ?x, snd ?x)"
  obtain p1 where p1: "snd ?x = [p1]" "pr_key p1 = settledKey ForgeGitHub ''a/b'' 7"
    "prAuthor p1 = ''renovate[bot]''"
    by (simp add: RecordRenovateRebase_def amendPullRequest_def annotateBotRequests_def Let_def
        setBoxLocked_def split_beta) (simp add: annotateRowRequests_def pr_key_def one_pr_def zero_pr_def)
  obtain p2 where p2: "snd ?y = [p2]" "pr_key p2 = settledKey ForgeGitHub ''a/b'' 7"
    "prAuthor p2 = ''renovate[bot]''"
    using p1 by (simp add: SetRenovateRebaseBox_def amendPullRequest_def annotateBotRequests_def Let_def
        setBoxLocked_def split_beta) (simp add: annotateRowRequests_def pr_key_def)
  have ren: "prAuthor p = ''renovate[bot]'' \<Longrightarrow> isRenovatePR p []" for p
    by (simp add: isRenovatePR_def)
  have "?x = (fst ?x, snd ?x)" "?y = (fst ?y, snd ?y)" by simp_all
  from renovate_rebase_then_cancel[OF this, of p1 p2 "[]"] p1 p2 ren have "prBotRequest p2 = None"
    by (simp add: Let_def)
  moreover have "(fst ?x, snd ?x) = ?x" by simp
  ultimately show ?thesis using p2(1) by (metis list.sel(1))
qed

text \<open>
  The forge is asked about the very pull request the request was recorded under, and a
  thumbs-up that comes late still counts: an expired request waits again for its full ten minutes
  and is not asked about any more, while one that was replaced meanwhile is left alone.
\<close>

lemma pendingAck_key:
  assumes "valid_forge f" "CHR ''/'' \<notin> set owner" "- (2 ^ 63) \<le> n" "n < 2 ^ 63"
  shows "pendingAck (settledKey f (owner @ ''/'' @ name) n) e =
     (if brBot e \<noteq> BotDependabot \<or> brAction e \<noteq> BotRebase \<or> brAcknowledgedAt e \<noteq> None
         \<or> brPhase e = BotRebasing then None
      else Some \<lparr>akForge = f, akOwner = owner, akName = name, akNumber = n,
        akKey = settledKey f (owner @ ''/'' @ name) n, akRequestedAt = brRequestedAt e\<rparr>)"
proof -
  have "cut_last (settledKey f (owner @ ''/'' @ name) n) (CHR ''#'') =
      Some (forge_str f @ ''/'' @ owner @ ''/'' @ name, itoa n)"
    using cut_last_append[of "CHR ''#''" "itoa n" "forge_str f @ ''/'' @ owner @ ''/'' @ name"]
    by (simp add: settledKey_def)
  moreover have "cut (owner @ ''/'' @ name) ''/'' = Some (owner, name)"
    using cut_single[OF assms(2)] by simp
  ultimately show ?thesis
    using settled.split_key[OF assms(1)] atoi_itoa[OF assms(3,4)] by (simp add: pendingAck_def)
qed

theorem late_ack_revives:
  assumes "valid_forge f" "CHR ''/'' \<notin> set owner" "- (2 ^ 63) \<le> n" "n < 2 ^ 63"
    "pendingAck (settledKey f (owner @ ''/'' @ name) n) e = Some l" "caAcknowledged ack"
    "bsRequests st (akKey l) = Some e'"
  shows "akForge l = f \<and> akOwner l = owner \<and> akName l = name \<and> akNumber l = n \<and>
     (brRequestedAt e' = brRequestedAt e \<longrightarrow> (\<exists>e''. bsRequests (recordAck now l ack st) (akKey l) = Some e'' \<and>
        brAcknowledgedAt e'' = Some now \<and> pendingAck (akKey l) e'' = None \<and>
        (brPhase e' \<noteq> BotRebasing \<longrightarrow> brPhase e'' = BotQueued \<and> brExpiresAt e'' = now + botQueuedWait))) \<and>
     (brRequestedAt e' \<noteq> brRequestedAt e \<longrightarrow> recordAck now l ack st = st)"
proof -
  from assms(5) pendingAck_key[OF assms(1-4)]
  have l: "l = \<lparr>akForge = f, akOwner = owner, akName = name, akNumber = n,
      akKey = settledKey f (owner @ ''/'' @ name) n, akRequestedAt = brRequestedAt e\<rparr>"
    by (auto split: if_splits)
  have asked_once: "brAcknowledgedAt x = Some now \<Longrightarrow> pendingAck k x = None" for x k
    by (simp add: pendingAck_def)
  show ?thesis
    using assms(6,7) by (cases "brPhase e'") (auto simp: l recordAck_def Let_def asked_once)
qed

lemma late_ack_revives_witness:
  "\<exists>e''. bsRequests (recordAck 5 \<lparr>akForge = ForgeGitHub, akOwner = ''a'', akName = ''b'', akNumber = 7,
        akKey = settledKey ForgeGitHub ''a/b'' 7, akRequestedAt = 0\<rparr>
       \<lparr>caAcknowledged = True, caCommentURL = ''''\<rparr>
       (recordBotLocked 0 3 BotDependabot BotRebase one_pr (settledKey ForgeGitHub ''a/b'' 7) no_requests))
     (settledKey ForgeGitHub ''a/b'' 7) = Some e'' \<and> brAcknowledgedAt e'' = Some 5"
proof -
  let ?k = "settledKey ForgeGitHub ''a/b'' 7"
  let ?l = "\<lparr>akForge = ForgeGitHub, akOwner = ''a'', akName = ''b'', akNumber = 7, akKey = ?k, akRequestedAt = 0\<rparr>"
  let ?st = "recordBotLocked 0 3 BotDependabot BotRebase one_pr ?k no_requests"
  obtain e where e: "bsRequests ?st ?k = Some e" "brBot e = BotDependabot" "brAction e = BotRebase"
    "brAcknowledgedAt e = None" "brPhase e = BotQueued" "brRequestedAt e = 0"
    by (simp add: recordBotLocked_def)
  then have p: "pendingAck (settledKey ForgeGitHub (''a'' @ ''/'' @ ''b'') 7) e = Some ?l"
    using pendingAck_key[of ForgeGitHub "''a''" 7 "''b''" e] by simp
  from late_ack_revives[OF _ _ _ _ p, of "\<lparr>caAcknowledged = True, caCommentURL = ''''\<rparr>" ?st e 5] e
  show ?thesis by auto
qed

end
