(* ===== verification/Auto_Merge.thy ===== *)
theory Auto_Merge
  imports Action_Refusal
begin

text \<open>
  \<open>auto_merge.go\<close>, \<open>auto_merge_cancel.go\<close> and \<open>auto_merge_status.go\<close>: the pass after a refresh that
  merges the Forgejo pull requests a user armed, takes auto-merge back off empty ones, and explains
  the rest. The configuration's maps, the store's armed set and the calls made are one state; what
  the forges answer is a parameter (\<open>merge_api\<close>). The armed set is walked in the order of a list of
  its keys, which ends where a cancelled pass stops.
\<close>

section \<open>State and answers\<close>

record auto_merge_attempt =
  atUpdatedAt :: time
  atForever :: bool
  atUntil :: time

record auto_merge_failure =
  afUpdatedAt :: time
  afRefusal :: action_refusal

record auto_merged =
  adForge :: forge
  adRepo :: string
  adNumber :: int
  adAt :: time

record auto_merge_cancelled =
  acAt :: time
  acRefusal :: action_refusal

record auto_merge_config =
  amIntents :: "string set"   \<comment> \<open>the store's armed pull requests\<close>
  amAttempts :: "string \<rightharpoonup> auto_merge_attempt"
  amFailures :: "string \<rightharpoonup> auto_merge_failure"
  amMerged :: "auto_merged list"
  amCancelled :: "string \<rightharpoonup> auto_merge_cancelled"
  amCancelAttempts :: "string \<rightharpoonup> auto_merge_attempt"
  amCalls :: "(string \<times> string \<times> int) list"   \<comment> \<open>merges asked of the forge, newest first\<close>
  amSettled :: "string list"   \<comment> \<open>pull requests given to \<open>MarkSettled\<close>\<close>

text \<open>A merge call is answered, refused, or cut off when the pass's context ends.\<close>

datatype merge_answer = MergeDone | MergeRefused go_error | MergeCutOff

record merge_api =
  apMerge :: "string \<Rightarrow> string \<Rightarrow> int \<Rightarrow> merge_answer"
  apCanMerge :: bool
  apDisable :: "string \<Rightarrow> string \<Rightarrow> int \<Rightarrow> bool"
  apCanDisable :: bool
  apState :: "forge \<Rightarrow> string \<Rightarrow> string \<Rightarrow> int \<Rightarrow> pull_request_state option"
  apStoreOk :: "string \<Rightarrow> bool"   \<comment> \<open>whether the store drops this intent without an error\<close>

definition transientAutoMergeWait :: duration where
  "transientAutoMergeWait = 5 * minute"

definition autoMergedKeep :: duration where
  "autoMergedKeep = 10 * minute"

definition CancelAutoMerge :: "merge_api \<Rightarrow> string \<Rightarrow> auto_merge_config \<Rightarrow> auto_merge_config" where
  "CancelAutoMerge api key c =
     (if apStoreOk api key then c\<lparr>amIntents := amIntents c - {key}\<rparr> else c)"

section \<open>One attempt per state of the pull request\<close>

definition attemptStands :: "time \<Rightarrow> pull_request \<Rightarrow> auto_merge_attempt option \<Rightarrow> bool" where
  "attemptStands now pr prev = (case prev of None \<Rightarrow> False
     | Some p \<Rightarrow> atUpdatedAt p = prUpdatedAt pr \<and> (atForever p \<or> now < atUntil p))"

definition foreverAttempt :: "pull_request \<Rightarrow> auto_merge_attempt" where
  "foreverAttempt pr = \<lparr>atUpdatedAt = prUpdatedAt pr, atForever = True, atUntil = zero_time\<rparr>"

definition waitAttempt :: "time \<Rightarrow> pull_request \<Rightarrow> auto_merge_attempt" where
  "waitAttempt now pr = \<lparr>atUpdatedAt = prUpdatedAt pr, atForever = False,
     atUntil = now + transientAutoMergeWait\<rparr>"

definition begin_merge :: "time \<Rightarrow> pull_request \<Rightarrow> auto_merge_config \<Rightarrow> auto_merge_config option" where
  "begin_merge now pr c = (let key = dependabotPRKey pr in
     if attemptStands now pr (amAttempts c key) then None
     else Some (c\<lparr>amAttempts := (amAttempts c)(key \<mapsto> foreverAttempt pr)\<rparr>))"

definition interrupted :: "time \<Rightarrow> pull_request \<Rightarrow> auto_merge_config \<Rightarrow> auto_merge_config" where
  "interrupted now pr c = c\<lparr>amAttempts := (amAttempts c)(dependabotPRKey pr \<mapsto> waitAttempt now pr)\<rparr>"

definition beginCancel :: "time \<Rightarrow> pull_request \<Rightarrow> auto_merge_config \<Rightarrow> auto_merge_config option" where
  "beginCancel now pr c = (let key = dependabotPRKey pr in
     if attemptStands now pr (amCancelAttempts c key) then None
     else Some (c\<lparr>amCancelAttempts := (amCancelAttempts c)(key \<mapsto> foreverAttempt pr)\<rparr>))"

definition cancelFailed :: "time \<Rightarrow> pull_request \<Rightarrow> auto_merge_config \<Rightarrow> auto_merge_config" where
  "cancelFailed now pr c =
     c\<lparr>amCancelAttempts := (amCancelAttempts c)(dependabotPRKey pr \<mapsto> waitAttempt now pr)\<rparr>"

section \<open>The merge\<close>

definition mergeRefusal :: "go_error \<Rightarrow> action_refusal" where
  "mergeRefusal e =
     (if str_contains (lower (errText e)) ''not allowed to merge''
      then refusal ActionPermission ''The token saved for Forgejo isn't allowed to merge this pull request. Check its permissions in Settings.''
      else ClassifyActionRefusal e None)"

definition isUnreachable :: "go_error \<Rightarrow> bool" where
  "isUnreachable e = has_kind e ForgeErrorUnreachable"

definition merge_failed :: "time \<Rightarrow> pull_request \<Rightarrow> go_error \<Rightarrow> auto_merge_config \<Rightarrow> auto_merge_config" where
  "merge_failed now pr e c =
     (let key = dependabotPRKey pr; r = mergeRefusal e;
          c1 = c\<lparr>amFailures := (amFailures c)(key \<mapsto> \<lparr>afUpdatedAt = prUpdatedAt pr, afRefusal = r\<rparr>)\<rparr>
      in if arCode r = ActionRateLimited \<or> isUnreachable e
         then c1\<lparr>amAttempts := (amAttempts c1)(key \<mapsto> waitAttempt now pr)\<rparr> else c1)"

definition recordMerged :: "auto_merged \<Rightarrow> time \<Rightarrow> auto_merge_config \<Rightarrow> auto_merge_config" where
  "recordMerged m now c = c\<lparr>
     amMerged := m # filter (\<lambda>old. time_sub now (adAt old) < autoMergedKeep) (amMerged c),
     amFailures := (amFailures c)(settledKey (adForge m) (adRepo m) (adNumber m) := None)\<rparr>"

definition readyForAutoMerge :: "pull_request \<Rightarrow> bool" where
  "readyForAutoMerge pr \<longleftrightarrow> prCI pr = CISuccess \<and> prMergeStatus pr = MergeMergeable \<and>
     \<not> prDraft pr \<and> \<not> prEmpty pr \<and> prStackedOn pr = None"

definition autoMergeNow ::
  "merge_api \<Rightarrow> time \<Rightarrow> pull_request \<Rightarrow> auto_merge_config \<Rightarrow> auto_merge_config" where
  "autoMergeNow api now pr c = (case cut (prRepo pr) ''/'' of
       None \<Rightarrow> c
     | Some (owner, name) \<Rightarrow>
         if \<not> apCanMerge api then c
         else (case begin_merge now pr c of
             None \<Rightarrow> c
           | Some c1 \<Rightarrow>
               let c2 = c1\<lparr>amCalls := (owner, name, prNumber pr) # amCalls c1\<rparr>
               in (case apMerge api owner name (prNumber pr) of
                     MergeCutOff \<Rightarrow> interrupted now pr c2
                   | MergeRefused e \<Rightarrow> merge_failed now pr e c2
                   | MergeDone \<Rightarrow>
                       let c3 = CancelAutoMerge api (dependabotPRKey pr) c2;
                           c4 = recordMerged \<lparr>adForge = prForge pr, adRepo = prRepo pr,
                                  adNumber = prNumber pr, adAt = now\<rparr> now c3
                       in c4\<lparr>amSettled := settledKey (prForge pr) (prRepo pr) (prNumber pr) # amSettled c4\<rparr>)))"

definition forgeReachable :: "snapshot \<Rightarrow> forge \<Rightarrow> bool" where
  "forgeReachable snap forge = (case find (\<lambda>f. fhForge f = forge) (snForges snap) of
     Some f \<Rightarrow> fhReachable f | None \<Rightarrow> False)"

definition dropIfFinished ::
  "merge_api \<Rightarrow> snapshot \<Rightarrow> string \<Rightarrow> auto_merge_config \<Rightarrow> auto_merge_config" where
  "dropIfFinished api snap key c = (case parseAutoMergeKey key of
       None \<Rightarrow> c
     | Some (forge, repo, number) \<Rightarrow>
         if \<not> forgeReachable snap forge then c
         else (case cut repo ''/'' of
             None \<Rightarrow> c
           | Some (owner, name) \<Rightarrow> (case apState api forge owner name number of
                 None \<Rightarrow> c
               | Some state \<Rightarrow>
                   if \<not> psMerged state \<and> \<not> psClosed state then c
                   else CancelAutoMerge api (settledKey forge repo number) c)))"

definition prune :: "string set \<Rightarrow> auto_merge_config \<Rightarrow> auto_merge_config" where
  "prune armed c = c\<lparr>amAttempts := keep_keys (\<lambda>k. k \<in> armed) (amAttempts c),
     amFailures := keep_keys (\<lambda>k. k \<in> armed) (amFailures c)\<rparr>"

section \<open>Cancelling on empty pull requests\<close>

definition armedOn :: "pull_request \<Rightarrow> string \<Rightarrow> string set \<Rightarrow> bool" where
  "armedOn pr key intents = (case prForge pr of
       ForgeGitHub \<Rightarrow> prAutoMergeEnabled pr = Some True
     | ForgeForgejo \<Rightarrow> key \<in> intents
     | _ \<Rightarrow> False)"

definition recordCancelled ::
  "string \<Rightarrow> auto_merge_cancelled \<Rightarrow> auto_merge_config \<Rightarrow> auto_merge_config" where
  "recordCancelled key x c = c\<lparr>amCancelled := (amCancelled c)(key \<mapsto> x),
     amFailures := (amFailures c)(key := None)\<rparr>"

definition cancelReason :: action_refusal where
  "cancelReason = refusal ActionAlreadyUpToDate ''Auto-merge was cancelled: there is nothing left to merge.''"

definition cancelAutoMerge ::
  "merge_api \<Rightarrow> time \<Rightarrow> pull_request \<Rightarrow> string \<Rightarrow> auto_merge_config \<Rightarrow> auto_merge_config" where
  "cancelAutoMerge api now pr key c = (case cut (prRepo pr) ''/'' of
       None \<Rightarrow> c
     | Some (owner, name) \<Rightarrow>
         if prForge pr = ForgeGitHub then
           (if \<not> apCanDisable api then c
            else if \<not> apDisable api owner name (prNumber pr) then cancelFailed now pr c
            else recordCancelled key \<lparr>acAt = now, acRefusal = cancelReason\<rparr> c)
         else if \<not> apStoreOk api key then cancelFailed now pr c
         else recordCancelled key \<lparr>acAt = now, acRefusal = cancelReason\<rparr> (CancelAutoMerge api key c))"

definition forgetGone :: "snapshot \<Rightarrow> time \<Rightarrow> auto_merge_config \<Rightarrow> auto_merge_config" where
  "forgetGone snap now c = (let listed = dependabotPRKey ` set (snPullRequests snap) in
     c\<lparr>amCancelAttempts := keep_keys (\<lambda>k. k \<in> listed) (amCancelAttempts c),
       amCancelled := (\<lambda>k. case amCancelled c k of
           Some x \<Rightarrow> if k \<notin> listed \<and> time_sub now (acAt x) \<ge> autoMergedKeep then None else Some x
         | None \<Rightarrow> None)\<rparr>)"

text \<open>
  The loop over the empty rows. \<open>intents\<close> is the armed set the pass loads for its first empty
  Forgejo row, \<open>None\<close> where the store could not be read.
\<close>

definition cancelEmptyRow ::
  "merge_api \<Rightarrow> time \<Rightarrow> string set option \<Rightarrow> pull_request \<Rightarrow> auto_merge_config \<Rightarrow> auto_merge_config" where
  "cancelEmptyRow api now intents pr c =
     (if \<not> prEmpty pr then c
      else let key = dependabotPRKey pr in
        if intents = None \<and> prForge pr = ForgeForgejo then c
        else if \<not> armedOn pr key (case intents of Some s \<Rightarrow> s | None \<Rightarrow> {}) then c
        else (case beginCancel now pr c of None \<Rightarrow> c
            | Some c1 \<Rightarrow> cancelAutoMerge api now pr key c1))"

definition cancelEmptyAutoMerges ::
  "merge_api \<Rightarrow> time \<Rightarrow> bool \<Rightarrow> snapshot \<Rightarrow> auto_merge_config \<Rightarrow> auto_merge_config" where
  "cancelEmptyAutoMerges api now readable snap c =
     (let c = forgetGone snap now c; intents = (if readable then Some (amIntents c) else None)
      in fold (cancelEmptyRow api now intents) (snPullRequests snap) c)"

section \<open>The pass\<close>

definition autoMergeKey ::
  "merge_api \<Rightarrow> time \<Rightarrow> snapshot \<Rightarrow> string \<Rightarrow> auto_merge_config \<Rightarrow> auto_merge_config" where
  "autoMergeKey api now snap key c =
     (case index_by dependabotPRKey (snPullRequests snap) key of
        None \<Rightarrow> dropIfFinished api snap key c
      | Some pr \<Rightarrow>
          if prForge pr \<noteq> ForgeForgejo \<or> \<not> readyForAutoMerge pr then c
          else autoMergeNow api now pr c)"

text \<open>\<open>order\<close> walks the armed keys; \<open>readable\<close> says whether the store can be read in this pass.\<close>

definition runAutoMerge :: "merge_api \<Rightarrow> time \<Rightarrow> bool \<Rightarrow> (string set \<Rightarrow> string list) \<Rightarrow> snapshot \<Rightarrow>
    auto_merge_config \<Rightarrow> auto_merge_config" where
  "runAutoMerge api now readable order snap c =
     (let c1 = cancelEmptyAutoMerges api now readable snap c in
      if \<not> readable then c1
      else let armed = amIntents c1; c2 = prune armed c1
           in fold (autoMergeKey api now snap) (order armed) c2)"

section \<open>The row's explanation\<close>

datatype auto_merge_state = AutoMergeWaiting | AutoMergeStopped

record auto_merge_status =
  asState :: auto_merge_state
  asCode :: "action_code option"
  asMessage :: string

definition forgeName :: "forge \<Rightarrow> string" where
  "forgeName f = (if f = ForgeGitHub then ''GitHub'' else ''Forgejo'')"

text \<open>
  \<open>strings.ToLower(s[:1]) + s[1:]\<close>. The slice is one byte: where that is not a whole character,
  \<open>ToLower\<close> turns it into the replacement character.
\<close>

definition lowerFirst :: "string \<Rightarrow> string" where
  "lowerFirst s = (case s of [] \<Rightarrow> []
     | c # r \<Rightarrow> if (of_char c :: nat) < 128 then lower_char c # r
                else [CHR 0xEF, CHR 0xBF, CHR 0xBD] @ r)"

abbreviation explain :: "auto_merge_state \<Rightarrow> action_code \<Rightarrow> string \<Rightarrow> auto_merge_status" where
  "explain s c m \<equiv> \<lparr>asState = s, asCode = Some c, asMessage = m\<rparr>"

definition statusFromFields :: "pull_request \<Rightarrow> auto_merge_status" where
  "statusFromFields pr =
     (if prMergeStatus pr = MergeConflicting
        then explain AutoMergeStopped ActionConflict (''Auto-merge stopped: merge conflict. Resolve it on '' @ forgeName (prForge pr) @ '' and it carries on.'')
      else if prCI pr = CIFailure \<and> prFailingOnlyForApproval pr
        then explain AutoMergeWaiting ActionBlockedByProtection (''Auto-merge is waiting for workflow approval. Approve the runs on '' @ forgeName (prForge pr) @ '' and it carries on.'')
      else if prCI pr = CIFailure
        then explain AutoMergeStopped ActionChecksFailing ''Auto-merge stopped: a check failed. It carries on once checks pass.''
      else if prEmpty pr
        then explain AutoMergeStopped ActionAlreadyUpToDate ''Auto-merge stopped: nothing left to merge.''
      else if prDraft pr
        then explain AutoMergeWaiting ActionNotMergeable ''Auto-merge is waiting for the draft to be marked ready.''
      else if prStackedOn pr \<noteq> None
        then explain AutoMergeWaiting ActionStacked ''Auto-merge is waiting for the pull request it is stacked on to merge.''
      else if prCI pr = CINone
        then explain AutoMergeWaiting ActionChecksPending ''Auto-merge is waiting for a check to report and pass.''
      else if prCI pr = CIPending
        then explain AutoMergeWaiting ActionChecksPending ''Auto-merge is waiting for checks to finish.''
      else if prMergeStatus pr \<noteq> MergeMergeable
        then explain AutoMergeWaiting ActionNotMergeable (''Auto-merge is waiting for '' @ forgeName (prForge pr) @ '' to say it can merge.'')
      else if prForge pr = ForgeGitHub
        then \<lparr>asState = AutoMergeWaiting, asCode = None, asMessage = ''Checks passed. GitHub merges it as soon as it can.''\<rparr>
      else \<lparr>asState = AutoMergeWaiting, asCode = None, asMessage = ''Checks passed. Auto-merge merges it on the next refresh.''\<rparr>)"

definition AutoMergeStatusOf :: "pull_request \<Rightarrow> auto_merge_failure option \<Rightarrow> auto_merge_status" where
  "AutoMergeStatusOf pr failure = (case failure of
       Some f \<Rightarrow>
         if afUpdatedAt f = prUpdatedAt pr then
           (if arCode (afRefusal f) = ActionRateLimited
            then explain AutoMergeWaiting ActionRateLimited (''Auto-merge is waiting: '' @ lowerFirst (arMessage (afRefusal f)))
            else explain AutoMergeStopped (arCode (afRefusal f)) (''Auto-merge stopped: '' @ lowerFirst (arMessage (afRefusal f))))
         else statusFromFields pr
     | None \<Rightarrow> statusFromFields pr)"

record auto_merge_report =
  rpFailures :: "string \<rightharpoonup> auto_merge_failure"
  rpMerged :: "auto_merged list"
  rpCancelled :: "string \<rightharpoonup> auto_merge_cancelled"

definition AutoMergeReport :: "time \<Rightarrow> auto_merge_config \<Rightarrow> auto_merge_report" where
  "AutoMergeReport now c = \<lparr>rpFailures = amFailures c,
     rpMerged = filter (\<lambda>m. time_sub now (adAt m) < autoMergedKeep) (amMerged c),
     rpCancelled = (\<lambda>k. case amCancelled c k of
         Some x \<Rightarrow> if time_sub now (acAt x) < autoMergedKeep then Some x else None | None \<Rightarrow> None)\<rparr>"

section \<open>The contract of the attempt guard\<close>

text \<open>
  Merging and cancelling guard their call the same way, each on a map of its own: an attempt is
  recorded before the call and stands until the pull request changes, or until a wait is over if
  the failure may clear by itself.
\<close>

locale attempt_guard =
  fixes attempts :: "'s \<Rightarrow> string \<rightharpoonup> auto_merge_attempt"
    and try_begin :: "time \<Rightarrow> pull_request \<Rightarrow> 's \<Rightarrow> 's option"
    and retry_later :: "time \<Rightarrow> pull_request \<Rightarrow> 's \<Rightarrow> 's"
  assumes refuses: "try_begin now pr s = None \<longleftrightarrow> attemptStands now pr (attempts s (pr_key pr))"
    and marks: "try_begin now pr s = Some s' \<Longrightarrow> attempts s' = (attempts s)(pr_key pr \<mapsto> foreverAttempt pr)"
    and later: "attempts (retry_later now pr s) = (attempts s)(pr_key pr \<mapsto> waitAttempt now pr)"
begin

lemma once_per_state:
  "attempts s (pr_key pr) = Some (foreverAttempt pr) \<Longrightarrow> pr_key q = pr_key pr \<Longrightarrow>
     try_begin now q s = None \<longleftrightarrow> prUpdatedAt q = prUpdatedAt pr"
  by (auto simp: refuses attemptStands_def foreverAttempt_def)

lemma again_after_wait:
  "attempts s (pr_key pr) = Some (waitAttempt now0 pr) \<Longrightarrow> pr_key q = pr_key pr \<Longrightarrow>
     try_begin now q s = None \<longleftrightarrow> prUpdatedAt q = prUpdatedAt pr \<and> now < now0 + transientAutoMergeWait"
  by (auto simp: refuses attemptStands_def waitAttempt_def)

lemma begun: "try_begin now pr s = Some s' \<Longrightarrow> attempts s' (pr_key pr) = Some (foreverAttempt pr)"
  by (simp add: marks)

end

interpretation merging: attempt_guard amAttempts begin_merge interrupted
  by unfold_locales
     (auto simp: begin_merge_def interrupted_def Let_def dependabotPRKey_eq split: if_splits)

interpretation cancelling: attempt_guard amCancelAttempts beginCancel cancelFailed
  by unfold_locales
     (auto simp: beginCancel_def cancelFailed_def Let_def dependabotPRKey_eq split: if_splits)

section \<open>What a pass asks of the forge\<close>

text \<open>The merges asked since, all of one kind.\<close>

definition asks :: "((string \<times> string \<times> int) \<Rightarrow> bool) \<Rightarrow> auto_merge_config \<Rightarrow> auto_merge_config \<Rightarrow> bool" where
  "asks P c c' \<longleftrightarrow> (\<exists>new. amCalls c' = new @ amCalls c \<and> (\<forall>x \<in> set new. P x)) \<and> amIntents c' \<subseteq> amIntents c"

lemma asks_refl [simp]: "asks P c c"
  by (simp add: asks_def)

lemma asks_trans: "asks P a b \<Longrightarrow> asks P b c \<Longrightarrow> asks P a c"
  unfolding asks_def by (metis (no_types, lifting) UnE append.assoc order_trans set_append)

lemma asks_fold: "(\<And>x c. x \<in> set xs \<Longrightarrow> asks P c (f x c)) \<Longrightarrow> asks P c (fold f xs c)"
  by (induction xs arbitrary: c) (auto intro: asks_trans)

lemma asks_frame: "amCalls c' = amCalls c \<Longrightarrow> amIntents c' \<subseteq> amIntents c \<Longrightarrow> asks P c c'"
  by (simp add: asks_def)

lemma calls_frame [frame, simp]:
  "amCalls (CancelAutoMerge api key c) = amCalls c" "amIntents (CancelAutoMerge api key c) \<subseteq> amIntents c"
  "amCalls (cancelFailed now pr c) = amCalls c" "amIntents (cancelFailed now pr c) = amIntents c"
  "amCalls (recordCancelled key x c) = amCalls c" "amIntents (recordCancelled key x c) = amIntents c"
  "amCalls (interrupted now pr c) = amCalls c" "amIntents (interrupted now pr c) = amIntents c"
  "amCalls (merge_failed now pr e c) = amCalls c" "amIntents (merge_failed now pr e c) = amIntents c"
  "amCalls (recordMerged m now c) = amCalls c" "amIntents (recordMerged m now c) = amIntents c"
  "amCalls (prune armed c) = amCalls c" "amIntents (prune armed c) = amIntents c"
  "amCalls (forgetGone snap now c) = amCalls c" "amIntents (forgetGone snap now c) = amIntents c"
  by (auto simp: CancelAutoMerge_def cancelFailed_def recordCancelled_def interrupted_def
      merge_failed_def recordMerged_def prune_def forgetGone_def Let_def)

lemma begin_frame [frame]:
  "begin_merge now pr c = Some c' \<Longrightarrow> amCalls c' = amCalls c \<and> amIntents c' = amIntents c"
  "beginCancel now pr c = Some c' \<Longrightarrow> amCalls c' = amCalls c \<and> amIntents c' = amIntents c"
  by (auto simp: begin_merge_def beginCancel_def Let_def split: if_splits)

lemma asks_cancelAutoMerge: "asks P c (cancelAutoMerge api now pr key c)"
  by (rule asks_frame) (auto simp: cancelAutoMerge_def split: option.splits dest: subsetD[OF calls_frame(2)])

lemma asks_cancelEmptyRow: "asks P c (cancelEmptyRow api now intents pr c)"
proof -
  have "beginCancel now pr c = Some c1 \<Longrightarrow> asks P c (cancelAutoMerge api now pr key c1)" for c1 key
    by (rule asks_trans[OF _ asks_cancelAutoMerge]) (auto intro!: asks_frame dest: begin_frame)
  then show ?thesis by (simp add: cancelEmptyRow_def Let_def split: option.splits)
qed

lemma asks_cancelEmpty: "asks P c (cancelEmptyAutoMerges api now readable snap c)"
  unfolding cancelEmptyAutoMerges_def Let_def
  by (rule asks_trans[OF asks_frame asks_fold]) (simp_all add: asks_cancelEmptyRow)

lemma asks_dropIfFinished: "asks P c (dropIfFinished api snap key c)"
  by (rule asks_frame) (auto simp: dropIfFinished_def split: option.splits dest: subsetD[OF calls_frame(2)])

lemma asks_autoMergeNow:
  assumes "\<And>owner name. cut (prRepo pr) ''/'' = Some (owner, name) \<Longrightarrow> P (owner, name, prNumber pr)"
  shows "asks P c (autoMergeNow api now pr c)"
proof (cases "cut (prRepo pr) ''/'' = None \<or> \<not> apCanMerge api \<or> begin_merge now pr c = None")
  case True
  then have "autoMergeNow api now pr c = c" by (auto simp: autoMergeNow_def split: option.splits)
  then show ?thesis by simp
next
  case False
  then obtain owner name c1 where on: "cut (prRepo pr) ''/'' = Some (owner, name)" "apCanMerge api"
    "begin_merge now pr c = Some c1" by auto
  let ?c2 = "c1\<lparr>amCalls := (owner, name, prNumber pr) # amCalls c1\<rparr>"
  have "asks P c ?c2" using on(3) assms[OF on(1)] by (auto simp: asks_def dest!: begin_frame)
  moreover have "asks P ?c2 (autoMergeNow api now pr c)"
    by (rule asks_frame)
       (use on in \<open>auto simp: autoMergeNow_def Let_def split: merge_answer.splits dest: subsetD[OF calls_frame(2)]\<close>)
  ultimately show ?thesis by (rule asks_trans)
qed

section \<open>Properties\<close>

definition call_of :: "pull_request \<Rightarrow> string \<times> string \<times> int \<Rightarrow> bool" where
  "call_of pr x \<longleftrightarrow> (\<exists>owner name. cut (prRepo pr) ''/'' = Some (owner, name) \<and> x = (owner, name, prNumber pr))"

text \<open>
  C3: Nothing else is ever merged. Every merge a pass asks of a forge is of a pull request on the
  board, on Forgejo, that the user armed, whose checks passed and which the forge calls mergeable,
  and which is neither a draft, nor empty, nor stacked; and a pass never arms anything.
\<close>

theorem only_armed_ready_merged:
  assumes "\<And>S. set (order S) \<subseteq> S"
    "runAutoMerge api now readable order snap c = c'"
  shows "amIntents c' \<subseteq> amIntents c \<and> (\<exists>new. amCalls c' = new @ amCalls c \<and>
     (\<forall>x \<in> set new. \<exists>pr \<in> set (snPullRequests snap). call_of pr x \<and> prForge pr = ForgeForgejo \<and>
        pr_key pr \<in> amIntents c \<and> readyForAutoMerge pr))"
proof -
  let ?P = "\<lambda>x. \<exists>pr \<in> set (snPullRequests snap). call_of pr x \<and> prForge pr = ForgeForgejo \<and>
        pr_key pr \<in> amIntents c \<and> readyForAutoMerge pr"
  let ?c1 = "cancelEmptyAutoMerges api now readable snap c"
  have c1: "asks ?P c ?c1" by (rule asks_cancelEmpty)
  then have sub: "amIntents ?c1 \<subseteq> amIntents c" by (simp add: asks_def)
  have step: "asks ?P d (autoMergeKey api now snap key d)" if "key \<in> amIntents c" for key d
  proof (cases "index_by dependabotPRKey (snPullRequests snap) key")
    case None
    then show ?thesis by (simp add: autoMergeKey_def asks_dropIfFinished)
  next
    case (Some pr)
    then have pr: "pr \<in> set (snPullRequests snap)" "pr_key pr = key"
      using index_by_Some[OF Some] by (auto simp: dependabotPRKey_eq)
    have "prForge pr = ForgeForgejo \<Longrightarrow> readyForAutoMerge pr \<Longrightarrow> asks ?P d (autoMergeNow api now pr d)"
      using pr that by (intro asks_autoMergeNow) (auto simp: call_of_def)
    with Some show ?thesis by (simp add: autoMergeKey_def)
  qed
  have "asks ?P c c'"
  proof (cases readable)
    case True
    have "asks ?P ?c1 c'"
      using assms True sub unfolding runAutoMerge_def Let_def
      by (auto intro!: asks_trans[OF asks_frame asks_fold] step)
    with c1 show ?thesis by (rule asks_trans)
  next
    case False
    with assms(2) c1 show ?thesis by (simp add: runAutoMerge_def Let_def)
  qed
  then show ?thesis by (simp add: asks_def)
qed

definition armed_pr :: pull_request where
  "armed_pr = zero_pr\<lparr>prForge := ForgeForgejo, prRepo := ''a/b'', prNumber := 3, prCI := CISuccess,
     prMergeStatus := MergeMergeable\<rparr>"

definition armed_config :: auto_merge_config where
  "armed_config = \<lparr>amIntents = {pr_key armed_pr}, amAttempts = Map.empty, amFailures = Map.empty,
     amMerged = [], amCancelled = Map.empty, amCancelAttempts = Map.empty, amCalls = [], amSettled = []\<rparr>"

definition limited_error :: go_error where
  "limited_error = \<lparr>errText = ''slow down'', errClient = Some (some_client\<lparr>ceKind := ForgeErrorRateLimited\<rparr>)\<rparr>"

definition limited_api :: merge_api where
  "limited_api = \<lparr>apMerge = (\<lambda>_ _ _. MergeRefused limited_error), apCanMerge = True,
     apDisable = (\<lambda>_ _ _. True), apCanDisable = True, apState = (\<lambda>_ _ _ _. None), apStoreOk = (\<lambda>_. True)\<rparr>"

lemma armed_cut: "cut (prRepo armed_pr) ''/'' = Some (''a'', ''b'')"
  using cut_single[of "CHR ''/''" "''a''" "''b''"] by (simp add: armed_pr_def)

lemma armed_begin:
  "begin_merge now armed_pr armed_config =
     Some (armed_config\<lparr>amAttempts := [pr_key armed_pr \<mapsto> foreverAttempt armed_pr]\<rparr>)"
  by (simp add: begin_merge_def attemptStands_def armed_config_def dependabotPRKey_eq Let_def)

lemma only_armed_ready_merged_witness:
  "set (amCalls (runAutoMerge limited_api 0 True (\<lambda>S. filter (\<lambda>k. k \<in> S) [pr_key armed_pr])
     (newEmptySnapshot\<lparr>snPullRequests := [armed_pr]\<rparr>) armed_config)) \<subseteq> {(''a'', ''b'', 3)}"
proof -
  have "set (filter (\<lambda>k. k \<in> S) [pr_key armed_pr]) \<subseteq> S" for S by auto
  from only_armed_ready_merged[OF this refl, of limited_api 0 True
      "newEmptySnapshot\<lparr>snPullRequests := [armed_pr]\<rparr>" armed_config]
  have "\<exists>new. amCalls (runAutoMerge limited_api 0 True (\<lambda>S. filter (\<lambda>k. k \<in> S) [pr_key armed_pr])
      (newEmptySnapshot\<lparr>snPullRequests := [armed_pr]\<rparr>) armed_config) = new \<and> (\<forall>x \<in> set new. call_of armed_pr x)"
    by (auto simp: armed_config_def)
  moreover have "call_of armed_pr x \<Longrightarrow> x = (''a'', ''b'', 3)" for x
    using armed_cut by (auto simp: call_of_def) (simp add: armed_pr_def)
  ultimately show ?thesis by blast
qed

text \<open>
  A refusal is not repeated on every refresh. After a pass asked the forge to merge a pull
  request, another pass on the same version of it asks again only if the first answer may clear by
  itself (a rate limit, an unreachable forge, a call cut off) and five minutes are over.
\<close>

definition transient :: "merge_answer \<Rightarrow> bool" where
  "transient a \<longleftrightarrow> (case a of MergeDone \<Rightarrow> False | MergeCutOff \<Rightarrow> True
     | MergeRefused e \<Rightarrow> arCode (mergeRefusal e) = ActionRateLimited \<or> isUnreachable e)"

lemma autoMergeNow_attempt:
  assumes "cut (prRepo pr) ''/'' = Some (owner, name)" "apCanMerge api" "begin_merge now pr c = Some c1"
  shows "amAttempts (autoMergeNow api now pr c) (pr_key pr) =
     Some (if transient (apMerge api owner name (prNumber pr)) then waitAttempt now pr else foreverAttempt pr)"
  using assms merging.begun[OF assms(3)]
  by (auto simp: autoMergeNow_def Let_def transient_def interrupted_def merge_failed_def recordMerged_def
      CancelAutoMerge_def dependabotPRKey_eq split: merge_answer.splits)

lemma autoMergeNow_asks_iff:
  assumes "cut (prRepo pr) ''/'' = Some (owner, name)" "apCanMerge api"
  shows "amCalls (autoMergeNow api now pr c) \<noteq> amCalls c \<longleftrightarrow> begin_merge now pr c \<noteq> None"
  using assms
  by (cases "begin_merge now pr c")
     (auto simp: autoMergeNow_def Let_def dest: begin_frame split: merge_answer.splits)

theorem no_repeated_merge:
  assumes "cut (prRepo pr) ''/'' = Some (owner, name)" "apCanMerge api" "apCanMerge api'"
    "autoMergeNow api now pr c = c1" "amCalls c1 \<noteq> amCalls c"
    "prRepo q = prRepo pr" "pr_key q = pr_key pr" "prUpdatedAt q = prUpdatedAt pr"
  shows "amCalls (autoMergeNow api' now' q c1) \<noteq> amCalls c1 \<longleftrightarrow>
     transient (apMerge api owner name (prNumber pr)) \<and> now + transientAutoMergeWait \<le> now'"
proof -
  obtain d where "begin_merge now pr c = Some d"
    using assms(1,2,4,5) autoMergeNow_asks_iff[OF assms(1,2)] by blast
  from autoMergeNow_attempt[OF assms(1,2) this]
  have at: "amAttempts c1 (pr_key pr) = Some (if transient (apMerge api owner name (prNumber pr))
      then waitAttempt now pr else foreverAttempt pr)" by (simp add: assms(4))
  have "cut (prRepo q) ''/'' = Some (owner, name)" using assms(1,6) by simp
  from autoMergeNow_asks_iff[OF this assms(3), of now' c1]
  show ?thesis
    using at assms(7,8) merging.once_per_state[of c1 pr q now'] merging.again_after_wait[of c1 pr now q now']
    by (auto split: if_splits)
qed

lemma no_repeated_merge_witness:
  "amCalls (autoMergeNow limited_api (4 * minute) armed_pr (autoMergeNow limited_api 0 armed_pr armed_config))
     = amCalls (autoMergeNow limited_api 0 armed_pr armed_config)"
proof -
  have "apCanMerge limited_api" by (simp add: limited_api_def)
  moreover have "amCalls (autoMergeNow limited_api 0 armed_pr armed_config) \<noteq> amCalls armed_config"
    using autoMergeNow_asks_iff[OF armed_cut calculation, of 0 armed_config] armed_begin by simp
  ultimately show ?thesis
    using no_repeated_merge[OF armed_cut _ _ refl _ refl refl refl, where api = limited_api and
        api' = limited_api and c = armed_config and now = 0 and now' = "4 * minute"]
    by (simp add: transientAutoMergeWait_def)
qed

text \<open>
  The row and the pass agree. An armed pull request is said to merge next, with no code, exactly
  when no refusal of this version stands and the pass's own test holds.
\<close>

theorem status_agrees_with_pass:
  assumes "prCI pr \<in> {CISuccess, CIFailure, CIPending, CINone}"
  shows "asCode (AutoMergeStatusOf pr failure) = None \<longleftrightarrow>
     (\<forall>f. failure = Some f \<longrightarrow> afUpdatedAt f \<noteq> prUpdatedAt pr) \<and> readyForAutoMerge pr"
proof -
  have "asCode (statusFromFields pr) = None \<longleftrightarrow> readyForAutoMerge pr"
    using assms by (auto simp: statusFromFields_def readyForAutoMerge_def)
  then show ?thesis by (cases failure) (auto simp: AutoMergeStatusOf_def)
qed

lemma status_agrees_with_pass_witness: "asCode (AutoMergeStatusOf armed_pr None) = None"
proof -
  have "prCI armed_pr \<in> {CISuccess, CIFailure, CIPending, CINone}" "readyForAutoMerge armed_pr"
    by (simp_all add: armed_pr_def readyForAutoMerge_def zero_pr_def)
  with status_agrees_with_pass[of armed_pr None] show ?thesis by simp
qed

text \<open>A first character of two bytes is not lowered but lost: its first byte becomes a replacement mark.\<close>

lemma lowerFirst_two_bytes:
  "lowerFirst ([CHR 0xC3, CHR 0x89] @ s) = [CHR 0xEF, CHR 0xBF, CHR 0xBD, CHR 0x89] @ s"
  by (simp add: lowerFirst_def)

end
