(* ===== verification/Rebase_Checkbox.thy ===== *)
theory Rebase_Checkbox
  imports Action_Refusal
begin

text \<open>
  \<open>renovate_rebase_checkbox.go\<close>: Renovate's rebase box in a pull request's description. The regular
  expression \<open>\[([ xX])\](\s*<!-- rebase-check -->)\<close> is the scan for the first place it matches; what
  follows the box is white space and then a fixed text, so there is one way to match at a place.
\<close>

datatype rebase_checkbox = RebaseCheckboxAbsent | RebaseCheckboxUnticked | RebaseCheckboxTicked

definition rebase_check :: string where
  "rebase_check = ''<!-- rebase-check -->''"

definition is_mark :: "char \<Rightarrow> bool" where
  "is_mark c \<longleftrightarrow> c = CHR '' '' \<or> c = CHR ''x'' \<or> c = CHR ''X''"

text \<open>Whether the expression matches at the start of \<open>s\<close>.\<close>

fun box_here :: "string \<Rightarrow> bool" where
  "box_here (a # m # b # r) \<longleftrightarrow> a = CHR ''['' \<and> is_mark m \<and> b = CHR '']'' \<and>
     has_prefix (dropWhile re_space r) rebase_check"
| "box_here _ \<longleftrightarrow> False"

text \<open>The first match: what stands before the mark, the mark, and what stands after it.\<close>

fun find_box :: "string \<Rightarrow> (string \<times> char \<times> string) option" where
  "find_box [] = None"
| "find_box (c # s) =
     (if box_here (c # s) then Some ([c], hd s, tl s)
      else map_option (\<lambda>(a, m, b). (c # a, m, b)) (find_box s))"

definition TickRebaseCheckbox :: "string \<Rightarrow> string \<times> rebase_checkbox" where
  "TickRebaseCheckbox body = (case find_box body of
       None \<Rightarrow> (body, RebaseCheckboxAbsent)
     | Some (a, m, b) \<Rightarrow>
         if m \<noteq> CHR '' '' then (body, RebaseCheckboxTicked)
         else (a @ CHR ''x'' # b, RebaseCheckboxUnticked))"

definition UntickRebaseCheckbox :: "string \<Rightarrow> string \<times> rebase_checkbox" where
  "UntickRebaseCheckbox body = (case find_box body of
       None \<Rightarrow> (body, RebaseCheckboxAbsent)
     | Some (a, m, b) \<Rightarrow>
         if m = CHR '' '' then (body, RebaseCheckboxUnticked)
         else (a @ CHR '' '' # b, RebaseCheckboxTicked))"

definition RebaseCheckboxOf :: "string \<Rightarrow> rebase_checkbox" where
  "RebaseCheckboxOf body = snd (TickRebaseCheckbox body)"

section \<open>Asking and cancelling\<close>

datatype renovate_rebase_outcome = RenovateRebaseTicked | RenovateRebaseLabeled
  | RenovateRebaseAlreadyRequested

text \<open>
  What the forge does for one pull request: its description, if the source can edit one, whether it
  stores a new one, and whether it adds a label. An error is what the call returns.
\<close>

record body_api =
  baEditor :: bool
  baBody :: "go_error + string"
  baSet :: "string \<Rightarrow> go_error option"
  baLabel :: "string \<Rightarrow> go_error option"

text \<open>The outcome, the error, and the description written to the forge, if one was.\<close>

definition RequestRenovateRebase ::
  "body_api \<Rightarrow> string \<Rightarrow> renovate_rebase_outcome \<times> go_error option \<times> string option" where
  "RequestRenovateRebase api label =
     (if baEditor api then (case baBody api of
          Inl e \<Rightarrow> (RenovateRebaseTicked, Some e, None)
        | Inr body \<Rightarrow> (case TickRebaseCheckbox body of
              (ticked, RebaseCheckboxTicked) \<Rightarrow> (RenovateRebaseAlreadyRequested, None, None)
            | (ticked, RebaseCheckboxUnticked) \<Rightarrow> (RenovateRebaseTicked, baSet api ticked, Some ticked)
            | (ticked, RebaseCheckboxAbsent) \<Rightarrow> (RenovateRebaseLabeled, baLabel api label, None)))
      else (RenovateRebaseLabeled, baLabel api label, None))"

definition CancelRenovateRebase :: "body_api \<Rightarrow> go_error option \<times> string option" where
  "CancelRenovateRebase api = (case baBody api of
       Inl e \<Rightarrow> (Some e, None)
     | Inr body \<Rightarrow> (let (cleared, state) = UntickRebaseCheckbox body in
         if state \<noteq> RebaseCheckboxTicked then (None, None) else (baSet api cleared, Some cleared)))"

section \<open>The scan and the mark\<close>

lemma has_prefix_stop:
  "c \<notin> set p \<Longrightarrow> has_prefix (w @ c # t) p \<longleftrightarrow> has_prefix w p"
proof
  assume c: "c \<notin> set p" and "has_prefix (w @ c # t) p"
  then obtain r where r: "w @ c # t = p @ r" by (auto simp: has_prefix_iff)
  then consider us where "w = p @ us" | us where "p = w @ c # us"
    by (auto simp: append_eq_append_conv2 append_eq_Cons_conv Cons_eq_append_conv)
  then show "has_prefix w p" using c by cases auto
next
  assume "has_prefix w p"
  then show "has_prefix (w @ c # t) p" by (auto simp: has_prefix_iff)
qed

lemma box_here_bracket: "\<not> box_here (v # CHR ''['' # t)"
  by (cases t) (simp_all add: is_mark_def)

text \<open>No match reaches across an opening bracket.\<close>

lemma box_here_stop: "u \<noteq> [] \<Longrightarrow> box_here (u @ CHR ''['' # t) \<longleftrightarrow> box_here u"
proof (cases u rule: box_here.cases)
  case (1 a m b r)
  have "dropWhile re_space (r @ CHR ''['' # t) = dropWhile re_space r @ CHR ''['' # t"
    by (induction r) (auto simp: re_space_def)
  moreover have "CHR ''['' \<notin> set rebase_check" by (simp add: rebase_check_def)
  ultimately show ?thesis using 1 by (simp add: has_prefix_stop)
qed (auto simp: is_mark_def box_here_bracket)

lemma find_box_split:
  "find_box s = Some (a, m, b) \<Longrightarrow>
     s = a @ m # b \<and> is_mark m \<and> (\<exists>u. a = u @ [CHR ''['']) \<and> (\<forall>m'. is_mark m' \<longrightarrow> box_here (CHR ''['' # m' # b))"
proof (induction s arbitrary: a)
  case (Cons c s)
  show ?case
  proof (cases "box_here (c # s)")
    case True
    with Cons.prems show ?thesis by (cases "c # s" rule: box_here.cases) auto
  next
    case False
    with Cons.prems obtain a' where a': "find_box s = Some (a', m, b)" "a = c # a'" by auto
    from Cons.IH[OF a'(1)] obtain u where "a' = u @ [CHR ''['']" by blast
    then have "a = (c # u) @ [CHR ''['']" using a'(2) by simp
    with Cons.IH[OF a'(1)] a'(2) show ?thesis by (metis append_Cons)
  qed
qed simp

lemma find_box_mark:
  "find_box s = Some (a, m, b) \<Longrightarrow> is_mark m' \<Longrightarrow> find_box (a @ m' # b) = Some (a, m', b)"
proof (induction s arbitrary: a)
  case (Cons c s)
  show ?case
  proof (cases "box_here (c # s)")
    case True
    with Cons.prems have "a = [CHR ''['']"
      by (cases "c # s" rule: box_here.cases) auto
    with find_box_split[OF Cons.prems(1)] Cons.prems(2) show ?thesis by auto
  next
    case False
    with Cons.prems obtain a' where a': "find_box s = Some (a', m, b)" "a = c # a'" by auto
    from find_box_split[OF a'(1)] obtain u where u: "a' = u @ [CHR ''['']" "s = a' @ m # b" by blast
    have "box_here (c # a' @ m' # b) \<longleftrightarrow> box_here (c # s)"
      using box_here_stop[of "c # u" "m' # b"] box_here_stop[of "c # u" "m # b"] u by simp
    with False Cons.IH[OF a'(1) Cons.prems(2)] a'(2) show ?thesis by simp
  qed
qed simp

lemma marks [simp]: "is_mark (CHR ''x'')" "is_mark (CHR '' '')"
  by (simp_all add: is_mark_def)

text \<open>The box of a body: the first place where the expression matches, its mark one byte further.\<close>

definition first_box :: "string \<Rightarrow> nat \<Rightarrow> bool" where
  "first_box body k \<longleftrightarrow> box_here (drop k body) \<and> (\<forall>j<k. \<not> box_here (drop j body))"

lemma find_box_None: "find_box s = None \<longleftrightarrow> (\<forall>k. \<not> box_here (drop k s))"
proof (induction s)
  case (Cons c s)
  have "(\<forall>k. \<not> box_here (drop k (c # s))) \<longleftrightarrow> \<not> box_here (c # s) \<and> (\<forall>k. \<not> box_here (drop k s))"
    by (metis drop0 drop_Suc_Cons not0_implies_Suc)
  with Cons show ?case by simp
qed simp

lemma find_box_first: "find_box s = Some (a, m, b) \<Longrightarrow> \<exists>k. length a = Suc k \<and> first_box s k"
proof (induction s arbitrary: a)
  case (Cons c s)
  show ?case
  proof (cases "box_here (c # s)")
    case True
    with Cons.prems show ?thesis by (auto simp: first_box_def)
  next
    case False
    with Cons.prems obtain a' where a': "find_box s = Some (a', m, b)" "a = c # a'" by auto
    from Cons.IH[OF a'(1)] obtain k where "length a' = Suc k" "first_box s k" by blast
    then show ?thesis using False a'(2)
      by (intro exI[of _ "Suc k"]) (auto simp: first_box_def drop_Cons split: nat.splits)
  qed
qed simp

text \<open>
  C16: Ticking and clearing act on the first rebase-check box of a body and on nothing else, and undo each
  other. With no box both return the body as it was. An open box: ticking changes its mark, and only that byte, to an x,
  clearing leaves the body alone, and clearing the ticked body gives the very body back. A ticked box: clearing changes
  its mark to a blank, ticking leaves the body alone, and ticking the cleared body puts the mark back as an x.
\<close>

theorem tick_untick:
  "case RebaseCheckboxOf body of
     RebaseCheckboxAbsent \<Rightarrow> (\<forall>k. \<not> box_here (drop k body)) \<and>
       TickRebaseCheckbox body = (body, RebaseCheckboxAbsent) \<and> UntickRebaseCheckbox body = (body, RebaseCheckboxAbsent)
   | RebaseCheckboxUnticked \<Rightarrow> (\<exists>k. first_box body k \<and> body ! Suc k = CHR '' '' \<and>
       TickRebaseCheckbox body = (body[Suc k := CHR ''x''], RebaseCheckboxUnticked) \<and>
       UntickRebaseCheckbox body = (body, RebaseCheckboxUnticked) \<and>
       RebaseCheckboxOf (body[Suc k := CHR ''x'']) = RebaseCheckboxTicked \<and>
       UntickRebaseCheckbox (body[Suc k := CHR ''x'']) = (body, RebaseCheckboxTicked))
   | RebaseCheckboxTicked \<Rightarrow> (\<exists>k. first_box body k \<and> body ! Suc k \<in> {CHR ''x'', CHR ''X''} \<and>
       TickRebaseCheckbox body = (body, RebaseCheckboxTicked) \<and>
       UntickRebaseCheckbox body = (body[Suc k := CHR '' ''], RebaseCheckboxTicked) \<and>
       RebaseCheckboxOf (body[Suc k := CHR '' '']) = RebaseCheckboxUnticked \<and>
       TickRebaseCheckbox (body[Suc k := CHR '' '']) = (body[Suc k := CHR ''x''], RebaseCheckboxUnticked))"
proof (cases "find_box body")
  case None
  then show ?thesis
    by (simp add: TickRebaseCheckbox_def UntickRebaseCheckbox_def RebaseCheckboxOf_def find_box_None[symmetric])
next
  case (Some x)
  then obtain a m b where f: "find_box body = Some (a, m, b)" by (cases x) auto
  obtain k where k: "length a = Suc k" "first_box body k" using find_box_first[OF f] by blast
  have body: "body = a @ m # b" and mark: "is_mark m" using find_box_split[OF f] by blast+
  have at: "body ! Suc k = m" "body[Suc k := c] = a @ c # b" for c
    using body k(1) by (metis nth_append_length, metis list_update_length)
  show ?thesis
  proof (cases "m = CHR '' ''")
    case True
    have "RebaseCheckboxOf body = RebaseCheckboxUnticked" using f True by (simp add: RebaseCheckboxOf_def TickRebaseCheckbox_def)
    moreover have "TickRebaseCheckbox body = (a @ CHR ''x'' # b, RebaseCheckboxUnticked)"
      "UntickRebaseCheckbox body = (body, RebaseCheckboxUnticked)"
      using f True by (simp_all add: TickRebaseCheckbox_def UntickRebaseCheckbox_def)
    moreover have "RebaseCheckboxOf (a @ CHR ''x'' # b) = RebaseCheckboxTicked"
      "UntickRebaseCheckbox (a @ CHR ''x'' # b) = (body, RebaseCheckboxTicked)"
      using find_box_mark[OF f, of "CHR ''x''"] body True
      by (simp_all add: RebaseCheckboxOf_def TickRebaseCheckbox_def UntickRebaseCheckbox_def)
    ultimately show ?thesis using k(2) at True by (simp only: rebase_checkbox.case) (intro exI[of _ k], simp)
  next
    case False
    have "RebaseCheckboxOf body = RebaseCheckboxTicked" using f False by (simp add: RebaseCheckboxOf_def TickRebaseCheckbox_def)
    moreover have "TickRebaseCheckbox body = (body, RebaseCheckboxTicked)"
      "UntickRebaseCheckbox body = (a @ CHR '' '' # b, RebaseCheckboxTicked)"
      using f False by (simp_all add: TickRebaseCheckbox_def UntickRebaseCheckbox_def)
    moreover have "RebaseCheckboxOf (a @ CHR '' '' # b) = RebaseCheckboxUnticked"
      "TickRebaseCheckbox (a @ CHR '' '' # b) = (a @ CHR ''x'' # b, RebaseCheckboxUnticked)"
      using find_box_mark[OF f, of "CHR '' ''"] by (simp_all add: RebaseCheckboxOf_def TickRebaseCheckbox_def)
    moreover have "m \<in> {CHR ''x'', CHR ''X''}" using mark False by (auto simp: is_mark_def)
    ultimately show ?thesis using k(2) at by (simp only: rebase_checkbox.case) (intro exI[of _ k], simp)
  qed
qed

lemma tick_untick_witness:
  "fst (TickRebaseCheckbox ''see [x] - [ ] <!-- rebase-check -->If'') = ''see [x] - [x] <!-- rebase-check -->If'' \<and>
   UntickRebaseCheckbox ''see [x] - [x] <!-- rebase-check -->If'' =
     (''see [x] - [ ] <!-- rebase-check -->If'', RebaseCheckboxTicked)"
proof -
  let ?b = "''see [x] - [ ] <!-- rebase-check -->If''"
  have t: "TickRebaseCheckbox ?b = (''see [x] - [x] <!-- rebase-check -->If'', RebaseCheckboxUnticked)"
    by code_simp
  then have s: "RebaseCheckboxOf ?b = RebaseCheckboxUnticked" by (simp add: RebaseCheckboxOf_def)
  obtain k where k: "TickRebaseCheckbox ?b = (?b[Suc k := CHR ''x''], RebaseCheckboxUnticked)"
    "UntickRebaseCheckbox (?b[Suc k := CHR ''x'']) = (?b, RebaseCheckboxTicked)"
    using tick_untick[of ?b] unfolding s rebase_checkbox.case by blast
  have "?b[Suc k := CHR ''x''] = ''see [x] - [x] <!-- rebase-check -->If''" using k(1) unfolding t prod.inject by (rule conjunct1[THEN sym])
  with k(2) t show ?thesis by (simp only: fst_conv simp_thms)
qed

end
