(* ===== verification/Queued_Actions.thy ===== *)
theory Queued_Actions
  imports Rebase_Checkbox Bot_Requests Refresh_Schedule
begin

text \<open>
  Actions put off until a forge's rate limit resets: \<open>queued_action.go\<close> and
  \<open>queued_runner.go\<close> of the dashboard, and the table of \<open>internal/settings/queued_action.go\<close>
  and \<open>queued_action_outcome.go\<close> they keep. One pass runs at one time \<open>now\<close> (the code reads its
  clock again at each step). What the forges answer and whether the database saves a row are
  parameters. Every write asked of a forge is kept in a trace, newest first.
\<close>

datatype queued_status = QueuedWaiting | QueuedDone | QueuedSkipped | QueuedFailed

record queued_action =
  qaID :: string
  qaAction :: action_name
  qaForge :: forge
  qaRepo :: string
  qaNumber :: int
  qaStatus :: queued_status
  qaRunAt :: time
  qaCreatedAt :: time
  qaFinishedAt :: "time option"
  qaCode :: "action_code option"
  qaMessage :: string

definition QueueableAction :: "action_name \<Rightarrow> bool" where
  "QueueableAction a \<longleftrightarrow> a = ActionUpdateBranch \<or> a = ActionDependabotRebase \<or> a = ActionRenovateRebase"

definition laterReset :: "time \<Rightarrow> rate_limit option \<Rightarrow> time \<Rightarrow> time" where
  "laterReset now rl until = (case rl of None \<Rightarrow> until
     | Some r \<Rightarrow> if rlLimit r > 0 \<and> rlRemaining r = 0 \<and> rlResetsAt r > now \<and> rlResetsAt r > until
                then rlResetsAt r else until)"

definition RateLimitedUntil :: "snapshot \<Rightarrow> forge \<Rightarrow> time \<Rightarrow> time \<times> bool" where
  "RateLimitedUntil snap forge now =
     (let until = fold (\<lambda>h u. if fhForge h \<noteq> forge then u
            else fold (laterReset now) [fhRateLimitGraphQL h, fhRateLimitREST h] u)
          (snForges snap) zero_time
      in (until, until \<noteq> zero_time))"

section \<open>The table\<close>

definition same_target :: "queued_action \<Rightarrow> queued_action \<Rightarrow> bool" where
  "same_target q r \<longleftrightarrow> qaAction q = qaAction r \<and> qaForge q = qaForge r \<and> qaRepo q = qaRepo r
     \<and> qaNumber q = qaNumber r"

text \<open>The row, and whether it is new. \<open>newid\<close> is the random id the store draws.\<close>

definition EnqueueQueuedAction :: "string \<Rightarrow> queued_action \<Rightarrow> queued_action list \<Rightarrow>
    (queued_action \<times> bool) \<times> queued_action list" where
  "EnqueueQueuedAction newid q rows =
     (case find (\<lambda>r. same_target r q \<and> qaStatus r = QueuedWaiting) rows of
        Some r \<Rightarrow> ((r, False), rows)
      | None \<Rightarrow> (let q' = q\<lparr>qaID := newid, qaStatus := QueuedWaiting\<rparr> in
          ((q', True), rows @ [q'\<lparr>qaFinishedAt := None, qaCode := None, qaMessage := ''''\<rparr>])))"

definition CancelQueuedAction :: "string \<Rightarrow> queued_action list \<Rightarrow> bool \<times> queued_action list" where
  "CancelQueuedAction i rows = (list_ex (\<lambda>r. qaID r = i) rows, filter (\<lambda>r. qaID r \<noteq> i) rows)"

definition UpdateQueuedAction :: "queued_action \<Rightarrow> queued_action list \<Rightarrow> bool \<times> queued_action list" where
  "UpdateQueuedAction q rows =
     (list_ex (\<lambda>r. qaID r = qaID q \<and> qaStatus r = QueuedWaiting) rows,
      map (\<lambda>r. if qaID r = qaID q \<and> qaStatus r = QueuedWaiting
             then r\<lparr>qaStatus := qaStatus q, qaRunAt := qaRunAt q, qaFinishedAt := qaFinishedAt q,
                    qaCode := qaCode q, qaMessage := qaMessage q\<rparr>
             else r) rows)"

definition PruneQueuedActions :: "time \<Rightarrow> queued_action list \<Rightarrow> queued_action list" where
  "PruneQueuedActions cutoff rows = filter (\<lambda>r. \<not> (qaStatus r \<noteq> QueuedWaiting \<and>
     (case qaFinishedAt r of None \<Rightarrow> False | Some t \<Rightarrow> t < cutoff))) rows"

text \<open>\<open>ORDER BY created_at, id\<close>, ids compared byte by byte.\<close>

fun bytes_le :: "string \<Rightarrow> string \<Rightarrow> bool" where
  "bytes_le [] _ = True"
| "bytes_le (_ # _) [] = False"
| "bytes_le (a # s) (b # t) = ((of_char a :: nat) < of_char b \<or> a = b \<and> bytes_le s t)"

definition row_le :: "queued_action \<Rightarrow> queued_action \<Rightarrow> bool" where
  "row_le q r \<longleftrightarrow> qaCreatedAt q < qaCreatedAt r \<or> qaCreatedAt q = qaCreatedAt r \<and> bytes_le (qaID q) (qaID r)"

fun insert_row :: "queued_action \<Rightarrow> queued_action list \<Rightarrow> queued_action list" where
  "insert_row q [] = [q]"
| "insert_row q (r # rs) = (if row_le q r then q # r # rs else r # insert_row q rs)"

definition QueuedActions :: "queued_action list \<Rightarrow> queued_action list" where
  "QueuedActions rows = foldr insert_row rows []"

section \<open>Planning\<close>

definition queuedFinishedKeep :: duration where "queuedFinishedKeep = 24 * hour"
definition queuedUnreachableRetry :: duration where "queuedUnreachableRetry = 5 * minute"
definition queuedUnreachableGiveUp :: duration where "queuedUnreachableGiveUp = hour"
definition queuedMinWait :: duration where "queuedMinWait = second"

lemmas queued_waits = queuedFinishedKeep_def queuedUnreachableRetry_def queuedUnreachableGiveUp_def
  queuedMinWait_def

text \<open>A queue that could not be read (\<open>None\<close>) is looked at again in a minute.\<close>

definition untilNextQueued :: "duration \<Rightarrow> time \<Rightarrow> queued_action list option \<Rightarrow> duration" where
  "untilNextQueued buffer now items = (case items of None \<Rightarrow> minute
     | Some qs \<Rightarrow> max (fold (\<lambda>q wait. if qaStatus q = QueuedWaiting
            then min wait (time_sub (qaRunAt q + buffer) now) else wait) qs (24 * hour))
          queuedMinWait)"

definition dueQueued :: "duration \<Rightarrow> time \<Rightarrow> queued_action list \<Rightarrow> queued_action list" where
  "dueQueued buffer now items =
     filter (\<lambda>q. qaStatus q = QueuedWaiting \<and> \<not> now < qaRunAt q + buffer) items"

section \<open>Running one action\<close>

text \<open>
  What a forge is asked to write. \<open>AskedRebase\<close> stands for a whole call of \<open>RequestRenovateRebase\<close> and is
  what the pass of \<open>Auto_Update\<close> records; the queue records the description or the label such a call writes.
\<close>

datatype forge_write = WroteUpdate forge string string int
  | WroteComment forge string string int string
  | WroteBody forge string string int string
  | AddedLabel forge string string int string
  | AskedRebase forge string string int string

record queued_env =
  qeSource :: "forge \<Rightarrow> bool"
  qeUpdater :: "forge \<Rightarrow> bool"
  qeUpdate :: "forge \<Rightarrow> string \<Rightarrow> string \<Rightarrow> int \<Rightarrow> go_error option"
  qeCommenter :: "forge \<Rightarrow> bool"
  qeComment :: "forge \<Rightarrow> string \<Rightarrow> string \<Rightarrow> int \<Rightarrow> string \<Rightarrow> go_error option"
  qeLabeler :: "forge \<Rightarrow> bool"
  qeBody :: "forge \<Rightarrow> string \<Rightarrow> string \<Rightarrow> int \<Rightarrow> body_api"
  qeSaves :: "string \<Rightarrow> bool"   \<comment> \<open>whether the row of this id saves without an error\<close>

record queued_world =
  qwRows :: "queued_action list"
  qwBots :: bot_state
  qwSnap :: snapshot
  qwWrites :: "forge_write list"

record queued_run =
  qrSnap :: snapshot
  qrLabel :: string
  qrAuthors :: "string list"

definition save_row :: "queued_env \<Rightarrow> queued_action \<Rightarrow> queued_world \<Rightarrow> queued_world" where
  "save_row env q w = (if qeSaves env (qaID q)
     then w\<lparr>qwRows := snd (UpdateQueuedAction q (qwRows w))\<rparr> else w)"

definition rescheduleQueued :: "queued_env \<Rightarrow> queued_action \<Rightarrow> time \<Rightarrow> queued_world \<Rightarrow> queued_world" where
  "rescheduleQueued env q runAt w = save_row env (q\<lparr>qaRunAt := runAt\<rparr>) w"

definition finishQueued :: "queued_env \<Rightarrow> time \<Rightarrow> queued_action \<Rightarrow> queued_status \<Rightarrow> action_code option \<Rightarrow>
    string \<Rightarrow> queued_world \<Rightarrow> queued_world" where
  "finishQueued env now q status code message w =
     save_row env (q\<lparr>qaStatus := status, qaFinishedAt := Some now, qaCode := code, qaMessage := message\<rparr>) w"

definition retryUnreachableQueued :: "queued_env \<Rightarrow> time \<Rightarrow> queued_action \<Rightarrow> queued_world \<Rightarrow> queued_world" where
  "retryUnreachableQueued env now q w =
     (if time_sub now (qaRunAt q) \<ge> queuedUnreachableGiveUp
      then finishQueued env now q QueuedFailed (Some ActionUnknown)
             ''The forge didn't answer. Try again in a moment.'' w
      else rescheduleQueued env q (now + queuedUnreachableRetry) w)"

definition refusedQueued :: "queued_env \<Rightarrow> time \<Rightarrow> queued_action \<Rightarrow> pull_request_action \<Rightarrow> go_error \<Rightarrow>
    queued_world \<Rightarrow> queued_world" where
  "refusedQueued env now q action e w =
     (let r = ClassifyActionRefusalFor action e None in
      if arCode r = ActionRateLimited
      then rescheduleQueued env q (case arResetsAt r of
             Some t \<Rightarrow> if t > now then t else now + queuedUnreachableRetry
           | None \<Rightarrow> now + queuedUnreachableRetry) w
      else finishQueued env now q QueuedFailed (Some (arCode r)) (arMessage r) w)"

text \<open>The board: the requests' registries and the rows of the snapshot, changed together.\<close>

definition on_board :: "(bot_state \<times> pull_request list \<Rightarrow> bot_state \<times> pull_request list) \<Rightarrow>
    queued_world \<Rightarrow> queued_world" where
  "on_board f w = (let (st, prs) = f (qwBots w, snPullRequests (qwSnap w)) in
     w\<lparr>qwBots := st, qwSnap := (qwSnap w)\<lparr>snPullRequests := prs\<rparr>\<rparr>)"

definition NoteRenovateRebase :: "time \<Rightarrow> nat \<Rightarrow> forge \<Rightarrow> string \<Rightarrow> int \<Rightarrow> renovate_rebase_outcome \<Rightarrow>
    queued_world \<Rightarrow> queued_world" where
  "NoteRenovateRebase now seq f r n outcome = (case outcome of
       RenovateRebaseTicked \<Rightarrow> on_board (RecordRenovateRebase now seq f r n)
     | RenovateRebaseAlreadyRequested \<Rightarrow> on_board (SetRenovateRebaseBox seq f r n True)
     | RenovateRebaseLabeled \<Rightarrow> on_board (RecordBotRequest now seq f r n BotRenovate BotRebase))"

definition recordQueuedRequest :: "time \<Rightarrow> nat \<Rightarrow> queued_action \<Rightarrow> renovate_rebase_outcome \<Rightarrow>
    queued_world \<Rightarrow> queued_world" where
  "recordQueuedRequest now seq q outcome =
     (if qaAction q = ActionUpdateBranch
        then on_board (RecordUpdateRequest now seq (qaForge q) (qaRepo q) (qaNumber q))
      else if qaAction q = ActionDependabotRebase
        then on_board (RecordBotRequest now seq (qaForge q) (qaRepo q) (qaNumber q) BotDependabot BotRebase)
      else if qaAction q = ActionRenovateRebase
        then NoteRenovateRebase now seq (qaForge q) (qaRepo q) (qaNumber q) outcome
      else id)"

definition note_write :: "forge_write \<Rightarrow> queued_world \<Rightarrow> queued_world" where
  "note_write x w = w\<lparr>qwWrites := x # qwWrites w\<rparr>"

text \<open>What \<open>RequestRenovateRebase\<close> wrote on the way to its outcome: the ticked description, the label, or nothing.\<close>

definition rebase_wrote :: "forge \<Rightarrow> string \<Rightarrow> string \<Rightarrow> int \<Rightarrow> string \<Rightarrow> renovate_rebase_outcome \<Rightarrow> string option \<Rightarrow>
    forge_write list" where
  "rebase_wrote f owner name n label outcome written = (case written of
       Some body \<Rightarrow> [WroteBody f owner name n body]
     | None \<Rightarrow> if outcome = RenovateRebaseLabeled then [AddedLabel f owner name n label] else [])"

text \<open>The end of \<open>performQueued\<close>: what the answer of the call makes of the action.\<close>

definition settleQueued :: "queued_env \<Rightarrow> time \<Rightarrow> nat \<Rightarrow> queued_action \<Rightarrow> pull_request_action \<Rightarrow>
    go_error option \<Rightarrow> renovate_rebase_outcome \<Rightarrow> queued_world \<Rightarrow> queued_world" where
  "settleQueued env now seq q refusedAs e outcome w = (case e of
       Some err \<Rightarrow> refusedQueued env now q refusedAs err w
     | None \<Rightarrow>
         if outcome = RenovateRebaseAlreadyRequested
         then finishQueued env now q QueuedSkipped (Some ActionAlreadyRequested)
                ''A Renovate rebase is already requested on this pull request.''
                (NoteRenovateRebase now seq (qaForge q) (qaRepo q) (qaNumber q) outcome w)
         else finishQueued env now q QueuedDone None ''''
                (recordQueuedRequest now seq q outcome w))"

definition performQueued :: "queued_env \<Rightarrow> time \<Rightarrow> nat \<Rightarrow> queued_run \<Rightarrow> queued_action \<Rightarrow>
    queued_world \<Rightarrow> queued_world" where
  "performQueued env now seq run q w =
     (let f = qaForge q; n = qaNumber q;
          (owner, name) = (case cut (qaRepo q) ''/'' of Some p \<Rightarrow> p | None \<Rightarrow> (qaRepo q, ''''))
      in if qaAction q = ActionUpdateBranch then
           if \<not> qeUpdater env f
           then finishQueued env now q QueuedFailed (Some ActionUnknown)
                  ''This forge can't update pull request branches from here.'' w
           else settleQueued env now seq q PullRequestActionUpdateBranch (qeUpdate env f owner name n)
                  RenovateRebaseTicked (note_write (WroteUpdate f owner name n) w)
         else if qaAction q = ActionDependabotRebase then
           if \<not> qeCommenter env f
           then finishQueued env now q QueuedFailed (Some ActionUnknown)
                  ''This forge can't send Dependabot commands from here.'' w
           else settleQueued env now seq q PullRequestActionDependabot
                  (qeComment env f owner name n DependabotRebaseComment)
                  RenovateRebaseTicked (note_write (WroteComment f owner name n DependabotRebaseComment) w)
         else if qaAction q = ActionRenovateRebase then
           if \<not> qeLabeler env f
           then finishQueued env now q QueuedFailed (Some ActionUnknown)
                  ''This forge can't label pull requests from here.'' w
           else (let (outcome, e, written) = RequestRenovateRebase (qeBody env f owner name n) (qrLabel run)
                 in settleQueued env now seq q PullRequestActionRenovateRebase e outcome
                      (fold note_write (rebase_wrote f owner name n (qrLabel run) outcome written) w))
         else finishQueued env now q QueuedDone None '''' w)"

fun offeredReason :: "action_name \<Rightarrow> action_availability list \<Rightarrow> (action_code \<times> string) option" where
  "offeredReason a [] = Some (ActionNotMergeable, ''This action no longer applies to the pull request.'')"
| "offeredReason a (o' # os) =
     (if aaAction o' \<noteq> a then offeredReason a os
      else map_option (\<lambda>b. (blCode b, blMessage b)) (aaBlocked o'))"

text \<open>\<open>None\<close> is the empty code: the action still applies.\<close>

definition queuedSkipReason :: "queued_action \<Rightarrow> pull_request \<Rightarrow> string list \<Rightarrow>
    (action_code \<times> string) option" where
  "queuedSkipReason q pr authors =
     (let who = (qaAction q \<noteq> ActionUpdateBranch)
      in if \<not> prBehind pr \<and> who
           then Some (ActionAlreadyUpToDate, ''The pull request is no longer behind, so the bot already rebased it.'')
         else if \<not> prBehind pr
           then Some (ActionAlreadyUpToDate, ''Already up to date with the base branch.'')
         else if qaAction q = ActionUpdateBranch \<and> prMergeStatus pr = MergeConflicting
           then Some (ActionConflict, ''Conflicts need fixing by hand. Resolve them on the forge.'')
         else if who \<and> prBotRequest pr \<noteq> None \<or> \<not> who \<and> prUpdateRequest pr \<noteq> None
             \<or> qaAction q = ActionRenovateRebase \<and> prRenovateRebaseRequested pr
           then Some (ActionAlreadyRequested, ''This was already requested on the pull request.'')
         else offeredReason (qaAction q) (AllowedActions pr authors))"

definition findPR :: "snapshot \<Rightarrow> queued_action \<Rightarrow> pull_request option" where
  "findPR snap q = find (\<lambda>pr. prForge pr = qaForge q \<and> prRepo pr = qaRepo q \<and> prNumber pr = qaNumber q)
     (snPullRequests snap)"

definition runQueued :: "queued_env \<Rightarrow> time \<Rightarrow> nat \<Rightarrow> queued_run \<Rightarrow> queued_action \<Rightarrow>
    queued_world \<Rightarrow> queued_world" where
  "runQueued env now seq run q w =
     (let (until, limited) = RateLimitedUntil (qrSnap run) (qaForge q) now
      in if limited then rescheduleQueued env q until w
         else (case (if qeSource env (qaForge q) then healthOf (qrSnap run) (qaForge q) else None) of
           None \<Rightarrow> finishQueued env now q QueuedSkipped (Some ActionPermission)
              ''No credentials for this forge are saved any more, so nothing was run.'' w
         | Some health \<Rightarrow>
             if \<not> fhReachable health then retryUnreachableQueued env now q w
             else if \<not> QueueableAction (qaAction q)
               then finishQueued env now q QueuedFailed (Some ActionNotMergeable)
                      ''This action can't be queued.'' w
             else (case findPR (qrSnap run) q of
                 None \<Rightarrow> finishQueued env now q QueuedSkipped (Some ActionNotOpen) ''Already merged or closed.'' w
               | Some pr \<Rightarrow> (case queuedSkipReason q pr (qrAuthors run) of
                     Some (code, message) \<Rightarrow> finishQueued env now q QueuedSkipped (Some code) message w
                   | None \<Rightarrow> performQueued env now seq run q w))))"

text \<open>
  One pass. \<open>load\<close> says whether the queue can be read at all (the first time, and again after the
  refresh), \<open>pruned\<close> whether the pruning succeeds, \<open>refresh\<close> is everything that happens until the
  refreshed board is there: a new snapshot, and whatever users do to the queue meanwhile.
\<close>

definition ProcessQueuedActions :: "queued_env \<Rightarrow> bool \<times> bool \<Rightarrow> bool \<Rightarrow>
    (queued_world \<Rightarrow> queued_world) \<Rightarrow> duration \<Rightarrow> time \<Rightarrow> nat \<Rightarrow> string \<Rightarrow> string list \<Rightarrow>
    queued_world \<Rightarrow> queued_world" where
  "ProcessQueuedActions env load pruned refresh buffer now seq label authors w =
     (if \<not> fst load then w
      else let items = QueuedActions (qwRows w);
               w1 = (if pruned then w\<lparr>qwRows := PruneQueuedActions (now - queuedFinishedKeep) (qwRows w)\<rparr> else w)
           in if dueQueued buffer now items = [] then w1
              else let w2 = refresh w1
                   in if \<not> snd load then w2
                      else fold (runQueued env now seq \<lparr>qrSnap = qwSnap w2, qrLabel = label, qrAuthors = authors\<rparr>)
                             (dueQueued buffer now (QueuedActions (qwRows w2))) w2)"

section \<open>What a run does to the table\<close>

lemma UpdateQueuedAction_ids [simp]: "map qaID (snd (UpdateQueuedAction q rows)) = map qaID rows"
  by (auto simp: UpdateQueuedAction_def)

text \<open>What may be written back for a due action: a final outcome, or a later time to look again.\<close>

definition decided :: "time \<Rightarrow> queued_action \<Rightarrow> queued_action \<Rightarrow> bool" where
  "decided now q q' \<longleftrightarrow> qaID q' = qaID q \<and>
     (qaStatus q' \<noteq> QueuedWaiting \<and> qaFinishedAt q' = Some now \<or>
      qaStatus q' = qaStatus q \<and> qaFinishedAt q' = qaFinishedAt q \<and> qaRunAt q' > now)"

definition saves :: "queued_env \<Rightarrow> (queued_action \<Rightarrow> bool) \<Rightarrow> queued_action \<Rightarrow> queued_world \<Rightarrow> queued_world \<Rightarrow> bool" where
  "saves env P q w w' \<longleftrightarrow> (\<exists>q'. P q' \<and>
     qwRows w' = (if qeSaves env (qaID q) then snd (UpdateQueuedAction q' (qwRows w)) else qwRows w))"

lemma save_row_saves: "P q' \<Longrightarrow> qaID q' = qaID q \<Longrightarrow> saves env P q w (save_row env q' w)"
  by (auto simp: saves_def save_row_def)

lemma saves_frame: "qwRows v = qwRows w \<Longrightarrow> saves env P q v w' \<Longrightarrow> saves env P q w w'"
  by (simp only: saves_def)

lemma finish_saves: "st \<noteq> QueuedWaiting \<Longrightarrow> saves env (decided now q) q w (finishQueued env now q st c m w)"
  unfolding finishQueued_def by (rule save_row_saves) (simp_all add: decided_def)

lemma reschedule_saves: "t > now \<Longrightarrow> saves env (decided now q) q w (rescheduleQueued env q t w)"
  unfolding rescheduleQueued_def by (rule save_row_saves) (simp_all add: decided_def)

lemma note_rows [simp]: "qwRows (note_write x w) = qwRows w" "qwRows (on_board f w) = qwRows w"
  "qwRows (NoteRenovateRebase now seq f' r n out w) = qwRows w"
  "qwRows (recordQueuedRequest now seq q out w) = qwRows w"
  by (auto simp: note_write_def on_board_def NoteRenovateRebase_def recordQueuedRequest_def
      split: prod.splits renovate_rebase_outcome.splits)

lemma noted_rows [simp]: "qwRows (fold note_write xs w) = qwRows w"
  by (induction xs arbitrary: w) simp_all

lemma settle_saves: "saves env (decided now q) q w (settleQueued env now seq q a e out w)"
proof (cases e)
  case None
  have "saves env (decided now q) q w (finishQueued env now q st c m v)"
    if "st \<noteq> QueuedWaiting" "qwRows v = qwRows w" for st c m v
    using saves_frame[OF that(2)] finish_saves[OF that(1)] by blast
  with None show ?thesis by (simp add: settleQueued_def)
next
  case (Some err)
  then show ?thesis
    by (auto simp: settleQueued_def refusedQueued_def Let_def queued_waits
        intro!: finish_saves reschedule_saves split: option.splits)
qed

lemma perform_saves: "saves env (decided now q) q w (performQueued env now seq run q w)"
proof -
  have s: "saves env (decided now q) q w (settleQueued env now seq q a e out (note_write x w))" for a e out x
    by (rule saves_frame[OF _ settle_saves]) simp
  have f: "saves env (decided now q) q w (settleQueued env now seq q a e out (fold note_write xs w))" for a e out xs
    by (rule saves_frame[OF _ settle_saves]) simp
  show ?thesis
    unfolding performQueued_def Let_def by (auto simp: s f finish_saves split: prod.splits)
qed

lemma laterReset_mono: "u \<le> laterReset now rl u"
  "laterReset now rl u = u \<or> laterReset now rl u > now"
  by (auto simp: laterReset_def split: option.splits)

lemma RateLimitedUntil_later: "RateLimitedUntil snap f now = (t, True) \<Longrightarrow> t > now"
proof -
  let ?step = "\<lambda>h u. if fhForge h \<noteq> f then u
            else fold (laterReset now) [fhRateLimitGraphQL h, fhRateLimitREST h] u"
  have one: "?step h u = u \<or> ?step h u > now" for h u
    using laterReset_mono(2)[of now "fhRateLimitGraphQL h" u]
      laterReset_mono(2)[of now "fhRateLimitREST h" "laterReset now (fhRateLimitGraphQL h) u"]
    by auto
  have "fold ?step hs u = u \<or> fold ?step hs u > now" for hs u
  proof (induction hs arbitrary: u)
    case (Cons h hs)
    show ?case using Cons.IH[of "?step h u"] one[of h u] by auto
  qed simp
  then show "RateLimitedUntil snap f now = (t, True) \<Longrightarrow> t > now"
    by (auto simp: RateLimitedUntil_def Let_def)
qed

lemma runQueued_saves: "saves env (decided now q) q w (runQueued env now seq run q w)"
  unfolding runQueued_def
  by (auto simp: retryUnreachableQueued_def queued_waits finish_saves reschedule_saves perform_saves
      RateLimitedUntil_later split: prod.splits option.splits)

section \<open>What a run asks of the forges\<close>

text \<open>The forge, and the pull request on the board, still call for the action.\<close>

definition pr_needs :: "queued_action \<Rightarrow> pull_request \<Rightarrow> string list \<Rightarrow> bool" where
  "pr_needs q pr ra \<longleftrightarrow> prBehind pr \<and> opens pr ra (qaAction q) \<and>
     (if qaAction q = ActionUpdateBranch then prUpdateRequest pr = None else prBotRequest pr = None)"

definition still_needed :: "time \<Rightarrow> queued_run \<Rightarrow> queued_action \<Rightarrow> bool" where
  "still_needed now run q \<longleftrightarrow>
     \<not> snd (RateLimitedUntil (qrSnap run) (qaForge q) now) \<and>
     (case healthOf (qrSnap run) (qaForge q) of None \<Rightarrow> False | Some h \<Rightarrow> fhReachable h) \<and>
     QueueableAction (qaAction q) \<and>
     (case findPR (qrSnap run) q of None \<Rightarrow> False | Some pr \<Rightarrow> pr_needs q pr (qrAuthors run))"

definition can_send :: "queued_env \<Rightarrow> queued_action \<Rightarrow> bool" where
  "can_send env q \<longleftrightarrow> qeSource env (qaForge q) \<and>
     (qaAction q = ActionUpdateBranch \<longrightarrow> qeUpdater env (qaForge q)) \<and>
     (qaAction q = ActionDependabotRebase \<longrightarrow> qeCommenter env (qaForge q)) \<and>
     (qaAction q = ActionRenovateRebase \<longrightarrow> qeLabeler env (qaForge q))"

definition repo_parts :: "string \<Rightarrow> string \<times> string" where
  "repo_parts r = (case cut r ''/'' of Some p \<Rightarrow> p | None \<Rightarrow> (r, ''''))"

text \<open>
  The writes an action comes to: a branch update, a comment, and for Renovate whatever its box calls for: an open box is
  ticked, a missing one (or a description that cannot be edited) gets the label, a ticked or unreadable one gets nothing.
\<close>

definition writes_of :: "queued_env \<Rightarrow> string \<Rightarrow> queued_action \<Rightarrow> forge_write list" where
  "writes_of env label q = (case repo_parts (qaRepo q) of (owner, name) \<Rightarrow>
     (let f = qaForge q; n = qaNumber q; api = qeBody env f owner name n in
      if qaAction q = ActionUpdateBranch then [WroteUpdate f owner name n]
      else if qaAction q = ActionDependabotRebase then [WroteComment f owner name n ''@dependabot rebase'']
      else if \<not> baEditor api then [AddedLabel f owner name n label]
      else (case baBody api of
          Inl _ \<Rightarrow> []
        | Inr body \<Rightarrow> (case RebaseCheckboxOf body of
              RebaseCheckboxTicked \<Rightarrow> []
            | RebaseCheckboxUnticked \<Rightarrow> [WroteBody f owner name n (fst (TickRebaseCheckbox body))]
            | RebaseCheckboxAbsent \<Rightarrow> [AddedLabel f owner name n label]))))"

lemma offeredReason_None:
  "distinct (map aaAction as) \<Longrightarrow> offeredReason a as = None \<longleftrightarrow> open_in a as"
proof (induction as)
  case (Cons o' os)
  have "\<not> open_in a os" if "a = aaAction o'"
    using Cons.prems that by (simp add: open_in_iff image_iff) metis
  with Cons show ?case by auto
qed simp

lemma offered_open: "offeredReason a (AllowedActions pr ra) = None \<longleftrightarrow> opens pr ra a"
  using offeredReason_None[OF AllowedActions_distinct] open_in_AllowedActions by blast

lemma skip_None:
  "QueueableAction (qaAction q) \<Longrightarrow> queuedSkipReason q pr ra = None \<longleftrightarrow> pr_needs q pr ra"
  by (auto simp: queuedSkipReason_def offered_open opens_def offers_def QueueableAction_def Let_def
      pr_needs_def split: if_splits)

lemma writes_frame [simp]:
  "qwWrites (save_row env q w) = qwWrites w" "qwWrites (on_board f w) = qwWrites w"
  by (auto simp: save_row_def on_board_def split: prod.splits)

lemma outcome_writes [simp]:
  "qwWrites (finishQueued env now q st c m w) = qwWrites w"
  "qwWrites (rescheduleQueued env q t w) = qwWrites w"
  "qwWrites (NoteRenovateRebase now seq f r n out w) = qwWrites w"
  "qwWrites (note_write x w) = x # qwWrites w"
  by (auto simp: finishQueued_def rescheduleQueued_def NoteRenovateRebase_def note_write_def
      split: renovate_rebase_outcome.splits)

lemma settle_writes [simp]:
  "qwWrites (recordQueuedRequest now seq q out w) = qwWrites w"
  "qwWrites (settleQueued env now seq q a e out w) = qwWrites w"
  "qwWrites (retryUnreachableQueued env now q w) = qwWrites w"
  by (auto simp: settleQueued_def refusedQueued_def recordQueuedRequest_def retryUnreachableQueued_def
      Let_def split: option.splits)

lemma fold_note [simp]:
  "qwWrites (fold note_write xs w) = rev xs @ qwWrites w"
  by (induction xs arbitrary: w) simp_all

lemma perform_writes:
  assumes "QueueableAction (qaAction q)" "qeSource env (qaForge q)"
  shows "qwWrites (performQueued env now seq run q w) =
     (if can_send env q then rev (writes_of env (qrLabel run) q) else []) @ qwWrites w"
proof -
  obtain owner name where p: "repo_parts (qaRepo q) = (owner, name)" by fastforce
  note u = performQueued_def Let_def can_send_def writes_of_def p p[unfolded repo_parts_def]
  from assms(1) consider "qaAction q = ActionUpdateBranch" | "qaAction q = ActionDependabotRebase"
    | "qaAction q = ActionRenovateRebase" by (auto simp: QueueableAction_def)
  then show ?thesis
  proof cases
    case 3
    then show ?thesis
      by (auto simp: u assms(2) fold_note rebase_wrote_def RequestRenovateRebase_def RebaseCheckboxOf_def
          split: prod.split sum.split rebase_checkbox.split)
  qed (simp_all add: u assms(2) DependabotRebaseComment_def split: prod.split)
qed

lemma runQueued_writes:
  "qwWrites (runQueued env now seq run q w) =
     (if can_send env q \<and> still_needed now run q then rev (writes_of env (qrLabel run) q) else []) @ qwWrites w"
proof -
  obtain u l where r: "RateLimitedUntil (qrSnap run) (qaForge q) now = (u, l)" by fastforce
  show ?thesis
  proof (cases "l \<or> \<not> qeSource env (qaForge q) \<or> \<not> QueueableAction (qaAction q)")
    case True
    then show ?thesis
      by (auto simp: runQueued_def still_needed_def can_send_def r split: option.split)
  next
    case False
    show ?thesis
    proof (cases "healthOf (qrSnap run) (qaForge q)")
      case None
      then show ?thesis using False by (simp add: runQueued_def still_needed_def r)
    next
      case (Some h)
      show ?thesis
      proof (cases "findPR (qrSnap run) q")
        case None
        then show ?thesis using False Some by (simp add: runQueued_def still_needed_def r)
      next
        case (Some pr)
        then show ?thesis
          using False \<open>healthOf _ _ = Some h\<close> skip_None[of q pr "qrAuthors run"]
            perform_writes[of q env now seq run w]
          by (cases "queuedSkipReason q pr (qrAuthors run)"; cases "fhReachable h")
             (simp_all add: runQueued_def still_needed_def r split: prod.split)
      qed
    qed
  qed
qed

lemma fold_writes:
  "qwWrites (fold (runQueued env now seq run) qs w) =
     rev (concat (map (writes_of env (qrLabel run)) (filter (\<lambda>q. can_send env q \<and> still_needed now run q) qs))) @ qwWrites w"
  by (induction qs arbitrary: w) (auto simp: runQueued_writes)

section \<open>The properties\<close>

text \<open>
  C5: A pass over the queue that can read it before and after the refresh, and finds something due, asks exactly these writes of the
  forges, in queue order: those of every action that is due in the queue as it stands after the refresh (so a cancel
  during the refresh wins), that its forge has a source and a client able to send, and that the refreshed board still calls for: the
  forge reachable and not rate limited, the pull request listed, behind, open to the action and not asked already.
  A branch update and a Dependabot command are one write each; a Renovate rebase ticks an open box, adds the label where there is
  no box to tick, and writes nothing where the box is ticked already or cannot be read.
\<close>

theorem pass_writes_exactly:
  assumes "load = (True, True)" "dueQueued buffer now (QueuedActions (qwRows w)) \<noteq> []"
    and "w2 = refresh (if pruned then w\<lparr>qwRows := PruneQueuedActions (now - queuedFinishedKeep) (qwRows w)\<rparr> else w)"
  shows "qwWrites (ProcessQueuedActions env load pruned refresh buffer now seq label authors w) =
    rev (concat (map (writes_of env label)
      (filter (\<lambda>q. can_send env q \<and> still_needed now \<lparr>qrSnap = qwSnap w2, qrLabel = label, qrAuthors = authors\<rparr> q)
        (dueQueued buffer now (QueuedActions (qwRows w2)))))) @ qwWrites w2"
  using assms by (simp add: ProcessQueuedActions_def Let_def fold_writes)

definition waiting_update :: queued_action where
  "waiting_update = \<lparr>qaID = ''1'', qaAction = ActionUpdateBranch, qaForge = ForgeGitHub, qaRepo = ''a/b'',
     qaNumber = 7, qaStatus = QueuedWaiting, qaRunAt = 0, qaCreatedAt = 0, qaFinishedAt = None,
     qaCode = None, qaMessage = ''''\<rparr>"

definition willing_env :: queued_env where
  "willing_env = \<lparr>qeSource = \<lambda>_. True, qeUpdater = \<lambda>_. True, qeUpdate = \<lambda>_ _ _ _. None,
     qeCommenter = \<lambda>_. True, qeComment = \<lambda>_ _ _ _ _. None, qeLabeler = \<lambda>_. True,
     qeBody = \<lambda>_ _ _ _. \<lparr>baEditor = False, baBody = Inr '''', baSet = \<lambda>_. None, baLabel = \<lambda>_. None\<rparr>,
     qeSaves = \<lambda>_. True\<rparr>"

definition behind_board :: snapshot where
  "behind_board = newEmptySnapshot\<lparr>
     snForges := [zero_health\<lparr>fhForge := ForgeGitHub, fhReachable := True\<rparr>],
     snPullRequests := [zero_pr\<lparr>prRepo := ''a/b'', prNumber := 7, prBehind := True\<rparr>]\<rparr>"

definition queue_of :: "queued_action list \<Rightarrow> queued_world" where
  "queue_of rows = \<lparr>qwRows = rows, qwBots = no_requests, qwSnap = behind_board, qwWrites = []\<rparr>"

lemma pass_writes_exactly_witness:
  "qwWrites (ProcessQueuedActions willing_env (True, True) True id minute (2 * minute) 1 ''rebase'' []
     (queue_of [waiting_update])) = [WroteUpdate ForgeGitHub ''a'' ''b'' 7]"
proof -
  let ?w = "queue_of [waiting_update]"
  let ?run = "\<lparr>qrSnap = behind_board, qrLabel = ''rebase'', qrAuthors = []\<rparr>"
  have d: "dueQueued minute (2 * minute) (QueuedActions (qwRows ?w)) = [waiting_update]"
    by (simp add: dueQueued_def QueuedActions_def queue_of_def waiting_update_def)
  have p: "?w\<lparr>qwRows := PruneQueuedActions (2 * minute - queuedFinishedKeep) (qwRows ?w)\<rparr> = ?w"
    by (simp add: PruneQueuedActions_def queue_of_def waiting_update_def)
  have "can_send willing_env waiting_update \<and> still_needed (2 * minute) ?run waiting_update"
    by code_simp
  moreover have "writes_of willing_env ''rebase'' waiting_update = [WroteUpdate ForgeGitHub ''a'' ''b'' 7]" by code_simp
  ultimately show ?thesis
    using pass_writes_exactly[where load = "(True, True)" and buffer = minute and now = "2 * minute" and w = ?w
        and ?w2.0 = ?w and refresh = id and pruned = True and env = willing_env and seq = 1
        and label = "''rebase''" and authors = "[]"] d p
    by (simp add: queue_of_def)
qed

text \<open>
  One run settles its action: if the table still holds it waiting and saves the row, the row
  ends with a final status and the time of the run, or waits for a time that is still ahead. Every
  other row is untouched, and an action cancelled meanwhile stays gone.
\<close>

theorem run_decides:
  assumes "distinct (map qaID (qwRows w))" "q \<in> set (qwRows w)" "qaStatus q = QueuedWaiting"
    "qeSaves env (qaID q)" "w' = runQueued env now seq run q w"
  shows "(\<exists>r. r \<in> set (qwRows w') \<and> qaID r = qaID q \<and> same_target r q \<and>
            (if qaStatus r = QueuedWaiting then qaRunAt r > now \<and> qaFinishedAt r = qaFinishedAt q
             else qaFinishedAt r = Some now)) \<and>
    filter (\<lambda>r. qaID r \<noteq> qaID q \<or> qaStatus r \<noteq> QueuedWaiting) (qwRows w) =
      filter (\<lambda>r. qaID r \<noteq> qaID q) (qwRows w') \<and>
    (qaID q \<notin> qaID ` set rows0 \<longrightarrow> qwRows (runQueued env now seq run q (w\<lparr>qwRows := rows0\<rparr>)) = rows0)"
proof -
  from runQueued_saves[of env now q w seq run] assms(4,5)
  obtain q' where q': "decided now q q'" "qwRows w' = snd (UpdateQueuedAction q' (qwRows w))"
    by (auto simp: saves_def)
  have same: "qaID q' = qaID q" using q' by (simp add: decided_def)
  let ?r = "q\<lparr>qaStatus := qaStatus q', qaRunAt := qaRunAt q', qaFinishedAt := qaFinishedAt q',
      qaCode := qaCode q', qaMessage := qaMessage q'\<rparr>"
  have one: "?r \<in> set (qwRows w') \<and> qaID ?r = qaID q \<and> same_target ?r q \<and>
            (if qaStatus ?r = QueuedWaiting then qaRunAt ?r > now \<and> qaFinishedAt ?r = qaFinishedAt q
             else qaFinishedAt ?r = Some now)"
    using q' assms(2,3) same
    by (auto simp: UpdateQueuedAction_def same_target_def decided_def image_iff intro!: bexI[of _ q])
  have only: "r = q" if "r \<in> set (qwRows w)" "qaID r = qaID q" for r
    using assms(1,2) that by (auto simp: distinct_map dest: inj_onD)
  have two: "filter (\<lambda>r. qaID r \<noteq> qaID q \<or> qaStatus r \<noteq> QueuedWaiting) (qwRows w) =
      filter (\<lambda>r. qaID r \<noteq> qaID q) (qwRows w')"
  proof -
    have "filter (\<lambda>r. qaID r \<noteq> qaID q) (snd (UpdateQueuedAction q' rows)) =
        filter (\<lambda>r. qaID r \<noteq> qaID q) rows" for rows
      using same by (induction rows) (auto simp: UpdateQueuedAction_def)
    moreover have "filter (\<lambda>r. qaID r \<noteq> qaID q \<or> qaStatus r \<noteq> QueuedWaiting) (qwRows w) =
        filter (\<lambda>r. qaID r \<noteq> qaID q) (qwRows w)"
      using only assms(3) by (auto intro!: filter_cong)
    ultimately show ?thesis using q' by simp
  qed
  have gone: "snd (UpdateQueuedAction p rows) = rows" if "qaID p \<notin> qaID ` set rows" for p rows
  proof -
    have "\<forall>r \<in> set rows. qaID r \<noteq> qaID p" using that by (auto simp: image_iff)
    then show ?thesis by (auto simp: UpdateQueuedAction_def intro!: map_idI)
  qed
  have three: "qaID q \<notin> qaID ` set rows0 \<longrightarrow> qwRows (runQueued env now seq run q (w\<lparr>qwRows := rows0\<rparr>)) = rows0"
    using runQueued_saves[of env now q "w\<lparr>qwRows := rows0\<rparr>" seq run] assms(4)
    by (auto simp: saves_def decided_def gone)
  from one two three show ?thesis by auto
qed

lemma run_decides_witness:
  "\<exists>r. r \<in> set (qwRows (runQueued willing_env (2 * minute) 1
       \<lparr>qrSnap = behind_board, qrLabel = '''', qrAuthors = []\<rparr> waiting_update (queue_of [waiting_update]))) \<and>
     qaID r = ''1''"
proof -
  have h: "distinct (map qaID (qwRows (queue_of [waiting_update])))"
    "waiting_update \<in> set (qwRows (queue_of [waiting_update]))" "qaStatus waiting_update = QueuedWaiting"
    "qeSaves willing_env (qaID waiting_update)"
    by (simp_all add: queue_of_def waiting_update_def willing_env_def)
  have "qaID waiting_update = ''1''" by (simp add: waiting_update_def)
  with run_decides[OF h refl, where now = "2 * minute" and seq = 1
      and run = "\<lparr>qrSnap = behind_board, qrLabel = '''', qrAuthors = []\<rparr>", THEN conjunct1]
  show ?thesis by metis
qed

text \<open>The table: ids are unique, and a pull request has one waiting row per action.\<close>

definition table_ok :: "queued_action list \<Rightarrow> bool" where
  "table_ok rows \<longleftrightarrow> distinct (map qaID rows) \<and>
     distinct (map (\<lambda>r. (qaAction r, qaForge r, qaRepo r, qaNumber r))
       (filter (\<lambda>r. qaStatus r = QueuedWaiting) rows))"

lemma distinct_map_filter2: "distinct (map f (filter P xs)) \<Longrightarrow> distinct (map f (filter (\<lambda>x. Q x \<and> P x) xs))"
  by (induction xs) (auto split: if_splits)

lemma table_ok_filter: "table_ok rows \<Longrightarrow> table_ok (filter P rows)"
  by (auto simp: table_ok_def distinct_map_filter2 distinct_map_filter)

lemma table_ok_update: "table_ok rows \<Longrightarrow> table_ok (snd (UpdateQueuedAction q rows))"
proof -
  let ?t = "\<lambda>r. (qaAction r, qaForge r, qaRepo r, qaNumber r)"
  let ?w = "\<lambda>rs. map ?t (filter (\<lambda>r. qaStatus r = QueuedWaiting) rs)"
  have sub: "set (?w (snd (UpdateQueuedAction q rs))) \<subseteq> set (?w rs)" for rs
    by (auto simp: UpdateQueuedAction_def image_iff split: if_splits)
  have "distinct (?w rs) \<Longrightarrow> distinct (?w (snd (UpdateQueuedAction q rs)))" for rs
  proof (induction rs)
    case (Cons r rs)
    then show ?case using sub[of rs] by (auto simp: UpdateQueuedAction_def split: if_splits)
  qed (simp add: UpdateQueuedAction_def)
  then show "table_ok rows \<Longrightarrow> ?thesis" by (simp add: table_ok_def)
qed

lemma table_ok_run: "table_ok (qwRows w) \<Longrightarrow> table_ok (qwRows (runQueued env now seq run q w))"
  using runQueued_saves[of env now q w seq run] table_ok_update
  by (auto simp: saves_def split: if_splits)

text \<open>
  The table keeps unique ids and at most one waiting row per action and pull request: through
  queueing with a fresh id, cancelling, and a whole pass, whatever users do during its refresh that
  keeps it so.
\<close>

theorem table_invariant:
  assumes "table_ok (qwRows w)" "newid \<notin> qaID ` set (qwRows w)"
    "\<And>v. table_ok (qwRows v) \<Longrightarrow> table_ok (qwRows (refresh v))"
  shows "table_ok (snd (EnqueueQueuedAction newid q (qwRows w))) \<and>
    table_ok (snd (CancelQueuedAction i (qwRows w))) \<and>
    table_ok (qwRows (ProcessQueuedActions env load pruned refresh buffer now seq label authors w))"
proof -
  have f: "table_ok (qwRows v) \<Longrightarrow> table_ok (qwRows (fold (runQueued env now seq run) qs v))" for run qs v
    by (induction qs arbitrary: v) (simp_all add: table_ok_run)
  have e: "table_ok (snd (EnqueueQueuedAction newid q (qwRows w)))"
    using assms(1,2)
    by (auto simp: EnqueueQueuedAction_def Let_def table_ok_def same_target_def find_None_iff
        split: option.split)
  have p: "table_ok (qwRows (if pruned then w\<lparr>qwRows := PruneQueuedActions c (qwRows w)\<rparr> else w))" for c
    using assms(1) by (simp add: PruneQueuedActions_def table_ok_filter)
  then have "table_ok (qwRows (ProcessQueuedActions env load pruned refresh buffer now seq label authors w))"
    using assms(1) by (simp add: ProcessQueuedActions_def Let_def f assms(3) del: if_distrib)
  with e show ?thesis using assms(1) by (simp add: CancelQueuedAction_def table_ok_filter)
qed

lemma table_invariant_witness:
  "table_ok (snd (EnqueueQueuedAction ''2'' (waiting_update\<lparr>qaNumber := 8\<rparr>) [waiting_update]))"
  using table_invariant[of "queue_of [waiting_update]" "''2''" id "waiting_update\<lparr>qaNumber := 8\<rparr>"]
  by (simp add: queue_of_def waiting_update_def table_ok_def)

section \<open>The schedule\<close>

abbreviation waits_of :: "duration \<Rightarrow> time \<Rightarrow> queued_action list \<Rightarrow> duration \<Rightarrow> duration" where
  "waits_of buffer now qs \<equiv> fold (\<lambda>q wait. if qaStatus q = QueuedWaiting
     then min wait (time_sub (qaRunAt q + buffer) now) else wait) qs"

lemma waits_le: "waits_of buffer now qs w \<le> w"
proof (induction qs arbitrary: w)
  case (Cons r rs)
  show ?case
    using Cons.IH[of w] Cons.IH[of "min w (time_sub (qaRunAt r + buffer) now)"] by auto
qed simp

lemma waits_each:
  "q \<in> set qs \<Longrightarrow> qaStatus q = QueuedWaiting \<Longrightarrow>
     waits_of buffer now qs w \<le> time_sub (qaRunAt q + buffer) now"
proof (induction qs arbitrary: w)
  case (Cons r rs)
  show ?case
  proof (cases "q = r")
    case True
    then show ?thesis
      using waits_le[of buffer now rs "min w (time_sub (qaRunAt q + buffer) now)"] Cons.prems by simp
  next
    case False
    with Cons show ?thesis by simp
  qed
qed simp

lemma waits_attained:
  "waits_of buffer now qs w = w \<or>
     (\<exists>q. q \<in> set qs \<and> qaStatus q = QueuedWaiting \<and> waits_of buffer now qs w = time_sub (qaRunAt q + buffer) now)"
proof (induction qs arbitrary: w)
  case (Cons r rs)
  show ?case
    using Cons.IH[of "min w (time_sub (qaRunAt r + buffer) now)"] Cons.IH[of w]
    by (cases "qaStatus r = QueuedWaiting") (auto simp: min_def split: if_splits)
qed simp

text \<open>
  The scheduler's sleep is between a second and a day. After it every waiting action that falls
  due within it is due, so nothing is slept past by more than the one second floor; and a sleep that is neither
  the floor nor the day ends exactly when some waiting action becomes due.
\<close>

theorem sleep_until_due:
  assumes "u = untilNextQueued buffer now (Some items)"
  shows "second \<le> u \<and> u \<le> 24 * hour \<and>
    (\<forall>q. q \<in> set items \<and> qaStatus q = QueuedWaiting \<longrightarrow>
       now + u \<le> max (qaRunAt q + buffer) (now + second)) \<and>
    (second < u \<and> u < 24 * hour \<longrightarrow>
       dueQueued buffer (now + u) items \<noteq> [] \<and> dueQueued buffer (now + u - 1) items = [])"
proof -
  let ?w = "waits_of buffer now items (24 * hour)"
  have u: "u = max ?w second" using assms by (simp add: untilNextQueued_def queued_waits)
  have le: "?w \<le> 24 * hour" by (rule waits_le)
  have each: "now + u \<le> max (qaRunAt q + buffer) (now + second)"
    if "q \<in> set items" "qaStatus q = QueuedWaiting" for q
    using waits_each[OF that, of buffer now "24 * hour"] le u by (auto simp: time_sub_def)
  have due: "dueQueued buffer (now + u) items \<noteq> [] \<and> dueQueued buffer (now + u - 1) items = []"
    if g: "second < u" "u < 24 * hour"
  proof
    from g u have w: "u = ?w" "?w \<noteq> 24 * hour" by auto
    with waits_attained[of buffer now items "24 * hour"] obtain q where
      q: "q \<in> set items" "qaStatus q = QueuedWaiting" "u = time_sub (qaRunAt q + buffer) now" by auto
    from q(3) g have "qaRunAt q + buffer = now + u" by (auto simp: time_sub_def)
    with q(1,2) show "dueQueued buffer (now + u) items \<noteq> []" by (auto simp: dueQueued_def filter_empty_conv)
    have "now + u \<le> qaRunAt r + buffer" if "r \<in> set items" "qaStatus r = QueuedWaiting" for r
      using each[OF that] g by auto
    then show "dueQueued buffer (now + u - 1) items = []" by (fastforce simp: dueQueued_def filter_empty_conv)
  qed
  from u le each due show ?thesis by auto
qed

lemma sleep_until_due_witness:
  "dueQueued minute (0 + minute) [waiting_update] \<noteq> [] \<and> dueQueued minute (0 + minute - 1) [waiting_update] = []"
proof -
  have "minute = untilNextQueued minute 0 (Some [waiting_update])"
    by (simp add: untilNextQueued_def waiting_update_def time_sub_def queued_waits)
  from sleep_until_due[OF this] show ?thesis by simp
qed

section \<open>A forge that does not answer\<close>

text \<open>One pass over the queue at a time \<open>t\<close>, on the board \<open>run t\<close>.\<close>

definition pass_at :: "queued_env \<Rightarrow> duration \<Rightarrow> (time \<Rightarrow> queued_run) \<Rightarrow> time \<Rightarrow> queued_world \<Rightarrow> queued_world" where
  "pass_at env buffer run t w = fold (runQueued env t 0 (run t)) (dueQueued buffer t (QueuedActions (qwRows w))) w"

text \<open>Every pass comes when the row is due, and less than an hour after the row's time.\<close>

fun on_time :: "duration \<Rightarrow> time \<Rightarrow> time list \<Rightarrow> bool" where
  "on_time buffer runAt [] \<longleftrightarrow> True"
| "on_time buffer runAt (t # ts) \<longleftrightarrow> runAt + buffer \<le> t \<and> t < runAt + hour \<and>
     on_time buffer (t + queuedUnreachableRetry) ts"

lemma pass_unreachable:
  assumes "qwRows w = [q]" "qaStatus q = QueuedWaiting" "qaRunAt q + buffer \<le> t" "t < qaRunAt q + hour"
    and "qeSaves env (qaID q)" "qeSource env (qaForge q)"
    and "\<not> snd (RateLimitedUntil (qrSnap (run t)) (qaForge q) t)"
    and "healthOf (qrSnap (run t)) (qaForge q) = Some h" "\<not> fhReachable h"
  shows "qwRows (pass_at env buffer run t w) = [q\<lparr>qaRunAt := t + queuedUnreachableRetry\<rparr>]"
proof -
  have "dueQueued buffer t (QueuedActions (qwRows w)) = [q]"
    using assms(1-3) by (simp add: dueQueued_def QueuedActions_def)
  moreover have "\<not> time_sub t (qaRunAt q) \<ge> queuedUnreachableGiveUp"
    using assms(4) time_sub_ge[of hour t "qaRunAt q"] by (simp add: queued_waits)
  moreover obtain u where "RateLimitedUntil (qrSnap (run t)) (qaForge q) t = (u, False)"
    using assms(7) by (cases "RateLimitedUntil (qrSnap (run t)) (qaForge q) t") auto
  ultimately show ?thesis
    using assms(1,2,5,6,8,9)
    by (cases q) (simp add: pass_at_def runQueued_def retryUnreachableQueued_def rescheduleQueued_def
        save_row_def UpdateQueuedAction_def)
qed

text \<open>
  Giving up an hour after the reset never happens. The hour is measured from the row's own time,
  and every retry moves that time on, so as long as each pass comes within an hour of the time it was
  set for (the scheduler sleeps until exactly that time), an action on a forge that stays
  unreachable waits on, however long ago the reset was.
\<close>

theorem unreachable_never_gives_up:
  assumes "qwRows w = [q]" "qaStatus q = QueuedWaiting" "on_time buffer (qaRunAt q) ts"
    and "qeSaves env (qaID q)" "qeSource env (qaForge q)"
    and "\<And>t. \<not> snd (RateLimitedUntil (qrSnap (run t)) (qaForge q) t)"
    and "\<And>t. healthOf (qrSnap (run t)) (qaForge q) = Some (health t)" "\<And>t. \<not> fhReachable (health t)"
  shows "qwRows (fold (pass_at env buffer run) ts w) =
    [q\<lparr>qaRunAt := fold (\<lambda>t _. t + queuedUnreachableRetry) ts (qaRunAt q)\<rparr>]"
  using assms
proof (induction ts arbitrary: q w)
  case (Cons t ts)
  let ?q = "q\<lparr>qaRunAt := t + queuedUnreachableRetry\<rparr>"
  have "qwRows (pass_at env buffer run t w) = [?q]"
    using Cons.prems by (intro pass_unreachable[where h = "health t"]) simp_all
  from Cons.IH[OF this] Cons.prems show ?case by simp
qed simp

definition silent_board :: snapshot where
  "silent_board = behind_board\<lparr>snForges := [zero_health\<lparr>fhForge := ForgeGitHub\<rparr>]\<rparr>"

text \<open>Fifteen passes, each half a minute after the row's time: 82 minutes after the reset it still waits.\<close>

definition half_minute_late :: "time list" where
  "half_minute_late = map (\<lambda>k. 30 * second + int k * (330 * second)) [0..<15]"

lemma unreachable_never_gives_up_witness:
  "last half_minute_late > 75 * minute \<and>
   qwRows (fold (pass_at willing_env (30 * second) (\<lambda>_. \<lparr>qrSnap = silent_board, qrLabel = '''', qrAuthors = []\<rparr>))
     half_minute_late (queue_of [waiting_update])) = [waiting_update\<lparr>qaRunAt := 4950 * second\<rparr>]"
proof -
  let ?run = "\<lambda>_::time. \<lparr>qrSnap = silent_board, qrLabel = '''', qrAuthors = []\<rparr>"
  have ts: "half_minute_late = map (\<lambda>k. k * second) [30, 360, 690, 1020, 1350, 1680, 2010, 2340, 2670, 3000,
      3330, 3660, 3990, 4320, 4650]"
    by (simp add: half_minute_late_def upt_rec)
  have o: "on_time (30 * second) (qaRunAt waiting_update) half_minute_late"
    by (simp add: ts waiting_update_def queued_waits)
  have l: "fold (\<lambda>t _. t + queuedUnreachableRetry) half_minute_late 0 = 4950 * second"
    by (simp add: ts queued_waits)
  have r: "\<not> snd (RateLimitedUntil (qrSnap (?run t)) (qaForge waiting_update) t)" for t
    by (simp add: RateLimitedUntil_def silent_board_def behind_board_def waiting_update_def zero_health_def
        laterReset_def newEmptySnapshot_def)
  have h: "healthOf (qrSnap (?run t)) (qaForge waiting_update) = Some (zero_health\<lparr>fhForge := ForgeGitHub\<rparr>)" for t
    by (simp add: healthOf_def silent_board_def behind_board_def waiting_update_def newEmptySnapshot_def)
  have "qwRows (fold (pass_at willing_env (30 * second) ?run) half_minute_late (queue_of [waiting_update])) =
    [waiting_update\<lparr>qaRunAt := fold (\<lambda>t _. t + queuedUnreachableRetry) half_minute_late (qaRunAt waiting_update)\<rparr>]"
    by (rule unreachable_never_gives_up[where health = "\<lambda>_. zero_health\<lparr>fhForge := ForgeGitHub\<rparr>"])
      (use o r h in \<open>simp_all add: queue_of_def waiting_update_def willing_env_def zero_health_def\<close>)
  then show ?thesis using l by (simp add: ts waiting_update_def)
qed

end
