(* ===== verification/Snapshot_Merge.thy ===== *)
theory Snapshot_Merge
  imports Stacks Bot_Requests Refresh_Schedule "HOL-Library.Multiset" "HOL-Library.AList"
begin

text \<open>
  How fetched rows become the snapshot: \<open>aggregator.go\<close>, with \<open>incremental.go\<close>, the merge of a CI
  poll (\<open>ci_poll.go\<close>) and the default-branch rows (\<open>main_branch.go\<close>). A board is the part of the
  Aggregator those functions read and write under its locks. \<open>time.Now\<close> is an argument.
  \<open>slices.SortFunc\<close> leaves rows of equal time in any order; the model keeps them in the order
  they came, and no property depends on it.
\<close>

type_synonym repo_key = "forge \<times> string"

record board =
  bdSnap :: snapshot
  bdSettled :: "string \<rightharpoonup> time"
  bdScoped :: "(repo_key \<times> nat) list"
  bdLastGood :: "forge \<rightharpoonup> time"
  bdBots :: bot_state

text \<open>The entry of a Go map: zero for a repo no scoped refresh merged.\<close>

definition scopedSeq :: "board \<Rightarrow> repo_key \<Rightarrow> nat" where
  "scopedSeq b key = (case map_of (bdScoped b) key of Some n \<Rightarrow> n | None \<Rightarrow> 0)"

section \<open>Settled pull requests\<close>

definition annotateAll :: "pull_request list \<Rightarrow> pull_request list" where
  "annotateAll prs = (case AnnotateStacks prs of Some out \<Rightarrow> out | None \<Rightarrow> prs)"

definition MarkSettled :: "time \<Rightarrow> forge \<Rightarrow> string \<Rightarrow> int \<Rightarrow> board \<Rightarrow> board" where
  "MarkSettled now forge repo number b =
     (let key = settledKey forge repo number
      in b\<lparr>bdSettled := (bdSettled b)(key \<mapsto> now),
          bdSnap := (bdSnap b)\<lparr>snPullRequests :=
            annotateAll (filter (\<lambda>pr. pr_key pr \<noteq> key) (snPullRequests (bdSnap b)))\<rparr>\<rparr>)"

definition Unsettle :: "forge \<Rightarrow> string \<Rightarrow> int \<Rightarrow> board \<Rightarrow> board" where
  "Unsettle forge repo number b = b\<lparr>bdSettled := (bdSettled b)(settledKey forge repo number := None)\<rparr>"

text \<open>The prefix a scoped refresh's keys share, or the empty string for the whole board.\<close>

definition settleScope :: "forge \<Rightarrow> string \<Rightarrow> string" where
  "settleScope forge repo = (if repo = '''' then ''''
     else (case cut_last (settledKey forge repo 0) (CHR ''#'') of
         Some (before, _) \<Rightarrow> before @ ''#'' | None \<Rightarrow> ''''))"

definition withoutSettled :: "time \<Rightarrow> duration \<Rightarrow> forge \<Rightarrow> string \<Rightarrow>
    (string \<rightharpoonup> time) \<times> pull_request list \<Rightarrow> (string \<rightharpoonup> time) \<times> pull_request list" where
  "withoutSettled now window forge repo = (\<lambda>(settled, prs).
     let scope = settleScope forge repo;
         listed = pr_key ` set prs;
         settled' = (\<lambda>key. case settled key of None \<Rightarrow> None
           | Some at \<Rightarrow> if scope \<noteq> '''' \<and> \<not> has_prefix key scope then Some at
               else if time_sub now at > window \<or> key \<notin> listed then None else Some at)
     in (settled', filter (\<lambda>pr. settled' (pr_key pr) = None) prs))"

section \<open>One repo's rows\<close>

definition withMainBranch ::
  "main_branch list \<Rightarrow> forge \<Rightarrow> string \<Rightarrow> main_branch option \<Rightarrow> main_branch list" where
  "withMainBranch rows forge fullName branch = (case branch of None \<Rightarrow> rows
     | Some b \<Rightarrow>
         (let mine = (\<lambda>r. mbForge r = forge \<and> mbFullName r = fullName)
          in map (\<lambda>r. if mine r then b else r) rows @ (if list_ex mine rows then [] else [b])))"

definition sortPullRequests :: "pull_request list \<Rightarrow> pull_request list" where
  "sortPullRequests prs = sort_key (\<lambda>pr. - prUpdatedAt pr) prs"

definition sortIssues :: "issue list \<Rightarrow> issue list" where
  "sortIssues is = sort_key (\<lambda>i. - isUpdatedAt i) is"

definition in_repo :: "forge \<Rightarrow> string \<Rightarrow> pull_request \<Rightarrow> bool" where
  "in_repo forge repo pr \<longleftrightarrow> prForge pr = forge \<and> prRepo pr = repo"

definition issue_in_repo :: "forge \<Rightarrow> string \<Rightarrow> issue \<Rightarrow> bool" where
  "issue_in_repo forge repo i \<longleftrightarrow> isForge i = forge \<and> isRepo i = repo"

text \<open>
  \<open>mergedRepo\<close>: the merged snapshot and the board whose registries it swept. \<open>current\<close> is the
  snapshot merged so far, which \<open>mergeReposFrom\<close> writes back at the end.
\<close>

definition mergedRepo :: "time \<Rightarrow> duration \<Rightarrow> forge \<Rightarrow> string \<Rightarrow> nat \<Rightarrow> main_branch option \<Rightarrow>
    pull_request list \<Rightarrow> issue list \<Rightarrow> read_rows \<Rightarrow> board \<times> snapshot \<Rightarrow> board \<times> snapshot" where
  "mergedRepo now window forge fullName seq branch prs issues read = (\<lambda>(b, current).
     let others = filter (\<lambda>pr. \<not> in_repo forge fullName pr) (snPullRequests current);
         (settled, fresh) = withoutSettled now window forge fullName (bdSettled b, prs);
         covers = (\<lambda>f r. f = forge \<and> r = fullName);
         (st1, rows1) = settleBoxOverrides seq covers read (bdBots b, others @ fresh);
         (st2, rows2) = applyBotRequests seq now covers (st1, rows1);
         rows3 = sortPullRequests (annotateAll rows2)
     in (b\<lparr>bdSettled := settled, bdBots := st2, bdScoped := AList.update (forge, fullName) seq (bdScoped b)\<rparr>,
         current\<lparr>snGeneratedAt := now,
           snMainBranches := withMainBranch (snMainBranches current) forge fullName branch,
           snPullRequests := annotateBotRequests st2 rows3,
           snIssues := sortIssues (filter (\<lambda>i. \<not> issue_in_repo forge fullName i) (snIssues current) @ issues)\<rparr>))"

record repo_rows =
  rwFullName :: string
  rwBranch :: "main_branch option"
  rwRows :: "board \<Rightarrow> snapshot \<Rightarrow> (pull_request list \<times> issue list) option"
  rwFetched :: bool
  rwRead :: read_rows

definition withoutStale :: "repo list \<Rightarrow> forge \<Rightarrow> string list \<Rightarrow> repo list" where
  "withoutStale repos forge fullNames = map (\<lambda>r.
     if rpForge r \<noteq> forge \<or> rpFullName r \<notin> set fullNames \<or> rpStaleSince r = None then r
     else r\<lparr>rpStaleSince := None\<rparr>) repos"

definition clearStartingWhenFresh :: "forge_health list \<Rightarrow> repo list \<Rightarrow> forge \<Rightarrow> forge_health list" where
  "clearStartingWhenFresh forges repos forge =
     (if \<not> list_ex (\<lambda>h. fhForge h = forge \<and> fhStarting h) forges then forges
      else if list_ex (\<lambda>r. rpForge r = forge \<and> rpStaleSince r \<noteq> None) repos then forges
      else (let i = length (takeWhile (\<lambda>h. \<not> (fhForge h = forge \<and> fhStarting h)) forges)
            in forges[i := (forges ! i)\<lparr>fhStarting := False, fhReachable := True, fhStaleSince := None\<rparr>]))"

definition mergeReposFrom :: "time \<Rightarrow> duration \<Rightarrow> forge \<Rightarrow> nat \<Rightarrow> repo_rows list \<Rightarrow> board \<Rightarrow> board" where
  "mergeReposFrom now window forge seq repos b =
     (let step = (\<lambda>r (b, merged, fetched, wrote). case rwRows r b merged of
              None \<Rightarrow> (b, merged, fetched, wrote)
            | Some (prs, issues) \<Rightarrow>
                let (b', merged') = mergedRepo now window forge (rwFullName r) seq (rwBranch r) prs issues
                      (rwRead r) (b, merged)
                in (b', merged', if rwFetched r then rwFullName r # fetched else fetched, True));
          (b', merged, fetched, wrote) = fold step repos (b, bdSnap b, [], False)
      in if \<not> wrote then b'
         else let repos' = withoutStale (snRepos merged) forge fetched
              in b'\<lparr>bdSnap := merged\<lparr>snRepos := repos',
                     snForges := clearStartingWhenFresh (snForges merged) repos' forge\<rparr>\<rparr>)"

definition mergeRepo :: "time \<Rightarrow> duration \<Rightarrow> forge \<Rightarrow> string \<Rightarrow> nat \<Rightarrow> pull_request list \<Rightarrow> issue list \<Rightarrow>
    main_branch option \<Rightarrow> bool \<Rightarrow> board \<Rightarrow> board" where
  "mergeRepo now window forge fullName seq prs issues branch branchOK =
     mergeReposFrom now window forge seq [\<lparr>rwFullName = fullName, rwBranch = branch,
       rwRows = (\<lambda>_ _. Some (prs, issues)), rwFetched = branchOK, rwRead = all_rows\<rparr>]"

section \<open>The answer of a CI poll\<close>

definition repoPullRequestsAfter :: "snapshot \<Rightarrow> forge \<Rightarrow> string \<Rightarrow> (string \<rightharpoonup> pull_request) \<Rightarrow>
    string list \<Rightarrow> pull_request list" where
  "repoPullRequestsAfter snap forge repo replaced closed =
     map (\<lambda>pr. case replaced (pullRequestKey forge repo (prNumber pr)) of Some fresh \<Rightarrow> fresh | None \<Rightarrow> pr)
       (filter (\<lambda>pr. pullRequestKey forge repo (prNumber pr) \<notin> set closed)
         (filter (in_repo forge repo) (snPullRequests snap)))"

record pending_result =
  pnPulls :: "pull_request list"
  pnClosed :: "(string \<times> int) list"    \<comment> \<open>full name and number\<close>
  pnFailed :: "(string \<times> int) list"

text \<open>
  The repos are merged in the order of a Go map, any order: the model takes them in the order of the
  answer, which a caller can choose.
\<close>

definition mergePendingResult :: "time \<Rightarrow> duration \<Rightarrow> forge \<Rightarrow> nat \<Rightarrow> pending_result \<Rightarrow> board \<Rightarrow> board" where
  "mergePendingResult now window forge seq res =
     (let pullKey = (\<lambda>pr. pullRequestKey forge (prRepo pr) (prNumber pr));
          closed = map (\<lambda>(r, n). pullRequestKey forge r n) (pnClosed res);
          replaced = index_by pullKey (pnPulls res);
          read = onlyRead (set (map pullKey (pnPulls res)) \<union> set closed);
          repos = remdups (map prRepo (pnPulls res) @ map fst (pnClosed res))
      in mergeReposFrom now window forge seq (map (\<lambda>repo.
           \<lparr>rwFullName = repo, rwBranch = None,
            rwRows = (\<lambda>b current. if scopedSeq b (forge, repo) > seq then None
              else Some (repoPullRequestsAfter current forge repo replaced closed,
                         filter (issue_in_repo forge repo) (snIssues current))),
            rwFetched = False, rwRead = read\<rparr>) repos))"

section \<open>Asking the sources\<close>

record failed_repo =
  flFullName :: string
  flPullRequests :: bool
  flIssues :: bool
  flMainBranch :: bool

record fetch_result =
  ftHealth :: forge_health
  ftPullRequests :: "pull_request list"
  ftIssues :: "issue list"
  ftRepos :: "repo list"
  ftFailedRepos :: "failed_repo list"
  ftMainBranches :: "main_branch list"
  ftUnchanged :: "string list"
  ftSpent :: "spend option"

definition no_rows :: "forge_health \<Rightarrow> fetch_result" where
  "no_rows h = \<lparr>ftHealth = h, ftPullRequests = [], ftIssues = [], ftRepos = [], ftFailedRepos = [],
     ftMainBranches = [], ftUnchanged = [], ftSpent = None\<rparr>"

definition markMainBranchesStale :: "main_branch list \<Rightarrow> time \<Rightarrow> main_branch list" where
  "markMainBranchesStale rows since = map (\<lambda>r.
     if mbStaleSince r = None then r\<lparr>mbStaleSince := Some since\<rparr> else r) rows"

definition carryOver :: "fetch_result \<Rightarrow> snapshot \<Rightarrow> forge \<Rightarrow> fetch_result" where
  "carryOver res earlier forge = res\<lparr>
     ftPullRequests := filter (\<lambda>pr. prForge pr = forge) (snPullRequests earlier),
     ftIssues := filter (\<lambda>i. isForge i = forge) (snIssues earlier),
     ftRepos := filter (\<lambda>r. rpForge r = forge) (snRepos earlier),
     ftMainBranches := markMainBranchesStale (filter (\<lambda>m. mbForge m = forge) (snMainBranches earlier))
       (snGeneratedAt earlier)\<rparr>"

definition markUnreachable :: "forge_health \<Rightarrow> forge_health" where
  "markUnreachable h = h\<lparr>fhReachable := False, fhError := HumanizeForgeError ForgeErrorUnreachable,
     fhErrorKind := Some ForgeErrorUnreachable\<rparr>"

definition unreachableFrom :: "snapshot \<Rightarrow> forge \<Rightarrow> forge_health" where
  "unreachableFrom snap forge = markUnreachable
     ((case healthOf snap forge of Some h \<Rightarrow> h | None \<Rightarrow> zero_health)\<lparr>fhForge := forge\<rparr>)"

record source_result =
  soForge :: forge
  soResult :: fetch_result
  soAsked :: bool

text \<open>
  One source in \<open>fetchSources\<close>. \<open>held\<close>: a background run nobody waits on, and the forge at its
  reserve; \<open>running\<close>: its last fetch has not returned; \<open>answer\<close>: what it answers, \<open>None\<close> when the
  deadline passes first.
\<close>

definition fetchSource :: "snapshot \<Rightarrow> time \<Rightarrow> bool \<Rightarrow> bool \<Rightarrow> fetch_result option \<Rightarrow> forge \<Rightarrow> source_result" where
  "fetchSource earlier now held running answer forge = (case exhaustedHealth earlier forge now of
       Some h \<Rightarrow> \<lparr>soForge = forge, soResult = carryOver (no_rows h) earlier forge, soAsked = False\<rparr>
     | None \<Rightarrow>
         if held then \<lparr>soForge = forge, soResult = carryOver (no_rows
             (case healthOf earlier forge of Some h \<Rightarrow> h | None \<Rightarrow> zero_health)) earlier forge, soAsked = False\<rparr>
         else if running then \<lparr>soForge = forge, soResult = no_rows (unreachableFrom earlier forge), soAsked = False\<rparr>
         else (case answer of
             Some res \<Rightarrow> \<lparr>soForge = forge, soResult = res, soAsked = True\<rparr>
           | None \<Rightarrow> \<lparr>soForge = forge, soResult = no_rows (unreachableFrom earlier forge), soAsked = True\<rparr>))"

definition rowsRead :: "source_result list \<Rightarrow> read_rows" where
  "rowsRead results = onlyRead (set (concat (map (\<lambda>r. if soAsked r
     then map pr_key (ftPullRequests (soResult r)) else []) results)))"

definition fullPassEvery :: nat where
  "fullPassEvery = 6"

definition incrementalAllowed :: "nat \<Rightarrow> bool \<Rightarrow> nat \<Rightarrow> bool" where
  "incrementalAllowed passes background users \<longleftrightarrow>
     (if passes mod fullPassEvery = 0 then False else background \<and> users = 0)"

definition notePass :: "bool \<Rightarrow> bool \<Rightarrow> nat \<Rightarrow> nat" where
  "notePass incremental fetched passes = (if \<not> fetched then passes
     else if incremental then passes + 1 else 1)"

section \<open>What a refresh keeps\<close>

text \<open>The stale and failing marks of one repo whose rows could not be fetched.\<close>

definition staleMarks :: "time \<Rightarrow> snapshot \<Rightarrow> repo_key \<Rightarrow> time \<times> time" where
  "staleMarks now earlier key =
     (let (since, failing) = fold (\<lambda>r (since, failing).
            if (rpForge r, rpFullName r) \<noteq> key then (since, failing)
            else (case rpStaleSince r of Some t \<Rightarrow> t | None \<Rightarrow> since,
                  case rpFailingSince r of Some t \<Rightarrow> t | None \<Rightarrow> failing))
          (snRepos earlier) (snGeneratedAt earlier, now)
      in (if since = zero_time then failing else since, failing))"

definition markRepoStale :: "time \<Rightarrow> repo list \<Rightarrow> snapshot \<Rightarrow> repo_key \<Rightarrow> repo list" where
  "markRepoStale now repos earlier key = (let (since, failing) = staleMarks now earlier key in
     map (\<lambda>r. if (rpForge r, rpFullName r) = key
       then r\<lparr>rpStaleSince := Some since, rpFailingSince := Some failing\<rparr> else r) repos)"

definition keepFailedRepo :: "time \<Rightarrow> snapshot \<Rightarrow> forge \<Rightarrow> failed_repo \<Rightarrow> fetch_result \<Rightarrow> fetch_result" where
  "keepFailedRepo now earlier forge failed res =
     (let repo = flFullName failed in res\<lparr>
        ftPullRequests := ftPullRequests res @ (if flPullRequests failed
          then filter (in_repo forge repo) (snPullRequests earlier) else []),
        ftIssues := ftIssues res @ (if flIssues failed
          then filter (issue_in_repo forge repo) (snIssues earlier) else []),
        ftMainBranches := ftMainBranches res @ (if flMainBranch failed
          then markMainBranchesStale (filter (\<lambda>m. mbForge m = forge \<and> mbFullName m = repo)
                 (snMainBranches earlier)) (snGeneratedAt earlier) else []),
        ftRepos := markRepoStale now (ftRepos res) earlier (forge, repo)\<rparr>)"

definition keepFailedRepos :: "time \<Rightarrow> fetch_result \<Rightarrow> snapshot \<Rightarrow> forge \<Rightarrow> fetch_result" where
  "keepFailedRepos now res earlier forge = fold (keepFailedRepo now earlier forge) (ftFailedRepos res) res"

definition keepUnchangedRepos :: "fetch_result \<Rightarrow> snapshot \<Rightarrow> forge \<Rightarrow> fetch_result" where
  "keepUnchangedRepos res earlier forge = (let skipped = set (ftUnchanged res) in res\<lparr>
     ftPullRequests := ftPullRequests res @
       filter (\<lambda>pr. prForge pr = forge \<and> prRepo pr \<in> skipped) (snPullRequests earlier),
     ftIssues := ftIssues res @
       filter (\<lambda>i. isForge i = forge \<and> isRepo i \<in> skipped) (snIssues earlier),
     ftMainBranches := ftMainBranches res @
       filter (\<lambda>m. mbForge m = forge \<and> mbFullName m \<in> skipped) (snMainBranches earlier)\<rparr>)"

text \<open>
  One source's part of \<open>refreshOnce\<close>: its rows as the snapshot will hold them, and when the forge
  was last good. \<open>blocked\<close> is what the source says it cannot do (\<open>noteBlockedActions\<close>).
\<close>

definition sourceRows :: "time \<Rightarrow> (forge \<Rightarrow> string \<times> string) \<Rightarrow> snapshot \<Rightarrow> source_result \<Rightarrow>
    (forge \<rightharpoonup> time) \<Rightarrow> fetch_result \<times> (forge \<rightharpoonup> time)" where
  "sourceRows now blocked earlier sr goodAt =
     (let r = soResult sr; forge = soForge sr;
          (r', goodAt') = (if fhReachable (ftHealth r)
             then (keepUnchangedRepos (keepFailedRepos now r earlier forge) earlier forge, goodAt(forge \<mapsto> now))
             else (case goodAt forge of
                 Some at \<Rightarrow> (let c = carryOver r earlier forge
                             in c\<lparr>ftHealth := (ftHealth c)\<lparr>fhStaleSince := Some at\<rparr>\<rparr>, goodAt)
               | None \<Rightarrow> (r, goodAt)))
      in (r'\<lparr>ftHealth := (ftHealth r')\<lparr>fhDependabotCommandsBlocked := fst (blocked forge),
            fhRerunChecksBlocked := snd (blocked forge)\<rparr>\<rparr>, goodAt'))"

fun gatherRows :: "time \<Rightarrow> (forge \<Rightarrow> string \<times> string) \<Rightarrow> snapshot \<Rightarrow> source_result list \<Rightarrow>
    snapshot \<times> (forge \<rightharpoonup> time) \<Rightarrow> snapshot \<times> (forge \<rightharpoonup> time)" where
  "gatherRows now blocked earlier [] x = x"
| "gatherRows now blocked earlier (sr # srs) (snap, goodAt) =
     (let (r, goodAt') = sourceRows now blocked earlier sr goodAt
      in gatherRows now blocked earlier srs (snap\<lparr>snForges := snForges snap @ [ftHealth r],
           snPullRequests := snPullRequests snap @ ftPullRequests r,
           snIssues := snIssues snap @ ftIssues r,
           snRepos := snRepos snap @ ftRepos r,
           snMainBranches := snMainBranches snap @ ftMainBranches r\<rparr>, goodAt'))"

definition reachableForges :: "forge_health list \<Rightarrow> forge \<Rightarrow> bool" where
  "reachableForges forges f = (case find_last (\<lambda>h. fhForge h = f) forges of
     Some h \<Rightarrow> fhReachable h | None \<Rightarrow> False)"

definition keepRows :: "repo list \<Rightarrow> repo list \<Rightarrow> (repo_key \<Rightarrow> bool) \<Rightarrow> repo list" where
  "keepRows repos current newer =
     (let kept = index_by (\<lambda>r. (rpForge r, rpFullName r)) (filter (\<lambda>r. newer (rpForge r, rpFullName r)) current)
      in map (\<lambda>r. case kept (rpForge r, rpFullName r) of Some row \<Rightarrow> row | None \<Rightarrow> r) repos)"

definition keepNewerScopedRepos :: "(repo_key \<times> nat) list \<Rightarrow> nat \<Rightarrow> snapshot \<Rightarrow> snapshot \<Rightarrow> snapshot" where
  "keepNewerScopedRepos scoped seq snap current =
     (let newer = set (map fst (filter (\<lambda>(_, s). s > seq) scoped));
          newerPR = (\<lambda>pr. (prForge pr, prRepo pr) \<in> newer);
          newerIssue = (\<lambda>i. (isForge i, isRepo i) \<in> newer)
      in if newer = {} then snap
         else snap\<lparr>
           snPullRequests := sortPullRequests (annotateAll
             (filter (\<lambda>pr. \<not> newerPR pr) (snPullRequests snap) @ filter newerPR (snPullRequests current))),
           snIssues := sortIssues
             (filter (\<lambda>i. \<not> newerIssue i) (snIssues snap) @ filter newerIssue (snIssues current)),
           snRepos := keepRows (snRepos snap) (snRepos current) (\<lambda>key. key \<in> newer)\<rparr>)"

text \<open>
  \<open>refreshOnce\<close> in its two parts. \<open>assembleRefresh\<close> runs while other goroutines change the board:
  it reads the snapshot once, holds back the settled pull requests and moves the requests along.
  \<open>swapRefresh\<close> is the stretch under the snapshot's lock.
\<close>

record refresh_pass =
  rpsSnap :: snapshot
  rpsGoodAt :: "forge \<rightharpoonup> time"
  rpsReachable :: "forge \<Rightarrow> bool"
  rpsRead :: read_rows

definition assembleRefresh :: "time \<Rightarrow> duration \<Rightarrow> (forge \<Rightarrow> string \<times> string) \<Rightarrow> nat \<Rightarrow>
    source_result list \<Rightarrow> board \<Rightarrow> board \<times> refresh_pass" where
  "assembleRefresh now window blocked seq results b =
     (let (snap, goodAt) = gatherRows now blocked (bdSnap b) results
            (newEmptySnapshot\<lparr>snGeneratedAt := now\<rparr>, bdLastGood b);
          (settled, prs) = withoutSettled now window (ForgeOther '''') '''' (bdSettled b, snPullRequests snap);
          reachable = reachableForges (snForges snap);
          (st, rows) = applyBotRequests seq now (\<lambda>f _. reachable f) (bdBots b, prs)
      in (b\<lparr>bdSettled := settled, bdBots := st\<rparr>,
          \<lparr>rpsSnap = snap\<lparr>snPullRequests := sortPullRequests (annotateAll rows),
                          snIssues := sortIssues (snIssues snap)\<rparr>,
           rpsGoodAt = goodAt, rpsReachable = reachable, rpsRead = rowsRead results\<rparr>))"

definition swapRefresh :: "nat \<Rightarrow> refresh_pass \<Rightarrow> board \<Rightarrow> board" where
  "swapRefresh seq p b =
     (let snap = keepNewerScopedRepos (bdScoped b) seq (rpsSnap p) (bdSnap b);
          (st, rows) = annotateUnderLock seq (\<lambda>f _. rpsReachable p f) (rpsRead p)
            (bdBots b, snPullRequests snap)
      in b\<lparr>bdBots := st, bdSnap := snap\<lparr>snPullRequests := rows\<rparr>, bdLastGood := rpsGoodAt p\<rparr>)"

definition refreshOnce :: "time \<Rightarrow> duration \<Rightarrow> (forge \<Rightarrow> string \<times> string) \<Rightarrow> nat \<Rightarrow>
    source_result list \<Rightarrow> board \<Rightarrow> board" where
  "refreshOnce now window blocked seq results b =
     (let (b', p) = assembleRefresh now window blocked seq results b in swapRefresh seq p b')"

section \<open>Rate limit transitions\<close>

datatype limit_change = RateLimitExhausted | RateLimitRefreshed

definition logOneRateLimitTransition :: "rate_limit option \<Rightarrow> rate_limit option \<Rightarrow> limit_change option" where
  "logOneRateLimitTransition previous current = (case current of None \<Rightarrow> None
     | Some cur \<Rightarrow>
         (let was = (case previous of None \<Rightarrow> False | Some p \<Rightarrow> rlRemaining p = 0);
              is = (rlRemaining cur = 0)
          in if is \<and> \<not> was then Some RateLimitExhausted
             else if was \<and> \<not> is then Some RateLimitRefreshed else None))"

definition logRateLimitTransitions :: "forge_health list \<Rightarrow> forge_health list \<Rightarrow>
    (forge \<times> bool \<times> limit_change) list" where
  "logRateLimitTransitions previous current = concat (map (\<lambda>cur.
     let prev = (case find_last (\<lambda>h. fhForge h = fhForge cur) previous of Some h \<Rightarrow> h | None \<Rightarrow> zero_health);
         note = (\<lambda>gql p c. case logOneRateLimitTransition p c of
             Some x \<Rightarrow> [(fhForge cur, gql, x)] | None \<Rightarrow> [])
     in note True (fhRateLimitGraphQL prev) (fhRateLimitGraphQL cur)
        @ note False (fhRateLimitREST prev) (fhRateLimitREST cur)) current)"

section \<open>What the annotations leave alone\<close>

text \<open>A row without the fields the board writes itself: requests, stack position, rebase box.\<close>

definition row_facts :: "pull_request \<Rightarrow> pull_request" where
  "row_facts pr = pr\<lparr>prBotRequest := None, prUpdateRequest := None, prStack := None, prStackedOn := None,
     prStackChildren := [], prRenovateRebaseRequested := False\<rparr>"

lemma row_facts_eqs:
  assumes "row_facts p = row_facts q"
  shows "prForge p = prForge q" "prRepo p = prRepo q" "prNumber p = prNumber q"
    "prUpdatedAt p = prUpdatedAt q" "pr_key p = pr_key q" "in_repo f r p = in_repo f r q"
proof -
  from arg_cong[OF assms, of prForge] show a: "prForge p = prForge q" by (simp add: row_facts_def)
  from arg_cong[OF assms, of prRepo] show b: "prRepo p = prRepo q" by (simp add: row_facts_def)
  from arg_cong[OF assms, of prNumber] show c: "prNumber p = prNumber q" by (simp add: row_facts_def)
  from arg_cong[OF assms, of prUpdatedAt] show "prUpdatedAt p = prUpdatedAt q" by (simp add: row_facts_def)
  from a b c show "pr_key p = pr_key q" "in_repo f r p = in_repo f r q" by (simp_all add: pr_key_def in_repo_def)
qed

lemma row_facts_fields [simp]: "prForge (row_facts p) = prForge p" "prRepo (row_facts p) = prRepo p"
  "prUpdatedAt (row_facts p) = prUpdatedAt p" "pr_key (row_facts p) = pr_key p"
  "in_repo f r (row_facts p) = in_repo f r p"
  by (simp_all add: row_facts_def pr_key_def in_repo_def)

lemma facts_annotateAll [simp]: "map row_facts (annotateAll prs) = map row_facts prs"
  by (rule nth_equalityI) (simp_all add: annotateAll_def AnnotateStacks_eq annotated_def row_facts_def)

lemma facts_annotateBot [simp]: "map row_facts (annotateBotRequests st prs) = map row_facts prs"
  by (simp add: annotateBotRequests_def annotateRowRequests_def row_facts_def)

lemma facts_settleRows:
  "settleRows seq covers read ov prs = (ov', prs') \<Longrightarrow> map row_facts prs' = map row_facts prs"
proof (induction prs arbitrary: ov ov' prs')
  case (Cons pr prs)
  from Cons.prems show ?case
    by (auto simp: row_facts_def split: option.splits prod.splits if_splits dest!: Cons.IH)
qed simp

lemma facts_settleBox [simp]:
  "settleBoxOverrides seq covers read (st, prs) = (st', prs') \<Longrightarrow> map row_facts prs' = map row_facts prs"
  by (auto simp: settleBoxOverrides_def Let_def split: prod.splits dest: facts_settleRows)

lemma facts_applyBot [simp]:
  "applyBotRequests seq now covers (st, prs) = (st', prs') \<Longrightarrow> map row_facts prs' = map row_facts prs"
  by (auto simp: applyBotRequests_def Let_def)

lemma facts_under_lock [simp]:
  "annotateUnderLock seq covers read (st, prs) = (st', prs') \<Longrightarrow> map row_facts prs' = map row_facts prs"
  by (auto simp: annotateUnderLock_def split: prod.splits)

lemma facts_sort [simp]: "mset (map row_facts (sortPullRequests prs)) = mset (map row_facts prs)"
  by (simp add: sortPullRequests_def)

lemmas facts_simps = facts_annotateAll facts_annotateBot facts_settleBox facts_applyBot facts_under_lock

definition newest_first :: "pull_request list \<Rightarrow> bool" where
  "newest_first prs \<longleftrightarrow> sorted_wrt (\<ge>) (map prUpdatedAt prs)"

lemma newest_first_facts: "map row_facts ps = map row_facts qs \<Longrightarrow> newest_first ps = newest_first qs"
proof -
  assume "map row_facts ps = map row_facts qs"
  then have "map prUpdatedAt (map row_facts ps) = map prUpdatedAt (map row_facts qs)" by (rule arg_cong)
  then show ?thesis by (simp add: newest_first_def comp_def)
qed

lemma newest_first_sort [simp]: "newest_first (sortPullRequests prs)"
proof -
  have "sorted (map (\<lambda>pr. - prUpdatedAt pr) (sortPullRequests prs))"
    by (simp add: sortPullRequests_def)
  then show ?thesis by (simp add: newest_first_def sorted_wrt_map)
qed

lemma newest_issues_sort: "sorted_wrt (\<ge>) (map isUpdatedAt (sortIssues is))"
proof -
  have "sorted (map (\<lambda>i. - isUpdatedAt i) (sortIssues is))"
    by (simp add: sortIssues_def)
  then show ?thesis by (simp add: sorted_wrt_map)
qed

lemma mset_sortIssues [simp]: "mset (sortIssues is) = mset is"
  by (simp add: sortIssues_def)

section \<open>A scoped refresh\<close>

lemma mergedRepo_facts:
  assumes "mergedRepo now window forge repo seq branch prs issues read (b, current) = (b', merged)"
  shows "mset (map row_facts (snPullRequests merged)) =
      mset (map row_facts (filter (\<lambda>pr. \<not> in_repo forge repo pr) (snPullRequests current) @
        filter (\<lambda>pr. bdSettled b' (pr_key pr) = None) prs))"
    "mset (snIssues merged) = mset (filter (\<lambda>i. \<not> issue_in_repo forge repo i) (snIssues current) @ issues)"
    "newest_first (snPullRequests merged)" "sorted_wrt (\<ge>) (map isUpdatedAt (snIssues merged))"
    "snMainBranches merged = withMainBranch (snMainBranches current) forge repo branch"
    "bdSettled b' = fst (withoutSettled now window forge repo (bdSettled b, prs))"
    "bdScoped b' = AList.update (forge, repo) seq (bdScoped b)" "bdSnap b' = bdSnap b"
proof -
  let ?covers = "\<lambda>f r. f = forge \<and> r = repo"
  let ?others = "filter (\<lambda>pr. \<not> in_repo forge repo pr) (snPullRequests current)"
  obtain settled fresh where w: "withoutSettled now window forge repo (bdSettled b, prs) = (settled, fresh)"
    by fastforce
  obtain st1 rows1 where s: "settleBoxOverrides seq ?covers read (bdBots b, ?others @ fresh) = (st1, rows1)"
    by fastforce
  obtain st2 rows2 where a: "applyBotRequests seq now ?covers (st1, rows1) = (st2, rows2)" by fastforce
  have m: "snPullRequests merged = annotateBotRequests st2 (sortPullRequests (annotateAll rows2))"
    "snIssues merged = sortIssues (filter (\<lambda>i. \<not> issue_in_repo forge repo i) (snIssues current) @ issues)"
    "snMainBranches merged = withMainBranch (snMainBranches current) forge repo branch"
    "bdSettled b' = settled" "bdScoped b' = AList.update (forge, repo) seq (bdScoped b)" "bdSnap b' = bdSnap b"
    using assms by (auto simp: mergedRepo_def w s a Let_def)
  have f: "fresh = filter (\<lambda>pr. settled (pr_key pr) = None) prs"
    using w by (auto simp: withoutSettled_def Let_def)
  have "map row_facts rows2 = map row_facts (?others @ fresh)"
    using facts_applyBot[OF a] facts_settleBox[OF s] by simp
  then show "mset (map row_facts (snPullRequests merged)) = mset (map row_facts (?others @
      filter (\<lambda>pr. bdSettled b' (pr_key pr) = None) prs))"
    using m(1,4) f by (simp del: mset_map map_append)
  show "newest_first (snPullRequests merged)"
    using newest_first_facts[OF facts_annotateBot] m(1) by simp
  show "mset (snIssues merged) = mset (filter (\<lambda>i. \<not> issue_in_repo forge repo i) (snIssues current) @ issues)"
    "sorted_wrt (\<ge>) (map isUpdatedAt (snIssues merged))"
    using m(2) newest_issues_sort by simp_all
qed (use assms in \<open>auto simp: mergedRepo_def Let_def split: prod.splits\<close>)

lemma mergeRepo_simps:
  assumes "mergedRepo now window forge repo seq branch prs issues all_rows (b, bdSnap b) = (b1, merged)"
  shows "snPullRequests (bdSnap (mergeRepo now window forge repo seq prs issues branch ok b)) = snPullRequests merged"
    "snIssues (bdSnap (mergeRepo now window forge repo seq prs issues branch ok b)) = snIssues merged"
    "snMainBranches (bdSnap (mergeRepo now window forge repo seq prs issues branch ok b)) = snMainBranches merged"
    "bdSettled (mergeRepo now window forge repo seq prs issues branch ok b) = bdSettled b1"
  using assms by (simp_all add: mergeRepo_def mergeReposFrom_def Let_def)

text \<open>
  A scoped refresh of one repository replaces that repository's rows by the fetched ones, less those held
  back as settled, and nothing else: every other repository keeps its pull requests (up to the
  fields the board itself writes), its issues and its default branch, and both lists end newest first.
\<close>

theorem scoped_refresh_replaces_one_repo:
  assumes "\<And>m. branch = Some m \<Longrightarrow> mbForge m = forge \<and> mbFullName m = repo"
  shows "let b' = mergeRepo now window forge repo seq prs issues branch ok b;
       other = (\<lambda>m. \<not> (mbForge m = forge \<and> mbFullName m = repo))
   in mset (map row_facts (snPullRequests (bdSnap b'))) =
        mset (map row_facts (filter (\<lambda>pr. \<not> in_repo forge repo pr) (snPullRequests (bdSnap b)) @
          filter (\<lambda>pr. bdSettled b' (pr_key pr) = None) prs)) \<and>
      mset (snIssues (bdSnap b')) =
        mset (filter (\<lambda>i. \<not> issue_in_repo forge repo i) (snIssues (bdSnap b)) @ issues) \<and>
      newest_first (snPullRequests (bdSnap b')) \<and>
      sorted_wrt (\<ge>) (map isUpdatedAt (snIssues (bdSnap b'))) \<and>
      filter other (snMainBranches (bdSnap b')) = filter other (snMainBranches (bdSnap b))"
proof -
  let ?other = "\<lambda>m. \<not> (mbForge m = forge \<and> mbFullName m = repo)"
  obtain b1 merged where m: "mergedRepo now window forge repo seq branch prs issues all_rows (b, bdSnap b) = (b1, merged)"
    by fastforce
  have "filter ?other (map (\<lambda>r. if mbForge r = forge \<and> mbFullName r = repo then x else r) rows) = filter ?other rows"
    if "\<not> ?other x" for x rows
    using that by (induction rows) auto
  then have "filter ?other (withMainBranch rows forge repo branch) = filter ?other rows" for rows
    using assms by (auto simp: withMainBranch_def Let_def split: option.split)
  then show ?thesis
    using mergedRepo_facts[OF m] by (simp add: Let_def mergeRepo_simps[OF m])
qed

definition quiet_repo_pr :: "int \<Rightarrow> pull_request" where
  "quiet_repo_pr n = zero_pr\<lparr>prRepo := ''a/b'', prNumber := n\<rparr>"

definition start_board :: board where
  "start_board = \<lparr>bdSnap = newEmptySnapshot, bdSettled = Map.empty, bdScoped = [], bdLastGood = Map.empty,
     bdBots = no_requests\<rparr>"

lemma scoped_refresh_replaces_one_repo_witness:
  "newest_first (snPullRequests (bdSnap (mergeRepo 5 minute ForgeGitHub ''a/b'' 1
     [quiet_repo_pr 1, (quiet_repo_pr 2)\<lparr>prUpdatedAt := 3\<rparr>] [] None True start_board)))"
  using scoped_refresh_replaces_one_repo[of None ForgeGitHub "''a/b''" 5 minute 1
      "[quiet_repo_pr 1, (quiet_repo_pr 2)\<lparr>prUpdatedAt := 3\<rparr>]" "[]" True start_board]
  by (simp only: Let_def) blast

section \<open>A full refresh\<close>

lemma filter_facts:
  "mset (map row_facts ps) = mset (map row_facts qs) \<Longrightarrow>
   mset (map row_facts (filter (in_repo f r) ps)) = mset (map row_facts (filter (in_repo f r) qs))"
proof -
  have c: "mset (map row_facts (filter (in_repo f r) xs)) = filter_mset (in_repo f r) (mset (map row_facts xs))" for xs
    by (induction xs) auto
  show "mset (map row_facts ps) = mset (map row_facts qs) \<Longrightarrow> ?thesis" by (simp only: c)
qed

lemma newer_iff:
  assumes "distinct (map fst (bdScoped b))"
  shows "k \<in> set (map fst (filter (\<lambda>(_, s). s > seq) (bdScoped b))) \<longleftrightarrow> scopedSeq b k > seq"
proof
  assume "k \<in> set (map fst (filter (\<lambda>(_, s). s > seq) (bdScoped b)))"
  then obtain n where "(k, n) \<in> set (bdScoped b)" "n > seq" by auto
  with map_of_is_SomeI[OF assms] show "scopedSeq b k > seq" by (simp add: scopedSeq_def)
next
  assume "scopedSeq b k > seq"
  then obtain n where "map_of (bdScoped b) k = Some n" "n > seq"
    by (auto simp: scopedSeq_def split: option.splits)
  then have "(k, n) \<in> set (filter (\<lambda>(_, s). s > seq) (bdScoped b))" by (auto dest: map_of_SomeD)
  then show "k \<in> set (map fst (filter (\<lambda>(_, s). s > seq) (bdScoped b)))"
    by (force simp only: set_map image_iff fst_conv)
qed

lemma pick_repo:
  "filter (in_repo f r) (filter (\<lambda>pr. (prForge pr, prRepo pr) \<notin> N) xs @ filter (\<lambda>pr. (prForge pr, prRepo pr) \<in> N) ys) =
     filter (in_repo f r) (if (f, r) \<in> N then ys else xs)"
proof -
  have "filter (in_repo f r) (filter (\<lambda>pr. (prForge pr, prRepo pr) \<notin> N) xs) = (if (f, r) \<in> N then [] else filter (in_repo f r) xs)"
    unfolding in_repo_def[abs_def] by (induction xs) auto
  moreover have "filter (in_repo f r) (filter (\<lambda>pr. (prForge pr, prRepo pr) \<in> N) ys) = (if (f, r) \<in> N then filter (in_repo f r) ys else [])"
    unfolding in_repo_def[abs_def] by (induction ys) auto
  ultimately show ?thesis by simp
qed

lemma pick_repo_issues:
  "filter (issue_in_repo f r) (filter (\<lambda>i. (isForge i, isRepo i) \<notin> N) xs @ filter (\<lambda>i. (isForge i, isRepo i) \<in> N) ys) =
     filter (issue_in_repo f r) (if (f, r) \<in> N then ys else xs)"
proof -
  have "filter (issue_in_repo f r) (filter (\<lambda>i. (isForge i, isRepo i) \<notin> N) xs) = (if (f, r) \<in> N then [] else filter (issue_in_repo f r) xs)"
    unfolding issue_in_repo_def[abs_def] by (induction xs) auto
  moreover have "filter (issue_in_repo f r) (filter (\<lambda>i. (isForge i, isRepo i) \<in> N) ys) = (if (f, r) \<in> N then filter (issue_in_repo f r) ys else [])"
    unfolding issue_in_repo_def[abs_def] by (induction ys) auto
  ultimately show ?thesis by simp
qed

lemma keepNewer_repo:
  assumes "distinct (map fst (bdScoped b))"
  shows "mset (map row_facts (filter (in_repo f r) (snPullRequests (keepNewerScopedRepos (bdScoped b) seq snap cur)))) =
      mset (map row_facts (filter (in_repo f r) (snPullRequests (if scopedSeq b (f, r) > seq then cur else snap))))"
    "mset (filter (issue_in_repo f r) (snIssues (keepNewerScopedRepos (bdScoped b) seq snap cur))) =
      mset (filter (issue_in_repo f r) (snIssues (if scopedSeq b (f, r) > seq then cur else snap)))"
proof -
  define new where "new = set (map fst (filter (\<lambda>(_, s). s > seq) (bdScoped b)))"
  let ?P = "\<lambda>pr. (prForge pr, prRepo pr) \<in> new" and ?I = "\<lambda>i. (isForge i, isRepo i) \<in> new"
  have mem: "(f, r) \<in> new \<longleftrightarrow> scopedSeq b (f, r) > seq" unfolding new_def by (rule newer_iff[OF assms])
  let ?k = "keepNewerScopedRepos (bdScoped b) seq snap cur"
  have k: "?k = (if new = {} then snap else snap\<lparr>
       snPullRequests := sortPullRequests (annotateAll (filter (\<lambda>pr. \<not> ?P pr) (snPullRequests snap) @ filter ?P (snPullRequests cur))),
       snIssues := sortIssues (filter (\<lambda>i. \<not> ?I i) (snIssues snap) @ filter ?I (snIssues cur)),
       snRepos := keepRows (snRepos snap) (snRepos cur) (\<lambda>key. key \<in> new)\<rparr>)"
    unfolding keepNewerScopedRepos_def Let_def new_def by simp
  let ?rows = "filter (\<lambda>pr. \<not> ?P pr) (snPullRequests snap) @ filter ?P (snPullRequests cur)"
  have m: "mset (map row_facts (sortPullRequests (annotateAll ?rows))) = mset (map row_facts ?rows)"
    by (simp only: facts_sort facts_annotateAll)
  show "mset (map row_facts (filter (in_repo f r) (snPullRequests ?k))) =
      mset (map row_facts (filter (in_repo f r) (snPullRequests (if scopedSeq b (f, r) > seq then cur else snap))))"
    using filter_facts[OF m, of f r] pick_repo[of f r new "snPullRequests snap" "snPullRequests cur"] mem
    unfolding k by (cases "new = {}"; cases "(f, r) \<in> new") simp_all
  have i: "mset (filter (issue_in_repo f r) (sortIssues xs)) = mset (filter (issue_in_repo f r) xs)" for xs
    by simp
  show "mset (filter (issue_in_repo f r) (snIssues ?k)) =
      mset (filter (issue_in_repo f r) (snIssues (if scopedSeq b (f, r) > seq then cur else snap)))"
  proof (cases "new = {}")
    case True
    then show ?thesis using mem unfolding k by simp
  next
    case False
    have "mset (filter (issue_in_repo f r) (sortIssues
        (filter (\<lambda>i. \<not> ?I i) (snIssues snap) @ filter ?I (snIssues cur)))) =
      mset (filter (issue_in_repo f r) (if (f, r) \<in> new then snIssues cur else snIssues snap))"
      by (simp only: i pick_repo_issues)
    then show ?thesis
      using False mem unfolding k by (simp del: mset_filter)
  qed
qed

text \<open>
  C17: A full refresh never undoes a newer scoped one: for a repository merged by a scoped refresh that
  began after this one, the rows published are the ones already on the board; every other
  repository takes what this refresh fetched. Whatever happened to the board since the fetch.
\<close>

theorem full_refresh_keeps_newer_repos:
  assumes "distinct (map fst (bdScoped b))" "b' = swapRefresh seq p b"
  shows "mset (map row_facts (filter (in_repo f r) (snPullRequests (bdSnap b')))) =
      mset (map row_facts (filter (in_repo f r)
        (snPullRequests (if scopedSeq b (f, r) > seq then bdSnap b else rpsSnap p)))) \<and>
    mset (filter (issue_in_repo f r) (snIssues (bdSnap b'))) =
      mset (filter (issue_in_repo f r) (snIssues (if scopedSeq b (f, r) > seq then bdSnap b else rpsSnap p)))"
proof -
  let ?snap = "keepNewerScopedRepos (bdScoped b) seq (rpsSnap p) (bdSnap b)"
  obtain st rows where u: "annotateUnderLock seq (\<lambda>f _. rpsReachable p f) (rpsRead p)
      (bdBots b, snPullRequests ?snap) = (st, rows)" by fastforce
  have s: "bdSnap b' = ?snap\<lparr>snPullRequests := rows\<rparr>" using assms(2) u by (simp add: swapRefresh_def Let_def)
  have "mset (map row_facts rows) = mset (map row_facts (snPullRequests ?snap))"
    using facts_under_lock[OF u] by (rule arg_cong)
  from filter_facts[OF this, of f r] show ?thesis
    using keepNewer_repo[OF assms(1), of f r seq "rpsSnap p" "bdSnap b"] s by simp
qed

definition scoped_board :: board where
  "scoped_board = start_board\<lparr>bdScoped := [((ForgeGitHub, ''a/b''), 9)]\<rparr>"

definition old_pass :: refresh_pass where
  "old_pass = \<lparr>rpsSnap = newEmptySnapshot\<lparr>snPullRequests := [quiet_repo_pr 1]\<rparr>, rpsGoodAt = Map.empty,
     rpsReachable = (\<lambda>_. True), rpsRead = all_rows\<rparr>"

lemma full_refresh_keeps_newer_repos_witness:
  "filter (in_repo ForgeGitHub ''a/b'') (snPullRequests (bdSnap (swapRefresh 4 old_pass scoped_board))) = []"
  using full_refresh_keeps_newer_repos[of scoped_board "swapRefresh 4 old_pass scoped_board" 4 old_pass
      ForgeGitHub "''a/b''"]
  by (simp add: scoped_board_def start_board_def scopedSeq_def newEmptySnapshot_def)

section \<open>Gathering the sources\<close>

text \<open>A source answers with rows of its own forge.\<close>

definition own_rows :: "source_result \<Rightarrow> bool" where
  "own_rows sr \<longleftrightarrow> list_all (\<lambda>pr. prForge pr = soForge sr) (ftPullRequests (soResult sr)) \<and>
     list_all (\<lambda>i. isForge i = soForge sr) (ftIssues (soResult sr))"

lemma keepFailed_own:
  "list_all (\<lambda>pr. prForge pr = f) (ftPullRequests res) \<Longrightarrow>
     list_all (\<lambda>pr. prForge pr = f) (ftPullRequests (keepFailedRepos now res earlier f))"
  "list_all (\<lambda>i. isForge i = f) (ftIssues res) \<Longrightarrow>
     list_all (\<lambda>i. isForge i = f) (ftIssues (keepFailedRepos now res earlier f))"
proof -
  have one: "list_all (\<lambda>pr. prForge pr = f) (ftPullRequests res) \<Longrightarrow>
      list_all (\<lambda>pr. prForge pr = f) (ftPullRequests (keepFailedRepo now earlier f x res))"
    "list_all (\<lambda>i. isForge i = f) (ftIssues res) \<Longrightarrow>
      list_all (\<lambda>i. isForge i = f) (ftIssues (keepFailedRepo now earlier f x res))" for x res
    by (auto simp: keepFailedRepo_def Let_def list_all_iff in_repo_def issue_in_repo_def)
  have "list_all (\<lambda>pr. prForge pr = f) (ftPullRequests res) \<Longrightarrow>
      list_all (\<lambda>pr. prForge pr = f) (ftPullRequests (fold (keepFailedRepo now earlier f) xs res))"
    "list_all (\<lambda>i. isForge i = f) (ftIssues res) \<Longrightarrow>
      list_all (\<lambda>i. isForge i = f) (ftIssues (fold (keepFailedRepo now earlier f) xs res))" for xs
    by (induction xs arbitrary: res) (simp_all add: one)
  then show "list_all (\<lambda>pr. prForge pr = f) (ftPullRequests res) \<Longrightarrow>
     list_all (\<lambda>pr. prForge pr = f) (ftPullRequests (keepFailedRepos now res earlier f))"
    "list_all (\<lambda>i. isForge i = f) (ftIssues res) \<Longrightarrow>
     list_all (\<lambda>i. isForge i = f) (ftIssues (keepFailedRepos now res earlier f))"
    by (simp_all add: keepFailedRepos_def)
qed

lemma sourceRows_own:
  assumes "own_rows sr" "sourceRows now blocked earlier sr good = (r, good')"
  shows "list_all (\<lambda>pr. prForge pr = soForge sr) (ftPullRequests r)" "list_all (\<lambda>i. isForge i = soForge sr) (ftIssues r)"
    "f \<noteq> soForge sr \<Longrightarrow> good' f = good f"
  using assms keepFailed_own[where f = "soForge sr" and res = "soResult sr" and now = now and earlier = earlier]
  by (auto simp: sourceRows_def Let_def own_rows_def keepUnchangedRepos_def carryOver_def list_all_iff
      split: if_splits option.splits)

lemma sourceRows_good_cong:
  "good (soForge sr) = good2 (soForge sr) \<Longrightarrow>
   fst (sourceRows now blocked earlier sr good) = fst (sourceRows now blocked earlier sr good2) \<and>
   snd (sourceRows now blocked earlier sr good) (soForge sr) = snd (sourceRows now blocked earlier sr good2) (soForge sr)"
  by (auto simp: sourceRows_def Let_def split: option.splits)

lemma gather_other:
  "f \<notin> soForge ` set srs \<Longrightarrow> list_all own_rows srs \<Longrightarrow>
   filter (\<lambda>pr. prForge pr = f) (snPullRequests (fst (gatherRows now blocked earlier srs (snap, good)))) =
     filter (\<lambda>pr. prForge pr = f) (snPullRequests snap) \<and>
   filter (\<lambda>i. isForge i = f) (snIssues (fst (gatherRows now blocked earlier srs (snap, good)))) =
     filter (\<lambda>i. isForge i = f) (snIssues snap) \<and>
   set (snForges snap) \<subseteq> set (snForges (fst (gatherRows now blocked earlier srs (snap, good)))) \<and>
   snd (gatherRows now blocked earlier srs (snap, good)) f = good f"
proof (induction srs arbitrary: snap good)
  case (Cons sr srs)
  obtain r good' where s: "sourceRows now blocked earlier sr good = (r, good')" by fastforce
  have e: "filter (\<lambda>pr. prForge pr = f) (ftPullRequests r) = []" "filter (\<lambda>i. isForge i = f) (ftIssues r) = []"
    "good' f = good f"
    using sourceRows_own[OF _ s] Cons.prems by (auto simp: filter_empty_conv list_all_iff)
  let ?snap = "snap\<lparr>snForges := snForges snap @ [ftHealth r],
           snPullRequests := snPullRequests snap @ ftPullRequests r,
           snIssues := snIssues snap @ ftIssues r,
           snRepos := snRepos snap @ ftRepos r,
           snMainBranches := snMainBranches snap @ ftMainBranches r\<rparr>"
  from Cons.IH[of ?snap good'] Cons.prems e show ?case by (simp add: s)
qed simp

lemma gather_forge:
  assumes "distinct (map soForge srs)" "list_all own_rows srs" "sr \<in> set srs" "f = soForge sr"
    and "sourceRows now blocked earlier sr good = (r, good')"
  shows "filter (\<lambda>pr. prForge pr = f) (snPullRequests (fst (gatherRows now blocked earlier srs (snap, good)))) =
      filter (\<lambda>pr. prForge pr = f) (snPullRequests snap) @ ftPullRequests r \<and>
    filter (\<lambda>i. isForge i = f) (snIssues (fst (gatherRows now blocked earlier srs (snap, good)))) =
      filter (\<lambda>i. isForge i = f) (snIssues snap) @ ftIssues r \<and>
    ftHealth r \<in> set (snForges (fst (gatherRows now blocked earlier srs (snap, good)))) \<and>
    snd (gatherRows now blocked earlier srs (snap, good)) f = good' f"
  using assms
proof (induction srs arbitrary: snap good good')
  case (Cons x srs)
  obtain r1 good1 where s: "sourceRows now blocked earlier x good = (r1, good1)" by fastforce
  let ?snap = "snap\<lparr>snForges := snForges snap @ [ftHealth r1],
           snPullRequests := snPullRequests snap @ ftPullRequests r1,
           snIssues := snIssues snap @ ftIssues r1,
           snRepos := snRepos snap @ ftRepos r1,
           snMainBranches := snMainBranches snap @ ftMainBranches r1\<rparr>"
  have g: "gatherRows now blocked earlier (x # srs) (snap, good) = gatherRows now blocked earlier srs (?snap, good1)"
    by (simp add: s)
  have own: "list_all (\<lambda>pr. prForge pr = soForge x) (ftPullRequests r1)" "list_all (\<lambda>i. isForge i = soForge x) (ftIssues r1)"
    using sourceRows_own[OF _ s] Cons.prems by auto
  show ?case
  proof (cases "x = sr")
    case True
    then have "f \<notin> soForge ` set srs" "r1 = r" "good1 = good'"
      using Cons.prems s by auto
    moreover have "filter (\<lambda>pr. prForge pr = f) (ftPullRequests r1) = ftPullRequests r1"
      "filter (\<lambda>i. isForge i = f) (ftIssues r1) = ftIssues r1"
      using own True Cons.prems(4) by (auto simp: list_all_iff)
    ultimately show ?thesis
      using gather_other[of f srs now blocked earlier ?snap good1] Cons.prems g by auto
  next
    case False
    then have m: "sr \<in> set srs" and ne: "soForge x \<noteq> f" using Cons.prems by auto
    have "good1 f = good f" using sourceRows_own(3)[OF _ s, of f] Cons.prems ne by auto
    then obtain good2 where s2: "sourceRows now blocked earlier sr good1 = (r, good2)" "good2 f = good' f"
      using sourceRows_good_cong[of good1 sr good now blocked earlier] Cons.prems(4,5)
      by (cases "sourceRows now blocked earlier sr good1") auto
    have "filter (\<lambda>pr. prForge pr = f) (ftPullRequests r1) = []" "filter (\<lambda>i. isForge i = f) (ftIssues r1) = []"
      using own ne by (auto simp: list_all_iff filter_empty_conv)
    then show ?thesis
      using Cons.IH[OF _ _ m Cons.prems(4) s2(1), of ?snap] Cons.prems s2(2) g by simp
  qed
qed simp

section \<open>Outages and settled pull requests\<close>

text \<open>No scoped refresh was merged since the refresh took its number.\<close>

definition no_newer :: "nat \<Rightarrow> board \<Rightarrow> bool" where
  "no_newer seq b \<longleftrightarrow> list_all (\<lambda>x. snd x \<le> seq) (bdScoped b)"

lemma keepNewer_none: "no_newer seq b \<Longrightarrow> keepNewerScopedRepos (bdScoped b) seq snap cur = snap"
proof -
  assume "no_newer seq b"
  then have "filter (\<lambda>(_, s). s > seq) (bdScoped b) = []"
    by (auto simp: no_newer_def list_all_iff filter_empty_conv)
  then show ?thesis by (simp add: keepNewerScopedRepos_def)
qed

lemma refreshOnce_facts:
  assumes "no_newer seq b" "b' = refreshOnce now window blocked seq results b"
    and "gatherRows now blocked (bdSnap b) results (newEmptySnapshot\<lparr>snGeneratedAt := now\<rparr>, bdLastGood b) = (snap, good)"
    and "withoutSettled now window (ForgeOther '''') '''' (bdSettled b, snPullRequests snap) = (settled, prs)"
  shows "mset (map row_facts (snPullRequests (bdSnap b'))) = mset (map row_facts prs)"
    "mset (snIssues (bdSnap b')) = mset (snIssues snap)" "snForges (bdSnap b') = snForges snap"
    "bdSettled b' = settled" "bdLastGood b' = good"
proof -
  obtain st rows where a: "applyBotRequests seq now (\<lambda>f _. reachableForges (snForges snap) f) (bdBots b, prs) = (st, rows)"
    by fastforce
  let ?b1 = "b\<lparr>bdSettled := settled, bdBots := st\<rparr>"
  let ?p = "\<lparr>rpsSnap = snap\<lparr>snPullRequests := sortPullRequests (annotateAll rows), snIssues := sortIssues (snIssues snap)\<rparr>,
           rpsGoodAt = good, rpsReachable = reachableForges (snForges snap), rpsRead = rowsRead results\<rparr>"
  have p: "assembleRefresh now window blocked seq results b = (?b1, ?p)"
    using a assms(3,4) by (simp add: assembleRefresh_def)
  have n: "no_newer seq ?b1" using assms(1) by (simp add: no_newer_def)
  obtain st2 rows2 where u: "annotateUnderLock seq (\<lambda>f _. reachableForges (snForges snap) f) (rowsRead results)
      (st, sortPullRequests (annotateAll rows)) = (st2, rows2)" by fastforce
  have b': "b' = ?b1\<lparr>bdBots := st2, bdSnap := (rpsSnap ?p)\<lparr>snPullRequests := rows2\<rparr>, bdLastGood := good\<rparr>"
    using assms(2) p keepNewer_none[OF n, of "rpsSnap ?p" "bdSnap b"] u
    by (simp add: refreshOnce_def swapRefresh_def)
  have "mset (map row_facts rows2) = mset (map row_facts prs)"
    by (simp only: facts_under_lock[OF u] facts_sort facts_annotateAll facts_applyBot[OF a])
  then show "mset (map row_facts (snPullRequests (bdSnap b'))) = mset (map row_facts prs)" by (simp add: b')
  show "mset (snIssues (bdSnap b')) = mset (snIssues snap)" "snForges (bdSnap b') = snForges snap"
    "bdSettled b' = settled" "bdLastGood b' = good"
    by (simp_all add: b')
qed

lemma withoutSettled_all:
  assumes "withoutSettled now window (ForgeOther '''') '''' (S, prs) = (S', prs')"
  shows "S' key = (case S key of None \<Rightarrow> None
      | Some at \<Rightarrow> if time_sub now at > window \<or> key \<notin> pr_key ` set prs then None else Some at)"
    "prs' = filter (\<lambda>pr. S' (pr_key pr) = None) prs"
  using assms by (auto simp: withoutSettled_def Let_def settleScope_def split: option.split)

lemma facts_keys:
  "mset (map row_facts ps) = mset (map row_facts qs) \<Longrightarrow> pr_key ` set ps = pr_key ` set qs"
proof -
  assume "mset (map row_facts ps) = mset (map row_facts qs)"
  then have "row_facts ` set ps = row_facts ` set qs" by (metis list.set_map set_mset_mset)
  then have "pr_key ` row_facts ` set ps = pr_key ` row_facts ` set qs" by simp
  then show ?thesis by (simp add: image_image)
qed

lemma filter_facts_forge:
  "mset (map row_facts ps) = mset (map row_facts qs) \<Longrightarrow>
   mset (map row_facts (filter (\<lambda>pr. prForge pr = f) ps)) = mset (map row_facts (filter (\<lambda>pr. prForge pr = f) qs))"
proof -
  have c: "mset (map row_facts (filter (\<lambda>pr. prForge pr = f) xs)) =
      filter_mset (\<lambda>pr. prForge pr = f) (mset (map row_facts xs))" for xs
    by (induction xs) auto
  show "mset (map row_facts ps) = mset (map row_facts qs) \<Longrightarrow> ?thesis" by (simp only: c)
qed

text \<open>
  C18: An outage loses nothing. When a forge that was read before cannot be read, the refreshed board
  still has exactly the pull requests (up to the fields the board writes itself) and issues it had
  of that forge, its health says since when they are old, and the time it was last good stays.
\<close>

theorem outage_keeps_rows:
  assumes "no_newer seq b" "b' = refreshOnce now window blocked seq results b"
    and "distinct (map soForge results)" "list_all own_rows results" "sr \<in> set results"
    and "\<not> fhReachable (ftHealth (soResult sr))" "bdLastGood b (soForge sr) = Some at"
    and "list_all (\<lambda>pr. bdSettled b (pr_key pr) = None) (snPullRequests (bdSnap b))"
  shows "mset (map row_facts (filter (\<lambda>pr. prForge pr = soForge sr) (snPullRequests (bdSnap b')))) =
      mset (map row_facts (filter (\<lambda>pr. prForge pr = soForge sr) (snPullRequests (bdSnap b)))) \<and>
    mset (filter (\<lambda>i. isForge i = soForge sr) (snIssues (bdSnap b'))) =
      mset (filter (\<lambda>i. isForge i = soForge sr) (snIssues (bdSnap b))) \<and>
    (\<exists>h. h \<in> set (snForges (bdSnap b')) \<and> \<not> fhReachable h \<and> fhStaleSince h = Some at) \<and>
    bdLastGood b' (soForge sr) = Some at"
proof -
  let ?f = "soForge sr"
  let ?empty = "newEmptySnapshot\<lparr>snGeneratedAt := now\<rparr>"
  obtain snap good where g: "gatherRows now blocked (bdSnap b) results (?empty, bdLastGood b) = (snap, good)"
    by fastforce
  obtain settled prs where w: "withoutSettled now window (ForgeOther '''') '''' (bdSettled b, snPullRequests snap) = (settled, prs)"
    by fastforce
  note F = refreshOnce_facts[OF assms(1,2) g w]
  obtain r good' where s: "sourceRows now blocked (bdSnap b) sr (bdLastGood b) = (r, good')" by fastforce
  have r: "ftPullRequests r = filter (\<lambda>pr. prForge pr = ?f) (snPullRequests (bdSnap b))"
    "ftIssues r = filter (\<lambda>i. isForge i = ?f) (snIssues (bdSnap b))" "good' ?f = Some at"
    "\<not> fhReachable (ftHealth r)" "fhStaleSince (ftHealth r) = Some at"
    using s assms(6,7) by (auto simp: sourceRows_def carryOver_def Let_def)
  have G: "filter (\<lambda>pr. prForge pr = ?f) (snPullRequests snap) = ftPullRequests r"
    "filter (\<lambda>i. isForge i = ?f) (snIssues snap) = ftIssues r" "ftHealth r \<in> set (snForges snap)" "good ?f = good' ?f"
    using gather_forge[OF assms(3,4,5) refl s, of ?empty] g by (simp_all add: newEmptySnapshot_def)
  have "prs = filter (\<lambda>pr. settled (pr_key pr) = None) (snPullRequests snap)"
    and sub: "bdSettled b k = None \<Longrightarrow> settled k = None" for k
    using w by (auto simp: withoutSettled_def Let_def)
  then have "filter (\<lambda>pr. prForge pr = ?f) prs =
      filter (\<lambda>pr. settled (pr_key pr) = None) (filter (\<lambda>pr. prForge pr = ?f) (snPullRequests snap))"
    by (simp add: conj_commute)
  also have "\<dots> = filter (\<lambda>pr. settled (pr_key pr) = None) (ftPullRequests r)"
    using G(1) by simp
  also have "\<dots> = ftPullRequests r"
    using assms(8) sub r(1) by (intro filter_True) (auto simp: list_all_iff)
  finally have "filter (\<lambda>pr. prForge pr = ?f) prs = ftPullRequests r" .
  moreover have "mset (filter (\<lambda>i. isForge i = ?f) (snIssues (bdSnap b'))) = mset (filter (\<lambda>i. isForge i = ?f) (snIssues snap))"
    using F(2) by simp
  ultimately show ?thesis
    using filter_facts_forge[OF F(1), of ?f] F(3,5) r G by auto
qed

text \<open>
  A settled pull request stays off the board while its forge goes on listing it and the window
  lasts, and no longer: a refresh forgets the settlement exactly when the pull request is not among the rows
  it gathered or the window is over, and shows the row exactly when it is gathered and not held.
\<close>

theorem settled_stays_hidden:
  assumes "no_newer seq b" "b' = refreshOnce now window blocked seq results b" "bdSettled b key = Some at"
    and "listed = pr_key ` set (snPullRequests (fst (gatherRows now blocked (bdSnap b) results
           (newEmptySnapshot\<lparr>snGeneratedAt := now\<rparr>, bdLastGood b))))"
  shows "bdSettled b' key = (if key \<in> listed \<and> time_sub now at \<le> window then Some at else None) \<and>
    (key \<in> pr_key ` set (snPullRequests (bdSnap b')) \<longleftrightarrow> key \<in> listed \<and> time_sub now at > window)"
proof -
  obtain snap good where g: "gatherRows now blocked (bdSnap b) results
      (newEmptySnapshot\<lparr>snGeneratedAt := now\<rparr>, bdLastGood b) = (snap, good)" by fastforce
  obtain settled prs where w: "withoutSettled now window (ForgeOther '''') '''' (bdSettled b, snPullRequests snap) = (settled, prs)"
    by fastforce
  note F = refreshOnce_facts[OF assms(1,2) g w]
  have l: "listed = pr_key ` set (snPullRequests snap)" using assms(4) g by simp
  have s: "settled key = (if key \<in> listed \<and> time_sub now at \<le> window then Some at else None)"
    using withoutSettled_all(1)[OF w, of key] assms(3) l by auto
  have "key \<in> pr_key ` set prs \<longleftrightarrow> key \<in> listed \<and> settled key = None"
    using l withoutSettled_all(2)[OF w] by auto
  with s facts_keys[OF F(1)] F(4) show ?thesis by auto
qed

definition failed_source :: source_result where
  "failed_source = \<lparr>soForge = ForgeGitHub, soResult = no_rows (unreachableFrom newEmptySnapshot ForgeGitHub),
     soAsked = True\<rparr>"

definition listing_source :: "int list \<Rightarrow> source_result" where
  "listing_source ns = \<lparr>soForge = ForgeGitHub, soResult = (no_rows
     (zero_health\<lparr>fhForge := ForgeGitHub, fhReachable := True\<rparr>))\<lparr>ftPullRequests := map quiet_repo_pr ns\<rparr>,
     soAsked = True\<rparr>"

definition one_row_board :: board where
  "one_row_board = start_board\<lparr>bdSnap := newEmptySnapshot\<lparr>snPullRequests := [quiet_repo_pr 1]\<rparr>,
     bdLastGood := [ForgeGitHub \<mapsto> 3]\<rparr>"

lemma outage_keeps_rows_witness:
  "mset (map row_facts (filter (\<lambda>pr. prForge pr = ForgeGitHub)
      (snPullRequests (bdSnap (refreshOnce 9 minute (\<lambda>_. ('''', '''')) 4 [failed_source] one_row_board))))) =
    {#row_facts (quiet_repo_pr 1)#}"
proof -
  have h: "\<not> fhReachable (ftHealth (soResult failed_source))" "soForge failed_source = ForgeGitHub"
    by (simp_all add: failed_source_def no_rows_def unreachableFrom_def markUnreachable_def)
  have o: "own_rows failed_source" by (simp add: own_rows_def failed_source_def no_rows_def)
  have b: "no_newer 4 one_row_board" "bdLastGood one_row_board (soForge failed_source) = Some 3"
    "list_all (\<lambda>pr. bdSettled one_row_board (pr_key pr) = None) (snPullRequests (bdSnap one_row_board))"
    "snPullRequests (bdSnap one_row_board) = [quiet_repo_pr 1]" "prForge (quiet_repo_pr 1) = ForgeGitHub"
    by (simp_all add: no_newer_def one_row_board_def start_board_def h quiet_repo_pr_def zero_pr_def)
  show ?thesis
    using outage_keeps_rows[OF b(1) refl, of "[failed_source]" failed_source 3 9 minute "\<lambda>_. ('''', '''')"]
    by (simp add: o h(1) b(2-5)) (simp add: h(2) b(5) one_row_board_def start_board_def)
qed

lemma settled_stays_hidden_witness:
  "pr_key (quiet_repo_pr 1) \<notin> pr_key ` set (snPullRequests (bdSnap (refreshOnce minute (2 * minute) (\<lambda>_. ('''', '''')) 4
     [listing_source [1, 2]] (MarkSettled 0 ForgeGitHub ''a/b'' 1 one_row_board))))"
proof -
  let ?b = "MarkSettled 0 ForgeGitHub ''a/b'' 1 one_row_board"
  have "no_newer 4 ?b" "bdSettled ?b (settledKey ForgeGitHub ''a/b'' 1) = Some 0"
    by (simp_all add: no_newer_def MarkSettled_def one_row_board_def start_board_def Let_def)
  from settled_stays_hidden[OF this(1) refl this(2) refl, of minute "2 * minute" "\<lambda>_. ('''', '''')" "[listing_source [1, 2]]"]
  show ?thesis by (simp add: pr_key_def quiet_repo_pr_def zero_pr_def time_sub_def)
qed

lemma MarkSettled_rows:
  "key = settledKey f r n \<Longrightarrow> key \<notin> pr_key ` set (snPullRequests (bdSnap (MarkSettled now f r n b)))"
proof -
  assume key: "key = settledKey f r n"
  let ?rows = "filter (\<lambda>pr. pr_key pr \<noteq> key) (snPullRequests (bdSnap b))"
  have "pr_key ` set (annotateAll ?rows) = pr_key ` set ?rows"
    by (rule facts_keys) (simp only: facts_annotateAll)
  then show ?thesis using key by (auto simp: MarkSettled_def Let_def)
qed

lemma repoAfter_keys:
  assumes "key \<notin> pr_key ` set (snPullRequests snap)" "\<And>k p. replaced k = Some p \<Longrightarrow> pr_key p \<noteq> key"
  shows "key \<notin> pr_key ` set (repoPullRequestsAfter snap f r replaced closed)"
  using assms by (force simp: repoPullRequestsAfter_def split: option.splits)

lemma scope_prefix: "settleScope f r \<noteq> '''' \<Longrightarrow> has_prefix (settledKey f r n) (settleScope f r)"
proof -
  assume ne: "settleScope f r \<noteq> ''''"
  have "cut_last (settledKey f r 0) (CHR ''#'') = Some (forge_str f @ ''/'' @ r, itoa 0)"
    using cut_last_append[of "CHR ''#''" "itoa 0" "forge_str f @ ''/'' @ r"] by (simp add: settledKey_def)
  with ne have "settleScope f r = forge_str f @ ''/'' @ r @ ''#''"
    by (auto simp: settleScope_def split: if_splits)
  then show ?thesis by (simp add: settledKey_def has_prefix_iff)
qed

lemma mergePending_one:
  assumes "prRepo p = r" "scopedSeq b (f, r) \<le> seq"
    and "mergedRepo now window f r seq None
      (repoPullRequestsAfter (bdSnap b) f r
        (index_by (\<lambda>pr. pullRequestKey f (prRepo pr) (prNumber pr)) [p]) [])
      (filter (issue_in_repo f r) (snIssues (bdSnap b)))
      (onlyRead {pullRequestKey f r (prNumber p)}) (b, bdSnap b) = (b1, merged)"
    and "b' = mergePendingResult now window f seq \<lparr>pnPulls = [p], pnClosed = [], pnFailed = []\<rparr> b"
  shows "bdSettled b' = bdSettled b1" "bdScoped b' = bdScoped b1"
  using assms by (simp_all add: mergePendingResult_def mergeReposFrom_def Let_def)

text \<open>
  A CI poll forgets a settlement. A pull request leaves the snapshot the moment it settles, and
  the poll of any other pull request of its repository merges the snapshot's own rows back as if
  the forge had listed them, so the settled one counts as no longer listed: its settlement is
  dropped, and the next refresh that still finds it listed shows it again.
\<close>

theorem poll_forgets_settled:
  assumes "pr_key p \<noteq> settledKey f r n" "prForge p = f" "prRepo p = r"
    and "scopedSeq b (f, r) \<le> seq"
    and "b' = mergePendingResult now window f seq \<lparr>pnPulls = [p], pnClosed = [], pnFailed = []\<rparr> (MarkSettled at f r n b)"
    and "no_newer seq2 b'" "key = settledKey f r n"
  shows "bdSettled b' key = None \<and>
    (key \<in> pr_key ` set (snPullRequests (bdSnap (refreshOnce now2 window blocked seq2 results b'))) \<longleftrightarrow>
     key \<in> pr_key ` set (snPullRequests (fst (gatherRows now2 blocked (bdSnap b') results
           (newEmptySnapshot\<lparr>snGeneratedAt := now2\<rparr>, bdLastGood b')))))"
proof -
  let ?b0 = "MarkSettled at f r n b"
  let ?rep = "index_by (\<lambda>pr. pullRequestKey f (prRepo pr) (prNumber pr)) [p]"
  let ?prs = "repoPullRequestsAfter (bdSnap ?b0) f r ?rep []"
  let ?iss = "filter (issue_in_repo f r) (snIssues (bdSnap ?b0))"
  let ?read = "onlyRead {pullRequestKey f r (prNumber p)}"
  obtain b1 merged where m: "mergedRepo now window f r seq None ?prs ?iss ?read (?b0, bdSnap ?b0) = (b1, merged)"
    by fastforce
  have sc: "scopedSeq ?b0 (f, r) \<le> seq"
    using assms(4) by (simp add: scopedSeq_def MarkSettled_def Let_def)
  note set1 = mergePending_one(1)[OF assms(3) sc m assms(5)]
  have notin: "key \<notin> pr_key ` set ?prs"
    using assms(1,7) by (intro repoAfter_keys MarkSettled_rows) (auto dest!: index_by_Some)
  have none: "bdSettled b' key = None"
    using notin scope_prefix[of f r n] assms(7) unfolding set1 mergedRepo_facts(6)[OF m]
    by (auto simp: withoutSettled_def Let_def split: option.splits)
  obtain snap good where g: "gatherRows now2 blocked (bdSnap b') results
      (newEmptySnapshot\<lparr>snGeneratedAt := now2\<rparr>, bdLastGood b') = (snap, good)" by fastforce
  obtain settled prs where w: "withoutSettled now2 window (ForgeOther '''') '''' (bdSettled b', snPullRequests snap) = (settled, prs)"
    by fastforce
  have "key \<in> pr_key ` set prs \<longleftrightarrow> key \<in> pr_key ` set (snPullRequests snap)"
    using withoutSettled_all[OF w] none by (auto simp del: split_paired_Ex)
  with facts_keys[OF refreshOnce_facts(1)[OF assms(6) refl g w]] none g show ?thesis by simp
qed

lemma poll_forgets_settled_witness:
  "bdSettled (mergePendingResult second (2 * minute) ForgeGitHub 1
     \<lparr>pnPulls = [quiet_repo_pr 2], pnClosed = [], pnFailed = []\<rparr>
     (MarkSettled 0 ForgeGitHub ''a/b'' 1 one_row_board)) (settledKey ForgeGitHub ''a/b'' 1) = None"
proof -
  let ?b' = "mergePendingResult second (2 * minute) ForgeGitHub 1
     \<lparr>pnPulls = [quiet_repo_pr 2], pnClosed = [], pnFailed = []\<rparr> (MarkSettled 0 ForgeGitHub ''a/b'' 1 one_row_board)"
  let ?b0 = "MarkSettled 0 ForgeGitHub ''a/b'' 1 one_row_board" and ?p = "quiet_repo_pr 2"
  have k: "pr_key (quiet_repo_pr 2) \<noteq> settledKey ForgeGitHub ''a/b'' 1" by code_simp
  have p: "prForge (quiet_repo_pr 2) = ForgeGitHub" "prRepo (quiet_repo_pr 2) = ''a/b''"
    by (simp_all add: quiet_repo_pr_def zero_pr_def)
  have s: "scopedSeq one_row_board (ForgeGitHub, ''a/b'') \<le> 1"
    by (simp add: scopedSeq_def one_row_board_def start_board_def)
  have "bdScoped (MarkSettled 0 ForgeGitHub ''a/b'' 1 one_row_board) = []"
    by (simp add: MarkSettled_def Let_def one_row_board_def start_board_def)
  then have e: "bdScoped ?b0 = []" "scopedSeq ?b0 (ForgeGitHub, prRepo ?p) \<le> 1"
    by (simp_all add: scopedSeq_def)
  obtain b1 merged where m: "mergedRepo second (2 * minute) ForgeGitHub (prRepo ?p) 1 None
      (repoPullRequestsAfter (bdSnap ?b0) ForgeGitHub (prRepo ?p)
        (index_by (\<lambda>pr. pullRequestKey ForgeGitHub (prRepo pr) (prNumber pr)) [?p]) [])
      (filter (issue_in_repo ForgeGitHub (prRepo ?p)) (snIssues (bdSnap ?b0)))
      (onlyRead {pullRequestKey ForgeGitHub (prRepo ?p) (prNumber ?p)}) (?b0, bdSnap ?b0) = (b1, merged)"
    by fastforce
  have n: "no_newer 4 ?b'"
    using mergePending_one(2)[OF refl e(2) m refl] mergedRepo_facts(7)[OF m] e(1) by (simp add: no_newer_def)
  from poll_forgets_settled[OF k p s refl n refl] show ?thesis by blast
qed

text \<open>
  The same through an outage (the rows carried over no longer hold the settled pull request), and a
  race: a refresh that gathered its rows before a pull request settled publishes it after.
\<close>

lemma outage_forgets_settled:
  assumes "no_newer seq b" "b0 = MarkSettled at f r n b" "key = settledKey f r n"
    and "key \<notin> pr_key ` set (snPullRequests (fst (gatherRows now blocked (bdSnap b0) results
           (newEmptySnapshot\<lparr>snGeneratedAt := now\<rparr>, bdLastGood b0))))"
  shows "bdSettled (refreshOnce now window blocked seq results b0) key = None"
proof -
  have "no_newer seq b0" "bdSettled b0 key = Some at"
    using assms by (simp_all add: no_newer_def MarkSettled_def Let_def)
  obtain snap good where g: "gatherRows now blocked (bdSnap b0) results
      (newEmptySnapshot\<lparr>snGeneratedAt := now\<rparr>, bdLastGood b0) = (snap, good)" by fastforce
  obtain settled prs where w: "withoutSettled now window (ForgeOther '''') '''' (bdSettled b0, snPullRequests snap) = (settled, prs)"
    by fastforce
  show ?thesis
    using refreshOnce_facts(4)[OF \<open>no_newer seq b0\<close> refl g w] withoutSettled_all(1)[OF w, of key]
      assms(4) g \<open>bdSettled b0 key = Some at\<close> by simp
qed

lemma settle_race:
  assumes "distinct (map fst (bdScoped b))" "scopedSeq b (f, r) \<le> seq"
    and "pr \<in> set (snPullRequests (rpsSnap p))" "prForge pr = f" "prRepo pr = r" "prNumber pr = n"
  shows "settledKey f r n \<in> pr_key ` set (snPullRequests (bdSnap (swapRefresh seq p (MarkSettled at f r n b))))"
proof -
  let ?b = "MarkSettled at f r n b"
  obtain st rows where u: "annotateUnderLock seq (\<lambda>f _. rpsReachable p f) (rpsRead p)
      (bdBots ?b, snPullRequests (keepNewerScopedRepos (bdScoped ?b) seq (rpsSnap p) (bdSnap ?b))) = (st, rows)"
    by fastforce
  have sc: "bdScoped ?b = bdScoped b" "scopedSeq ?b (f, r) = scopedSeq b (f, r)"
    by (simp_all add: MarkSettled_def Let_def scopedSeq_def)
  have "mset (map row_facts rows) = mset (map row_facts
      (snPullRequests (keepNewerScopedRepos (bdScoped ?b) seq (rpsSnap p) (bdSnap ?b))))"
    using facts_under_lock[OF u] by (rule arg_cong)
  from filter_facts[OF this, of f r] keepNewer_repo(1)[of ?b f r seq "rpsSnap p" "bdSnap ?b"] assms(1,2) sc
  have "mset (map row_facts (filter (in_repo f r) rows)) =
      mset (map row_facts (filter (in_repo f r) (snPullRequests (rpsSnap p))))" by simp
  note keys = facts_keys[OF this]
  have "pr \<in> set (filter (in_repo f r) (snPullRequests (rpsSnap p)))" "pr_key pr = settledKey f r n"
    using assms(3-6) by (simp_all add: in_repo_def pr_key_def)
  then have "settledKey f r n \<in> pr_key ` set (filter (in_repo f r) rows)"
    using keys by (metis imageI)
  then have "settledKey f r n \<in> pr_key ` set rows" by auto
  then show ?thesis using u by (simp add: swapRefresh_def Let_def)
qed

text \<open>
  A stale mark too young: a forge was down for the refresh at \<open>now1\<close>, so its rows are those of \<open>at\<close>;
  when it answers again but one of its repositories fails, that repository is marked as old as \<open>now1\<close>.
\<close>

lemma fold_unmarked:
  "list_all (\<lambda>r. rpStaleSince r = None \<and> rpFailingSince r = None) rs \<Longrightarrow>
   fold (\<lambda>r (since, failing). if (rpForge r, rpFullName r) \<noteq> key then (since, failing)
            else (case rpStaleSince r of Some t \<Rightarrow> t | None \<Rightarrow> since,
                  case rpFailingSince r of Some t \<Rightarrow> t | None \<Rightarrow> failing)) rs x = x"
  by (induction rs arbitrary: x) (auto split: prod.splits)

lemma outage_then_failed_repo:
  assumes "no_newer seq b" "sr = \<lparr>soForge = f, soResult = no_rows h, soAsked = asked\<rparr>" "\<not> fhReachable h"
    and "bdLastGood b f = Some at" "list_all (\<lambda>r. rpStaleSince r = None \<and> rpFailingSince r = None) (snRepos (bdSnap b))"
    and "now1 \<noteq> zero_time"
  shows "staleMarks now2 (bdSnap (refreshOnce now1 window blocked seq [sr] b)) key = (now1, now2)"
proof -
  let ?b' = "refreshOnce now1 window blocked seq [sr] b"
  have "snRepos (bdSnap ?b') = filter (\<lambda>r. rpForge r = f) (snRepos (bdSnap b)) \<and> snGeneratedAt (bdSnap ?b') = now1"
    using assms(1-4) keepNewer_none
    by (simp add: refreshOnce_def assembleRefresh_def swapRefresh_def sourceRows_def carryOver_def no_rows_def
        Let_def newEmptySnapshot_def no_newer_def split: prod.splits)
  then have r: "snRepos (bdSnap ?b') = filter (\<lambda>r. rpForge r = f) (snRepos (bdSnap b))" "snGeneratedAt (bdSnap ?b') = now1"
    by simp_all
  have "list_all (\<lambda>r. rpStaleSince r = None \<and> rpFailingSince r = None) (filter (\<lambda>r. rpForge r = f) (snRepos (bdSnap b)))"
    using assms(5) by (simp add: list_all_iff)
  from fold_unmarked[OF this] show ?thesis
    using assms(6) by (simp only: staleMarks_def r) simp
qed

end
