(* ===== verification/Auto_Update.thy ===== *)
theory Auto_Update
  imports Queued_Actions
begin

text \<open>
  The pass after a refresh that brings behind pull requests up to date: \<open>auto_update_branch.go\<close>,
  \<open>automation_pending.go\<close> and the choices of \<open>pull_request_auto_update.go\<close>. The services of the
  forges are those of \<open>queued_env\<close>, and every call is traced, newest first. The code's sets of keys
  are lists; where it ranges over one in no fixed order, the model follows the list.
\<close>

record update_attempt =
  uaUpdatedAt :: time
  uaAt :: time
  uaWait :: duration

record auto_update_state =
  auWatch :: "string list"       \<comment> \<open>rebased Dependabot pull requests whose CI is awaited\<close>
  auAttempted :: "string list"   \<comment> \<open>those sent a rebase and behind ever since\<close>
  auAttempts :: "string \<rightharpoonup> update_attempt"
  auForgotten :: "string list"   \<comment> \<open>choices deleted from the store\<close>
  auCalls :: "forge_write list"

definition refusedUpdateWait :: duration where "refusedUpdateWait = hour"
definition transientUpdateWait :: duration where "transientUpdateWait = 5 * minute"

definition auto_call :: "forge_write \<Rightarrow> auto_update_state \<Rightarrow> auto_update_state" where
  "auto_call x st = st\<lparr>auCalls := x # auCalls st\<rparr>"

section \<open>One pull request\<close>

definition beginUpdate :: "time \<Rightarrow> pull_request \<Rightarrow> auto_update_state \<Rightarrow> auto_update_state option" where
  "beginUpdate now pr st = (let key = dependabotPRKey pr in
     if (case auAttempts st key of None \<Rightarrow> False
         | Some prev \<Rightarrow> uaUpdatedAt prev = prUpdatedAt pr \<and> time_sub now (uaAt prev) < uaWait prev)
     then None
     else Some (st\<lparr>auAttempts := (auAttempts st)(key \<mapsto>
       \<lparr>uaUpdatedAt = prUpdatedAt pr, uaAt = now, uaWait = transientUpdateWait\<rparr>)\<rparr>))"

definition failedUpdate :: "pull_request \<Rightarrow> go_error \<Rightarrow> auto_update_state \<Rightarrow> auto_update_state" where
  "failedUpdate pr e st = (let key = dependabotPRKey pr in
     if \<not> has_kind e ForgeErrorConflict then st
     else (case auAttempts st key of None \<Rightarrow> st
       | Some a \<Rightarrow> st\<lparr>auAttempts := (auAttempts st)(key \<mapsto> a\<lparr>uaWait := refusedUpdateWait\<rparr>)\<rparr>))"

definition clearUpdate :: "pull_request \<Rightarrow> auto_update_state \<Rightarrow> auto_update_state" where
  "clearUpdate pr st = st\<lparr>auAttempts := (auAttempts st)(dependabotPRKey pr := None)\<rparr>"

definition rebaseDependabotPR :: "queued_env \<Rightarrow> pull_request \<Rightarrow> auto_update_state \<Rightarrow> auto_update_state" where
  "rebaseDependabotPR env pr st =
     (let key = dependabotPRKey pr; f = prForge pr in
      if key \<in> set (auWatch st) \<or> key \<in> set (auAttempted st) then st
      else if \<not> qeCommenter env f then st
      else (case cut (prRepo pr) ''/'' of None \<Rightarrow> st
        | Some (owner, name) \<Rightarrow>
            let st' = auto_call (WroteComment f owner name (prNumber pr) DependabotRebaseComment) st
            in if qeComment env f owner name (prNumber pr) DependabotRebaseComment \<noteq> None then st'
               else st'\<lparr>auWatch := List.insert key (auWatch st'),
                         auAttempted := List.insert key (auAttempted st')\<rparr>))"

definition recreateDependabotPR :: "queued_env \<Rightarrow> pull_request \<Rightarrow> auto_update_state \<Rightarrow> auto_update_state" where
  "recreateDependabotPR env pr st =
     (if \<not> qeCommenter env (prForge pr) then st
      else (case cut (prRepo pr) ''/'' of None \<Rightarrow> st
        | Some (owner, name) \<Rightarrow>
            auto_call (WroteComment (prForge pr) owner name (prNumber pr) DependabotRecreateComment) st))"

definition labelRenovatePR :: "queued_env \<Rightarrow> pull_request \<Rightarrow> string \<Rightarrow> auto_update_state \<Rightarrow> auto_update_state" where
  "labelRenovatePR env pr label st =
     (if \<not> qeLabeler env (prForge pr) then st
      else (case cut (prRepo pr) ''/'' of None \<Rightarrow> st
        | Some (owner, name) \<Rightarrow> auto_call (AskedRebase (prForge pr) owner name (prNumber pr) label) st))"

definition updateBehindPR :: "queued_env \<Rightarrow> time \<Rightarrow> string \<Rightarrow> string list \<Rightarrow> pull_request \<Rightarrow>
    auto_update_state \<Rightarrow> auto_update_state" where
  "updateBehindPR env now label authors pr st =
     (if isDependabotPR pr then rebaseDependabotPR env pr st
      else if isRenovatePR pr authors then labelRenovatePR env pr label st
      else if \<not> qeUpdater env (prForge pr) then st
      else (case cut (prRepo pr) ''/'' of None \<Rightarrow> st
        | Some (owner, name) \<Rightarrow>
            (case beginUpdate now pr st of None \<Rightarrow> st
             | Some st1 \<Rightarrow>
                 let st2 = auto_call (WroteUpdate (prForge pr) owner name (prNumber pr)) st1
                 in (case qeUpdate env (prForge pr) owner name (prNumber pr) of
                       Some e \<Rightarrow> failedUpdate pr e st2
                     | None \<Rightarrow> clearUpdate pr st2))))"

section \<open>The sweeps before the pass\<close>

definition reconcileKey :: "queued_env \<Rightarrow> snapshot \<Rightarrow> string \<Rightarrow> auto_update_state \<Rightarrow> auto_update_state" where
  "reconcileKey env snap key st =
     (let clear = (\<lambda>st. st\<lparr>auWatch := removeAll key (auWatch st)\<rparr>)
      in case index_by dependabotPRKey (snPullRequests snap) key of
           None \<Rightarrow> clear st
         | Some pr \<Rightarrow>
             if IsFailingCI pr then clear (recreateDependabotPR env pr st)
             else if prCI pr = CISuccess then clear st
             else st)"

definition reconcileDependabotRebaseWatch :: "queued_env \<Rightarrow> snapshot \<Rightarrow> auto_update_state \<Rightarrow>
    auto_update_state" where
  "reconcileDependabotRebaseWatch env snap st = fold (reconcileKey env snap) (auWatch st) st"

definition behindKeys :: "snapshot \<Rightarrow> string list" where
  "behindKeys snap = map dependabotPRKey (filter prBehind (snPullRequests snap))"

definition pruneDependabotAttempts :: "snapshot \<Rightarrow> auto_update_state \<Rightarrow> auto_update_state" where
  "pruneDependabotAttempts snap st =
     st\<lparr>auAttempted := filter (\<lambda>k. k \<in> set (behindKeys snap)) (auAttempted st)\<rparr>"

definition pruneUpdateAttempts :: "snapshot \<Rightarrow> auto_update_state \<Rightarrow> auto_update_state" where
  "pruneUpdateAttempts snap st =
     st\<lparr>auAttempts := keep_keys (\<lambda>k. k \<in> set (behindKeys snap)) (auAttempts st)\<rparr>"

section \<open>The choices of a user\<close>

definition botRebaseKeys :: "snapshot \<Rightarrow> string set \<Rightarrow> string list \<Rightarrow> string list" where
  "botRebaseKeys snap rebaseBots authors = map (\<lambda>pr. autoUpdateKey (prForge pr) (prRepo pr) (prNumber pr))
     (filter (\<lambda>pr. repo_path (prForge pr) (prRepo pr) \<in> rebaseBots \<and> isBotPR pr authors) (snPullRequests snap))"

definition choiceStale :: "snapshot \<Rightarrow> string set \<Rightarrow> string list \<Rightarrow> string \<Rightarrow> bool \<Rightarrow> bool" where
  "choiceStale snap enabled botRebased key own = (case splitAutoUpdateKey key of
       None \<Rightarrow> False
     | Some (forge, repo) \<Rightarrow>
         (let isOpen = key \<in> set (map (\<lambda>pr. autoUpdateKey (prForge pr) (prRepo pr) (prNumber pr)) (snPullRequests snap));
              reachable = (case find_last (\<lambda>h. fhForge h = forge) (snForges snap) of
                Some h \<Rightarrow> fhReachable h | None \<Rightarrow> False);
              repoFailed = list_ex (\<lambda>r. rpStaleSince r \<noteq> None \<and>
                repo_path (rpForge r) (rpFullName r) = repo_path forge repo) (snRepos snap)
          in if \<not> isOpen \<and> reachable \<and> \<not> repoFailed then True
             else isOpen \<and> own = (repo_path forge repo \<in> enabled) \<and> key \<notin> set botRebased))"

fun insert_bytes :: "string \<Rightarrow> string list \<Rightarrow> string list" where
  "insert_bytes s [] = [s]"
| "insert_bytes s (t # ts) = (if bytes_le s t then s # t # ts else t # insert_bytes s ts)"

definition staleAutoUpdateChoices :: "snapshot \<Rightarrow> string set \<Rightarrow> (string \<times> bool) list \<Rightarrow> string list \<Rightarrow>
    string list" where
  "staleAutoUpdateChoices snap enabled overrides botRebased =
     foldr insert_bytes (map fst (filter (\<lambda>(key, own). choiceStale snap enabled botRebased key own) overrides)) []"

definition forgetStaleAutoUpdateChoices :: "bool \<Rightarrow> string list \<Rightarrow> auto_update_state \<Rightarrow> auto_update_state" where
  "forgetStaleAutoUpdateChoices ok stale st =
     (if stale = [] \<or> \<not> ok then st else st\<lparr>auForgotten := stale @ auForgotten st\<rparr>)"

section \<open>The pass\<close>

text \<open>What the store answers in one pass; \<open>None\<close> is an error.\<close>

record auto_settings =
  stEnabled :: "string set option"
  stOverrides :: "(string \<times> bool) list option"
  stRebaseBots :: "string set option"
  stAuthors :: "string list option"
  stLabel :: "string option"
  stForgets :: bool

definition overridesOf :: "auto_settings \<Rightarrow> (string \<times> bool) list" where
  "overridesOf s = (case stOverrides s of None \<Rightarrow> [] | Some os \<Rightarrow> os)"

definition rebaseBotRepos :: "auto_settings \<Rightarrow> string set" where
  "rebaseBotRepos s = (case stRebaseBots s of None \<Rightarrow> {} | Some r \<Rightarrow> r)"

definition passRow :: "queued_env \<Rightarrow> time \<Rightarrow> string set \<Rightarrow> auto_settings \<Rightarrow> string \<Rightarrow> string list \<Rightarrow>
    pull_request \<Rightarrow> auto_update_state \<Rightarrow> auto_update_state" where
  "passRow env now enabled s label authors pr st =
     (if \<not> prBehind pr \<or> prDraft pr then st
      else if \<not> autoUpdateWantedWithBots pr enabled (rebaseBotRepos s) (map_of (overridesOf s)) authors then st
      else updateBehindPR env now label authors pr st)"

text \<open>\<open>reached\<close> is how many rows the pass comes to before its context ends.\<close>

definition runAutoUpdateBranch :: "queued_env \<Rightarrow> time \<Rightarrow> auto_settings \<Rightarrow> nat \<Rightarrow> snapshot \<Rightarrow>
    auto_update_state \<Rightarrow> auto_update_state" where
  "runAutoUpdateBranch env now s reached snap st =
     (let st1 = pruneUpdateAttempts snap (pruneDependabotAttempts snap
            (reconcileDependabotRebaseWatch env snap st))
      in case stEnabled s of None \<Rightarrow> st1
         | Some enabled \<Rightarrow> (case stAuthors s of None \<Rightarrow> st1
           | Some authors \<Rightarrow>
               let st2 = forgetStaleAutoUpdateChoices (stForgets s) (staleAutoUpdateChoices snap enabled
                     (overridesOf s) (botRebaseKeys snap (rebaseBotRepos s) authors)) st1
               in if enabled = {} \<and> overridesOf s = [] \<and> rebaseBotRepos s = {} then st2
                  else (case stLabel s of None \<Rightarrow> st2
                    | Some label \<Rightarrow>
                        fold (passRow env now enabled s label authors) (take reached (snPullRequests snap)) st2)))"

section \<open>Whether the schedule may rest\<close>

definition updateWouldBeTried :: "time \<Rightarrow> pull_request \<Rightarrow> auto_update_state \<Rightarrow> bool" where
  "updateWouldBeTried now pr st \<longleftrightarrow>
     (if isDependabotPR pr then dependabotPRKey pr \<notin> set (auAttempted st)
      else (case auAttempts st (dependabotPRKey pr) of None \<Rightarrow> True
        | Some prev \<Rightarrow> uaUpdatedAt prev \<noteq> prUpdatedAt pr \<or> time_sub now (uaAt prev) \<ge> uaWait prev))"

definition updatePending :: "time \<Rightarrow> auto_settings \<Rightarrow> snapshot \<Rightarrow> auto_update_state \<Rightarrow> bool" where
  "updatePending now s snap st = (case stEnabled s of None \<Rightarrow> False
     | Some enabled \<Rightarrow>
         if enabled = {} \<and> overridesOf s = [] \<and> rebaseBotRepos s = {} then False
         else (case stAuthors s of None \<Rightarrow> False
           | Some authors \<Rightarrow> list_ex (\<lambda>pr. \<not> (\<not> prBehind pr \<or> prDraft pr \<or>
               \<not> autoUpdateWantedWithBots pr enabled (rebaseBotRepos s) (map_of (overridesOf s)) authors) \<and>
               updateWouldBeTried now pr st) (snPullRequests snap)))"

definition mergePending :: "string set option \<Rightarrow> bool" where
  "mergePending armed = (case armed of None \<Rightarrow> False | Some a \<Rightarrow> a \<noteq> {})"

definition automationPending :: "string set option \<Rightarrow> time \<Rightarrow> auto_settings \<Rightarrow> snapshot \<Rightarrow>
    auto_update_state \<Rightarrow> bool" where
  "automationPending armed now s snap st \<longleftrightarrow> mergePending armed \<or> updatePending now s snap st"

section \<open>Asking Dependabot once\<close>

text \<open>The comments of one kind a state has sent to one pull request.\<close>

definition sent :: "forge \<Rightarrow> string \<Rightarrow> string \<Rightarrow> int \<Rightarrow> string \<Rightarrow> auto_update_state \<Rightarrow> nat" where
  "sent f owner name n body st = count_list (auCalls st) (WroteComment f owner name n body)"

text \<open>
  What stays true of one pull request while it is behind: \<open>r\<close> rebases and \<open>c\<close> recreates were sent
  before.
\<close>

definition asked_once :: "nat \<Rightarrow> nat \<Rightarrow> forge \<Rightarrow> string \<Rightarrow> string \<Rightarrow> int \<Rightarrow> auto_update_state \<Rightarrow> bool" where
  "asked_once r c f owner name n st \<longleftrightarrow>
     (let key = settledKey f (owner @ ''/'' @ name) n;
          rebases = sent f owner name n DependabotRebaseComment st;
          recreates = sent f owner name n DependabotRecreateComment st
      in distinct (auWatch st) \<and> rebases \<le> r + (if key \<in> set (auAttempted st) then 1 else 0) \<and>
         recreates + (if key \<in> set (auWatch st) then 1 else 0) \<le> c + (if key \<in> set (auAttempted st) then 1 else 0))"

lemma comments_differ [simp]: "DependabotRebaseComment \<noteq> DependabotRecreateComment"
  "DependabotRecreateComment \<noteq> DependabotRebaseComment"
  by (simp_all add: DependabotRebaseComment_def DependabotRecreateComment_def)

lemma cut_slash: "cut r ''/'' = Some (a, b) \<Longrightarrow> r = a @ ''/'' @ b"
  using cut_Some_append[of r "''/''" a b] by simp

lemma sent_call [simp]:
  "sent f owner name n body (auto_call x st) =
     sent f owner name n body st + (if x = WroteComment f owner name n body then 1 else 0)"
  by (simp add: sent_def auto_call_def)

lemma sent_frame: "auCalls st' = auCalls st \<Longrightarrow> sent f owner name n body st' = sent f owner name n body st"
  by (simp add: sent_def)

lemma asked_frame:
  "auCalls st' = auCalls st \<Longrightarrow> auWatch st' = auWatch st \<Longrightarrow> auAttempted st' = auAttempted st \<Longrightarrow>
   asked_once r c f owner name n st \<Longrightarrow> asked_once r c f owner name n st'"
  by (simp add: asked_once_def sent_def)

lemma asked_rebase:
  assumes "asked_once r c f owner name n st" "qeComment env f owner name n DependabotRebaseComment = None"
  shows "asked_once r c f owner name n (rebaseDependabotPR env pr st)"
proof (cases "dependabotPRKey pr \<in> set (auWatch st) \<or> dependabotPRKey pr \<in> set (auAttempted st) \<or> \<not> qeCommenter env (prForge pr)")
  case True
  then show ?thesis using assms(1) by (auto simp: rebaseDependabotPR_def Let_def)
next
  case False
  show ?thesis
  proof (cases "cut (prRepo pr) ''/''")
    case None
    then show ?thesis using assms(1) by (simp add: rebaseDependabotPR_def Let_def)
  next
    case (Some p)
    then obtain o' m where p: "cut (prRepo pr) ''/'' = Some (o', m)" by (cases p) auto
    let ?st1 = "auto_call (WroteComment (prForge pr) o' m (prNumber pr) DependabotRebaseComment) st"
    have key: "dependabotPRKey pr = settledKey f (owner @ ''/'' @ name) n"
      if "prForge pr = f" "o' = owner" "m = name" "prNumber pr = n"
      using that cut_slash[OF p] by (simp add: dependabotPRKey_eq pr_key_def)
    have run: "rebaseDependabotPR env pr st = (if qeComment env (prForge pr) o' m (prNumber pr) DependabotRebaseComment \<noteq> None
        then ?st1 else ?st1\<lparr>auWatch := List.insert (dependabotPRKey pr) (auWatch ?st1),
                           auAttempted := List.insert (dependabotPRKey pr) (auAttempted ?st1)\<rparr>)"
      using False p by (simp add: rebaseDependabotPR_def Let_def)
    show ?thesis
    proof (cases "prForge pr = f \<and> o' = owner \<and> m = name \<and> prNumber pr = n")
      case True
      then have k: "dependabotPRKey pr = settledKey f (owner @ ''/'' @ name) n" using key by simp
      show ?thesis
        using assms False True unfolding run asked_once_def k Let_def
        by (simp add: sent_def auto_call_def)
    next
      case other: False
      show ?thesis
        using assms(1) False other unfolding run asked_once_def Let_def
        by (auto simp: sent_def auto_call_def split: if_splits)
    qed
  qed
qed

lemma asked_begin:
  "beginUpdate now pr st = Some st1 \<Longrightarrow> asked_once r c f owner name n st \<Longrightarrow> asked_once r c f owner name n st1"
  by (auto simp: beginUpdate_def Let_def asked_once_def sent_def split: if_splits)

lemma asked_other_call:
  "(\<And>body. x \<noteq> WroteComment f owner name n body) \<Longrightarrow> asked_once r c f owner name n st \<Longrightarrow>
   asked_once r c f owner name n (auto_call x st)"
  by (simp add: asked_once_def sent_def auto_call_def)

lemma asked_failed: "asked_once r c f owner name n st \<Longrightarrow> asked_once r c f owner name n (failedUpdate pr e st)"
  by (auto simp: failedUpdate_def Let_def asked_once_def sent_def split: option.splits)

lemma asked_clear: "asked_once r c f owner name n st \<Longrightarrow> asked_once r c f owner name n (clearUpdate pr st)"
  by (simp add: clearUpdate_def asked_once_def sent_def)

lemma asked_row:
  assumes "asked_once r c f owner name n st" "qeComment env f owner name n DependabotRebaseComment = None"
  shows "asked_once r c f owner name n (passRow env now enabled s label authors pr st)"
proof -
  have "asked_once r c f owner name n (updateBehindPR env now label authors pr st)"
    using assms
    by (auto simp: updateBehindPR_def labelRenovatePR_def asked_rebase Let_def split: option.splits
        intro!: asked_other_call asked_failed asked_clear dest: asked_begin)
  with assms(1) show ?thesis by (simp add: passRow_def)
qed

lemma asked_reconcile_key:
  assumes "asked_once r c f owner name n st" "k \<in> set (auWatch st)"
  shows "asked_once r c f owner name n (reconcileKey env snap k st)"
proof -
  let ?key = "settledKey f (owner @ ''/'' @ name) n"
  have clear: "asked_once r c f owner name n (st\<lparr>auWatch := removeAll k (auWatch st)\<rparr>)"
    using assms by (auto simp: asked_once_def Let_def sent_def distinct_removeAll)
  show ?thesis
  proof (cases "index_by dependabotPRKey (snPullRequests snap) k")
    case None
    with clear show ?thesis by (simp add: reconcileKey_def)
  next
    case (Some pr)
    then have k: "dependabotPRKey pr = k" by (auto dest: index_by_Some)
    have again: "asked_once r c f owner name n
        ((recreateDependabotPR env pr st)\<lparr>auWatch := removeAll k (auWatch (recreateDependabotPR env pr st))\<rparr>)"
    proof (cases "qeCommenter env (prForge pr)")
      case False
      with clear show ?thesis by (simp add: recreateDependabotPR_def)
    next
      case True
      show ?thesis
      proof (cases "cut (prRepo pr) ''/''")
        case None
        with True clear show ?thesis by (simp add: recreateDependabotPR_def)
      next
        case (Some p)
        then obtain o' m where p: "cut (prRepo pr) ''/'' = Some (o', m)" by (cases p) auto
        show ?thesis
        proof (cases "prForge pr = f \<and> o' = owner \<and> m = name \<and> prNumber pr = n")
          case hit: True
          then have "k = ?key" using k cut_slash[OF p] by (simp add: dependabotPRKey_eq pr_key_def)
          with assms True p hit show ?thesis
            by (simp add: recreateDependabotPR_def asked_once_def Let_def sent_def auto_call_def distinct_removeAll)
        next
          case miss: False
          then show ?thesis
            using assms(1) True p by (auto simp: recreateDependabotPR_def asked_once_def Let_def sent_def auto_call_def distinct_removeAll)
        qed
      qed
    qed
    show ?thesis
      using Some clear again assms(1) by (simp add: reconcileKey_def)
  qed
qed

lemma reconcile_watch: "set (auWatch st) - {k} \<subseteq> set (auWatch (reconcileKey env snap k st))"
  by (auto simp: reconcileKey_def recreateDependabotPR_def auto_call_def split: option.splits)

lemma asked_reconcile_fold:
  "asked_once r c f owner name n st \<Longrightarrow> distinct ks \<Longrightarrow> set ks \<subseteq> set (auWatch st) \<Longrightarrow>
   asked_once r c f owner name n (fold (reconcileKey env snap) ks st)"
proof (induction ks arbitrary: st)
  case (Cons k ks)
  have "asked_once r c f owner name n (reconcileKey env snap k st)"
    using Cons.prems by (intro asked_reconcile_key) auto
  moreover have "set ks \<subseteq> set (auWatch (reconcileKey env snap k st))"
    using Cons.prems reconcile_watch[of st k env snap] by auto
  ultimately show ?case using Cons.IH Cons.prems(2) by simp
qed simp

lemma asked_sweeps:
  assumes "asked_once r c f owner name n st" "settledKey f (owner @ ''/'' @ name) n \<in> set (behindKeys snap)"
  shows "asked_once r c f owner name n (pruneUpdateAttempts snap (pruneDependabotAttempts snap
    (reconcileDependabotRebaseWatch env snap st)))"
proof -
  have "distinct (auWatch st)" using assms(1) by (simp add: asked_once_def Let_def)
  then have "asked_once r c f owner name n (reconcileDependabotRebaseWatch env snap st)"
    unfolding reconcileDependabotRebaseWatch_def using assms(1) by (intro asked_reconcile_fold) auto
  with assms(2) show ?thesis
    by (simp add: asked_once_def Let_def pruneUpdateAttempts_def pruneDependabotAttempts_def sent_def)
qed

lemma asked_rows:
  assumes "asked_once r c f owner name n st" "qeComment env f owner name n DependabotRebaseComment = None"
  shows "asked_once r c f owner name n (fold (passRow env now enabled s label authors) prs st)"
  using assms by (induction prs arbitrary: st) (simp_all add: asked_row)

lemma asked_pass:
  assumes "asked_once r c f owner name n st" "settledKey f (owner @ ''/'' @ name) n \<in> set (behindKeys snap)"
    and "qeComment env f owner name n DependabotRebaseComment = None"
  shows "asked_once r c f owner name n (runAutoUpdateBranch env now s reached snap st)"
proof -
  have forget: "asked_once r c f owner name n st' \<Longrightarrow>
      asked_once r c f owner name n (forgetStaleAutoUpdateChoices ok stale st')" for st' ok stale
    by (auto simp: forgetStaleAutoUpdateChoices_def asked_once_def Let_def sent_def)
  show ?thesis
    using asked_sweeps[OF assms(1,2), of env] assms(3)
    by (auto simp: runAutoUpdateBranch_def Let_def intro!: asked_rows forget split: option.split)
qed

text \<open>
  C19: Dependabot is asked at most once. As long as a pull request stays behind, however many
  refreshes run the pass, whatever the settings say and however its checks go, it is sent at most one
  rebase comment the forge accepts and at most one recreate comment.
\<close>

theorem dependabot_asked_once:
  assumes "qeComment env f owner name n DependabotRebaseComment = None" "distinct (auWatch st)"
    and "settledKey f (owner @ ''/'' @ name) n \<notin> set (auWatch st)"
    and "settledKey f (owner @ ''/'' @ name) n \<notin> set (auAttempted st)"
    and "list_all (\<lambda>(now, s, reached, snap). settledKey f (owner @ ''/'' @ name) n \<in> set (behindKeys snap)) passes"
    and "st' = fold (\<lambda>(now, s, reached, snap). runAutoUpdateBranch env now s reached snap) passes st"
  shows "sent f owner name n DependabotRebaseComment st' \<le> sent f owner name n DependabotRebaseComment st + 1 \<and>
    sent f owner name n DependabotRecreateComment st' \<le> sent f owner name n DependabotRecreateComment st + 1"
proof -
  let ?r = "sent f owner name n DependabotRebaseComment st"
  let ?c = "sent f owner name n DependabotRecreateComment st"
  have "asked_once ?r ?c f owner name n st" using assms(2-4) by (simp add: asked_once_def Let_def)
  moreover have "asked_once ?r ?c f owner name n v \<Longrightarrow>
      asked_once ?r ?c f owner name n (fold (\<lambda>(now, s, reached, snap). runAutoUpdateBranch env now s reached snap) passes v)" for v
    using assms(5)
  proof (induction passes arbitrary: v)
    case (Cons p passes)
    obtain now s reached snap where p: "p = (now, s, reached, snap)" by (cases p)
    show ?case
      using asked_pass[OF Cons.prems(1), of snap env now s reached] Cons.IH Cons.prems(2) assms(1)
      by (simp add: p)
  qed simp
  ultimately have "asked_once ?r ?c f owner name n st'" using assms(6) by simp
  then show ?thesis by (auto simp: asked_once_def Let_def split: if_splits)
qed

definition dependabot_pr :: pull_request where
  "dependabot_pr = zero_pr\<lparr>prRepo := ''a/b'', prNumber := 7, prAuthor := ''dependabot[bot]'', prBehind := True,
     prCI := CIFailure\<rparr>"

definition idle_state :: auto_update_state where
  "idle_state = \<lparr>auWatch = [], auAttempted = [], auAttempts = Map.empty, auForgotten = [], auCalls = []\<rparr>"

definition all_on :: auto_settings where
  "all_on = \<lparr>stEnabled = Some {''github/a/b''}, stOverrides = Some [], stRebaseBots = Some {},
     stAuthors = Some [], stLabel = Some ''rebase'', stForgets = True\<rparr>"

text \<open>Three refreshes that find its checks failing: one rebase, one recreate, and silence.\<close>

lemma dependabot_asked_once_witness:
  "sent ForgeGitHub ''a'' ''b'' 7 DependabotRebaseComment
     (fold (\<lambda>(now, s, reached, snap). runAutoUpdateBranch willing_env now s reached snap)
       (replicate 3 (0, all_on, 9, newEmptySnapshot\<lparr>snPullRequests := [dependabot_pr]\<rparr>)) idle_state) \<le> 1"
proof -
  let ?snap = "newEmptySnapshot\<lparr>snPullRequests := [dependabot_pr]\<rparr>"
  let ?st' = "fold (\<lambda>(now, s, reached, snap). runAutoUpdateBranch willing_env now s reached snap)
       (replicate 3 (0, all_on, 9, ?snap)) idle_state"
  have b: "settledKey ForgeGitHub (''a'' @ ''/'' @ ''b'') 7 \<in> set (behindKeys ?snap)"
    by (simp add: behindKeys_def dependabot_pr_def zero_pr_def dependabotPRKey_eq pr_key_def)
  have l: "list_all (\<lambda>(now, s, reached, snap). settledKey ForgeGitHub (''a'' @ ''/'' @ ''b'') 7 \<in> set (behindKeys snap))
      (replicate 3 (0::time, all_on, 9::nat, ?snap))"
    using b by (simp add: numeral_3_eq_3)
  have "sent ForgeGitHub ''a'' ''b'' 7 DependabotRebaseComment ?st' \<le>
      sent ForgeGitHub ''a'' ''b'' 7 DependabotRebaseComment idle_state + 1"
    by (rule conjunct1[OF dependabot_asked_once[OF _ _ _ _ l refl]])
      (simp_all add: willing_env_def idle_state_def)
  then show ?thesis by (simp add: sent_def idle_state_def)
qed

section \<open>Forgetting choices\<close>

lemma map_of_filter_keys:
  "map_of (filter (\<lambda>(k, v). \<not> P k v) xs) k = Some v \<Longrightarrow> \<not> P k v \<and> (k, v) \<in> set xs"
  by (auto dest!: map_of_SomeD)

lemma map_of_kept:
  assumes "distinct (map fst xs)"
  shows "map_of (filter (\<lambda>(k, v). \<not> P k v) xs) k = (case map_of xs k of None \<Rightarrow> None
    | Some v \<Rightarrow> if P k v then None else Some v)"
  using assms
proof (induction xs)
  case (Cons x xs)
  obtain k' v where x: "x = (k', v)" by (cases x)
  have "map_of xs k' = None" using Cons.prems x by (auto simp: map_of_eq_None_iff)
  with Cons x show ?case by (auto split: option.splits)
qed simp

lemma own_choice_equal:
  "auEnabled (PullRequestAutoUpdate pr repoEnabled (Some repoEnabled)) = auEnabled (PullRequestAutoUpdate pr repoEnabled None)"
  by (simp add: PullRequestAutoUpdate_def)

lemma set_insert_bytes [simp]: "set (insert_bytes s ts) = insert s (set ts)"
  by (induction ts) auto

lemma set_sorted_bytes: "set (foldr insert_bytes ss []) = set ss"
  by (induction ss) simp_all

lemma stale_choices_iff:
  "key \<in> set (staleAutoUpdateChoices snap enabled overrides botRebased) \<longleftrightarrow>
     (\<exists>own. (key, own) \<in> set overrides \<and> choiceStale snap enabled botRebased key own)"
  by (force simp: staleAutoUpdateChoices_def set_sorted_bytes)

text \<open>
  Forgetting choices is safe. The choices a pass deletes leave the answer for every open pull
  request as it was: with or without them the pass wants to update the same ones. And the choice of a
  pull request that is not listed goes only while its forge answers and its repository did not fail.
\<close>

theorem forgetting_changes_nothing:
  assumes "pr \<in> set (snPullRequests snap)" "valid_forge (prForge pr)" "distinct (map fst overrides)"
    and "stale = staleAutoUpdateChoices snap enabled overrides (botRebaseKeys snap rebaseBots authors)"
    and "kept = filter (\<lambda>(key, own). key \<notin> set stale) overrides"
  shows "autoUpdateWantedWithBots pr enabled rebaseBots (map_of kept) authors =
      autoUpdateWantedWithBots pr enabled rebaseBots (map_of overrides) authors"
proof -
  let ?key = "autoUpdateKey (prForge pr) (prRepo pr) (prNumber pr)"
  let ?path = "repo_path (prForge pr) (prRepo pr)"
  have m: "map_of kept ?key = (if ?key \<in> set stale then None else map_of overrides ?key)"
    using map_of_kept[OF assms(3), of "\<lambda>k v. k \<in> set stale" ?key] assms(5)
    by (auto split: option.splits)
  show ?thesis
  proof (cases "?key \<in> set stale \<and> map_of overrides ?key \<noteq> None")
    case False
    with m have "map_of kept ?key = map_of overrides ?key" by auto
    then show ?thesis by (simp add: autoUpdateWantedWithBots_def autoUpdateWanted_def Let_def)
  next
    case True
    then obtain own where own: "map_of overrides ?key = Some own" by auto
    from True assms(4) obtain own' where
      own': "(?key, own') \<in> set overrides" "choiceStale snap enabled (botRebaseKeys snap rebaseBots authors) ?key own'"
      by (auto simp: stale_choices_iff)
    then have "own' = own" using own assms(3) by (simp add: map_of_is_SomeI)
    have "?key \<in> set (map (\<lambda>pr. autoUpdateKey (prForge pr) (prRepo pr) (prNumber pr)) (snPullRequests snap))"
      using assms(1) by auto
    with own'(2) have c: "own' = (?path \<in> enabled)" "?key \<notin> set (botRebaseKeys snap rebaseBots authors)"
      using choice.split_key[OF assms(2), of "prRepo pr" "prNumber pr"]
      by (auto simp: choiceStale_def Let_def split: if_splits)
    then have "\<not> (?path \<in> rebaseBots \<and> isBotPR pr authors)"
      using assms(1) by (auto simp: botRebaseKeys_def)
    then show ?thesis
      using own c(1) \<open>own' = own\<close> m True own_choice_equal[of pr "?path \<in> enabled"]
      by (auto simp: autoUpdateWantedWithBots_def autoUpdateWanted_def Let_def)
  qed
qed

lemma forgotten_when_gone:
  assumes "key \<in> set (staleAutoUpdateChoices snap enabled overrides botRebased)"
    and "key \<notin> set (map (\<lambda>pr. autoUpdateKey (prForge pr) (prRepo pr) (prNumber pr)) (snPullRequests snap))"
  shows "\<exists>forge repo h. splitAutoUpdateKey key = Some (forge, repo) \<and> h \<in> set (snForges snap) \<and>
    fhForge h = forge \<and> fhReachable h \<and>
    list_all (\<lambda>r. repo_path (rpForge r) (rpFullName r) = repo_path forge repo \<longrightarrow> rpStaleSince r = None) (snRepos snap)"
proof -
  from assms(1) obtain own where "choiceStale snap enabled botRebased key own" by (auto simp: stale_choices_iff)
  then obtain forge repo h where s: "splitAutoUpdateKey key = Some (forge, repo)"
    "find_last (\<lambda>h. fhForge h = forge) (snForges snap) = Some h" "fhReachable h"
    "\<not> list_ex (\<lambda>r. rpStaleSince r \<noteq> None \<and> repo_path (rpForge r) (rpFullName r) = repo_path forge repo) (snRepos snap)"
    using assms(2) by (auto simp: choiceStale_def Let_def simp del: list_ex_iff split: option.splits if_splits)
  then have "h \<in> set (snForges snap)" "fhForge h = forge" by (auto simp: find_last_def dest: find_Some_P)
  with s show ?thesis by (auto simp: list_all_iff list_ex_iff)
qed

lemma forgetting_changes_nothing_witness:
  "autoUpdateWantedWithBots dependabot_pr {''github/a/b''} {} (map_of (filter (\<lambda>(key, own).
       key \<notin> set (staleAutoUpdateChoices (newEmptySnapshot\<lparr>snPullRequests := [dependabot_pr]\<rparr>) {''github/a/b''}
         [(''github/a/b#7'', True)] (botRebaseKeys (newEmptySnapshot\<lparr>snPullRequests := [dependabot_pr]\<rparr>) {} [])))
       [(''github/a/b#7'', True)])) [] =
   autoUpdateWantedWithBots dependabot_pr {''github/a/b''} {} (map_of [(''github/a/b#7'', True)]) []"
proof -
  have "dependabot_pr \<in> set (snPullRequests (newEmptySnapshot\<lparr>snPullRequests := [dependabot_pr]\<rparr>))"
    "valid_forge (prForge dependabot_pr)"
    by (simp_all add: dependabot_pr_def zero_pr_def)
  from forgetting_changes_nothing[OF this _ refl refl, of "[(''github/a/b#7'', True)]"] show ?thesis by simp
qed

section \<open>Resting the schedule\<close>

text \<open>For a pull request no bot rebases, the schedule waits exactly for what the pass would attempt.\<close>

lemma tried_iff_begins:
  "\<not> isDependabotPR pr \<Longrightarrow> updateWouldBeTried now pr st \<longleftrightarrow> beginUpdate now pr st \<noteq> None"
  by (auto simp: updateWouldBeTried_def beginUpdate_def Let_def split: option.split)

text \<open>
  The pass records no attempt for a Renovate pull request, so one that is behind and wanted keeps
  the schedule awake however often it was asked for already.
\<close>

lemma renovate_keeps_awake:
  assumes "\<not> isDependabotPR pr" "isRenovatePR pr authors" "auAttempts st (dependabotPRKey pr) = None"
  shows "updateWouldBeTried now pr (updateBehindPR env now label authors pr st)"
  using assms
  by (auto simp: updateWouldBeTried_def updateBehindPR_def labelRenovatePR_def auto_call_def split: option.split)

end
