(* ===== verification/FD_Library.thy ===== *)
theory FD_Library
  imports FD_Prelude "HOL-Library.Char_ord" "HOL-Library.List_Lexorder" "HOL-Library.Product_Lexorder"
    "HOL-Library.Multiset"
begin

text \<open>
  What the theories of the forge clients and of the web server share beyond the prelude: Go's
  order of strings (\<open>strings.Compare\<close> is the library's lexicographic order on bytes, so a stable sort by it
  is \<open>sort_key\<close>), parts of a string, and the host of an address as
  \<open>net/url\<close> reads it.
\<close>

section \<open>Strings by bytes\<close>

definition byte :: "char \<Rightarrow> nat" where "byte c = of_char c"

definition is_hex :: "char \<Rightarrow> bool" where
  "is_hex c = (is_digit c \<or> (let n = byte c in (65 \<le> n \<and> n \<le> 70) \<or> (97 \<le> n \<and> n \<le> 102)))"

definition is_alnum :: "char \<Rightarrow> bool" where
  "is_alnum c = (is_letter c \<or> is_digit c)"

text \<open>\<open>strings.Split\<close> at a separator of one byte: one more part than separators.\<close>

fun split_at :: "char \<Rightarrow> string \<Rightarrow> string list" where
  "split_at c [] = [[]]"
| "split_at c (x # s) = (if x = c then [] # split_at c s
     else (case split_at c s of [] \<Rightarrow> [[x]] | p # ps \<Rightarrow> (x # p) # ps))"

text \<open>\<open>strings.Join\<close> with a separator of one byte.\<close>

fun join_with :: "char \<Rightarrow> string list \<Rightarrow> string" where
  "join_with c [] = []"
| "join_with c [p] = p"
| "join_with c (p # q # ps) = p @ c # join_with c (q # ps)"

text \<open>\<open>strings.Join\<close>.\<close>

fun str_join :: "string \<Rightarrow> string list \<Rightarrow> string" where
  "str_join sep [] = ''''"
| "str_join sep [p] = p"
| "str_join sep (p # q # ps) = p @ sep @ str_join sep (q # ps)"

lemma split_at_nonempty [simp]: "split_at c s \<noteq> []"
  by (induction s) (auto split: list.split)

lemma join_split [simp]: "join_with c (split_at c s) = s"
proof (induction s)
  case Nil
  show ?case by simp
next
  case (Cons x s)
  obtain p ps where p: "split_at c s = p # ps" by (cases "split_at c s") auto
  with Cons show ?case by (cases ps) auto
qed

lemma split_at_absent: "c \<notin> set s \<Longrightarrow> split_at c s = [s]"
  by (induction s) auto

lemma split_at_append: "c \<notin> set a \<Longrightarrow> split_at c (a @ c # b) = a # split_at c b"
  by (induction a) auto

lemma split_parts_free: "list_all (\<lambda>p. c \<notin> set p) (split_at c s)"
proof (induction s)
  case (Cons x s)
  then show ?case by (cases "split_at c s") auto
qed simp

section \<open>The host of an address\<close>

text \<open>
  \<open>url.Parse\<close> and \<open>URL.Hostname\<close>, as far as the host goes; \<open>None\<close> is a parse error. The host is left
  as written where the library decodes percent escapes of bytes that are not ASCII.
\<close>

fun escapes_ok :: "string \<Rightarrow> bool" where
  "escapes_ok [] = True"
| "escapes_ok (c # s) = (if c = CHR ''%'' then
     (case s of a # b # _ \<Rightarrow> is_hex a \<and> is_hex b | _ \<Rightarrow> False) \<and> escapes_ok s else escapes_ok s)"

definition cut_or :: "string \<Rightarrow> string \<Rightarrow> string \<times> string" where
  "cut_or s sep = (case cut s sep of Some p \<Rightarrow> p | None \<Rightarrow> (s, ''''))"

text \<open>\<open>getScheme\<close>: \<open>None\<close> is the missing scheme before a colon.\<close>

fun scheme_end :: "string \<Rightarrow> nat \<Rightarrow> nat option option" where
  "scheme_end [] i = Some None"
| "scheme_end (c # s) i =
     (if is_letter c then scheme_end s (Suc i)
      else if is_digit c \<or> c \<in> set ''+-.'' then (if i = 0 then Some None else scheme_end s (Suc i))
      else if c = CHR '':'' then (if i = 0 then None else Some (Some i))
      else Some None)"

definition get_scheme :: "string \<Rightarrow> (string \<times> string) option" where
  "get_scheme s = (case scheme_end s 0 of None \<Rightarrow> None
     | Some None \<Rightarrow> Some ('''', s)
     | Some (Some i) \<Rightarrow> Some (lower (take i s), drop (Suc i) s))"

definition optional_port :: "string \<Rightarrow> bool" where
  "optional_port s = (case s of [] \<Rightarrow> True | c # p \<Rightarrow> c = CHR '':'' \<and> list_all is_digit p)"

definition host_char :: "char \<Rightarrow> bool" where
  "host_char c = (byte c \<ge> 128 \<or> is_alnum c \<or>
     c \<in> set ''-_.~!$&()*+,;=:[]<>%'' \<or> c = CHR 0x27 \<or> c = CHR 0x22)"

fun host_escapes_ok :: "string \<Rightarrow> bool" where
  "host_escapes_ok [] = True"
| "host_escapes_ok (c # s) = (if c = CHR ''%'' then
     (case s of a # b # _ \<Rightarrow> is_hex a \<and> is_hex b \<and> \<not> (byte a < 56) | _ \<Rightarrow> False) \<and> host_escapes_ok s
     else host_escapes_ok s)"

definition parse_host :: "string \<Rightarrow> string option" where
  "parse_host h =
     (if has_prefix h ''['' then
        (case cut_last h (CHR '']'') of None \<Rightarrow> None
         | Some (a, p) \<Rightarrow> if optional_port p \<and> list_all host_char h then Some h else None)
      else if (case cut_last h (CHR '':'') of None \<Rightarrow> True | Some (_, p) \<Rightarrow> optional_port (CHR '':'' # p)) \<and>
              host_escapes_ok h \<and> list_all host_char h
      then Some h else None)"

definition user_char :: "char \<Rightarrow> bool" where
  "user_char c = (is_alnum c \<or> c \<in> set ''-._:~!$&()*+,;=%@'' \<or> c = CHR 0x27)"

definition parse_authority :: "string \<Rightarrow> string option" where
  "parse_authority a = (case cut_last a (CHR ''@'') of
       None \<Rightarrow> parse_host a
     | Some (user, h) \<Rightarrow>
         if list_all user_char user \<and> escapes_ok user then parse_host h else None)"

definition has_control :: "string \<Rightarrow> bool" where
  "has_control s = list_ex (\<lambda>c. byte c < 32 \<or> byte c = 127) s"

definition parse_url_host :: "string \<Rightarrow> string option" where
  "parse_url_host raw =
     (let (u, frag) = cut_or raw ''#'' in
      if \<not> escapes_ok frag \<or> has_control u then None
      else case get_scheme u of None \<Rightarrow> None
        | Some (scheme, rest) \<Rightarrow>
            (let rest = fst (cut_or rest ''?'') in
             if \<not> has_prefix rest ''/'' \<and> scheme \<noteq> '''' then Some ''''
             else if \<not> has_prefix rest ''/'' then
               (if str_contains (fst (cut_or rest ''/'')) '':'' \<or> \<not> escapes_ok rest then None else Some '''')
             else if (scheme \<noteq> '''' \<or> \<not> has_prefix rest ''///'') \<and> has_prefix rest ''//'' then
               (let (authority, path) = (case cut (drop 2 rest) ''/'' of
                    Some (a, p) \<Rightarrow> (a, CHR ''/'' # p) | None \<Rightarrow> (drop 2 rest, ''''))
                in if escapes_ok path then parse_authority authority else None)
             else if escapes_ok rest then Some '''' else None))"

text \<open>\<open>Hostname\<close> drops the port and the brackets of the host.\<close>

definition strip_port :: "string \<Rightarrow> string" where
  "strip_port h = (case cut_last h (CHR '':'') of
       Some (a, p) \<Rightarrow> if optional_port (CHR '':'' # p) then a else h
     | None \<Rightarrow> h)"

definition url_hostname :: "string \<Rightarrow> string option" where
  "url_hostname raw = map_option (\<lambda>h. let h = strip_port h in
     if has_prefix h ''['' \<and> has_suffix h '']'' then butlast (tl h) else h) (parse_url_host raw)"

lemma url_hostname_examples:
  "url_hostname ''https://x.githubapp.com:443/a?b#c'' = Some ''x.githubapp.com''"
  "url_hostname ''https://u:p@h/'' = Some ''h''" "url_hostname ''/a/b'' = Some ''''"
  "url_hostname ''mailto:a@b'' = Some ''''" "url_hostname '':x'' = None" "url_hostname ''http://a b/'' = None"
  "url_hostname ''http://[::1]:80/'' = Some ''::1''" "url_hostname ''http://a:x/'' = None"
  by code_simp+

text \<open>Rows taken apart by a key and put together again.\<close>

lemma mset_by_key:
  assumes "distinct ks"
  shows "mset (concat (map (\<lambda>k. filter (\<lambda>x. key x = k) xs) ks)) = mset (filter (\<lambda>x. key x \<in> set ks) xs)"
  using assms
proof (induction ks)
  case (Cons k ks)
  have "mset (filter (\<lambda>x. key x \<in> set (k # ks)) xs) = mset (filter (\<lambda>x. key x = k) xs) + mset (filter (\<lambda>x. key x \<in> set ks) xs)"
    using Cons.prems by (induction xs) auto
  then show ?case using Cons by simp
qed simp

section \<open>Characters of several bytes\<close>

text \<open>How many bytes the first character takes, as \<open>utf8.DecodeRuneInString\<close> reads it: a byte that starts no sound sequence
  is a character of its own.\<close>

definition continuation :: "nat \<Rightarrow> nat \<Rightarrow> string \<Rightarrow> bool" where
  "continuation lo hi s = (case s of [] \<Rightarrow> False | c # _ \<Rightarrow> lo \<le> byte c \<and> byte c \<le> hi)"

definition rune_width :: "string \<Rightarrow> nat" where
  "rune_width s = (case s of [] \<Rightarrow> 0 | c # rest \<Rightarrow>
     (let b = byte c; cont = continuation 0x80 0xBF
      in if b < 0xC2 \<or> b > 0xF4 then 1
         else if b \<le> 0xDF then if cont rest then 2 else 1
         else if b \<le> 0xEF then
           if continuation (if b = 0xE0 then 0xA0 else 0x80) (if b = 0xED then 0x9F else 0xBF) rest \<and> cont (drop 1 rest) then 3 else 1
         else if continuation (if b = 0xF0 then 0x90 else 0x80) (if b = 0xF4 then 0x8F else 0xBF) rest
             \<and> cont (drop 1 rest) \<and> cont (drop 2 rest) then 4 else 1))"

lemma rune_width_bounds: "s \<noteq> [] \<Longrightarrow> 0 < rune_width s \<and> rune_width s \<le> length s"
proof -
  assume "s \<noteq> []"
  then obtain c rest where s: "s = c # rest" by (cases s) auto
  have c: "continuation lo hi (drop n rest) \<Longrightarrow> n < length rest" for lo hi n
    by (cases "n < length rest") (simp_all add: continuation_def)
  have c0: "continuation lo hi rest \<Longrightarrow> 0 < length rest" for lo hi using c[of lo hi 0] by simp
  let ?w = "rune_width s"
  have "?w = 1 \<or> (?w = 2 \<and> 0 < length rest) \<or> (?w = 3 \<and> 1 < length rest) \<or> (?w = 4 \<and> 2 < length rest)"
  proof -
    have "(if a then 1 else if b then if p then 2 else 1 else if d then if q \<and> r then 3 else 1 else if x \<and> r \<and> t then 4 else 1) = w \<Longrightarrow>
        (p \<Longrightarrow> 0 < n) \<Longrightarrow> (r \<Longrightarrow> 1 < n) \<Longrightarrow> (t \<Longrightarrow> 2 < n) \<Longrightarrow> w = 1 \<or> (w = 2 \<and> 0 < n) \<or> (w = 3 \<and> 1 < n) \<or> (w = 4 \<and> 2 < n)"
      for a b p d q r x t and w n :: nat by (auto split: if_splits)
    then show ?thesis using c0 c[of _ _ 1] c[of _ _ 2] unfolding s rune_width_def list.case Let_def by blast
  qed
  then show ?thesis unfolding s list.size by linarith
qed

function runes :: "string \<Rightarrow> string list" where
  "runes s = (if s = [] then [] else take (rune_width s) s # runes (drop (rune_width s) s))"
  by pat_completeness auto
termination by (relation "measure length") (use rune_width_bounds in fastforce)+

declare runes.simps [simp del]

lemma runes_Nil [simp]: "runes [] = []"
  by (simp add: runes.simps)

lemma concat_runes: "concat (runes s) = s"
proof (induction s rule: runes.induct)
  case (1 s)
  then show ?case by (subst runes.simps) auto
qed

definition rune_count :: "string \<Rightarrow> nat" where "rune_count s = length (runes s)"

lemma rune_count_le: "rune_count s \<le> length s"
proof -
  have "length xss \<le> length (concat xss)" if "[] \<notin> set xss" for xss :: "string list"
    using that
  proof (induction xss)
    case (Cons xs xss)
    then show ?case by (cases xs) auto
  qed simp
  moreover have "[] \<notin> set (runes s)"
  proof (induction s rule: runes.induct)
    case (1 s)
    then show ?case using rune_width_bounds[of s] by (subst runes.simps) auto
  qed
  ultimately show ?thesis using concat_runes[of s] unfolding rune_count_def by metis
qed

end
