(* ===== verification/Check_Runs.thy ===== *)
theory Check_Runs
  imports FD_Model FD_Library "HOL-Library.Multiset"
begin

text \<open>
  A commit's checks: which of them a newer run of their workflow replaces (\<open>newest_runs.go\<close>), how
  they are grouped by run (\<open>run_groups.go\<close>), the facts sent of each (\<open>check_json.go\<close>) and the rows
  of the default branches (\<open>main_branch.go\<close>). The clients of both forges build on these.
\<close>

section \<open>Facts of a check\<close>

definition checkFacts :: "check_state \<Rightarrow> check_status \<times> check_conclusion" where
  "checkFacts state = (case state of
     CheckQueued \<Rightarrow> (''queued'', '''')
   | CheckRunning \<Rightarrow> (''in_progress'', '''')
   | CheckAwaitingApproval \<Rightarrow> (''waiting'', '''')
   | CheckSuccess \<Rightarrow> (''completed'', ''success'')
   | CheckFailure \<Rightarrow> (''completed'', ''failure'')
   | CheckCancelled \<Rightarrow> (''completed'', ''cancelled'')
   | CheckSkipped \<Rightarrow> (''completed'', ''skipped'')
   | CheckTimedOut \<Rightarrow> (''completed'', ''timed_out'')
   | CheckStateOther _ \<Rightarrow> ('''', ''''))"

definition StatusFacts :: "check_state \<Rightarrow> string \<Rightarrow> check_status \<times> check_conclusion" where
  "StatusFacts state reported =
     (if reported \<noteq> '''' then (''completed'', reported) else checkFacts state)"

definition withFact :: "check \<Rightarrow> check" where
  "withFact c = (let (s, r) = StatusFacts (ckState c) (ckReportedConclusion c)
     in c\<lparr>ckStatus := s, ckConclusion := r\<rparr>)"

definition WithFacts :: "check list \<Rightarrow> check list" where
  "WithFacts checks = map withFact checks"

section \<open>Superseded runs\<close>

definition olderThan :: "int \<Rightarrow> int \<Rightarrow> int \<Rightarrow> int \<Rightarrow> bool" where
  "olderThan a b c d \<longleftrightarrow> a < c \<or> (a = c \<and> b < d)"

definition canSupersede :: "check \<Rightarrow> bool" where
  "canSupersede c =
     (if ckRunName c = '''' \<or> ckRunNumber c = 0 then False
      else (case ckRun c of None \<Rightarrow> True | Some r \<Rightarrow> rfConclusion r \<noteq> ''cancelled''))"

definition noteNewest :: "check \<Rightarrow> (string \<rightharpoonup> int \<times> int) \<Rightarrow> (string \<rightharpoonup> int \<times> int)" where
  "noteNewest c newest =
     (if \<not> canSupersede c then newest
      else if (case newest (ckRunName c) of None \<Rightarrow> True
               | Some (n, a) \<Rightarrow> olderThan n a (ckRunNumber c) (ckRunAttempt c))
      then newest(ckRunName c \<mapsto> (ckRunNumber c, ckRunAttempt c)) else newest)"

definition newestVersions :: "check list \<Rightarrow> (string \<rightharpoonup> int \<times> int)" where
  "newestVersions checks = fold noteNewest checks Map.empty"

definition isSuperseded :: "(string \<rightharpoonup> int \<times> int) \<Rightarrow> check \<Rightarrow> bool" where
  "isSuperseded newest c =
     (if ckRunName c = '''' \<or> ckRunNumber c = 0 then False
      else (case newest (ckRunName c) of None \<Rightarrow> False
            | Some (n, a) \<Rightarrow> olderThan (ckRunNumber c) (ckRunAttempt c) n a))"

definition SupersededRuns :: "check list \<Rightarrow> bool list" where
  "SupersededRuns checks = map (isSuperseded (newestVersions checks)) checks"

definition NewestRuns :: "check list \<Rightarrow> check list" where
  "NewestRuns checks = map fst (filter (\<lambda>(c, gone). \<not> gone) (zip checks (SupersededRuns checks)))"

section \<open>Runs\<close>

record run_group =
  rgKey :: string
  rgRunID :: int
  rgRunAttempt :: int
  rgChecks :: "check list"
  rgRun :: "run_facts option"

definition groupKey :: "check \<Rightarrow> string" where
  "groupKey c = (if ckRunID c > 0 then ''run/'' @ itoa (ckRunID c) @ ''/'' @ itoa (ckRunAttempt c)
                 else ''job/'' @ ckURL c @ ''|'' @ ckName c)"

text \<open>The slice of groups, and where in it each key stands.\<close>

definition groupCheck :: "check \<Rightarrow> run_group list \<times> (string \<rightharpoonup> nat) \<Rightarrow> run_group list \<times> (string \<rightharpoonup> nat)" where
  "groupCheck c = (\<lambda>(groups, at).
     let key = groupKey c;
         (i, at', groups') = (case at key of Some i \<Rightarrow> (i, at, groups)
           | None \<Rightarrow> (length groups, at(key \<mapsto> length groups), groups @
               [\<lparr>rgKey = key, rgRunID = ckRunID c, rgRunAttempt = ckRunAttempt c, rgChecks = [], rgRun = None\<rparr>]));
         g = groups' ! i;
         g1 = g\<lparr>rgChecks := rgChecks g @ [c]\<rparr>;
         g2 = (if rgRun g1 = None \<and> ckRunID c > 0 then g1\<lparr>rgRun := ckRun c\<rparr> else g1)
     in (groups'[i := g2], at'))"

definition GroupRuns :: "check list \<Rightarrow> run_group list" where
  "GroupRuns checks = fst (fold groupCheck checks ([], Map.empty))"

definition runOfGroup :: "run_group \<Rightarrow> main_branch_run" where
  "runOfGroup g =
     (let run = \<lparr>mrRunID = rgRunID g, mrRunAttempt = rgRunAttempt g, mrStatus = '''', mrConclusion = '''',
                 mrStartedAt = None, mrCompletedAt = None, mrJobsTruncated = False, mrChecks = rgChecks g\<rparr>
      in case rgRun g of None \<Rightarrow> run
         | Some r \<Rightarrow> run\<lparr>mrStatus := rfStatus r, mrConclusion := rfConclusion r,
                         mrStartedAt := rfStartedAt r, mrCompletedAt := rfCompletedAt r\<rparr>)"

definition MainBranchRuns :: "check list \<Rightarrow> main_branch_run list" where
  "MainBranchRuns checks = map runOfGroup (GroupRuns (WithFacts checks))"

section \<open>Rows of default branches\<close>

definition MainBranchStatusOfCI :: "ci_status \<Rightarrow> main_branch_status" where
  "MainBranchStatusOfCI ci = (case ci of CIFailure \<Rightarrow> MainBranchFailed | CISuccess \<Rightarrow> MainBranchPassed
     | CIPending \<Rightarrow> MainBranchRunning | _ \<Rightarrow> MainBranchNone)"

definition ShortSHA :: "string \<Rightarrow> string" where
  "ShortSHA sha = (if length sha \<le> 7 then sha else take 7 sha)"

definition committedAt :: "main_branch \<Rightarrow> time option" where
  "committedAt r = Option.bind (mbCommit r) mcCommittedAt"

text \<open>The three comparisons of \<open>SortMainBranches\<close> as one key: dated rows first, newest first.\<close>

definition branchOrder :: "main_branch \<Rightarrow> (bool \<times> int) \<times> string \<times> string" where
  "branchOrder r = ((case committedAt r of Some t \<Rightarrow> (False, - t) | None \<Rightarrow> (True, 0)),
                    mbFullName r, forge_str (mbForge r))"

definition SortMainBranches :: "main_branch list \<Rightarrow> main_branch list" where
  "SortMainBranches rows = sort_key branchOrder rows"

section \<open>What a newer run replaces\<close>

text \<open>
  The reference: a check is replaced when some check of its workflow that says something about the
  code belongs to a later run or a later attempt.
\<close>

definition check_version :: "check \<Rightarrow> int \<times> int" where
  "check_version c = (ckRunNumber c, ckRunAttempt c)"

definition replaced_in :: "check list \<Rightarrow> check \<Rightarrow> bool" where
  "replaced_in checks c \<longleftrightarrow> ckRunName c \<noteq> '''' \<and> ckRunNumber c \<noteq> 0 \<and>
     list_ex (\<lambda>d. canSupersede d \<and> ckRunName d = ckRunName c \<and> check_version c < check_version d) checks"

lemma olderThan_less [simp]: "olderThan a b c d \<longleftrightarrow> (a, b) < (c, d)"
  by (auto simp: olderThan_def)

definition newest_of :: "check set \<Rightarrow> (string \<rightharpoonup> int \<times> int) \<Rightarrow> bool" where
  "newest_of cs newest \<longleftrightarrow>
     (\<forall>name. (case newest name of
        None \<Rightarrow> \<not> (\<exists>d \<in> cs. canSupersede d \<and> ckRunName d = name)
      | Some v \<Rightarrow> (\<exists>d \<in> cs. canSupersede d \<and> ckRunName d = name \<and> check_version d = v) \<and>
                  (\<forall>d \<in> cs. canSupersede d \<and> ckRunName d = name \<longrightarrow> check_version d \<le> v)))"

lemma newest_ofD:
  assumes "newest_of cs newest"
  shows "newest name = None \<Longrightarrow> d \<in> cs \<Longrightarrow> canSupersede d \<Longrightarrow> ckRunName d \<noteq> name"
    and "newest name = Some v \<Longrightarrow> \<exists>d \<in> cs. canSupersede d \<and> ckRunName d = name \<and> check_version d = v"
    and "newest name = Some v \<Longrightarrow> d \<in> cs \<Longrightarrow> canSupersede d \<Longrightarrow> ckRunName d = name \<Longrightarrow> check_version d \<le> v"
  using assms unfolding newest_of_def by (force dest!: spec[of _ name])+

lemma newest_step:
  assumes "newest_of cs newest"
  shows "newest_of (insert c cs) (noteNewest c newest)"
  unfolding newest_of_def
proof
  fix name
  show "case noteNewest c newest name of
        None \<Rightarrow> \<not> (\<exists>d \<in> insert c cs. canSupersede d \<and> ckRunName d = name)
      | Some v \<Rightarrow> (\<exists>d \<in> insert c cs. canSupersede d \<and> ckRunName d = name \<and> check_version d = v) \<and>
                  (\<forall>d \<in> insert c cs. canSupersede d \<and> ckRunName d = name \<longrightarrow> check_version d \<le> v)"
  proof (cases "canSupersede c \<and> ckRunName c = name")
    case False
    then have "noteNewest c newest name = newest name" by (auto simp: noteNewest_def)
    with assms False show ?thesis unfolding newest_of_def by (fastforce split: option.splits dest!: spec[of _ name])
  next
    case True
    show ?thesis
    proof (cases "newest name")
      case None
      with True newest_ofD(1)[OF assms None] show ?thesis
        by (auto simp: noteNewest_def check_version_def)
    next
      case (Some v)
      obtain n a where v: "v = (n, a)" by (cases v)
      note old = newest_ofD(2,3)[OF assms Some]
      show ?thesis
      proof (cases "v < check_version c")
        case less: True
        then have "noteNewest c newest name = Some (check_version c)"
          using True Some v by (simp add: noteNewest_def check_version_def)
        with True less old(2) show ?thesis by (fastforce simp del: less_prod_simp)
      next
        case False
        then have "noteNewest c newest name = Some v"
          using True Some v by (simp add: noteNewest_def check_version_def)
        with True False old show ?thesis by (auto simp del: less_prod_simp simp: not_less)
      qed
    qed
  qed
qed

lemma newest_fold: "newest_of cs m \<Longrightarrow> newest_of (cs \<union> set checks) (fold noteNewest checks m)"
proof (induction checks arbitrary: cs m)
  case (Cons c checks)
  from Cons.IH[OF newest_step[OF Cons.prems, of c]] show ?case by simp
qed simp

lemma newestVersions_newest: "newest_of (set checks) (newestVersions checks)"
  using newest_fold[of "{}" Map.empty checks] by (simp add: newestVersions_def newest_of_def)

lemma isSuperseded_iff: "isSuperseded (newestVersions checks) c \<longleftrightarrow> replaced_in checks c"
proof (cases "newestVersions checks (ckRunName c)")
  case None
  then show ?thesis
    using newest_ofD(1)[OF newestVersions_newest None]
    by (auto simp: isSuperseded_def replaced_in_def list_ex_iff)
next
  case (Some v)
  note new = newest_ofD(2,3)[OF newestVersions_newest Some]
  have "check_version c < v \<longleftrightarrow>
    (\<exists>d \<in> set checks. canSupersede d \<and> ckRunName d = ckRunName c \<and> check_version c < check_version d)"
    using new by (metis less_le_trans)
  moreover have "isSuperseded (newestVersions checks) c \<longleftrightarrow>
    ckRunName c \<noteq> '''' \<and> ckRunNumber c \<noteq> 0 \<and> check_version c < v"
    using Some by (cases v) (simp add: isSuperseded_def check_version_def del: less_prod_simp)
  ultimately show ?thesis by (simp add: replaced_in_def list_ex_iff)
qed

lemma SupersededRuns_eq: "SupersededRuns checks = map (replaced_in checks) checks"
  by (simp add: SupersededRuns_def isSuperseded_iff)

lemma NewestRuns_eq: "NewestRuns checks = filter (\<lambda>c. \<not> replaced_in checks c) checks"
proof -
  have "map fst (filter (\<lambda>(c, gone). \<not> gone) (zip xs (map P xs))) = filter (\<lambda>c. \<not> P c) xs"
    for xs :: "check list" and P by (induction xs) auto
  then show ?thesis by (simp add: NewestRuns_def SupersededRuns_eq)
qed

lemma replaced_mono: "set xs \<subseteq> set ys \<Longrightarrow> replaced_in xs c \<Longrightarrow> replaced_in ys c"
  by (auto simp: replaced_in_def list_ex_iff)

lemma NewestRuns_idem: "NewestRuns (NewestRuns checks) = NewestRuns checks"
proof -
  have "set (NewestRuns checks) \<subseteq> set checks" by (auto simp: NewestRuns_eq)
  then have "replaced_in (NewestRuns checks) c \<Longrightarrow> replaced_in checks c" for c by (rule replaced_mono)
  moreover have "c \<in> set (NewestRuns checks) \<Longrightarrow> \<not> replaced_in checks c" for c
    by (simp add: NewestRuns_eq)
  ultimately have "filter (\<lambda>c. \<not> replaced_in (NewestRuns checks) c) (NewestRuns checks) = NewestRuns checks"
    by (auto simp: filter_id_conv)
  then show ?thesis using NewestRuns_eq[of "NewestRuns checks"] by simp
qed

text \<open>What replaces an older run is itself kept: the newest run of a workflow always is.\<close>

lemma newest_is_kept:
  assumes "d \<in> set checks" "canSupersede d"
  shows "\<exists>e \<in> set (NewestRuns checks). canSupersede e \<and> ckRunName e = ckRunName d \<and> check_version d \<le> check_version e"
proof -
  obtain v where v: "newestVersions checks (ckRunName d) = Some v"
    using newest_ofD(1)[OF newestVersions_newest _ assms] by fastforce
  note new = newest_ofD(2,3)[OF newestVersions_newest v]
  from new(1) obtain e where e: "e \<in> set checks" "canSupersede e" "ckRunName e = ckRunName d" "check_version e = v" by blast
  then have "\<not> replaced_in checks e" using new(2) by (auto simp: replaced_in_def list_ex_iff not_less)
  with e new(2)[OF assms] show ?thesis by (auto simp: NewestRuns_eq)
qed

section \<open>Grouping by run\<close>

text \<open>The keys of a list in the order each first appears.\<close>

definition firsts :: "'a list \<Rightarrow> 'a list" where
  "firsts xs = fold (\<lambda>x ys. if x \<in> set ys then ys else ys @ [x]) xs []"

lemma firsts_Nil [simp]: "firsts [] = []"
  by (simp add: firsts_def)

lemma firsts_snoc: "firsts (xs @ [x]) = (if x \<in> set (firsts xs) then firsts xs else firsts xs @ [x])"
  by (simp add: firsts_def)

lemma firsts_props: "distinct (firsts xs) \<and> set (firsts xs) = set xs"
  by (induction xs rule: rev_induct) (auto simp: firsts_snoc)

text \<open>The state of the loop after some checks: the groups so far, and where each key stands.\<close>

definition grouped :: "check list \<Rightarrow> run_group list \<times> (string \<rightharpoonup> nat) \<Rightarrow> bool" where
  "grouped cs = (\<lambda>(groups, at).
     map rgKey groups = firsts (map groupKey cs) \<and>
     (\<forall>k i. at k = Some i \<longleftrightarrow> i < length groups \<and> rgKey (groups ! i) = k) \<and>
     (\<forall>g \<in> set groups. rgChecks g = filter (\<lambda>c. groupKey c = rgKey g) cs))"

lemma grouped_step:
  assumes "grouped cs st"
  shows "grouped (cs @ [c]) (groupCheck c st)"
proof -
  obtain groups at where st: "st = (groups, at)" by (cases st)
  from assms st have keys: "map rgKey groups = firsts (map groupKey cs)"
    and at: "\<And>k i. at k = Some i \<longleftrightarrow> i < length groups \<and> rgKey (groups ! i) = k"
    and jobs: "\<And>g. g \<in> set groups \<Longrightarrow> rgChecks g = filter (\<lambda>c. groupKey c = rgKey g) cs"
    by (auto simp: grouped_def)
  have dist: "distinct (map rgKey groups)" and sets: "set (map rgKey groups) = groupKey ` set cs"
    using firsts_props[of "map groupKey cs"] keys by simp_all
  show ?thesis
  proof (cases "at (groupKey c)")
    case (Some i)
    then have i: "i < length groups" "rgKey (groups ! i) = groupKey c" using at by auto
    then have seen: "groupKey c \<in> set (firsts (map groupKey cs))"
      using keys sets by (metis length_map nth_map nth_mem)
    define g where "g = (groups ! i)\<lparr>rgChecks := rgChecks (groups ! i) @ [c]\<rparr>"
    define g2 where "g2 = (if rgRun g = None \<and> ckRunID c > 0 then g\<lparr>rgRun := ckRun c\<rparr> else g)"
    have g2: "rgKey g2 = groupKey c" "rgChecks g2 = rgChecks (groups ! i) @ [c]"
      using i by (simp_all add: g2_def g_def)
    have run: "groupCheck c st = (groups[i := g2], at)"
      using Some st by (simp add: groupCheck_def Let_def g2_def g_def)
    have keys': "map rgKey (groups[i := g2]) = map rgKey groups"
      using i g2 by (metis list_update_id map_update)
    have other: "h \<in> set groups \<Longrightarrow> rgKey h = groupKey c \<Longrightarrow> h = groups ! i" for h
      using dist i by (metis distinct_conv_nth in_set_conv_nth length_map nth_map)
    have "rgChecks h = filter (\<lambda>d. groupKey d = rgKey h) (cs @ [c])" if h: "h \<in> set (groups[i := g2])" for h
    proof (cases "h = g2")
      case True
      then show ?thesis using g2 jobs[of "groups ! i"] i by simp
    next
      case False
      then obtain j where j: "j < length groups" "j \<noteq> i" "h = groups ! j"
        using h by (metis in_set_conv_nth length_list_update nth_list_update_eq nth_list_update_neq i(1))
      then have "rgKey h \<noteq> groupKey c"
        using dist i by (metis distinct_conv_nth length_map nth_map)
      then show ?thesis using jobs[of h] j by simp
    qed
    moreover have "at k = Some j \<longleftrightarrow> j < length (groups[i := g2]) \<and> rgKey (groups[i := g2] ! j) = k" for k j
      using at[of k j] i g2 by (cases "j = i") auto
    ultimately show ?thesis
      using keys keys' seen by (simp add: run grouped_def firsts_snoc)
  next
    case None
    then have fresh: "groupKey c \<notin> set (map rgKey groups)"
    proof -
      have "\<forall>i < length groups. rgKey (groups ! i) \<noteq> groupKey c"
        using None at[of "groupKey c"] by simp
      then show ?thesis by (auto simp: image_iff in_set_conv_nth)
    qed
    define g where "g = \<lparr>rgKey = groupKey c, rgRunID = ckRunID c, rgRunAttempt = ckRunAttempt c,
        rgChecks = [c], rgRun = (if ckRunID c > 0 then ckRun c else None)\<rparr>"
    have run: "groupCheck c st = (groups @ [g], at(groupKey c \<mapsto> length groups))"
      using None st by (simp add: groupCheck_def Let_def g_def)
    have none: "filter (\<lambda>d. groupKey d = groupKey c) cs = []"
      using fresh unfolding sets filter_empty_conv by (metis image_eqI)
    have "rgChecks h = filter (\<lambda>d. groupKey d = rgKey h) (cs @ [c])" if "h \<in> set (groups @ [g])" for h
      using that jobs[of h] fresh none by (auto simp: g_def)
    moreover have "(at(groupKey c \<mapsto> length groups)) k = Some j \<longleftrightarrow>
        j < length (groups @ [g]) \<and> rgKey ((groups @ [g]) ! j) = k" for k j
    proof (cases "j = length groups")
      case True
      then show ?thesis using at[of k j] by (auto simp: g_def)
    next
      case False
      have "k = groupKey c \<Longrightarrow> j < length groups \<Longrightarrow> rgKey (groups ! j) \<noteq> k"
        using fresh by (metis in_set_conv_nth length_map nth_map)
      then show ?thesis using at[of k j] False by (auto simp: nth_append)
    qed
    ultimately show ?thesis
      using keys fresh by (simp add: run grouped_def firsts_snoc g_def)
  qed
qed

lemma grouped_fold: "grouped cs (fold groupCheck cs ([], Map.empty))"
  by (induction cs rule: rev_induct) (simp add: grouped_def, simp add: grouped_step)

lemma GroupRuns_groups:
  "map rgKey (GroupRuns checks) = firsts (map groupKey checks)"
  "g \<in> set (GroupRuns checks) \<Longrightarrow> rgChecks g = filter (\<lambda>c. groupKey c = rgKey g) checks"
  using grouped_fold[of checks] by (auto simp: GroupRuns_def grouped_def split: prod.splits)

lemma GroupRuns_mset: "mset (concat (map rgChecks (GroupRuns checks))) = mset checks"
proof -
  have "map rgChecks (GroupRuns checks) =
      map (\<lambda>k. filter (\<lambda>c. groupKey c = k) checks) (map rgKey (GroupRuns checks))"
    using GroupRuns_groups(2) by simp
  then show ?thesis
    using mset_by_key[of "firsts (map groupKey checks)" groupKey checks] firsts_props[of "map groupKey checks"]
    by (simp add: GroupRuns_groups(1) del: map_map)
qed

text \<open>Two checks of a run share a group exactly when they are of the same attempt of the same run.\<close>

lemma slash_join_inj:
  assumes "itoa a @ CHR ''/'' # itoa b = itoa c @ CHR ''/'' # itoa d"
  shows "a = c \<and> b = d"
proof -
  have "cut (itoa a @ CHR ''/'' # itoa b) ''/'' = cut (itoa c @ CHR ''/'' # itoa d) ''/''"
    using assms by (rule arg_cong)
  then show ?thesis by (simp add: cut_single itoa_inj)
qed

lemma same_run_iff:
  "ckRunID c > 0 \<Longrightarrow> ckRunID d > 0 \<Longrightarrow>
   groupKey c = groupKey d \<longleftrightarrow> ckRunID c = ckRunID d \<and> ckRunAttempt c = ckRunAttempt d"
  using slash_join_inj[of "ckRunID c" "ckRunAttempt c" "ckRunID d" "ckRunAttempt d"]
  by (auto simp: groupKey_def)

lemma run_key_not_job: "ckRunID c > 0 \<Longrightarrow> \<not> ckRunID d > 0 \<Longrightarrow> groupKey c \<noteq> groupKey d"
  by (simp add: groupKey_def)

text \<open>A check without a run is named by its address and name, and the two can run into each other.\<close>

lemma job_key_ambiguous:
  "ckRunID c \<le> 0 \<Longrightarrow> groupKey (c\<lparr>ckURL := ''a|b'', ckName := ''c''\<rparr>) = groupKey (c\<lparr>ckURL := ''a'', ckName := ''b|c''\<rparr>)"
  by (simp add: groupKey_def)

section \<open>The order of the rows\<close>

lemma SortMainBranches_order:
  "sorted (map branchOrder (SortMainBranches rows))" "mset (SortMainBranches rows) = mset rows"
  by (simp_all add: SortMainBranches_def)

text \<open>A reported conclusion, and so a completed status, is kept; the facts say no more than the state.\<close>

lemma withFact_idem: "withFact (withFact c) = withFact c"
  by (simp add: withFact_def split_beta)

end
