(* ===== verification/Github_Checks.thy ===== *)
theory Github_Checks
  imports Check_Runs
begin

text \<open>
  What the GitHub client makes of a commit's checks: the rollup of a commit (\<open>client.go\<close>), the row
  of a default branch and the walk back to a commit with checks (\<open>main_branch.go\<close>), and the rollup
  rebuilt from the newest run of every workflow (\<open>main_branch_newest.go\<close>). GitHub's answers are
  parameters. A Go \<open>int\<close> that counts checks is an integer.
\<close>

section \<open>Answers\<close>

record workflow_run =
  wrDatabaseID :: int
  wrRunAttempt :: int
  wrRunNumber :: int
  wrEvent :: string
  wrWorkflow :: string

record branch_suite =
  bsID :: string
  bsStatus :: string
  bsConclusion :: string
  bsWorkflowRun :: "workflow_run option"

record context_suite =
  csStatus :: string
  csConclusion :: string
  csWorkflowRun :: "workflow_run option"

record branch_context =
  bcTypename :: string
  bcDatabaseID :: int
  bcName :: string
  bcStatus :: string
  bcConclusion :: string
  bcStartedAt :: time
  bcCompletedAt :: time
  bcDetailsURL :: string
  bcPermalink :: string
  bcCheckSuite :: "context_suite option"
  bcContext :: string
  bcState :: string
  bcTargetURL :: string

record state_count =
  scState :: string
  scCount :: int

record rollup_contexts =
  rcRunCounts :: "state_count list"
  rcStatusCounts :: "state_count list"
  rcNodes :: "branch_context list"

record rollup =
  ruState :: string
  ruContexts :: "rollup_contexts option"
  ruJobsCut :: bool

record commit_author =
  caName :: string
  caLogin :: "string option"

record graphql_commit =
  gcOID :: string
  gcHeadline :: string
  gcURL :: string
  gcCommittedDate :: time
  gcAuthor :: "commit_author option"
  gcRollup :: "rollup option"
  gcSuites :: "branch_suite list option"

record branch_ref =
  gbName :: string
  gbTarget :: graphql_commit
  gbHeldRunURL :: string

record graphql_release =
  glTagName :: string
  glURL :: string

section \<open>States of one check\<close>

definition checkStateOf :: "string \<Rightarrow> string \<Rightarrow> check_state" where
  "checkStateOf status conclusion =
     (if status \<noteq> ''completed'' then (if status = ''in_progress'' then CheckRunning else CheckQueued)
      else if conclusion = ''success'' \<or> conclusion = ''neutral'' then CheckSuccess
      else if conclusion = ''skipped'' then CheckSkipped
      else if conclusion = ''cancelled'' then CheckCancelled
      else if conclusion = ''timed_out'' then CheckTimedOut
      else if conclusion = ''action_required'' then CheckAwaitingApproval
      else CheckFailure)"

definition checkStateFromCombinedState :: "string \<Rightarrow> check_state" where
  "checkStateFromCombinedState state =
     (if state = ''success'' then CheckSuccess
      else if state = ''failure'' \<or> state = ''error'' then CheckFailure else CheckRunning)"

definition statusFromCombinedState :: "string \<Rightarrow> ci_status" where
  "statusFromCombinedState state =
     (if state = ''success'' then CISuccess
      else if state = ''failure'' \<or> state = ''error'' then CIFailure
      else if state = ''pending'' then CIPending else CINone)"

definition reportedWord :: "string \<Rightarrow> string \<Rightarrow> string" where
  "reportedWord status conclusion = (if status \<noteq> ''COMPLETED'' then '''' else lower conclusion)"

definition timePtr :: "time \<Rightarrow> time option" where
  "timePtr t = (if t = zero_time then None else Some t)"

definition no_check :: check where
  "no_check = \<lparr>ckName = '''', ckStatus = '''', ckConclusion = '''', ckState = CheckStateOther '''',
     ckReportedConclusion = '''', ckURL = '''', ckJobID = 0, ckRunID = 0, ckRunName = '''', ckRunNumber = 0,
     ckRequired = None, ckStartedAt = None, ckCompletedAt = None, ckRunAttempt = 0, ckRun = None,
     ckFailedStep = '''', ckExcerpt = ''''\<rparr>"

definition page :: "branch_context \<Rightarrow> string" where
  "page c =
     (if bcTypename c = ''StatusContext'' then bcTargetURL c
      else if (case url_hostname (bcDetailsURL c) of None \<Rightarrow> False | Some h \<Rightarrow> has_suffix h ''.githubapp.com'') \<and>
              bcPermalink c \<noteq> '''' then bcPermalink c
      else bcDetailsURL c)"

definition context_label :: "branch_context \<Rightarrow> string" where
  "context_label c = (if bcTypename c = ''StatusContext'' then bcContext c else bcName c)"

definition runKey :: "branch_context \<Rightarrow> int \<times> int" where
  "runKey c = (case Option.bind (bcCheckSuite c) csWorkflowRun of None \<Rightarrow> (0, 0)
     | Some run \<Rightarrow> (wrDatabaseID run, wrRunAttempt run))"

definition suiteAsCheck :: "branch_suite \<Rightarrow> check" where
  "suiteAsCheck s = (case bsWorkflowRun s of None \<Rightarrow> no_check
     | Some run \<Rightarrow>
         (let c = no_check\<lparr>ckRunID := wrDatabaseID run, ckRunAttempt := wrRunAttempt run,
                           ckRunNumber := wrRunNumber run, ckRunName := wrWorkflow run\<rparr>
          in if equal_fold (bsConclusion s) ''CANCELLED''
             then c\<lparr>ckRun := Some \<lparr>rfStatus = '''', rfConclusion = ''cancelled'', rfStartedAt = None, rfCompletedAt = None\<rparr>\<rparr>
             else c))"

definition asCheck :: "branch_context \<Rightarrow> check" where
  "asCheck c =
     (if bcTypename c = ''StatusContext''
      then no_check\<lparr>ckName := bcContext c, ckState := checkStateFromCombinedState (lower (bcState c)),
                    ckURL := bcTargetURL c\<rparr>
      else (let check = no_check\<lparr>ckName := bcName c, ckState := checkStateOf (lower (bcStatus c)) (lower (bcConclusion c)),
                  ckReportedConclusion := reportedWord (bcStatus c) (bcConclusion c), ckURL := page c,
                  ckJobID := bcDatabaseID c, ckStartedAt := timePtr (bcStartedAt c),
                  ckCompletedAt := timePtr (bcCompletedAt c)\<rparr>
            in case bcCheckSuite c of None \<Rightarrow> check
               | Some suite \<Rightarrow> (case csWorkflowRun suite of None \<Rightarrow> check
                 | Some run \<Rightarrow>
                     if wrDatabaseID run = 0 then check
                     else (let (s, r) = StatusFacts (checkStateOf (lower (csStatus suite)) (lower (csConclusion suite)))
                                (reportedWord (csStatus suite) (csConclusion suite))
                           in check\<lparr>ckRunID := wrDatabaseID run, ckRunAttempt := wrRunAttempt run,
                                ckRunNumber := wrRunNumber run, ckRunName := wrWorkflow run,
                                ckRun := Some \<lparr>rfStatus = s, rfConclusion = r, rfStartedAt = None, rfCompletedAt = None\<rparr>\<rparr>))))"

section \<open>The rollup\<close>

record failure_kinds =
  heldRun :: bool
  cancelledRun :: bool

definition failedRun :: "failure_kinds \<Rightarrow> string \<Rightarrow> bool" where
  "failedRun k state =
     (if state \<in> {''FAILURE'', ''TIMED_OUT'', ''STARTUP_FAILURE'', ''STALE''} then True
      else if state = ''ACTION_REQUIRED'' then heldRun k
      else if state = ''CANCELLED'' then cancelledRun k else False)"

definition hasFailedContext :: "rollup_contexts \<Rightarrow> failure_kinds \<Rightarrow> bool" where
  "hasFailedContext r kinds \<longleftrightarrow>
     list_ex (\<lambda>c. scCount c > 0 \<and> failedRun kinds (scState c)) (rcRunCounts r) \<or>
     list_ex (\<lambda>c. scCount c > 0 \<and> (scState c = ''FAILURE'' \<or> scState c = ''ERROR'')) (rcStatusCounts r)"

definition runningCheckRunStates :: "string list" where
  "runningCheckRunStates = [''QUEUED'', ''IN_PROGRESS'', ''PENDING'', ''WAITING'', ''REQUESTED'']"

definition settleFailedRollup :: "rollup \<Rightarrow> ci_status" where
  "settleFailedRollup r = (case ruContexts r of None \<Rightarrow> CIFailure
     | Some cs \<Rightarrow>
         (let failed = hasFailedContext cs \<lparr>heldRun = True, cancelledRun = False\<rparr>;
              running = list_ex (\<lambda>c. scCount c > 0 \<and> List.member runningCheckRunStates (scState c)) (rcRunCounts cs) \<or>
                list_ex (\<lambda>c. scCount c > 0 \<and> (scState c = ''PENDING'' \<or> scState c = ''EXPECTED'')) (rcStatusCounts cs)
          in if running \<and> \<not> failed then CIPending else CIFailure))"

definition rollupCI :: "rollup option \<Rightarrow> ci_status" where
  "rollupCI ro = (case ro of None \<Rightarrow> CINone
     | Some r \<Rightarrow>
         if ruState r = ''SUCCESS'' then CISuccess
         else if ruState r = ''ERROR'' \<or> ruState r = ''FAILURE'' then settleFailedRollup r
         else if ruState r = ''PENDING'' \<or> ruState r = ''EXPECTED'' then CIPending else CINone)"

definition tallyRun :: "state_count \<Rightarrow> check_counts \<Rightarrow> check_counts" where
  "tallyRun c out =
     (if scState c \<in> {''SUCCESS'', ''NEUTRAL'', ''COMPLETED''} then out\<lparr>Passed := Passed out + scCount c\<rparr>
      else if scState c = ''SKIPPED'' then out\<lparr>Passed := Passed out + scCount c, Skipped := Skipped out + scCount c\<rparr>
      else if scState c = ''IN_PROGRESS'' then out\<lparr>Running := Running out + scCount c\<rparr>
      else if scState c \<in> {''QUEUED'', ''PENDING'', ''WAITING'', ''REQUESTED''} then out\<lparr>Waiting := Waiting out + scCount c\<rparr>
      else if scState c \<in> {''FAILURE'', ''TIMED_OUT'', ''STARTUP_FAILURE'', ''STALE''} then out\<lparr>Failed := Failed out + scCount c\<rparr>
      else out)"

definition tallyStatus :: "state_count \<Rightarrow> check_counts \<Rightarrow> check_counts" where
  "tallyStatus c out =
     (if scState c = ''SUCCESS'' then out\<lparr>Passed := Passed out + scCount c\<rparr>
      else if scState c \<in> {''PENDING'', ''EXPECTED''} then out\<lparr>Waiting := Waiting out + scCount c\<rparr>
      else if scState c \<in> {''FAILURE'', ''ERROR''} then out\<lparr>Failed := Failed out + scCount c\<rparr>
      else out)"

definition rollupContexts :: "rollup option \<Rightarrow> rollup_contexts option" where
  "rollupContexts ro = Option.bind ro ruContexts"

definition rawCheckCounts :: "rollup option \<Rightarrow> check_counts" where
  "rawCheckCounts ro = (case rollupContexts ro of None \<Rightarrow> no_checks
     | Some cs \<Rightarrow> fold tallyStatus (rcStatusCounts cs) (fold tallyRun (rcRunCounts cs) no_checks))"

definition runsInState :: "rollup option \<Rightarrow> string \<Rightarrow> int" where
  "runsInState ro state = (case rollupContexts ro of None \<Rightarrow> 0
     | Some cs \<Rightarrow> (case find (\<lambda>c. scState c = state) (rcRunCounts cs) of None \<Rightarrow> 0 | Some c \<Rightarrow> scCount c))"

definition checkCounts :: "rollup option \<Rightarrow> check_counts" where
  "checkCounts ro =
     (let out = rawCheckCounts ro
      in if Failed out = 0 \<and> rollupCI ro = CIFailure then out\<lparr>Failed := runsInState ro ''CANCELLED''\<rparr> else out)"

definition awaitingApproval :: "rollup option \<Rightarrow> bool" where
  "awaitingApproval ro = (case rollupContexts ro of None \<Rightarrow> False
     | Some cs \<Rightarrow> list_ex (\<lambda>c. scState c = ''ACTION_REQUIRED'' \<and> scCount c > 0) (rcRunCounts cs))"

definition failsOnlyForApproval :: "rollup option \<Rightarrow> bool" where
  "failsOnlyForApproval ro =
     (if \<not> awaitingApproval ro then False
      else (case rollupContexts ro of None \<Rightarrow> False
        | Some cs \<Rightarrow> \<not> hasFailedContext cs \<lparr>heldRun = False, cancelledRun = True\<rparr>))"

section \<open>The row of a default branch\<close>

definition releaseAsRow :: "graphql_release option \<Rightarrow> main_branch_release option" where
  "releaseAsRow ro = (case ro of None \<Rightarrow> None
     | Some r \<Rightarrow> if glTagName r = '''' \<or> glURL r = '''' then None else Some \<lparr>mlTag = glTagName r, mlURL = glURL r\<rparr>)"

definition totalChecks :: "rollup_contexts \<Rightarrow> int" where
  "totalChecks cs = sum_list (map scCount (rcRunCounts cs)) + sum_list (map scCount (rcStatusCounts cs))"

definition cutShort :: "rollup_contexts \<Rightarrow> bool" where
  "cutShort cs \<longleftrightarrow> totalChecks cs > int (length (rcNodes cs))"

definition branchRuns :: "rollup \<Rightarrow> rollup_contexts \<Rightarrow> main_branch_run list" where
  "branchRuns r cs = map (\<lambda>run. run\<lparr>mrJobsTruncated := ruJobsCut r \<or> cutShort cs\<rparr>)
     (MainBranchRuns (map asCheck (rcNodes cs)))"

definition failedConclusion :: "string \<Rightarrow> bool" where
  "failedConclusion c \<longleftrightarrow> c \<in> {''FAILURE'', ''TIMED_OUT'', ''ACTION_REQUIRED'', ''STARTUP_FAILURE'', ''STALE''}"

definition breaksBranch :: "branch_context \<Rightarrow> bool" where
  "breaksBranch c \<longleftrightarrow> (bcTypename c = ''CheckRun'' \<and> failedConclusion (bcConclusion c)) \<or>
     (bcTypename c = ''StatusContext'' \<and> (bcState c = ''FAILURE'' \<or> bcState c = ''ERROR''))"

definition failingBranchChecks :: "branch_context list \<Rightarrow> string list" where
  "failingBranchChecks checks =
     map (\<lambda>c. if bcTypename c = ''CheckRun'' then bcName c else bcContext c) (filter breaksBranch checks)"

definition isCancelledCheck :: "branch_context \<Rightarrow> bool" where
  "isCancelledCheck c \<longleftrightarrow> bcTypename c = ''CheckRun'' \<and> bcConclusion c = ''CANCELLED''"

definition firstPage :: "branch_context list \<Rightarrow> (branch_context \<Rightarrow> bool) \<Rightarrow> string" where
  "firstPage checks keep = (case find (\<lambda>c. keep c \<and> page c \<noteq> '''') checks of None \<Rightarrow> '''' | Some c \<Rightarrow> page c)"

definition branchRunURL :: "branch_context list \<Rightarrow> main_branch_status \<Rightarrow> string" where
  "branchRunURL checks status =
     (let wanted = (case status of
          MainBranchFailed \<Rightarrow> Some (\<lambda>c. List.member (failingBranchChecks [c]) (context_label c))
        | MainBranchCancelled \<Rightarrow> Some isCancelledCheck
        | _ \<Rightarrow> None);
          url = (case wanted of None \<Rightarrow> '''' | Some w \<Rightarrow> firstPage checks w)
      in if url \<noteq> '''' then url else firstPage checks (\<lambda>_. True))"

definition branchCheckCounts :: "rollup option \<Rightarrow> main_branch_status \<Rightarrow> check_counts" where
  "branchCheckCounts ro status =
     (let counts = rawCheckCounts ro in
      if status \<noteq> MainBranchFailed \<or> Failed counts > 0 then counts
      else (let held = runsInState ro ''ACTION_REQUIRED''
            in counts\<lparr>Failed := (if held = 0 then runsInState ro ''CANCELLED'' else held)\<rparr>))"

text \<open>
  \<open>branchTimes\<close>: the spans of the runs by key, and the key of the one that finished last so far
  (the code keeps a pointer into the map).
\<close>

type_synonym spans = "(int \<times> int) \<rightharpoonup> time \<times> time"

definition noteSpan :: "branch_context \<Rightarrow> spans \<times> (int \<times> int) option \<Rightarrow> spans \<times> (int \<times> int) option" where
  "noteSpan c = (\<lambda>(spans, newest).
     if bcTypename c \<noteq> ''CheckRun'' \<or> bcStartedAt c = zero_time \<or> bcCompletedAt c = zero_time then (spans, newest)
     else (let run = runKey c;
               (start, finish) = (case spans run of Some sp \<Rightarrow> sp | None \<Rightarrow> (bcStartedAt c, zero_time));
               start' = (if bcStartedAt c < start then bcStartedAt c else start);
               finish' = (if bcCompletedAt c > finish then bcCompletedAt c else finish);
               spans' = spans(run \<mapsto> (start', finish'));
               newest' = (case newest of None \<Rightarrow> Some run
                 | Some k \<Rightarrow> (case spans' k of None \<Rightarrow> Some run
                     | Some (_, l) \<Rightarrow> if finish' > l then Some run else Some k))
           in (spans', newest')))"

text \<open>
  The seconds are the whole ones of the span; \<open>Duration.Seconds\<close> goes through a float, exact to the
  second for spans of up to three months.
\<close>

definition branchTimes :: "branch_context list \<Rightarrow> time option \<times> int option" where
  "branchTimes checks = (case fold noteSpan checks (Map.empty, None) of
       (_, None) \<Rightarrow> (None, None)
     | (spans, Some k) \<Rightarrow> (case spans k of None \<Rightarrow> (None, None)
         | Some (start, finish) \<Rightarrow> (Some finish, Some (max 0 (time_sub finish start div second)))))"

definition emptyRow :: "string \<Rightarrow> string \<Rightarrow> graphql_release option \<Rightarrow> main_branch" where
  "emptyRow fullName repoURL release = \<lparr>mbForge = ForgeGitHub, mbFullName = fullName, mbURL = repoURL,
     mbBranch = '''', mbStatus = MainBranchNone, mbCommit = None, mbFailingJobs = [], mbFinishedAt = None,
     mbDurationSeconds = None, mbRunURL = repoURL, mbChecks = no_checks, mbRuns = [],
     mbLatestRelease = releaseAsRow release, mbStaleSince = None\<rparr>"

definition commitOf :: "graphql_commit \<Rightarrow> main_branch_commit" where
  "commitOf t = \<lparr>mcSHA = ShortSHA (gcOID t), mcSubject = gcHeadline t,
     mcAuthor = (case gcAuthor t of None \<Rightarrow> ''''
       | Some a \<Rightarrow> (case caLogin a of Some l \<Rightarrow> if l \<noteq> '''' then l else caName a | None \<Rightarrow> caName a)),
     mcCommittedAt = (if gcCommittedDate t = zero_time then None else Some (gcCommittedDate t))\<rparr>"

definition markAwaitingApproval :: "branch_ref \<Rightarrow> main_branch \<Rightarrow> main_branch" where
  "markAwaitingApproval ref row =
     (if gbHeldRunURL ref = '''' then row
      else row\<lparr>mbStatus := MainBranchAwaitingApproval, mbRunURL := gbHeldRunURL ref\<rparr>)"

definition settledStatus :: "main_branch_status \<Rightarrow> branch_context list \<Rightarrow> main_branch_status" where
  "settledStatus status checks =
     (if status = MainBranchFailed \<and> failingBranchChecks checks = [] \<and> list_ex isCancelledCheck checks
      then MainBranchCancelled else status)"

definition mainBranchFrom :: "string \<Rightarrow> string \<Rightarrow> graphql_release option \<Rightarrow> branch_ref option \<Rightarrow> main_branch" where
  "mainBranchFrom fullName repoURL release refo =
     (let row = emptyRow fullName repoURL release in
      case refo of None \<Rightarrow> row
      | Some ref \<Rightarrow>
          (let row1 = row\<lparr>mbBranch := gbName ref\<rparr>; target = gbTarget ref in
           if gcOID target = '''' then row1
           else (let row2 = row1\<lparr>mbCommit := Some (commitOf target), mbRunURL := gcURL target @ ''/checks''\<rparr> in
             case gcRollup target of None \<Rightarrow> markAwaitingApproval ref row2
             | Some r \<Rightarrow>
                 (let status = MainBranchStatusOfCI (rollupCI (Some r)); row3 = row2\<lparr>mbStatus := status\<rparr> in
                  case ruContexts r of None \<Rightarrow> row3
                  | Some cs \<Rightarrow>
                      (let checks = rcNodes cs; status' = settledStatus status checks;
                           url = branchRunURL checks status'; times = branchTimes checks
                       in row3\<lparr>mbRuns := branchRuns r cs, mbStatus := status',
                            mbFailingJobs := (if status = MainBranchFailed then failingBranchChecks checks else []),
                            mbChecks := branchCheckCounts (Some r) status',
                            mbRunURL := (if url \<noteq> '''' then url else mbRunURL row3),
                            mbFinishedAt := (if status' \<noteq> MainBranchRunning then fst times else None),
                            mbDurationSeconds := (if status' \<noteq> MainBranchRunning then snd times else None)\<rparr>)))))"

section \<open>The newest run of every workflow\<close>

definition dynamicEvent :: string where "dynamicEvent = ''dynamic''"

definition isDynamic :: "branch_context \<Rightarrow> bool" where
  "isDynamic n = (case Option.bind (bcCheckSuite n) csWorkflowRun of None \<Rightarrow> False
     | Some run \<Rightarrow> wrEvent run = dynamicEvent)"

definition onlyDynamic :: "rollup option \<Rightarrow> bool" where
  "onlyDynamic ro = (case rollupContexts ro of None \<Rightarrow> False
     | Some cs \<Rightarrow> rcNodes cs \<noteq> [] \<and> \<not> cutShort cs \<and> list_all isDynamic (rcNodes cs))"

definition heldRuns :: "rollup_contexts \<Rightarrow> int list" where
  "heldRuns cs = List.map_filter (\<lambda>n. map_option wrDatabaseID (Option.bind (bcCheckSuite n) csWorkflowRun)) (rcNodes cs)"

definition suitesToRead :: "branch_ref option \<Rightarrow> branch_suite list" where
  "suitesToRead refo = (case refo of None \<Rightarrow> []
     | Some ref \<Rightarrow> (case (gcSuites (gbTarget ref), rollupContexts (gcRollup (gbTarget ref))) of
         (Some suites, Some cs) \<Rightarrow>
           (let checks = map suiteAsCheck suites; superseded = SupersededRuns checks;
                wanted = (\<lambda>(s, c, gone). (case bsWorkflowRun s of None \<Rightarrow> False
                  | Some run \<Rightarrow> wrEvent run \<noteq> dynamicEvent \<and> \<not> gone \<and> ckRun c = None \<and> bsID s \<noteq> '''' \<and>
                      (cutShort cs \<or> \<not> List.member (heldRuns cs) (wrDatabaseID run))))
            in map fst (filter wanted (zip suites (zip checks superseded))))
       | _ \<Rightarrow> []))"

text \<open>The tally of a state, kept as the sorted list \<open>countsOf\<close> makes of the map.\<close>

fun addCount :: "string \<Rightarrow> state_count list \<Rightarrow> state_count list" where
  "addCount state [] = [\<lparr>scState = state, scCount = 1\<rparr>]"
| "addCount state (c # cs) =
     (if scState c = state then c\<lparr>scCount := scCount c + 1\<rparr> # cs
      else if state < scState c then \<lparr>scState = state, scCount = 1\<rparr> # c # cs
      else c # addCount state cs)"

definition countsOf :: "string list \<Rightarrow> state_count list" where
  "countsOf states = fold addCount states []"

definition isStatus :: "branch_context \<Rightarrow> bool" where
  "isStatus n \<longleftrightarrow> bcTypename n = ''StatusContext''"

definition runState :: "branch_context \<Rightarrow> string" where
  "runState n = (if bcStatus n \<noteq> ''COMPLETED'' then bcStatus n else bcConclusion n)"

definition nodeFailed :: "branch_context \<Rightarrow> bool" where
  "nodeFailed n = (if isStatus n then bcState n = ''FAILURE'' \<or> bcState n = ''ERROR''
     else bcStatus n = ''COMPLETED'' \<and> (failedConclusion (bcConclusion n) \<or> bcConclusion n = ''CANCELLED''))"

definition nodePending :: "branch_context \<Rightarrow> bool" where
  "nodePending n = (if isStatus n then bcState n = ''PENDING'' \<or> bcState n = ''EXPECTED''
     else bcStatus n \<noteq> ''COMPLETED'')"

definition setCounts :: "rollup \<Rightarrow> rollup_contexts \<Rightarrow> rollup" where
  "setCounts r cs = (let nodes = rcNodes cs in
     r\<lparr>ruState := (if list_ex nodeFailed nodes then ''FAILURE''
                   else if list_ex nodePending nodes then ''PENDING'' else ''SUCCESS''),
       ruContexts := Some (cs\<lparr>rcRunCounts := countsOf (map runState (filter (\<lambda>n. \<not> isStatus n) nodes)),
                              rcStatusCounts := countsOf (map bcState (filter isStatus nodes))\<rparr>)\<rparr>)"

text \<open>The nodes of \<open>extra\<close> that are not listed yet, each id once; a node without an id is always new.\<close>

fun freshNodes :: "int list \<Rightarrow> branch_context list \<Rightarrow> branch_context list" where
  "freshNodes listed [] = []"
| "freshNodes listed (n # extra) =
     (if bcDatabaseID n = 0 \<or> \<not> List.member listed (bcDatabaseID n)
      then n # freshNodes (bcDatabaseID n # listed) extra
      else freshNodes listed extra)"

definition listedIDs :: "rollup_contexts \<Rightarrow> int list" where
  "listedIDs cs = filter (\<lambda>i. i \<noteq> 0) (map bcDatabaseID (rcNodes cs))"

definition keepNewestRuns :: "branch_context list \<Rightarrow> bool \<Rightarrow> rollup \<Rightarrow> rollup" where
  "keepNewestRuns extra beyond r = (case ruContexts r of None \<Rightarrow> r
     | Some cs \<Rightarrow>
         (let fresh = freshNodes (listedIDs cs) extra;
              all = rcNodes cs @ fresh;
              nodes = filter (\<lambda>n. \<not> isDynamic n) all;
              dropped = length nodes < length all;
              superseded = SupersededRuns (map asCheck nodes)
          in if fresh = [] \<and> \<not> dropped \<and> \<not> List.member superseded True then r
             else (let kept = map fst (filter (\<lambda>(n, gone). \<not> gone) (zip nodes superseded))
                   in setCounts (r\<lparr>ruJobsCut := beyond \<or> cutShort cs\<rparr>) (cs\<lparr>rcNodes := kept\<rparr>))))"

record suite_checks =
  suNodes :: "branch_context list"
  suMore :: bool

definition suiteChunkSize :: nat where "suiteChunkSize = 100"

fun chunks :: "nat \<Rightarrow> 'a list \<Rightarrow> 'a list list" where
  "chunks n [] = []"
| "chunks n (x # xs) = (x # take (n - 1) xs) # chunks n (drop (n - 1) xs)"

text \<open>\<open>ask\<close> answers one \<open>nodes(ids:)\<close> query, \<open>None\<close> where it fails.\<close>

type_synonym suite_query = "string list \<Rightarrow> (string \<times> suite_checks) list option"

definition readSuiteChecks :: "suite_query \<Rightarrow> string list \<Rightarrow> (string \<rightharpoonup> suite_checks)" where
  "readSuiteChecks ask ids = fold (\<lambda>chunk out. case ask chunk of None \<Rightarrow> out
     | Some nodes \<Rightarrow> fold (\<lambda>(i, s) out. out(i \<mapsto> s)) nodes out) (chunks suiteChunkSize ids) Map.empty"

definition suiteOf :: "(string \<rightharpoonup> suite_checks) \<Rightarrow> branch_suite \<Rightarrow> suite_checks" where
  "suiteOf reads s = (case reads (bsID s) of Some c \<Rightarrow> c | None \<Rightarrow> \<lparr>suNodes = [], suMore = False\<rparr>)"

definition withNewestRef :: "(string \<rightharpoonup> suite_checks) \<Rightarrow> branch_ref \<Rightarrow> branch_ref" where
  "withNewestRef reads ref = (case gcRollup (gbTarget ref) of None \<Rightarrow> ref
     | Some r \<Rightarrow>
         (let suites = suitesToRead (Some ref);
              extra = concat (map (\<lambda>s. suNodes (suiteOf reads s)) suites);
              beyond = list_ex (\<lambda>s. suMore (suiteOf reads s)) suites
          in ref\<lparr>gbTarget := (gbTarget ref)\<lparr>gcRollup := Some (keepNewestRuns extra beyond r)\<rparr>\<rparr>))"

definition readsOf :: "suite_query \<Rightarrow> branch_ref option list \<Rightarrow> (string \<rightharpoonup> suite_checks)" where
  "readsOf ask tracked = (let ids = concat (map (\<lambda>ref. map bsID (suitesToRead ref)) tracked)
     in if ids = [] then Map.empty else readSuiteChecks ask ids)"

definition withNewestRuns :: "suite_query \<Rightarrow> branch_ref option list \<Rightarrow> branch_ref option list" where
  "withNewestRuns ask tracked = map (map_option (withNewestRef (readsOf ask tracked))) tracked"

section \<open>Walking back to a commit with checks\<close>

record tracked_repo =
  tkOwner :: string
  tkName :: string
  tkRef :: "branch_ref option"

text \<open>\<open>held\<close> is the answer of \<open>heldBranchRun\<close>: the page of the newest held run, if runs are held.\<close>

type_synonym held_query = "string \<Rightarrow> string \<Rightarrow> string \<Rightarrow> string option"

definition uncheckedBranch :: "held_query \<Rightarrow> tracked_repo \<Rightarrow> tracked_repo \<times> bool" where
  "uncheckedBranch held r = (case tkRef r of None \<Rightarrow> (r, False)
     | Some ref \<Rightarrow>
         if gcOID (gbTarget ref) = '''' then (r, False)
         else (let rollup = gcRollup (gbTarget ref);
                   ref1 = (if onlyDynamic rollup then ref\<lparr>gbTarget := (gbTarget ref)\<lparr>gcRollup := None\<rparr>\<rparr> else ref)
               in if gcRollup (gbTarget ref1) \<noteq> None then (r\<lparr>tkRef := Some ref1\<rparr>, False)
                  else (case held (tkOwner r) (tkName r) (gcOID (gbTarget ref1)) of
                      Some runURL \<Rightarrow> (r\<lparr>tkRef := Some (ref1\<lparr>gbHeldRunURL :=
                          (if runURL = '''' then gcURL (gbTarget ref1) @ ''/checks'' else runURL)\<rparr>)\<rparr>, False)
                    | None \<Rightarrow> (r\<lparr>tkRef := Some ref1\<rparr>, True))))"

definition isChecked :: "graphql_commit \<Rightarrow> bool" where
  "isChecked commit \<longleftrightarrow> gcRollup commit \<noteq> None \<and> \<not> onlyDynamic (gcRollup commit)"

text \<open>\<open>history\<close> is the newest commits of a repo's default branch; \<open>None\<close> where the answer lacks the repo.\<close>

definition moveToChecked :: "graphql_commit list option \<Rightarrow> branch_ref \<Rightarrow> branch_ref" where
  "moveToChecked history ref = (case history of None \<Rightarrow> ref
     | Some commits \<Rightarrow> (case find isChecked commits of None \<Rightarrow> ref | Some c \<Rightarrow> ref\<lparr>gbTarget := c\<rparr>))"

type_synonym history_query = "(string \<times> string) list \<Rightarrow> (nat \<rightharpoonup> graphql_commit list) option"

fun moveUnchecked :: "(nat \<rightharpoonup> graphql_commit list) \<Rightarrow> nat \<Rightarrow> (tracked_repo \<times> bool) list \<Rightarrow> tracked_repo list" where
  "moveUnchecked resp i [] = []"
| "moveUnchecked resp i ((r, unchecked) # rs) =
     (if unchecked then r\<lparr>tkRef := map_option (moveToChecked (resp i)) (tkRef r)\<rparr> # moveUnchecked resp (Suc i) rs
      else r # moveUnchecked resp i rs)"

definition withCheckedCommits :: "held_query \<Rightarrow> history_query \<Rightarrow> tracked_repo list \<Rightarrow> tracked_repo list" where
  "withCheckedCommits held ask tracked =
     (let marked = map (uncheckedBranch held) tracked;
          unchecked = map fst (filter snd marked)
      in if unchecked = [] then map fst marked
         else (case ask (map (\<lambda>r. (tkOwner r, tkName r)) unchecked) of
             None \<Rightarrow> map fst marked
           | Some resp \<Rightarrow> moveUnchecked resp 0 marked))"

record main_branch_answer =
  maURL :: string
  maRelease :: "graphql_release option"
  maRef :: "branch_ref option"

text \<open>\<open>FetchMainBranch\<close> but for the advisories of the row. \<open>None\<close> is a repository the forge does not show.\<close>

definition FetchMainBranch :: "held_query \<Rightarrow> history_query \<Rightarrow> suite_query \<Rightarrow>
    (string \<Rightarrow> string \<Rightarrow> go_error + main_branch_answer option) \<Rightarrow> string \<Rightarrow> string \<Rightarrow> string \<Rightarrow> go_error + main_branch" where
  "FetchMainBranch held history suites ask owner name fullName = (case ask owner name of
     Inl e \<Rightarrow> Inl e
   | Inr None \<Rightarrow> Inl \<lparr>errText = ''github: graphql: repository '' @ fullName @ '' not found: repository missing from the answer'',
                     errClient = None\<rparr>
   | Inr (Some resp) \<Rightarrow>
       (let repos = withCheckedCommits held history [\<lparr>tkOwner = owner, tkName = name, tkRef = maRef resp\<rparr>];
            refs = withNewestRuns suites (map tkRef repos)
        in Inr (mainBranchFrom fullName (maURL resp) (maRelease resp) (hd refs))))"

section \<open>Tallies\<close>

abbreviation one :: "string \<Rightarrow> state_count" where "one s \<equiv> \<lparr>scState = s, scCount = 1\<rparr>"

lemma addCount_ex:
  "list_all (\<lambda>c. scCount c > 0) cs \<Longrightarrow>
   list_ex (\<lambda>c. scCount c > 0 \<and> Q (scState c)) (addCount s cs) \<longleftrightarrow>
   Q s \<or> list_ex (\<lambda>c. scCount c > 0 \<and> Q (scState c)) cs"
  by (induction s cs rule: addCount.induct) auto

lemma addCount_pos: "list_all (\<lambda>c. scCount c > 0) cs \<Longrightarrow> list_all (\<lambda>c. scCount c > 0) (addCount s cs)"
  by (induction s cs rule: addCount.induct) auto

lemma countsOf_snoc [simp]: "countsOf (xs @ [x]) = addCount x (countsOf xs)"
  by (simp add: countsOf_def)

lemma countsOf_Nil [simp]: "countsOf [] = []"
  by (simp add: countsOf_def)

lemma countsOf_pos: "list_all (\<lambda>c. scCount c > 0) (countsOf xs)"
  by (induction xs rule: rev_induct) (simp_all add: addCount_pos)

lemma countsOf_ex:
  "list_ex (\<lambda>c. scCount c > 0 \<and> Q (scState c)) (countsOf xs) \<longleftrightarrow> list_ex Q xs"
  by (induction xs rule: rev_induct) (auto simp: addCount_ex countsOf_pos)

lemma addCount_sum: "sum_list (map scCount (addCount s cs)) = sum_list (map scCount cs) + 1"
  by (induction s cs rule: addCount.induct) auto

lemma countsOf_sum [simp]: "sum_list (map scCount (countsOf xs)) = int (length xs)"
  by (induction xs rule: rev_induct) (simp_all add: addCount_sum)

text \<open>The bucket each state of a check falls in.\<close>

definition passed_state :: "string \<Rightarrow> bool" where
  "passed_state s \<longleftrightarrow> s \<in> {''SUCCESS'', ''NEUTRAL'', ''COMPLETED'', ''SKIPPED''}"
definition waiting_state :: "string \<Rightarrow> bool" where
  "waiting_state s \<longleftrightarrow> s \<in> {''QUEUED'', ''PENDING'', ''WAITING'', ''REQUESTED''}"
definition failed_state :: "string \<Rightarrow> bool" where
  "failed_state s \<longleftrightarrow> s \<in> {''FAILURE'', ''TIMED_OUT'', ''STARTUP_FAILURE'', ''STALE''}"

lemma tallyRun_add:
  "tallyRun c out = out
     \<lparr>Passed := Passed out + (if passed_state (scState c) then scCount c else 0),
      Skipped := Skipped out + (if scState c = ''SKIPPED'' then scCount c else 0),
      Running := Running out + (if scState c = ''IN_PROGRESS'' then scCount c else 0),
      Waiting := Waiting out + (if waiting_state (scState c) then scCount c else 0),
      Failed := Failed out + (if failed_state (scState c) then scCount c else 0)\<rparr>"
proof (cases "passed_state (scState c) \<or> waiting_state (scState c) \<or> failed_state (scState c) \<or> scState c = ''IN_PROGRESS''")
  case True
  then consider "scState c = ''SUCCESS''" | "scState c = ''NEUTRAL''" | "scState c = ''COMPLETED''"
    | "scState c = ''SKIPPED''" | "scState c = ''QUEUED''" | "scState c = ''PENDING''" | "scState c = ''WAITING''"
    | "scState c = ''REQUESTED''" | "scState c = ''FAILURE''" | "scState c = ''TIMED_OUT''"
    | "scState c = ''STARTUP_FAILURE''" | "scState c = ''STALE''" | "scState c = ''IN_PROGRESS''"
    unfolding passed_state_def waiting_state_def failed_state_def by blast
  then show ?thesis
    by cases (simp_all add: tallyRun_def passed_state_def waiting_state_def failed_state_def)
next
  case False
  then show ?thesis by (simp add: tallyRun_def passed_state_def waiting_state_def failed_state_def)
qed

lemma tallyStatus_add:
  "tallyStatus c out = out
     \<lparr>Passed := Passed out + (if scState c = ''SUCCESS'' then scCount c else 0),
      Waiting := Waiting out + (if scState c = ''PENDING'' \<or> scState c = ''EXPECTED'' then scCount c else 0),
      Failed := Failed out + (if scState c = ''FAILURE'' \<or> scState c = ''ERROR'' then scCount c else 0)\<rparr>"
  by (simp add: tallyStatus_def)

lemma tallyRun_comm: "tallyRun a (tallyRun b out) = tallyRun b (tallyRun a out)"
  by (simp add: tallyRun_add algebra_simps)

lemma tallyRun_more: "tallyRun (c\<lparr>scCount := scCount c + 1\<rparr>) out = tallyRun c (tallyRun (one (scState c)) out)"
  by (simp add: tallyRun_add algebra_simps)

lemma tallyStatus_comm: "tallyStatus a (tallyStatus b out) = tallyStatus b (tallyStatus a out)"
  by (simp add: tallyStatus_add algebra_simps)

lemma tallyStatus_more: "tallyStatus (c\<lparr>scCount := scCount c + 1\<rparr>) out = tallyStatus c (tallyStatus (one (scState c)) out)"
  by (simp add: tallyStatus_add algebra_simps)

lemma fold_tallyRun_add: "fold tallyRun (addCount s cs) out = fold tallyRun cs (tallyRun (one s) out)"
proof (induction s cs arbitrary: out rule: addCount.induct)
  case (2 s c cs)
  then show ?case by (auto simp: tallyRun_more tallyRun_comm)
qed simp

lemma fold_tallyStatus_add: "fold tallyStatus (addCount s cs) out = fold tallyStatus cs (tallyStatus (one s) out)"
proof (induction s cs arbitrary: out rule: addCount.induct)
  case (2 s c cs)
  then show ?case by (auto simp: tallyStatus_more tallyStatus_comm)
qed simp

definition occurs :: "('a \<Rightarrow> bool) \<Rightarrow> 'a list \<Rightarrow> int" where
  "occurs P xs = int (length (filter P xs))"

lemma occurs_simps [simp]: "occurs P [] = 0" "occurs P (xs @ ys) = occurs P xs + occurs P ys"
  "occurs P [x] = (if P x then 1 else 0)"
  by (simp_all add: occurs_def)

lemma fold_tallyRun_countsOf:
  "fold tallyRun (countsOf xs) out = out
     \<lparr>Passed := Passed out + occurs passed_state xs, Skipped := Skipped out + occurs (\<lambda>s. s = ''SKIPPED'') xs,
      Running := Running out + occurs (\<lambda>s. s = ''IN_PROGRESS'') xs, Waiting := Waiting out + occurs waiting_state xs,
      Failed := Failed out + occurs failed_state xs\<rparr>"
proof (induction xs arbitrary: out rule: rev_induct)
  case (snoc s xs)
  show ?case
    by (simp only: countsOf_snoc fold_tallyRun_add snoc) (simp add: tallyRun_add)
qed simp

lemma fold_tallyStatus_countsOf:
  "fold tallyStatus (countsOf xs) out = out
     \<lparr>Passed := Passed out + occurs (\<lambda>s. s = ''SUCCESS'') xs,
      Waiting := Waiting out + occurs (\<lambda>s. s = ''PENDING'' \<or> s = ''EXPECTED'') xs,
      Failed := Failed out + occurs (\<lambda>s. s = ''FAILURE'' \<or> s = ''ERROR'') xs\<rparr>"
proof (induction xs arbitrary: out rule: rev_induct)
  case (snoc s xs)
  show ?case
    by (simp only: countsOf_snoc fold_tallyStatus_add snoc) (simp add: tallyStatus_add)
qed simp

section \<open>A rebuilt rollup\<close>

text \<open>What GitHub documents of a node: the values of its enums, and that only a completed run has a conclusion.\<close>

definition node_ok :: "branch_context \<Rightarrow> bool" where
  "node_ok n \<longleftrightarrow>
     (if bcTypename n = ''CheckRun'' then
        (if bcStatus n = ''COMPLETED''
         then bcConclusion n \<in> {''SUCCESS'', ''NEUTRAL'', ''SKIPPED'', ''CANCELLED'', ''FAILURE'', ''TIMED_OUT'',
           ''ACTION_REQUIRED'', ''STARTUP_FAILURE'', ''STALE''}
         else bcConclusion n = '''' \<and> List.member runningCheckRunStates (bcStatus n))
      else isStatus n \<and> bcState n \<in> {''SUCCESS'', ''PENDING'', ''EXPECTED'', ''FAILURE'', ''ERROR''})"

text \<open>What a page should say of a commit, read off its checks.\<close>

definition status_of :: "branch_context list \<Rightarrow> main_branch_status" where
  "status_of nodes =
     (if list_ex breaksBranch nodes then MainBranchFailed
      else if list_ex nodePending nodes then MainBranchRunning
      else if list_ex isCancelledCheck nodes then MainBranchCancelled else MainBranchPassed)"

lemma node_ok_split:
  assumes "node_ok n"
  shows "isStatus n \<or> bcTypename n = ''CheckRun''"
  using assms by (auto simp: node_ok_def split: if_splits)

lemma node_failed_iff: "node_ok n \<Longrightarrow> nodeFailed n \<longleftrightarrow> breaksBranch n \<or> isCancelledCheck n"
  by (auto simp: node_ok_def nodeFailed_def breaksBranch_def isCancelledCheck_def isStatus_def failedConclusion_def
      split: if_splits)

lemma run_failed_iff:
  "node_ok n \<Longrightarrow> \<not> isStatus n \<Longrightarrow>
   failedRun \<lparr>heldRun = True, cancelledRun = False\<rparr> (runState n) \<longleftrightarrow> breaksBranch n"
  by (auto simp: node_ok_def runState_def breaksBranch_def failedConclusion_def failedRun_def isStatus_def
      runningCheckRunStates_def split: if_splits)

lemma status_failed_iff: "isStatus n \<Longrightarrow> bcState n = ''FAILURE'' \<or> bcState n = ''ERROR'' \<longleftrightarrow> breaksBranch n"
  by (auto simp: breaksBranch_def isStatus_def)

lemma run_pending_iff:
  "node_ok n \<Longrightarrow> \<not> isStatus n \<Longrightarrow> runState n \<in> set runningCheckRunStates \<longleftrightarrow> nodePending n"
  by (auto simp: node_ok_def runState_def nodePending_def isStatus_def runningCheckRunStates_def split: if_splits)

lemma list_ex_split:
  "list_ex P xs \<longleftrightarrow> list_ex P (filter (\<lambda>x. \<not> Q x) xs) \<or> list_ex P (filter Q xs)"
  by (auto simp: list_ex_iff)

lemma list_ex_cong_filter:
  "(\<And>x. x \<in> set xs \<Longrightarrow> Q x \<Longrightarrow> P x \<longleftrightarrow> R x) \<Longrightarrow> list_ex P (filter Q xs) \<longleftrightarrow> list_ex R (filter Q xs)"
  by (auto simp: list_ex_iff)

lemma rebuilt_failed:
  assumes "list_all node_ok (rcNodes cs)"
  shows "hasFailedContext (cs\<lparr>rcRunCounts := countsOf (map runState (filter (\<lambda>n. \<not> isStatus n) (rcNodes cs))),
      rcStatusCounts := countsOf (map bcState (filter isStatus (rcNodes cs)))\<rparr>) \<lparr>heldRun = True, cancelledRun = False\<rparr>
    \<longleftrightarrow> list_ex breaksBranch (rcNodes cs)"
proof -
  let ?k = "\<lparr>heldRun = True, cancelledRun = False\<rparr>"
  have "list_ex (failedRun ?k) (map runState (filter (\<lambda>n. \<not> isStatus n) (rcNodes cs))) \<longleftrightarrow>
      list_ex breaksBranch (filter (\<lambda>n. \<not> isStatus n) (rcNodes cs))"
    using assms run_failed_iff by (auto simp: list_ex_iff list_all_iff)
  moreover have "list_ex (\<lambda>s. s = ''FAILURE'' \<or> s = ''ERROR'') (map bcState (filter isStatus (rcNodes cs))) \<longleftrightarrow>
      list_ex breaksBranch (filter isStatus (rcNodes cs))"
    using status_failed_iff by (auto simp: list_ex_iff)
  ultimately show ?thesis
    unfolding hasFailedContext_def
    by (subst list_ex_split[where Q = isStatus])
       (simp add: countsOf_ex[of "failedRun ?k"] countsOf_ex[of "\<lambda>s. s = ''FAILURE'' \<or> s = ''ERROR''"])
qed

lemma rebuilt_running:
  assumes "list_all node_ok nodes"
  shows "list_ex (\<lambda>s. s \<in> set runningCheckRunStates) (map runState (filter (\<lambda>n. \<not> isStatus n) nodes)) \<or>
     list_ex (\<lambda>s. s = ''PENDING'' \<or> s = ''EXPECTED'') (map bcState (filter isStatus nodes)) \<longleftrightarrow> list_ex nodePending nodes"
proof -
  have "list_ex (\<lambda>s. s \<in> set runningCheckRunStates) (map runState (filter (\<lambda>n. \<not> isStatus n) nodes)) \<longleftrightarrow>
      list_ex nodePending (filter (\<lambda>n. \<not> isStatus n) nodes)"
    using assms run_pending_iff by (auto simp: list_ex_iff list_all_iff)
  moreover have "list_ex (\<lambda>s. s = ''PENDING'' \<or> s = ''EXPECTED'') (map bcState (filter isStatus nodes)) \<longleftrightarrow>
      list_ex nodePending (filter isStatus nodes)"
    by (auto simp: list_ex_iff nodePending_def)
  ultimately show ?thesis by (subst list_ex_split[where Q = isStatus]) simp
qed

lemma rebuilt_ci:
  assumes "list_all node_ok (rcNodes cs)"
  shows "rollupCI (Some (setCounts r cs)) =
    (if list_ex breaksBranch (rcNodes cs) then CIFailure
     else if list_ex nodePending (rcNodes cs) then CIPending
     else if list_ex isCancelledCheck (rcNodes cs) then CIFailure else CISuccess)"
proof -
  have f: "list_ex nodeFailed (rcNodes cs) \<longleftrightarrow> list_ex breaksBranch (rcNodes cs) \<or> list_ex isCancelledCheck (rcNodes cs)"
    using assms node_failed_iff by (auto simp: list_ex_iff list_all_iff)
  show ?thesis
    using rebuilt_failed[OF assms] rebuilt_running[OF assms] f
    by (simp add: rollupCI_def setCounts_def settleFailedRollup_def Let_def
        countsOf_ex[of "\<lambda>s. s \<in> set runningCheckRunStates"] countsOf_ex[of "\<lambda>s. s = ''PENDING'' \<or> s = ''EXPECTED''"])
qed

lemma rebuilt_not_cut: "rollupContexts (Some (setCounts r cs)) = Some cs' \<Longrightarrow> \<not> cutShort cs'"
proof -
  assume "rollupContexts (Some (setCounts r cs)) = Some cs'"
  moreover have "length (filter (\<lambda>n. \<not> isStatus n) (rcNodes cs)) + length (filter isStatus (rcNodes cs)) = length (rcNodes cs)"
    using sum_length_filter_compl[of isStatus "rcNodes cs"] by simp
  ultimately show ?thesis
    by (auto simp: rollupContexts_def setCounts_def Let_def cutShort_def totalChecks_def)
qed

section \<open>The row of the newest runs\<close>

text \<open>The checks the row should be read from: those the rollup lists and those read of the newer runs,
  but for the checks of Dependabot's own runs and those a newer run of their workflow replaces.\<close>

definition all_checks :: "suite_query \<Rightarrow> branch_ref option list \<Rightarrow> branch_ref \<Rightarrow> rollup_contexts \<Rightarrow> branch_context list" where
  "all_checks ask tracked ref cs = rcNodes cs @ freshNodes (listedIDs cs)
     (concat (map (\<lambda>s. suNodes (suiteOf (readsOf ask tracked) s)) (suitesToRead (Some ref))))"

definition current_checks :: "branch_context list \<Rightarrow> branch_context list" where
  "current_checks all = (let nodes = filter (\<lambda>n. \<not> isDynamic n) all
     in filter (\<lambda>n. \<not> replaced_in (map asCheck nodes) (asCheck n)) nodes)"

lemma filter_zip_map: "map fst (filter (\<lambda>(n, gone). \<not> gone) (zip xs (map P xs))) = filter (\<lambda>n. \<not> P n) xs"
  by (induction xs) auto

lemma keepNewestRuns_rebuilds:
  assumes "ruContexts r = Some cs" "current_checks (rcNodes cs @ freshNodes (listedIDs cs) extra) \<noteq> rcNodes cs"
  shows "keepNewestRuns extra beyond r = setCounts (r\<lparr>ruJobsCut := beyond \<or> cutShort cs\<rparr>)
    (cs\<lparr>rcNodes := current_checks (rcNodes cs @ freshNodes (listedIDs cs) extra)\<rparr>)"
proof -
  let ?all = "rcNodes cs @ freshNodes (listedIDs cs) extra"
  let ?nodes = "filter (\<lambda>n. \<not> isDynamic n) ?all"
  have sup: "SupersededRuns (map asCheck ?nodes) = map (\<lambda>n. replaced_in (map asCheck ?nodes) (asCheck n)) ?nodes"
    by (simp add: SupersededRuns_eq)
  have kept: "map fst (filter (\<lambda>(n, gone). \<not> gone) (zip ?nodes (SupersededRuns (map asCheck ?nodes)))) = current_checks ?all"
    unfolding sup filter_zip_map by (simp add: current_checks_def)
  have "\<not> (freshNodes (listedIDs cs) extra = [] \<and> \<not> length ?nodes < length ?all \<and> \<not> List.member (SupersededRuns (map asCheck ?nodes)) True)"
  proof
    assume same: "freshNodes (listedIDs cs) extra = [] \<and> \<not> length ?nodes < length ?all \<and>
      \<not> List.member (SupersededRuns (map asCheck ?nodes)) True"
    then have "?all = rcNodes cs" by simp
    have all: "?nodes = ?all"
      using same length_filter_less[of _ ?all "\<lambda>n. \<not> isDynamic n"] by (metis filter_True)
    moreover have "filter (\<lambda>n. \<not> replaced_in (map asCheck ?nodes) (asCheck n)) ?nodes = ?nodes"
      using same unfolding sup by (intro filter_True) auto
    ultimately have "current_checks ?all = ?all" by (simp only: current_checks_def Let_def)
    with assms(2) \<open>?all = rcNodes cs\<close> show False by simp
  qed
  then show ?thesis using assms(1) kept by (simp only: keepNewestRuns_def Let_def option.case if_False)
qed

lemma occurs_pos: "occurs P xs > 0 \<longleftrightarrow> list_ex P xs" "occurs P xs \<ge> 0"
  by (auto simp: occurs_def list_ex_iff filter_empty_conv)

lemma occurs_map [simp]: "occurs P (map f xs) = occurs (\<lambda>x. P (f x)) xs"
  by (simp add: occurs_def filter_map comp_def)

definition tallied :: "branch_context list \<Rightarrow> check_counts" where
  "tallied nodes = (let runs = filter (\<lambda>n. \<not> isStatus n) nodes; statuses = filter isStatus nodes in
     \<lparr>Passed = occurs (\<lambda>n. passed_state (runState n)) runs + occurs (\<lambda>n. bcState n = ''SUCCESS'') statuses,
      Skipped = occurs (\<lambda>n. runState n = ''SKIPPED'') runs,
      Running = occurs (\<lambda>n. runState n = ''IN_PROGRESS'') runs,
      Waiting = occurs (\<lambda>n. waiting_state (runState n)) runs +
        occurs (\<lambda>n. bcState n = ''PENDING'' \<or> bcState n = ''EXPECTED'') statuses,
      Failed = occurs (\<lambda>n. failed_state (runState n)) runs +
        occurs (\<lambda>n. bcState n = ''FAILURE'' \<or> bcState n = ''ERROR'') statuses\<rparr>)"

lemma rebuilt_counts: "rawCheckCounts (Some (setCounts r cs)) = tallied (rcNodes cs)"
  by (simp add: rawCheckCounts_def rollupContexts_def setCounts_def Let_def fold_tallyRun_countsOf
      fold_tallyStatus_countsOf no_checks_def tallied_def)

lemma addCount_find:
  "list_all (\<lambda>c. scCount c > 0) cs \<Longrightarrow>
   (case find (\<lambda>c. scState c = t) (addCount s cs) of None \<Rightarrow> 0 | Some c \<Rightarrow> scCount c) > 0 \<longleftrightarrow>
   t = s \<or> (case find (\<lambda>c. scState c = t) cs of None \<Rightarrow> 0 | Some c \<Rightarrow> scCount c) > 0"
  by (induction s cs rule: addCount.induct) auto

lemma countsOf_find:
  "(case find (\<lambda>c. scState c = t) (countsOf xs) of None \<Rightarrow> 0 | Some c \<Rightarrow> scCount c) > 0 \<longleftrightarrow> t \<in> set xs"
  by (induction xs rule: rev_induct) (auto simp: addCount_find countsOf_pos)

lemma rebuilt_runsInState:
  "runsInState (Some (setCounts r cs)) t > 0 \<longleftrightarrow> list_ex (\<lambda>n. \<not> isStatus n \<and> runState n = t) (rcNodes cs)"
  using countsOf_find[of t "map runState (filter (\<lambda>n. \<not> isStatus n) (rcNodes cs))"]
  by (auto simp: runsInState_def rollupContexts_def setCounts_def Let_def list_ex_iff)

lemma breaks_cases:
  assumes "node_ok n"
  shows "breaksBranch n \<longleftrightarrow> (\<not> isStatus n \<and> failed_state (runState n)) \<or> (\<not> isStatus n \<and> runState n = ''ACTION_REQUIRED'') \<or>
    (isStatus n \<and> (bcState n = ''FAILURE'' \<or> bcState n = ''ERROR''))"
proof (cases "isStatus n")
  case True
  then show ?thesis using status_failed_iff[of n] by simp
next
  case False
  then show ?thesis
    using run_failed_iff[OF assms] by (simp add: failedRun_def failed_state_def split: if_splits) blast+
qed

lemma tallied_failed:
  "Failed (tallied nodes) > 0 \<longleftrightarrow>
   list_ex (\<lambda>n. \<not> isStatus n \<and> failed_state (runState n) \<or> isStatus n \<and> (bcState n = ''FAILURE'' \<or> bcState n = ''ERROR'')) nodes"
proof -
  let ?runs = "filter (\<lambda>n. \<not> isStatus n) nodes" and ?statuses = "filter isStatus nodes"
  have "Failed (tallied nodes) > 0 \<longleftrightarrow> occurs (\<lambda>n. failed_state (runState n)) ?runs > 0 \<or>
      occurs (\<lambda>n. bcState n = ''FAILURE'' \<or> bcState n = ''ERROR'') ?statuses > 0"
    using occurs_pos(2)[of "\<lambda>n. failed_state (runState n)" ?runs]
      occurs_pos(2)[of "\<lambda>n. bcState n = ''FAILURE'' \<or> bcState n = ''ERROR''" ?statuses]
    by (simp add: tallied_def Let_def) linarith
  then show ?thesis unfolding occurs_pos(1) by (auto simp: list_ex_iff)
qed

lemma rebuilt_failed_count:
  assumes "list_all node_ok (rcNodes cs)" "status = status_of (rcNodes cs)"
  shows "Failed (branchCheckCounts (Some (setCounts r cs)) status) > 0 \<longleftrightarrow> status = MainBranchFailed"
proof (cases "status = MainBranchFailed")
  case False
  then have "\<not> list_ex breaksBranch (rcNodes cs)" using assms(2) by (auto simp: status_of_def split: if_splits)
  then have "\<not> Failed (tallied (rcNodes cs)) > 0"
    using assms(1) breaks_cases unfolding tallied_failed by (auto simp: list_ex_iff list_all_iff)
  with False show ?thesis by (simp add: branchCheckCounts_def Let_def rebuilt_counts)
next
  case True
  then obtain n where n: "n \<in> set (rcNodes cs)" "breaksBranch n"
    using assms(2) by (auto simp: status_of_def list_ex_iff split: if_splits)
  then have ok: "node_ok n" using assms(1) by (simp add: list_all_iff)
  show ?thesis
  proof (cases "Failed (tallied (rcNodes cs)) > 0")
    case True
    with \<open>status = MainBranchFailed\<close> show ?thesis by (simp add: branchCheckCounts_def Let_def rebuilt_counts)
  next
    case False
    then have "\<not> isStatus n \<and> runState n = ''ACTION_REQUIRED''"
      using n ok breaks_cases[OF ok] unfolding tallied_failed by (auto simp: list_ex_iff)
    then have "runsInState (Some (setCounts r cs)) ''ACTION_REQUIRED'' > 0"
      using n(1) unfolding rebuilt_runsInState by (auto simp: list_ex_iff)
    with False \<open>status = MainBranchFailed\<close> show ?thesis
      by (simp add: branchCheckCounts_def Let_def rebuilt_counts)
  qed
qed

lemma failing_names: "failingBranchChecks checks = [] \<longleftrightarrow> \<not> list_ex breaksBranch checks"
  by (simp add: failingBranchChecks_def list_ex_iff filter_empty_conv)

lemma failing_labels:
  "list_all node_ok nodes \<Longrightarrow> failingBranchChecks nodes = map context_label (filter breaksBranch nodes)"
  by (auto simp: failingBranchChecks_def context_label_def list_all_iff node_ok_def isStatus_def split: if_splits)

lemma rebuilt_status:
  assumes "list_all node_ok (rcNodes cs)"
  shows "settledStatus (MainBranchStatusOfCI (rollupCI (Some (setCounts r cs)))) (rcNodes cs) = status_of (rcNodes cs)"
  unfolding rebuilt_ci[OF assms]
  by (simp add: settledStatus_def MainBranchStatusOfCI_def failing_names status_of_def)

lemma node_ok_current: "list_all node_ok all \<Longrightarrow> list_all node_ok (current_checks all)"
  by (auto simp: current_checks_def list_all_iff Let_def)

lemma set_counts_fields:
  "ruContexts (setCounts r cs) = Some (cs\<lparr>rcRunCounts := countsOf (map runState (filter (\<lambda>n. \<not> isStatus n) (rcNodes cs))),
     rcStatusCounts := countsOf (map bcState (filter isStatus (rcNodes cs)))\<rparr>)"
  "ruJobsCut (setCounts r cs) = ruJobsCut r"
  by (simp_all add: setCounts_def Let_def)

lemma row_of_rebuilt:
  assumes "gcRollup (gbTarget ref) = Some (setCounts r cs)" "gcOID (gbTarget ref) \<noteq> ''''"
    and "list_all node_ok (rcNodes cs)"
    and "row = mainBranchFrom fullName repoURL release (Some ref)"
  shows "mbStatus row = status_of (rcNodes cs)"
    and "mbFailingJobs row = map context_label (filter breaksBranch (rcNodes cs))"
    and "Failed (mbChecks row) > 0 \<longleftrightarrow> mbStatus row = MainBranchFailed"
    and "map mrChecks (mbRuns row) = map rgChecks (GroupRuns (WithFacts (map asCheck (rcNodes cs))))"
proof -
  note st = rebuilt_status[OF assms(3), of r]
  let ?status = "MainBranchStatusOfCI (rollupCI (Some (setCounts r cs)))"
  show s: "mbStatus row = status_of (rcNodes cs)"
    using assms(1,2,4) st by (simp add: mainBranchFrom_def Let_def set_counts_fields)
  have "?status \<noteq> MainBranchFailed \<Longrightarrow> \<not> list_ex breaksBranch (rcNodes cs)"
    unfolding rebuilt_ci[OF assms(3)] by (auto simp: MainBranchStatusOfCI_def)
  then show "mbFailingJobs row = map context_label (filter breaksBranch (rcNodes cs))"
    using assms(1,2,4) failing_labels[OF assms(3)]
    by (auto simp: mainBranchFrom_def Let_def set_counts_fields list_ex_iff)
  have "mbChecks row = branchCheckCounts (Some (setCounts r cs)) (status_of (rcNodes cs))"
    using assms(1,2,4) st by (simp add: mainBranchFrom_def Let_def set_counts_fields)
  then show "Failed (mbChecks row) > 0 \<longleftrightarrow> mbStatus row = MainBranchFailed"
    using rebuilt_failed_count[OF assms(3) refl] s by simp
  have mr: "mrChecks (runOfGroup g) = rgChecks g" for g
    by (simp add: runOfGroup_def Let_def split: option.split)
  show "map mrChecks (mbRuns row) = map rgChecks (GroupRuns (WithFacts (map asCheck (rcNodes cs))))"
    using assms(1,2,4)
    by (simp add: mainBranchFrom_def Let_def set_counts_fields branchRuns_def MainBranchRuns_def mr comp_def)
qed

text \<open>
  C20: a default branch says what its current checks say. When a newer run was read, or the rollup
  lists an older one or one of Dependabot's own, the row reads failed exactly when a current check
  broke, running when none broke and one is unfinished, cancelled when runs were only stopped, and
  passed otherwise; it names exactly the checks that broke, counts a failure exactly when it reads
  failed, and lists every current check once in the runs.
\<close>

theorem newest_runs_decide:
  assumes "i < length tracked" "tracked ! i = Some ref" "gcRollup (gbTarget ref) = Some r" "ruContexts r = Some cs"
    and "gcOID (gbTarget ref) \<noteq> ''''" "list_all node_ok (all_checks ask tracked ref cs)"
    and "current = current_checks (all_checks ask tracked ref cs)" "current \<noteq> rcNodes cs"
    and "row = mainBranchFrom fullName repoURL release (withNewestRuns ask tracked ! i)"
  shows "mbStatus row = status_of current \<and>
    mbFailingJobs row = map context_label (filter breaksBranch current) \<and>
    (Failed (mbChecks row) > 0) = (mbStatus row = MainBranchFailed) \<and>
    mset (concat (map mrChecks (mbRuns row))) = mset (map (\<lambda>n. withFact (asCheck n)) current)"
proof -
  let ?extra = "concat (map (\<lambda>s. suNodes (suiteOf (readsOf ask tracked) s)) (suitesToRead (Some ref)))"
  let ?beyond = "list_ex (\<lambda>s. suMore (suiteOf (readsOf ask tracked) s)) (suitesToRead (Some ref))"
  let ?ref = "withNewestRef (readsOf ask tracked) ref"
  have at: "withNewestRuns ask tracked ! i = Some ?ref"
    using assms(1,2) by (simp add: withNewestRuns_def)
  have "current_checks (rcNodes cs @ freshNodes (listedIDs cs) ?extra) \<noteq> rcNodes cs"
    using assms(7,8) by (simp add: all_checks_def)
  from keepNewestRuns_rebuilds[OF assms(4) this]
  have r: "gcRollup (gbTarget ?ref) = Some (setCounts (r\<lparr>ruJobsCut := ?beyond \<or> cutShort cs\<rparr>) (cs\<lparr>rcNodes := current\<rparr>))"
    using assms(3,7) by (simp add: withNewestRef_def all_checks_def Let_def)
  have o: "gcOID (gbTarget ?ref) \<noteq> ''''" using assms(3,5) by (simp add: withNewestRef_def Let_def)
  have ok: "list_all node_ok (rcNodes (cs\<lparr>rcNodes := current\<rparr>))"
    using node_ok_current[OF assms(6)] assms(7) by simp
  note row = row_of_rebuilt[OF r o ok, of row fullName repoURL release]
  have "mset (concat (map mrChecks (mbRuns row))) = mset (map (\<lambda>n. withFact (asCheck n)) current)"
    using row(4) assms(9) at by (simp add: GroupRuns_mset WithFacts_def comp_def del: mset_concat mset_map)
  with row(1-3) assms(9) at show ?thesis by simp
qed

text \<open>An older scheduled run failed, and the newer one, which the rollup leaves out, passed.\<close>

definition run_node :: "int \<Rightarrow> int \<Rightarrow> string \<Rightarrow> branch_context" where
  "run_node job number conclusion = \<lparr>bcTypename = ''CheckRun'', bcDatabaseID = job, bcName = ''test'',
     bcStatus = ''COMPLETED'', bcConclusion = conclusion, bcStartedAt = 1, bcCompletedAt = 7,
     bcDetailsURL = '''', bcPermalink = '''',
     bcCheckSuite = Some \<lparr>csStatus = ''COMPLETED'', csConclusion = conclusion, csWorkflowRun =
       Some \<lparr>wrDatabaseID = number, wrRunAttempt = 1, wrRunNumber = number, wrEvent = ''schedule'', wrWorkflow = ''CI''\<rparr>\<rparr>,
     bcContext = '''', bcState = '''', bcTargetURL = ''''\<rparr>"

definition older_failed :: branch_ref where
  "older_failed = \<lparr>gbName = ''main'', gbTarget = \<lparr>gcOID = ''abc'', gcHeadline = ''fix'', gcURL = ''u'',
     gcCommittedDate = 0, gcAuthor = None,
     gcRollup = Some \<lparr>ruState = ''FAILURE'', ruContexts = Some \<lparr>rcRunCounts = [\<lparr>scState = ''FAILURE'', scCount = 1\<rparr>],
         rcStatusCounts = [], rcNodes = [run_node 1 7 ''FAILURE'']\<rparr>, ruJobsCut = False\<rparr>,
     gcSuites = Some [\<lparr>bsID = ''S8'', bsStatus = ''COMPLETED'', bsConclusion = ''SUCCESS'', bsWorkflowRun =
       Some \<lparr>wrDatabaseID = 8, wrRunAttempt = 1, wrRunNumber = 8, wrEvent = ''schedule'', wrWorkflow = ''CI''\<rparr>\<rparr>]\<rparr>,
     gbHeldRunURL = ''''\<rparr>"

definition newer_passed :: suite_query where
  "newer_passed ids = Some [(''S8'', \<lparr>suNodes = [run_node 2 8 ''SUCCESS''], suMore = False\<rparr>)]"

lemma older_failed_checks:
  "all_checks newer_passed [Some older_failed] older_failed (the (ruContexts (the (gcRollup (gbTarget older_failed))))) =
     [run_node 1 7 ''FAILURE'', run_node 2 8 ''SUCCESS'']"
  by code_simp

lemma older_failed_current:
  "current_checks [run_node 1 7 ''FAILURE'', run_node 2 8 ''SUCCESS''] = [run_node 2 8 ''SUCCESS'']"
proof -
  have page: "page (run_node j n c) = []" for j n c
    by (simp add: page_def run_node_def)
  have words: "lower ''COMPLETED'' = ''completed''" "lower ''FAILURE'' = ''failure''" "lower ''SUCCESS'' = ''success''"
    by code_simp+
  have as: "ckRunName (asCheck (run_node j n c)) = ''CI''" "check_version (asCheck (run_node j n c)) = (n, 1)"
    "ckRunNumber (asCheck (run_node j n c)) = n" if "n \<noteq> 0" for j n c
    using that by (simp_all add: asCheck_def page run_node_def no_check_def Let_def check_version_def split_beta)
  have "rfConclusion (the (ckRun (asCheck (run_node 2 8 ''SUCCESS'')))) = ''success''"
    "ckRun (asCheck (run_node 2 8 ''SUCCESS'')) \<noteq> None"
    by (simp_all add: asCheck_def page run_node_def no_check_def Let_def StatusFacts_def reportedWord_def words)
  then have "canSupersede (asCheck (run_node 2 8 ''SUCCESS''))"
    using as[of 8 2 "''SUCCESS''"] by (auto simp: canSupersede_def)
  moreover have "\<not> isDynamic (run_node j n c)" for j n c
    by (simp add: isDynamic_def run_node_def dynamicEvent_def)
  ultimately show ?thesis
    using as[of 7 1 "''FAILURE''"] as[of 8 2 "''SUCCESS''"]
    by (simp add: current_checks_def replaced_in_def)
qed

lemma newest_runs_decide_witness:
  "mbStatus (mainBranchFrom ''a/b'' ''u'' None (withNewestRuns newer_passed [Some older_failed] ! 0)) = MainBranchPassed"
proof -
  let ?r = "the (gcRollup (gbTarget older_failed))"
  have ok: "node_ok (run_node 1 7 ''FAILURE'')" "node_ok (run_node 2 8 ''SUCCESS'')" by code_simp+
  have "mbStatus (mainBranchFrom ''a/b'' ''u'' None (withNewestRuns newer_passed [Some older_failed] ! 0)) =
      status_of [run_node 2 8 ''SUCCESS'']"
    by (rule conjunct1[OF newest_runs_decide[where r = "?r" and cs = "the (ruContexts ?r)" and ref = older_failed
          and ask = newer_passed and tracked = "[Some older_failed]" and i = 0]])
       (simp_all add: older_failed_checks older_failed_current ok, simp_all add: older_failed_def run_node_def)
  also have "status_of [run_node 2 8 ''SUCCESS''] = MainBranchPassed" by code_simp
  finally show ?thesis .
qed

section \<open>A failure past the first hundred checks\<close>

text \<open>
  The names of the failed checks come from the first hundred, the state and the counts from all of
  them. Where the rollup is left as GitHub gave it and the checks listed are cancelled ones, a real failure
  past them is called a cancelled branch, although the row counts the failure.
\<close>

definition cut_failure :: branch_ref where
  "cut_failure = \<lparr>gbName = ''main'', gbTarget = \<lparr>gcOID = ''abc'', gcHeadline = '''', gcURL = ''u'',
     gcCommittedDate = 0, gcAuthor = None,
     gcRollup = Some \<lparr>ruState = ''FAILURE'', ruContexts = Some \<lparr>rcRunCounts = [\<lparr>scState = ''CANCELLED'', scCount = 1\<rparr>],
         rcStatusCounts = [\<lparr>scState = ''FAILURE'', scCount = 1\<rparr>], rcNodes = [run_node 1 7 ''CANCELLED'']\<rparr>, ruJobsCut = False\<rparr>,
     gcSuites = Some []\<rparr>, gbHeldRunURL = ''''\<rparr>"

lemma cut_short_hides_failure:
  "let row = mainBranchFrom ''a/b'' ''u'' None (withNewestRuns (\<lambda>_. None) [Some cut_failure] ! 0)
   in mbStatus row = MainBranchCancelled \<and> Failed (mbChecks row) = 1"
  by code_simp

section \<open>When the branch finished\<close>

definition timed_context :: "branch_context \<Rightarrow> bool" where
  "timed_context c \<longleftrightarrow> bcTypename c = ''CheckRun'' \<and> bcStartedAt c \<noteq> zero_time \<and> bcCompletedAt c \<noteq> zero_time"

text \<open>The loop of \<open>branchTimes\<close> over some checks: each run's own span, and the run that finished last.\<close>

definition run_checks :: "branch_context list \<Rightarrow> int \<times> int \<Rightarrow> branch_context set" where
  "run_checks cs k = {c \<in> set cs. timed_context c \<and> runKey c = k}"

definition span_at :: "branch_context list \<Rightarrow> spans" where
  "span_at cs k = (if run_checks cs k = {} then None
     else Some (Min (bcStartedAt ` run_checks cs k), Max (bcCompletedAt ` run_checks cs k)))"

definition latest_span :: "spans \<Rightarrow> int \<times> int \<Rightarrow> bool" where
  "latest_span spans k \<longleftrightarrow> (\<exists>a b. spans k = Some (a, b) \<and> (\<forall>k' a' b'. spans k' = Some (a', b') \<longrightarrow> b' \<le> b))"

definition spans_of :: "branch_context list \<Rightarrow> spans \<times> (int \<times> int) option \<Rightarrow> bool" where
  "spans_of cs st \<longleftrightarrow> fst st = span_at cs \<and>
     (case snd st of None \<Rightarrow> span_at cs = Map.empty | Some k \<Rightarrow> latest_span (span_at cs) k)"

lemma finite_run_checks [simp]: "finite (run_checks cs k)"
  by (simp add: run_checks_def)

lemma run_checks_snoc:
  "run_checks (cs @ [c]) k = (if timed_context c \<and> runKey c = k then insert c (run_checks cs k) else run_checks cs k)"
  by (auto simp: run_checks_def)

lemma span_at_snoc:
  "span_at (cs @ [c]) = (if timed_context c then (span_at cs)(runKey c \<mapsto>
     (case span_at cs (runKey c) of None \<Rightarrow> (bcStartedAt c, bcCompletedAt c)
      | Some (s, f) \<Rightarrow> (min (bcStartedAt c) s, max (bcCompletedAt c) f))) else span_at cs)"
  by (auto simp: span_at_def run_checks_snoc fun_eq_iff)

lemma noteSpan_spans:
  assumes "spans_of cs st" "timed_context c \<Longrightarrow> bcCompletedAt c > zero_time"
  shows "fst (noteSpan c st) = span_at (cs @ [c])"
proof -
  from assms(1) obtain newest where st: "st = (span_at cs, newest)" by (cases st) (auto simp: spans_of_def)
  show ?thesis
  proof (cases "timed_context c")
    case False
    then have "noteSpan c st = st" by (auto simp: noteSpan_def timed_context_def st)
    then show ?thesis using False st by (simp add: span_at_snoc)
  next
    case True
    then have t: "\<not> (bcTypename c \<noteq> ''CheckRun'' \<or> bcStartedAt c = zero_time \<or> bcCompletedAt c = zero_time)"
      by (simp add: timed_context_def)
    show ?thesis
    proof (cases "span_at cs (runKey c)")
      case None
      then show ?thesis using t True assms(2) by (simp add: noteSpan_def st span_at_snoc Let_def)
    next
      case (Some p)
      then show ?thesis
        using t True by (cases p) (auto simp: noteSpan_def st span_at_snoc Let_def min_def max_def)
    qed
  qed
qed

lemma noteSpan_newest:
  assumes "spans_of cs (spans, newest)" "timed_context c \<Longrightarrow> bcCompletedAt c > zero_time"
  shows "snd (noteSpan c (spans, newest)) =
    (if \<not> timed_context c then newest
     else (case newest of None \<Rightarrow> Some (runKey c)
       | Some k \<Rightarrow> (case (span_at (cs @ [c]) k, span_at (cs @ [c]) (runKey c)) of
           (Some (_, l), Some (_, f)) \<Rightarrow> if f > l then Some (runKey c) else Some k
         | _ \<Rightarrow> Some (runKey c))))"
proof (cases "timed_context c")
  case False
  then show ?thesis by (auto simp: noteSpan_def timed_context_def)
next
  case True
  then have t: "\<not> (bcTypename c \<noteq> ''CheckRun'' \<or> bcStartedAt c = zero_time \<or> bcCompletedAt c = zero_time)"
    by (simp add: timed_context_def)
  show ?thesis
    using noteSpan_spans[OF assms, symmetric] t True
    by (auto simp: noteSpan_def Let_def split: option.splits prod.splits)
qed

lemma spans_step:
  assumes "spans_of cs st" "timed_context c \<Longrightarrow> bcCompletedAt c > zero_time"
  shows "spans_of (cs @ [c]) (noteSpan c st)"
proof (cases "timed_context c")
  case False
  then have "noteSpan c st = st" "span_at (cs @ [c]) = span_at cs"
    by (cases st, auto simp: noteSpan_def timed_context_def span_at_snoc)
  then show ?thesis using assms(1) unfolding spans_of_def by presburger
next
  case True
  obtain spans newest where st: "st = (spans, newest)" by (cases st)
  let ?k = "runKey c" and ?sp = "span_at (cs @ [c])"
  note n = noteSpan_newest[OF assms(1)[unfolded st] assms(2)]
  obtain s f where k: "?sp ?k = Some (s, f)" by (cases "?sp ?k") (auto simp: span_at_snoc True)
  have other: "?sp k = span_at cs k" if "k \<noteq> ?k" for k using that by (simp add: span_at_snoc)
  have grows: "span_at cs ?k = Some (a, b) \<Longrightarrow> b \<le> f" for a b
    using k True by (auto simp: span_at_snoc)
  show ?thesis
  proof (cases newest)
    case None
    then have "span_at cs = Map.empty" using assms(1) st by (simp add: spans_of_def)
    then have "latest_span ?sp ?k" using k other by (auto simp: latest_span_def) (metis option.distinct(1) option.inject order_refl prod.inject)
    then show ?thesis using noteSpan_spans[OF assms] n None True st by (simp add: spans_of_def)
  next
    case (Some k0)
    then obtain a0 b0 where k0: "span_at cs k0 = Some (a0, b0)" "\<And>k' a' b'. span_at cs k' = Some (a', b') \<Longrightarrow> b' \<le> b0"
      using assms(1) st by (auto simp: spans_of_def latest_span_def)
    have all: "b' \<le> max f b0" if "?sp k' = Some (a', b')" for k' a' b'
      using that k k0(2)[of k' a' b'] other[of k'] by (cases "k' = ?k") (auto simp: max_def)
    show ?thesis
    proof (cases "k0 = ?k")
      case True
      then have "max f b0 = f" using grows k0 by simp
      then have "latest_span ?sp ?k" using k all by (auto simp: latest_span_def)
      moreover have "snd (noteSpan c st) = Some ?k" using n Some True \<open>timed_context c\<close> k st by simp
      ultimately show ?thesis using noteSpan_spans[OF assms] by (simp add: spans_of_def)
    next
      case False
      then have sp0: "?sp k0 = Some (a0, b0)" using k0 other by simp
      show ?thesis
      proof (cases "f > b0")
        case True
        then have "latest_span ?sp ?k" using k all by (auto simp: latest_span_def max_def)
        moreover have "snd (noteSpan c st) = Some ?k" using n Some True \<open>timed_context c\<close> k sp0 st by simp
        ultimately show ?thesis using noteSpan_spans[OF assms] by (simp add: spans_of_def)
      next
        case le: False
        then have "latest_span ?sp k0" using sp0 all by (auto simp: latest_span_def max_def)
        moreover have "snd (noteSpan c st) = Some k0" using n Some le \<open>timed_context c\<close> k sp0 st by simp
        ultimately show ?thesis using noteSpan_spans[OF assms] by (simp add: spans_of_def)
      qed
    qed
  qed
qed

lemma spans_fold:
  "list_all (\<lambda>c. timed_context c \<longrightarrow> bcCompletedAt c > zero_time) cs \<Longrightarrow> spans_of cs (fold noteSpan cs (Map.empty, None))"
proof (induction cs rule: rev_induct)
  case Nil
  show ?case by (simp add: spans_of_def span_at_def run_checks_def fun_eq_iff)
next
  case (snoc c cs)
  then show ?case using spans_step[of cs _ c] by simp
qed

text \<open>The branch finished when its last check did, and took as long as the run that check belongs to.\<close>

lemma branchTimes_last:
  assumes "list_all (\<lambda>c. timed_context c \<longrightarrow> bcCompletedAt c > zero_time) checks" "c \<in> set checks" "timed_context c"
  shows "\<exists>d \<in> set checks. timed_context d \<and> fst (branchTimes checks) = Some (bcCompletedAt d) \<and>
    (\<forall>e \<in> set checks. timed_context e \<longrightarrow> bcCompletedAt e \<le> bcCompletedAt d) \<and>
    snd (branchTimes checks) = Some (max 0 (time_sub (bcCompletedAt d)
      (Min (bcStartedAt ` run_checks checks (runKey d))) div second))"
proof -
  obtain spans newest where st: "fold noteSpan checks (Map.empty, None) = (spans, newest)"
    by (cases "fold noteSpan checks (Map.empty, None)")
  with spans_fold[OF assms(1)] have sp: "spans = span_at checks"
    and new: "case newest of None \<Rightarrow> span_at checks = Map.empty | Some k \<Rightarrow> latest_span (span_at checks) k"
    by (simp_all add: spans_of_def)
  have own: "span_at checks (runKey e) = Some (Min (bcStartedAt ` run_checks checks (runKey e)),
      Max (bcCompletedAt ` run_checks checks (runKey e)))" if "e \<in> set checks" "timed_context e" for e
    using that by (auto simp: span_at_def run_checks_def)
  then have "span_at checks \<noteq> Map.empty" using assms(2,3) by (metis option.distinct(1))
  with new obtain k where k: "newest = Some k" "latest_span (span_at checks) k" by (cases newest) auto
  then obtain a b where ab: "span_at checks k = Some (a, b)" "\<And>k' a' b'. span_at checks k' = Some (a', b') \<Longrightarrow> b' \<le> b"
    by (auto simp: latest_span_def)
  then have ne: "run_checks checks k \<noteq> {}" and m: "a = Min (bcStartedAt ` run_checks checks k)"
    "b = Max (bcCompletedAt ` run_checks checks k)"
    by (auto simp: span_at_def split: if_splits)
  have "Max (bcCompletedAt ` run_checks checks k) \<in> bcCompletedAt ` run_checks checks k" using ne by (intro Max_in) auto
  then obtain d where d: "d \<in> run_checks checks k" "bcCompletedAt d = b" using m by auto
  have "bcCompletedAt e \<le> b" if e: "e \<in> set checks" "timed_context e" for e
  proof -
    have "bcCompletedAt e \<in> bcCompletedAt ` run_checks checks (runKey e)" using e by (simp add: run_checks_def)
    then have "bcCompletedAt e \<le> Max (bcCompletedAt ` run_checks checks (runKey e))" by (intro Max_ge) simp_all
    with ab(2)[OF own[OF e]] show ?thesis by simp
  qed
  then show ?thesis
    using d ab(1) m k(1) st sp by (intro bexI[of _ d]) (auto simp: branchTimes_def run_checks_def)
qed

end
