(* ===== verification/Lru.thy ===== *)
theory Lru
  imports FD_Library "HOL-Library.Multiset"
begin

text \<open>
  The bounded caches of the Forgejo client (\<open>lru.go\<close>, \<open>finished_jobs.go\<close>): a map whose entries hang on a
  list, most recently read first, and which lets the last one go past its bound. A list element is
  an id that the map and the list share, as \<open>container/list\<close> shares a pointer.
\<close>

section \<open>The code\<close>

record 'v lru =
  lruMax :: nat
  lruItems :: "string \<rightharpoonup> nat"
  lruOrder :: "(nat \<times> string \<times> 'v) list"
  lruNext :: nat                 \<comment> \<open>an id no element has had\<close>

definition newLRU :: "nat \<Rightarrow> 'v lru" where
  "newLRU limit = \<lparr>lruMax = limit, lruItems = Map.empty, lruOrder = [], lruNext = 0\<rparr>"

definition moveToFront :: "nat \<Rightarrow> 'v lru \<Rightarrow> 'v lru" where
  "moveToFront el l = l\<lparr>lruOrder := filter (\<lambda>e. fst e = el) (lruOrder l) @ filter (\<lambda>e. fst e \<noteq> el) (lruOrder l)\<rparr>"

definition elementValue :: "nat \<Rightarrow> 'v lru \<Rightarrow> 'v option" where
  "elementValue el l = map_option (\<lambda>e. snd (snd e)) (find (\<lambda>e. fst e = el) (lruOrder l))"

definition lruGet :: "string \<Rightarrow> 'v lru \<Rightarrow> 'v option \<times> 'v lru" where
  "lruGet key l = (case lruItems l key of None \<Rightarrow> (None, l)
     | Some el \<Rightarrow> (elementValue el l, moveToFront el l))"

definition lruPeek :: "string \<Rightarrow> 'v lru \<Rightarrow> 'v option" where
  "lruPeek key l = (case lruItems l key of None \<Rightarrow> None | Some el \<Rightarrow> elementValue el l)"

function lruEvict :: "'v lru \<Rightarrow> 'v lru" where
  "lruEvict l =
     (if length (lruOrder l) > lruMax l
      then lruEvict (l\<lparr>lruOrder := butlast (lruOrder l),
                       lruItems := (lruItems l)(fst (snd (last (lruOrder l))) := None)\<rparr>)
      else l)"
  by pat_completeness auto
termination
  by (relation "measure (\<lambda>l. length (lruOrder l))") auto

declare lruEvict.simps [simp del]

definition lruPut :: "string \<Rightarrow> 'v \<Rightarrow> 'v lru \<Rightarrow> 'v lru" where
  "lruPut key v l = (case lruItems l key of
     Some el \<Rightarrow> moveToFront el (l\<lparr>lruOrder := map (\<lambda>e. if fst e = el then (el, fst (snd e), v) else e) (lruOrder l)\<rparr>)
   | None \<Rightarrow> lruEvict (l\<lparr>lruItems := (lruItems l)(key \<mapsto> lruNext l),
                          lruOrder := (lruNext l, key, v) # lruOrder l, lruNext := Suc (lruNext l)\<rparr>))"

definition lruRemove :: "string \<Rightarrow> 'v lru \<Rightarrow> 'v lru" where
  "lruRemove key l = (case lruItems l key of None \<Rightarrow> l
     | Some el \<Rightarrow> l\<lparr>lruOrder := filter (\<lambda>e. fst e \<noteq> el) (lruOrder l), lruItems := (lruItems l)(key := None)\<rparr>)"

section \<open>What the cache is: a list of entries, newest read first\<close>

definition lru_entries :: "'v lru \<Rightarrow> (string \<times> 'v) list" where
  "lru_entries l = map snd (lruOrder l)"

definition toFront :: "string \<Rightarrow> (string \<times> 'v) list \<Rightarrow> (string \<times> 'v) list" where
  "toFront key es = filter (\<lambda>e. fst e = key) es @ filter (\<lambda>e. fst e \<noteq> key) es"

definition without :: "string \<Rightarrow> (string \<times> 'v) list \<Rightarrow> (string \<times> 'v) list" where
  "without key es = filter (\<lambda>e. fst e \<noteq> key) es"

definition cached :: "nat \<Rightarrow> string \<Rightarrow> 'v \<Rightarrow> (string \<times> 'v) list \<Rightarrow> (string \<times> 'v) list" where
  "cached limit key v es = (if key \<in> fst ` set es then (key, v) # without key es else take limit ((key, v) # es))"

text \<open>The map names exactly the elements of the list, and no key twice.\<close>

definition lru_ok :: "'v lru \<Rightarrow> bool" where
  "lru_ok l \<longleftrightarrow> distinct (map fst (lruOrder l)) \<and> distinct (map fst (lru_entries l)) \<and>
     (\<forall>key el. lruItems l key = Some el \<longleftrightarrow> (\<exists>v. (el, key, v) \<in> set (lruOrder l))) \<and>
     (\<forall>e \<in> set (lruOrder l). fst e < lruNext l) \<and> length (lruOrder l) \<le> lruMax l"

lemma lru_okD:
  assumes "lru_ok l"
  shows "distinct (map fst (lruOrder l))" "distinct (map fst (lru_entries l))"
    "lruItems l key = Some el \<longleftrightarrow> (\<exists>v. (el, key, v) \<in> set (lruOrder l))"
    "e \<in> set (lruOrder l) \<Longrightarrow> fst e < lruNext l" "length (lruOrder l) \<le> lruMax l"
  using assms by (auto simp: lru_ok_def)

lemma distinct_fst_eq: "distinct (map f xs) \<Longrightarrow> x \<in> set xs \<Longrightarrow> y \<in> set xs \<Longrightarrow> f x = f y \<Longrightarrow> x = y"
  by (auto simp: distinct_map inj_on_def)

text \<open>An element and its key name the same entry.\<close>

lemma element_key:
  assumes "lru_ok l" "lruItems l key = Some el" "e \<in> set (lruOrder l)"
  shows "fst e = el \<longleftrightarrow> fst (snd e) = key"
proof -
  obtain v where v: "(el, key, v) \<in> set (lruOrder l)" using lru_okD(3)[OF assms(1)] assms(2) by auto
  show ?thesis
  proof
    assume "fst e = el"
    then have "e = (el, key, v)" using distinct_fst_eq[OF lru_okD(1)[OF assms(1)] assms(3) v] by simp
    then show "fst (snd e) = key" by simp
  next
    assume "fst (snd e) = key"
    moreover have "distinct (map (\<lambda>e. fst (snd e)) (lruOrder l))"
      using lru_okD(2)[OF assms(1)] by (simp add: lru_entries_def comp_def)
    ultimately have "e = (el, key, v)" using distinct_fst_eq[of "\<lambda>e. fst (snd e)" "lruOrder l" e] assms(3) v by simp
    then show "fst e = el" by simp
  qed
qed

lemma key_present:
  assumes "lru_ok l"
  shows "lruItems l key \<noteq> None \<longleftrightarrow> key \<in> fst ` set (lru_entries l)"
  using lru_okD(3)[OF assms, of key] by (force simp: lru_entries_def)

lemma entries_filter:
  assumes "lru_ok l" "lruItems l key = Some el"
  shows "map snd (filter (\<lambda>e. fst e = el) (lruOrder l)) = filter (\<lambda>e. fst e = key) (lru_entries l)"
    and "map snd (filter (\<lambda>e. fst e \<noteq> el) (lruOrder l)) = filter (\<lambda>e. fst e \<noteq> key) (lru_entries l)"
  using element_key[OF assms]
  by (simp_all add: lru_entries_def filter_map comp_def cong: filter_cong)

lemma elementValue_entry:
  assumes "lru_ok l" "lruItems l key = Some el"
  shows "elementValue el l = map_of (lru_entries l) key"
proof -
  obtain v where v: "(el, key, v) \<in> set (lruOrder l)" using lru_okD(3)[OF assms(1)] assms(2) by auto
  have "find (\<lambda>e. fst e = el) (lruOrder l) \<noteq> None" using v by (auto simp: find_None_iff)
  then obtain e where e: "find (\<lambda>e. fst e = el) (lruOrder l) = Some e" by auto
  then have "e \<in> set (lruOrder l)" "fst e = el" using find_Some_P by fastforce+
  then have "e = (el, key, v)" using distinct_fst_eq[OF lru_okD(1)[OF assms(1)] _ v] by simp
  moreover have "map_of (lru_entries l) key = Some v"
    using lru_okD(2)[OF assms(1)] v by (auto simp: lru_entries_def intro!: map_of_is_SomeI image_eqI[of _ snd])
  ultimately show ?thesis using e by (simp add: elementValue_def)
qed

section \<open>The code implements it\<close>

lemma lru_okI:
  fixes l l' :: "'v lru"
  assumes "mset (map fst (lruOrder l')) = mset (map fst (lruOrder l))"
    and "mset (map fst (lru_entries l')) = mset (map fst (lru_entries l))"
    and "(\<lambda>e. (fst e, fst (snd e))) ` set (lruOrder l') = (\<lambda>e. (fst e, fst (snd e))) ` set (lruOrder l)"
    and "lruItems l' = lruItems l" "lruNext l' = lruNext l" "lruMax l' = lruMax l" "lru_ok l"
  shows "lru_ok l'"
proof -
  have "(\<exists>v. (el, key, v) \<in> set (lruOrder l')) \<longleftrightarrow> (\<exists>v. (el, key, v) \<in> set (lruOrder l))" for el key
  proof -
    have "(\<exists>v. (el, key, v) \<in> set (lruOrder l'')) \<longleftrightarrow> (el, key) \<in> (\<lambda>e. (fst e, fst (snd e))) ` set (lruOrder l'')"
      for l'' :: "'v lru" by force
    then show ?thesis using assms(3) by simp
  qed
  moreover have "fst e < lruNext l" if "e \<in> set (lruOrder l')" for e
  proof -
    have "set (map fst (lruOrder l')) = set (map fst (lruOrder l))" using assms(1) by (rule mset_eq_setD)
    moreover have "fst e \<in> set (map fst (lruOrder l'))" using that by simp
    ultimately have "fst e \<in> fst ` set (lruOrder l)" by simp
    then show ?thesis using lru_okD(4)[OF assms(7)] by auto
  qed
  moreover have "length (lruOrder l') = length (lruOrder l)"
    using assms(1) by (metis length_map mset_eq_length)
  ultimately show ?thesis
    using assms(4-6) lru_okD[OF assms(7)] mset_eq_imp_distinct_iff[OF assms(1)] mset_eq_imp_distinct_iff[OF assms(2)]
    by (simp add: lru_ok_def)
qed

lemma mset_partition: "mset (filter P xs @ filter (\<lambda>x. \<not> P x) xs) = mset xs"
  using multiset_partition[of "mset xs" P] by simp

lemma move_ok: "lru_ok l \<Longrightarrow> lru_ok (moveToFront el l)"
proof (rule lru_okI[of "moveToFront el l" l])
  let ?xs = "lruOrder l"
  let ?ys = "filter (\<lambda>e. fst e = el) ?xs @ filter (\<lambda>e. fst e \<noteq> el) ?xs"
  have o: "lruOrder (moveToFront el l) = ?ys" by (simp add: moveToFront_def)
  have m: "mset ?ys = mset ?xs" by (rule mset_partition)
  then have g: "mset (map f ?ys) = mset (map f ?xs)" for f :: "_ \<Rightarrow> string" by (simp only: mset_map)
  show "mset (map fst (lruOrder (moveToFront el l))) = mset (map fst ?xs)"
    unfolding o using m by (simp only: mset_map)
  show "mset (map fst (lru_entries (moveToFront el l))) = mset (map fst (lru_entries l))"
    unfolding lru_entries_def o map_map by (rule g)
  show "(\<lambda>e. (fst e, fst (snd e))) ` set (lruOrder (moveToFront el l)) = (\<lambda>e. (fst e, fst (snd e))) ` set ?xs"
    using mset_eq_setD[OF m] by (simp add: moveToFront_def)
qed (simp_all add: moveToFront_def)

lemma move_entries:
  "lru_ok l \<Longrightarrow> lruItems l key = Some el \<Longrightarrow> lru_entries (moveToFront el l) = toFront key (lru_entries l)"
  using entries_filter[of l key el] by (simp add: moveToFront_def lru_entries_def toFront_def)

lemma new_ok [simp]: "lru_ok (newLRU limit)" "lru_entries (newLRU limit) = []" "lruMax (newLRU limit) = limit"
  by (simp_all add: lru_ok_def newLRU_def lru_entries_def)

lemma toFront_absent: "key \<notin> fst ` set es \<Longrightarrow> toFront key es = es"
proof -
  assume n: "key \<notin> fst ` set es"
  then have "filter (\<lambda>e. fst e = key) es = []" by (force simp: filter_empty_conv)
  moreover from n have "filter (\<lambda>e. fst e \<noteq> key) es = es" by (intro filter_True) force
  ultimately show ?thesis by (simp add: toFront_def)
qed

lemma get_refines:
  assumes "lru_ok l"
  shows "fst (lruGet key l) = map_of (lru_entries l) key" "lru_entries (snd (lruGet key l)) = toFront key (lru_entries l)"
    "lru_ok (snd (lruGet key l))" "lruMax (snd (lruGet key l)) = lruMax l"
proof -
  have n: "lruItems l key = None \<Longrightarrow> key \<notin> fst ` set (lru_entries l)" using key_present[OF assms, of key] by simp
  then show "fst (lruGet key l) = map_of (lru_entries l) key"
    using elementValue_entry[OF assms, of key] map_of_eq_None_iff[of "lru_entries l" key]
    by (cases "lruItems l key") (simp_all add: lruGet_def)
  show "lru_entries (snd (lruGet key l)) = toFront key (lru_entries l)"
    using n move_entries[OF assms] toFront_absent[of key "lru_entries l"] by (auto simp: lruGet_def split: option.split)
  show "lru_ok (snd (lruGet key l))" "lruMax (snd (lruGet key l)) = lruMax l"
    using assms move_ok by (auto simp: lruGet_def moveToFront_def split: option.split)
qed

lemma peek_refines: "lru_ok l \<Longrightarrow> lruPeek key l = map_of (lru_entries l) key"
  using get_refines(1)[of l key] by (simp add: lruPeek_def lruGet_def split: option.splits)

lemma remove_refines:
  assumes "lru_ok l"
  shows "lru_entries (lruRemove key l) = without key (lru_entries l)" "lru_ok (lruRemove key l)"
    "lruMax (lruRemove key l) = lruMax l"
proof -
  have n: "lruItems l key = None \<Longrightarrow> key \<notin> fst ` set (lru_entries l)" using key_present[OF assms, of key] by simp
  show "lru_entries (lruRemove key l) = without key (lru_entries l)"
  proof (cases "lruItems l key")
    case None
    then have "without key (lru_entries l) = lru_entries l" using n by (force simp: without_def intro!: filter_True)
    with None show ?thesis by (simp add: lruRemove_def)
  next
    case (Some el)
    then show ?thesis using entries_filter(2)[OF assms Some] by (simp add: lruRemove_def without_def lru_entries_def)
  qed
  show "lru_ok (lruRemove key l)"
  proof (cases "lruItems l key")
    case None
    with assms show ?thesis by (simp add: lruRemove_def)
  next
    case (Some el)
    note k = element_key[OF assms Some]
    have "(((lruItems l)(key := None)) key' = Some el') \<longleftrightarrow> (\<exists>v. (el', key', v) \<in> set (filter (\<lambda>e. fst e \<noteq> el) (lruOrder l)))"
      for key' el'
      using lru_okD(3)[OF assms, of key' el'] k by (auto simp: fun_upd_apply) (metis fst_conv snd_conv)+
    moreover have "length (filter (\<lambda>e. fst e \<noteq> el) (lruOrder l)) \<le> lruMax l"
      using lru_okD(5)[OF assms] length_filter_le le_trans by blast
    moreover have "distinct (map fst (filter (\<lambda>e. fst e \<noteq> el) (lruOrder l)))"
      "distinct (map fst (map snd (filter (\<lambda>e. fst e \<noteq> el) (lruOrder l))))"
      using lru_okD(1,2)[OF assms] by (simp_all add: distinct_map_filter lru_entries_def del: distinct_map)
    ultimately show ?thesis
      using Some lru_okD(4)[OF assms] by (simp add: lruRemove_def lru_ok_def lru_entries_def del: fun_upd_apply)
  qed
  show "lruMax (lruRemove key l) = lruMax l" by (simp add: lruRemove_def split: option.split)
qed

text \<open>The same without the bound, as it stands between the insertion and the eviction.\<close>

definition links_ok :: "'v lru \<Rightarrow> bool" where
  "links_ok l \<longleftrightarrow> distinct (map fst (lruOrder l)) \<and> distinct (map fst (lru_entries l)) \<and>
     (\<forall>key el. lruItems l key = Some el \<longleftrightarrow> (\<exists>v. (el, key, v) \<in> set (lruOrder l))) \<and>
     (\<forall>e \<in> set (lruOrder l). fst e < lruNext l)"

lemma lru_ok_links: "lru_ok l \<longleftrightarrow> links_ok l \<and> length (lruOrder l) \<le> lruMax l"
  by (auto simp: lru_ok_def links_ok_def)

lemma links_drop_last:
  assumes "links_ok l" "lruOrder l = xs @ [(el, key, v)]"
  shows "links_ok (l\<lparr>lruOrder := xs, lruItems := (lruItems l)(key := None)\<rparr>)"
proof -
  have link: "lruItems l key' = Some el' \<longleftrightarrow> (\<exists>v'. (el', key', v') \<in> set xs) \<or> (key' = key \<and> el' = el)" for key' el'
    using assms by (auto simp: links_ok_def)
  have fresh: "(el', key, v') \<notin> set xs" for el' v'
    using assms by (force simp: links_ok_def lru_entries_def)
  have "((lruItems l)(key := None)) key' = Some el' \<longleftrightarrow> (\<exists>v'. (el', key', v') \<in> set xs)" for key' el'
    using link[of key' el'] fresh by (cases "key' = key") auto
  then show ?thesis using assms by (simp add: links_ok_def lru_entries_def del: fun_upd_apply)
qed

lemma evict_refines:
  "links_ok l \<Longrightarrow> lru_ok (lruEvict l) \<and> lru_entries (lruEvict l) = take (lruMax l) (lru_entries l) \<and> lruMax (lruEvict l) = lruMax l"
proof (induction l rule: lruEvict.induct)
  case (1 l)
  show ?case
  proof (cases "length (lruOrder l) > lruMax l")
    case False
    with 1(2) show ?thesis by (simp add: lruEvict.simps[of l] lru_ok_links lru_entries_def)
  next
    case True
    then obtain xs e where "lruOrder l = xs @ [e]" by (cases "lruOrder l" rule: rev_cases) auto
    then obtain el key v where o: "lruOrder l = xs @ [(el, key, v)]" by (cases e) auto
    let ?l = "l\<lparr>lruOrder := xs, lruItems := (lruItems l)(key := None)\<rparr>"
    from True o have "lru_ok (lruEvict ?l) \<and> lru_entries (lruEvict ?l) = take (lruMax ?l) (lru_entries ?l) \<and> lruMax (lruEvict ?l) = lruMax ?l"
      using 1(1)[OF True] links_drop_last[OF 1(2) o] by simp
    with True o show ?thesis by (simp add: lruEvict.simps[of l] lru_entries_def)
  qed
qed

lemma put_refines:
  assumes "lru_ok l"
  shows "lru_ok (lruPut key v l) \<and> lru_entries (lruPut key v l) = cached (lruMax l) key v (lru_entries l) \<and>
    lruMax (lruPut key v l) = lruMax l"
proof (cases "lruItems l key")
  case (Some el)
  let ?upd = "\<lambda>e. if fst e = el then (el, fst (snd e), v) else e"
  let ?l = "l\<lparr>lruOrder := map ?upd (lruOrder l)\<rparr>"
  have keep: "fst (?upd e) = fst e" "fst (snd (?upd e)) = fst (snd e)" for e :: "nat \<times> string \<times> 'a" by auto
  have im: "(\<lambda>e. (fst e, fst (snd e))) ` set (map ?upd xs) = (\<lambda>e. (fst e, fst (snd e))) ` set xs" for xs
    unfolding set_map image_image by (rule image_cong) (simp_all add: keep)
  have ok: "lru_ok ?l"
    by (rule lru_okI[of ?l l]) (use assms keep im in \<open>simp_all add: lru_entries_def comp_def del: set_map image_set\<close>)
  have upd: "map snd (map ?upd (lruOrder l)) = map (\<lambda>e. if fst e = key then (key, v) else e) (lru_entries l)"
    using element_key[OF assms Some] by (auto simp: lru_entries_def)
  have ent: "lru_entries ?l = map (\<lambda>e. if fst e = key then (key, v) else e) (lru_entries l)"
    unfolding upd[symmetric] by (simp add: lru_entries_def)
  have pres: "key \<in> fst ` set (lru_entries l)" using key_present[OF assms, of key] Some by simp
  have one: "map (\<lambda>e. if fst e = key then (key, v) else e) (filter (\<lambda>e. fst e = key) es) = [(key, v)]"
    if "key \<in> fst ` set es" "distinct (map fst es)" for es :: "(string \<times> 'a) list"
    using that
  proof (induction es)
    case (Cons e es)
    show ?case
    proof (cases "fst e = key")
      case True
      then have "key \<notin> fst ` set es" using Cons.prems(2) by auto
      then have "filter (\<lambda>e. fst e = key) es = []" by (force simp: filter_empty_conv)
      with True show ?thesis by simp
    next
      case False
      with Cons show ?thesis by auto
    qed
  qed simp
  have "toFront key (map (\<lambda>e. if fst e = key then (key, v) else e) es) =
      map (\<lambda>e. if fst e = key then (key, v) else e) (filter (\<lambda>e. fst e = key) es) @ without key es" for es
    by (auto simp: toFront_def without_def filter_map comp_def intro!: filter_cong map_idI arg_cong2[where f = append])
  then have "toFront key (lru_entries ?l) = (key, v) # without key (lru_entries l)"
    using one[OF pres lru_okD(2)[OF assms]] by (simp only: ent append.simps)
  moreover have "lruItems ?l key = Some el" using Some by simp
  ultimately have "lru_entries (moveToFront el ?l) = (key, v) # without key (lru_entries l)"
    using move_entries[OF ok] by simp
  then show ?thesis using Some pres move_ok[OF ok] by (simp add: lruPut_def cached_def moveToFront_def)
next
  case None
  let ?l = "l\<lparr>lruItems := (lruItems l)(key \<mapsto> lruNext l), lruOrder := (lruNext l, key, v) # lruOrder l,
    lruNext := Suc (lruNext l)\<rparr>"
  have abs: "key \<notin> fst ` set (lru_entries l)" using key_present[OF assms] None by blast
  have "links_ok ?l"
  proof -
    have old: "e \<in> set (lruOrder l) \<Longrightarrow> fst e < lruNext l" for e using lru_okD(4)[OF assms] .
    then have "lruNext l \<notin> fst ` set (lruOrder l)" by fastforce
    then have "distinct (map fst (lruOrder ?l))" using lru_okD(1)[OF assms] by simp
    moreover have "distinct (map fst (lru_entries ?l))"
      using lru_okD(2)[OF assms] abs by (simp add: lru_entries_def image_image)
    moreover have "lruItems ?l key' = Some el' \<longleftrightarrow> (\<exists>v'. (el', key', v') \<in> set (lruOrder ?l))" for key' el'
      using lru_okD(3)[OF assms, of key' el'] None by auto
    moreover have "e \<in> set (lruOrder ?l) \<Longrightarrow> fst e < lruNext ?l" for e using old[of e] by auto
    ultimately show ?thesis unfolding links_ok_def by blast
  qed
  from evict_refines[OF this] show ?thesis using None abs by (simp add: lruPut_def cached_def lru_entries_def)
qed

section \<open>The contract of a cache\<close>

text \<open>
  What the users of the cache rely on: it answers as the list of entries does. From that alone, an
  entry stays as long as fewer other keys than the bound have been touched since it was kept.
\<close>

datatype 'v cache_op = CGet string | CPut string 'v | CRemove string

primrec op_key :: "'v cache_op \<Rightarrow> string" where
  "op_key (CGet k) = k"
| "op_key (CPut k v) = k"
| "op_key (CRemove k) = k"

fun is_get :: "'v cache_op \<Rightarrow> bool" where
  "is_get (CGet k) = True"
| "is_get _ = False"

definition cache_step :: "(string \<Rightarrow> 'c \<Rightarrow> 'v option \<times> 'c) \<Rightarrow> (string \<Rightarrow> 'v \<Rightarrow> 'c \<Rightarrow> 'c) \<Rightarrow>
    (string \<Rightarrow> 'c \<Rightarrow> 'c) \<Rightarrow> 'v cache_op \<Rightarrow> 'c \<Rightarrow> 'c" where
  "cache_step get put remove op c = (case op of
     CGet k \<Rightarrow> snd (get k c) | CPut k v \<Rightarrow> put k v c | CRemove k \<Rightarrow> remove k c)"

text \<open>The entry of a key with nothing in front of it but some keys.\<close>

definition behind :: "string set \<Rightarrow> string \<Rightarrow> 'v \<Rightarrow> (string \<times> 'v) list \<Rightarrow> bool" where
  "behind S k v es \<longleftrightarrow> (\<exists>a b. es = a @ (k, v) # b \<and> fst ` set a \<subseteq> S)"

lemma behind_lookup: "behind S k v es \<Longrightarrow> k \<notin> S \<Longrightarrow> map_of es k = Some v"
proof -
  assume "behind S k v es" "k \<notin> S"
  then obtain a b where e: "es = a @ (k, v) # b" "k \<notin> fst ` set a" unfolding behind_def by blast
  then have "map_of a k = None" by (simp add: map_of_eq_None_iff)
  then show ?thesis using e by (simp add: map_add_def)
qed

lemma behind_toFront_same: "behind S k v es \<Longrightarrow> k \<notin> S \<Longrightarrow> behind S k v (toFront k es)"
proof -
  assume "behind S k v es" "k \<notin> S"
  then obtain a b where e: "es = a @ (k, v) # b" "k \<notin> fst ` set a" unfolding behind_def by blast
  then have "filter (\<lambda>e. fst e = k) a = []" by (force simp: filter_empty_conv)
  then have "toFront k es = [] @ (k, v) # (filter (\<lambda>e. fst e = k) b @ filter (\<lambda>e. fst e \<noteq> k) es)"
    using e(1) by (simp add: toFront_def)
  then show ?thesis unfolding behind_def by (metis empty_subsetI image_empty list.set(1))
qed

lemma behind_without: "behind S k v es \<Longrightarrow> j \<noteq> k \<Longrightarrow> behind S k v (without j es)"
  unfolding behind_def without_def
  by (elim exE conjE, rule_tac x = "filter (\<lambda>e. fst e \<noteq> j) a" in exI, rule_tac x = "filter (\<lambda>e. fst e \<noteq> j) b" in exI) auto

lemma behind_toFront_other: "behind S k v es \<Longrightarrow> j \<noteq> k \<Longrightarrow> behind (insert j S) k v (toFront j es)"
proof -
  assume b: "behind S k v es" "j \<noteq> k"
  from behind_without[OF this] obtain a b where "without j es = a @ (k, v) # b" "fst ` set a \<subseteq> S"
    by (auto simp: behind_def)
  then show ?thesis
    unfolding behind_def toFront_def without_def
    by (intro exI[of _ "filter (\<lambda>e. fst e = j) es @ a"] exI[of _ b]) auto
qed

lemma behind_cached:
  assumes "behind S k v es" "j \<noteq> k" "distinct (map fst es)" "finite S" "k \<notin> S" "card (insert j S) < n"
  shows "behind (insert j S) k v (cached n j u es)"
proof (cases "j \<in> fst ` set es")
  case True
  from behind_without[OF assms(1,2)] obtain a b where "without j es = a @ (k, v) # b" "fst ` set a \<subseteq> S"
    by (auto simp: behind_def)
  with True show ?thesis
    unfolding behind_def cached_def by (intro exI[of _ "(j, u) # a"] exI[of _ b]) auto
next
  case False
  from assms(1) obtain a b where e: "es = a @ (k, v) # b" "fst ` set a \<subseteq> S" by (auto simp: behind_def)
  have "card (insert j (fst ` set a)) \<le> card (insert j S)" using e assms(4) by (intro card_mono) auto
  moreover have "j \<notin> fst ` set a" using False e by auto
  moreover have "card (fst ` set a) = length a" using distinct_card[of "map fst a"] e assms(3) by simp
  ultimately have "Suc (length a) < n" using assms(6) by simp
  then obtain m where m: "n = Suc (length a) + Suc m" by (metis add_Suc_right less_iff_Suc_add)
  have "take n ((j, u) # es) = ((j, u) # a) @ (k, v) # take m b" using e(1) m by simp
  with False e(2) show ?thesis
    unfolding behind_def cached_def by (intro exI[of _ "(j, u) # a"] exI[of _ "take m b"]) auto
qed

locale recency_cache =
  fixes ok :: "'c \<Rightarrow> bool"
    and abs :: "'c \<Rightarrow> (string \<times> 'v) list"
    and limit :: "'c \<Rightarrow> nat"
    and get :: "string \<Rightarrow> 'c \<Rightarrow> 'v option \<times> 'c"
    and put :: "string \<Rightarrow> 'v \<Rightarrow> 'c \<Rightarrow> 'c"
    and remove :: "string \<Rightarrow> 'c \<Rightarrow> 'c"
  assumes ok_abs: "ok c \<Longrightarrow> distinct (map fst (abs c)) \<and> length (abs c) \<le> limit c"
    and get_spec: "ok c \<Longrightarrow> ok (snd (get k c)) \<and> limit (snd (get k c)) = limit c \<and>
      fst (get k c) = map_of (abs c) k \<and> abs (snd (get k c)) = toFront k (abs c)"
    and put_spec: "ok c \<Longrightarrow> ok (put k v c) \<and> limit (put k v c) = limit c \<and> abs (put k v c) = cached (limit c) k v (abs c)"
    and remove_spec: "ok c \<Longrightarrow> ok (remove k c) \<and> limit (remove k c) = limit c \<and> abs (remove k c) = without k (abs c)"
begin

lemma step_spec:
  assumes "ok c"
  shows "ok (cache_step get put remove op c) \<and> limit (cache_step get put remove op c) = limit c"
  using get_spec[OF assms] put_spec[OF assms] remove_spec[OF assms]
  by (cases op) (simp_all add: cache_step_def)

lemma bounded: "ok c \<Longrightarrow> length (abs (fold (cache_step get put remove) ops c)) \<le> limit c"
proof (induction ops arbitrary: c)
  case Nil
  then show ?case using ok_abs by simp
next
  case (Cons op ops)
  then show ?case using step_spec[OF Cons.prems, of op] Cons.IH by fastforce
qed

lemma step_behind:
  assumes "ok c" "behind S k v (abs c)" "finite S" "k \<notin> S" "op_key op = k \<Longrightarrow> is_get op"
    and "card (insert (op_key op) S - {k}) < limit c"
  shows "behind (insert (op_key op) S - {k}) k v (abs (cache_step get put remove op c))"
proof (cases "op_key op = k")
  case True
  with assms(5) have "op = CGet k" by (cases op) auto
  moreover have "insert k S - {k} = S" using assms(4) by auto
  ultimately show ?thesis
    using get_spec[OF assms(1), of k] behind_toFront_same[OF assms(2,4)] by (simp add: cache_step_def)
next
  case False
  then have S: "insert (op_key op) S - {k} = insert (op_key op) S" using assms(4) by auto
  have mono: "behind S k v es \<Longrightarrow> behind (insert j S) k v es" for j es by (auto simp: behind_def)
  show ?thesis
  proof (cases op)
    case (CGet j)
    then show ?thesis
      using False S get_spec[OF assms(1), of j] behind_toFront_other[OF assms(2), of j] by (simp add: cache_step_def)
  next
    case (CPut j u)
    then show ?thesis
      using False S put_spec[OF assms(1), of j u] assms(3,4,6) ok_abs[OF assms(1)]
        behind_cached[OF assms(2), of j "limit c" u]
      by (simp add: cache_step_def)
  next
    case (CRemove j)
    then show ?thesis
      using False S remove_spec[OF assms(1), of j] mono[OF behind_without[OF assms(2), of j]] by (simp add: cache_step_def)
  qed
qed

lemma run_behind:
  assumes "ok c" "behind S k v (abs c)" "finite S" "k \<notin> S" "list_all (\<lambda>op. op_key op = k \<longrightarrow> is_get op) ops"
    and "card (S \<union> (op_key ` set ops - {k})) < limit c"
  shows "behind (S \<union> (op_key ` set ops - {k})) k v (abs (fold (cache_step get put remove) ops c)) \<and>
    ok (fold (cache_step get put remove) ops c)"
  using assms
proof (induction ops arbitrary: c S)
  case (Cons op ops)
  let ?S = "insert (op_key op) S - {k}"
  have U: "?S \<union> (op_key ` set ops - {k}) = S \<union> (op_key ` set (op # ops) - {k})" using Cons.prems(4) by auto
  have "card ?S \<le> card (S \<union> (op_key ` set (op # ops) - {k}))"
    using Cons.prems(3) by (intro card_mono) auto
  then have "behind ?S k v (abs (cache_step get put remove op c))"
    using Cons.prems by (intro step_behind) auto
  moreover have "card (?S \<union> (op_key ` set ops - {k})) < limit (cache_step get put remove op c)"
    using Cons.prems(6) step_spec[OF Cons.prems(1), of op] unfolding U by simp
  ultimately show ?case
    using Cons.IH[of "cache_step get put remove op c" ?S] Cons.prems(3,5) step_spec[OF Cons.prems(1), of op]
    unfolding U by simp
qed simp

lemma keeps_recent:
  assumes "ok c" "list_all (\<lambda>op. op_key op = k \<longrightarrow> is_get op) ops" "card (op_key ` set ops - {k}) < limit c"
  shows "fst (get k (fold (cache_step get put remove) ops (put k v c))) = Some v"
proof -
  let ?c = "put k v c"
  have p: "ok ?c" "limit ?c = limit c" "abs ?c = cached (limit c) k v (abs c)" using put_spec[OF assms(1)] by simp_all
  have "0 < limit c" using assms(3) by simp
  then have "behind {} k v (abs ?c)"
    unfolding p(3) by (cases "limit c") (auto simp: behind_def cached_def)
  with p assms(2,3) have "behind (op_key ` set ops - {k}) k v (abs (fold (cache_step get put remove) ops ?c)) \<and>
      ok (fold (cache_step get put remove) ops ?c)"
    using run_behind[of ?c "{}" k v ops] by simp
  then show ?thesis using get_spec behind_lookup by fastforce
qed

end

interpretation kept: recency_cache lru_ok lru_entries lruMax lruGet lruPut lruRemove
proof unfold_locales
  fix c :: "'a lru" and k v
  assume c: "lru_ok c"
  show "distinct (map fst (lru_entries c)) \<and> length (lru_entries c) \<le> lruMax c"
    using lru_okD(2,5)[OF c] by (simp add: lru_entries_def)
  show "lru_ok (snd (lruGet k c)) \<and> lruMax (snd (lruGet k c)) = lruMax c \<and>
      fst (lruGet k c) = map_of (lru_entries c) k \<and> lru_entries (snd (lruGet k c)) = toFront k (lru_entries c)"
    using get_refines[OF c] by simp
  show "lru_ok (lruPut k v c) \<and> lruMax (lruPut k v c) = lruMax c \<and> lru_entries (lruPut k v c) = cached (lruMax c) k v (lru_entries c)"
    using put_refines[OF c] by simp
  show "lru_ok (lruRemove k c) \<and> lruMax (lruRemove k c) = lruMax c \<and> lru_entries (lruRemove k c) = without k (lru_entries c)"
    using remove_refines[OF c] by simp
qed

section \<open>Refinement\<close>

text \<open>The cache as a specification: a list of entries bounded in length, the key touched last in front.\<close>

primrec recent_step :: "nat \<Rightarrow> 'v cache_op \<Rightarrow> (string \<times> 'v) list \<Rightarrow> (string \<times> 'v) list" where
  "recent_step n (CGet k) es = toFront k es"
| "recent_step n (CPut k v) es = cached n k v es"
| "recent_step n (CRemove k) es = without k es"

abbreviation lru_step :: "'v cache_op \<Rightarrow> 'v lru \<Rightarrow> 'v lru" where
  "lru_step \<equiv> cache_step lruGet lruPut lruRemove"

lemma lru_step_refines:
  "lru_ok c \<Longrightarrow> lru_ok (lru_step op c) \<and> lruMax (lru_step op c) = lruMax c \<and>
   lru_entries (lru_step op c) = recent_step (lruMax c) op (lru_entries c)"
  using kept.get_spec[of c] kept.put_spec[of c] kept.remove_spec[of c] by (cases op) (simp_all add: cache_step_def)

lemma lru_run_refines:
  "lru_ok c \<Longrightarrow> lru_ok (fold lru_step ops c) \<and> lruMax (fold lru_step ops c) = lruMax c \<and>
   lru_entries (fold lru_step ops c) = fold (recent_step (lruMax c)) ops (lru_entries c)"
proof (induction ops arbitrary: c)
  case (Cons op ops)
  from Cons.IH[of "lru_step op c"] lru_step_refines[OF Cons.prems, of op] show ?case by simp
qed simp

text \<open>
  C7: the map and the linked list of the cache together behave as one list of entries. After any reads,
  writes and removals of a new cache, a read or a peek answers what the list of entries says, whose
  front is the key touched last, and there are never more entries than the bound.
\<close>

theorem lru_refines:
  fixes ops :: "'v cache_op list" and n :: nat and k :: string
  defines "c \<equiv> fold lru_step ops (newLRU n)" and "es \<equiv> fold (recent_step n) ops []"
  shows "lru_entries c = es \<and> fst (lruGet k c) = map_of es k \<and> lruPeek k c = map_of es k \<and>
    length es \<le> n \<and> distinct (map fst es) \<and> lru_ok c"
proof -
  have r: "lru_ok c" "lruMax c = n" "lru_entries c = es"
    using lru_run_refines[of "newLRU n" ops] by (simp_all add: c_def es_def)
  then show ?thesis
    using get_refines(1)[OF r(1), of k] peek_refines[OF r(1), of k] kept.ok_abs[OF r(1)] r by simp
qed

end
