(* ===== verification/Forgejo_Jobs.thy ===== *)
theory Forgejo_Jobs
  imports Check_Runs Lru
begin

text \<open>
  The jobs of a Forgejo Actions run: reading them page by page (\<open>client.go\<close>), keeping the list of a
  finished run (\<open>run_jobs.go\<close>, \<open>finished_jobs.go\<close>) and the log excerpt of a failed job
  (\<open>job_log.go\<close>). A forge's answers are parameters; the number of lists asked for is counted.
\<close>

section \<open>States\<close>

definition checkStateFromWorkflowStatus :: "string \<Rightarrow> check_state" where
  "checkStateFromWorkflowStatus status =
     (if status = ''success'' then CheckSuccess
      else if status = ''failure'' then CheckFailure
      else if status = ''cancelled'' then CheckCancelled
      else if status = ''skipped'' then CheckSkipped
      else if status = ''running'' then CheckRunning else CheckQueued)"

definition reportedConclusion :: "string \<Rightarrow> string" where
  "reportedConclusion status =
     (if status \<in> {''success'', ''failure'', ''cancelled'', ''skipped''} then status else '''')"

definition isPassing :: "string \<Rightarrow> bool" where
  "isPassing status \<longleftrightarrow> (case checkStateFromWorkflowStatus status of
     CheckSuccess \<Rightarrow> True | CheckSkipped \<Rightarrow> True | _ \<Rightarrow> False)"

definition isFinished :: "string \<Rightarrow> bool" where
  "isFinished status \<longleftrightarrow> (case checkStateFromWorkflowStatus status of
     CheckSuccess \<Rightarrow> True | CheckFailure \<Rightarrow> True | CheckCancelled \<Rightarrow> True | CheckSkipped \<Rightarrow> True | _ \<Rightarrow> False)"

record forgejo_job =
  fjID :: int
  fjName :: string
  fjStatus :: string
  fjHTMLURL :: string
  fjRunAttempt :: int
  fjStartedAt :: time
  fjCompletedAt :: time

text \<open>The status a run's jobs leave it in and the last completion, if none of them is still going.\<close>

fun outcomeLoop :: "bool \<Rightarrow> bool \<Rightarrow> time \<Rightarrow> forgejo_job list \<Rightarrow> string \<times> time \<times> bool" where
  "outcomeLoop failed cancelled stopped [] =
     (if failed then ''failure'' else if cancelled then ''cancelled'' else ''success'', stopped, True)"
| "outcomeLoop failed cancelled stopped (j # js) =
     (let stopped' = (if fjCompletedAt j > stopped then fjCompletedAt j else stopped) in
      case checkStateFromWorkflowStatus (fjStatus j) of
        CheckRunning \<Rightarrow> ('''', zero_time, False)
      | CheckQueued \<Rightarrow> ('''', zero_time, False)
      | CheckFailure \<Rightarrow> outcomeLoop True cancelled stopped' js
      | CheckCancelled \<Rightarrow> outcomeLoop failed True stopped' js
      | _ \<Rightarrow> outcomeLoop failed cancelled stopped' js)"

definition jobsOutcome :: "forgejo_job list \<Rightarrow> string \<times> time \<times> bool" where
  "jobsOutcome jobs = outcomeLoop False False zero_time jobs"

section \<open>Reading the jobs of a run\<close>

definition pageLimit :: int where "pageLimit = 50"
definition maxJobPages :: nat where "maxJobPages = 20"

fun appendFresh :: "forgejo_job list \<Rightarrow> int list \<Rightarrow> forgejo_job list \<Rightarrow> forgejo_job list \<times> int list \<times> nat" where
  "appendFresh all seen [] = (all, seen, 0)"
| "appendFresh all seen (j # jobs) =
     (if fjID j = 0 \<or> \<not> List.member seen (fjID j)
      then (let (a, s, n) = appendFresh (all @ [j]) (fjID j # seen) jobs in (a, s, Suc n))
      else appendFresh all seen jobs)"

text \<open>One page of the jobs, and the total the forge says there are, 0 where it does not say.\<close>

type_synonym job_pages = "nat \<Rightarrow> go_error + forgejo_job list \<times> int"

fun walkPages :: "job_pages \<Rightarrow> forgejo_job list \<Rightarrow> int list \<Rightarrow> nat list \<Rightarrow> go_error + forgejo_job list \<times> bool" where
  "walkPages ask all seen [] = Inr (all, False)"
| "walkPages ask all seen (page # pages) = (case ask page of
     Inl e \<Rightarrow> Inl e
   | Inr (jobs, reported) \<Rightarrow>
       (let (all', seen', fresh) = appendFresh all seen jobs in
        if fresh = 0 then Inr (all', jobs = [] \<or> (reported > 0 \<and> int (length all') \<ge> reported))
        else if (reported > 0 \<and> int (length all') \<ge> reported) \<or> (reported = 0 \<and> int (length jobs) < pageLimit)
        then Inr (all', True)
        else walkPages ask all' seen' pages))"

definition walkActionRunJobs :: "job_pages \<Rightarrow> go_error + forgejo_job list \<times> bool" where
  "walkActionRunJobs ask = walkPages ask [] [] [1..<Suc maxJobPages]"

definition tooManyJobs :: "int \<Rightarrow> go_error" where
  "tooManyJobs runID = \<lparr>errText = ''forgejo: too many jobs to read: run '' @ itoa runID @ '' has more jobs than are read'',
     errClient = None\<rparr>"

definition listWholeRunJobs :: "int \<Rightarrow> job_pages \<Rightarrow> go_error + forgejo_job list" where
  "listWholeRunJobs runID ask = (case walkActionRunJobs ask of
     Inl e \<Rightarrow> Inl e
   | Inr (jobs, whole) \<Rightarrow> if whole then Inr jobs else Inl (tooManyJobs runID))"

section \<open>Keeping the jobs of a finished run\<close>

definition jobsCatchUp :: duration where "jobsCatchUp = 5 * minute"
definition maxFinishedJobs :: nat where "maxFinishedJobs = 2000"

record finished_jobs =
  fiJobs :: "forgejo_job list lru"
  fiReads :: nat                  \<comment> \<open>lists asked of the forge\<close>

text \<open>How times are written in the key is \<open>Time.Format\<close>'s, an argument here.\<close>

definition jobsKey :: "(time \<Rightarrow> string) \<Rightarrow> string \<Rightarrow> string \<Rightarrow> int \<Rightarrow> time \<Rightarrow> time \<Rightarrow> int \<Rightarrow> string" where
  "jobsKey rfc owner name runID started stopped page =
     (let key = owner @ ''/'' @ name @ ''/'' @ itoa runID @ ''/'' @ rfc started @ ''/'' @ rfc stopped
      in if page > 0 then key @ ''/page/'' @ itoa page else key)"

definition readJobs :: "(go_error + forgejo_job list \<times> bool) \<Rightarrow> finished_jobs \<Rightarrow>
    (go_error + forgejo_job list \<times> bool) \<times> finished_jobs" where
  "readJobs answer c = (answer, c\<lparr>fiReads := Suc (fiReads c)\<rparr>)"

definition keepJobs :: "time \<Rightarrow> string \<Rightarrow> string \<Rightarrow> time \<Rightarrow> (go_error + forgejo_job list \<times> bool) \<Rightarrow> finished_jobs \<Rightarrow>
    (go_error + forgejo_job list \<times> bool) \<times> finished_jobs" where
  "keepJobs now status key stopped answer c =
     (if stopped = zero_time \<or> \<not> isFinished status then readJobs answer c
      else (let (hit, jobs') = lruGet key (fiJobs c); c1 = c\<lparr>fiJobs := jobs'\<rparr> in
        case hit of Some jobs \<Rightarrow> (Inr (jobs, True), c1)
        | None \<Rightarrow> (case readJobs answer c1 of
            (Inl e, c2) \<Rightarrow> (Inl e, c2)
          | (Inr (jobs, whole), c2) \<Rightarrow>
              (let settled = time_sub now stopped > jobsCatchUp;
                   over = snd (snd (jobsOutcome jobs));
                   final = whole \<and> (over \<or> (\<not> isPassing status \<and> settled))
               in (Inr (jobs, whole),
                   if final \<and> (jobs \<noteq> [] \<or> settled) then c2\<lparr>fiJobs := lruPut key jobs (fiJobs c2)\<rparr> else c2)))))"

definition readWholeRunJobs :: "(time \<Rightarrow> string) \<Rightarrow> time \<Rightarrow> string \<Rightarrow> string \<Rightarrow> int \<Rightarrow> string \<Rightarrow> time \<Rightarrow> time \<Rightarrow>
    job_pages \<Rightarrow> finished_jobs \<Rightarrow> (go_error + forgejo_job list \<times> bool) \<times> finished_jobs" where
  "readWholeRunJobs rfc now owner name runID status started stopped ask c =
     keepJobs now status (jobsKey rfc owner name runID started stopped 0) stopped (walkActionRunJobs ask) c"

section \<open>The log excerpt of a failed job\<close>

definition failedExcerptDelay :: duration where "failedExcerptDelay = minute"
definition emptyExcerptDelay :: duration where "emptyExcerptDelay = 10 * second"
definition excerptSettleDelay :: duration where "excerptSettleDelay = 30 * second"
definition maxExcerpts :: nat where "maxExcerpts = 500"

record kept_excerpt =
  keText :: string
  keUntil :: time

record excerpt_key =
  exKey :: string
  exFinished :: time

record excerpt_cache =
  ecText :: "kept_excerpt lru"
  ecFailed :: "time lru"
  ecKeys :: "excerpt_key lru"

definition newExcerptCache :: "nat \<Rightarrow> excerpt_cache" where
  "newExcerptCache limit = \<lparr>ecText = newLRU limit, ecFailed = newLRU limit, ecKeys = newLRU limit\<rparr>"

definition excerptGet :: "time \<Rightarrow> string \<Rightarrow> excerpt_cache \<Rightarrow> string option \<times> excerpt_cache" where
  "excerptGet now key e = (let (hit, text') = lruGet key (ecText e) in
     case hit of None \<Rightarrow> (None, e\<lparr>ecText := text'\<rparr>)
     | Some kept \<Rightarrow>
         if keUntil kept \<noteq> zero_time \<and> \<not> now < keUntil kept then (None, e\<lparr>ecText := lruRemove key text'\<rparr>)
         else (Some (keText kept), e\<lparr>ecText := text'\<rparr>))"

definition excerptPut :: "time \<Rightarrow> string \<Rightarrow> string \<Rightarrow> bool \<Rightarrow> excerpt_cache \<Rightarrow> excerpt_cache" where
  "excerptPut now key text final e =
     e\<lparr>ecText := lruPut key \<lparr>keText = text, keUntil = (if final then zero_time else now + failedExcerptDelay)\<rparr> (ecText e)\<rparr>"

definition excerptFail :: "time \<Rightarrow> string \<Rightarrow> duration \<Rightarrow> excerpt_cache \<Rightarrow> excerpt_cache" where
  "excerptFail now key wait e = e\<lparr>ecFailed := lruPut key (now + wait) (ecFailed e)\<rparr>"

definition recentlyFailed :: "time \<Rightarrow> string \<Rightarrow> excerpt_cache \<Rightarrow> bool \<times> excerpt_cache" where
  "recentlyFailed now key e = (case lruPeek key (ecFailed e) of
     None \<Rightarrow> (False, e)
   | Some until \<Rightarrow> if \<not> now < until then (False, e\<lparr>ecFailed := lruRemove key (ecFailed e)\<rparr>) else (True, e))"

definition jobKeyName :: "string \<Rightarrow> string \<Rightarrow> int \<Rightarrow> string" where
  "jobKeyName owner name i = owner @ ''/'' @ name @ ''#'' @ itoa i"

definition excerptRemember :: "string \<Rightarrow> string \<Rightarrow> int \<Rightarrow> excerpt_key \<Rightarrow> excerpt_cache \<Rightarrow> excerpt_cache" where
  "excerptRemember owner name i k e = e\<lparr>ecKeys := lruPut (jobKeyName owner name i) k (ecKeys e)\<rparr>"

definition keyFor :: "string \<Rightarrow> string \<Rightarrow> int \<Rightarrow> excerpt_cache \<Rightarrow> excerpt_key \<times> excerpt_cache" where
  "keyFor owner name i e = (let (hit, keys') = lruGet (jobKeyName owner name i) (ecKeys e); e' = e\<lparr>ecKeys := keys'\<rparr> in
     case hit of Some k \<Rightarrow> (k, e') | None \<Rightarrow> (\<lparr>exKey = jobKeyName owner name i, exFinished = zero_time\<rparr>, e'))"

definition newExcerptKey :: "string \<Rightarrow> string \<Rightarrow> forgejo_job \<Rightarrow> excerpt_key" where
  "newExcerptKey owner name j =
     (let key = owner @ ''/'' @ name @ ''#'' @ itoa (fjID j);
          key = (if fjRunAttempt j \<noteq> 0 then key @ ''.'' @ itoa (fjRunAttempt j) else key);
          key = (if fjStartedAt j \<noteq> zero_time then key @ ''+'' @ itoa (fjStartedAt j) else key);
          key = (if fjCompletedAt j \<noteq> zero_time then key @ ''@'' @ itoa (fjCompletedAt j) else key)
      in \<lparr>exKey = key, exFinished = fjCompletedAt j\<rparr>)"

definition excerptSettled :: "time \<Rightarrow> excerpt_key \<Rightarrow> bool" where
  "excerptSettled now k \<longleftrightarrow> exFinished k \<noteq> zero_time \<and> time_sub now (exFinished k) \<ge> excerptSettleDelay"

definition newestFailures :: "check list \<Rightarrow> check list" where
  "newestFailures checks = filter (\<lambda>c. ckJobID c \<noteq> 0 \<and> (ckState c = CheckFailure \<or> ckState c = CheckTimedOut)) checks"

definition rememberFailedJobs :: "string \<Rightarrow> string \<Rightarrow> check list \<Rightarrow> (int \<rightharpoonup> excerpt_key) \<Rightarrow> excerpt_cache \<Rightarrow> excerpt_cache" where
  "rememberFailedJobs owner name checks jobs e = fold (\<lambda>c e. case jobs (ckJobID c) of
     None \<Rightarrow> e | Some k \<Rightarrow> excerptRemember owner name (ckJobID c) k e) (newestFailures checks) e"

text \<open>A failed read, and whether its caller had left (\<open>context.Canceled\<close>).\<close>

record read_failure =
  rfError :: go_error
  rfCanceled :: bool

definition excerpt_not_found :: "go_error \<Rightarrow> bool" where
  "excerpt_not_found e \<longleftrightarrow> (case errClient e of None \<Rightarrow> False | Some c \<Rightarrow> ceKind c = ForgeErrorNotFound)"

definition JobExcerpt :: "time \<Rightarrow> string \<Rightarrow> string \<Rightarrow> int \<Rightarrow> (read_failure + string) \<Rightarrow> excerpt_cache \<Rightarrow>
    (go_error + string) \<times> excerpt_cache \<times> bool" where
  "JobExcerpt now owner name i answer e =
     (let (jk, e1) = keyFor owner name i e; (hit, e2) = excerptGet now (exKey jk) e1 in
      case hit of Some text \<Rightarrow> (Inr text, e2, False)
      | None \<Rightarrow> (let (failed, e3) = recentlyFailed now (exKey jk) e2 in
          if failed then (Inr '''', e3, False)
          else (case answer of
              Inl f \<Rightarrow> (let e4 = (if rfCanceled f then e3 else excerptFail now (exKey jk) failedExcerptDelay e3)
                 in (if excerpt_not_found (rfError f) then Inr '''' else Inl (rfError f), e4, True))
            | Inr text \<Rightarrow>
                if text = '''' then (Inr '''', excerptFail now (exKey jk) emptyExcerptDelay e3, True)
                else (Inr text, excerptPut now (exKey jk) text (excerptSettled now jk) e3, True))))"

section \<open>A list is whole when it says so\<close>

text \<open>
  A forge that pages its list of jobs: it cuts it into pages of one size, and either says how many jobs
  there are or fills its pages to the size asked for.
\<close>

definition honest_pages :: "forgejo_job list \<Rightarrow> nat \<Rightarrow> job_pages \<Rightarrow> bool" where
  "honest_pages ts per ask \<longleftrightarrow> 0 < per \<and> distinct (map fjID ts) \<and> 0 \<notin> fjID ` set ts \<and>
     (\<exists>says. (says = int (length ts) \<or> says = 0 \<and> int per = pageLimit) \<and>
       (\<forall>n. ask (Suc n) = Inr (take per (drop (n * per) ts), says)))"

lemma appendFresh_new:
  "distinct (map fjID jobs) \<Longrightarrow> fjID ` set jobs \<inter> set seen = {} \<Longrightarrow>
   \<exists>seen'. appendFresh all seen jobs = (all @ jobs, seen', length jobs) \<and> set seen' = set seen \<union> fjID ` set jobs"
proof (induction jobs arbitrary: all seen)
  case (Cons j jobs)
  then have "fjID ` set jobs \<inter> set (fjID j # seen) = {}" by auto
  with Cons.IH[of "fjID j # seen" "all @ [j]"] Cons.prems show ?case by auto
qed simp

lemma walk_step:
  assumes "honest_pages ts per ask" "says = int (length ts) \<or> says = 0 \<and> int per = pageLimit"
    and "ask (Suc n) = Inr (take per (drop (n * per) ts), says)"
    and "set seen = fjID ` set (take (n * per) ts)"
  shows "\<exists>seen'. set seen' = fjID ` set (take (Suc n * per) ts) \<and>
    walkPages ask (take (n * per) ts) seen (Suc n # pages) =
      (if length ts \<le> n * per then Inr (ts, True)
       else if length ts \<le> Suc n * per \<and> (says > 0 \<or> length ts < Suc n * per) then Inr (ts, True)
       else walkPages ask (take (Suc n * per) ts) seen' pages)"
proof -
  let ?p = "take per (drop (n * per) ts)"
  have d: "distinct (map fjID ts)" "0 < per" using assms(1) by (auto simp: honest_pages_def)
  have cat: "take (n * per) ts @ ?p = take (Suc n * per) ts" by (metis add.commute mult_Suc take_add)
  have "distinct (map fjID (take (n * per) ts @ ?p))" using d(1) unfolding cat by (simp add: take_map [symmetric])
  then have new: "distinct (map fjID ?p)" "fjID ` set ?p \<inter> set seen = {}" using assms(4) by (auto simp: image_iff)
  obtain seen' where a: "appendFresh (take (n * per) ts) seen ?p = (take (Suc n * per) ts, seen', length ?p)"
    "set seen' = fjID ` set (take (Suc n * per) ts)"
    using appendFresh_new[OF new, of "take (n * per) ts"] assms(4) cat by (auto simp flip: set_append image_Un)
  have len: "length ?p = min per (length ts - n * per)" by simp
  have says: "says > 0 \<Longrightarrow> says = int (length ts)" using assms(2) by auto
  have fin: "(says > 0 \<and> int (length (take (Suc n * per) ts)) \<ge> says) \<or> (says = 0 \<and> int (length ?p) < pageLimit) \<longleftrightarrow>
      length ts \<le> Suc n * per \<and> (says > 0 \<or> length ts < Suc n * per)" if "\<not> length ts \<le> n * per"
    using that assms(2) says len d(2) by (auto simp: pageLimit_def)
  show ?thesis
    using a assms(3) fin len d(2)
    by (intro exI[of _ seen']) (auto simp: Let_def)
qed

lemma walk_from:
  assumes "honest_pages ts per ask" "set seen = fjID ` set (take (n * per) ts)" "n + k = 20" "n * per \<le> length ts"
  shows "walkPages ask (take (n * per) ts) seen [Suc n..<Suc 20] = Inr (take (20 * per) ts, length ts < 20 * per) \<or>
    (length ts = 20 * per \<and> (\<exists>w. walkPages ask (take (n * per) ts) seen [Suc n..<Suc 20] = Inr (ts, w)))"
  using assms
proof (induction k arbitrary: n seen)
  case 0
  then have n: "n = 20" by simp
  then show ?case using 0 by auto
next
  case (Suc k)
  from Suc.prems(1) obtain says where s: "says = int (length ts) \<or> says = 0 \<and> int per = pageLimit"
    "ask (Suc n) = Inr (take per (drop (n * per) ts), says)" and p: "0 < per"
    by (auto simp: honest_pages_def)
  from Suc.prems(3) have n: "n < 20" and c: "[Suc n..<Suc 20] = Suc n # [Suc (Suc n)..<Suc 20]"
    by (simp_all add: upt_conv_Cons)
  from walk_step[OF Suc.prems(1) s Suc.prems(2), of "[Suc (Suc n)..<Suc 20]"]
  obtain seen' where w: "set seen' = fjID ` set (take (Suc n * per) ts)"
    "walkPages ask (take (n * per) ts) seen [Suc n..<Suc 20] =
      (if length ts \<le> n * per then Inr (ts, True)
       else if length ts \<le> Suc n * per \<and> (says > 0 \<or> length ts < Suc n * per) then Inr (ts, True)
       else walkPages ask (take (Suc n * per) ts) seen' [Suc (Suc n)..<Suc 20])"
    unfolding c by blast
  have up: "Suc n * per \<le> 20 * per" using n by (intro mult_right_mono) auto
  have un: "n * per < 20 * per" using n p by simp
  show ?case
  proof (cases "length ts \<le> n * per \<or> (length ts \<le> Suc n * per \<and> (says > 0 \<or> length ts < Suc n * per))")
    case True
    then have r: "walkPages ask (take (n * per) ts) seen [Suc n..<Suc 20] = Inr (ts, True)" using w(2) by auto
    show ?thesis
    proof (cases "length ts = 20 * per")
      case False
      moreover have "length ts \<le> 20 * per"
        using True less_imp_le[OF un] up by (elim disjE conjE) (erule (1) order_trans)+
      ultimately have "length ts < 20 * per" by simp
      then show ?thesis using r by simp
    qed (use r in auto)
  next
    case False
    then have "walkPages ask (take (n * per) ts) seen [Suc n..<Suc 20] =
        walkPages ask (take (Suc n * per) ts) seen' [Suc (Suc n)..<Suc 20]" using w(2) by auto
    moreover have "Suc n * per \<le> length ts" using False by auto
    ultimately show ?thesis using Suc.IH[OF Suc.prems(1) w(1)] Suc.prems(3) by simp
  qed
qed

text \<open>
  A list of jobs called whole has every job. From a forge that pages honestly, whatever its page
  size and whether or not it tells the total, the walk returns the jobs in order; it calls the list whole
  when there are fewer than twenty pages of them, never when there are more, and then holds the first
  twenty pages.
\<close>

theorem whole_list_is_whole:
  assumes "honest_pages ts per ask" "walkActionRunJobs ask = result"
  shows "(length ts < 20 * per \<longrightarrow> result = Inr (ts, True)) \<and>
    (length ts > 20 * per \<longrightarrow> result = Inr (take (20 * per) ts, False)) \<and>
    (\<forall>jobs. result = Inr (jobs, True) \<longrightarrow> jobs = ts)"
proof -
  have "walkActionRunJobs ask = walkPages ask (take (0 * per) ts) [] [Suc 0..<Suc 20]"
    by (simp add: walkActionRunJobs_def maxJobPages_def)
  with walk_from[OF assms(1), of "[]" 0 20] assms(2)
  have "result = Inr (take (20 * per) ts, length ts < 20 * per) \<or> (length ts = 20 * per \<and> (\<exists>w. result = Inr (ts, w)))"
    by (simp del: upt_Suc)
  then show ?thesis by auto
qed

definition one_job :: "int \<Rightarrow> string \<Rightarrow> forgejo_job" where
  "one_job i status = \<lparr>fjID = i, fjName = ''test'', fjStatus = status, fjHTMLURL = '''', fjRunAttempt = 1,
     fjStartedAt = 0, fjCompletedAt = 0\<rparr>"

text \<open>Three jobs from a forge that caps its pages at two.\<close>

definition capped_pages :: job_pages where
  "capped_pages n = Inr (take 2 (drop ((n - 1) * 2) (map (\<lambda>i. one_job i ''success'') [1, 2, 3])), 3)"

lemma whole_list_is_whole_witness:
  "walkActionRunJobs capped_pages = Inr (map (\<lambda>i. one_job i ''success'') [1, 2, 3], True)"
proof -
  have h: "honest_pages (map (\<lambda>i. one_job i ''success'') [1, 2, 3]) 2 capped_pages"
    by (auto simp: honest_pages_def capped_pages_def one_job_def)
  show ?thesis
    by (rule mp[OF conjunct1[OF whole_list_is_whole[OF h refl]]]) simp
qed

section \<open>A finished run is read once\<close>

text \<open>A poll of one run's jobs: when, its key, status and stop, and what the forge would answer.\<close>

type_synonym job_poll = "time \<times> string \<times> string \<times> time \<times> (go_error + forgejo_job list \<times> bool)"

definition poll_jobs :: "job_poll \<Rightarrow> finished_jobs \<Rightarrow> finished_jobs" where
  "poll_jobs p c = (case p of (now, status, key, stopped, answer) \<Rightarrow> snd (keepJobs now status key stopped answer c))"

definition poll_key :: "job_poll \<Rightarrow> string" where
  "poll_key p = fst (snd (snd p))"

lemma keepJobs_ops:
  "\<exists>ops. fiJobs (snd (keepJobs now status key stopped answer c)) = fold lru_step ops (fiJobs c) \<and> op_key ` set ops \<subseteq> {key}"
proof (cases "stopped = zero_time \<or> \<not> isFinished status")
  case True
  then show ?thesis by (intro exI[of _ "[]"]) (auto simp: keepJobs_def readJobs_def)
next
  case False
  obtain hit jobs' where g: "lruGet key (fiJobs c) = (hit, jobs')" by (cases "lruGet key (fiJobs c)")
  let ?get = "fold lru_step [CGet key] (fiJobs c)"
  show ?thesis
  proof (cases "fiJobs (snd (keepJobs now status key stopped answer c)) = jobs'")
    case True
    then show ?thesis using g by (intro exI[of _ "[CGet key]"]) (simp add: cache_step_def)
  next
    case changed: False
    then obtain jobs where "fiJobs (snd (keepJobs now status key stopped answer c)) = lruPut key jobs jobs'"
      using False g by (auto simp: keepJobs_def readJobs_def Let_def split: option.splits sum.splits prod.splits if_splits)
    then show ?thesis using g by (intro exI[of _ "[CGet key, CPut key jobs]"]) (simp add: cache_step_def)
  qed
qed

lemma polls_ops:
  "\<exists>ops. fiJobs (fold poll_jobs polls c) = fold lru_step ops (fiJobs c) \<and> op_key ` set ops \<subseteq> poll_key ` set polls"
proof (induction polls arbitrary: c)
  case Nil
  show ?case by (intro exI[of _ "[]"]) simp
next
  case (Cons p polls)
  obtain now status key stopped answer where p: "p = (now, status, key, stopped, answer)" by (cases p) auto
  obtain ops where ops: "fiJobs (poll_jobs p c) = fold lru_step ops (fiJobs c)" "op_key ` set ops \<subseteq> {poll_key p}"
    using keepJobs_ops[of now status key stopped answer c] by (auto simp: poll_jobs_def poll_key_def p)
  obtain ops' where "fiJobs (fold poll_jobs polls (poll_jobs p c)) = fold lru_step ops' (fiJobs (poll_jobs p c))"
    "op_key ` set ops' \<subseteq> poll_key ` set polls"
    using Cons.IH by blast
  with ops show ?case by (intro exI[of _ "ops @ ops'"]) auto
qed

text \<open>
  A finished run's jobs are read from the forge once. When the poll of a finished run read its whole
  list with no job still going, then after polls of fewer other runs than the cache holds, the same run is
  answered with that list and the forge is not asked.
\<close>

theorem finished_run_read_once:
  assumes "lru_ok (fiJobs c)" "map_of (lru_entries (fiJobs c)) key = None" "isFinished status" "stopped \<noteq> zero_time"
    and "jobs \<noteq> []" "snd (snd (jobsOutcome jobs))"
    and "c1 = fold poll_jobs polls (poll_jobs (now, status, key, stopped, Inr (jobs, True)) c)"
    and "key \<notin> poll_key ` set polls" "card (poll_key ` set polls) < lruMax (fiJobs c)"
  shows "fst (keepJobs now' status key stopped answer c1) = Inr (jobs, True) \<and>
    fiReads (snd (keepJobs now' status key stopped answer c1)) = fiReads c1"
proof -
  obtain hit jobs' where g: "lruGet key (fiJobs c) = (hit, jobs')" by (cases "lruGet key (fiJobs c)")
  have miss: "hit = None" and ok: "lru_ok jobs'" "lruMax jobs' = lruMax (fiJobs c)"
    using get_refines[OF assms(1), of key] assms(2) g by simp_all
  have first: "fiJobs (poll_jobs (now, status, key, stopped, Inr (jobs, True)) c) = lruPut key jobs jobs'"
    using assms(3-6) g miss by (simp add: poll_jobs_def keepJobs_def readJobs_def Let_def)
  obtain ops where ops: "fiJobs c1 = fold lru_step ops (lruPut key jobs jobs')" "op_key ` set ops \<subseteq> poll_key ` set polls"
    using polls_ops[of polls "poll_jobs (now, status, key, stopped, Inr (jobs, True)) c"] first assms(7) by auto
  have "card (op_key ` set ops - {key}) \<le> card (poll_key ` set polls)" using ops(2) by (intro card_mono) auto
  moreover have "list_all (\<lambda>op. op_key op = key \<longrightarrow> is_get op) ops" using ops(2) assms(8) by (auto simp: list_all_iff)
  ultimately have "fst (lruGet key (fiJobs c1)) = Some jobs"
    unfolding ops(1) using ok assms(9) by (intro kept.keeps_recent) auto
  then show ?thesis using assms(3,4) by (auto simp: keepJobs_def Let_def split: prod.splits)
qed


definition unread_jobs :: finished_jobs where "unread_jobs = \<lparr>fiJobs = newLRU 2, fiReads = 0\<rparr>"

definition other_poll :: job_poll where
  "other_poll = (0, ''success'', ''other'', 0, Inr ([one_job 8 ''success''], True))"

lemma finished_run_read_once_witness:
  "fst (keepJobs 7 ''failure'' ''run'' 0 (Inl \<lparr>errText = ''down'', errClient = None\<rparr>)
     (fold poll_jobs [other_poll] (poll_jobs (5, ''failure'', ''run'', 0, Inr ([one_job 7 ''failure''], True)) unread_jobs))) =
   Inr ([one_job 7 ''failure''], True)"
proof (rule conjunct1[OF finished_run_read_once[OF _ _ _ _ _ _ refl]])
  show "lru_ok (fiJobs unread_jobs)" "map_of (lru_entries (fiJobs unread_jobs)) ''run'' = None"
    by (simp_all add: unread_jobs_def)
  show "isFinished ''failure''" by (simp add: isFinished_def checkStateFromWorkflowStatus_def)
  show "(0::time) \<noteq> zero_time" by (simp add: zero_time_def)
  show "snd (snd (jobsOutcome [one_job 7 ''failure'']))"
    by (simp add: jobsOutcome_def one_job_def checkStateFromWorkflowStatus_def)
  show "''run'' \<notin> poll_key ` set [other_poll]" "card (poll_key ` set [other_poll]) < lruMax (fiJobs unread_jobs)"
    by (simp_all add: other_poll_def poll_key_def unread_jobs_def)
qed simp

end
