(* ===== verification/Forgejo_Branch.thy ===== *)
theory Forgejo_Branch
  imports Forgejo_Jobs
begin

text \<open>
  A Forgejo default branch: the row made of the Actions runs of its newest commit
  (\<open>main_branch.go\<close>, \<open>main_branch_newest.go\<close>, parts of \<open>cancel_run.go\<close>) and the rerun of its failed
  jobs (\<open>rerun.go\<close>).
\<close>

section \<open>Runs\<close>

record branch_run =
  bnID :: int
  bnTitle :: string
  bnWorkflowID :: string
  bnNumber :: int
  bnRef :: string
  bnEvent :: string
  bnCommitSHA :: string
  bnStatus :: string
  bnStartedAt :: time
  bnStoppedAt :: time
  bnHTMLURL :: string
  bnTrigger :: "string option"

definition isPullRequestEvent :: "string \<Rightarrow> bool" where
  "isPullRequestEvent event \<longleftrightarrow> has_prefix event ''pull_request''"

text \<open>
  What \<open>branchRunsList\<close> keeps of the forge's list: the branch's own runs, newest id first, of the newest
  one's commit. Ids are distinct, so the code's unstable sort has one result.
\<close>

definition newestCommitRuns :: "string \<Rightarrow> branch_run list \<Rightarrow> branch_run list" where
  "newestCommitRuns branch list =
     (let runs = sort_key (\<lambda>r. - bnID r) (filter (\<lambda>r. bnRef r = branch \<and> \<not> isPullRequestEvent (bnEvent r)) list)
      in case runs of [] \<Rightarrow> [] | r # _ \<Rightarrow> filter (\<lambda>r'. bnCommitSHA r' = bnCommitSHA r) runs)"

text \<open>The forge's answer to a list of runs: the list, or an error and whether it is a 404.\<close>

type_synonym runs_answer = "(go_error \<times> bool) + branch_run list"

definition branchRunsList :: "string \<Rightarrow> bool \<Rightarrow> runs_answer \<Rightarrow> go_error + branch_run list" where
  "branchRunsList branch strict answer = (case answer of
     Inl (e, missing) \<Rightarrow> if \<not> strict \<and> missing then Inr [] else Inl e
   | Inr list \<Rightarrow> Inr (newestCommitRuns branch list))"

definition branchRunState :: "branch_run \<Rightarrow> check_state" where
  "branchRunState r = checkStateFromWorkflowStatus (bnStatus r)"

definition mainBranchStatus :: "branch_run list \<Rightarrow> main_branch_status" where
  "mainBranchStatus runs =
     (if list_ex (\<lambda>r. branchRunState r = CheckFailure) runs then MainBranchFailed
      else if list_ex (\<lambda>r. branchRunState r = CheckRunning \<or> branchRunState r = CheckQueued) runs then MainBranchRunning
      else if list_ex (\<lambda>r. branchRunState r = CheckCancelled) runs then MainBranchCancelled
      else MainBranchPassed)"

type_synonym run_jobs = "int \<rightharpoonup> forgejo_job list"

definition jobsOf :: "run_jobs \<Rightarrow> branch_run \<Rightarrow> forgejo_job list" where
  "jobsOf jobs r = (case jobs (bnID r) of None \<Rightarrow> [] | Some js \<Rightarrow> js)"

definition settleRun :: "run_jobs \<Rightarrow> int list \<Rightarrow> branch_run \<Rightarrow> branch_run" where
  "settleRun jobs cuts r =
     (let js = jobsOf jobs r in
      if js = [] \<or> List.member cuts (bnID r) \<or> branchRunState r \<noteq> CheckRunning then r
      else (let (status, stopped, over) = jobsOutcome js
            in if \<not> over then r else r\<lparr>bnStoppedAt := stopped, bnStatus := status\<rparr>))"

definition settledRuns :: "run_jobs \<Rightarrow> int list \<Rightarrow> branch_run list \<Rightarrow> branch_run list" where
  "settledRuns jobs cuts runs = map (settleRun jobs cuts) runs"

definition runName :: "branch_run \<Rightarrow> string" where
  "runName r = (let workflow = trim_suffix (trim_suffix (fst (cut_or (bnWorkflowID r) ''@'')) ''.yaml'') ''.yml''
     in if workflow \<noteq> '''' then workflow else bnTitle r)"

definition plain_check :: "string \<Rightarrow> check_state \<Rightarrow> string \<Rightarrow> string \<Rightarrow> check" where
  "plain_check name state url reported = \<lparr>ckName = name, ckStatus = '''', ckConclusion = '''', ckState = state,
     ckReportedConclusion = reported, ckURL = url, ckJobID = 0, ckRunID = 0, ckRunName = '''', ckRunNumber = 0,
     ckRequired = None, ckStartedAt = None, ckCompletedAt = None, ckRunAttempt = 0, ckRun = None,
     ckFailedStep = '''', ckExcerpt = ''''\<rparr>"

definition runAsCheck :: "branch_run \<Rightarrow> check" where
  "runAsCheck r = (let c = (plain_check '''' (CheckStateOther '''') '''' '''')\<lparr>ckRunName := runName r, ckRunNumber := bnNumber r\<rparr>
     in if branchRunState r = CheckCancelled
        then c\<lparr>ckRun := Some \<lparr>rfStatus = '''', rfConclusion = ''cancelled'', rfStartedAt = None, rfCompletedAt = None\<rparr>\<rparr>
        else c)"

definition newestBranchRuns :: "branch_run list \<Rightarrow> branch_run list" where
  "newestBranchRuns runs = map fst (filter (\<lambda>(r, gone). \<not> gone) (zip runs (SupersededRuns (map runAsCheck runs))))"

section \<open>Checks\<close>

definition set_time :: "time \<Rightarrow> time option" where
  "set_time t = (if t = zero_time then None else Some t)"

definition withRun :: "int \<Rightarrow> string \<Rightarrow> int \<Rightarrow> check \<Rightarrow> check" where
  "withRun runID name number c = c\<lparr>ckRunID := runID, ckRunName := name, ckRunNumber := number\<rparr>"

definition withRunFacts :: "string \<Rightarrow> time \<Rightarrow> time \<Rightarrow> check \<Rightarrow> check" where
  "withRunFacts status started stopped c =
     (if status = '''' then c
      else (let (s, r) = StatusFacts (checkStateFromWorkflowStatus status) (reportedConclusion status)
            in c\<lparr>ckRun := Some \<lparr>rfStatus = s, rfConclusion = r, rfStartedAt = set_time started,
                               rfCompletedAt = set_time stopped\<rparr>\<rparr>))"

definition withJobTimes :: "forgejo_job \<Rightarrow> check \<Rightarrow> check" where
  "withJobTimes j c =
     (let c1 = (if fjStartedAt j \<noteq> zero_time then c\<lparr>ckStartedAt := Some (fjStartedAt j)\<rparr> else c)
      in if fjCompletedAt j \<noteq> zero_time then c1\<lparr>ckCompletedAt := Some (fjCompletedAt j)\<rparr> else c1)"

definition branchJobState :: "branch_run \<Rightarrow> forgejo_job \<Rightarrow> check_state" where
  "branchJobState r j =
     (if fjStatus j = ''blocked'' \<and> branchRunState r = CheckFailure then CheckCancelled
      else checkStateFromWorkflowStatus (fjStatus j))"

definition jobCheck :: "branch_run \<Rightarrow> forgejo_job \<Rightarrow> check" where
  "jobCheck r j = withRunFacts (bnStatus r) (bnStartedAt r) (bnStoppedAt r)
     (withRun (bnID r) (runName r) (bnNumber r)
       (withJobTimes j ((plain_check (fjName j) (branchJobState r j) (fjHTMLURL j) (reportedConclusion (fjStatus j)))
          \<lparr>ckJobID := fjID j, ckRunAttempt := fjRunAttempt j\<rparr>)))"

definition runChecks :: "run_jobs \<Rightarrow> branch_run \<Rightarrow> check list" where
  "runChecks jobs r = (let js = jobsOf jobs r in
     if js \<noteq> [] then map (jobCheck r) js
     else [withRunFacts (bnStatus r) (bnStartedAt r) (bnStoppedAt r) (withRun (bnID r) (runName r) (bnNumber r)
            (plain_check (runName r) (branchRunState r) (bnHTMLURL r) (reportedConclusion (bnStatus r))))])"

definition branchChecks :: "branch_run list \<Rightarrow> run_jobs \<Rightarrow> check list" where
  "branchChecks runs jobs = concat (map (runChecks jobs) runs)"

definition tally :: "check_state \<Rightarrow> check_counts \<Rightarrow> check_counts" where
  "tally state out = (case state of
     CheckSuccess \<Rightarrow> out\<lparr>Passed := Passed out + 1\<rparr>
   | CheckSkipped \<Rightarrow> out\<lparr>Passed := Passed out + 1, Skipped := Skipped out + 1\<rparr>
   | CheckRunning \<Rightarrow> out\<lparr>Running := Running out + 1\<rparr>
   | CheckQueued \<Rightarrow> out\<lparr>Waiting := Waiting out + 1\<rparr>
   | CheckFailure \<Rightarrow> out\<lparr>Failed := Failed out + 1\<rparr>
   | _ \<Rightarrow> out)"

definition countChecks :: "check list \<Rightarrow> check_counts" where
  "countChecks checks = fold (\<lambda>c. tally (ckState c)) checks no_checks"

definition failedRuns :: "branch_run list \<Rightarrow> branch_run list" where
  "failedRuns runs = (let failed = filter (\<lambda>r. branchRunState r = CheckFailure) runs
     in if failed \<noteq> [] then failed else filter (\<lambda>r. branchRunState r = CheckCancelled) runs)"

definition failingOfRun :: "run_jobs \<Rightarrow> branch_run \<Rightarrow> string list" where
  "failingOfRun jobs r =
     (let failing = map fjName (filter (\<lambda>j. checkStateFromWorkflowStatus (fjStatus j) = branchRunState r) (jobsOf jobs r))
      in if failing = [] then [fst (cut_or (bnWorkflowID r) ''@'')] else failing)"

definition failingJobNames :: "branch_run list \<Rightarrow> run_jobs \<Rightarrow> string list" where
  "failingJobNames runs jobs = concat (map (failingOfRun jobs) runs)"

section \<open>The row\<close>

text \<open>A commit as the forge gives it: the message, and the author's login, name and parsed date.\<close>

record forge_commit =
  fcMessage :: string
  fcUserName :: string
  fcAuthorName :: string
  fcDate :: "time option"

definition branchCommit :: "forge_commit option \<Rightarrow> branch_run \<Rightarrow> main_branch_commit" where
  "branchCommit got run =
     (let author = (case bnTrigger run of None \<Rightarrow> '''' | Some l \<Rightarrow> l) in
      case got of None \<Rightarrow> \<lparr>mcSHA = ShortSHA (bnCommitSHA run), mcSubject = bnTitle run, mcAuthor = author, mcCommittedAt = None\<rparr>
      | Some g \<Rightarrow> \<lparr>mcSHA = ShortSHA (bnCommitSHA run), mcSubject = fst (cut_or (fcMessage g) [CHR 0x0A]),
          mcAuthor = (if fcUserName g \<noteq> '''' then fcUserName g
                      else if fcAuthorName g \<noteq> '''' then fcAuthorName g else author),
          mcCommittedAt = fcDate g\<rparr>)"

text \<open>The zero time, or at or before the Unix epoch in whole seconds.\<close>

definition unset :: "time \<Rightarrow> bool" where
  "unset t \<longleftrightarrow> t = zero_time \<or> t div second \<le> 0"

definition laterRun :: "branch_run \<Rightarrow> branch_run option \<Rightarrow> branch_run option" where
  "laterRun r best =
     (if \<not> unset (bnStoppedAt r) \<and> (case best of None \<Rightarrow> True | Some b \<Rightarrow> bnStoppedAt r > bnStoppedAt b)
      then Some r else best)"

definition runTimes :: "branch_run list \<Rightarrow> time option \<times> int option" where
  "runTimes runs = (case fold laterRun runs None of None \<Rightarrow> (None, None)
     | Some r \<Rightarrow> (Some (bnStoppedAt r), if unset (bnStartedAt r) then None
         else Some (max 0 (time_sub (bnStoppedAt r) (bnStartedAt r) div second))))"

record repo_ref =
  reFullName :: string
  reURL :: string
  reOwner :: string
  reName :: string
  reDefaultBranch :: string

text \<open>What the forge answers while one branch is read: its runs, each run's pages of jobs, and the commit.\<close>

record branch_world =
  bwRuns :: runs_answer
  bwJobs :: "int \<Rightarrow> job_pages"
  bwCommit :: "string \<Rightarrow> forge_commit option"
  bwNow :: time
  bwFormat :: "time \<Rightarrow> string"

definition readRun :: "branch_world \<Rightarrow> repo_ref \<Rightarrow> branch_run \<Rightarrow> run_jobs \<times> int list \<times> finished_jobs \<Rightarrow>
    run_jobs \<times> int list \<times> finished_jobs" where
  "readRun w repo r = (\<lambda>(out, cuts, c).
     case readWholeRunJobs (bwFormat w) (bwNow w) (reOwner repo) (reName repo) (bnID r) (bnStatus r)
            (bnStartedAt r) (bnStoppedAt r) (bwJobs w (bnID r)) c of
       (Inl _, c') \<Rightarrow> (out, cuts, c')
     | (Inr (jobs, whole), c') \<Rightarrow> (out(bnID r \<mapsto> jobs), if whole then cuts else bnID r # cuts, c'))"

definition runJobs :: "branch_world \<Rightarrow> repo_ref \<Rightarrow> branch_run list \<Rightarrow> finished_jobs \<Rightarrow>
    run_jobs \<times> int list \<times> finished_jobs" where
  "runJobs w repo runs c = fold (readRun w repo) runs (Map.empty, [], c)"

definition bareRow :: "repo_ref \<Rightarrow> main_branch" where
  "bareRow repo = \<lparr>mbForge = ForgeOther '''', mbFullName = '''', mbURL = '''', mbBranch = reDefaultBranch repo,
     mbStatus = MainBranchNone, mbCommit = None, mbFailingJobs = [], mbFinishedAt = None, mbDurationSeconds = None,
     mbRunURL = reURL repo, mbChecks = no_checks, mbRuns = [], mbLatestRelease = None, mbStaleSince = None\<rparr>"

definition rowOfRuns :: "branch_world \<Rightarrow> repo_ref \<Rightarrow> run_jobs \<Rightarrow> int list \<Rightarrow> branch_run list \<Rightarrow> main_branch" where
  "rowOfRuns w repo jobs cuts runs =
     (let status = mainBranchStatus runs; checks = branchChecks runs jobs; times = runTimes runs in
      (bareRow repo)\<lparr>mbStatus := status, mbChecks := countChecks checks,
        mbRuns := map (\<lambda>r. r\<lparr>mrJobsTruncated := List.member cuts (mrRunID r)\<rparr>) (MainBranchRuns checks),
        mbCommit := Some (branchCommit (bwCommit w (bnCommitSHA (hd runs))) (hd runs)),
        mbFailingJobs := (if status = MainBranchFailed then failingJobNames (failedRuns runs) jobs else []),
        mbRunURL := (if status = MainBranchFailed \<or> status = MainBranchCancelled then bnHTMLURL (hd (failedRuns runs))
                     else if bnHTMLURL (hd runs) \<noteq> '''' then bnHTMLURL (hd runs) else reURL repo),
        mbFinishedAt := (if status \<noteq> MainBranchRunning then fst times else None),
        mbDurationSeconds := (if status \<noteq> MainBranchRunning then snd times else None)\<rparr>)"

definition readBranchRuns :: "branch_world \<Rightarrow> repo_ref \<Rightarrow> finished_jobs \<Rightarrow> (go_error + main_branch) \<times> finished_jobs" where
  "readBranchRuns w repo c =
     (if reDefaultBranch repo = '''' then (Inr (bareRow repo), c)
      else (case branchRunsList (reDefaultBranch repo) False (bwRuns w) of
          Inl e \<Rightarrow> (Inl e, c)
        | Inr [] \<Rightarrow> (Inr (bareRow repo), c)
        | Inr runs \<Rightarrow> (let (jobs, cuts, c') = runJobs w repo runs c
            in (Inr (rowOfRuns w repo jobs cuts (newestBranchRuns (settledRuns jobs cuts runs))), c'))))"

text \<open>\<open>ListDefaultBranchChecks\<close> from the answer to the repository's own read on.\<close>

definition ListDefaultBranchChecks :: "branch_world \<Rightarrow> repo_ref \<Rightarrow> finished_jobs \<Rightarrow> (go_error + check list) \<times> finished_jobs" where
  "ListDefaultBranchChecks w repo c =
     (if reDefaultBranch repo = '''' then (Inr [], c)
      else (case branchRunsList (reDefaultBranch repo) False (bwRuns w) of
          Inl e \<Rightarrow> (Inl e, c)
        | Inr [] \<Rightarrow> (Inr [], c)
        | Inr runs \<Rightarrow> (let (jobs, cuts, c') = runJobs w repo runs c
            in (Inr (branchChecks (newestBranchRuns (settledRuns jobs cuts runs)) jobs), c'))))"

section \<open>What a row says of its runs\<close>

lemma countChecks_step: "countChecks (cs @ [c]) = tally (ckState c) (countChecks cs)"
  by (simp add: countChecks_def)

definition checks_in :: "check_state \<Rightarrow> check list \<Rightarrow> int" where
  "checks_in s cs = int (length (filter (\<lambda>c. ckState c = s) cs))"

text \<open>The counts are numbers of checks by state; a cancelled or unknown one is in none of them.\<close>

lemma countChecks_counts:
  "Passed (countChecks cs) = checks_in CheckSuccess cs + checks_in CheckSkipped cs \<and>
   Skipped (countChecks cs) = checks_in CheckSkipped cs \<and> Running (countChecks cs) = checks_in CheckRunning cs \<and>
   Waiting (countChecks cs) = checks_in CheckQueued cs \<and> Failed (countChecks cs) = checks_in CheckFailure cs"
proof (induction cs rule: rev_induct)
  case Nil
  show ?case by (simp add: countChecks_def checks_in_def no_checks_def)
next
  case (snoc c cs)
  then show ?case by (cases "ckState c") (simp_all add: countChecks_step checks_in_def tally_def)
qed

lemma checks_in_pos: "c \<in> set cs \<Longrightarrow> ckState c = s \<Longrightarrow> checks_in s cs > 0"
  by (auto simp: checks_in_def filter_empty_conv length_greater_0_conv)

lemma checks_in_ge: "checks_in s cs \<ge> 0"
  by (simp add: checks_in_def)

lemma newestBranchRuns_subset: "set (newestBranchRuns runs) \<subseteq> set runs"
  by (auto simp: newestBranchRuns_def dest: set_zip_leftD)

lemma ckState_jobCheck [simp]: "ckState (jobCheck r j) = branchJobState r j"
  by (simp add: jobCheck_def withRunFacts_def withRun_def withJobTimes_def plain_check_def Let_def split: prod.splits)

lemma ckState_withRunFacts [simp]: "ckState (withRunFacts s a b c) = ckState c"
  by (simp add: withRunFacts_def split: prod.splits)

lemma ckState_plain [simp]: "ckState (withRun i n k (plain_check a s u t)) = s"
  by (simp add: withRun_def plain_check_def)

lemma outcome_going:
  "\<not> snd (snd (outcomeLoop f c t js)) \<longleftrightarrow>
   (\<exists>j \<in> set js. checkStateFromWorkflowStatus (fjStatus j) = CheckRunning \<or> checkStateFromWorkflowStatus (fjStatus j) = CheckQueued)"
  by (induction f c t js rule: outcomeLoop.induct) (auto simp: Let_def split: check_state.splits)

lemma outcome_status: "snd (snd (outcomeLoop f c t js)) \<Longrightarrow>
    fst (outcomeLoop f c t js) \<in> {''failure'', ''cancelled'', ''success''}"
  by (induction f c t js rule: outcomeLoop.induct) (auto simp: Let_def split: check_state.splits)

text \<open>A settled run that still reads as running, whole list in hand, has a check that is going.\<close>

lemma running_run_going:
  assumes "r = settleRun jobs cuts r0" "branchRunState r = CheckRunning" "bnID r0 \<notin> set cuts"
  shows "\<exists>c \<in> set (runChecks jobs r). ckState c = CheckRunning \<or> ckState c = CheckQueued"
proof (cases "jobsOf jobs r0 = []")
  case True
  then have "r = r0" using assms(1) by (simp add: settleRun_def Let_def)
  then show ?thesis using True assms(2) by (simp add: runChecks_def Let_def)
next
  case False
  obtain st stop over where o: "jobsOutcome (jobsOf jobs r0) = (st, stop, over)" by (cases "jobsOutcome (jobsOf jobs r0)")
  have "\<not> over"
  proof
    assume over
    then have "st \<in> {''failure'', ''cancelled'', ''success''}"
      using outcome_status[of False False zero_time "jobsOf jobs r0"] o by (simp add: jobsOutcome_def)
    moreover have "branchRunState r0 \<noteq> CheckRunning \<longrightarrow> r = r0" using assms(1) by (simp add: settleRun_def Let_def)
    ultimately show False
      using assms o False \<open>over\<close>
      by (auto simp: settleRun_def branchRunState_def checkStateFromWorkflowStatus_def Let_def split: if_splits)
  qed
  then have r: "r = r0" using assms(1) o by (simp add: settleRun_def Let_def)
  obtain j where j: "j \<in> set (jobsOf jobs r0)"
    "checkStateFromWorkflowStatus (fjStatus j) = CheckRunning \<or> checkStateFromWorkflowStatus (fjStatus j) = CheckQueued"
    using outcome_going[of False False zero_time "jobsOf jobs r0"] o \<open>\<not> over\<close> by (auto simp: jobsOutcome_def)
  then have "jobCheck r j \<in> set (runChecks jobs r)" using r False by (simp add: runChecks_def Let_def)
  moreover have "ckState (jobCheck r j) = CheckRunning \<or> ckState (jobCheck r j) = CheckQueued"
    using j(2) assms(2) by (simp add: branchJobState_def)
  ultimately show ?thesis by blast
qed

lemma settle_id [simp]: "bnID (settleRun jobs cuts r) = bnID r"
  by (simp add: settleRun_def Let_def split: prod.splits)

lemma queued_stays: "branchRunState (settleRun jobs cuts r) = CheckQueued \<Longrightarrow> branchRunState r = CheckQueued"
proof (cases "settleRun jobs cuts r = r")
  case False
  assume q: "branchRunState (settleRun jobs cuts r) = CheckQueued"
  obtain st stop over where o: "jobsOutcome (jobsOf jobs r) = (st, stop, over)" by (cases "jobsOutcome (jobsOf jobs r)")
  with False have s: "settleRun jobs cuts r = r\<lparr>bnStoppedAt := stop, bnStatus := st\<rparr>" "over"
    by (auto simp: settleRun_def Let_def split: if_splits)
  then have "st \<in> {''failure'', ''cancelled'', ''success''}"
    using outcome_status[of False False zero_time "jobsOf jobs r"] o by (simp add: jobsOutcome_def)
  then show ?thesis using q s(1) by (auto simp: branchRunState_def checkStateFromWorkflowStatus_def)
qed simp

lemma newestCommitRuns_subset: "set (newestCommitRuns branch listed) \<subseteq> set listed"
proof -
  let ?runs = "sort_key (\<lambda>r. - bnID r) (filter (\<lambda>r. bnRef r = branch \<and> \<not> isPullRequestEvent (bnEvent r)) listed)"
  have "set ?runs \<subseteq> set listed" by auto
  moreover have "set (newestCommitRuns branch listed) \<subseteq> set ?runs"
    by (cases ?runs) (auto simp: newestCommitRuns_def)
  ultimately show ?thesis by blast
qed

lemma branchRunsList_runs:
  "branchRunsList branch strict (Inr listed) = Inr runs \<Longrightarrow> set runs \<subseteq> set listed"
  using newestCommitRuns_subset by (auto simp: branchRunsList_def)

lemma keepJobs_cut: "fst (keepJobs now status key stopped answer c) = Inr (js, False) \<Longrightarrow> answer = Inr (js, False)"
  by (auto simp: keepJobs_def readJobs_def Let_def split: if_splits prod.splits option.splits sum.splits)

lemma readRun_cuts:
  assumes "readRun w repo r (out, cuts, c) = (out', cuts', c')"
    and "\<And>js. walkActionRunJobs (bwJobs w (bnID r)) \<noteq> Inr (js, False)"
  shows "cuts' = cuts"
proof -
  let ?k = "readWholeRunJobs (bwFormat w) (bwNow w) (reOwner repo) (reName repo) (bnID r) (bnStatus r)
            (bnStartedAt r) (bnStoppedAt r) (bwJobs w (bnID r)) c"
  obtain res c1 where k: "?k = (res, c1)" by (cases ?k)
  have "res \<noteq> Inr (js, False)" for js
    using keepJobs_cut assms(2) k unfolding readWholeRunJobs_def by (metis fst_conv)
  then show ?thesis using assms(1) k by (auto simp: readRun_def split: sum.splits)
qed

lemma runJobs_cuts_gen:
  "\<forall>r \<in> set runs. \<forall>js. walkActionRunJobs (bwJobs w (bnID r)) \<noteq> Inr (js, False) \<Longrightarrow>
   fst (snd (fold (readRun w repo) runs s)) = fst (snd s)"
proof (induction runs arbitrary: s)
  case (Cons r runs)
  obtain out cuts c where s: "s = (out, cuts, c)" by (cases s) auto
  obtain out' cuts' c' where s': "readRun w repo r s = (out', cuts', c')" by (cases "readRun w repo r s") auto
  have "cuts' = cuts" using Cons.prems s' unfolding s by (intro readRun_cuts) auto
  then show ?case using Cons.IH[of "readRun w repo r s"] Cons.prems s s' by simp
qed simp

lemma runJobs_cuts:
  "runJobs w repo runs c = (jobs, cuts, c') \<Longrightarrow>
   \<forall>r \<in> set runs. \<forall>js. walkActionRunJobs (bwJobs w (bnID r)) \<noteq> Inr (js, False) \<Longrightarrow> cuts = []"
  using runJobs_cuts_gen[of runs w repo "(Map.empty, [], c)"] by (simp add: runJobs_def)

text \<open>How a row came about.\<close>

lemma readBranchRuns_row:
  assumes "readBranchRuns w repo c = (Inr row, c')" "mbStatus row \<noteq> MainBranchNone"
  obtains runs jobs cuts where "branchRunsList (reDefaultBranch repo) False (bwRuns w) = Inr runs" "runs \<noteq> []"
    "runJobs w repo runs c = (jobs, cuts, c')" "row = rowOfRuns w repo jobs cuts (newestBranchRuns (settledRuns jobs cuts runs))"
  using assms
  by (auto simp: readBranchRuns_def bareRow_def Let_def split: if_splits sum.splits list.splits prod.splits)

lemma row_fields:
  "mbStatus (rowOfRuns w repo jobs cuts runs) = mainBranchStatus runs"
  "mbChecks (rowOfRuns w repo jobs cuts runs) = countChecks (branchChecks runs jobs)"
  by (simp_all add: rowOfRuns_def Let_def)

lemma mainBranchStatus_running:
  "mainBranchStatus runs = MainBranchRunning \<Longrightarrow> \<exists>r \<in> set runs. branchRunState r = CheckRunning \<or> branchRunState r = CheckQueued"
  by (auto simp: mainBranchStatus_def list_ex_iff split: if_splits)

lemma going_counts:
  "c \<in> set cs \<Longrightarrow> ckState c = CheckRunning \<or> ckState c = CheckQueued \<Longrightarrow> Running (countChecks cs) + Waiting (countChecks cs) > 0"
  using countChecks_counts[of cs] checks_in_pos[of c cs CheckRunning] checks_in_pos[of c cs CheckQueued]
    checks_in_ge[of CheckRunning cs] checks_in_ge[of CheckQueued cs] by auto

text \<open>
  A row that reads running shows work. Where every run the forge lists has started and every list of
  jobs it gives is whole, a default branch's row with status running counts at least one job running or
  waiting, though the runs were listed before their jobs were read and may have ended in between.
\<close>

theorem running_row_has_work:
  assumes "readBranchRuns w repo c = (Inr row, c')" "mbStatus row = MainBranchRunning" "bwRuns w = Inr listed"
    and "\<forall>r \<in> set listed. branchRunState r \<noteq> CheckQueued"
    and "\<forall>r \<in> set listed. \<forall>js. walkActionRunJobs (bwJobs w (bnID r)) \<noteq> Inr (js, False)"
  shows "Running (mbChecks row) + Waiting (mbChecks row) > 0"
proof -
  have "mbStatus row \<noteq> MainBranchNone" using assms(2) by simp
  from readBranchRuns_row[OF assms(1) this]
  obtain runs jobs cuts where r: "branchRunsList (reDefaultBranch repo) False (bwRuns w) = Inr runs"
    "runJobs w repo runs c = (jobs, cuts, c')" "row = rowOfRuns w repo jobs cuts (newestBranchRuns (settledRuns jobs cuts runs))"
    by blast
  let ?runs = "newestBranchRuns (settledRuns jobs cuts runs)"
  have sub: "set runs \<subseteq> set listed" using branchRunsList_runs r(1) assms(3) by simp
  have cuts: "cuts = []" using runJobs_cuts[OF r(2)] assms(5) sub by blast
  from assms(2) obtain s where s: "s \<in> set ?runs" "branchRunState s = CheckRunning \<or> branchRunState s = CheckQueued"
    using mainBranchStatus_running unfolding r(3) row_fields by blast
  with newestBranchRuns_subset obtain r0 where r0: "r0 \<in> set runs" "s = settleRun jobs cuts r0"
    unfolding settledRuns_def by fastforce
  have "branchRunState s = CheckRunning" using s(2) queued_stays r0 sub assms(4) by blast
  with running_run_going[OF r0(2)] cuts obtain k where "k \<in> set (runChecks jobs s)" "ckState k = CheckRunning \<or> ckState k = CheckQueued"
    by auto
  then show ?thesis using s(1) unfolding r(3) row_fields by (intro going_counts[of k]) (auto simp: branchChecks_def)
qed

section \<open>The dialog lists what the pill counts\<close>

text \<open>A cache whose kept lists are the ones the forge would answer now.\<close>

definition keptKey :: "branch_world \<Rightarrow> repo_ref \<Rightarrow> branch_run \<Rightarrow> string" where
  "keptKey w repo r = jobsKey (bwFormat w) (reOwner repo) (reName repo) (bnID r) (bnStartedAt r) (bnStoppedAt r) 0"

definition walked :: "branch_world \<Rightarrow> branch_run \<Rightarrow> go_error + forgejo_job list \<times> bool" where
  "walked w r = walkActionRunJobs (bwJobs w (bnID r))"

definition current_cache :: "branch_world \<Rightarrow> repo_ref \<Rightarrow> finished_jobs \<Rightarrow> bool" where
  "current_cache w repo c \<longleftrightarrow> lru_ok (fiJobs c) \<and>
     (\<forall>r jobs. (keptKey w repo r, jobs) \<in> set (lru_entries (fiJobs c)) \<longrightarrow> walked w r = Inr (jobs, True))"

lemma keptKey_id: "keptKey w repo r = keptKey w repo r' \<Longrightarrow> bnID r = bnID r'"
proof -
  assume "keptKey w repo r = keptKey w repo r'"
  then have "itoa (bnID r) @ CHR ''/'' # bwFormat w (bnStartedAt r) @ ''/'' @ bwFormat w (bnStoppedAt r) =
      itoa (bnID r') @ CHR ''/'' # bwFormat w (bnStartedAt r') @ ''/'' @ bwFormat w (bnStoppedAt r')"
    by (simp add: keptKey_def jobsKey_def Let_def)
  then have "cut (itoa (bnID r) @ CHR ''/'' # bwFormat w (bnStartedAt r) @ ''/'' @ bwFormat w (bnStoppedAt r)) ''/'' =
      cut (itoa (bnID r') @ CHR ''/'' # bwFormat w (bnStartedAt r') @ ''/'' @ bwFormat w (bnStoppedAt r')) ''/''" by (rule arg_cong)
  then show ?thesis by (simp add: cut_single itoa_inj)
qed

lemma toFront_set: "set (toFront k es) = set es"
  by (auto simp: toFront_def)

lemma cached_set: "set (cached n k v es) \<subseteq> insert (k, v) (set es)"
  by (auto simp: cached_def without_def dest: in_set_takeD)

definition readRunJobs :: "branch_world \<Rightarrow> repo_ref \<Rightarrow> branch_run \<Rightarrow> finished_jobs \<Rightarrow>
    (go_error + forgejo_job list \<times> bool) \<times> finished_jobs" where
  "readRunJobs w repo r c = readWholeRunJobs (bwFormat w) (bwNow w) (reOwner repo) (reName repo) (bnID r) (bnStatus r)
     (bnStartedAt r) (bnStoppedAt r) (bwJobs w (bnID r)) c"

lemma current_step:
  assumes "current_cache w repo c"
  shows "fst (readRunJobs w repo r c) = walked w r \<and> current_cache w repo (snd (readRunJobs w repo r c))"
proof -
  let ?key = "keptKey w repo r"
  have k: "readRunJobs w repo r c = keepJobs (bwNow w) (bnStatus r) ?key (bnStoppedAt r) (walked w r) c"
    by (simp add: readRunJobs_def readWholeRunJobs_def keptKey_def walked_def)
  have ok: "lru_ok (fiJobs c)" using assms by (simp add: current_cache_def)
  obtain hit jobs' where g: "lruGet ?key (fiJobs c) = (hit, jobs')" by (cases "lruGet ?key (fiJobs c)")
  have g': "hit = map_of (lru_entries (fiJobs c)) ?key" "set (lru_entries jobs') = set (lru_entries (fiJobs c))" "lru_ok jobs'"
    using get_refines[OF ok, of ?key] g by (simp_all add: toFront_set)
  have hit: "walked w r = Inr (jobs, True)" if "hit = Some jobs" for jobs
    using assms that g'(1) by (auto simp: current_cache_def dest!: map_of_SomeD)
  have got: "current_cache w repo (c\<lparr>fiJobs := jobs'\<rparr>)" "current_cache w repo (c\<lparr>fiJobs := jobs', fiReads := n\<rparr>)"
    "current_cache w repo (c\<lparr>fiReads := n\<rparr>)" for n
    using assms g'(2,3) by (simp_all add: current_cache_def)
  have put: "current_cache w repo (c\<lparr>fiReads := n, fiJobs := lruPut ?key jobs jobs'\<rparr>)" if "walked w r = Inr (jobs, True)" for jobs n
  proof -
    have "walked w r' = Inr (js, True)" if "(keptKey w repo r', js) \<in> set (lru_entries (lruPut ?key jobs jobs'))" for r' js
    proof (cases "keptKey w repo r' = ?key \<and> js = jobs")
      case True
      then have "walked w r' = walked w r" using keptKey_id[of w repo r' r] by (simp add: walked_def)
      then show ?thesis using True \<open>walked w r = Inr (jobs, True)\<close> by simp
    next
      case False
      have "set (lru_entries (lruPut ?key jobs jobs')) \<subseteq> insert (?key, jobs) (set (lru_entries jobs'))"
        using put_refines[OF g'(3), of ?key jobs] by (simp add: cached_set)
      with that False have "(keptKey w repo r', js) \<in> set (lru_entries jobs')" by auto
      then show ?thesis using assms g'(2) by (simp add: current_cache_def)
    qed
    then show ?thesis using put_refines[OF g'(3), of ?key jobs] by (simp add: current_cache_def)
  qed
  show ?thesis
  proof (cases "bnStoppedAt r = zero_time \<or> \<not> isFinished (bnStatus r)")
    case True
    then show ?thesis using got(3) by (auto simp: k keepJobs_def readJobs_def)
  next
    case False
    show ?thesis
    proof (cases hit)
      case (Some jobs)
      then show ?thesis using False g got(1) hit by (simp add: k keepJobs_def)
    next
      case None
      then show ?thesis using False g got put
        by (cases "walked w r") (auto simp: k keepJobs_def readJobs_def Let_def)
    qed
  qed
qed

text \<open>With such a cache the jobs of the runs are the forge's, whatever is kept.\<close>

definition walkedRun :: "branch_world \<Rightarrow> branch_run \<Rightarrow> run_jobs \<times> int list \<Rightarrow> run_jobs \<times> int list" where
  "walkedRun w r = (\<lambda>(out, cuts). case walked w r of Inl _ \<Rightarrow> (out, cuts)
     | Inr (jobs, whole) \<Rightarrow> (out(bnID r \<mapsto> jobs), if whole then cuts else bnID r # cuts))"

lemma runJobs_walked_gen:
  "current_cache w repo c \<Longrightarrow> fold (readRun w repo) runs (out, cuts, c) = (out', cuts', c') \<Longrightarrow>
   current_cache w repo c' \<and> (out', cuts') = fold (walkedRun w) runs (out, cuts)"
proof (induction runs arbitrary: out cuts c)
  case (Cons r runs)
  obtain res c1 where k: "readRunJobs w repo r c = (res, c1)" by (cases "readRunJobs w repo r c")
  have res: "res = walked w r" and c1: "current_cache w repo c1"
    using current_step[OF Cons.prems(1), of r] k by simp_all
  have step: "readRun w repo r (out, cuts, c) = (fst (walkedRun w r (out, cuts)), snd (walkedRun w r (out, cuts)), c1)"
    using k res by (auto simp: readRun_def readRunJobs_def walkedRun_def split: sum.splits prod.splits)
  show ?case using Cons.IH[OF c1] Cons.prems(2) step by simp
qed simp

lemma runJobs_walked:
  "current_cache w repo c \<Longrightarrow> runJobs w repo runs c = (jobs, cuts, c') \<Longrightarrow>
   current_cache w repo c' \<and> (jobs, cuts) = fold (walkedRun w) runs (Map.empty, [])"
  unfolding runJobs_def by (rule runJobs_walked_gen)

text \<open>
  C21: the pipeline dialog lists what the pill counts. When a default branch's row was just read and the
  forge still answers the same, its list of checks comes from the same runs and jobs: the row's counts are
  the counts of that list, and its runs are the list's, with only the ones cut short marked.
\<close>

theorem dialog_matches_pill:
  assumes "readBranchRuns w repo c = (Inr row, c1)" "current_cache w repo c"
  shows "\<exists>checks c2. ListDefaultBranchChecks w repo c1 = (Inr checks, c2) \<and> mbChecks row = countChecks checks \<and>
    map (mrJobsTruncated_update (\<lambda>_. False)) (mbRuns row) = map (mrJobsTruncated_update (\<lambda>_. False)) (MainBranchRuns checks)"
proof (cases "reDefaultBranch repo = '''' \<or> branchRunsList (reDefaultBranch repo) False (bwRuns w) = Inr []")
  case True
  then have "row = bareRow repo" using assms(1) by (auto simp: readBranchRuns_def split: if_splits)
  then show ?thesis using True
    by (auto simp: ListDefaultBranchChecks_def bareRow_def countChecks_def MainBranchRuns_def GroupRuns_def WithFacts_def)
next
  case False
  then obtain r rs where l: "branchRunsList (reDefaultBranch repo) False (bwRuns w) = Inr (r # rs)"
    using assms(1) by (auto simp: readBranchRuns_def split: sum.splits list.splits)
  let ?runs = "r # rs"
  obtain jobs cuts c' where j: "runJobs w repo ?runs c = (jobs, cuts, c')" by (cases "runJobs w repo ?runs c") auto
  have row: "row = rowOfRuns w repo jobs cuts (newestBranchRuns (settledRuns jobs cuts ?runs))" and c': "c' = c1"
    using assms(1) False l j by (simp_all add: readBranchRuns_def)
  have w1: "current_cache w repo c1 \<and> (jobs, cuts) = fold (walkedRun w) ?runs (Map.empty, [])"
    using runJobs_walked[OF assms(2) j] c' by simp
  obtain jobs2 cuts2 c2 where j2: "runJobs w repo ?runs c1 = (jobs2, cuts2, c2)" by (cases "runJobs w repo ?runs c1") auto
  have "(jobs2, cuts2) = fold (walkedRun w) ?runs (Map.empty, [])" using runJobs_walked[OF conjunct1[OF w1] j2] by blast
  then have same: "jobs2 = jobs" "cuts2 = cuts" using w1 by (metis prod.inject)+
  show ?thesis
    using False l j2 same unfolding row
    by (simp add: ListDefaultBranchChecks_def rowOfRuns_def Let_def)
qed

subsection \<open>A branch with a run going\<close>

definition demo_branch_run :: branch_run where
  "demo_branch_run = \<lparr>bnID = 3, bnTitle = ''Fix'', bnWorkflowID = ''ci.yaml@refs/heads/main'', bnNumber = 5, bnRef = ''main'',
     bnEvent = ''push'', bnCommitSHA = ''abc'', bnStatus = ''running'', bnStartedAt = second, bnStoppedAt = 0,
     bnHTMLURL = ''https://f/r/3'', bnTrigger = None\<rparr>"

definition demo_branch_repo :: repo_ref where
  "demo_branch_repo = \<lparr>reFullName = ''o/r'', reURL = ''https://f/r'', reOwner = ''o'', reName = ''r'', reDefaultBranch = ''main''\<rparr>"

definition demo_world :: branch_world where
  "demo_world = \<lparr>bwRuns = Inr [demo_branch_run],
     bwJobs = (\<lambda>_ n. Inr (if n = 1 then [one_job 1 ''success'', one_job 2 ''running''] else [], 2)),
     bwCommit = (\<lambda>_. None), bwNow = 0, bwFormat = (\<lambda>_. '''')\<rparr>"

definition demo_cache :: finished_jobs where "demo_cache = \<lparr>fiJobs = newLRU 4, fiReads = 0\<rparr>"

lemma demo_list: "branchRunsList ''main'' False (bwRuns demo_world) = Inr [demo_branch_run]"
  by (simp add: branchRunsList_def newestCommitRuns_def demo_world_def demo_branch_run_def isPullRequestEvent_def has_prefix_def)

lemma demo_walk: "walked demo_world r = Inr ([one_job 1 ''success'', one_job 2 ''running''], True)"
  by (simp add: walked_def demo_world_def walkActionRunJobs_def maxJobPages_def upt_conv_Cons one_job_def)

lemma demo_current: "current_cache demo_world demo_branch_repo demo_cache"
  by (simp add: current_cache_def demo_cache_def)

definition demo_row :: "main_branch" where
  "demo_row = rowOfRuns demo_world demo_branch_repo [3 \<mapsto> [one_job 1 ''success'', one_job 2 ''running'']] [] [demo_branch_run]"

lemma demo_read: "readBranchRuns demo_world demo_branch_repo demo_cache = (Inr demo_row, demo_cache\<lparr>fiReads := 1\<rparr>)"
proof -
  have j: "runJobs demo_world demo_branch_repo [demo_branch_run] demo_cache =
      ([3 \<mapsto> [one_job 1 ''success'', one_job 2 ''running'']], [], demo_cache\<lparr>fiReads := 1\<rparr>)"
    using demo_walk[of demo_branch_run]
    by (simp add: runJobs_def readRun_def readWholeRunJobs_def keepJobs_def readJobs_def walked_def demo_branch_run_def demo_cache_def
        isFinished_def checkStateFromWorkflowStatus_def)
  have n: "newestBranchRuns (settledRuns [3 \<mapsto> [one_job 1 ''success'', one_job 2 ''running'']] [] [demo_branch_run]) = [demo_branch_run]"
    by (simp add: settledRuns_def settleRun_def jobsOf_def jobsOutcome_def demo_branch_run_def one_job_def branchRunState_def
        checkStateFromWorkflowStatus_def newestBranchRuns_def SupersededRuns_eq replaced_in_def runAsCheck_def plain_check_def)
  show ?thesis
    using demo_list j n by (simp add: readBranchRuns_def demo_branch_repo_def demo_row_def)
qed

lemma dialog_matches_pill_witness:
  "\<exists>checks c2. ListDefaultBranchChecks demo_world demo_branch_repo (demo_cache\<lparr>fiReads := 1\<rparr>) = (Inr checks, c2) \<and>
     mbChecks demo_row = countChecks checks"
  using dialog_matches_pill[OF demo_read demo_current] by blast

lemma running_row_has_work_witness: "Running (mbChecks demo_row) + Waiting (mbChecks demo_row) > 0"
proof (rule running_row_has_work[OF demo_read])
  show "mbStatus demo_row = MainBranchRunning"
    by (simp add: demo_row_def row_fields mainBranchStatus_def branchRunState_def demo_branch_run_def checkStateFromWorkflowStatus_def)
  show "bwRuns demo_world = Inr [demo_branch_run]" by (simp add: demo_world_def)
  show "\<forall>r \<in> set [demo_branch_run]. branchRunState r \<noteq> CheckQueued"
    by (simp add: branchRunState_def demo_branch_run_def checkStateFromWorkflowStatus_def)
  show "\<forall>r \<in> set [demo_branch_run]. \<forall>js. walkActionRunJobs (bwJobs demo_world (bnID r)) \<noteq> Inr (js, False)"
    using demo_walk[of demo_branch_run] by (simp add: walked_def)
qed

text \<open>A run still going with a job already failed reads as running: the status looks at runs alone.\<close>

lemma running_run_hides_failed_job:
  "let row = rowOfRuns demo_world demo_branch_repo [3 \<mapsto> [one_job 1 ''failure'', one_job 2 ''running'']] [] [demo_branch_run]
   in mbStatus row = MainBranchRunning \<and> Failed (mbChecks row) = 1 \<and> mbFailingJobs row = []"
  by (simp add: Let_def rowOfRuns_def mainBranchStatus_def branchRunState_def demo_branch_run_def checkStateFromWorkflowStatus_def
      branchChecks_def runChecks_def jobsOf_def countChecks_def tally_def branchJobState_def one_job_def no_checks_def)

end
