(* ===== verification/Forgejo_Rerun.thy ===== *)
theory Forgejo_Rerun
  imports Forgejo_Branch
begin

text \<open>
  Rerunning failed Forgejo jobs (\<open>rerun.go\<close>): which jobs are asked for, and what a refusal that comes
  partway says of the ones that went; and the instance's version, which tells whether it can
  (\<open>server_version.go\<close>): one read at a time, however many ask.
\<close>

section \<open>Jobs that failed\<close>

definition failedJobIDs :: "forgejo_job list \<Rightarrow> int list" where
  "failedJobIDs jobs = map fjID (filter (\<lambda>j. checkStateFromWorkflowStatus (fjStatus j) = CheckFailure) jobs)"

definition jobNameOf :: "forgejo_job list \<Rightarrow> int \<Rightarrow> string" where
  "jobNameOf jobs i = fold (\<lambda>j name. if fjID j = i \<and> fjName j \<noteq> '''' then fjName j else name) jobs (itoa i)"

definition jobNames :: "forgejo_job list \<Rightarrow> int list \<Rightarrow> string list" where
  "jobNames jobs ids = map (jobNameOf jobs) ids"

definition stillFailed :: "forgejo_job list \<Rightarrow> int list \<Rightarrow> int list" where
  "stillFailed jobs ids = filter (\<lambda>i. List.member (failedJobIDs jobs) i) ids"

section \<open>What a refusal says of the jobs before it\<close>

record partial_note =
  pnText :: string
  pnMayRun :: bool

definition no_note :: partial_note where "no_note = \<lparr>pnText = '''', pnMayRun = False\<rparr>"

definition restartedSentence :: "string list \<Rightarrow> string" where
  "restartedSentence restarted = ''Restarted '' @ str_join '', '' restarted @ ''.''"

definition listWithRuns :: "string list \<Rightarrow> int \<Rightarrow> string" where
  "listWithRuns names laterRuns =
     (let note = (if laterRuns = 1 then ''the failed jobs of 1 other run''
                  else if laterRuns > 1 then ''the failed jobs of '' @ itoa laterRuns @ '' other runs'' else '''') in
      if names = [] then note else if note = '''' then str_join '', '' names
      else str_join '', '' names @ '' and '' @ note)"

definition partial :: "string list \<Rightarrow> string list \<Rightarrow> int \<Rightarrow> string \<Rightarrow> bool \<Rightarrow> partial_note" where
  "partial restarted notYet laterRuns maybe othersMaybe =
     (if restarted = [] \<and> maybe = '''' then no_note
      else (let out = (if restarted \<noteq> [] then [restartedSentence restarted] else []);
                out = (if maybe \<noteq> '''' then out @ [maybe @ '' may have restarted'' @
                         (if othersMaybe then '', and so may the other failed jobs of this run'' else '''') @ ''.''] else out);
                skipped = listWithRuns notYet laterRuns;
                out = (if skipped \<noteq> '''' then out @ [''Did not restart '' @ skipped @ ''.''] else out)
            in \<lparr>pnText = str_join '' '' out, pnMayRun = (maybe \<noteq> '''')\<rparr>))"

definition partialUnknown :: "string list \<Rightarrow> int \<Rightarrow> partial_note" where
  "partialUnknown restarted laterRuns =
     (if restarted = [] then no_note
      else (let out = restartedSentence restarted @ '' The other failed jobs of this run may have restarted with them.'';
                later = listWithRuns [] laterRuns
            in \<lparr>pnText = (if later \<noteq> '''' then out @ '' Did not restart '' @ later @ ''.'' else out), pnMayRun = True\<rparr>))"

definition withPartial :: "go_error \<Rightarrow> partial_note \<Rightarrow> go_error" where
  "withPartial err note =
     (if pnText note = '''' then err
      else (case errClient err of
          None \<Rightarrow> \<lparr>errText = errText err, errClient = Some \<lparr>ceKind = ForgeErrorUnknown, ceErr = errText err,
              ceRateLimit = None, cePermissionMessage = '''', ceUpstreamStatus = 0, ceRequestID = '''',
              cePartial = pnText note, ceMayHaveRestarted = pnMayRun note\<rparr>\<rparr>
        | Some c \<Rightarrow> \<lparr>errText = ceErr c, errClient = Some (c\<lparr>cePartial := pnText note, ceMayHaveRestarted := pnMayRun note\<rparr>)\<rparr>))"

definition refusedPartial :: "string list \<Rightarrow> forgejo_job list \<Rightarrow> int list \<Rightarrow> int \<Rightarrow> bool \<Rightarrow> partial_note" where
  "refusedPartial restarted jobs ids laterRuns mayHaveQueued =
     (let left = stillFailed jobs ids in
      if \<not> mayHaveQueued then partial restarted (jobNames jobs left) laterRuns '''' False
      else (let first = hd ids; others = filter (\<lambda>i. i \<noteq> first) left
            in partial restarted [] laterRuns (str_join '''' (jobNames jobs [first])) (others \<noteq> [])))"

section \<open>A request that may have gone\<close>

text \<open>The errors \<open>requestMayHaveQueued\<close> looks for in the chain of a failed request.\<close>

datatype transport_error = DNSError | CertificateVerificationError | UnknownAuthorityError | HostnameError
  | CertificateInvalidError | AlertError | RecordHeaderError | OpError string | OtherTransportError

definition not_sent :: "transport_error \<Rightarrow> bool" where
  "not_sent e \<longleftrightarrow> e \<in> {DNSError, CertificateVerificationError, UnknownAuthorityError, HostnameError,
     CertificateInvalidError, AlertError, RecordHeaderError}"

definition is_op :: "transport_error \<Rightarrow> bool" where
  "is_op e \<longleftrightarrow> (case e of OpError _ \<Rightarrow> True | _ \<Rightarrow> False)"

definition requestMayHaveQueued :: "int option \<Rightarrow> transport_error list \<Rightarrow> bool" where
  "requestMayHaveQueued status chain = (case status of
     Some s \<Rightarrow> s = 502 \<or> s = 503 \<or> s = 504 \<or> s < 300
   | None \<Rightarrow> \<not> (list_ex not_sent chain \<or>
       (case find is_op chain of Some (OpError oper) \<Rightarrow> oper = ''dial'' \<or> oper = ''proxyconnect'' | _ \<Rightarrow> False)))"

section \<open>The rerun\<close>

text \<open>
  A failed rerun request: the status the forge answered with, if it answered, the errors in the chain, and
  the error \<open>forgejoError\<close> makes of it. The forge answers the nth list of jobs and the nth request.
\<close>

record post_failure =
  pfStatus :: "int option"
  pfChain :: "transport_error list"
  pfError :: go_error

record rerun_world =
  rwPages :: "nat \<Rightarrow> int \<Rightarrow> job_pages"
  rwPost :: "nat \<Rightarrow> int \<Rightarrow> post_failure option"

record rerun_state =
  rsReads :: nat
  rsAsked :: "(int \<times> forgejo_job list) list"   \<comment> \<open>the jobs asked for, with the list read just before\<close>
  rsRestarted :: "string list"

definition readJobsNow :: "rerun_world \<Rightarrow> int \<Rightarrow> rerun_state \<Rightarrow> (go_error + forgejo_job list) \<times> rerun_state" where
  "readJobsNow w runID s = (listWholeRunJobs runID (rwPages w (rsReads s) runID), s\<lparr>rsReads := Suc (rsReads s)\<rparr>)"

definition askJob :: "rerun_world \<Rightarrow> forgejo_job list \<Rightarrow> int list \<Rightarrow> int \<Rightarrow> rerun_state \<Rightarrow> go_error option \<times> rerun_state" where
  "askJob w jobs ids laterRuns s =
     (let jobID = hd ids; s' = s\<lparr>rsAsked := rsAsked s @ [(jobID, jobs)]\<rparr> in
      case rwPost w (length (rsAsked s)) jobID of
        Some f \<Rightarrow> (Some (withPartial (pfError f)
            (refusedPartial (rsRestarted s) jobs ids laterRuns (requestMayHaveQueued (pfStatus f) (pfChain f)))), s')
      | None \<Rightarrow> (None, s'\<lparr>rsRestarted := rsRestarted s @ jobNames jobs [jobID]\<rparr>))"

text \<open>The jobs after the first: the run's jobs are read again before each.\<close>

fun rerunRest :: "rerun_world \<Rightarrow> int \<Rightarrow> int \<Rightarrow> int list \<Rightarrow> rerun_state \<Rightarrow> go_error option \<times> rerun_state" where
  "rerunRest w runID laterRuns [] s = (None, s)"
| "rerunRest w runID laterRuns (jobID # ids) s =
     (case readJobsNow w runID s of
        (Inl e, s1) \<Rightarrow> (Some (withPartial e (partialUnknown (rsRestarted s1) laterRuns)), s1)
      | (Inr jobs, s1) \<Rightarrow>
          if \<not> List.member (failedJobIDs jobs) jobID then rerunRest w runID laterRuns ids s1
          else (case askJob w jobs (jobID # ids) laterRuns s1 of
              (Some e, s2) \<Rightarrow> (Some e, s2)
            | (None, s2) \<Rightarrow> rerunRest w runID laterRuns ids s2))"

definition rerunFailedJobsOfRun :: "rerun_world \<Rightarrow> int \<Rightarrow> int \<Rightarrow> rerun_state \<Rightarrow> go_error option \<times> rerun_state" where
  "rerunFailedJobsOfRun w runID laterRuns s = (case readJobsNow w runID s of
     (Inl e, s1) \<Rightarrow> (Some (withPartial e (partial (rsRestarted s1) [] (laterRuns + 1) '''' False)), s1)
   | (Inr jobs, s1) \<Rightarrow> (case failedJobIDs jobs of
       [] \<Rightarrow> (None, s1)
     | jobID # ids \<Rightarrow> (case askJob w jobs (jobID # ids) laterRuns s1 of
           (Some e, s2) \<Rightarrow> (Some e, s2)
         | (None, s2) \<Rightarrow> rerunRest w runID laterRuns ids s2)))"

fun rerunRuns :: "rerun_world \<Rightarrow> int list \<Rightarrow> rerun_state \<Rightarrow> go_error option \<times> rerun_state" where
  "rerunRuns w [] s = (None, s)"
| "rerunRuns w (runID # ids) s = (case rerunFailedJobsOfRun w runID (int (length ids)) s of
     (Some e, s') \<Rightarrow> (Some e, s') | (None, s') \<Rightarrow> rerunRuns w ids s')"

definition rerunFailedJobs :: "rerun_world \<Rightarrow> int list \<Rightarrow> rerun_state \<Rightarrow> (int \<times> go_error option) \<times> rerun_state" where
  "rerunFailedJobs w ids s = (case rerunRuns w ids (s\<lparr>rsRestarted := []\<rparr>) of
     (err, s') \<Rightarrow> ((int (length (rsRestarted s')), err), s'))"

definition nothingToRerun :: "string \<Rightarrow> go_error" where
  "nothingToRerun text = \<lparr>errText = text, errClient = Some \<lparr>ceKind = ForgeErrorConflict, ceErr = text,
     ceRateLimit = None, cePermissionMessage = '''', ceUpstreamStatus = 0, ceRequestID = '''', cePartial = '''',
     ceMayHaveRestarted = False\<rparr>\<rparr>"

definition errNothingToRerun :: string where
  "errNothingToRerun = ''no failed job to rerun on this pull request''"

definition errNothingToRerunOnBranch :: string where
  "errNothingToRerunOnBranch = ''no failed job to rerun on this branch''"

text \<open>The runs of a commit, as the forge answers them: id and status.\<close>

definition failedRunIDs :: "string \<Rightarrow> (go_error + (int \<times> string) list) \<Rightarrow> go_error + int list" where
  "failedRunIDs sha answer =
     (if sha = '''' then Inr []
      else (case answer of Inl e \<Rightarrow> Inl e
        | Inr runs \<Rightarrow> Inr (map fst (filter (\<lambda>(_, status). checkStateFromWorkflowStatus status = CheckFailure) runs))))"

definition rerunAll :: "rerun_world \<Rightarrow> string \<Rightarrow> int list \<Rightarrow> rerun_state \<Rightarrow> go_error option \<times> rerun_state" where
  "rerunAll w nothing failed s =
     (if failed = [] then (Some (nothingToRerun nothing), s)
      else (case rerunFailedJobs w failed s of
          ((_, Some e), s') \<Rightarrow> (Some e, s')
        | ((n, None), s') \<Rightarrow> (if n = 0 then Some (nothingToRerun nothing) else None, s')))"

definition RerunFailedChecks :: "rerun_world \<Rightarrow> go_error option \<Rightarrow> go_error + string \<Rightarrow>
    (go_error + (int \<times> string) list) \<Rightarrow> rerun_state \<Rightarrow> go_error option \<times> rerun_state" where
  "RerunFailedChecks w blocked head runs s = (case blocked of Some e \<Rightarrow> (Some e, s)
     | None \<Rightarrow> (case head of Inl e \<Rightarrow> (Some e, s)
         | Inr sha \<Rightarrow> (case failedRunIDs sha runs of Inl e \<Rightarrow> (Some e, s)
             | Inr failed \<Rightarrow> rerunAll w errNothingToRerun failed s)))"

definition RerunFailedDefaultBranchChecks :: "rerun_world \<Rightarrow> go_error option \<Rightarrow> string \<Rightarrow> runs_answer \<Rightarrow> rerun_state \<Rightarrow>
    go_error option \<times> rerun_state" where
  "RerunFailedDefaultBranchChecks w blocked defaultBranch answer s = (case blocked of Some e \<Rightarrow> (Some e, s)
     | None \<Rightarrow> (if defaultBranch = '''' then rerunAll w errNothingToRerunOnBranch [] s
         else (case branchRunsList defaultBranch True answer of Inl e \<Rightarrow> (Some e, s)
           | Inr runs \<Rightarrow> rerunAll w errNothingToRerunOnBranch
               (map bnID (filter (\<lambda>r. checkStateFromWorkflowStatus (bnStatus r) = CheckFailure) runs)) s)))"

section \<open>A refusal tells what restarted\<close>

text \<open>The jobs asked for had failed in the list read just before, and every one restarted.\<close>

definition all_restarted :: "rerun_state \<Rightarrow> bool" where
  "all_restarted s \<longleftrightarrow> list_all (\<lambda>(i, jobs). List.member (failedJobIDs jobs) i) (rsAsked s) \<and>
     length (rsRestarted s) = length (rsAsked s)"

text \<open>The refusal begins with what restarted; if its request may have gone, it says a job may be running.\<close>

definition tells :: "rerun_world \<Rightarrow> go_error \<Rightarrow> rerun_state \<Rightarrow> bool" where
  "tells w e s \<longleftrightarrow> list_all (\<lambda>(i, jobs). List.member (failedJobIDs jobs) i) (rsAsked s) \<and>
     (rsRestarted s \<noteq> [] \<longrightarrow> (\<exists>c rest. errClient e = Some c \<and> cePartial c = restartedSentence (rsRestarted s) @ rest)) \<and>
     (length (rsRestarted s) = length (rsAsked s) \<or>
       (\<exists>asked i jobs f. rsAsked s = asked @ [(i, jobs)] \<and> length (rsRestarted s) = length asked \<and>
          rwPost w (length asked) i = Some f \<and>
          (requestMayHaveQueued (pfStatus f) (pfChain f) \<longrightarrow> (\<exists>c. errClient e = Some c \<and> ceMayHaveRestarted c))))"

lemma str_join_Cons: "\<exists>rest. str_join sep (p # ps) = p @ rest"
  by (cases ps) auto

lemma jobNameOf_nonempty: "jobNameOf jobs i \<noteq> ''''"
proof -
  have "fold (\<lambda>j name. if fjID j = i \<and> fjName j \<noteq> '''' then fjName j else name) js n \<noteq> ''''" if "n \<noteq> ''''" for js n
    using that by (induction js arbitrary: n) auto
  from this[of "itoa i" jobs] show ?thesis by (simp add: jobNameOf_def itoa_def del: not_Cons_self)
qed

lemma partial_text:
  "restarted \<noteq> [] \<Longrightarrow> \<exists>rest. pnText (partial restarted a b c d) = restartedSentence restarted @ rest"
  using str_join_Cons[of "'' ''" "restartedSentence restarted"] by (auto simp: partial_def Let_def)

lemma partialUnknown_text:
  "restarted \<noteq> [] \<Longrightarrow> \<exists>rest. pnText (partialUnknown restarted a) = restartedSentence restarted @ rest"
  by (auto simp: partialUnknown_def Let_def)

lemma str_join_empty: "str_join sep (p # ps) = '''' \<Longrightarrow> p = ''''"
  by (cases ps) auto

lemma maybe_noted: "maybe \<noteq> '''' \<Longrightarrow> pnText (partial r a b maybe d) \<noteq> '''' \<and> pnMayRun (partial r a b maybe d)"
  by (auto simp: partial_def restartedSentence_def Let_def dest!: str_join_empty)

lemma withPartial_told:
  "pnText n \<noteq> '''' \<Longrightarrow> \<exists>c. errClient (withPartial e n) = Some c \<and> cePartial c = pnText n \<and> ceMayHaveRestarted c = pnMayRun n"
  by (cases "errClient e") (simp_all add: withPartial_def)

lemma restartedSentence_nonempty: "restartedSentence r @ rest \<noteq> ''''"
  by (simp add: restartedSentence_def)

lemma withPartial_sentence:
  "pnText n = restartedSentence r @ rest \<Longrightarrow>
   \<exists>c rest. errClient (withPartial e n) = Some c \<and> cePartial c = restartedSentence r @ rest"
  using withPartial_told[of n e] restartedSentence_nonempty[of r rest] by metis

lemma tells_read:
  assumes "all_restarted s" "\<And>r. rsRestarted s = r \<Longrightarrow> r \<noteq> [] \<Longrightarrow> \<exists>rest. pnText n = restartedSentence r @ rest"
  shows "tells w (withPartial e n) s"
  using assms withPartial_sentence unfolding tells_def all_restarted_def by metis

lemma refused_text:
  "restarted \<noteq> [] \<Longrightarrow> \<exists>rest. pnText (refusedPartial restarted jobs ids k q) = restartedSentence restarted @ rest"
  using partial_text by (simp add: refusedPartial_def Let_def)

lemma refused_may_run:
  "pnText (refusedPartial r jobs ids k True) \<noteq> '''' \<and> pnMayRun (refusedPartial r jobs ids k True)"
  using maybe_noted[of "jobNameOf jobs (hd ids)"] jobNameOf_nonempty[of jobs "hd ids"]
  by (simp add: refusedPartial_def jobNames_def Let_def)

lemma askJob_tells:
  assumes "all_restarted s" "List.member (failedJobIDs jobs) (hd ids)" "askJob w jobs ids k s = (err, s')"
  shows "case err of None \<Rightarrow> all_restarted s' | Some e \<Rightarrow> tells w e s'"
proof (cases "rwPost w (length (rsAsked s)) (hd ids)")
  case None
  then show ?thesis using assms by (auto simp: askJob_def all_restarted_def jobNames_def Let_def)
next
  case (Some f)
  let ?n = "refusedPartial (rsRestarted s) jobs ids k (requestMayHaveQueued (pfStatus f) (pfChain f))"
  have r: "err = Some (withPartial (pfError f) ?n)" "s' = s\<lparr>rsAsked := rsAsked s @ [(hd ids, jobs)]\<rparr>"
    using assms(3) Some by (simp_all add: askJob_def Let_def)
  have "\<exists>c rest. errClient (withPartial (pfError f) ?n) = Some c \<and> cePartial c = restartedSentence (rsRestarted s) @ rest"
    if "rsRestarted s \<noteq> []"
    using refused_text[OF that] withPartial_sentence by blast
  moreover have "\<exists>c. errClient (withPartial (pfError f) ?n) = Some c \<and> ceMayHaveRestarted c"
    if "requestMayHaveQueued (pfStatus f) (pfChain f)"
    using that refused_may_run[of "rsRestarted s" jobs ids k] withPartial_told[of ?n "pfError f"] by auto
  ultimately show ?thesis
    using assms(1,2) Some unfolding r all_restarted_def tells_def by simp
qed

lemma rerunRest_tells:
  "all_restarted s \<Longrightarrow> rerunRest w runID k ids s = (err, s') \<Longrightarrow>
   case err of None \<Rightarrow> all_restarted s' | Some e \<Rightarrow> tells w e s'"
proof (induction w runID k ids s rule: rerunRest.induct)
  case (2 w runID k jobID ids s)
  obtain res s1 where r: "readJobsNow w runID s = (res, s1)" by (cases "readJobsNow w runID s")
  have s1: "all_restarted s1" using 2(3) r by (auto simp: readJobsNow_def all_restarted_def)
  show ?case
  proof (cases res)
    case (Inl e)
    then show ?thesis using 2(4) r tells_read[OF s1] partialUnknown_text by auto
  next
    case (Inr jobs)
    show ?thesis
    proof (cases "List.member (failedJobIDs jobs) jobID")
      case False
      then show ?thesis using 2(1)[OF r[symmetric] Inr False s1] 2(4) r Inr by simp
    next
      case True
      obtain err2 s2 where a: "askJob w jobs (jobID # ids) k s1 = (err2, s2)" by (cases "askJob w jobs (jobID # ids) k s1")
      have t: "case err2 of None \<Rightarrow> all_restarted s2 | Some e \<Rightarrow> tells w e s2"
        using askJob_tells[OF s1 _ a] True by simp
      show ?thesis
      proof (cases err2)
        case None
        then show ?thesis using 2(2)[OF r[symmetric] Inr _ a[symmetric] None] t 2(4) r Inr True a by simp
      next
        case (Some e)
        then show ?thesis using t 2(4) r Inr True a by auto
      qed
    qed
  qed
qed simp

lemma rerunOfRun_tells:
  assumes "all_restarted s" "rerunFailedJobsOfRun w runID k s = (err, s')"
  shows "case err of None \<Rightarrow> all_restarted s' | Some e \<Rightarrow> tells w e s'"
proof -
  obtain res s1 where r: "readJobsNow w runID s = (res, s1)" by (cases "readJobsNow w runID s")
  have s1: "all_restarted s1" using assms(1) r by (auto simp: readJobsNow_def all_restarted_def)
  show ?thesis
  proof (cases res)
    case (Inl e)
    then show ?thesis using assms(2) r tells_read[OF s1] partial_text by (auto simp: rerunFailedJobsOfRun_def)
  next
    case (Inr jobs)
    show ?thesis
    proof (cases "failedJobIDs jobs")
      case Nil
      then show ?thesis using assms(2) r Inr s1 by (auto simp: rerunFailedJobsOfRun_def)
    next
      case (Cons i ids)
      obtain err2 s2 where a: "askJob w jobs (i # ids) k s1 = (err2, s2)" by (cases "askJob w jobs (i # ids) k s1")
      have t: "case err2 of None \<Rightarrow> all_restarted s2 | Some e \<Rightarrow> tells w e s2"
        using askJob_tells[OF s1 _ a] Cons by simp
      show ?thesis
        using assms(2) r Inr Cons a t rerunRest_tells[of s2 w runID k ids err s']
        by (cases err2) (auto simp: rerunFailedJobsOfRun_def)
    qed
  qed
qed

lemma rerunRuns_tells:
  "all_restarted s \<Longrightarrow> rerunRuns w ids s = (err, s') \<Longrightarrow> case err of None \<Rightarrow> all_restarted s' | Some e \<Rightarrow> tells w e s'"
proof (induction w ids s rule: rerunRuns.induct)
  case (2 w runID ids s)
  obtain err1 s1 where a: "rerunFailedJobsOfRun w runID (int (length ids)) s = (err1, s1)"
    by (cases "rerunFailedJobsOfRun w runID (int (length ids)) s")
  show ?case using 2(1)[OF a[symmetric]] rerunOfRun_tells[OF 2(2) a] 2(3) a by (cases err1) auto
qed simp

text \<open>
  A rerun asks only for jobs that had failed in the list read just before, and a refusal that comes
  partway tells what went: the error carries a sentence that begins with the jobs restarted, as many as
  counted, and when the refused request may have reached the forge it says a job may be running.
\<close>

theorem rerun_refusal_tells:
  assumes "rerunFailedJobs w ids s = ((n, Some e), s')" "rsAsked s = []"
  shows "tells w e s' \<and> n = int (length (rsRestarted s'))"
proof -
  have "all_restarted (s\<lparr>rsRestarted := []\<rparr>)" using assms(2) by (simp add: all_restarted_def)
  then show ?thesis
    using rerunRuns_tells[of "s\<lparr>rsRestarted := []\<rparr>" w ids] assms(1)
    by (auto simp: rerunFailedJobs_def split: prod.splits)
qed

section \<open>Every failed job is dealt with, and asked for once\<close>

text \<open>What the forge lists: the jobs of each run its own, none twice in a list.\<close>

definition lists_of :: "rerun_world \<Rightarrow> (int \<Rightarrow> int) \<Rightarrow> bool" where
  "lists_of w owner \<longleftrightarrow> (\<forall>n runID jobs. listWholeRunJobs runID (rwPages w n runID) = Inr jobs \<longrightarrow>
     distinct (map fjID jobs) \<and> (\<forall>j \<in> set jobs. owner (fjID j) = runID))"

definition asked_ids :: "rerun_state \<Rightarrow> int list" where
  "asked_ids s = map fst (rsAsked s)"

lemma asked_simps [simp]:
  "asked_ids (s\<lparr>rsReads := n\<rparr>) = asked_ids s" "asked_ids (s\<lparr>rsRestarted := r\<rparr>) = asked_ids s"
  by (simp_all add: asked_ids_def)

lemma askJob_asked: "asked_ids (snd (askJob w jobs ids k s)) = asked_ids s @ [hd ids]"
  by (auto simp: askJob_def asked_ids_def Let_def split: option.splits)

lemma readJobsNow_asked: "asked_ids (snd (readJobsNow w runID s)) = asked_ids s"
  by (simp add: readJobsNow_def)

lemma rerunRest_asked:
  "rerunRest w runID k ids s = (err, s') \<Longrightarrow> distinct ids \<Longrightarrow>
   \<exists>new. asked_ids s' = asked_ids s @ new \<and> distinct new \<and> set new \<subseteq> set ids"
proof (induction w runID k ids s rule: rerunRest.induct)
  case (2 w runID k jobID ids s)
  obtain res s1 where r: "readJobsNow w runID s = (res, s1)" by (cases "readJobsNow w runID s")
  have s1: "asked_ids s1 = asked_ids s" using readJobsNow_asked[of w runID s] r by simp
  show ?case
  proof (cases res)
    case (Inl e)
    then show ?thesis using 2(3) r s1 by auto
  next
    case (Inr jobs)
    show ?thesis
    proof (cases "List.member (failedJobIDs jobs) jobID")
      case False
      then have "rerunRest w runID k ids s1 = (err, s')" using 2(3) r Inr by simp
      from 2(1)[OF r[symmetric] Inr False this] 2(4) s1 show ?thesis by auto
    next
      case True
      obtain err2 s2 where a: "askJob w jobs (jobID # ids) k s1 = (err2, s2)" by (cases "askJob w jobs (jobID # ids) k s1")
      have s2: "asked_ids s2 = asked_ids s @ [jobID]" using askJob_asked[of w jobs "jobID # ids" k s1] a s1 by simp
      show ?thesis
      proof (cases err2)
        case None
        then have "rerunRest w runID k ids s2 = (err, s')" using 2(3) r Inr True a by simp
        from 2(2)[OF r[symmetric] Inr _ a[symmetric] None this] True 2(4) obtain new where
          "asked_ids s' = asked_ids s2 @ new" "distinct new" "set new \<subseteq> set ids" by auto
        then show ?thesis using s2 2(4) by (intro exI[of _ "jobID # new"]) auto
      next
        case (Some e)
        then have "s' = s2" using 2(3) r Inr True a by simp
        then show ?thesis using s2 by (intro exI[of _ "[jobID]"]) auto
      qed
    qed
  qed
qed simp

lemma failed_distinct:
  "lists_of w owner \<Longrightarrow> readJobsNow w runID s = (Inr jobs, s1) \<Longrightarrow>
   distinct (failedJobIDs jobs) \<and> (\<forall>i \<in> set (failedJobIDs jobs). owner i = runID)"
  by (fastforce simp: lists_of_def readJobsNow_def failedJobIDs_def distinct_map_filter)

lemma rerunOfRun_asked:
  assumes "lists_of w owner" "rerunFailedJobsOfRun w runID k s = (err, s')"
  shows "\<exists>new. asked_ids s' = asked_ids s @ new \<and> distinct new \<and> (\<forall>i \<in> set new. owner i = runID)"
proof -
  obtain res s1 where r: "readJobsNow w runID s = (res, s1)" by (cases "readJobsNow w runID s")
  have s1: "asked_ids s1 = asked_ids s" using readJobsNow_asked[of w runID s] r by simp
  show ?thesis
  proof (cases res)
    case (Inl e)
    then show ?thesis using assms(2) r s1 by (auto simp: rerunFailedJobsOfRun_def)
  next
    case (Inr jobs)
    have f: "distinct (failedJobIDs jobs)" "\<forall>i \<in> set (failedJobIDs jobs). owner i = runID"
      using failed_distinct[OF assms(1)] r Inr by blast+
    show ?thesis
    proof (cases "failedJobIDs jobs")
      case Nil
      then show ?thesis using assms(2) r Inr s1 by (auto simp: rerunFailedJobsOfRun_def)
    next
      case (Cons i ids)
      obtain err2 s2 where a: "askJob w jobs (i # ids) k s1 = (err2, s2)" by (cases "askJob w jobs (i # ids) k s1")
      have s2: "asked_ids s2 = asked_ids s @ [i]" using askJob_asked[of w jobs "i # ids" k s1] a s1 by simp
      show ?thesis
      proof (cases err2)
        case None
        then have "rerunRest w runID k ids s2 = (err, s')" using assms(2) r Inr Cons a by (simp add: rerunFailedJobsOfRun_def)
        from rerunRest_asked[OF this] f(1) Cons obtain new where
          "asked_ids s' = asked_ids s2 @ new" "distinct new" "set new \<subseteq> set ids" by auto
        then show ?thesis using s2 f Cons by (intro exI[of _ "i # new"]) auto
      next
        case (Some e)
        then have "s' = s2" using assms(2) r Inr Cons a by (simp add: rerunFailedJobsOfRun_def)
        then show ?thesis using s2 f(2) Cons by (intro exI[of _ "[i]"]) auto
      qed
    qed
  qed
qed

lemma rerunRuns_asked:
  "rerunRuns w ids s = (err, s') \<Longrightarrow> lists_of w owner \<Longrightarrow> distinct ids \<Longrightarrow>
   \<exists>new. asked_ids s' = asked_ids s @ new \<and> distinct new \<and> (\<forall>i \<in> set new. owner i \<in> set ids)"
proof (induction w ids s rule: rerunRuns.induct)
  case (2 w runID ids s)
  obtain err1 s1 where a: "rerunFailedJobsOfRun w runID (int (length ids)) s = (err1, s1)"
    by (cases "rerunFailedJobsOfRun w runID (int (length ids)) s")
  obtain new where new: "asked_ids s1 = asked_ids s @ new" "distinct new" "\<forall>i \<in> set new. owner i = runID"
    using rerunOfRun_asked[OF 2(3) a] by blast
  show ?case
  proof (cases err1)
    case None
    with 2(2) a have "rerunRuns w ids s1 = (err, s')" by simp
    from 2(1)[OF a[symmetric] None this 2(3)] 2(4) obtain new' where
      "asked_ids s' = asked_ids s1 @ new'" "distinct new'" "\<forall>i \<in> set new'. owner i \<in> set ids" by auto
    then show ?thesis using new 2(4) by (intro exI[of _ "new @ new'"]) auto
  next
    case (Some e)
    with 2(2) a have "s' = s1" by simp
    then show ?thesis using new by (intro exI[of _ new]) auto
  qed
qed simp

text \<open>A job is dealt with when it was asked for, or a later list of its run no longer shows it failed.\<close>

definition dealt_with :: "rerun_world \<Rightarrow> int \<Rightarrow> nat \<Rightarrow> rerun_state \<Rightarrow> int \<Rightarrow> bool" where
  "dealt_with w runID n s i \<longleftrightarrow> List.member (asked_ids s) i \<or>
     (\<exists>m jobs. n < m \<and> listWholeRunJobs runID (rwPages w m runID) = Inr jobs \<and> i \<notin> set (failedJobIDs jobs))"

lemma dealt_mono: "dealt_with w runID n s i \<Longrightarrow> set (asked_ids s) \<subseteq> set (asked_ids s') \<Longrightarrow> dealt_with w runID n s' i"
  by (auto simp: dealt_with_def)

lemma askJob_reads: "rsReads (snd (askJob w jobs ids k s)) = rsReads s"
  by (auto simp: askJob_def Let_def split: option.splits)

lemma rerunRest_dealt:
  "rerunRest w runID k ids s = (err, s') \<Longrightarrow> n < rsReads s \<Longrightarrow>
   set (asked_ids s) \<subseteq> set (asked_ids s') \<and> (err = None \<longrightarrow> (\<forall>i \<in> set ids. dealt_with w runID n s' i))"
proof (induction w runID k ids s rule: rerunRest.induct)
  case (2 w runID k jobID ids s)
  obtain res s1 where r: "readJobsNow w runID s = (res, s1)" by (cases "readJobsNow w runID s")
  have s1: "asked_ids s1 = asked_ids s" "rsReads s1 = Suc (rsReads s)" "res = listWholeRunJobs runID (rwPages w (rsReads s) runID)"
    using r by (auto simp: readJobsNow_def)
  show ?case
  proof (cases res)
    case (Inl e)
    then show ?thesis using 2(3) r s1 by auto
  next
    case (Inr jobs)
    show ?thesis
    proof (cases "List.member (failedJobIDs jobs) jobID")
      case False
      then have "rerunRest w runID k ids s1 = (err, s')" using 2(3) r Inr by simp
      from 2(1)[OF r[symmetric] Inr False this] 2(4) s1 have
        "set (asked_ids s) \<subseteq> set (asked_ids s') \<and> (err = None \<longrightarrow> (\<forall>i \<in> set ids. dealt_with w runID n s' i))" by simp
      moreover have "dealt_with w runID n s' jobID"
        using False 2(4) s1(3) Inr by (auto simp: dealt_with_def)
      ultimately show ?thesis by simp
    next
      case True
      obtain err2 s2 where a: "askJob w jobs (jobID # ids) k s1 = (err2, s2)" by (cases "askJob w jobs (jobID # ids) k s1")
      have s2: "asked_ids s2 = asked_ids s @ [jobID]" "rsReads s2 = Suc (rsReads s)"
        using askJob_asked[of w jobs "jobID # ids" k s1] askJob_reads[of w jobs "jobID # ids" k s1] a s1 by simp_all
      show ?thesis
      proof (cases err2)
        case None
        then have "rerunRest w runID k ids s2 = (err, s')" using 2(3) r Inr True a by simp
        from 2(2)[OF r[symmetric] Inr _ a[symmetric] None this] True 2(4) s2 show ?thesis
          by (auto simp: dealt_with_def)
      next
        case (Some e)
        then have "s' = s2" "err = Some e" using 2(3) r Inr True a by simp_all
        then show ?thesis using s2 by auto
      qed
    qed
  qed
qed simp

lemma rerunOfRun_dealt:
  assumes "rerunFailedJobsOfRun w runID k s = (err, s')"
  shows "set (asked_ids s) \<subseteq> set (asked_ids s') \<and> (err = None \<longrightarrow>
    (\<exists>n jobs. listWholeRunJobs runID (rwPages w n runID) = Inr jobs \<and> list_all (dealt_with w runID n s') (failedJobIDs jobs)))"
proof -
  obtain res s1 where r: "readJobsNow w runID s = (res, s1)" by (cases "readJobsNow w runID s")
  have s1: "asked_ids s1 = asked_ids s" "rsReads s1 = Suc (rsReads s)" "res = listWholeRunJobs runID (rwPages w (rsReads s) runID)"
    using r by (auto simp: readJobsNow_def)
  show ?thesis
  proof (cases res)
    case (Inl e)
    then show ?thesis using assms r s1 by (auto simp: rerunFailedJobsOfRun_def)
  next
    case (Inr jobs)
    show ?thesis
    proof (cases "failedJobIDs jobs")
      case Nil
      then show ?thesis using assms r Inr s1 by (auto simp: rerunFailedJobsOfRun_def intro!: exI[of _ "rsReads s"])
    next
      case (Cons i ids)
      obtain err2 s2 where a: "askJob w jobs (i # ids) k s1 = (err2, s2)" by (cases "askJob w jobs (i # ids) k s1")
      have s2: "asked_ids s2 = asked_ids s @ [i]" "rsReads s2 = Suc (rsReads s)"
        using askJob_asked[of w jobs "i # ids" k s1] askJob_reads[of w jobs "i # ids" k s1] a s1 by simp_all
      show ?thesis
      proof (cases err2)
        case None
        then have "rerunRest w runID k ids s2 = (err, s')" using assms r Inr Cons a by (simp add: rerunFailedJobsOfRun_def)
        from rerunRest_dealt[OF this, of "rsReads s"] s2 have
          d: "insert i (set (asked_ids s)) \<subseteq> set (asked_ids s')"
             "err = None \<longrightarrow> list_all (dealt_with w runID (rsReads s) s') ids" by (auto simp: list_all_iff)
        moreover have "dealt_with w runID (rsReads s) s' i" using d(1) by (auto simp: dealt_with_def)
        ultimately show ?thesis using s1(3) Inr Cons by (auto intro!: exI[of _ "rsReads s"] exI[of _ jobs])
      next
        case (Some e)
        then have "s' = s2" "err = Some e" using assms r Inr Cons a by (simp_all add: rerunFailedJobsOfRun_def)
        then show ?thesis using s2 by auto
      qed
    qed
  qed
qed

definition run_dealt_with :: "rerun_world \<Rightarrow> rerun_state \<Rightarrow> int \<Rightarrow> bool" where
  "run_dealt_with w s runID \<longleftrightarrow> (\<exists>n jobs. listWholeRunJobs runID (rwPages w n runID) = Inr jobs \<and>
     list_all (dealt_with w runID n s) (failedJobIDs jobs))"

lemma rerunRuns_dealt:
  "rerunRuns w ids s = (err, s') \<Longrightarrow>
   set (asked_ids s) \<subseteq> set (asked_ids s') \<and> (err = None \<longrightarrow> list_all (run_dealt_with w s') ids)"
proof (induction w ids s rule: rerunRuns.induct)
  case (2 w runID ids s)
  obtain err1 s1 where a: "rerunFailedJobsOfRun w runID (int (length ids)) s = (err1, s1)"
    by (cases "rerunFailedJobsOfRun w runID (int (length ids)) s")
  note d = rerunOfRun_dealt[OF a]
  show ?case
  proof (cases err1)
    case None
    with 2(2) a have "rerunRuns w ids s1 = (err, s')" by simp
    with 2(1)[OF a[symmetric] None] have
      i: "set (asked_ids s1) \<subseteq> set (asked_ids s')" "err = None \<longrightarrow> list_all (run_dealt_with w s') ids" by simp_all
    moreover have "run_dealt_with w s' runID"
      using d None dealt_mono[OF _ i(1)] by (fastforce simp: run_dealt_with_def list_all_iff)
    ultimately show ?thesis using d by auto
  next
    case (Some e)
    with 2(2) a have "s' = s1" "err = Some e" by simp_all
    then show ?thesis using d by simp
  qed
qed simp

text \<open>
  A rerun that succeeds has dealt with every failed job, and none is asked for twice. From a forge that
  lists each run's jobs as its own, no job id is asked for twice however the lists change in between; when
  the rerun returns no error it counts the jobs asked for, all of which restarted, and for each run every
  job its first list showed failed was asked for or no longer read failed in a later list.
\<close>

theorem rerun_asks_each_once:
  assumes "rerunFailedJobs w ids s = ((n, err), s')" "rsAsked s = []" "distinct ids" "lists_of w owner"
  shows "distinct (asked_ids s') \<and>
    (err = None \<longrightarrow> n = int (length (asked_ids s')) \<and> list_all (run_dealt_with w s') ids)"
proof -
  let ?s = "s\<lparr>rsRestarted := []\<rparr>"
  have r: "rerunRuns w ids ?s = (err, s')" and n: "n = int (length (rsRestarted s'))"
    using assms(1) by (auto simp: rerunFailedJobs_def split: prod.splits)
  have s: "asked_ids ?s = []" "all_restarted ?s" using assms(2) by (simp_all add: asked_ids_def all_restarted_def)
  have "distinct (asked_ids s')" using rerunRuns_asked[OF r assms(4,3)] s(1) by auto
  moreover have "err = None \<Longrightarrow> length (rsRestarted s') = length (rsAsked s')"
    using rerunRuns_tells[OF s(2) r] by (simp add: all_restarted_def)
  ultimately show ?thesis using rerunRuns_dealt[OF r] n by (auto simp: asked_ids_def)
qed

subsection \<open>A run of two failed jobs\<close>

text \<open>The first list shows both failed, the next ones the first going; the second request is refused or not.\<close>

definition demo_rerun :: "bool \<Rightarrow> rerun_world" where
  "demo_rerun refuses = \<lparr>
     rwPages = (\<lambda>n runID k. if runID \<noteq> 1 then Inr ([], 0)
       else Inr (if k = 1 then [one_job 11 (if n = 0 then ''failure'' else ''running''), one_job 12 ''failure''] else [], 2)),
     rwPost = (\<lambda>n i. if refuses \<and> n = 1 then Some \<lparr>pfStatus = Some 502, pfChain = [],
       pfError = \<lparr>errText = ''bad gateway'', errClient = None\<rparr>\<rparr> else None)\<rparr>"

definition fresh_rerun :: rerun_state where
  "fresh_rerun = \<lparr>rsReads = 0, rsAsked = [], rsRestarted = []\<rparr>"

lemma demo_lists: "listWholeRunJobs runID (rwPages (demo_rerun refuses) n runID) =
    Inr (if runID = 1 then [one_job 11 (if n = 0 then ''failure'' else ''running''), one_job 12 ''failure''] else [])"
  by (simp add: listWholeRunJobs_def walkActionRunJobs_def demo_rerun_def maxJobPages_def upt_conv_Cons one_job_def)

lemma demo_post: "rwPost (demo_rerun refuses) n i = (if refuses \<and> n = 1 then Some \<lparr>pfStatus = Some 502, pfChain = [],
    pfError = \<lparr>errText = ''bad gateway'', errClient = None\<rparr>\<rparr> else None)"
  by (simp add: demo_rerun_def)

lemma demo_failed: "failedJobIDs [one_job 11 ''failure'', one_job 12 ''failure''] = [11, 12]"
  "failedJobIDs [one_job 11 ''running'', one_job 12 ''failure''] = [12]"
  by (simp_all add: failedJobIDs_def one_job_def checkStateFromWorkflowStatus_def)

lemma demo_run_ends:
  "\<exists>s. rerunFailedJobs (demo_rerun False) [1] fresh_rerun = ((2, None), s)"
  "\<exists>e s. rerunFailedJobs (demo_rerun True) [1] fresh_rerun = ((1, Some e), s)"
  by (simp_all add: rerunFailedJobs_def rerunFailedJobsOfRun_def readJobsNow_def demo_lists demo_failed askJob_def
      jobNames_def fresh_rerun_def Let_def demo_post)

lemma rerun_refusal_tells_witness:
  "\<exists>e s. rerunFailedJobs (demo_rerun True) [1] fresh_rerun = ((1, Some e), s) \<and> tells (demo_rerun True) e s"
proof -
  obtain e s where r: "rerunFailedJobs (demo_rerun True) [1] fresh_rerun = ((1, Some e), s)" using demo_run_ends(2) by blast
  from rerun_refusal_tells[OF this] have "tells (demo_rerun True) e s" by (simp add: fresh_rerun_def)
  with r show ?thesis by blast
qed

lemma rerun_asks_each_once_witness:
  "\<exists>s. rerunFailedJobs (demo_rerun False) [1] fresh_rerun = ((2, None), s) \<and> distinct (asked_ids s) \<and>
     length (asked_ids s) = 2"
proof -
  obtain s where r: "rerunFailedJobs (demo_rerun False) [1] fresh_rerun = ((2, None), s)" using demo_run_ends(1) by blast
  have "lists_of (demo_rerun False) (\<lambda>_. 1)" by (auto simp: lists_of_def demo_lists one_job_def)
  from rerun_asks_each_once[OF r _ _ this] have "distinct (asked_ids s) \<and> length (asked_ids s) = 2"
    by (simp add: fresh_rerun_def)
  with r show ?thesis by blast
qed

end
