(* ===== verification/Server_Version.thy ===== *)
theory Server_Version
  imports Forgejo_Rerun
begin

text \<open>
  The version of a Forgejo instance, which decides whether checks can be rerun there
  (\<open>server_version.go\<close>): a cached answer, read again when it has gone stale, by one reader at a time while
  other clicks wait for it. Every locked section is one step of one thread, and steps interleave freely.
\<close>

section \<open>The cache\<close>

definition firstRerunMajor :: int where "firstRerunMajor = 17"
definition firstForgejoMajor :: int where "firstForgejoMajor = 7"
definition blockedVersionTTL :: duration where "blockedVersionTTL = hour"
definition versionRetryAfter :: duration where "versionRetryAfter = 30 * second"

text \<open>A flight is the channel its waiters hold; it is closed when it is no longer the current one.\<close>

record version_cache =
  vcMajor :: int
  vcKnown :: bool
  vcReadAt :: time
  vcFailedAt :: time
  vcFlight :: "nat option"
  vcNext :: nat

definition new_version_cache :: version_cache where
  "new_version_cache = \<lparr>vcMajor = 0, vcKnown = False, vcReadAt = zero_time, vcFailedAt = zero_time,
     vcFlight = None, vcNext = 0\<rparr>"

definition answerLocked :: "time \<Rightarrow> version_cache \<Rightarrow> int \<times> bool \<times> bool" where
  "answerLocked now v =
     (vcMajor v, vcKnown v,
      if vcFailedAt v \<noteq> zero_time \<and> time_sub now (vcFailedAt v) < versionRetryAfter then True
      else if \<not> vcKnown v then False
      else if vcMajor v \<ge> firstRerunMajor \<or> vcMajor v < firstForgejoMajor then True
      else time_sub now (vcReadAt v) < blockedVersionTTL)"

definition version_fresh :: "time \<Rightarrow> version_cache \<Rightarrow> bool" where
  "version_fresh now v = snd (snd (answerLocked now v))"

definition openFlight :: "version_cache \<Rightarrow> version_cache" where
  "openFlight v = v\<lparr>vcFlight := Some (vcNext v), vcNext := Suc (vcNext v)\<rparr>"

definition versionPeek :: "time \<Rightarrow> version_cache \<Rightarrow> (int \<times> bool \<times> bool) \<times> version_cache" where
  "versionPeek now v = (let (major, known, fresh) = answerLocked now v in
     if fresh \<or> vcFlight v \<noteq> None then ((major, known, False), v) else ((major, known, True), openFlight v))"

definition versionJoin :: "time \<Rightarrow> version_cache \<Rightarrow> (nat option \<times> bool) \<times> version_cache" where
  "versionJoin now v =
     (if vcFlight v \<noteq> None then ((vcFlight v, False), v)
      else if snd (snd (answerLocked now v)) then ((None, False), v) else ((None, True), openFlight v))"

text \<open>Closing a channel that is not there panics: \<open>None\<close>.\<close>

definition versionLand :: "version_cache \<Rightarrow> version_cache option" where
  "versionLand v = (case vcFlight v of None \<Rightarrow> None | Some _ \<Rightarrow> Some (v\<lparr>vcFlight := None\<rparr>))"

definition versionRecord :: "time \<Rightarrow> int \<Rightarrow> bool \<Rightarrow> version_cache \<Rightarrow> version_cache" where
  "versionRecord now major good v =
     (if \<not> good then v\<lparr>vcFailedAt := now, vcKnown :=
          (if vcMajor v \<ge> firstForgejoMajor \<and> vcMajor v < firstRerunMajor then False else vcKnown v)\<rparr>
      else v\<lparr>vcMajor := major, vcKnown := True, vcReadAt := now, vcFailedAt := zero_time\<rparr>)"

text \<open>
  The number \<open>strconv.Atoi\<close> leaves beside its error: the bound passed where the digits are out of range,
  0 where they are not a number.
\<close>

definition atoi_value :: "string \<Rightarrow> int" where
  "atoi_value s = (let (neg, digits) = (case s of [] \<Rightarrow> (False, [])
       | c # r \<Rightarrow> if c = CHR ''-'' then (True, r) else if c = CHR ''+'' then (False, r) else (False, s)) in
     case unsigned_of digits of None \<Rightarrow> 0
     | Some n \<Rightarrow> if neg then max (- (2 ^ 63)) (- int n) else min (2 ^ 63 - 1) (int n))"

definition versionNumber :: "string \<Rightarrow> int" where
  "versionNumber version = (let v = (case cut_prefix version ''v'' of Some r \<Rightarrow> r | None \<Rightarrow> version)
     in atoi_value (fst (cut_or v ''.'')))"

text \<open>The forge's answer to the version request: none, a body that does not decode, or the version in it.\<close>

datatype version_answer = NoVersion | BadVersionBody | VersionText string

definition readVersion :: "time \<Rightarrow> bool \<Rightarrow> version_answer \<Rightarrow> version_cache \<Rightarrow> version_cache" where
  "readVersion now ended answer v = (case answer of
     NoVersion \<Rightarrow> if ended then v else versionRecord now 0 False v
   | BadVersionBody \<Rightarrow> versionRecord now 0 False v
   | VersionText s \<Rightarrow> (let n = versionNumber s in versionRecord now n (n > 0) v))"

section \<open>The threads\<close>

text \<open>Where a click stands in \<open>serverMajorFor\<close>, or a background read in \<open>startVersionRead\<close>.\<close>

datatype version_pc = AtCheck | AtJoin | Reading | Landing | AfterRead | Waiting nat | AtDecide
  | Decided int bool | GaveUp | BgReading | BgLanding | BgOver

record version_env =
  veNow :: time
  veEnded :: bool               \<comment> \<open>the thread's context has ended\<close>
  veAnswer :: version_answer

definition serverMajorFor :: "version_env \<Rightarrow> version_pc \<Rightarrow> version_cache \<Rightarrow> (version_pc \<times> version_cache) option" where
  "serverMajorFor e pc v = (case pc of
     AtCheck \<Rightarrow> Some (if version_fresh (veNow e) v then AtDecide else AtJoin, v)
   | AtJoin \<Rightarrow> (case versionJoin (veNow e) v of
         ((_, True), v') \<Rightarrow> Some (Reading, v')
       | ((None, False), v') \<Rightarrow> Some (AtDecide, v')
       | ((Some f, False), v') \<Rightarrow> Some (Waiting f, v'))
   | Reading \<Rightarrow> Some (Landing, readVersion (veNow e) (veEnded e) (veAnswer e) v)
   | Landing \<Rightarrow> map_option (\<lambda>v'. (AfterRead, v')) (versionLand v)
   | AfterRead \<Rightarrow> Some (if \<not> version_fresh (veNow e) v \<and> veEnded e then GaveUp else AtDecide, v)
   | Waiting f \<Rightarrow> Some (if vcFlight v \<noteq> Some f then AtCheck else if veEnded e then GaveUp else Waiting f, v)
   | AtDecide \<Rightarrow> Some (Decided (vcMajor v) (vcKnown v \<and> vcMajor v \<ge> firstForgejoMajor), v)
   | _ \<Rightarrow> Some (pc, v))"

definition startVersionRead :: "version_env \<Rightarrow> version_pc \<Rightarrow> version_cache \<Rightarrow> (version_pc \<times> version_cache) option" where
  "startVersionRead e pc v = (case pc of
     BgReading \<Rightarrow> Some (BgLanding, readVersion (veNow e) False (veAnswer e) v)
   | BgLanding \<Rightarrow> map_option (\<lambda>v'. (BgOver, v')) (versionLand v)
   | _ \<Rightarrow> Some (pc, v))"

definition serverMajor :: "time \<Rightarrow> version_cache \<Rightarrow> (int \<times> bool) \<times> version_pc list \<times> version_cache" where
  "serverMajor now v = (let ((major, known, start), v') = versionPeek now v
     in ((major, known \<and> major \<ge> firstForgejoMajor), if start then [BgReading] else [], v'))"

definition is_background :: "version_pc \<Rightarrow> bool" where
  "is_background pc \<longleftrightarrow> pc \<in> {BgReading, BgLanding, BgOver}"

definition thread_step :: "version_env \<Rightarrow> version_pc \<Rightarrow> version_cache \<Rightarrow> (version_pc \<times> version_cache) option" where
  "thread_step e pc v = (if is_background pc then startVersionRead e pc v else serverMajorFor e pc v)"

definition errNoRerunRoute :: string where
  "errNoRerunRoute = ''This Forgejo is older than version 17 and has no way to rerun checks. Rerun them on the forge.''"

definition RerunChecksBlockedReason :: "time \<Rightarrow> version_cache \<Rightarrow> string \<times> version_pc list \<times> version_cache" where
  "RerunChecksBlockedReason now v = (case serverMajor now v of
     ((major, known), new, v') \<Rightarrow> (if known \<and> major < firstRerunMajor then errNoRerunRoute else '''', new, v'))"

text \<open>What a click does once its thread is over: refuse, give the wait's error, or go on.\<close>

definition rerunBlocked :: "go_error \<Rightarrow> version_pc \<Rightarrow> go_error option option" where
  "rerunBlocked waitError pc = (case pc of
     GaveUp \<Rightarrow> Some (Some waitError)
   | Decided major known \<Rightarrow> Some (if \<not> known \<or> major \<ge> firstRerunMajor then None else Some (nothingToRerun errNoRerunRoute))
   | _ \<Rightarrow> None)"

section \<open>Any number of clicks and refreshes\<close>

record version_system =
  vsCache :: version_cache
  vsThreads :: "version_pc list"
  vsPanicked :: bool

inductive version_step :: "version_system \<Rightarrow> version_system \<Rightarrow> bool" where
  click: "version_step s (s\<lparr>vsThreads := vsThreads s @ [AtCheck]\<rparr>)"
| refresh: "serverMajor now (vsCache s) = (r, new, v') \<Longrightarrow>
    version_step s (s\<lparr>vsThreads := vsThreads s @ new, vsCache := v'\<rparr>)"
| runs: "i < length (vsThreads s) \<Longrightarrow> thread_step e (vsThreads s ! i) (vsCache s) = Some (pc, v') \<Longrightarrow>
    version_step s (s\<lparr>vsThreads := (vsThreads s)[i := pc], vsCache := v'\<rparr>)"
| panics: "i < length (vsThreads s) \<Longrightarrow> thread_step e (vsThreads s ! i) (vsCache s) = None \<Longrightarrow>
    version_step s (s\<lparr>vsPanicked := True\<rparr>)"

inductive version_reached :: "version_system \<Rightarrow> bool" where
  start: "version_reached \<lparr>vsCache = new_version_cache, vsThreads = [], vsPanicked = False\<rparr>"
| go: "version_reached s \<Longrightarrow> version_step s t \<Longrightarrow> version_reached t"

section \<open>One read at a time\<close>

text \<open>The threads that hold the flight: they read, or have read and not yet let the waiters go.\<close>

definition holds :: "version_pc \<Rightarrow> bool" where
  "holds pc \<longleftrightarrow> pc \<in> {Reading, Landing, BgReading, BgLanding}"

definition holders :: "version_system \<Rightarrow> nat" where
  "holders s = length (filter holds (vsThreads s))"

definition in_flight :: "version_cache \<Rightarrow> nat" where
  "in_flight v = (if vcFlight v = None then 0 else 1)"

definition single_flight :: "version_system \<Rightarrow> bool" where
  "single_flight s \<longleftrightarrow> \<not> vsPanicked s \<and> holders s = in_flight (vsCache s)"

lemma count_update:
  "i < length xs \<Longrightarrow> length (filter P (xs[i := y])) + (if P (xs ! i) then 1 else 0) = length (filter P xs) + (if P y then 1 else 0)"
proof (induction xs arbitrary: i)
  case (Cons x xs)
  then show ?case by (cases i) auto
qed simp

lemma holder_counted: "i < length (vsThreads s) \<Longrightarrow> holds (vsThreads s ! i) \<Longrightarrow> holders s > 0"
  by (auto simp: holders_def filter_empty_conv)

lemma read_flight [simp]: "vcFlight (readVersion now ended answer v) = vcFlight v"
  by (auto simp: readVersion_def versionRecord_def Let_def split: version_answer.splits)

lemma thread_step_flight:
  assumes "thread_step e pc v = Some (pc', v')" "holds pc \<Longrightarrow> vcFlight v \<noteq> None"
  shows "(if holds pc' then 1 else 0) + in_flight v = (if holds pc then 1 else 0) + in_flight v'"
  using assms
  by (cases pc) (auto simp: thread_step_def is_background_def startVersionRead_def serverMajorFor_def versionLand_def
      versionJoin_def openFlight_def holds_def in_flight_def split: option.splits if_splits)

lemma thread_panics: "thread_step e pc v = None \<Longrightarrow> holds pc \<and> vcFlight v = None"
  by (cases pc) (auto simp: thread_step_def is_background_def startVersionRead_def serverMajorFor_def versionLand_def
      versionJoin_def openFlight_def holds_def split: option.splits if_splits)

lemma step_single_flight: "version_step s t \<Longrightarrow> single_flight s \<Longrightarrow> single_flight t"
proof (induction rule: version_step.induct)
  case (click s)
  then show ?case by (simp add: single_flight_def holders_def holds_def)
next
  case (refresh now s r new v')
  then show ?case
    by (auto simp: single_flight_def holders_def holds_def in_flight_def serverMajor_def versionPeek_def openFlight_def
        Let_def split: prod.splits if_splits)
next
  case (runs i s e pc v')
  have f: "holds (vsThreads s ! i) \<Longrightarrow> vcFlight (vsCache s) \<noteq> None"
    using holder_counted[OF runs(1)] runs(3) by (auto simp: single_flight_def in_flight_def split: if_splits)
  show ?case
    using runs(3) thread_step_flight[OF runs(2) f] count_update[OF runs(1), of holds pc]
    by (simp add: single_flight_def holders_def)
next
  case (panics i s e)
  then show ?case
    using thread_panics[OF panics(2)] holder_counted[OF panics(1)] by (auto simp: single_flight_def in_flight_def)
qed

lemma reached_single_flight: "version_reached s \<Longrightarrow> single_flight s"
proof (induction rule: version_reached.induct)
  case start
  show ?case by (simp add: single_flight_def holders_def in_flight_def new_version_cache_def)
next
  case (go s t)
  then show ?case using step_single_flight by blast
qed

text \<open>
  However clicks and refreshes interleave, the version is read by at most one thread at a time and
  nothing panics on a closed channel; and no click waits in vain: while the read it waits for is under way
  some thread holds it, and once that is over the click goes on to look at the answer again.
\<close>

theorem version_single_flight:
  assumes "version_reached s"
  shows "\<not> vsPanicked s \<and> length (filter (\<lambda>pc. pc \<in> {Reading, BgReading}) (vsThreads s)) \<le> 1 \<and>
    (\<forall>i f. i < length (vsThreads s) \<and> vsThreads s ! i = Waiting f \<longrightarrow>
       (if vcFlight (vsCache s) = Some f then \<exists>j < length (vsThreads s). holds (vsThreads s ! j)
        else thread_step e (Waiting f) (vsCache s) = Some (AtCheck, vsCache s)))"
proof -
  have inv: "\<not> vsPanicked s" "holders s = in_flight (vsCache s)"
    using reached_single_flight[OF assms] by (simp_all add: single_flight_def)
  have "length (filter (\<lambda>pc. pc \<in> {Reading, BgReading}) ps) \<le> length (filter holds ps)" for ps
    by (induction ps) (auto simp: holds_def)
  from this[of "vsThreads s"] have one: "length (filter (\<lambda>pc. pc \<in> {Reading, BgReading}) (vsThreads s)) \<le> 1"
    using inv(2) unfolding holders_def in_flight_def by (simp split: if_splits)
  have held: "\<exists>j < length (vsThreads s). holds (vsThreads s ! j)" if "vcFlight (vsCache s) = Some f" for f
  proof -
    have "filter holds (vsThreads s) \<noteq> []" using inv(2) that by (auto simp: holders_def in_flight_def)
    then show ?thesis by (auto simp: filter_empty_conv in_set_conv_nth)
  qed
  have wakes: "thread_step e (Waiting f) (vsCache s) = Some (AtCheck, vsCache s)" if "vcFlight (vsCache s) \<noteq> Some f" for f
    using that by (simp add: thread_step_def is_background_def serverMajorFor_def)
  show ?thesis using inv(1) one held wakes by (simp del: filter.simps)
qed

definition version_demo :: version_system where
  "version_demo = \<lparr>vsCache = openFlight new_version_cache, vsThreads = [Reading, Waiting 0], vsPanicked = False\<rparr>"

lemma demo_reached: "version_reached version_demo"
proof -
  let ?e = "\<lparr>veNow = 0, veEnded = False, veAnswer = NoVersion\<rparr>"
  let ?v = "openFlight new_version_cache"
  let ?s = "\<lambda>v ts. \<lparr>vsCache = v, vsThreads = ts, vsPanicked = False\<rparr>"
  note defs = thread_step_def is_background_def serverMajorFor_def version_fresh_def answerLocked_def versionJoin_def
    openFlight_def new_version_cache_def
  have "version_reached (?s new_version_cache [])" by (rule start)
  from go[OF this click] have "version_reached (?s new_version_cache [AtCheck])" by simp
  from go[OF this click] have a: "version_reached (?s new_version_cache [AtCheck, AtCheck])" by simp
  have "version_step (?s new_version_cache [AtCheck, AtCheck]) (?s new_version_cache [AtJoin, AtCheck])"
    using runs[of 0 "?s new_version_cache [AtCheck, AtCheck]" ?e AtJoin new_version_cache] by (simp add: defs)
  from go[OF a this] have a: "version_reached (?s new_version_cache [AtJoin, AtCheck])" .
  have "version_step (?s new_version_cache [AtJoin, AtCheck]) (?s new_version_cache [AtJoin, AtJoin])"
    using runs[of 1 "?s new_version_cache [AtJoin, AtCheck]" ?e AtJoin new_version_cache] by (simp add: defs)
  from go[OF a this] have a: "version_reached (?s new_version_cache [AtJoin, AtJoin])" .
  have "version_step (?s new_version_cache [AtJoin, AtJoin]) (?s ?v [Reading, AtJoin])"
    using runs[of 0 "?s new_version_cache [AtJoin, AtJoin]" ?e Reading ?v] by (simp add: defs)
  from go[OF a this] have a: "version_reached (?s ?v [Reading, AtJoin])" .
  have "version_step (?s ?v [Reading, AtJoin]) (?s ?v [Reading, Waiting 0])"
    using runs[of 1 "?s ?v [Reading, AtJoin]" ?e "Waiting 0" ?v] by (simp add: defs)
  from go[OF a this] show ?thesis by (simp add: version_demo_def)
qed

lemma version_single_flight_witness:
  "length (filter (\<lambda>pc. pc \<in> {Reading, BgReading}) (vsThreads version_demo)) \<le> 1 \<and> \<not> vsPanicked version_demo"
  using version_single_flight[OF demo_reached, of undefined] by (simp only: simp_thms)

section \<open>A refusal rests on a fresh answer\<close>

text \<open>A click with no other thread about, its steps taken at one time.\<close>

fun run_click :: "nat \<Rightarrow> version_env \<Rightarrow> version_pc \<times> version_cache \<Rightarrow> (version_pc \<times> version_cache) option" where
  "run_click 0 e s = Some s"
| "run_click (Suc n) e s = Option.bind (serverMajorFor e (fst s) (snd s)) (run_click n e)"

definition click_alone :: "version_env \<Rightarrow> version_cache \<Rightarrow> (version_pc \<times> version_cache) option" where
  "click_alone e v = run_click 6 e (AtCheck, v)"

definition blocks :: "int \<Rightarrow> bool" where
  "blocks major \<longleftrightarrow> firstForgejoMajor \<le> major \<and> major < firstRerunMajor"

text \<open>After a read that failed, a block is not kept.\<close>

definition failure_unblocks :: "version_cache \<Rightarrow> bool" where
  "failure_unblocks v \<longleftrightarrow> vcFailedAt v = zero_time \<or> \<not> vcKnown v \<or> \<not> blocks (vcMajor v)"

lemma record_unblocks: "failure_unblocks v \<Longrightarrow> failure_unblocks (versionRecord now major good v)"
  by (auto simp: failure_unblocks_def versionRecord_def blocks_def)

lemma read_unblocks: "failure_unblocks v \<Longrightarrow> failure_unblocks (readVersion now ended answer v)"
  using record_unblocks by (auto simp: readVersion_def Let_def split: version_answer.splits)

lemma flight_unblocks [simp]: "failure_unblocks (v\<lparr>vcFlight := f\<rparr>) = failure_unblocks v"
  "failure_unblocks (openFlight v) = failure_unblocks v"
  by (simp_all add: failure_unblocks_def openFlight_def)

lemma thread_unblocks: "thread_step e pc v = Some (pc', v') \<Longrightarrow> failure_unblocks v \<Longrightarrow> failure_unblocks v'"
  using read_unblocks
  by (cases pc) (auto simp: thread_step_def is_background_def startVersionRead_def serverMajorFor_def versionLand_def
      versionJoin_def split: option.splits if_splits)

lemma reached_unblocks: "version_reached s \<Longrightarrow> failure_unblocks (vsCache s)"
proof (induction rule: version_reached.induct)
  case start
  show ?case by (simp add: failure_unblocks_def new_version_cache_def)
next
  case (go s t)
  from go(2,3) show ?case
    by (cases rule: version_step.cases)
       (auto simp: serverMajor_def versionPeek_def Let_def dest: thread_unblocks split: prod.splits if_splits)
qed

lemma click_alone_result:
  assumes "vcFlight v = None"
  shows "click_alone e v = Some
    (if version_fresh (veNow e) v then (Decided (vcMajor v) (vcKnown v \<and> vcMajor v \<ge> firstForgejoMajor), v)
     else (let v' = (readVersion (veNow e) (veEnded e) (veAnswer e) (openFlight v))\<lparr>vcFlight := None\<rparr> in
       if \<not> version_fresh (veNow e) v' \<and> veEnded e then (GaveUp, v')
       else (Decided (vcMajor v') (vcKnown v' \<and> vcMajor v' \<ge> firstForgejoMajor), v')))"
proof (cases "version_fresh (veNow e) v")
  case True
  then show ?thesis by (simp add: click_alone_def eval_nat_numeral serverMajorFor_def)
next
  case False
  have "versionJoin (veNow e) v = ((None, True), openFlight v)"
    using assms False by (simp add: versionJoin_def version_fresh_def)
  moreover have "versionLand (readVersion (veNow e) (veEnded e) (veAnswer e) (openFlight v)) =
      Some ((readVersion (veNow e) (veEnded e) (veAnswer e) (openFlight v))\<lparr>vcFlight := None\<rparr>)"
    by (simp add: versionLand_def openFlight_def)
  ultimately show ?thesis
    using False by (cases "veEnded e") (simp_all add: click_alone_def eval_nat_numeral serverMajorFor_def Let_def)
qed

lemma fresh_flight [simp]: "version_fresh n (openFlight v) = version_fresh n v"
  "version_fresh n (v\<lparr>vcFlight := f\<rparr>) = version_fresh n v"
  by (simp_all add: version_fresh_def answerLocked_def openFlight_def)

text \<open>An answer that blocks and is trusted was read within the hour.\<close>

lemma trusted_block:
  "failure_unblocks v \<Longrightarrow> version_fresh now v \<Longrightarrow> vcKnown v \<Longrightarrow> blocks (vcMajor v) \<Longrightarrow>
   time_sub now (vcReadAt v) < blockedVersionTTL"
  by (auto simp: failure_unblocks_def version_fresh_def answerLocked_def blocks_def split: if_splits)

text \<open>A read that leaves a block known, from an answer that was not trusted, is one that got it from the forge.\<close>

lemma read_block:
  assumes "\<not> version_fresh now v" "failure_unblocks v" "\<not> (ended \<and> answer = NoVersion)"
    and "vcKnown (readVersion now ended answer v)" "blocks (vcMajor (readVersion now ended answer v))"
  shows "\<exists>text. answer = VersionText text \<and> versionNumber text = vcMajor (readVersion now ended answer v) \<and>
    vcReadAt (readVersion now ended answer v) = now"
  using assms
  by (cases answer) (auto simp: readVersion_def versionRecord_def blocks_def Let_def split: if_splits)

text \<open>
  A click is refused for the instance's version only on an answer it can rest on. From any state clicks
  and refreshes can reach, a click with no read under way ends, and when it says that the forge is too old
  the version is 7 to 16 and was read within the hour: it is the cached answer still trusted, or the one
  the click read itself. A failed read never refuses.
\<close>

theorem refusal_is_fresh:
  assumes "version_reached s" "vcFlight (vsCache s) = None"
  shows "\<exists>pc v'. click_alone e (vsCache s) = Some (pc, v') \<and>
    (case rerunBlocked waitError pc of
       None \<Rightarrow> False
     | Some None \<Rightarrow> True
     | Some (Some err) \<Rightarrow> (pc = GaveUp \<and> err = waitError \<and> veEnded e) \<or>
         (err = nothingToRerun errNoRerunRoute \<and> blocks (vcMajor v') \<and>
          time_sub (veNow e) (vcReadAt v') < blockedVersionTTL \<and>
          (v' = vsCache s \<or> (\<exists>text. veAnswer e = VersionText text \<and> versionNumber text = vcMajor v'))))"
proof -
  let ?v = "vsCache s"
  let ?r = "readVersion (veNow e) (veEnded e) (veAnswer e) (openFlight ?v)"
  have u: "failure_unblocks ?v" by (rule reached_unblocks[OF assms(1)])
  note r = click_alone_result[OF assms(2), of e]
  consider (fresh) "version_fresh (veNow e) ?v"
    | (gone) "\<not> version_fresh (veNow e) ?v" "\<not> version_fresh (veNow e) (?r\<lparr>vcFlight := None\<rparr>)" "veEnded e"
    | (read) "\<not> version_fresh (veNow e) ?v" "version_fresh (veNow e) (?r\<lparr>vcFlight := None\<rparr>) \<or> \<not> veEnded e"
    by blast
  then show ?thesis
  proof cases
    case fresh
    then show ?thesis
      using r trusted_block[OF u fresh] by (auto simp: rerunBlocked_def blocks_def)
  next
    case gone
    then show ?thesis using r by (simp add: rerunBlocked_def Let_def)
  next
    case read
    have nf: "\<not> version_fresh (veNow e) (openFlight ?v)" using read(1) by simp
    have n: "\<not> (veEnded e \<and> veAnswer e = NoVersion)" using read by (auto simp: readVersion_def)
    have "vcKnown ?r \<Longrightarrow> blocks (vcMajor ?r) \<Longrightarrow>
      (\<exists>text. veAnswer e = VersionText text \<and> versionNumber text = vcMajor ?r) \<and> vcReadAt ?r = veNow e"
      using read_block[OF nf _ n] u by auto
    moreover have "time_sub (veNow e) (veNow e) < blockedVersionTTL"
      by (simp add: time_sub_def blockedVersionTTL_def)
    ultimately show ?thesis using r read by (auto simp: rerunBlocked_def blocks_def Let_def)
  qed
qed

lemma idle_reached: "version_reached \<lparr>vsCache = new_version_cache, vsThreads = [], vsPanicked = False\<rparr>"
  by (rule start)

text \<open>A first click on a Forgejo 11 is refused.\<close>

lemma refusal_is_fresh_witness:
  "\<exists>v'. click_alone \<lparr>veNow = 0, veEnded = False, veAnswer = VersionText ''11.0.3''\<rparr> new_version_cache =
      Some (Decided 11 True, v') \<and> blocks (vcMajor v') \<and> time_sub 0 (vcReadAt v') < blockedVersionTTL"
proof -
  let ?e = "\<lparr>veNow = 0, veEnded = False, veAnswer = VersionText ''11.0.3''\<rparr>"
  let ?w = "\<lparr>errText = ''gone'', errClient = None\<rparr>"
  have "versionNumber ''11.0.3'' = 11"
    by (simp add: versionNumber_def cut_prefix_def has_prefix_def cut_or_def cut_def atoi_value_def unsigned_of_def
        is_digit_def digits_val_def digit_val_def)
  then have d: "\<exists>v'. click_alone ?e new_version_cache = Some (Decided 11 True, v')"
    by (simp add: click_alone_result new_version_cache_def version_fresh_def answerLocked_def readVersion_def
        versionRecord_def Let_def openFlight_def firstForgejoMajor_def firstRerunMajor_def)
  have "rerunBlocked ?w (Decided 11 True) = Some (Some (nothingToRerun errNoRerunRoute))"
    by (simp add: rerunBlocked_def firstRerunMajor_def)
  with d refusal_is_fresh[OF idle_reached, of ?e ?w] show ?thesis
    by (auto simp: nothingToRerun_def new_version_cache_def)
qed

end
