(* ===== verification/Github_Rows.thy ===== *)
theory Github_Rows
  imports Github_Checks Rebase_Checkbox
begin

text \<open>
  What the GitHub client makes of its answers about pull requests, issues and repositories
  (\<open>client.go\<close>), and the settling of a green row whose required checks have not reported
  (\<open>required_checks.go\<close>). Decoded answers are records; the mentions in a description are an argument.
\<close>

section \<open>Answers\<close>

record actor =
  acLogin :: string
  acAvatarURL :: string

record pr_commit =
  cmOID :: string
  cmRollup :: "rollup option"

record closing_node =
  cnNumber :: int
  cnURL :: string
  cnRepo :: string

record review_thread =
  rtResolved :: bool
  rtComments :: int

record graphql_pull_request =
  gpState :: string
  gpNumber :: int
  gpTitle :: string
  gpURL :: string
  gpIsDraft :: bool
  gpAuthor :: "actor option"
  gpMergeStateStatus :: string
  gpHeadRefOid :: string
  gpBaseRefName :: string
  gpHeadRefName :: string
  gpBody :: string
  gpCrossRepository :: bool
  gpAutoMergeRequest :: bool
  gpViewerCanEnableAutoMerge :: "bool option"
  gpReviewDecision :: "string option"
  gpReviewRequests :: "(int \<times> string list) option"   \<comment> \<open>the total, and each node's login\<close>
  gpLatestReviews :: "string list option"
  gpClosing :: "closing_node list option"
  gpComments :: "int option"
  gpReviewThreads :: "review_thread list option"
  gpAdditions :: int
  gpDeletions :: int
  gpChangedFiles :: int
  gpLabels :: "label list"
  gpCreatedAt :: time
  gpUpdatedAt :: time
  gpCommits :: "pr_commit list"

record graphql_issue =
  giNumber :: int
  giTitle :: string
  giURL :: string
  giAuthor :: "actor option"
  giLabels :: "label list"
  giCreatedAt :: time
  giUpdatedAt :: time

record graphql_repo =
  grName :: string
  grURL :: string
  grIsArchived :: bool
  grIsFork :: bool
  grViewerPermission :: string
  grCustomOpenGraphImage :: bool
  grOpenGraphImageURL :: string
  grOwner :: string
  grRelease :: "graphql_release option"
  grDefaultBranch :: "branch_ref option"
  grPullRequests :: "graphql_pull_request list"
  grIssuesTotal :: int
  grIssues :: "graphql_issue list"

definition repo_full_name :: "graphql_repo \<Rightarrow> string" where
  "repo_full_name r = grOwner r @ ''/'' @ grName r"

section \<open>One pull request\<close>

definition authorAvatarURL :: "actor option \<Rightarrow> string" where
  "authorAvatarURL a = (case a of None \<Rightarrow> '''' | Some x \<Rightarrow> acAvatarURL x)"

definition authorLogin :: "actor option \<Rightarrow> string" where
  "authorLogin a = (case a of None \<Rightarrow> ''ghost'' | Some x \<Rightarrow> acLogin x)"

definition commit_rollup :: "pr_commit list \<Rightarrow> rollup option" where
  "commit_rollup commits = (case commits of [] \<Rightarrow> None | c # _ \<Rightarrow> cmRollup c)"

definition ciFromRollup :: "pr_commit list \<Rightarrow> ci_status" where
  "ciFromRollup commits = (if commits = [] then CINone else rollupCI (commit_rollup commits))"

definition checkCountsOf :: "pr_commit list \<Rightarrow> check_counts" where
  "checkCountsOf commits = (if commits = [] then no_checks else checkCounts (commit_rollup commits))"

definition failingOnlyForApprovalOf :: "pr_commit list \<Rightarrow> bool" where
  "failingOnlyForApprovalOf commits \<longleftrightarrow> commits \<noteq> [] \<and> failsOnlyForApproval (commit_rollup commits)"

definition awaitingApprovalOf :: "pr_commit list \<Rightarrow> bool" where
  "awaitingApprovalOf commits \<longleftrightarrow> commits \<noteq> [] \<and> awaitingApproval (commit_rollup commits)"

definition rollupIsOfAnotherCommit :: "pr_commit list \<Rightarrow> string \<Rightarrow> bool" where
  "rollupIsOfAnotherCommit commits headOid =
     (case commits of [] \<Rightarrow> False | c # _ \<Rightarrow> cmOID c \<noteq> '''' \<and> headOid \<noteq> '''' \<and> cmOID c \<noteq> headOid)"

definition mergeStatusFromGraphQL :: "string \<Rightarrow> merge_status" where
  "mergeStatusFromGraphQL state =
     (if state = ''CLEAN'' then MergeMergeable
      else if state = ''DIRTY'' then MergeConflicting
      else if state = ''UNSTABLE'' then MergeUnstable
      else if state = ''BLOCKED'' \<or> state = ''HAS_HOOKS'' then MergeBlocked else MergeUnknown)"

definition reviewFromGraphQL :: "graphql_pull_request \<Rightarrow> review_state option" where
  "reviewFromGraphQL p = (case (gpReviewRequests p, gpLatestReviews p) of
     (Some (requested, _), Some states) \<Rightarrow>
       (let approvals = int (length (filter (\<lambda>s. s = ''APPROVED'') states));
            changes = int (length (filter (\<lambda>s. s = ''CHANGES_REQUESTED'') states));
            derived = DeriveReviewDecision approvals changes requested;
            decision = (case gpReviewDecision p of None \<Rightarrow> derived
              | Some d \<Rightarrow> if d = ''APPROVED'' then ReviewApproved
                          else if d = ''CHANGES_REQUESTED'' then ReviewChangesRequested
                          else if d = ''REVIEW_REQUIRED'' then ReviewRequired else derived)
        in Some \<lparr>rvDecision = decision, rvApprovals = approvals, rvRequestedReviewers = requested\<rparr>)
   | _ \<Rightarrow> None)"

definition reviewThreadCounts :: "graphql_pull_request \<Rightarrow> int \<times> int" where
  "reviewThreadCounts p = (case gpReviewThreads p of None \<Rightarrow> (0, 0)
     | Some ts \<Rightarrow> (sum_list (map rtComments ts), int (length (filter (\<lambda>t. \<not> rtResolved t) ts))))"

definition conversationCount :: "graphql_pull_request \<Rightarrow> int" where
  "conversationCount p = (case gpComments p of None \<Rightarrow> 0 | Some n \<Rightarrow> n)"

definition closingIssuesFromGraphQL :: "graphql_pull_request \<Rightarrow> issue_ref list" where
  "closingIssuesFromGraphQL p = (case gpClosing p of None \<Rightarrow> []
     | Some ns \<Rightarrow> map (\<lambda>n. \<lparr>irRepo = cnRepo n, irNumber = cnNumber n, irURL = cnURL n\<rparr>)
                   (filter (\<lambda>n. cnNumber n > 0 \<and> cnURL n \<noteq> '''') ns))"

definition requestedReviewerLoginsFromGraphQL :: "graphql_pull_request \<Rightarrow> string list" where
  "requestedReviewerLoginsFromGraphQL p = (case gpReviewRequests p of None \<Rightarrow> []
     | Some (_, logins) \<Rightarrow> filter (\<lambda>l. l \<noteq> '''') logins)"

definition heldByForge :: "bool \<Rightarrow> auto_merge_holder option" where
  "heldByForge enabled = (if enabled then Some AutoMergeHeldByForge else None)"

type_synonym mentions = "string \<Rightarrow> graphql_pull_request \<Rightarrow> issue_ref list"

definition mapPullRequest :: "mentions \<Rightarrow> string \<Rightarrow> graphql_pull_request \<Rightarrow> pull_request" where
  "mapPullRequest mentionsIn fullName p =
     (let (comments, unresolved) = reviewThreadCounts p;
          other = rollupIsOfAnotherCommit (gpCommits p) (gpHeadRefOid p)
      in \<lparr>prForge = ForgeGitHub, prRepo = fullName, prNumber = gpNumber p, prTitle = gpTitle p, prURL = gpURL p,
          prAuthor = authorLogin (gpAuthor p), prAuthorAvatarURL = authorAvatarURL (gpAuthor p),
          prDraft = gpIsDraft p, prLabels = gpLabels p, prCreatedAt = gpCreatedAt p, prUpdatedAt = gpUpdatedAt p,
          prCI = (if other then CIPending else ciFromRollup (gpCommits p)),
          prChecks = (if other then no_checks else checkCountsOf (gpCommits p)),
          prMergeStatus = mergeStatusFromGraphQL (gpMergeStateStatus p),
          prBehind = (gpMergeStateStatus p = ''BEHIND''), prBaseBranch = gpBaseRefName p,
          prHeadBranch = gpHeadRefName p, prCrossRepository = gpCrossRepository p,
          prStack = None, prStackedOn = None, prStackChildren = [], prBotRequest = None, prUpdateRequest = None,
          prRequestedReviewerLogins = requestedReviewerLoginsFromGraphQL p, prReviewComments = comments,
          prConversationComments = conversationCount p, prClosesIssues = closingIssuesFromGraphQL p,
          prMentionsIssues = mentionsIn fullName p, prUnresolvedThreads = Some unresolved,
          prAwaitingWorkflowApproval = (\<not> other \<and> awaitingApprovalOf (gpCommits p)),
          prFailingOnlyForApproval = (\<not> other \<and> failingOnlyForApprovalOf (gpCommits p)),
          prHeadSHA = gpHeadRefOid p,
          prRenovateRebaseRequested = (RebaseCheckboxOf (gpBody p) = RebaseCheckboxTicked),
          prEmpty = (gpAdditions p = 0 \<and> gpDeletions p = 0 \<and> gpChangedFiles p = 0),
          prAutoMergeEnabled = Some (gpAutoMergeRequest p), prAutoMergeHeldBy = heldByForge (gpAutoMergeRequest p),
          prAutoMergeAllowed = gpViewerCanEnableAutoMerge p, prReview = reviewFromGraphQL p\<rparr>)"

definition mapIssue :: "string \<Rightarrow> graphql_issue \<Rightarrow> issue" where
  "mapIssue fullName i = \<lparr>isForge = ForgeGitHub, isRepo = fullName, isNumber = giNumber i, isTitle = giTitle i,
     isURL = giURL i, isAuthor = authorLogin (giAuthor i), isAuthorAvatarURL = authorAvatarURL (giAuthor i),
     isLabels = giLabels i, isCreatedAt = giCreatedAt i, isUpdatedAt = giUpdatedAt i\<rparr>"

section \<open>Repositories\<close>

definition hasWriteAccess :: "string \<Rightarrow> bool" where
  "hasWriteAccess permission \<longleftrightarrow> permission \<in> {''ADMIN'', ''MAINTAIN'', ''WRITE''}"

definition canManageWebhooks :: "string \<Rightarrow> bool" where
  "canManageWebhooks permission \<longleftrightarrow> permission = ''ADMIN''"

definition trackedRepos :: "graphql_repo list \<Rightarrow> graphql_repo list" where
  "trackedRepos repos = filter (\<lambda>r. \<not> (grIsArchived r \<or> grIsFork r \<or> \<not> hasWriteAccess (grViewerPermission r))) repos"

record hook_probe =
  hpHas :: bool
  hpRefused :: bool
  hpActive :: bool
  hpEvents :: "string list"

definition no_probe :: hook_probe where
  "no_probe = \<lparr>hpHas = False, hpRefused = False, hpActive = False, hpEvents = []\<rparr>"

definition vouchesForChecks :: "hook_probe \<Rightarrow> bool" where
  "vouchesForChecks p \<longleftrightarrow> hpHas p \<and> hpActive p \<and>
     (List.member (hpEvents p) ''check_run'' \<or> List.member (hpEvents p) ''status'')"

definition logoHost :: string where
  "logoHost = ''repository-images.githubusercontent.com''"

definition repoLogoURL :: "graphql_repo \<Rightarrow> string" where
  "repoLogoURL r =
     (if \<not> grCustomOpenGraphImage r then ''''
      else if url_hostname (grOpenGraphImageURL r) \<noteq> Some logoHost \<or>
              map_option fst (get_scheme (fst (cut_or (grOpenGraphImageURL r) ''#''))) \<noteq> Some ''https'' then ''''
      else grOpenGraphImageURL r)"

definition repoFrom :: "string \<Rightarrow> graphql_repo \<Rightarrow> hook_probe \<Rightarrow> bool \<Rightarrow> repo" where
  "repoFrom fullName r probe appAuthenticated = \<lparr>rpForge = ForgeGitHub, rpFullName = fullName, rpURL = grURL r,
     rpLogoURL = repoLogoURL r, rpHasWebhook = hpHas probe,
     rpCanManageWebhooks = (if appAuthenticated then \<not> hpRefused probe else canManageWebhooks (grViewerPermission r)),
     rpWebhookLockedByConnection = (appAuthenticated \<and> hpRefused probe), rpWebhookNeedsToken = False,
     rpStaleSince = None, rpFailingSince = None\<rparr>"

section \<open>Behind or not\<close>

definition ambiguousMergeState :: "string \<Rightarrow> bool" where
  "ambiguousMergeState status \<longleftrightarrow> status \<noteq> ''BEHIND''"

record behind_check =
  bhIndex :: nat
  bhOwner :: string
  bhName :: string
  bhNumber :: int
  bhHead :: string

text \<open>How many commits the forge says each one asked about is behind; \<open>None\<close> where the request failed.\<close>

definition resolveAmbiguousBehind :: "(behind_check list \<Rightarrow> (nat \<rightharpoonup> int) option) \<Rightarrow> behind_check list \<Rightarrow>
    pull_request list \<Rightarrow> pull_request list" where
  "resolveAmbiguousBehind compare checks prs =
     (if checks = [] then prs
      else (case compare checks of None \<Rightarrow> prs
        | Some resp \<Rightarrow> fold (\<lambda>(i, chk) prs. case resp i of
              Some n \<Rightarrow> if n > 0 then prs[bhIndex chk := (prs ! bhIndex chk)\<lparr>prBehind := True\<rparr>] else prs
            | None \<Rightarrow> prs) (zip [0..<length checks] checks) prs))"

section \<open>A row's state and counts agree\<close>

text \<open>
  A rollup as GitHub documents it: counts are not negative and one per state, a rollup that is not failing
  has no failed context, and a failing one has a failed, held or cancelled one.
\<close>

definition honest_rollup :: "rollup \<Rightarrow> bool" where
  "honest_rollup r \<longleftrightarrow> (case ruContexts r of None \<Rightarrow> True
     | Some cs \<Rightarrow> list_all (\<lambda>c. scCount c \<ge> 0) (rcRunCounts cs @ rcStatusCounts cs) \<and>
         distinct (map scState (rcRunCounts cs)) \<and>
         (if ruState r = ''ERROR'' \<or> ruState r = ''FAILURE''
          then hasFailedContext cs \<lparr>heldRun = True, cancelledRun = True\<rparr>
          else \<not> hasFailedContext cs \<lparr>heldRun = False, cancelledRun = False\<rparr>))"

lemma map_fields:
  fixes m fullName p
  defines "row \<equiv> mapPullRequest m fullName p" and "other \<equiv> rollupIsOfAnotherCommit (gpCommits p) (gpHeadRefOid p)"
  shows "prCI row = (if other then CIPending else ciFromRollup (gpCommits p))"
    "prChecks row = (if other then no_checks else checkCountsOf (gpCommits p))"
    "prAwaitingWorkflowApproval row = (\<not> other \<and> awaitingApprovalOf (gpCommits p))"
    "prFailingOnlyForApproval row = (\<not> other \<and> failingOnlyForApprovalOf (gpCommits p))"
  by (simp_all add: row_def other_def mapPullRequest_def Let_def split: prod.splits)

definition failing_run :: "state_count \<Rightarrow> bool" where
  "failing_run c \<longleftrightarrow> failedRun \<lparr>heldRun = False, cancelledRun = False\<rparr> (scState c)"

definition failing_status :: "state_count \<Rightarrow> bool" where
  "failing_status c \<longleftrightarrow> scState c = ''FAILURE'' \<or> scState c = ''ERROR''"

lemma tallyRun_failed: "Failed (tallyRun c out) = Failed out + (if failing_run c then scCount c else 0)"
  by (auto simp: tallyRun_def failing_run_def failedRun_def)

lemma tallyStatus_failed: "Failed (tallyStatus c out) = Failed out + (if failing_status c then scCount c else 0)"
  by (auto simp: tallyStatus_def failing_status_def)

lemma tally_failed:
  "Failed (fold tallyRun rs out) = Failed out + sum_list (map (\<lambda>c. if failing_run c then scCount c else 0) rs)"
  "Failed (fold tallyStatus rs out) = Failed out + sum_list (map (\<lambda>c. if failing_status c then scCount c else 0) rs)"
  by (induction rs arbitrary: out) (simp_all add: tallyRun_failed tallyStatus_failed)

lemma sum_counts_pos:
  assumes "list_all (\<lambda>c. scCount c \<ge> 0) cs"
  shows "sum_list (map (\<lambda>c. if P c then scCount c else 0) cs) \<ge> 0"
    and "sum_list (map (\<lambda>c. if P c then scCount c else 0) cs) > 0 \<longleftrightarrow> list_ex (\<lambda>c. scCount c > 0 \<and> P c) cs"
  using assms by (induction cs) (auto simp: add_pos_nonneg add_nonneg_pos)

lemma raw_failed:
  assumes "honest_rollup r" "ruContexts r = Some cs"
  shows "Failed (rawCheckCounts (Some r)) \<ge> 0"
    and "Failed (rawCheckCounts (Some r)) > 0 \<longleftrightarrow> hasFailedContext cs \<lparr>heldRun = False, cancelledRun = False\<rparr>"
proof -
  have n: "list_all (\<lambda>c. scCount c \<ge> 0) (rcRunCounts cs)" "list_all (\<lambda>c. scCount c \<ge> 0) (rcStatusCounts cs)"
    using assms by (simp_all add: honest_rollup_def)
  let ?a = "sum_list (map (\<lambda>c. if failing_run c then scCount c else 0) (rcRunCounts cs))"
  let ?b = "sum_list (map (\<lambda>c. if failing_status c then scCount c else 0) (rcStatusCounts cs))"
  have f: "Failed (rawCheckCounts (Some r)) = ?a + ?b"
    using assms(2) by (simp add: rawCheckCounts_def rollupContexts_def tally_failed no_checks_def)
  note a = sum_counts_pos[OF n(1), of failing_run] and b = sum_counts_pos[OF n(2), of failing_status]
  show "Failed (rawCheckCounts (Some r)) \<ge> 0" using f a(1) b(1) by simp
  have "?a + ?b > 0 \<longleftrightarrow> ?a > 0 \<or> ?b > 0" using a(1) b(1) by linarith
  then show "Failed (rawCheckCounts (Some r)) > 0 \<longleftrightarrow> hasFailedContext cs \<lparr>heldRun = False, cancelledRun = False\<rparr>"
    unfolding f using a(2) b(2) by (auto simp: hasFailedContext_def failing_run_def failing_status_def)
qed

lemma failed_kinds:
  "hasFailedContext cs \<lparr>heldRun = h, cancelledRun = k\<rparr> \<longleftrightarrow> hasFailedContext cs \<lparr>heldRun = False, cancelledRun = False\<rparr> \<or>
     (h \<and> list_ex (\<lambda>c. scState c = ''ACTION_REQUIRED'' \<and> scCount c > 0) (rcRunCounts cs)) \<or>
     (k \<and> list_ex (\<lambda>c. scState c = ''CANCELLED'' \<and> scCount c > 0) (rcRunCounts cs))"
  by (auto simp: hasFailedContext_def failedRun_def list_ex_iff split: if_splits)

lemma cancelled_counted:
  assumes "honest_rollup r" "ruContexts r = Some cs"
    and "list_ex (\<lambda>c. scState c = ''CANCELLED'' \<and> scCount c > 0) (rcRunCounts cs)"
  shows "runsInState (Some r) ''CANCELLED'' > 0"
proof -
  from assms(3) obtain c where c: "c \<in> set (rcRunCounts cs)" "scState c = ''CANCELLED''" "scCount c > 0"
    by (auto simp: list_ex_iff)
  have d: "distinct (map scState (rcRunCounts cs))" using assms(1,2) by (simp add: honest_rollup_def)
  obtain c' where c': "find (\<lambda>c. scState c = ''CANCELLED'') (rcRunCounts cs) = Some c'"
    using c by (cases "find (\<lambda>c. scState c = ''CANCELLED'') (rcRunCounts cs)") (auto simp: find_None_iff)
  from find_Some_P[OF c'] have "c' = c" using c d by (auto simp: distinct_map inj_on_def)
  then show ?thesis using c c' assms(2) by (simp add: runsInState_def rollupContexts_def)
qed

text \<open>
  The state, counts and approval flags of a GitHub row agree. From rollups as GitHub documents them, a
  row that reads pending counts no failed check; a row that reads failing, where counts came with the
  rollup, counts a failed check or waits for approval; and a row said to fail only for approval does wait
  for it and counts no failed check but cancelled ones.
\<close>

theorem row_counts_agree:
  assumes "row = mapPullRequest m fullName p" "case commit_rollup (gpCommits p) of None \<Rightarrow> True | Some r \<Rightarrow> honest_rollup r"
  shows "(prCI row = CIPending \<longrightarrow> Failed (prChecks row) = 0) \<and>
    (prCI row = CIFailure \<and> rollupContexts (commit_rollup (gpCommits p)) \<noteq> None \<longrightarrow>
       Failed (prChecks row) > 0 \<or> prAwaitingWorkflowApproval row) \<and>
    (prFailingOnlyForApproval row \<longrightarrow> prAwaitingWorkflowApproval row \<and> Failed (prChecks row) = 0)"
proof (cases "rollupIsOfAnotherCommit (gpCommits p) (gpHeadRefOid p) \<or> gpCommits p = []")
  case True
  then show ?thesis unfolding assms(1) map_fields
    by (auto simp: no_checks_def ciFromRollup_def checkCountsOf_def awaitingApprovalOf_def failingOnlyForApprovalOf_def
        commit_rollup_def rollupContexts_def rollupIsOfAnotherCommit_def)
next
  case False
  let ?ro = "commit_rollup (gpCommits p)"
  have row: "prCI row = rollupCI ?ro" "prChecks row = checkCounts ?ro" "prAwaitingWorkflowApproval row = awaitingApproval ?ro"
    "prFailingOnlyForApproval row = failsOnlyForApproval ?ro"
    using False unfolding assms(1) map_fields
    by (auto simp: ciFromRollup_def checkCountsOf_def awaitingApprovalOf_def failingOnlyForApprovalOf_def)
  show ?thesis
  proof (cases "rollupContexts ?ro")
    case None
    then show ?thesis unfolding row
      by (auto simp: checkCounts_def rawCheckCounts_def runsInState_def no_checks_def failsOnlyForApproval_def awaitingApproval_def Let_def)
  next
    case (Some cs)
    then obtain r where r: "?ro = Some r" "ruContexts r = Some cs" by (auto simp: rollupContexts_def bind_eq_Some_conv)
    have h: "honest_rollup r" using assms(2) r by simp
    let ?plain = "hasFailedContext cs \<lparr>heldRun = False, cancelledRun = False\<rparr>"
    let ?held = "list_ex (\<lambda>c. scState c = ''ACTION_REQUIRED'' \<and> scCount c > 0) (rcRunCounts cs)"
    let ?cancelled = "list_ex (\<lambda>c. scState c = ''CANCELLED'' \<and> scCount c > 0) (rcRunCounts cs)"
    have raw: "Failed (rawCheckCounts ?ro) \<ge> 0" "Failed (rawCheckCounts ?ro) > 0 \<longleftrightarrow> ?plain"
      using raw_failed[OF h r(2)] r(1) by simp_all
    have f: "Failed (checkCounts ?ro) = (if ?plain then Failed (rawCheckCounts ?ro)
        else if rollupCI ?ro = CIFailure then runsInState ?ro ''CANCELLED'' else 0)"
      using raw by (auto simp: checkCounts_def Let_def)
    have aw: "awaitingApproval ?ro = ?held" using Some by (simp add: awaitingApproval_def)
    have pending: "rollupCI ?ro = CIPending \<Longrightarrow> \<not> ?plain"
      using h r by (auto simp: rollupCI_def honest_rollup_def settleFailedRollup_def failed_kinds[of cs True False] Let_def
          split: if_splits)
    have failing: "rollupCI ?ro = CIFailure \<Longrightarrow> ?plain \<or> ?held \<or> ?cancelled"
      using h r by (auto simp: rollupCI_def honest_rollup_def failed_kinds[of cs True True] split: if_splits)
    have cancelled: "?cancelled \<Longrightarrow> runsInState ?ro ''CANCELLED'' > 0" using cancelled_counted[OF h r(2)] r(1) by simp
    have only: "failsOnlyForApproval ?ro \<Longrightarrow> ?held \<and> \<not> ?plain \<and> \<not> ?cancelled"
      using Some aw by (auto simp: failsOnlyForApproval_def failed_kinds[of cs False True] split: if_splits)
    have none: "\<not> ?cancelled \<Longrightarrow> \<not> runsInState ?ro ''CANCELLED'' > 0"
      using Some by (auto simp: runsInState_def list_ex_iff dest!: find_Some_P split: option.splits)
    have nonneg: "runsInState ?ro ''CANCELLED'' \<ge> 0"
      using h r Some by (auto simp: runsInState_def honest_rollup_def list_all_iff dest!: find_Some_P split: option.splits)
    show ?thesis unfolding row f aw using raw pending failing cancelled only none nonneg by auto
  qed
qed

subsection \<open>A pull request with a cancelled and a running check\<close>

definition demo_commit :: "string \<Rightarrow> state_count list \<Rightarrow> pr_commit" where
  "demo_commit state runs = \<lparr>cmOID = ''abc'', cmRollup = Some \<lparr>ruState = state,
     ruContexts = Some \<lparr>rcRunCounts = runs, rcStatusCounts = [], rcNodes = []\<rparr>, ruJobsCut = False\<rparr>\<rparr>"

definition demo_node :: "string \<Rightarrow> pr_commit \<Rightarrow> graphql_pull_request" where
  "demo_node mergeState c = \<lparr>gpState = ''OPEN'', gpNumber = 7, gpTitle = ''Fix'', gpURL = ''https://github.com/o/r/pull/7'',
     gpIsDraft = False, gpAuthor = None, gpMergeStateStatus = mergeState, gpHeadRefOid = ''abc'',
     gpBaseRefName = ''main'', gpHeadRefName = ''fix'', gpBody = '''', gpCrossRepository = False,
     gpAutoMergeRequest = False, gpViewerCanEnableAutoMerge = None, gpReviewDecision = None,
     gpReviewRequests = None, gpLatestReviews = None, gpClosing = None, gpComments = None,
     gpReviewThreads = None, gpAdditions = 1, gpDeletions = 0, gpChangedFiles = 1, gpLabels = [],
     gpCreatedAt = 0, gpUpdatedAt = 0, gpCommits = [c]\<rparr>"

definition superseded_runs :: "state_count list" where
  "superseded_runs = [\<lparr>scState = ''CANCELLED'', scCount = 2\<rparr>, \<lparr>scState = ''IN_PROGRESS'', scCount = 1\<rparr>]"

lemma row_counts_agree_witness:
  "Failed (prChecks (mapPullRequest (\<lambda>_ _. []) ''o/r'' (demo_node ''BLOCKED'' (demo_commit ''FAILURE'' superseded_runs)))) = 0"
proof -
  let ?p = "demo_node ''BLOCKED'' (demo_commit ''FAILURE'' superseded_runs)"
  have c: "gpCommits ?p = [demo_commit ''FAILURE'' superseded_runs]" "gpHeadRefOid ?p = ''abc''"
    by (simp_all add: demo_node_def)
  have h: "case commit_rollup (gpCommits ?p) of None \<Rightarrow> True | Some r \<Rightarrow> honest_rollup r"
    unfolding c by (simp add: commit_rollup_def demo_commit_def honest_rollup_def superseded_runs_def hasFailedContext_def failedRun_def)
  have "prCI (mapPullRequest (\<lambda>_ _. []) ''o/r'' ?p) = CIPending"
    unfolding map_fields c
    by (simp add: rollupIsOfAnotherCommit_def demo_commit_def ciFromRollup_def commit_rollup_def rollupCI_def
        settleFailedRollup_def hasFailedContext_def failedRun_def superseded_runs_def runningCheckRunStates_def)
  with row_counts_agree[OF refl h, of "\<lambda>_ _. []" "''o/r''"] show ?thesis by blast
qed

end
