(* ===== verification/Github_Required.thy ===== *)
theory Github_Required
  imports Github_Rows
begin

text \<open>
  Required checks that have not reported (\<open>required_checks.go\<close>): a pull request whose rollup reads success
  while GitHub blocks it is compared with the contexts its base branch requires. Lookups are answered by a
  parameter, \<open>None\<close> for one that failed; what they taught is kept for a while.
\<close>

section \<open>What the lookups taught\<close>

definition requiredContextsTTL :: duration where "requiredContextsTTL = 5 * minute"
definition partialContextsTTL :: duration where "partialContextsTTL = minute"
definition heldRunsTTL :: duration where "heldRunsTTL = minute"

record held_answer =
  haHeld :: bool
  haUnknown :: bool
  haFetched :: time
  haRunURL :: string

record required_contexts =
  rcNames :: "string list"
  rcAnswered :: bool
  rcFetched :: time

record required_checks =
  rqComplete :: "string list"
  rqContexts :: "string \<rightharpoonup> required_contexts"
  rqHeld :: "string \<rightharpoonup> held_answer"

definition no_required_checks :: required_checks where
  "no_required_checks = \<lparr>rqComplete = [], rqContexts = Map.empty, rqHeld = Map.empty\<rparr>"

definition cachedHeld :: "time \<Rightarrow> string \<Rightarrow> required_checks \<Rightarrow> held_answer option" where
  "cachedHeld now sha r = (case rqHeld r sha of None \<Rightarrow> None
     | Some a \<Rightarrow> if time_sub now (haFetched a) > heldRunsTTL then None else Some a)"

definition storeAnswer :: "time \<Rightarrow> string \<Rightarrow> held_answer \<Rightarrow> required_checks \<Rightarrow> required_checks" where
  "storeAnswer now sha answer r = r\<lparr>rqHeld := (\<lambda>k. case rqHeld r k of None \<Rightarrow> None
     | Some a \<Rightarrow> if time_sub now (haFetched a) > heldRunsTTL then None else Some a)(sha \<mapsto> answer)\<rparr>"

definition storeHeld :: "time \<Rightarrow> string \<Rightarrow> bool \<Rightarrow> string \<Rightarrow> required_checks \<Rightarrow> required_checks" where
  "storeHeld now sha held runURL r =
     storeAnswer now sha \<lparr>haHeld = held, haUnknown = False, haFetched = now, haRunURL = runURL\<rparr> r"

definition storeUnknownHeld :: "time \<Rightarrow> string \<Rightarrow> required_checks \<Rightarrow> required_checks" where
  "storeUnknownHeld now sha r =
     storeAnswer now sha \<lparr>haHeld = False, haUnknown = True, haFetched = now, haRunURL = ''''\<rparr> r"

definition isComplete :: "string \<Rightarrow> required_checks \<Rightarrow> bool" where
  "isComplete sha r = List.member (rqComplete r) sha"

definition markComplete :: "string \<Rightarrow> required_checks \<Rightarrow> required_checks" where
  "markComplete sha r = (if isComplete sha r then r else r\<lparr>rqComplete := sha # rqComplete r\<rparr>)"

definition cachedContexts :: "time \<Rightarrow> string \<Rightarrow> required_checks \<Rightarrow> (string list \<times> bool) option" where
  "cachedContexts now key r = (case rqContexts r key of None \<Rightarrow> None
     | Some e \<Rightarrow> if time_sub now (rcFetched e) > (if rcAnswered e then requiredContextsTTL else partialContextsTTL) then None
                 else Some (rcNames e, rcAnswered e))"

definition storeContexts :: "time \<Rightarrow> string \<Rightarrow> string list \<Rightarrow> bool \<Rightarrow> required_checks \<Rightarrow> bool \<times> required_checks" where
  "storeContexts now key names answered r =
     (\<not> answered \<and> (case rqContexts r key of None \<Rightarrow> True | Some p \<Rightarrow> rcAnswered p),
      r\<lparr>rqContexts := (rqContexts r)(key \<mapsto> \<lparr>rcNames = names, rcAnswered = answered, rcFetched = now\<rparr>)\<rparr>)"

section \<open>The lookups\<close>

text \<open>
  What GitHub answers: the contexts of the branch protection and of the rulesets, a commit's check runs as
  name and status, its commit statuses as context and state, and how many of its runs are held.
\<close>

record required_world =
  rwProtection :: "string \<Rightarrow> string \<Rightarrow> string \<Rightarrow> string list option"
  rwRulesets :: "string \<Rightarrow> string \<Rightarrow> string \<Rightarrow> string list option"
  rwRuns :: "string \<Rightarrow> string \<Rightarrow> string \<Rightarrow> (string \<times> string) list option"
  rwStatuses :: "string \<Rightarrow> string \<Rightarrow> string \<Rightarrow> (string \<times> string) list option"
  rwHeld :: "string \<Rightarrow> string \<Rightarrow> string \<Rightarrow> int option"
  rwNow :: time

record missing_check =
  msIndex :: nat
  msOwner :: string
  msName :: string
  msBase :: string
  msHead :: string
  msOnlyChecksCanBlock :: bool

definition requiredCheckCandidate :: "ci_status \<Rightarrow> string \<Rightarrow> bool" where
  "requiredCheckCandidate ci mergeState \<longleftrightarrow> ci = CISuccess \<and> mergeState = ''BLOCKED''"

definition onlyChecksCanBlock :: "graphql_pull_request \<Rightarrow> bool" where
  "onlyChecksCanBlock p =
     (if gpIsDraft p then False
      else (case gpReviewDecision p of None \<Rightarrow> True
        | Some d \<Rightarrow> d \<noteq> ''REVIEW_REQUIRED'' \<and> d \<noteq> ''CHANGES_REQUESTED''))"

definition appendUnreported :: "missing_check list \<Rightarrow> pull_request list \<Rightarrow> string \<Rightarrow> string \<Rightarrow> graphql_pull_request \<Rightarrow>
    missing_check list" where
  "appendUnreported candidates prs owner name p =
     (let idx = length prs - 1 in
      if \<not> requiredCheckCandidate (prCI (prs ! idx)) (gpMergeStateStatus p) then candidates
      else candidates @ [\<lparr>msIndex = idx, msOwner = owner, msName = name, msBase = gpBaseRefName p,
                          msHead = gpHeadRefOid p, msOnlyChecksCanBlock = onlyChecksCanBlock p\<rparr>])"

definition addReportedRuns :: "(string \<times> string) list \<Rightarrow> string list" where
  "addReportedRuns runs =
     (let unfinished = map fst (filter (\<lambda>(_, status). status \<noteq> ''completed'') runs)
      in filter (\<lambda>n. \<not> List.member unfinished n) (map fst (filter (\<lambda>(_, status). status = ''completed'') runs)))"

definition addReportedStatuses :: "(string \<times> string) list \<Rightarrow> string list" where
  "addReportedStatuses statuses = map fst (filter (\<lambda>(_, state). state \<noteq> ''pending'') statuses)"

definition reportedContexts :: "required_world \<Rightarrow> string \<Rightarrow> string \<Rightarrow> string \<Rightarrow> string list option" where
  "reportedContexts w owner name sha = (case rwRuns w owner name sha of None \<Rightarrow> None
     | Some runs \<Rightarrow> (case rwStatuses w owner name sha of None \<Rightarrow> None
         | Some statuses \<Rightarrow> Some (addReportedRuns runs @ addReportedStatuses statuses)))"

definition list_of :: "string list option \<Rightarrow> string list" where
  "list_of o' = (case o' of None \<Rightarrow> [] | Some xs \<Rightarrow> xs)"

definition requiredContextNames :: "required_world \<Rightarrow> missing_check \<Rightarrow> required_checks \<Rightarrow>
    (string list \<times> bool) \<times> required_checks" where
  "requiredContextNames w cand r =
     (let key = msOwner cand @ ''/'' @ msName cand @ ''@'' @ msBase cand in
      case cachedContexts (rwNow w) key r of Some hit \<Rightarrow> (hit, r)
      | None \<Rightarrow>
          (let prot = rwProtection w (msOwner cand) (msName cand) (msBase cand);
               rules = rwRulesets w (msOwner cand) (msName cand) (msBase cand);
               names = list_of prot @ list_of rules;
               answered = (prot \<noteq> None \<and> rules \<noteq> None)
           in ((names, answered), snd (storeContexts (rwNow w) key names answered r))))"

datatype required_verdict = verdictKeepRollup | verdictMissing | verdictComplete | verdictUnreadable

definition hasUnreportedRequired :: "required_world \<Rightarrow> missing_check \<Rightarrow> required_checks \<Rightarrow>
    required_verdict \<times> required_checks" where
  "hasUnreportedRequired w cand r =
     (let ((required, answered), r') = requiredContextNames w cand r in
      if required = [] then (if answered then verdictKeepRollup else verdictUnreadable, r')
      else (case reportedContexts w (msOwner cand) (msName cand) (msHead cand) of
          None \<Rightarrow> (verdictKeepRollup, r')
        | Some reported \<Rightarrow>
            if list_ex (\<lambda>n. \<not> List.member reported n) required then (verdictMissing, r')
            else (if answered then verdictComplete else verdictUnreadable, r')))"

definition hasRunsAwaitingApproval :: "required_world \<Rightarrow> missing_check \<Rightarrow> required_checks \<Rightarrow> bool \<times> required_checks" where
  "hasRunsAwaitingApproval w cand r = (case cachedHeld (rwNow w) (msHead cand) r of
     Some answer \<Rightarrow> (haHeld answer, r)
   | None \<Rightarrow> (case rwHeld w (msOwner cand) (msName cand) (msHead cand) of
        None \<Rightarrow> (False, storeUnknownHeld (rwNow w) (msHead cand) r)
      | Some n \<Rightarrow> (n > 0, storeHeld (rwNow w) (msHead cand) (n > 0) '''' r)))"

section \<open>Settling the rows\<close>

definition settleUnreported :: "required_world \<Rightarrow> missing_check \<Rightarrow> pull_request list \<times> required_checks \<Rightarrow>
    pull_request list \<times> required_checks" where
  "settleUnreported w cand = (\<lambda>(prs, r).
     let (held, r') = hasRunsAwaitingApproval w cand r; pr = prs ! msIndex cand
     in (prs[msIndex cand := (if held then pr\<lparr>prCI := CIFailure, prAwaitingWorkflowApproval := True,
                                              prFailingOnlyForApproval := True\<rparr>
                              else pr\<lparr>prCI := CIPending\<rparr>)], r'))"

definition settleCandidate :: "required_world \<Rightarrow> missing_check \<Rightarrow> pull_request list \<times> required_checks \<Rightarrow>
    pull_request list \<times> required_checks" where
  "settleCandidate w cand = (\<lambda>(prs, r).
     if isComplete (msHead cand) r then (prs, r)
     else (case hasUnreportedRequired w cand r of
         (verdictMissing, r') \<Rightarrow> settleUnreported w cand (prs, r')
       | (verdictUnreadable, r') \<Rightarrow>
           (if msOnlyChecksCanBlock cand then settleUnreported w cand (prs, r') else (prs, r'))
       | (verdictComplete, r') \<Rightarrow> (prs, markComplete (msHead cand) r')
       | (verdictKeepRollup, r') \<Rightarrow> (prs, r')))"

definition settleUnreportedRequiredChecks :: "required_world \<Rightarrow> missing_check list \<Rightarrow>
    pull_request list \<times> required_checks \<Rightarrow> pull_request list \<times> required_checks" where
  "settleUnreportedRequiredChecks w candidates s = fold (settleCandidate w) candidates s"

section \<open>All the rows of one query\<close>

record repo_pull_request =
  rpOwner :: string
  rpName :: string
  rpRepo :: string
  rpNode :: graphql_pull_request

definition addEntry :: "mentions \<Rightarrow> repo_pull_request \<Rightarrow> pull_request list \<times> behind_check list \<times> missing_check list \<Rightarrow>
    pull_request list \<times> behind_check list \<times> missing_check list" where
  "addEntry mentionsIn e = (\<lambda>(prs, behind, unreported).
     let p = rpNode e; prs' = prs @ [mapPullRequest mentionsIn (rpRepo e) p]
     in (prs',
         if ambiguousMergeState (gpMergeStateStatus p)
         then behind @ [\<lparr>bhIndex = length prs' - 1, bhOwner = rpOwner e, bhName = rpName e, bhNumber = gpNumber p,
                         bhHead = gpHeadRefOid p\<rparr>] else behind,
         appendUnreported unreported prs' (rpOwner e) (rpName e) p))"

definition mapPullRequestsAcross :: "mentions \<Rightarrow> (behind_check list \<Rightarrow> (nat \<rightharpoonup> int) option) \<Rightarrow> required_world \<Rightarrow>
    repo_pull_request list \<Rightarrow> required_checks \<Rightarrow> pull_request list \<times> required_checks" where
  "mapPullRequestsAcross mentionsIn compare w entries r =
     (let (prs, behind, unreported) = fold (addEntry mentionsIn) entries ([], [], [])
      in settleUnreportedRequiredChecks w unreported (resolveAmbiguousBehind compare behind prs, r))"

definition mapPullRequests :: "mentions \<Rightarrow> (behind_check list \<Rightarrow> (nat \<rightharpoonup> int) option) \<Rightarrow> required_world \<Rightarrow> string \<Rightarrow> string \<Rightarrow>
    string \<Rightarrow> graphql_pull_request list \<Rightarrow> required_checks \<Rightarrow> pull_request list \<times> required_checks" where
  "mapPullRequests mentionsIn compare w owner name fullName nodes r =
     mapPullRequestsAcross mentionsIn compare w
       (map (\<lambda>p. \<lparr>rpOwner = owner, rpName = name, rpRepo = fullName, rpNode = p\<rparr>) nodes) r"

section \<open>The checks of one pull request\<close>

definition markRequired :: "string list option \<Rightarrow> string list option \<Rightarrow> string \<Rightarrow> check list \<Rightarrow> bool \<times> check list" where
  "markRequired prot rules base checks =
     (if base = '''' then (False, checks)
      else (let required = list_of prot @ list_of rules in
        (list_ex (\<lambda>n. \<not> List.member (map ckName checks) n) required,
         map (\<lambda>c. if List.member required (ckName c) then c\<lparr>ckRequired := Some True\<rparr>
                   else if prot \<noteq> None \<and> rules \<noteq> None then c\<lparr>ckRequired := Some False\<rparr> else c) checks)))"

section \<open>A green row has what its branch requires\<close>

lemma reported_runs_iff:
  "List.member (addReportedRuns runs) n \<longleftrightarrow> (\<exists>s. (n, s) \<in> set runs) \<and> (\<forall>s. (n, s) \<in> set runs \<longrightarrow> s = ''completed'')"
  by (force simp: addReportedRuns_def Let_def)

lemma reported_statuses_iff: "List.member (addReportedStatuses ss) n \<longleftrightarrow> (\<exists>s. (n, s) \<in> set ss \<and> s \<noteq> ''pending'')"
  by (force simp: addReportedStatuses_def)

text \<open>The candidates of a list of entries, the first row having index \<open>n\<close>.\<close>

definition entry_row :: "mentions \<Rightarrow> repo_pull_request \<Rightarrow> pull_request" where
  "entry_row m e = mapPullRequest m (rpRepo e) (rpNode e)"

definition entry_check :: "nat \<Rightarrow> repo_pull_request \<Rightarrow> missing_check" where
  "entry_check i e = \<lparr>msIndex = i, msOwner = rpOwner e, msName = rpName e, msBase = gpBaseRefName (rpNode e),
     msHead = gpHeadRefOid (rpNode e), msOnlyChecksCanBlock = onlyChecksCanBlock (rpNode e)\<rparr>"

definition is_candidate :: "mentions \<Rightarrow> repo_pull_request \<Rightarrow> bool" where
  "is_candidate m e \<longleftrightarrow> requiredCheckCandidate (prCI (entry_row m e)) (gpMergeStateStatus (rpNode e))"

fun candidates_from :: "mentions \<Rightarrow> nat \<Rightarrow> repo_pull_request list \<Rightarrow> missing_check list" where
  "candidates_from m n [] = []"
| "candidates_from m n (e # es) = (if is_candidate m e then [entry_check n e] else []) @ candidates_from m (Suc n) es"

lemma addEntry_fold:
  "\<exists>b'. fold (addEntry m) es (prs, b, u) = (prs @ map (entry_row m) es, b', u @ candidates_from m (length prs) es)"
proof (induction es arbitrary: prs b u)
  case (Cons e es)
  obtain b1 where s: "addEntry m e (prs, b, u) =
      (prs @ [entry_row m e], b1, u @ (if is_candidate m e then [entry_check (length prs) e] else []))"
    by (auto simp: addEntry_def appendUnreported_def Let_def entry_row_def is_candidate_def entry_check_def nth_append)
  from Cons.IH[of "prs @ [entry_row m e]" b1 "u @ (if is_candidate m e then [entry_check (length prs) e] else [])"]
  show ?case unfolding fold_simps s comp_def by auto
qed simp

lemma candidates_index:
  "c \<in> set (candidates_from m n es) \<longleftrightarrow> (\<exists>i < length es. is_candidate m (es ! i) \<and> c = entry_check (n + i) (es ! i))"
proof (induction es arbitrary: n)
  case (Cons e es)
  show ?case
    unfolding candidates_from.simps set_append Un_iff Cons.IH
    by (auto simp: less_Suc_eq_0_disj split: if_splits)
qed simp

lemma candidates_distinct: "distinct (map msIndex (candidates_from m n es))"
proof (induction es arbitrary: n)
  case (Cons e es)
  have "msIndex c \<ge> Suc n" if "c \<in> set (candidates_from m (Suc n) es)" for c
    using that candidates_index[of c m "Suc n" es] by (auto simp: entry_check_def)
  then show ?case using Cons.IH[of "Suc n"] by (force simp: entry_check_def)
qed simp

lemma candidates_heads:
  "distinct (map (\<lambda>e. gpHeadRefOid (rpNode e)) es) \<Longrightarrow>
   distinct (map msHead (candidates_from m n es)) \<and>
   msHead ` set (candidates_from m n es) \<subseteq> (\<lambda>e. gpHeadRefOid (rpNode e)) ` set es"
proof (induction es arbitrary: n)
  case (Cons e es)
  then have "distinct (map msHead (candidates_from m (Suc n) es)) \<and>
    msHead ` set (candidates_from m (Suc n) es) \<subseteq> (\<lambda>e. gpHeadRefOid (rpNode e)) ` set es" by simp
  moreover have "gpHeadRefOid (rpNode e) \<notin> (\<lambda>e. gpHeadRefOid (rpNode e)) ` set es" using Cons.prems by simp
  ultimately show ?case by (auto simp: entry_check_def)
qed simp

lemma behind_keeps_ci:
  "map prCI (resolveAmbiguousBehind cmp checks prs) = map prCI prs"
proof -
  have "map prCI (fold (\<lambda>(i, chk) prs. case resp i of
      Some n \<Rightarrow> if n > 0 then prs[bhIndex chk := (prs ! bhIndex chk)\<lparr>prBehind := True\<rparr>] else prs | None \<Rightarrow> prs) l prs) = map prCI prs"
    for resp :: "nat \<rightharpoonup> int" and l :: "(nat \<times> behind_check) list"
  proof (induction l arbitrary: prs)
    case (Cons a l)
    obtain i chk where a: "a = (i, chk)" by (cases a)
    have "map prCI (prs[k := (prs ! k)\<lparr>prBehind := True\<rparr>]) = map prCI prs" for k
      by (cases "k < length prs") (simp_all add: map_update list_update_same_conv list_update_beyond)
    then show ?case unfolding a fold_simps comp_def Cons.IH by (auto split: option.splits)
  qed simp
  then show ?thesis by (auto simp: resolveAmbiguousBehind_def split: option.splits)
qed

text \<open>What the world requires and has reported of a candidate.\<close>

definition world_contexts :: "required_world \<Rightarrow> missing_check \<Rightarrow> string list \<times> bool" where
  "world_contexts w c =
     (let prot = rwProtection w (msOwner c) (msName c) (msBase c); rules = rwRulesets w (msOwner c) (msName c) (msBase c)
      in (list_of prot @ list_of rules, prot \<noteq> None \<and> rules \<noteq> None))"

definition context_key :: "missing_check \<Rightarrow> string" where
  "context_key c = msOwner c @ ''/'' @ msName c @ ''@'' @ msBase c"

definition plain_names :: "missing_check \<Rightarrow> bool" where
  "plain_names c \<longleftrightarrow> CHR ''/'' \<notin> set (msOwner c) \<and> CHR ''@'' \<notin> set (msName c)"

lemma context_key_inj:
  assumes "context_key c = context_key d" "plain_names c" "plain_names d"
  shows "world_contexts w c = world_contexts w d"
proof -
  have "cut (msOwner c @ CHR ''/'' # msName c @ ''@'' @ msBase c) ''/'' = cut (msOwner d @ CHR ''/'' # msName d @ ''@'' @ msBase d) ''/''"
    using assms(1) by (simp add: context_key_def)
  then have o: "msOwner c = msOwner d" and r: "msName c @ CHR ''@'' # msBase c = msName d @ CHR ''@'' # msBase d"
    using assms(2,3) by (simp_all add: plain_names_def cut_single)
  from r have "cut (msName c @ CHR ''@'' # msBase c) ''@'' = cut (msName d @ CHR ''@'' # msBase d) ''@''" by simp
  then have "msName c = msName d" "msBase c = msBase d" using assms(2,3) by (simp_all add: plain_names_def cut_single)
  with o show ?thesis by (simp add: world_contexts_def)
qed

text \<open>The contexts a pass goes by: those still kept from before, or else what the forge answers now.\<close>

definition known_contexts :: "required_world \<Rightarrow> required_checks \<Rightarrow> missing_check \<Rightarrow> string list \<times> bool" where
  "known_contexts w r c = (case cachedContexts (rwNow w) (context_key c) r of Some hit \<Rightarrow> hit | None \<Rightarrow> world_contexts w c)"

definition same_known :: "required_world \<Rightarrow> missing_check list \<Rightarrow> required_checks \<Rightarrow> required_checks \<Rightarrow> bool" where
  "same_known w cands r r' \<longleftrightarrow> list_all (\<lambda>c. known_contexts w r' c = known_contexts w r c) cands"

lemma held_keeps [simp]:
  "rqContexts (storeAnswer now sha a r) = rqContexts r" "rqComplete (storeAnswer now sha a r) = rqComplete r"
  by (simp_all add: storeAnswer_def)

lemma awaiting_keeps:
  "rqContexts (snd (hasRunsAwaitingApproval w c r)) = rqContexts r"
  "rqComplete (snd (hasRunsAwaitingApproval w c r)) = rqComplete r"
  by (auto simp: hasRunsAwaitingApproval_def storeHeld_def storeUnknownHeld_def split: option.splits)

lemma known_cong: "rqContexts r' = rqContexts r \<Longrightarrow> known_contexts w r' c = known_contexts w r c"
  by (simp add: known_contexts_def cachedContexts_def)

lemma same_cong: "rqContexts r2 = rqContexts r1 \<Longrightarrow> same_known w cands r r2 = same_known w cands r r1"
  using known_cong[of r2 r1 w] by (simp add: same_known_def)

lemma names_known:
  assumes "same_known w cands r0 r" "c \<in> set cands" "list_all plain_names cands"
  shows "fst (requiredContextNames w c r) = known_contexts w r0 c \<and>
    same_known w cands r0 (snd (requiredContextNames w c r)) \<and>
    rqComplete (snd (requiredContextNames w c r)) = rqComplete r"
proof (cases "cachedContexts (rwNow w) (context_key c) r")
  case (Some hit)
  then have "hit = known_contexts w r0 c" using assms(1,2) by (fastforce simp: same_known_def list_all_iff known_contexts_def)
  then show ?thesis using Some assms(1) by (simp add: requiredContextNames_def context_key_def)
next
  case None
  obtain names answered where n: "world_contexts w c = (names, answered)" by (cases "world_contexts w c")
  let ?r = "r\<lparr>rqContexts := (rqContexts r)(context_key c \<mapsto> \<lparr>rcNames = names, rcAnswered = answered, rcFetched = rwNow w\<rparr>)\<rparr>"
  have e: "requiredContextNames w c r = ((names, answered), ?r)"
    using None n by (auto simp: requiredContextNames_def context_key_def world_contexts_def storeContexts_def Let_def)
  have c: "known_contexts w r0 c = (names, answered)"
    using assms(1,2) None n by (fastforce simp: same_known_def list_all_iff known_contexts_def)
  have "known_contexts w ?r d = known_contexts w r d" if d: "d \<in> set cands" for d
  proof (cases "context_key d = context_key c")
    case True
    then have "world_contexts w d = (names, answered)"
      using context_key_inj[of d c w] d assms(2,3) n by (auto simp: list_all_iff)
    then show ?thesis using True None
      by (simp add: known_contexts_def cachedContexts_def time_sub_def requiredContextsTTL_def partialContextsTTL_def)
  next
    case False
    then show ?thesis by (simp add: known_contexts_def cachedContexts_def)
  qed
  then show ?thesis using e c assms(1) by (simp add: same_known_def list_all_iff)
qed

text \<open>A context has reported on a commit: check runs of that name that have all completed, or a status that is not pending.\<close>

definition has_reported :: "(string \<times> string) list \<Rightarrow> (string \<times> string) list \<Rightarrow> string \<Rightarrow> bool" where
  "has_reported runs statuses n \<longleftrightarrow>
     (\<exists>s. (n, s) \<in> set runs) \<and> (\<forall>s. (n, s) \<in> set runs \<longrightarrow> s = ''completed'') \<or> (\<exists>s. (n, s) \<in> set statuses \<and> s \<noteq> ''pending'')"

definition all_reported :: "required_world \<Rightarrow> missing_check \<Rightarrow> string list \<Rightarrow> bool" where
  "all_reported w c names \<longleftrightarrow> names = [] \<or>
     (\<exists>runs statuses. rwRuns w (msOwner c) (msName c) (msHead c) = Some runs \<and>
        rwStatuses w (msOwner c) (msName c) (msHead c) = Some statuses \<and> list_all (has_reported runs statuses) names)"

definition evidence_missing :: "required_world \<Rightarrow> missing_check \<Rightarrow> bool" where
  "evidence_missing w c \<longleftrightarrow> rwRuns w (msOwner c) (msName c) (msHead c) = None \<or> rwStatuses w (msOwner c) (msName c) (msHead c) = None"

text \<open>Everything that can require a context of \<open>c\<close> was read, and every one has reported.\<close>

definition settled_green :: "required_world \<Rightarrow> required_checks \<Rightarrow> missing_check \<Rightarrow> bool" where
  "settled_green w r c \<longleftrightarrow> snd (known_contexts w r c) \<and> all_reported w c (fst (known_contexts w r c))"

text \<open>Why a blocked row may stay green. \<open>cands\<close> are the rows looked up with it.\<close>

definition green_reason :: "required_world \<Rightarrow> required_checks \<Rightarrow> missing_check list \<Rightarrow> missing_check \<Rightarrow> bool" where
  "green_reason w r cands c \<longleftrightarrow>
     settled_green w r c \<or>
     isComplete (msHead c) r \<or> (\<exists>d\<in>set cands. msHead d = msHead c \<and> settled_green w r d) \<or>
     evidence_missing w c \<and> fst (known_contexts w r c) \<noteq> [] \<or>
     \<not> snd (known_contexts w r c) \<and> \<not> msOnlyChecksCanBlock c \<and> all_reported w c (fst (known_contexts w r c))"

lemma settle_row:
  "settleUnreported w c (prs, r) = (prs', r') \<Longrightarrow>
   length prs' = length prs \<and> (\<forall>i. i \<noteq> msIndex c \<longrightarrow> prs' ! i = prs ! i) \<and>
   (msIndex c < length prs \<longrightarrow> prCI (prs' ! msIndex c) \<noteq> CISuccess) \<and> rqContexts r' = rqContexts r \<and> rqComplete r' = rqComplete r"
  using awaiting_keeps[of w c r] by (auto simp: settleUnreported_def Let_def split: prod.splits if_splits)

lemma reported_all:
  assumes "rwRuns w (msOwner c) (msName c) (msHead c) = Some runs" "rwStatuses w (msOwner c) (msName c) (msHead c) = Some statuses"
  shows "reportedContexts w (msOwner c) (msName c) (msHead c) = Some (addReportedRuns runs @ addReportedStatuses statuses)"
    "list_ex (\<lambda>n. \<not> List.member (addReportedRuns runs @ addReportedStatuses statuses) n) names \<longleftrightarrow> \<not> list_all (has_reported runs statuses) names"
proof -
  have "List.member (addReportedRuns runs @ addReportedStatuses statuses) n \<longleftrightarrow> has_reported runs statuses n" for n
    using reported_runs_iff[of runs n] reported_statuses_iff[of statuses n] by (simp add: has_reported_def)
  then show "list_ex (\<lambda>n. \<not> List.member (addReportedRuns runs @ addReportedStatuses statuses) n) names \<longleftrightarrow>
      \<not> list_all (has_reported runs statuses) names"
    by (simp only: list_ex_iff list_all_iff) blast
qed (simp add: reportedContexts_def assms)

lemma verdict_cases:
  assumes "requiredContextNames w c r = ((names, answered), r1)" "hasUnreportedRequired w c r = (v, r')"
  shows "r' = r1" "v = verdictKeepRollup \<Longrightarrow> names = [] \<and> answered \<or> names \<noteq> [] \<and> evidence_missing w c"
    "v = verdictComplete \<Longrightarrow> answered \<and> all_reported w c names"
    "v = verdictUnreadable \<Longrightarrow> \<not> answered \<and> all_reported w c names"
proof -
  have "r' = r1 \<and> (v = verdictKeepRollup \<longrightarrow> names = [] \<and> answered \<or> names \<noteq> [] \<and> evidence_missing w c) \<and>
    (v = verdictComplete \<longrightarrow> answered \<and> all_reported w c names) \<and> (v = verdictUnreadable \<longrightarrow> \<not> answered \<and> all_reported w c names)"
  proof (cases "names = [] \<or> evidence_missing w c")
    case True
    then show ?thesis using assms
      by (auto simp: hasUnreportedRequired_def evidence_missing_def reportedContexts_def all_reported_def split: if_splits option.splits)
  next
    case False
    then obtain runs statuses where e: "rwRuns w (msOwner c) (msName c) (msHead c) = Some runs"
      "rwStatuses w (msOwner c) (msName c) (msHead c) = Some statuses" by (auto simp: evidence_missing_def)
    have rep: "list_ex (\<lambda>n. n \<notin> set (addReportedRuns runs) \<and> n \<notin> set (addReportedStatuses statuses)) names \<longleftrightarrow>
        \<not> list_all (has_reported runs statuses) names" using reported_all(2)[OF e, of names] by simp
    show ?thesis using assms False e
      unfolding hasUnreportedRequired_def reported_all(1)[OF e] by (simp add: rep all_reported_def split: if_splits)
  qed
  then show "r' = r1" "v = verdictKeepRollup \<Longrightarrow> names = [] \<and> answered \<or> names \<noteq> [] \<and> evidence_missing w c"
    "v = verdictComplete \<Longrightarrow> answered \<and> all_reported w c names" "v = verdictUnreadable \<Longrightarrow> \<not> answered \<and> all_reported w c names"
    by blast+
qed

text \<open>What a pass has remembered so far is true of a row it looked up.\<close>

definition complete_ok :: "required_world \<Rightarrow> required_checks \<Rightarrow> missing_check list \<Rightarrow> required_checks \<Rightarrow> bool" where
  "complete_ok w r cands r' \<longleftrightarrow> (\<forall>h\<in>set (rqComplete r'). isComplete h r \<or> (\<exists>d\<in>set cands. msHead d = h \<and> settled_green w r d))"

lemma settle_candidate:
  assumes "settleCandidate w c (prs, r) = (prs', r')" "same_known w cands r0 r" "complete_ok w r0 cands r" "c \<in> set cands"
    "list_all plain_names cands"
  shows "length prs' = length prs \<and> (\<forall>i. i \<noteq> msIndex c \<longrightarrow> prs' ! i = prs ! i) \<and> same_known w cands r0 r' \<and>
    complete_ok w r0 cands r' \<and>
    (msIndex c < length prs \<and> prCI (prs' ! msIndex c) = CISuccess \<longrightarrow> green_reason w r0 cands c)"
proof (cases "isComplete (msHead c) r")
  case True
  then have "green_reason w r0 cands c" using assms(3) by (auto simp: complete_ok_def green_reason_def isComplete_def)
  then show ?thesis using True assms(1-3) by (auto simp: settleCandidate_def)
next
  case False
  obtain names answered r1 where n: "requiredContextNames w c r = ((names, answered), r1)"
    by (cases "requiredContextNames w c r") auto
  have wc: "known_contexts w r0 c = (names, answered)" and r1: "same_known w cands r0 r1" "rqComplete r1 = rqComplete r"
    using names_known[OF assms(2,4,5)] n by simp_all
  obtain v where v: "hasUnreportedRequired w c r = (v, r1)"
    using verdict_cases(1)[OF n] by (cases "hasUnreportedRequired w c r") auto
  note vc = verdict_cases(2-4)[OF n v]
  have ok1: "complete_ok w r0 cands r1" using assms(3) r1(2) by (simp add: complete_ok_def)
  have settled: ?thesis if s: "settleUnreported w c (prs, r1) = (prs', r')"
    using settle_row[OF s] r1 ok1 same_cong[of r' r1 w cands r0] by (auto simp: complete_ok_def)
  show ?thesis
  proof (cases v)
    case verdictMissing
    then show ?thesis using settled assms(1) False v by (simp add: settleCandidate_def)
  next
    case verdictUnreadable
    show ?thesis
    proof (cases "msOnlyChecksCanBlock c")
      case True
      then show ?thesis using settled assms(1) False v verdictUnreadable by (simp add: settleCandidate_def)
    next
      case no: False
      then have "prs' = prs" "r' = r1" using assms(1) False v verdictUnreadable by (simp_all add: settleCandidate_def)
      then show ?thesis using r1 ok1 vc(3) verdictUnreadable no wc by (simp add: green_reason_def)
    qed
  next
    case verdictComplete
    then have e: "prs' = prs" "r' = markComplete (msHead c) r1" using assms(1) False v by (simp_all add: settleCandidate_def)
    have g: "settled_green w r0 c" using vc(2) verdictComplete wc by (simp add: settled_green_def)
    have "rqContexts r' = rqContexts r1" "set (rqComplete r') \<subseteq> insert (msHead c) (set (rqComplete r1))"
      using e(2) by (auto simp: markComplete_def)
    moreover from this have "complete_ok w r0 cands r'" using ok1 g assms(4) unfolding complete_ok_def by blast
    ultimately show ?thesis using e(1) g r1 same_cong[of r' r1 w cands r0] by (simp add: green_reason_def)
  next
    case verdictKeepRollup
    then have "prs' = prs" "r' = r1" using assms(1) False v by (simp_all add: settleCandidate_def)
    then show ?thesis using r1 ok1 vc(1) verdictKeepRollup wc by (auto simp: green_reason_def settled_green_def all_reported_def)
  qed
qed

lemma settle_fold:
  assumes "fold (settleCandidate w) cs (prs, r) = (prs', r')" "set cs \<subseteq> set cands" "same_known w cands r0 r" "complete_ok w r0 cands r"
    "list_all plain_names cands" "distinct (map msIndex cs)"
  shows "length prs' = length prs \<and> (\<forall>i. i \<notin> msIndex ` set cs \<longrightarrow> prs' ! i = prs ! i) \<and>
    (\<forall>c \<in> set cs. msIndex c < length prs \<and> prCI (prs' ! msIndex c) = CISuccess \<longrightarrow> green_reason w r0 cands c)"
  using assms
proof (induction cs arbitrary: prs r)
  case (Cons c cs)
  obtain prs1 r1 where s: "settleCandidate w c (prs, r) = (prs1, r1)" by (cases "settleCandidate w c (prs, r)")
  have c: "c \<in> set cands" using Cons.prems(2) by simp
  note one = settle_candidate[OF s Cons.prems(3,4) c Cons.prems(5)]
  have rest: "fold (settleCandidate w) cs (prs1, r1) = (prs', r')" using Cons.prems(1) s by simp
  have ih: "length prs' = length prs1" "\<forall>i. i \<notin> msIndex ` set cs \<longrightarrow> prs' ! i = prs1 ! i"
    "\<forall>c \<in> set cs. msIndex c < length prs1 \<and> prCI (prs' ! msIndex c) = CISuccess \<longrightarrow> green_reason w r0 cands c"
    using Cons.IH[OF rest _ _ _ Cons.prems(5)] one Cons.prems(2,6) by auto
  have "prs' ! msIndex c = prs1 ! msIndex c" using ih(2) Cons.prems(6) by auto
  then show ?case using ih one by auto
qed simp

lemma looked_up:
  assumes "mapPullRequestsAcross m cmp w entries r = (prs, r')" "i < length entries"
    and "prCI (prs ! i) = CISuccess" "gpMergeStateStatus (rpNode (entries ! i)) = ''BLOCKED''"
    and "list_all plain_names (map (entry_check 0) entries)"
  shows "green_reason w r (candidates_from m 0 entries) (entry_check i (entries ! i))"
proof -
  let ?cands = "candidates_from m 0 entries" and ?e = "entries ! i"
  obtain b' where f: "fold (addEntry m) entries ([], [], []) = (map (entry_row m) entries, b', ?cands)"
    using addEntry_fold[of m entries "[]" "[]" "[]"] by auto
  let ?rows = "resolveAmbiguousBehind cmp b' (map (entry_row m) entries)"
  have run: "fold (settleCandidate w) ?cands (?rows, r) = (prs, r')"
    using assms(1) f by (simp add: mapPullRequestsAcross_def settleUnreportedRequiredChecks_def)
  have len: "length ?rows = length entries" using behind_keeps_ci[of cmp b'] by (metis length_map)
  have plain: "list_all plain_names ?cands"
    using assms(5) candidates_index[of _ m 0 entries] by (fastforce simp: list_all_iff entry_check_def plain_names_def)
  have start: "same_known w ?cands r r" "complete_ok w r ?cands r"
    by (simp_all add: same_known_def list_all_iff complete_ok_def isComplete_def)
  note s = settle_fold[OF run subset_refl start plain candidates_distinct]
  let ?c = "entry_check i ?e"
  have row: "prCI (?rows ! i) = prCI (entry_row m ?e)"
    using behind_keeps_ci[of cmp b' "map (entry_row m) entries"] assms(2) len by (metis length_map nth_map)
  have "is_candidate m ?e"
  proof (rule ccontr)
    assume no: "\<not> is_candidate m ?e"
    have "\<exists>j. c = entry_check j (entries ! j) \<and> is_candidate m (entries ! j)" if "c \<in> set ?cands" for c
      using that candidates_index[of c m 0 entries] by auto
    then have "msIndex c \<noteq> i" if "c \<in> set ?cands" for c
      using that no by (fastforce simp: entry_check_def)
    then have "i \<notin> msIndex ` set ?cands" by blast
    then have "prCI (entry_row m ?e) = CISuccess" using s row assms(3) by simp
    then show False using no assms(4) by (simp add: is_candidate_def requiredCheckCandidate_def)
  qed
  then have "?c \<in> set ?cands" using candidates_index[of ?c m 0 entries] assms(2) by auto
  moreover have "msIndex ?c = i" by (simp add: entry_check_def)
  ultimately show ?thesis using s assms(2,3) len by auto
qed

text \<open>
  C22: a blocked row stays green for a reason. When GitHub blocks a pull request whose row reads success after the lookups, one of
  these holds. Everything that can require a context of its base branch was read (now, or within the time an answer is
  kept) and each has reported on its head: a status that is not pending, or check runs of that name that have all
  completed. Or its head was remembered as complete, from before or for another row of this query with the same head of which the first holds.
  Or something is required and the runs or statuses of the head could not be read. Or what is required could not be read in full, each
  context that is known has reported, and a draft or an outstanding review explains the block.
\<close>

theorem green_means_reported:
  assumes "mapPullRequestsAcross m cmp w entries r = (prs, r')" "i < length entries" "c = entry_check i (entries ! i)"
    and "prCI (prs ! i) = CISuccess" "gpMergeStateStatus (rpNode (entries ! i)) = ''BLOCKED''"
    and "list_all plain_names (map (entry_check 0) entries)"
  shows "settled_green w r c \<or>
    isComplete (msHead c) r \<or>
    (\<exists>j<length entries. msHead (entry_check j (entries ! j)) = msHead c \<and> settled_green w r (entry_check j (entries ! j))) \<or>
    fst (known_contexts w r c) \<noteq> [] \<and> evidence_missing w c \<or>
    \<not> snd (known_contexts w r c) \<and> all_reported w c (fst (known_contexts w r c)) \<and> \<not> onlyChecksCanBlock (rpNode (entries ! i))"
proof -
  have "\<exists>j<length entries. d = entry_check j (entries ! j)" if "d \<in> set (candidates_from m 0 entries)" for d
    using that candidates_index[of d m 0 entries] by auto
  moreover have "msOnlyChecksCanBlock c = onlyChecksCanBlock (rpNode (entries ! i))" using assms(3) by (simp add: entry_check_def)
  ultimately show ?thesis
    using looked_up[OF assms(1,2,4-6)] unfolding green_reason_def assms(3)[symmetric] by blast
qed

subsection \<open>A green row\<close>

definition demo_entry :: repo_pull_request where
  "demo_entry = \<lparr>rpOwner = ''o'', rpName = ''r'', rpRepo = ''o/r'',
     rpNode = demo_node ''BLOCKED'' (demo_commit ''SUCCESS'' [\<lparr>scState = ''SUCCESS'', scCount = 1\<rparr>])\<rparr>"

definition demo_required :: required_world where
  "demo_required = \<lparr>rwProtection = (\<lambda>_ _ _. Some [''test'']), rwRulesets = (\<lambda>_ _ _. Some []),
     rwRuns = (\<lambda>_ _ _. Some [(''test'', ''completed'')]), rwStatuses = (\<lambda>_ _ _. Some []),
     rwHeld = (\<lambda>_ _ _. Some 0), rwNow = 0\<rparr>"

lemma demo_entry_row:
  "is_candidate (\<lambda>_ _. []) demo_entry" "prCI (entry_row (\<lambda>_ _. []) demo_entry) = CISuccess"
  unfolding is_candidate_def entry_row_def map_fields
  by (simp_all add: demo_entry_def demo_node_def demo_commit_def requiredCheckCandidate_def
      rollupIsOfAnotherCommit_def ciFromRollup_def commit_rollup_def rollupCI_def)

lemma demo_settled:
  "prCI (fst (mapPullRequestsAcross (\<lambda>_ _. []) (\<lambda>_. None) demo_required [demo_entry] no_required_checks) ! 0) = CISuccess"
proof -
  obtain b' where f: "fold (addEntry (\<lambda>_ _. [])) [demo_entry] ([], [], []) =
      ([entry_row (\<lambda>_ _. []) demo_entry], b', [entry_check 0 demo_entry])"
    using addEntry_fold[of "\<lambda>_ _. []" "[demo_entry]" "[]" "[]" "[]"] demo_entry_row(1) by auto
  have "settleCandidate demo_required (entry_check 0 demo_entry) (prs, no_required_checks) =
      (prs, snd (settleCandidate demo_required (entry_check 0 demo_entry) (prs, no_required_checks)))" for prs
    by (simp add: settleCandidate_def isComplete_def no_required_checks_def hasUnreportedRequired_def
        requiredContextNames_def cachedContexts_def demo_required_def storeContexts_def reportedContexts_def
        list_of_def addReportedRuns_def addReportedStatuses_def Let_def)
  then have s: "fst (settleCandidate demo_required (entry_check 0 demo_entry) (prs, no_required_checks)) = prs" for prs
    by (metis fst_conv)
  have "resolveAmbiguousBehind (\<lambda>_. None) b' prs = prs" for prs by (simp add: resolveAmbiguousBehind_def)
  then show ?thesis
    using f s demo_entry_row(2) by (simp add: mapPullRequestsAcross_def settleUnreportedRequiredChecks_def)
qed

lemma green_means_reported_witness:
  "settled_green demo_required no_required_checks (entry_check 0 demo_entry) \<and>
   known_contexts demo_required no_required_checks (entry_check 0 demo_entry) = ([''test''], True)"
proof -
  let ?c = "entry_check 0 demo_entry"
  obtain prs r' where m: "mapPullRequestsAcross (\<lambda>_ _. []) (\<lambda>_. None) demo_required [demo_entry] no_required_checks = (prs, r')"
    by (cases "mapPullRequestsAcross (\<lambda>_ _. []) (\<lambda>_. None) demo_required [demo_entry] no_required_checks")
  have ci: "prCI (prs ! 0) = CISuccess" using demo_settled m by simp
  have g: "gpMergeStateStatus (rpNode ([demo_entry] ! 0)) = ''BLOCKED''" by (simp add: demo_entry_def demo_node_def)
  have p: "list_all plain_names (map (entry_check 0) [demo_entry])"
    by (simp add: plain_names_def entry_check_def demo_entry_def)
  have known: "known_contexts demo_required no_required_checks ?c = ([''test''], True)"
    by (simp add: known_contexts_def cachedContexts_def no_required_checks_def world_contexts_def demo_required_def list_of_def)
  have "\<not> evidence_missing demo_required ?c" "\<not> isComplete (msHead ?c) no_required_checks"
    by (simp_all add: evidence_missing_def demo_required_def isComplete_def no_required_checks_def)
  then show ?thesis using green_means_reported[OF m _ refl ci g p] known by auto
qed

text \<open>
  A commit is remembered as complete without its base branch: a second pull request of the same commit onto a
  branch that requires more is not looked up, and stays green.
\<close>

lemma complete_ignores_base:
  "settleCandidate w (c\<lparr>msBase := other\<rparr>) (prs, markComplete (msHead c) r) = (prs, markComplete (msHead c) r)"
  by (auto simp: settleCandidate_def markComplete_def isComplete_def)

end
