(* ===== verification/Github_Refresh.thy ===== *)
theory Github_Refresh
  imports Github_Required Snapshot_Merge
begin

text \<open>
  A refresh of a GitHub account (\<open>client.go\<close>, \<open>incremental.go\<close>, \<open>issue_reconciliation.go\<close>): a cheap probe
  that says which repositories changed, the fetch of those alone, and the open issues put together from
  what changed since the last read. Pending pull requests are re-read in chunks (\<open>refresh_pending.go\<close>).
  GitHub's answers are parameters.
\<close>

section \<open>Open issues from what changed\<close>

record issue_state =
  iaFetchedAt :: "string \<rightharpoonup> time"
  iaIssues :: "string \<rightharpoonup> issue list"
  iaNames :: "string list"          \<comment> \<open>the keys of \<open>fetchedAt\<close>\<close>

definition new_issue_state :: issue_state where
  "new_issue_state = \<lparr>iaFetchedAt = Map.empty, iaIssues = Map.empty, iaNames = []\<rparr>"

definition oldest :: "(string \<rightharpoonup> time) \<Rightarrow> string list \<Rightarrow> time option" where
  "oldest m names = (case map (\<lambda>n. case m n of Some t \<Rightarrow> t | None \<Rightarrow> zero_time) names of
     [] \<Rightarrow> None | t # ts \<Rightarrow> Some (fold min ts t))"

definition issuesSince :: "issue_state \<Rightarrow> time option" where
  "issuesSince s = oldest (iaFetchedAt s) (iaNames s)"

definition sinceFor :: "string list \<Rightarrow> issue_state \<Rightarrow> time option" where
  "sinceFor names s =
     (if names = [] \<or> list_ex (\<lambda>n. iaFetchedAt s n = None) names then None else oldest (iaFetchedAt s) names)"

definition previousIssues :: "string \<Rightarrow> issue_state \<Rightarrow> issue list option" where
  "previousIssues fullName s = iaIssues s fullName"

definition commitIssues :: "time \<Rightarrow> string list \<Rightarrow> (string \<rightharpoonup> issue list) \<Rightarrow> string list \<Rightarrow> issue_state \<Rightarrow> issue_state" where
  "commitIssues started fetchedNames fetched tracked s =
     (let at = (\<lambda>n. if \<not> List.member tracked n then None
                 else if List.member fetchedNames n then (if fetched n = None then None else Some started)
                 else iaFetchedAt s n)
      in \<lparr>iaFetchedAt = at,
          iaIssues = (\<lambda>n. if at n = None then None
             else if List.member fetchedNames n then fetched n
             else Some (case iaIssues s n of Some is \<Rightarrow> is | None \<Rightarrow> [])),
          iaNames = filter (\<lambda>n. at n \<noteq> None) (remdups tracked)\<rparr>)"

text \<open>The merged issues are a map by number; they are listed here by their first appearance.\<close>

definition mergeIssueDelta :: "issue list \<Rightarrow> issue list \<Rightarrow> int \<Rightarrow> issue list option" where
  "mergeIssueDelta prev delta total' =
     (let byNumber = index_by isNumber (prev @ delta); numbers = remdups (map isNumber (prev @ delta))
      in if int (length numbers) \<noteq> total' then None else Some (map (\<lambda>n. the (byNumber n)) numbers))"

definition reconcileIssue :: "(string \<rightharpoonup> issue list) \<Rightarrow> bool \<Rightarrow> issue_state \<Rightarrow> graphql_repo \<Rightarrow>
    (string \<rightharpoonup> issue list) \<Rightarrow> (string \<rightharpoonup> issue list)" where
  "reconcileIssue refetch sincePoll s r result =
     (let fullName = repo_full_name r; delta = map (mapIssue fullName) (grIssues r) in
      if \<not> sincePoll then result(fullName \<mapsto> delta)
      else (case Option.bind (previousIssues fullName s) (\<lambda>prev. mergeIssueDelta prev delta (grIssuesTotal r)) of
          Some merged \<Rightarrow> result(fullName \<mapsto> merged)
        | None \<Rightarrow> (case refetch fullName of None \<Rightarrow> result | Some is \<Rightarrow> result(fullName \<mapsto> is))))"

definition reconcileIssues :: "(string \<rightharpoonup> issue list) \<Rightarrow> bool \<Rightarrow> issue_state \<Rightarrow> graphql_repo list \<Rightarrow> (string \<rightharpoonup> issue list)" where
  "reconcileIssues refetch sincePoll s tracked = fold (reconcileIssue refetch sincePoll s) tracked Map.empty"

section \<open>The probe\<close>

record probe_count =
  pcTotal :: int
  pcNodes :: "string list"

record probe_node =
  pdPushedAt :: string
  pdUpdatedAt :: string
  pdOpenPRs :: probe_count
  pdOpenIssues :: probe_count

record repo_stamp =
  rsPushedAt :: string
  rsUpdatedAt :: string
  rsOpenPRs :: int
  rsOpenIssues :: int
  rsNewestPR :: string
  rsNewestIssue :: string

definition newest_touched :: "probe_count \<Rightarrow> string" where
  "newest_touched c = (case pcNodes c of [] \<Rightarrow> '''' | t # _ \<Rightarrow> t)"

definition stampOf :: "probe_node \<Rightarrow> repo_stamp" where
  "stampOf n = \<lparr>rsPushedAt = pdPushedAt n, rsUpdatedAt = pdUpdatedAt n, rsOpenPRs = pcTotal (pdOpenPRs n),
     rsOpenIssues = pcTotal (pdOpenIssues n), rsNewestPR = newest_touched (pdOpenPRs n),
     rsNewestIssue = newest_touched (pdOpenIssues n)\<rparr>"

record probed_repo =
  prRepository :: graphql_repo
  prStamp :: repo_stamp

definition probed_name :: "probed_repo \<Rightarrow> string" where
  "probed_name p = repo_full_name (prRepository p)"

definition trackedProbed :: "probed_repo list \<Rightarrow> probed_repo list" where
  "trackedProbed probed = filter (\<lambda>p. \<not> (grIsArchived (prRepository p) \<or> grIsFork (prRepository p) \<or>
     \<not> hasWriteAccess (grViewerPermission (prRepository p)))) probed"

record refresh_plan =
  plListed :: "graphql_repo list"
  plTracked :: "probed_repo list"
  plChanged :: "probed_repo list"
  plSkipped :: "string list"
  plHooks :: "string \<Rightarrow> hook_probe"
  plRateLimit :: "rate_limit option"

definition planPartial :: "refresh_plan option \<Rightarrow> bool" where
  "planPartial p \<longleftrightarrow> (case p of None \<Rightarrow> False | Some p \<Rightarrow> plSkipped p \<noteq> [])"

type_synonym stamp_book = "string \<rightharpoonup> repo_stamp"

definition skips :: "bool \<Rightarrow> stamp_book \<Rightarrow> (string \<Rightarrow> hook_probe) \<Rightarrow> probed_repo \<Rightarrow> bool" where
  "skips incremental known hooks p \<longleftrightarrow>
     incremental \<and> known (probed_name p) = Some (prStamp p) \<and> vouchesForChecks (hooks (probed_name p))"

definition planRefresh :: "string \<Rightarrow> bool \<Rightarrow> (go_error + probed_repo list \<times> rate_limit option) \<Rightarrow>
    (string \<Rightarrow> hook_probe) \<Rightarrow> stamp_book \<Rightarrow> refresh_plan option \<times> stamp_book" where
  "planRefresh webhookPath incremental probe hooks known =
     (if webhookPath = '''' then (None, Map.empty)
      else (case probe of
          Inl _ \<Rightarrow> (None, Map.empty)
        | Inr (probed, rate) \<Rightarrow>
            (let tracked = trackedProbed probed
             in (Some \<lparr>plListed = map prRepository probed, plTracked = tracked,
                       plChanged = filter (\<lambda>p. \<not> skips incremental known hooks p) tracked,
                       plSkipped = map probed_name (filter (skips incremental known hooks) tracked),
                       plHooks = hooks, plRateLimit = rate\<rparr>, known))))"

definition missingFrom :: "graphql_repo list \<Rightarrow> refresh_plan option \<Rightarrow> failed_repo list" where
  "missingFrom fetched plan = (case plan of None \<Rightarrow> []
     | Some p \<Rightarrow> (if \<not> planPartial plan then []
         else map (\<lambda>n. \<lparr>flFullName = n, flPullRequests = True, flIssues = True, flMainBranch = True\<rparr>)
                (filter (\<lambda>n. \<not> List.member (map repo_full_name fetched) n) (map probed_name (plChanged p)))))"

definition recordStamps :: "refresh_plan option \<Rightarrow> (string \<Rightarrow> bool) \<Rightarrow> stamp_book" where
  "recordStamps plan fetched = (case plan of None \<Rightarrow> Map.empty
     | Some p \<Rightarrow> fold (\<lambda>t next. if List.member (plSkipped p) (probed_name t) \<or> fetched (probed_name t)
                                  then next(probed_name t \<mapsto> prStamp t) else next) (plTracked p) Map.empty)"

section \<open>The refresh\<close>

record github_client =
  gcStamps :: stamp_book
  gcIssueState :: issue_state
  gcRequired :: required_checks

definition new_client :: github_client where
  "new_client = \<lparr>gcStamps = Map.empty, gcIssueState = new_issue_state, gcRequired = no_required_checks\<rparr>"

text \<open>What the connection is and what GitHub answers in one refresh.\<close>

record refresh_world =
  fwWebhookPath :: string
  fwApp :: bool
  fwIncremental :: bool
  fwStarted :: time
  fwProbe :: "go_error + probed_repo list \<times> rate_limit option"
  fwHooks :: "string \<Rightarrow> hook_probe"
  fwFetchAll :: "time option \<Rightarrow> go_error + graphql_repo list \<times> rate_limit option"
  fwFetchNamed :: "probed_repo list \<Rightarrow> time option \<Rightarrow> go_error + graphql_repo list \<times> rate_limit option"
  fwRefetch :: "string \<rightharpoonup> issue list"
  fwHeld :: held_query
  fwHistory :: history_query
  fwSuites :: suite_query
  fwMentions :: mentions
  fwCompare :: "behind_check list \<Rightarrow> (nat \<rightharpoonup> int) option"
  fwRequired :: required_world
  fwREST :: "rate_limit option"
  fwErrorLimit :: "rate_limit option"   \<comment> \<open>the budget a failed request reported\<close>

text \<open>A batch of named repositories answers no role: a token's comes from the probe, an App's is \<open>WRITE\<close>.\<close>

definition fetchNamedRepos :: "refresh_world \<Rightarrow> probed_repo list \<Rightarrow> time option \<Rightarrow> go_error + graphql_repo list \<times> rate_limit option" where
  "fetchNamedRepos w named since = (case fwFetchNamed w named since of
     Inl e \<Rightarrow> Inl e
   | Inr (repos, rate) \<Rightarrow> Inr (map (\<lambda>r. case find_last (\<lambda>p. probed_name p = repo_full_name r) named of
         Some p \<Rightarrow> if fwApp w then r else r\<lparr>grViewerPermission := grViewerPermission (prRepository p)\<rparr>
       | None \<Rightarrow> r) repos, rate))"

definition fetchPlanned :: "refresh_world \<Rightarrow> refresh_plan option \<Rightarrow> time option \<Rightarrow> go_error + graphql_repo list \<times> rate_limit option" where
  "fetchPlanned w plan since = (case plan of
     Some p \<Rightarrow> if planPartial plan then
         (case fetchNamedRepos w (plChanged p) since of Inl e \<Rightarrow> Inl e
          | Inr (repos, rate) \<Rightarrow> Inr (repos, if rate \<noteq> None then rate else plRateLimit p))
       else fwFetchAll w since
   | None \<Rightarrow> fwFetchAll w since)"

definition withBranches :: "refresh_world \<Rightarrow> graphql_repo list \<Rightarrow> graphql_repo list" where
  "withBranches w repos =
     (let checked = withCheckedCommits (fwHeld w) (fwHistory w)
            (map (\<lambda>r. \<lparr>tkOwner = grOwner r, tkName = grName r, tkRef = grDefaultBranch r\<rparr>) repos);
          refs = withNewestRuns (fwSuites w) (map tkRef checked)
      in map (\<lambda>(r, ref). r\<lparr>grDefaultBranch := ref\<rparr>) (zip repos refs))"

definition unreachableResult :: "refresh_world \<Rightarrow> go_error \<Rightarrow> fetch_result" where
  "unreachableResult w e = no_rows (zero_health\<lparr>fhForge := ForgeGitHub, fhReachable := False, fhError := errText e,
     fhErrorKind := Some (case errClient e of None \<Rightarrow> ForgeErrorUnknown | Some c \<Rightarrow> ceKind c),
     fhRateLimitGraphQL := (case errClient e of None \<Rightarrow> None | Some c \<Rightarrow> ceRateLimit c),
     fhRateLimitREST := fwREST w\<rparr>)"

definition repo_entries :: "graphql_repo list \<Rightarrow> repo_pull_request list" where
  "repo_entries repos = concat (map (\<lambda>r. map (\<lambda>p. \<lparr>rpOwner = grOwner r, rpName = grName r,
     rpRepo = repo_full_name r, rpNode = p\<rparr>) (grPullRequests r)) repos)"

definition appendFetched :: "refresh_world \<Rightarrow> graphql_repo list \<Rightarrow> (string \<rightharpoonup> issue list) \<Rightarrow> required_checks \<Rightarrow> fetch_result \<Rightarrow>
    fetch_result \<times> required_checks" where
  "appendFetched w fetched issuesByRepo required res =
     (let (prs, required') = mapPullRequestsAcross (fwMentions w) (fwCompare w) (fwRequired w) (repo_entries fetched) required
      in (res\<lparr>ftPullRequests := ftPullRequests res @ prs,
              ftIssues := ftIssues res @ concat (map (\<lambda>r. case issuesByRepo (repo_full_name r) of None \<Rightarrow> [] | Some is \<Rightarrow> is) fetched),
              ftMainBranches := ftMainBranches res @
                map (\<lambda>r. mainBranchFrom (repo_full_name r) (grURL r) (grRelease r) (grDefaultBranch r)) fetched\<rparr>,
          required'))"

text \<open>What the answer becomes: the rows, and the client that has read them. Advisories are left out.\<close>

definition readRefresh :: "refresh_world \<Rightarrow> github_client \<Rightarrow> refresh_plan option \<Rightarrow> bool \<Rightarrow> graphql_repo list \<Rightarrow>
    rate_limit option \<Rightarrow> fetch_result \<times> github_client" where
  "readRefresh w c plan sincePoll repos rate =
     (let fetched = trackedRepos repos;
          tracked = (case plan of None \<Rightarrow> fetched | Some p \<Rightarrow> map prRepository (plTracked p));
          hooks = (if plan = None \<and> fwWebhookPath w = '''' then (\<lambda>_. no_probe) else fwHooks w);
          issuesByRepo = reconcileIssues (fwRefetch w) sincePoll (gcIssueState c) fetched;
          res = (no_rows (zero_health\<lparr>fhForge := ForgeGitHub, fhReachable := True, fhRateLimitGraphQL := rate,
                   fhRateLimitREST := fwREST w, fhRepoCount := int (length tracked)\<rparr>))
                \<lparr>ftUnchanged := (case plan of None \<Rightarrow> [] | Some p \<Rightarrow> plSkipped p),
                 ftFailedRepos := missingFrom fetched plan,
                 ftRepos := map (\<lambda>r. repoFrom (repo_full_name r) r (hooks (repo_full_name r)) (fwApp w)) tracked\<rparr>;
          (res', required) = appendFetched w (withBranches w fetched) issuesByRepo (gcRequired c) res
      in (res', \<lparr>gcStamps = recordStamps plan (\<lambda>n. issuesByRepo n \<noteq> None),
                 gcIssueState = commitIssues (fwStarted w) (map repo_full_name fetched) issuesByRepo
                   (map repo_full_name tracked) (gcIssueState c),
                 gcRequired = required\<rparr>))"

definition fetchViaGraphQL :: "refresh_world \<Rightarrow> github_client \<Rightarrow> fetch_result \<times> github_client" where
  "fetchViaGraphQL w c =
     (let (plan, stamps) = planRefresh (fwWebhookPath w) (fwIncremental w) (fwProbe w) (fwHooks w) (gcStamps c);
          c1 = c\<lparr>gcStamps := stamps\<rparr>;
          since = (if planPartial plan then sinceFor (map probed_name (plChanged (the plan))) (gcIssueState c)
                   else issuesSince (gcIssueState c))
      in case fetchPlanned w plan since of
           Inl e \<Rightarrow> (unreachableResult w e, c1)
         | Inr (repos, rate) \<Rightarrow> readRefresh w c1 plan (since \<noteq> None) repos rate)"

section \<open>Pending pull requests\<close>

record pending_ref =
  pnOwner :: string
  pnName :: string
  pnFullName :: string
  pnNumber :: int

record pending_outcome =
  poPulls :: "pull_request list"
  poClosed :: "pending_ref list"
  poFailed :: "pending_ref list"

definition pendingChunkSize :: nat where "pendingChunkSize = 25"

text \<open>One chunk's answer: an error, or each pull request by position, none where its branch failed.\<close>

type_synonym pending_query = "pending_ref list \<Rightarrow> go_error + (nat \<rightharpoonup> graphql_pull_request)"

text \<open>What one pass over the answers makes of each pull request, numbered by its place in the chunk.\<close>

definition pendingFailed :: "(nat \<rightharpoonup> graphql_pull_request) \<Rightarrow> (nat \<times> pending_ref) list \<Rightarrow> pending_ref list" where
  "pendingFailed resp ns = map snd (filter (\<lambda>(i, _). resp i = None) ns)"

definition pendingClosed :: "(nat \<rightharpoonup> graphql_pull_request) \<Rightarrow> (nat \<times> pending_ref) list \<Rightarrow> pending_ref list" where
  "pendingClosed resp ns = map snd (filter (\<lambda>(i, _). case resp i of None \<Rightarrow> False | Some p \<Rightarrow> gpState p \<noteq> ''OPEN'') ns)"

definition pendingOpen :: "(nat \<rightharpoonup> graphql_pull_request) \<Rightarrow> (nat \<times> pending_ref) list \<Rightarrow> repo_pull_request list" where
  "pendingOpen resp ns = concat (map (\<lambda>(i, ref). case resp i of None \<Rightarrow> [] | Some p \<Rightarrow>
     if gpState p \<noteq> ''OPEN'' then [] else [\<lparr>rpOwner = pnOwner ref, rpName = pnName ref, rpRepo = pnFullName ref,
                                         rpNode = p\<rparr>]) ns)"

definition refreshPendingChunk :: "refresh_world \<Rightarrow> pending_query \<Rightarrow> pending_ref list \<Rightarrow> pending_outcome \<times> required_checks \<Rightarrow>
    go_error option \<times> pending_outcome \<times> required_checks" where
  "refreshPendingChunk w ask refs = (\<lambda>(result, required). case ask refs of
     Inl e \<Rightarrow> (Some e, result, required)
   | Inr resp \<Rightarrow>
       (let ns = zip [0..<length refs] refs;
            (prs, required') = mapPullRequestsAcross (fwMentions w) (fwCompare w) (fwRequired w) (pendingOpen resp ns) required
        in (None, \<lparr>poPulls = poPulls result @ prs, poClosed = poClosed result @ pendingClosed resp ns,
                   poFailed = poFailed result @ pendingFailed resp ns\<rparr>, required')))"

fun refreshPendingChunks :: "refresh_world \<Rightarrow> pending_query \<Rightarrow> pending_ref list list \<Rightarrow> pending_outcome \<times> required_checks \<Rightarrow>
    go_error option \<times> pending_outcome \<times> required_checks" where
  "refreshPendingChunks w ask [] s = (None, s)"
| "refreshPendingChunks w ask (chunk # rest) s = (case refreshPendingChunk w ask chunk s of
     (Some e, s') \<Rightarrow> (Some e, s') | (None, s') \<Rightarrow> refreshPendingChunks w ask rest s')"

definition RefreshPending :: "refresh_world \<Rightarrow> pending_query \<Rightarrow> pending_ref list \<Rightarrow> required_checks \<Rightarrow>
    go_error option \<times> pending_outcome \<times> required_checks" where
  "RefreshPending w ask refs required =
     refreshPendingChunks w ask (chunks pendingChunkSize refs) (\<lparr>poPulls = [], poClosed = [], poFailed = []\<rparr>, required)"

section \<open>What a merge of changed issues can tell\<close>

text \<open>The known issues that have closed, and the open ones that neither the known ones nor the delta hold.\<close>

definition closed_numbers :: "issue list \<Rightarrow> issue list \<Rightarrow> int set" where
  "closed_numbers prev open' = isNumber ` set prev - isNumber ` set open'"

definition unreported_numbers :: "issue list \<Rightarrow> issue list \<Rightarrow> issue list \<Rightarrow> int set" where
  "unreported_numbers prev delta open' = isNumber ` set open' - isNumber ` set (prev @ delta)"

lemma merged_counts:
  assumes "distinct (map isNumber open')" "set delta \<subseteq> set open'"
  shows "length (remdups (map isNumber (prev @ delta))) = length open' \<longleftrightarrow>
    card (closed_numbers prev open') = card (unreported_numbers prev delta open')"
proof -
  let ?N = "isNumber ` set (prev @ delta)" and ?O = "isNumber ` set open'"
  have o: "length open' = card ?O" using assms(1) distinct_card by fastforce
  have n: "length (remdups (map isNumber (prev @ delta))) = card ?N"
    by (metis distinct_remdups distinct_card set_remdups set_map)
  have c: "closed_numbers prev open' = ?N - ?O" using assms(2) by (auto simp: closed_numbers_def)
  have u: "unreported_numbers prev delta open' = ?O - ?N" by (simp add: unreported_numbers_def)
  have "card ?N = card (?N - ?O) + card (?N \<inter> ?O)" "card ?O = card (?O - ?N) + card (?N \<inter> ?O)"
    using card_Diff_subset_Int[of "?N" "?O"] card_Diff_subset_Int[of "?O" "?N"] card_mono[of ?N "?N \<inter> ?O"] card_mono[of ?O "?N \<inter> ?O"]
    by (simp_all add: Int_commute)
  then show ?thesis unfolding o n c u by linarith
qed

lemma merged_issues:
  assumes "mergeIssueDelta prev delta n = Some merged" "distinct (map isNumber prev)" "distinct (map isNumber delta)"
  shows "set merged = set delta \<union> {i \<in> set prev. isNumber i \<notin> isNumber ` set delta} \<and> distinct (map isNumber merged)"
proof -
  let ?pick = "\<lambda>n. the (index_by isNumber (prev @ delta) n)"
  let ?now = "set delta \<union> {i \<in> set prev. isNumber i \<notin> isNumber ` set delta}"
  have mm: "merged = map ?pick (remdups (map isNumber (prev @ delta)))"
    using assms(1) by (auto simp: mergeIssueDelta_def Let_def split: if_splits)
  have pick: "?pick (isNumber i) = i" if "i \<in> ?now" for i
  proof -
    have "index_by isNumber (prev @ delta) (isNumber i) = Some i"
      by (rule index_by_latest[OF refl])
        (use that assms(2,3) in \<open>auto simp: distinct_map dest: inj_onD intro: rev_image_eqI\<close>)
    then show ?thesis by simp
  qed
  have nums: "isNumber ` set (prev @ delta) = isNumber ` ?now" by auto
  have "set merged = ?pick ` isNumber ` ?now" unfolding mm by (simp only: set_map set_remdups nums)
  then have set: "set merged = ?now" using pick by (auto simp: image_image)
  have "map isNumber merged = remdups (map isNumber (prev @ delta))"
  proof -
    have "isNumber (?pick n) = n" if "n \<in> isNumber ` set (prev @ delta)" for n
      using that pick unfolding nums by auto
    then show ?thesis unfolding mm map_map by (intro map_idI) (simp only: comp_apply set_remdups set_map)
  qed
  then show ?thesis using set by (metis distinct_remdups)
qed

text \<open>
  C24: What the merge of a delta can tell. Let the delta hold only issues that are open now. Checked against the
  repository's own count, the merge is given up exactly when the number of known issues that have closed differs from the number
  of open ones that neither list holds; otherwise it is the delta with the known issues the delta does not mention. So when no open
  issue is missing from both lists, and those the delta does not mention have not changed, the merge is given up
  exactly when a known issue has closed, whatever opened in its place, and is the issues open now whenever it is not given up.
\<close>

theorem merge_exact:
  assumes "distinct (map isNumber open')" "distinct (map isNumber prev)" "distinct (map isNumber delta)" "set delta \<subseteq> set open'"
  shows "(mergeIssueDelta prev delta (int (length open')) = None \<longleftrightarrow>
      card (closed_numbers prev open') \<noteq> card (unreported_numbers prev delta open')) \<and>
    (\<forall>merged. mergeIssueDelta prev delta (int (length open')) = Some merged \<longrightarrow>
      set merged = set delta \<union> {i \<in> set prev. isNumber i \<notin> isNumber ` set delta} \<and> distinct (map isNumber merged)) \<and>
    (set open' \<subseteq> set delta \<union> set prev \<longrightarrow>
      (mergeIssueDelta prev delta (int (length open')) = None \<longleftrightarrow> closed_numbers prev open' \<noteq> {}) \<and>
      (\<forall>merged. mergeIssueDelta prev delta (int (length open')) = Some merged \<longrightarrow> set merged = set open'))"
proof -
  let ?m = "mergeIssueDelta prev delta (int (length open'))"
  have none: "?m = None \<longleftrightarrow> card (closed_numbers prev open') \<noteq> card (unreported_numbers prev delta open')"
    using merged_counts[OF assms(1,4), of prev] by (auto simp: mergeIssueDelta_def Let_def simp del: map_append)
  have exact: "(?m = None \<longleftrightarrow> closed_numbers prev open' \<noteq> {}) \<and> (\<forall>merged. ?m = Some merged \<longrightarrow> set merged = set open')"
    if all: "set open' \<subseteq> set delta \<union> set prev"
  proof -
    have "unreported_numbers prev delta open' = {}" using all by (auto simp: unreported_numbers_def)
    then have n: "?m = None \<longleftrightarrow> closed_numbers prev open' \<noteq> {}" using none by (simp add: closed_numbers_def)
    have "set merged = set open'" if "?m = Some merged" for merged
    proof -
      have "isNumber ` set prev \<subseteq> isNumber ` set open'" using n that by (auto simp: closed_numbers_def)
      have "i \<in> set open'" if i: "i \<in> set prev" "isNumber i \<notin> isNumber ` set delta" for i
      proof -
        obtain j where j: "j \<in> set open'" "isNumber j = isNumber i"
          using i(1) \<open>isNumber ` set prev \<subseteq> isNumber ` set open'\<close> by (metis imageE image_eqI subsetD)
        then have "j \<in> set prev" using all i(2) by (metis Un_iff image_eqI subsetD)
        then have "j = i" using i(1) j(2) assms(2) unfolding distinct_map by (metis inj_onD)
        then show ?thesis using j(1) by simp
      qed
      moreover have "i \<in> set delta \<or> i \<in> set prev \<and> isNumber i \<notin> isNumber ` set delta" if i: "i \<in> set open'" for i
      proof -
        have "i \<in> set delta" if "d \<in> set delta" "isNumber d = isNumber i" for d
        proof -
          have "d \<in> set open'" using that(1) assms(4) by blast
          then have "d = i" using i that(2) assms(1) unfolding distinct_map by (metis inj_onD)
          then show ?thesis using that(1) by simp
        qed
        then show ?thesis using all i by (metis Un_iff imageE subsetD)
      qed
      ultimately have "set delta \<union> {i \<in> set prev. isNumber i \<notin> isNumber ` set delta} = set open'" using assms(4) by blast
      then show ?thesis using merged_issues[OF \<open>?m = Some merged\<close> assms(2,3)] by simp
    qed
    with n show ?thesis by blast
  qed
  show ?thesis
  proof (intro conjI)
    show "\<forall>merged. ?m = Some merged \<longrightarrow> set merged = set delta \<union> {i \<in> set prev. isNumber i \<notin> isNumber ` set delta} \<and>
        distinct (map isNumber merged)" using merged_issues[OF _ assms(2,3)] by blast
    show "set open' \<subseteq> set delta \<union> set prev \<longrightarrow> (?m = None \<longleftrightarrow> closed_numbers prev open' \<noteq> {}) \<and>
        (\<forall>merged. ?m = Some merged \<longrightarrow> set merged = set open')" by (rule impI) (rule exact)
  qed (rule none)
qed

text \<open>One issue closes and another opens: where the new one is in the delta the counts differ and the repository is read in
full; only where the delta lacks it as well does the merge pass for complete.\<close>

definition numbered :: "int \<Rightarrow> issue" where
  "numbered n = \<lparr>isForge = ForgeGitHub, isRepo = ''o/r'', isNumber = n, isTitle = '''', isURL = '''', isAuthor = '''',
     isAuthorAvatarURL = '''', isLabels = [], isCreatedAt = 0, isUpdatedAt = 0\<rparr>"

lemma merge_exact_witness:
  "mergeIssueDelta (map numbered [1, 2]) [numbered 3] (int (length (map numbered [2, 3]))) = None \<and>
   mergeIssueDelta (map numbered [1, 2]) [] (int (length (map numbered [2, 3]))) \<noteq> None"
proof
  have d: "closed_numbers (map numbered [1, 2]) (map numbered [2, 3]) = {1}"
    "unreported_numbers (map numbered [1, 2]) [] (map numbered [2, 3]) = {3}"
    "unreported_numbers (map numbered [1, 2]) [numbered 3] (map numbered [2, 3]) = {}"
    by (auto simp: closed_numbers_def unreported_numbers_def numbered_def)
  show "mergeIssueDelta (map numbered [1, 2]) [numbered 3] (int (length (map numbered [2, 3]))) = None"
    using merge_exact[of "map numbered [2, 3]" "map numbered [1, 2]" "[numbered 3]"] d by (simp add: numbered_def)
  show "mergeIssueDelta (map numbered [1, 2]) [] (int (length (map numbered [2, 3]))) \<noteq> None"
    using merge_exact[of "map numbered [2, 3]" "map numbered [1, 2]" "[]"] d by (simp add: numbered_def)
qed

section \<open>Every pending pull request is answered for\<close>

definition ref_key :: "pending_ref \<Rightarrow> string \<times> int" where "ref_key r = (pnFullName r, pnNumber r)"

definition row_key :: "pull_request \<Rightarrow> string \<times> int" where "row_key p = (prRepo p, prNumber p)"

lemma behind_keeps_keys: "map row_key (resolveAmbiguousBehind cmp checks prs) = map row_key prs"
proof -
  have "map row_key (fold (\<lambda>(i, chk) prs. case resp i of
      Some n \<Rightarrow> if n > 0 then prs[bhIndex chk := (prs ! bhIndex chk)\<lparr>prBehind := True\<rparr>] else prs | None \<Rightarrow> prs) l prs) = map row_key prs"
    for resp :: "nat \<rightharpoonup> int" and l :: "(nat \<times> behind_check) list"
  proof (induction l arbitrary: prs)
    case (Cons a l)
    obtain i chk where a: "a = (i, chk)" by (cases a)
    have "map row_key (prs[k := (prs ! k)\<lparr>prBehind := True\<rparr>]) = map row_key prs" for k
      by (cases "k < length prs") (simp_all add: map_update list_update_same_conv list_update_beyond row_key_def)
    then show ?case unfolding a fold_simps comp_def Cons.IH by (auto split: option.splits)
  qed simp
  then show ?thesis by (auto simp: resolveAmbiguousBehind_def split: option.splits)
qed

lemma unreported_keeps_keys: "map row_key (fst (settleUnreported w cand s)) = map row_key (fst s)"
  by (cases "msIndex cand < length (fst s)")
     (auto simp: settleUnreported_def Let_def map_update list_update_same_conv list_update_beyond row_key_def split: prod.splits)

lemma candidate_keeps_keys: "map row_key (fst (settleCandidate w cand s)) = map row_key (fst s)"
proof -
  have "map row_key (fst (settleUnreported w cand (prs, r))) = map row_key prs" for prs r
    by (simp add: unreported_keeps_keys)
  then show ?thesis by (auto simp: settleCandidate_def split: prod.splits required_verdict.splits)
qed

lemma across_keys:
  "map row_key (fst (mapPullRequestsAcross m cmp w es r)) = map (\<lambda>e. (rpRepo e, gpNumber (rpNode e))) es"
proof -
  have settled: "map row_key (fst (fold (settleCandidate w) cs s)) = map row_key (fst s)" for cs s
    by (induction cs arbitrary: s) (simp_all add: candidate_keeps_keys)
  obtain b' where f: "fold (addEntry m) es ([], [], []) = (map (entry_row m) es, b', candidates_from m 0 es)"
    using addEntry_fold[of m es "[]" "[]" "[]"] by auto
  have row: "row_key (entry_row m e) = (rpRepo e, gpNumber (rpNode e))" for e
    by (simp add: row_key_def entry_row_def mapPullRequest_def Let_def split: prod.splits)
  show ?thesis
    by (simp add: mapPullRequestsAcross_def f settleUnreportedRequiredChecks_def settled behind_keeps_keys row)
qed

definition answered :: "pending_outcome \<Rightarrow> (string \<times> int) multiset" where
  "answered o' = mset (map row_key (poPulls o')) + mset (map ref_key (poClosed o')) + mset (map ref_key (poFailed o'))"

definition honest_numbers :: "pending_query \<Rightarrow> bool" where
  "honest_numbers ask \<longleftrightarrow> (\<forall>refs resp i p. ask refs = Inr resp \<longrightarrow> i < length refs \<longrightarrow> resp i = Some p \<longrightarrow>
     gpNumber p = pnNumber (refs ! i))"

lemma positions_split:
  assumes "\<And>i ref p. (i, ref) \<in> set ns \<Longrightarrow> resp i = Some p \<Longrightarrow> gpNumber p = pnNumber ref"
  shows "mset (map (\<lambda>e. (rpRepo e, gpNumber (rpNode e))) (pendingOpen resp ns)) + mset (map ref_key (pendingClosed resp ns))
       + mset (map ref_key (pendingFailed resp ns)) = mset (map (ref_key \<circ> snd) ns)"
  using assms
proof (induction ns)
  case (Cons a ns)
  obtain i ref where a: "a = (i, ref)" by (cases a)
  have hd: "gpNumber p = pnNumber ref" if "resp i = Some p" for p using Cons.prems[of i ref p] that a by simp
  have IH: "mset (map (\<lambda>e. (rpRepo e, gpNumber (rpNode e))) (pendingOpen resp ns)) + mset (map ref_key (pendingClosed resp ns))
       + mset (map ref_key (pendingFailed resp ns)) = mset (map (ref_key \<circ> snd) ns)"
    by (rule Cons.IH) (use Cons.prems in auto)
  show ?case unfolding a list.map mset.simps IH[symmetric]
    by (cases "resp i") (auto simp: pendingOpen_def pendingClosed_def pendingFailed_def ref_key_def[of ref] hd)
qed (simp add: pendingOpen_def pendingClosed_def pendingFailed_def)

lemma chunk_answers:
  assumes "honest_numbers ask" and "refreshPendingChunk w ask refs (out, r) = (err, out', r')"
  shows "answered out' = answered out + (if err = None then mset (map ref_key refs) else {#})"
proof (cases "ask refs")
  case (Inl e)
  then show ?thesis using assms(2) by (auto simp: refreshPendingChunk_def)
next
  case (Inr resp)
  let ?ns = "zip [0..<length refs] refs"
  have pos: "gpNumber p = pnNumber ref" if "(i, ref) \<in> set ?ns" "resp i = Some p" for i ref p
    using assms(1) Inr that by (auto simp: honest_numbers_def set_zip)
  have names: "map (ref_key \<circ> snd) ?ns = map ref_key refs" by (metis map_map map_snd_zip length_upt minus_nat.diff_0)
  have split: "mset (map (\<lambda>e. (rpRepo e, gpNumber (rpNode e))) (pendingOpen resp ?ns))
      + mset (map ref_key (pendingClosed resp ?ns)) + mset (map ref_key (pendingFailed resp ?ns)) = mset (map ref_key refs)"
    using positions_split[of ?ns resp] pos names by metis
  obtain prs r1 where a: "mapPullRequestsAcross (fwMentions w) (fwCompare w) (fwRequired w) (pendingOpen resp ?ns) r = (prs, r1)"
    by (metis prod.exhaust)
  have keys: "map row_key prs = map (\<lambda>e. (rpRepo e, gpNumber (rpNode e))) (pendingOpen resp ?ns)"
    using across_keys[of "fwMentions w" "fwCompare w" "fwRequired w" "pendingOpen resp ?ns" r] by (simp add: a)
  have out: "err = None" "out' = \<lparr>poPulls = poPulls out @ prs, poClosed = poClosed out @ pendingClosed resp ?ns,
      poFailed = poFailed out @ pendingFailed resp ?ns\<rparr>"
    using assms(2) by (auto simp: refreshPendingChunk_def Let_def Inr a)
  have "answered out' = answered out + (mset (map row_key prs) + mset (map ref_key (pendingClosed resp ?ns))
       + mset (map ref_key (pendingFailed resp ?ns)))"
    by (simp add: out answered_def)
  then show ?thesis using split by (simp only: keys out(1) if_True refl)
qed

lemma chunks_concat: "0 < n \<Longrightarrow> concat (chunks n xs) = xs"
  by (induction n xs rule: chunks.induct) (auto simp: Suc_diff_1)

lemma chunks_nonempty: "c \<in> set (chunks n xs) \<Longrightarrow> c \<noteq> []"
  by (induction n xs rule: chunks.induct) auto

lemma chunks_answers:
  assumes "honest_numbers ask" and "refreshPendingChunks w ask cs (out, r) = (err, out', r')"
  shows "\<exists>asked rest. cs = asked @ rest \<and> (err = None \<longleftrightarrow> rest = []) \<and>
           answered out' = answered out + mset (map ref_key (concat asked))"
  using assms(2)
proof (induction cs arbitrary: out r)
  case (Cons c cs)
  obtain e1 o1 r1 where c: "refreshPendingChunk w ask c (out, r) = (e1, o1, r1)" by (metis prod.exhaust)
  note a = chunk_answers[OF assms(1) c]
  show ?case
  proof (cases e1)
    case (Some e)
    then show ?thesis using Cons.prems c a by (intro exI[of _ "[]"] exI[of _ "c # cs"]) auto
  next
    case None
    then have "refreshPendingChunks w ask cs (o1, r1) = (err, out', r')" using Cons.prems c by simp
    from Cons.IH[OF this] obtain asked rest where "cs = asked @ rest" "err = None \<longleftrightarrow> rest = []"
      "answered out' = answered o1 + mset (map ref_key (concat asked))" by blast
    then show ?thesis using a None by (intro exI[of _ "c # asked"] exI[of _ rest]) auto
  qed
qed auto

text \<open>
  A re-read of the pending pull requests answers for each of them once: as a row, as closed, or as one
  the caller has to read another way. When a request fails midway what the earlier ones answered is kept and
  is the front of the list; nothing is answered twice.
\<close>

theorem pending_partition:
  assumes "honest_numbers ask" and "RefreshPending w ask refs required = (err, out, required')"
  shows "\<exists>front rest. refs = front @ rest \<and> (err = None \<longleftrightarrow> rest = []) \<and> answered out = mset (map ref_key front)"
proof -
  have r: "refreshPendingChunks w ask (chunks pendingChunkSize refs) (\<lparr>poPulls = [], poClosed = [], poFailed = []\<rparr>, required)
      = (err, out, required')" using assms(2) by (simp add: RefreshPending_def)
  obtain asked rest where c: "chunks pendingChunkSize refs = asked @ rest" "err = None \<longleftrightarrow> rest = []"
    "answered out = mset (map ref_key (concat asked))"
    using chunks_answers[OF assms(1) r] by (auto simp: answered_def)
  have refs: "refs = concat asked @ concat rest"
    using chunks_concat[of pendingChunkSize refs] c(1) by (simp add: pendingChunkSize_def)
  have nonempty: "rest = [] \<longleftrightarrow> concat rest = []"
    using chunks_nonempty[of _ pendingChunkSize refs] c(1) by (cases rest) auto
  show ?thesis by (intro exI[of _ "concat asked"] exI[of _ "concat rest"]) (use refs c nonempty in simp)
qed

section \<open>A skipped repository's rows\<close>

text \<open>The repositories a refresh follows, as its probe lists them, and the client after a run of refreshes.\<close>

definition probeOf :: "refresh_world \<Rightarrow> probed_repo list" where
  "probeOf w = (case fwProbe w of Inl _ \<Rightarrow> [] | Inr (probed, _) \<Rightarrow> trackedProbed probed)"

definition lists_once :: "refresh_world \<Rightarrow> bool" where
  "lists_once w \<longleftrightarrow> distinct (map probed_name (probeOf w))"

definition client_after :: "refresh_world list \<Rightarrow> github_client" where
  "client_after ws = fold (\<lambda>w c. snd (fetchViaGraphQL w c)) ws new_client"

definition resultAt :: "refresh_world list \<Rightarrow> nat \<Rightarrow> fetch_result" where
  "resultAt ws i = fst (fetchViaGraphQL (ws ! i) (client_after (take i ws)))"

definition stamped :: "refresh_world \<Rightarrow> string \<Rightarrow> repo_stamp \<Rightarrow> bool" where
  "stamped w n st \<longleftrightarrow> (\<exists>p \<in> set (probeOf w). probed_name p = n \<and> prStamp p = st)"

lemma reconcile_names: "reconcileIssues refetch sp s tracked n \<noteq> None \<Longrightarrow> n \<in> repo_full_name ` set tracked"
proof -
  have "fold (reconcileIssue refetch sp s) tracked m n \<noteq> None \<Longrightarrow> n \<in> repo_full_name ` set tracked \<or> m n \<noteq> None" for m
  proof (induction tracked arbitrary: m)
    case (Cons r rs)
    have "reconcileIssue refetch sp s r m n \<noteq> None \<Longrightarrow> n = repo_full_name r \<or> m n \<noteq> None"
      by (auto simp: reconcileIssue_def Let_def split: if_splits option.splits)
    then show ?case using Cons.IH[of "reconcileIssue refetch sp s r m"] Cons.prems by auto
  qed simp
  then show "reconcileIssues refetch sp s tracked n \<noteq> None \<Longrightarrow> n \<in> repo_full_name ` set tracked"
    by (auto simp: reconcileIssues_def)
qed

lemma commit_fetched:
  assumes "n \<in> set tracked" "n \<in> set names" "fetched n \<noteq> None"
  shows "iaFetchedAt (commitIssues t names fetched tracked s) n = Some t"
  using assms by (simp add: commitIssues_def Let_def)

lemma recorded:
  "recordStamps (Some p) got n = Some st \<Longrightarrow>
   \<exists>t \<in> set (plTracked p). probed_name t = n \<and> prStamp t = st \<and> (n \<in> set (plSkipped p) \<or> got n)"
proof -
  have "fold (\<lambda>t next. if List.member sk (probed_name t) \<or> got (probed_name t)
        then next(probed_name t \<mapsto> prStamp t) else next) ts m n = Some st \<Longrightarrow>
      (\<exists>t \<in> set ts. probed_name t = n \<and> prStamp t = st \<and> (n \<in> set sk \<or> got n)) \<or> m n = Some st" for sk ts m
  proof (induction ts arbitrary: m)
    case (Cons a ts)
    let ?m = "if List.member sk (probed_name a) \<or> got (probed_name a) then m(probed_name a \<mapsto> prStamp a) else m"
    have "(\<exists>t \<in> set ts. probed_name t = n \<and> prStamp t = st \<and> (n \<in> set sk \<or> got n)) \<or> ?m n = Some st"
      using Cons.prems by (intro Cons.IH) simp
    then show ?case by (auto split: if_splits)
  qed simp
  then show "recordStamps (Some p) got n = Some st \<Longrightarrow> ?thesis" by (fastforce simp: recordStamps_def)
qed

lemma plan_cases:
  "planRefresh path inc probe hooks known = (plan, known') \<Longrightarrow>
   (plan = None \<and> known' = Map.empty) \<or>
   (\<exists>probed rate. probe = Inr (probed, rate) \<and> known' = known \<and>
      plan = Some \<lparr>plListed = map prRepository probed, plTracked = trackedProbed probed,
                       plChanged = filter (\<lambda>p. \<not> skips inc known hooks p) (trackedProbed probed),
                       plSkipped = map probed_name (filter (skips inc known hooks) (trackedProbed probed)),
                       plHooks = hooks, plRateLimit = rate\<rparr>)"
  by (auto simp: planRefresh_def Let_def split: if_splits sum.splits prod.splits)

lemma append_keeps [simp]:
  "ftUnchanged (fst (appendFetched w fetched is rq res)) = ftUnchanged res"
  "ftHealth (fst (appendFetched w fetched is rq res)) = ftHealth res"
  "ftRepos (fst (appendFetched w fetched is rq res)) = ftRepos res"
  "ftFailedRepos (fst (appendFetched w fetched is rq res)) = ftFailedRepos res"
  by (simp_all add: appendFetched_def Let_def split_beta)

lemma append_branches:
  "ftMainBranches (fst (appendFetched w fetched is rq res)) = ftMainBranches res @
     map (\<lambda>r. mainBranchFrom (repo_full_name r) (grURL r) (grRelease r) (grDefaultBranch r)) fetched"
  by (simp add: appendFetched_def Let_def split_beta)

lemma read_result:
  "ftUnchanged (fst (readRefresh w c plan sp repos rate)) = (case plan of None \<Rightarrow> [] | Some p \<Rightarrow> plSkipped p)"
  "fhReachable (ftHealth (fst (readRefresh w c plan sp repos rate)))"
  "ftFailedRepos (fst (readRefresh w c plan sp repos rate)) = missingFrom (trackedRepos repos) plan"
  by (simp_all add: readRefresh_def Let_def split_beta no_rows_def)

lemma read_client:
  "gcStamps (snd (readRefresh w c plan sp repos rate)) =
     recordStamps plan (\<lambda>n. reconcileIssues (fwRefetch w) sp (gcIssueState c) (trackedRepos repos) n \<noteq> None)"
  "gcIssueState (snd (readRefresh w c (Some p) sp repos rate)) =
     commitIssues (fwStarted w) (map repo_full_name (trackedRepos repos))
       (reconcileIssues (fwRefetch w) sp (gcIssueState c) (trackedRepos repos)) (map probed_name (plTracked p)) (gcIssueState c)"
  by (simp_all add: readRefresh_def Let_def split_beta probed_name_def[abs_def] comp_def)

lemma fetch_cases:
  assumes plan: "planRefresh (fwWebhookPath w) (fwIncremental w) (fwProbe w) (fwHooks w) (gcStamps c) = (plan, known)"
  obtains (failed) e where "fetchViaGraphQL w c = (unreachableResult w e, c\<lparr>gcStamps := known\<rparr>)"
  | (read) sp repos rate where "fetchViaGraphQL w c = readRefresh w (c\<lparr>gcStamps := known\<rparr>) plan sp repos rate"
proof -
  let ?since = "if planPartial plan then sinceFor (map probed_name (plChanged (the plan))) (gcIssueState c)
                   else issuesSince (gcIssueState c)"
  have f: "fetchViaGraphQL w c = (case fetchPlanned w plan ?since of
           Inl e \<Rightarrow> (unreachableResult w e, c\<lparr>gcStamps := known\<rparr>)
         | Inr (repos, rate) \<Rightarrow> readRefresh w (c\<lparr>gcStamps := known\<rparr>) plan (?since \<noteq> None) repos rate)"
    by (simp add: fetchViaGraphQL_def plan Let_def)
  show ?thesis
  proof (cases "fetchPlanned w plan ?since")
    case (Inl e)
    then show ?thesis using failed f by simp
  next
    case (Inr x)
    then show ?thesis using read[of "?since \<noteq> None" "fst x" "snd x"] f by (simp add: split_beta)
  qed
qed

lemma skipped_names:
  assumes plan: "planRefresh (fwWebhookPath w) (fwIncremental w) (fwProbe w) (fwHooks w) known = (Some p, known')"
  shows "plTracked p = probeOf w" "known' = known"
    and "n \<in> set (plSkipped p) \<longleftrightarrow> (\<exists>q \<in> set (probeOf w). probed_name q = n \<and> skips (fwIncremental w) known (fwHooks w) q)"
  using plan_cases[OF plan] by (auto simp: probeOf_def)

lemma unchanged_was_stamped:
  assumes "n \<in> set (ftUnchanged (fst (fetchViaGraphQL w c)))"
  shows "\<exists>st. gcStamps c n = Some st \<and> stamped w n st \<and> fwIncremental w \<and> vouchesForChecks (fwHooks w n)"
proof -
  obtain plan known where p: "planRefresh (fwWebhookPath w) (fwIncremental w) (fwProbe w) (fwHooks w) (gcStamps c) = (plan, known)"
    by (metis prod.exhaust)
  show ?thesis
  proof (cases rule: fetch_cases[OF p])
    case (1 e)
    then show ?thesis using assms by (simp add: unreachableResult_def no_rows_def)
  next
    case (2 sp repos rate)
    then obtain q where "plan = Some q" "n \<in> set (plSkipped q)"
      using assms by (auto simp: read_result split: option.splits)
    then show ?thesis using skipped_names[OF p[unfolded \<open>plan = Some q\<close>]]
      by (auto simp: stamped_def skips_def)
  qed
qed

lemma stamp_origin:
  assumes once: "lists_once w" and st: "gcStamps (snd (fetchViaGraphQL w c)) n = Some st"
  shows "gcStamps c n = Some st \<and> (n \<in> set (ftUnchanged (fst (fetchViaGraphQL w c)))
            \<or> \<not> fhReachable (ftHealth (fst (fetchViaGraphQL w c))))
       \<or> stamped w n st \<and> n \<notin> set (ftUnchanged (fst (fetchViaGraphQL w c))) \<and>
         iaFetchedAt (gcIssueState (snd (fetchViaGraphQL w c))) n = Some (fwStarted w)"
proof -
  obtain plan known where p: "planRefresh (fwWebhookPath w) (fwIncremental w) (fwProbe w) (fwHooks w) (gcStamps c) = (plan, known)"
    by (metis prod.exhaust)
  show ?thesis
  proof (cases rule: fetch_cases[OF p])
    case (1 e)
    then show ?thesis using st plan_cases[OF p] by (auto simp: unreachableResult_def no_rows_def zero_health_def)
  next
    case (2 sp repos rate)
    let ?got = "reconcileIssues (fwRefetch w) sp (gcIssueState c) (trackedRepos repos)"
    have rec: "recordStamps plan (\<lambda>n. ?got n \<noteq> None) n = Some st" using st by (simp add: 2 read_client)
    then obtain q where q: "plan = Some q" by (cases plan) (auto simp: recordStamps_def)
    note sk = skipped_names[OF p[unfolded q]]
    obtain t where t: "t \<in> set (probeOf w)" "probed_name t = n" "prStamp t = st" "n \<in> set (plSkipped q) \<or> ?got n \<noteq> None"
      using recorded[OF rec[unfolded q]] sk(1) by auto
    show ?thesis
    proof (cases "n \<in> set (plSkipped q)")
      case True
      then obtain t' where "t' \<in> set (probeOf w)" "probed_name t' = n" "gcStamps c n = Some (prStamp t')"
        using sk(3)[of n] by (auto simp: skips_def)
      then have "gcStamps c n = Some st" using once t(1,2,3) unfolding lists_once_def distinct_map
        by (metis inj_onD)
      then show ?thesis using True by (simp add: 2 read_result q)
    next
      case False
      then have got: "?got n \<noteq> None" using t(4) by blast
      then have "n \<in> set (map repo_full_name (trackedRepos repos))" using reconcile_names by auto
      moreover have "n \<in> set (map probed_name (plTracked q))" using t(1,2) sk(1) by auto
      ultimately have "iaFetchedAt (gcIssueState (snd (fetchViaGraphQL w c))) n = Some (fwStarted w)"
        using commit_fetched got by (simp add: 2 read_client q)
      moreover have "stamped w n st" using t by (auto simp: stamped_def)
      ultimately show ?thesis using False by (simp add: 2 read_result q)
    qed
  qed
qed

text \<open>A run of refreshes, its last one apart.\<close>

lemma after_snoc: "client_after (ws @ [w]) = snd (fetchViaGraphQL w (client_after ws))"
  by (simp add: client_after_def)

lemma resultAt_snoc: "resultAt (ws @ [w]) (length ws) = fst (fetchViaGraphQL w (client_after ws))"
  "i < length ws \<Longrightarrow> resultAt (ws @ [w]) i = resultAt ws i"
  by (simp_all add: resultAt_def nth_append)

text \<open>The refresh that read a repository, and the later ones that left its rows alone.\<close>

definition last_read :: "refresh_world list \<Rightarrow> string \<Rightarrow> repo_stamp \<Rightarrow> nat \<Rightarrow> bool" where
  "last_read ws n st i \<longleftrightarrow> i < length ws \<and> stamped (ws ! i) n st \<and> n \<notin> set (ftUnchanged (resultAt ws i)) \<and>
     iaFetchedAt (gcIssueState (client_after (take (Suc i) ws))) n = Some (fwStarted (ws ! i)) \<and>
     (\<forall>j. i < j \<and> j < length ws \<longrightarrow>
        n \<in> set (ftUnchanged (resultAt ws j)) \<or> \<not> fhReachable (ftHealth (resultAt ws j)))"

lemma stamp_has_read:
  assumes "\<And>w. w \<in> set ws \<Longrightarrow> lists_once w" and "gcStamps (client_after ws) n = Some st"
  shows "\<exists>i. last_read ws n st i"
  using assms
proof (induction ws rule: rev_induct)
  case Nil
  then show ?case by (simp add: client_after_def new_client_def)
next
  case (snoc w ws)
  have take: "take (Suc i) (ws @ [w]) = take (Suc i) ws" if "i < length ws" for i using that by simp
  from stamp_origin[of w "client_after ws" n st] snoc.prems
  consider (kept) "gcStamps (client_after ws) n = Some st"
      "n \<in> set (ftUnchanged (fst (fetchViaGraphQL w (client_after ws)))) \<or> \<not> fhReachable (ftHealth (fst (fetchViaGraphQL w (client_after ws))))"
    | (now) "stamped w n st" "n \<notin> set (ftUnchanged (fst (fetchViaGraphQL w (client_after ws))))"
      "iaFetchedAt (gcIssueState (snd (fetchViaGraphQL w (client_after ws)))) n = Some (fwStarted w)"
    by (auto simp: after_snoc)
  then show ?case
  proof cases
    case kept
    then obtain i where i: "last_read ws n st i" using snoc.IH snoc.prems(1) by auto
    then have "last_read (ws @ [w]) n st i"
      using kept(2) unfolding last_read_def
      by (auto simp: nth_append resultAt_snoc take less_Suc_eq)
    then show ?thesis ..
  next
    case now
    then have "last_read (ws @ [w]) n st (length ws)"
      by (auto simp: last_read_def nth_append resultAt_snoc after_snoc)
    then show ?thesis ..
  qed
qed

text \<open>
  C23: A refresh skips a repository only while nothing in it has moved since its rows were read. In any run
  of refreshes, whatever fails in between, a repository left out of a refresh was read whole by an earlier
  one whose probe saw the very stamp it has now; every refresh since then either left it out the same way or
  failed altogether, and its webhook vouches for the checks the stamp does not show.
\<close>

theorem skipped_since_read:
  assumes "\<And>w. w \<in> set ws \<Longrightarrow> lists_once w"
    and "n \<in> set (ftUnchanged (fst (fetchViaGraphQL w (client_after ws))))"
  shows "fwIncremental w \<and> vouchesForChecks (fwHooks w n) \<and> (\<exists>st i. stamped w n st \<and> last_read ws n st i)"
  using unchanged_was_stamped[OF assms(2)] stamp_has_read[OF assms(1)] by blast

text \<open>One repository, read in a first refresh and left out of a second.\<close>

definition demo_repo :: graphql_repo where
  "demo_repo = \<lparr>grName = ''r'', grURL = '''', grIsArchived = False, grIsFork = False, grViewerPermission = ''WRITE'',
     grCustomOpenGraphImage = False, grOpenGraphImageURL = '''', grOwner = ''o'', grRelease = None, grDefaultBranch = None,
     grPullRequests = [], grIssuesTotal = 0, grIssues = []\<rparr>"

definition demo_probe :: probed_repo where
  "demo_probe = \<lparr>prRepository = demo_repo, prStamp = \<lparr>rsPushedAt = ''t'', rsUpdatedAt = ''t'', rsOpenPRs = 0,
     rsOpenIssues = 0, rsNewestPR = '''', rsNewestIssue = ''''\<rparr>\<rparr>"

definition demo_hooks :: "string \<Rightarrow> hook_probe" where
  "demo_hooks = (\<lambda>_. \<lparr>hpHas = True, hpRefused = False, hpActive = True, hpEvents = [''check_run'']\<rparr>)"

definition demo_refresh :: refresh_world where
  "demo_refresh = \<lparr>fwWebhookPath = ''/hook'', fwApp = False, fwIncremental = True, fwStarted = 5,
     fwProbe = Inr ([demo_probe], None),
     fwHooks = demo_hooks,
     fwFetchAll = (\<lambda>_. Inr ([demo_repo], None)), fwFetchNamed = (\<lambda>_ _. Inr ([], None)),
     fwRefetch = (\<lambda>_. None), fwHeld = (\<lambda>_ _ _. None), fwHistory = (\<lambda>_. None), fwSuites = (\<lambda>_. None),
     fwMentions = (\<lambda>_ _. []), fwCompare = (\<lambda>_. None), fwRequired = demo_required, fwREST = None, fwErrorLimit = None\<rparr>"

lemma demo_plans:
  "planRefresh ''/hook'' True (Inr ([demo_probe], None)) (demo_hooks) Map.empty =
     (Some \<lparr>plListed = [demo_repo], plTracked = [demo_probe], plChanged = [demo_probe], plSkipped = [],
            plHooks = demo_hooks, plRateLimit = None\<rparr>, Map.empty)"
  "planRefresh ''/hook'' True (Inr ([demo_probe], None)) (demo_hooks) [''o/r'' \<mapsto> prStamp demo_probe] =
     (Some \<lparr>plListed = [demo_repo], plTracked = [demo_probe], plChanged = [], plSkipped = [''o/r''],
            plHooks = demo_hooks, plRateLimit = None\<rparr>, [''o/r'' \<mapsto> prStamp demo_probe])"
  by (simp_all add: planRefresh_def trackedProbed_def demo_probe_def demo_repo_def hasWriteAccess_def skips_def Let_def
      demo_hooks_def vouchesForChecks_def probed_name_def repo_full_name_def)

lemma demo_first: "gcStamps (client_after [demo_refresh]) = [''o/r'' \<mapsto> prStamp demo_probe]"
proof -
  have "fetchPlanned demo_refresh (Some \<lparr>plListed = [demo_repo], plTracked = [demo_probe], plChanged = [demo_probe],
      plSkipped = [], plHooks = demo_hooks, plRateLimit = None\<rparr>) since = Inr ([demo_repo], None)" for since
    by (simp add: fetchPlanned_def planPartial_def demo_refresh_def)
  then show ?thesis
    using demo_plans(1)
    by (simp add: client_after_def fetchViaGraphQL_def new_client_def demo_refresh_def read_client recordStamps_def issuesSince_def
        oldest_def new_issue_state_def planPartial_def reconcileIssues_def reconcileIssue_def trackedRepos_def
        demo_repo_def demo_probe_def hasWriteAccess_def probed_name_def repo_full_name_def fetchPlanned_def)
qed

lemma skipped_since_read_witness:
  "\<exists>st i. stamped demo_refresh ''o/r'' st \<and> last_read [demo_refresh] ''o/r'' st i"
proof -
  have "''o/r'' \<in> set (ftUnchanged (fst (fetchViaGraphQL demo_refresh (client_after [demo_refresh]))))"
    using demo_plans(2) demo_first
    by (simp add: fetchViaGraphQL_def demo_refresh_def planPartial_def fetchPlanned_def fetchNamedRepos_def read_result)
  moreover have "lists_once w" if "w \<in> set [demo_refresh]" for w
    using that by (simp add: lists_once_def probeOf_def demo_refresh_def trackedProbed_def)
  ultimately show ?thesis using skipped_since_read[of "[demo_refresh]" "''o/r''" demo_refresh] by blast
qed

lemma pending_partition_witness:
  "\<exists>front rest. [\<lparr>pnOwner = ''o'', pnName = ''r'', pnFullName = ''o/r'', pnNumber = 1\<rparr>] = front @ rest \<and>
     answered (fst (snd (RefreshPending demo_refresh (\<lambda>_. Inr Map.empty)
       [\<lparr>pnOwner = ''o'', pnName = ''r'', pnFullName = ''o/r'', pnNumber = 1\<rparr>] no_required_checks))) = mset (map ref_key front)"
proof -
  let ?refs = "[\<lparr>pnOwner = ''o'', pnName = ''r'', pnFullName = ''o/r'', pnNumber = 1\<rparr>]"
  obtain err out r where p: "RefreshPending demo_refresh (\<lambda>_. Inr Map.empty) ?refs no_required_checks = (err, out, r)"
    by (metis prod.exhaust)
  show ?thesis using pending_partition[OF _ p] by (auto simp: p honest_numbers_def)
qed

end
