(* ===== verification/Activity.thy ===== *)
theory Activity
  imports FD_Library "HOL-Library.Sublist" "HOL-Library.Multiset"
begin

text \<open>
  Whether anyone uses the dashboard (\<open>activity.go\<close>), which decides if the background refreshes rest, and the
  report of a tab (\<open>internal/api/presence.go\<close>). The map of tabs is a list of entries in the order the map is
  walked; any order can come about, so a run may reorder it at any moment. The wake channel holds one value,
  so it is a flag.
\<close>

section \<open>State and operations\<close>

definition PresenceHeartbeat :: duration where "PresenceHeartbeat = minute"
definition PresenceTTL :: duration where "PresenceTTL = 3 * PresenceHeartbeat"
definition MaxViewers :: nat where "MaxViewers = 32"

record activity =
  avIdleAfter :: duration
  avWake :: bool
  avLastUsed :: time
  avViewers :: "(string \<times> time) list"

definition NewActivity :: "duration \<Rightarrow> time \<Rightarrow> activity" where
  "NewActivity idleAfter now = \<lparr>avIdleAfter = idleAfter, avWake = False, avLastUsed = now, avViewers = []\<rparr>"

text \<open>The walk of \<open>idleLocked\<close>: it stops at the first tab still seen and drops the ones before it.\<close>

fun idleWalk :: "time \<Rightarrow> (string \<times> time) list \<Rightarrow> bool \<times> (string \<times> time) list" where
  "idleWalk now [] = (False, [])"
| "idleWalk now ((v, seen) # vs) =
     (if time_sub now seen < PresenceTTL then (True, (v, seen) # vs) else idleWalk now vs)"

definition idleLocked :: "time \<Rightarrow> activity \<Rightarrow> bool \<times> activity" where
  "idleLocked now a =
     (if avIdleAfter a \<le> 0 then (False, a)
      else (case idleWalk now (avViewers a) of
          (True, vs) \<Rightarrow> (False, a\<lparr>avViewers := vs\<rparr>)
        | (False, vs) \<Rightarrow> (time_sub now (avLastUsed a) \<ge> avIdleAfter a, a\<lparr>avViewers := vs\<rparr>)))"

definition signalLocked :: "bool \<Rightarrow> activity \<Rightarrow> activity" where
  "signalLocked wasIdle a = (if wasIdle then a\<lparr>avWake := True\<rparr> else a)"

definition Touch :: "time \<Rightarrow> activity \<Rightarrow> activity" where
  "Touch now a = (let (wasIdle, a') = idleLocked now a in signalLocked wasIdle (a'\<lparr>avLastUsed := now\<rparr>))"

definition pruneLocked :: "time \<Rightarrow> (string \<times> time) list \<Rightarrow> (string \<times> time) list" where
  "pruneLocked now vs = filter (\<lambda>(_, seen). \<not> time_sub now seen \<ge> PresenceTTL) vs"

text \<open>An empty id stands for none found yet.\<close>

definition oldestViewer :: "(string \<times> time) list \<Rightarrow> string" where
  "oldestViewer vs = fst (fold (\<lambda>(v, seen) (o', t). if o' = '''' \<or> seen < t then (v, seen) else (o', t)) vs ('''', zero_time))"

definition dropOldestLocked :: "(string \<times> time) list \<Rightarrow> (string \<times> time) list" where
  "dropOldestLocked vs = filter (\<lambda>(v, _). v \<noteq> oldestViewer vs) vs"

definition known_viewer :: "string \<Rightarrow> (string \<times> time) list \<Rightarrow> bool" where
  "known_viewer v vs = List.member (map fst vs) v"

definition without_viewer :: "string \<Rightarrow> (string \<times> time) list \<Rightarrow> (string \<times> time) list" where
  "without_viewer v vs = filter (\<lambda>(w, _). w \<noteq> v) vs"

definition Present :: "time \<Rightarrow> string \<Rightarrow> bool \<Rightarrow> activity \<Rightarrow> activity" where
  "Present now v visible a =
     (if \<not> visible then
        (if known_viewer v (avViewers a) then a\<lparr>avViewers := without_viewer v (avViewers a), avLastUsed := now\<rparr> else a)
      else
        (let (wasIdle, a') = idleLocked now a; vs = pruneLocked now (avViewers a');
             vs' = (if \<not> known_viewer v vs \<and> length vs \<ge> MaxViewers then dropOldestLocked vs else vs)
         in signalLocked wasIdle (a'\<lparr>avViewers := (v, now) # without_viewer v vs', avLastUsed := now\<rparr>)))"

definition ResetActivity :: "time \<Rightarrow> activity \<Rightarrow> activity" where
  "ResetActivity now a = a\<lparr>avViewers := [], avLastUsed := now, avWake := False\<rparr>"

definition ViewerCount :: "activity \<Rightarrow> nat" where
  "ViewerCount a = length (avViewers a)"

definition Idle :: "time \<Rightarrow> activity \<Rightarrow> bool \<times> activity" where
  "Idle now a = idleLocked now a"

definition drainWake :: "activity \<Rightarrow> activity" where
  "drainWake a = a\<lparr>avWake := False\<rparr>"

section \<open>The report of a tab\<close>

definition minViewerIDLen :: nat where "minViewerIDLen = 8"
definition maxViewerIDLen :: nat where "maxViewerIDLen = 64"

record presence_report =
  psViewerID :: string
  psVisible :: "bool option"

text \<open>\<open>None\<close> is the answer 400; the body and its decoding are the argument.\<close>

definition handleDashboardPresence :: "time \<Rightarrow> presence_report option \<Rightarrow> activity \<Rightarrow> (int \<times> int) option \<times> activity" where
  "handleDashboardPresence now req a = (case req of
     None \<Rightarrow> (None, a)
   | Some r \<Rightarrow>
       (case psVisible r of
          None \<Rightarrow> (None, a)
        | Some visible \<Rightarrow>
            if length (trim_space (psViewerID r)) < minViewerIDLen \<or> length (psViewerID r) > maxViewerIDLen then (None, a)
            else (Some (PresenceHeartbeat div second, avIdleAfter a div second), Present now (psViewerID r) visible a)))"

section \<open>Runs\<close>

datatype activity_event = Touched | Visible string | Hidden string | Looked | Woke | Restarted

definition act :: "time \<Rightarrow> activity_event \<Rightarrow> activity \<Rightarrow> activity" where
  "act now e a = (case e of Touched \<Rightarrow> Touch now a | Visible v \<Rightarrow> Present now v True a | Hidden v \<Rightarrow> Present now v False a
     | Looked \<Rightarrow> snd (Idle now a) | Woke \<Rightarrow> drainWake a | Restarted \<Rightarrow> ResetActivity now a)"

text \<open>The history, newest first; the clock does not go back.\<close>

inductive activity_run :: "duration \<Rightarrow> (time \<times> activity_event) list \<Rightarrow> time \<Rightarrow> activity \<Rightarrow> bool" where
  started: "activity_run d [(t, Restarted)] t (NewActivity d t)"
| happened: "activity_run d h t a \<Longrightarrow> t \<le> now \<Longrightarrow> activity_run d ((now, e) # h) now (act now e a)"
| walked: "activity_run d h t a \<Longrightarrow> mset vs = mset (avViewers a) \<Longrightarrow> activity_run d h t (a\<lparr>avViewers := vs\<rparr>)"

definition is_use :: "activity_event \<Rightarrow> bool" where
  "is_use e = (case e of Touched \<Rightarrow> True | Visible _ \<Rightarrow> True | Restarted \<Rightarrow> True | _ \<Rightarrow> False)"

section \<open>The tabs\<close>

lemma idleWalk_sub: "set (snd (idleWalk now vs)) \<subseteq> set vs"
  by (induction now vs rule: idleWalk.induct) auto

lemma idleWalk_suffix: "\<exists>dropped. vs = dropped @ snd (idleWalk now vs) \<and> (\<forall>(v, t) \<in> set dropped. \<not> time_sub now t < PresenceTTL)"
proof (induction now vs rule: idleWalk.induct)
  case (2 now v seen vs)
  then show ?case
  proof (cases "time_sub now seen < PresenceTTL")
    case False
    then obtain dr where "vs = dr @ snd (idleWalk now vs)" "\<forall>(v, t) \<in> set dr. \<not> time_sub now t < PresenceTTL"
      using 2 by blast
    then show ?thesis using False by (intro exI[of _ "(v, seen) # dr"]) auto
  qed simp
qed simp

lemma idleWalk_live: "fst (idleWalk now vs) \<longleftrightarrow> (\<exists>(v, t) \<in> set vs. time_sub now t < PresenceTTL)"
  by (induction now vs rule: idleWalk.induct) auto

lemma idleLocked_state:
  "snd (idleLocked now a) = a\<lparr>avViewers := (if avIdleAfter a \<le> 0 then avViewers a else snd (idleWalk now (avViewers a)))\<rparr>"
  by (auto simp: idleLocked_def split: prod.splits bool.splits)

lemma idleLocked_idle:
  "fst (idleLocked now a) \<longleftrightarrow> 0 < avIdleAfter a \<and> (\<forall>(v, t) \<in> set (avViewers a). time_sub now t \<ge> PresenceTTL)
     \<and> time_sub now (avLastUsed a) \<ge> avIdleAfter a"
  using idleWalk_live[of now "avViewers a"] by (auto simp: idleLocked_def not_less split: prod.splits bool.splits)

text \<open>What an operation keeps: each tab once, at most \<open>MaxViewers\<close>, none seen after the last use.\<close>

definition tabs_ok :: "activity \<Rightarrow> bool" where
  "tabs_ok a \<longleftrightarrow> distinct (map fst (avViewers a)) \<and> length (avViewers a) \<le> MaxViewers \<and>
     (\<forall>(v, t) \<in> set (avViewers a). t \<le> avLastUsed a)"

lemma subseq_facts:
  assumes "subseq xs ys"
  shows "set xs \<subseteq> set ys" "length xs \<le> length ys" "distinct (map f ys) \<Longrightarrow> distinct (map f xs)"
proof -
  obtain N where N: "xs = nths ys N" using assms by (auto simp: subseq_conv_nths)
  show "set xs \<subseteq> set ys" "length xs \<le> length ys"
    using N set_nths_subset[of ys N] list_emb_length[OF assms] by simp_all
  show "distinct (map f ys) \<Longrightarrow> distinct (map f xs)"
    unfolding N nths_map[symmetric] by (rule distinct_nthsI)
qed

lemma tabs_sub:
  assumes "tabs_ok a" "subseq (avViewers b) (avViewers a)" "avLastUsed a \<le> avLastUsed b"
  shows "tabs_ok b"
proof -
  have "t \<le> avLastUsed b" if "(v, t) \<in> set (avViewers b)" for v t
    using that subseq_facts(1)[OF assms(2)] assms(1,3) unfolding tabs_ok_def by fastforce
  then show ?thesis using subseq_facts(2,3)[OF assms(2)] assms(1) unfolding tabs_ok_def by auto
qed

lemma oldest_listed: "vs \<noteq> [] \<Longrightarrow> oldestViewer vs \<in> fst ` set vs"
proof -
  have "fst (fold (\<lambda>(v, seen) (o', t). if o' = '''' \<or> seen < t then (v, seen) else (o', t)) vs (o0, t0))
      \<in> insert o0 (fst ` set vs)" for vs o0 t0
  proof (induction vs arbitrary: o0 t0)
    case (Cons a vs)
    obtain v s where a: "a = (v, s)" by (cases a)
    show ?case using Cons.IH[of "if o0 = '''' \<or> s < t0 then v else o0" "if o0 = '''' \<or> s < t0 then s else t0"]
      by (auto simp: a split: if_splits)
  qed simp
  note step = this
  have "fst (fold (\<lambda>(v, seen) (o', t). if o' = '''' \<or> seen < t then (v, seen) else (o', t)) vs ('''', t0)) \<in> fst ` set vs"
    if "vs \<noteq> []" for vs t0
    using that
  proof (induction vs arbitrary: t0)
    case (Cons a vs)
    obtain v s where a: "a = (v, s)" by (cases a)
    have "fst (fold (\<lambda>(v, seen) (o', t). if o' = '''' \<or> seen < t then (v, seen) else (o', t)) vs (v, s))
      \<in> insert v (fst ` set vs)" by (rule step)
    then show ?case by (simp add: a)
  qed simp
  then show "vs \<noteq> [] \<Longrightarrow> ?thesis" by (simp add: oldestViewer_def)
qed

lemma drop_shrinks: "vs \<noteq> [] \<Longrightarrow> length (dropOldestLocked vs) < length vs"
  using oldest_listed[of vs] unfolding dropOldestLocked_def by (auto intro!: length_filter_less)

lemma dropped_oldest:
  assumes "'''' \<notin> fst ` set vs" "distinct (map fst vs)" "(v, t) \<in> set vs" "v = oldestViewer vs" "(w, s) \<in> set vs"
  shows "t \<le> s"
proof -
  let ?f = "\<lambda>(v, seen) (o', t). if o' = '''' \<or> seen < t then (v, seen) else (o', t :: time)"
  have keep: "o' \<noteq> '''' \<Longrightarrow> '''' \<notin> fst ` set vs \<Longrightarrow> (case fold ?f vs (o', t') of (v', t'') \<Rightarrow>
      v' \<noteq> '''' \<and> (v', t'') \<in> insert (o', t') (set vs) \<and> (\<forall>(w, s) \<in> insert (o', t') (set vs). t'' \<le> s))" for o' t' vs
  proof (induction vs arbitrary: o' t')
    case (Cons a vs)
    obtain w s where a: "a = (w, s)" by (cases a)
    have w: "w \<noteq> ''''" "'''' \<notin> fst ` set vs" using Cons.prems(2) by (auto simp: a)
    show ?case using Cons.IH[of "if s < t' then w else o'" "if s < t' then s else t'"] Cons.prems(1) w
      by (auto simp: a split: prod.splits if_splits)
  qed simp
  obtain b bs where vs: "vs = b # bs" using assms(3) by (cases vs) auto
  obtain v0 t0 where b: "b = (v0, t0)" by (cases b)
  have ne: "v0 \<noteq> ''''" "'''' \<notin> fst ` set bs" using assms(1) by (auto simp: vs b)
  obtain v' t' where r: "fold ?f bs (v0, t0) = (v', t')" by (cases "fold ?f bs (v0, t0)")
  have old: "oldestViewer vs = v'" using r by (simp add: oldestViewer_def vs b)
  have k: "(v', t') \<in> set vs" "\<forall>(w, s) \<in> set vs. t' \<le> s"
    using keep[OF ne, of t0, unfolded r prod.case] by (auto simp: vs b)
  then have "t = t'" using assms(2,3,4) old by (metis eq_key_imp_eq_value)
  then show ?thesis using k(2) assms(5) by auto
qed

section \<open>What a run keeps\<close>

lemma TTL_pos: "0 < PresenceTTL" "PresenceTTL < 2 ^ 63" "0 \<le> PresenceTTL"
  by (simp_all add: PresenceTTL_def PresenceHeartbeat_def)

lemma seen_now: "time_sub now t < PresenceTTL \<longleftrightarrow> now - t < PresenceTTL"
  "time_sub now t \<ge> PresenceTTL \<longleftrightarrow> now - t \<ge> PresenceTTL"
  using TTL_pos by (auto simp: time_sub_less time_sub_ge)

text \<open>The fields after each operation.\<close>

lemma idle_fields [simp]:
  "avLastUsed (snd (idleLocked now a)) = avLastUsed a" "avIdleAfter (snd (idleLocked now a)) = avIdleAfter a"
  "avWake (snd (idleLocked now a)) = avWake a"
  by (simp_all add: idleLocked_state)

definition kept_tabs :: "time \<Rightarrow> string \<Rightarrow> activity \<Rightarrow> (string \<times> time) list" where
  "kept_tabs now v a = (let vs = pruneLocked now (avViewers (snd (idleLocked now a)))
     in without_viewer v (if \<not> known_viewer v vs \<and> length vs \<ge> MaxViewers then dropOldestLocked vs else vs))"

lemma touch_fields [simp]:
  "avLastUsed (Touch now a) = now" "avIdleAfter (Touch now a) = avIdleAfter a"
  "avWake (Touch now a) \<longleftrightarrow> avWake a \<or> fst (idleLocked now a)"
  "avViewers (Touch now a) = avViewers (snd (idleLocked now a))"
  by (auto simp: Touch_def signalLocked_def split_beta Let_def)

lemma visible_fields [simp]:
  "avLastUsed (Present now v True a) = now" "avIdleAfter (Present now v True a) = avIdleAfter a"
  "avWake (Present now v True a) \<longleftrightarrow> avWake a \<or> fst (idleLocked now a)"
  "avViewers (Present now v True a) = (v, now) # kept_tabs now v a"
  by (auto simp: Present_def signalLocked_def kept_tabs_def split_beta Let_def)

lemma hidden_fields [simp]:
  "avLastUsed (Present now v False a) = (if known_viewer v (avViewers a) then now else avLastUsed a)"
  "avIdleAfter (Present now v False a) = avIdleAfter a"
  "avViewers (Present now v False a) = without_viewer v (avViewers a)"
proof -
  have "without_viewer v vs = vs" if "\<not> known_viewer v vs" for vs
    using that by (auto simp: without_viewer_def known_viewer_def filter_id_conv image_iff)
  then show "avViewers (Present now v False a) = without_viewer v (avViewers a)" by (auto simp: Present_def)
qed (auto simp: Present_def)

lemma walk_subseq: "subseq (avViewers (snd (idleLocked now a))) (avViewers a)"
proof -
  obtain dr where "avViewers a = dr @ snd (idleWalk now (avViewers a))" using idleWalk_suffix by blast
  then have "subseq (snd (idleWalk now (avViewers a))) (avViewers a)"
    by (metis subseq_drop_many subseq_order.order_refl)
  then show ?thesis by (simp add: idleLocked_state)
qed

lemma kept_subseq: "subseq (kept_tabs now v a) (avViewers a)"
  by (rule subseq_order.trans[OF _ walk_subseq[of now]])
     (auto simp: kept_tabs_def without_viewer_def dropOldestLocked_def pruneLocked_def Let_def intro: subseq_filter_left)

lemma kept_fresh: "v \<notin> fst ` set (kept_tabs now v a)"
  by (auto simp: kept_tabs_def without_viewer_def Let_def)

lemma kept_room:
  assumes "length (avViewers a) \<le> MaxViewers"
  shows "length (kept_tabs now v a) < MaxViewers"
proof -
  let ?vs = "pruneLocked now (avViewers (snd (idleLocked now a)))"
  have len: "length ?vs \<le> MaxViewers"
    using assms subseq_facts(2)[OF walk_subseq[of now a]] by (simp add: pruneLocked_def order_trans[OF length_filter_le])
  have less: "length (without_viewer v ws) \<le> length ws" for ws by (simp add: without_viewer_def)
  consider (known) "known_viewer v ?vs" | (room) "\<not> known_viewer v ?vs" "length ?vs < MaxViewers"
    | (full) "\<not> known_viewer v ?vs" "length ?vs = MaxViewers" using len by linarith
  then show ?thesis
  proof cases
    case known
    then have "length (without_viewer v ?vs) < length ?vs"
      by (auto simp: without_viewer_def known_viewer_def intro!: length_filter_less)
    then show ?thesis using known len by (simp add: kept_tabs_def)
  next
    case room
    then show ?thesis using less[of ?vs] by (simp add: kept_tabs_def)
  next
    case full
    then have "?vs \<noteq> []" by (auto simp: MaxViewers_def)
    then have "length (dropOldestLocked ?vs) < MaxViewers" using drop_shrinks[of ?vs] full(2) by simp
    then show ?thesis using full less[of "dropOldestLocked ?vs"] by (simp add: kept_tabs_def)
  qed
qed

lemma act_tabs_ok:
  assumes "tabs_ok a" "avLastUsed a \<le> now"
  shows "tabs_ok (act now e a) \<and> avLastUsed (act now e a) \<le> now"
proof -
  have "tabs_ok (Touch now a)" by (rule tabs_sub[OF assms(1)]) (use assms(2) walk_subseq in simp_all)
  moreover have "tabs_ok (Present now v True a)" for v
  proof -
    have "tabs_ok (a\<lparr>avViewers := kept_tabs now v a, avLastUsed := now\<rparr>)"
      by (rule tabs_sub[OF assms(1)]) (use assms(2) kept_subseq in simp_all)
    then show ?thesis
      using kept_fresh[of v now a] kept_room[of a now v] assms(1) by (auto simp: tabs_ok_def)
  qed
  moreover have "tabs_ok (Present now v False a)" for v
    by (rule tabs_sub[OF assms(1)]) (use assms(2) in \<open>simp_all add: without_viewer_def\<close>)
  moreover have "tabs_ok (snd (idleLocked now a))" by (rule tabs_sub[OF assms(1)]) (use walk_subseq in simp_all)
  moreover have "tabs_ok (drainWake a)" "tabs_ok (ResetActivity now a)"
    using assms(1) by (simp_all add: tabs_ok_def drainWake_def ResetActivity_def)
  ultimately show ?thesis using assms(2)
    by (cases e) (simp_all add: act_def Idle_def drainWake_def ResetActivity_def)
qed

definition run_inv :: "duration \<Rightarrow> (time \<times> activity_event) list \<Rightarrow> time \<Rightarrow> activity \<Rightarrow> bool" where
  "run_inv d h t a \<longleftrightarrow> avIdleAfter a = d \<and> tabs_ok a \<and> avLastUsed a \<le> t \<and> list_all (\<lambda>(s, _). s \<le> t) h \<and>
     list_all (\<lambda>(s, e). is_use e \<longrightarrow> s \<le> avLastUsed a) h \<and>
     avLastUsed a \<in> fst ` set h \<and> (\<forall>(v, s) \<in> set (avViewers a). (s, Visible v) \<in> set h)"

text \<open>A tab is let go by its own hidden report or a reset, and by nothing another tab reports, unless the
  map is full of tabs heard from later.\<close>

definition lets_go :: "string \<Rightarrow> activity_event \<Rightarrow> bool" where
  "lets_go v e \<longleftrightarrow> e = Hidden v \<or> e = Restarted"

definition others_visible :: "string \<Rightarrow> time \<Rightarrow> (time \<times> activity_event) list \<Rightarrow> string set" where
  "others_visible v s h = {w. w \<noteq> v \<and> (\<exists>(t, e) \<in> set h. s \<le> t \<and> e = Visible w)}"

definition named_tabs :: "(time \<times> activity_event) list \<Rightarrow> bool" where
  "named_tabs h = list_all (\<lambda>(_, e). e \<noteq> Visible '''') h"

definition holding :: "(time \<times> activity_event) list \<Rightarrow> time \<Rightarrow> activity \<Rightarrow> bool" where
  "holding h t a \<longleftrightarrow> (\<forall>later s v earlier. h = later @ (s, Visible v) # earlier \<longrightarrow> list_all (\<lambda>(_, e). \<not> lets_go v e) later \<longrightarrow>
     t - s \<ge> PresenceTTL \<or> (\<exists>s' \<ge> s. (v, s') \<in> set (avViewers a)) \<or> MaxViewers \<le> card (others_visible v s h))"

lemma others_finite: "finite (others_visible v s h)"
proof -
  have "others_visible v s h \<subseteq> (\<lambda>(_, e). case e of Visible w \<Rightarrow> w | _ \<Rightarrow> '''') ` set h"
    by (force simp: others_visible_def image_iff split: prod.splits)
  then show ?thesis by (rule finite_subset) simp
qed

lemma others_grow: "card (others_visible v s h) \<le> card (others_visible v s (x # h))"
  by (rule card_mono[OF others_finite]) (auto simp: others_visible_def)

lemma act_last:
  "is_use e \<Longrightarrow> avLastUsed (act now e a) = now"
  "avLastUsed (act now e a) = now \<or> avLastUsed (act now e a) = avLastUsed a"
  "avIdleAfter (act now e a) = avIdleAfter a"
  by (cases e; simp add: act_def is_use_def Idle_def drainWake_def ResetActivity_def)+

lemma act_tabs: "set (avViewers (act now e a)) \<subseteq> {(v, now) | v. e = Visible v} \<union> set (avViewers a)"
  using subseq_facts(1)[OF walk_subseq[of now a]] subseq_facts(1)[OF kept_subseq[of now _ a]]
  by (cases e) (auto simp: act_def Idle_def drainWake_def ResetActivity_def without_viewer_def)

lemma act_keeps_inv:
  assumes "run_inv d h t a" "t \<le> now"
  shows "run_inv d ((now, e) # h) now (act now e a)"
proof -
  have a: "tabs_ok a" "avLastUsed a \<le> now" "avLastUsed a \<in> fst ` set h" "\<And>v s. (v, s) \<in> set (avViewers a) \<Longrightarrow> (s, Visible v) \<in> set h"
    using assms unfolding run_inv_def by auto
  have past: "list_all (\<lambda>(s, _). s \<le> now) h" using assms unfolding run_inv_def list_all_iff by fastforce
  have grow: "avLastUsed a \<le> avLastUsed (act now e a)" using act_last(2)[of now e a] a(2) by auto
  have "list_all (\<lambda>(s, e'). is_use e' \<longrightarrow> s \<le> avLastUsed (act now e a)) h"
    using assms(1) grow unfolding run_inv_def list_all_iff by fastforce
  moreover have "(s, Visible v) \<in> set ((now, e) # h)" if "(v, s) \<in> set (avViewers (act now e a))" for v s
    using that act_tabs[of now e a] a(4) by auto
  moreover have "avLastUsed (act now e a) \<in> fst ` set ((now, e) # h)" using act_last(2)[of now e a] a(3) by (metis fst_conv image_insert insertCI list.simps(15))
  ultimately show ?thesis
    using assms(1) past act_last(1)[of e now a] act_last(3)[of now e a] act_tabs_ok[OF a(1,2), of e]
    unfolding run_inv_def by auto
qed

lemma walk_keeps:
  "(v, s) \<in> set (avViewers a) \<Longrightarrow> PresenceTTL \<le> now - s \<or> (v, s) \<in> set (avViewers (snd (idleLocked now a)))"
proof -
  assume v: "(v, s) \<in> set (avViewers a)"
  obtain dr where dr: "avViewers a = dr @ snd (idleWalk now (avViewers a))"
    "\<forall>(v, t) \<in> set dr. \<not> time_sub now t < PresenceTTL" using idleWalk_suffix by blast
  have "(v, s) \<in> set dr \<or> (v, s) \<in> set (snd (idleWalk now (avViewers a)))" using v dr(1) by (metis Un_iff set_append)
  then show ?thesis using v dr(2) by (auto simp: seen_now idleLocked_state)
qed

text \<open>A live tab leaves a full map only for a new one, and then every other tab of the map was heard from later.\<close>

lemma pushed_out:
  assumes "'''' \<notin> fst ` set vs" "distinct (map fst vs)" "length vs \<ge> MaxViewers" "\<not> known_viewer w vs"
    "(v, s) \<in> set vs" "v = oldestViewer vs" "\<And>u t. (u, t) \<in> set vs \<Longrightarrow> (t, Visible u) \<in> set h" "s \<le> now"
  shows "MaxViewers \<le> card (others_visible v s ((now, Visible w) # h))"
proof -
  let ?O = "insert w (fst ` set vs - {v})"
  have "w \<noteq> v" "w \<notin> fst ` set vs" using assms(4,5) by (force simp: known_viewer_def)+
  moreover have "card (fst ` set vs) = length vs" using assms(2) by (metis distinct_card length_map list.set_map)
  moreover have "v \<in> fst ` set vs" using assms(5) by force
  ultimately have "card ?O = length vs"
    using card_Suc_Diff1[of "fst ` set vs" v] by simp
  moreover have "?O \<subseteq> others_visible v s ((now, Visible w) # h)"
  proof
    fix u
    assume "u \<in> ?O"
    then consider "u = w" | t where "(u, t) \<in> set vs" "u \<noteq> v" by auto
    then show "u \<in> others_visible v s ((now, Visible w) # h)"
    proof cases
      case 1
      then show ?thesis using \<open>w \<noteq> v\<close> assms(8) by (simp add: others_visible_def)
    next
      case 2
      then show ?thesis using dropped_oldest[OF assms(1,2,5,6) 2(1)] assms(7)[OF 2(1)] by (auto simp: others_visible_def)
    qed
  qed
  ultimately show ?thesis using assms(3) card_mono[OF others_finite, of ?O v s "(now, Visible w) # h"] by linarith
qed

lemma visible_keeps:
  assumes "run_inv d h t a" "t \<le> now" "named_tabs h" "(v, s) \<in> set (avViewers a)" "v \<noteq> w"
  shows "PresenceTTL \<le> now - s \<or> (v, s) \<in> set (avViewers (Present now w True a))
    \<or> MaxViewers \<le> card (others_visible v s ((now, Visible w) # h))"
proof (cases "PresenceTTL \<le> now - s")
  case False
  let ?vs = "pruneLocked now (avViewers (snd (idleLocked now a)))"
  have sub: "subseq ?vs (avViewers a)"
    using subseq_order.order_trans[OF _ walk_subseq[of now a]] by (simp add: pruneLocked_def)
  have tabs: "distinct (map fst ?vs)" "\<And>u t. (u, t) \<in> set ?vs \<Longrightarrow> (t, Visible u) \<in> set h"
    using assms(1) subseq_facts(1,3)[OF sub] by (auto simp: run_inv_def tabs_ok_def)
  have named: "'''' \<notin> fst ` set ?vs" using tabs(2) assms(3) by (fastforce simp: named_tabs_def list_all_iff)
  have "s \<le> now" using assms(1,2,4) by (fastforce simp: run_inv_def tabs_ok_def)
  have v: "(v, s) \<in> set ?vs"
    using walk_keeps[OF assms(4), of now] False by (auto simp: pruneLocked_def seen_now)
  show ?thesis
  proof (cases "v = oldestViewer ?vs \<and> \<not> known_viewer w ?vs \<and> length ?vs \<ge> MaxViewers")
    case True
    then show ?thesis using pushed_out[OF named tabs(1) _ _ v _ tabs(2) \<open>s \<le> now\<close>, of w] by blast
  next
    case no: False
    then have "(v, s) \<in> set (kept_tabs now w a)"
      using v assms(5) by (auto simp: kept_tabs_def without_viewer_def dropOldestLocked_def Let_def)
    then show ?thesis by simp
  qed
qed simp

lemma act_keeps_holding:
  assumes "holding h t a" "run_inv d h t a" "t \<le> now" "named_tabs h"
  shows "holding ((now, e) # h) now (act now e a)"
  unfolding holding_def
proof (intro allI impI)
  fix later s v earlier
  assume h: "(now, e) # h = later @ (s, Visible v) # earlier" and l: "list_all (\<lambda>(_, e). \<not> lets_go v e) later"
  show "PresenceTTL \<le> now - s \<or> (\<exists>s' \<ge> s. (v, s') \<in> set (avViewers (act now e a)))
    \<or> MaxViewers \<le> card (others_visible v s ((now, e) # h))"
  proof (cases later)
    case Nil
    then show ?thesis using h by (auto simp: act_def)
  next
    case (Cons x later')
    then have x: "h = later' @ (s, Visible v) # earlier" "list_all (\<lambda>(_, e). \<not> lets_go v e) later'" "\<not> lets_go v e"
      using h l by auto
    have s: "s \<le> now" using assms(2,3) x(1) by (fastforce simp: run_inv_def list_all_iff)
    from assms(1) x(1,2) consider (old) "PresenceTTL \<le> t - s" | (full) "MaxViewers \<le> card (others_visible v s h)"
      | (tab) s' where "s \<le> s'" "(v, s') \<in> set (avViewers a)"
      unfolding holding_def by blast
    then show ?thesis
    proof cases
      case tab
      have sub: "others_visible v s' g \<subseteq> others_visible v s g" for g
        unfolding others_visible_def using order_trans[OF tab(1)] by blast
      have "PresenceTTL \<le> now - s' \<or> (\<exists>s' \<ge> s. (v, s') \<in> set (avViewers (act now e a)))
        \<or> MaxViewers \<le> card (others_visible v s' ((now, e) # h))"
      proof (cases e)
        case (Visible w)
        show ?thesis
        proof (cases "v = w")
          case True
          then show ?thesis using s Visible by (auto simp: act_def)
        next
          case False
          then show ?thesis using visible_keeps[OF assms(2,3,4) tab(2) False] tab(1) by (auto simp: act_def Visible)
        qed
      next
        case (Hidden u)
        then have "(v, s') \<in> set (avViewers (act now e a))"
          using tab(2) x(3) by (auto simp: act_def lets_go_def without_viewer_def)
        then show ?thesis using tab(1) by blast
      next
        case Touched
        then show ?thesis using walk_keeps[OF tab(2), of now] tab(1) by (auto simp: act_def)
      next
        case Looked
        then show ?thesis using walk_keeps[OF tab(2), of now] tab(1) by (auto simp: act_def Idle_def)
      next
        case Woke
        then have "(v, s') \<in> set (avViewers (act now e a))" using tab(2) by (simp add: act_def drainWake_def)
        then show ?thesis using tab(1) by blast
      next
        case Restarted
        then show ?thesis using x(3) by (simp add: lets_go_def)
      qed
      then show ?thesis using tab(1) card_mono[OF others_finite sub] by (meson dual_order.trans diff_left_mono)
    qed (use assms(3) others_grow[of v s h] in \<open>auto intro: order_trans\<close>)
  qed
qed

lemma reorder_inv: "mset vs = mset (avViewers a) \<Longrightarrow> run_inv d h t a \<Longrightarrow> run_inv d h t (a\<lparr>avViewers := vs\<rparr>)"
proof -
  assume m: "mset vs = mset (avViewers a)"
  then have "set vs = set (avViewers a)" "length vs = length (avViewers a)" "distinct (map fst vs) = distinct (map fst (avViewers a))"
    by (metis set_mset_mset, metis size_mset, metis mset_eq_imp_distinct_iff mset_map)
  then show "run_inv d h t a \<Longrightarrow> ?thesis" by (simp add: run_inv_def tabs_ok_def)
qed

lemma run_keeps_inv: "activity_run d h t a \<Longrightarrow> run_inv d h t a"
proof (induction rule: activity_run.induct)
  case (started d t)
  show ?case by (auto simp: run_inv_def NewActivity_def tabs_ok_def)
next
  case (happened d h t a now e)
  then show ?case using act_keeps_inv by blast
next
  case (walked d h t a vs)
  then show ?case using reorder_inv by blast
qed

lemma run_holds: "activity_run d h t a \<Longrightarrow> named_tabs h \<Longrightarrow> holding h t a"
proof (induction rule: activity_run.induct)
  case (started d t)
  show ?case by (auto simp: holding_def Cons_eq_append_conv)
next
  case (happened d h t a now e)
  then have "named_tabs h" by (simp add: named_tabs_def)
  then show ?case using happened run_keeps_inv act_keeps_holding by blast
next
  case (walked d h t a vs)
  moreover have "set vs = set (avViewers a)" using walked.hyps by (metis set_mset_mset)
  ultimately show ?case by (simp add: holding_def)
qed

text \<open>
  C25: The background refreshes rest only while nobody uses the dashboard. In any run of requests, reports,
  checks and resets, whatever order the tabs are walked in, when it is idle then the idle period has passed
  since every request, every visible report and every reset; and a tab that reported itself visible less than
  its time ago has itself said it was hidden since, or there was a reset, or at least \<open>MaxViewers\<close> other tabs
  have reported themselves visible since. What other tabs hide never lets it go. Tabs have an id, as the
  handler answers 400 to an empty one.
\<close>

theorem rests_only_unused:
  assumes "activity_run d h t a" and "named_tabs h" and "t \<le> now" and "fst (Idle now a)"
  shows "0 < d \<and> list_all (\<lambda>(s, e). is_use e \<longrightarrow> now - s \<ge> d) h \<and>
    (\<forall>later s v earlier. h = later @ (s, Visible v) # earlier \<longrightarrow> now - s < PresenceTTL \<longrightarrow>
       (\<exists>s'. (s', Hidden v) \<in> set later \<or> (s', Restarted) \<in> set later) \<or> MaxViewers \<le> card (others_visible v s h))"
proof -
  have inv: "run_inv d h t a" "holding h t a" using run_keeps_inv[OF assms(1)] run_holds[OF assms(1,2)] by auto
  have idle: "0 < d" "\<forall>(v, s) \<in> set (avViewers a). now - s \<ge> PresenceTTL" "time_sub now (avLastUsed a) \<ge> d"
    using assms(4) inv(1) by (auto simp: Idle_def idleLocked_idle run_inv_def seen_now)
  have "now - avLastUsed a \<ge> d"
    using idle(1,3) inv(1) assms(3) by (auto simp: time_sub_def run_inv_def)
  then have "list_all (\<lambda>(s, e). is_use e \<longrightarrow> now - s \<ge> d) h"
    using inv(1) unfolding run_inv_def list_all_iff by fastforce
  moreover have "(\<exists>s'. (s', Hidden v) \<in> set later \<or> (s', Restarted) \<in> set later) \<or> MaxViewers \<le> card (others_visible v s h)"
    if "h = later @ (s, Visible v) # earlier" "now - s < PresenceTTL" for later s v earlier
  proof (cases "list_all (\<lambda>(_, e). \<not> lets_go v e) later")
    case True
    then have "t - s \<ge> PresenceTTL \<or> (\<exists>s' \<ge> s. (v, s') \<in> set (avViewers a)) \<or> MaxViewers \<le> card (others_visible v s h)"
      using inv(2) that(1) unfolding holding_def by blast
    then show ?thesis using idle(2) assms(3) that(2) by fastforce
  qed (auto simp: list_all_iff lets_go_def)
  ultimately show ?thesis using idle(1) by blast
qed

text \<open>
  And they do rest: once the idle period and a tab's time have both passed since the last thing that
  happened, the dashboard is idle, and the first request or visible report after that wakes it.
\<close>

theorem rests_when_unused:
  assumes "activity_run d h t a" and "0 < d" and "d < 2 ^ 63" and "list_all (\<lambda>(s, _). now - s \<ge> d \<and> now - s \<ge> PresenceTTL) h"
  shows "fst (Idle now a) \<and> avWake (Touch now a) \<and> avWake (Present now v True a) \<and> \<not> fst (Idle now (Touch now a))"
proof -
  have inv: "run_inv d h t a" by (rule run_keeps_inv[OF assms(1)])
  have "now - avLastUsed a \<ge> d" using inv assms(4) by (fastforce simp: run_inv_def list_all_iff)
  moreover have "now - s \<ge> PresenceTTL" if "(v, s) \<in> set (avViewers a)" for v s
  proof -
    have "(s, Visible v) \<in> set h" using inv that unfolding run_inv_def by blast
    then show ?thesis using assms(4) unfolding list_all_iff by blast
  qed
  ultimately have "fst (Idle now a)"
    using inv assms(2,3) by (auto simp: Idle_def idleLocked_idle run_inv_def seen_now time_sub_ge)
  moreover have "\<not> fst (Idle now (Touch now a))"
    unfolding Idle_def idleLocked_idle using inv assms(2) by (simp add: run_inv_def time_sub_def)
  ultimately show ?thesis by (simp add: Idle_def)
qed

text \<open>The tabs stay few and each is listed once; the one dropped for room is the one seen longest ago, as
  the handler lets no empty id in.\<close>

lemma viewers_capped: "activity_run d h t a \<Longrightarrow> ViewerCount a \<le> MaxViewers \<and> distinct (map fst (avViewers a))"
  using run_keeps_inv[of d h t a] by (simp add: run_inv_def tabs_ok_def ViewerCount_def)

lemma handler_ids:
  "handleDashboardPresence now req a = (ans, a') \<Longrightarrow> '''' \<notin> fst ` set (avViewers a) \<Longrightarrow> '''' \<notin> fst ` set (avViewers a')"
proof -
  assume h: "handleDashboardPresence now req a = (ans, a')" and ids: "'''' \<notin> fst ` set (avViewers a)"
  have "'''' \<notin> fst ` set (avViewers (Present now v vis a))" if "length (trim_space v) \<ge> minViewerIDLen" for v vis
  proof -
    have "v \<noteq> ''''" using that by (auto simp: minViewerIDLen_def trim_space_def trim_right_set_def)
    then show ?thesis
      using ids subseq_facts(1)[OF kept_subseq[of now v a]] by (cases vis) (auto simp: without_viewer_def)
  qed
  then show ?thesis using h ids
    by (auto simp: handleDashboardPresence_def not_less simp del: visible_fields hidden_fields split: option.splits if_splits)
qed

lemma demo_run: "activity_run (5 * minute) [(minute, Visible ''tab-0001''), (0, Restarted)] minute
    (act minute (Visible ''tab-0001'') (NewActivity (5 * minute) 0))"
  using activity_run.happened[OF activity_run.started[of "5 * minute" 0], of minute "Visible ''tab-0001''"] by simp

text \<open>With an idle period of a minute, a tab looked at a minute after the start and hidden at once.\<close>

definition hidden_run :: "(time \<times> activity_event) list" where
  "hidden_run = [(minute, Hidden ''tab-0001''), (minute, Visible ''tab-0001''), (0, Restarted)]"

definition hidden_state :: activity where
  "hidden_state = act minute (Hidden ''tab-0001'') (act minute (Visible ''tab-0001'') (NewActivity minute 0))"

lemma hidden_demo: "activity_run minute hidden_run minute hidden_state"
  unfolding hidden_run_def hidden_state_def
  by (intro activity_run.happened[where t = minute] activity_run.happened[where t = 0] activity_run.started) simp_all

lemma rests_only_unused_witness:
  "fst (Idle (2 * minute) hidden_state) \<and> 2 * minute - minute < PresenceTTL \<and>
     ((\<exists>s'. (s', Hidden ''tab-0001'') \<in> set (take 1 hidden_run) \<or> (s', Restarted) \<in> set (take 1 hidden_run))
       \<or> MaxViewers \<le> card (others_visible ''tab-0001'' minute hidden_run))"
proof -
  have idle: "fst (Idle (2 * minute) hidden_state)" "minute \<le> 2 * minute" "2 * minute - minute < PresenceTTL" "named_tabs hidden_run"
    by code_simp+
  have h: "hidden_run = take 1 hidden_run @ (minute, Visible ''tab-0001'') # [(0, Restarted)]" by (simp add: hidden_run_def)
  show ?thesis using rests_only_unused[OF hidden_demo idle(4,2,1)] h idle(1,3) by blast
qed

lemma rests_when_unused_witness:
  "fst (Idle (6 * minute) (act minute (Visible ''tab-0001'') (NewActivity (5 * minute) 0)))"
  using rests_when_unused[OF demo_run, of "6 * minute" "''tab-0001''"] by (simp add: PresenceTTL_def PresenceHeartbeat_def)

end
