(* ===== verification/Snapshot_Cache.thy ===== *)
theory Snapshot_Cache
  imports Snapshot_Merge FD_Library
begin

text \<open>
  The snapshot kept across restarts: \<open>snapshot_cache.go\<close>, with the table \<open>snapshot_cache\<close> of
  \<open>internal/settings/cache.go\<close>. A row's payload is the JSON of one repository's rows; encoding and decoding are
  arguments, and \<open>codec_ok\<close> is what \<open>encoding/json\<close> promises of them: what is decoded is what was encoded, less
  the fields tagged \<open>"-"\<close>. A write that fails rolls back.
\<close>

section \<open>The table\<close>

record cached_repo =
  crRepo :: string
  crFetchedAt :: time
  crPayload :: string

type_synonym cache_table = "((forge \<times> string \<times> string) \<times> string \<times> time) list"

definition LoadSnapshotRepos :: "cache_table \<Rightarrow> forge \<Rightarrow> string \<Rightarrow> cached_repo list" where
  "LoadSnapshotRepos table f credential = sort_key crRepo
     (map (\<lambda>((_, _, repo), p, at). \<lparr>crRepo = repo, crFetchedAt = at, crPayload = p\<rparr>)
       (filter (\<lambda>((f', c, _), _). f' = f \<and> c = credential) table))"

definition SaveSnapshotChanges :: "bool \<Rightarrow> forge \<Rightarrow> string \<Rightarrow> cached_repo list \<Rightarrow> string list \<Rightarrow> cache_table \<Rightarrow> bool \<times> cache_table" where
  "SaveSnapshotChanges works f credential changed removed table =
     (if changed = [] \<and> removed = [] then (True, table)
      else if \<not> works then (False, table)
      else (True, fold (\<lambda>r. AList.update (f, credential, crRepo r) (crPayload r, crFetchedAt r)) changed
              (filter (\<lambda>((f', c, repo), _). \<not> (f' = f \<and> c = credential \<and> List.member removed repo)) table)))"

section \<open>One repository's rows\<close>

record cached_repo_rows =
  cwRepo :: repo
  cwPullRequests :: "pull_request list"
  cwIssues :: "issue list"
  cwMainBranch :: "main_branch option"

definition zero_repo :: repo where
  "zero_repo = \<lparr>rpForge = ForgeOther '''', rpFullName = '''', rpURL = '''', rpLogoURL = '''', rpHasWebhook = False,
     rpCanManageWebhooks = False, rpWebhookLockedByConnection = False, rpWebhookNeedsToken = False,
     rpStaleSince = None, rpFailingSince = None\<rparr>"

text \<open>What JSON leaves out, by the fields' tags.\<close>

definition saved_check :: "check \<Rightarrow> check" where
  "saved_check c = c\<lparr>ckState := CheckStateOther '''', ckReportedConclusion := '''', ckRun := None\<rparr>"

definition saved_run :: "main_branch_run \<Rightarrow> main_branch_run" where
  "saved_run r = r\<lparr>mrChecks := map saved_check (mrChecks r)\<rparr>"

definition saved_branch :: "main_branch \<Rightarrow> main_branch" where
  "saved_branch b = b\<lparr>mbRuns := map saved_run (mbRuns b)\<rparr>"

definition saved_pr :: "pull_request \<Rightarrow> pull_request" where
  "saved_pr pr = pr\<lparr>prFailingOnlyForApproval := False, prRenovateRebaseRequested := False\<rparr>"

definition saved_repo :: "repo \<Rightarrow> repo" where
  "saved_repo r = r\<lparr>rpFailingSince := None\<rparr>"

definition saved_rows :: "cached_repo_rows \<Rightarrow> cached_repo_rows" where
  "saved_rows w = \<lparr>cwRepo = saved_repo (cwRepo w), cwPullRequests = map saved_pr (cwPullRequests w),
     cwIssues = cwIssues w, cwMainBranch = map_option saved_branch (cwMainBranch w)\<rparr>"

definition codec_ok :: "(cached_repo_rows \<rightharpoonup> string) \<Rightarrow> (string \<rightharpoonup> cached_repo_rows) \<Rightarrow> bool" where
  "codec_ok enc dec \<longleftrightarrow> (\<forall>w p. enc w = Some p \<longrightarrow> dec p = Some (saved_rows w))"

definition fetchTime :: "repo \<Rightarrow> time \<Rightarrow> time" where
  "fetchTime r generated = (case rpStaleSince r of Some t \<Rightarrow> t | None \<Rightarrow> generated)"

text \<open>\<open>rowsByRepo\<close>: the names with rows, and one name's rows and fetch time.\<close>

definition row_names :: "snapshot \<Rightarrow> forge \<Rightarrow> string list" where
  "row_names snap f = remdups
     (map rpFullName (filter (\<lambda>r. rpForge r = f) (snRepos snap)) @ map prRepo (filter (\<lambda>p. prForge p = f) (snPullRequests snap))
      @ map isRepo (filter (\<lambda>i. isForge i = f) (snIssues snap)) @ map mbFullName (filter (\<lambda>b. mbForge b = f) (snMainBranches snap)))"

definition repo_row :: "snapshot \<Rightarrow> forge \<Rightarrow> string \<Rightarrow> repo option" where
  "repo_row snap f name = find_last (\<lambda>r. rpForge r = f \<and> rpFullName r = name) (snRepos snap)"

definition rowsFor :: "snapshot \<Rightarrow> forge \<Rightarrow> string \<Rightarrow> cached_repo_rows" where
  "rowsFor snap f name = \<lparr>cwRepo = (case repo_row snap f name of Some r \<Rightarrow> r | None \<Rightarrow> zero_repo),
     cwPullRequests = filter (in_repo f name) (snPullRequests snap),
     cwIssues = filter (issue_in_repo f name) (snIssues snap),
     cwMainBranch = find_last (\<lambda>b. mbForge b = f \<and> mbFullName b = name) (snMainBranches snap)\<rparr>"

definition rowTime :: "snapshot \<Rightarrow> forge \<Rightarrow> string \<Rightarrow> time" where
  "rowTime snap f name = (case repo_row snap f name of Some r \<Rightarrow> fetchTime r (snGeneratedAt snap) | None \<Rightarrow> snGeneratedAt snap)"

definition snapshotRows :: "(cached_repo_rows \<rightharpoonup> string) \<Rightarrow> snapshot \<Rightarrow> forge \<Rightarrow> cached_repo list" where
  "snapshotRows enc snap f = List.map_filter (\<lambda>name. case enc (rowsFor snap f name) of None \<Rightarrow> None
     | Some p \<Rightarrow> Some \<lparr>crRepo = name, crFetchedAt = rowTime snap f name, crPayload = p\<rparr>) (sort (row_names snap f))"

section \<open>Saving\<close>

text \<open>The stored table, and what this process remembers of it (\<open>saved\<close>).\<close>

record snap_store =
  ssTable :: cache_table
  ssSaved :: "forge \<Rightarrow> (string \<times> string) list"

definition rememberSaved :: "forge \<Rightarrow> cached_repo list \<Rightarrow> snap_store \<Rightarrow> snap_store" where
  "rememberSaved f rows s = s\<lparr>ssSaved := (ssSaved s)(f := fold (\<lambda>r. AList.update (crRepo r) (crPayload r)) rows [])\<rparr>"

definition savedDiff :: "forge \<Rightarrow> cached_repo list \<Rightarrow> snap_store \<Rightarrow> cached_repo list \<times> string list" where
  "savedDiff f rows s =
     (let stored = ssSaved s f; names = map crRepo rows
      in (filter (\<lambda>r. map_of stored (crRepo r) \<noteq> Some (crPayload r)) rows,
          sort (filter (\<lambda>repo. \<not> List.member names repo) (map fst stored))))"

text \<open>\<open>works\<close> says which forges' writes succeed.\<close>

definition saveForge :: "(cached_repo_rows \<rightharpoonup> string) \<Rightarrow> (forge \<Rightarrow> bool) \<Rightarrow> (forge \<Rightarrow> string) \<Rightarrow> snapshot \<Rightarrow> forge_health \<Rightarrow>
    snap_store \<Rightarrow> snap_store" where
  "saveForge enc works cred snap h s =
     (if \<not> fhReachable h \<or> fhStaleSince h \<noteq> None then s
      else (let f = fhForge h; rows = snapshotRows enc snap f; (changed, removed) = savedDiff f rows s
            in if changed = [] \<and> removed = [] then s
               else (case SaveSnapshotChanges (works f) f (cred f) changed removed (ssTable s) of
                   (False, _) \<Rightarrow> s
                 | (True, table) \<Rightarrow> rememberSaved f rows (s\<lparr>ssTable := table\<rparr>))))"

definition saveSnapshot :: "(cached_repo_rows \<rightharpoonup> string) \<Rightarrow> (forge \<Rightarrow> bool) \<Rightarrow> (forge \<Rightarrow> string) \<Rightarrow> snapshot \<Rightarrow> snap_store \<Rightarrow> snap_store" where
  "saveSnapshot enc works cred snap s = fold (saveForge enc works cred snap) (snForges snap) s"

section \<open>Restoring\<close>

definition addSavedRow :: "(string \<rightharpoonup> cached_repo_rows) \<Rightarrow> cached_repo \<Rightarrow> snapshot \<times> time \<times> nat \<Rightarrow> snapshot \<times> time \<times> nat" where
  "addSavedRow dec row = (\<lambda>(snap, newest, n). case dec (crPayload row) of
     None \<Rightarrow> (snap, newest, n)
   | Some w \<Rightarrow>
       (let at = crFetchedAt row
        in (snap\<lparr>snMainBranches := snMainBranches snap @ (case cwMainBranch w of None \<Rightarrow> [] | Some b \<Rightarrow> [b\<lparr>mbStaleSince := Some at\<rparr>]),
                 snRepos := snRepos snap @ [(cwRepo w)\<lparr>rpStaleSince := Some at\<rparr>],
                 snPullRequests := snPullRequests snap @ cwPullRequests w,
                 snIssues := snIssues snap @ cwIssues w\<rparr>,
            if at > newest then at else newest, n + 1)))"

definition addSavedRows :: "(string \<rightharpoonup> cached_repo_rows) \<Rightarrow> cached_repo list \<Rightarrow> snapshot \<Rightarrow> snapshot \<times> time \<times> nat" where
  "addSavedRows dec rows snap = fold (addSavedRow dec) rows (snap, zero_time, 0)"

text \<open>One forge of \<open>restoreSnapshot\<close>; \<open>readable\<close> says whether its rows can be listed.\<close>

definition restoreForge :: "(string \<rightharpoonup> cached_repo_rows) \<Rightarrow> (forge \<Rightarrow> bool) \<Rightarrow> (forge \<Rightarrow> string) \<Rightarrow> forge \<Rightarrow>
    snapshot \<times> (forge \<rightharpoonup> time) \<times> snap_store \<Rightarrow> snapshot \<times> (forge \<rightharpoonup> time) \<times> snap_store" where
  "restoreForge dec readable cred f = (\<lambda>(snap, lastGood, s).
     if \<not> readable f then (snap, lastGood, s)
     else (let rows = LoadSnapshotRepos (ssTable s) f (cred f); (snap', newest, n) = addSavedRows dec rows snap
           in if n = 0 then (snap', lastGood, s)
              else (snap'\<lparr>snForges := snForges snap' @ [zero_health\<lparr>fhForge := f, fhReachable := False, fhStarting := True,
                        fhRepoCount := int n, fhStaleSince := Some newest\<rparr>],
                      snGeneratedAt := (if newest > snGeneratedAt snap' then newest else snGeneratedAt snap')\<rparr>,
                    lastGood(f \<mapsto> newest), rememberSaved f rows s)))"

definition restoreSnapshot :: "(string \<rightharpoonup> cached_repo_rows) \<Rightarrow> (forge \<Rightarrow> bool) \<Rightarrow> (forge \<Rightarrow> string) \<Rightarrow> forge list \<Rightarrow>
    board \<times> snap_store \<Rightarrow> bool \<times> board \<times> snap_store" where
  "restoreSnapshot dec readable cred sources = (\<lambda>(b, s).
     let (snap, lastGood, s') = fold (restoreForge dec readable cred) sources (newEmptySnapshot, bdLastGood b, s)
     in if snForges snap = [] then (False, b\<lparr>bdLastGood := lastGood\<rparr>, s')
        else (True, b\<lparr>bdSnap := snap\<lparr>snPullRequests := sortPullRequests (snPullRequests snap), snIssues := sortIssues (snIssues snap)\<rparr>,
                       bdLastGood := lastGood\<rparr>, s'))"

section \<open>What is remembered is what is stored\<close>

lemma map_of_fold_update:
  "map_of (fold (\<lambda>r. AList.update (key r) (val r)) rs al) k =
     (case find_last (\<lambda>r. key r = k) rs of Some r \<Rightarrow> Some (val r) | None \<Rightarrow> map_of al k)"
proof (induction rs arbitrary: al)
  case (Cons r rs)
  then show ?case by (simp add: find_last_Cons update_conv' split: option.splits)
qed (simp add: find_last_def)

lemma find_last_unique: "distinct (map key xs) \<Longrightarrow> x \<in> set xs \<Longrightarrow> key x = k \<Longrightarrow> find_last (\<lambda>y. key y = k) xs = Some x"
  using index_by_unique[of key xs x] by (simp add: index_by_def)

lemma find_last_None: "find_last (\<lambda>y. key y = k) xs = None \<longleftrightarrow> k \<notin> key ` set xs"
  using index_by_None[of key xs k] by (simp add: index_by_def)

definition tracks :: "(forge \<Rightarrow> string) \<Rightarrow> snap_store \<Rightarrow> forge \<Rightarrow> bool" where
  "tracks cred s f \<longleftrightarrow> (\<forall>repo. map_of (ssSaved s f) repo = map_option fst (map_of (ssTable s) (f, cred f, repo)))"

lemma rows_names: "map crRepo (snapshotRows enc snap f) = filter (\<lambda>n. enc (rowsFor snap f n) \<noteq> None) (sort (row_names snap f))"
proof -
  have "map crRepo (List.map_filter (\<lambda>name. case enc (rowsFor snap f name) of None \<Rightarrow> None
     | Some p \<Rightarrow> Some \<lparr>crRepo = name, crFetchedAt = rowTime snap f name, crPayload = p\<rparr>) ns)
     = filter (\<lambda>n. enc (rowsFor snap f n) \<noteq> None) ns" for ns
    by (induction ns) (auto simp: List.map_filter_simps split: option.splits)
  then show ?thesis by (simp add: snapshotRows_def)
qed

lemma rows_distinct: "distinct (map crRepo (snapshotRows enc snap f))" "sorted (map crRepo (snapshotRows enc snap f))"
  by (simp_all add: rows_names row_names_def sorted_wrt_filter)

lemma remembered: "distinct (map crRepo rows) \<Longrightarrow>
  map_of (ssSaved (rememberSaved f rows s) f) repo =
    (case find_last (\<lambda>r. crRepo r = repo) rows of Some r \<Rightarrow> Some (crPayload r) | None \<Rightarrow> None)"
  by (simp add: rememberSaved_def map_of_fold_update split: option.splits)

lemma diff_written:
  assumes t: "tracks cred s f" and d: "distinct (map crRepo rows)" and df: "savedDiff f rows s = (changed, removed)"
    and w: "SaveSnapshotChanges True f (cred f) changed removed (ssTable s) = (ok, table)"
  shows "map_option fst (map_of table (f, cred f, repo)) =
     (case find_last (\<lambda>r. crRepo r = repo) rows of Some r \<Rightarrow> Some (crPayload r) | None \<Rightarrow> None)"
proof -
  let ?k = "(f, cred f, repo)" and ?st = "ssSaved s f"
  have ch: "changed = filter (\<lambda>r. map_of ?st (crRepo r) \<noteq> Some (crPayload r)) rows"
    and rm: "set removed = {n \<in> fst ` set ?st. n \<notin> crRepo ` set rows}"
    using df by (auto simp: savedDiff_def Let_def image_iff) force+
  have tab: "map_of table ?k = (case find_last (\<lambda>r. crRepo r = repo) changed of Some r \<Rightarrow> Some (crPayload r, crFetchedAt r)
      | None \<Rightarrow> if repo \<in> set removed then None else map_of (ssTable s) ?k)"
  proof -
    have del: "map_of (filter (\<lambda>((f', c, n), _). \<not> (f' = f \<and> c = cred f \<and> List.member removed n)) al) ?k
        = (if repo \<in> set removed then None else map_of al ?k)" for al :: cache_table
      by (induction al) auto
    show ?thesis
    proof (cases "changed = [] \<and> removed = []")
      case True
      then show ?thesis using w by (simp add: SaveSnapshotChanges_def find_last_def)
    next
      case False
      then have "table = fold (\<lambda>r. AList.update (f, cred f, crRepo r) (crPayload r, crFetchedAt r)) changed
              (filter (\<lambda>((f', c, repo), _). \<not> (f' = f \<and> c = cred f \<and> List.member removed repo)) (ssTable s))"
        using w by (auto simp: SaveSnapshotChanges_def)
      then show ?thesis by (simp only: map_of_fold_update del) simp
    qed
  qed
  have tr: "map_of ?st repo = map_option fst (map_of (ssTable s) ?k)" using t by (simp add: tracks_def)
  show ?thesis
  proof (cases "repo \<in> crRepo ` set rows")
    case True
    then obtain r where r: "r \<in> set rows" "crRepo r = repo" by blast
    have fr: "find_last (\<lambda>r. crRepo r = repo) rows = Some r" by (rule find_last_unique[OF d r])
    have notrm: "repo \<notin> set removed" using True by (simp add: rm)
    show ?thesis
    proof (cases "map_of ?st repo = Some (crPayload r)")
      case True
      have "find_last (\<lambda>r. crRepo r = repo) changed = None"
        unfolding find_last_None using True r d by (auto simp: ch distinct_map dest: inj_onD)
      then show ?thesis using True tr notrm by (simp add: tab fr)
    next
      case False
      have dc: "distinct (map crRepo changed)" unfolding ch using d by (simp add: distinct_map_filter)
      have "find_last (\<lambda>r. crRepo r = repo) changed = Some r"
        by (rule find_last_unique[OF dc]) (use False r ch in auto)
      then show ?thesis by (simp add: tab fr)
    qed
  next
    case False
    then have n: "find_last (\<lambda>r. crRepo r = repo) rows = None" "find_last (\<lambda>r. crRepo r = repo) changed = None"
      by (auto simp: find_last_None ch)
    have "map_of ?st repo = None" if "repo \<notin> set removed"
      using that False by (auto simp: rm map_of_eq_None_iff)
    then show ?thesis using tr by (auto simp: tab n)
  qed
qed

lemma update_other: "k' \<noteq> k \<Longrightarrow> map_of (AList.update k v al) k' = map_of al k'"
  by (simp add: update_conv')

lemma save_other:
  assumes "SaveSnapshotChanges works f c changed removed table = (ok, table')" "f' \<noteq> f"
  shows "map_of table' (f', c', repo) = map_of table (f', c', repo)"
proof -
  have "map_of (filter (\<lambda>((g, d, n), _). \<not> (g = f \<and> d = c \<and> List.member removed n)) al) (f', c', repo) = map_of al (f', c', repo)"
    for al :: cache_table
    using assms(2) by (induction al) auto
  moreover have "map_of (fold (\<lambda>r. AList.update (f, c, crRepo r) (crPayload r, crFetchedAt r)) rs al) (f', c', repo) = map_of al (f', c', repo)"
    for rs :: "cached_repo list" and al :: cache_table
    using assms(2) by (induction rs arbitrary: al) (auto simp: update_conv')
  ultimately show ?thesis using assms(1) by (auto simp: SaveSnapshotChanges_def split: if_splits)
qed

lemma saveForge_eq:
  assumes "savedDiff (fhForge h) (snapshotRows enc snap (fhForge h)) s = (changed, removed)"
    and "SaveSnapshotChanges (works (fhForge h)) (fhForge h) (cred (fhForge h)) changed removed (ssTable s) = (ok, table)"
  shows "saveForge enc works cred snap h s =
     (if fhReachable h \<and> fhStaleSince h = None \<and> (changed \<noteq> [] \<or> removed \<noteq> []) \<and> ok
      then rememberSaved (fhForge h) (snapshotRows enc snap (fhForge h)) (s\<lparr>ssTable := table\<rparr>) else s)"
  by (simp add: saveForge_def Let_def assms split: bool.split)

lemma save_works: "SaveSnapshotChanges works f c changed removed table = (ok, table') \<Longrightarrow>
    changed \<noteq> [] \<or> removed \<noteq> [] \<Longrightarrow> ok = works"
  "SaveSnapshotChanges works f c [] [] table = (ok, table') \<Longrightarrow> table' = table"
  by (auto simp: SaveSnapshotChanges_def split: if_splits)

lemma save_forge_tracks:
  assumes "tracks cred s g"
  shows "tracks cred (saveForge enc works cred snap h s) g"
proof -
  let ?f = "fhForge h" and ?rows = "snapshotRows enc snap (fhForge h)"
  obtain changed removed where df: "savedDiff ?f ?rows s = (changed, removed)" by (metis prod.exhaust)
  obtain ok table where w: "SaveSnapshotChanges (works ?f) ?f (cred ?f) changed removed (ssTable s) = (ok, table)" by (metis prod.exhaust)
  consider (same) "saveForge enc works cred snap h s = s"
    | (wrote) "works ?f = True" "saveForge enc works cred snap h s = rememberSaved ?f ?rows (s\<lparr>ssTable := table\<rparr>)"
    using saveForge_eq[where works = works and cred = cred, OF df w] save_works(1)[OF w] by (simp split: if_splits)
  then show ?thesis
  proof cases
    case same
    then show ?thesis using assms by simp
  next
    case wrote
    show ?thesis
    proof (cases "g = ?f")
      case True
      have "map_option fst (map_of table (?f, cred ?f, repo)) =
          map_of (ssSaved (rememberSaved ?f ?rows (s\<lparr>ssTable := table\<rparr>)) ?f) repo" for repo
        using diff_written[OF assms[unfolded True] rows_distinct(1) df w[unfolded wrote(1)], of repo]
        by (simp add: remembered[OF rows_distinct(1)])
      then show ?thesis unfolding wrote(2) tracks_def True by (simp add: rememberSaved_def)
    next
      case False
      then show ?thesis using assms save_other[OF w] unfolding wrote(2) tracks_def by (simp add: rememberSaved_def)
    qed
  qed
qed

text \<open>After a refresh that read the forge, a write that works leaves just its rows in the table.\<close>

lemma save_forge_stores:
  assumes "tracks cred s f" "fhForge h = f" "fhReachable h" "fhStaleSince h = None" "works f"
  shows "map_option fst (map_of (ssTable (saveForge enc works cred snap h s)) (f, cred f, repo)) =
     (case find_last (\<lambda>r. crRepo r = repo) (snapshotRows enc snap f) of Some r \<Rightarrow> Some (crPayload r) | None \<Rightarrow> None)"
proof -
  obtain changed removed where df: "savedDiff f (snapshotRows enc snap f) s = (changed, removed)" by (metis prod.exhaust)
  obtain ok table where w: "SaveSnapshotChanges True f (cred f) changed removed (ssTable s) = (ok, table)" by (metis prod.exhaust)
  have w': "SaveSnapshotChanges (works (fhForge h)) (fhForge h) (cred (fhForge h)) changed removed (ssTable s) = (ok, table)"
    and df': "savedDiff (fhForge h) (snapshotRows enc snap (fhForge h)) s = (changed, removed)"
    using w df assms(2,5) by simp_all
  have "ssTable (saveForge enc works cred snap h s) = table"
  proof (cases "changed = [] \<and> removed = []")
    case True
    then show ?thesis using saveForge_eq[where works = works and cred = cred, OF df' w'] save_works(2)[of True f "cred f" "ssTable s" ok table] w by auto
  next
    case False
    then have "ok" using save_works(1)[OF w] by auto
    then show ?thesis using saveForge_eq[where works = works and cred = cred, OF df' w'] assms(3,4) False by (simp add: rememberSaved_def)
  qed
  then show ?thesis using diff_written[OF assms(1) rows_distinct(1) df w, of repo] by simp
qed

section \<open>A restart\<close>

text \<open>Each forge is kept under its primary key.\<close>

definition snap_table_ok :: "snap_store \<Rightarrow> bool" where "snap_table_ok s \<longleftrightarrow> distinct (map fst (ssTable s))"

lemma write_distinct:
  "SaveSnapshotChanges works f c changed removed table = (ok, table') \<Longrightarrow> distinct (map fst table) \<Longrightarrow> distinct (map fst table')"
proof -
  have "distinct (map fst al) \<Longrightarrow> distinct (map fst (fold (\<lambda>r. AList.update (f, c, crRepo r) (crPayload r, crFetchedAt r)) rs al))"
    for rs :: "cached_repo list" and al :: cache_table
    by (induction rs arbitrary: al) (simp_all add: distinct_update)
  moreover have "distinct (map fst al) \<Longrightarrow> distinct (map fst (filter P al))" for al :: cache_table and P
    by (simp add: distinct_map_filter)
  ultimately show "SaveSnapshotChanges works f c changed removed table = (ok, table') \<Longrightarrow> distinct (map fst table) \<Longrightarrow> ?thesis"
    by (auto simp: SaveSnapshotChanges_def split: if_splits)
qed

lemma save_forge_ok: "snap_table_ok s \<Longrightarrow> snap_table_ok (saveForge enc works cred snap h s)"
proof -
  obtain changed removed where df: "savedDiff (fhForge h) (snapshotRows enc snap (fhForge h)) s = (changed, removed)" by (metis prod.exhaust)
  obtain ok table where w: "SaveSnapshotChanges (works (fhForge h)) (fhForge h) (cred (fhForge h)) changed removed (ssTable s) = (ok, table)"
    by (metis prod.exhaust)
  show "snap_table_ok s \<Longrightarrow> ?thesis"
    using saveForge_eq[where works = works and cred = cred, OF df w] write_distinct[OF w] by (auto simp: snap_table_ok_def rememberSaved_def)
qed

lemma save_forge_other:
  assumes "fhForge h \<noteq> f"
  shows "map_of (ssTable (saveForge enc works cred snap h s)) (f, c, repo) = map_of (ssTable s) (f, c, repo)"
proof -
  obtain changed removed where df: "savedDiff (fhForge h) (snapshotRows enc snap (fhForge h)) s = (changed, removed)" by (metis prod.exhaust)
  obtain ok table where w: "SaveSnapshotChanges (works (fhForge h)) (fhForge h) (cred (fhForge h)) changed removed (ssTable s) = (ok, table)"
    by (metis prod.exhaust)
  show ?thesis
    using saveForge_eq[where works = works and cred = cred, OF df w] save_other[OF w assms[symmetric]] by (simp add: rememberSaved_def)
qed

lemma save_all:
  fixes enc works cred snap
  defines "save \<equiv> \<lambda>hs s. fold (saveForge enc works cred snap) hs s"
  shows "tracks cred s f \<Longrightarrow> tracks cred (save hs s) f"
    and "snap_table_ok s \<Longrightarrow> snap_table_ok (save hs s)"
    and "f \<notin> fhForge ` set hs \<Longrightarrow> map_of (ssTable (save hs s)) (f, c, repo) = map_of (ssTable s) (f, c, repo)"
  unfolding save_def
  by (induction hs arbitrary: s) (auto simp: save_forge_tracks save_forge_ok save_forge_other)

lemma saved_lookup:
  assumes "tracks cred s f" "distinct (map fhForge (snForges snap))" "h \<in> set (snForges snap)" "fhForge h = f"
    and "fhReachable h" "fhStaleSince h = None" "works f"
  shows "map_option fst (map_of (ssTable (saveSnapshot enc works cred snap s)) (f, cred f, repo)) =
     (case find_last (\<lambda>r. crRepo r = repo) (snapshotRows enc snap f) of Some r \<Rightarrow> Some (crPayload r) | None \<Rightarrow> None)"
proof -
  obtain xs ys where hs: "snForges snap = xs @ h # ys" using assms(3) by (meson split_list)
  have notys: "f \<notin> fhForge ` set ys" using assms(2,4) by (auto simp: hs)
  show ?thesis
    unfolding saveSnapshot_def hs fold_append fold_Cons comp_def save_all(3)[OF notys]
    by (rule save_forge_stores) (use save_all(1)[OF assms(1)] assms(4-7) in auto)
qed

lemma keyed_lists_equal:
  assumes "map fst xs = map fst ys" "distinct (map fst xs)" "set xs = set ys"
  shows "xs = ys"
  using assms by (simp add: inj_on_map_eq_map[of fst xs ys] distinct_map)

definition row_pair :: "cached_repo \<Rightarrow> string \<times> string" where "row_pair r = (crRepo r, crPayload r)"

lemma load_set:
  assumes "distinct (map fst table)"
  shows "row_pair ` set (LoadSnapshotRepos table f c) = {(repo, p). map_option fst (map_of table (f, c, repo)) = Some p}"
proof -
  have "(repo, p) \<in> row_pair ` set (LoadSnapshotRepos table f c) \<longleftrightarrow> (\<exists>at. ((f, c, repo), p, at) \<in> set table)" for repo p
    by (force simp: LoadSnapshotRepos_def row_pair_def)
  then show ?thesis using assms by (auto simp: map_of_eq_Some_iff)
qed

lemma load_sorted:
  assumes "distinct (map fst table)"
  shows "distinct (map crRepo (LoadSnapshotRepos table f c))" "sorted (map crRepo (LoadSnapshotRepos table f c))"
proof -
  have "distinct (map crRepo (map (\<lambda>((_, _, repo), p, at). \<lparr>crRepo = repo, crFetchedAt = at, crPayload = p\<rparr>)
       (filter (\<lambda>((f', c', _), _). f' = f \<and> c' = c) al)))" if "distinct (map fst al)" for al :: cache_table
    using that by (induction al) (force split: if_splits)+
  from this[OF assms] show "distinct (map crRepo (LoadSnapshotRepos table f c))"
    unfolding LoadSnapshotRepos_def distinct_map set_sort distinct_sort by simp
  show "sorted (map crRepo (LoadSnapshotRepos table f c))" by (simp add: LoadSnapshotRepos_def)
qed

text \<open>What the table holds for a forge after a refresh that read it: the rows of that refresh, in order.\<close>

lemma load_after_save:
  assumes "tracks cred s f" "snap_table_ok s" "distinct (map fhForge (snForges snap))" "h \<in> set (snForges snap)" "fhForge h = f"
    and "fhReachable h" "fhStaleSince h = None" "works f"
  shows "map row_pair (LoadSnapshotRepos (ssTable (saveSnapshot enc works cred snap s)) f (cred f)) = map row_pair (snapshotRows enc snap f)"
proof (rule keyed_lists_equal)
  let ?t = "ssTable (saveSnapshot enc works cred snap s)"
  have ok: "distinct (map fst ?t)" using save_all(2)[OF assms(2)] by (simp add: saveSnapshot_def snap_table_ok_def)
  have fst: "map fst (map row_pair rs) = map crRepo rs" for rs by (simp add: row_pair_def)
  have set: "row_pair ` set (LoadSnapshotRepos ?t f (cred f)) = row_pair ` set (snapshotRows enc snap f)"
  proof -
    have "(case find_last (\<lambda>r. crRepo r = repo) (snapshotRows enc snap f) of Some r \<Rightarrow> Some (crPayload r) | None \<Rightarrow> None) = Some p
        \<longleftrightarrow> (repo, p) \<in> row_pair ` set (snapshotRows enc snap f)" for repo p
    proof (cases "find_last (\<lambda>r. crRepo r = repo) (snapshotRows enc snap f)")
      case None
      then have "repo \<notin> crRepo ` set (snapshotRows enc snap f)" by (simp add: find_last_None)
      then show ?thesis by (auto simp: None row_pair_def)
    next
      case (Some r)
      then have r: "r \<in> set (snapshotRows enc snap f)" "crRepo r = repo"
        using index_by_Some[of crRepo "snapshotRows enc snap f" repo r] by (simp_all add: index_by_def)
      then show ?thesis using Some rows_distinct(1)[of enc snap f]
        by (auto simp: row_pair_def distinct_map dest: inj_onD)
    qed
    then show ?thesis unfolding load_set[OF ok] saved_lookup[where works = works and cred = cred, OF assms(1,3-8)] by auto
  qed
  show "set (map row_pair (LoadSnapshotRepos ?t f (cred f))) = set (map row_pair (snapshotRows enc snap f))"
    using set by simp
  have "set (map crRepo (LoadSnapshotRepos ?t f (cred f))) = set (map crRepo (snapshotRows enc snap f))"
    using arg_cong[OF set, of "(`) fst"] by (simp add: image_image row_pair_def)
  then show "map fst (map row_pair (LoadSnapshotRepos ?t f (cred f))) = map fst (map row_pair (snapshotRows enc snap f))"
    unfolding fst using load_sorted[OF ok] rows_distinct by (intro sorted_distinct_set_unique)
  show "distinct (map fst (map row_pair (LoadSnapshotRepos ?t f (cred f))))" unfolding fst by (rule load_sorted[OF ok])
qed

text \<open>What one forge's rows add to the snapshot being restored.\<close>

definition decoded :: "(string \<rightharpoonup> cached_repo_rows) \<Rightarrow> cached_repo list \<Rightarrow> cached_repo_rows list" where
  "decoded dec rows = List.map_filter (\<lambda>r. dec (crPayload r)) rows"

lemma decoded_simps [simp]:
  "decoded dec [] = []"
  "decoded dec (r # rs) = (case dec (crPayload r) of None \<Rightarrow> decoded dec rs | Some w \<Rightarrow> w # decoded dec rs)"
  by (simp_all add: decoded_def List.map_filter_simps split: option.split)

lemma add_rows:
  assumes "fold (addSavedRow dec) rows (snap, newest, n) = (snap', newest', n')"
  shows "snPullRequests snap' = snPullRequests snap @ concat (map cwPullRequests (decoded dec rows))
    \<and> snIssues snap' = snIssues snap @ concat (map cwIssues (decoded dec rows))
    \<and> snForges snap' = snForges snap \<and> n' = n + length (decoded dec rows)"
  using assms
proof (induction rows arbitrary: snap newest n)
  case (Cons r rows)
  obtain snap1 newest1 n1 where a: "addSavedRow dec r (snap, newest, n) = (snap1, newest1, n1)" by (metis prod.exhaust)
  then have "fold (addSavedRow dec) rows (snap1, newest1, n1) = (snap', newest', n')" using Cons.prems by simp
  from Cons.IH[OF this] show ?case using a by (cases "dec (crPayload r)") (auto simp: addSavedRow_def Let_def)
qed simp

lemma restore_fold:
  assumes "fold (restoreForge dec (\<lambda>_. True) cred) fs (snap, good, s) = (snap', good', s')"
  shows "ssTable s' = ssTable s
    \<and> snPullRequests snap' = snPullRequests snap @ concat (map (\<lambda>f. concat (map cwPullRequests (decoded dec (LoadSnapshotRepos (ssTable s) f (cred f))))) fs)
    \<and> snIssues snap' = snIssues snap @ concat (map (\<lambda>f. concat (map cwIssues (decoded dec (LoadSnapshotRepos (ssTable s) f (cred f))))) fs)
    \<and> (snForges snap' = [] \<longleftrightarrow> snForges snap = [] \<and> (\<forall>f \<in> set fs. decoded dec (LoadSnapshotRepos (ssTable s) f (cred f)) = []))"
  using assms
proof (induction fs arbitrary: snap good s)
  case (Cons f fs)
  obtain snap1 good1 s1 where r: "restoreForge dec (\<lambda>_. True) cred f (snap, good, s) = (snap1, good1, s1)" by (metis prod.exhaust)
  obtain snap0 newest n where a: "addSavedRows dec (LoadSnapshotRepos (ssTable s) f (cred f)) snap = (snap0, newest, n)" by (metis prod.exhaust)
  note add = add_rows[OF a[unfolded addSavedRows_def]]
  have s1: "ssTable s1 = ssTable s" "snPullRequests snap1 = snPullRequests snap0" "snIssues snap1 = snIssues snap0"
    "snForges snap1 = [] \<longleftrightarrow> snForges snap0 = [] \<and> n = 0"
    using r a by (auto simp: restoreForge_def Let_def rememberSaved_def split: if_splits)
  have "fold (restoreForge dec (\<lambda>_. True) cred) fs (snap1, good1, s1) = (snap', good', s')" using Cons.prems r by simp
  from Cons.IH[OF this] show ?case using s1 add by auto
qed simp

lemma decoded_rows:
  assumes codec: "codec_ok enc dec" and pairs: "map row_pair rows = map row_pair (snapshotRows enc snap f)"
    and enc: "list_all (\<lambda>n. enc (rowsFor snap f n) \<noteq> None) (row_names snap f)"
  shows "decoded dec rows = map (\<lambda>n. saved_rows (rowsFor snap f n)) (sort (row_names snap f))"
proof -
  have "decoded dec xs = List.map_filter (\<lambda>(_, p). dec p) (map row_pair xs)" for xs
    by (induction xs) (auto simp: List.map_filter_simps row_pair_def split: option.split)
  then have d: "decoded dec rows = decoded dec (snapshotRows enc snap f)" using pairs by simp
  have "list_all (\<lambda>n. enc (rowsFor snap f n) \<noteq> None) ns \<Longrightarrow>
      decoded dec (List.map_filter (\<lambda>name. case enc (rowsFor snap f name) of None \<Rightarrow> None
     | Some p \<Rightarrow> Some \<lparr>crRepo = name, crFetchedAt = rowTime snap f name, crPayload = p\<rparr>) ns)
      = map (\<lambda>n. saved_rows (rowsFor snap f n)) ns" for ns
    using codec by (induction ns) (auto simp: List.map_filter_simps codec_ok_def)
  from this[of "sort (row_names snap f)"] enc show ?thesis unfolding d snapshotRows_def by (simp add: list_all_iff)
qed

lemma rows_of_forge:
  "mset (concat (map (\<lambda>n. filter (in_repo f n) (snPullRequests snap)) (sort (row_names snap f)))) = mset (filter (\<lambda>p. prForge p = f) (snPullRequests snap))"
  "mset (concat (map (\<lambda>n. filter (issue_in_repo f n) (snIssues snap)) (sort (row_names snap f)))) = mset (filter (\<lambda>i. isForge i = f) (snIssues snap))"
proof -
  have d: "distinct (sort (row_names snap f))" by (simp add: row_names_def)
  let ?ps = "filter (\<lambda>p. prForge p = f) (snPullRequests snap)" and ?is = "filter (\<lambda>i. isForge i = f) (snIssues snap)"
  have "filter (in_repo f n) (snPullRequests snap) = filter (\<lambda>p. prRepo p = n) ?ps" for n
    by (auto intro!: filter_cong simp: in_repo_def)
  moreover have "filter (\<lambda>p. prRepo p \<in> set (sort (row_names snap f))) ?ps = ?ps"
    unfolding filter_id_conv by (auto simp: row_names_def)
  ultimately show "mset (concat (map (\<lambda>n. filter (in_repo f n) (snPullRequests snap)) (sort (row_names snap f)))) = mset ?ps"
    using mset_by_key[OF d, of prRepo ?ps] by simp
  have "filter (issue_in_repo f n) (snIssues snap) = filter (\<lambda>i. isRepo i = n) ?is" for n
    by (auto intro!: filter_cong simp: issue_in_repo_def)
  moreover have "filter (\<lambda>i. isRepo i \<in> set (sort (row_names snap f))) ?is = ?is"
    unfolding filter_id_conv by (auto simp: row_names_def)
  ultimately show "mset (concat (map (\<lambda>n. filter (issue_in_repo f n) (snIssues snap)) (sort (row_names snap f)))) = mset ?is"
    using mset_by_key[OF d, of isRepo ?is] by simp
qed

definition new_board :: board where
  "new_board = \<lparr>bdSnap = newEmptySnapshot, bdSettled = Map.empty, bdScoped = [], bdLastGood = Map.empty, 
     bdBots = \<lparr>bsRequests = Map.empty, bsUpdates = Map.empty, bsOverrides = Map.empty\<rparr>\<rparr>"

lemma concat_forges:
  assumes "\<And>f. f \<in> set fs \<Longrightarrow> mset (g f) = image_mset h (mset (filter (\<lambda>x. key x = f) xs))" "distinct fs"
  shows "mset (concat (map g fs)) = image_mset h (mset (filter (\<lambda>x. key x \<in> set fs) xs))"
proof -
  have "mset (concat (map g fs)) = image_mset h (mset (concat (map (\<lambda>f. filter (\<lambda>x. key x = f) xs) fs)))"
    using assms(1) by (induction fs) auto
  then show ?thesis using mset_by_key[OF assms(2), of key xs] by simp
qed

lemma forge_rows_back:
  assumes codec: "codec_ok enc dec" and table: "snap_table_ok s" "\<And>f. f \<in> fhForge ` set (snForges snap) \<Longrightarrow> tracks cred s f"
    and read: "distinct (map fhForge (snForges snap))"
      "\<And>h. h \<in> set (snForges snap) \<Longrightarrow> fhReachable h \<and> fhStaleSince h = None \<and> works (fhForge h) \<and>
         list_all (\<lambda>n. enc (rowsFor snap (fhForge h) n) \<noteq> None) (row_names snap (fhForge h))"
    and f: "f \<in> set (map fhForge (snForges snap))"
  defines "rows \<equiv> decoded dec (LoadSnapshotRepos (ssTable (saveSnapshot enc works cred snap s)) f (cred f))"
  shows "mset (concat (map cwPullRequests rows)) = image_mset saved_pr (mset (filter (\<lambda>p. prForge p = f) (snPullRequests snap)))"
    and "mset (concat (map cwIssues rows)) = image_mset id (mset (filter (\<lambda>i. isForge i = f) (snIssues snap)))"
proof -
  have "f \<in> fhForge ` set (snForges snap)" using f by simp
  then obtain h where "f = fhForge h" and h1: "h \<in> set (snForges snap)" by (rule imageE)
  then have h: "h \<in> set (snForges snap)" "fhForge h = f" by simp_all
  have dec: "rows = map (\<lambda>n. saved_rows (rowsFor snap f n)) (sort (row_names snap f))"
    unfolding rows_def by (rule decoded_rows[OF codec load_after_save[OF table(2) table(1) read(1) h]]) (use read(2)[OF h(1)] h in auto)
  have "concat (map cwPullRequests rows) = map saved_pr (concat (map (\<lambda>n. filter (in_repo f n) (snPullRequests snap)) (sort (row_names snap f))))"
    "concat (map cwIssues rows) = concat (map (\<lambda>n. filter (issue_in_repo f n) (snIssues snap)) (sort (row_names snap f)))"
    unfolding dec by (simp_all add: saved_rows_def rowsFor_def map_concat comp_def)
  then show "mset (concat (map cwPullRequests rows)) = image_mset saved_pr (mset (filter (\<lambda>p. prForge p = f) (snPullRequests snap)))"
    "mset (concat (map cwIssues rows)) = image_mset id (mset (filter (\<lambda>i. isForge i = f) (snIssues snap)))"
    by (simp_all only: mset_map rows_of_forge image_mset_id)
qed

lemma restart_shows_tracked:
  assumes codec: "codec_ok enc dec"
    and table: "snap_table_ok s" "\<And>f. f \<in> fhForge ` set (snForges snap) \<Longrightarrow> tracks cred s f"
    and read: "distinct (map fhForge (snForges snap))"
      "\<And>h. h \<in> set (snForges snap) \<Longrightarrow> fhReachable h \<and> fhStaleSince h = None \<and> works (fhForge h) \<and>
         list_all (\<lambda>n. enc (rowsFor snap (fhForge h) n) \<noteq> None) (row_names snap (fhForge h))"
    and restart: "restoreSnapshot dec (\<lambda>_. True) cred (map fhForge (snForges snap))
      (new_board, \<lparr>ssTable = ssTable (saveSnapshot enc works cred snap s), ssSaved = (\<lambda>_. [])\<rparr>) = (shown, b, s')"
  shows "mset (snPullRequests (bdSnap b)) = image_mset saved_pr (mset (filter (\<lambda>p. prForge p \<in> fhForge ` set (snForges snap)) (snPullRequests snap)))
    \<and> mset (snIssues (bdSnap b)) = mset (filter (\<lambda>i. isForge i \<in> fhForge ` set (snForges snap)) (snIssues snap))"
proof -
  let ?fs = "map fhForge (snForges snap)" and ?t = "ssTable (saveSnapshot enc works cred snap s)"
  let ?D = "\<lambda>f. decoded dec (LoadSnapshotRepos ?t f (cred f))"
  note rows_back = forge_rows_back[OF codec table(1,2) read]
  obtain snap' good' s1 where f: "fold (restoreForge dec (\<lambda>_. True) cred) ?fs
      (newEmptySnapshot, bdLastGood new_board, \<lparr>ssTable = ?t, ssSaved = (\<lambda>_. [])\<rparr>) = (snap', good', s1)" by (metis prod.exhaust)
  note fold = restore_fold[OF f, simplified]
  have all: "mset (snPullRequests snap') = image_mset saved_pr (mset (filter (\<lambda>p. prForge p \<in> set ?fs) (snPullRequests snap)))"
    "mset (snIssues snap') = image_mset id (mset (filter (\<lambda>i. isForge i \<in> set ?fs) (snIssues snap)))"
    using fold concat_forges[of ?fs "\<lambda>f. concat (map cwPullRequests (?D f))" saved_pr prForge "snPullRequests snap", OF rows_back(1) read(1)]
      concat_forges[of ?fs "\<lambda>f. concat (map cwIssues (?D f))" id isForge "snIssues snap", OF rows_back(2) read(1)]
    by (simp_all add: newEmptySnapshot_def comp_def)
  have sorts: "mset (sortPullRequests ps) = mset ps" "mset (sortIssues xs) = mset xs" for ps xs
    by (simp_all add: sortPullRequests_def sortIssues_def)
  show ?thesis
  proof (cases "snForges snap' = []")
    case True
    then have none: "snPullRequests snap' = []" "snIssues snap' = []" using fold by (auto simp: newEmptySnapshot_def)
    have "bdSnap b = newEmptySnapshot" using restart f True by (auto simp: restoreSnapshot_def new_board_def)
    then show ?thesis using none all by (simp add: newEmptySnapshot_def)
  next
    case False
    have "bdSnap b = snap'\<lparr>snPullRequests := sortPullRequests (snPullRequests snap'), snIssues := sortIssues (snIssues snap')\<rparr>"
      using restart f False by (auto simp: restoreSnapshot_def new_board_def)
    then show ?thesis using all sorts by simp
  qed
qed

text \<open>One process: it restores, then saves after each refresh; \<open>works\<close> says which writes of that save succeed.\<close>

definition process_saves :: "(cached_repo_rows \<rightharpoonup> string) \<Rightarrow> (string \<rightharpoonup> cached_repo_rows) \<Rightarrow> (forge \<Rightarrow> bool) \<Rightarrow> (forge \<Rightarrow> string) \<Rightarrow>
    forge list \<Rightarrow> cache_table \<Rightarrow> ((forge \<Rightarrow> bool) \<times> snapshot) list \<Rightarrow> snap_store" where
  "process_saves enc dec readable cred sources table saves =
     fold (\<lambda>(works, snap). saveSnapshot enc works cred snap) saves
       (snd (snd (restoreSnapshot dec readable cred sources (new_board, \<lparr>ssTable = table, ssSaved = (\<lambda>_. [])\<rparr>))))"

text \<open>The process knows what is stored for a forge when it could list its rows at the start, and either found
  none or could decode one.\<close>

definition understood :: "(string \<rightharpoonup> cached_repo_rows) \<Rightarrow> (forge \<Rightarrow> bool) \<Rightarrow> (forge \<Rightarrow> string) \<Rightarrow> cache_table \<Rightarrow> forge \<Rightarrow> bool" where
  "understood dec readable cred table f \<longleftrightarrow> readable f \<and>
     (LoadSnapshotRepos table f (cred f) = [] \<or> decoded dec (LoadSnapshotRepos table f (cred f)) \<noteq> [])"

lemma loaded_tracks:
  assumes "snap_table_ok s"
  shows "tracks cred (rememberSaved f (LoadSnapshotRepos (ssTable s) f (cred f)) s) f"
proof -
  let ?rows = "LoadSnapshotRepos (ssTable s) f (cred f)"
  have ok: "distinct (map fst (ssTable s))" using assms by (simp add: snap_table_ok_def)
  have "map_option crPayload (find_last (\<lambda>r. crRepo r = repo) ?rows) = map_option fst (map_of (ssTable s) (f, cred f, repo))" for repo
  proof (cases "find_last (\<lambda>r. crRepo r = repo) ?rows")
    case None
    then have "repo \<notin> crRepo ` set ?rows" by (simp add: find_last_None)
    then have "(repo, p) \<notin> row_pair ` set ?rows" for p by (auto simp: row_pair_def)
    then show ?thesis using None unfolding load_set[OF ok]
      by (cases "map_of (ssTable s) (f, cred f, repo)") auto
  next
    case (Some r)
    then have "r \<in> set ?rows" "crRepo r = repo"
      using index_by_Some[of crRepo ?rows repo r] by (simp_all add: index_by_def)
    then have "(repo, crPayload r) \<in> row_pair ` set ?rows" by (force simp: row_pair_def)
    then show ?thesis using Some unfolding load_set[OF ok] by auto
  qed
  then show ?thesis
    by (simp add: tracks_def remembered[OF load_sorted(1)[OF ok]] rememberSaved_def[of f _ s, THEN arg_cong[of _ _ ssTable]]
        map_option_case)
qed

lemma restore_forge_tracks:
  assumes "restoreForge dec readable cred f (snap, good, s) = (snap', good', s')" "snap_table_ok s"
    and "\<And>g. ssSaved s g = [] \<or> tracks cred s g"
  shows "ssTable s' = ssTable s" and "ssSaved s' g = [] \<or> tracks cred s' g" and "tracks cred s g \<Longrightarrow> tracks cred s' g"
    and "understood dec readable cred (ssTable s) f \<Longrightarrow> tracks cred s' f"
proof -
  let ?rows = "LoadSnapshotRepos (ssTable s) f (cred f)"
  obtain snap0 newest n where a: "addSavedRows dec ?rows snap = (snap0, newest, n)" by (metis prod.exhaust)
  have n: "n = length (decoded dec ?rows)" using add_rows[OF a[unfolded addSavedRows_def]] by simp
  have s': "s' = (if readable f \<and> decoded dec ?rows \<noteq> [] then rememberSaved f ?rows s else s)"
    using assms(1) a n by (auto simp: restoreForge_def Let_def split: if_splits)
  have other: "g \<noteq> f \<Longrightarrow> tracks cred (rememberSaved f ?rows s) g = tracks cred s g \<and> ssSaved (rememberSaved f ?rows s) g = ssSaved s g"
    by (simp add: tracks_def rememberSaved_def)
  have mine: "tracks cred (rememberSaved f ?rows s) f" by (rule loaded_tracks[OF assms(2)])
  show "ssTable s' = ssTable s" by (simp add: s' rememberSaved_def)
  show "ssSaved s' g = [] \<or> tracks cred s' g" "tracks cred s g \<Longrightarrow> tracks cred s' g"
    using assms(3)[of g] other mine by (cases "g = f"; simp add: s')+
  show "understood dec readable cred (ssTable s) f \<Longrightarrow> tracks cred s' f"
  proof -
    assume u: "understood dec readable cred (ssTable s) f"
    have "tracks cred s f" if "?rows = []"
    proof -
      have "map_of (ssTable s) (f, cred f, repo) = None" for repo
      proof (cases "map_of (ssTable s) (f, cred f, repo)")
        case (Some x)
        have ok: "distinct (map fst (ssTable s))" using assms(2) by (simp add: snap_table_ok_def)
        have "(repo, fst x) \<in> row_pair ` set ?rows" unfolding load_set[OF ok] using Some by (cases x) simp
        then show ?thesis using that by simp
      qed
      then show ?thesis using assms(3)[of f] by (auto simp: tracks_def)
    qed
    then show ?thesis using u mine by (auto simp: s' understood_def)
  qed
qed

lemma restore_all_tracks:
  assumes "fold (restoreForge dec readable cred) fs (snap, good, s) = (snap', good', s')" "snap_table_ok s"
    and "\<And>g. ssSaved s g = [] \<or> tracks cred s g"
  shows "ssTable s' = ssTable s \<and> (\<forall>g. tracks cred s g \<or> g \<in> set fs \<and> understood dec readable cred (ssTable s) g \<longrightarrow> tracks cred s' g)"
  using assms
proof (induction fs arbitrary: snap good s)
  case (Cons f fs)
  obtain snap1 good1 s1 where r: "restoreForge dec readable cred f (snap, good, s) = (snap1, good1, s1)" by (metis prod.exhaust)
  note step = restore_forge_tracks[OF r Cons.prems(2,3)]
  have "fold (restoreForge dec readable cred) fs (snap1, good1, s1) = (snap', good', s')" using Cons.prems(1) r by simp
  from Cons.IH[OF this _ step(2)] show ?case using Cons.prems(2) step by (auto simp: snap_table_ok_def)
qed simp

lemma process_tracks:
  assumes "distinct (map fst table)" "f \<in> set sources" "understood dec readable cred table f"
  shows "tracks cred (process_saves enc dec readable cred sources table saves) f"
    and "snap_table_ok (process_saves enc dec readable cred sources table saves)"
proof -
  let ?s = "\<lparr>ssTable = table, ssSaved = (\<lambda>_. [])\<rparr> :: snap_store"
  obtain snap' good' s' where r: "fold (restoreForge dec readable cred) sources (newEmptySnapshot, bdLastGood new_board, ?s) = (snap', good', s')"
    by (metis prod.exhaust)
  have s': "snd (snd (restoreSnapshot dec readable cred sources (new_board, ?s))) = s'"
    using r by (simp add: restoreSnapshot_def)
  have "ssTable s' = table" "tracks cred s' f"
    using restore_all_tracks[OF r] assms by (auto simp: snap_table_ok_def)
  then have "tracks cred s' f \<and> snap_table_ok s'" using assms(1) by (simp add: snap_table_ok_def)
  then have "tracks cred (fold (\<lambda>(works, snap). saveSnapshot enc works cred snap) saves s') f
      \<and> snap_table_ok (fold (\<lambda>(works, snap). saveSnapshot enc works cred snap) saves s')"
    by (induction saves arbitrary: s') (auto simp: saveSnapshot_def save_all(1,2))
  then show "tracks cred (process_saves enc dec readable cred sources table saves) f"
    "snap_table_ok (process_saves enc dec readable cred sources table saves)"
    by (simp_all add: process_saves_def s')
qed

text \<open>
  C26: A restart shows what the last refresh showed. Take a process that started from any table, and any
  sequence of saves it made, works or not, the last one after a refresh that read every forge, with writes
  that worked. A new process restoring from the table then shows the pull requests and the issues of that
  refresh: none lost, none kept from a repository since gone, none twice. Each issue is the same; each pull
  request is the same but for the two fields the JSON leaves out, \<open>prFailingOnlyForApproval\<close> and
  \<open>prRenovateRebaseRequested\<close>, which come back false. It takes that the process could read what was stored
  of each forge when it started: the rows listed, and one of them decoded unless there were none.
\<close>

theorem restart_shows_last_save:
  assumes codec: "codec_ok enc dec"
    and start: "distinct (map fst table)" "list_all (\<lambda>h. understood dec readable cred table (fhForge h)) (snForges snap)"
    and read: "distinct (map fhForge (snForges snap))"
      "list_all (\<lambda>h. fhReachable h \<and> fhStaleSince h = None \<and> works (fhForge h) \<and>
         list_all (\<lambda>n. enc (rowsFor snap (fhForge h) n) \<noteq> None) (row_names snap (fhForge h))) (snForges snap)"
    and restart: "restoreSnapshot dec (\<lambda>_. True) cred (map fhForge (snForges snap))
      (new_board, \<lparr>ssTable = ssTable (process_saves enc dec readable cred (map fhForge (snForges snap)) table (saves @ [(works, snap)])),
         ssSaved = (\<lambda>_. [])\<rparr>) = (shown, b, s')"
  shows "mset (snPullRequests (bdSnap b)) = image_mset saved_pr (mset (filter (\<lambda>p. prForge p \<in> fhForge ` set (snForges snap)) (snPullRequests snap)))
    \<and> mset (snIssues (bdSnap b)) = mset (filter (\<lambda>i. isForge i \<in> fhForge ` set (snForges snap)) (snIssues snap))"
proof (cases "snForges snap = []")
  case False
  let ?p = "process_saves enc dec readable cred (map fhForge (snForges snap)) table saves"
  have tr: "tracks cred ?p f" "snap_table_ok ?p" if "f \<in> fhForge ` set (snForges snap)" for f
    using process_tracks[OF start(1), of f "map fhForge (snForges snap)" dec readable cred enc saves] start(2) that
    by (auto simp: list_all_iff)
  have ok: "snap_table_ok ?p" using tr(2) False by (metis image_eqI list.set_intros(1) neq_Nil_conv)
  have last: "process_saves enc dec readable cred (map fhForge (snForges snap)) table (saves @ [(works, snap)]) = saveSnapshot enc works cred snap ?p"
    by (simp add: process_saves_def)
  show ?thesis
    by (rule restart_shows_tracked[OF codec ok tr(1) read(1) _ restart[unfolded last]]) (use read(2) in \<open>auto simp: list_all_iff\<close>)
qed (use restart in \<open>auto simp: restoreSnapshot_def new_board_def newEmptySnapshot_def split: prod.splits\<close>)

definition demo_pr :: pull_request where
  "demo_pr = zero_pr\<lparr>prRepo := ''o/r'', prNumber := 3, prCI := CIFailure, prFailingOnlyForApproval := True,
     prRenovateRebaseRequested := True\<rparr>"

definition demo_snapshot :: snapshot where
  "demo_snapshot = newEmptySnapshot\<lparr>snForges := [zero_health\<lparr>fhForge := ForgeGitHub, fhReachable := True\<rparr>],
     snPullRequests := [demo_pr], snRepos := [zero_repo\<lparr>rpForge := ForgeGitHub, rpFullName := ''o/r''\<rparr>]\<rparr>"

definition demo_enc :: "cached_repo_rows \<rightharpoonup> string" where
  "demo_enc w = (if w = rowsFor demo_snapshot ForgeGitHub ''o/r'' then Some ''{}'' else None)"

definition demo_dec :: "string \<rightharpoonup> cached_repo_rows" where
  "demo_dec p = (if p = ''{}'' then Some (saved_rows (rowsFor demo_snapshot ForgeGitHub ''o/r'')) else None)"

text \<open>A table holding a repository since gone, and one save that failed before the last.\<close>

definition demo_table :: cache_table where
  "demo_table = [((ForgeGitHub, ''token'', ''o/gone''), ''{}'', 0)]"

lemma restart_shows_last_save_witness:
  "mset (snPullRequests (bdSnap (fst (snd (restoreSnapshot demo_dec (\<lambda>_. True) (\<lambda>_. ''token'') [ForgeGitHub]
     (new_board, \<lparr>ssTable = ssTable (process_saves demo_enc demo_dec (\<lambda>_. True) (\<lambda>_. ''token'') [ForgeGitHub] demo_table
        ([(\<lambda>_. False, demo_snapshot)] @ [(\<lambda>_. True, demo_snapshot)])), ssSaved = (\<lambda>_. [])\<rparr>)))))) = {#saved_pr demo_pr#}"
proof -
  have codec: "codec_ok demo_enc demo_dec" by (simp add: codec_ok_def demo_enc_def demo_dec_def)
  have fs: "map fhForge (snForges demo_snapshot) = [ForgeGitHub]" by (simp add: demo_snapshot_def)
  have t: "distinct (map fst demo_table)"
    "list_all (\<lambda>h. understood demo_dec (\<lambda>_. True) (\<lambda>_. ''token'') demo_table (fhForge h)) (snForges demo_snapshot)"
    by (simp_all add: demo_table_def demo_snapshot_def understood_def LoadSnapshotRepos_def demo_dec_def)
  have names: "row_names demo_snapshot ForgeGitHub = [''o/r'']"
    by (simp add: row_names_def demo_snapshot_def newEmptySnapshot_def demo_pr_def zero_pr_def zero_repo_def)
  have d: "distinct (map fhForge (snForges demo_snapshot))" by (simp add: demo_snapshot_def)
  have r: "list_all (\<lambda>h. fhReachable h \<and> fhStaleSince h = None \<and> (\<lambda>_. True) (fhForge h) \<and>
      list_all (\<lambda>n. demo_enc (rowsFor demo_snapshot (fhForge h) n) \<noteq> None) (row_names demo_snapshot (fhForge h))) (snForges demo_snapshot)"
    using names by (simp add: zero_health_def demo_enc_def demo_snapshot_def[THEN arg_cong[of _ _ snForges]])
  obtain shown b s' where x: "restoreSnapshot demo_dec (\<lambda>_. True) (\<lambda>_. ''token'') (map fhForge (snForges demo_snapshot))
      (new_board, \<lparr>ssTable = ssTable (process_saves demo_enc demo_dec (\<lambda>_. True) (\<lambda>_. ''token'') (map fhForge (snForges demo_snapshot)) demo_table
        ([(\<lambda>_. False, demo_snapshot)] @ [(\<lambda>_. True, demo_snapshot)])), ssSaved = (\<lambda>_. [])\<rparr>)
      = (shown, b, s')" by (metis prod.exhaust)
  have prs: "filter (\<lambda>p. prForge p = ForgeGitHub) (snPullRequests demo_snapshot) = [demo_pr]"
    by (simp add: demo_snapshot_def newEmptySnapshot_def demo_pr_def zero_pr_def)
  show ?thesis
    using restart_shows_last_save[OF codec t(1) t(2) d r x] prs x[unfolded fs] by (simp add: demo_snapshot_def)
qed

text \<open>Two fields that decide what a row shows are not in the JSON: after a restart, until the next refresh, a
  pull request that only waits for approval counts as failing, and a rebase box already ticked is offered to be ticked.\<close>

lemma restored_forgets:
  "IsFailingCI (saved_pr demo_pr) \<and> \<not> IsFailingCI demo_pr"
  "renovateRebaseActions (saved_pr demo_pr) = [avail ActionRenovateRebase]"
  "renovateRebaseActions demo_pr = [avail ActionCancelRenovateRebase]"
  by (simp_all add: saved_pr_def demo_pr_def IsFailingCI_def renovateRebaseActions_def renovateRebasing_def botRequestPending_def zero_pr_def)

text \<open>
  What the process does not know of it never removes: when the rows of a forge could not be listed at the start,
  the row of a repository that is no longer tracked outlives every later save.
\<close>

lemma unknown_rows_stay:
  assumes "repo \<notin> fst ` set (ssSaved s f)" "repo \<notin> set (row_names snap f)"
  shows "map_of (ssTable (saveForge enc works cred snap h s)) (f, c, repo) = map_of (ssTable s) (f, c, repo) \<and>
    repo \<notin> fst ` set (ssSaved (saveForge enc works cred snap h s) f)"
proof (cases "fhForge h = f")
  case True
  let ?rows = "snapshotRows enc snap f"
  have names: "repo \<notin> crRepo ` set ?rows" using assms(2) rows_names[of enc snap f] by (metis filter_is_subset list.set_map set_sort subsetD)
  obtain changed removed where df: "savedDiff f ?rows s = (changed, removed)" by (metis prod.exhaust)
  have d: "repo \<notin> crRepo ` set changed" "repo \<notin> set removed"
    using df names assms(1) by (auto simp: savedDiff_def Let_def image_iff)
  obtain ok table where w: "SaveSnapshotChanges (works f) f (cred f) changed removed (ssTable s) = (ok, table)" by (metis prod.exhaust)
  have upd: "repo \<notin> crRepo ` set rs \<Longrightarrow>
      map_of (fold (\<lambda>r. AList.update (f, cred f, crRepo r) (crPayload r, crFetchedAt r)) rs al) (f, c, repo) = map_of al (f, c, repo)"
    for rs :: "cached_repo list" and al :: cache_table
    by (induction rs arbitrary: al) (auto simp: update_conv')
  have del: "map_of (filter (\<lambda>((f', c', n), _). \<not> (f' = f \<and> c' = cred f \<and> List.member removed n)) al) (f, c, repo) = map_of al (f, c, repo)"
    for al :: cache_table using d(2) by (induction al) auto
  have table: "map_of table (f, c, repo) = map_of (ssTable s) (f, c, repo)"
    using w upd[OF d(1)] del by (auto simp: SaveSnapshotChanges_def split: if_splits)
  have saved: "repo \<notin> fst ` set (fold (\<lambda>r. AList.update (crRepo r) (crPayload r)) rs al)"
    if "repo \<notin> fst ` set al" "repo \<notin> crRepo ` set rs" for rs :: "cached_repo list" and al :: "(string \<times> string) list"
    using that by (induction rs arbitrary: al) (auto simp: dom_update)
  show ?thesis
    using saveForge_eq[where works = works and cred = cred, OF df[folded True] w[folded True]] table assms(1) saved[of "[]" ?rows] names
    by (auto simp: True rememberSaved_def)
next
  case False
  obtain changed removed where df: "savedDiff (fhForge h) (snapshotRows enc snap (fhForge h)) s = (changed, removed)" by (metis prod.exhaust)
  obtain ok table where w: "SaveSnapshotChanges (works (fhForge h)) (fhForge h) (cred (fhForge h)) changed removed (ssTable s) = (ok, table)"
    by (metis prod.exhaust)
  have "repo \<notin> fst ` set (ssSaved (saveForge enc works cred snap h s) f)"
    unfolding saveForge_eq[where works = works and cred = cred, OF df w] using False assms(1) by (simp add: rememberSaved_def)
  then show ?thesis using save_forge_other[OF False] by blast
qed

text \<open>Rows of a repository the snapshot does not list come back with a nameless repository beside them.\<close>

lemma unlisted_repo_row:
  "repo_row snap f name = None \<Longrightarrow> rpFullName (cwRepo (saved_rows (rowsFor snap f name))) = ''''"
  by (simp add: saved_rows_def rowsFor_def saved_repo_def zero_repo_def)

end
