(* ===== verification/Etag_Cache.thy ===== *)
theory Etag_Cache
  imports FD_Library "HOL-Library.Multiset"
begin

text \<open>
  The cache of conditional requests: \<open>internal/github\<close>'s \<open>etag_transport.go\<close> and \<open>etag_store.go\<close> in memory, and
  the table \<open>http_etags\<close> of \<open>internal/settings/cache.go\<close> behind it. The network is an argument: what it answers
  a request. So is the database's luck, the statement of a call that fails. A header is a map of its fields;
  its JSON in the table loses nothing.
\<close>

section \<open>Answers\<close>

type_synonym header = "string \<rightharpoonup> string list"

record etag_key =
  ekForge :: string
  ekCredential :: string
  ekURL :: string
  ekAccept :: string

record cached_response =
  caETag :: string
  caBody :: string
  caHeader :: header

definition header_get :: "header \<Rightarrow> string \<Rightarrow> string" where
  "header_get h name = (case h name of Some (v # _) \<Rightarrow> v | _ \<Rightarrow> '''')"

section \<open>The table\<close>

definition defaultETagCapBytes :: int where "defaultETagCapBytes = 20 * 2 ^ 20"

text \<open>The rows in the order of their rowid.\<close>

record etag_row =
  erID :: int
  erKey :: etag_key
  erAnswer :: cached_response
  erLastUsed :: time

record etag_db =
  edRows :: "etag_row list"
  edBytes :: int
  edCap :: int

text \<open>The statement of a call that the database refuses.\<close>

datatype db_fault = LookupFails | DropFails | InsertFails | ListFails | EvictFails nat

definition body_size :: "etag_row \<Rightarrow> int" where
  "body_size r = int (length (caBody (erAnswer r)))"

definition stored_bytes :: "etag_row list \<Rightarrow> int" where
  "stored_bytes rows = sum_list (map body_size rows)"

definition SetETagCap :: "int \<Rightarrow> etag_db \<Rightarrow> etag_db" where
  "SetETagCap bytes s = s\<lparr>edCap := bytes\<rparr>"

definition etagCapBytes :: "etag_db \<Rightarrow> int" where
  "etagCapBytes s = (if edCap s > 0 then edCap s else defaultETagCapBytes)"

definition loadETagBytes :: "etag_db \<Rightarrow> etag_db" where
  "loadETagBytes s = s\<lparr>edBytes := stored_bytes (edRows s)\<rparr>"

definition row_of :: "etag_key \<Rightarrow> etag_db \<Rightarrow> etag_row option" where
  "row_of k s = find (\<lambda>r. erKey r = k) (edRows s)"

text \<open>The rows picked for eviction, oldest first, and the total they leave.\<close>

fun evictWalk :: "int \<Rightarrow> int \<Rightarrow> etag_row list \<Rightarrow> etag_row list \<times> int" where
  "evictWalk limit total' [] = ([], total')"
| "evictWalk limit total' (r # rs) =
     (if total' > limit then (let (ids, t) = evictWalk limit (total' - body_size r) rs in (r # ids, t)) else ([], total'))"

definition delete_rows :: "etag_row list \<Rightarrow> etag_row list \<Rightarrow> etag_row list" where
  "delete_rows gone rows = filter (\<lambda>r. \<not> List.member (map erID gone) (erID r)) rows"

definition evictETags :: "db_fault option \<Rightarrow> etag_db \<Rightarrow> bool \<times> etag_db" where
  "evictETags fault s =
     (if edBytes s \<le> etagCapBytes s then (True, s)
      else if fault = Some ListFails then (False, s)
      else (let (gone, t) = evictWalk (etagCapBytes s) (edBytes s) (sort_key erLastUsed (edRows s))
            in case fault of
                 Some (EvictFails n) \<Rightarrow>
                   if n < length gone then (False, s\<lparr>edRows := delete_rows (take n gone) (edRows s)\<rparr>)
                   else (True, s\<lparr>edRows := delete_rows gone (edRows s), edBytes := t\<rparr>)
               | _ \<Rightarrow> (True, s\<lparr>edRows := delete_rows gone (edRows s), edBytes := t\<rparr>)))"

definition next_id :: "etag_row list \<Rightarrow> int" where
  "next_id rows = fold max (map erID rows) 0 + 1"

definition upsert :: "time \<Rightarrow> etag_key \<Rightarrow> cached_response \<Rightarrow> etag_row list \<Rightarrow> etag_row list" where
  "upsert now k v rows =
     (if list_ex (\<lambda>r. erKey r = k) rows
      then map (\<lambda>r. if erKey r = k then r\<lparr>erAnswer := v, erLastUsed := now\<rparr> else r) rows
      else rows @ [\<lparr>erID = next_id rows, erKey = k, erAnswer = v, erLastUsed = now\<rparr>])"

definition SaveETag :: "time \<Rightarrow> db_fault option \<Rightarrow> etag_key \<Rightarrow> cached_response \<Rightarrow> etag_db \<Rightarrow> bool \<times> etag_db" where
  "SaveETag now fault k v s =
     (if fault = Some LookupFails then (False, s)
      else (let old = row_of k s; oldBytes = (case old of None \<Rightarrow> 0 | Some r \<Rightarrow> body_size r)
            in if int (length (caBody v)) > etagCapBytes s then
                 (if old = None then (True, s)
                  else if fault = Some DropFails then (False, s)
                  else (True, s\<lparr>edRows := filter (\<lambda>r. erKey r \<noteq> k) (edRows s), edBytes := edBytes s - oldBytes\<rparr>))
               else if fault = Some InsertFails then (False, s)
               else evictETags fault (s\<lparr>edRows := upsert now k v (edRows s),
                                        edBytes := edBytes s + (int (length (caBody v)) - oldBytes)\<rparr>)))"

definition TouchETag :: "time \<Rightarrow> bool \<Rightarrow> etag_key \<Rightarrow> etag_db \<Rightarrow> etag_db" where
  "TouchETag now works k s = (if \<not> works then s
     else s\<lparr>edRows := map (\<lambda>r. if erKey r = k then r\<lparr>erLastUsed := now\<rparr> else r) (edRows s)\<rparr>)"

definition LoadETag :: "bool \<Rightarrow> etag_key \<Rightarrow> etag_db \<Rightarrow> cached_response option" where
  "LoadETag works k s = (if \<not> works then None else map_option erAnswer (row_of k s))"

section \<open>In memory\<close>

definition maxETagBodyBytes :: nat where "maxETagBodyBytes = 2 ^ 20"
definition maxETagTotalBytes :: int where "maxETagTotalBytes = 32 * 2 ^ 20"
definition maxETagEntries :: nat where "maxETagEntries = 5000"
definition etagTouchInterval :: duration where "etagTouchInterval = 10 * minute"

record etag_item =
  eiKey :: etag_key
  eiResp :: cached_response
  eiTouchedAt :: "time option"     \<comment> \<open>none for the zero time\<close>

text \<open>The list is \<open>order\<close>, the most recently used first; \<open>items\<close> is the index of it by key.\<close>

record etag_store =
  esMaxEntries :: nat
  esMaxBytes :: int
  esBytes :: int
  esOrder :: "etag_item list"

definition newETagStore :: "nat \<Rightarrow> int \<Rightarrow> etag_store" where
  "newETagStore maxEntries maxBytes = \<lparr>esMaxEntries = maxEntries, esMaxBytes = maxBytes, esBytes = 0, esOrder = []\<rparr>"

definition item_of :: "etag_key \<Rightarrow> etag_item list \<Rightarrow> etag_item option" where
  "item_of k items = find (\<lambda>i. eiKey i = k) items"

definition item_size :: "etag_item \<Rightarrow> int" where
  "item_size i = int (length (caBody (eiResp i)))"

definition to_front :: "etag_item \<Rightarrow> etag_item list \<Rightarrow> etag_item list" where
  "to_front i items = i # filter (\<lambda>j. eiKey j \<noteq> eiKey i) items"

definition getMemory :: "etag_key \<Rightarrow> etag_store \<Rightarrow> cached_response option \<times> etag_store" where
  "getMemory k s = (case item_of k (esOrder s) of None \<Rightarrow> (None, s)
     | Some i \<Rightarrow> (Some (eiResp i), s\<lparr>esOrder := to_front i (esOrder s)\<rparr>))"

function evictItems :: "etag_store \<Rightarrow> etag_store" where
  "evictItems s =
     (if (length (esOrder s) > esMaxEntries s \<or> esBytes s > esMaxBytes s) \<and> esOrder s \<noteq> []
      then evictItems (s\<lparr>esOrder := butlast (esOrder s), esBytes := esBytes s - item_size (last (esOrder s))\<rparr>)
      else s)"
  by pat_completeness auto
termination by (relation "measure (length \<circ> esOrder)") auto

declare evictItems.simps [simp del]

definition putMemory :: "etag_key \<Rightarrow> cached_response \<Rightarrow> time option \<Rightarrow> etag_store \<Rightarrow> etag_store" where
  "putMemory k v touched s = evictItems
     (let i = \<lparr>eiKey = k, eiResp = v, eiTouchedAt = touched\<rparr>
      in case item_of k (esOrder s) of
           Some old \<Rightarrow> s\<lparr>esBytes := esBytes s + (item_size i - item_size old), esOrder := to_front i (esOrder s)\<rparr>
         | None \<Rightarrow> s\<lparr>esOrder := i # esOrder s, esBytes := esBytes s + item_size i\<rparr>)"

section \<open>Memory with a backing behind it\<close>

text \<open>\<open>ETagBacking\<close>: what a backing loads, saves and touches, with the luck of each call.\<close>

record 'b backing =
  bkLoad :: "etag_key \<Rightarrow> 'b \<Rightarrow> cached_response option"
  bkSave :: "etag_key \<Rightarrow> cached_response \<Rightarrow> 'b \<Rightarrow> 'b"
  bkTouch :: "etag_key \<Rightarrow> 'b \<Rightarrow> 'b"

definition store_load :: "'b backing \<Rightarrow> etag_key \<Rightarrow> 'b option \<Rightarrow> cached_response option" where
  "store_load ops k b = (case b of None \<Rightarrow> None
     | Some b \<Rightarrow> (case bkLoad ops k b of None \<Rightarrow> None | Some v \<Rightarrow> if caETag v = '''' then None else Some v))"

definition store_get :: "'b backing \<Rightarrow> etag_key \<Rightarrow> etag_store \<times> 'b option \<Rightarrow> cached_response option \<times> etag_store \<times> 'b option" where
  "store_get ops k = (\<lambda>(m, b). case getMemory k m of
     (Some v, m') \<Rightarrow> (Some v, m', b)
   | (None, m') \<Rightarrow> (case store_load ops k b of
        None \<Rightarrow> (None, m', b) | Some v \<Rightarrow> (Some v, putMemory k v None m', b)))"

definition store_used :: "time \<Rightarrow> 'b backing \<Rightarrow> etag_key \<Rightarrow> etag_store \<times> 'b option \<Rightarrow> etag_store \<times> 'b option" where
  "store_used now ops k = (\<lambda>(m, b). case b of None \<Rightarrow> (m, b)
     | Some s \<Rightarrow> (case item_of k (esOrder m) of None \<Rightarrow> (m, b)
        | Some i \<Rightarrow>
            if (case eiTouchedAt i of None \<Rightarrow> False | Some t \<Rightarrow> time_sub now t < etagTouchInterval) then (m, b)
            else (m\<lparr>esOrder := map (\<lambda>j. if eiKey j = k then j\<lparr>eiTouchedAt := Some now\<rparr> else j) (esOrder m)\<rparr>,
                  Some (bkTouch ops k s))))"

definition store_put :: "time \<Rightarrow> 'b backing \<Rightarrow> etag_key \<Rightarrow> cached_response \<Rightarrow> etag_store \<times> 'b option \<Rightarrow> etag_store \<times> 'b option" where
  "store_put now ops k v = (\<lambda>(m, b). (putMemory k v (Some now) m, map_option (bkSave ops k v) b))"

section \<open>The transport\<close>

record http_request =
  hqMethod :: string
  hqURL :: string
  hqAccept :: string
  hqIfNoneMatch :: "string option"

text \<open>A body is what can be read of it, and whether reading then fails.\<close>

record http_response =
  hrStatus :: int
  hrHeader :: header
  hrBody :: string
  hrBodyFails :: bool

definition servedFromCache :: "http_response \<Rightarrow> cached_response \<Rightarrow> http_response" where
  "servedFromCache fresh cached = \<lparr>hrStatus = 200, hrHeader = caHeader cached ++ hrHeader fresh, hrBody = caBody cached, hrBodyFails = False\<rparr>"

definition maybeCache :: "time \<Rightarrow> 'b backing \<Rightarrow> etag_key \<Rightarrow> http_response \<Rightarrow> etag_store \<times> 'b option \<Rightarrow> etag_store \<times> 'b option" where
  "maybeCache now ops k resp s =
     (let etag = header_get (hrHeader resp) ''Etag''
      in if etag = '''' \<or> hrBodyFails resp \<or> length (hrBody resp) > maxETagBodyBytes then s
         else store_put now ops k \<lparr>caETag = etag, caBody = hrBody resp, caHeader = hrHeader resp\<rparr> s)"

definition requestKey :: "string \<Rightarrow> http_request \<Rightarrow> etag_key" where
  "requestKey credential req = \<lparr>ekForge = ''github'', ekCredential = credential, ekURL = hqURL req, ekAccept = hqAccept req\<rparr>"

definition RoundTrip :: "time \<Rightarrow> 'b backing \<Rightarrow> string \<Rightarrow> (http_request \<Rightarrow> string + http_response) \<Rightarrow> http_request \<Rightarrow>
    etag_store \<times> 'b option \<Rightarrow> (string + http_response) \<times> etag_store \<times> 'b option" where
  "RoundTrip now ops credential base req s =
     (if hqMethod req \<noteq> ''GET'' then (base req, s)
      else (let k = requestKey credential req; (cached, s1) = store_get ops k s;
                req' = (case cached of None \<Rightarrow> req | Some v \<Rightarrow> req\<lparr>hqIfNoneMatch := Some (caETag v)\<rparr>)
            in case base req' of
                 Inl e \<Rightarrow> (Inl e, s1)
               | Inr resp \<Rightarrow>
                   (case cached of
                      Some v \<Rightarrow> if hrStatus resp = 304 then (Inr (servedFromCache resp v), store_used now ops k s1)
                        else if hrStatus resp = 200 then (Inr resp, maybeCache now ops k resp s1) else (Inr resp, s1)
                    | None \<Rightarrow> if hrStatus resp = 200 then (Inr resp, maybeCache now ops k resp s1) else (Inr resp, s1))))"

section \<open>The memory stays within its limits\<close>

definition held_bytes :: "etag_item list \<Rightarrow> int" where "held_bytes items = sum_list (map item_size items)"

definition mem_sound :: "etag_store \<Rightarrow> bool" where
  "mem_sound s \<longleftrightarrow> distinct (map eiKey (esOrder s)) \<and> esBytes s = held_bytes (esOrder s) \<and> 0 \<le> esMaxBytes s"

definition mem_bounded :: "etag_store \<Rightarrow> bool" where
  "mem_bounded s \<longleftrightarrow> length (esOrder s) \<le> esMaxEntries s \<and> esBytes s \<le> esMaxBytes s"

lemma evictItems_prefix: "\<exists>n. evictItems s = s\<lparr>esOrder := take n (esOrder s), esBytes := esBytes (evictItems s)\<rparr>"
proof (induction s rule: evictItems.induct)
  case (1 s)
  show ?case
  proof (cases "(length (esOrder s) > esMaxEntries s \<or> esBytes s > esMaxBytes s) \<and> esOrder s \<noteq> []")
    case True
    let ?s = "s\<lparr>esOrder := butlast (esOrder s), esBytes := esBytes s - item_size (last (esOrder s))\<rparr>"
    from 1 True obtain n where "evictItems ?s = ?s\<lparr>esOrder := take n (esOrder ?s), esBytes := esBytes (evictItems ?s)\<rparr>" by blast
    then have "evictItems s = s\<lparr>esOrder := take n (take (length (esOrder s) - 1) (esOrder s)), esBytes := esBytes (evictItems s)\<rparr>"
      using True by (subst (1 2) evictItems.simps) (simp add: butlast_conv_take)
    then show ?thesis by (metis take_take)
  next
    case False
    then have "evictItems s = s" by (subst evictItems.simps) (simp only: if_False)
    then show ?thesis by (intro exI[of _ "length (esOrder s)"]) simp
  qed
qed

lemma evictItems_sound: "mem_sound s \<Longrightarrow> mem_sound (evictItems s) \<and> mem_bounded (evictItems s)"
proof (induction s rule: evictItems.induct)
  case (1 s)
  show ?case
  proof (cases "(length (esOrder s) > esMaxEntries s \<or> esBytes s > esMaxBytes s) \<and> esOrder s \<noteq> []")
    case True
    let ?s = "s\<lparr>esOrder := butlast (esOrder s), esBytes := esBytes s - item_size (last (esOrder s))\<rparr>"
    have o: "esOrder s = butlast (esOrder s) @ [last (esOrder s)]" using True by simp
    have "held_bytes (esOrder s) = held_bytes (butlast (esOrder s)) + item_size (last (esOrder s))"
      by (subst o) (simp add: held_bytes_def)
    moreover have "distinct (map eiKey (butlast (esOrder s)))"
      using "1.prems" by (simp add: mem_sound_def map_butlast distinct_butlast)
    ultimately have "mem_sound ?s" using "1.prems" by (simp add: mem_sound_def)
    from "1.IH"[OF True this] show ?thesis using True by (subst (1 2) evictItems.simps) simp
  next
    case False
    then have e: "evictItems s = s" by (subst evictItems.simps) (simp only: if_False)
    show ?thesis using False "1.prems" unfolding e by (auto simp: mem_bounded_def mem_sound_def held_bytes_def)
  qed
qed

lemma filter_key_absent: "k \<notin> key ` set xs \<Longrightarrow> filter (\<lambda>x. key x \<noteq> k) xs = xs"
  by (induction xs) auto

lemma to_front_bytes:
  "distinct (map eiKey items) \<Longrightarrow> item_of k items = Some old \<Longrightarrow> eiKey i = k \<Longrightarrow>
   held_bytes (to_front i items) = held_bytes items - item_size old + item_size i"
proof (induction items)
  case (Cons j items)
  show ?case
  proof (cases "eiKey j = k")
    case True
    then have "filter (\<lambda>j. eiKey j \<noteq> k) items = items" using Cons.prems(1) by (auto intro!: filter_key_absent)
    then show ?thesis using True Cons.prems by (simp add: item_of_def to_front_def held_bytes_def)
  next
    case False
    then show ?thesis using Cons by (auto simp: item_of_def to_front_def held_bytes_def)
  qed
qed (simp add: item_of_def)

lemma to_front_distinct: "distinct (map eiKey items) \<Longrightarrow> distinct (map eiKey (to_front i items))"
  by (auto simp: to_front_def distinct_map_filter)

lemma item_of_in: "item_of k items = Some i \<Longrightarrow> i \<in> set items \<and> eiKey i = k"
  by (auto simp: item_of_def dest!: find_Some_P)

lemma item_of_None: "item_of k items = None \<longleftrightarrow> k \<notin> eiKey ` set items"
  by (auto simp: item_of_def find_None_iff)

lemma getMemory_sound:
  assumes "getMemory k s = (r, s')" "mem_sound s"
  shows "mem_sound s'" "mem_bounded s \<Longrightarrow> mem_bounded s'" "set (esOrder s') = set (esOrder s)"
proof -
  have "mem_sound s' \<and> (mem_bounded s \<longrightarrow> mem_bounded s') \<and> set (esOrder s') = set (esOrder s)"
  proof (cases "item_of k (esOrder s)")
    case None
    then show ?thesis using assms by (simp add: getMemory_def)
  next
    case (Some i)
    have i: "i \<in> set (esOrder s)" "eiKey i = k" using item_of_in[OF Some] by auto
    have d: "distinct (map eiKey (esOrder s))" "esBytes s = held_bytes (esOrder s)" "0 \<le> esMaxBytes s"
      using assms(2) by (auto simp: mem_sound_def)
    have s': "s' = s\<lparr>esOrder := to_front i (esOrder s)\<rparr>" using assms(1) Some by (simp add: getMemory_def)
    have set: "set (to_front i (esOrder s)) = set (esOrder s)"
      using i d(1) by (auto simp: to_front_def distinct_map dest: inj_onD)
    have "length (to_front i (esOrder s)) \<le> length (esOrder s)"
      using length_filter_less[of i "esOrder s" "\<lambda>j. eiKey j \<noteq> k"] i by (simp add: to_front_def)
    then show ?thesis
      using to_front_bytes[OF d(1) Some i(2)] to_front_distinct[OF d(1), of i] d set
      by (simp add: s' mem_sound_def mem_bounded_def)
  qed
  then show "mem_sound s'" "mem_bounded s \<Longrightarrow> mem_bounded s'" "set (esOrder s') = set (esOrder s)" by auto
qed

lemma putMemory_sound: "mem_sound s \<Longrightarrow> mem_sound (putMemory k v t s) \<and> mem_bounded (putMemory k v t s)"
proof -
  let ?i = "\<lparr>eiKey = k, eiResp = v, eiTouchedAt = t\<rparr>"
  assume s: "mem_sound s"
  have "mem_sound (case item_of k (esOrder s) of
           Some old \<Rightarrow> s\<lparr>esBytes := esBytes s + (item_size ?i - item_size old), esOrder := to_front ?i (esOrder s)\<rparr>
         | None \<Rightarrow> s\<lparr>esOrder := ?i # esOrder s, esBytes := esBytes s + item_size ?i\<rparr>)"
  proof (cases "item_of k (esOrder s)")
    case None
    then have "k \<notin> eiKey ` set (esOrder s)" by (simp add: item_of_None)
    then show ?thesis using s by (simp add: None mem_sound_def held_bytes_def)
  next
    case (Some old)
    have d: "distinct (map eiKey (esOrder s))" using s by (simp add: mem_sound_def)
    show ?thesis using s to_front_bytes[OF d Some, of ?i] to_front_distinct[OF d, of ?i] Some by (simp add: mem_sound_def)
  qed
  then show ?thesis unfolding putMemory_def Let_def by (rule evictItems_sound)
qed

lemma putMemory_items: "set (esOrder (putMemory k v t s)) \<subseteq> insert \<lparr>eiKey = k, eiResp = v, eiTouchedAt = t\<rparr> (set (esOrder s))"
proof -
  have "set (esOrder (evictItems s')) \<subseteq> set (esOrder s')" for s'
    using evictItems_prefix[of s'] by (metis etag_store.select_convs(4) etag_store.simps(8) set_take_subset etag_store.surjective etag_store.update_convs(3,4))
  then show ?thesis unfolding putMemory_def Let_def
    by (rule order_trans) (auto simp: to_front_def split: option.split)
qed

section \<open>The table's total\<close>

lemma next_id_fresh: "r \<in> set rows \<Longrightarrow> erID r < next_id rows"
proof -
  have "m \<le> fold max xs m" "x \<in> set xs \<Longrightarrow> x \<le> fold max xs m" for m x :: int and xs
    by (induction xs arbitrary: m) (auto, (smt (verit) max_def)+)
  then show "r \<in> set rows \<Longrightarrow> ?thesis" by (fastforce simp: next_id_def)
qed

definition db_keys :: "etag_db \<Rightarrow> bool" where
  "db_keys s \<longleftrightarrow> distinct (map erID (edRows s)) \<and> distinct (map erKey (edRows s))"

lemma bytes_filter: "stored_bytes (filter P rows) + stored_bytes (filter (\<lambda>r. \<not> P r) rows) = stored_bytes rows"
  by (induction rows) (auto simp: stored_bytes_def)

lemma bytes_nonneg: "0 \<le> stored_bytes rows"
  unfolding stored_bytes_def body_size_def by (induction rows) auto

lemma bytes_mset: "mset xs = mset ys \<Longrightarrow> stored_bytes xs = stored_bytes ys"
  unfolding stored_bytes_def by (metis mset_map sum_mset_sum_list)

lemma evictWalk_split:
  "evictWalk limit t rs = (gone, t') \<Longrightarrow> \<exists>n. gone = take n rs \<and> t' = t - stored_bytes gone \<and> (gone = rs \<or> t' \<le> limit)"
proof (induction rs arbitrary: t gone t')
  case (Cons r rs)
  show ?case
  proof (cases "t > limit")
    case True
    then obtain g where g: "evictWalk limit (t - body_size r) rs = (g, t')" "gone = r # g"
      using Cons.prems by (auto simp: Let_def split: prod.splits)
    then obtain n where "g = take n rs" "t' = t - body_size r - stored_bytes g" "g = rs \<or> t' \<le> limit"
      using Cons.IH by blast
    then show ?thesis using g(2) by (intro exI[of _ "Suc n"]) (auto simp: stored_bytes_def)
  next
    case False
    then show ?thesis using Cons.prems by (intro exI[of _ 0]) (auto simp: stored_bytes_def)
  qed
qed (simp add: stored_bytes_def)

lemma delete_bytes:
  assumes "distinct (map erID rows)" "set gone \<subseteq> set rows" "distinct gone"
  shows "stored_bytes (delete_rows gone rows) = stored_bytes rows - stored_bytes gone"
proof -
  have in_gone: "List.member (map erID gone) (erID r) \<longleftrightarrow> r \<in> set gone" if "r \<in> set rows" for r
  proof
    assume "List.member (map erID gone) (erID r)"
    then obtain g where g: "g \<in> set gone" "erID g = erID r" by auto
    then have "g = r" using assms(1,2) that by (metis distinct_map inj_onD subsetD)
    then show "r \<in> set gone" using g(1) by simp
  qed simp
  have split: "filter (\<lambda>r. List.member (map erID gone) (erID r)) rows = filter (\<lambda>r. r \<in> set gone) rows"
    by (rule filter_cong[OF refl]) (rule in_gone)
  have "mset (filter (\<lambda>r. r \<in> set gone) rows) = mset gone"
  proof (rule set_eq_iff_mset_eq_distinct[THEN iffD1])
    show "distinct (filter (\<lambda>r. r \<in> set gone) rows)" using assms(1) by (simp add: distinct_map)
    show "set (filter (\<lambda>r. r \<in> set gone) rows) = set gone" using assms(2) by auto
  qed (rule assms(3))
  then have "stored_bytes (filter (\<lambda>r. List.member (map erID gone) (erID r)) rows) = stored_bytes gone"
    unfolding split by (rule bytes_mset)
  then show ?thesis using bytes_filter[of "\<lambda>r. List.member (map erID gone) (erID r)" rows] unfolding delete_rows_def by linarith
qed

lemma sorted_rows: "set (sort_key erLastUsed rows) = set rows" "distinct rows \<Longrightarrow> distinct (sort_key erLastUsed rows)"
  "stored_bytes (sort_key erLastUsed rows) = stored_bytes rows"
  using bytes_mset[of "sort_key erLastUsed rows" rows] by simp_all

lemma evict_bytes:
  assumes "db_keys s" "evictETags fault s = (ok, s')"
  shows "db_keys s'" and "stored_bytes (edRows s) \<le> edBytes s \<Longrightarrow> stored_bytes (edRows s') \<le> edBytes s'"
    and "stored_bytes (edRows s) = edBytes s \<Longrightarrow> (\<And>n. fault \<noteq> Some (EvictFails n)) \<Longrightarrow> stored_bytes (edRows s') = edBytes s'"
    and "stored_bytes (edRows s) \<le> edBytes s \<Longrightarrow> ok \<Longrightarrow> stored_bytes (edRows s') \<le> etagCapBytes s" and "edCap s' = edCap s"
proof -
  let ?srt = "sort_key erLastUsed (edRows s)"
  obtain gone t where w: "evictWalk (etagCapBytes s) (edBytes s) ?srt = (gone, t)" by (metis prod.exhaust)
  obtain n where g: "gone = take n ?srt" "t = edBytes s - stored_bytes gone" "gone = ?srt \<or> t \<le> etagCapBytes s"
    using evictWalk_split[OF w] by blast
  have d: "distinct (map erID (edRows s))" "distinct (edRows s)" using assms(1) by (auto simp: db_keys_def distinct_map)
  have some: "set (take m gone) \<subseteq> set (edRows s)" "distinct (take m gone)" for m
    using sorted_rows(1,2)[of "edRows s"] d(2) g(1) by (auto dest: in_set_takeD)
  have part: "stored_bytes (delete_rows (take m gone) (edRows s)) = stored_bytes (edRows s) - stored_bytes (take m gone)" for m
    by (rule delete_bytes[OF d(1) some])
  have all: "stored_bytes (delete_rows gone (edRows s)) = stored_bytes (edRows s) - stored_bytes gone"
    using part[of "length gone"] by simp
  have keys: "db_keys (s\<lparr>edRows := delete_rows xs (edRows s), edBytes := b\<rparr>)" for xs b
    using assms(1) by (simp add: db_keys_def delete_rows_def distinct_map_filter)
  have keys': "db_keys (s\<lparr>edRows := delete_rows xs (edRows s)\<rparr>)" for xs
    using assms(1) by (simp add: db_keys_def delete_rows_def distinct_map_filter)
  have cap: "0 < etagCapBytes s" by (simp add: etagCapBytes_def defaultETagCapBytes_def)
  consider (fits) "edBytes s \<le> etagCapBytes s" "ok" "s' = s" | (nolist) "\<not> ok" "s' = s"
    | (partly) m where "\<not> ok" "fault = Some (EvictFails m)" "s' = s\<lparr>edRows := delete_rows (take m gone) (edRows s)\<rparr>"
    | (full) "ok" "s' = s\<lparr>edRows := delete_rows gone (edRows s), edBytes := t\<rparr>"
    using assms(2) w by (auto simp: evictETags_def split: if_splits option.splits db_fault.splits)
  note cases = this
  show "db_keys s'" using cases by cases (use assms(1) keys keys' in simp_all)
  show "stored_bytes (edRows s') \<le> edBytes s'" if "stored_bytes (edRows s) \<le> edBytes s"
    using cases by cases (use that part all g(2) bytes_nonneg in \<open>auto intro: order_trans[rotated]\<close>)
  show "stored_bytes (edRows s') = edBytes s'" if "stored_bytes (edRows s) = edBytes s" "\<And>n. fault \<noteq> Some (EvictFails n)"
    using cases by cases (use that all g(2) in simp_all)
  show "stored_bytes (edRows s') \<le> etagCapBytes s" if "stored_bytes (edRows s) \<le> edBytes s" "ok"
    using cases
  proof cases
    case full
    have "stored_bytes (edRows s') = stored_bytes (edRows s) - stored_bytes gone" using full all by simp
    then show ?thesis using g that(1) cap sorted_rows(3)[of "edRows s"] by auto
  qed (use that in auto)
  show "edCap s' = edCap s" using cases by cases simp_all
qed

definition old_size :: "etag_key \<Rightarrow> etag_db \<Rightarrow> int" where
  "old_size k s = (case row_of k s of None \<Rightarrow> 0 | Some r \<Rightarrow> body_size r)"

lemma row_of_facts:
  "row_of k s = None \<longleftrightarrow> k \<notin> erKey ` set (edRows s)"
  "row_of k s = Some r \<Longrightarrow> r \<in> set (edRows s) \<and> erKey r = k"
  by (auto simp: row_of_def find_None_iff dest!: find_Some_P)

lemma upsert_absent: "k \<notin> erKey ` set rows \<Longrightarrow> upsert now k v rows = rows @ [\<lparr>erID = next_id rows, erKey = k, erAnswer = v, erLastUsed = now\<rparr>]"
  by (auto simp: upsert_def list_ex_iff)

lemma upsert_present: "k \<in> erKey ` set rows \<Longrightarrow>
    upsert now k v rows = map (\<lambda>r. if erKey r = k then r\<lparr>erAnswer := v, erLastUsed := now\<rparr> else r) rows"
  by (auto simp: upsert_def list_ex_iff)

lemma upsert_keys:
  assumes "distinct (map erID rows)" "distinct (map erKey rows)"
  shows "distinct (map erID (upsert now k v rows))" "distinct (map erKey (upsert now k v rows))"
proof -
  have "map erID (map (\<lambda>r. if erKey r = k then r\<lparr>erAnswer := v, erLastUsed := now\<rparr> else r) rows) = map erID rows"
    "map erKey (map (\<lambda>r. if erKey r = k then r\<lparr>erAnswer := v, erLastUsed := now\<rparr> else r) rows) = map erKey rows"
    by (induction rows) auto
  note same = this
  have "next_id rows \<notin> erID ` set rows" using next_id_fresh by fastforce
  note fresh = this
  show "distinct (map erID (upsert now k v rows))"
  proof (cases "k \<in> erKey ` set rows")
    case True
    then show ?thesis unfolding upsert_present[OF True] same by (intro assms(1))
  next
    case False
    then show ?thesis unfolding upsert_absent[OF False] using fresh assms(1) by simp
  qed
  show "distinct (map erKey (upsert now k v rows))"
  proof (cases "k \<in> erKey ` set rows")
    case True
    then show ?thesis unfolding upsert_present[OF True] same by (intro assms(2))
  next
    case False
    then show ?thesis unfolding upsert_absent[OF False] using False assms(2) by simp
  qed
qed

lemma upsert_bytes:
  assumes "distinct (map erKey (edRows s))"
  shows "stored_bytes (upsert now k v (edRows s)) = stored_bytes (edRows s) + (int (length (caBody v)) - old_size k s)"
proof (cases "k \<in> erKey ` set (edRows s)")
  case False
  then have "row_of k s = None" by (simp add: row_of_facts)
  then show ?thesis using upsert_absent[OF False] by (simp add: old_size_def stored_bytes_def body_size_def)
next
  case True
  have "stored_bytes (map (\<lambda>r. if erKey r = k then r\<lparr>erAnswer := v, erLastUsed := now\<rparr> else r) rows)
      = stored_bytes rows + (case find (\<lambda>r. erKey r = k) rows of None \<Rightarrow> 0 | Some r \<Rightarrow> int (length (caBody v)) - body_size r)"
    if "distinct (map erKey rows)" for rows
    using that
  proof (induction rows)
    case (Cons r rows)
    show ?case
    proof (cases "erKey r = k")
      case True
      then have "map (\<lambda>r. if erKey r = k then r\<lparr>erAnswer := v, erLastUsed := now\<rparr> else r) rows = rows"
        using Cons.prems by (intro map_idI) (metis distinct.simps(2) imageI list.set_map list.simps(9))
      then show ?thesis using True by (simp add: stored_bytes_def body_size_def)
    next
      case False
      then show ?thesis using Cons by (auto simp: stored_bytes_def split: option.splits)
    qed
  qed (simp add: stored_bytes_def)
  from this[OF assms] show ?thesis unfolding upsert_present[OF True]
    using row_of_facts(1)[of k s] True by (auto simp: old_size_def row_of_def split: option.splits)
qed

lemma drop_bytes:
  assumes "distinct (map erKey (edRows s))"
  shows "stored_bytes (filter (\<lambda>r. erKey r \<noteq> k) (edRows s)) = stored_bytes (edRows s) - old_size k s"
proof -
  have "stored_bytes (filter (\<lambda>r. erKey r \<noteq> k) rows) = stored_bytes rows - (case find (\<lambda>r. erKey r = k) rows of None \<Rightarrow> 0 | Some r \<Rightarrow> body_size r)"
    if "distinct (map erKey rows)" for rows
    using that
  proof (induction rows)
    case (Cons r rows)
    then show ?case
      using filter_key_absent[of k erKey rows] by (cases "erKey r = k") (auto simp: stored_bytes_def)
  qed (simp add: stored_bytes_def)
  from this[OF assms] show ?thesis by (simp add: old_size_def row_of_def)
qed

lemma save_bytes:
  assumes keys: "db_keys s" and save: "SaveETag now fault k v s = (ok, s')"
  shows "db_keys s'" and "stored_bytes (edRows s) \<le> edBytes s \<Longrightarrow> stored_bytes (edRows s') \<le> edBytes s'"
    and "stored_bytes (edRows s) = edBytes s \<Longrightarrow> (\<And>n. fault \<noteq> Some (EvictFails n)) \<Longrightarrow> stored_bytes (edRows s') = edBytes s'"
    and "stored_bytes (edRows s) \<le> edBytes s \<Longrightarrow> ok \<Longrightarrow> int (length (caBody v)) \<le> etagCapBytes s \<Longrightarrow>
           stored_bytes (edRows s') \<le> etagCapBytes s"
    and "edCap s' = edCap s"
proof -
  let ?up = "s\<lparr>edRows := upsert now k v (edRows s), edBytes := edBytes s + (int (length (caBody v)) - old_size k s)\<rparr>"
  let ?drop = "s\<lparr>edRows := filter (\<lambda>r. erKey r \<noteq> k) (edRows s), edBytes := edBytes s - old_size k s\<rparr>"
  have d: "distinct (map erKey (edRows s))" "distinct (map erID (edRows s))" using keys by (auto simp: db_keys_def)
  have up: "db_keys ?up" "stored_bytes (edRows ?up) - edBytes ?up = stored_bytes (edRows s) - edBytes s"
    using upsert_keys[OF d(2,1)] upsert_bytes[OF d(1)] by (simp_all add: db_keys_def)
  have drop: "db_keys ?drop" "stored_bytes (edRows ?drop) - edBytes ?drop = stored_bytes (edRows s) - edBytes s"
    using d drop_bytes[OF d(1), of k] by (simp_all add: db_keys_def distinct_map_filter)
  have cap: "etagCapBytes ?up = etagCapBytes s" by (simp add: etagCapBytes_def)
  consider (same) "s' = s" "ok \<Longrightarrow> int (length (caBody v)) > etagCapBytes s"
    | (dropped) "s' = ?drop" "int (length (caBody v)) > etagCapBytes s"
    | (stored) "evictETags fault ?up = (ok, s')"
    using save by (auto simp: SaveETag_def Let_def old_size_def split: if_splits)
  note cases = this
  show "db_keys s'" using cases by cases (use keys drop evict_bytes(1)[OF up(1)] in auto)
  show "stored_bytes (edRows s') \<le> edBytes s'" if "stored_bytes (edRows s) \<le> edBytes s"
    using cases by cases (use that drop up(2) evict_bytes(2)[OF up(1)] in auto)
  show "stored_bytes (edRows s') = edBytes s'" if "stored_bytes (edRows s) = edBytes s" "\<And>n. fault \<noteq> Some (EvictFails n)"
    using cases by cases (use that drop up(2) evict_bytes(3)[OF up(1)] in auto)
  show "stored_bytes (edRows s') \<le> etagCapBytes s"
    if "stored_bytes (edRows s) \<le> edBytes s" "ok" "int (length (caBody v)) \<le> etagCapBytes s"
    using cases by cases (use that up(2) cap evict_bytes(4)[OF up(1)] in auto)
  show "edCap s' = edCap s" using cases by cases (use evict_bytes(5)[OF up(1)] in auto)
qed

text \<open>A life of the table: saves, touches and changes of the cap, and a restart that measures it again.\<close>

datatype etag_op = OpSave time "db_fault option" etag_key cached_response | OpTouch time bool etag_key | OpCap int | OpRestart

definition etag_step :: "etag_op \<Rightarrow> etag_db \<Rightarrow> etag_db" where
  "etag_step e s = (case e of OpSave now fault k v \<Rightarrow> snd (SaveETag now fault k v s) | OpTouch now works k \<Rightarrow> TouchETag now works k s
     | OpCap b \<Rightarrow> SetETagCap b s | OpRestart \<Rightarrow> loadETagBytes s)"

definition empty_etags :: "int \<Rightarrow> etag_db" where "empty_etags cap = \<lparr>edRows = [], edBytes = 0, edCap = cap\<rparr>"

definition evict_failed :: "etag_op \<Rightarrow> bool" where
  "evict_failed e = (case e of OpSave _ (Some (EvictFails _)) _ _ \<Rightarrow> True | _ \<Rightarrow> False)"

lemma touch_rows: "db_keys s \<Longrightarrow> db_keys (TouchETag now works k s)" "stored_bytes (edRows (TouchETag now works k s)) = stored_bytes (edRows s)"
  "edBytes (TouchETag now works k s) = edBytes s"
proof -
  have "map g (map (\<lambda>r. if erKey r = k then r\<lparr>erLastUsed := now\<rparr> else r) rows) = map g rows"
    if "\<And>r. g (r\<lparr>erLastUsed := now\<rparr>) = g r" for g :: "etag_row \<Rightarrow> 'x" and rows
    using that by simp
  note m = this[of erID] this[of erKey] this[of body_size]
  show "db_keys s \<Longrightarrow> db_keys (TouchETag now works k s)" "stored_bytes (edRows (TouchETag now works k s)) = stored_bytes (edRows s)"
    "edBytes (TouchETag now works k s) = edBytes s"
    by (auto simp: TouchETag_def db_keys_def stored_bytes_def body_size_def m simp del: map_map)
qed

lemma etag_step_simps:
  "etag_step (OpSave now fault k v) s = snd (SaveETag now fault k v s)" "etag_step (OpTouch now works k) s = TouchETag now works k s"
  "etag_step (OpCap b) s = SetETagCap b s" "etag_step OpRestart s = loadETagBytes s"
  "evict_failed (OpSave now fault k v) \<longleftrightarrow> (\<exists>n. fault = Some (EvictFails n))"
  "\<not> evict_failed (OpTouch now works k)" "\<not> evict_failed (OpCap b)" "\<not> evict_failed OpRestart"
  by (auto simp: etag_step_def evict_failed_def split: option.splits db_fault.splits)

lemma life_total:
  "db_keys (fold etag_step es (empty_etags cap)) \<and> stored_bytes (edRows (fold etag_step es (empty_etags cap))) \<le> edBytes (fold etag_step es (empty_etags cap))
   \<and> (list_all (\<lambda>e. \<not> evict_failed e) es \<longrightarrow>
        stored_bytes (edRows (fold etag_step es (empty_etags cap))) = edBytes (fold etag_step es (empty_etags cap)))"
proof (induction es rule: rev_induct)
  case Nil
  show ?case by (simp add: empty_etags_def db_keys_def stored_bytes_def)
next
  case (snoc e es)
  let ?s = "fold etag_step es (empty_etags cap)"
  have s: "db_keys ?s" "stored_bytes (edRows ?s) \<le> edBytes ?s"
    "list_all (\<lambda>e. \<not> evict_failed e) es \<Longrightarrow> stored_bytes (edRows ?s) = edBytes ?s" using snoc.IH by auto
  have save: "db_keys (snd (SaveETag now fault k v ?s)) \<and> stored_bytes (edRows (snd (SaveETag now fault k v ?s))) \<le> edBytes (snd (SaveETag now fault k v ?s))"
    "stored_bytes (edRows ?s) = edBytes ?s \<Longrightarrow> (\<And>n. fault \<noteq> Some (EvictFails n)) \<Longrightarrow>
       stored_bytes (edRows (snd (SaveETag now fault k v ?s))) = edBytes (snd (SaveETag now fault k v ?s))" for now fault k v
    using save_bytes(1,2,3)[OF s(1), where now = now and fault = fault and k = k and v = v] s(2) by (metis prod.collapse)+
  show ?case
  proof (cases e)
    case (OpSave now fault k v)
    then show ?thesis using save[where now = now and fault = fault and k = k and v = v] s(3) by (simp add: etag_step_simps)
  next
    case (OpTouch now works k)
    then show ?thesis using s touch_rows[where s = "?s" and now = now and works = works and k = k] by (simp add: etag_step_simps)
  next
    case (OpCap b)
    then show ?thesis using s by (simp add: etag_step_simps SetETagCap_def db_keys_def)
  next
    case OpRestart
    then show ?thesis using s by (simp add: etag_step_simps loadETagBytes_def db_keys_def)
  qed
qed

text \<open>
  The table of conditional answers keeps to its cap. Whatever calls came before, with any statement of
  theirs refused by the database, a save that works leaves bodies of at most the cap in all; the running
  total is never under what is stored, and is exact as long as no eviction broke off halfway.
\<close>

theorem etag_cap_kept:
  assumes "s = fold etag_step es (empty_etags cap)"
  shows "stored_bytes (edRows s) \<le> edBytes s \<and> (list_all (\<lambda>e. \<not> evict_failed e) es \<longrightarrow> stored_bytes (edRows s) = edBytes s)
    \<and> (SaveETag now fault k v s = (True, s') \<and> int (length (caBody v)) \<le> etagCapBytes s \<longrightarrow> stored_bytes (edRows s') \<le> etagCapBytes s)"
  using life_total[of es cap] save_bytes(4)[where s = s and k = k and v = v and s' = s' and ok = True] unfolding assms by auto

definition demo_key :: "string \<Rightarrow> etag_key" where
  "demo_key url = \<lparr>ekForge = ''github'', ekCredential = ''c'', ekURL = url, ekAccept = ''''\<rparr>"

definition demo_answer :: "string \<Rightarrow> string \<Rightarrow> cached_response" where
  "demo_answer tag body = \<lparr>caETag = tag, caBody = body, caHeader = Map.empty\<rparr>"

lemmas etag_eval = etag_step_simps SaveETag_def evictETags_def row_of_def upsert_def next_id_def delete_rows_def etagCapBytes_def
  defaultETagCapBytes_def body_size_def stored_bytes_def empty_etags_def demo_key_def demo_answer_def

lemma etag_cap_kept_witness:
  "stored_bytes (edRows (snd (SaveETag 2 None (demo_key ''b'') (demo_answer ''2'' ''xyz'')
     (fold etag_step [OpSave 1 None (demo_key ''a'') (demo_answer ''1'' ''xy'')] (empty_etags 4))))) \<le> 4"
  using etag_cap_kept[of _ "[OpSave 1 None (demo_key ''a'') (demo_answer ''1'' ''xy'')]" 4 2 None "demo_key ''b''" "demo_answer ''2'' ''xyz''", OF refl]
  by (simp add: etag_eval)

text \<open>A delete that fails halfway through an eviction leaves the total over what is stored, and it stays so: an answer that
  fits the cap by itself is evicted by its own save, every time, until the process restarts.\<close>

definition drifted :: etag_db where
  "drifted = fold etag_step [OpSave 1 None (demo_key ''a'') (demo_answer ''1'' ''xy''), OpSave 2 None (demo_key ''b'') (demo_answer ''2'' ''xy''),
     OpSave 3 (Some (EvictFails 1)) (demo_key ''c'') (demo_answer ''3'' ''wxyz'')] (empty_etags 4)"

lemma failed_eviction_drifts:
  "stored_bytes (edRows drifted) = 6" "edBytes drifted = 8"
  "SaveETag 4 None (demo_key ''c'') (demo_answer ''3'' ''wxyz'') drifted = (True, \<lparr>edRows = [], edBytes = 2, edCap = 4\<rparr>)"
  by (simp_all add: drifted_def etag_eval)

section \<open>The cache is transparent\<close>

text \<open>What the store relies on in a backing: what it loads was saved under that key, whatever else was saved,
  touched or evicted in between. \<open>view\<close> is what the backing holds.\<close>

locale etag_backing =
  fixes ok :: "'b \<Rightarrow> bool" and view :: "'b \<Rightarrow> etag_key \<rightharpoonup> cached_response" and ops :: "'b backing"
  assumes load_held: "bkLoad ops k b = Some v \<Longrightarrow> view b k = Some v"
    and save_ok: "ok b \<Longrightarrow> ok (bkSave ops k v b)"
    and save_held: "ok b \<Longrightarrow> view (bkSave ops k v b) k' = Some w \<Longrightarrow> k' = k \<and> w = v \<or> view b k' = Some w"
    and touch_ok: "ok b \<Longrightarrow> ok (bkTouch ops k b)"
    and touch_held: "view (bkTouch ops k b) k' = view b k'"

definition holds_only :: "('b \<Rightarrow> bool) \<Rightarrow> ('b \<Rightarrow> etag_key \<rightharpoonup> cached_response) \<Rightarrow> (etag_key \<Rightarrow> cached_response \<Rightarrow> bool) \<Rightarrow>
    etag_store \<times> 'b option \<Rightarrow> bool" where
  "holds_only ok view Q = (\<lambda>(m, b). (\<forall>i\<in>set (esOrder m). Q (eiKey i) (eiResp i))
     \<and> (case b of None \<Rightarrow> True | Some b \<Rightarrow> ok b \<and> (\<forall>k v. view b k = Some v \<longrightarrow> Q k v)))"

lemma item_of_Some: "item_of k items = Some i \<Longrightarrow> i \<in> set items \<and> eiKey i = k"
  by (auto simp: item_of_def dest!: find_Some_P)

lemma getMemory_holds:
  assumes "getMemory k m = (r, m')" "\<forall>i\<in>set (esOrder m). Q (eiKey i) (eiResp i)"
  shows "(\<forall>i\<in>set (esOrder m'). Q (eiKey i) (eiResp i)) \<and> (\<forall>v. r = Some v \<longrightarrow> Q k v)"
proof (cases "item_of k (esOrder m)")
  case None
  then show ?thesis using assms by (simp add: getMemory_def)
next
  case (Some i)
  then have i: "i \<in> set (esOrder m)" "eiKey i = k" using item_of_Some by auto
  have "Q k (eiResp i)" using assms(2) i by blast
  moreover have "set (esOrder m') \<subseteq> set (esOrder m)" "r = Some (eiResp i)"
    using assms(1) i Some by (auto simp: getMemory_def to_front_def)
  ultimately show ?thesis using assms(2) by blast
qed

lemma putMemory_holds:
  assumes "\<forall>i\<in>set (esOrder m). Q (eiKey i) (eiResp i)" "Q k v"
  shows "\<forall>i\<in>set (esOrder (putMemory k v t m)). Q (eiKey i) (eiResp i)"
proof
  fix i assume "i \<in> set (esOrder (putMemory k v t m))"
  then have "i = \<lparr>eiKey = k, eiResp = v, eiTouchedAt = t\<rparr> \<or> i \<in> set (esOrder m)" using putMemory_items[of k v t m] by blast
  then show "Q (eiKey i) (eiResp i)" using assms by (elim disjE) simp_all
qed

context etag_backing
begin

lemma get_holds:
  assumes "store_get ops k s = (r, s')" "holds_only ok view Q s"
  shows "holds_only ok view Q s' \<and> (\<forall>v. r = Some v \<longrightarrow> Q k v)"
proof -
  obtain m b where s: "s = (m, b)" by (cases s)
  obtain r0 m' where g: "getMemory k m = (r0, m')" by (metis prod.exhaust)
  have q: "\<forall>i\<in>set (esOrder m). Q (eiKey i) (eiResp i)" using assms(2) by (simp add: s holds_only_def)
  note m' = getMemory_holds[OF g q]
  have l: "Q k v" if "store_load ops k b = Some v" for v
    using that assms(2) load_held by (auto simp: store_load_def s holds_only_def split: option.splits if_splits)
  show ?thesis
  proof (cases r0)
    case (Some v)
    then show ?thesis using assms m' by (auto simp: store_get_def s g holds_only_def)
  next
    case None
    then show ?thesis using assms m' l putMemory_holds[where m = m' and Q = Q and k = k and t = None]
      by (auto simp: store_get_def s g holds_only_def split: option.splits)
  qed
qed

lemma used_holds: "holds_only ok view Q s \<Longrightarrow> holds_only ok view Q (store_used now ops k s)"
  by (cases s) (auto simp: store_used_def holds_only_def touch_ok touch_held split: option.splits)

lemma put_holds: "holds_only ok view Q s \<Longrightarrow> Q k v \<Longrightarrow> holds_only ok view Q (store_put now ops k v s)"
proof -
  assume s: "holds_only ok view Q s" and q: "Q k v"
  obtain m b where mb: "s = (m, b)" by (cases s)
  have "\<forall>i\<in>set (esOrder (putMemory k v (Some now) m)). Q (eiKey i) (eiResp i)"
    using s q by (intro putMemory_holds) (simp_all add: mb holds_only_def)
  moreover have "ok (bkSave ops k v b') \<and> (\<forall>k' w. view (bkSave ops k v b') k' = Some w \<longrightarrow> Q k' w)" if "b = Some b'" for b'
  proof -
    have "ok b'" "\<forall>k v. view b' k = Some v \<longrightarrow> Q k v" using s by (simp_all add: mb holds_only_def that)
    then show ?thesis using q save_ok[of b' k v] save_held[of b' k v] by metis
  qed
  ultimately show ?thesis by (auto simp: mb store_put_def holds_only_def split: option.split)
qed

end

text \<open>What a caller reads of an answer. An origin answers a conditional request as it would the plain one, or with 304 when
  the plain answer carries the tag that was sent; a tag names one body of its resource (\<open>body_of\<close>), and
  a request without a condition is never answered 304.\<close>

definition told :: "string + http_response \<Rightarrow> string + int \<times> string \<times> bool" where
  "told r = map_sum id (\<lambda>resp. (hrStatus resp, hrBody resp, hrBodyFails resp)) r"

definition origin_ok :: "string \<Rightarrow> (etag_key \<Rightarrow> string \<Rightarrow> string) \<Rightarrow> (http_request \<Rightarrow> string + http_response) \<Rightarrow> bool" where
  "origin_ok credential body_of base \<longleftrightarrow> (\<forall>req. hqIfNoneMatch req = None \<longrightarrow>
     (\<forall>resp. base req = Inr resp \<longrightarrow> hrStatus resp \<noteq> 304 \<and>
        (hrStatus resp = 200 \<and> header_get (hrHeader resp) ''Etag'' \<noteq> '''' \<and> \<not> hrBodyFails resp \<longrightarrow>
         hrBody resp = body_of (requestKey credential req) (header_get (hrHeader resp) ''Etag''))) \<and>
     (\<forall>tag. base (req\<lparr>hqIfNoneMatch := Some tag\<rparr>) = base req \<or>
        (\<exists>resp fresh. base req = Inr resp \<and> hrStatus resp = 200 \<and> header_get (hrHeader resp) ''Etag'' = tag \<and> \<not> hrBodyFails resp
           \<and> base (req\<lparr>hqIfNoneMatch := Some tag\<rparr>) = Inr fresh \<and> hrStatus fresh = 304)))"

definition true_answer :: "(etag_key \<Rightarrow> string \<Rightarrow> string) \<Rightarrow> etag_key \<Rightarrow> cached_response \<Rightarrow> bool" where
  "true_answer body_of k v \<longleftrightarrow> caETag v \<noteq> '''' \<and> caBody v = body_of k (caETag v)"

lemma cached_answer:
  assumes o: "origin_ok credential body_of base" and req: "hqIfNoneMatch req = None"
    and v: "true_answer body_of (requestKey credential req) v"
    and resp: "base (req\<lparr>hqIfNoneMatch := Some (caETag v)\<rparr>) = Inr resp"
  shows "if hrStatus resp = 304 then told (base req) = Inr (200, caBody v, False) else base req = Inr resp"
proof -
  have p: "\<And>r. base req = Inr r \<Longrightarrow> hrStatus r \<noteq> 304"
    "\<And>r. base req = Inr r \<Longrightarrow> hrStatus r = 200 \<Longrightarrow> header_get (hrHeader r) ''Etag'' \<noteq> '''' \<Longrightarrow> \<not> hrBodyFails r \<Longrightarrow>
       hrBody r = body_of (requestKey credential req) (header_get (hrHeader r) ''Etag'')"
    using o req unfolding origin_ok_def by blast+
  have "base (req\<lparr>hqIfNoneMatch := Some (caETag v)\<rparr>) = base req \<or>
        (\<exists>r fresh. base req = Inr r \<and> hrStatus r = 200 \<and> header_get (hrHeader r) ''Etag'' = caETag v \<and> \<not> hrBodyFails r
           \<and> base (req\<lparr>hqIfNoneMatch := Some (caETag v)\<rparr>) = Inr fresh \<and> hrStatus fresh = 304)"
    using o req unfolding origin_ok_def by blast
  then show ?thesis
  proof
    assume "base (req\<lparr>hqIfNoneMatch := Some (caETag v)\<rparr>) = base req"
    then show ?thesis using resp p(1)[of resp] by simp
  next
    assume "\<exists>r fresh. base req = Inr r \<and> hrStatus r = 200 \<and> header_get (hrHeader r) ''Etag'' = caETag v \<and> \<not> hrBodyFails r
           \<and> base (req\<lparr>hqIfNoneMatch := Some (caETag v)\<rparr>) = Inr fresh \<and> hrStatus fresh = 304"
    then obtain r where r: "base req = Inr r" "hrStatus r = 200" "header_get (hrHeader r) ''Etag'' = caETag v" "\<not> hrBodyFails r" "hrStatus resp = 304"
      using resp by auto
    then have "hrBody r = caBody v" using p(2)[of r] v by (simp add: true_answer_def)
    then show ?thesis using r by (simp add: told_def)
  qed
qed

context etag_backing
begin

lemma cache_holds:
  assumes o: "origin_ok credential body_of base" and req: "hqIfNoneMatch req = None" and resp: "base req = Inr resp" "hrStatus resp = 200"
    and s: "holds_only ok view (true_answer body_of) s"
  shows "holds_only ok view (true_answer body_of) (maybeCache now ops (requestKey credential req) resp s)"
proof -
  let ?e = "header_get (hrHeader resp) ''Etag''"
  have "?e \<noteq> '''' \<Longrightarrow> \<not> hrBodyFails resp \<Longrightarrow> hrBody resp = body_of (requestKey credential req) ?e"
    using o req resp unfolding origin_ok_def by blast
  then show ?thesis using s by (auto simp: maybeCache_def Let_def true_answer_def intro!: put_holds)
qed

lemma round_trip:
  assumes o: "origin_ok credential body_of base" and req: "hqIfNoneMatch req = None"
    and s: "holds_only ok view (true_answer body_of) s" and call: "RoundTrip now ops credential base req s = (r, s')"
  shows "told r = told (base req) \<and> holds_only ok view (true_answer body_of) s'"
proof (cases "hqMethod req = ''GET''")
  case False
  then show ?thesis using call s by (simp add: RoundTrip_def)
next
  case True
  let ?k = "requestKey credential req"
  obtain cached s1 where g: "store_get ops ?k s = (cached, s1)" by (metis prod.exhaust)
  have s1: "holds_only ok view (true_answer body_of) s1" "\<And>v. cached = Some v \<Longrightarrow> true_answer body_of ?k v"
    using get_holds[OF g s] by auto
  note keep = cache_holds[OF o req _ _ s1(1)]
  show ?thesis
  proof (cases cached)
    case None
    then show ?thesis using call True g s1(1) keep
      by (auto simp: RoundTrip_def Let_def split: sum.splits if_splits)
  next
    case (Some v)
    show ?thesis
    proof (cases "base (req\<lparr>hqIfNoneMatch := Some (caETag v)\<rparr>)")
      case (Inl e)
      have "base req = Inl e"
        using o req Inl unfolding origin_ok_def by (metis Inl_Inr_False)
      then show ?thesis using call True g Some Inl s1(1) by (simp add: RoundTrip_def Let_def)
    next
      case (Inr resp)
      note a = cached_answer[OF o req s1(2)[OF Some] Inr]
      show ?thesis
      proof (cases "hrStatus resp = 304")
        case True
        then show ?thesis using call \<open>hqMethod req = ''GET''\<close> g Some Inr a used_holds[OF s1(1)]
          by (auto simp: RoundTrip_def Let_def told_def servedFromCache_def)
      next
        case False
        then have b: "base req = Inr resp" using a by simp
        have "r = Inr resp \<and> s' = (if hrStatus resp = 200 then maybeCache now ops ?k resp s1 else s1)"
          using call \<open>hqMethod req = ''GET''\<close> g Some Inr False by (auto simp: RoundTrip_def Let_def split: if_splits)
        then show ?thesis using b keep[OF b] s1(1) by simp
      qed
    qed
  qed
qed

end


text \<open>The table as a backing. \<open>works\<close> is whether its reads and touches succeed, \<open>fault\<close> what a save runs into.\<close>

definition table_view :: "etag_db \<Rightarrow> etag_key \<rightharpoonup> cached_response" where
  "table_view s k = map_option erAnswer (row_of k s)"

definition table_backing :: "time \<Rightarrow> bool \<Rightarrow> db_fault option \<Rightarrow> etag_db backing" where
  "table_backing now works fault = \<lparr>bkLoad = LoadETag works, bkSave = (\<lambda>k v s. snd (SaveETag now fault k v s)), bkTouch = TouchETag now works\<rparr>"

lemma table_view_iff: "db_keys s \<Longrightarrow> table_view s k = Some v \<longleftrightarrow> (\<exists>r\<in>set (edRows s). erKey r = k \<and> erAnswer r = v)"
proof -
  assume d: "db_keys s"
  have "find (\<lambda>r. erKey r = k) rows = Some r \<longleftrightarrow> r \<in> set rows \<and> erKey r = k" if "distinct (map erKey rows)" for rows r
    using that by (induction rows) (auto dest: imageI[of _ _ erKey])
  from this[of "edRows s"] d show ?thesis by (auto simp: table_view_def row_of_def db_keys_def)
qed

lemma delete_rows_subset: "set (delete_rows gone rows) \<subseteq> set rows"
  by (auto simp: delete_rows_def)

lemma save_rows:
  assumes "SaveETag now fault k v s = (ok, s')" "r \<in> set (edRows s')"
  shows "r \<in> set (edRows s) \<or> erKey r = k \<and> erAnswer r = v"
proof -
  have evict: "r \<in> set (edRows s0)" if "evictETags fault s0 = (ok, s')" for s0
    using that assms(2) by (auto simp: evictETags_def delete_rows_def split: if_splits option.splits db_fault.splits prod.splits)
  have up: "r \<in> set rows \<or> erKey r = k \<and> erAnswer r = v" if "r \<in> set (upsert now k v rows)" for rows
    using that by (auto simp: upsert_def split: if_splits)
  show ?thesis using assms
    by (auto simp: SaveETag_def Let_def split: if_splits dest!: evict dest: up)
qed

interpretation etag_table: etag_backing db_keys table_view "table_backing now works fault" for now works fault
proof
  show "table_view b k = Some v" if "bkLoad (table_backing now works fault) k b = Some v" for k b v
    using that by (simp add: table_backing_def LoadETag_def table_view_def split: if_splits)
  show ok: "db_keys (bkSave (table_backing now works fault) k v b)" if "db_keys b" for b k v
    using save_bytes(1)[OF that, of now fault k v] by (cases "SaveETag now fault k v b") (simp add: table_backing_def)
  show "k' = k \<and> w = v \<or> table_view b k' = Some w"
    if "db_keys b" "table_view (bkSave (table_backing now works fault) k v b) k' = Some w" for b k v k' w
  proof -
    obtain r where r: "r \<in> set (edRows (snd (SaveETag now fault k v b)))" "erKey r = k'" "erAnswer r = w"
      using \<open>table_view (bkSave (table_backing now works fault) k v b) k' = Some w\<close>
      unfolding table_view_iff[OF ok[OF \<open>db_keys b\<close>]] by (auto simp: table_backing_def)
    then show ?thesis using save_rows[of now fault k v b _ _ r] table_view_iff[OF \<open>db_keys b\<close>] by (metis prod.collapse)
  qed
  show "db_keys (bkTouch (table_backing now works fault) k b)" if "db_keys b" for b k
    using touch_rows(1)[OF that] by (simp add: table_backing_def)
  show "table_view (bkTouch (table_backing now works fault) k b) k' = table_view b k'" for k b k'
  proof -
    have "map_option erAnswer (find (\<lambda>r. erKey r = k') (map (\<lambda>r. if erKey r = k then r\<lparr>erLastUsed := now\<rparr> else r) rows))
        = map_option erAnswer (find (\<lambda>r. erKey r = k') rows)" for rows :: "etag_row list"
      by (induction rows) auto
    then show ?thesis by (simp add: table_backing_def TouchETag_def table_view_def row_of_def)
  qed
qed

text \<open>A life of the client: requests, each at its time, with the network and the database as they are just then, and restarts.\<close>

datatype etag_event = Call time bool "db_fault option" "http_request \<Rightarrow> string + http_response" http_request | Restart nat int

fun etag_life :: "string \<Rightarrow> etag_event list \<Rightarrow> etag_store \<times> etag_db option \<Rightarrow> (string + http_response) list" where
  "etag_life credential [] s = []"
| "etag_life credential (Call now works fault base req # es) s =
     (let (r, s') = RoundTrip now (table_backing now works fault) credential base req s in r # etag_life credential es s')"
| "etag_life credential (Restart maxEntries maxBytes # es) s =
     etag_life credential es (newETagStore maxEntries maxBytes, map_option loadETagBytes (snd s))"

fun uncached :: "etag_event list \<Rightarrow> (string + http_response) list" where
  "uncached [] = []"
| "uncached (Call now works fault base req # es) = base req # uncached es"
| "uncached (Restart maxEntries maxBytes # es) = uncached es"

fun call_ok :: "string \<Rightarrow> (etag_key \<Rightarrow> string \<Rightarrow> string) \<Rightarrow> etag_event \<Rightarrow> bool" where
  "call_ok credential body_of (Call now works fault base req) \<longleftrightarrow> origin_ok credential body_of base \<and> hqIfNoneMatch req = None"
| "call_ok credential body_of (Restart maxEntries maxBytes) \<longleftrightarrow> True"

lemma restart_holds: "holds_only db_keys table_view Q (m, b) \<Longrightarrow> holds_only db_keys table_view Q (newETagStore n l, map_option loadETagBytes b)"
  by (auto simp: holds_only_def newETagStore_def loadETagBytes_def db_keys_def table_view_def row_of_def split: option.splits)

lemma life_told:
  "list_all (call_ok credential body_of) es \<Longrightarrow> holds_only db_keys table_view (true_answer body_of) s \<Longrightarrow>
   map told (etag_life credential es s) = map told (uncached es)"
proof (induction es arbitrary: s)
  case (Cons e es)
  show ?case
  proof (cases e)
    case (Call now works fault base req)
    obtain r s' where r: "RoundTrip now (table_backing now works fault) credential base req s = (r, s')" by (metis prod.exhaust)
    then have "told r = told (base req) \<and> holds_only db_keys table_view (true_answer body_of) s'"
      using Cons.prems by (intro etag_table.round_trip[OF _ _ _ r]) (auto simp: Call)
    then show ?thesis using Cons r by (simp add: Call)
  next
    case (Restart n l)
    obtain m b where "s = (m, b)" by (cases s)
    then show ?thesis using Cons restart_holds[of "true_answer body_of" m b n l] by (simp add: Restart)
  qed
qed simp

text \<open>
  C8: The cache of conditional requests is invisible. Over any life of the client, with restarts, a database that refuses
  statements and evicts when it likes, and an origin whose answers change, every request tells its caller
  the status and the body that a plain request would have told at that moment.
\<close>

theorem transparent_cache:
  assumes "list_all (call_ok credential body_of) es"
  shows "map told (etag_life credential es (newETagStore maxEntries maxBytes, Some (empty_etags cap))) = map told (uncached es)"
proof -
  have "holds_only db_keys table_view (true_answer body_of) (newETagStore maxEntries maxBytes, Some (empty_etags cap))"
    by (simp add: holds_only_def newETagStore_def empty_etags_def db_keys_def table_view_def row_of_def)
  then show ?thesis using life_told[OF assms] by blast
qed

definition demo_origin :: "string \<Rightarrow> http_request \<Rightarrow> string + http_response" where
  "demo_origin body req = Inr (let h = [''Etag'' \<mapsto> [body]] in
     if hqIfNoneMatch req = Some body then \<lparr>hrStatus = 304, hrHeader = h, hrBody = '''', hrBodyFails = False\<rparr>
     else \<lparr>hrStatus = 200, hrHeader = h, hrBody = body, hrBodyFails = False\<rparr>)"

definition demo_request :: http_request where
  "demo_request = \<lparr>hqMethod = ''GET'', hqURL = ''u'', hqAccept = '''', hqIfNoneMatch = None\<rparr>"

definition demo_life :: "etag_event list" where
  "demo_life = [Call 1 True None (demo_origin ''a'') demo_request, Call 2 True None (demo_origin ''a'') demo_request,
     Restart 5 50, Call 3 True None (demo_origin ''a'') demo_request, Call 4 True None (demo_origin ''b'') demo_request]"

lemma transparent_cache_witness:
  "map told (etag_life ''c'' demo_life (newETagStore 5 50, Some (empty_etags 90)))
   = [Inr (200, ''a'', False), Inr (200, ''a'', False), Inr (200, ''a'', False), Inr (200, ''b'', False)]"
proof -
  have "origin_ok ''c'' (\<lambda>k tag. tag) (demo_origin body)" if "body \<noteq> ''''" for body
    by (auto simp: origin_ok_def demo_origin_def Let_def header_get_def)
  then have "list_all (call_ok ''c'' (\<lambda>k tag. tag)) demo_life" by (simp add: demo_life_def demo_request_def)
  from transparent_cache[OF this, of 5 50 90] show ?thesis
    by (simp add: demo_life_def told_def demo_origin_def demo_request_def)
qed

end
