(* ===== verification/Migrations.thy ===== *)
theory Migrations
  imports FD_Prelude
begin

text \<open>
  The schema steps a start runs against the database (\<open>internal/dbmigrate\<close>). The tables' contents, of type
  \<open>'d\<close>, and what a step does to them are parameters; so is what SQLite says of foreign keys. The table
  \<open>schema_version\<close> is kept apart from the others: absent, or its rows. Each statement that can fail has a name, and an
  environment says which fail this time.
\<close>

section \<open>State\<close>

datatype mig_error =
    ErrNewerDatabase nat nat
  | ErrDanglingForeignKey
  | SqlError string
  | StepError string mig_error
  | RollbackFailed mig_error

text \<open>What is asked of SQLite about the tables: their names, the keys of a table that dangle, the tables that refer to one.\<close>

record 'd sqlite =
  sqTables :: "'d \<Rightarrow> string list"
  sqViolations :: "'d \<Rightarrow> string \<Rightarrow> nat"
  sqReferencing :: "'d \<Rightarrow> string \<Rightarrow> string list"

record 'd mig_step =
  stName :: string
  stTables :: "string list"
  stPreflight :: "('d \<Rightarrow> mig_error option) option"
  stRun :: "'d \<Rightarrow> mig_error + 'd"

record mig_result =
  mrApplied :: nat
  mrBackupPath :: string

text \<open>What is committed, the connection's setting and whether it is stuck in a transaction, and the files beside the
  database with what they hold.\<close>

record 'd mig_db =
  mdData :: 'd
  mdVersion :: "nat list option"
  mdForeignKeys :: bool
  mdStuck :: bool
  mdFiles :: "(string \<times> ('d \<times> nat list option) option) list"     \<comment> \<open>none for an empty file\<close>

datatype mig_stmt =
    TakeConn | LookForTables | LookForStamp | ReadStamp | BeginTx nat | WriteVersion nat | CommitTx nat | RollbackTx nat
  | CheckKeys nat | CreateBackup | VacuumInto | ReadPragma | PragmaOff | PragmaOn | RemoveBackup

type_synonym mig_luck = "mig_stmt \<Rightarrow> bool"

section \<open>Operations\<close>

definition readVersion_db :: "mig_luck \<Rightarrow> 'd sqlite \<Rightarrow> 'd mig_db \<Rightarrow> mig_error + nat \<times> bool" where
  "readVersion_db fails q s =
     (if fails LookForTables then Inl (SqlError ''migrate: look for tables'')
      else if sqTables q (mdData s) = [] \<and> mdVersion s = None then Inr (0, True)
      else if fails LookForStamp then Inl (SqlError ''migrate: look for schema_version'')
      else case mdVersion s of
             None \<Rightarrow> Inr (0, False)
           | Some rows \<Rightarrow> if fails ReadStamp then Inl (SqlError ''migrate: read schema_version'')
               else (case rows of [] \<Rightarrow> Inr (0, False) | v # _ \<Rightarrow> Inr (v, False)))"

definition inTransaction :: "mig_luck \<Rightarrow> nat \<Rightarrow> ('d mig_db \<Rightarrow> mig_error + 'd mig_db) \<Rightarrow> 'd mig_db \<Rightarrow>
    mig_error option \<times> 'd mig_db" where
  "inTransaction fails version fn s =
     (if fails (BeginTx version) then (Some (SqlError ''migrate: begin''), s)
      else (let undo = (\<lambda>e. if fails (RollbackTx version) then (Some (RollbackFailed e), s\<lparr>mdStuck := True\<rparr>) else (Some e, s))
            in case fn s of
                 Inl e \<Rightarrow> undo e
               | Inr s' \<Rightarrow> if fails (CommitTx version) then undo (SqlError ''migrate: commit'') else (None, s')))"

definition writeVersion :: "mig_luck \<Rightarrow> nat \<Rightarrow> 'd mig_db \<Rightarrow> mig_error + 'd mig_db" where
  "writeVersion fails version s =
     (if fails (WriteVersion version) then Inl (SqlError ''migrate: write schema_version'') else Inr (s\<lparr>mdVersion := Some [version]\<rparr>))"

definition setVersion :: "mig_luck \<Rightarrow> nat \<Rightarrow> 'd mig_db \<Rightarrow> mig_error option \<times> 'd mig_db" where
  "setVersion fails version = inTransaction fails version (writeVersion fails version)"

definition firstViolation :: "bool \<Rightarrow> nat \<Rightarrow> mig_error option" where
  "firstViolation failed n = (if failed then Some (SqlError ''foreign key check'') else if n > 0 then Some ErrDanglingForeignKey else None)"

definition first_error :: "mig_error option list \<Rightarrow> mig_error option" where
  "first_error es = (case find (\<lambda>e. e \<noteq> None) es of Some e \<Rightarrow> e | None \<Rightarrow> None)"

definition checkForeignKeys :: "bool \<Rightarrow> 'd sqlite \<Rightarrow> 'd \<Rightarrow> string list \<Rightarrow> mig_error option" where
  "checkForeignKeys failed q d tables =
     (if tables = [] then firstViolation failed (sum_list (map (sqViolations q d) (sqTables q d)))
      else first_error (concat (map (\<lambda>t.
        if failed then [Some (SqlError ''foreign key check'')]
        else if List.member (sqTables q d) t
        then firstViolation failed (sqViolations q d t)
             # map (\<lambda>r. firstViolation failed (sqViolations q d r)) (sqReferencing q d t)
        else []) tables)))"

definition apply_step :: "mig_luck \<Rightarrow> 'd sqlite \<Rightarrow> nat \<Rightarrow> 'd mig_step \<Rightarrow> 'd mig_db \<Rightarrow> mig_error option \<times> 'd mig_db" where
  "apply_step fails q version step = inTransaction fails version (\<lambda>s.
     case stRun step (mdData s) of
       Inl e \<Rightarrow> Inl (StepError (stName step) e)
     | Inr d \<Rightarrow> (case checkForeignKeys (fails (CheckKeys version)) q d (stTables step) of
           Some e \<Rightarrow> Inl (StepError (stName step) e)
         | None \<Rightarrow> writeVersion fails version (s\<lparr>mdData := d\<rparr>)))"

definition preflight :: "'d mig_step list \<Rightarrow> 'd \<Rightarrow> mig_error option" where
  "preflight pending d = first_error (map (\<lambda>step. case stPreflight step of None \<Rightarrow> None
     | Some check \<Rightarrow> map_option (StepError (stName step)) (check d)) pending)"

definition remove_file :: "string \<Rightarrow> 'd mig_db \<Rightarrow> 'd mig_db" where
  "remove_file path s = s\<lparr>mdFiles := filter (\<lambda>(p, _). p \<noteq> path) (mdFiles s)\<rparr>"

definition backUp :: "mig_luck \<Rightarrow> string \<Rightarrow> 'd mig_db \<Rightarrow> (mig_error + string) \<times> 'd mig_db" where
  "backUp fails path s =
     (if fails CreateBackup \<or> List.member (map fst (mdFiles s)) path then (Inl (SqlError ''migrate: create the backup''), s)
      else if fails VacuumInto then (Inl (SqlError ''migrate: back up the database''),
          if fails RemoveBackup then s\<lparr>mdFiles := mdFiles s @ [(path, None)]\<rparr> else s)
      else (Inr path, s\<lparr>mdFiles := mdFiles s @ [(path, Some (mdData s, mdVersion s))]\<rparr>))"

definition dropUnneededBackup :: "mig_luck \<Rightarrow> mig_result \<Rightarrow> 'd mig_db \<Rightarrow> mig_result \<times> 'd mig_db" where
  "dropUnneededBackup fails r s =
     (if mrApplied r > 0 \<or> mrBackupPath r = '''' then (r, s)
      else (r\<lparr>mrBackupPath := ''''\<rparr>, if fails RemoveBackup then s else remove_file (mrBackupPath r) s))"

text \<open>The setting that is put back when the run ends: none when it was off already.\<close>

definition suspendForeignKeys :: "mig_luck \<Rightarrow> 'd mig_db \<Rightarrow> (mig_error + bool) \<times> 'd mig_db" where
  "suspendForeignKeys fails s =
     (if fails ReadPragma then (Inl (SqlError ''migrate: read foreign_keys''), s)
      else if \<not> mdForeignKeys s then (Inr False, s)
      else if fails PragmaOff then (Inl (SqlError ''migrate: switch foreign_keys off''), s)
      else (Inr True, s\<lparr>mdForeignKeys := False\<rparr>))"

text \<open>The pragma does nothing on a connection that is still inside a transaction.\<close>

definition restoreForeignKeys :: "mig_luck \<Rightarrow> bool \<Rightarrow> 'd mig_db \<Rightarrow> 'd mig_db" where
  "restoreForeignKeys fails was s = (if was \<and> \<not> fails PragmaOn \<and> \<not> mdStuck s then s\<lparr>mdForeignKeys := True\<rparr> else s)"

fun apply_all :: "mig_luck \<Rightarrow> 'd sqlite \<Rightarrow> nat \<Rightarrow> 'd mig_step list \<Rightarrow> mig_result \<times> 'd mig_db \<Rightarrow>
    mig_error option \<times> mig_result \<times> 'd mig_db" where
  "apply_all fails q i [] (r, s) = (None, r, s)"
| "apply_all fails q i (step # rest) (r, s) =
     (case apply_step fails q (i + 1) step s of
        (Some e, s') \<Rightarrow> (Some e, dropUnneededBackup fails r s')
      | (None, s') \<Rightarrow> apply_all fails q (i + 1) rest (r\<lparr>mrApplied := mrApplied r + 1\<rparr>, s'))"

definition no_result :: mig_result where "no_result = \<lparr>mrApplied = 0, mrBackupPath = ''''\<rparr>"

definition Run :: "mig_luck \<Rightarrow> 'd sqlite \<Rightarrow> string \<Rightarrow> string \<Rightarrow> 'd mig_step list \<Rightarrow> 'd mig_db \<Rightarrow> mig_error option \<times> mig_result \<times> 'd mig_db" where
  "Run fails q dbPath stamp steps s =
     (if fails TakeConn then (Some (SqlError ''migrate: take a connection''), no_result, s)
      else case readVersion_db fails q s of
        Inl e \<Rightarrow> (Some e, no_result, s)
      | Inr (current, fresh) \<Rightarrow>
          if fresh then (case setVersion fails (length steps) s of (e, s') \<Rightarrow> (e, no_result, s'))
          else if current > length steps then (Some (ErrNewerDatabase current (length steps)), no_result, s)
          else if current = length steps then (None, no_result, s)
          else (case preflight (drop current steps) (mdData s) of
             Some e \<Rightarrow> (Some e, no_result, s)
           | None \<Rightarrow> (case backUp fails (dbPath @ ''.before-migration-'' @ stamp) s of
                (Inl e, s1) \<Rightarrow> (Some e, no_result, s1)
              | (Inr p, s1) \<Rightarrow> (case suspendForeignKeys fails s1 of
                   (Inl e, s2) \<Rightarrow> (Some e, no_result, snd (dropUnneededBackup fails (no_result\<lparr>mrBackupPath := p\<rparr>) s2))
                 | (Inr was, s2) \<Rightarrow>
                     (case apply_all fails q current (drop current steps) (no_result\<lparr>mrBackupPath := p\<rparr>, s2) of
                        (e, r, s3) \<Rightarrow> (e, r, restoreForeignKeys fails was s3))))))"

section \<open>What a run leaves\<close>

fun steps_done :: "'d mig_step list \<Rightarrow> 'd \<Rightarrow> 'd option" where
  "steps_done [] d = Some d"
| "steps_done (step # rest) d = (case stRun step d of Inl _ \<Rightarrow> None | Inr d' \<Rightarrow> steps_done rest d')"

lemma transaction_cases:
  assumes "inTransaction fails v fn s = (e, s')"
  obtains (committed) "e = None" "fn s = Inr s'" | (undone) e' where "e = Some e'" "s' = s"
    | (stuck) e' where "e = Some (RollbackFailed e')" "s' = s\<lparr>mdStuck := True\<rparr>" "fails (RollbackTx v)"
  using assms by (auto simp: inTransaction_def Let_def split: if_splits sum.splits)

lemma write_version: "writeVersion fails v s = Inr s' \<Longrightarrow> s' = s\<lparr>mdVersion := Some [v]\<rparr>"
  by (simp add: writeVersion_def split: if_splits)

definition keys_fine :: "'d sqlite \<Rightarrow> string list \<Rightarrow> 'd \<Rightarrow> bool" where
  "keys_fine q tables d \<longleftrightarrow> checkForeignKeys False q d tables = None"

lemma first_error_None: "first_error es = None \<longleftrightarrow> list_all (\<lambda>e. e = None) es"
  by (auto simp: first_error_def list_all_iff find_None_iff dest: find_Some_P split: option.splits)

lemma check_works: "checkForeignKeys failed q d tables = None \<Longrightarrow> keys_fine q tables d"
  by (cases failed; cases tables) (simp_all add: keys_fine_def checkForeignKeys_def firstViolation_def first_error_def)

lemma apply_step_cases:
  assumes "apply_step fails q v step s = (e, s')"
  obtains (applied) d where "e = None" "stRun step (mdData s) = Inr d" "keys_fine q (stTables step) d" "s' = s\<lparr>mdData := d, mdVersion := Some [v]\<rparr>"
    | (failed) e' where "e = Some e'" "s' = s \<or> s' = s\<lparr>mdStuck := True\<rparr> \<and> fails (RollbackTx v)"
  using assms unfolding apply_step_def
  by (elim transaction_cases) (auto dest!: write_version check_works split: sum.splits option.splits)

text \<open>The steps of a run that stay are the first of them, each on the data the one before it left, all with sound keys.\<close>

fun steps_checked :: "'d sqlite \<Rightarrow> 'd mig_step list \<Rightarrow> 'd \<Rightarrow> bool" where
  "steps_checked q [] d = True"
| "steps_checked q (step # rest) d =
     (case stRun step d of Inl _ \<Rightarrow> False | Inr d' \<Rightarrow> keys_fine q (stTables step) d' \<and> steps_checked q rest d')"

definition dropped :: "mig_luck \<Rightarrow> string \<Rightarrow> (string \<times> 'x) list \<Rightarrow> (string \<times> 'x) list" where
  "dropped fails path files = (if fails RemoveBackup then files else filter (\<lambda>(p, _). p \<noteq> path) files)"

lemma apply_all_prefix:
  assumes "apply_all fails q i steps (r, s) = (e, r', s')" "mrBackupPath r \<noteq> ''''"
  shows "\<exists>n \<le> length steps. mrApplied r' = mrApplied r + n \<and> steps_done (take n steps) (mdData s) = Some (mdData s')
    \<and> steps_checked q (take n steps) (mdData s)
    \<and> mdVersion s' = (if n = 0 then mdVersion s else Some [i + n]) \<and> (e = None \<longleftrightarrow> n = length steps)
    \<and> mdForeignKeys s' = mdForeignKeys s
    \<and> mdFiles s' = (if e \<noteq> None \<and> mrApplied r' = 0 then dropped fails (mrBackupPath r) (mdFiles s) else mdFiles s)
    \<and> mrBackupPath r' = (if e \<noteq> None \<and> mrApplied r' = 0 then '''' else mrBackupPath r)"
  using assms
proof (induction steps arbitrary: i r s)
  case Nil
  then show ?case by auto
next
  case (Cons step steps)
  obtain e1 s1 where a: "apply_step fails q (i + 1) step s = (e1, s1)" by (metis prod.exhaust)
  then show ?case
  proof (cases rule: apply_step_cases)
    case (applied d)
    then have "apply_all fails q (i + 1) steps (r\<lparr>mrApplied := mrApplied r + 1\<rparr>, s1) = (e, r', s')" using Cons.prems(1) a by simp
    from Cons.IH[OF this] obtain n where n: "n \<le> length steps" "mrApplied r' = mrApplied r + 1 + n"
      "steps_done (take n steps) (mdData s1) = Some (mdData s')" "steps_checked q (take n steps) (mdData s1)"
      "mdVersion s' = (if n = 0 then mdVersion s1 else Some [i + 1 + n])" "e = None \<longleftrightarrow> n = length steps"
      "mdForeignKeys s' = mdForeignKeys s1" "mrBackupPath r' = mrBackupPath r" "mdFiles s' = mdFiles s1" using Cons.prems(2) by auto
    then show ?thesis using applied by (intro exI[of _ "Suc n"]) auto
  next
    case (failed e')
    then have x: "e = Some e'" "dropUnneededBackup fails r s1 = (r', s')" using Cons.prems(1) a by auto
    have s1: "mdData s1 = mdData s" "mdVersion s1 = mdVersion s" "mdForeignKeys s1 = mdForeignKeys s" "mdFiles s1 = mdFiles s"
      using failed(2) by auto
    show ?thesis using x s1 Cons.prems(2)
      by (intro exI[of _ 0]) (auto simp: dropUnneededBackup_def remove_file_def dropped_def split: if_splits)
  qed
qed

definition stamped_at :: "'d mig_db \<Rightarrow> nat" where
  "stamped_at s = (case mdVersion s of Some (v # _) \<Rightarrow> v | _ \<Rightarrow> 0)"

definition in_use :: "'d sqlite \<Rightarrow> 'd mig_db \<Rightarrow> bool" where
  "in_use q s \<longleftrightarrow> sqTables q (mdData s) \<noteq> [] \<or> mdVersion s \<noteq> None"

lemma read_in_use: "in_use q s \<Longrightarrow> readVersion_db fails q s = Inr (v, fresh) \<Longrightarrow> \<not> fresh \<and> v = stamped_at s"
  by (auto simp: in_use_def readVersion_db_def stamped_at_def split: if_splits option.splits list.splits)

text \<open>How a run on a database in use ends: nothing was written, or the pending steps were taken one after the other.\<close>

lemma run_cases:
  assumes "Run fails q dbPath stamp steps s = (e, r, s')" "in_use q s"
  obtains (nothing) "r = no_result" "mdData s' = mdData s" "mdVersion s' = mdVersion s" "e = None \<Longrightarrow> stamped_at s = length steps"
      "\<not> fails RemoveBackup \<Longrightarrow> mdFiles s' = mdFiles s"
    | (steps) was s2 s3 where "stamped_at s < length steps" "mdData s2 = mdData s" "mdVersion s2 = mdVersion s"
      "mdFiles s2 = mdFiles s @ [(dbPath @ ''.before-migration-'' @ stamp, Some (mdData s, mdVersion s))]"
      "dbPath @ ''.before-migration-'' @ stamp \<notin> fst ` set (mdFiles s)"
      "apply_all fails q (stamped_at s) (drop (stamped_at s) steps)
         (no_result\<lparr>mrBackupPath := dbPath @ ''.before-migration-'' @ stamp\<rparr>, s2) = (e, r, s3)"
      "s' = restoreForeignKeys fails was s3"
proof (cases "fails TakeConn")
  case True
  then show ?thesis using assms(1) by - (rule nothing; auto simp: Run_def)
next
  case conn: False
  let ?path = "dbPath @ ''.before-migration-'' @ stamp"
  show ?thesis
  proof (cases "readVersion_db fails q s")
    case (Inl x)
    then show ?thesis using assms(1) conn by - (rule nothing; auto simp: Run_def)
  next
    case (Inr p)
    then have read: "readVersion_db fails q s = Inr (stamped_at s, False)" using read_in_use[OF assms(2)] by (cases p) auto
    show ?thesis
    proof (cases "stamped_at s < length steps \<and> preflight (drop (stamped_at s) steps) (mdData s) = None")
      case False
      then show ?thesis using assms(1) conn
        by - (rule nothing; auto simp: Run_def read split: if_splits option.splits)
    next
      case pending: True
      have run: "(e, r, s') = (case backUp fails ?path s of (Inl e, s1) \<Rightarrow> (Some e, no_result, s1)
          | (Inr p, s1) \<Rightarrow> (case suspendForeignKeys fails s1 of
               (Inl e, s2) \<Rightarrow> (Some e, no_result, snd (dropUnneededBackup fails (no_result\<lparr>mrBackupPath := p\<rparr>) s2))
             | (Inr was, s2) \<Rightarrow> (case apply_all fails q (stamped_at s) (drop (stamped_at s) steps) (no_result\<lparr>mrBackupPath := p\<rparr>, s2) of
                 (e, r, s3) \<Rightarrow> (e, r, restoreForeignKeys fails was s3))))"
        using assms(1) conn pending by (simp add: Run_def read)
      obtain b s1 where b: "backUp fails ?path s = (b, s1)" by (metis prod.exhaust)
      show ?thesis
      proof (cases b)
        case (Inl x)
        then show ?thesis using run b by - (rule nothing; auto simp: backUp_def split: if_splits)
      next
        case bk: (Inr p)
        then have s1: "p = ?path" "s1 = s\<lparr>mdFiles := mdFiles s @ [(?path, Some (mdData s, mdVersion s))]\<rparr>" "?path \<notin> fst ` set (mdFiles s)"
          using b by (auto simp: backUp_def split: if_splits)
        obtain w s2 where w: "suspendForeignKeys fails s1 = (w, s2)" by (metis prod.exhaust)
        then have s2: "mdData s2 = mdData s" "mdVersion s2 = mdVersion s" "mdFiles s2 = mdFiles s1"
          using s1 by (auto simp: suspendForeignKeys_def split: if_splits)
        have clean: "filter (\<lambda>(p, _). p \<noteq> ?path) (mdFiles s2) = mdFiles s"
          using s1(3) by (simp add: s2 s1(2) filter_id_conv) force
        show ?thesis
        proof (cases w)
          case (Inl x)
          then show ?thesis using run b bk w s2 s1 clean
            by - (rule nothing; auto simp: dropUnneededBackup_def remove_file_def no_result_def split: if_splits)
        next
          case (Inr was)
          obtain e3 r3 s3 where "apply_all fails q (stamped_at s) (drop (stamped_at s) steps) (no_result\<lparr>mrBackupPath := p\<rparr>, s2) = (e3, r3, s3)"
            by (metis prod.exhaust)
          then show ?thesis using run b bk w Inr s2 s1 pending steps[of s2 s3 was] by simp
        qed
      qed
    qed
  qed
qed

lemma restore_only_keys: "mdData (restoreForeignKeys fails was s) = mdData s" "mdVersion (restoreForeignKeys fails was s) = mdVersion s"
  "mdFiles (restoreForeignKeys fails was s) = mdFiles s"
  by (simp_all add: restoreForeignKeys_def)

lemma start_prefix:
  assumes "Run fails q dbPath stamp steps s = (e, r, s')" "in_use q s"
  shows "steps_done (take (mrApplied r) (drop (stamped_at s) steps)) (mdData s) = Some (mdData s')
    \<and> steps_checked q (take (mrApplied r) (drop (stamped_at s) steps)) (mdData s)
    \<and> (if mrApplied r = 0 then mdVersion s' = mdVersion s \<and> (fails RemoveBackup \<or> mdFiles s' = mdFiles s)
       else stamped_at s + mrApplied r \<le> length steps \<and> mdVersion s' = Some [stamped_at s + mrApplied r]
         \<and> mdFiles s' = mdFiles s @ [(mrBackupPath r, Some (mdData s, mdVersion s))])
    \<and> (e = None \<longrightarrow> stamped_at s + mrApplied r = length steps)"
  using assms
proof (cases rule: run_cases)
  case nothing
  then show ?thesis by (auto simp: no_result_def)
next
  case (steps was s2 s3)
  let ?path = "dbPath @ ''.before-migration-'' @ stamp"
  obtain n where n: "n \<le> length steps - stamped_at s" "mrApplied r = n"
    "steps_done (take n (drop (stamped_at s) steps)) (mdData s2) = Some (mdData s3)" "steps_checked q (take n (drop (stamped_at s) steps)) (mdData s2)"
    "mdVersion s3 = (if n = 0 then mdVersion s2 else Some [stamped_at s + n])" "e = None \<longleftrightarrow> n = length steps - stamped_at s"
    "mdFiles s3 = (if e \<noteq> None \<and> mrApplied r = 0 then dropped fails ?path (mdFiles s2) else mdFiles s2)"
    "mrBackupPath r = (if e \<noteq> None \<and> mrApplied r = 0 then '''' else ?path)"
    using apply_all_prefix[OF steps(6)] by (auto simp: no_result_def)
  have "dropped fails ?path (mdFiles s2) = mdFiles s" if "\<not> fails RemoveBackup"
    using that steps(5) by (simp add: dropped_def steps(4) filter_id_conv) force
  then show ?thesis using n steps(1-4,7) by (auto simp: restore_only_keys)
qed

text \<open>
  A start leaves the database after a whole number of steps. On a database in use, whatever fails, the data are what the
  first applied steps made of the data before, each checked for dangling keys, and the stamp counts exactly those;
  without an error all steps are in. As soon as a step stays, the copy taken before the first one is
  beside the database with the old data and the old stamp, and a start that applied none leaves no copy.
\<close>

theorem start_applies_whole_steps:
  assumes "Run fails q dbPath stamp steps s = (e, r, s')" "in_use q s"
  shows "steps_done (take (mrApplied r) (drop (stamped_at s) steps)) (mdData s) = Some (mdData s')
    \<and> steps_checked q (take (mrApplied r) (drop (stamped_at s) steps)) (mdData s)
    \<and> (if mrApplied r = 0 then mdVersion s' = mdVersion s \<and> (fails RemoveBackup \<or> mdFiles s' = mdFiles s)
       else stamped_at s + mrApplied r \<le> length steps \<and> mdVersion s' = Some [stamped_at s + mrApplied r]
         \<and> mdFiles s' = mdFiles s @ [(mrBackupPath r, Some (mdData s, mdVersion s))])
    \<and> (e = None \<longrightarrow> stamped_at s + mrApplied r = length steps)"
  by (rule start_prefix[OF assms])

text \<open>
  A start that is refused writes nothing. A database stamped by a newer release and a pending step that is bound to
  fail are told before the copy and before the first transaction, with the error that says so.
\<close>

theorem refused_start_writes_nothing:
  assumes "in_use q s" "\<not> fails TakeConn" "\<not> fails LookForTables" "\<not> fails LookForStamp" "\<not> fails ReadStamp"
  shows "(stamped_at s > length steps \<longrightarrow>
      Run fails q dbPath stamp steps s = (Some (ErrNewerDatabase (stamped_at s) (length steps)), no_result, s))
    \<and> (stamped_at s < length steps \<and> preflight (drop (stamped_at s) steps) (mdData s) = Some e \<longrightarrow>
      Run fails q dbPath stamp steps s = (Some e, no_result, s))"
proof -
  have "readVersion_db fails q s = Inr (stamped_at s, False)"
    using assms by (auto simp: in_use_def readVersion_db_def stamped_at_def split: option.splits list.splits)
  then show ?thesis using assms(2) by (simp add: Run_def)
qed

lemma fresh_is_stamped:
  assumes "\<not> in_use q s" "\<forall>x. \<not> fails x"
  shows "Run fails q dbPath stamp steps s = (None, no_result, s\<lparr>mdVersion := Some [length steps]\<rparr>)"
  using assms by (simp add: Run_def readVersion_db_def in_use_def setVersion_def inTransaction_def writeVersion_def Let_def)

text \<open>Foreign keys are checked again after the run, unless a transaction could not be rolled back.\<close>

lemma stuck_only_on_rollback:
  "apply_all fails q i steps (r, s) = (e, r', s') \<Longrightarrow> \<forall>v. \<not> fails (RollbackTx v) \<Longrightarrow> mdStuck s' = mdStuck s"
proof (induction steps arbitrary: i r s)
  case (Cons step steps)
  obtain e1 s1 where a: "apply_step fails q (i + 1) step s = (e1, s1)" by (metis prod.exhaust)
  then have s1: "mdStuck s1 = mdStuck s" by (cases rule: apply_step_cases) (use Cons.prems(2) in auto)
  show ?case
  proof (cases e1)
    case None
    then have "apply_all fails q (i + 1) steps (r\<lparr>mrApplied := mrApplied r + 1\<rparr>, s1) = (e, r', s')" using Cons.prems(1) a by simp
    from Cons.IH[OF this Cons.prems(2)] s1 show ?thesis by simp
  next
    case (Some e')
    then show ?thesis using Cons.prems(1) a s1 by (auto simp: dropUnneededBackup_def remove_file_def split: if_splits)
  qed
qed simp

section \<open>A database over many starts\<close>

text \<open>Starts of any release, whatever fails in them, and what the application writes in between. A new process has a
  connection of its own, which checks foreign keys or not.\<close>

datatype 'd mig_event = Start mig_luck string string "'d mig_step list" bool | AppWrites "'d \<Rightarrow> 'd"

fun mig_life :: "'d sqlite \<Rightarrow> 'd mig_event \<Rightarrow> 'd mig_db \<Rightarrow> 'd mig_db" where
  "mig_life q (Start fails dbPath stamp steps keys) s = snd (snd (Run fails q dbPath stamp steps (s\<lparr>mdForeignKeys := keys, mdStuck := False\<rparr>)))"
| "mig_life q (AppWrites f) s = s\<lparr>mdData := f (mdData s)\<rparr>"

text \<open>A release knows the first so many of all steps ever made; the application never drops its last table.\<close>

fun event_ok :: "'d sqlite \<Rightarrow> 'd mig_step list \<Rightarrow> 'd mig_event \<Rightarrow> bool" where
  "event_ok q all (Start fails dbPath stamp steps keys) \<longleftrightarrow> steps = take (length steps) all"
| "event_ok q all (AppWrites f) \<longleftrightarrow> (\<forall>d. sqTables q (f d) \<noteq> [])"

datatype 'd mig_log = Stepped nat | Wrote "'d \<Rightarrow> 'd"

fun replay :: "'d mig_step list \<Rightarrow> 'd mig_log list \<Rightarrow> 'd \<Rightarrow> 'd option" where
  "replay all [] d = Some d"
| "replay all (Stepped i # log) d = (case stRun (all ! i) d of Inl _ \<Rightarrow> None | Inr d' \<Rightarrow> replay all log d')"
| "replay all (Wrote f # log) d = replay all log (f d)"

definition steps_in :: "'d mig_log list \<Rightarrow> nat list" where
  "steps_in log = List.map_filter (\<lambda>x. case x of Stepped i \<Rightarrow> Some i | Wrote _ \<Rightarrow> None) log"

definition writes_in :: "'d mig_log list \<Rightarrow> ('d \<Rightarrow> 'd) list" where
  "writes_in log = List.map_filter (\<lambda>x. case x of Wrote f \<Rightarrow> Some f | Stepped _ \<Rightarrow> None) log"

definition app_writes :: "'d mig_event list \<Rightarrow> ('d \<Rightarrow> 'd) list" where
  "app_writes es = List.map_filter (\<lambda>x. case x of AppWrites f \<Rightarrow> Some f | _ \<Rightarrow> None) es"

lemma replay_append: "replay all (xs @ ys) d = (case replay all xs d of None \<Rightarrow> None | Some d' \<Rightarrow> replay all ys d')"
  by (induction all xs d rule: replay.induct) (auto split: sum.splits)

lemma replay_steps:
  "v + n \<le> length all \<Longrightarrow> replay all (map Stepped [v..<v + n]) d = steps_done (take n (drop v all)) d"
proof (induction n arbitrary: v d)
  case (Suc n)
  have "take (Suc n) (drop v all) = all ! v # take n (drop (Suc v) all)"
    using Suc.prems by (simp add: Cons_nth_drop_Suc[symmetric])
  moreover have "[v..<v + Suc n] = v # [Suc v..<Suc v + n]" by (simp add: upt_conv_Cons del: upt_Suc)
  ultimately show ?case using Suc.IH[of "Suc v"] Suc.prems by (simp del: upt_Suc split: sum.split)
qed simp

lemma log_parts [simp]:
  "steps_in (xs @ ys) = steps_in xs @ steps_in ys" "writes_in (xs @ ys) = writes_in xs @ writes_in ys"
  "steps_in (map Stepped is') = is'" "writes_in (map Stepped is') = []" "steps_in [Wrote f] = []" "writes_in [Wrote f] = [f]"
  by (induction is') (simp_all add: steps_in_def writes_in_def List.map_filter_def)

lemma start_logged:
  assumes "Run fails q dbPath stamp steps s = (err, r, s')" "in_use q s" "steps = take (length steps) all"
  shows "replay all (map Stepped [stamped_at s..<stamped_at s']) (mdData s) = Some (mdData s')" "stamped_at s \<le> stamped_at s'" "in_use q s'"
proof -
  note p = start_prefix[OF assms(1,2)]
  let ?v = "stamped_at s" and ?n = "mrApplied r"
  have "length steps \<le> length all" using assms(3) by (metis length_take min.cobounded1)
  then have s': "stamped_at s' = ?v + ?n" "in_use q s'" "?n = 0 \<or> ?v + ?n \<le> length all"
    using p assms(2) by (cases "?n = 0"; simp add: stamped_at_def in_use_def)+
  have "take ?n (drop ?v (take l all)) = take ?n (drop ?v all)" if "?v + ?n \<le> l" for l
    using that by (simp add: drop_take min_def)
  from this[of "length steps"] p have "take ?n (drop ?v steps) = take ?n (drop ?v all)"
    unfolding assms(3)[symmetric] by (cases "?n = 0") simp_all
  then show "replay all (map Stepped [stamped_at s..<stamped_at s']) (mdData s) = Some (mdData s')"
    using p s'(1,3) replay_steps[of ?v ?n all "mdData s"] by (cases "?n = 0") simp_all
  show "stamped_at s \<le> stamped_at s'" "in_use q s'" using s' by simp_all
qed

lemma used_logged:
  assumes "list_all (event_ok q all) es" "in_use q s0"
  shows "\<exists>log. replay all log (mdData s0) = Some (mdData (fold (mig_life q) es s0)) \<and>
    steps_in log = [stamped_at s0..<stamped_at (fold (mig_life q) es s0)] \<and> writes_in log = app_writes es \<and>
    stamped_at s0 \<le> stamped_at (fold (mig_life q) es s0) \<and> in_use q (fold (mig_life q) es s0)"
  using assms(1)
proof (induction es rule: rev_induct)
  case Nil
  then show ?case using assms(2)
    by (intro exI[of _ "[]"]) (simp add: steps_in_def writes_in_def app_writes_def List.map_filter_def)
next
  case (snoc e es)
  let ?s = "fold (mig_life q) es s0"
  obtain log where log: "replay all log (mdData s0) = Some (mdData ?s)" "steps_in log = [stamped_at s0..<stamped_at ?s]"
      "writes_in log = app_writes es" "stamped_at s0 \<le> stamped_at ?s"
    and used: "in_use q ?s" using snoc by auto
  show ?case
  proof (cases e)
    case (AppWrites f)
    then have "in_use q (mig_life q e ?s)" using snoc.prems by (simp add: in_use_def)
    then show ?thesis using log AppWrites
      by (intro exI[of _ "log @ [Wrote f]"]) (simp add: replay_append app_writes_def List.map_filter_def stamped_at_def)
  next
    case (Start fails dbPath stamp steps keys')
    let ?t = "?s\<lparr>mdForeignKeys := keys', mdStuck := False\<rparr>"
    obtain err r s' where run: "Run fails q dbPath stamp steps ?t = (err, r, s')" by (metis prod.exhaust)
    have t: "in_use q ?t" "stamped_at ?t = stamped_at ?s" "mdData ?t = mdData ?s"
      using used by (simp_all add: in_use_def stamped_at_def)
    have "steps = take (length steps) all" using snoc.prems Start by simp
    note l = start_logged[OF run t(1) this, unfolded t(2,3)]
    have "[stamped_at s0..<stamped_at s'] = [stamped_at s0..<stamped_at ?s] @ [stamped_at ?s..<stamped_at s']"
      using l(2) log(4) by (metis le_add_diff_inverse upt_add_eq_append)
    then show ?thesis using log Start run l
      by (intro exI[of _ "log @ map Stepped [stamped_at ?s..<stamped_at s']"])
        (simp add: replay_append app_writes_def List.map_filter_def)
  qed
qed

text \<open>
  The steps a database never runs: those below the stamp it has when it is first in use. A database in use already has
  that stamp, none counting as zero; an empty one gets it from the first start that stamps it, whose release
  creates the whole schema itself, and an empty one that the application fills before any start is as old as one never stamped.
\<close>

fun baseline :: "'d sqlite \<Rightarrow> 'd mig_event list \<Rightarrow> 'd mig_db \<Rightarrow> nat" where
  "baseline q [] s = stamped_at s"
| "baseline q (e # es) s = (if in_use q s then stamped_at s else baseline q es (mig_life q e s))"

lemma baseline_used: "in_use q s \<Longrightarrow> baseline q es s = stamped_at s"
  by (cases es) simp_all

lemma fresh_start:
  assumes "\<not> in_use q s"
  shows "mdData (mig_life q (Start fails dbPath stamp steps keys) s) = mdData s"
    "stamped_at (mig_life q (Start fails dbPath stamp steps keys) s) \<in> {0, length steps}"
  using assms by (auto simp: Run_def readVersion_db_def in_use_def setVersion_def inTransaction_def writeVersion_def
      stamped_at_def Let_def)

lemma baseline_bounds: "\<not> in_use q s \<Longrightarrow> baseline q es s = 0 \<or>
    (\<exists>fails dbPath stamp steps keys. Start fails dbPath stamp steps keys \<in> set es \<and> baseline q es s = length steps)"
proof (induction es arbitrary: s)
  case Nil
  then show ?case by (simp add: in_use_def stamped_at_def)
next
  case (Cons e es)
  show ?case
  proof (cases "in_use q (mig_life q e s)")
    case False
    have "baseline q (e # es) s = baseline q es (mig_life q e s)" using Cons.prems by simp
    then show ?thesis using Cons.IH[OF False] by (metis list.set_intros(2))
  next
    case used: True
    show ?thesis
    proof (cases e)
      case (Start fails dbPath stamp steps keys)
      have "baseline q (e # es) s \<in> {0, length steps}"
        using fresh_start(2)[OF Cons.prems, of fails dbPath stamp steps keys] used Cons.prems
        unfolding Start baseline.simps by (simp only: if_False baseline_used)
      moreover have "Start fails dbPath stamp steps keys \<in> set (e # es)" using Start by simp
      ultimately show ?thesis by blast
    next
      case (AppWrites f)
      then show ?thesis using used Cons.prems by (simp add: baseline_used) (simp add: in_use_def stamped_at_def)
    qed
  qed
qed

lemma any_logged:
  assumes "list_all (event_ok q all) es"
  shows "\<exists>log. replay all log (mdData s) = Some (mdData (fold (mig_life q) es s)) \<and>
    steps_in log = [baseline q es s..<stamped_at (fold (mig_life q) es s)] \<and> writes_in log = app_writes es \<and>
    baseline q es s \<le> stamped_at (fold (mig_life q) es s)"
  using assms
proof (induction es arbitrary: s)
  case Nil
  then show ?case by (intro exI[of _ "[]"]) (simp add: steps_in_def writes_in_def app_writes_def List.map_filter_def)
next
  case (Cons e es)
  show ?case
  proof (cases "in_use q s")
    case True
    then show ?thesis using used_logged[OF Cons.prems True] by (auto simp: baseline_used)
  next
    case fresh: False
    obtain log where log: "replay all log (mdData (mig_life q e s)) = Some (mdData (fold (mig_life q) es (mig_life q e s)))"
      "steps_in log = [baseline q es (mig_life q e s)..<stamped_at (fold (mig_life q) es (mig_life q e s))]"
      "writes_in log = app_writes es" "baseline q es (mig_life q e s) \<le> stamped_at (fold (mig_life q) es (mig_life q e s))"
      using Cons by auto
    show ?thesis
    proof (cases e)
      case (Start fails dbPath stamp steps keys)
      then have "mdData (mig_life q e s) = mdData s" using fresh_start(1)[OF fresh] by blast
      then show ?thesis using log fresh Start
        by (intro exI[of _ log]) (simp del: mig_life.simps add: app_writes_def List.map_filter_def)
    next
      case (AppWrites f)
      then show ?thesis using log fresh
        by (intro exI[of _ "Wrote f # log"]) (simp add: app_writes_def writes_in_def steps_in_def List.map_filter_def)
    qed
  qed
qed

text \<open>
  C6: Over any number of starts each pending step is applied once, in order, and no other. Take any database, empty, never stamped or stamped, any
  releases started on it in any order, any failures, and anything the application writes in between that leaves it a table: the
  data are what came of them by the steps from the baseline up to the stamp, each exactly once and in order, and
  the application's writes in theirs. The baseline is the stamp the database had; where it was empty it is
  zero or the number of steps of a release that was started on it, which runs none of them.
\<close>

theorem each_step_once:
  assumes "list_all (event_ok q all) es" "s = fold (mig_life q) es s0"
  shows "(\<exists>log. replay all log (mdData s0) = Some (mdData s) \<and> steps_in log = [baseline q es s0..<stamped_at s] \<and>
      baseline q es s0 \<le> stamped_at s \<and> writes_in log = app_writes es) \<and>
    (in_use q s0 \<longrightarrow> baseline q es s0 = stamped_at s0) \<and>
    (\<not> in_use q s0 \<longrightarrow> baseline q es s0 = 0 \<or>
      (\<exists>fails dbPath stamp steps keys. Start fails dbPath stamp steps keys \<in> set es \<and> baseline q es s0 = length steps))"
  using any_logged[OF assms(1), of s0] baseline_used[of q s0 es] baseline_bounds[of q s0 es] unfolding assms(2) by blast

definition demo_sqlite :: "string list sqlite" where
  "demo_sqlite = \<lparr>sqTables = (\<lambda>d. d), sqViolations = (\<lambda>_ _. 0), sqReferencing = (\<lambda>_ _. [])\<rparr>"

definition adds :: "string \<Rightarrow> string list mig_step" where
  "adds t = \<lparr>stName = t, stTables = [t], stPreflight = None, stRun = (\<lambda>d. Inr (d @ [t]))\<rparr>"

definition demo_events :: "string list mig_event list" where
  "demo_events = [Start (\<lambda>x. x = CommitTx 2) ''db'' ''1'' [adds ''b'', adds ''c''] True, AppWrites (\<lambda>d. ''w'' # d),
     Start (\<lambda>_. False) ''db'' ''2'' [adds ''b'', adds ''c''] True]"

lemmas mig_eval = Run_def readVersion_db_def setVersion_def inTransaction_def writeVersion_def apply_step_def checkForeignKeys_def
  firstViolation_def first_error_def preflight_def backUp_def dropUnneededBackup_def suspendForeignKeys_def restoreForeignKeys_def
  no_result_def adds_def demo_sqlite_def stamped_at_def in_use_def

lemma each_step_once_witness:
  "\<exists>log. replay [adds ''b'', adds ''c''] log [''a''] = Some [''w'', ''a'', ''b'', ''c''] \<and> steps_in log = [0, 1] \<and> length (writes_in log) = 1"
proof -
  let ?s = "fold (mig_life demo_sqlite) demo_events \<lparr>mdData = [''a''], mdVersion = None, mdForeignKeys = True, mdStuck = False, mdFiles = []\<rparr>"
  let ?start = "\<lparr>mdData = [''a''], mdVersion = None, mdForeignKeys = True, mdStuck = False, mdFiles = []\<rparr>"
  have ok: "list_all (event_ok demo_sqlite [adds ''b'', adds ''c'']) demo_events" and "in_use demo_sqlite ?start" "stamped_at ?start = 0"
    by (simp_all add: demo_events_def demo_sqlite_def in_use_def stamped_at_def)
  with each_step_once[OF ok refl, of ?start] obtain log where l: "replay [adds ''b'', adds ''c''] log [''a''] = Some (mdData ?s)"
    "steps_in log = [0..<stamped_at ?s]" "writes_in log = app_writes demo_events" by auto
  have s: "mdData ?s = [''w'', ''a'', ''b'', ''c''] \<and> stamped_at ?s = 2"
    by (simp add: demo_events_def mig_eval find.simps Let_def)
  have "[0..<2] = [0, 1]" "length (app_writes demo_events) = 1"
    by (simp_all add: upt_rec demo_events_def app_writes_def List.map_filter_def)
  then show ?thesis using l s by metis
qed

lemma start_applies_whole_steps_witness:
  "fst (snd (Run (\<lambda>x. x = CommitTx 2) demo_sqlite ''db'' ''1'' [adds ''b'', adds ''c'']
      \<lparr>mdData = [''a''], mdVersion = None, mdForeignKeys = True, mdStuck = False, mdFiles = []\<rparr>))
    = \<lparr>mrApplied = 1, mrBackupPath = ''db.before-migration-1''\<rparr>
   \<and> steps_done (take 1 [adds ''b'', adds ''c'']) [''a''] = Some [''a'', ''b'']"
proof -
  let ?s = "\<lparr>mdData = [''a''], mdVersion = None, mdForeignKeys = True, mdStuck = False, mdFiles = []\<rparr> :: string list mig_db"
  obtain e r s' where run: "Run (\<lambda>x. x = CommitTx 2) demo_sqlite ''db'' ''1'' [adds ''b'', adds ''c''] ?s = (e, r, s')" by (metis prod.exhaust)
  have "in_use demo_sqlite ?s" by (simp add: in_use_def demo_sqlite_def)
  note t = start_applies_whole_steps[OF run this]
  have "mrApplied r = 1 \<and> mrBackupPath r = ''db.before-migration-1'' \<and> mdData s' = [''a'', ''b'']"
    using run by (auto simp: mig_eval find.simps Let_def)
  then show ?thesis using t run by (simp add: stamped_at_def)
qed

lemma refused_start_writes_nothing_witness:
  "Run (\<lambda>_. False) demo_sqlite ''db'' ''1'' [] \<lparr>mdData = [''a''], mdVersion = Some [1], mdForeignKeys = True, mdStuck = False, mdFiles = []\<rparr>
   = (Some (ErrNewerDatabase 1 0), no_result, \<lparr>mdData = [''a''], mdVersion = Some [1], mdForeignKeys = True, mdStuck = False, mdFiles = []\<rparr>)"
  using refused_start_writes_nothing[of demo_sqlite "\<lparr>mdData = [''a''], mdVersion = Some [1], mdForeignKeys = True, mdStuck = False, mdFiles = []\<rparr>"
    "\<lambda>_. False" "[]" "''db''" "''1''"]
  by (simp add: in_use_def stamped_at_def)

end
