(* ===== verification/Auth_Store.thy ===== *)
theory Auth_Store
  imports FD_Library
begin

text \<open>
  The tables of sign-in (\<open>internal/auth/store.go\<close>) and what each statement does to them. Rows stand in the order of
  their rowid. A passkey is its id and what the WebAuthn library keeps beside it, of type \<open>'w\<close>; the session data
  of a ceremony likewise. Ids are the raw bytes: their base64 in the tables is one to one. The random bytes drawn and the
  clock are arguments, and \<open>works\<close> says which statements the database carries out.
\<close>

section \<open>State\<close>

record 'w passkey =
  pkID :: string
  pkData :: 'w

record 'w user_row =
  urID :: string
  urUsername :: string
  urDisplayName :: string
  urCredentials :: "'w passkey list"
  urCreatedAt :: time

record 'w session_data =
  sdChallenge :: string
  sdUserID :: string
  sdData :: 'w

record 'w ceremony =
  cmKey :: string
  cmKind :: string
  cmSession :: "'w session_data"
  cmExpiresAt :: time

record session_row =
  ssToken :: string
  ssExpiresAt :: time

record token_row =
  tkID :: string
  tkLabel :: string
  tkHash :: string
  tkCreatedAt :: time
  tkExpiresAt :: "time option"
  tkLastUsedAt :: "time option"

record label_row =
  lbCredential :: string
  lbLabel :: string
  lbCreatedAt :: time

record 'w auth_db =
  adUsers :: "'w user_row list"
  adCeremonies :: "'w ceremony list"
  adSessions :: "session_row list"
  adTokens :: "token_row list"
  adLabels :: "label_row list"
  adMarker :: "(string \<times> nat) list"

definition empty_auth :: "'w auth_db" where
  "empty_auth = \<lparr>adUsers = [], adCeremonies = [], adSessions = [], adTokens = [], adLabels = [], adMarker = []\<rparr>"

datatype auth_error = ErrNotFound | ErrRegistrationClosed | ErrUsernameTaken | ErrCredentialNotFound | ErrLastCredential
  | AuthError string

text \<open>A statement, or a transaction as a whole.\<close>

datatype auth_stmt = FindOwner | FindUser | FindRegistered | ClaimTx | InsertUser | FirstTx | SaveCredentials | SaveLabel
  | FindLabel | ListLabels | DropLabel | PruneCeremonies | BoundCeremonies | InsertCeremony | FindCeremony | DropCeremony
  | InsertSession | FindSession | DropSession | InsertToken | ListTokens | FindToken | MarkToken | DropToken | ResetTx

type_synonym auth_luck = "auth_stmt \<Rightarrow> bool"

definition maxPendingCeremonies :: nat where "maxPendingCeremonies = 100"

section \<open>Users\<close>

definition has_passkey :: "'w user_row \<Rightarrow> bool" where "has_passkey u \<longleftrightarrow> urCredentials u \<noteq> []"

text \<open>\<open>OwnerOrder\<close>: rows with a passkey first, then by age, then by rowid.\<close>

definition first_row :: "'w user_row list \<Rightarrow> 'w user_row option" where
  "first_row users = (case sort_key (\<lambda>u. (\<not> has_passkey u, urCreatedAt u)) users of [] \<Rightarrow> None | u # _ \<Rightarrow> Some u)"

definition Owner :: "auth_luck \<Rightarrow> 'w auth_db \<Rightarrow> auth_error + 'w user_row" where
  "Owner works s = (if \<not> works FindOwner then Inl (AuthError ''auth: scan user row'')
     else case first_row (adUsers s) of None \<Rightarrow> Inl ErrNotFound | Some u \<Rightarrow> Inr u)"

definition GetUserByUsername :: "auth_luck \<Rightarrow> string \<Rightarrow> 'w auth_db \<Rightarrow> auth_error + 'w user_row" where
  "GetUserByUsername works name s = (if \<not> works FindUser then Inl (AuthError ''auth: scan user row'')
     else case find (\<lambda>u. urUsername u = name) (adUsers s) of None \<Rightarrow> Inl ErrNotFound | Some u \<Rightarrow> Inr u)"

definition userByID :: "auth_luck \<Rightarrow> string \<Rightarrow> 'w auth_db \<Rightarrow> auth_error + 'w user_row" where
  "userByID works i s = (if \<not> works FindUser then Inl (AuthError ''auth: scan user row'')
     else case find (\<lambda>u. urID u = i) (adUsers s) of None \<Rightarrow> Inl ErrNotFound | Some u \<Rightarrow> Inr u)"

definition HasAnyRegisteredUser :: "auth_luck \<Rightarrow> 'w auth_db \<Rightarrow> auth_error + bool" where
  "HasAnyRegisteredUser works s = (if \<not> works FindRegistered then Inl (AuthError ''auth: check for a registered user'')
     else Inr (list_ex has_passkey (adUsers s)))"

definition CreateUser :: "auth_luck \<Rightarrow> string \<Rightarrow> time \<Rightarrow> string \<Rightarrow> string \<Rightarrow> 'w auth_db \<Rightarrow>
    (auth_error + 'w user_row) \<times> 'w auth_db" where
  "CreateUser works i now username displayName s =
     (let u = \<lparr>urID = i, urUsername = username, urDisplayName = displayName, urCredentials = [], urCreatedAt = now\<rparr>
      in if \<not> works InsertUser then (Inl (AuthError ''auth: insert user''), s)
         else if list_ex (\<lambda>v. urUsername v = username \<or> urID v = i) (adUsers s) then (Inl ErrUsernameTaken, s)
         else (Inr u, s\<lparr>adUsers := adUsers s @ [u]\<rparr>))"

definition claimOrCreate :: "auth_luck \<Rightarrow> string \<Rightarrow> time \<Rightarrow> string \<Rightarrow> string \<Rightarrow> time \<Rightarrow> 'w auth_db \<Rightarrow>
    (auth_error + 'w user_row) \<times> 'w auth_db" where
  "claimOrCreate works i now username displayName olderThan s =
     (if \<not> works ClaimTx then (Inl (AuthError ''auth: begin claim''), s)
      else case first_row (filter (\<lambda>u. \<not> has_passkey u) (adUsers s)) of
        None \<Rightarrow> CreateUser works i now username displayName s
      | Some u \<Rightarrow>
          (let kept = filter (\<lambda>v. \<not> (\<not> has_passkey v \<and> urID v \<noteq> urID u \<and> urCreatedAt v < olderThan)) (adUsers s);
               s' = s\<lparr>adUsers := map (\<lambda>v. if urID v = urID u then v\<lparr>urDisplayName := displayName\<rparr> else v) kept\<rparr>
           in (userByID works (urID u) s', s')))"

definition ClaimUnregisteredUser :: "auth_luck \<Rightarrow> string \<Rightarrow> time \<Rightarrow> string \<Rightarrow> string \<Rightarrow> time \<Rightarrow> 'w auth_db \<Rightarrow>
    (auth_error + 'w user_row) \<times> 'w auth_db" where
  "ClaimUnregisteredUser works i now username displayName olderThan s =
     (case claimOrCreate works i now username displayName olderThan s of
        (Inl ErrUsernameTaken, s') \<Rightarrow> (Inl ErrRegistrationClosed, s')
      | r \<Rightarrow> r)"

section \<open>Passkeys\<close>

definition with_credentials :: "string \<Rightarrow> 'w passkey list \<Rightarrow> 'w auth_db \<Rightarrow> 'w auth_db" where
  "with_credentials i creds s =
     s\<lparr>adUsers := map (\<lambda>v. if urID v = i then v\<lparr>urCredentials := creds\<rparr> else v) (adUsers s)\<rparr>"

definition saveCredentials :: "auth_luck \<Rightarrow> string \<Rightarrow> 'w passkey list \<Rightarrow> 'w auth_db \<Rightarrow> auth_error option \<times> 'w auth_db" where
  "saveCredentials works i creds s =
     (if works SaveCredentials then (None, with_credentials i creds s) else (Some (AuthError ''auth: save credentials''), s))"

definition AddCredential :: "auth_luck \<Rightarrow> 'w passkey \<Rightarrow> 'w auth_db \<Rightarrow> auth_error option \<times> 'w auth_db" where
  "AddCredential works cred s = (case Owner works s of Inl e \<Rightarrow> (Some e, s)
     | Inr u \<Rightarrow> saveCredentials works (urID u) (urCredentials u @ [cred]) s)"

definition AddFirstCredential :: "auth_luck \<Rightarrow> string \<Rightarrow> 'w passkey \<Rightarrow> 'w auth_db \<Rightarrow> auth_error option \<times> 'w auth_db" where
  "AddFirstCredential works i cred s =
     (if \<not> works FirstTx then (Some (AuthError ''auth: begin first registration''), s)
      else (let mine = (\<lambda>u. urID u = i \<and> \<not> has_passkey u);
                users = (if list_ex mine (adUsers s) then filter (\<lambda>u. \<not> (urID u \<noteq> i \<and> \<not> has_passkey u)) (adUsers s) else adUsers s);
                free = (\<not> list_ex (\<lambda>u. urID u \<noteq> i \<and> has_passkey u) users)
            in if list_ex mine users \<and> free
               then (None, s\<lparr>adUsers := map (\<lambda>u. if mine u then u\<lparr>urCredentials := [cred]\<rparr> else u) users,
                       adMarker := adMarker s @ [(case find (\<lambda>u. urID u = i) users of Some u \<Rightarrow> urUsername u | None \<Rightarrow> '''', 0)]\<rparr>)
               else (Some ErrRegistrationClosed, s\<lparr>adUsers := filter (\<lambda>u. \<not> mine u) users\<rparr>)))"

fun replace_passkey :: "'w passkey \<Rightarrow> 'w passkey list \<Rightarrow> 'w passkey list" where
  "replace_passkey cred [] = []"
| "replace_passkey cred (c # cs) = (if pkID c = pkID cred then cred # cs else c # replace_passkey cred cs)"

definition UpdateCredential :: "auth_luck \<Rightarrow> 'w passkey \<Rightarrow> 'w auth_db \<Rightarrow> auth_error option \<times> 'w auth_db" where
  "UpdateCredential works cred s = (case Owner works s of Inl e \<Rightarrow> (Some e, s)
     | Inr u \<Rightarrow> if list_ex (\<lambda>c. pkID c = pkID cred) (urCredentials u)
         then saveCredentials works (urID u) (replace_passkey cred (urCredentials u)) s
         else (Some (AuthError ''auth: credential not found for user''), s))"

definition setCredentialLabelAt :: "auth_luck \<Rightarrow> string \<Rightarrow> string \<Rightarrow> time \<Rightarrow> 'w auth_db \<Rightarrow> auth_error option \<times> 'w auth_db" where
  "setCredentialLabelAt works i label createdAt s =
     (if \<not> works SaveLabel then (Some (AuthError ''auth: set credential label''), s)
      else (None, s\<lparr>adLabels := (if list_ex (\<lambda>l. lbCredential l = i) (adLabels s)
        then map (\<lambda>l. if lbCredential l = i then l\<lparr>lbLabel := label\<rparr> else l) (adLabels s)
        else adLabels s @ [\<lparr>lbCredential = i, lbLabel = label, lbCreatedAt = createdAt\<rparr>])\<rparr>))"

definition SetCredentialLabel :: "auth_luck \<Rightarrow> time \<Rightarrow> string \<Rightarrow> string \<Rightarrow> 'w auth_db \<Rightarrow> auth_error option \<times> 'w auth_db" where
  "SetCredentialLabel works now i label = setCredentialLabelAt works i label now"

definition label_of :: "'w auth_db \<Rightarrow> string \<Rightarrow> label_row option" where
  "label_of s i = find (\<lambda>l. lbCredential l = i) (adLabels s)"

definition ListCredentials :: "auth_luck \<Rightarrow> 'w auth_db \<Rightarrow> auth_error + label_row list" where
  "ListCredentials works s = (case Owner works s of Inl e \<Rightarrow> Inl e
     | Inr u \<Rightarrow> if \<not> works ListLabels then Inl (AuthError ''auth: list credential labels'')
         else Inr (sort_key lbCreatedAt (map (\<lambda>c. case label_of s (pkID c) of
             Some l \<Rightarrow> l | None \<Rightarrow> \<lparr>lbCredential = pkID c, lbLabel = '''', lbCreatedAt = urCreatedAt u\<rparr>) (urCredentials u))))"

definition RenameCredential :: "auth_luck \<Rightarrow> string \<Rightarrow> string \<Rightarrow> 'w auth_db \<Rightarrow> (auth_error + label_row) \<times> 'w auth_db" where
  "RenameCredential works i label s = (case Owner works s of Inl e \<Rightarrow> (Inl e, s)
     | Inr u \<Rightarrow> if \<not> list_ex (\<lambda>c. pkID c = i) (urCredentials u) then (Inl ErrCredentialNotFound, s)
         else if \<not> works FindLabel then (Inl (AuthError ''auth: read credential added time''), s)
         else (let at = (case label_of s i of Some l \<Rightarrow> lbCreatedAt l | None \<Rightarrow> urCreatedAt u)
               in case setCredentialLabelAt works i label at s of
                    (Some e, s') \<Rightarrow> (Inl e, s')
                  | (None, s') \<Rightarrow> (Inr \<lparr>lbCredential = i, lbLabel = label, lbCreatedAt = at\<rparr>, s')))"

fun delete_passkey :: "string \<Rightarrow> 'w passkey list \<Rightarrow> 'w passkey list" where
  "delete_passkey i [] = []"
| "delete_passkey i (c # cs) = (if pkID c = i then cs else c # delete_passkey i cs)"

definition RemoveCredential :: "auth_luck \<Rightarrow> string \<Rightarrow> 'w auth_db \<Rightarrow> auth_error option \<times> 'w auth_db" where
  "RemoveCredential works i s = (case Owner works s of Inl e \<Rightarrow> (Some e, s)
     | Inr u \<Rightarrow> if \<not> list_ex (\<lambda>c. pkID c = i) (urCredentials u) then (None, s)
         else if length (urCredentials u) \<le> 1 then (Some ErrLastCredential, s)
         else (case saveCredentials works (urID u) (delete_passkey i (urCredentials u)) s of
             (Some e, s') \<Rightarrow> (Some e, s')
           | (None, s') \<Rightarrow> if works DropLabel then (None, s'\<lparr>adLabels := filter (\<lambda>l. lbCredential l \<noteq> i) (adLabels s')\<rparr>)
               else (Some (AuthError ''auth: delete credential metadata''), s')))"

record reset_result =
  rsUsername :: string
  rsPasskeys :: nat
  rsSessions :: nat
  rsTokens :: nat

definition ResetPasskeys :: "auth_luck \<Rightarrow> bool \<Rightarrow> 'w auth_db \<Rightarrow> (auth_error + reset_result) \<times> 'w auth_db" where
  "ResetPasskeys works withTokens s = (case Owner works s of Inl e \<Rightarrow> (Inl e, s)
     | Inr u \<Rightarrow> if \<not> works ResetTx then (Inl (AuthError ''auth: commit reset''), s)
         else (Inr \<lparr>rsUsername = urUsername u, rsPasskeys = length (urCredentials u), rsSessions = length (adSessions s),
                 rsTokens = (if withTokens then length (adTokens s) else 0)\<rparr>,
               (with_credentials (urID u) [] s)\<lparr>adLabels := [], adCeremonies := [], adSessions := [],
                 adTokens := (if withTokens then [] else adTokens s)\<rparr>))"

section \<open>Ceremonies\<close>

definition insert_ceremony :: "string \<Rightarrow> string \<Rightarrow> 'w session_data \<Rightarrow> time \<Rightarrow> 'w ceremony list \<Rightarrow> 'w ceremony list" where
  "insert_ceremony key kind session expires cs =
     (if list_ex (\<lambda>c. cmKey c = key \<and> cmKind c = kind) cs
      then map (\<lambda>c. if cmKey c = key \<and> cmKind c = kind then c\<lparr>cmSession := session, cmExpiresAt := expires\<rparr> else c) cs
      else cs @ [\<lparr>cmKey = key, cmKind = kind, cmSession = session, cmExpiresAt = expires\<rparr>])"

text \<open>Of the ceremonies of the kind only the newest stay, one fewer than the bound.\<close>

definition bound_ceremonies :: "string \<Rightarrow> 'w ceremony list \<Rightarrow> 'w ceremony list" where
  "bound_ceremonies kind cs =
     (let dropped = drop (maxPendingCeremonies - 1) (sort_key (\<lambda>c. - cmExpiresAt c) (filter (\<lambda>c. cmKind c = kind) cs))
      in filter (\<lambda>c. \<not> (cmKind c = kind \<and> List.member (map cmKey dropped) (cmKey c))) cs)"

definition SaveCeremony :: "auth_luck \<Rightarrow> time \<Rightarrow> string \<Rightarrow> string \<Rightarrow> 'w session_data \<Rightarrow> duration \<Rightarrow> 'w auth_db \<Rightarrow>
    auth_error option \<times> 'w auth_db" where
  "SaveCeremony works now key kind session ttl s =
     (if \<not> works PruneCeremonies then (Some (AuthError ''auth: prune expired ceremonies''), s)
      else (let s1 = s\<lparr>adCeremonies := filter (\<lambda>c. \<not> cmExpiresAt c < now) (adCeremonies s)\<rparr>
            in if \<not> works BoundCeremonies then (Some (AuthError ''auth: bound pending ceremonies''), s1)
               else (let s2 = s1\<lparr>adCeremonies := bound_ceremonies kind (adCeremonies s1)\<rparr>
                     in if \<not> works InsertCeremony then (Some (AuthError ''auth: save ceremony''), s2)
                        else (None, s2\<lparr>adCeremonies := insert_ceremony key kind session (now + ttl) (adCeremonies s2)\<rparr>))))"

definition LoadCeremony :: "auth_luck \<Rightarrow> time \<Rightarrow> string \<Rightarrow> string \<Rightarrow> 'w auth_db \<Rightarrow> auth_error + 'w session_data" where
  "LoadCeremony works now key kind s = (if \<not> works FindCeremony then Inl (AuthError ''auth: load ceremony'')
     else case find (\<lambda>c. cmKey c = key \<and> cmKind c = kind) (adCeremonies s) of
        None \<Rightarrow> Inl ErrNotFound | Some c \<Rightarrow> if now > cmExpiresAt c then Inl ErrNotFound else Inr (cmSession c))"

definition DeleteCeremony :: "auth_luck \<Rightarrow> string \<Rightarrow> string \<Rightarrow> 'w auth_db \<Rightarrow> 'w auth_db" where
  "DeleteCeremony works key kind s = (if \<not> works DropCeremony then s
     else s\<lparr>adCeremonies := filter (\<lambda>c. \<not> (cmKey c = key \<and> cmKind c = kind)) (adCeremonies s)\<rparr>)"

section \<open>Sessions and API tokens\<close>

definition CreateSession :: "auth_luck \<Rightarrow> time \<Rightarrow> duration \<Rightarrow> string \<Rightarrow> 'w auth_db \<Rightarrow> (auth_error + string) \<times> 'w auth_db" where
  "CreateSession works now ttl token s =
     (if \<not> works InsertSession \<or> list_ex (\<lambda>r. ssToken r = token) (adSessions s) then (Inl (AuthError ''auth: create session''), s)
      else (Inr token, s\<lparr>adSessions := adSessions s @ [\<lparr>ssToken = token, ssExpiresAt = now + ttl\<rparr>]\<rparr>))"

definition UserForSession :: "auth_luck \<Rightarrow> time \<Rightarrow> string \<Rightarrow> 'w auth_db \<Rightarrow> auth_error + 'w user_row" where
  "UserForSession works now token s = (if \<not> works FindSession then Inl (AuthError ''auth: load session'')
     else case find (\<lambda>r. ssToken r = token) (adSessions s) of
        None \<Rightarrow> Inl ErrNotFound | Some r \<Rightarrow> if now > ssExpiresAt r then Inl ErrNotFound else Owner works s)"

definition DeleteSession :: "auth_luck \<Rightarrow> string \<Rightarrow> 'w auth_db \<Rightarrow> auth_error option \<times> 'w auth_db" where
  "DeleteSession works token s = (if \<not> works DropSession then (Some (AuthError ''auth: delete session''), s)
     else (None, s\<lparr>adSessions := filter (\<lambda>r. ssToken r \<noteq> token) (adSessions s)\<rparr>))"

text \<open>\<open>hash\<close> is SHA-256 in hexadecimal; \<open>encode\<close> is base64.\<close>

definition apiTokenPrefix :: string where "apiTokenPrefix = ''fdb_''"

definition CreateAPIToken :: "auth_luck \<Rightarrow> (string \<Rightarrow> string) \<Rightarrow> time \<Rightarrow> string \<Rightarrow> string \<Rightarrow> string \<Rightarrow> time \<Rightarrow> 'w auth_db \<Rightarrow>
    (auth_error + string \<times> token_row) \<times> 'w auth_db" where
  "CreateAPIToken works hash now i secret label expiresAt s =
     (let raw = apiTokenPrefix @ secret;
          row = \<lparr>tkID = i, tkLabel = label, tkHash = hash raw, tkCreatedAt = now, tkExpiresAt = Some expiresAt, tkLastUsedAt = None\<rparr>
      in if \<not> works InsertToken \<or> list_ex (\<lambda>r. tkID r = i \<or> tkHash r = hash raw) (adTokens s)
         then (Inl (AuthError ''auth: create api token''), s)
         else (Inr (raw, row), s\<lparr>adTokens := adTokens s @ [row]\<rparr>))"

definition ListAPITokens :: "auth_luck \<Rightarrow> 'w auth_db \<Rightarrow> auth_error + token_row list" where
  "ListAPITokens works s = (if \<not> works ListTokens then Inl (AuthError ''auth: list api tokens'')
     else Inr (sort_key (\<lambda>r. (tkCreatedAt r, tkID r)) (adTokens s)))"

definition UserForAPIToken :: "auth_luck \<Rightarrow> (string \<Rightarrow> string) \<Rightarrow> time \<Rightarrow> string \<Rightarrow> 'w auth_db \<Rightarrow>
    (auth_error + 'w user_row) \<times> 'w auth_db" where
  "UserForAPIToken works hash now raw s =
     (if \<not> works FindToken then (Inl (AuthError ''auth: load api token''), s)
      else case find (\<lambda>r. tkHash r = hash raw) (adTokens s) of
        None \<Rightarrow> (Inl ErrNotFound, s)
      | Some r \<Rightarrow>
          if (case tkExpiresAt r of None \<Rightarrow> True | Some t \<Rightarrow> now > t) then (Inl ErrNotFound, s)
          else (let s' = (if works MarkToken
                   then s\<lparr>adTokens := map (\<lambda>t. if tkHash t = hash raw then t\<lparr>tkLastUsedAt := Some now\<rparr> else t) (adTokens s)\<rparr> else s)
                in (Owner works s', s')))"

definition DeleteAPIToken :: "auth_luck \<Rightarrow> string \<Rightarrow> 'w auth_db \<Rightarrow> auth_error option \<times> 'w auth_db" where
  "DeleteAPIToken works i s = (if \<not> works DropToken then (Some (AuthError ''auth: delete api token''), s)
     else (None, s\<lparr>adTokens := filter (\<lambda>r. tkID r \<noteq> i) (adTokens s)\<rparr>))"

section \<open>One owner\<close>

text \<open>The tables' keys are unique, and at most one user holds a passkey.\<close>

definition auth_sound :: "'w auth_db \<Rightarrow> bool" where
  "auth_sound s \<longleftrightarrow> distinct (map urID (adUsers s)) \<and> length (filter has_passkey (adUsers s)) \<le> 1"

definition registered :: "'w auth_db \<Rightarrow> bool" where "registered s \<longleftrightarrow> list_ex has_passkey (adUsers s)"

lemma first_row_props:
  assumes "first_row users = Some u"
  shows "u \<in> set users" and "list_ex has_passkey users \<Longrightarrow> has_passkey u"
proof -
  let ?k = "\<lambda>u. (\<not> has_passkey u, urCreatedAt u)"
  obtain rest where r: "sort_key ?k users = u # rest" using assms by (auto simp: first_row_def split: list.splits)
  then have "u \<in> set (sort_key ?k users)" by simp
  then show "u \<in> set users" by simp
  show "has_passkey u" if some: "list_ex has_passkey users"
  proof (rule ccontr)
    assume no: "\<not> has_passkey u"
    obtain v where v: "v \<in> set users" "has_passkey v" using some by (auto simp: list_ex_iff)
    have "sorted (map ?k (u # rest))" using sorted_sort_key[of ?k users] by (simp only: r)
    moreover have "v \<in> set (u # rest)" using v(1) unfolding r[symmetric] by simp
    ultimately have "?k u \<le> ?k v" by auto
    then show False using no v(2) by simp
  qed
qed

lemma first_row_None: "first_row users = None \<longleftrightarrow> users = []"
proof -
  have "sort_key f users = [] \<longleftrightarrow> users = []" for f :: "'a user_row \<Rightarrow> bool \<times> int"
    by (metis length_0_conv length_sort)
  then show ?thesis by (auto simp: first_row_def split: list.split)
qed

lemma registered_count: "registered s \<longleftrightarrow> length (filter has_passkey (adUsers s)) \<noteq> 0"
  by (auto simp: registered_def list_ex_iff filter_empty_conv)

lemma owner_of: "Owner works s = Inr u \<Longrightarrow> u \<in> set (adUsers s) \<and> (registered s \<longrightarrow> has_passkey u)"
  using first_row_props[of "adUsers s" u] by (auto simp: Owner_def registered_def split: if_splits option.splits)

text \<open>Writing passkeys to one row: the count of rows that hold one changes by that row alone.\<close>

lemma set_credentials_count:
  assumes "distinct (map urID us)" "u \<in> set us"
  shows "length (filter has_passkey (map (\<lambda>v. if urID v = urID u then v\<lparr>urCredentials := creds\<rparr> else v) us))
    + (if has_passkey u then 1 else 0) = length (filter has_passkey us) + (if creds = [] then 0 else 1)"
  using assms
proof (induction us)
  case (Cons v us)
  show ?case
  proof (cases "urID v = urID u")
    case True
    then have "u = v" using Cons.prems by (auto dest: imageI[of _ _ urID])
    moreover have "map (\<lambda>v'. if urID v' = urID v then v'\<lparr>urCredentials := creds\<rparr> else v') us = us"
      using Cons.prems(1) by (intro map_idI) (metis distinct.simps(2) imageI list.set_map list.simps(9))
    ultimately show ?thesis by (simp add: has_passkey_def)
  next
    case False
    then have "u \<in> set us" using Cons.prems(2) by auto
    then show ?thesis using False Cons by (simp split: if_splits)
  qed
qed simp

lemma with_credentials_ids [simp]: "map urID (adUsers (with_credentials i creds s)) = map urID (adUsers s)"
  by (simp add: with_credentials_def comp_def if_distrib cong: if_cong)

lemma owner_credentials:
  assumes "auth_sound s" "Owner works s = Inr u"
  shows "auth_sound (with_credentials (urID u) creds s)" and "registered (with_credentials (urID u) creds s) \<longleftrightarrow> creds \<noteq> []"
proof -
  have d: "distinct (map urID (adUsers s))" and n: "length (filter has_passkey (adUsers s)) \<le> 1" using assms(1) by (simp_all add: auth_sound_def)
  have u: "u \<in> set (adUsers s)" "registered s \<longrightarrow> has_passkey u" using owner_of[OF assms(2)] by auto
  have "has_passkey u \<Longrightarrow> length (filter has_passkey (adUsers s)) = 1"
  proof -
    assume "has_passkey u"
    then have "u \<in> set (filter has_passkey (adUsers s))" using u(1) by simp
    then have "length (filter has_passkey (adUsers s)) > 0" by (rule length_pos_if_in_set)
    then show "length (filter has_passkey (adUsers s)) = 1" using n by linarith
  qed
  then have "length (filter has_passkey (adUsers (with_credentials (urID u) creds s))) = (if creds = [] then 0 else 1)"
    using set_credentials_count[OF d u(1), of creds] u(2) registered_count[of s] by (auto simp: with_credentials_def split: if_splits)
  then show "auth_sound (with_credentials (urID u) creds s)" "registered (with_credentials (urID u) creds s) \<longleftrightarrow> creds \<noteq> []"
    using d by (simp_all add: auth_sound_def registered_count split: if_splits)
qed

lemma save_credentials_sound:
  assumes "auth_sound s" "Owner works' s = Inr u" "creds \<noteq> []" "saveCredentials works (urID u) creds s = (e, s')"
  shows "auth_sound s' \<and> (registered s \<longrightarrow> registered s') \<and> (e = None \<longrightarrow> registered s')"
  using assms owner_credentials[OF assms(1,2), of creds] by (auto simp: saveCredentials_def split: if_splits)

lemma AddCredential_sound:
  assumes "auth_sound s" "AddCredential works cred s = (e, s')"
  shows "auth_sound s' \<and> (registered s \<longrightarrow> registered s')"
proof (cases "Owner works s")
  case (Inr u)
  then show ?thesis using assms save_credentials_sound[OF assms(1) Inr, of "urCredentials u @ [cred]"]
    by (simp add: AddCredential_def)
qed (use assms in \<open>simp add: AddCredential_def\<close>)

lemma replace_passkey_Nil [simp]: "replace_passkey c cs = [] \<longleftrightarrow> cs = []"
  by (cases cs) auto

lemma UpdateCredential_sound:
  assumes "auth_sound s" "UpdateCredential works cred s = (e, s')"
  shows "auth_sound s' \<and> (registered s \<longrightarrow> registered s')"
proof (cases "Owner works s")
  case (Inl x)
  then show ?thesis using assms by (simp add: UpdateCredential_def)
next
  case (Inr u)
  then show ?thesis using assms save_credentials_sound[OF assms(1) Inr, of "replace_passkey cred (urCredentials u)"]
    by (cases "urCredentials u") (auto simp: UpdateCredential_def split: if_splits)
qed

lemma delete_passkey_length: "length cs \<le> length (delete_passkey i cs) + 1"
  by (induction cs) auto

text \<open>Removing a passkey never takes the last one.\<close>

lemma RemoveCredential_sound:
  assumes "auth_sound s" "RemoveCredential works i s = (e, s')"
  shows "auth_sound s' \<and> (registered s \<longrightarrow> registered s')"
proof (cases "Owner works s")
  case (Inl x)
  then show ?thesis using assms by (simp add: RemoveCredential_def)
next
  case (Inr u)
  show ?thesis
  proof (cases "list_ex (\<lambda>c. pkID c = i) (urCredentials u) \<and> \<not> length (urCredentials u) \<le> 1")
    case False
    then show ?thesis using assms Inr by (auto simp: RemoveCredential_def split: if_splits)
  next
    case True
    obtain e1 s1 where sv: "saveCredentials works (urID u) (delete_passkey i (urCredentials u)) s = (e1, s1)" by (metis prod.exhaust)
    have "delete_passkey i (urCredentials u) \<noteq> []" using True delete_passkey_length[of "urCredentials u" i] by (metis add_0 list.size(3))
    note s1 = save_credentials_sound[OF assms(1) Inr this sv]
    have "adUsers s' = adUsers s1" using assms(2) Inr True sv by (auto simp: RemoveCredential_def split: option.splits if_splits)
    then show ?thesis using s1 by (simp add: auth_sound_def registered_def)
  qed
qed

lemma keep_passkeys: "(\<And>u. u \<in> set us \<Longrightarrow> has_passkey u \<Longrightarrow> P u) \<Longrightarrow> filter has_passkey (filter P us) = filter has_passkey us"
  by (induction us) auto

lemma AddFirstCredential_sound:
  assumes s: "auth_sound s" and add: "AddFirstCredential works i cred s = (e, s')"
  shows "auth_sound s'" and "e = None \<Longrightarrow> \<not> registered s \<and> registered s' \<and> (\<exists>u. Owner (\<lambda>_. True) s' = Inr u \<and> urID u = i \<and> urCredentials u = [cred])"
    and "e \<noteq> None \<Longrightarrow> registered s' = registered s"
proof -
  define mine where "mine = (\<lambda>u :: 'a user_row. urID u = i \<and> \<not> has_passkey u)"
  define users where "users = (if list_ex mine (adUsers s) then filter (\<lambda>u. \<not> (urID u \<noteq> i \<and> \<not> has_passkey u)) (adUsers s) else adUsers s)"
  have same: "filter has_passkey users = filter has_passkey (adUsers s)"
    unfolding users_def by (cases "list_ex mine (adUsers s)") (simp_all only: if_True if_False, rule keep_passkeys, blast)
  have d: "distinct (map urID users)" using s by (simp add: users_def auth_sound_def distinct_map_filter)
  have n: "length (filter has_passkey (adUsers s)) \<le> 1" using s by (simp add: auth_sound_def)
  consider (no) "e = Some (AuthError ''auth: begin first registration'')" "s' = s"
    | (refused) "e = Some ErrRegistrationClosed" "s' = s\<lparr>adUsers := filter (\<lambda>u. \<not> mine u) users\<rparr>"
    | (attached) m where "e = None" "list_ex mine users" "\<not> list_ex (\<lambda>u. urID u \<noteq> i \<and> has_passkey u) users"
        "s' = s\<lparr>adUsers := map (\<lambda>u. if mine u then u\<lparr>urCredentials := [cred]\<rparr> else u) users, adMarker := m\<rparr>"
    using add by (fastforce simp: AddFirstCredential_def Let_def mine_def[symmetric] users_def[symmetric] split: if_splits)
  note c = this
  have att: "auth_sound s' \<and> \<not> registered s \<and> registered s' \<and> (\<exists>u. Owner (\<lambda>_. True) s' = Inr u \<and> urID u = i \<and> urCredentials u = [cred])"
    if "e = None"
  proof -
    obtain m where a: "list_ex mine users" "\<not> list_ex (\<lambda>u. urID u \<noteq> i \<and> has_passkey u) users"
        "s' = s\<lparr>adUsers := map (\<lambda>u. if mine u then u\<lparr>urCredentials := [cred]\<rparr> else u) users, adMarker := m\<rparr>"
      using c \<open>e = None\<close> by cases auto
    obtain u where u: "u \<in> set users" "mine u" using a(1) by (auto simp: list_ex_iff)
    have mine_id: "mine v \<longleftrightarrow> urID v = urID u" if "v \<in> set users" for v
      using that u d by (metis distinct_map inj_onD mine_def)
    have none: "\<not> has_passkey v" if "v \<in> set users" for v
      using that a(2) mine_id[OF that] u(2) by (auto simp: list_ex_iff mine_def)
    then have f: "filter has_passkey users = []" by (simp add: filter_empty_conv)
    have us: "adUsers s' = map (\<lambda>v. if urID v = urID u then v\<lparr>urCredentials := [cred]\<rparr> else v) users"
      using mine_id by (auto simp: a(3))
    have "length (filter has_passkey (adUsers s')) = 1"
      using set_credentials_count[OF d u(1), of "[cred]"] none[OF u(1)] by (simp only: us f) simp
    moreover have "map urID (adUsers s') = map urID users" unfolding us by (simp add: comp_def if_distrib cong: if_cong)
    ultimately have s': "auth_sound s'" "registered s'" using d by (simp_all add: auth_sound_def registered_count)
    obtain w where w: "first_row (adUsers s') = Some w"
      using s'(2) first_row_None[of "adUsers s'"] by (cases "first_row (adUsers s')") (auto simp: registered_def)
    have "w \<in> set (adUsers s')" "has_passkey w" using first_row_props[OF w] s'(2) by (auto simp: registered_def)
    then have "urID w = i \<and> urCredentials w = [cred]" using none u(2) by (auto simp: us has_passkey_def mine_def split: if_splits)
    then show ?thesis using s' f same w by (simp add: registered_count Owner_def)
  qed
  have ref: "filter has_passkey (adUsers s') = filter has_passkey (adUsers s) \<and> distinct (map urID (adUsers s'))" if "e \<noteq> None"
    using c that
  proof cases
    case refused
    then show ?thesis using same d keep_passkeys[of users "\<lambda>u. \<not> mine u"] by (simp add: mine_def distinct_map_filter)
  qed (use s in \<open>simp_all add: auth_sound_def\<close>)
  show "auth_sound s'" using att ref n by (cases "e = None") (auto simp: auth_sound_def)
  show "e = None \<Longrightarrow> \<not> registered s \<and> registered s' \<and> (\<exists>u. Owner (\<lambda>_. True) s' = Inr u \<and> urID u = i \<and> urCredentials u = [cred])"
    using att by blast
  show "e \<noteq> None \<Longrightarrow> registered s' = registered s" using ref by (simp add: registered_count)
qed

lemma passkeyless_kept: "filter has_passkey (map (\<lambda>v. if urID v = i then v\<lparr>urDisplayName := n\<rparr> else v) us)
    = map (\<lambda>v. if urID v = i then v\<lparr>urDisplayName := n\<rparr> else v) (filter has_passkey us)"
  by (induction us) (auto simp: has_passkey_def)

lemma Claim_sound:
  assumes "auth_sound s" "ClaimUnregisteredUser works i now username displayName olderThan s = (r, s')"
  shows "auth_sound s' \<and> registered s' = registered s"
proof -
  obtain r0 where c: "claimOrCreate works i now username displayName olderThan s = (r0, s')"
    using assms(2) by (auto simp: ClaimUnregisteredUser_def split: prod.splits sum.splits auth_error.splits)
  show ?thesis
  proof (cases "first_row (filter (\<lambda>u. \<not> has_passkey u) (adUsers s))")
    case None
    then show ?thesis using c assms(1)
      by (auto simp: claimOrCreate_def CreateUser_def Let_def auth_sound_def registered_def has_passkey_def list_ex_iff split: if_splits)
  next
    case (Some u)
    let ?keep = "\<lambda>v. \<not> (\<not> has_passkey v \<and> urID v \<noteq> urID u \<and> urCreatedAt v < olderThan)"
    consider "s' = s" | "adUsers s' = map (\<lambda>v. if urID v = urID u then v\<lparr>urDisplayName := displayName\<rparr> else v) (filter ?keep (adUsers s))"
      using c Some by (auto simp: claimOrCreate_def Let_def split: if_splits)
    then show ?thesis
    proof cases
      case 2
      have "map urID (adUsers s') = map urID (filter ?keep (adUsers s))" unfolding 2 by (simp add: comp_def if_distrib cong: if_cong)
      moreover have "length (filter has_passkey (adUsers s')) = length (filter has_passkey (adUsers s))"
        unfolding 2 passkeyless_kept length_map by (subst keep_passkeys) simp_all
      ultimately show ?thesis using assms(1) by (simp add: auth_sound_def registered_count distinct_map_filter)
    qed (use assms(1) in simp)
  qed
qed

lemma Reset_sound:
  assumes "auth_sound s" "ResetPasskeys works t s = (r, s')"
  shows "auth_sound s' \<and> (case r of Inl _ \<Rightarrow> s' = s | Inr _ \<Rightarrow> \<not> registered s' \<and> adSessions s' = [] \<and> adCeremonies s' = [])"
proof (cases "Owner works s")
  case (Inl x)
  then show ?thesis using assms by (auto simp: ResetPasskeys_def)
next
  case (Inr u)
  then show ?thesis using assms owner_credentials[OF assms(1) Inr, of "[]"]
    by (auto simp: ResetPasskeys_def auth_sound_def registered_def split: if_splits)
qed

text \<open>What leaves the users alone.\<close>

lemma users_kept:
  "adUsers (snd (SaveCeremony works now key kind session ttl s)) = adUsers s" "adUsers (DeleteCeremony works key kind s) = adUsers s"
  "adUsers (snd (CreateSession works now ttl token s)) = adUsers s" "adUsers (snd (DeleteSession works token s)) = adUsers s"
  "adUsers (snd (CreateAPIToken works hash now i secret label at s)) = adUsers s" "adUsers (snd (UserForAPIToken works hash now raw s)) = adUsers s"
  "adUsers (snd (DeleteAPIToken works i s)) = adUsers s" "adUsers (snd (setCredentialLabelAt works i label at s)) = adUsers s"
  by (simp_all add: SaveCeremony_def DeleteCeremony_def CreateSession_def DeleteSession_def CreateAPIToken_def UserForAPIToken_def
      DeleteAPIToken_def setCredentialLabelAt_def Let_def split: option.split)

lemma RenameCredential_users: "adUsers (snd (RenameCredential works i label s)) = adUsers s"
  using users_kept(8)[of works i label _ s]
  by (auto simp: RenameCredential_def Let_def split: sum.split option.split prod.split) (metis snd_conv)+

section \<open>Ceremonies are bounded\<close>

definition pending :: "string \<Rightarrow> 'w ceremony list \<Rightarrow> nat" where "pending kind cs = length (filter (\<lambda>c. cmKind c = kind) cs)"

definition ceremony_keys :: "'w ceremony list \<Rightarrow> bool" where
  "ceremony_keys cs \<longleftrightarrow> distinct (map (\<lambda>c. (cmKey c, cmKind c)) cs)"

lemma keys_filter: "ceremony_keys cs \<Longrightarrow> ceremony_keys (filter P cs)"
  by (simp add: ceremony_keys_def distinct_map_filter)

lemma pending_filter: "pending kind (filter P cs) \<le> pending kind cs"
  by (induction cs) (auto simp: pending_def)

lemma bound_pending:
  shows "pending kind (bound_ceremonies kind cs) \<le> maxPendingCeremonies - 1"
    and "kind' \<noteq> kind \<Longrightarrow> pending kind' (bound_ceremonies kind cs) = pending kind' cs"
proof -
  let ?k = "filter (\<lambda>c. cmKind c = kind) cs"
  let ?s = "sort_key (\<lambda>c. - cmExpiresAt c) ?k"
  let ?d = "drop (maxPendingCeremonies - 1) ?s"
  have s: "?s = take (maxPendingCeremonies - 1) ?s @ ?d" by simp
  have "filter (\<lambda>c. cmKind c = kind) (bound_ceremonies kind cs) = filter (\<lambda>c. cmKey c \<notin> cmKey ` set ?d) ?k"
    unfolding bound_ceremonies_def Let_def filter_filter by (rule filter_cong) auto
  also have "length \<dots> = length (filter (\<lambda>c. cmKey c \<notin> cmKey ` set ?d) ?s)"
    unfolding filter_sort by (rule length_sort[symmetric])
  also have "\<dots> = length (filter (\<lambda>c. cmKey c \<notin> cmKey ` set ?d) (take (maxPendingCeremonies - 1) ?s))"
  proof -
    have "filter (\<lambda>c. cmKey c \<notin> cmKey ` set ?d) ?d = []" by (auto simp: filter_empty_conv)
    then show ?thesis by (metis append_Nil2 filter_append s)
  qed
  also have "\<dots> \<le> maxPendingCeremonies - 1" by (rule order_trans[OF length_filter_le]) simp
  finally show "pending kind (bound_ceremonies kind cs) \<le> maxPendingCeremonies - 1" by (simp add: pending_def)
  show "kind' \<noteq> kind \<Longrightarrow> pending kind' (bound_ceremonies kind cs) = pending kind' cs"
    unfolding pending_def bound_ceremonies_def Let_def filter_filter by (rule arg_cong[of _ _ length]) (rule filter_cong, auto)
qed

lemma insert_pending:
  "pending kind' (insert_ceremony key kind session t cs) \<le> pending kind' cs + (if kind' = kind then 1 else 0)"
  "ceremony_keys cs \<Longrightarrow> ceremony_keys (insert_ceremony key kind session t cs)"
proof -
  let ?u = "\<lambda>c. if cmKey c = key \<and> cmKind c = kind then c\<lparr>cmSession := session, cmExpiresAt := t\<rparr> else c"
  have "length (filter (\<lambda>c. cmKind c = kind') (map ?u cs)) = length (filter (\<lambda>c. cmKind c = kind') cs)" by (induction cs) auto
  then show "pending kind' (insert_ceremony key kind session t cs) \<le> pending kind' cs + (if kind' = kind then 1 else 0)"
    by (auto simp: insert_ceremony_def pending_def)
  have "map (\<lambda>c. (cmKey c, cmKind c)) (map ?u cs) = map (\<lambda>c. (cmKey c, cmKind c)) cs" by (induction cs) auto
  then show "ceremony_keys cs \<Longrightarrow> ceremony_keys (insert_ceremony key kind session t cs)"
    by (auto simp: insert_ceremony_def ceremony_keys_def list_ex_iff simp del: map_map)
qed

definition ceremonies_ok :: "'w ceremony list \<Rightarrow> bool" where
  "ceremonies_ok cs \<longleftrightarrow> ceremony_keys cs \<and> (\<forall>kind. pending kind cs \<le> maxPendingCeremonies)"

lemma SaveCeremony_ok: "ceremonies_ok (adCeremonies s) \<Longrightarrow> ceremonies_ok (adCeremonies (snd (SaveCeremony works now key kind session ttl s)))"
proof -
  assume ok: "ceremonies_ok (adCeremonies s)"
  let ?c1 = "filter (\<lambda>c. \<not> cmExpiresAt c < now) (adCeremonies s)"
  let ?c2 = "bound_ceremonies kind ?c1"
  have c1: "ceremony_keys ?c1" "pending k ?c1 \<le> maxPendingCeremonies" for k
    using ok keys_filter[of "adCeremonies s" "\<lambda>c. \<not> cmExpiresAt c < now"]
      order_trans[OF pending_filter[of k "\<lambda>c. \<not> cmExpiresAt c < now" "adCeremonies s"]]
    by (simp_all add: ceremonies_ok_def)
  have c2: "ceremony_keys ?c2" "pending k ?c2 \<le> (if k = kind then maxPendingCeremonies - 1 else maxPendingCeremonies)" for k
  proof -
    show "ceremony_keys ?c2" using keys_filter[OF c1(1)] by (simp add: bound_ceremonies_def Let_def del: filter_filter)
    show "pending k ?c2 \<le> (if k = kind then maxPendingCeremonies - 1 else maxPendingCeremonies)"
      using c1(2)[of k] bound_pending(1)[where kind = kind and cs = ?c1] bound_pending(2)[where kind' = k and kind = kind and cs = ?c1]
      by simp
  qed
  have c3: "pending k (insert_ceremony key kind session t ?c2) \<le> maxPendingCeremonies" for k t
    using c2(2)[of k] insert_pending(1)[of k key kind session t ?c2] by (auto simp: maxPendingCeremonies_def split: if_splits)
  have c2': "pending k ?c2 \<le> maxPendingCeremonies" for k using c2(2)[of k] by (auto split: if_splits)
  show ?thesis using ok c1 c2(1) c2' c3 insert_pending(2)[OF c2(1)]
    by (auto simp: SaveCeremony_def Let_def ceremonies_ok_def)
qed

lemma filter_ceremonies_ok: "ceremonies_ok cs \<Longrightarrow> ceremonies_ok (filter P cs)"
  using keys_filter pending_filter order_trans unfolding ceremonies_ok_def by blast

end
