(* ===== verification/Auth_Service.thy ===== *)
theory Auth_Service
  imports Auth_Store
begin

text \<open>
  Sign-in over HTTP: the ceremonies (\<open>internal/auth/service.go\<close>), the cookie and the guards (\<open>session.go\<close>,
  \<open>middleware.go\<close>) and the handlers (\<open>internal/api\<close>: \<open>auth.go\<close>, \<open>credentials.go\<close>, \<open>tokens.go\<close>). The WebAuthn
  library is a parameter: what it makes of a challenge it draws, and which responses it accepts. The properties are over any
  sequence of requests, with an operator's reset among them.
\<close>

section \<open>Ceremonies\<close>

text \<open>A parsed response carries the challenge the authenticator signed.\<close>

record 'w parsed =
  psChallenge :: string
  psBody :: 'w

record 'w webauthn =
  waBegin :: "'w user_row \<Rightarrow> string \<Rightarrow> 'w session_data option"
  waBeginLogin :: "string \<Rightarrow> 'w session_data option"
  waCreate :: "'w user_row \<Rightarrow> 'w session_data \<Rightarrow> 'w parsed \<Rightarrow> 'w passkey option"
  waLogin :: "'w user_row \<Rightarrow> 'w session_data \<Rightarrow> 'w parsed \<Rightarrow> 'w passkey option"

definition InitialCredentialLabel :: string where "InitialCredentialLabel = ''Initial passkey''"
definition ceremonyTTL :: duration where "ceremonyTTL = 5 * minute"
definition SessionTTL :: duration where "SessionTTL = 30 * 24 * hour"
definition kindRegister :: string where "kindRegister = ''register''"
definition kindLogin :: string where "kindLogin = ''login''"
definition newOwnerUsername :: string where "newOwnerUsername = ''owner''"
definition newOwnerDisplayName :: string where "newOwnerDisplayName = ''Owner''"

text \<open>The random challenge and the id of a new user are arguments.\<close>

definition BeginRegistration :: "auth_luck \<Rightarrow> 'w webauthn \<Rightarrow> string \<Rightarrow> string \<Rightarrow> time \<Rightarrow> 'w auth_db \<Rightarrow>
    (auth_error + 'w session_data) \<times> 'w auth_db" where
  "BeginRegistration works lib challenge i now s =
     (case HasAnyRegisteredUser works s of
        Inl e \<Rightarrow> (Inl e, s)
      | Inr True \<Rightarrow> (Inl ErrRegistrationClosed, s)
      | Inr False \<Rightarrow> (case ClaimUnregisteredUser works i now newOwnerUsername newOwnerDisplayName (now - ceremonyTTL) s of
          (Inl e, s1) \<Rightarrow> (Inl e, s1)
        | (Inr u, s1) \<Rightarrow> (case waBegin lib u challenge of
            None \<Rightarrow> (Inl (AuthError ''auth: begin registration''), s1)
          | Some session \<Rightarrow> (case SaveCeremony works now (sdChallenge session) kindRegister session ceremonyTTL s1 of
              (Some e, s2) \<Rightarrow> (Inl e, s2) | (None, s2) \<Rightarrow> (Inr session, s2)))))"

definition registerWith :: "auth_luck \<Rightarrow> 'w webauthn \<Rightarrow> time \<Rightarrow> 'w session_data \<Rightarrow> 'w parsed \<Rightarrow> 'w auth_db \<Rightarrow>
    (auth_error + 'w user_row) \<times> 'w auth_db" where
  "registerWith works lib now session p s =
     (case userByID works (sdUserID session) s of
        Inl e \<Rightarrow> (Inl e, s)
      | Inr u \<Rightarrow> (case waCreate lib u session p of
          None \<Rightarrow> (Inl (AuthError ''auth: finish registration''), s)
        | Some cred \<Rightarrow> (case AddFirstCredential works (urID u) cred s of
            (Some e, s1) \<Rightarrow> (Inl e, s1)
          | (None, s1) \<Rightarrow> (case SetCredentialLabel works now (pkID cred) InitialCredentialLabel s1 of
              (Some e, s2) \<Rightarrow> (Inl e, s2)
            | (None, s2) \<Rightarrow> (Inr (u\<lparr>urCredentials := urCredentials u @ [cred]\<rparr>), s2)))))"

text \<open>Win or lose, a ceremony that was found is over.\<close>

definition FinishRegistration :: "auth_luck \<Rightarrow> 'w webauthn \<Rightarrow> time \<Rightarrow> 'w parsed option \<Rightarrow> 'w auth_db \<Rightarrow>
    (auth_error + 'w user_row) \<times> 'w auth_db" where
  "FinishRegistration works lib now request s =
     (case request of
        None \<Rightarrow> (Inl (AuthError ''auth: parse registration response''), s)
      | Some p \<Rightarrow> (case LoadCeremony works now (psChallenge p) kindRegister s of
          Inl e \<Rightarrow> (Inl e, s)
        | Inr session \<Rightarrow> (case registerWith works lib now session p s of
            (r, s') \<Rightarrow> (r, DeleteCeremony works (psChallenge p) kindRegister s'))))"

definition BeginAddCredential :: "auth_luck \<Rightarrow> 'w webauthn \<Rightarrow> string \<Rightarrow> time \<Rightarrow> 'w user_row \<Rightarrow> 'w auth_db \<Rightarrow>
    (auth_error + 'w session_data) \<times> 'w auth_db" where
  "BeginAddCredential works lib challenge now u s =
     (case waBegin lib u challenge of
        None \<Rightarrow> (Inl (AuthError ''auth: begin add credential''), s)
      | Some session \<Rightarrow> (case SaveCeremony works now (urUsername u) kindRegister session ceremonyTTL s of
          (Some e, s1) \<Rightarrow> (Inl e, s1) | (None, s1) \<Rightarrow> (Inr session, s1)))"

definition addWith :: "auth_luck \<Rightarrow> 'w webauthn \<Rightarrow> time \<Rightarrow> 'w user_row \<Rightarrow> string \<Rightarrow> 'w session_data \<Rightarrow> 'w parsed option \<Rightarrow>
    'w auth_db \<Rightarrow> (auth_error + label_row) \<times> 'w auth_db" where
  "addWith works lib now u label session request s =
     (case Option.bind request (waCreate lib u session) of
        None \<Rightarrow> (Inl (AuthError ''auth: finish add credential''), s)
      | Some cred \<Rightarrow> (case AddCredential works cred s of
          (Some e, s1) \<Rightarrow> (Inl e, s1)
        | (None, s1) \<Rightarrow> (case setCredentialLabelAt works (pkID cred) label now s1 of
            (Some e, s2) \<Rightarrow> (Inl e, s2)
          | (None, s2) \<Rightarrow> (Inr \<lparr>lbCredential = pkID cred, lbLabel = label, lbCreatedAt = now\<rparr>, s2))))"

definition FinishAddCredential :: "auth_luck \<Rightarrow> 'w webauthn \<Rightarrow> time \<Rightarrow> 'w user_row \<Rightarrow> string \<Rightarrow> 'w parsed option \<Rightarrow> 'w auth_db \<Rightarrow>
    (auth_error + label_row) \<times> 'w auth_db" where
  "FinishAddCredential works lib now u label request s =
     (case LoadCeremony works now (urUsername u) kindRegister s of
        Inl e \<Rightarrow> (Inl e, s)
      | Inr session \<Rightarrow> (case addWith works lib now u label session request s of
          (r, s') \<Rightarrow> (r, DeleteCeremony works (urUsername u) kindRegister s')))"

definition BeginLogin :: "auth_luck \<Rightarrow> 'w webauthn \<Rightarrow> string \<Rightarrow> time \<Rightarrow> 'w auth_db \<Rightarrow>
    (auth_error + 'w session_data) \<times> 'w auth_db" where
  "BeginLogin works lib challenge now s =
     (case Owner works s of
        Inl e \<Rightarrow> (Inl e, s)
      | Inr u \<Rightarrow> if urCredentials u = [] then (Inl ErrNotFound, s)
          else (case waBeginLogin lib challenge of
            None \<Rightarrow> (Inl (AuthError ''auth: begin login''), s)
          | Some session \<Rightarrow> (case SaveCeremony works now (sdChallenge session) kindLogin session ceremonyTTL s of
              (Some e, s1) \<Rightarrow> (Inl e, s1) | (None, s1) \<Rightarrow> (Inr session, s1))))"

definition loginWith :: "auth_luck \<Rightarrow> 'w webauthn \<Rightarrow> 'w session_data \<Rightarrow> 'w parsed \<Rightarrow> 'w auth_db \<Rightarrow>
    (auth_error + 'w user_row) \<times> 'w auth_db" where
  "loginWith works lib session p s =
     (case Owner works s of
        Inl e \<Rightarrow> (Inl e, s)
      | Inr u \<Rightarrow> (case waLogin lib u session p of
          None \<Rightarrow> (Inl (AuthError ''auth: finish login''), s)
        | Some cred \<Rightarrow> (case UpdateCredential works cred s of
            (Some e, s1) \<Rightarrow> (Inl e, s1) | (None, s1) \<Rightarrow> (Inr u, s1))))"

definition FinishLogin :: "auth_luck \<Rightarrow> 'w webauthn \<Rightarrow> time \<Rightarrow> 'w parsed option \<Rightarrow> 'w auth_db \<Rightarrow>
    (auth_error + 'w user_row) \<times> 'w auth_db" where
  "FinishLogin works lib now request s =
     (case request of
        None \<Rightarrow> (Inl (AuthError ''auth: parse login response''), s)
      | Some p \<Rightarrow> (case LoadCeremony works now (psChallenge p) kindLogin s of
          Inl e \<Rightarrow> (Inl e, s)
        | Inr session \<Rightarrow> (case loginWith works lib session p s of
            (r, s') \<Rightarrow> (r, DeleteCeremony works (psChallenge p) kindLogin s'))))"

section \<open>The guards\<close>

record auth_request =
  aqCookie :: "string option"
  aqAuthorization :: string

definition SessionToken :: "auth_request \<Rightarrow> string option" where
  "SessionToken r = (case aqCookie r of None \<Rightarrow> None | Some v \<Rightarrow> if v = '''' then None else Some v)"

definition BearerToken :: "auth_request \<Rightarrow> string option" where
  "BearerToken r = (case cut_prefix (aqAuthorization r) ''Bearer '' of None \<Rightarrow> None | Some v \<Rightarrow> if v = '''' then None else Some v)"

text \<open>Let through as a user, or answered with a status.\<close>

datatype 'w gate = Through "'w user_row" | Answered nat

definition RequireAuth :: "auth_luck \<Rightarrow> (string \<Rightarrow> string) \<Rightarrow> time \<Rightarrow> auth_request \<Rightarrow> 'w auth_db \<Rightarrow> 'w gate \<times> 'w auth_db" where
  "RequireAuth works hash now r s =
     (let answer = (\<lambda>u. case u of Inr u \<Rightarrow> Through u | Inl e \<Rightarrow> if e = ErrNotFound then Answered 401 else Answered 500)
      in case SessionToken r of
           Some token \<Rightarrow> (answer (UserForSession works now token s), s)
         | None \<Rightarrow> (case BearerToken r of
             Some token \<Rightarrow> (case UserForAPIToken works hash now token s of (u, s') \<Rightarrow> (answer u, s'))
           | None \<Rightarrow> (Answered 401, s)))"

definition RequireSession :: "auth_luck \<Rightarrow> (string \<Rightarrow> string) \<Rightarrow> time \<Rightarrow> auth_request \<Rightarrow> 'w auth_db \<Rightarrow> 'w gate \<times> 'w auth_db" where
  "RequireSession works hash now r s =
     (if SessionToken r = None \<and> BearerToken r \<noteq> None then (Answered 403, s) else RequireAuth works hash now r s)"

definition requireAuthPage :: "auth_luck \<Rightarrow> time \<Rightarrow> auth_request \<Rightarrow> 'w auth_db \<Rightarrow> 'w gate" where
  "requireAuthPage works now r s = (case SessionToken r of
     None \<Rightarrow> Answered 302
   | Some token \<Rightarrow> (case UserForSession works now token s of Inr u \<Rightarrow> Through u | Inl _ \<Rightarrow> Answered 302))"

section \<open>The handlers\<close>

text \<open>A status, and the session cookie that is set or the API token that is shown.\<close>

record auth_reply =
  ryStatus :: nat
  rySecret :: "string option"

definition reply :: "nat \<Rightarrow> auth_reply" where "reply status = \<lparr>ryStatus = status, rySecret = None\<rparr>"

definition handleRegisterBegin :: "auth_luck \<Rightarrow> 'w webauthn \<Rightarrow> string \<Rightarrow> string \<Rightarrow> time \<Rightarrow> 'w auth_db \<Rightarrow> auth_reply \<times> 'w auth_db" where
  "handleRegisterBegin works lib challenge i now s = (case BeginRegistration works lib challenge i now s of
     (Inl e, s') \<Rightarrow> (reply (if e = ErrRegistrationClosed then 403 else 500), s') | (Inr _, s') \<Rightarrow> (reply 200, s'))"

definition handleRegistrationStatus :: "auth_luck \<Rightarrow> 'w auth_db \<Rightarrow> nat \<times> bool" where
  "handleRegistrationStatus works s = (case HasAnyRegisteredUser works s of Inl _ \<Rightarrow> (500, False) | Inr b \<Rightarrow> (200, \<not> b))"

definition startSession :: "auth_luck \<Rightarrow> time \<Rightarrow> string \<Rightarrow> 'w auth_db \<Rightarrow> auth_reply \<times> 'w auth_db" where
  "startSession works now token s = (case CreateSession works now SessionTTL token s of
     (Inl _, s') \<Rightarrow> (reply 500, s') | (Inr t, s') \<Rightarrow> (\<lparr>ryStatus = 200, rySecret = Some t\<rparr>, s'))"

definition handleRegisterFinish :: "auth_luck \<Rightarrow> 'w webauthn \<Rightarrow> time \<Rightarrow> string \<Rightarrow> 'w parsed option \<Rightarrow> 'w auth_db \<Rightarrow>
    auth_reply \<times> 'w auth_db" where
  "handleRegisterFinish works lib now token request s = (case FinishRegistration works lib now request s of
     (Inl e, s') \<Rightarrow> (reply (if e = ErrRegistrationClosed then 403 else 400), s') | (Inr _, s') \<Rightarrow> startSession works now token s')"

definition handleLoginBegin :: "auth_luck \<Rightarrow> 'w webauthn \<Rightarrow> string \<Rightarrow> time \<Rightarrow> 'w auth_db \<Rightarrow> auth_reply \<times> 'w auth_db" where
  "handleLoginBegin works lib challenge now s = (case BeginLogin works lib challenge now s of
     (Inl e, s') \<Rightarrow> (reply (if e = ErrNotFound then 404 else 500), s') | (Inr _, s') \<Rightarrow> (reply 200, s'))"

definition handleLoginFinish :: "auth_luck \<Rightarrow> 'w webauthn \<Rightarrow> time \<Rightarrow> string \<Rightarrow> 'w parsed option \<Rightarrow> 'w auth_db \<Rightarrow>
    auth_reply \<times> 'w auth_db" where
  "handleLoginFinish works lib now token request s = (case FinishLogin works lib now request s of
     (Inl _, s') \<Rightarrow> (reply 400, s') | (Inr _, s') \<Rightarrow> startSession works now token s')"

definition handleLogout :: "auth_luck \<Rightarrow> auth_request \<Rightarrow> 'w auth_db \<Rightarrow> auth_reply \<times> 'w auth_db" where
  "handleLogout works r s = (reply 204, case SessionToken r of None \<Rightarrow> s | Some token \<Rightarrow> snd (DeleteSession works token s))"

definition maxPasskeyNameRunes :: nat where "maxPasskeyNameRunes = 64"

definition passkeyNameTooLong :: "string \<Rightarrow> bool" where
  "passkeyNameTooLong label \<longleftrightarrow> rune_count label > maxPasskeyNameRunes"

definition handleCredentialsAddBegin :: "auth_luck \<Rightarrow> 'w webauthn \<Rightarrow> string \<Rightarrow> time \<Rightarrow> 'w user_row \<Rightarrow> 'w auth_db \<Rightarrow>
    auth_reply \<times> 'w auth_db" where
  "handleCredentialsAddBegin works lib challenge now u s = (case BeginAddCredential works lib challenge now u s of
     (Inl _, s') \<Rightarrow> (reply 500, s') | (Inr _, s') \<Rightarrow> (reply 200, s'))"

definition handleCredentialsAddFinish :: "auth_luck \<Rightarrow> 'w webauthn \<Rightarrow> time \<Rightarrow> 'w user_row \<Rightarrow> string \<Rightarrow> 'w parsed option \<Rightarrow>
    'w auth_db \<Rightarrow> auth_reply \<times> 'w auth_db" where
  "handleCredentialsAddFinish works lib now u query request s =
     (let label = trim_space query
      in if label = '''' \<or> passkeyNameTooLong label then (reply 400, s)
         else case FinishAddCredential works lib now u label request s of
           (Inl _, s') \<Rightarrow> (reply 400, s') | (Inr _, s') \<Rightarrow> (reply 201, s'))"

text \<open>The decoded body: none for one that is no JSON, and then a label or none.\<close>

definition handleCredentialsRename :: "auth_luck \<Rightarrow> string \<Rightarrow> string option option \<Rightarrow> 'w auth_db \<Rightarrow> auth_reply \<times> 'w auth_db" where
  "handleCredentialsRename works i body s =
     (case body of
        None \<Rightarrow> (reply 400, s)
      | Some given \<Rightarrow>
          (let label = (case given of None \<Rightarrow> '''' | Some l \<Rightarrow> trim_space l)
           in if label = '''' \<or> passkeyNameTooLong label then (reply 400, s)
              else case RenameCredential works i label s of
                (Inl e, s') \<Rightarrow> (reply (if e = ErrCredentialNotFound then 404 else 500), s') | (Inr _, s') \<Rightarrow> (reply 200, s')))"

definition handleCredentialsDelete :: "auth_luck \<Rightarrow> string \<Rightarrow> 'w auth_db \<Rightarrow> auth_reply \<times> 'w auth_db" where
  "handleCredentialsDelete works i s = (case RemoveCredential works i s of
     (Some e, s') \<Rightarrow> (reply (if e = ErrLastCredential then 400 else 500), s') | (None, s') \<Rightarrow> (reply 204, s'))"

definition maxLabelLen :: nat where "maxLabelLen = 100"
definition maxAPITokenLifetime :: duration where "maxAPITokenLifetime = 366 * 24 * hour"

definition handleTokensPost :: "auth_luck \<Rightarrow> (string \<Rightarrow> string) \<Rightarrow> time \<Rightarrow> string \<Rightarrow> string \<Rightarrow> (string \<times> time) option \<Rightarrow> 'w auth_db \<Rightarrow>
    auth_reply \<times> 'w auth_db" where
  "handleTokensPost works hash now i secret body s =
     (case body of
        None \<Rightarrow> (reply 400, s)
      | Some (given, expiresAt) \<Rightarrow>
          (let label = trim_space given
           in if rune_count label > maxLabelLen \<or> label = '''' then (reply 400, s)
              else if \<not> expiresAt > now \<or> expiresAt > now + maxAPITokenLifetime then (reply 400, s)
              else case CreateAPIToken works hash now i secret label expiresAt s of
                (Inl _, s') \<Rightarrow> (reply 500, s') | (Inr (raw, _), s') \<Rightarrow> (\<lparr>ryStatus = 201, rySecret = Some raw\<rparr>, s')))"

definition handleTokensDelete :: "auth_luck \<Rightarrow> string \<Rightarrow> 'w auth_db \<Rightarrow> auth_reply \<times> 'w auth_db" where
  "handleTokensDelete works i s = (case DeleteAPIToken works i s of
     (Some _, s') \<Rightarrow> (reply 500, s') | (None, s') \<Rightarrow> (reply 204, s'))"

section \<open>A life of requests\<close>

datatype 'w auth_call =
    RegisterBegin string string
  | RegisterFinish string "'w parsed option"
  | LoginBegin string
  | LoginFinish string "'w parsed option"
  | Logout
  | AddBegin string
  | AddFinish string "'w parsed option"
  | Rename string "string option option"
  | Remove string
  | TokenCreate string string "(string \<times> time) option"
  | TokenRevoke string
  | Visit
  | OperatorReset bool

record 'w auth_step =
  atWorks :: auth_luck
  atNow :: time
  atRequest :: auth_request
  atCall :: "'w auth_call"

definition guarded :: "(string \<Rightarrow> string) \<Rightarrow> 'w auth_step \<Rightarrow> ('w user_row \<Rightarrow> 'w auth_db \<Rightarrow> auth_reply \<times> 'w auth_db) \<Rightarrow> 'w auth_db \<Rightarrow>
    auth_reply \<times> 'w auth_db" where
  "guarded hash e handler s = (case RequireAuth (atWorks e) hash (atNow e) (atRequest e) s of
     (Through u, s') \<Rightarrow> handler u s' | (Answered n, s') \<Rightarrow> (reply n, s'))"

definition serve :: "'w webauthn \<Rightarrow> (string \<Rightarrow> string) \<Rightarrow> 'w auth_step \<Rightarrow> 'w auth_db \<Rightarrow> auth_reply \<times> 'w auth_db" where
  "serve lib hash e s = (let w = atWorks e; now = atNow e in case atCall e of
     RegisterBegin challenge i \<Rightarrow> handleRegisterBegin w lib challenge i now s
   | RegisterFinish token p \<Rightarrow> handleRegisterFinish w lib now token p s
   | LoginBegin challenge \<Rightarrow> handleLoginBegin w lib challenge now s
   | LoginFinish token p \<Rightarrow> handleLoginFinish w lib now token p s
   | Logout \<Rightarrow> handleLogout w (atRequest e) s
   | AddBegin challenge \<Rightarrow> guarded hash e (handleCredentialsAddBegin w lib challenge now) s
   | AddFinish label p \<Rightarrow> guarded hash e (\<lambda>u. handleCredentialsAddFinish w lib now u label p) s
   | Rename i body \<Rightarrow> guarded hash e (\<lambda>_. handleCredentialsRename w i body) s
   | Remove i \<Rightarrow> guarded hash e (\<lambda>_. handleCredentialsDelete w i) s
   | TokenCreate i secret body \<Rightarrow> guarded hash e (\<lambda>_. handleTokensPost w hash now i secret body) s
   | TokenRevoke i \<Rightarrow> guarded hash e (\<lambda>_. handleTokensDelete w i) s
   | Visit \<Rightarrow> guarded hash e (\<lambda>_ s. (reply 200, s)) s
   | OperatorReset t \<Rightarrow> (reply 0, snd (ResetPasskeys w t s)))"

definition after :: "'w webauthn \<Rightarrow> (string \<Rightarrow> string) \<Rightarrow> 'w auth_step list \<Rightarrow> 'w auth_db" where
  "after lib hash es = fold (\<lambda>e s. snd (serve lib hash e s)) es empty_auth"

section \<open>What holds at every moment\<close>

definition auth_inv :: "'w auth_db \<Rightarrow> bool" where
  "auth_inv s \<longleftrightarrow> auth_sound s \<and> ceremonies_ok (adCeremonies s) \<and> (adSessions s \<noteq> [] \<longrightarrow> registered s)"

text \<open>A change that keeps this, keeps an owner, and leaves sessions and tokens alone, but for when a token was last used.\<close>

definition token_facts :: "'w auth_db \<Rightarrow> (string \<times> time option) list" where
  "token_facts s = map (\<lambda>t. (tkHash t, tkExpiresAt t)) (adTokens s)"

definition quiet :: "'w auth_db \<Rightarrow> 'w auth_db \<Rightarrow> bool" where
  "quiet s s' \<longleftrightarrow> (auth_inv s \<longrightarrow> auth_inv s' \<and> (registered s \<longrightarrow> registered s')) \<and> adSessions s' = adSessions s \<and> token_facts s' = token_facts s"

lemma quiet_refl [simp]: "quiet s s" by (simp add: quiet_def)
lemma quiet_trans: "quiet s s1 \<Longrightarrow> quiet s1 s2 \<Longrightarrow> quiet s s2" by (simp add: quiet_def)

lemma quietI:
  assumes "auth_sound s \<Longrightarrow> auth_sound s' \<and> (registered s \<longrightarrow> registered s')"
    and "adCeremonies s' = adCeremonies s" "adSessions s' = adSessions s" "adTokens s' = adTokens s"
  shows "quiet s s'"
  using assms by (auto simp: quiet_def auth_inv_def token_facts_def)

lemma with_credentials_rest [simp]:
  "adCeremonies (with_credentials i creds s) = adCeremonies s" "adSessions (with_credentials i creds s) = adSessions s"
  "adTokens (with_credentials i creds s) = adTokens s"
  by (simp_all add: with_credentials_def)

lemma saveCredentials_rest [simp]:
  "adCeremonies (snd (saveCredentials works i creds s)) = adCeremonies s" "adSessions (snd (saveCredentials works i creds s)) = adSessions s"
  "adTokens (snd (saveCredentials works i creds s)) = adTokens s"
  by (simp_all add: saveCredentials_def)

lemma quiet_passkeys:
  "quiet s (snd (AddCredential works cred s))" "quiet s (snd (UpdateCredential works cred s))" "quiet s (snd (RemoveCredential works i s))"
proof -
  show "quiet s (snd (AddCredential works cred s))"
    using AddCredential_sound[of s works cred]
    by (intro quietI) (metis prod.collapse, auto simp: AddCredential_def split: sum.split)
  show "quiet s (snd (UpdateCredential works cred s))"
    using UpdateCredential_sound[of s works cred]
    by (intro quietI) (metis prod.collapse, auto simp: UpdateCredential_def split: sum.split)
  show "quiet s (snd (RemoveCredential works i s))"
    using RemoveCredential_sound[of s works i]
    by (intro quietI) (metis prod.collapse, auto simp: RemoveCredential_def saveCredentials_def split: sum.split option.split prod.split)
qed

lemma quiet_first: "quiet s (snd (AddFirstCredential works i cred s))"
proof (rule quietI)
  obtain e s' where a: "AddFirstCredential works i cred s = (e, s')" by (metis prod.exhaust)
  show "auth_sound s \<Longrightarrow> auth_sound (snd (AddFirstCredential works i cred s)) \<and>
      (registered s \<longrightarrow> registered (snd (AddFirstCredential works i cred s)))"
    using AddFirstCredential_sound[OF _ a] by (cases e) (auto simp: a)
qed (simp_all add: AddFirstCredential_def Let_def)

lemma quiet_claim: "quiet s (snd (ClaimUnregisteredUser works i now username displayName olderThan s))"
proof (rule quietI)
  obtain r s' where c: "ClaimUnregisteredUser works i now username displayName olderThan s = (r, s')" by (metis prod.exhaust)
  show "auth_sound s \<Longrightarrow> auth_sound (snd (ClaimUnregisteredUser works i now username displayName olderThan s)) \<and>
      (registered s \<longrightarrow> registered (snd (ClaimUnregisteredUser works i now username displayName olderThan s)))"
    using Claim_sound[OF _ c] by (auto simp: c)
qed (auto simp: ClaimUnregisteredUser_def claimOrCreate_def CreateUser_def Let_def
      split: prod.split sum.split auth_error.split option.split)

lemma quiet_ceremonies: "quiet s (snd (SaveCeremony works now key kind session ttl s))" "quiet s (DeleteCeremony works key kind s)"
proof -
  have rest: "adSessions (snd (SaveCeremony works now key kind session ttl s)) = adSessions s"
    "adTokens (snd (SaveCeremony works now key kind session ttl s)) = adTokens s"
    by (simp_all add: SaveCeremony_def Let_def)
  show "quiet s (snd (SaveCeremony works now key kind session ttl s))"
    using rest users_kept(1)[of works now key kind session ttl s] SaveCeremony_ok[of s works now key kind session ttl]
    by (simp add: quiet_def auth_inv_def auth_sound_def registered_def token_facts_def)
  show "quiet s (DeleteCeremony works key kind s)"
    using filter_ceremonies_ok[of "adCeremonies s"]
    by (simp add: DeleteCeremony_def quiet_def auth_inv_def auth_sound_def registered_def token_facts_def)
qed

lemma quiet_labels: "quiet s (snd (setCredentialLabelAt works i label at s))" "quiet s (snd (RenameCredential works i label s))"
proof -
  show l: "quiet s (snd (setCredentialLabelAt works i label at s))" for at
    by (rule quietI) (simp_all add: setCredentialLabelAt_def auth_sound_def registered_def)
  have "snd (RenameCredential works i label s) = s \<or> (\<exists>at. snd (RenameCredential works i label s) = snd (setCredentialLabelAt works i label at s))"
    by (auto simp: RenameCredential_def Let_def split: sum.split option.split prod.split) (metis snd_conv)+
  then show "quiet s (snd (RenameCredential works i label s))" using l by auto
qed

text \<open>The ceremonies.\<close>

lemma quiet_BeginRegistration: "quiet s (snd (BeginRegistration works lib challenge i now s))"
proof -
  obtain r s1 where c: "ClaimUnregisteredUser works i now newOwnerUsername newOwnerDisplayName (now - ceremonyTTL) s = (r, s1)"
    by (metis prod.exhaust)
  have s1: "quiet s s1" using quiet_claim[of s works i now newOwnerUsername newOwnerDisplayName "now - ceremonyTTL"] by (simp add: c)
  have "quiet s (snd (SaveCeremony works now key kind session ttl s1))" for key kind session ttl
    by (rule quiet_trans[OF s1 quiet_ceremonies(1)])
  then show ?thesis using s1
    by (auto simp: BeginRegistration_def c split: sum.split bool.split option.split prod.split) (metis snd_conv)+
qed

lemma quiet_registerWith: "quiet s (snd (registerWith works lib now session p s))"
proof -
  have "quiet s (snd (SetCredentialLabel works now j l (snd (AddFirstCredential works i cred s))))" for i j l cred
    unfolding SetCredentialLabel_def by (rule quiet_trans[OF quiet_first quiet_labels(1)])
  then show ?thesis using quiet_first[of s works]
    by (auto simp: registerWith_def split: sum.split option.split prod.split) (metis snd_conv)+
qed

lemma quiet_FinishRegistration: "quiet s (snd (FinishRegistration works lib now request s))"
  by (simp add: FinishRegistration_def split_beta quiet_trans[OF quiet_registerWith quiet_ceremonies(2)] split: sum.split option.split)

lemma quiet_begin_add: "quiet s (snd (BeginAddCredential works lib challenge now u s))" "quiet s (snd (BeginLogin works lib challenge now s))"
  using quiet_ceremonies(1)[of s works now]
  by (auto simp: BeginAddCredential_def BeginLogin_def split: sum.split option.split prod.split) (metis snd_conv)+

lemma quiet_addWith: "quiet s (snd (addWith works lib now u label session request s))"
proof -
  have "quiet s (snd (setCredentialLabelAt works j l at (snd (AddCredential works cred s))))" for j l at cred
    by (rule quiet_trans[OF quiet_passkeys(1) quiet_labels(1)])
  then show ?thesis using quiet_passkeys(1)[of s works]
    by (auto simp: addWith_def split: sum.split option.split prod.split) (metis snd_conv)+
qed

lemma quiet_FinishAddCredential: "quiet s (snd (FinishAddCredential works lib now u label request s))"
  by (simp add: FinishAddCredential_def split_beta quiet_trans[OF quiet_addWith quiet_ceremonies(2)] split: sum.split option.split)

lemma quiet_loginWith: "quiet s (snd (loginWith works lib session p s))"
  using quiet_passkeys(2)[of s works]
  by (auto simp: loginWith_def split: sum.split option.split prod.split) (metis snd_conv)+

lemma quiet_FinishLogin: "quiet s (snd (FinishLogin works lib now request s))"
  by (simp add: FinishLogin_def split_beta quiet_trans[OF quiet_loginWith quiet_ceremonies(2)] split: sum.split option.split)

lemma quiet_gate: "quiet s (snd (RequireAuth works hash now r s))"
proof -
  have "quiet s (snd (UserForAPIToken works hash now raw s))" for raw
  proof -
    have "map (\<lambda>t. (tkHash t, tkExpiresAt t)) (map (\<lambda>t. if tkHash t = hash raw then t\<lparr>tkLastUsedAt := Some now\<rparr> else t) ts)
        = map (\<lambda>t. (tkHash t, tkExpiresAt t)) ts" for ts by (induction ts) auto
    then show ?thesis
      by (auto simp: UserForAPIToken_def Let_def quiet_def auth_inv_def auth_sound_def registered_def token_facts_def simp del: map_map split: option.split)
  qed
  then show ?thesis
    by (auto simp: RequireAuth_def Let_def split: option.split prod.split) (metis snd_conv)+
qed

lemma guarded_quiet:
  assumes "\<And>u s. quiet s (snd (handler u s))"
  shows "quiet s (snd (guarded hash e handler s))"
proof -
  obtain g s1 where g: "RequireAuth (atWorks e) hash (atNow e) (atRequest e) s = (g, s1)" by (metis prod.exhaust)
  then have "quiet s s1" using quiet_gate[of s "atWorks e" hash "atNow e" "atRequest e"] by simp
  then show ?thesis using quiet_trans[OF _ assms] by (cases g) (simp_all add: guarded_def g)
qed

text \<open>The passkey was checked: the ceremony begun with this challenge is in the table and not over, and the library accepts
  the response, for the owner at a sign-in, and at a registration for the row it began with while nobody holds a passkey.\<close>

definition open_ceremony :: "'w auth_db \<Rightarrow> time \<Rightarrow> string \<Rightarrow> string \<Rightarrow> 'w session_data \<Rightarrow> bool" where
  "open_ceremony s now key kind session \<longleftrightarrow>
     (\<exists>c\<in>set (adCeremonies s). cmKey c = key \<and> cmKind c = kind \<and> cmSession c = session \<and> now \<le> cmExpiresAt c)"

definition passkey_checked :: "'w webauthn \<Rightarrow> 'w auth_step \<Rightarrow> 'w auth_db \<Rightarrow> bool" where
  "passkey_checked lib e s \<longleftrightarrow> (case atCall e of
     RegisterFinish _ (Some p) \<Rightarrow> \<not> registered s \<and> (\<exists>session u. open_ceremony s (atNow e) (psChallenge p) kindRegister session
        \<and> u \<in> set (adUsers s) \<and> urID u = sdUserID session \<and> waCreate lib u session p \<noteq> None)
   | LoginFinish _ (Some p) \<Rightarrow> (\<exists>session u cred. open_ceremony s (atNow e) (psChallenge p) kindLogin session
        \<and> Owner (\<lambda>_. True) s = Inr u \<and> waLogin lib u session p = Some cred \<and> pkID cred \<in> pkID ` set (urCredentials u))
   | _ \<Rightarrow> False)"

lemma load_open: "LoadCeremony works now key kind s = Inr session \<Longrightarrow> open_ceremony s now key kind session"
  by (auto simp: LoadCeremony_def open_ceremony_def not_less dest!: find_Some_P split: if_splits option.splits)

lemma register_checked:
  assumes "FinishRegistration works lib now request s = (Inr u, s')" "auth_inv s"
  shows "registered s' \<and> (\<exists>p session v. request = Some p \<and> \<not> registered s \<and> open_ceremony s now (psChallenge p) kindRegister session
     \<and> v \<in> set (adUsers s) \<and> urID v = sdUserID session \<and> waCreate lib v session p \<noteq> None)"
proof -
  obtain p session s1 where p: "request = Some p" "LoadCeremony works now (psChallenge p) kindRegister s = Inr session"
    "registerWith works lib now session p s = (Inr u, s1)" "s' = DeleteCeremony works (psChallenge p) kindRegister s1"
    using assms(1) by (auto simp: FinishRegistration_def split: option.splits sum.splits prod.splits)
  obtain v cred s2 where v: "userByID works (sdUserID session) s = Inr v" "waCreate lib v session p = Some cred"
    "AddFirstCredential works (urID v) cred s = (None, s2)" "s1 = snd (SetCredentialLabel works now (pkID cred) InitialCredentialLabel s2)"
    using p(3) by (auto simp: registerWith_def split: option.splits sum.splits prod.splits)
  have "auth_sound s" using assms(2) by (simp add: auth_inv_def)
  note f = AddFirstCredential_sound(2)[OF this v(3) refl]
  have users: "adUsers s' = adUsers s2"
    using users_kept(2)[of works "psChallenge p" kindRegister s1] users_kept(8)[of works "pkID cred" InitialCredentialLabel now s2]
    by (simp add: p(4) v(4) SetCredentialLabel_def)
  have "v \<in> set (adUsers s) \<and> urID v = sdUserID session"
    using v(1) by (auto simp: userByID_def dest!: find_Some_P split: if_splits option.splits)
  then show ?thesis using f load_open[OF p(2)] p(1) v(2) users by (auto simp: registered_def)
qed

lemma login_checked:
  assumes "FinishLogin works lib now request s = (Inr u, s')"
  shows "\<exists>p session cred. request = Some p \<and> open_ceremony s now (psChallenge p) kindLogin session
     \<and> Owner (\<lambda>_. True) s = Inr u \<and> waLogin lib u session p = Some cred \<and> pkID cred \<in> pkID ` set (urCredentials u)"
proof -
  obtain p session s1 where p: "request = Some p" "LoadCeremony works now (psChallenge p) kindLogin s = Inr session"
    "loginWith works lib session p s = (Inr u, s1)"
    using assms(1) by (auto simp: FinishLogin_def split: option.splits sum.splits prod.splits)
  obtain cred s2 where v: "Owner works s = Inr u" "waLogin lib u session p = Some cred" "UpdateCredential works cred s = (None, s2)"
    using p(3) by (auto simp: loginWith_def split: option.splits sum.splits prod.splits)
  have "pkID cred \<in> pkID ` set (urCredentials u)" "Owner (\<lambda>_. True) s = Inr u"
    using v(1,3) by (auto simp: UpdateCredential_def Owner_def list_ex_iff image_iff split: if_splits option.splits) metis
  then show ?thesis using p load_open[OF p(2)] v(2) by blast
qed

text \<open>What one request can do, on a sound database.\<close>

lemma start_session:
  assumes "startSession works now token s = (y, s')"
  obtains (none) "s' = s" "rySecret y = None"
    | (granted) "s' = s\<lparr>adSessions := adSessions s @ [\<lparr>ssToken = token, ssExpiresAt = now + SessionTTL\<rparr>]\<rparr>" "rySecret y = Some token"
  using assms by (auto simp: startSession_def CreateSession_def reply_def split: if_splits)

lemma gate_cases:
  assumes "guarded hash e handler s = (y, s')"
  obtains (refused) "quiet s s'" "rySecret y = None"
    | (through) u s1 where "quiet s s1" "fst (RequireAuth (atWorks e) hash (atNow e) (atRequest e) s) = Through u" "handler u s1 = (y, s')"
proof -
  obtain g s1 where g: "RequireAuth (atWorks e) hash (atNow e) (atRequest e) s = (g, s1)" by (metis prod.exhaust)
  have q: "quiet s s1" using quiet_gate[of s "atWorks e" hash "atNow e" "atRequest e"] by (simp add: g)
  show ?thesis
  proof (cases g)
    case (Through u)
    then show ?thesis using through[of s1 u] q assms g by (simp add: guarded_def)
  next
    case (Answered n)
    then show ?thesis using q assms g by - (rule refused; auto simp: guarded_def reply_def)
  qed
qed

lemma guarded_quietly:
  assumes "guarded hash e handler s = (y, s')" "\<And>u s y s'. handler u s = (y, s') \<Longrightarrow> quiet s s' \<and> rySecret y = None"
  shows "quiet s s' \<and> rySecret y = None"
  using assms(1)
proof (cases rule: gate_cases)
  case (through u s1)
  then show ?thesis using assms(2)[OF through(3)] quiet_trans by blast
qed simp

lemma handlers_quiet:
  "handleRegisterBegin works lib challenge i now s = (y, s') \<Longrightarrow> quiet s s' \<and> rySecret y = None"
  "handleLoginBegin works lib challenge now s = (y, s') \<Longrightarrow> quiet s s' \<and> rySecret y = None"
  "handleCredentialsAddBegin works lib challenge now u s = (y, s') \<Longrightarrow> quiet s s' \<and> rySecret y = None"
  "handleCredentialsAddFinish works lib now u l request s = (y, s') \<Longrightarrow> quiet s s' \<and> rySecret y = None"
  "handleCredentialsRename works i body s = (y, s') \<Longrightarrow> quiet s s' \<and> rySecret y = None"
  "handleCredentialsDelete works i s = (y, s') \<Longrightarrow> quiet s s' \<and> rySecret y = None"
  using quiet_BeginRegistration[of s works lib challenge i now] quiet_begin_add[of s works lib challenge now]
    quiet_FinishAddCredential[of s works lib now u "trim_space l" request] quiet_labels(2)[of s works i] quiet_passkeys(3)[of s works i]
  by (auto simp: handleRegisterBegin_def handleLoginBegin_def handleCredentialsAddBegin_def handleCredentialsAddFinish_def
      handleCredentialsRename_def handleCredentialsDelete_def reply_def Let_def split: prod.splits sum.splits option.splits if_splits)
    (metis snd_conv)+

lemma tokens_post:
  assumes "handleTokensPost works hash now i secret body s = (y, s')"
  obtains (none) "s' = s" "rySecret y = None"
    | (made) row raw where "s' = s\<lparr>adTokens := adTokens s @ [row]\<rparr>" "rySecret y = Some raw" "tkHash row = hash raw"
      "\<exists>t. tkExpiresAt row = Some t \<and> t \<le> now + maxAPITokenLifetime"
  using assms by (auto simp: handleTokensPost_def CreateAPIToken_def reply_def Let_def not_less split: option.splits prod.splits if_splits sum.splits)

lemma register_serve:
  assumes "auth_inv s" "serve lib hash e s = (y, s')" "atCall e = RegisterFinish token p"
  obtains (quiet) "quiet s s'" "rySecret y = None"
    | (granted) s1 where "quiet s s1" "registered s1" "rySecret y = Some token" "passkey_checked lib e s"
      "s' = s1\<lparr>adSessions := adSessions s1 @ [\<lparr>ssToken = token, ssExpiresAt = atNow e + SessionTTL\<rparr>]\<rparr>"
proof -
  obtain r s1 where f: "FinishRegistration (atWorks e) lib (atNow e) p s = (r, s1)" by (metis prod.exhaust)
  have q: "quiet s s1" using quiet_FinishRegistration[of s "atWorks e" lib "atNow e" p] by (simp add: f)
  show ?thesis
  proof (cases r)
    case (Inl x)
    then show ?thesis using quiet q assms(2) f assms(3) by (auto simp: serve_def handleRegisterFinish_def reply_def split: if_splits)
  next
    case (Inr u)
    then have st: "startSession (atWorks e) (atNow e) token s1 = (y, s')" using assms(2) f assms(3) by (simp add: serve_def handleRegisterFinish_def)
    note c = register_checked[OF f[unfolded Inr] assms(1)]
    then have rg: "registered s1" "passkey_checked lib e s" using assms(3) by (auto simp: passkey_checked_def) blast
    from st show ?thesis
    proof (cases rule: start_session)
      case none
      then show ?thesis using q quiet by simp
    next
      case granted: granted
      then show ?thesis using \<open>quiet s s1\<close> rg that(2)[of s1] by blast
    qed
  qed
qed

lemma login_serve:
  assumes "auth_inv s" "serve lib hash e s = (y, s')" "atCall e = LoginFinish token p"
  obtains (quiet) "quiet s s'" "rySecret y = None"
    | (granted) s1 where "quiet s s1" "registered s1" "rySecret y = Some token" "passkey_checked lib e s"
      "s' = s1\<lparr>adSessions := adSessions s1 @ [\<lparr>ssToken = token, ssExpiresAt = atNow e + SessionTTL\<rparr>]\<rparr>"
proof -
  obtain r s1 where f: "FinishLogin (atWorks e) lib (atNow e) p s = (r, s1)" by (metis prod.exhaust)
  have q: "quiet s s1" using quiet_FinishLogin[of s "atWorks e" lib "atNow e" p] by (simp add: f)
  show ?thesis
  proof (cases r)
    case (Inl x)
    then show ?thesis using quiet q assms(2,3) f by (auto simp: serve_def handleLoginFinish_def reply_def)
  next
    case (Inr u)
    then have st: "startSession (atWorks e) (atNow e) token s1 = (y, s')" using assms(2,3) f by (simp add: serve_def handleLoginFinish_def)
    note c = login_checked[OF f[unfolded Inr]]
    then obtain p' where p': "p = Some p'" by blast
    have pc: "passkey_checked lib e s"
      using c unfolding passkey_checked_def assms(3) p' auth_call.case option.case option.inject by blast
    have "urCredentials u \<noteq> []" "Owner (\<lambda>_. True) s = Inr u" using c by auto
    then have "registered s" using owner_of by (fastforce simp: registered_def list_ex_iff has_passkey_def)
    then have rg: "registered s1" "passkey_checked lib e s" using q assms(1) pc by (simp_all add: quiet_def)
    from st show ?thesis
    proof (cases rule: start_session)
      case none
      then show ?thesis using q quiet by simp
    next
      case granted: granted
      then show ?thesis using \<open>quiet s s1\<close> rg that(2)[of s1] by blast
    qed
  qed
qed

lemma serve_cases:
  assumes "auth_inv s" "serve lib hash e s = (y, s')"
  obtains (quiet) "quiet s s'" "rySecret y = None"
    | (granted) s1 token where "quiet s s1" "registered s1" "rySecret y = Some token" "passkey_checked lib e s"
      "s' = s1\<lparr>adSessions := adSessions s1 @ [\<lparr>ssToken = token, ssExpiresAt = atNow e + SessionTTL\<rparr>]\<rparr>"
    | (out) token where "atCall e = Logout" "SessionToken (atRequest e) = Some token" "atWorks e DropSession" "rySecret y = None"
      "s' = s\<lparr>adSessions := filter (\<lambda>r. ssToken r \<noteq> token) (adSessions s)\<rparr>"
    | (token) s1 row raw u where "quiet s s1" "fst (RequireAuth (atWorks e) hash (atNow e) (atRequest e) s) = Through u"
      "rySecret y = Some raw" "tkHash row = hash raw" "\<exists>t. tkExpiresAt row = Some t \<and> t \<le> atNow e + maxAPITokenLifetime"
      "s' = s1\<lparr>adTokens := adTokens s1 @ [row]\<rparr>" "\<exists>i secret body. atCall e = TokenCreate i secret body"
    | (revoked) s1 P where "quiet s s1" "rySecret y = None" "s' = s1\<lparr>adTokens := filter P (adTokens s1)\<rparr>"
    | (reset) t r where "atCall e = OperatorReset t" "ResetPasskeys (atWorks e) t s = (Inr r, s')" "rySecret y = None"
proof (cases "atCall e")
  case (RegisterBegin challenge i)
  then have "handleRegisterBegin (atWorks e) lib challenge i (atNow e) s = (y, s')" using assms(2) by (simp add: serve_def)
  from handlers_quiet(1)[OF this] show ?thesis using quiet by blast
next
  case (RegisterFinish token p)
  from assms RegisterFinish show ?thesis by (cases rule: register_serve) (use quiet granted in blast)+
next
  case (LoginBegin challenge)
  then have "handleLoginBegin (atWorks e) lib challenge (atNow e) s = (y, s')" using assms(2) by (simp add: serve_def)
  from handlers_quiet(2)[OF this] show ?thesis using quiet by blast
next
  case (LoginFinish token p)
  from assms LoginFinish show ?thesis by (cases rule: login_serve) (use quiet granted in blast)+
next
  case Logout
  then show ?thesis using assms(2) quiet out
    by (auto simp: serve_def handleLogout_def DeleteSession_def reply_def split: option.splits if_splits)
next
  case (AddBegin challenge)
  then have "guarded hash e (handleCredentialsAddBegin (atWorks e) lib challenge (atNow e)) s = (y, s')" using assms(2) by (simp add: serve_def)
  from guarded_quietly[OF this] handlers_quiet(3) show ?thesis using quiet by blast
next
  case (AddFinish l p)
  then have "guarded hash e (\<lambda>u. handleCredentialsAddFinish (atWorks e) lib (atNow e) u l p) s = (y, s')" using assms(2) by (simp add: serve_def)
  from guarded_quietly[OF this] handlers_quiet(4) show ?thesis using quiet by blast
next
  case (Rename i body)
  then have "guarded hash e (\<lambda>_. handleCredentialsRename (atWorks e) i body) s = (y, s')" using assms(2) by (simp add: serve_def)
  from guarded_quietly[OF this] handlers_quiet(5) show ?thesis using quiet by blast
next
  case (Remove i)
  then have "guarded hash e (\<lambda>_. handleCredentialsDelete (atWorks e) i) s = (y, s')" using assms(2) by (simp add: serve_def)
  from guarded_quietly[OF this] handlers_quiet(6) show ?thesis using quiet by blast
next
  case (TokenCreate i secret body)
  then have "guarded hash e (\<lambda>_. handleTokensPost (atWorks e) hash (atNow e) i secret body) s = (y, s')" using assms(2) by (simp add: serve_def)
  then show ?thesis
  proof (cases rule: gate_cases)
    case (through u s1)
    from through(3) show ?thesis by (cases rule: tokens_post) (use through(1,2) TokenCreate quiet token in blast)+
  qed (rule quiet)
next
  case (TokenRevoke i)
  then have "guarded hash e (\<lambda>_. handleTokensDelete (atWorks e) i) s = (y, s')" using assms(2) by (simp add: serve_def)
  then show ?thesis
  proof (cases rule: gate_cases)
    case (through u s1)
    then show ?thesis using quiet revoked by (auto simp: handleTokensDelete_def DeleteAPIToken_def reply_def split: if_splits)
  qed (rule quiet)
next
  case Visit
  then have "guarded hash e (\<lambda>_ s. (reply 200, s)) s = (y, s')" using assms(2) by (simp add: serve_def)
  from guarded_quietly[OF this] show ?thesis using quiet by (simp add: reply_def)
next
  case (OperatorReset t)
  obtain r s1 where r: "ResetPasskeys (atWorks e) t s = (r, s1)" by (metis prod.exhaust)
  then have y: "y = reply 0" "s' = s1" using assms(2) OperatorReset by (simp_all add: serve_def)
  show ?thesis
  proof (cases r)
    case (Inl x)
    then have "s1 = s" using r by (auto simp: ResetPasskeys_def split: sum.splits if_splits)
    then show ?thesis using quiet y by (simp add: reply_def)
  next
    case (Inr x)
    then show ?thesis using reset[OF OperatorReset] r y by (simp add: reply_def)
  qed
qed

text \<open>The database stays sound under any request.\<close>

lemma inv_serve:
  assumes "auth_inv s"
  shows "auth_inv (snd (serve lib hash e s))"
proof -
  obtain y s' where e: "serve lib hash e s = (y, s')" by (metis prod.exhaust)
  from assms e have "auth_inv s'"
  proof (cases rule: serve_cases)
    case (reset t r)
    then show ?thesis using assms Reset_sound[of s "atWorks e" t "Inr r" s']
      by (auto simp: auth_inv_def ceremonies_ok_def ceremony_keys_def pending_def)
  qed (use assms in \<open>auto simp: quiet_def auth_inv_def auth_sound_def registered_def\<close>)
  then show ?thesis by (simp add: e)
qed

lemma life_snoc: "after lib hash (es @ [e]) = snd (serve lib hash e (after lib hash es))"
  by (simp add: after_def)

lemma inv_after: "auth_inv (after lib hash es)"
proof (induction es rule: rev_induct)
  case Nil
  show ?case by (simp add: after_def empty_auth_def auth_inv_def auth_sound_def ceremonies_ok_def ceremony_keys_def pending_def)
next
  case (snoc e es)
  then show ?case using inv_serve by (simp add: life_snoc)
qed

text \<open>
  The tables of sign-in stay bounded and sound: after any requests, with any statements refused by the
  database, at most one user holds a passkey, ids are unique, and at most a hundred ceremonies of a kind are pending.
\<close>

theorem auth_tables_sound:
  "distinct (map urID (adUsers (after lib hash es))) \<and> length (filter has_passkey (adUsers (after lib hash es))) \<le> 1
   \<and> pending kind (adCeremonies (after lib hash es)) \<le> maxPendingCeremonies"
  using inv_after[of lib hash es] by (simp add: auth_inv_def auth_sound_def ceremonies_ok_def)

text \<open>
  C27: The first passkey closes registration. From the moment a user holds a passkey, until an operator resets,
  that stays so whatever requests come, removals of passkeys included, and no registration begins or finishes: every
  attempt is refused, so no stranger's passkey is attached and no session comes of one.
\<close>

theorem registration_closed:
  assumes "registered (after lib hash es)" "list_all (\<lambda>e. \<not> (\<exists>t. atCall e = OperatorReset t)) later"
  shows "registered (after lib hash (es @ later))
    \<and> (\<forall>challenge i token p. atCall e = RegisterBegin challenge i \<or> atCall e = RegisterFinish token p \<longrightarrow>
         ryStatus (fst (serve lib hash e (after lib hash (es @ later)))) \<noteq> 200
       \<and> rySecret (fst (serve lib hash e (after lib hash (es @ later)))) = None)"
proof -
  have reg: "registered (after lib hash (es @ later))"
    using assms(2)
  proof (induction later rule: rev_induct)
    case Nil
    then show ?case using assms(1) by simp
  next
    case (snoc x later)
    let ?s = "after lib hash (es @ later)"
    obtain y s' where x: "serve lib hash x ?s = (y, s')" by (metis prod.exhaust)
    have r: "registered ?s" using snoc by simp
    from inv_after x have "registered s'"
      by (cases rule: serve_cases) (use r snoc.prems inv_after[of lib hash "es @ later"] in \<open>auto simp: quiet_def registered_def\<close>)
    then show ?case using x by (simp add: life_snoc flip: append_assoc)
  qed
  let ?s = "after lib hash (es @ later)"
  have "ryStatus (fst (serve lib hash e ?s)) \<noteq> 200 \<and> rySecret (fst (serve lib hash e ?s)) = None"
    if "atCall e = RegisterBegin challenge i" for challenge i
  proof -
    have "\<exists>x. BeginRegistration (atWorks e) lib challenge i (atNow e) ?s = (Inl x, ?s)"
      using reg by (cases "atWorks e FindRegistered") (simp_all add: BeginRegistration_def HasAnyRegisteredUser_def registered_def)
    then show ?thesis using that by (auto simp: serve_def handleRegisterBegin_def reply_def split: if_splits)
  qed
  moreover have "ryStatus (fst (serve lib hash e ?s)) \<noteq> 200 \<and> rySecret (fst (serve lib hash e ?s)) = None"
    if c: "atCall e = RegisterFinish token p" for token p
  proof -
    obtain r s' where f: "FinishRegistration (atWorks e) lib (atNow e) p ?s = (r, s')" by (metis prod.exhaust)
    have "\<exists>x. r = Inl x" using register_checked[of "atWorks e" lib "atNow e" p ?s _ s'] f inv_after[of lib hash "es @ later"] reg by (cases r) auto
    then show ?thesis using f c by (auto simp: serve_def handleRegisterFinish_def reply_def split: if_splits)
  qed
  ultimately show ?thesis using reg by blast
qed

text \<open>What takes a session away: a sign-out with its cookie, and an operator's reset, each carried out by the database.\<close>

definition ends_session :: "string \<Rightarrow> 'w auth_step \<Rightarrow> bool" where
  "ends_session token e \<longleftrightarrow> (case atCall e of
     Logout \<Rightarrow> SessionToken (atRequest e) = Some token \<and> atWorks e DropSession
   | OperatorReset _ \<Rightarrow> atWorks e FindOwner \<and> atWorks e ResetTx
   | _ \<Rightarrow> False)"

definition session_granted :: "'w webauthn \<Rightarrow> (string \<Rightarrow> string) \<Rightarrow> 'w auth_step list \<Rightarrow> string \<Rightarrow> time \<Rightarrow> bool" where
  "session_granted lib hash es token expires \<longleftrightarrow> (\<exists>es1 e es2. es = es1 @ e # es2 \<and> passkey_checked lib e (after lib hash es1)
     \<and> rySecret (fst (serve lib hash e (after lib hash es1))) = Some token \<and> expires = atNow e + SessionTTL
     \<and> list_all (\<lambda>x. \<not> ends_session token x) es2)"

definition token_granted :: "'w webauthn \<Rightarrow> (string \<Rightarrow> string) \<Rightarrow> 'w auth_step list \<Rightarrow> string \<Rightarrow> time \<Rightarrow> bool" where
  "token_granted lib hash es h expires \<longleftrightarrow> (\<exists>es1 e es2 raw u. es = es1 @ e # es2
     \<and> fst (RequireAuth (atWorks e) hash (atNow e) (atRequest e) (after lib hash es1)) = Through u
     \<and> (\<exists>i secret body. atCall e = TokenCreate i secret body)
     \<and> rySecret (fst (serve lib hash e (after lib hash es1))) = Some raw \<and> h = hash raw \<and> expires \<le> atNow e + maxAPITokenLifetime)"

lemma session_granted_snoc: "session_granted lib hash es t x \<Longrightarrow> \<not> ends_session t e \<Longrightarrow> session_granted lib hash (es @ [e]) t x"
proof -
  assume g: "session_granted lib hash es t x" and e: "\<not> ends_session t e"
  obtain es1 f es2 where f: "es = es1 @ f # es2" "passkey_checked lib f (after lib hash es1)"
     "rySecret (fst (serve lib hash f (after lib hash es1))) = Some t" "x = atNow f + SessionTTL" "list_all (\<lambda>x. \<not> ends_session t x) es2"
    using g unfolding session_granted_def by blast
  then have "es @ [e] = es1 @ f # (es2 @ [e])" "list_all (\<lambda>x. \<not> ends_session t x) (es2 @ [e])" using e by simp_all
  then show ?thesis using f(2-4) unfolding session_granted_def by blast
qed

lemma token_granted_snoc: "token_granted lib hash es h x \<Longrightarrow> token_granted lib hash (es @ [e]) h x"
  unfolding token_granted_def by (metis append_Cons append_assoc)

definition grants_known :: "'w webauthn \<Rightarrow> (string \<Rightarrow> string) \<Rightarrow> 'w auth_step list \<Rightarrow> 'w auth_db \<Rightarrow> bool" where
  "grants_known lib hash es s \<longleftrightarrow> (\<forall>r\<in>set (adSessions s). session_granted lib hash es (ssToken r) (ssExpiresAt r))
     \<and> (\<forall>(h, x)\<in>set (token_facts s). \<exists>t. x = Some t \<and> token_granted lib hash es h t)"

lemma ended_is_gone:
  assumes "auth_inv s" "r \<in> set (adSessions (snd (serve lib hash e s)))"
  shows "\<not> ends_session (ssToken r) e"
proof
  assume ends: "ends_session (ssToken r) e"
  then consider "atCall e = Logout" "SessionToken (atRequest e) = Some (ssToken r)" "atWorks e DropSession"
    | t where "atCall e = OperatorReset t" "atWorks e FindOwner" "atWorks e ResetTx"
    by (auto simp: ends_session_def split: auth_call.splits)
  then show False
  proof cases
    case 1
    then show ?thesis using assms(2) by (simp add: serve_def handleLogout_def DeleteSession_def)
  next
    case 2
    show ?thesis
    proof (cases "adUsers s = []")
      case True
      then have "\<not> registered s" by (simp add: registered_def)
      then have "adSessions s = []" using assms(1) by (simp add: auth_inv_def)
      then show ?thesis using assms(2) 2 True first_row_None[of "adUsers s"] by (simp add: serve_def ResetPasskeys_def Owner_def)
    next
      case False
      then obtain u where "first_row (adUsers s) = Some u" using first_row_None[of "adUsers s"] by (cases "first_row (adUsers s)") auto
      then show ?thesis using assms(2) 2 by (simp add: serve_def ResetPasskeys_def Owner_def)
    qed
  qed
qed

lemma grants_after: "grants_known lib hash es (after lib hash es)"
proof (induction es rule: rev_induct)
  case Nil
  show ?case by (simp add: grants_known_def after_def empty_auth_def token_facts_def)
next
  case (snoc e es)
  let ?s = "after lib hash es"
  obtain y s' where e: "serve lib hash e ?s = (y, s')" by (metis prod.exhaust)
  have gone: "\<not> ends_session (ssToken r) e" if "r \<in> set (adSessions s')" for r
    using ended_is_gone[OF inv_after[of lib hash es], where r = r and lib = lib and hash = hash and e = e] that by (simp add: e)
  have S: "session_granted lib hash (es @ [e]) (ssToken r) (ssExpiresAt r)" if "r \<in> set (adSessions ?s)" "r \<in> set (adSessions s')" for r
    using snoc that gone by (auto simp: grants_known_def intro: session_granted_snoc)
  have T: "\<exists>t. x = Some t \<and> token_granted lib hash (es @ [e]) h t" if "(h, x) \<in> set (token_facts ?s)" for h x
    using snoc that by (fastforce simp: grants_known_def intro: token_granted_snoc)
  from inv_after e have "grants_known lib hash (es @ [e]) s'"
  proof (cases rule: serve_cases)
    case quiet
    then show ?thesis using S T by (auto simp: grants_known_def quiet_def)
  next
    case (granted s1 token)
    have "session_granted lib hash (es @ [e]) token (atNow e + SessionTTL)"
      using granted(3,4) unfolding session_granted_def by (intro exI[of _ es] exI[of _ e] exI[of _ "[]"]) (simp add: e)
    then show ?thesis using granted S T by (auto simp: grants_known_def quiet_def token_facts_def)
  next
    case (out token)
    then show ?thesis using S T by (auto simp: grants_known_def token_facts_def)
  next
    case (token s1 row raw u)
    obtain t where t: "tkExpiresAt row = Some t" "t \<le> atNow e + maxAPITokenLifetime" using token(5) by blast
    have "token_granted lib hash (es @ [e]) (tkHash row) t"
      unfolding token_granted_def
      by (intro exI[of _ es] exI[of _ e] exI[of _ "[]"] exI[of _ raw] exI[of _ u]) (use token t in \<open>simp add: e\<close>)
    then show ?thesis using token(1,6) t(1) S T by (auto simp: grants_known_def quiet_def token_facts_def)
  next
    case (revoked s1 P)
    have "set (token_facts s') \<subseteq> set (token_facts s1)" unfolding revoked(3) by (auto simp: token_facts_def)
    moreover have "adSessions s' = adSessions ?s" "token_facts s1 = token_facts ?s" using revoked(1,3) by (simp_all add: quiet_def)
    ultimately show ?thesis using S T by (auto simp: grants_known_def)
  next
    case (reset t r)
    have "adSessions s' = [] \<and> set (token_facts s') \<subseteq> set (token_facts ?s)"
      using reset(2) by (auto simp: ResetPasskeys_def token_facts_def split: sum.splits if_splits)
    then show ?thesis using T by (auto simp: grants_known_def)
  qed
  then show ?case by (simp add: life_snoc e)
qed

text \<open>
  C1: Nobody gets in without a passkey. After any requests, with any statements refused by the database: a request let through
  carries a session cookie handed out at most thirty days ago to a sign-in or first registration whose passkey was checked,
  and neither signed out nor reset since; or, without a cookie, a token made at most 366 days before its end by a
  request that was itself let through.
\<close>

theorem nobody_in_without_passkey:
  assumes "fst (RequireAuth works hash now r (after lib hash es)) = Through u"
  shows "(\<exists>token expires. SessionToken r = Some token \<and> session_granted lib hash es token expires \<and> now \<le> expires)
    \<or> (SessionToken r = None \<and> (\<exists>raw expires. BearerToken r = Some raw \<and> token_granted lib hash es (hash raw) expires \<and> now \<le> expires))"
proof (cases "SessionToken r")
  case (Some token)
  then have "\<exists>u. UserForSession works now token (after lib hash es) = Inr u"
    using assms by (auto simp: RequireAuth_def Let_def split: sum.splits if_splits)
  then obtain row where "row \<in> set (adSessions (after lib hash es))" "ssToken row = token" "now \<le> ssExpiresAt row"
    by (auto simp: UserForSession_def not_less dest!: find_Some_P split: if_splits option.splits)
  then show ?thesis using grants_after[of lib hash es] Some by (auto simp: grants_known_def)
next
  case None
  then obtain raw where raw: "BearerToken r = Some raw" "\<exists>u. fst (UserForAPIToken works hash now raw (after lib hash es)) = Inr u"
    using assms by (auto simp: RequireAuth_def Let_def split: option.splits prod.splits sum.splits if_splits)
  then obtain row t where row: "row \<in> set (adTokens (after lib hash es))" "tkHash row = hash raw" "tkExpiresAt row = Some t" "now \<le> t"
    by (auto simp: UserForAPIToken_def Let_def not_less dest!: find_Some_P split: if_splits option.splits)
  then have "(hash raw, Some t) \<in> set (token_facts (after lib hash es))" by (force simp: token_facts_def)
  then have "token_granted lib hash es (hash raw) t" using grants_after[of lib hash es] by (force simp: grants_known_def)
  then show ?thesis using None raw(1) row(4) by blast
qed

text \<open>A ceremony is used once: what a finished sign-in or registration leaves cannot be finished again.\<close>

lemma ceremony_used_up:
  assumes "FinishLogin works lib now (Some p) s = (r, s')" "works FindCeremony" "works DropCeremony"
  shows "fst (FinishLogin works' lib now' (Some p) s') = Inl (if works' FindCeremony then ErrNotFound else AuthError ''auth: load ceremony'')
    \<or> (s' = s \<and> r = Inl ErrNotFound)"
proof (cases "LoadCeremony works now (psChallenge p) kindLogin s")
  case (Inl x)
  then have "x = ErrNotFound" using assms(2) by (auto simp: LoadCeremony_def split: option.splits if_splits)
  then show ?thesis using assms(1) Inl by (simp add: FinishLogin_def)
next
  case (Inr session)
  obtain r1 s1 where "loginWith works lib session p s = (r1, s1)" by (metis prod.exhaust)
  then have s': "s' = DeleteCeremony works (psChallenge p) kindLogin s1" using assms(1) Inr by (simp add: FinishLogin_def)
  have "find (\<lambda>c. cmKey c = psChallenge p \<and> cmKind c = kindLogin) (adCeremonies s') = None"
    using assms(3) by (auto simp: s' DeleteCeremony_def find_None_iff)
  then show ?thesis by (simp add: FinishLogin_def LoadCeremony_def)
qed

definition demo_lib :: "unit webauthn" where
  "demo_lib = \<lparr>waBegin = (\<lambda>u c. Some \<lparr>sdChallenge = c, sdUserID = urID u, sdData = ()\<rparr>), waBeginLogin = (\<lambda>c. Some \<lparr>sdChallenge = c, sdUserID = '''', sdData = ()\<rparr>),
     waCreate = (\<lambda>u s p. if psChallenge p = sdChallenge s then Some \<lparr>pkID = ''k'', pkData = ()\<rparr> else None), waLogin = (\<lambda>u s p. None)\<rparr>"

definition no_credentials :: auth_request where "no_credentials = \<lparr>aqCookie = None, aqAuthorization = ''''\<rparr>"

definition demo_registration :: "unit auth_step list" where
  "demo_registration = [\<lparr>atWorks = (\<lambda>_. True), atNow = 0, atRequest = no_credentials, atCall = RegisterBegin ''c'' ''i''\<rparr>,
     \<lparr>atWorks = (\<lambda>_. True), atNow = second, atRequest = no_credentials, atCall = RegisterFinish ''t'' (Some \<lparr>psChallenge = ''c'', psBody = ()\<rparr>)\<rparr>]"

lemmas auth_eval = after_def serve_def handleRegisterBegin_def handleRegisterFinish_def BeginRegistration_def FinishRegistration_def
  registerWith_def HasAnyRegisteredUser_def ClaimUnregisteredUser_def claimOrCreate_def first_row_def CreateUser_def SaveCeremony_def
  bound_ceremonies_def insert_ceremony_def LoadCeremony_def userByID_def AddFirstCredential_def SetCredentialLabel_def
  setCredentialLabelAt_def DeleteCeremony_def startSession_def CreateSession_def has_passkey_def reply_def

lemma demo_after:
  "adUsers (after demo_lib id demo_registration) = [\<lparr>urID = ''i'', urUsername = ''owner'', urDisplayName = ''Owner'',
     urCredentials = [\<lparr>pkID = ''k'', pkData = ()\<rparr>], urCreatedAt = 0\<rparr>]"
  "adSessions (after demo_lib id demo_registration) = [\<lparr>ssToken = ''t'', ssExpiresAt = second + SessionTTL\<rparr>]"
  by (simp_all add: auth_eval demo_registration_def demo_lib_def empty_auth_def newOwnerUsername_def newOwnerDisplayName_def
      ceremonyTTL_def maxPendingCeremonies_def Let_def)

lemma nobody_in_without_passkey_witness:
  "\<exists>token expires. SessionToken \<lparr>aqCookie = Some ''t'', aqAuthorization = ''''\<rparr> = Some token
     \<and> session_granted demo_lib id demo_registration token expires \<and> minute \<le> expires"
proof -
  let ?r = "\<lparr>aqCookie = Some ''t'', aqAuthorization = ''''\<rparr>"
  have "\<exists>u. fst (RequireAuth (\<lambda>_. True) id minute ?r (after demo_lib id demo_registration)) = Through u"
    using demo_after by (simp add: RequireAuth_def SessionToken_def UserForSession_def Owner_def first_row_def SessionTTL_def)
  then obtain u where "fst (RequireAuth (\<lambda>_. True) id minute ?r (after demo_lib id demo_registration)) = Through u" by blast
  from nobody_in_without_passkey[OF this] show ?thesis by (auto simp: SessionToken_def)
qed

lemma registration_closed_witness:
  "ryStatus (fst (serve demo_lib id \<lparr>atWorks = (\<lambda>_. True), atNow = minute, atRequest = no_credentials, atCall = RegisterBegin ''d'' ''j''\<rparr>
     (after demo_lib id (demo_registration @ demo_registration)))) \<noteq> 200"
proof -
  have "registered (after demo_lib id demo_registration)" by (simp add: registered_def demo_after has_passkey_def)
  moreover have "list_all (\<lambda>e. \<not> (\<exists>t. atCall e = OperatorReset t)) demo_registration" by (simp add: demo_registration_def)
  ultimately show ?thesis
    using registration_closed[of demo_lib id demo_registration demo_registration
      "\<lparr>atWorks = (\<lambda>_. True), atNow = minute, atRequest = no_credentials, atCall = RegisterBegin ''d'' ''j''\<rparr>"] by simp
qed

end
