(* ===== verification/Webhook_Seen.thy ===== *)
theory Webhook_Seen
  imports FD_Model
begin

text \<open>
  The record of webhook deliveries, \<open>internal/dashboard/webhook_seen.go\<close>: when a delivery of each
  event class last arrived for a repo, and when a check delivery last named each commit. The
  store behind it (\<open>webhook_seen\<close>, a table keyed like the record) is written at most once a minute
  per key; it is a map here, and whether a write succeeds is the caller's to say.
\<close>

section \<open>The record\<close>

datatype event_class = EventClassCheck | EventClassPullRequest | EventClassOther

definition ClassifyEvent :: "string \<Rightarrow> event_class" where
  "ClassifyEvent event =
     (if event = ''check_run'' \<or> event = ''status'' then EventClassCheck
      else if event = ''pull_request'' then EventClassPullRequest
      else EventClassOther)"

type_synonym seen_key = "forge \<times> string \<times> string \<times> event_class"   \<comment> \<open>forge, credential, repo, cls\<close>
type_synonym commit_key = "forge \<times> string \<times> string \<times> string"      \<comment> \<open>forge, credential, repo, sha\<close>

definition commitRetention :: duration where "commitRetention = 24 * hour"
definition seenWriteInterval :: duration where "seenWriteInterval = minute"

record webhook_seen =
  wsLast :: "seen_key \<rightharpoonup> time"
  wsStored :: "seen_key \<rightharpoonup> time"
  wsCommits :: "commit_key \<rightharpoonup> time"

definition nothing_seen :: webhook_seen where
  "nothing_seen = \<lparr>wsLast = Map.empty, wsStored = Map.empty, wsCommits = Map.empty\<rparr>"

definition mark_seen :: "seen_key \<Rightarrow> time \<Rightarrow> webhook_seen \<Rightarrow> webhook_seen" where
  "mark_seen key at w = w\<lparr>wsLast := (wsLast w)(key \<mapsto> at)\<rparr>"

definition persistDue :: "seen_key \<Rightarrow> time \<Rightarrow> webhook_seen \<Rightarrow> bool \<times> webhook_seen" where
  "persistDue key at w =
     (if (case wsStored w key of Some prev \<Rightarrow> time_sub at prev < seenWriteInterval | None \<Rightarrow> False)
      then (False, w)
      else (True, w\<lparr>wsStored := (wsStored w)(key \<mapsto> at)\<rparr>))"

definition markCommit :: "commit_key \<Rightarrow> time \<Rightarrow> webhook_seen \<Rightarrow> webhook_seen" where
  "markCommit key at w =
     (let kept = (\<lambda>k. case wsCommits w k of
            Some seen \<Rightarrow> if time_sub at seen > commitRetention then None else Some seen
          | None \<Rightarrow> None)
      in w\<lparr>wsCommits := kept(key \<mapsto> at)\<rparr>)"

section \<open>The aggregator's use of it\<close>

text \<open>
  A source as \<open>credentialFor\<close> sees it: its forge, and the label of its credential where it is a
  \<open>CredentialLabeler\<close>. A source of the forge that is none is passed over.
\<close>

fun credentialFor :: "(forge \<times> string option) list \<Rightarrow> forge \<Rightarrow> string" where
  "credentialFor [] forge = ''''"
| "credentialFor ((f, label) # srcs) forge =
     (if f \<noteq> forge then credentialFor srcs forge
      else (case label of Some l \<Rightarrow> l | None \<Rightarrow> credentialFor srcs forge))"

text \<open>The aggregator's record and the store, if it has one; \<open>sdOk\<close> is whether this write succeeds.\<close>

record seen_state =
  sdSeen :: webhook_seen
  sdStore :: "(seen_key \<rightharpoonup> time) option"

definition markSeen :: "bool \<Rightarrow> seen_key \<Rightarrow> time \<Rightarrow> seen_state \<Rightarrow> seen_state" where
  "markSeen written key at s =
     (let w = mark_seen key at (sdSeen s)
      in case sdStore s of
           None \<Rightarrow> s\<lparr>sdSeen := w\<rparr>
         | Some st \<Rightarrow>
             (case persistDue key at w of
                (False, w') \<Rightarrow> s\<lparr>sdSeen := w'\<rparr>
              | (True, w') \<Rightarrow> s\<lparr>sdSeen := w', sdStore := Some (if written then st(key \<mapsto> at) else st)\<rparr>))"

definition RecordDelivery :: "bool \<Rightarrow> (forge \<times> string option) list \<Rightarrow> forge \<Rightarrow> string \<Rightarrow> string \<Rightarrow> time \<Rightarrow>
    seen_state \<Rightarrow> seen_state" where
  "RecordDelivery written srcs forge fullName event now s =
     markSeen written (forge, credentialFor srcs forge, fullName, ClassifyEvent event) now s"

definition RecordCheckDelivery :: "bool \<Rightarrow> (forge \<times> string option) list \<Rightarrow> forge \<Rightarrow> string \<Rightarrow> string \<Rightarrow> time \<Rightarrow>
    seen_state \<Rightarrow> seen_state" where
  "RecordCheckDelivery written srcs forge fullName sha now s =
     (let credential = credentialFor srcs forge;
          s' = markSeen written (forge, credential, fullName, EventClassCheck) now s
      in s'\<lparr>sdSeen := markCommit (forge, credential, fullName, sha) now (sdSeen s')\<rparr>)"

definition LastCheckDelivery :: "(forge \<times> string option) list \<Rightarrow> forge \<Rightarrow> string \<Rightarrow> string \<Rightarrow> webhook_seen \<Rightarrow> time option" where
  "LastCheckDelivery srcs forge fullName sha w = wsCommits w (forge, credentialFor srcs forge, fullName, sha)"

definition LastDelivery :: "(forge \<times> string option) list \<Rightarrow> forge \<Rightarrow> string \<Rightarrow> event_class \<Rightarrow> webhook_seen \<Rightarrow> time option" where
  "LastDelivery srcs forge fullName cls w = wsLast w (forge, credentialFor srcs forge, fullName, cls)"

text \<open>
  \<open>restoreWebhookSeen\<close>: what the store answers for a forge and credential, \<open>None\<close> where it could
  not be read, is marked and noted as stored, source by source.
\<close>

definition restoreRecord :: "forge \<Rightarrow> string \<Rightarrow> string \<times> event_class \<times> time \<Rightarrow> webhook_seen \<Rightarrow> webhook_seen" where
  "restoreRecord forge credential = (\<lambda>(repo, cls, at) w.
     let key = (forge, credential, repo, cls) in snd (persistDue key at (mark_seen key at w)))"

definition restoreSource :: "(forge \<Rightarrow> string \<Rightarrow> (string \<times> event_class \<times> time) list option) \<Rightarrow> forge \<Rightarrow> string \<Rightarrow>
    webhook_seen \<Rightarrow> webhook_seen" where
  "restoreSource load forge credential w = (case load forge credential of
       None \<Rightarrow> w
     | Some recs \<Rightarrow> fold (restoreRecord forge credential) recs w)"

definition restoreWebhookSeen :: "(forge \<Rightarrow> string \<Rightarrow> (string \<times> event_class \<times> time) list option) \<Rightarrow>
    (forge \<times> string option) list \<Rightarrow> webhook_seen \<Rightarrow> webhook_seen" where
  "restoreWebhookSeen load srcs = fold (\<lambda>(forge, _). restoreSource load forge (credentialFor srcs forge)) srcs"

section \<open>The store lags by less than a minute\<close>

text \<open>
  Every delivery time of the record is backed by a stored one less than \<open>seenWriteInterval\<close> older,
  and what the record notes as stored is what the store holds.
\<close>

definition backed :: "webhook_seen \<Rightarrow> bool" where
  "backed w \<longleftrightarrow> (\<forall>key at. wsLast w key = Some at \<longrightarrow>
     (\<exists>kept. wsStored w key = Some kept \<and> at - kept < seenWriteInterval))"

definition store_close :: "seen_state \<Rightarrow> bool" where
  "store_close s \<longleftrightarrow> sdStore s = Some (wsStored (sdSeen s)) \<and> backed (sdSeen s)"

lemma persistDue_last [simp]: "wsLast (snd (persistDue key at w)) = wsLast w"
  by (simp add: persistDue_def)

lemma mark_seen_simps [simp]:
  "wsLast (mark_seen key at w) = (wsLast w)(key \<mapsto> at)"
  "wsStored (mark_seen key at w) = wsStored w"
  "wsCommits (mark_seen key at w) = wsCommits w"
  by (simp_all add: mark_seen_def)

lemma markCommit_simps [simp]:
  "wsLast (markCommit key at w) = wsLast w" "wsStored (markCommit key at w) = wsStored w"
  by (simp_all add: markCommit_def)

lemma within_write: "time_sub at prev < seenWriteInterval \<longleftrightarrow> at - prev < seenWriteInterval"
  by (simp add: seenWriteInterval_def time_sub_less)

lemma persist_backed:
  assumes "backed w"
  shows "backed (snd (persistDue key at (mark_seen key at w)))"
  using assms unfolding backed_def persistDue_def
  by (auto simp: within_write seenWriteInterval_def time_sub_less split: option.splits if_splits)

lemma markSeen_close:
  assumes "store_close s"
  shows "store_close (markSeen True key at s)"
proof -
  obtain due w' where d: "persistDue key at (mark_seen key at (sdSeen s)) = (due, w')" by fastforce
  then have "backed w'" using persist_backed[of "sdSeen s" key at] assms by (simp add: store_close_def)
  moreover have "wsStored w' = (if due then (wsStored (sdSeen s))(key \<mapsto> at) else wsStored (sdSeen s))"
    using d by (auto simp: persistDue_def split: if_splits)
  ultimately show ?thesis using assms d by (auto simp: markSeen_def store_close_def split: bool.splits)
qed

lemma markCommit_close:
  "store_close s \<Longrightarrow> store_close (s\<lparr>sdSeen := markCommit key at (sdSeen s)\<rparr>)"
  by (simp add: store_close_def backed_def)

text \<open>A delivery as \<open>api/webhooks.go\<close> records it: of an event, or of a check that names a commit.\<close>

datatype delivery = EventDelivery forge string string time | CheckDelivery forge string string time

fun record_one :: "bool \<Rightarrow> (forge \<times> string option) list \<Rightarrow> delivery \<Rightarrow> seen_state \<Rightarrow> seen_state" where
  "record_one written srcs (EventDelivery f r event now) s = RecordDelivery written srcs f r event now s"
| "record_one written srcs (CheckDelivery f r sha now) s = RecordCheckDelivery written srcs f r sha now s"

lemma record_close: "store_close s \<Longrightarrow> store_close (record_one True srcs d s)"
  by (cases d) (simp_all add: RecordDelivery_def RecordCheckDelivery_def Let_def markSeen_close markCommit_close)

lemma records_close: "store_close s \<Longrightarrow> store_close (fold (record_one True srcs) ds s)"
  by (induction ds arbitrary: s) (simp_all add: record_close)

section \<open>A restart\<close>

text \<open>A store that answers with what it holds.\<close>

definition answers :: "(forge \<Rightarrow> string \<Rightarrow> (string \<times> event_class \<times> time) list option) \<Rightarrow>
    (seen_key \<rightharpoonup> time) \<Rightarrow> bool" where
  "answers load st \<longleftrightarrow> (\<forall>forge cred. \<exists>recs. load forge cred = Some recs \<and>
     (\<forall>repo cls at. (repo, cls, at) \<in> set recs \<longleftrightarrow> st (forge, cred, repo, cls) = Some at))"

lemma restoreRecord_last:
  "wsLast (restoreRecord f c (repo, cls, at) w) = (wsLast w)((f, c, repo, cls) \<mapsto> at)"
  by (simp add: restoreRecord_def Let_def)

text \<open>What a restored key holds, where every record says the same of it.\<close>

lemma restoreRecords_last:
  assumes "\<And>repo cls at. (repo, cls, at) \<in> set recs \<Longrightarrow> st (f, c, repo, cls) = Some at"
  shows "wsLast (fold (restoreRecord f c) recs w) key =
    (if \<exists>repo cls at. (repo, cls, at) \<in> set recs \<and> key = (f, c, repo, cls) then st key else wsLast w key)"
  using assms
proof (induction recs arbitrary: w)
  case (Cons rec recs)
  obtain repo cls at where rec: "rec = (repo, cls, at)" by (cases rec)
  have st: "st (f, c, repo, cls) = Some at" using Cons.prems rec by auto
  have IH: "wsLast (fold (restoreRecord f c) recs w') key =
      (if \<exists>repo cls at. (repo, cls, at) \<in> set recs \<and> key = (f, c, repo, cls) then st key else wsLast w' key)" for w'
    using Cons by auto
  show ?case using st by (auto simp: rec IH restoreRecord_last)
qed simp

lemma restoreSource_last:
  assumes "answers load st"
  shows "wsLast (restoreSource load f c w) (f', c', repo, cls) =
    (if f' = f \<and> c' = c \<and> st (f, c, repo, cls) \<noteq> None then st (f, c, repo, cls) else wsLast w (f', c', repo, cls))"
proof -
  obtain recs where recs: "load f c = Some recs"
    "\<And>repo cls at. (repo, cls, at) \<in> set recs \<longleftrightarrow> st (f, c, repo, cls) = Some at"
    using assms unfolding answers_def by (metis (no_types))
  have "wsLast (fold (restoreRecord f c) recs w) (f', c', repo, cls) =
      (if \<exists>repo1 class1 at. (repo1, class1, at) \<in> set recs \<and> (f', c', repo, cls) = (f, c, repo1, class1)
       then st (f', c', repo, cls) else wsLast w (f', c', repo, cls))"
    by (rule restoreRecords_last) (simp add: recs(2))
  then show ?thesis by (auto simp: restoreSource_def recs)
qed

lemma restoreSources_last:
  assumes "answers load st"
  shows "wsLast (fold (\<lambda>(forge, _). restoreSource load forge (cred forge)) srcs w) (f, c, repo, cls) =
    (if f \<in> fst ` set srcs \<and> c = cred f \<and> st (f, c, repo, cls) \<noteq> None then st (f, c, repo, cls)
     else wsLast w (f, c, repo, cls))"
  by (induction srcs arbitrary: w) (auto simp: restoreSource_last[OF assms] split_beta)

lemma restored_last:
  assumes "answers load st" "f \<in> fst ` set srcs"
  shows "LastDelivery srcs f repo cls (restoreWebhookSeen load srcs nothing_seen) =
    st (f, credentialFor srcs f, repo, cls)"
  using restoreSources_last[OF assms(1), of "credentialFor srcs" srcs nothing_seen f "credentialFor srcs f" repo cls]
    assms(2) by (auto simp: restoreWebhookSeen_def LastDelivery_def nothing_seen_def)

text \<open>
  A restart forgets at most a minute of deliveries. With a store that takes every write and
  answers with what it holds, after any deliveries whose last one for a repo and event class came
  at \<open>at\<close>, an aggregator started from the store knows of one less than \<open>seenWriteInterval\<close> older.
\<close>

theorem restart_forgets_a_minute:
  assumes "store_close start" "s = fold (record_one True srcs) ds start" "answers load (the (sdStore s))"
    and "f \<in> fst ` set srcs" "LastDelivery srcs f repo cls (sdSeen s) = Some at"
  shows "\<exists>kept. LastDelivery srcs f repo cls (restoreWebhookSeen load srcs nothing_seen) = Some kept \<and>
    at - kept < seenWriteInterval"
proof -
  have "store_close s" using records_close assms(1,2) by simp
  then show ?thesis using restored_last[OF assms(3,4), of repo cls] assms(5)
    by (auto simp: store_close_def backed_def LastDelivery_def)
qed

section \<open>Commits\<close>

text \<open>
  Only commits named in the last \<open>commitRetention\<close> are remembered after a check delivery, and
  the delivery's own commit always is.
\<close>

lemma recent_commits:
  "wsCommits (markCommit key now w) k = Some at \<Longrightarrow> now - at \<le> commitRetention \<or> (k = key \<and> at = now)"
  "wsCommits (markCommit key now w) key = Some now"
  "k \<noteq> key \<Longrightarrow> now - at \<le> commitRetention \<Longrightarrow> wsCommits w k = Some at \<Longrightarrow> wsCommits (markCommit key now w) k = Some at"
  using time_sub_gr[of commitRetention now]
  by (auto simp: markCommit_def commitRetention_def Let_def split: if_splits option.splits)

lemma check_delivery_seen:
  "LastCheckDelivery srcs f r sha (sdSeen (RecordCheckDelivery written srcs f r sha now s)) = Some now"
  by (simp add: LastCheckDelivery_def RecordCheckDelivery_def Let_def recent_commits)

definition demo_deliveries :: "delivery list" where
  "demo_deliveries = [EventDelivery ForgeGitHub ''o/a'' ''push'' 0, EventDelivery ForgeGitHub ''o/a'' ''push'' second]"

definition demo_saved :: "forge \<Rightarrow> string \<Rightarrow> (string \<times> event_class \<times> time) list option" where
  "demo_saved f c = (if f = ForgeGitHub \<and> c = ''app'' then Some [(''o/a'', EventClassOther, 0)] else Some [])"

lemma restart_forgets_a_minute_witness:
  "\<exists>kept. LastDelivery [(ForgeGitHub, Some ''app'')] ForgeGitHub ''o/a'' EventClassOther
      (restoreWebhookSeen demo_saved [(ForgeGitHub, Some ''app'')] nothing_seen) = Some kept \<and>
    second - kept < seenWriteInterval"
proof (rule restart_forgets_a_minute[where ds = demo_deliveries and
      start = "\<lparr>sdSeen = nothing_seen, sdStore = Some Map.empty\<rparr>", OF _ refl])
  show "store_close \<lparr>sdSeen = nothing_seen, sdStore = Some Map.empty\<rparr>"
    by (simp add: store_close_def backed_def nothing_seen_def)
  have "sdStore (fold (record_one True [(ForgeGitHub, Some ''app'')]) demo_deliveries
      \<lparr>sdSeen = nothing_seen, sdStore = Some Map.empty\<rparr>) = Some [(ForgeGitHub, ''app'', ''o/a'', EventClassOther) \<mapsto> 0]"
    by (simp add: demo_deliveries_def RecordDelivery_def ClassifyEvent_def markSeen_def persistDue_def
        mark_seen_def nothing_seen_def seenWriteInterval_def time_sub_def)
  then show "answers demo_saved (the (sdStore (fold (record_one True [(ForgeGitHub, Some ''app'')]) demo_deliveries
      \<lparr>sdSeen = nothing_seen, sdStore = Some Map.empty\<rparr>)))"
    by (auto simp: answers_def demo_saved_def)
qed (simp_all add: demo_deliveries_def RecordDelivery_def ClassifyEvent_def markSeen_def persistDue_def LastDelivery_def
    mark_seen_def nothing_seen_def seenWriteInterval_def time_sub_def)

end
