(* ===== verification/Ci_Poll.thy ===== *)
theory Ci_Poll
  imports Snapshot_Merge Webhook_Seen FD_Library
begin

text \<open>
  The CI poll, \<open>internal/dashboard/ci_poll.go\<close>, and the scoped refresh it and a webhook delivery use
  (\<open>RefreshRepo\<close> of \<open>aggregator.go\<close>). A forge's answers are functions of the sequence number of the
  fetch that asks, so they can differ from one request to the next. A poll reads the clock once,
  \<open>pvNow\<close>. \<open>plCalls\<close> is the trace of the requests the sources were asked to make. The refreshes here
  run their own fetch: how calls share one is \<open>Coalesce\<close>, and what a merge sets off after
  (subscribers, writes) is in the theories of those.
\<close>

section \<open>What is polled\<close>

record pull_request_ref =
  refForge :: forge
  refOwner :: string
  refName :: string
  refFullName :: string
  refNumber :: int

record pending_item =
  piRef :: pull_request_ref
  piKind :: call_kind
  piCiPending :: bool
  piArmed :: bool
  piHeadSHA :: string
  piFingerprint :: string

definition item_key :: "pending_item \<Rightarrow> string" where
  "item_key it = pullRequestKey (refForge (piRef it)) (refFullName (piRef it)) (refNumber (piRef it))"

abbreviation item_forge :: "pending_item \<Rightarrow> forge" where "item_forge it \<equiv> refForge (piRef it)"
abbreviation item_repo :: "pending_item \<Rightarrow> string" where "item_repo it \<equiv> refFullName (piRef it)"

definition armedOnGitHub :: "pull_request \<Rightarrow> bool" where
  "armedOnGitHub pr \<longleftrightarrow> prForge pr = ForgeGitHub \<and> prAutoMergeEnabled pr = Some True"

definition ci_text :: "ci_status \<Rightarrow> string" where
  "ci_text c = (case c of CISuccess \<Rightarrow> ''success'' | CIFailure \<Rightarrow> ''failure'' | CIPending \<Rightarrow> ''pending''
     | CINone \<Rightarrow> ''none'' | CIOther s \<Rightarrow> s)"

definition merge_text :: "merge_status \<Rightarrow> string" where
  "merge_text m = (case m of MergeMergeable \<Rightarrow> ''mergeable'' | MergeConflicting \<Rightarrow> ''conflicting''
     | MergeBlocked \<Rightarrow> ''blocked'' | MergeUnstable \<Rightarrow> ''unstable'' | MergeUnknown \<Rightarrow> ''unknown'' | MergeOther s \<Rightarrow> s)"

definition bool_text :: "bool \<Rightarrow> string" where
  "bool_text b = (if b then ''true'' else ''false'')"

text \<open>\<open>%+v\<close> of the counts: the fields by name, in the struct's order.\<close>

definition counts_text :: "check_counts \<Rightarrow> string" where
  "counts_text c = ''{Passed:'' @ itoa (Passed c) @ '' Skipped:'' @ itoa (Skipped c) @ '' Running:'' @ itoa (Running c) @
     '' Waiting:'' @ itoa (Waiting c) @ '' Failed:'' @ itoa (Failed c) @ ''}''"

definition pollFingerprint :: "pull_request \<Rightarrow> string" where
  "pollFingerprint pr =
     (let autoMerge = (case prAutoMergeEnabled pr of None \<Rightarrow> ''unknown'' | Some b \<Rightarrow> bool_text b)
      in ci_text (prCI pr) @ ''|'' @ counts_text (prChecks pr) @ ''|'' @ merge_text (prMergeStatus pr) @ ''|'' @
         autoMerge @ ''|'' @ prHeadSHA pr @ ''|'' @ bool_text (prBehind pr))"

definition pendingItem :: "pull_request \<Rightarrow> pending_item option" where
  "pendingItem pr =
     (if prCI pr \<noteq> CIPending \<and> \<not> armedOnGitHub pr then None
      else (case cut (prRepo pr) ''/'' of
          None \<Rightarrow> None
        | Some (owner, name) \<Rightarrow> Some
            \<lparr>piRef = \<lparr>refForge = prForge pr, refOwner = owner, refName = name, refFullName = prRepo pr,
               refNumber = prNumber pr\<rparr>,
             piKind = (if prCI pr = CIPending then KindCIPoll else KindAutoMergePoll),
             piCiPending = (prCI pr = CIPending), piArmed = armedOnGitHub pr,
             piHeadSHA = prHeadSHA pr, piFingerprint = pollFingerprint pr\<rparr>))"

definition pendingItems :: "snapshot \<Rightarrow> pending_item list" where
  "pendingItems snap = List.map_filter pendingItem (snPullRequests snap)"

definition settledPollWindow :: duration where "settledPollWindow = 10 * minute"

definition pollableForgejoBranches :: "snapshot \<Rightarrow> time \<Rightarrow> main_branch list" where
  "pollableForgejoBranches snap now = filter (\<lambda>b. \<not>
     (if mbForge b \<noteq> ForgeForgejo \<or> mbStaleSince b \<noteq> None then True
      else if mbStatus b = MainBranchRunning \<or> Running (mbChecks b) + Waiting (mbChecks b) > 0 then False
      else (case mbFinishedAt b of None \<Rightarrow> True | Some at \<Rightarrow> time_sub now at > settledPollWindow)))
     (snMainBranches snap)"

definition branchPollKey :: "main_branch \<Rightarrow> string" where
  "branchPollKey b = ''branch/'' @ forge_str (mbForge b) @ ''/'' @ mbFullName b"

text \<open>\<open>groupByRepo\<close>: the index by repo name and the groups, in the order the repos first appear.\<close>

definition groupStep :: "pending_item \<Rightarrow> (string \<rightharpoonup> nat) \<times> pending_item list list \<Rightarrow>
    (string \<rightharpoonup> nat) \<times> pending_item list list" where
  "groupStep it = (\<lambda>(index, groups).
     let (i, index', groups') = (case index (item_repo it) of
            Some i \<Rightarrow> (i, index, groups)
          | None \<Rightarrow> (length groups, index(item_repo it \<mapsto> length groups), groups @ [[]]))
     in (index', groups'[i := groups' ! i @ [it]]))"

definition groupByRepo :: "pending_item list \<Rightarrow> pending_item list list" where
  "groupByRepo items = snd (fold groupStep items (Map.empty, []))"

section \<open>The sources and the poller\<close>

text \<open>A source's optional capabilities are options; an answer \<open>None\<close> of a fetch is an error.\<close>

record poll_source =
  soForge :: forge
  soCredential :: "string option"
  soEvents :: "(string \<Rightarrow> string list \<times> bool) option"
  soFetchRepo :: "(string \<Rightarrow> string \<Rightarrow> string \<Rightarrow> nat \<Rightarrow> (pull_request list \<times> issue list) option) option"
  soFetchBranch :: "(string \<Rightarrow> string \<Rightarrow> string \<Rightarrow> nat \<Rightarrow> main_branch option) option"
  soPending :: "(pull_request_ref list \<Rightarrow> nat \<Rightarrow> pending_result \<times> bool) option"   \<comment> \<open>and whether it failed\<close>

datatype poll_call = AskedRepo call_kind forge string | AskedPending call_kind forge "pull_request_ref list"

record poll_env =
  pvNow :: time
  pvBase :: duration
  pvWindow :: duration
  pvSources :: "poll_source list"
  pvLedger :: reserve_ledger

record poller =
  plBoard :: board
  plSched :: pending_schedule
  plSeen :: webhook_seen
  plSeq :: nat
  plCalls :: "poll_call list"

abbreviation plSnap :: "poller \<Rightarrow> snapshot" where "plSnap s \<equiv> bdSnap (plBoard s)"

definition sourceFor :: "poll_source list \<Rightarrow> forge \<Rightarrow> poll_source option" where
  "sourceFor srcs forge = find (\<lambda>src. soForge src = forge) srcs"

definition repoRefresherFor :: "poll_source list \<Rightarrow> forge \<Rightarrow>
    (poll_source \<times> (string \<Rightarrow> string \<Rightarrow> string \<Rightarrow> nat \<Rightarrow> (pull_request list \<times> issue list) option)) option" where
  "repoRefresherFor srcs forge = (case sourceFor srcs forge of
       None \<Rightarrow> None
     | Some src \<Rightarrow> (case soFetchRepo src of None \<Rightarrow> None | Some f \<Rightarrow> Some (src, f)))"

definition pendingRefresherFor :: "poll_source list \<Rightarrow> forge \<Rightarrow>
    (pull_request_ref list \<Rightarrow> nat \<Rightarrow> pending_result \<times> bool) option" where
  "pendingRefresherFor srcs forge = (case sourceFor srcs forge of None \<Rightarrow> None | Some src \<Rightarrow> soPending src)"

definition webhookEventsFor :: "poll_source list \<Rightarrow> forge \<Rightarrow> (string \<Rightarrow> string list \<times> bool) option" where
  "webhookEventsFor srcs forge = (case sourceFor srcs forge of None \<Rightarrow> None | Some src \<Rightarrow> soEvents src)"

text \<open>\<open>fetchMainBranch\<close>: the row, and whether the read did not fail.\<close>

definition fetchMainBranch :: "poll_source \<Rightarrow> string \<Rightarrow> string \<Rightarrow> string \<Rightarrow> nat \<Rightarrow> main_branch option \<times> bool" where
  "fetchMainBranch src owner name fullName seq = (case soFetchBranch src of
       None \<Rightarrow> (None, True)
     | Some f \<Rightarrow> (case f owner name fullName seq of None \<Rightarrow> (None, False) | Some b \<Rightarrow> (Some b, True)))"

definition scopedRefreshContext :: "call_kind \<Rightarrow> call_kind" where
  "scopedRefreshContext kind = (if kind = KindUnknown then KindScopedWebhook else kind)"

definition mergedSince :: "board \<Rightarrow> forge \<Rightarrow> string \<Rightarrow> nat \<Rightarrow> bool" where
  "mergedSince b forge fullName since \<longleftrightarrow> scopedSeq b (forge, fullName) > since"

definition RefreshRepo :: "poll_env \<Rightarrow> call_kind \<Rightarrow> forge \<Rightarrow> string \<Rightarrow> string \<Rightarrow> string \<Rightarrow> poller \<Rightarrow> bool \<times> poller" where
  "RefreshRepo v kind forge owner name fullName s = (case repoRefresherFor (pvSources v) forge of
       None \<Rightarrow> (False, s)
     | Some (src, fetch) \<Rightarrow>
         if (kind = KindUnknown \<or> kind = KindScopedWebhook) \<and>
            budgetHold (pvLedger v) (plSnap s) (pvNow v) forge KindScopedWebhook then (True, s)
         else
           (let seq = plSeq s + 1;
                s = s\<lparr>plSeq := seq, plCalls := plCalls s @ [AskedRepo (scopedRefreshContext kind) forge fullName]\<rparr>
            in case fetch owner name fullName seq of
                 None \<Rightarrow> (True, s)
               | Some (prs, issues) \<Rightarrow>
                   (let (branch, branchOK) = fetchMainBranch src owner name fullName seq
                    in (True, s\<lparr>plBoard := mergeRepo (pvNow v) (pvWindow v) forge fullName seq prs issues
                          branch branchOK (plBoard s)\<rparr>))))"

section \<open>One poll\<close>

definition checkEventNames :: "string list" where "checkEventNames = [''check_run'']"

definition source_labels :: "poll_source list \<Rightarrow> (forge \<times> string option) list" where
  "source_labels = map (\<lambda>src. (soForge src, soCredential src))"

definition checksArriveByWebhook :: "poll_env \<Rightarrow> pending_item \<Rightarrow> poller \<Rightarrow> bool \<times> poller" where
  "checksArriveByWebhook v it s =
     (if \<not> piCiPending it \<or> item_forge it \<noteq> ForgeGitHub \<or> pvBase v \<le> 0 \<or> piHeadSHA it = '''' then (False, s)
      else case webhookEventsFor (pvSources v) (item_forge it) of
        None \<Rightarrow> (False, s)
      | Some reporter \<Rightarrow>
          (let (events, confirmed) = reporter (item_repo it)
           in if \<not> confirmed \<or> \<not> list_ex (\<lambda>e. e \<in> set checkEventNames) events then (False, s)
              else case LastCheckDelivery (source_labels (pvSources v)) (item_forge it) (item_repo it) (piHeadSHA it) (plSeen s) of
                None \<Rightarrow> (False, s)
              | Some at \<Rightarrow>
                  if time_sub (pvNow v) at > i64 (overdueMultiple * pvBase v) then (False, s)
                  else (let (held, sched) = holdOff (plSched s) (item_key it) (pvNow v) (pvBase v)
                        in (held, s\<lparr>plSched := sched\<rparr>))))"

definition item_waits :: "poll_env \<Rightarrow> pending_item \<Rightarrow> poller \<Rightarrow> bool \<times> poller" where
  "item_waits v it s =
     (if piArmed it then (False, s)
      else if \<not> due (plSched s) (item_key it) (pvNow v) (pvBase v) then (True, s)
      else checksArriveByWebhook v it s)"

record polled_pr =
  poItem :: pending_item
  poChanged :: bool

definition poll_kind :: "pending_item list \<Rightarrow> call_kind" where
  "poll_kind its = (if list_ex (\<lambda>it. piKind it = KindCIPoll) its then KindCIPoll else KindAutoMergePoll)"

text \<open>\<open>group[0]\<close> of an empty group would panic; \<open>groupByRepo\<close> makes none.\<close>

definition refreshRepoOf :: "poll_env \<Rightarrow> call_kind \<Rightarrow> forge \<Rightarrow> pending_item list \<Rightarrow> poller \<Rightarrow> polled_pr list \<times> poller" where
  "refreshRepoOf v kind forge grp s =
     (let ref = piRef (hd grp);
          kind = (if kind = KindUnknown then poll_kind grp else kind);
          since = plSeq s + 1;
          (did, s) = RefreshRepo v kind forge (refOwner ref) (refName ref) (refFullName ref) (s\<lparr>plSeq := since\<rparr>)
      in if \<not> did \<or> \<not> mergedSince (plBoard s) forge (refFullName ref) since then ([], s)
         else
           (let after = (\<lambda>key. map_option pollFingerprint
                  (index_by (\<lambda>pr. pullRequestKey (prForge pr) (prRepo pr) (prNumber pr))
                     (filter (in_repo forge (refFullName ref)) (snPullRequests (plSnap s))) key))
            in (map (\<lambda>it. \<lparr>poItem = it, poChanged = (after (item_key it) \<noteq> Some (piFingerprint it))\<rparr>) grp, s)))"

fun refreshGroups :: "poll_env \<Rightarrow> call_kind \<Rightarrow> forge \<Rightarrow> pending_item list list \<Rightarrow> poller \<Rightarrow> polled_pr list \<times> poller" where
  "refreshGroups v kind forge [] s = ([], s)"
| "refreshGroups v kind forge (g # gs) s =
     (let (read, s1) = refreshRepoOf v kind forge g s; (more, s2) = refreshGroups v kind forge gs s1
      in (read @ more, s2))"

definition refreshEachRepo :: "poll_env \<Rightarrow> call_kind \<Rightarrow> forge \<Rightarrow> pending_item list \<Rightarrow> poller \<Rightarrow> polled_pr list \<times> poller" where
  "refreshEachRepo v kind forge items = refreshGroups v kind forge (groupByRepo items)"

definition judgePending :: "forge \<Rightarrow> (string \<rightharpoonup> pending_item) \<Rightarrow> pending_result \<Rightarrow> polled_pr list \<times> pending_item list" where
  "judgePending forge byKey res =
     (List.map_filter (\<lambda>pr. map_option (\<lambda>it. \<lparr>poItem = it, poChanged = (pollFingerprint pr \<noteq> piFingerprint it)\<rparr>)
          (byKey (pullRequestKey forge (prRepo pr) (prNumber pr)))) (pnPulls res) @
      List.map_filter (\<lambda>(r, n). map_option (\<lambda>it. \<lparr>poItem = it, poChanged = True\<rparr>)
          (byKey (pullRequestKey forge r n))) (pnClosed res),
      List.map_filter (\<lambda>(r, n). byKey (pullRequestKey forge r n)) (pnFailed res))"

definition unanswered :: "pending_item list \<Rightarrow> polled_pr list \<Rightarrow> pending_item list \<Rightarrow> pending_item list" where
  "unanswered dues read failed =
     (let answered = map (item_key \<circ> poItem) read @ map item_key failed
      in filter (\<lambda>it. item_key it \<notin> set answered) dues)"

definition pollBatched :: "poll_env \<Rightarrow> call_kind \<Rightarrow> forge \<Rightarrow> (pull_request_ref list \<Rightarrow> nat \<Rightarrow> pending_result \<times> bool) \<Rightarrow>
    pending_item list \<Rightarrow> poller \<Rightarrow> polled_pr list \<times> poller" where
  "pollBatched v kind forge ask dues s =
     (let refs = map piRef dues; seq = plSeq s + 1; (res, err) = ask refs seq;
          s = s\<lparr>plSeq := seq, plCalls := plCalls s @ [AskedPending kind forge refs],
                plBoard := mergePendingResult (pvNow v) (pvWindow v) forge seq res (plBoard s)\<rparr>;
          (read, failed) = judgePending forge (index_by item_key dues) res;
          failed = (if err then failed @ unanswered dues read failed else failed);
          (more, s) = refreshEachRepo v kind forge failed s
      in (read @ more, s))"

definition pollForge :: "poll_env \<Rightarrow> call_kind \<Rightarrow> forge \<Rightarrow> pending_item list \<Rightarrow> poller \<Rightarrow> polled_pr list \<times> poller" where
  "pollForge v kind forge dues s = (case pendingRefresherFor (pvSources v) forge of
       Some ask \<Rightarrow> pollBatched v (poll_kind dues) forge ask dues s
     | None \<Rightarrow> refreshEachRepo v kind forge dues s)"

fun collectDue :: "poll_env \<Rightarrow> snapshot \<Rightarrow> pending_item list \<Rightarrow> poller \<Rightarrow> pending_item list \<times> poller" where
  "collectDue v snap [] s = ([], s)"
| "collectDue v snap (it # its) s =
     (if exhaustedHealth snap (item_forge it) (pvNow v) \<noteq> None then collectDue v snap its s
      else if budgetHold (pvLedger v) snap (pvNow v) (item_forge it) (piKind it) then collectDue v snap its s
      else let (wait, s1) = item_waits v it s; (rest, s2) = collectDue v snap its s1
           in ((if wait then rest else it # rest), s2))"

definition scoreRead :: "poll_env \<Rightarrow> polled_pr list \<Rightarrow> poller \<Rightarrow> poller" where
  "scoreRead v reads = fold (\<lambda>r s. if piArmed (poItem r) then s
     else s\<lparr>plSched := polled (plSched s) (item_key (poItem r)) (pvNow v) (pvBase v) (poChanged r)\<rparr>) reads"

text \<open>
  The forges are polled in the order of a Go map, any order; the model takes them in the order of
  their last due item, and no property depends on it.
\<close>

definition pollForges :: "poll_env \<Rightarrow> call_kind \<Rightarrow> pending_item list \<Rightarrow> poller \<Rightarrow> poller" where
  "pollForges v kind dues = fold (\<lambda>forge s.
     let (reads, s) = pollForge v kind forge (filter (\<lambda>it. item_forge it = forge) dues) s
     in scoreRead v reads s) (remdups (map item_forge dues))"

definition pollBranch :: "poll_env \<Rightarrow> snapshot \<Rightarrow> main_branch \<Rightarrow> poller \<Rightarrow> poller" where
  "pollBranch v snap b s =
     (let key = branchPollKey b
      in if exhaustedHealth snap (mbForge b) (pvNow v) \<noteq> None \<or>
            budgetHold (pvLedger v) snap (pvNow v) (mbForge b) KindCIPoll \<or>
            \<not> due (plSched s) key (pvNow v) (pvBase v) then s
         else case cut (mbFullName b) ''/'' of
           None \<Rightarrow> s
         | Some (owner, name) \<Rightarrow>
             (let since = plSeq s + 1;
                  (did, s) = RefreshRepo v KindCIPoll (mbForge b) owner name (mbFullName b) (s\<lparr>plSeq := since\<rparr>)
              in if \<not> did \<or> \<not> mergedSince (plBoard s) (mbForge b) (mbFullName b) since then s
                 else (let changed = (case find (\<lambda>r. mbForge r = mbForge b \<and> mbFullName r = mbFullName b)
                             (snMainBranches (plSnap s)) of
                           None \<Rightarrow> True
                         | Some r \<Rightarrow> mbStatus r \<noteq> mbStatus b \<or> mbChecks r \<noteq> mbChecks b)
                       in s\<lparr>plSched := polled (plSched s) key (pvNow v) (pvBase v) changed\<rparr>)))"

definition pollBranches :: "poll_env \<Rightarrow> snapshot \<Rightarrow> main_branch list \<Rightarrow> poller \<Rightarrow> poller" where
  "pollBranches v snap = fold (pollBranch v snap)"

definition poll_live :: "poll_env \<Rightarrow> snapshot \<Rightarrow> string set" where
  "poll_live v snap = set (map item_key (pendingItems snap) @ map branchPollKey (pollableForgejoBranches snap (pvNow v)))"

definition PollCI :: "poll_env \<Rightarrow> call_kind \<Rightarrow> poller \<Rightarrow> poller" where
  "PollCI v kind s =
     (let snap = plSnap s;
          s = s\<lparr>plSched := keepOnly (plSched s) (poll_live v snap)\<rparr>;
          (dues, s) = collectDue v snap (pendingItems snap) s;
          s = pollForges v kind dues s
      in pollBranches v snap (pollableForgejoBranches snap (pvNow v)) s)"

section \<open>Groups\<close>

text \<open>
  \<open>groupByRepo\<close> is the reference grouping: for each repo, in order of first appearance, its items in
  order. So a repo has one group, however many of its items are due.
\<close>

definition first_seen :: "'a list \<Rightarrow> 'a list" where
  "first_seen xs = rev (remdups (rev xs))"

lemma first_seen_snoc: "first_seen (xs @ [x]) = (if x \<in> set xs then first_seen xs else first_seen xs @ [x])"
  by (simp add: first_seen_def)

lemma first_seen_props [simp]: "distinct (first_seen xs)" "set (first_seen xs) = set xs"
  by (simp_all add: first_seen_def)

definition grouped_items :: "pending_item list \<Rightarrow> (string \<rightharpoonup> nat) \<times> pending_item list list \<Rightarrow> bool" where
  "grouped_items items st \<longleftrightarrow> (let rs = first_seen (map item_repo items) in
     snd st = map (\<lambda>r. filter (\<lambda>it. item_repo it = r) items) rs \<and>
     (\<forall>r i. fst st r = Some i \<longleftrightarrow> i < length rs \<and> rs ! i = r))"

lemma group_step:
  assumes "grouped_items items st"
  shows "grouped_items (items @ [it]) (groupStep it st)"
proof -
  let ?rs = "first_seen (map item_repo items)"
  let ?g = "\<lambda>r. filter (\<lambda>it. item_repo it = r) items"
  let ?h = "\<lambda>r. filter (\<lambda>it. item_repo it = r) (items @ [it])"
  obtain index groups where st: "st = (index, groups)" by (cases st)
  have idx: "index r = Some i \<longleftrightarrow> i < length ?rs \<and> ?rs ! i = r" for r i
    using assms by (simp add: grouped_items_def st Let_def)
  have grp: "groups = map ?g ?rs" using assms by (simp add: grouped_items_def st Let_def)
  show ?thesis
  proof (cases "item_repo it \<in> item_repo ` set items")
    case True
    then have "item_repo it \<in> set ?rs" by simp
    then obtain i where i: "i < length ?rs" "?rs ! i = item_repo it"
      unfolding in_set_conv_nth by blast
    then have ix: "index (item_repo it) = Some i" by (simp add: idx)
    have rs': "first_seen (map item_repo (items @ [it])) = ?rs" using True by (simp add: first_seen_snoc)
    have "groups[i := groups ! i @ [it]] = map ?h ?rs"
    proof (rule nth_equalityI)
      show "length (groups[i := groups ! i @ [it]]) = length (map ?h ?rs)" by (simp add: grp)
      fix j assume "j < length (groups[i := groups ! i @ [it]])"
      then have j: "j < length ?rs" by (simp add: grp)
      then have "?rs ! j = item_repo it \<longleftrightarrow> j = i"
        using i nth_eq_iff_index_eq[OF first_seen_props(1)[of "map item_repo items"], of j i] by simp
      then show "groups[i := groups ! i @ [it]] ! j = map ?h ?rs ! j"
        using i(1) j by (cases "j = i") (auto simp: grp)
    qed
    then show ?thesis using True idx by (auto simp: grouped_items_def groupStep_def st ix Let_def first_seen_snoc)
  next
    case False
    then have new: "item_repo it \<notin> set ?rs" by auto
    then have ix: "index (item_repo it) = None"
      using idx[of "item_repo it"] by (metis nth_mem option.exhaust)
    have rs': "first_seen (map item_repo items @ [item_repo it]) = ?rs @ [item_repo it]"
      using False by (simp add: first_seen_snoc image_iff)
    have len: "length groups = length ?rs" by (simp add: grp)
    have same: "map ?h ?rs = map ?g ?rs" using new by (auto)
    have empty: "?g (item_repo it) = []" using False by (metis (mono_tags, lifting) filter_empty_conv image_eqI)
    have "?rs ! i \<noteq> item_repo it" if "i < length ?rs" for i using new that by (metis nth_mem)
    then show ?thesis using new idx empty
      by (auto simp: grouped_items_def groupStep_def st ix Let_def rs' grp nth_append less_Suc_eq filter_empty_conv
          split: if_splits)
  qed
qed

theorem groupByRepo_eq:
  "groupByRepo items = map (\<lambda>r. filter (\<lambda>it. item_repo it = r) items) (first_seen (map item_repo items))"
proof -
  have "grouped_items items (fold groupStep items (Map.empty, []))"
    by (induction items rule: rev_induct) (simp add: grouped_items_def first_seen_def, simp add: group_step)
  then show ?thesis by (simp add: grouped_items_def groupByRepo_def Let_def)
qed

lemma group_props:
  "g \<in> set (groupByRepo items) \<Longrightarrow> g \<noteq> []"
  "it \<in> set items \<Longrightarrow> \<exists>g \<in> set (groupByRepo items). it \<in> set g \<and> item_repo (hd g) = item_repo it"
proof -
  assume "g \<in> set (groupByRepo items)"
  then show "g \<noteq> []" by (auto simp: groupByRepo_eq filter_empty_conv)
next
  assume it: "it \<in> set items"
  let ?g = "filter (\<lambda>j. item_repo j = item_repo it) items"
  have "?g \<noteq> []" using it by (auto simp: filter_empty_conv)
  then have "item_repo (hd ?g) = item_repo it" using hd_in_set[of ?g] by auto
  then show "\<exists>g \<in> set (groupByRepo items). it \<in> set g \<and> item_repo (hd g) = item_repo it"
    using it by (auto simp: groupByRepo_eq)
qed

section \<open>The requests of a poll\<close>

fun call_forge :: "poll_call \<Rightarrow> forge" where
  "call_forge (AskedRepo k f r) = f"
| "call_forge (AskedPending k f refs) = f"

fun asks_about :: "pending_item \<Rightarrow> poll_call \<Rightarrow> bool" where
  "asks_about it (AskedRepo k f r) \<longleftrightarrow> f = item_forge it \<and> r = item_repo it"
| "asks_about it (AskedPending k f refs) \<longleftrightarrow> f = item_forge it \<and> piRef it \<in> set refs"

text \<open>The state \<open>s'\<close> comes after \<open>s\<close> by requests of forges that satisfy \<open>P\<close> only.\<close>

definition asking :: "(forge \<Rightarrow> bool) \<Rightarrow> poller \<Rightarrow> poller \<Rightarrow> bool" where
  "asking P s s' \<longleftrightarrow> (\<exists>cs. plCalls s' = plCalls s @ cs \<and> (\<forall>c \<in> set cs. P (call_forge c)))"

named_theorems asks

lemma asking_refl [asks]: "plCalls s' = plCalls s \<Longrightarrow> asking P s s'"
  by (simp add: asking_def)

lemma asking_trans: "asking P s s' \<Longrightarrow> asking P s' s'' \<Longrightarrow> asking P s s''"
  unfolding asking_def by fastforce

lemma asking_weaken: "asking P s s' \<Longrightarrow> (\<And>f. P f \<Longrightarrow> Q f) \<Longrightarrow> asking Q s s'"
  unfolding asking_def by blast

lemma asking_kept: "asking P s s' \<Longrightarrow> c \<in> set (plCalls s) \<Longrightarrow> c \<in> set (plCalls s')"
  by (auto simp: asking_def)

lemma RefreshRepo_asks:
  assumes "RefreshRepo v kind f owner name full s = (did, s')"
  shows "asking (\<lambda>g. g = f) s s'" "plSched s' = plSched s" "plSeen s' = plSeen s"
    and "kind \<noteq> KindUnknown \<Longrightarrow> kind \<noteq> KindScopedWebhook \<Longrightarrow> repoRefresherFor (pvSources v) f \<noteq> None \<Longrightarrow>
      AskedRepo kind f full \<in> set (plCalls s')"
proof -
  have "asking (\<lambda>g. g = f) s s' \<and> plSched s' = plSched s \<and> plSeen s' = plSeen s \<and>
      (kind \<noteq> KindUnknown \<longrightarrow> kind \<noteq> KindScopedWebhook \<longrightarrow> repoRefresherFor (pvSources v) f \<noteq> None \<longrightarrow>
        AskedRepo kind f full \<in> set (plCalls s'))"
    using assms by (auto simp: RefreshRepo_def Let_def asking_def scopedRefreshContext_def split_beta
        split: option.splits if_splits prod.splits)
  then show "asking (\<lambda>g. g = f) s s'" "plSched s' = plSched s" "plSeen s' = plSeen s"
    "kind \<noteq> KindUnknown \<Longrightarrow> kind \<noteq> KindScopedWebhook \<Longrightarrow> repoRefresherFor (pvSources v) f \<noteq> None \<Longrightarrow>
      AskedRepo kind f full \<in> set (plCalls s')" by blast+
qed

lemma poll_kind_known [simp]: "poll_kind g \<noteq> KindUnknown" "poll_kind g \<noteq> KindScopedWebhook"
  by (simp_all add: poll_kind_def)

lemma refreshRepoOf_asks:
  assumes "refreshRepoOf v kind f g s = (read, s')"
  shows "asking (\<lambda>h. h = f) s s'" "plSched s' = plSched s"
    and "kind \<noteq> KindScopedWebhook \<Longrightarrow> repoRefresherFor (pvSources v) f \<noteq> None \<Longrightarrow>
      \<exists>k. AskedRepo k f (item_repo (hd g)) \<in> set (plCalls s')"
proof -
  let ?ref = "piRef (hd g)" and ?k = "if kind = KindUnknown then poll_kind g else kind"
  obtain did s1 where run: "RefreshRepo v ?k f (refOwner ?ref) (refName ?ref) (refFullName ?ref)
      (s\<lparr>plSeq := plSeq s + 1\<rparr>) = (did, s1)" by fastforce
  have s': "s' = s1" using assms run by (auto simp: refreshRepoOf_def Let_def split: if_splits)
  show "asking (\<lambda>h. h = f) s s'" "plSched s' = plSched s"
    using RefreshRepo_asks(1,2)[OF run] by (simp_all add: s' asking_def)
  assume "kind \<noteq> KindScopedWebhook" "repoRefresherFor (pvSources v) f \<noteq> None"
  then have "AskedRepo ?k f (item_repo (hd g)) \<in> set (plCalls s1)"
    by (intro RefreshRepo_asks(4)[OF run]) auto
  then show "\<exists>k. AskedRepo k f (item_repo (hd g)) \<in> set (plCalls s')" by (auto simp: s')
qed

lemma refreshGroups_asks:
  assumes "refreshGroups v kind f gs s = (read, s')"
  shows "asking (\<lambda>h. h = f) s s' \<and> plSched s' = plSched s \<and>
    (kind \<noteq> KindScopedWebhook \<longrightarrow> repoRefresherFor (pvSources v) f \<noteq> None \<longrightarrow> (\<forall>g \<in> set gs.
      \<exists>k. AskedRepo k f (item_repo (hd g)) \<in> set (plCalls s')))"
  using assms
proof (induction gs arbitrary: s read)
  case (Cons h gs)
  obtain r1 s1 where one: "refreshRepoOf v kind f h s = (r1, s1)" by fastforce
  obtain r2 where rest: "refreshGroups v kind f gs s1 = (r2, s')"
    using Cons.prems one by (auto split: prod.splits)
  note IH = Cons.IH[OF rest]
  show ?case
    using refreshRepoOf_asks[OF one] IH asking_trans[OF _ conjunct1[OF IH]] asking_kept[OF conjunct1[OF IH]]
    by auto
qed (auto intro: asks)

lemma refreshEach_asks:
  assumes "refreshEachRepo v kind f items s = (read, s')"
  shows "asking (\<lambda>h. h = f) s s'" "plSched s' = plSched s"
    and "kind \<noteq> KindScopedWebhook \<Longrightarrow> repoRefresherFor (pvSources v) f \<noteq> None \<Longrightarrow> it \<in> set items \<Longrightarrow>
      \<exists>k. AskedRepo k f (item_repo it) \<in> set (plCalls s')"
  using refreshGroups_asks[OF assms[unfolded refreshEachRepo_def]] group_props(2)[of it items]
  by (auto, metis)

lemma pollBatched_asks:
  assumes "pollBatched v kind f ask dues s = (read, s')"
  shows "asking (\<lambda>h. h = f) s s'" "plSched s' = plSched s"
    and "AskedPending kind f (map piRef dues) \<in> set (plCalls s')"
proof -
  obtain res err where ans: "ask (map piRef dues) (plSeq s + 1) = (res, err)" by fastforce
  let ?s = "s\<lparr>plSeq := plSeq s + 1, plCalls := plCalls s @ [AskedPending kind f (map piRef dues)],
     plBoard := mergePendingResult (pvNow v) (pvWindow v) f (plSeq s + 1) res (plBoard s)\<rparr>"
  obtain failed more where "refreshEachRepo v kind f failed ?s = (more, s')"
    using assms ans by (auto simp: pollBatched_def Let_def split: prod.splits)
  from refreshEach_asks(1,2)[OF this]
  show "asking (\<lambda>h. h = f) s s'" "plSched s' = plSched s" "AskedPending kind f (map piRef dues) \<in> set (plCalls s')"
    by (auto simp: asking_def)
qed

definition driven :: "poll_env \<Rightarrow> forge \<Rightarrow> bool" where
  "driven v f \<longleftrightarrow> pendingRefresherFor (pvSources v) f \<noteq> None \<or> repoRefresherFor (pvSources v) f \<noteq> None"

lemma pollForge_asks:
  assumes "pollForge v kind f dues s = (read, s')"
  shows "asking (\<lambda>h. h = f) s s'" "plSched s' = plSched s"
    and "kind \<noteq> KindScopedWebhook \<Longrightarrow> driven v f \<Longrightarrow> it \<in> set dues \<Longrightarrow> item_forge it = f \<Longrightarrow>
      \<exists>c \<in> set (plCalls s'). asks_about it c"
proof -
  have "asking (\<lambda>h. h = f) s s' \<and> plSched s' = plSched s \<and>
      (kind \<noteq> KindScopedWebhook \<longrightarrow> driven v f \<longrightarrow> it \<in> set dues \<longrightarrow> item_forge it = f \<longrightarrow>
        (\<exists>c \<in> set (plCalls s'). asks_about it c))"
  proof (cases "pendingRefresherFor (pvSources v) f")
    case None
    then have r: "refreshEachRepo v kind f dues s = (read, s')" using assms by (simp add: pollForge_def)
    show ?thesis using refreshEach_asks(1,2)[OF r] refreshEach_asks(3)[OF r, of it] None
      by (auto simp: driven_def) (metis asks_about.simps(1))
  next
    case (Some ask)
    then have r: "pollBatched v (poll_kind dues) f ask dues s = (read, s')" using assms by (simp add: pollForge_def)
    show ?thesis using pollBatched_asks[OF r] by (auto intro!: bexI[where x = "AskedPending (poll_kind dues) f (map piRef dues)"])
  qed
  then show "asking (\<lambda>h. h = f) s s'" "plSched s' = plSched s"
    "kind \<noteq> KindScopedWebhook \<Longrightarrow> driven v f \<Longrightarrow> it \<in> set dues \<Longrightarrow> item_forge it = f \<Longrightarrow>
      \<exists>c \<in> set (plCalls s'). asks_about it c" by blast+
qed

lemma scoreRead_calls [simp]: "plCalls (scoreRead v reads s) = plCalls s"
proof -
  have "plCalls (fold (\<lambda>r s. if piArmed (poItem r) then s else s\<lparr>plSched := F r s\<rparr>) reads s) = plCalls s"
    for F :: "polled_pr \<Rightarrow> poller \<Rightarrow> pending_schedule"
    by (induction reads arbitrary: s) auto
  then show ?thesis by (simp add: scoreRead_def)
qed

definition forge_step :: "poll_env \<Rightarrow> call_kind \<Rightarrow> pending_item list \<Rightarrow> forge \<Rightarrow> poller \<Rightarrow> poller" where
  "forge_step v kind dues f s =
     (let (reads, s') = pollForge v kind f (filter (\<lambda>it. item_forge it = f) dues) s in scoreRead v reads s')"

lemma pollForges_steps: "pollForges v kind dues = fold (forge_step v kind dues) (remdups (map item_forge dues))"
  unfolding pollForges_def forge_step_def[abs_def] by simp

lemma forge_step_asks:
  shows "asking (\<lambda>h. h = f) s (forge_step v kind dues f s)"
    and "kind \<noteq> KindScopedWebhook \<Longrightarrow> driven v f \<Longrightarrow> it \<in> set dues \<Longrightarrow> item_forge it = f \<Longrightarrow>
      \<exists>c \<in> set (plCalls (forge_step v kind dues f s)). asks_about it c"
proof -
  obtain reads s1 where p: "pollForge v kind f (filter (\<lambda>it. item_forge it = f) dues) s = (reads, s1)" by fastforce
  show "asking (\<lambda>h. h = f) s (forge_step v kind dues f s)"
    using pollForge_asks(1)[OF p] by (simp add: forge_step_def p asking_def)
  assume "kind \<noteq> KindScopedWebhook" "driven v f" "it \<in> set dues" "item_forge it = f"
  then show "\<exists>c \<in> set (plCalls (forge_step v kind dues f s)). asks_about it c"
    using pollForge_asks(3)[OF p] by (simp add: forge_step_def p)
qed

lemma forge_steps_asks:
  "asking (\<lambda>h. h \<in> set fs) s (fold (forge_step v kind dues) fs s) \<and>
   (kind \<noteq> KindScopedWebhook \<longrightarrow> driven v (item_forge it) \<longrightarrow> it \<in> set dues \<longrightarrow> item_forge it \<in> set fs \<longrightarrow>
      (\<exists>c \<in> set (plCalls (fold (forge_step v kind dues) fs s)). asks_about it c))"
proof (induction fs arbitrary: s)
  case (Cons f fs)
  let ?s = "forge_step v kind dues f s"
  have a: "asking (\<lambda>h. h \<in> set (f # fs)) s ?s"
    using forge_step_asks(1)[of f s v kind dues] by (auto simp: asking_def)
  have b: "asking (\<lambda>h. h \<in> set (f # fs)) ?s (fold (forge_step v kind dues) fs ?s)"
    using Cons.IH[of ?s] by (auto simp: asking_def)
  show ?case
    using asking_trans[OF a b] forge_step_asks(2)[of kind v f it dues s] Cons.IH[of ?s] asking_kept[OF b] by auto
qed (simp add: asks)

lemma pollForges_asks:
  shows "asking (\<lambda>h. h \<in> item_forge ` set dues) s (pollForges v kind dues s)"
    and "kind \<noteq> KindScopedWebhook \<Longrightarrow> driven v (item_forge it) \<Longrightarrow> it \<in> set dues \<Longrightarrow>
      \<exists>c \<in> set (plCalls (pollForges v kind dues s)). asks_about it c"
  using forge_steps_asks[of "remdups (map item_forge dues)" s v kind dues it] by (simp_all add: pollForges_steps)

text \<open>Which items are due: collecting them sends nothing and keeps the record and the board.\<close>

lemma item_waits_frame:
  assumes "item_waits v it s = (wait, s')"
  shows "plCalls s' = plCalls s" "plBoard s' = plBoard s" "psEntries (plSched s') = psEntries (plSched s)" "plSeq s' = plSeq s"
    and "piArmed it \<Longrightarrow> \<not> wait"
proof -
  have "plCalls s' = plCalls s \<and> plBoard s' = plBoard s \<and> psEntries (plSched s') = psEntries (plSched s) \<and> plSeq s' = plSeq s \<and>
      (piArmed it \<longrightarrow> \<not> wait)"
    using assms by (auto simp: item_waits_def checksArriveByWebhook_def holdOff_def Let_def split_beta
        split: if_splits option.splits prod.splits)
  then show "plCalls s' = plCalls s" "plBoard s' = plBoard s" "psEntries (plSched s') = psEntries (plSched s)" "plSeq s' = plSeq s"
    "piArmed it \<Longrightarrow> \<not> wait" by blast+
qed

definition budget_open :: "poll_env \<Rightarrow> snapshot \<Rightarrow> pending_item \<Rightarrow> bool" where
  "budget_open v snap it \<longleftrightarrow> exhaustedHealth snap (item_forge it) (pvNow v) = None \<and>
     \<not> budgetHold (pvLedger v) snap (pvNow v) (item_forge it) (piKind it)"

lemma collectDue_frame:
  assumes "collectDue v snap its s = (dues, s')"
  shows "plCalls s' = plCalls s \<and> plBoard s' = plBoard s \<and> psEntries (plSched s') = psEntries (plSched s) \<and> plSeq s' = plSeq s \<and>
    set dues \<subseteq> {it \<in> set its. budget_open v snap it} \<and>
    {it \<in> set its. budget_open v snap it \<and> piArmed it} \<subseteq> set dues"
  using assms
proof (induction its arbitrary: s dues)
  case (Cons it its)
  show ?case
  proof (cases "budget_open v snap it")
    case False
    then show ?thesis using Cons by (auto simp: budget_open_def split: if_splits)
  next
    case True
    obtain wait s1 where w: "item_waits v it s = (wait, s1)" by fastforce
    obtain rest where r: "collectDue v snap its s1 = (rest, s')" "dues = (if wait then rest else it # rest)"
      using Cons.prems True w by (auto simp: budget_open_def split: prod.splits)
    show ?thesis using Cons.IH[OF r(1)] r(2) item_waits_frame[OF w] True by auto
  qed
qed simp

lemma pollBranch_asks:
  "asking (\<lambda>f. f = mbForge b \<and> exhaustedHealth snap f (pvNow v) = None \<and>
     \<not> budgetHold (pvLedger v) snap (pvNow v) f KindCIPoll) s (pollBranch v snap b s)"
proof (cases "exhaustedHealth snap (mbForge b) (pvNow v) \<noteq> None \<or>
    budgetHold (pvLedger v) snap (pvNow v) (mbForge b) KindCIPoll \<or>
    \<not> due (plSched s) (branchPollKey b) (pvNow v) (pvBase v)")
  case True
  then show ?thesis by (auto simp: pollBranch_def Let_def intro: asks)
next
  case False
  show ?thesis
  proof (cases "cut (mbFullName b) ''/''")
    case None
    then show ?thesis by (auto simp: pollBranch_def Let_def intro: asks)
  next
    case (Some p)
    obtain owner name where p: "p = (owner, name)" by (cases p)
    obtain did s1 where run: "RefreshRepo v KindCIPoll (mbForge b) owner name (mbFullName b)
        (s\<lparr>plSeq := plSeq s + 1\<rparr>) = (did, s1)" by fastforce
    have "plCalls (pollBranch v snap b s) = plCalls s1"
      using False Some run by (simp add: pollBranch_def p Let_def)
    moreover have "asking (\<lambda>f. f = mbForge b) s s1" using RefreshRepo_asks(1)[OF run] by (simp add: asking_def)
    ultimately show ?thesis using False unfolding asking_def by fastforce
  qed
qed

lemma pollBranches_asks:
  "asking (\<lambda>f. f \<in> mbForge ` set bs \<and> exhaustedHealth snap f (pvNow v) = None \<and>
     \<not> budgetHold (pvLedger v) snap (pvNow v) f KindCIPoll) s (pollBranches v snap bs s)"
proof (induction bs arbitrary: s)
  case (Cons b bs)
  let ?P = "\<lambda>f. f \<in> mbForge ` set (b # bs) \<and> exhaustedHealth snap f (pvNow v) = None \<and>
     \<not> budgetHold (pvLedger v) snap (pvNow v) f KindCIPoll"
  have "asking ?P s (pollBranch v snap b s)" by (rule asking_weaken[OF pollBranch_asks[of b snap v s]]) auto
  moreover have "asking ?P (pollBranch v snap b s) (pollBranches v snap bs (pollBranch v snap b s))"
    by (rule asking_weaken[OF Cons.IH]) auto
  ultimately have "asking ?P s (pollBranches v snap bs (pollBranch v snap b s))" by (rule asking_trans)
  then show ?case by (simp add: pollBranches_def)
qed (auto simp: pollBranches_def intro: asks)

lemma PollCI_parts:
  assumes "s1 = s\<lparr>plSched := keepOnly (plSched s) (poll_live v (plSnap s))\<rparr>"
    and "collectDue v (plSnap s) (pendingItems (plSnap s)) s1 = (dues, s2)"
  shows "PollCI v kind s = pollBranches v (plSnap s) (pollableForgejoBranches (plSnap s) (pvNow v))
    (pollForges v kind dues s2)"
  using assms by (simp add: PollCI_def Let_def)

text \<open>A forge no request may go to: both call kinds of a poll are held, or a budget is spent.\<close>

definition closed_to_polls :: "poll_env \<Rightarrow> snapshot \<Rightarrow> forge \<Rightarrow> bool" where
  "closed_to_polls v snap f \<longleftrightarrow> exhaustedHealth snap f (pvNow v) \<noteq> None \<or>
     (budgetHold (pvLedger v) snap (pvNow v) f KindCIPoll \<and> budgetHold (pvLedger v) snap (pvNow v) f KindAutoMergePoll)"

lemma pendingItems_kind:
  "it \<in> set (pendingItems snap) \<Longrightarrow> piKind it = KindCIPoll \<or> piKind it = KindAutoMergePoll"
  by (auto simp: pendingItems_def List.map_filter_def pendingItem_def split: option.splits if_splits)

lemma poll_asks:
  "asking (\<lambda>f. \<not> closed_to_polls v (plSnap s) f) s (PollCI v kind s)"
proof -
  let ?P = "\<lambda>f. \<not> closed_to_polls v (plSnap s) f"
  define s1 where "s1 = s\<lparr>plSched := keepOnly (plSched s) (poll_live v (plSnap s))\<rparr>"
  obtain dues s2 where c: "collectDue v (plSnap s) (pendingItems (plSnap s)) s1 = (dues, s2)" by fastforce
  note fr = collectDue_frame[OF c]
  have "asking ?P s2 (pollForges v kind dues s2)"
  proof (rule asking_weaken[OF pollForges_asks(1)])
    fix f assume "f \<in> item_forge ` set dues"
    then obtain it where "it \<in> set (pendingItems (plSnap s))" "budget_open v (plSnap s) it" "f = item_forge it"
      using fr by auto
    then show "?P f" using pendingItems_kind[of it "plSnap s"] by (auto simp: closed_to_polls_def budget_open_def)
  qed
  moreover have "asking ?P (pollForges v kind dues s2) (PollCI v kind s)"
    unfolding PollCI_parts[OF s1_def c] by (rule asking_weaken[OF pollBranches_asks]) (auto simp: closed_to_polls_def)
  moreover have "asking ?P s s2" using fr by (auto simp: s1_def intro: asks)
  ultimately show ?thesis using asking_trans by blast
qed

text \<open>
  A CI poll leaves a forge alone while its budget is spent or held back for people: it sends
  that forge no request of any kind, for no pull request and for no default branch.
\<close>

theorem poll_leaves_spent_forge:
  assumes "closed_to_polls v (plSnap s) f"
  shows "\<exists>cs. plCalls (PollCI v kind s) = plCalls s @ cs \<and> f \<notin> call_forge ` set cs"
  using poll_asks[of v s kind] assms unfolding asking_def by force

text \<open>
  C28: Every armed pull request is asked about on every poll, whatever the schedule and the
  webhooks say, as long as its forge is driven by a source that can answer and its budget is open:
  among the requests of the poll is a refresh of its repo or a batched one that names it.
\<close>

theorem armed_always_asked:
  assumes "pr \<in> set (snPullRequests (plSnap s))" "pendingItem pr = Some it" "armedOnGitHub pr"
    and "driven v (prForge pr)" "budget_open v (plSnap s) it" "kind \<noteq> KindScopedWebhook"
  shows "list_ex (asks_about it) (plCalls (PollCI v kind (s\<lparr>plCalls := []\<rparr>)))"
proof -
  let ?s = "s\<lparr>plCalls := []\<rparr>"
  define s1 where "s1 = ?s\<lparr>plSched := keepOnly (plSched ?s) (poll_live v (plSnap ?s))\<rparr>"
  obtain dues s2 where c: "collectDue v (plSnap ?s) (pendingItems (plSnap ?s)) s1 = (dues, s2)" by fastforce
  have it: "item_forge it = prForge pr" "piArmed it"
    using assms(2,3) by (auto simp: pendingItem_def split: if_splits option.splits)
  have "it \<in> set (pendingItems (plSnap s))"
    using assms(1,2) by (force simp: pendingItems_def List.map_filter_def)
  then have "it \<in> set dues" using collectDue_frame[OF c] it assms(5) by auto
  then obtain c' where "c' \<in> set (plCalls (pollForges v kind dues s2))" "asks_about it c'"
    using pollForges_asks(2)[of kind v it dues s2] assms(4,6) it by auto
  moreover have "asking (\<lambda>f. f \<in> mbForge ` set (pollableForgejoBranches (plSnap ?s) (pvNow v)) \<and>
      exhaustedHealth (plSnap ?s) f (pvNow v) = None \<and> \<not> budgetHold (pvLedger v) (plSnap ?s) (pvNow v) f KindCIPoll)
      (pollForges v kind dues s2) (PollCI v kind ?s)"
    unfolding PollCI_parts[OF s1_def c] by (rule pollBranches_asks)
  ultimately show ?thesis using asking_kept by (fastforce simp: list_ex_iff)
qed

section \<open>An outage\<close>

text \<open>Sources that answer nothing: every fetch fails and a batched request fails without an answer.\<close>

definition no_answer :: pending_result where
  "no_answer = \<lparr>pnPulls = [], pnClosed = [], pnFailed = []\<rparr>"

definition source_down :: "poll_source \<Rightarrow> bool" where
  "source_down src \<longleftrightarrow> (case soFetchRepo src of None \<Rightarrow> True | Some f \<Rightarrow> \<forall>ow nm full n. f ow nm full n = None) \<and>
     (case soPending src of None \<Rightarrow> True | Some f \<Rightarrow> \<forall>refs n. f refs n = (no_answer, True))"

lemma down_source:
  assumes "list_all source_down (pvSources v)" "sourceFor (pvSources v) f = Some src"
  shows "source_down src"
  using assms unfolding sourceFor_def list_all_iff by (metis find_Some_P)

text \<open>The state after a step that read nothing: the board and the schedule as they were.\<close>

definition unread :: "poller \<Rightarrow> poller \<Rightarrow> bool" where
  "unread s s' \<longleftrightarrow> plBoard s' = plBoard s \<and> plSched s' = plSched s \<and> plSeq s \<le> plSeq s'"

definition seqs_past :: "poller \<Rightarrow> bool" where
  "seqs_past s \<longleftrightarrow> (\<forall>key. scopedSeq (plBoard s) key \<le> plSeq s)"

lemma unread_refl [simp]: "unread s s"
  by (simp add: unread_def)

lemma unread_trans: "unread s s' \<Longrightarrow> unread s' s'' \<Longrightarrow> unread s s''"
  by (simp add: unread_def)

lemma unread_past: "unread s s' \<Longrightarrow> seqs_past s \<Longrightarrow> seqs_past s'"
  by (auto simp: unread_def seqs_past_def intro: order_trans)

abbreviation all_down :: "poll_env \<Rightarrow> bool" where "all_down v \<equiv> list_all source_down (pvSources v)"

lemma RefreshRepo_down:
  assumes down: "all_down v" and "RefreshRepo v kind f owner name full s = (did, s')"
  shows "unread s s'"
proof -
  have "fetch owner name full n = None" if r: "repoRefresherFor (pvSources v) f = Some (src, fetch)" for src fetch n
  proof -
    have "sourceFor (pvSources v) f = Some src" "soFetchRepo src = Some fetch"
      using r by (auto simp: repoRefresherFor_def split: option.splits)
    then show ?thesis using down_source[OF down] by (fastforce simp: source_down_def)
  qed
  then show ?thesis using assms
    by (auto simp: RefreshRepo_def Let_def unread_def split: option.splits if_splits)
qed

lemma refreshRepoOf_down:
  assumes down: "all_down v" and "refreshRepoOf v kind f g s = (read, s')" "seqs_past s"
  shows "read = [] \<and> unread s s'"
proof -
  let ?ref = "piRef (hd g)" and ?k = "if kind = KindUnknown then poll_kind g else kind"
  obtain did s1 where run: "RefreshRepo v ?k f (refOwner ?ref) (refName ?ref) (refFullName ?ref)
      (s\<lparr>plSeq := plSeq s + 1\<rparr>) = (did, s1)" by fastforce
  have u: "unread (s\<lparr>plSeq := plSeq s + 1\<rparr>) s1" by (rule RefreshRepo_down[OF down run])
  then have "scopedSeq (plBoard s1) (f, refFullName ?ref) \<le> plSeq s"
    using assms(3) by (simp add: unread_def seqs_past_def)
  then have "\<not> mergedSince (plBoard s1) f (refFullName ?ref) (plSeq s + 1)" by (simp add: mergedSince_def)
  then show ?thesis using assms(2) run u by (auto simp: refreshRepoOf_def Let_def unread_def)
qed

lemma refreshGroups_down:
  "all_down v \<Longrightarrow> refreshGroups v kind f gs s = (read, s') \<Longrightarrow> seqs_past s \<Longrightarrow> read = [] \<and> unread s s'"
proof (induction gs arbitrary: s read)
  case (Cons g gs)
  obtain r1 s1 where one: "refreshRepoOf v kind f g s = (r1, s1)" by fastforce
  obtain r2 where rest: "refreshGroups v kind f gs s1 = (r2, s')" "read = r1 @ r2"
    using Cons.prems one by (auto split: prod.splits)
  show ?case using refreshRepoOf_down[OF Cons.prems(1) one Cons.prems(3)] Cons.IH[OF Cons.prems(1) rest(1)] rest(2) unread_past unread_trans Cons.prems(3)
    by blast
qed simp

lemma pollForge_down:
  assumes down: "all_down v" and "pollForge v kind f dues s = (read, s')" "seqs_past s"
  shows "read = [] \<and> unread s s'"
proof (cases "pendingRefresherFor (pvSources v) f")
  case None
  then show ?thesis using assms refreshGroups_down[OF down] by (simp add: pollForge_def refreshEachRepo_def)
next
  case (Some ask)
  then obtain src where "sourceFor (pvSources v) f = Some src" "soPending src = Some ask"
    by (auto simp: pendingRefresherFor_def split: option.splits)
  then have ans: "ask refs n = (no_answer, True)" for refs n
    using down_source[OF down] by (fastforce simp: source_down_def)
  let ?s = "s\<lparr>plSeq := plSeq s + 1, plCalls := plCalls s @ [AskedPending (poll_kind dues) f (map piRef dues)],
     plBoard := mergePendingResult (pvNow v) (pvWindow v) f (plSeq s + 1) no_answer (plBoard s)\<rparr>"
  have merge: "mergePendingResult (pvNow v) (pvWindow v) f n no_answer b = b" for n b
    by (simp add: mergePendingResult_def no_answer_def mergeReposFrom_def Let_def)
  obtain failed where "refreshGroups v (poll_kind dues) f failed ?s = (read, s')"
    using assms(2) Some by (auto simp: pollForge_def pollBatched_def ans Let_def judgePending_def no_answer_def
        refreshEachRepo_def List.map_filter_def split: prod.splits)
  moreover have "seqs_past ?s" using assms(3) by (auto simp: seqs_past_def merge intro: le_SucI)
  ultimately show ?thesis using refreshGroups_down[OF down, of "poll_kind dues" f failed ?s read s'] by (simp add: unread_def merge)
qed

lemma forge_steps_down: "all_down v \<Longrightarrow> seqs_past s \<Longrightarrow> unread s (fold (forge_step v kind dues) fs s)"
proof (induction fs arbitrary: s)
  case (Cons f fs)
  obtain reads s1 where p: "pollForge v kind f (filter (\<lambda>it. item_forge it = f) dues) s = (reads, s1)" by fastforce
  from pollForge_down[OF Cons.prems(1) p Cons.prems(2)] have s1: "unread s s1" "forge_step v kind dues f s = s1"
    by (simp_all add: forge_step_def p scoreRead_def)
  show ?case using Cons.IH[OF Cons.prems(1) unread_past[OF s1(1) Cons.prems(2)]] s1 unread_trans by auto
qed simp

lemma pollBranches_down: "all_down v \<Longrightarrow> seqs_past s \<Longrightarrow> unread s (pollBranches v snap bs s)"
proof (induction bs arbitrary: s)
  case (Cons b bs)
  have one: "unread s (pollBranch v snap b s)"
  proof (cases "cut (mbFullName b) ''/''")
    case None
    then show ?thesis by (auto simp: pollBranch_def Let_def)
  next
    case (Some p)
    obtain owner name where p: "p = (owner, name)" by (cases p)
    obtain did s1 where run: "RefreshRepo v KindCIPoll (mbForge b) owner name (mbFullName b)
        (s\<lparr>plSeq := plSeq s + 1\<rparr>) = (did, s1)" by fastforce
    have u: "unread (s\<lparr>plSeq := plSeq s + 1\<rparr>) s1" by (rule RefreshRepo_down[OF Cons.prems(1) run])
    then have "scopedSeq (plBoard s1) (mbForge b, mbFullName b) \<le> plSeq s"
      using Cons.prems by (simp add: unread_def seqs_past_def)
    then have "\<not> mergedSince (plBoard s1) (mbForge b) (mbFullName b) (plSeq s + 1)" by (simp add: mergedSince_def)
    then show ?thesis using run u by (auto simp: pollBranch_def Some p Let_def unread_def)
  qed
  show ?case using one Cons.IH[OF Cons.prems(1) unread_past[OF one Cons.prems(2)]] unread_trans by (simp add: pollBranches_def)
qed (simp add: pollBranches_def)

text \<open>
  An outage backs nothing off. When no source answers, a CI poll leaves the board as it was,
  every default branch and pull request on it, and keeps the due time and the interval of every
  entry of its schedule that is still polled, so all are asked again when they were due anyway.
\<close>

theorem outage_backs_nothing_off:
  assumes "all_down v" "seqs_past s"
  shows "plBoard (PollCI v kind s) = plBoard s \<and>
    psEntries (plSched (PollCI v kind s)) = keep_keys (\<lambda>k. k \<in> poll_live v (plSnap s)) (psEntries (plSched s))"
proof -
  define s1 where "s1 = s\<lparr>plSched := keepOnly (plSched s) (poll_live v (plSnap s))\<rparr>"
  obtain dues s2 where c: "collectDue v (plSnap s) (pendingItems (plSnap s)) s1 = (dues, s2)" by fastforce
  have fr: "plBoard s2 = plBoard s" "plSeq s2 = plSeq s"
    "psEntries (plSched s2) = keep_keys (\<lambda>k. k \<in> poll_live v (plSnap s)) (psEntries (plSched s))"
    using collectDue_frame[OF c] by (simp_all add: s1_def keepOnly_def)
  let ?s3 = "pollForges v kind dues s2"
  have "seqs_past s2" using assms(2) fr by (simp add: seqs_past_def)
  then have u: "unread s2 ?s3" "seqs_past ?s3"
    unfolding pollForges_steps using forge_steps_down[OF assms(1)] unread_past by blast+
  then have "unread s2 (PollCI v kind s)"
    unfolding PollCI_parts[OF s1_def c] using pollBranches_down[OF assms(1)] unread_trans by blast
  then show ?thesis using fr by (simp add: unread_def)
qed

section \<open>A concrete poll\<close>

definition demo_poll_source :: poll_source where
  "demo_poll_source = \<lparr>soForge = ForgeGitHub, soCredential = Some ''app'', soEvents = None,
     soFetchRepo = Some (\<lambda>_ _ _ _. None), soFetchBranch = None, soPending = Some (\<lambda>_ _. (no_answer, True))\<rparr>"

definition demo_poll_env :: poll_env where
  "demo_poll_env = \<lparr>pvNow = 0, pvBase = minute, pvWindow = 2 * minute, pvSources = [demo_poll_source],
     pvLedger = (\<lambda>_. [])\<rparr>"

definition demo_armed :: pull_request where
  "demo_armed = zero_pr\<lparr>prRepo := ''o/a'', prNumber := 7, prAutoMergeEnabled := Some True\<rparr>"

definition demo_spent_health :: forge_health where
  "demo_spent_health = zero_health\<lparr>fhForge := ForgeGitHub, fhReachable := True,
     fhRateLimitGraphQL := Some \<lparr>rlLimit = 5000, rlRemaining = 0, rlResetsAt = hour, rlCost = 1\<rparr>\<rparr>"

definition demo_poller :: "forge_health list \<Rightarrow> poller" where
  "demo_poller forges = \<lparr>plBoard = \<lparr>bdSnap = newEmptySnapshot\<lparr>snForges := forges, snPullRequests := [demo_armed]\<rparr>,
       bdSettled = Map.empty, bdScoped = [], bdLastGood = Map.empty, bdBots = bdBots start_board\<rparr>,
     plSched = \<lparr>psEntries = Map.empty, psHeldSince = Map.empty\<rparr>, plSeen = nothing_seen, plSeq = 0, plCalls = []\<rparr>"

lemma poll_leaves_spent_forge_witness:
  "\<exists>cs. plCalls (PollCI demo_poll_env KindUnknown (demo_poller [demo_spent_health])) = [] @ cs \<and>
    ForgeGitHub \<notin> call_forge ` set cs"
proof -
  have "closed_to_polls demo_poll_env (plSnap (demo_poller [demo_spent_health])) ForgeGitHub"
    by (simp add: closed_to_polls_def demo_poller_def demo_spent_health_def exhaustedHealth_def spentBudget_def
        demo_poll_env_def zero_health_def)
  from poll_leaves_spent_forge[OF this, of KindUnknown] show ?thesis by (simp add: demo_poller_def)
qed

lemma demo_pending:
  "pendingItem demo_armed = Some \<lparr>piRef = \<lparr>refForge = ForgeGitHub, refOwner = ''o'', refName = ''a'',
       refFullName = ''o/a'', refNumber = 7\<rparr>, piKind = KindAutoMergePoll, piCiPending = False, piArmed = True,
     piHeadSHA = '''', piFingerprint = pollFingerprint demo_armed\<rparr>"
  by (simp add: pendingItem_def demo_armed_def zero_pr_def armedOnGitHub_def cut_def has_prefix_def)

lemma demo_open: "budget_open demo_poll_env (plSnap (demo_poller [])) it"
  by (simp add: budget_open_def exhaustedHealth_def budgetHold_def healthOf_def demo_poller_def newEmptySnapshot_def)

lemma armed_always_asked_witness:
  "list_ex (asks_about (the (pendingItem demo_armed))) (plCalls (PollCI demo_poll_env KindUnknown ((demo_poller [])\<lparr>plCalls := []\<rparr>)))"
proof (rule armed_always_asked[OF _ _ _ _ demo_open])
  show "demo_armed \<in> set (snPullRequests (plSnap (demo_poller [])))" by (simp add: demo_poller_def)
  show "armedOnGitHub demo_armed" by (simp add: armedOnGitHub_def demo_armed_def zero_pr_def)
  show "pendingItem demo_armed = Some (the (pendingItem demo_armed))" by (simp add: demo_pending)
  show "driven demo_poll_env (prForge demo_armed)"
    by (simp add: driven_def pendingRefresherFor_def sourceFor_def demo_poll_env_def demo_poll_source_def
        demo_armed_def zero_pr_def)
qed simp

lemma outage_backs_nothing_off_witness:
  "plBoard (PollCI demo_poll_env KindUnknown (demo_poller [])) = plBoard (demo_poller []) \<and>
   psEntries (plSched (PollCI demo_poll_env KindUnknown (demo_poller []))) =
     keep_keys (\<lambda>k. k \<in> poll_live demo_poll_env (plSnap (demo_poller []))) (psEntries (plSched (demo_poller [])))"
proof (rule outage_backs_nothing_off)
  show "all_down demo_poll_env" by (simp add: demo_poll_env_def demo_poll_source_def source_down_def)
  show "seqs_past (demo_poller [])" by (simp add: seqs_past_def demo_poller_def scopedSeq_def)
qed

end
