(* ===== verification/Dash_Service.thy ===== *)
theory Dash_Service
  imports FD_Model
begin

text \<open>
  \<open>internal/dashboard/service.go\<close>: the service that owns the one running aggregator and what must
  outlive it, and the subscribers of \<open>aggregator.go\<close>. An aggregator is what the service sees of it: a
  number, its sources, the hooks and loops it was built with, its snapshot, and whether its first
  refresh is over. Every method runs under the service's mutex, so a run is a sequence of events.
  \<open>svCancelled\<close> and \<open>svForced\<close> are traces: the aggregators whose context was cancelled, and the
  times of the forced refreshes that fetched.
\<close>

section \<open>State\<close>

datatype agg_hook = DebounceTimerHook | SnapshotCacheHook | SeenStoreHook | AutoUpdateHook | AutoMergeHook
  | WebhookUpgradeHook | CIPollLoop | QueuedActionsHook

record 'src managed =
  maId :: nat
  maSources :: "'src list"
  maHooks :: "agg_hook list"
  maDone :: bool
  maSnap :: snapshot

record 'src service =
  svCurrent :: "'src managed option"
  svGiven :: "agg_hook set"          \<comment> \<open>which collaborators the setters have given\<close>
  svCIPollInterval :: duration
  svFirstRefreshSeen :: bool
  svFirstRefreshGrace :: duration
  svFirstStarted :: time
  svBootStarted :: bool
  svRefreshedOnce :: bool
  svForceRefreshCooldown :: duration
  svLastForced :: time
  svStarted :: nat
  svCancelled :: "nat list"
  svForced :: "time list"

definition defaultFirstRefreshGrace :: duration where "defaultFirstRefreshGrace = 30 * second"
definition DefaultForceRefreshCooldown :: duration where "DefaultForceRefreshCooldown = 5 * second"

definition NewService :: "'src service" where
  "NewService = \<lparr>svCurrent = None, svGiven = {}, svCIPollInterval = 0, svFirstRefreshSeen = False,
     svFirstRefreshGrace = defaultFirstRefreshGrace, svFirstStarted = zero_time, svBootStarted = False,
     svRefreshedOnce = False, svForceRefreshCooldown = DefaultForceRefreshCooldown, svLastForced = zero_time,
     svStarted = 0, svCancelled = [], svForced = []\<rparr>"

section \<open>Starting and stopping\<close>

definition set_hook :: "agg_hook \<Rightarrow> 'src service \<Rightarrow> 'src service" where
  "set_hook h s = s\<lparr>svGiven := insert h (svGiven s)\<rparr>"

definition SetCIPollInterval :: "duration \<Rightarrow> 'src service \<Rightarrow> 'src service" where
  "SetCIPollInterval d s = s\<lparr>svCIPollInterval := d\<rparr>"

text \<open>The hooks in the order \<open>startLocked\<close> asks for them.\<close>

definition built_hooks :: "'src service \<Rightarrow> agg_hook list" where
  "built_hooks s = filter (\<lambda>h. if h = CIPollLoop then svCIPollInterval s > 0 else h \<in> svGiven s)
     [DebounceTimerHook, SnapshotCacheHook, SeenStoreHook, AutoUpdateHook, AutoMergeHook, WebhookUpgradeHook,
      CIPollLoop, QueuedActionsHook]"

definition startLocked :: "time \<Rightarrow> 'src list \<Rightarrow> snapshot \<Rightarrow> 'src service \<Rightarrow> 'src service" where
  "startLocked now sources restored s =
     s\<lparr>svCurrent := Some \<lparr>maId = svStarted s, maSources = sources, maHooks = built_hooks s, maDone = False, maSnap = restored\<rparr>,
       svStarted := svStarted s + 1,
       svFirstStarted := (if svFirstStarted s = zero_time then now else svFirstStarted s)\<rparr>"

definition latchFirstRefreshLocked :: "'src service \<Rightarrow> 'src service" where
  "latchFirstRefreshLocked s = (case svCurrent s of
       Some m \<Rightarrow> if maDone m then s\<lparr>svRefreshedOnce := True\<rparr> else s
     | None \<Rightarrow> s)"

text \<open>\<open>s.current.cancel()\<close>: the context of the running aggregator ends.\<close>

definition cancelCurrent :: "'src service \<Rightarrow> 'src service" where
  "cancelCurrent s = (case svCurrent s of None \<Rightarrow> s | Some m \<Rightarrow> s\<lparr>svCancelled := maId m # svCancelled s\<rparr>)"

definition Ensure :: "time \<Rightarrow> 'src list \<Rightarrow> snapshot \<Rightarrow> 'src service \<Rightarrow> 'src service" where
  "Ensure now sources restored s =
     startLocked now sources restored
       (if svCurrent s \<noteq> None then cancelCurrent (latchFirstRefreshLocked s) else s)"

text \<open>\<open>load\<close> runs under the lock; \<open>None\<close> leaves what is running.\<close>

definition EnsureFrom :: "time \<Rightarrow> 'src list option \<Rightarrow> snapshot \<Rightarrow> 'src service \<Rightarrow> 'src service" where
  "EnsureFrom now load restored s = (case load of
       None \<Rightarrow> s
     | Some sources \<Rightarrow> startLocked now sources restored
         (if svCurrent s \<noteq> None then cancelCurrent (latchFirstRefreshLocked s) else s))"

definition EnsureIfAbsent :: "time \<Rightarrow> 'src list \<Rightarrow> snapshot \<Rightarrow> 'src service \<Rightarrow> 'src service" where
  "EnsureIfAbsent now sources restored s =
     (if svCurrent s \<noteq> None then s else startLocked now sources restored s)"

definition StartAtBoot :: "time \<Rightarrow> 'src list \<Rightarrow> snapshot \<Rightarrow> 'src service \<Rightarrow> 'src service" where
  "StartAtBoot now sources restored s =
     (if svCurrent s \<noteq> None then s
      else (startLocked now sources restored s)\<lparr>svBootStarted := True\<rparr>)"

definition StopService :: "'src service \<Rightarrow> 'src service" where
  "StopService s = (if svCurrent s \<noteq> None then cancelCurrent s else s)\<lparr>svCurrent := None\<rparr>"

definition ResetService :: "'src service \<Rightarrow> 'src service" where
  "ResetService s = s\<lparr>svRefreshedOnce := False, svFirstRefreshSeen := False, svFirstStarted := zero_time,
     svBootStarted := False, svLastForced := zero_time\<rparr>"

section \<open>What it answers\<close>

definition FirstRefreshDone :: "'src service \<Rightarrow> bool \<times> 'src service" where
  "FirstRefreshDone s = (let s = latchFirstRefreshLocked s in (svRefreshedOnce s, s))"

definition FirstRefreshComplete :: "time \<Rightarrow> 'src service \<Rightarrow> bool \<times> 'src service" where
  "FirstRefreshComplete now s =
     (if svFirstRefreshSeen s \<or> svBootStarted s then (True, s)
      else case svCurrent s of
        None \<Rightarrow> (True, s)
      | Some m \<Rightarrow>
          if maDone m \<or> time_sub now (svFirstStarted s) > svFirstRefreshGrace s
          then (True, s\<lparr>svFirstRefreshSeen := True\<rparr>) else (False, s))"

definition Get :: "'src service \<Rightarrow> snapshot" where
  "Get s = (case svCurrent s of None \<Rightarrow> newEmptySnapshot | Some m \<Rightarrow> maSnap m)"

definition FindPullRequest :: "forge \<Rightarrow> string \<Rightarrow> int \<Rightarrow> 'src service \<Rightarrow> pull_request option" where
  "FindPullRequest forge repo number s =
     find (\<lambda>pr. prForge pr = forge \<and> prRepo pr = repo \<and> prNumber pr = number) (snPullRequests (Get s))"

definition Running_svc :: "'src service \<Rightarrow> bool" where
  "Running_svc s \<longleftrightarrow> svCurrent s \<noteq> None"

text \<open>\<open>ForceRefresh\<close>: how long to wait and whether an aggregator runs; a fetch is noted in \<open>svForced\<close>.\<close>

definition ForceRefresh :: "time \<Rightarrow> 'src service \<Rightarrow> (duration \<times> bool) \<times> 'src service" where
  "ForceRefresh now s = (case svCurrent s of
       None \<Rightarrow> ((0, False), s)
     | Some m \<Rightarrow>
         (let s = latchFirstRefreshLocked s
          in if \<not> svRefreshedOnce s then ((svForceRefreshCooldown s, True), s)
             else let left = i64 (svForceRefreshCooldown s - time_sub now (svLastForced s))
                  in if svLastForced s \<noteq> zero_time \<and> left > 0 then ((left, True), s)
                     else ((0, True), s\<lparr>svLastForced := now, svForced := svForced s @ [now]\<rparr>)))"

section \<open>Runs\<close>

text \<open>
  An event and the time it happens at. \<open>EvLanded\<close> is a refresh of an aggregator ending; one that was
  cancelled changes nothing the service reads.
\<close>

datatype 'src svc_event = EvEnsure "'src list" snapshot | EvEnsureFrom "'src list option" snapshot
  | EvEnsureIfAbsent "'src list" snapshot | EvBoot "'src list" snapshot | EvStop | EvReset
  | EvReady | EvFirstDone | EvForce | EvLanded nat snapshot | EvHook agg_hook | EvPollInterval duration

definition landed :: "nat \<Rightarrow> snapshot \<Rightarrow> 'src service \<Rightarrow> 'src service" where
  "landed i snap s = (case svCurrent s of
       None \<Rightarrow> s
     | Some m \<Rightarrow> if maId m = i then s\<lparr>svCurrent := Some (m\<lparr>maDone := True, maSnap := snap\<rparr>)\<rparr> else s)"

fun svc_step :: "time \<times> 'src svc_event \<Rightarrow> 'src service \<Rightarrow> 'src service" where
  "svc_step (now, EvEnsure srcs snap) s = Ensure now srcs snap s"
| "svc_step (now, EvEnsureFrom load snap) s = EnsureFrom now load snap s"
| "svc_step (now, EvEnsureIfAbsent srcs snap) s = EnsureIfAbsent now srcs snap s"
| "svc_step (now, EvBoot srcs snap) s = StartAtBoot now srcs snap s"
| "svc_step (now, EvStop) s = StopService s"
| "svc_step (now, EvReset) s = ResetService s"
| "svc_step (now, EvReady) s = snd (FirstRefreshComplete now s)"
| "svc_step (now, EvFirstDone) s = snd (FirstRefreshDone s)"
| "svc_step (now, EvForce) s = snd (ForceRefresh now s)"
| "svc_step (now, EvLanded i snap) s = landed i snap s"
| "svc_step (now, EvHook h) s = set_hook h s"
| "svc_step (now, EvPollInterval d) s = SetCIPollInterval d s"

lemmas svc_defs = Ensure_def EnsureFrom_def EnsureIfAbsent_def StartAtBoot_def StopService_def ResetService_def
  FirstRefreshComplete_def FirstRefreshDone_def ForceRefresh_def landed_def set_hook_def SetCIPollInterval_def
  startLocked_def latchFirstRefreshLocked_def cancelCurrent_def Let_def

section \<open>One aggregator at a time\<close>

text \<open>Every aggregator ever started but the current one has been cancelled, and that one has not.\<close>

definition one_running :: "'src service \<Rightarrow> bool" where
  "one_running s \<longleftrightarrow> distinct (svCancelled s) \<and> (case svCurrent s of
       None \<Rightarrow> set (svCancelled s) = {..<svStarted s}
     | Some m \<Rightarrow> maId m < svStarted s \<and> set (svCancelled s) = {..<svStarted s} - {maId m})"

lemma below_Suc: "{..<Suc n} - {n} = {..<n}"
  by auto

lemma start_one: "one_running s \<Longrightarrow> svCurrent s = None \<Longrightarrow> one_running (startLocked now srcs snap s)"
  by (simp add: one_running_def startLocked_def below_Suc)

lemma cancel_one: "one_running s \<Longrightarrow> one_running ((cancelCurrent s)\<lparr>svCurrent := None\<rparr>)"
  by (auto simp: one_running_def cancelCurrent_def split: option.splits)

lemma replace_one:
  "one_running s \<Longrightarrow> one_running (startLocked now srcs snap
     (if svCurrent s \<noteq> None then cancelCurrent (latchFirstRefreshLocked s) else s))"
proof (cases "svCurrent s")
  case None
  then show "one_running s \<Longrightarrow> ?thesis" by (simp add: start_one)
next
  case (Some m)
  let ?s = "latchFirstRefreshLocked s"
  assume "one_running s"
  then have "one_running ?s" by (simp add: one_running_def latchFirstRefreshLocked_def Some)
  then have "one_running ((cancelCurrent ?s)\<lparr>svCurrent := None\<rparr>)" by (rule cancel_one)
  then have "one_running (startLocked now srcs snap ((cancelCurrent ?s)\<lparr>svCurrent := None\<rparr>))"
    by (rule start_one) simp
  moreover have "startLocked now srcs snap ((cancelCurrent ?s)\<lparr>svCurrent := None\<rparr>) =
      (startLocked now srcs snap (cancelCurrent ?s))"
    by (simp add: startLocked_def built_hooks_def cong: if_cong)
  ultimately show ?thesis by (simp add: Some)
qed

lemma step_one: "one_running s \<Longrightarrow> one_running (svc_step ev s)"
proof (induction ev s rule: svc_step.induct)
  case (1 now srcs snap s) then show ?case using replace_one[of s] by (simp add: Ensure_def)
next
  case (2 now load snap s) then show ?case using replace_one[of s] by (cases load) (simp_all add: EnsureFrom_def del: not_None_eq)
next
  case (3 now srcs snap s) then show ?case using start_one[of s] by (simp add: EnsureIfAbsent_def)
next
  case (4 now srcs snap s) then show ?case by (cases "svCurrent s") (simp_all add: StartAtBoot_def one_running_def startLocked_def below_Suc)
next
  case (5 now s) then show ?case
    using cancel_one[of s] by (cases "svCurrent s") (simp_all add: StopService_def one_running_def)
next
  case (10 now i snap s) then show ?case by (auto simp: landed_def one_running_def split: option.splits)
qed (auto simp: svc_defs one_running_def split: option.splits)

text \<open>
  C29: Whatever starts, saves, stops and refreshes come, at most one aggregator runs: every one ever
  started is cancelled exactly once, except the current one, which is not.
\<close>

theorem one_aggregator_runs: "one_running (fold svc_step evs NewService)"
proof -
  have "one_running s \<Longrightarrow> one_running (fold svc_step evs s)" for s :: "'a service"
    by (induction evs arbitrary: s) (simp_all add: step_one)
  then show ?thesis by (simp add: one_running_def NewService_def)
qed

section \<open>Readiness\<close>

text \<open>What an answer of "ready" given while an aggregator runs leaves behind.\<close>

definition ready_latched :: "'src service \<Rightarrow> bool" where
  "ready_latched s \<longleftrightarrow> svFirstRefreshSeen s \<or> svBootStarted s"

lemma ready_step: "ready_latched s \<Longrightarrow> snd ev \<noteq> EvReset \<Longrightarrow> ready_latched (svc_step ev s)"
  by (induction ev s rule: svc_step.induct) (auto simp: svc_defs ready_latched_def split: option.splits)

lemma ready_run: "ready_latched s \<Longrightarrow> EvReset \<notin> snd ` set evs \<Longrightarrow> ready_latched (fold svc_step evs s)"
  by (induction evs arbitrary: s) (auto simp: ready_step)

text \<open>
  Once the process answered ready with an aggregator running, it answers ready after any further
  events but a reset, at any time, whatever replaces or stops the aggregator.
\<close>

theorem ready_stays:
  assumes "fst (FirstRefreshComplete now s)" "Running_svc s" "EvReset \<notin> snd ` set evs"
  shows "fst (FirstRefreshComplete later (fold svc_step evs (snd (FirstRefreshComplete now s))))"
proof -
  have "ready_latched (snd (FirstRefreshComplete now s))"
    using assms(1,2) by (auto simp: FirstRefreshComplete_def Running_svc_def ready_latched_def split: option.splits if_splits)
  from ready_run[OF this assms(3)] show ?thesis by (auto simp: FirstRefreshComplete_def ready_latched_def)
qed

section \<open>The cooldown\<close>

text \<open>The forced fetches so far are a cooldown apart, and the last one is what \<open>svLastForced\<close> holds.\<close>

definition throttled :: "duration \<Rightarrow> time \<Rightarrow> 'src service \<Rightarrow> bool" where
  "throttled cool now s \<longleftrightarrow> svForceRefreshCooldown s = cool \<and> successively (\<lambda>a b. a + cool \<le> b) (svForced s) \<and>
     (svForced s \<noteq> [] \<longrightarrow> svLastForced s = last (svForced s) \<and> zero_time < svLastForced s \<and> svLastForced s \<le> now)"

lemma throttled_frame:
  "svForced s' = svForced s \<Longrightarrow> svLastForced s' = svLastForced s \<Longrightarrow>
   svForceRefreshCooldown s' = svForceRefreshCooldown s \<Longrightarrow> throttled cool now s \<Longrightarrow> now \<le> later \<Longrightarrow> throttled cool later s'"
  by (auto simp: throttled_def)

lemma left_over:
  assumes "0 \<le> cool" "cool < 2 ^ 62" "at \<le> now" "\<not> i64 (cool - time_sub now at) > 0"
  shows "at + cool \<le> now"
proof -
  have "0 \<le> time_sub now at" "time_sub now at < 2 ^ 63" "time_sub now at \<le> now - at"
    using assms(3) by (auto simp: time_sub_def)
  moreover from this have "i64 (cool - time_sub now at) = cool - time_sub now at" using assms(1,2) by (intro i64_id) auto
  ultimately show ?thesis using assms(4) by simp
qed

lemma force_throttled:
  assumes "throttled cool before s" "before \<le> now" "zero_time < now" "0 \<le> cool" "cool < 2 ^ 62"
  shows "throttled cool now (snd (ForceRefresh now s))"
proof (cases "svCurrent s")
  case None
  then show ?thesis using assms(1,2) by (auto simp: ForceRefresh_def throttled_def)
next
  case (Some m)
  define s1 where "s1 = latchFirstRefreshLocked s"
  have t1: "throttled cool now s1"
    using assms(1,2) by (auto simp: s1_def latchFirstRefreshLocked_def throttled_def Some)
  show ?thesis
  proof (cases "\<not> svRefreshedOnce s1 \<or> (svLastForced s1 \<noteq> zero_time \<and>
      i64 (svForceRefreshCooldown s1 - time_sub now (svLastForced s1)) > 0)")
    case True
    then show ?thesis using t1 by (auto simp: ForceRefresh_def Some Let_def s1_def[symmetric])
  next
    case False
    then have f: "snd (ForceRefresh now s) = s1\<lparr>svLastForced := now, svForced := svForced s1 @ [now]\<rparr>"
      by (auto simp: ForceRefresh_def Some Let_def s1_def[symmetric])
    have "svForced s1 \<noteq> [] \<Longrightarrow> last (svForced s1) + cool \<le> now"
      using False t1 left_over[OF assms(4,5), of "svLastForced s1" now] by (auto simp: throttled_def)
    then show ?thesis using t1 assms(3) by (auto simp: f throttled_def successively_append_iff)
  qed
qed

lemma step_throttled:
  assumes "throttled cool before s" "before \<le> fst ev" "zero_time < fst ev" "snd ev \<noteq> EvReset" "0 \<le> cool" "cool < 2 ^ 62"
  shows "throttled cool (fst ev) (svc_step ev s)"
proof (cases "snd ev = EvForce")
  case True
  then show ?thesis using force_throttled[OF assms(1)] assms by (cases ev) simp
next
  case False
  then have "svForced (svc_step ev s) = svForced s \<and> svLastForced (svc_step ev s) = svLastForced s \<and>
      svForceRefreshCooldown (svc_step ev s) = svForceRefreshCooldown s"
    using assms(4) by (induction ev s rule: svc_step.induct) (auto simp: svc_defs split: option.splits)
  then show ?thesis using throttled_frame[OF _ _ _ assms(1,2)] by blast
qed

lemma run_throttled:
  assumes "throttled cool before s" "sorted (before # map fst evs)" "EvReset \<notin> snd ` set evs"
    "zero_time < before" "0 \<le> cool" "cool < 2 ^ 62"
  shows "successively (\<lambda>a b. a + cool \<le> b) (svForced (fold svc_step evs s))"
  using assms
proof (induction evs arbitrary: s before)
  case (Cons ev evs)
  have "throttled cool (fst ev) (svc_step ev s)" using Cons.prems by (intro step_throttled[of _ before]) auto
  from Cons.IH[OF this] show ?case using Cons.prems by auto
qed (simp add: throttled_def)

text \<open>
  Forced refreshes that fetch are at least the cooldown apart, over any run of events in the
  order of their times without a reset: saving settings, stopping and restarting the aggregator
  between two clicks does not buy a fetch.
\<close>

theorem force_refresh_throttled:
  assumes "sorted (before # map fst evs)" "EvReset \<notin> snd ` set evs" "zero_time < before"
  shows "successively (\<lambda>a b. a + DefaultForceRefreshCooldown \<le> b) (svForced (fold svc_step evs NewService))"
  by (rule run_throttled[OF _ assms])
    (auto simp: throttled_def NewService_def DefaultForceRefreshCooldown_def)

section \<open>Subscribers\<close>

text \<open>
  The subscribers of an aggregator: each has a channel that holds at most one snapshot. \<open>notify\<close>
  drains and refills each under \<open>subsMu\<close>; a client's read empties its channel.
\<close>

type_synonym subscribers = "nat \<rightharpoonup> snapshot option"

definition Subscribe :: "nat \<Rightarrow> subscribers \<Rightarrow> subscribers" where
  "Subscribe ch subs = subs(ch \<mapsto> None)"

definition unsubscribe :: "nat \<Rightarrow> subscribers \<Rightarrow> subscribers" where
  "unsubscribe ch subs = subs(ch := None)"

definition notify :: "snapshot \<Rightarrow> subscribers \<Rightarrow> subscribers" where
  "notify snap subs = map_option (\<lambda>_. Some snap) \<circ> subs"

definition receive :: "nat \<Rightarrow> subscribers \<Rightarrow> snapshot option \<times> subscribers" where
  "receive ch subs = (case subs ch of
       Some (Some snap) \<Rightarrow> (Some snap, subs(ch \<mapsto> None))
     | _ \<Rightarrow> (None, subs))"

text \<open>
  A subscriber reads the newest snapshot published since it last read, and nothing when none was:
  however many came in between, it never sees an older one after a newer.
\<close>

lemma reads_newest:
  assumes "subs ch \<noteq> None"
  shows "fst (receive ch (fold notify snaps subs)) = (if snaps = [] then fst (receive ch subs) else Some (last snaps))"
    and "fst (receive ch (snd (receive ch subs))) = None"
proof -
  have "fold notify snaps subs ch = (if snaps = [] then subs ch else Some (Some (last snaps)))"
    using assms by (induction snaps rule: rev_induct) (auto simp: notify_def)
  then show "fst (receive ch (fold notify snaps subs)) = (if snaps = [] then fst (receive ch subs) else Some (last snaps))"
    by (cases "snaps = []") (simp, simp add: receive_def)
  show "fst (receive ch (snd (receive ch subs))) = None"
    by (auto simp: receive_def split: option.splits)
qed

section \<open>Concrete runs\<close>

definition demo_saves :: "(time \<times> nat svc_event) list" where
  "demo_saves = [(0, EvEnsure [1] newEmptySnapshot), (second, EvLanded 0 newEmptySnapshot), (second, EvForce),
     (2 * second, EvStop), (2 * second, EvEnsure [2] newEmptySnapshot), (3 * second, EvForce)]"

lemma ready_stays_witness:
  "fst (FirstRefreshComplete hour (fold svc_step [(2 * second, EvEnsure [2] newEmptySnapshot)]
     (snd (FirstRefreshComplete second (fold svc_step (take 2 demo_saves) NewService)))))"
  by (rule ready_stays)
    (simp_all add: demo_saves_def svc_defs NewService_def Running_svc_def eval_nat_numeral)

lemma force_refresh_throttled_witness:
  "successively (\<lambda>a b. a + DefaultForceRefreshCooldown \<le> b) (svForced (fold svc_step demo_saves NewService)) \<and>
   svForced (fold svc_step demo_saves NewService) = [second]"
proof
  show "successively (\<lambda>a b. a + DefaultForceRefreshCooldown \<le> b) (svForced (fold svc_step demo_saves NewService))"
    by (rule force_refresh_throttled[where before = 0]) (simp_all add: demo_saves_def zero_time_def)
  show "svForced (fold svc_step demo_saves NewService) = [second]"
    by (simp add: demo_saves_def svc_defs NewService_def DefaultForceRefreshCooldown_def zero_time_def time_sub_def)
qed

end
