(* ===== verification/Settings_Store.thy ===== *)
theory Settings_Store
  imports FD_Library
begin

text \<open>
  The settings of \<open>internal/settings\<close> (\<open>store.go\<close>, \<open>crypto.go\<close>, \<open>hidden_pull_request.go\<close>,
  \<open>auto_merge_intent.go\<close>, \<open>pull_request_auto_update.go\<close>): the one row of credentials and the tables
  keyed by repo or pull request. A statement that fails changes nothing; whether one fails is the
  argument \<open>works\<close>. AES-GCM under the server's key is a pair of functions, sealing under a nonce and
  opening, and so is the JSON text of a list of titles; the random bytes are arguments.
\<close>

section \<open>The cipher\<close>

record vault =
  vtSeal :: "string \<Rightarrow> string \<Rightarrow> string"      \<comment> \<open>nonce, plaintext; base64 of nonce and ciphertext\<close>
  vtOpen :: "string \<Rightarrow> string option"

definition Encrypt :: "vault \<Rightarrow> string \<Rightarrow> string \<Rightarrow> string" where
  "Encrypt v nonce plaintext = (if plaintext = '''' then '''' else vtSeal v nonce plaintext)"

definition Decrypt :: "vault \<Rightarrow> string \<Rightarrow> string option" where
  "Decrypt v encoded = (if encoded = '''' then Some '''' else vtOpen v encoded)"

text \<open>What an authenticated cipher promises of the texts it sealed.\<close>

definition vault_ok :: "vault \<Rightarrow> bool" where
  "vault_ok v \<longleftrightarrow> (\<forall>nonce p. vtSeal v nonce p \<noteq> '''' \<and> vtOpen v (vtSeal v nonce p) = Some p)"

lemma decrypt_encrypt [simp]: "vault_ok v \<Longrightarrow> Decrypt v (Encrypt v nonce p) = Some p"
  by (simp add: Decrypt_def Encrypt_def vault_ok_def)

section \<open>The tables\<close>

record credentials =
  crGitHubToken :: string
  crGitHubUsername :: string
  crForgejoURL :: string
  crForgejoToken :: string
  crForgejoUsername :: string
  crWebhookToken :: string
  crWebhookSecret :: string
  crRenovateRebaseLabel :: string
  crRenovateAuthors :: "string list"
  crHideDependencyDashboard :: bool
  crIgnoredTitles :: "string list"
  crTheme :: string
  crTimezone :: string
  crUpdatedAt :: time
  crInstallationID :: int

definition blank_credentials :: credentials where
  "blank_credentials = \<lparr>crGitHubToken = '''', crGitHubUsername = '''', crForgejoURL = '''', crForgejoToken = '''',
     crForgejoUsername = '''', crWebhookToken = '''', crWebhookSecret = '''', crRenovateRebaseLabel = '''',
     crRenovateAuthors = [], crHideDependencyDashboard = False, crIgnoredTitles = [], crTheme = '''',
     crTimezone = '''', crUpdatedAt = zero_time, crInstallationID = 0\<rparr>"

text \<open>The columns of table \<open>settings\<close> in the schema's order, and the defaults of a fresh row.\<close>

record settings_row =
  github_token :: string
  github_username :: string
  forgejo_url :: string
  forgejo_token :: string
  forgejo_username :: string
  webhook_token :: string
  webhook_secret :: string
  renovate_rebase_label :: string
  renovate_authors :: string
  hide_dependency_dashboard :: bool
  ignored_titles :: string
  filter_state :: string
  theme :: string
  timezone :: string
  github_app_installation_id :: int
  updated_at :: time

definition fresh_row :: "time \<Rightarrow> settings_row" where
  "fresh_row now = \<lparr>github_token = '''', github_username = '''', forgejo_url = '''', forgejo_token = '''',
     forgejo_username = '''', webhook_token = '''', webhook_secret = '''', renovate_rebase_label = '''',
     renovate_authors = '''', hide_dependency_dashboard = False, ignored_titles = ''[]'', filter_state = ''{}'',
     theme = '''', timezone = '''', github_app_installation_id = 0, updated_at = now\<rparr>"

type_synonym repo_id = "string \<times> string"          \<comment> \<open>forge, full name\<close>
type_synonym pull_id = "string \<times> string \<times> int"

record settings_db =
  sdRow :: "settings_row option"
  sdDeliveries :: "repo_id \<rightharpoonup> time"
  sdIgnored :: "repo_id \<rightharpoonup> bool \<times> bool"        \<comment> \<open>pull requests, issues\<close>
  sdAutoUpdate :: "repo_id set"
  sdRebaseBots :: "repo_id set"
  sdArmed :: "pull_id \<rightharpoonup> time"
  sdHidden :: "pull_id \<rightharpoonup> time option"
  sdChoices :: "pull_id \<rightharpoonup> bool"

definition empty_settings :: settings_db where
  "empty_settings = \<lparr>sdRow = None, sdDeliveries = Map.empty, sdIgnored = Map.empty, sdAutoUpdate = {},
     sdRebaseBots = {}, sdArmed = Map.empty, sdHidden = Map.empty, sdChoices = Map.empty\<rparr>"

datatype settings_error = SettingsNotFound | SettingsFailed

section \<open>The credential row\<close>

text \<open>The JSON text of the titles, and what reading a text gives.\<close>

record title_codec =
  tcEncode :: "string list \<Rightarrow> string"
  tcDecode :: "string \<Rightarrow> string list option"

definition renovateRebaseLabelDefault :: string where "renovateRebaseLabelDefault = ''rebase''"

definition RenovateRebaseLabelOrDefault :: "credentials \<Rightarrow> string" where
  "RenovateRebaseLabelOrDefault c =
     (if crRenovateRebaseLabel c = '''' then renovateRebaseLabelDefault else crRenovateRebaseLabel c)"

definition splitLogins :: "string \<Rightarrow> string list" where
  "splitLogins joined = (if joined = '''' then [] else split_at (CHR '','') joined)"

text \<open>\<open>Set\<close>: an upsert that leaves the webhook columns and the filter state of a row that exists.\<close>

definition SetCredentials :: "bool \<Rightarrow> vault \<Rightarrow> title_codec \<Rightarrow> string \<times> string \<Rightarrow> time \<Rightarrow> credentials \<Rightarrow>
    settings_db \<Rightarrow> settings_error option \<times> settings_db" where
  "SetCredentials works v tc nonces now c db =
     (if \<not> works then (Some SettingsFailed, db)
      else let row = (case sdRow db of Some r \<Rightarrow> r | None \<Rightarrow> fresh_row now)
           in (None, db\<lparr>sdRow := Some (row\<lparr>
                github_token := Encrypt v (fst nonces) (crGitHubToken c), github_username := crGitHubUsername c,
                forgejo_url := crForgejoURL c, forgejo_token := Encrypt v (snd nonces) (crForgejoToken c),
                forgejo_username := crForgejoUsername c, renovate_rebase_label := crRenovateRebaseLabel c,
                renovate_authors := join_with (CHR '','') (crRenovateAuthors c),
                hide_dependency_dashboard := crHideDependencyDashboard c,
                ignored_titles := tcEncode tc (crIgnoredTitles c), theme := crTheme c, timezone := crTimezone c,
                github_app_installation_id := crInstallationID c, updated_at := now\<rparr>)\<rparr>))"

definition GetCredentials :: "bool \<Rightarrow> vault \<Rightarrow> title_codec \<Rightarrow> settings_db \<Rightarrow> settings_error + credentials" where
  "GetCredentials works v tc db =
     (if \<not> works then Inl SettingsFailed
      else case sdRow db of
        None \<Rightarrow> Inl SettingsNotFound
      | Some r \<Rightarrow>
          (let titles = (case tcDecode tc (ignored_titles r) of Some ts \<Rightarrow> ts | None \<Rightarrow> [])
           in case Decrypt v (github_token r) of
                None \<Rightarrow> Inl SettingsFailed
              | Some gt \<Rightarrow> (case Decrypt v (forgejo_token r) of
                    None \<Rightarrow> Inl SettingsFailed
                  | Some ft \<Rightarrow> Inr \<lparr>crGitHubToken = gt, crGitHubUsername = github_username r,
                      crForgejoURL = forgejo_url r, crForgejoToken = ft, crForgejoUsername = forgejo_username r,
                      crWebhookToken = webhook_token r, crWebhookSecret = webhook_secret r,
                      crRenovateRebaseLabel = renovate_rebase_label r,
                      crRenovateAuthors = splitLogins (renovate_authors r),
                      crHideDependencyDashboard = hide_dependency_dashboard r, crIgnoredTitles = titles,
                      crTheme = theme r, crTimezone = timezone r, crUpdatedAt = updated_at r,
                      crInstallationID = github_app_installation_id r\<rparr>)))"

definition RenovateRebaseLabel :: "settings_error + credentials \<Rightarrow> settings_error + string" where
  "RenovateRebaseLabel got = (case got of
       Inl SettingsNotFound \<Rightarrow> Inr (RenovateRebaseLabelOrDefault blank_credentials)
     | Inl e \<Rightarrow> Inl e
     | Inr c \<Rightarrow> Inr (RenovateRebaseLabelOrDefault c))"

definition RenovateAuthors :: "settings_error + credentials \<Rightarrow> settings_error + string list" where
  "RenovateAuthors got = (case got of
       Inl SettingsNotFound \<Rightarrow> Inr []
     | Inl e \<Rightarrow> Inl e
     | Inr c \<Rightarrow> Inr (crRenovateAuthors c))"

section \<open>Webhook credentials\<close>

text \<open>
  \<open>EnsureWebhookCredentials\<close> is a read and, unless both values are there, a write: the two
  statements are two functions, so that calls can interleave between them.
\<close>

definition readWebhook :: "settings_db \<Rightarrow> string \<times> string" where
  "readWebhook db = (case sdRow db of None \<Rightarrow> ('''', '''') | Some r \<Rightarrow> (webhook_token r, webhook_secret r))"

definition fillWebhook :: "string \<times> string \<Rightarrow> string \<times> string \<Rightarrow> string \<times> string" where
  "fillWebhook random = (\<lambda>(token, secret).
     (if token = '''' then fst random else token, if secret = '''' then snd random else secret))"

definition writeWebhook :: "time \<Rightarrow> string \<times> string \<Rightarrow> settings_db \<Rightarrow> settings_db" where
  "writeWebhook now creds db =
     (let row = (case sdRow db of Some r \<Rightarrow> r | None \<Rightarrow> fresh_row now)
      in db\<lparr>sdRow := Some (row\<lparr>webhook_token := fst creds, webhook_secret := snd creds\<rparr>)\<rparr>)"

definition EnsureWebhookCredentials :: "bool \<Rightarrow> bool \<Rightarrow> time \<Rightarrow> string \<times> string \<Rightarrow> settings_db \<Rightarrow>
    (settings_error + string \<times> string) \<times> settings_db" where
  "EnsureWebhookCredentials reads writes now random db =
     (if \<not> reads then (Inl SettingsFailed, db)
      else let got = readWebhook db
           in if fst got \<noteq> '''' \<and> snd got \<noteq> '''' then (Inr got, db)
              else let creds = fillWebhook random got
                   in if \<not> writes then (Inl SettingsFailed, db)
                      else (Inr creds, writeWebhook now creds db))"

definition WebhookSecretFor :: "bool \<Rightarrow> string \<Rightarrow> settings_db \<Rightarrow> settings_error + string" where
  "WebhookSecretFor works token db =
     (if \<not> works then Inl SettingsFailed
      else case sdRow db of
        None \<Rightarrow> Inl SettingsNotFound
      | Some r \<Rightarrow>
          if token = '''' \<or> webhook_token r = '''' \<or> token \<noteq> webhook_token r then Inl SettingsNotFound
          else Inr (webhook_secret r))"

section \<open>The filter state\<close>

text \<open>\<open>rev\<close> reads a state's numeric top-level revision, if it has one.\<close>

definition GetFilterState :: "bool \<Rightarrow> settings_db \<Rightarrow> settings_error + string" where
  "GetFilterState works db =
     (if \<not> works then Inl SettingsFailed
      else Inr (case sdRow db of None \<Rightarrow> ''{}'' | Some r \<Rightarrow> filter_state r))"

definition SetFilterState :: "bool \<Rightarrow> (string \<Rightarrow> ('n::linorder) option) \<Rightarrow> time \<Rightarrow> string \<Rightarrow> settings_db \<Rightarrow>
    (settings_error + bool) \<times> settings_db" where
  "SetFilterState works revision now state db =
     (if \<not> works then (Inl SettingsFailed, db)
      else case sdRow db of
        None \<Rightarrow> (Inr True, db\<lparr>sdRow := Some ((fresh_row now)\<lparr>filter_state := state\<rparr>)\<rparr>)
      | Some r \<Rightarrow>
          (let replaces = (case (revision state, revision (filter_state r)) of
                 (Some new, Some old) \<Rightarrow> new \<ge> old
               | _ \<Rightarrow> True)
           in if replaces then (Inr True, db\<lparr>sdRow := Some (r\<lparr>filter_state := state\<rparr>)\<rparr>)
              else (Inr False, db)))"

section \<open>The tables keyed by repo and pull request\<close>

definition WebhookDeliveryKey :: "string \<Rightarrow> string \<Rightarrow> string" where
  "WebhookDeliveryKey forge repo = forge @ ''/'' @ repo"

definition IgnoreRepo :: "repo_id \<Rightarrow> bool \<Rightarrow> bool \<Rightarrow> settings_db \<Rightarrow> settings_db" where
  "IgnoreRepo repo prs issues db = db\<lparr>sdIgnored := (sdIgnored db)(repo \<mapsto> (prs, issues))\<rparr>"

definition UnignoreRepo :: "repo_id \<Rightarrow> settings_db \<Rightarrow> settings_db" where
  "UnignoreRepo repo db = db\<lparr>sdIgnored := (sdIgnored db)(repo := None)\<rparr>"

definition EnableAutoUpdateBranch :: "repo_id \<Rightarrow> settings_db \<Rightarrow> settings_db" where
  "EnableAutoUpdateBranch repo db = db\<lparr>sdAutoUpdate := insert repo (sdAutoUpdate db)\<rparr>"

definition DisableAutoUpdateBranch :: "repo_id \<Rightarrow> settings_db \<Rightarrow> settings_db" where
  "DisableAutoUpdateBranch repo db = db\<lparr>sdAutoUpdate := sdAutoUpdate db - {repo}\<rparr>"

definition EnableRebaseBots :: "repo_id \<Rightarrow> settings_db \<Rightarrow> settings_db" where
  "EnableRebaseBots repo db = db\<lparr>sdRebaseBots := insert repo (sdRebaseBots db)\<rparr>"

definition DisableRebaseBots :: "repo_id \<Rightarrow> settings_db \<Rightarrow> settings_db" where
  "DisableRebaseBots repo db = db\<lparr>sdRebaseBots := sdRebaseBots db - {repo}\<rparr>"

definition RecordWebhookDelivery :: "time \<Rightarrow> repo_id \<Rightarrow> settings_db \<Rightarrow> settings_db" where
  "RecordWebhookDelivery now repo db = db\<lparr>sdDeliveries := (sdDeliveries db)(repo \<mapsto> now)\<rparr>"

text \<open>\<open>ON CONFLICT DO NOTHING\<close>: arming again keeps the first time.\<close>

definition ArmAutoMerge :: "time \<Rightarrow> pull_id \<Rightarrow> settings_db \<Rightarrow> settings_db" where
  "ArmAutoMerge now pull db =
     (if sdArmed db pull \<noteq> None then db else db\<lparr>sdArmed := (sdArmed db)(pull \<mapsto> now)\<rparr>)"

definition CancelAutoMerge_row :: "pull_id \<Rightarrow> settings_db \<Rightarrow> settings_db" where
  "CancelAutoMerge_row pull db = db\<lparr>sdArmed := (sdArmed db)(pull := None)\<rparr>"

definition HidePullRequest :: "pull_id \<Rightarrow> time \<Rightarrow> settings_db \<Rightarrow> settings_db" where
  "HidePullRequest pull until db =
     db\<lparr>sdHidden := (sdHidden db)(pull \<mapsto> (if until = zero_time then None else Some until))\<rparr>"

definition UnhidePullRequest :: "pull_id \<Rightarrow> settings_db \<Rightarrow> settings_db" where
  "UnhidePullRequest pull db = db\<lparr>sdHidden := (sdHidden db)(pull := None)\<rparr>"

text \<open>\<open>HiddenPullRequests\<close> deletes what has ended and answers with the rest.\<close>

definition HiddenPullRequests :: "time \<Rightarrow> settings_db \<Rightarrow> (pull_id \<rightharpoonup> time option) \<times> settings_db" where
  "HiddenPullRequests now db =
     (let kept = (\<lambda>pull. case sdHidden db pull of
            Some (Some until) \<Rightarrow> if until \<le> now then None else Some (Some until)
          | h \<Rightarrow> h)
      in (kept, db\<lparr>sdHidden := kept\<rparr>))"

definition ForgetHiddenPullRequests :: "pull_id list \<Rightarrow> settings_db \<Rightarrow> settings_db" where
  "ForgetHiddenPullRequests = fold UnhidePullRequest"

definition SetPullRequestAutoUpdate :: "pull_id \<Rightarrow> bool \<Rightarrow> settings_db \<Rightarrow> settings_db" where
  "SetPullRequestAutoUpdate pull enabled db = db\<lparr>sdChoices := (sdChoices db)(pull \<mapsto> enabled)\<rparr>"

definition ClearPullRequestAutoUpdate :: "pull_id \<Rightarrow> settings_db \<Rightarrow> settings_db" where
  "ClearPullRequestAutoUpdate pull db = db\<lparr>sdChoices := (sdChoices db)(pull := None)\<rparr>"

section \<open>What is saved comes back\<close>

lemma split_join:
  "ps \<noteq> [] \<Longrightarrow> list_all (\<lambda>p. c \<notin> set p) ps \<Longrightarrow> split_at c (join_with c ps) = ps"
  by (induction c ps rule: join_with.induct) (auto simp: split_at_absent split_at_append)

text \<open>A list of logins the column can hold: no commas, and not one blank login alone.\<close>

definition logins_ok :: "string list \<Rightarrow> bool" where
  "logins_ok ls \<longleftrightarrow> list_all (\<lambda>l. CHR '','' \<notin> set l) ls \<and> ls \<noteq> ['''']"

lemma join_empty: "join_with c ps = '''' \<longleftrightarrow> ps = [] \<or> ps = ['''']"
  by (cases "(c, ps)" rule: join_with.cases) auto

lemma logins_back: "logins_ok ls \<Longrightarrow> splitLogins (join_with (CHR '','') ls) = ls"
  by (cases "ls = []") (auto simp: splitLogins_def logins_ok_def join_empty split_join)

lemma save_back:
  assumes "vault_ok v" "logins_ok (crRenovateAuthors c)"
    and "tcDecode tc (tcEncode tc (crIgnoredTitles c)) = Some (crIgnoredTitles c)"
    and "SetCredentials True v tc nonces now c db = (e, db')"
  shows "e = None \<and> GetCredentials True v tc db' = Inr (c\<lparr>crWebhookToken := fst (readWebhook db),
     crWebhookSecret := snd (readWebhook db), crUpdatedAt := now\<rparr>)"
proof -
  have "webhook_token (fresh_row now) = ''''" "webhook_secret (fresh_row now) = ''''" by (simp_all add: fresh_row_def)
  then show ?thesis using assms
    by (auto simp: SetCredentials_def GetCredentials_def readWebhook_def logins_back Let_def split: option.splits)
qed

text \<open>
  Settings that were saved come back as they were: every field, both tokens decrypted and the
  logins and patterns as lists, with the webhook values the row had before and the time of the save.
\<close>

theorem saved_settings_come_back:
  assumes "vault_ok v" "logins_ok (crRenovateAuthors c)"
    and "tcDecode tc (tcEncode tc (crIgnoredTitles c)) = Some (crIgnoredTitles c)"
    and "SetCredentials True v tc nonces now c db = (e, db')"
  shows "e = None \<and> GetCredentials True v tc db' = Inr (c\<lparr>crWebhookToken := fst (readWebhook db),
     crWebhookSecret := snd (readWebhook db), crUpdatedAt := now\<rparr>)"
  by (rule save_back[OF assms])

text \<open>No token is stored in the clear: a stored token is empty or a sealed text.\<close>

lemma tokens_sealed:
  assumes "SetCredentials True v tc nonces now c db = (None, db')" "sdRow db' = Some r"
  shows "github_token r \<in> {'''', vtSeal v (fst nonces) (crGitHubToken c)}"
    and "forgejo_token r \<in> {'''', vtSeal v (snd nonces) (crForgejoToken c)}"
  using assms by (auto simp: SetCredentials_def Let_def Encrypt_def)

section \<open>Sequences of writes\<close>

datatype settings_op =
    OpSet bool "string \<times> string" time credentials
  | OpEnsure bool bool time "string \<times> string"
  | OpFilter bool time string
  | OpIgnore repo_id bool bool | OpUnignore repo_id
  | OpAutoUpdate repo_id bool | OpRebaseBots repo_id bool
  | OpDelivered time repo_id
  | OpArm time pull_id | OpDisarm pull_id
  | OpHide pull_id time | OpUnhide pull_id | OpListHidden time
  | OpChoose pull_id bool | OpUnchoose pull_id

fun settings_step :: "vault \<Rightarrow> title_codec \<Rightarrow> (string \<Rightarrow> ('n::linorder) option) \<Rightarrow> settings_op \<Rightarrow> settings_db \<Rightarrow> settings_db" where
  "settings_step v tc revision (OpSet works nonces now c) db = snd (SetCredentials works v tc nonces now c db)"
| "settings_step v tc revision (OpEnsure reads writes now random) db = snd (EnsureWebhookCredentials reads writes now random db)"
| "settings_step v tc revision (OpFilter works now state) db = snd (SetFilterState works revision now state db)"
| "settings_step v tc revision (OpIgnore repo prs issues) db = IgnoreRepo repo prs issues db"
| "settings_step v tc revision (OpUnignore repo) db = UnignoreRepo repo db"
| "settings_step v tc revision (OpAutoUpdate repo on) db =
     (if on then EnableAutoUpdateBranch repo db else DisableAutoUpdateBranch repo db)"
| "settings_step v tc revision (OpRebaseBots repo on) db =
     (if on then EnableRebaseBots repo db else DisableRebaseBots repo db)"
| "settings_step v tc revision (OpDelivered now repo) db = RecordWebhookDelivery now repo db"
| "settings_step v tc revision (OpArm now pull) db = ArmAutoMerge now pull db"
| "settings_step v tc revision (OpDisarm pull) db = CancelAutoMerge_row pull db"
| "settings_step v tc revision (OpHide pull until) db = HidePullRequest pull until db"
| "settings_step v tc revision (OpUnhide pull) db = UnhidePullRequest pull db"
| "settings_step v tc revision (OpListHidden now) db = snd (HiddenPullRequests now db)"
| "settings_step v tc revision (OpChoose pull on) db = SetPullRequestAutoUpdate pull on db"
| "settings_step v tc revision (OpUnchoose pull) db = ClearPullRequestAutoUpdate pull db"

lemmas repo_tables = IgnoreRepo_def UnignoreRepo_def EnableAutoUpdateBranch_def DisableAutoUpdateBranch_def
  EnableRebaseBots_def DisableRebaseBots_def RecordWebhookDelivery_def ArmAutoMerge_def CancelAutoMerge_row_def
  HidePullRequest_def UnhidePullRequest_def HiddenPullRequests_def SetPullRequestAutoUpdate_def
  ClearPullRequestAutoUpdate_def Let_def

lemma webhook_step:
  assumes "fst (readWebhook db) \<noteq> ''''" "snd (readWebhook db) \<noteq> ''''"
  shows "readWebhook (settings_step v tc revision op db) = readWebhook db"
  using assms
  by (cases op) (auto simp: repo_tables readWebhook_def SetCredentials_def EnsureWebhookCredentials_def
      SetFilterState_def split: option.splits prod.splits if_splits)

lemma webhook_steps:
  assumes "fst (readWebhook db) \<noteq> ''''" "snd (readWebhook db) \<noteq> ''''"
  shows "readWebhook (fold (settings_step v tc revision) ops db) = readWebhook db"
  using assms by (induction ops arbitrary: db) (simp_all add: webhook_step)

lemma ensured:
  assumes "EnsureWebhookCredentials reads writes now random db = (Inr creds, db')" "fst random \<noteq> ''''" "snd random \<noteq> ''''"
  shows "readWebhook db' = creds \<and> fst creds \<noteq> '''' \<and> snd creds \<noteq> ''''"
  using assms
  by (auto simp: EnsureWebhookCredentials_def writeWebhook_def readWebhook_def fillWebhook_def Let_def split_beta
      split: option.splits if_splits)

text \<open>
  A webhook token and secret that were handed out stay valid: after any settings saves, filter
  saves and other writes, and any further requests for them, the same two are handed out, and a
  delivery under the token is checked against the secret.
\<close>

theorem webhook_credentials_stable:
  assumes "EnsureWebhookCredentials reads writes now random db = (Inr creds, db')" "fst random \<noteq> ''''" "snd random \<noteq> ''''"
  shows "EnsureWebhookCredentials True w later random' (fold (settings_step v tc revision) ops db') =
      (Inr creds, fold (settings_step v tc revision) ops db') \<and>
    WebhookSecretFor True (fst creds) (fold (settings_step v tc revision) ops db') = Inr (snd creds)"
proof -
  let ?db = "fold (settings_step v tc revision) ops db'"
  note e = ensured[OF assms]
  have r: "readWebhook ?db = creds" using webhook_steps[of db'] e by simp
  then have "sdRow ?db \<noteq> None" using e by (cases "sdRow ?db") (auto simp: readWebhook_def)
  then show ?thesis using r e by (auto simp: EnsureWebhookCredentials_def WebhookSecretFor_def readWebhook_def Let_def)
qed

text \<open>
  Two first calls at the same instant can both find nothing and both write: the one that wrote
  first has then handed out a token that no delivery is accepted under.
\<close>

lemma ensure_race:
  assumes "readWebhook db = ('''', '''')" "fst a \<noteq> ''''" "snd a \<noteq> ''''" "fst b \<noteq> ''''" "snd b \<noteq> ''''" "fst a \<noteq> fst b"
  shows "WebhookSecretFor True (fst (fillWebhook a (readWebhook db)))
    (writeWebhook now (fillWebhook b (readWebhook db)) (writeWebhook now (fillWebhook a (readWebhook db)) db)) = Inl SettingsNotFound"
  using assms by (simp add: fillWebhook_def writeWebhook_def WebhookSecretFor_def Let_def)

section \<open>The newest filters win\<close>

definition numbered_by :: "(string \<Rightarrow> ('n::linorder) option) \<Rightarrow> 'n \<Rightarrow> settings_db \<Rightarrow> bool" where
  "numbered_by revision least db \<longleftrightarrow> (\<exists>r n. sdRow db = Some r \<and> revision (filter_state r) = Some n \<and> least \<le> n)"

lemma numbered_step:
  assumes "numbered_by revision least db" "\<And>works now state. op = OpFilter works now state \<Longrightarrow> revision state \<noteq> None"
  shows "numbered_by revision least (settings_step v tc revision op db)"
  using assms
  by (cases op) (fastforce simp: repo_tables numbered_by_def SetCredentials_def EnsureWebhookCredentials_def writeWebhook_def
      SetFilterState_def split: option.splits if_splits prod.splits)+

text \<open>
  The saved filters never go back: from a saved state with a revision, over any writes whose filter
  states carry revisions, in whatever order they arrive, the saved revision only grows; a save
  told that it was stored is what is saved.
\<close>

theorem filter_state_never_back:
  assumes "sdRow db = Some r" "revision (filter_state r) = Some n"
    and "\<And>works now state. OpFilter works now state \<in> set ops \<Longrightarrow> revision state \<noteq> None"
  shows "\<exists>r' n'. sdRow (fold (settings_step v tc revision) ops db) = Some r' \<and>
    revision (filter_state r') = Some n' \<and> n \<le> n'"
proof -
  have "numbered_by revision n db" using assms(1,2) by (auto simp: numbered_by_def)
  then have "numbered_by revision n (fold (settings_step v tc revision) ops db)" using assms(3)
  proof (induction ops arbitrary: db)
    case (Cons op ops)
    have "numbered_by revision n (settings_step v tc revision op db)"
      using Cons.prems by (intro numbered_step) auto
    moreover have "\<And>works now state. OpFilter works now state \<in> set ops \<Longrightarrow> revision state \<noteq> None"
      by (rule Cons.prems(2)) (rule list.set_intros(2))
    ultimately show ?case using Cons.IH by auto
  qed simp
  then show ?thesis by (auto simp: numbered_by_def)
qed

lemma stored_is_saved:
  assumes "SetFilterState True revision now state db = (Inr True, db')"
  shows "GetFilterState True db' = Inr state"
  using assms by (auto simp: SetFilterState_def GetFilterState_def Let_def split: option.splits if_splits)

section \<open>Hidden pull requests\<close>

text \<open>A hidden pull request is listed until its time, or for good, unless it is unhidden.\<close>

lemma hidden_until:
  assumes "until \<noteq> zero_time"
  shows "fst (HiddenPullRequests now (HidePullRequest pull until db)) pull = (if until \<le> now then None else Some (Some until))"
    and "fst (HiddenPullRequests now (HidePullRequest pull zero_time db)) pull = Some None"
    and "other \<noteq> pull \<Longrightarrow> fst (HiddenPullRequests now (HidePullRequest pull until db)) other = fst (HiddenPullRequests now db) other"
  using assms by (simp_all add: HiddenPullRequests_def HidePullRequest_def Let_def)

section \<open>Concrete saves\<close>

definition demo_vault :: vault where
  "demo_vault = \<lparr>vtSeal = (\<lambda>n p. CHR ''#'' # p), vtOpen = (\<lambda>s. Some (tl s))\<rparr>"

definition demo_titles :: title_codec where
  "demo_titles = \<lparr>tcEncode = join_with (CHR '';''), tcDecode = (\<lambda>s. Some (splitLogins s))\<rparr>"

definition demo_credentials :: credentials where
  "demo_credentials = blank_credentials\<lparr>crGitHubToken := ''ghp'', crRenovateAuthors := [''renovate'', ''bot'']\<rparr>"

lemma saved_settings_come_back_witness:
  "fst (SetCredentials True demo_vault demo_titles (''a'', ''b'') 0 demo_credentials empty_settings) = None \<and>
   GetCredentials True demo_vault demo_titles
     (snd (SetCredentials True demo_vault demo_titles (''a'', ''b'') 0 demo_credentials empty_settings)) =
   Inr (demo_credentials\<lparr>crWebhookToken := '''', crWebhookSecret := '''', crUpdatedAt := 0\<rparr>)"
proof -
  have "fst (SetCredentials True demo_vault demo_titles (''a'', ''b'') 0 demo_credentials empty_settings) = None \<and>
   GetCredentials True demo_vault demo_titles
     (snd (SetCredentials True demo_vault demo_titles (''a'', ''b'') 0 demo_credentials empty_settings)) =
   Inr (demo_credentials\<lparr>crWebhookToken := fst (readWebhook empty_settings),
     crWebhookSecret := snd (readWebhook empty_settings), crUpdatedAt := 0\<rparr>)"
    by (rule saved_settings_come_back[where nonces = "(''a'', ''b'')" and now = 0 and db = empty_settings])
      (simp_all add: vault_ok_def demo_vault_def logins_ok_def demo_credentials_def blank_credentials_def demo_titles_def
        splitLogins_def)
  then show ?thesis by (simp add: readWebhook_def empty_settings_def)
qed

lemma webhook_credentials_stable_witness:
  "EnsureWebhookCredentials True True 5 (''x'', ''y'')
      (fold (settings_step demo_vault demo_titles (\<lambda>_. None :: nat option)) [OpSet True (''a'', ''b'') 1 demo_credentials]
        (snd (EnsureWebhookCredentials True True 0 (''tok'', ''sec'') empty_settings))) =
    (Inr (''tok'', ''sec''), fold (settings_step demo_vault demo_titles (\<lambda>_. None :: nat option)) [OpSet True (''a'', ''b'') 1 demo_credentials]
        (snd (EnsureWebhookCredentials True True 0 (''tok'', ''sec'') empty_settings))) \<and>
   WebhookSecretFor True (fst (''tok'', ''sec''))
      (fold (settings_step demo_vault demo_titles (\<lambda>_. None :: nat option)) [OpSet True (''a'', ''b'') 1 demo_credentials]
        (snd (EnsureWebhookCredentials True True 0 (''tok'', ''sec'') empty_settings))) = Inr (snd (''tok'', ''sec''))"
  by (rule webhook_credentials_stable[where random = "(''tok'', ''sec'')" and reads = True and writes = True
        and now = 0 and db = empty_settings])
    (simp_all add: EnsureWebhookCredentials_def readWebhook_def empty_settings_def fillWebhook_def writeWebhook_def Let_def)

definition demo_revision :: "string \<Rightarrow> nat option" where
  "demo_revision s = (if s = ''{}'' then None else Some (length s))"

lemma filter_state_never_back_witness:
  "\<exists>r' n'. sdRow (fold (settings_step demo_vault demo_titles demo_revision) [OpFilter True 1 ''ab'', OpFilter True 2 ''abc'']
      (empty_settings\<lparr>sdRow := Some ((fresh_row 0)\<lparr>filter_state := ''a''\<rparr>)\<rparr>)) = Some r' \<and>
    demo_revision (filter_state r') = Some n' \<and> 1 \<le> n'"
  by (rule filter_state_never_back) (auto simp: demo_revision_def)

end
