(* ===== verification/Settings_Api.thy ===== *)
theory Settings_Api
  imports Settings_Store FD_Model
begin

text \<open>
  The HTTP handlers of the settings, \<open>internal/api\<close> (\<open>settings.go\<close>, \<open>filter_state.go\<close>,
  \<open>repo_ignore.go\<close>, \<open>repo_setting.go\<close>, \<open>request_limits.go\<close>, parts of \<open>webhook_ensure.go\<close>) and the title
  patterns of \<open>dashboard/title_patterns.go\<close>. A request is its decoded body; a body that does not
  decode is \<open>None\<close>. What the regexp package makes of a pattern, Go's quoting of a string and the
  zone database are parameters.
\<close>

section \<open>Replies\<close>

datatype 'a api_reply = FieldError string string | BadRequest string | Failed string | Answer 'a

section \<open>Bounds\<close>

definition maxUsernameLen :: nat where "maxUsernameLen = 64"
definition maxForgeTokenLen :: nat where "maxForgeTokenLen = 512"
definition maxForgeURLLen :: nat where "maxForgeURLLen = 2048"
definition maxRebaseLabelLen :: nat where "maxRebaseLabelLen = 100"
definition maxTimezoneLen :: nat where "maxTimezoneLen = 64"
definition maxRepoFullNameLen :: nat where "maxRepoFullNameLen = 255"
definition maxRenovateAuthors :: nat where "maxRenovateAuthors = 20"
definition maxIgnoredTitles :: nat where "maxIgnoredTitles = 20"
definition maxIgnoredTitleLen :: nat where "maxIgnoredTitleLen = 200"
definition maxInstallationID :: int where "maxInstallationID = 9007199254740991"

text \<open>\<open>overBound\<close>: the first field that is too long, if any.\<close>

fun overBound :: "(string \<times> string \<times> nat) list \<Rightarrow> string option" where
  "overBound [] = None"
| "overBound ((field, val, limit) # bs) = (if rune_count val > limit then Some field else overBound bs)"

section \<open>Title patterns\<close>

datatype syntax_code = ErrInvalidPerlOp | ErrInvalidNamedCapture | ErrInvalidEscape | SyntaxOther string

definition code_text :: "syntax_code \<Rightarrow> string" where
  "code_text c = (case c of ErrInvalidPerlOp \<Rightarrow> ''invalid or unsupported Perl syntax''
     | ErrInvalidNamedCapture \<Rightarrow> ''invalid named capture'' | ErrInvalidEscape \<Rightarrow> ''invalid escape sequence''
     | SyntaxOther s \<Rightarrow> s)"

text \<open>
  \<open>regexp.Compile\<close>: the test of a string, or the parser's error code and the piece it points at
  (\<open>None\<close> for an error that is not the parser's).
\<close>

type_synonym regexps = "string \<Rightarrow> (syntax_code \<times> string) option + (string \<Rightarrow> bool)"

definition patternReason :: "(syntax_code \<times> string) option \<Rightarrow> string" where
  "patternReason err = (case err of
       None \<Rightarrow> ''not a valid pattern''
     | Some (code, expr) \<Rightarrow>
         if code = ErrInvalidPerlOp \<and> (expr = ''(?='' \<or> expr = ''(?!'') then ''lookahead is not supported''
         else if code = ErrInvalidNamedCapture \<and> (has_prefix expr ''(?<='' \<or> has_prefix expr ''(?<!'') then ''lookbehind is not supported''
         else if code = ErrInvalidEscape \<and> length expr = 2 \<and> expr ! 0 = CHR 0x5C \<and> byte (expr ! 1) \<ge> 49 \<and> byte (expr ! 1) \<le> 57
           then ''backreferences are not supported''
         else if code = ErrInvalidPerlOp then ''invalid or unsupported (?...) group''
         else code_text code)"

definition matchesEverything :: string where
  "matchesEverything = ''matches every title, so it would hide all issues''"

fun CompileTitlePatterns :: "regexps \<Rightarrow> string list \<Rightarrow> string + (string \<Rightarrow> bool) list" where
  "CompileTitlePatterns rx [] = Inr []"
| "CompileTitlePatterns rx (p # ps) = (case rx (''(?i)'' @ p) of
       Inl err \<Rightarrow> Inl (patternReason err)
     | Inr re \<Rightarrow>
         if re '''' then Inl matchesEverything
         else (case CompileTitlePatterns rx ps of Inl e \<Rightarrow> Inl e | Inr res \<Rightarrow> Inr (re # res)))"

definition Matches :: "(string \<Rightarrow> bool) list \<Rightarrow> string \<Rightarrow> bool" where
  "Matches compiled title = list_ex (\<lambda>re. re title) compiled"

definition titleCounts :: "regexps \<Rightarrow> string list \<Rightarrow> issue list \<Rightarrow> (issue \<Rightarrow> bool) \<Rightarrow> nat option list" where
  "titleCounts rx patterns issues skip = map (\<lambda>p. case CompileTitlePatterns rx [p] of
       Inl _ \<Rightarrow> None
     | Inr m \<Rightarrow> Some (length (filter (\<lambda>i. \<not> skip i \<and> Matches m (isTitle i)) issues))) patterns"

definition snapshotKnown :: "snapshot \<Rightarrow> bool" where
  "snapshotKnown snap \<longleftrightarrow> snGeneratedAt snap \<noteq> zero_time \<and>
     list_ex (\<lambda>f. fhReachable f \<or> fhStaleSince f \<noteq> None) (snForges snap)"

text \<open>\<open>ignoredTitleCounts\<close>, with the repos whose issues are ignored as read from the store.\<close>

definition ignoredTitleCounts :: "regexps \<Rightarrow> (string \<Rightarrow> bool) \<Rightarrow> string list \<Rightarrow> snapshot \<Rightarrow> nat option list" where
  "ignoredTitleCounts rx ignored patterns snap =
     (if patterns = [] \<or> \<not> snapshotKnown snap then map (\<lambda>_. None) patterns
      else titleCounts rx patterns (snIssues snap)
        (\<lambda>i. ignored (WebhookDeliveryKey (forge_str (isForge i)) (isRepo i))))"

section \<open>The settings form\<close>

record settings_put =
  spGitHubToken :: string
  spGitHubUsername :: string
  spInstallationID :: int
  spForgejoURL :: string
  spForgejoToken :: string
  spForgejoUsername :: string
  spRenovateRebaseLabel :: string
  spRenovateAuthors :: "string list"
  spHideDependencyDashboard :: bool
  spIgnoredTitles :: "string list"

definition tooManyTitles :: string where
  "tooManyTitles = ''ignoredTitles lists more than '' @ nat_str maxIgnoredTitles @ '' entries''"

text \<open>The loop of \<open>cleanTitlePatterns\<close> over the rest of the list, \<open>i\<close> being the place of its first.\<close>

fun cleanTitles :: "regexps \<Rightarrow> (string \<Rightarrow> string) \<Rightarrow> nat \<Rightarrow> string set \<Rightarrow> string list \<Rightarrow> string + string list" where
  "cleanTitles rx quote i seen [] = Inr []"
| "cleanTitles rx quote i seen (p # ps) =
     (let p = trim_space p in
      if p = '''' then cleanTitles rx quote (Suc i) seen ps
      else if rune_count p > maxIgnoredTitleLen
        then Inl (''ignoredTitles entry '' @ nat_str i @ '' is longer than '' @ nat_str maxIgnoredTitleLen @ '' characters'')
      else case CompileTitlePatterns rx [p] of
        Inl err \<Rightarrow> Inl (''ignoredTitles entry '' @ nat_str i @ '' ('' @ quote p @ ''): '' @ err)
      | Inr _ \<Rightarrow>
          if lower p \<in> seen then cleanTitles rx quote (Suc i) seen ps
          else (case cleanTitles rx quote (Suc i) (insert (lower p) seen) ps of
                 Inl e \<Rightarrow> Inl e | Inr out \<Rightarrow> Inr (p # out)))"

definition cleanTitlePatterns :: "regexps \<Rightarrow> (string \<Rightarrow> string) \<Rightarrow> string list \<Rightarrow> string + string list" where
  "cleanTitlePatterns rx quote patterns =
     (if length patterns > maxIgnoredTitles then Inl tooManyTitles else cleanTitles rx quote 1 {} patterns)"

fun cleanLogin_loop :: "string set \<Rightarrow> string list \<Rightarrow> string + string list" where
  "cleanLogin_loop seen [] = Inr []"
| "cleanLogin_loop seen (l # ls) =
     (let l = trim_space l in
      if l = '''' then cleanLogin_loop seen ls
      else if str_contains l '','' \<or> rune_count l > maxUsernameLen then Inl ''renovateAuthors holds one login per entry''
      else if lower l \<in> seen then cleanLogin_loop seen ls
      else (case cleanLogin_loop (insert (lower l) seen) ls of Inl e \<Rightarrow> Inl e | Inr out \<Rightarrow> Inr (l # out)))"

definition cleanLogins :: "string list \<Rightarrow> string + string list" where
  "cleanLogins logins =
     (if length logins > maxRenovateAuthors then Inl ''renovateAuthors lists too many logins''
      else cleanLogin_loop {} logins)"

text \<open>
  \<open>validForgejoURL\<close>, over what \<open>url.Parse\<close> reads: the part before the fragment, its scheme, whether the rest
  has a query (a question mark, be it a forced empty query), and whether the authority names a user.
\<close>

definition url_rest :: "string \<Rightarrow> string \<times> string" where
  "url_rest raw = (case get_scheme (fst (cut_or raw ''#'')) of None \<Rightarrow> ('''', '''') | Some p \<Rightarrow> p)"

definition url_has_user :: "string \<Rightarrow> bool" where
  "url_has_user raw =
     (let rest = fst (cut_or (snd (url_rest raw)) ''?'')
      in has_prefix rest ''//'' \<and> CHR ''@'' \<in> set (fst (cut_or (drop 2 rest) ''/'')))"

definition validForgejoURL :: "string \<Rightarrow> string option" where
  "validForgejoURL raw =
     (if raw = '''' then None
      else case parse_url_host raw of
        None \<Rightarrow> Some ''forgejoUrl is not a valid URL''
      | Some host \<Rightarrow>
          (let (scheme, rest) = url_rest raw in
           if (scheme \<noteq> ''http'' \<and> scheme \<noteq> ''https'') \<or> host = ''''
             then Some ''forgejoUrl must be an http:// or https:// address with a host''
           else if url_has_user raw then Some ''forgejoUrl must not contain a username or password''
           else if CHR ''?'' \<in> set rest \<or> CHR ''#'' \<in> set raw
             then Some ''forgejoUrl must not contain a query string or fragment''
           else None))"

definition coalesce :: "string \<Rightarrow> string \<Rightarrow> string" where
  "coalesce newValue existing = (if newValue \<noteq> '''' then newValue else existing)"

text \<open>\<open>decodeSettingsPut\<close> after the body decoded: the request with its lists cleaned.\<close>

definition checkSettingsPut :: "regexps \<Rightarrow> (string \<Rightarrow> string) \<Rightarrow> settings_put \<Rightarrow> settings_put api_reply" where
  "checkSettingsPut rx quote req = (case overBound
       [(''githubToken'', spGitHubToken req, maxForgeTokenLen), (''githubUsername'', spGitHubUsername req, maxUsernameLen),
        (''forgejoUrl'', spForgejoURL req, maxForgeURLLen), (''forgejoToken'', spForgejoToken req, maxForgeTokenLen),
        (''forgejoUsername'', spForgejoUsername req, maxUsernameLen), (''renovateRebaseLabel'', spRenovateRebaseLabel req, maxRebaseLabelLen)] of
       Some field \<Rightarrow> FieldError field (field @ '' is too long'')
     | None \<Rightarrow> (case validForgejoURL (spForgejoURL req) of
           Some msg \<Rightarrow> FieldError ''forgejoUrl'' msg
         | None \<Rightarrow> (case cleanLogins (spRenovateAuthors req) of
               Inl msg \<Rightarrow> FieldError ''renovateAuthors'' msg
             | Inr authors \<Rightarrow> (case cleanTitlePatterns rx quote (spIgnoredTitles req) of
                   Inl msg \<Rightarrow> FieldError ''ignoredTitles'' msg
                 | Inr titles \<Rightarrow> Answer (req\<lparr>spRenovateAuthors := authors, spIgnoredTitles := titles\<rparr>)))))"

definition mergeSettings :: "settings_put \<Rightarrow> credentials \<Rightarrow> credentials" where
  "mergeSettings req existing = \<lparr>
     crGitHubToken = coalesce (spGitHubToken req) (crGitHubToken existing),
     crGitHubUsername = spGitHubUsername req,
     crForgejoURL = spForgejoURL req,
     crForgejoToken = coalesce (spForgejoToken req) (crForgejoToken existing),
     crForgejoUsername = spForgejoUsername req,
     crWebhookToken = crWebhookToken existing, crWebhookSecret = crWebhookSecret existing,
     crRenovateRebaseLabel = spRenovateRebaseLabel req,
     crRenovateAuthors = spRenovateAuthors req,
     crHideDependencyDashboard = spHideDependencyDashboard req,
     crIgnoredTitles = spIgnoredTitles req,
     crTheme = crTheme existing, crTimezone = crTimezone existing,
     crUpdatedAt = zero_time,
     crInstallationID = spInstallationID req\<rparr>"

definition settingsFieldError :: "credentials \<Rightarrow> settings_put \<Rightarrow> bool \<Rightarrow> (string \<times> string) option" where
  "settingsFieldError merged req configured =
     (if crForgejoURL merged = '''' \<and> (crForgejoToken merged \<noteq> '''' \<or> crForgejoUsername merged \<noteq> '''')
        then Some (''forgejoUrl'', ''forgejoUrl is required when a Forgejo token or username is set'')
      else if spInstallationID req < 0 then Some (''githubAppInstallationId'', ''githubAppInstallationId must be positive'')
      else if spInstallationID req > maxInstallationID
        then Some (''githubAppInstallationId'', ''githubAppInstallationId is too large'')
      else if crInstallationID merged \<noteq> 0 \<and> \<not> configured
        then Some (''githubAppInstallationId'',
          ''this server has no GitHub App configured; githubAppInstallationId cannot be set'')
      else None)"

text \<open>\<open>Get\<close> as the handlers read it: no row is the zero credentials.\<close>

definition getOrZero :: "settings_error + credentials \<Rightarrow> credentials option" where
  "getOrZero got = (case got of
       Inr c \<Rightarrow> Some c | Inl SettingsNotFound \<Rightarrow> Some blank_credentials | Inl SettingsFailed \<Rightarrow> None)"

record settings_env =
  seVault :: vault
  seTitles :: title_codec
  seRegexps :: regexps
  seQuote :: "string \<Rightarrow> string"
  seConfigured :: bool                   \<comment> \<open>whether the server has a GitHub App\<close>
  seZone :: "string \<Rightarrow> bool"            \<comment> \<open>whether the zone database knows a name\<close>
  seNonces :: "string \<times> string"
  seNow :: time
  seReads :: bool
  seWrites :: bool

definition env_get :: "settings_env \<Rightarrow> settings_db \<Rightarrow> credentials option" where
  "env_get v db = getOrZero (GetCredentials (seReads v) (seVault v) (seTitles v) db)"

definition env_set :: "settings_env \<Rightarrow> credentials \<Rightarrow> settings_db \<Rightarrow> settings_error option \<times> settings_db" where
  "env_set v = SetCredentials (seWrites v) (seVault v) (seTitles v) (seNonces v) (seNow v)"

text \<open>\<open>handleSettingsPut\<close>: the reply and the database; the aggregator restarts exactly on an answer.\<close>

definition handleSettingsPut :: "settings_env \<Rightarrow> settings_put option \<Rightarrow> settings_db \<Rightarrow> credentials api_reply \<times> settings_db" where
  "handleSettingsPut v body db = (case body of
       None \<Rightarrow> (BadRequest ''invalid request body'', db)
     | Some raw \<Rightarrow> (case checkSettingsPut (seRegexps v) (seQuote v) raw of
           Answer req \<Rightarrow> (case env_get v db of
               None \<Rightarrow> (Failed ''could not load existing settings'', db)
             | Some existing \<Rightarrow>
                 (let merged = mergeSettings req existing
                  in case settingsFieldError merged req (seConfigured v) of
                       Some (field, msg) \<Rightarrow> (FieldError field msg, db)
                     | None \<Rightarrow> (case env_set v merged db of
                           (Some _, db') \<Rightarrow> (Failed ''could not save settings'', db')
                         | (None, db') \<Rightarrow> (Answer merged, db'))))
         | FieldError f m \<Rightarrow> (FieldError f m, db)
         | BadRequest m \<Rightarrow> (BadRequest m, db)
         | Failed m \<Rightarrow> (Failed m, db)))"

section \<open>One field saved on its own\<close>

definition saveField :: "settings_env \<Rightarrow> string \<Rightarrow> (credentials \<Rightarrow> credentials) \<Rightarrow> settings_db \<Rightarrow> credentials api_reply \<times> settings_db" where
  "saveField v failed change db = (case env_get v db of
       None \<Rightarrow> (Failed ''could not load existing settings'', db)
     | Some existing \<Rightarrow> (case env_set v (change existing) db of
           (Some _, db') \<Rightarrow> (Failed failed, db')
         | (None, db') \<Rightarrow> (Answer (change existing), db')))"

definition handleThemePut :: "settings_env \<Rightarrow> string option \<Rightarrow> settings_db \<Rightarrow> credentials api_reply \<times> settings_db" where
  "handleThemePut v body db = (case body of
       None \<Rightarrow> (BadRequest ''invalid request body'', db)
     | Some th \<Rightarrow>
         if th \<noteq> '''' \<and> th \<noteq> ''light'' \<and> th \<noteq> ''dark''
         then (BadRequest (''theme must be '' @ [CHR 0x22, CHR 0x22] @ '', '' @ [CHR 0x22] @ ''light'' @ [CHR 0x22] @
                 '', or '' @ [CHR 0x22] @ ''dark'' @ [CHR 0x22]), db)
         else saveField v ''could not save theme'' (\<lambda>c. c\<lparr>crTheme := th\<rparr>) db)"

definition validTimezone :: "(string \<Rightarrow> bool) \<Rightarrow> string \<Rightarrow> bool" where
  "validTimezone zone name = (if name = '''' then True else if name = ''Local'' then False else zone name)"

definition handleTimezonePut :: "settings_env \<Rightarrow> string option \<Rightarrow> settings_db \<Rightarrow> credentials api_reply \<times> settings_db" where
  "handleTimezonePut v body db = (case body of
       None \<Rightarrow> (BadRequest ''invalid request body'', db)
     | Some tz \<Rightarrow> (case overBound [(''timezone'', tz, maxTimezoneLen)] of
           Some field \<Rightarrow> (FieldError field (field @ '' is too long''), db)
         | None \<Rightarrow>
             if \<not> validTimezone (seZone v) tz
             then (BadRequest (''timezone must be '' @ [CHR 0x22, CHR 0x22] @ '' or an IANA zone name such as '' @
                     [CHR 0x22] @ ''Europe/Amsterdam'' @ [CHR 0x22]), db)
             else saveField v ''could not save timezone'' (\<lambda>c. c\<lparr>crTimezone := tz\<rparr>) db))"

section \<open>What a client is shown\<close>

record settings_response =
  srGitHubUsername :: string
  srGitHubTokenSet :: bool
  srInstallationID :: int
  srAppConfigured :: bool
  srForgejoURL :: string
  srForgejoUsername :: string
  srForgejoTokenSet :: bool
  srWebhookToken :: string
  srWebhookSecret :: string
  srRenovateRebaseLabel :: string
  srRenovateAuthors :: "string list"
  srHideDependencyDashboard :: bool
  srIgnoredTitles :: "string list"
  srIgnoredTitleCounts :: "nat option list"
  srTheme :: string
  srTimezone :: string

text \<open>\<open>publicForgejoURL\<close> is the URL without user, query and fragment: a parameter here.\<close>

definition settingsResponseOf :: "(string \<Rightarrow> string) \<Rightarrow> credentials \<Rightarrow> bool \<Rightarrow> nat option list \<Rightarrow> settings_response" where
  "settingsResponseOf publicForgejoURL c configured counts = \<lparr>
     srGitHubUsername = crGitHubUsername c, srGitHubTokenSet = (crGitHubToken c \<noteq> ''''),
     srInstallationID = crInstallationID c, srAppConfigured = configured,
     srForgejoURL = publicForgejoURL (crForgejoURL c), srForgejoUsername = crForgejoUsername c,
     srForgejoTokenSet = (crForgejoToken c \<noteq> ''''), srWebhookToken = crWebhookToken c,
     srWebhookSecret = crWebhookSecret c, srRenovateRebaseLabel = crRenovateRebaseLabel c,
     srRenovateAuthors = crRenovateAuthors c, srHideDependencyDashboard = crHideDependencyDashboard c,
     srIgnoredTitles = crIgnoredTitles c, srIgnoredTitleCounts = counts, srTheme = crTheme c, srTimezone = crTimezone c\<rparr>"

text \<open>\<open>handleSettingsGet\<close>: the saved credentials with webhook values that exist from now on.\<close>

definition handleSettingsGet :: "settings_env \<Rightarrow> string \<times> string \<Rightarrow> settings_db \<Rightarrow> credentials api_reply \<times> settings_db" where
  "handleSettingsGet v random db = (case env_get v db of
       None \<Rightarrow> (Failed ''could not load settings'', db)
     | Some creds \<Rightarrow> (case EnsureWebhookCredentials (seReads v) (seWrites v) (seNow v) random db of
           (Inl _, db') \<Rightarrow> (Failed ''could not load webhook credentials'', db')
         | (Inr (token, secret), db') \<Rightarrow> (Answer (creds\<lparr>crWebhookToken := token, crWebhookSecret := secret\<rparr>), db')))"

definition handleThemeGet :: "settings_env \<Rightarrow> settings_db \<Rightarrow> string api_reply" where
  "handleThemeGet v db = (case env_get v db of
       None \<Rightarrow> Failed ''could not load settings'' | Some c \<Rightarrow> Answer (crTheme c))"

section \<open>Filter state\<close>

definition maxFilterStateBytes :: nat where "maxFilterStateBytes = 16 * 1024"
definition maxPickValues :: nat where "maxPickValues = 20"
definition maxPickChars :: nat where "maxPickChars = 1000"
definition pickKeys :: "string list" where "pickKeys = [''label'', ''repo'', ''author'']"

abbreviation (input) line_feed :: char where "line_feed \<equiv> CHR 0x0A"

text \<open>\<open>unicode.IsControl\<close>: the control characters of ASCII and of Latin-1.\<close>

definition control_rune :: "string \<Rightarrow> bool" where
  "control_rune r = (case r of
       [c] \<Rightarrow> byte c < 32 \<or> byte c = 127
     | [c, d] \<Rightarrow> byte c = 0xC2 \<and> 0x80 \<le> byte d \<and> byte d \<le> 0x9F
     | _ \<Rightarrow> False)"

definition validPick :: "string \<Rightarrow> bool" where
  "validPick pick =
     (if rune_count pick > maxPickChars then False
      else if length (filter (\<lambda>c. c = line_feed) pick) + 1 > maxPickValues then False
      else list_all (\<lambda>r. r = [line_feed] \<or> \<not> control_rune r) (runes pick))"

text \<open>\<open>invalidPick\<close>: \<open>shared\<close> reads a string under a key of the body's \<open>shared\<close> object, if there is one.\<close>

definition invalidPick :: "(string \<Rightarrow> string \<Rightarrow> string option) \<Rightarrow> string \<Rightarrow> string option" where
  "invalidPick shared body = find (\<lambda>key. case shared body key of Some pick \<Rightarrow> \<not> validPick pick | None \<Rightarrow> False) pickKeys"

text \<open>\<open>handleFilterStatePut\<close>: on an answer, \<open>None\<close> when stored and else the revision that won.\<close>

definition handleFilterStatePut :: "settings_env \<Rightarrow> (string \<Rightarrow> bool) \<Rightarrow> (string \<Rightarrow> string \<Rightarrow> string option) \<Rightarrow>
    (string \<Rightarrow> ('n::linorder) option) \<Rightarrow> string \<Rightarrow> settings_db \<Rightarrow> 'n option option api_reply \<times> settings_db" where
  "handleFilterStatePut v valid shared revision body db =
     (if length body > maxFilterStateBytes then (BadRequest ''request body too large'', db)
      else if \<not> valid body then (BadRequest ''invalid request body'', db)
      else case invalidPick shared body of
        Some key \<Rightarrow> (BadRequest (''the '' @ [CHR 0x22] @ key @ [CHR 0x22] @ '' filter pick is too long or invalid''), db)
      | None \<Rightarrow> (case SetFilterState (seWrites v) revision (seNow v) body db of
            (Inl _, db') \<Rightarrow> (Failed ''could not save filter state'', db')
          | (Inr True, db') \<Rightarrow> (Answer None, db')
          | (Inr False, db') \<Rightarrow> (case GetFilterState (seReads v) db' of
                Inl _ \<Rightarrow> (Failed ''could not load filter state'', db')
              | Inr saved \<Rightarrow> (Answer (Some (revision saved)), db'))))"

section \<open>Settings of a repo\<close>

definition safeRepoSegment :: "string \<Rightarrow> bool" where
  "safeRepoSegment s = (if s = '''' \<or> s = ''.'' \<or> s = ''..'' then False
     else list_all (\<lambda>c. \<not> (byte c \<le> 32 \<or> byte c = 127 \<or> c \<in> set ''?#%'' \<or> c = CHR 0x5C)) s)"

definition splitFullName :: "string \<Rightarrow> (string \<times> string) option" where
  "splitFullName fullName = (case split_at (CHR ''/'') fullName of
       [owner, name] \<Rightarrow> if safeRepoSegment owner \<and> safeRepoSegment name then Some (owner, name) else None
     | _ \<Rightarrow> None)"

definition badFullName :: string where
  "badFullName = ''fullName must be '' @ [CHR 0x22] @ ''owner/repo'' @ [CHR 0x22]"

definition handleRepoSetting :: "bool \<Rightarrow> (repo_id \<Rightarrow> settings_db \<Rightarrow> settings_db) \<Rightarrow> (string \<times> string) option \<Rightarrow>
    settings_db \<Rightarrow> unit api_reply \<times> settings_db" where
  "handleRepoSetting works apply_setting body db = (case body of
       None \<Rightarrow> (BadRequest ''invalid request body'', db)
     | Some (forge, fullName) \<Rightarrow> (case overBound [(''fullName'', fullName, maxRepoFullNameLen)] of
           Some field \<Rightarrow> (FieldError field (field @ '' is too long''), db)
         | None \<Rightarrow>
             if splitFullName fullName = None then (BadRequest badFullName, db)
             else if \<not> works then (Failed ''could not save'', db)
             else (Answer (), apply_setting (forge, fullName) db)))"

definition handleRepoIgnore :: "bool \<Rightarrow> (string \<times> string \<times> bool \<times> bool) option \<Rightarrow> settings_db \<Rightarrow> unit api_reply \<times> settings_db" where
  "handleRepoIgnore works body db = (case body of
       None \<Rightarrow> (BadRequest ''invalid request body'', db)
     | Some (forge, fullName, prs, issues) \<Rightarrow> (case overBound [(''fullName'', fullName, maxRepoFullNameLen)] of
           Some field \<Rightarrow> (FieldError field (field @ '' is too long''), db)
         | None \<Rightarrow>
             if splitFullName fullName = None then (BadRequest badFullName, db)
             else if \<not> prs \<and> \<not> issues then (BadRequest ''at least one of prs or issues must be true'', db)
             else if \<not> works then (Failed ''could not save'', db)
             else (Answer (), IgnoreRepo (forge, fullName) prs issues db)))"

definition handleRepoUnignore :: "bool \<Rightarrow> (string \<times> string) option \<Rightarrow> settings_db \<Rightarrow> unit api_reply \<times> settings_db" where
  "handleRepoUnignore works = handleRepoSetting works UnignoreRepo"

definition handleRebaseBotsEnable :: "bool \<Rightarrow> (string \<times> string) option \<Rightarrow> settings_db \<Rightarrow> unit api_reply \<times> settings_db" where
  "handleRebaseBotsEnable works = handleRepoSetting works EnableRebaseBots"

definition handleRebaseBotsDisable :: "bool \<Rightarrow> (string \<times> string) option \<Rightarrow> settings_db \<Rightarrow> unit api_reply \<times> settings_db" where
  "handleRebaseBotsDisable works = handleRepoSetting works DisableRebaseBots"

section \<open>Lists that were accepted\<close>

definition fresh_logins :: "string set \<Rightarrow> string list \<Rightarrow> bool" where
  "fresh_logins seen ls \<longleftrightarrow> distinct (map lower ls) \<and> set (map lower ls) \<inter> seen = {} \<and>
     list_all (\<lambda>l. l \<noteq> '''' \<and> CHR '','' \<notin> set l \<and> rune_count l \<le> maxUsernameLen) ls"

lemma contains_char: "str_contains l [c] \<longleftrightarrow> c \<in> set l"
  by (induction l) (auto simp: str_contains_def has_prefix_def)

lemma cleanLogin_loop_ok:
  "cleanLogin_loop seen ls = Inr out \<Longrightarrow> fresh_logins seen out \<and> length out \<le> length ls"
proof (induction ls arbitrary: seen out)
  case (Cons l ls)
  then show ?case
    by (fastforce simp: fresh_logins_def Let_def contains_char split: if_splits sum.splits)
qed (simp add: fresh_logins_def)

text \<open>An accepted list of logins: at most twenty, none blank, none with a comma, no two alike but for case.\<close>

lemma cleanLogins_ok:
  assumes "cleanLogins ls = Inr out"
  shows "length out \<le> maxRenovateAuthors" "fresh_logins {} out" "logins_ok out"
proof -
  have ok: "fresh_logins {} out \<and> length out \<le> length ls"
    using assms cleanLogin_loop_ok[of "{}" ls out] by (simp add: cleanLogins_def split: if_splits)
  then show "length out \<le> maxRenovateAuthors" "fresh_logins {} out"
    using assms by (auto simp: cleanLogins_def split: if_splits)
  show "logins_ok out" using ok by (auto simp: logins_ok_def fresh_logins_def list_all_iff)
qed

lemma checked_put:
  assumes "checkSettingsPut rx quote raw = Answer req"
  shows "logins_ok (spRenovateAuthors req)" "length (spRenovateAuthors req) \<le> maxRenovateAuthors"
    "validForgejoURL (spForgejoURL req) = None" "cleanTitlePatterns rx quote (spIgnoredTitles raw) = Inr (spIgnoredTitles req)"
  using assms cleanLogins_ok
  by (fastforce simp: checkSettingsPut_def split: option.splits sum.splits)+

section \<open>An accepted save\<close>

lemma accepted_put:
  assumes "handleSettingsPut v body db = (Answer merged, db')"
  obtains raw req existing where "body = Some raw" "checkSettingsPut (seRegexps v) (seQuote v) raw = Answer req"
    "env_get v db = Some existing" "merged = mergeSettings req existing"
    "settingsFieldError merged req (seConfigured v) = None" "env_set v merged db = (None, db')"
  using assms that
  by (auto simp: handleSettingsPut_def Let_def split: option.splits api_reply.splits prod.splits)

text \<open>What the two lists become, without the loops and their set of names seen: each entry trimmed, blank ones
  left out, and of those alike but for case the first.\<close>

fun first_of_each :: "string list \<Rightarrow> string list" where
  "first_of_each [] = []"
| "first_of_each (x # xs) = x # filter (\<lambda>y. lower y \<noteq> lower x) (first_of_each xs)"

definition cleaned_list :: "string list \<Rightarrow> string list" where
  "cleaned_list xs = first_of_each (filter (\<lambda>x. x \<noteq> '''') (map trim_space xs))"

lemma not_seen_insert:
  "filter (\<lambda>y. lower y \<notin> insert a seen) ys = filter (\<lambda>y. lower y \<notin> seen) (filter (\<lambda>y. lower y \<noteq> a) ys)"
  by (induction ys) auto

lemma seen_skipped:
  "a \<in> seen \<Longrightarrow> filter (\<lambda>y. lower y \<notin> seen) (filter (\<lambda>y. lower y \<noteq> a) ys) = filter (\<lambda>y. lower y \<notin> seen) ys"
  by (induction ys) auto

lemma cleanLogin_loop_is:
  "cleanLogin_loop seen ls = Inr out \<Longrightarrow> out = filter (\<lambda>l. lower l \<notin> seen) (cleaned_list ls)"
proof (induction seen ls arbitrary: out rule: cleanLogin_loop.induct)
  case (2 seen l ls)
  then show ?case using seen_skipped[of "lower (trim_space l)" seen] unfolding cleaned_list_def
    by (auto simp: Let_def not_seen_insert split: if_splits sum.splits)
qed (simp add: cleaned_list_def)

lemma cleanTitles_is:
  "cleanTitles rx quote i seen ps = Inr out \<Longrightarrow> out = filter (\<lambda>p. lower p \<notin> seen) (cleaned_list ps) \<and>
    list_all (\<lambda>p. rune_count p \<le> maxIgnoredTitleLen \<and> (\<exists>re. CompileTitlePatterns rx [p] = Inr re)) out"
proof (induction rx quote i seen ps arbitrary: out rule: cleanTitles.induct)
  case (2 rx quote i seen p ps)
  then show ?case using seen_skipped[of "lower (trim_space p)" seen] unfolding cleaned_list_def
    by (auto simp: Let_def not_seen_insert simp del: CompileTitlePatterns.simps split: if_splits sum.splits)
qed (simp add: cleaned_list_def)

lemma checked_lists:
  assumes "checkSettingsPut rx quote raw = Answer req"
  shows "req = raw\<lparr>spRenovateAuthors := cleaned_list (spRenovateAuthors raw), spIgnoredTitles := cleaned_list (spIgnoredTitles raw)\<rparr>"
    and "list_all (\<lambda>p. rune_count p \<le> maxIgnoredTitleLen \<and> (\<exists>re. CompileTitlePatterns rx [p] = Inr re)) (spIgnoredTitles req)"
proof -
  obtain authors titles where l: "cleanLogins (spRenovateAuthors raw) = Inr authors"
    "cleanTitlePatterns rx quote (spIgnoredTitles raw) = Inr titles"
    and req: "req = raw\<lparr>spRenovateAuthors := authors, spIgnoredTitles := titles\<rparr>"
    using assms by (auto simp: checkSettingsPut_def split: option.splits sum.splits)
  have "authors = cleaned_list (spRenovateAuthors raw)"
    using l(1) cleanLogin_loop_is[of "{}"] by (simp add: cleanLogins_def split: if_splits)
  moreover have "titles = cleaned_list (spIgnoredTitles raw) \<and>
      list_all (\<lambda>p. rune_count p \<le> maxIgnoredTitleLen \<and> (\<exists>re. CompileTitlePatterns rx [p] = Inr re)) titles"
    using l(2) cleanTitles_is[of rx quote 1 "{}"] by (simp add: cleanTitlePatterns_def split: if_splits)
  ultimately show "req = raw\<lparr>spRenovateAuthors := cleaned_list (spRenovateAuthors raw), spIgnoredTitles := cleaned_list (spIgnoredTitles raw)\<rparr>"
    "list_all (\<lambda>p. rune_count p \<le> maxIgnoredTitleLen \<and> (\<exists>re. CompileTitlePatterns rx [p] = Inr re)) (spIgnoredTitles req)"
    by (auto simp: req simp del: CompileTitlePatterns.simps)
qed

lemma webhook_read: "env_get v db = Some c \<Longrightarrow> (crWebhookToken c, crWebhookSecret c) = readWebhook db"
  by (auto simp: env_get_def getOrZero_def GetCredentials_def readWebhook_def blank_credentials_def Let_def
      split: option.splits sum.splits settings_error.splits if_splits)

text \<open>
  C30: A settings save that was accepted is what is read back, field by field: the GitHub and Forgejo names, the
  URL, the installation, the rebase label and the dashboard switch are the form's; each of the two tokens is the
  form's, or the one saved before when the form's is blank; the logins and the title patterns are the form's,
  trimmed, without blanks, and of those alike but for case the first, and every pattern compiles; theme,
  timezone and webhook values are the ones saved before. The URL carries no credentials, and the answer shows
  what is read back but for the time of the save.
\<close>

theorem accepted_save_is_read:
  assumes "handleSettingsPut v (Some form) db = (Answer shown, db')" "vault_ok (seVault v)" "seReads v"
    and "tcDecode (seTitles v) (tcEncode (seTitles v) (cleaned_list (spIgnoredTitles form))) = Some (cleaned_list (spIgnoredTitles form))"
  shows "\<exists>before saved. env_get v db = Some before \<and> env_get v db' = Some saved \<and> shown = saved\<lparr>crUpdatedAt := zero_time\<rparr> \<and>
    crGitHubToken saved = (if spGitHubToken form = '''' then crGitHubToken before else spGitHubToken form) \<and>
    crForgejoToken saved = (if spForgejoToken form = '''' then crForgejoToken before else spForgejoToken form) \<and>
    crGitHubUsername saved = spGitHubUsername form \<and> crForgejoUsername saved = spForgejoUsername form \<and>
    crForgejoURL saved = spForgejoURL form \<and> validForgejoURL (crForgejoURL saved) = None \<and>
    crInstallationID saved = spInstallationID form \<and> crRenovateRebaseLabel saved = spRenovateRebaseLabel form \<and>
    crHideDependencyDashboard saved = spHideDependencyDashboard form \<and>
    crRenovateAuthors saved = cleaned_list (spRenovateAuthors form) \<and>
    crIgnoredTitles saved = cleaned_list (spIgnoredTitles form) \<and>
    list_all (\<lambda>p. \<exists>re. CompileTitlePatterns (seRegexps v) [p] = Inr re) (crIgnoredTitles saved) \<and>
    crTheme saved = crTheme before \<and> crTimezone saved = crTimezone before \<and>
    crWebhookToken saved = crWebhookToken before \<and> crWebhookSecret saved = crWebhookSecret before \<and>
    crUpdatedAt saved = seNow v"
proof -
  obtain req before where p: "checkSettingsPut (seRegexps v) (seQuote v) form = Answer req"
    "env_get v db = Some before" "shown = mergeSettings req before" "env_set v shown db = (None, db')"
    using accepted_put[OF assms(1)] by (metis option.inject)
  have works: "seWrites v" using p(4) by (auto simp: env_set_def SetCredentials_def split: if_splits)
  have "logins_ok (crRenovateAuthors shown)" using checked_put(1)[OF p(1)] by (simp add: p(3) mergeSettings_def)
  moreover have "crIgnoredTitles shown = cleaned_list (spIgnoredTitles form)"
    using checked_lists(1)[OF p(1)] by (simp add: p(3) mergeSettings_def)
  ultimately have "GetCredentials True (seVault v) (seTitles v) db' = Inr (shown\<lparr>crWebhookToken := fst (readWebhook db),
      crWebhookSecret := snd (readWebhook db), crUpdatedAt := seNow v\<rparr>)"
    using save_back[OF assms(2)] assms(4) p(4) works by (simp add: env_set_def)
  then have "env_get v db' = Some (shown\<lparr>crUpdatedAt := seNow v\<rparr>)"
    using webhook_read[OF p(2), symmetric] assms(3) by (simp add: env_get_def getOrZero_def p(3) mergeSettings_def)
  moreover have "list_all (\<lambda>q. \<exists>re. CompileTitlePatterns (seRegexps v) [q] = Inr re) (spIgnoredTitles req)"
    using checked_lists(2)[OF p(1)] by (auto simp: list_all_iff simp del: CompileTitlePatterns.simps)
  ultimately show ?thesis using p(2) checked_put(3)[OF p(1)] checked_lists(1)[OF p(1)]
    by (simp add: p(3) mergeSettings_def coalesce_def del: CompileTitlePatterns.simps)
qed

text \<open>
  Once a Forgejo token is saved, no settings save takes it or the URL away: a blank token means the
  saved one, and a blank URL beside a token is refused.
\<close>

theorem forgejo_never_cleared:
  assumes "handleSettingsPut v body db = (Answer merged, db')" "env_get v db = Some existing" "crForgejoToken existing \<noteq> ''''"
  shows "crForgejoToken merged \<noteq> '''' \<and> crForgejoURL merged \<noteq> ''''"
proof -
  obtain req where p: "merged = mergeSettings req existing" "settingsFieldError merged req (seConfigured v) = None"
    using accepted_put[OF assms(1)] assms(2) by (metis option.inject)
  then show ?thesis using assms(3)
    by (auto simp: mergeSettings_def coalesce_def settingsFieldError_def split: if_splits)
qed

text \<open>A theme saved on its own changes nothing else, and nothing at all when it is refused.\<close>

lemma theme_alone:
  assumes "handleThemePut v body db = (Answer c, db')" "env_get v db = Some existing"
  shows "\<exists>th. body = Some th \<and> th \<in> {'''', ''light'', ''dark''} \<and> c = existing\<lparr>crTheme := th\<rparr>"
  using assms by (auto simp: handleThemePut_def saveField_def split: option.splits if_splits prod.splits)

section \<open>A concrete save\<close>

definition demo_settings_env :: settings_env where
  "demo_settings_env = \<lparr>seVault = demo_vault, seTitles = demo_titles, seRegexps = (\<lambda>p. Inr (\<lambda>s. s = p)),
     seQuote = (\<lambda>s. s), seConfigured = False, seZone = (\<lambda>_. False), seNonces = (''a'', ''b''), seNow = 7,
     seReads = True, seWrites = True\<rparr>"

definition demo_put :: settings_put where
  "demo_put = \<lparr>spGitHubToken = '''', spGitHubUsername = ''me'', spInstallationID = 0,
     spForgejoURL = ''https://codeberg.org'', spForgejoToken = ''t'', spForgejoUsername = ''me'',
     spRenovateRebaseLabel = '''', spRenovateAuthors = ['' bot '', ''Bot'', '''', ''renovate''],
     spHideDependencyDashboard = True, spIgnoredTitles = [''wip'']\<rparr>"

definition demo_cleaned :: settings_put where
  "demo_cleaned = demo_put\<lparr>spRenovateAuthors := [''bot'', ''renovate'']\<rparr>"

lemma demo_checked: "checkSettingsPut (\<lambda>p. Inr (\<lambda>s. s = p)) (\<lambda>s. s) demo_put = Answer demo_cleaned"
  by code_simp

lemma demo_accepted:
  "handleSettingsPut demo_settings_env (Some demo_put) empty_settings = (Answer (mergeSettings demo_cleaned blank_credentials),
     snd (env_set demo_settings_env (mergeSettings demo_cleaned blank_credentials) empty_settings))"
  using demo_checked
  by (simp add: handleSettingsPut_def demo_settings_env_def env_get_def GetCredentials_def empty_settings_def getOrZero_def
      settingsFieldError_def demo_cleaned_def demo_put_def mergeSettings_def env_set_def SetCredentials_def
      maxInstallationID_def Let_def)

lemma accepted_save_is_read_witness:
  "\<exists>saved. env_get demo_settings_env (snd (env_set demo_settings_env (mergeSettings demo_cleaned blank_credentials) empty_settings)) = Some saved \<and>
     crGitHubToken saved = '''' \<and> crForgejoToken saved = ''t'' \<and> crRenovateAuthors saved = [''bot'', ''renovate'']"
proof -
  have c: "cleaned_list (spRenovateAuthors demo_put) = [''bot'', ''renovate'']" "cleaned_list (spIgnoredTitles demo_put) = [''wip'']"
    by code_simp+
  have v: "vault_ok (seVault demo_settings_env)" "seReads demo_settings_env"
    by (simp_all add: demo_settings_env_def vault_ok_def demo_vault_def)
  have t: "tcDecode (seTitles demo_settings_env) (tcEncode (seTitles demo_settings_env) (cleaned_list (spIgnoredTitles demo_put)))
      = Some (cleaned_list (spIgnoredTitles demo_put))"
    unfolding c by (simp add: demo_settings_env_def demo_titles_def splitLogins_def)
  show ?thesis using accepted_save_is_read[OF demo_accepted v t] c
    by (auto simp: demo_put_def env_get_def GetCredentials_def empty_settings_def getOrZero_def blank_credentials_def demo_settings_env_def)
qed

lemma forgejo_never_cleared_witness:
  "crForgejoToken (mergeSettings demo_cleaned (blank_credentials\<lparr>crForgejoToken := ''t''\<rparr>)) \<noteq> '''' \<and>
   crForgejoURL (mergeSettings demo_cleaned (blank_credentials\<lparr>crForgejoToken := ''t''\<rparr>)) \<noteq> ''''"
proof -
  define db where "db = snd (env_set demo_settings_env (blank_credentials\<lparr>crForgejoToken := ''t''\<rparr>) empty_settings)"
  have got: "env_get demo_settings_env db = Some (blank_credentials\<lparr>crForgejoToken := ''t'', crUpdatedAt := 7\<rparr>)"
    by (simp add: db_def env_get_def env_set_def demo_settings_env_def SetCredentials_def GetCredentials_def
        empty_settings_def blank_credentials_def getOrZero_def Encrypt_def Decrypt_def demo_vault_def demo_titles_def
        splitLogins_def fresh_row_def Let_def)
  have "fst (handleSettingsPut demo_settings_env (Some demo_put) db) =
      Answer (mergeSettings demo_cleaned (blank_credentials\<lparr>crForgejoToken := ''t''\<rparr>))"
    using demo_checked got
    by (simp add: handleSettingsPut_def demo_settings_env_def settingsFieldError_def demo_cleaned_def demo_put_def
        mergeSettings_def env_set_def SetCredentials_def maxInstallationID_def Let_def blank_credentials_def)
  then obtain db' where "handleSettingsPut demo_settings_env (Some demo_put) db =
      (Answer (mergeSettings demo_cleaned (blank_credentials\<lparr>crForgejoToken := ''t''\<rparr>)), db')"
    by (metis prod.collapse)
  from forgejo_never_cleared[OF this got] show ?thesis by simp
qed

end
