(* ===== verification/Webhooks.thy ===== *)
theory Webhooks
  imports Snapshot_Merge Webhook_Seen Settings_Store
begin

text \<open>
  Webhook deliveries, \<open>internal/api/webhooks.go\<close>: looking the token up, verifying the body's
  signature, and what a verified delivery changes. HMAC-SHA256 and the decoding of a JSON body are
  parameters; so is whether a forge's source can refresh one repo. A request's header is a
  function that is empty where the header is missing.
\<close>

section \<open>Headers\<close>

type_synonym hook_header = "string \<Rightarrow> string"

definition githubSignature :: "hook_header \<Rightarrow> string" where
  "githubSignature h =
     (let prefix = ''sha256=''; sig = h ''X-Hub-Signature-256''
      in if length sig \<le> length prefix \<or> take (length prefix) sig \<noteq> prefix then '''' else drop (length prefix) sig)"

definition forgejoSignature :: "hook_header \<Rightarrow> string" where
  "forgejoSignature h = (let sig = h ''X-Forgejo-Signature'' in if sig \<noteq> '''' then sig else h ''X-Gitea-Signature'')"

definition githubDeliveryHeaders :: "hook_header \<Rightarrow> string \<times> string" where
  "githubDeliveryHeaders h = (h ''X-GitHub-Delivery'', h ''X-GitHub-Event'')"

definition forgejoDeliveryHeaders :: "hook_header \<Rightarrow> string \<times> string" where
  "forgejoDeliveryHeaders h =
     (if h ''X-Forgejo-Delivery'' = '''' then h ''X-Gitea-Delivery'' else h ''X-Forgejo-Delivery'',
      if h ''X-Forgejo-Event'' = '''' then h ''X-Gitea-Event'' else h ''X-Forgejo-Event'')"

section \<open>The signature\<close>

definition hex_digit :: "char \<Rightarrow> nat option" where
  "hex_digit c = (if is_digit c then Some (byte c - 48)
     else if 97 \<le> byte c \<and> byte c \<le> 102 then Some (byte c - 87)
     else if 65 \<le> byte c \<and> byte c \<le> 70 then Some (byte c - 55) else None)"

text \<open>\<open>hex.DecodeString\<close>: pairs of digits of either case.\<close>

fun hex_decode :: "string \<Rightarrow> string option" where
  "hex_decode [] = Some []"
| "hex_decode [c] = None"
| "hex_decode (a # b # s) = (case (hex_digit a, hex_digit b, hex_decode s) of
     (Some x, Some y, Some out) \<Rightarrow> Some (char_of (16 * x + y) # out)
   | _ \<Rightarrow> None)"

text \<open>\<open>mac\<close> is the HMAC of a body under a secret.\<close>

definition validSignature :: "(string \<Rightarrow> string \<Rightarrow> string) \<Rightarrow> string \<Rightarrow> string \<Rightarrow> string \<Rightarrow> bool" where
  "validSignature mac body secret signatureHex =
     (if signatureHex = '''' then False
      else case hex_decode signatureHex of None \<Rightarrow> False | Some sig \<Rightarrow> sig = mac secret body)"

section \<open>The body\<close>

text \<open>
  What decoding a body gives: the repository object's fields, the pull request event's action and
  number, and the two places a check event names its commit; \<open>None\<close> where it does not decode.
\<close>

record payloads =
  pyRepo :: "string \<Rightarrow> (string \<times> string \<times> string) option"           \<comment> \<open>full name, name, owner's login\<close>
  pyPull :: "string \<Rightarrow> (string \<times> int option) option"
  pyCheck :: "string \<Rightarrow> (string option \<times> string) option"

definition repoFromPayload :: "payloads \<Rightarrow> string \<Rightarrow> (string \<times> string \<times> string) option" where
  "repoFromPayload py body = (case pyRepo py body of
       None \<Rightarrow> None
     | Some (fullName, name, login) \<Rightarrow>
         if fullName = '''' \<or> name = '''' \<or> login = '''' then None else Some (login, name, fullName))"

definition pullRequestAction :: "payloads \<Rightarrow> string \<Rightarrow> (string \<times> int) option" where
  "pullRequestAction py body = (case pyPull py body of
       None \<Rightarrow> None
     | Some (action, None) \<Rightarrow> None
     | Some (action, Some number) \<Rightarrow> if number = 0 then None else Some (action, number))"

definition isCommitSHA :: "string \<Rightarrow> bool" where
  "isCommitSHA s = (if length s < 7 \<or> length s > 64 then False else list_all (\<lambda>c. hex_digit c \<noteq> None) s)"

definition checkCommit :: "payloads \<Rightarrow> string \<Rightarrow> string \<Rightarrow> string option" where
  "checkCommit py event body = (case pyCheck py body of
       None \<Rightarrow> None
     | Some (run, status) \<Rightarrow>
         (let sha = (if event = ''check_run'' then (case run of Some s \<Rightarrow> s | None \<Rightarrow> '''')
                     else if event = ''status'' then status else '''')
          in if isCommitSHA sha then Some sha else None))"

section \<open>A delivery\<close>

datatype hook_refresh = ScopedRefresh forge string string string | FullRefresh

record hook_agg =
  haBoard :: board
  haSeen :: seen_state

text \<open>The server: the settings, the aggregator if one runs, and the refreshes asked of it so far.\<close>

record hook_server =
  hsSettings :: settings_db
  hsAgg :: "hook_agg option"
  hsRefreshes :: "hook_refresh list"

record hook_env =
  heMac :: "string \<Rightarrow> string \<Rightarrow> string"
  hePayloads :: payloads
  heCredentials :: "(forge \<times> string option) list"     \<comment> \<open>the sources' forges and labels\<close>
  heScoped :: "forge \<Rightarrow> bool"                     \<comment> \<open>whether a refresh of one repo can be asked for\<close>
  heWarm :: "hook_agg option"                         \<comment> \<open>the aggregator a warm-up starts\<close>
  heNow :: time
  heReads :: bool
  heWrites :: bool

record hook_request =
  hrToken :: string
  hrHeader :: hook_header
  hrBody :: "string option"       \<comment> \<open>\<open>None\<close> where reading fails\<close>

definition maxWebhookBodyBytes :: nat where "maxWebhookBodyBytes = 5 * 1024 * 1024"

definition on_agg :: "(hook_agg \<Rightarrow> hook_agg) \<Rightarrow> hook_server \<Rightarrow> hook_server" where
  "on_agg f s = s\<lparr>hsAgg := map_option f (hsAgg s)\<rparr>"

definition recordDelivery :: "hook_env \<Rightarrow> forge \<Rightarrow> string \<Rightarrow> string \<Rightarrow> string \<Rightarrow> hook_agg \<Rightarrow> hook_agg" where
  "recordDelivery v forge fullName event body a =
     (if ClassifyEvent event \<noteq> EventClassCheck
      then a\<lparr>haSeen := RecordDelivery (heWrites v) (heCredentials v) forge fullName event (heNow v) (haSeen a)\<rparr>
      else case checkCommit (hePayloads v) event body of
        Some sha \<Rightarrow> a\<lparr>haSeen := RecordCheckDelivery (heWrites v) (heCredentials v) forge fullName sha (heNow v) (haSeen a)\<rparr>
      | None \<Rightarrow> a\<lparr>haSeen := RecordDelivery (heWrites v) (heCredentials v) forge fullName '''' (heNow v) (haSeen a)\<rparr>)"

definition settleFromDelivery :: "hook_env \<Rightarrow> forge \<Rightarrow> string \<Rightarrow> hook_agg \<Rightarrow> hook_agg" where
  "settleFromDelivery v forge body a = (case repoFromPayload (hePayloads v) body of
       None \<Rightarrow> a
     | Some (_, _, fullName) \<Rightarrow> (case pullRequestAction (hePayloads v) body of
           None \<Rightarrow> a
         | Some (action, number) \<Rightarrow>
             if action = ''closed'' then a\<lparr>haBoard := MarkSettled (heNow v) forge fullName number (haBoard a)\<rparr>
             else if action = ''reopened'' then a\<lparr>haBoard := Unsettle forge fullName number (haBoard a)\<rparr>
             else a))"

definition triggerRefresh :: "hook_env \<Rightarrow> forge \<Rightarrow> string \<Rightarrow> hook_server \<Rightarrow> hook_server" where
  "triggerRefresh v forge body s = (case repoFromPayload (hePayloads v) body of
       Some (owner, name, fullName) \<Rightarrow>
         if hsAgg s \<noteq> None \<and> heScoped v forge
         then s\<lparr>hsRefreshes := hsRefreshes s @ [ScopedRefresh forge owner name fullName]\<rparr>
         else if hsAgg s \<noteq> None then s\<lparr>hsRefreshes := hsRefreshes s @ [FullRefresh]\<rparr> else s
     | None \<Rightarrow> if hsAgg s \<noteq> None then s\<lparr>hsRefreshes := hsRefreshes s @ [FullRefresh]\<rparr> else s)"

definition acknowledgeDelivery :: "hook_env \<Rightarrow> forge \<Rightarrow> string \<Rightarrow> string \<Rightarrow> hook_server \<Rightarrow> nat \<times> hook_server" where
  "acknowledgeDelivery v forge event body s =
     (let s = s\<lparr>hsAgg := (case hsAgg s of Some a \<Rightarrow> Some a | None \<Rightarrow> heWarm v)\<rparr>
      in if hsAgg s = None then (204, s)
         else let s = (case repoFromPayload (hePayloads v) body of
                     Some (_, _, fullName) \<Rightarrow> on_agg (recordDelivery v forge fullName event body) s
                   | None \<Rightarrow> s);
                  s = on_agg (settleFromDelivery v forge body) s
              in (204, triggerRefresh v forge body s))"

definition handleWebhook :: "hook_env \<Rightarrow> forge \<Rightarrow> (hook_header \<Rightarrow> string) \<Rightarrow> (hook_header \<Rightarrow> string \<times> string) \<Rightarrow> hook_request \<Rightarrow>
    hook_server \<Rightarrow> nat \<times> hook_server" where
  "handleWebhook v forge signatureOf deliveryOf req s =
     (let (delivery, event) = deliveryOf (hrHeader req)
      in case WebhookSecretFor (heReads v) (hrToken req) (hsSettings s) of
           Inl SettingsNotFound \<Rightarrow> (404, s)
         | Inl SettingsFailed \<Rightarrow> (500, s)
         | Inr secret \<Rightarrow> (case hrBody req of
               None \<Rightarrow> (400, s)
             | Some body \<Rightarrow>
                 if length body > maxWebhookBodyBytes then (400, s)
                 else if \<not> validSignature (heMac v) body secret (signatureOf (hrHeader req)) then (401, s)
                 else let s = (case repoFromPayload (hePayloads v) body of
                         Some (_, _, fullName) \<Rightarrow>
                           if heWrites v
                           then s\<lparr>hsSettings := RecordWebhookDelivery (heNow v) (forge_str forge, fullName) (hsSettings s)\<rparr>
                           else s
                       | None \<Rightarrow> s)
                      in acknowledgeDelivery v forge event body s))"

definition handleGitHubWebhook :: "hook_env \<Rightarrow> hook_request \<Rightarrow> hook_server \<Rightarrow> nat \<times> hook_server" where
  "handleGitHubWebhook v = handleWebhook v ForgeGitHub githubSignature githubDeliveryHeaders"

definition handleForgejoWebhook :: "hook_env \<Rightarrow> hook_request \<Rightarrow> hook_server \<Rightarrow> nat \<times> hook_server" where
  "handleForgejoWebhook v = handleWebhook v ForgeForgejo forgejoSignature forgejoDeliveryHeaders"

section \<open>Only signed bodies count\<close>

text \<open>A request signed under the saved secret: its token is the saved one and its signature the body's.\<close>

definition signed :: "hook_env \<Rightarrow> (hook_header \<Rightarrow> string) \<Rightarrow> hook_request \<Rightarrow> hook_server \<Rightarrow> bool" where
  "signed v signatureOf req s \<longleftrightarrow> (\<exists>r body. sdRow (hsSettings s) = Some r \<and> hrBody req = Some body \<and>
     webhook_token r \<noteq> '''' \<and> hrToken req = webhook_token r \<and>
     hex_decode (signatureOf (hrHeader req)) = Some (heMac v (webhook_secret r) body) \<and> signatureOf (hrHeader req) \<noteq> '''')"

lemma unsigned_refused:
  assumes "handleWebhook v forge signatureOf deliveryOf req s = (status, s')" "\<not> signed v signatureOf req s"
  shows "s' = s \<and> status \<in> {400, 401, 404, 500}"
proof (cases "WebhookSecretFor (heReads v) (hrToken req) (hsSettings s)")
  case (Inl e)
  then show ?thesis using assms(1) by (cases e) (auto simp: handleWebhook_def split_beta)
next
  case (Inr secret)
  then obtain r where r: "sdRow (hsSettings s) = Some r" "webhook_token r \<noteq> ''''" "hrToken req = webhook_token r" "secret = webhook_secret r"
    by (auto simp: WebhookSecretFor_def split: if_splits option.splits)
  then have "hrBody req = Some body \<Longrightarrow> \<not> validSignature (heMac v) body secret (signatureOf (hrHeader req))" for body
    using assms(2) by (auto simp: validSignature_def signed_def split: if_splits option.splits)
  then show ?thesis using assms(1) Inr by (auto simp: handleWebhook_def split_beta split: option.splits if_splits)
qed

text \<open>
  C4: A webhook request that is not signed under the saved secret, for the token that was handed out,
  changes nothing: the board, the delivery record, the settings and the refreshes asked for stay as
  they were, and it is answered with an error.
\<close>

theorem unsigned_changes_nothing:
  "(\<not> signed v githubSignature req s \<longrightarrow>
      snd (handleGitHubWebhook v req s) = s \<and> fst (handleGitHubWebhook v req s) \<in> {400, 401, 404, 500}) \<and>
   (\<not> signed v forgejoSignature req s \<longrightarrow>
      snd (handleForgejoWebhook v req s) = s \<and> fst (handleForgejoWebhook v req s) \<in> {400, 401, 404, 500})"
  using unsigned_refused[of v _ _ _ req s, OF prod.collapse[symmetric]]
  unfolding handleGitHubWebhook_def handleForgejoWebhook_def by blast

section \<open>What a signed delivery changes\<close>

text \<open>
  The outcome of a signed delivery when an aggregator runs: its board is settled from the body, and one
  refresh is asked for, of the repo the body names where that can be done.
\<close>

lemma signed_outcome:
  assumes "signed v signatureOf req s" "hrBody req = Some body" "length body \<le> maxWebhookBodyBytes" "heReads v"
    and "hsAgg s = Some a"
  shows "\<exists>s' a'. handleWebhook v forge signatureOf deliveryOf req s = (204, s') \<and> hsAgg s' = Some a' \<and>
    haBoard a' = haBoard (settleFromDelivery v forge body a) \<and>
    hsRefreshes s' = hsRefreshes s @ [case repoFromPayload (hePayloads v) body of
       Some (owner, name, fullName) \<Rightarrow> if heScoped v forge then ScopedRefresh forge owner name fullName else FullRefresh
     | None \<Rightarrow> FullRefresh]"
proof -
  obtain r where r: "sdRow (hsSettings s) = Some r" "webhook_token r \<noteq> ''''" "hrToken req = webhook_token r"
    "hex_decode (signatureOf (hrHeader req)) = Some (heMac v (webhook_secret r) body)" "signatureOf (hrHeader req) \<noteq> ''''"
    using assms(1,2) by (auto simp: signed_def)
  have secret: "WebhookSecretFor (heReads v) (hrToken req) (hsSettings s) = Inr (webhook_secret r)"
    using r assms(4) by (simp add: WebhookSecretFor_def)
  have sig: "validSignature (heMac v) body (webhook_secret r) (signatureOf (hrHeader req))"
    using r by (simp add: validSignature_def)
  have rec: "haBoard (recordDelivery v f n e body x) = haBoard x" for f n e x
    by (simp add: recordDelivery_def split: option.split)
  have settle: "haBoard (settleFromDelivery v forge body x) = haBoard (settleFromDelivery v forge body y)"
    if "haBoard x = haBoard y" for x y
    using that by (simp add: settleFromDelivery_def split: option.split)
  show ?thesis
    using assms(2,3,5) secret sig settle[OF rec]
    by (auto simp: handleWebhook_def split_beta acknowledgeDelivery_def triggerRefresh_def on_agg_def Let_def
        split: option.splits)
qed

text \<open>A replayed body under another event's header does not mark a commit.\<close>

lemma replay_marks_nothing:
  assumes "checkCommit (hePayloads v) event body = None" "ClassifyEvent event = EventClassCheck"
  shows "wsCommits (sdSeen (haSeen (recordDelivery v forge fullName event body a))) = wsCommits (sdSeen (haSeen a))"
  using assms
  by (auto simp: recordDelivery_def RecordDelivery_def markSeen_def persistDue_def mark_seen_def Let_def
      split: option.splits if_splits prod.splits bool.splits)

text \<open>
  A signed delivery that says a pull request was closed takes it off the board at once, before any
  fetch, and asks for one refresh of its repo.
\<close>

theorem closed_delivery_settles:
  assumes "signed v signatureOf req s" "hrBody req = Some body" "length body \<le> maxWebhookBodyBytes" "heReads v"
    and "hsAgg s = Some a" "repoFromPayload (hePayloads v) body = Some (owner, name, fullName)"
    and "pullRequestAction (hePayloads v) body = Some (''closed'', number)" "heScoped v forge"
  shows "\<exists>s' a'. handleWebhook v forge signatureOf deliveryOf req s = (204, s') \<and> hsAgg s' = Some a' \<and>
    settledKey forge fullName number \<notin> pr_key ` set (snPullRequests (bdSnap (haBoard a'))) \<and>
    bdSettled (haBoard a') (settledKey forge fullName number) = Some (heNow v) \<and>
    hsRefreshes s' = hsRefreshes s @ [ScopedRefresh forge owner name fullName]"
proof -
  obtain s' a' where h: "handleWebhook v forge signatureOf deliveryOf req s = (204, s')" "hsAgg s' = Some a'"
    "haBoard a' = MarkSettled (heNow v) forge fullName number (haBoard a)"
    "hsRefreshes s' = hsRefreshes s @ [ScopedRefresh forge owner name fullName]"
    using signed_outcome[OF assms(1-5), of forge deliveryOf] assms(6-8) by (auto simp: settleFromDelivery_def)
  show ?thesis using h MarkSettled_rows[OF refl, of forge fullName number "heNow v" "haBoard a"]
    by (auto simp: MarkSettled_def Let_def)
qed

section \<open>Concrete deliveries\<close>

definition demo_hook_env :: hook_env where
  "demo_hook_env = \<lparr>heMac = (\<lambda>secret body. ''A''), hePayloads =
       \<lparr>pyRepo = (\<lambda>_. Some (''a/b'', ''b'', ''a'')), pyPull = (\<lambda>_. Some (''closed'', Some 1)), pyCheck = (\<lambda>_. None)\<rparr>,
     heCredentials = [], heScoped = (\<lambda>_. True), heWarm = None, heNow = 0, heReads = True, heWrites = True\<rparr>"

definition demo_header :: hook_header where
  "demo_header name = (if name = ''X-Hub-Signature-256'' then ''sha256=41'' else '''')"

definition demo_hook_request :: hook_request where
  "demo_hook_request = \<lparr>hrToken = ''tok'', hrHeader = demo_header, hrBody = Some ''body''\<rparr>"

definition demo_server :: hook_server where
  "demo_server = \<lparr>hsSettings = empty_settings\<lparr>sdRow := Some ((fresh_row 0)\<lparr>webhook_token := ''tok'', webhook_secret := ''s''\<rparr>)\<rparr>,
     hsAgg = Some \<lparr>haBoard = one_row_board, haSeen = \<lparr>sdSeen = nothing_seen, sdStore = None\<rparr>\<rparr>, hsRefreshes = []\<rparr>"

lemma demo_signed: "signed demo_hook_env githubSignature demo_hook_request demo_server"
  by (simp add: signed_def demo_server_def demo_hook_request_def demo_hook_env_def githubSignature_def demo_header_def
      hex_digit_def is_digit_def byte_def fresh_row_def char_of_def Let_def bit_0)

lemma closed_delivery_settles_witness:
  "\<exists>s' a'. handleWebhook demo_hook_env ForgeGitHub githubSignature githubDeliveryHeaders demo_hook_request demo_server = (204, s') \<and>
    hsAgg s' = Some a' \<and>
    settledKey ForgeGitHub ''a/b'' 1 \<notin> pr_key ` set (snPullRequests (bdSnap (haBoard a'))) \<and>
    bdSettled (haBoard a') (settledKey ForgeGitHub ''a/b'' 1) = Some (heNow demo_hook_env) \<and>
    hsRefreshes s' = hsRefreshes demo_server @ [ScopedRefresh ForgeGitHub ''a'' ''b'' ''a/b'']"
  by (rule closed_delivery_settles[where body = "''body''" and a = "\<lparr>haBoard = one_row_board,
        haSeen = \<lparr>sdSeen = nothing_seen, sdStore = None\<rparr>\<rparr>", OF demo_signed])
    (simp_all add: demo_hook_request_def demo_hook_env_def demo_server_def maxWebhookBodyBytes_def repoFromPayload_def
      pullRequestAction_def)

lemma unsigned_changes_nothing_witness:
  "snd (handleGitHubWebhook demo_hook_env (demo_hook_request\<lparr>hrHeader := \<lambda>_. ''''\<rparr>) demo_server) = demo_server"
proof -
  have "\<not> signed demo_hook_env githubSignature (demo_hook_request\<lparr>hrHeader := \<lambda>_. ''''\<rparr>) demo_server"
    by (simp add: signed_def githubSignature_def Let_def)
  then show ?thesis
    using unsigned_changes_nothing[of demo_hook_env "demo_hook_request\<lparr>hrHeader := \<lambda>_. ''''\<rparr>" demo_server] by blast
qed

end
