(* ===== verification/FD_Strings.thy ===== *)
theory FD_Strings
  imports FD_Library
begin

text \<open>
  More of package \<open>strings\<close>: the last occurrence of a substring, trimming a prefix, and when a
  one-byte substring occurs.
\<close>

text \<open>\<open>strings.LastIndex\<close>.\<close>

fun last_index :: "string \<Rightarrow> string \<Rightarrow> nat option" where
  "last_index [] p = (if p = [] then Some 0 else None)"
| "last_index (c # s) p = (case last_index s p of
     Some i \<Rightarrow> Some (Suc i)
   | None \<Rightarrow> if has_prefix (c # s) p then Some 0 else None)"

definition trim_prefix :: "string \<Rightarrow> string \<Rightarrow> string" where
  "trim_prefix s p = (case cut_prefix s p of Some r \<Rightarrow> r | None \<Rightarrow> s)"

lemma str_contains_single: "str_contains s [c] \<longleftrightarrow> c \<in> set s"
  using str_index_single_None[of c s] split_list_first[of c s] str_index_single[of c]
  by (fastforce simp: str_contains_def)

end
