(* ===== verification/Osv_Lockfile.thy ===== *)
theory Osv_Lockfile
  imports FD_Strings
begin

text \<open>
  Reading the packages out of a lock file, \<open>internal/osv\<close>: \<open>lockfile.go\<close>, \<open>lockformats_json.go\<close> and
  \<open>lockformats_toml.go\<close>. What is read here is sent to osv.dev, so a package that does not come from a
  public registry stays out and is only counted. JSON decoding and \<open>strconv.Unquote\<close> are parameters;
  the objects of a decoded file are lists in the order the code happens to range over them. White
  space is that of ASCII.
\<close>

section \<open>Packages\<close>

record osv_package =
  pkEcosystem :: string
  pkName :: string
  pkVersion :: string

record lockfile =
  lfPackages :: "osv_package list"
  lfLeft :: nat

datatype lock_error =
    ErrNoPublicPackages | errNoPackages | errNoModule | errNoTOMLPackages
  | errUnreadableLine string | errUnknownLockfile string | LockDecode

definition EcosystemNPM :: string where "EcosystemNPM = ''npm''"
definition EcosystemGo :: string where "EcosystemGo = ''Go''"
definition EcosystemPackagist :: string where "EcosystemPackagist = ''Packagist''"
definition EcosystemPyPI :: string where "EcosystemPyPI = ''PyPI''"
definition EcosystemCratesIO :: string where "EcosystemCratesIO = ''crates.io''"

definition osv_pkg :: "string \<Rightarrow> string \<Rightarrow> string \<Rightarrow> osv_package" where
  "osv_pkg eco name version = \<lparr>pkEcosystem = eco, pkName = name, pkVersion = version\<rparr>"

text \<open>What a reader does with one entry of a file: nothing, \<open>left++\<close>, or an append to \<open>out\<close>.\<close>

datatype lock_entry = Skipped | LeftOut | Kept osv_package

fun gather :: "lock_entry list \<Rightarrow> osv_package list \<times> nat" where
  "gather [] = ([], 0)"
| "gather (e # es) = (let (out, left) = gather es in case e of
     Skipped \<Rightarrow> (out, left) | LeftOut \<Rightarrow> (out, Suc left) | Kept p \<Rightarrow> (p # out, left))"



definition publicOrError :: "osv_package list \<times> nat \<Rightarrow> lock_error + lockfile" where
  "publicOrError r = (if snd r > 0 \<and> fst r = [] then Inl ErrNoPublicPackages
     else Inr \<lparr>lfPackages = fst r, lfLeft = snd r\<rparr>)"

section \<open>npm\<close>

definition publicRegistries :: "string list" where
  "publicRegistries = [''https://registry.npmjs.org/'', ''https://registry.yarnpkg.com/'']"

definition fromRegistry :: "string \<Rightarrow> bool" where
  "fromRegistry resolved \<longleftrightarrow> str_contains resolved ''/-/'' \<and> list_ex (has_prefix resolved) publicRegistries"

record npm_entry =
  neName :: string
  neVersion :: string
  neResolved :: string
  neLink :: bool

definition npm_flat_entry :: "string \<times> npm_entry \<Rightarrow> lock_entry" where
  "npm_flat_entry e = (case e of (key, p) \<Rightarrow>
     (case last_index key ''node_modules/'' of
        None \<Rightarrow> Skipped
      | Some i \<Rightarrow>
          if neLink p \<or> neVersion p = '''' then Skipped
          else if \<not> fromRegistry (neResolved p) then LeftOut
          else Kept (osv_pkg EcosystemNPM (if neName p \<noteq> '''' then neName p else drop (i + length ''node_modules/'') key)
                 (neVersion p))))"

definition readPackageLock :: "(string \<Rightarrow> (string \<times> npm_entry) list option option) \<Rightarrow> string \<Rightarrow> lock_error + lockfile" where
  "readPackageLock decode data = (case decode data of
       None \<Rightarrow> Inl LockDecode
     | Some None \<Rightarrow> Inl errNoPackages
     | Some (Some packages) \<Rightarrow> publicOrError (gather (map npm_flat_entry packages)))"

text \<open>\<open>splitAt\<close> splits at the last \<open>@\<close>, leaving a scope whole.\<close>

definition splitAt :: "string \<Rightarrow> (string \<times> string) option" where
  "splitAt ident = (case last_index ident ''@'' of
       None \<Rightarrow> None
     | Some i \<Rightarrow> if i = 0 \<or> Suc i = length ident then None else Some (take i ident, drop (Suc i) ident))"

text \<open>A file of version 1 nests what a package pulls in.\<close>

datatype npm_v1 = NpmV1 (v1Version: string) (v1Resolved: string) (v1Dependencies: "(string \<times> npm_v1) list")

definition npm_v1_entry :: "string \<Rightarrow> string \<Rightarrow> string \<Rightarrow> lock_entry" where
  "npm_v1_entry name version resolved =
     (if version = '''' then Skipped
      else if \<not> fromRegistry resolved then LeftOut
      else case cut_prefix version ''npm:'' of
        Some alias \<Rightarrow> (case splitAt alias of
            None \<Rightarrow> Skipped
          | Some (n, v) \<Rightarrow> Kept (osv_pkg EcosystemNPM n v))
      | None \<Rightarrow> Kept (osv_pkg EcosystemNPM name version))"

fun walk_one :: "string \<Rightarrow> npm_v1 \<Rightarrow> lock_entry list" and walk_deps :: "(string \<times> npm_v1) list \<Rightarrow> lock_entry list" where
  "walk_one name (NpmV1 version resolved deps) = walk_deps deps @ [npm_v1_entry name version resolved]"
| "walk_deps [] = []"
| "walk_deps ((name, d) # deps) = walk_one name d @ walk_deps deps"

definition readNPMLock :: "(string \<Rightarrow> (string \<times> npm_entry) list option option) \<Rightarrow>
    (string \<Rightarrow> (bool \<times> (string \<times> npm_v1) list option) option) \<Rightarrow> string \<Rightarrow> lock_error + lockfile" where
  "readNPMLock flat decode data = (case decode data of
       None \<Rightarrow> Inl LockDecode
     | Some (hasPackages, deps) \<Rightarrow>
         if hasPackages then readPackageLock flat data
         else case deps of
           None \<Rightarrow> Inl errNoPackages
         | Some ds \<Rightarrow> publicOrError (gather (walk_deps ds)))"

section \<open>bun\<close>

text \<open>\<open>stringEnd\<close>, counted from the byte after the opening quote; the closing quote is included.\<close>

fun string_tail :: "string \<Rightarrow> nat" where
  "string_tail [] = 0"
| "string_tail (c # s) =
     (if c = CHR 0x5C then (case s of [] \<Rightarrow> 1 | _ # t \<Rightarrow> 2 + string_tail t)
      else if c = CHR 0x22 then 1 else Suc (string_tail s))"

text \<open>\<open>commentEnd\<close>, counted from the byte after the opening slash; a line comment stops before its newline.\<close>

definition comment_tail :: "string \<Rightarrow> nat" where
  "comment_tail s = (if hd s = CHR ''/''
     then (case str_index s [CHR 0x0A] of None \<Rightarrow> length s | Some i \<Rightarrow> i)
     else (case str_index (tl s) ''*/'' of None \<Rightarrow> length s | Some i \<Rightarrow> Suc i + 2))"

definition json_space :: "char \<Rightarrow> bool" where
  "json_space c \<longleftrightarrow> c \<in> {CHR 0x20, CHR 0x09, CHR 0x0D, CHR 0x0A}"

definition trailingComma :: "string \<Rightarrow> bool" where
  "trailingComma out = (let t = trim_right_set json_space out in t \<noteq> [] \<and> last t = CHR '','')"

function jsonc :: "string \<Rightarrow> string \<Rightarrow> string" where
  "jsonc out [] = out"
| "jsonc out (c # s) =
     (if c = CHR 0x22 then jsonc (out @ c # take (string_tail s) s) (drop (string_tail s) s)
      else if c = CHR ''/'' \<and> s \<noteq> [] \<and> hd s \<in> {CHR ''/'', CHR ''*''}
      then jsonc (out @ [CHR 0x0A]) (drop (comment_tail s) s)
      else if c \<in> {CHR ''}'', CHR '']''} \<and> trailingComma out
      then jsonc (butlast (trim_right_set json_space out) @ [c]) s
      else jsonc (out @ [c]) s)"
  by pat_completeness auto
termination by (relation "measure (\<lambda>(out, s). length s)") auto

definition jsoncToJSON :: "string \<Rightarrow> string" where
  "jsoncToJSON data = jsonc [] data"

definition bunIdent :: "string \<Rightarrow> (string \<times> string) option" where
  "bunIdent ident = splitAt (case str_index (drop (min 1 (length ident)) ident) ''@npm:'' of
       Some i \<Rightarrow> drop (i + 1 + length ''@npm:'') ident
     | None \<Rightarrow> ident)"

text \<open>One package's array: each element is what decoding it as a string gives.\<close>

definition bun_entry :: "string option list \<Rightarrow> lock_entry" where
  "bun_entry entry = (if entry = [] then Skipped else case entry ! 0 of
       None \<Rightarrow> Skipped
     | Some ident \<Rightarrow> (case bunIdent ident of
           None \<Rightarrow> Skipped
         | Some (name, version) \<Rightarrow>
             if has_prefix version ''workspace:'' then Skipped
             else if length entry < 2 \<or> entry ! 1 \<noteq> Some '''' then LeftOut
             else if str_contains version '':'' then LeftOut
             else Kept (osv_pkg EcosystemNPM name version)))"

definition readBunLock :: "(string \<Rightarrow> string option list list option option) \<Rightarrow> string \<Rightarrow> lock_error + lockfile" where
  "readBunLock decode data = (case decode (jsoncToJSON data) of
       None \<Rightarrow> Inl LockDecode
     | Some None \<Rightarrow> Inl errNoPackages
     | Some (Some packages) \<Rightarrow> publicOrError (gather (map bun_entry packages)))"

section \<open>Composer\<close>

record composerPackage =
  cpName :: string
  cpVersion :: string
  cpDistType :: string

definition composer_entry :: "composerPackage \<Rightarrow> lock_entry" where
  "composer_entry p = (let version = trim_prefix (cpVersion p) ''v'' in
     if cpName p = '''' \<or> version = '''' \<or> has_prefix version ''dev-'' \<or> has_suffix version ''-dev'' then Skipped
     else if cpDistType p = ''path'' then LeftOut
     else Kept (osv_pkg EcosystemPackagist (cpName p) version))"

definition readComposerLock :: "(string \<Rightarrow> (composerPackage list option \<times> composerPackage list option) option) \<Rightarrow> string \<Rightarrow>
    lock_error + lockfile" where
  "readComposerLock decode data = (case decode data of
       None \<Rightarrow> Inl LockDecode
     | Some (None, None) \<Rightarrow> Inl errNoPackages
     | Some (packages, dev) \<Rightarrow> publicOrError (gather (map composer_entry
         ((case packages of None \<Rightarrow> [] | Some l \<Rightarrow> l) @ (case dev of None \<Rightarrow> [] | Some l \<Rightarrow> l)))))"

section \<open>The TOML files\<close>

text \<open>A table's string values; a key that is not there reads as empty.\<close>

type_synonym tomlPackage = "string \<Rightarrow> string"

text \<open>
  The reader between lines. The code's \<open>cur\<close> is nil or the last of \<open>pkgs\<close>, the same map, so
  whether a table is open says which.
\<close>

record tomlReader =
  trPkgs :: "tomlPackage list"
  trOpen :: bool
  trPrefix :: string
  trDepth :: int

fun bracket_scan :: "bool \<Rightarrow> string \<Rightarrow> int" where
  "bracket_scan inString [] = 0"
| "bracket_scan inString (c # s) =
     (if c = CHR 0x5C \<and> inString then (case s of [] \<Rightarrow> 0 | _ # t \<Rightarrow> bracket_scan inString t)
      else if c = CHR 0x22 then bracket_scan (\<not> inString) s
      else if inString then bracket_scan inString s
      else if c = CHR ''['' then 1 + bracket_scan inString s
      else if c = CHR '']'' then bracket_scan inString s - 1
      else bracket_scan inString s)"

definition bracketDelta :: "string \<Rightarrow> int" where "bracketDelta s = bracket_scan False s"

definition tomlValue :: "(string \<Rightarrow> string option) \<Rightarrow> string \<Rightarrow> string" where
  "tomlValue unquote v = (let v = trim_space v;
       unquoted = (if has_prefix v [CHR 0x22]
         then (case last_index v [CHR 0x22] of
             Some i \<Rightarrow> if i > 0 then unquote (take (Suc i) v) else None
           | None \<Rightarrow> None)
         else None)
     in case unquoted of
       Some u \<Rightarrow> u
     | None \<Rightarrow> if has_prefix v [CHR 0x27] \<and> has_suffix v [CHR 0x27] \<and> length v \<ge> 2
         then take (length v - 2) (drop 1 v) else v)"

text \<open>
  The regular expressions. Both match a quoted string, \<open>"(?:[^"\\]|\\.)*"\<close>: its body and what
  follows the closing quote; \<open>.\<close> is no newline. \<open>\s\<close> is the five ASCII spaces without the
  vertical tab.
\<close>

fun quoted_body :: "string \<Rightarrow> (string \<times> string) option" where
  "quoted_body [] = None"
| "quoted_body (c # s) =
     (if c = CHR 0x22 then Some ([], s)
      else if c = CHR 0x5C then (case s of
          [] \<Rightarrow> None
        | d # t \<Rightarrow> if d = CHR 0x0A then None else map_option (\<lambda>(b, r). (c # d # b, r)) (quoted_body t))
      else map_option (\<lambda>(b, r). (c # b, r)) (quoted_body s))"

definition re_space_lock :: "char \<Rightarrow> bool" where
  "re_space_lock c \<longleftrightarrow> c \<in> {CHR 0x20, CHR 0x09, CHR 0x0A, CHR 0x0C, CHR 0x0D}"

definition equals_sign :: "string \<Rightarrow> string option" where
  "equals_sign s = (case dropWhile re_space_lock s of
       [] \<Rightarrow> None
     | c # t \<Rightarrow> if c = CHR ''='' then Some (dropWhile re_space_lock t) else None)"

definition key_char :: "char \<Rightarrow> bool" where
  "key_char c \<longleftrightarrow> is_letter c \<or> is_digit c \<or> c = CHR ''_'' \<or> c = CHR ''-''"

definition tomlKey :: "string \<Rightarrow> (string \<times> string) option" where
  "tomlKey line = (case (if has_prefix line [CHR 0x22]
         then map_option (\<lambda>(b, r). (CHR 0x22 # b @ [CHR 0x22], r)) (quoted_body (tl line))
         else (let k = takeWhile key_char line in if k = [] then None else Some (k, drop (length k) line))) of
       None \<Rightarrow> None
     | Some (key, rest) \<Rightarrow> map_option (\<lambda>v. (key, v)) (equals_sign rest))"

definition registry_here :: "string \<Rightarrow> string option" where
  "registry_here s = (case cut_prefix (dropWhile re_space_lock s) ''registry'' of
       None \<Rightarrow> None
     | Some r \<Rightarrow> (case equals_sign r of
           None \<Rightarrow> None
         | Some t \<Rightarrow> (case cut_prefix t [CHR 0x22] of
               None \<Rightarrow> None
             | Some q \<Rightarrow> map_option fst (quoted_body q))))"

fun inlineRegistry :: "string \<Rightarrow> string option" where
  "inlineRegistry [] = None"
| "inlineRegistry (c # s) = (case (if c \<in> {CHR ''{'', CHR '',''} then registry_here s else None) of
     Some reg \<Rightarrow> Some reg
   | None \<Rightarrow> inlineRegistry s)"

definition set_last :: "('a \<Rightarrow> 'a) \<Rightarrow> 'a list \<Rightarrow> 'a list" where
  "set_last f xs = butlast xs @ [f (last xs)]"

definition toml_line :: "(string \<Rightarrow> string option) \<Rightarrow> string \<Rightarrow> tomlReader \<Rightarrow> lock_error + tomlReader" where
  "toml_line unquote line r =
     (if trDepth r > 0 then Inr (r\<lparr>trDepth := trDepth r + bracketDelta line\<rparr>)
      else if line = '''' \<or> has_prefix line ''#'' then Inr r
      else if line = ''[[package]]''
      then Inr (r\<lparr>trPkgs := trPkgs r @ [\<lambda>_. ''''], trOpen := True, trPrefix := ''''\<rparr>)
      else if has_prefix line ''[''
      then (case cut_prefix line ''[package.'' of
          Some rest \<Rightarrow> if has_suffix rest '']'' \<and> trPkgs r \<noteq> []
            then Inr (r\<lparr>trOpen := True, trPrefix := trim_suffix rest '']'' @ ''.''\<rparr>)
            else Inr (r\<lparr>trOpen := False, trPrefix := ''''\<rparr>)
        | None \<Rightarrow> Inr (r\<lparr>trOpen := False, trPrefix := ''''\<rparr>))
      else (case tomlKey line of
          None \<Rightarrow> Inl (errUnreadableLine line)
        | Some (key, v) \<Rightarrow>
            (let r = (if has_prefix v ''['' then r\<lparr>trDepth := bracketDelta v\<rparr> else r)
             in Inr (if trOpen r
               then r\<lparr>trPkgs := set_last (\<lambda>p. p(trPrefix r @ tomlValue unquote key := tomlValue unquote v)) (trPkgs r)\<rparr>
               else r))))"

fun toml_lines :: "(string \<Rightarrow> string option) \<Rightarrow> string list \<Rightarrow> tomlReader \<Rightarrow> lock_error + tomlReader" where
  "toml_lines unquote [] r = Inr r"
| "toml_lines unquote (l # ls) r = (case toml_line unquote (trim_space l) r of
     Inl e \<Rightarrow> Inl e | Inr r \<Rightarrow> toml_lines unquote ls r)"

definition readTOMLPackages :: "(string \<Rightarrow> string option) \<Rightarrow> string \<Rightarrow> lock_error + tomlPackage list" where
  "readTOMLPackages unquote data =
     (case toml_lines unquote (split_at (CHR 0x0A) data) \<lparr>trPkgs = [], trOpen = False, trPrefix = '''', trDepth = 0\<rparr> of
        Inl e \<Rightarrow> Inl e
      | Inr r \<Rightarrow> if trPkgs r = [] then Inl errNoTOMLPackages else Inr (trPkgs r))"

definition toml_lock :: "(string \<Rightarrow> string option) \<Rightarrow> (tomlPackage \<Rightarrow> lock_entry) \<Rightarrow> string \<Rightarrow> lock_error + lockfile" where
  "toml_lock unquote entry data = (case readTOMLPackages unquote data of
       Inl e \<Rightarrow> Inl e | Inr tables \<Rightarrow> publicOrError (gather (map entry tables)))"

definition poetry_entry :: "tomlPackage \<Rightarrow> lock_entry" where
  "poetry_entry p =
     (if p ''name'' = '''' \<or> p ''version'' = '''' then Skipped
      else if p ''source.type'' \<noteq> '''' then LeftOut
      else Kept (osv_pkg EcosystemPyPI (p ''name'') (p ''version'')))"

definition publicPyPIIndexes :: "string list" where
  "publicPyPIIndexes = [''https://pypi.org/simple'', ''https://pypi.python.org/simple'']"

definition uv_entry :: "tomlPackage \<Rightarrow> lock_entry" where
  "uv_entry p =
     (if p ''name'' = '''' \<or> p ''version'' = '''' then Skipped
      else case inlineRegistry (p ''source'') of
        None \<Rightarrow> if str_contains (p ''source'') ''registry'' \<or> str_contains (p ''source'') ''git'' \<or>
            str_contains (p ''source'') ''url'' then LeftOut else Skipped
      | Some reg \<Rightarrow> if trim_suffix reg ''/'' \<notin> set publicPyPIIndexes then LeftOut
          else Kept (osv_pkg EcosystemPyPI (p ''name'') (p ''version'')))"

definition publicCrateIndexes :: "string list" where
  "publicCrateIndexes = [''registry+https://github.com/rust-lang/crates.io-index'', ''sparse+https://index.crates.io/'',
     ''registry+sparse+https://index.crates.io/'']"

definition cargo_entry :: "tomlPackage \<Rightarrow> lock_entry" where
  "cargo_entry p =
     (if p ''name'' = '''' \<or> p ''version'' = '''' \<or> p ''source'' = '''' then Skipped
      else if p ''source'' \<notin> set publicCrateIndexes then LeftOut
      else Kept (osv_pkg EcosystemCratesIO (p ''name'') (p ''version'')))"

definition readPoetryLock :: "(string \<Rightarrow> string option) \<Rightarrow> string \<Rightarrow> lock_error + lockfile" where
  "readPoetryLock unquote = toml_lock unquote poetry_entry"

definition readUvLock :: "(string \<Rightarrow> string option) \<Rightarrow> string \<Rightarrow> lock_error + lockfile" where
  "readUvLock unquote = toml_lock unquote uv_entry"

definition readCargoLock :: "(string \<Rightarrow> string option) \<Rightarrow> string \<Rightarrow> lock_error + lockfile" where
  "readCargoLock unquote = toml_lock unquote cargo_entry"

section \<open>\<open>go.mod\<close>\<close>

text \<open>\<open>strings.Fields\<close>.\<close>

function str_fields :: "string \<Rightarrow> string list" where
  "str_fields s = (let t = dropWhile is_space s in
     if t = [] then [] else takeWhile (\<lambda>c. \<not> is_space c) t # str_fields (dropWhile (\<lambda>c. \<not> is_space c) t))"
  by auto
termination
proof (relation "measure length", goal_cases)
  case (2 s t)
  then show ?case
  proof (cases t)
    case (Cons c u)
    then have "\<not> is_space c" using 2 hd_dropWhile[of is_space s] by auto
    then have "length (dropWhile (\<lambda>c. \<not> is_space c) t) \<le> length u" using Cons by (simp add: length_dropWhile_le)
    moreover have "length t \<le> length s" using 2 length_dropWhile_le[of is_space s] by simp
    ultimately show ?thesis using Cons by simp
  qed simp
qed simp

declare str_fields.simps [simp del]

definition goModFields :: "(string \<Rightarrow> string option) \<Rightarrow> string \<Rightarrow> string list" where
  "goModFields unquote line = map (\<lambda>f. case unquote f of Some u \<Rightarrow> u | None \<Rightarrow> f) (str_fields line)"

text \<open>The bytes kept; \<open>quote\<close> is the quote that is open.\<close>

fun strip_comment :: "char option \<Rightarrow> string \<Rightarrow> string" where
  "strip_comment quote [] = []"
| "strip_comment quote (c # s) =
     (if quote = Some (CHR 0x22) \<and> c = CHR 0x5C then (case s of [] \<Rightarrow> [c] | d # t \<Rightarrow> c # d # strip_comment quote t)
      else if quote \<noteq> None then c # strip_comment (if Some c = quote then None else quote) s
      else if c = CHR 0x22 \<or> c = CHR 0x60 then c # strip_comment (Some c) s
      else if c = CHR ''/'' \<and> s \<noteq> [] \<and> hd s = CHR ''/'' then []
      else c # strip_comment None s)"

definition stripGoModComment :: "string \<Rightarrow> string" where
  "stripGoModComment line = strip_comment None line"

text \<open>The state of the walk: the open block, the requires and replaces so far, and whether a module is named.\<close>

type_synonym go_mod_scan = "string \<times> string list list \<times> string list list \<times> bool"

definition go_mod_line :: "(string \<Rightarrow> string option) \<Rightarrow> string \<Rightarrow> go_mod_scan \<Rightarrow> go_mod_scan" where
  "go_mod_line unquote line = (\<lambda>(block, requires, replaces, hasModule).
     let fields = goModFields unquote (stripGoModComment line) in
     if fields = [] then (block, requires, replaces, hasModule)
     else if block = '''' \<and> fields ! 0 = ''module'' then (block, requires, replaces, True)
     else if block \<noteq> '''' \<and> fields ! 0 = '')'' then ('''', requires, replaces, hasModule)
     else if block = ''require'' then (block, requires @ [fields], replaces, hasModule)
     else if block = ''replace'' then (block, requires, replaces @ [fields], hasModule)
     else if length fields = 2 \<and> fields ! 1 = ''('' \<and> (fields ! 0 = ''require'' \<or> fields ! 0 = ''replace'')
     then (fields ! 0, requires, replaces, hasModule)
     else if fields ! 0 = ''require'' then (block, requires @ [tl fields], replaces, hasModule)
     else if fields ! 0 = ''replace'' then (block, requires, replaces @ [tl fields], hasModule)
     else (block, requires, replaces, hasModule))"

definition goModLines :: "(string \<Rightarrow> string option) \<Rightarrow> string \<Rightarrow> string list list \<times> string list list \<times> bool" where
  "goModLines unquote data = snd (fold (go_mod_line unquote) (split_at (CHR 0x0A) data) ('''', [], [], False))"

record replacement =
  rpModule :: string
  rpVersion :: string

record replacements =
  rpAll :: "string \<rightharpoonup> replacement"
  rpExact :: "string \<times> string \<rightharpoonup> replacement"

text \<open>\<open>slices.Index\<close>.\<close>

fun index_of :: "'a \<Rightarrow> 'a list \<Rightarrow> nat option" where
  "index_of x [] = None"
| "index_of x (y # ys) = (if y = x then Some 0 else map_option Suc (index_of x ys))"

definition parse_replace :: "string list \<Rightarrow> replacements \<Rightarrow> replacements" where
  "parse_replace f r = (case index_of ''=>'' f of
       None \<Rightarrow> r
     | Some arrow \<Rightarrow>
         if arrow < 1 \<or> Suc arrow = length f \<or> arrow > 2 then r
         else (let to = \<lparr>rpModule = f ! (arrow + 1), rpVersion = (if length f > arrow + 2 then f ! (arrow + 2) else '''')\<rparr>
           in if arrow = 2 then r\<lparr>rpExact := (rpExact r)((f ! 0, f ! 1) \<mapsto> to)\<rparr>
              else r\<lparr>rpAll := (rpAll r)(f ! 0 \<mapsto> to)\<rparr>))"

definition parseReplaces :: "string list list \<Rightarrow> replacements" where
  "parseReplaces ls = fold parse_replace ls \<lparr>rpAll = Map.empty, rpExact = Map.empty\<rparr>"

definition replacements_find :: "replacements \<Rightarrow> string \<Rightarrow> string \<Rightarrow> replacement option" where
  "replacements_find r module version = (case rpExact r (module, version) of
       Some to \<Rightarrow> Some to | None \<Rightarrow> rpAll r module)"

definition goPackage :: "string \<Rightarrow> string \<Rightarrow> osv_package" where
  "goPackage module version = osv_pkg EcosystemGo module (trim_prefix version ''v'')"

definition go_entry :: "replacements \<Rightarrow> string list \<Rightarrow> lock_entry" where
  "go_entry repl f =
     (if length f < 2 then Skipped
      else case replacements_find repl (f ! 0) (f ! 1) of
        Some to \<Rightarrow> if rpVersion to = '''' then LeftOut else Kept (goPackage (rpModule to) (rpVersion to))
      | None \<Rightarrow> Kept (goPackage (f ! 0) (f ! 1)))"

definition applyReplaces :: "string list list \<Rightarrow> string list list \<Rightarrow> osv_package list \<times> nat" where
  "applyReplaces requires replaces = gather (map (go_entry (parseReplaces replaces)) requires)"

definition readGoMod :: "(string \<Rightarrow> string option) \<Rightarrow> string \<Rightarrow> lock_error + lockfile" where
  "readGoMod unquote data = (case goModLines unquote data of (requires, replaces, hasModule) \<Rightarrow>
     if \<not> hasModule then Inl errNoModule
     else (case applyReplaces requires replaces of (pkgs, left) \<Rightarrow> Inr \<lparr>lfPackages = pkgs, lfLeft = left\<rparr>))"

section \<open>Which reader\<close>

record lock_codec =
  lcFlat :: "string \<Rightarrow> (string \<times> npm_entry) list option option"
  lcNpm :: "string \<Rightarrow> (bool \<times> (string \<times> npm_v1) list option) option"
  lcBun :: "string \<Rightarrow> string option list list option option"
  lcComposer :: "string \<Rightarrow> (composerPackage list option \<times> composerPackage list option) option"
  lcUnquote :: "string \<Rightarrow> string option"

definition lockfileReaders :: "lock_codec \<Rightarrow> string \<rightharpoonup> (string \<Rightarrow> lock_error + lockfile)" where
  "lockfileReaders d = map_of
     [(''package-lock.json'', readNPMLock (lcFlat d) (lcNpm d)),
      (''bun.lock'', readBunLock (lcBun d)),
      (''composer.lock'', readComposerLock (lcComposer d)),
      (''poetry.lock'', readPoetryLock (lcUnquote d)),
      (''uv.lock'', readUvLock (lcUnquote d)),
      (''Cargo.lock'', readCargoLock (lcUnquote d)),
      (''go.mod'', readGoMod (lcUnquote d))]"

definition IsLockfile :: "lock_codec \<Rightarrow> string \<Rightarrow> bool" where
  "IsLockfile d name \<longleftrightarrow> lockfileReaders d name \<noteq> None"


section \<open>What leaves the server\<close>






















section \<open>A file in two formats\<close>




end
