(* ===== verification/Osv_Client.thy ===== *)
theory Osv_Client
  imports Osv_Lockfile
begin

text \<open>
  Matching packages against osv.dev, \<open>internal/osv\<close>: \<open>client.go\<close>, \<open>find.go\<close> and \<open>cvss.go\<close>. The service's
  answers are functions of the request and of how many were sent before; the CVSS library's score of
  a vector is a parameter, in tenths. A Go map that is ranged over comes with the order of that range as an argument.
  The workers that read records at the same time are read one after another, and a scan's deadline is left out.
\<close>

section \<open>Severity\<close>

definition severityRank :: "string \<Rightarrow> nat" where
  "severityRank s = (if s = ''low'' then 1 else if s = ''medium'' then 2 else if s = ''high'' then 3
     else if s = ''critical'' then 4 else 0)"

definition normaliseSeverity :: "string \<Rightarrow> string" where
  "normaliseSeverity s = (let l = lower s in
     if l = ''low'' then ''low''
     else if l = ''moderate'' \<or> l = ''medium'' then ''medium''
     else if l = ''high'' then ''high''
     else if l = ''critical'' then ''critical'' else '''')"

definition severityFromScore :: "int \<Rightarrow> string" where
  "severityFromScore score = (if score \<ge> 90 then ''critical'' else if score \<ge> 70 then ''high''
     else if score \<ge> 40 then ''medium'' else if score \<ge> 1 then ''low'' else '''')"

text \<open>\<open>lib\<close> is the library's score under a version of CVSS, \<open>None\<close> where the vector does not parse.\<close>

definition baseScore :: "(string \<Rightarrow> string \<Rightarrow> int option) \<Rightarrow> string \<Rightarrow> int" where
  "baseScore lib vector =
     (case (if has_prefix vector ''CVSS:3.1/'' then lib ''3.1'' vector
            else if has_prefix vector ''CVSS:3.0/'' then lib ''3.0'' vector
            else if has_prefix vector ''CVSS:4.0/'' then lib ''4.0'' vector else None) of
        Some score \<Rightarrow> score | None \<Rightarrow> 0)"

definition severityFromVectors :: "(string \<Rightarrow> string \<Rightarrow> int option) \<Rightarrow> string list \<Rightarrow> string" where
  "severityFromVectors lib vectors = fold (\<lambda>v worst.
     let sev = severityFromScore (baseScore lib v) in if severityRank sev > severityRank worst then sev else worst) vectors ''''"

section \<open>Records\<close>

record affectedPackage =
  afName :: string
  afEcosystem :: string
  afFixed :: "string list"

record osv_record =
  orAliases :: "string list"
  orSeverity :: string
  orWithdrawn :: bool
  orSummary :: string
  orDetails :: string
  orPublished :: string
  orVectors :: "string list"
  orCwes :: "string list"
  orReferences :: "string list"
  orAffected :: "affectedPackage list"

text \<open>A record as the service answers it; a range's events are the versions they say fix it.\<close>

record osv_answer =
  oaAliases :: "string list"
  oaWithdrawn :: string
  oaSummary :: string
  oaDetails :: string
  oaPublished :: string
  oaSeverity :: string
  oaCWEIDs :: "string list"
  oaScores :: "string list"
  oaReferences :: "string list"
  oaAffected :: "(string \<times> string \<times> string list list) list"

definition append_fixed :: "string \<Rightarrow> string list \<Rightarrow> string list" where
  "append_fixed e fixed = (if e \<noteq> '''' \<and> e \<notin> set fixed then fixed @ [e] else fixed)"

definition record_of_answer :: "(string \<Rightarrow> string \<Rightarrow> int option) \<Rightarrow> osv_answer \<Rightarrow> osv_record" where
  "record_of_answer lib v =
     (let vectors = oaScores v;
          sev = normaliseSeverity (oaSeverity v);
          sev = (if sev = '''' then severityFromVectors lib vectors else sev)
      in \<lparr>orAliases = oaAliases v, orSeverity = sev, orWithdrawn = (oaWithdrawn v \<noteq> ''''), orSummary = oaSummary v,
          orDetails = oaDetails v, orPublished = oaPublished v, orVectors = vectors, orCwes = oaCWEIDs v,
          orReferences = oaReferences v,
          orAffected = map (\<lambda>(name, eco, ranges). \<lparr>afName = name, afEcosystem = eco,
            afFixed = fold (fold append_fixed) ranges []\<rparr>) (oaAffected v)\<rparr>)"

section \<open>The record cache\<close>

definition maxCachedRecords :: nat where "maxCachedRecords = 5000"
definition RecordTTL :: duration where "RecordTTL = 15 * minute"

type_synonym record_cache = "(string \<times> osv_record \<times> time) list"

definition drop_key :: "string \<Rightarrow> (string \<times> 'a) list \<Rightarrow> (string \<times> 'a) list" where
  "drop_key k m = filter (\<lambda>e. fst e \<noteq> k) m"

definition remember :: "time \<Rightarrow> string \<Rightarrow> osv_record \<Rightarrow> record_cache \<Rightarrow> record_cache" where
  "remember now vid r records =
     (let records = (if length records \<ge> maxCachedRecords
            then (let kept = filter (\<lambda>(_, _, expires). now < expires) records
                  in if length kept \<ge> maxCachedRecords then [] else kept)
            else records)
      in (vid, r, now + RecordTTL) # drop_key vid records)"

datatype osv_error = ErrTooMany | errBatchShape | OsvFailed string

text \<open>\<open>Client.record\<close> for a caller that finds no fetch of the record under way.\<close>

definition client_record :: "(string \<Rightarrow> osv_error + osv_record) \<Rightarrow> time \<Rightarrow> string \<Rightarrow> record_cache \<Rightarrow>
    (osv_error + osv_record) \<times> record_cache" where
  "client_record fetch now vid records = (case map_of records vid of
       Some (r, expires) \<Rightarrow>
         if now < expires then (Inr r, records)
         else (case fetch vid of Inl e \<Rightarrow> (Inl e, records) | Inr r \<Rightarrow> (Inr r, remember now vid r records))
     | None \<Rightarrow> (case fetch vid of Inl e \<Rightarrow> (Inl e, records) | Inr r \<Rightarrow> (Inr r, remember now vid r records)))"

text \<open>\<open>loadRecords\<close>: every record, or the first failure; what was read is remembered either way.\<close>

fun loadRecords :: "(string \<Rightarrow> osv_error + osv_record) \<Rightarrow> time \<Rightarrow> string list \<Rightarrow> record_cache \<Rightarrow>
    (osv_error + (string \<rightharpoonup> osv_record)) \<times> record_cache" where
  "loadRecords fetch now [] records = (Inr Map.empty, records)"
| "loadRecords fetch now (vid # ids) records = (case client_record fetch now vid records of
     (Inl e, records) \<Rightarrow> (Inl e, records)
   | (Inr r, records) \<Rightarrow> (case loadRecords fetch now ids records of
       (Inl e, records) \<Rightarrow> (Inl e, records)
     | (Inr out, records) \<Rightarrow> (Inr (out(vid \<mapsto> r)), records)))"

section \<open>Asking in batches\<close>

definition batchSize :: nat where "batchSize = 500"
definition maxAdvisories :: nat where "maxAdvisories = 300"
definition MaxPackages :: nat where "MaxPackages = 3000"
definition maxRecordIDs :: nat where "maxRecordIDs = 600"
definition maxPages :: nat where "maxPages = 5"

record osv_query =
  quVersion :: string
  quName :: string
  quEcosystem :: string
  quPageToken :: string

record batchResult =
  brVulns :: "string list"
  brNextPageToken :: string

fun distinct_from :: "osv_package set \<Rightarrow> osv_package list \<Rightarrow> osv_package list" where
  "distinct_from seen [] = []"
| "distinct_from seen (p # ps) = (if p \<in> seen then distinct_from seen ps else p # distinct_from (insert p seen) ps)"

definition distinct_packages :: "osv_package list \<Rightarrow> osv_package list" where
  "distinct_packages pkgs = distinct_from {} pkgs"

text \<open>What a scan has gathered: the ids in the order they came, and the packages each one hits.\<close>

record scan_hits =
  shIds :: "string list"
  shHits :: "string \<Rightarrow> osv_package list"

definition add_hit :: "osv_package \<Rightarrow> string \<Rightarrow> scan_hits \<Rightarrow> scan_hits" where
  "add_hit owner v h = h\<lparr>shIds := (if v \<in> set (shIds h) then shIds h else shIds h @ [v]),
     shHits := (if owner \<in> set (shHits h v) then shHits h else (shHits h)(v := shHits h v @ [owner]))\<rparr>"

fun collect_results :: "(osv_query \<times> osv_package) list \<Rightarrow> batchResult list \<Rightarrow> scan_hits \<Rightarrow>
    (osv_query \<times> osv_package) list \<times> scan_hits" where
  "collect_results ((q, owner) # qs) (r # rs) h =
     (let h = fold (add_hit owner) (brVulns r) h;
          (next, h) = collect_results qs rs h
      in (if brNextPageToken r \<noteq> '''' then (q\<lparr>quPageToken := brNextPageToken r\<rparr>, owner) # next else next, h))"
| "collect_results _ _ h = ([], h)"

text \<open>\<open>ask n qs\<close> is the answer to the scan's request number \<open>n\<close>; \<open>fuel\<close> is the pages left.\<close>

fun query_pages :: "(nat \<Rightarrow> osv_query list \<Rightarrow> osv_error + batchResult list) \<Rightarrow> nat \<Rightarrow> (osv_query \<times> osv_package) list \<Rightarrow>
    nat \<Rightarrow> scan_hits \<Rightarrow> (osv_error + scan_hits) \<times> nat" where
  "query_pages ask 0 qs n h = (Inl ErrTooMany, n)"
| "query_pages ask (Suc pages) qs n h = (case ask n (map fst qs) of
     Inl e \<Rightarrow> (Inl e, Suc n)
   | Inr results \<Rightarrow>
       if length results \<noteq> length qs then (Inl errBatchShape, Suc n)
       else (let (next, h) = collect_results qs results h
             in if next = [] then (Inr h, Suc n) else query_pages ask pages next (Suc n) h))"

definition query_of :: "osv_package \<Rightarrow> osv_query" where
  "query_of p = \<lparr>quVersion = pkVersion p, quName = pkName p, quEcosystem = pkEcosystem p, quPageToken = ''''\<rparr>"

definition queryBatch :: "(nat \<Rightarrow> osv_query list \<Rightarrow> osv_error + batchResult list) \<Rightarrow> osv_package list \<Rightarrow> nat \<Rightarrow> scan_hits \<Rightarrow>
    (osv_error + scan_hits) \<times> nat" where
  "queryBatch ask pkgs n h = query_pages ask maxPages (map (\<lambda>p. (query_of p, p)) pkgs) n h"

function query_all :: "(nat \<Rightarrow> osv_query list \<Rightarrow> osv_error + batchResult list) \<Rightarrow> osv_package list \<Rightarrow> nat \<Rightarrow> scan_hits \<Rightarrow>
    (osv_error + scan_hits) \<times> nat" where
  "query_all ask pkgs n h = (if pkgs = [] then (Inr h, n)
     else case queryBatch ask (take batchSize pkgs) n h of
       (Inl e, n) \<Rightarrow> (Inl e, n)
     | (Inr h, n) \<Rightarrow> query_all ask (drop batchSize pkgs) n h)"
  by auto
termination by (relation "measure (\<lambda>(ask, pkgs, n, h). length pkgs)") (auto simp: batchSize_def)

declare query_all.simps [simp del]

record osv_api =
  apAsk :: "nat \<Rightarrow> osv_query list \<Rightarrow> osv_error + batchResult list"
  apFetch :: "string \<Rightarrow> osv_error + osv_record"

text \<open>\<open>match\<close>, with the number of batch requests it sent.\<close>

definition osv_match :: "osv_api \<Rightarrow> time \<Rightarrow> osv_package list \<Rightarrow> record_cache \<Rightarrow>
    (osv_error + (string list \<times> (string \<rightharpoonup> osv_record) \<times> (string \<Rightarrow> osv_package list))) \<times> nat \<times> record_cache" where
  "osv_match api now pkgs records =
     (let pkgs = distinct_packages pkgs in
      if length pkgs > MaxPackages then (Inl ErrTooMany, 0, records)
      else case query_all (apAsk api) pkgs 0 \<lparr>shIds = [], shHits = \<lambda>_. []\<rparr> of
        (Inl e, n) \<Rightarrow> (Inl e, n, records)
      | (Inr h, n) \<Rightarrow>
          if length (shIds h) > maxRecordIDs then (Inl ErrTooMany, n, records)
          else (case loadRecords (apFetch api) now (shIds h) records of
              (Inl e, records) \<Rightarrow> (Inl e, n, records)
            | (Inr recs, records) \<Rightarrow> (Inr (shIds h, recs, shHits h), n, records)))"

section \<open>Advisories that are one\<close>

type_synonym sets = "string \<rightharpoonup> string"

partial_function (option) sets_find :: "sets \<Rightarrow> string \<Rightarrow> (string \<times> sets) option" where
  "sets_find s x = (case s x of
       None \<Rightarrow> Some (x, s(x \<mapsto> x))
     | Some p \<Rightarrow> if p = x then Some (x, s(x \<mapsto> x)) else sets_find s p)"

declare sets_find.simps [code]

text \<open>\<open>groups[groups.find(a)] = groups.find(id)\<close>.\<close>

definition join_alias :: "string \<Rightarrow> string \<Rightarrow> sets \<Rightarrow> sets option" where
  "join_alias a vid s = (case sets_find s a of
       None \<Rightarrow> None
     | Some (ra, s) \<Rightarrow> (case sets_find s vid of None \<Rightarrow> None | Some (rid, s) \<Rightarrow> Some (s(ra \<mapsto> rid))))"

definition withdrawn_in :: "(string \<rightharpoonup> osv_record) \<Rightarrow> string \<Rightarrow> bool" where
  "withdrawn_in recs vid = (case recs vid of None \<Rightarrow> False | Some r \<Rightarrow> orWithdrawn r)"

fun alias_loop :: "(string \<rightharpoonup> osv_record) \<Rightarrow> string \<Rightarrow> string list \<Rightarrow> sets \<Rightarrow> sets option" where
  "alias_loop recs vid [] s = Some s"
| "alias_loop recs vid (a # as) s =
     (if withdrawn_in recs a then alias_loop recs vid as s
      else case join_alias a vid s of None \<Rightarrow> None | Some s \<Rightarrow> alias_loop recs vid as s)"

fun group_loop :: "(string \<rightharpoonup> osv_record) \<Rightarrow> string list \<Rightarrow> sets \<Rightarrow> sets option" where
  "group_loop recs [] s = Some s"
| "group_loop recs (vid # ids) s = (case recs vid of
     None \<Rightarrow> group_loop recs ids s
   | Some r \<Rightarrow>
       if orWithdrawn r then group_loop recs ids s
       else (case alias_loop recs vid (orAliases r) s of None \<Rightarrow> None | Some s \<Rightarrow> group_loop recs ids s))"

fun root_loop :: "(string \<rightharpoonup> osv_record) \<Rightarrow> string list \<Rightarrow> sets \<Rightarrow> (string \<times> string) list option" where
  "root_loop recs [] s = Some []"
| "root_loop recs (vid # ids) s = (case recs vid of
     None \<Rightarrow> root_loop recs ids s
   | Some r \<Rightarrow>
       if orWithdrawn r then root_loop recs ids s
       else (case sets_find s vid of
           None \<Rightarrow> None
         | Some (root, s) \<Rightarrow> map_option ((#) (vid, root)) (root_loop recs ids s)))"

text \<open>The two orders are those of the code's two ranges over \<open>recs\<close>.\<close>

definition aliasRoots :: "(string \<rightharpoonup> osv_record) \<Rightarrow> string list \<Rightarrow> string list \<Rightarrow> (string \<times> string) list option" where
  "aliasRoots recs order1 order2 = (case group_loop recs order1 Map.empty of
       None \<Rightarrow> None | Some s \<Rightarrow> root_loop recs order2 s)"

section \<open>Counting them\<close>

record osv_summary =
  smCount :: nat
  smHighest :: string

definition severity_in :: "(string \<rightharpoonup> osv_record) \<Rightarrow> string \<Rightarrow> string" where
  "severity_in recs vid = (case recs vid of None \<Rightarrow> '''' | Some r \<Rightarrow> orSeverity r)"

text \<open>The map of groups as its entries; a missing group ranks as an empty severity.\<close>

definition group_severity :: "(string \<rightharpoonup> osv_record) \<Rightarrow> string \<times> string \<Rightarrow> (string \<times> string) list \<Rightarrow> (string \<times> string) list" where
  "group_severity recs e groups = (case e of (vid, root) \<Rightarrow>
     if severityRank (severity_in recs vid) \<ge> severityRank (case map_of groups root of None \<Rightarrow> '''' | Some s \<Rightarrow> s)
     then (root, severity_in recs vid) # drop_key root groups else groups)"

definition summarise_groups :: "(string \<times> string) list \<Rightarrow> osv_summary" where
  "summarise_groups groups = \<lparr>smCount = length groups,
     smHighest = fold (\<lambda>(_, sev) highest. if severityRank sev > severityRank highest then sev else highest) groups ''''\<rparr>"

definition summarise :: "(string \<rightharpoonup> osv_record) \<Rightarrow> (string \<times> string) list \<Rightarrow> osv_summary" where
  "summarise recs roots = summarise_groups (fold (group_severity recs) roots [])"

text \<open>\<open>order\<close> is how the code happens to range over the records' ids, twice.\<close>

definition Scan :: "osv_api \<Rightarrow> (string list \<Rightarrow> string list \<times> string list) \<Rightarrow> time \<Rightarrow> osv_package list \<Rightarrow> record_cache \<Rightarrow>
    (osv_error + osv_summary) option \<times> nat \<times> record_cache" where
  "Scan api order now pkgs records = (case osv_match api now pkgs records of
       (Inl e, n, records) \<Rightarrow> (Some (Inl e), n, records)
     | (Inr (ids, recs, _), n, records) \<Rightarrow>
         (case aliasRoots recs (fst (order ids)) (snd (order ids)) of
            None \<Rightarrow> (None, n, records)
          | Some roots \<Rightarrow> (let sum = summarise recs roots
              in (Some (if smCount sum > maxAdvisories then Inl ErrTooMany else Inr sum), n, records))))"

section \<open>The list of findings\<close>

record osv_hit =
  htPackage :: osv_package
  htFixed :: "string list"

record finding =
  fiID :: string
  fiIDs :: "string list"
  fiSummary :: string
  fiDetails :: string
  fiSeverity :: string
  fiCVSSVector :: string
  fiCVSSScore :: int
  fiPublished :: string
  fiCWEs :: "string list"
  fiReferences :: "string list"
  fiHits :: "osv_hit list"

definition or_else :: "string \<Rightarrow> string \<Rightarrow> string" where
  "or_else a b = (if a \<noteq> '''' then a else b)"

definition AppendNew :: "string list \<Rightarrow> string list \<Rightarrow> string list" where
  "AppendNew dst values = fold (\<lambda>v dst. if v \<noteq> '''' \<and> v \<notin> set dst then dst @ [v] else dst) values dst"

definition better_vector :: "(string \<Rightarrow> string \<Rightarrow> int option) \<Rightarrow> string \<Rightarrow> finding \<Rightarrow> finding" where
  "better_vector lib v f = (let score = baseScore lib v in
     if score > fiCVSSScore f then f\<lparr>fiCVSSScore := score, fiCVSSVector := v\<rparr> else f)"

definition merge_record :: "(string \<Rightarrow> string \<Rightarrow> int option) \<Rightarrow> osv_record \<Rightarrow> finding \<Rightarrow> finding" where
  "merge_record lib r f =
     (let f = f\<lparr>fiSummary := or_else (fiSummary f) (orSummary r), fiDetails := or_else (fiDetails f) (orDetails r),
                fiPublished := or_else (fiPublished f) (orPublished r),
                fiSeverity := (if severityRank (orSeverity r) > severityRank (fiSeverity f) then orSeverity r else fiSeverity f)\<rparr>;
          f = fold (better_vector lib) (orVectors r) f
      in f\<lparr>fiCWEs := AppendNew (fiCWEs f) (orCwes r), fiReferences := AppendNew (fiReferences f) (orReferences r)\<rparr>)"

definition sameEcosystem :: "string \<Rightarrow> string \<Rightarrow> bool" where
  "sameEcosystem a b \<longleftrightarrow> lower (hd (split_at (CHR '':'') a)) = lower (hd (split_at (CHR '':'') b))"

definition record_in :: "(string \<rightharpoonup> osv_record) \<Rightarrow> string \<Rightarrow> osv_record" where
  "record_in recs vid = (case recs vid of Some r \<Rightarrow> r
     | None \<Rightarrow> \<lparr>orAliases = [], orSeverity = '''', orWithdrawn = False, orSummary = '''', orDetails = '''', orPublished = '''',
         orVectors = [], orCwes = [], orReferences = [], orAffected = []\<rparr>)"

definition hit_of :: "string list \<Rightarrow> (string \<rightharpoonup> osv_record) \<Rightarrow> osv_package \<Rightarrow> osv_hit" where
  "hit_of order recs p = \<lparr>htPackage = p, htFixed = fold (\<lambda>vid. fold (\<lambda>a fixed.
       if afName a = pkName p \<and> sameEcosystem (afEcosystem a) (pkEcosystem p) then AppendNew fixed (afFixed a) else fixed)
     (orAffected (record_in recs vid))) order []\<rparr>"

definition hitsOf :: "osv_package list \<Rightarrow> string list \<Rightarrow> (string \<rightharpoonup> osv_record) \<Rightarrow> osv_hit list" where
  "hitsOf pkgs order recs = map (hit_of order recs) (sort_key (\<lambda>p. (pkEcosystem p, pkName p, pkVersion p)) pkgs)"

definition primary_of :: "string list \<Rightarrow> string" where
  "primary_of ids = (case find (\<lambda>vid. has_prefix vid ''GHSA-'') ids of Some vid \<Rightarrow> vid | None \<Rightarrow> hd ids)"

definition add_new :: "'a \<Rightarrow> 'a list \<Rightarrow> 'a list" where
  "add_new p ps = (if p \<in> set ps then ps else ps @ [p])"

definition buildFinding :: "(string \<Rightarrow> string \<Rightarrow> int option) \<Rightarrow> string list \<Rightarrow> (string \<rightharpoonup> osv_record) \<Rightarrow>
    (string \<Rightarrow> osv_package list) \<Rightarrow> finding" where
  "buildFinding lib ids recs hits =
     (let primary = primary_of ids;
          order = primary # filter (\<lambda>vid. vid \<noteq> primary) ids;
          f = \<lparr>fiID = primary, fiIDs = [], fiSummary = '''', fiDetails = '''', fiSeverity = '''', fiCVSSVector = '''',
               fiCVSSScore = 0, fiPublished = '''', fiCWEs = [], fiReferences = [], fiHits = []\<rparr>;
          f = fold (\<lambda>vid. merge_record lib (record_in recs vid)) order f;
          names = concat (map (\<lambda>vid. vid # orAliases (record_in recs vid)) order);
          pkgs = fold (\<lambda>vid. fold add_new (hits vid)) order []
      in f\<lparr>fiIDs := sort (remdups names), fiHits := hitsOf pkgs order recs\<rparr>)"

fun root_groups :: "(string \<times> string) list \<Rightarrow> (string \<times> string list) list \<Rightarrow> (string \<times> string list) list" where
  "root_groups [] groups = groups"
| "root_groups ((vid, root) # es) groups = root_groups es (case map_of groups root of
     None \<Rightarrow> groups @ [(root, [vid])]
   | Some ids \<Rightarrow> map (\<lambda>(r, is'). if r = root then (r, is' @ [vid]) else (r, is')) groups)"

definition Find :: "(string \<Rightarrow> string \<Rightarrow> int option) \<Rightarrow> osv_api \<Rightarrow> (string list \<Rightarrow> string list \<times> string list) \<Rightarrow> time \<Rightarrow>
    osv_package list \<Rightarrow> record_cache \<Rightarrow> (osv_error + finding list) option \<times> nat \<times> record_cache" where
  "Find lib api order now pkgs records = (case osv_match api now pkgs records of
       (Inl e, n, records) \<Rightarrow> (Some (Inl e), n, records)
     | (Inr (ids, recs, hits), n, records) \<Rightarrow>
         (case aliasRoots recs (fst (order ids)) (snd (order ids)) of
            None \<Rightarrow> (None, n, records)
          | Some roots \<Rightarrow> (let groups = root_groups roots []
              in (Some (if length groups > maxAdvisories then Inl ErrTooMany
                  else Inr (sort_key fiID (map (\<lambda>(_, ids). buildFinding lib (sort ids) recs hits) groups))), n, records))))"

section \<open>The groups are the connected advisories\<close>

subsection \<open>Roots\<close>

inductive root_of :: "sets \<Rightarrow> string \<Rightarrow> string \<Rightarrow> bool" for s where
  unknown: "s x = None \<Longrightarrow> root_of s x x"
| self: "s x = Some x \<Longrightarrow> root_of s x x"
| parent: "s x = Some p \<Longrightarrow> p \<noteq> x \<Longrightarrow> root_of s p r \<Longrightarrow> root_of s x r"

inductive_cases root_of_elim: "root_of s x r"

lemma root_of_unique: "root_of s x r \<Longrightarrow> root_of s x r' \<Longrightarrow> r' = r"
  by (induction rule: root_of.induct) (erule root_of_elim; auto)+

lemma root_of_root: "root_of s x r \<Longrightarrow> s r = None \<or> s r = Some r"
  by (induction rule: root_of.induct) auto

lemma find_root: "root_of s x r \<Longrightarrow> sets_find s x = Some (r, s(r \<mapsto> r))"
  by (induction rule: root_of.induct) (subst sets_find.simps, simp add: fun_upd_def)+

lemma root_of_mark:
  assumes "s r = None \<or> s r = Some r"
  shows "root_of (s(r \<mapsto> r)) x y \<longleftrightarrow> root_of s x y"
proof
  show "root_of s x y" if "root_of (s(r \<mapsto> r)) x y"
    using that
  proof (induction rule: root_of.induct)
    case (unknown x)
    then show ?case by (intro root_of.unknown) (simp split: if_splits)
  next
    case (self x)
    then show ?case using assms by (cases "x = r") (auto intro: root_of.unknown root_of.self)
  next
    case (parent x p y)
    then show ?case by (intro root_of.parent[of s x p y]) (auto split: if_splits)
  qed
  show "root_of (s(r \<mapsto> r)) x y" if "root_of s x y"
    using that
  proof (induction rule: root_of.induct)
    case (unknown x)
    then show ?case by (cases "x = r") (auto intro: root_of.unknown root_of.self)
  next
    case (self x)
    then show ?case by (intro root_of.self) simp
  next
    case (parent x p y)
    then have "x \<noteq> r" using assms by auto
    then show ?case using parent by (intro root_of.parent[of _ x p y]) auto
  qed
qed

lemma root_of_link:
  assumes "root_of s x y" "s ra = Some ra" "s rb = Some rb"
  shows "root_of (s(ra \<mapsto> rb)) x (if y = ra then rb else y)"
  using assms(1)
proof (induction rule: root_of.induct)
  case (unknown x)
  then show ?case using assms by (auto intro: root_of.unknown)
next
  case (self x)
  have "root_of (s(ra \<mapsto> rb)) rb rb" using assms by (cases "ra = rb") (auto intro: root_of.self)
  show ?case
  proof (cases "x = ra")
    case True
    have "root_of (s(ra \<mapsto> rb)) ra rb" if "ra \<noteq> rb"
      using that \<open>root_of (s(ra \<mapsto> rb)) rb rb\<close> by (intro root_of.parent[of _ ra rb rb]) auto
    then have "root_of (s(ra \<mapsto> rb)) ra rb" using \<open>root_of (s(ra \<mapsto> rb)) rb rb\<close> by blast
    then show ?thesis unfolding True if_P[OF refl] .
  next
    case False
    then show ?thesis using self by (auto intro: root_of.self)
  qed
next
  case (parent x p r)
  then have "x \<noteq> ra" using assms by auto
  then show ?case using parent by (auto intro: root_of.parent)
qed

subsection \<open>A forest and the links it stands for\<close>

definition linked :: "(string \<times> string) set \<Rightarrow> (string \<times> string) set" where
  "linked E = (E \<union> E\<inverse>)\<^sup>*"

definition forest :: "(string \<times> string) set \<Rightarrow> sets \<Rightarrow> bool" where
  "forest E s \<longleftrightarrow> (\<forall>x. \<exists>r. root_of s x r) \<and>
     (\<forall>x y r r'. root_of s x r \<longrightarrow> root_of s y r' \<longrightarrow> (r = r' \<longleftrightarrow> (x, y) \<in> linked E))"

lemma linked_refl [simp]: "(x, x) \<in> linked E" by (simp add: linked_def)

lemma linked_sym: "(x, y) \<in> linked E \<Longrightarrow> (y, x) \<in> linked E"
  unfolding linked_def by (metis converse_Un converse_converse rtrancl_converseI sup_commute)

lemma linked_trans: "(x, y) \<in> linked E \<Longrightarrow> (y, z) \<in> linked E \<Longrightarrow> (x, z) \<in> linked E"
  by (simp add: linked_def)

lemma linked_mono: "(x, y) \<in> linked E \<Longrightarrow> (x, y) \<in> linked (insert e E)"
  unfolding linked_def by (rule subsetD[OF rtrancl_mono]) auto

lemma linked_edge: "(a, b) \<in> linked (insert (a, b) E)"
  unfolding linked_def by auto

text \<open>Adding one link to an equivalence given by a function of representatives.\<close>

lemma linked_insert:
  assumes f: "\<And>x y. f x = f y \<longleftrightarrow> (x, y) \<in> linked E"
    and g_def: "\<And>x. g x = (if f x = f a then f b else f x)"
  shows "g x = g y \<longleftrightarrow> (x, y) \<in> linked (insert (a, b) E)"
proof
  let ?L = "linked (insert (a, b) E)"
  have to: "f u = f v \<Longrightarrow> (u, v) \<in> ?L" for u v using f linked_mono by blast
  assume "g x = g y"
  then consider "f x = f y" | "f x = f a" "f y = f b" | "f x = f b" "f y = f a"
    by (auto simp: g_def split: if_splits)
  then show "(x, y) \<in> ?L"
    by cases (use to linked_edge[of a b E] linked_trans linked_sym in \<open>metis\<close>)+
next
  have edge: "g u = g v" if "(u, v) \<in> insert (a, b) E" for u v
  proof (cases "(u, v) = (a, b)")
    case False
    then have "(u, v) \<in> linked E" using that by (auto simp: linked_def)
    then have "f u = f v" using f by blast
    then show ?thesis by (simp add: g_def)
  qed (simp add: g_def)
  assume "(x, y) \<in> linked (insert (a, b) E)"
  then show "g x = g y" unfolding linked_def
  proof (induction rule: rtrancl_induct)
    case (step y z)
    then show ?case using edge[of y z] edge[of z y] by (metis UnE converseD)
  qed simp
qed

lemma forest_empty: "forest {} Map.empty"
proof -
  have "root_of Map.empty x r \<longleftrightarrow> r = x" for x r
    by (auto intro: root_of.unknown elim: root_of_elim)
  then show ?thesis by (auto simp: forest_def linked_def)
qed

lemma forest_mark: "forest E s \<Longrightarrow> s r = None \<or> s r = Some r \<Longrightarrow> forest E (s(r \<mapsto> r))"
  by (simp add: forest_def root_of_mark)

lemma join_forest:
  assumes "forest E s"
  shows "\<exists>s'. join_alias a b s = Some s' \<and> forest (insert (a, b) E) s'"
proof -
  obtain ra where ra: "root_of s a ra" using assms unfolding forest_def by blast
  define s1 where "s1 = s(ra \<mapsto> ra)"
  have f1: "forest E s1" using forest_mark[OF assms, of ra, OF root_of_root[OF ra]] by (simp add: s1_def)
  then obtain rb where rb: "root_of s1 b rb" unfolding forest_def by blast
  define s2 where "s2 = s1(rb \<mapsto> rb)"
  have f2: "forest E s2" using forest_mark[OF f1, of rb, OF root_of_root[OF rb]] by (simp add: s2_def)
  have a2: "root_of s2 a ra" "root_of s2 b rb"
    using ra rb root_of_mark[of s ra, OF root_of_root[OF ra]] root_of_mark[of s1 rb, OF root_of_root[OF rb]]
    by (simp_all add: s1_def s2_def del: fun_upd_apply)
  have roots: "s2 ra = Some ra" "s2 rb = Some rb" by (simp_all add: s1_def s2_def)
  define f where "f x = (THE r. root_of s2 x r)" for x
  have f: "root_of s2 x (f x)" for x
    using f2 root_of_unique[of s2] unfolding forest_def f_def by (metis theI)
  have fa: "f a = ra" "f b = rb" using f a2 root_of_unique by blast+
  have g: "root_of (s2(ra \<mapsto> rb)) x (if f x = f a then f b else f x)" for x
    using root_of_link[OF f roots] unfolding fa .
  have "f x = f y \<longleftrightarrow> (x, y) \<in> linked E" for x y using f2 f unfolding forest_def by blast
  then have link: "(if f x = f a then f b else f x) = (if f y = f a then f b else f y) \<longleftrightarrow> (x, y) \<in> linked (insert (a, b) E)" for x y
    by (rule linked_insert) simp
  have "forest (insert (a, b) E) (s2(ra \<mapsto> rb))"
    unfolding forest_def
  proof (intro conjI allI impI)
    fix x y r r' assume "root_of (s2(ra \<mapsto> rb)) x r" "root_of (s2(ra \<mapsto> rb)) y r'"
    then have "r = (if f x = f a then f b else f x)" "r' = (if f y = f a then f b else f y)"
      using root_of_unique[OF g] by blast+
    then show "r = r' \<longleftrightarrow> (x, y) \<in> linked (insert (a, b) E)" using link by simp
  qed (use g in blast)
  moreover have "join_alias a b s = Some (s2(ra \<mapsto> rb))"
    using find_root[OF ra] find_root[OF rb] by (simp add: join_alias_def s1_def s2_def)
  ultimately show ?thesis by blast
qed

subsection \<open>The loops\<close>

text \<open>The links the records name, from what has been ranged over.\<close>

definition alias_links :: "(string \<rightharpoonup> osv_record) \<Rightarrow> string \<Rightarrow> string list \<Rightarrow> (string \<times> string) set" where
  "alias_links recs vid as = {(a, vid) | a. a \<in> set as \<and> \<not> withdrawn_in recs a}"

definition live :: "(string \<rightharpoonup> osv_record) \<Rightarrow> string set" where
  "live recs = {vid. \<exists>r. recs vid = Some r \<and> \<not> orWithdrawn r}"

definition record_links :: "(string \<rightharpoonup> osv_record) \<Rightarrow> (string \<times> string) set" where
  "record_links recs = {(a, vid). \<exists>r. recs vid = Some r \<and> \<not> orWithdrawn r \<and> a \<in> set (orAliases r) \<and> \<not> withdrawn_in recs a}"

lemma alias_loop_forest:
  assumes "forest E s"
  shows "\<exists>s'. alias_loop recs vid as s = Some s' \<and> forest (alias_links recs vid as \<union> E) s'"
  using assms
proof (induction as arbitrary: E s)
  case Nil
  then show ?case by (simp add: alias_links_def)
next
  case (Cons a as)
  show ?case
  proof (cases "withdrawn_in recs a")
    case True
    then have "alias_links recs vid (a # as) = alias_links recs vid as" by (auto simp: alias_links_def)
    then show ?thesis using Cons True by simp
  next
    case False
    then have "alias_links recs vid (a # as) \<union> E = alias_links recs vid as \<union> insert (a, vid) E"
      by (auto simp: alias_links_def)
    moreover obtain s1 where "join_alias a vid s = Some s1" "forest (insert (a, vid) E) s1"
      using join_forest[OF Cons.prems] by blast
    ultimately show ?thesis using Cons.IH[of "insert (a, vid) E" s1] False by simp
  qed
qed

definition links_among :: "(string \<rightharpoonup> osv_record) \<Rightarrow> string set \<Rightarrow> (string \<times> string) set" where
  "links_among recs ids = {(a, vid) \<in> record_links recs. vid \<in> ids}"

lemma group_loop_forest:
  assumes "forest E s"
  shows "\<exists>s'. group_loop recs ids s = Some s' \<and> forest (links_among recs (set ids) \<union> E) s'"
  using assms
proof (induction ids arbitrary: E s)
  case Nil
  then show ?case by (simp add: links_among_def)
next
  case (Cons vid ids)
  consider "recs vid = None \<or> withdrawn_in recs vid" | r where "recs vid = Some r" "\<not> orWithdrawn r"
    by (cases "recs vid") (auto simp: withdrawn_in_def)
  then show ?case
  proof cases
    case 1
    then have "links_among recs (set (vid # ids)) = links_among recs (set ids)"
      by (auto simp: links_among_def record_links_def withdrawn_in_def)
    then show ?thesis using Cons 1 by (auto simp: withdrawn_in_def split: option.splits)
  next
    case 2
    then have "links_among recs (set (vid # ids)) \<union> E = links_among recs (set ids) \<union> (alias_links recs vid (orAliases r) \<union> E)"
      by (auto simp: links_among_def record_links_def alias_links_def)
    then show ?thesis using alias_loop_forest[OF Cons.prems, of recs vid "orAliases r"] Cons.IH 2 by fastforce
  qed
qed

lemma root_loop_roots:
  assumes "forest E s"
  shows "\<exists>roots. root_loop recs ids s = Some roots \<and> map fst roots = filter (\<lambda>x. x \<in> live recs) ids \<and>
    (\<forall>(x, r) \<in> set roots. root_of s x r)"
  using assms
proof (induction ids arbitrary: s)
  case (Cons vid ids)
  obtain r where r: "root_of s vid r" using Cons.prems unfolding forest_def by blast
  let ?s = "s(r \<mapsto> r)"
  have same: "root_of ?s x y \<longleftrightarrow> root_of s x y" for x y by (rule root_of_mark[of s r, OF root_of_root[OF r]])
  have "forest E ?s" by (rule forest_mark[OF Cons.prems, of r, OF root_of_root[OF r]])
  then obtain roots1 where 1: "root_loop recs ids ?s = Some roots1" "map fst roots1 = filter (\<lambda>x. x \<in> live recs) ids"
      "\<forall>(x, r) \<in> set roots1. root_of s x r"
    using Cons.IH[of ?s] unfolding same by blast
  obtain roots2 where 2: "root_loop recs ids s = Some roots2" "map fst roots2 = filter (\<lambda>x. x \<in> live recs) ids"
      "\<forall>(x, r) \<in> set roots2. root_of s x r"
    using Cons.IH[OF Cons.prems] by blast
  show ?case
  proof (cases "vid \<in> live recs")
    case True
    then show ?thesis using 1 r find_root[OF r] by (auto simp: live_def simp del: fun_upd_apply)
  next
    case False
    then show ?thesis using 2 by (auto simp: live_def split: option.splits)
  qed
qed simp

text \<open>
  The roots that come out: one for each live record, and two records have the same root exactly when
  a chain of aliases links them, whatever the orders of the two ranges.
\<close>

lemma roots_are_components:
  assumes "set order1 = dom recs" "set order2 = dom recs"
  shows "\<exists>roots. aliasRoots recs order1 order2 = Some roots \<and> fst ` set roots = live recs \<and>
    map fst roots = filter (\<lambda>x. x \<in> live recs) order2 \<and>
    (\<forall>x r y r'. (x, r) \<in> set roots \<longrightarrow> (y, r') \<in> set roots \<longrightarrow> (r = r' \<longleftrightarrow> (x, y) \<in> linked (record_links recs)))"
proof -
  obtain s where s: "group_loop recs order1 Map.empty = Some s" "forest (links_among recs (dom recs)) s"
    using group_loop_forest[OF forest_empty, of recs order1] assms(1) by auto
  have "links_among recs (dom recs) = record_links recs" by (auto simp: links_among_def record_links_def)
  with s(2) have f: "forest (record_links recs) s" by simp
  obtain roots where r: "root_loop recs order2 s = Some roots" "map fst roots = filter (\<lambda>x. x \<in> live recs) order2"
      "\<forall>(x, r) \<in> set roots. root_of s x r"
    using root_loop_roots[OF f] by blast
  have "fst ` set roots = live recs"
    using arg_cong[OF r(2), of set] assms(2) by (auto simp: live_def)
  moreover have "\<forall>x r y r'. (x, r) \<in> set roots \<longrightarrow> (y, r') \<in> set roots \<longrightarrow> (r = r' \<longleftrightarrow> (x, y) \<in> linked (record_links recs))"
  proof (intro allI impI)
    fix x ra y rb assume "(x, ra) \<in> set roots" "(y, rb) \<in> set roots"
    then have "root_of s x ra" "root_of s y rb" using r(3) by auto
    then show "ra = rb \<longleftrightarrow> (x, y) \<in> linked (record_links recs)" using f unfolding forest_def by blast
  qed
  ultimately show ?thesis using s(1) r(1,2) by (auto simp: aliasRoots_def)
qed

section \<open>The count and the worst severity\<close>

lemma drop_key_keys: "fst ` set (drop_key k m) = fst ` set m - {k}"
  by (auto simp: drop_key_def image_iff)

lemma distinct_drop_key: "distinct (map fst m) \<Longrightarrow> distinct (map fst (drop_key k m))"
  by (simp add: drop_key_def distinct_map_filter)

lemma map_of_drop_key: "map_of (drop_key k m) x = (if x = k then None else map_of m x)"
  by (induction m) (auto simp: drop_key_def)

text \<open>What the walk over the roots has gathered: each group once, under the worst severity of its records.\<close>

definition groups_of :: "(string \<rightharpoonup> osv_record) \<Rightarrow> (string \<times> string) set \<Rightarrow> (string \<times> string) list \<Rightarrow> bool" where
  "groups_of recs seen groups \<longleftrightarrow> distinct (map fst groups) \<and> fst ` set groups = snd ` seen \<and>
     (\<forall>(vid, root) \<in> seen. \<exists>s. map_of groups root = Some s \<and> severityRank (severity_in recs vid) \<le> severityRank s) \<and>
     (\<forall>(root, s) \<in> set groups. \<exists>vid. (vid, root) \<in> seen \<and> s = severity_in recs vid)"

lemma groups_ofD:
  "groups_of recs seen groups \<Longrightarrow> (v, r) \<in> seen \<Longrightarrow> \<exists>s. map_of groups r = Some s \<and> severityRank (severity_in recs v) \<le> severityRank s"
  by (auto simp: groups_of_def)

lemma groups_ofD2: "groups_of recs seen groups \<Longrightarrow> (r, s) \<in> set groups \<Longrightarrow> \<exists>v. (v, r) \<in> seen \<and> s = severity_in recs v"
  by (auto simp: groups_of_def)

lemma severityRank_empty [simp]: "severityRank '''' = 0" by (simp add: severityRank_def)

lemma group_severity_step:
  assumes "groups_of recs seen groups"
  shows "groups_of recs (insert e seen) (group_severity recs e groups)"
proof -
  obtain vid root where e: "e = (vid, root)" by (cases e)
  let ?sev = "severity_in recs vid"
  let ?cur = "case map_of groups root of None \<Rightarrow> '''' | Some s \<Rightarrow> s"
  note g = assms[unfolded groups_of_def]
  show ?thesis
  proof (cases "severityRank ?sev \<ge> severityRank ?cur")
    case True
    have "\<exists>s'. map_of ((root, ?sev) # drop_key root groups) r = Some s' \<and> severityRank (severity_in recs v) \<le> severityRank s'"
      if vr: "(v, r) \<in> seen" for v r
    proof -
      obtain s where s: "map_of groups r = Some s" "severityRank (severity_in recs v) \<le> severityRank s"
        using groups_ofD[OF assms vr] by blast
      then show ?thesis using True by (cases "r = root") (auto simp: map_of_drop_key)
    qed
    then show ?thesis
      using g True unfolding groups_of_def e group_severity_def
      by (auto simp: drop_key_keys distinct_drop_key) (auto simp: drop_key_def)
  next
    case False
    then obtain s where s: "map_of groups root = Some s" "severityRank ?sev < severityRank s"
      by (auto simp: not_le split: option.splits)
    then have "root \<in> fst ` set groups" by (metis domI dom_map_of_conv_image_fst)
    then have "snd ` insert e seen = snd ` seen" using g by (simp add: e insert_absorb)
    moreover have "group_severity recs e groups = groups" using False by (simp add: e group_severity_def)
    moreover have "\<exists>s. map_of groups r = Some s \<and> severityRank (severity_in recs v) \<le> severityRank s"
      if "(v, r) \<in> insert e seen" for v r
    proof (cases "(v, r) = e")
      case True
      then show ?thesis using s by (intro exI[of _ s]) (simp add: e)
    next
      case False
      then show ?thesis using groups_ofD[OF assms, of v r] that by blast
    qed
    moreover have "\<exists>v. (v, r) \<in> insert e seen \<and> s = severity_in recs v" if "(r, s) \<in> set groups" for r s
      using groups_ofD2[OF assms that] by blast
    ultimately show ?thesis using g by (simp add: groups_of_def split_beta)
  qed
qed

lemma group_severity_fold:
  "groups_of recs seen groups \<Longrightarrow> groups_of recs (set es \<union> seen) (fold (group_severity recs) es groups)"
proof (induction es arbitrary: seen groups)
  case (Cons e es)
  from Cons.IH[OF group_severity_step[OF Cons.prems, of e]] show ?case by simp
qed simp

lemma worst_of_groups:
  fixes groups :: "(string \<times> string) list"
  defines "worst \<equiv> \<lambda>gs h. fold (\<lambda>(_ :: string, sev) highest. if severityRank sev > severityRank highest then sev else highest) gs h"
  shows "severityRank h \<le> severityRank (worst groups h) \<and> (\<forall>(r, s)\<in>set groups. severityRank s \<le> severityRank (worst groups h)) \<and>
    (worst groups h = h \<or> worst groups h \<in> snd ` set groups)"
proof (induction groups arbitrary: h)
  case (Cons g gs)
  obtain r s where g: "g = (r, s)" by (cases g)
  let ?h = "if severityRank s > severityRank h then s else h"
  have "worst (g # gs) h = worst gs ?h" by (simp add: worst_def g)
  then show ?case using Cons.IH[of ?h] g by (auto split: if_splits)
qed (simp add: worst_def)

lemma card_by_kernel:
  assumes "\<And>x r y r'. (x, r) \<in> S \<Longrightarrow> (y, r') \<in> S \<Longrightarrow> r = r' \<longleftrightarrow> h x = h y"
  shows "card (snd ` S) = card (h ` fst ` S)"
proof -
  define pick where "pick r = (SOME x. (x, r) \<in> S)" for r
  have pick: "(pick r, r) \<in> S" if rS: "r \<in> snd ` S" for r
  proof -
    obtain x where "(x, r) \<in> S" using rS by force
    then show ?thesis unfolding pick_def by (rule someI)
  qed
  have "bij_betw (h \<circ> pick) (snd ` S) (h ` fst ` S)"
    unfolding bij_betw_def
  proof
    show "inj_on (h \<circ> pick) (snd ` S)"
    proof (rule inj_onI)
      fix r r' assume "r \<in> snd ` S" "r' \<in> snd ` S" "(h \<circ> pick) r = (h \<circ> pick) r'"
      then show "r = r'" using assms[OF pick pick, of r r'] by simp
    qed
    have "h x = h (pick r)" if "(x, r) \<in> S" for x r
      using assms[OF that pick] that by (metis image_eqI snd_conv)
    then have "h x = (h \<circ> pick) r" if "(x, r) \<in> S" for x r using that by simp
    then have "h ` fst ` S = (h \<circ> pick) ` snd ` S" by (auto simp: image_image intro!: image_cong)
    then show "(h \<circ> pick) ` snd ` S = h ` fst ` S" ..
  qed
  then show ?thesis by (rule bij_betw_same_card)
qed

text \<open>The advisories: classes of live records linked by aliases.\<close>

definition advisories :: "(string \<rightharpoonup> osv_record) \<Rightarrow> string set set" where
  "advisories recs = (\<lambda>x. {y \<in> live recs. (x, y) \<in> linked (record_links recs)}) ` live recs"

lemma card_roots:
  assumes "fst ` set roots = live recs"
    "\<forall>x r y r'. (x, r) \<in> set roots \<longrightarrow> (y, r') \<in> set roots \<longrightarrow> (r = r' \<longleftrightarrow> (x, y) \<in> linked (record_links recs))"
  shows "card (snd ` set roots) = card (advisories recs)"
proof -
  let ?h = "\<lambda>x. {y \<in> live recs. (x, y) \<in> linked (record_links recs)}"
  have "r = r' \<longleftrightarrow> ?h x = ?h y" if "(x, r) \<in> set roots" "(y, r') \<in> set roots" for x r y r'
  proof -
    have l: "r = r' \<longleftrightarrow> (x, y) \<in> linked (record_links recs)" using assms(2) that by blast
    have "y \<in> live recs" using assms(1) that by force
    moreover have "?h x = ?h y" if "(x, y) \<in> linked (record_links recs)" using that linked_trans linked_sym by blast
    moreover have "(x, y) \<in> linked (record_links recs)" if "?h x = ?h y"
    proof -
      have "y \<in> ?h y" using \<open>y \<in> live recs\<close> by simp
      then show ?thesis unfolding that[symmetric] by simp
    qed
    ultimately show ?thesis unfolding l by blast
  qed
  then have "card (snd ` set roots) = card (?h ` fst ` set roots)" by (rule card_by_kernel)
  then show ?thesis by (simp add: advisories_def assms(1))
qed

lemma summarise_roots:
  assumes "fst ` set roots = live recs"
    "\<forall>x r y r'. (x, r) \<in> set roots \<longrightarrow> (y, r') \<in> set roots \<longrightarrow> (r = r' \<longleftrightarrow> (x, y) \<in> linked (record_links recs))"
  shows "smCount (summarise recs roots) = card (advisories recs)"
    "\<forall>x\<in>live recs. severityRank (severity_in recs x) \<le> severityRank (smHighest (summarise recs roots))"
    "smHighest (summarise recs roots) \<in> insert '''' (severity_in recs ` live recs)"
proof -
  let ?g = "fold (group_severity recs) roots []"
  have g: "groups_of recs (set roots) ?g"
  proof -
    have "groups_of recs {} []" by (simp add: groups_of_def)
    from group_severity_fold[OF this, of roots] show ?thesis by (simp only: Un_empty_right)
  qed
  have "length ?g = card (fst ` set ?g)" using g distinct_card[of "map fst ?g"] by (simp add: groups_of_def)
  also have "\<dots> = card (snd ` set roots)" using g by (simp add: groups_of_def)
  finally show "smCount (summarise recs roots) = card (advisories recs)"
    using card_roots[OF assms] by (simp add: summarise_def summarise_groups_def)
  note w = worst_of_groups[of "''''" ?g]
  show "\<forall>x\<in>live recs. severityRank (severity_in recs x) \<le> severityRank (smHighest (summarise recs roots))"
  proof
    fix x assume "x \<in> live recs"
    then obtain r where "(x, r) \<in> set roots" using assms(1) by force
    then obtain s where s: "map_of ?g r = Some s" "severityRank (severity_in recs x) \<le> severityRank s"
      using groups_ofD[OF g] by blast
    then show "severityRank (severity_in recs x) \<le> severityRank (smHighest (summarise recs roots))"
      using w map_of_SomeD[OF s(1)] by (fastforce simp: summarise_def summarise_groups_def)
  qed
  show "smHighest (summarise recs roots) \<in> insert '''' (severity_in recs ` live recs)"
  proof -
    have "s \<in> severity_in recs ` live recs" if rs: "(r, s) \<in> set ?g" for r s
    proof -
      obtain v where "(v, r) \<in> set roots" "s = severity_in recs v" using groups_ofD2[OF g rs] by blast
      moreover from this have "v \<in> live recs" unfolding assms(1)[symmetric] by force
      ultimately show ?thesis by blast
    qed
    then have "snd ` set ?g \<subseteq> severity_in recs ` live recs" by auto
    then show ?thesis using w by (auto simp: summarise_def summarise_groups_def)
  qed
qed

section \<open>A scan\<close>

lemma loadRecords_dom:
  "loadRecords fetch now ids cache = (Inr recs, cache') \<Longrightarrow> dom recs = set ids"
proof (induction ids arbitrary: cache recs)
  case (Cons vid ids)
  then obtain r recs1 cache1 where "loadRecords fetch now ids cache1 = (Inr recs1, cache')" "recs = recs1(vid \<mapsto> r)"
    by (auto split: prod.splits sum.splits)
  then show ?case using Cons.IH[of cache1 recs1] by (simp only: dom_fun_upd option.distinct if_False list.set)
qed simp

lemma match_dom:
  "osv_match api now pkgs cache = (Inr (ids, recs, hits), n, cache') \<Longrightarrow> dom recs = set ids"
  by (auto simp: osv_match_def Let_def split: if_splits prod.splits sum.splits dest: loadRecords_dom)

text \<open>However Go ranges over the records, each is visited.\<close>

definition ranges :: "(string list \<Rightarrow> string list \<times> string list) \<Rightarrow> bool" where
  "ranges order \<longleftrightarrow> (\<forall>ids. set (fst (order ids)) = set ids \<and> set (snd (order ids)) = set ids)"

lemma scan_roots:
  assumes "osv_match api now pkgs cache = (Inr (ids, recs, hits), n, cache')" "ranges order"
  obtains roots where "aliasRoots recs (fst (order ids)) (snd (order ids)) = Some roots" "fst ` set roots = live recs"
    "\<forall>x r y r'. (x, r) \<in> set roots \<longrightarrow> (y, r') \<in> set roots \<longrightarrow> (r = r' \<longleftrightarrow> (x, y) \<in> linked (record_links recs))"
  using roots_are_components[of "fst (order ids)" recs "snd (order ids)"] match_dom[OF assms(1)] assms(2)
  unfolding ranges_def by auto

lemma scan_counts:
  assumes "osv_match api now pkgs cache = (Inr (ids, recs, hits), n, cache')" "ranges order"
  shows "\<exists>sum. Scan api order now pkgs cache =
      (Some (if card (advisories recs) > maxAdvisories then Inl ErrTooMany else Inr sum), n, cache') \<and>
    smCount sum = card (advisories recs) \<and>
    (\<forall>x. x \<in> live recs \<longrightarrow> severityRank (severity_in recs x) \<le> severityRank (smHighest sum)) \<and>
    smHighest sum \<in> insert '''' (severity_in recs ` live recs)"
proof -
  obtain roots where r: "aliasRoots recs (fst (order ids)) (snd (order ids)) = Some roots" "fst ` set roots = live recs"
    "\<forall>x r y r'. (x, r) \<in> set roots \<longrightarrow> (y, r') \<in> set roots \<longrightarrow> (r = r' \<longleftrightarrow> (x, y) \<in> linked (record_links recs))"
    by (rule scan_roots[OF assms])
  show ?thesis
    using summarise_roots[OF r(2,3)] by (intro exI[of _ "summarise recs roots"]) (simp add: Scan_def assms(1) r(1) Let_def)
qed

lemma root_groups_keys:
  assumes "distinct (map fst groups)"
  shows "distinct (map fst (root_groups es groups)) \<and> fst ` set (root_groups es groups) = snd ` set es \<union> fst ` set groups"
  using assms
proof (induction es groups rule: root_groups.induct)
  case (2 vid root es groups)
  show ?case
  proof (cases "map_of groups root")
    case None
    then have "root \<notin> fst ` set groups" by (simp add: map_of_eq_None_iff)
    then show ?thesis using 2 None by auto
  next
    case (Some ids)
    let ?g = "map (\<lambda>(r, is'). if r = root then (r, is' @ [vid]) else (r, is')) groups"
    have keys: "map fst ?g = map fst groups" by (auto simp: split_beta)
    then have sets: "fst ` set ?g = fst ` set groups" by (metis set_map)
    have "root \<in> fst ` set groups" using Some by (metis domI dom_map_of_conv_image_fst)
    have "distinct (map fst ?g)" unfolding keys by (rule 2)
    from 2(1)[unfolded Some option.case, OF this]
    have "distinct (map fst (root_groups es ?g)) \<and> fst ` set (root_groups es ?g) = snd ` set es \<union> fst ` set groups"
      unfolding sets .
    moreover have "root_groups ((vid, root) # es) groups = root_groups es ?g" using Some by simp
    ultimately show ?thesis using \<open>root \<in> fst ` set groups\<close> by (simp add: insert_absorb)
  qed
qed simp

lemma find_counts:
  assumes "osv_match api now pkgs cache = (Inr (ids, recs, hits), n, cache')" "ranges order"
  shows "\<exists>fs. Find lib api order now pkgs cache =
      (Some (if card (advisories recs) > maxAdvisories then Inl ErrTooMany else Inr fs), n, cache') \<and>
    length fs = card (advisories recs)"
proof -
  obtain roots where r: "aliasRoots recs (fst (order ids)) (snd (order ids)) = Some roots" "fst ` set roots = live recs"
    "\<forall>x r y r'. (x, r) \<in> set roots \<longrightarrow> (y, r') \<in> set roots \<longrightarrow> (r = r' \<longleftrightarrow> (x, y) \<in> linked (record_links recs))"
    by (rule scan_roots[OF assms])
  have g: "distinct (map fst (root_groups roots []))" "fst ` set (root_groups roots []) = snd ` set roots"
    using root_groups_keys[of "[]" roots] by auto
  have "length (root_groups roots []) = card (fst ` set (root_groups roots []))" using distinct_card[OF g(1)] by simp
  then have len: "length (root_groups roots []) = card (advisories recs)" using g(2) card_roots[OF r(2,3)] by simp
  let ?fs = "sort_key fiID (map (\<lambda>(_, ids). buildFinding lib (sort ids) recs hits) (root_groups roots []))"
  have "length ?fs = card (advisories recs)" using len by simp
  then show ?thesis by (intro exI[of _ ?fs]) (simp add: Find_def assms(1) r(1) Let_def len)
qed

text \<open>
  C32: A scan that read its records counts each advisory once: the count is that of the classes of live records
  linked, through any chain, by aliases that are not withdrawn, and the severity is the worst any of
  them states. It always returns, whatever the order Go ranges in.
\<close>

theorem advisories_counted_once:
  assumes "osv_match api now pkgs cache = (Inr (ids, recs, hits), n, cache')" "ranges order"
  shows "\<exists>sum. Scan api order now pkgs cache =
      (Some (if card (advisories recs) > maxAdvisories then Inl ErrTooMany else Inr sum), n, cache') \<and>
    smCount sum = card (advisories recs) \<and>
    (\<forall>x. x \<in> live recs \<longrightarrow> severityRank (severity_in recs x) \<le> severityRank (smHighest sum)) \<and>
    smHighest sum \<in> insert '''' (severity_in recs ` live recs)"
  by (rule scan_counts[OF assms])

text \<open>
  The dialog's list agrees with the badge: over the same answers, \<open>Find\<close> fails exactly when \<open>Scan\<close> does,
  and lists as many findings as \<open>Scan\<close> counts, in whatever orders each of them ranges.
\<close>

theorem findings_match_count:
  assumes "ranges order" "ranges order'" "Scan api order now pkgs cache = (Some result, n, cache')"
  shows "case result of
      Inl e \<Rightarrow> Find lib api order' now pkgs cache = (Some (Inl e), n, cache')
    | Inr sm \<Rightarrow> \<exists>fs. Find lib api order' now pkgs cache = (Some (Inr fs), n, cache') \<and> length fs = smCount sm"
proof (cases "osv_match api now pkgs cache")
  case (fields res m cache1)
  show ?thesis
  proof (cases res)
    case (Inl e)
    then show ?thesis using fields assms(3) by (auto simp: Scan_def Find_def)
  next
    case (Inr x)
    then obtain ids recs hits where m: "osv_match api now pkgs cache = (Inr (ids, recs, hits), m, cache1)"
      using fields by (cases x) auto
    show ?thesis
      using scan_counts[OF m assms(1)] find_counts[OF m assms(2), of lib] assms(3) by (auto split: if_splits)
  qed
qed

section \<open>What a scan may cost\<close>

lemma query_pages_cost: "snd (query_pages ask pages qs n h) \<le> n + pages"
proof (induction ask pages qs n h rule: query_pages.induct)
  case (2 ask pages qs n h)
  show ?case
  proof (cases "ask n (map fst qs)")
    case (Inr results)
    obtain qs' h' where c: "collect_results qs results h = (qs', h')" by fastforce
    show ?thesis
      using 2[OF Inr _ c[symmetric] refl] Inr c by auto
  qed simp
qed simp

lemma query_all_cost: "snd (query_all ask pkgs n h) \<le> n + maxPages * ((length pkgs + 499) div 500)"
proof (induction ask pkgs n h rule: query_all.induct)
  case (1 ask pkgs n h)
  obtain r m where q: "queryBatch ask (take batchSize pkgs) n h = (r, m)" by fastforce
  have m: "m \<le> n + maxPages"
    using query_pages_cost[of ask maxPages "map (\<lambda>p. (query_of p, p)) (take batchSize pkgs)" n h] q by (simp add: queryBatch_def)
  show ?case
  proof (cases "pkgs = []")
    case True
    then show ?thesis by (simp add: query_all.simps)
  next
    case False
    then have pos: "length pkgs > 0" by simp
    have "Suc ((k - 500 + 499) div 500) \<le> (k + 499) div 500" if k: "k > 0" for k :: nat
    proof (cases "k \<ge> 500")
      case True
      then have "k + 499 = (k - 500 + 499) + 500" by simp
      then have "(k + 499) div 500 = Suc ((k - 500 + 499) div 500)" by simp
      then show ?thesis by simp
    next
      case False
      then show ?thesis using div_le_mono[of 500 "k + 499" 500] k by simp
    qed
    from this[OF pos] have d: "Suc ((length pkgs - 500 + 499) div 500) \<le> (length pkgs + 499) div 500" .
    have d': "maxPages + maxPages * ((length pkgs - 500 + 499) div 500) \<le> maxPages * ((length pkgs + 499) div 500)"
      using mult_le_mono2[OF d, of maxPages] by simp
    show ?thesis
    proof (cases r)
      case (Inl e)
      then show ?thesis using False q m d' by (simp add: query_all.simps[of ask pkgs])
    next
      case (Inr h')
      have "snd (query_all ask (drop batchSize pkgs) m h') \<le> m + maxPages * ((length pkgs - 500 + 499) div 500)"
        using 1[OF False q[symmetric] Inr] by (simp add: batchSize_def)
      then show ?thesis using False q Inr m d' by (simp add: query_all.simps[of ask pkgs])
    qed
  qed
qed

lemma remember_bound: "length (remember now vid r cache) \<le> maxCachedRecords"
proof -
  define swept where "swept = (if length cache \<ge> maxCachedRecords
            then (let kept = filter (\<lambda>(_, _, expires). now < expires) cache
                  in if length kept \<ge> maxCachedRecords then [] else kept)
            else cache)"
  have "length swept < maxCachedRecords"
    by (simp add: swept_def Let_def not_le) (simp add: maxCachedRecords_def)
  moreover have "length (drop_key vid swept) \<le> length swept" by (simp add: drop_key_def)
  moreover have "length (remember now vid r cache) = Suc (length (drop_key vid swept))"
    by (simp add: remember_def swept_def)
  ultimately show ?thesis by simp
qed

lemma loadRecords_bound:
  "length cache \<le> maxCachedRecords \<Longrightarrow> length (snd (loadRecords fetch now ids cache)) \<le> maxCachedRecords"
proof (induction ids arbitrary: cache)
  case (Cons vid ids)
  have "length (snd (client_record fetch now vid cache)) \<le> maxCachedRecords"
    using Cons.prems remember_bound by (simp add: client_record_def split: option.split sum.split prod.split)
  moreover obtain r cache1 where "client_record fetch now vid cache = (r, cache1)" by fastforce
  moreover obtain rs cache2 where "loadRecords fetch now ids cache1 = (rs, cache2)" by fastforce
  ultimately show ?case using Cons.IH[of cache1] by (cases r; cases rs) simp_all
qed simp

text \<open>
  A scan sends at most thirty batch requests, whatever the lock file and the answers, and the cache of
  records never outgrows its bound.
\<close>

theorem scan_is_bounded:
  assumes "length cache \<le> maxCachedRecords" "Scan api order now pkgs cache = (result, n, cache')"
  shows "n \<le> 30" "length cache' \<le> maxCachedRecords"
proof -
  let ?p = "distinct_packages pkgs"
  have "n \<le> 30 \<and> length cache' \<le> maxCachedRecords" if "osv_match api now pkgs cache = (res, n, cache')" for res
  proof (cases "length ?p > MaxPackages")
    case False
    have "maxPages * ((length ?p + 499) div 500) \<le> 5 * (3499 div 500)"
      using False unfolding maxPages_def MaxPackages_def by (intro mult_le_mono div_le_mono) auto
    then have "snd (query_all (apAsk api) ?p 0 \<lparr>shIds = [], shHits = \<lambda>_. []\<rparr>) \<le> 30"
      using query_all_cost[of "apAsk api" ?p 0 "\<lparr>shIds = [], shHits = \<lambda>_. []\<rparr>"] by simp
    then show ?thesis
      using that False assms(1) loadRecords_bound[OF assms(1), of "apFetch api" now]
      by (auto simp: osv_match_def Let_def split: prod.splits sum.splits if_splits) (metis snd_conv)+
  qed (use that assms(1) in \<open>auto simp: osv_match_def Let_def\<close>)
  then show "n \<le> 30" "length cache' \<le> maxCachedRecords"
    using assms(2) by (auto simp: Scan_def Let_def split: prod.splits sum.splits option.splits)
qed

section \<open>A scan of two packages\<close>

text \<open>Three records: an advisory under two ids, and one that was withdrawn.\<close>

definition demo_record :: "string list \<Rightarrow> string \<Rightarrow> bool \<Rightarrow> osv_record" where
  "demo_record aliases sev gone = \<lparr>orAliases = aliases, orSeverity = sev, orWithdrawn = gone, orSummary = '''', orDetails = '''',
     orPublished = '''', orVectors = [], orCwes = [], orReferences = [], orAffected = []\<rparr>"

definition demo_fetch :: "string \<Rightarrow> osv_error + osv_record" where
  "demo_fetch vid = Inr (if vid = ''G'' then demo_record [''C''] ''high'' False
     else if vid = ''P'' then demo_record [''C''] ''low'' False else demo_record [''G'', ''P''] ''critical'' True)"

definition demo_api :: osv_api where
  "demo_api = \<lparr>apAsk = (\<lambda>n qs. Inr (map (\<lambda>q. \<lparr>brVulns = [''G'', ''P'', ''W''], brNextPageToken = ''''\<rparr>) qs)),
     apFetch = demo_fetch\<rparr>"

definition demo_order :: "string list \<Rightarrow> string list \<times> string list" where
  "demo_order ids = (rev ids, ids)"

definition demo_pkgs :: "osv_package list" where
  "demo_pkgs = [osv_pkg ''npm'' ''left'' ''1.0'', osv_pkg ''npm'' ''left'' ''1.0'']"

lemma demo_order_ranges: "ranges demo_order" "ranges (\<lambda>ids. (ids, ids))"
  by (simp_all add: ranges_def demo_order_def)

lemma demo_scan:
  "fst (Scan demo_api demo_order 0 demo_pkgs []) = Some (Inr \<lparr>smCount = 1, smHighest = ''high''\<rparr>)"
  "fst (snd (Scan demo_api demo_order 0 demo_pkgs [])) = 1"
  by code_simp+

lemma demo_scan_all:
  obtains n cache where "Scan demo_api demo_order 0 demo_pkgs [] = (Some (Inr \<lparr>smCount = 1, smHighest = ''high''\<rparr>), n, cache)"
  using demo_scan(1) by (metis prod.collapse)

lemma advisories_counted_once_witness:
  "\<exists>recs hits n cache. osv_match demo_api 0 demo_pkgs [] = (Inr ([''G'', ''P'', ''W''], recs, hits), n, cache) \<and>
     card (advisories recs) = 1"
proof -
  obtain n c where s: "Scan demo_api demo_order 0 demo_pkgs [] = (Some (Inr \<lparr>smCount = 1, smHighest = ''high''\<rparr>), n, c)"
    by (rule demo_scan_all)
  have ids: "map_sum (\<lambda>_. ()) fst (fst (osv_match demo_api 0 demo_pkgs [])) = Inr [''G'', ''P'', ''W'']" by code_simp
  then obtain recs hits m c' where m: "osv_match demo_api 0 demo_pkgs [] = (Inr ([''G'', ''P'', ''W''], recs, hits), m, c')"
    by (cases "osv_match demo_api 0 demo_pkgs []"; cases "fst (osv_match demo_api 0 demo_pkgs [])") auto
  from advisories_counted_once[OF m demo_order_ranges(1)] s show ?thesis using m by (auto split: if_splits)
qed

lemma findings_match_count_witness:
  "\<exists>fs. fst (Find (\<lambda>_ _. None) demo_api (\<lambda>ids. (ids, ids)) 0 demo_pkgs []) = Some (Inr fs) \<and> length fs = 1"
proof -
  obtain n c where s: "Scan demo_api demo_order 0 demo_pkgs [] = (Some (Inr \<lparr>smCount = 1, smHighest = ''high''\<rparr>), n, c)"
    by (rule demo_scan_all)
  from findings_match_count[OF demo_order_ranges s, of "\<lambda>_ _. None"] show ?thesis by auto
qed

end
