(* ===== verification/Generic_Source.thy ===== *)
theory Generic_Source
  imports Snapshot_Merge Action_Refusal
begin

text \<open>
  \<open>generic_source.go\<close>: the source that drives a forge's client, Forgejo's in this program. The
  client's methods are functions of their arguments; one it lacks (the code finds that by a
  type assertion) is \<open>None\<close>. The fetches of one refresh run at the same time and answer by position, so they are a map
  over the repositories.
\<close>

section \<open>The client\<close>

record source_repo =
  rrFullName :: string
  rrOwner :: string
  rrName :: string
  rrURL :: string
  rrLogoURL :: string
  rrCanManageWebhooks :: bool
  rrWebhookLockedByConnection :: bool
  rrWebhookNeedsToken :: bool
  rrDefaultBranch :: string

datatype branch_skip_reason = SkipFork | SkipDefaultBranch | SkipProtected | SkipInUse | SkipUnsupported
datatype branch_deletion = BranchDeleted | BranchSkipped branch_skip_reason | BranchDeleteFailed

text \<open>One pull request or issue: owner, name, number.\<close>

type_synonym item = "string \<times> string \<times> int"

type_synonym 'a action = "('a \<Rightarrow> go_error option) option"
type_synonym ('a, 'b) reader = "('a \<Rightarrow> go_error + 'b) option"

text \<open>
  The checks, logs and details a client answers are only passed on, so their types are parameters.
\<close>

record ('log, 'pd, 'idt, 'rd) forge_client =
  fcListRepos :: "go_error + source_repo list"
  fcListOpenPullRequests :: "string \<Rightarrow> string \<Rightarrow> string \<Rightarrow> pull_request list \<times> go_error option"
  fcListOpenIssues :: "string \<Rightarrow> string \<Rightarrow> string \<Rightarrow> issue list \<times> go_error option"
  fcRateLimit :: "(go_error + rate_limit) option"
  fcHasWebhook :: "(string \<Rightarrow> string \<Rightarrow> bool \<times> go_error option) option"
  fcReadMainBranch :: "(source_repo, main_branch) reader"
  fcEnsureWebhook :: "(string \<times> string \<times> string \<times> string) action"
  fcUpgradeWebhook :: "(string \<times> string \<times> string \<times> string, bool) reader"
  fcMerge :: "item action"
  fcDeleteBranch :: "(item \<Rightarrow> branch_deletion) option"
  fcReadState :: "(item \<Rightarrow> pull_request_state \<times> go_error option) option"
  fcUpdateBranch :: "(item \<Rightarrow> bool \<times> go_error option) option"
  fcClose :: "item action"
  fcReopen :: "item action"
  fcCloseIssue :: "item action"
  fcReopenIssue :: "item action"
  fcCommentIssue :: "(item \<times> string) action"
  fcDisableAutoMerge :: "item action"
  fcListChecks :: "(item, check list) reader"
  fcListDefaultBranchChecks :: "(string \<times> string, check list) reader"
  fcJobLog :: "(item, 'log) reader"
  fcJobExcerpt :: "(item, string) reader"
  fcAddLabel :: "(item \<times> string) action"
  fcBody :: "(item, string) reader"
  fcSetBody :: "(item \<times> string) action"
  fcPullRequestDetails :: "(item, 'pd) reader"
  fcIssueDetails :: "(item, 'idt) reader"
  fcReleaseDetails :: "(string \<times> string \<times> string, 'rd) reader"
  fcRerunFailed :: "item action"
  fcRerunFailedBranch :: "(string \<times> string \<times> string) action"
  fcRerunBlocked :: "string option"
  fcCancelRun :: "item action"

section \<open>Fetching\<close>

text \<open>A closing keyword acts only on the default branch; with none known the forge's answer stands.\<close>

definition closesOnlyOnDefaultBranch :: "pull_request list \<Rightarrow> string \<Rightarrow> pull_request list" where
  "closesOnlyOnDefaultBranch prs defaultBranch =
     (if defaultBranch = '''' then prs
      else map (\<lambda>pr. if prBaseBranch pr \<noteq> defaultBranch then pr\<lparr>prClosesIssues := []\<rparr> else pr) prs)"

record repo_result =
  rsPrs :: "pull_request list"
  rsIssues :: "issue list"
  rsHasWebhook :: bool
  rsPrsFailed :: bool
  rsIssuesFailed :: bool
  rsBranch :: "main_branch option"
  rsBranchFailed :: bool

definition fetchRepo :: "('l, 'p, 'i, 'r) forge_client \<Rightarrow> source_repo \<Rightarrow> repo_result" where
  "fetchRepo c repo =
     (let prs = fcListOpenPullRequests c (rrOwner repo) (rrName repo) (rrFullName repo);
          issues = fcListOpenIssues c (rrOwner repo) (rrName repo) (rrFullName repo);
          res = \<lparr>rsPrs = closesOnlyOnDefaultBranch (fst prs) (rrDefaultBranch repo), rsIssues = fst issues,
                 rsHasWebhook = (case fcHasWebhook c of None \<Rightarrow> False | Some f \<Rightarrow> fst (f (rrOwner repo) (rrName repo))),
                 rsPrsFailed = (snd prs \<noteq> None), rsIssuesFailed = (snd issues \<noteq> None), rsBranch = None, rsBranchFailed = False\<rparr>
      in case fcReadMainBranch c of
           None \<Rightarrow> res
         | Some read \<Rightarrow> (case read repo of
             Inl _ \<Rightarrow> res\<lparr>rsBranchFailed := True\<rparr>
           | Inr branch \<Rightarrow> res\<lparr>rsBranch := Some branch\<rparr>))"

definition fetchRepos :: "('l, 'p, 'i, 'r) forge_client \<Rightarrow> source_repo list \<Rightarrow> repo_result list" where
  "fetchRepos c repos = map (fetchRepo c) repos"

definition remember_ref :: "source_repo \<Rightarrow> (string \<rightharpoonup> source_repo) \<Rightarrow> string \<rightharpoonup> source_repo" where
  "remember_ref r refs = refs(rrFullName r \<mapsto> r)"

definition rememberRepos :: "source_repo list \<Rightarrow> string \<rightharpoonup> source_repo" where
  "rememberRepos repos = fold remember_ref repos Map.empty"

definition unreachable_result :: "forge \<Rightarrow> go_error \<Rightarrow> fetch_result" where
  "unreachable_result forge err =
     (let kind = (case errClient err of Some ce \<Rightarrow> ceKind ce | None \<Rightarrow> ForgeErrorUnknown)
      in no_rows (zero_health\<lparr>fhForge := forge, fhReachable := False, fhError := HumanizeForgeError kind,
           fhErrorKind := Some kind\<rparr>))"

definition source_repo_row :: "forge \<Rightarrow> source_repo \<Rightarrow> repo_result \<Rightarrow> repo" where
  "source_repo_row forge r res = \<lparr>rpForge = forge, rpFullName = rrFullName r, rpURL = rrURL r, rpLogoURL = rrLogoURL r,
     rpHasWebhook = rsHasWebhook res, rpCanManageWebhooks = rrCanManageWebhooks r,
     rpWebhookLockedByConnection = rrWebhookLockedByConnection r, rpWebhookNeedsToken = rrWebhookNeedsToken r,
     rpStaleSince = None, rpFailingSince = None\<rparr>"

definition named_branch :: "forge \<Rightarrow> source_repo \<Rightarrow> main_branch \<Rightarrow> main_branch" where
  "named_branch forge r b = b\<lparr>mbForge := forge, mbFullName := rrFullName r, mbURL := rrURL r\<rparr>"

definition branch_rows :: "forge \<Rightarrow> source_repo \<Rightarrow> repo_result \<Rightarrow> main_branch list" where
  "branch_rows forge r res = (case rsBranch res of None \<Rightarrow> [] | Some b \<Rightarrow> [named_branch forge r b])"

definition failed_rows :: "source_repo \<Rightarrow> repo_result \<Rightarrow> failed_repo list" where
  "failed_rows r res = (if rsPrsFailed res \<or> rsIssuesFailed res \<or> rsBranchFailed res
     then [\<lparr>flFullName = rrFullName r, flPullRequests = rsPrsFailed res, flIssues = rsIssuesFailed res,
            flMainBranch = rsBranchFailed res\<rparr>] else [])"

text \<open>\<open>Fetch\<close>: the result, and the repositories remembered for scoped reads.\<close>

definition Fetch :: "forge \<Rightarrow> ('l, 'p, 'i, 'r) forge_client \<Rightarrow> (string \<rightharpoonup> source_repo) \<Rightarrow> fetch_result \<times> (string \<rightharpoonup> source_repo)" where
  "Fetch forge c refs = (case fcListRepos c of
       Inl err \<Rightarrow> (unreachable_result forge err, refs)
     | Inr repos \<Rightarrow>
         (let results = fetchRepos c repos;
              pairs = zip repos results;
              limit = (case fcRateLimit c of Some (Inr l) \<Rightarrow> Some l | _ \<Rightarrow> None)
          in ((no_rows (zero_health\<lparr>fhForge := forge, fhReachable := True, fhRepoCount := int (length repos),
                  fhRateLimitREST := limit\<rparr>))
                \<lparr>ftRepos := map (\<lambda>(r, res). source_repo_row forge r res) pairs,
                 ftPullRequests := concat (map rsPrs results),
                 ftIssues := concat (map rsIssues results),
                 ftMainBranches := concat (map (\<lambda>(r, res). branch_rows forge r res) pairs),
                 ftFailedRepos := concat (map (\<lambda>(r, res). failed_rows r res) pairs)\<rparr>,
              rememberRepos repos)))"

section \<open>Errors\<close>

text \<open>\<open>fmt.Errorf("...: %w", err)\<close> keeps the client's error in the chain.\<close>

definition wrap_error :: "string \<Rightarrow> go_error \<Rightarrow> go_error" where
  "wrap_error prefix e = e\<lparr>errText := prefix @ '': '' @ errText e\<rparr>"

definition errUnsupportedByClient :: string where "errUnsupportedByClient = ''not supported by this client''"
definition errRepoNotListed :: string where "errRepoNotListed = ''not listed by a full poll yet''"

definition unsupported :: "forge \<Rightarrow> string \<Rightarrow> go_error" where
  "unsupported forge what = \<lparr>errText = ''dashboard: '' @ forge_str forge @ CHR 0x27 # ''s client can'' @ CHR 0x27 # ''t '' @ what @
     '': '' @ errUnsupportedByClient, errClient = None\<rparr>"

text \<open>What every delegating method does: the answer of a client that lacks it, or the client's own, with its error passed through \<open>f\<close>.\<close>

definition forward_action :: "forge \<Rightarrow> string \<Rightarrow> (go_error \<Rightarrow> go_error) \<Rightarrow> 'a action \<Rightarrow> 'a \<Rightarrow> go_error option" where
  "forward_action forge what f method args = (case method of
       None \<Rightarrow> Some (unsupported forge what) | Some call \<Rightarrow> map_option f (call args))"

definition forward_read :: "forge \<Rightarrow> string \<Rightarrow> (go_error \<Rightarrow> go_error) \<Rightarrow> ('a, 'b) reader \<Rightarrow> 'a \<Rightarrow> go_error + 'b" where
  "forward_read forge what f method args = (case method of
       None \<Rightarrow> Inl (unsupported forge what) | Some call \<Rightarrow> map_sum f (\<lambda>x. x) (call args))"

section \<open>The delegating methods\<close>

definition EnsureWebhook :: "forge \<Rightarrow> ('l, 'p, 'i, 'r) forge_client \<Rightarrow> string \<times> string \<times> string \<times> string \<Rightarrow> go_error option" where
  "EnsureWebhook forge c = forward_action forge ''manage webhooks'' (wrap_error ''dashboard: ensure webhook'') (fcEnsureWebhook c)"

definition UpgradeWebhook :: "forge \<Rightarrow> ('l, 'p, 'i, 'r) forge_client \<Rightarrow> string \<times> string \<times> string \<times> string \<Rightarrow> go_error + bool" where
  "UpgradeWebhook forge c = forward_read forge ''upgrade webhooks'' (wrap_error ''dashboard: upgrade webhook'') (fcUpgradeWebhook c)"

definition MergePullRequest :: "forge \<Rightarrow> ('l, 'p, 'i, 'r) forge_client \<Rightarrow> item \<Rightarrow> go_error option" where
  "MergePullRequest forge c = forward_action forge ''merge pull requests'' (wrap_error ''dashboard: merge pull request'') (fcMerge c)"

definition DeletePullRequestBranch :: "('l, 'p, 'i, 'r) forge_client \<Rightarrow> item \<Rightarrow> branch_deletion" where
  "DeletePullRequestBranch c it = (case fcDeleteBranch c of
       None \<Rightarrow> BranchSkipped SkipUnsupported | Some delete \<Rightarrow> delete it)"

definition zero_state :: pull_request_state where
  "zero_state = \<lparr>psMerged = False, psClosed = False, psDraft = False, psConflicting = False, psBehind = False,
     psBlocked = False, psChecksFailing = False, psConflictUnconfirmed = False, psChangesWorkflows = False\<rparr>"

definition ReadPullRequestState :: "forge \<Rightarrow> ('l, 'p, 'i, 'r) forge_client \<Rightarrow> item \<Rightarrow> pull_request_state \<times> go_error option" where
  "ReadPullRequestState forge c it = (case fcReadState c of
       None \<Rightarrow> (zero_state, Some (unsupported forge ''read pull request state''))
     | Some read \<Rightarrow> (case read it of (state, err) \<Rightarrow>
         (state, map_option (wrap_error ''dashboard: read pull request state'') err)))"

definition UpdateBranch :: "forge \<Rightarrow> ('l, 'p, 'i, 'r) forge_client \<Rightarrow> item \<Rightarrow> bool \<times> go_error option" where
  "UpdateBranch forge c it = (case fcUpdateBranch c of
       None \<Rightarrow> (False, Some (unsupported forge ''update pull request branches''))
     | Some update \<Rightarrow> (case update it of (accepted, err) \<Rightarrow>
         (accepted, map_option (wrap_error ''dashboard: update branch'') err)))"

definition ClosePullRequest :: "forge \<Rightarrow> ('l, 'p, 'i, 'r) forge_client \<Rightarrow> item \<Rightarrow> go_error option" where
  "ClosePullRequest forge c = forward_action forge ''close pull requests'' (wrap_error ''dashboard: close pull request'') (fcClose c)"

definition ReopenPullRequest :: "forge \<Rightarrow> ('l, 'p, 'i, 'r) forge_client \<Rightarrow> item \<Rightarrow> go_error option" where
  "ReopenPullRequest forge c = forward_action forge ''reopen pull requests'' (wrap_error ''dashboard: reopen pull request'') (fcReopen c)"

definition CloseIssue :: "forge \<Rightarrow> ('l, 'p, 'i, 'r) forge_client \<Rightarrow> item \<Rightarrow> go_error option" where
  "CloseIssue forge c = forward_action forge ''close issues'' (wrap_error ''dashboard: close issue'') (fcCloseIssue c)"

definition ReopenIssue :: "forge \<Rightarrow> ('l, 'p, 'i, 'r) forge_client \<Rightarrow> item \<Rightarrow> go_error option" where
  "ReopenIssue forge c = forward_action forge ''reopen issues'' (wrap_error ''dashboard: reopen issue'') (fcReopenIssue c)"

definition CommentIssue :: "forge \<Rightarrow> ('l, 'p, 'i, 'r) forge_client \<Rightarrow> item \<times> string \<Rightarrow> go_error option" where
  "CommentIssue forge c = forward_action forge ''comment on issues'' (wrap_error ''dashboard: comment on issue'') (fcCommentIssue c)"

definition DisableAutoMerge :: "forge \<Rightarrow> ('l, 'p, 'i, 'r) forge_client \<Rightarrow> item \<Rightarrow> go_error option" where
  "DisableAutoMerge forge c = forward_action forge ''cancel auto-merge'' (wrap_error ''dashboard: cancel auto-merge'') (fcDisableAutoMerge c)"

definition ListChecks :: "forge \<Rightarrow> ('l, 'p, 'i, 'r) forge_client \<Rightarrow> item \<Rightarrow> go_error + check list" where
  "ListChecks forge c = forward_read forge ''list pull request checks'' (wrap_error ''dashboard: list checks'') (fcListChecks c)"

definition ListDefaultBranchChecks_source :: "forge \<Rightarrow> ('l, 'p, 'i, 'r) forge_client \<Rightarrow> string \<times> string \<Rightarrow> go_error + check list" where
  "ListDefaultBranchChecks_source forge c = forward_read forge ''list default branch checks''
     (wrap_error ''dashboard: list default branch checks'') (fcListDefaultBranchChecks c)"

definition JobLog :: "forge \<Rightarrow> ('l, 'p, 'i, 'r) forge_client \<Rightarrow> item \<Rightarrow> go_error + 'l" where
  "JobLog forge c = forward_read forge ''read job logs'' (wrap_error ''dashboard: read job log'') (fcJobLog c)"

definition JobExcerpt_source :: "forge \<Rightarrow> ('l, 'p, 'i, 'r) forge_client \<Rightarrow> item \<Rightarrow> go_error + string" where
  "JobExcerpt_source forge c = forward_read forge ''read job log excerpts'' (wrap_error ''dashboard: read job log excerpt'') (fcJobExcerpt c)"

text \<open>The rest pass the client's error on as it is, since a handler shows the forge's own sentence.\<close>

definition AddLabel :: "forge \<Rightarrow> ('l, 'p, 'i, 'r) forge_client \<Rightarrow> item \<times> string \<Rightarrow> go_error option" where
  "AddLabel forge c = forward_action forge ''label pull requests'' (\<lambda>e. e) (fcAddLabel c)"

definition PullRequestBody :: "forge \<Rightarrow> ('l, 'p, 'i, 'r) forge_client \<Rightarrow> item \<Rightarrow> go_error + string" where
  "PullRequestBody forge c = forward_read forge ''read pull request descriptions'' (\<lambda>e. e) (fcBody c)"

definition SetPullRequestBody :: "forge \<Rightarrow> ('l, 'p, 'i, 'r) forge_client \<Rightarrow> item \<times> string \<Rightarrow> go_error option" where
  "SetPullRequestBody forge c = forward_action forge ''edit pull request descriptions'' (\<lambda>e. e) (fcSetBody c)"

definition GetPullRequestDetails :: "forge \<Rightarrow> ('l, 'p, 'i, 'r) forge_client \<Rightarrow> item \<Rightarrow> go_error + 'p" where
  "GetPullRequestDetails forge c = forward_read forge ''read pull request details'' (\<lambda>e. e) (fcPullRequestDetails c)"

definition GetIssueDetails :: "forge \<Rightarrow> ('l, 'p, 'i, 'r) forge_client \<Rightarrow> item \<Rightarrow> go_error + 'i" where
  "GetIssueDetails forge c = forward_read forge ''read issue details'' (\<lambda>e. e) (fcIssueDetails c)"

definition GetReleaseDetails :: "forge \<Rightarrow> ('l, 'p, 'i, 'r) forge_client \<Rightarrow> string \<times> string \<times> string \<Rightarrow> go_error + 'r" where
  "GetReleaseDetails forge c = forward_read forge ''read releases'' (\<lambda>e. e) (fcReleaseDetails c)"

definition RerunFailedChecks_source :: "forge \<Rightarrow> ('l, 'p, 'i, 'r) forge_client \<Rightarrow> item \<Rightarrow> go_error option" where
  "RerunFailedChecks_source forge c = forward_action forge ''rerun checks'' (\<lambda>e. e) (fcRerunFailed c)"

definition RerunFailedDefaultBranchChecks_source :: "forge \<Rightarrow> ('l, 'p, 'i, 'r) forge_client \<Rightarrow> string \<times> string \<times> string \<Rightarrow> go_error option" where
  "RerunFailedDefaultBranchChecks_source forge c = forward_action forge ''rerun default branch checks'' (\<lambda>e. e) (fcRerunFailedBranch c)"

definition RerunChecksBlockedReason_source :: "('l, 'p, 'i, 'r) forge_client \<Rightarrow> string" where
  "RerunChecksBlockedReason_source c = (case fcRerunBlocked c of Some reason \<Rightarrow> reason | None \<Rightarrow> '''')"

definition CancelRun :: "forge \<Rightarrow> ('l, 'p, 'i, 'r) forge_client \<Rightarrow> item \<Rightarrow> go_error option" where
  "CancelRun forge c = forward_action forge ''cancel runs'' (\<lambda>e. e) (fcCancelRun c)"

section \<open>Scoped reads\<close>

definition FetchRepo :: "('l, 'p, 'i, 'r) forge_client \<Rightarrow> (string \<rightharpoonup> source_repo) \<Rightarrow> string \<Rightarrow> string \<Rightarrow> string \<Rightarrow>
    go_error + pull_request list \<times> issue list" where
  "FetchRepo c refs owner name fullName = (case fcListOpenPullRequests c owner name fullName of
       (_, Some err) \<Rightarrow> Inl (wrap_error ''dashboard: list open pull requests'' err)
     | (prs, None) \<Rightarrow>
         (let prs = closesOnlyOnDefaultBranch prs (case refs fullName of Some r \<Rightarrow> rrDefaultBranch r | None \<Rightarrow> '''')
          in case fcListOpenIssues c owner name fullName of
               (_, Some err) \<Rightarrow> Inl (wrap_error ''dashboard: list open issues'' err)
             | (issues, None) \<Rightarrow> Inr (prs, issues)))"

definition FetchMainBranch_source :: "forge \<Rightarrow> ('l, 'p, 'i, 'r) forge_client \<Rightarrow> (string \<rightharpoonup> source_repo) \<Rightarrow> string \<Rightarrow> go_error + main_branch" where
  "FetchMainBranch_source forge c refs fullName = (case fcReadMainBranch c of
       None \<Rightarrow> Inl \<lparr>errText = ''dashboard: '' @ forge_str forge @ '' default branch: '' @ errUnsupportedByClient, errClient = None\<rparr>
     | Some read \<Rightarrow> (case refs fullName of
           None \<Rightarrow> Inl \<lparr>errText = ''dashboard: '' @ fullName @ '': '' @ errRepoNotListed, errClient = None\<rparr>
         | Some repo \<Rightarrow> (case read repo of
               Inl err \<Rightarrow> Inl (wrap_error ''dashboard: read default branch'' err)
             | Inr branch \<Rightarrow> Inr (named_branch forge repo branch))))"

section \<open>A scoped refresh sees what a full one would\<close>

lemma rememberRepos_listed:
  assumes "distinct (map rrFullName repos)" "r \<in> set repos"
  shows "rememberRepos repos (rrFullName r) = Some r"
proof -
  have "fold remember_ref repos refs (rrFullName r) = Some r"
    if "distinct (map rrFullName repos)" "r \<in> set repos" for refs
    using that
  proof (induction repos arbitrary: refs)
    case (Cons x xs)
    have skip: "fold remember_ref ys m k = m k" if "k \<notin> rrFullName ` set ys" for ys m k
      using that by (induction ys arbitrary: m) (auto simp: remember_ref_def)
    show ?case
    proof (cases "r = x")
      case True
      then show ?thesis using Cons.prems(1) by (simp add: skip) (simp add: remember_ref_def)
    qed (use Cons in auto)
  qed simp
  then show ?thesis using assms by (simp add: rememberRepos_def)
qed

lemma zip_map_self: "zip xs (map f xs) = map (\<lambda>x. (x, f x)) xs"
  by (induction xs) auto

lemma Fetch_listed:
  assumes "fcListRepos c = Inr repos" "Fetch forge c refs = (res, refs')"
  shows "ftPullRequests res = concat (map (\<lambda>r. rsPrs (fetchRepo c r)) repos)"
    "ftIssues res = concat (map (\<lambda>r. rsIssues (fetchRepo c r)) repos)"
    "ftMainBranches res = concat (map (\<lambda>r. branch_rows forge r (fetchRepo c r)) repos)"
    "ftFailedRepos res = concat (map (\<lambda>r. failed_rows r (fetchRepo c r)) repos)"
    "refs' = rememberRepos repos"
  using assms by (auto simp: Fetch_def fetchRepos_def Let_def zip_map_self comp_def)

lemma failed_rows_of:
  assumes "distinct (map rrFullName repos)" "r \<in> set repos" "f \<in> set (concat (map (\<lambda>r. failed_rows r (fetchRepo c r)) repos))"
    "flFullName f = rrFullName r"
  shows "f \<in> set (failed_rows r (fetchRepo c r))"
proof -
  obtain x where x: "x \<in> set repos" "f \<in> set (failed_rows x (fetchRepo c x))" using assms(3) by auto
  then have "rrFullName x = rrFullName r" using assms(4) by (auto simp: failed_rows_def split: if_splits)
  then have "x = r" using assms(1,2) x(1) by (metis distinct_map inj_onD)
  then show ?thesis using x(2) by simp
qed

lemma scoped_full:
  assumes "fcListRepos c = Inr repos" "Fetch forge c refs = (res, refs')" "distinct (map rrFullName repos)" "r \<in> set repos"
  shows "case FetchRepo c refs' (rrOwner r) (rrName r) (rrFullName r) of
      Inl _ \<Rightarrow> \<exists>f. f \<in> set (ftFailedRepos res) \<and> flFullName f = rrFullName r \<and> (flPullRequests f \<or> flIssues f)
    | Inr (prs, issues) \<Rightarrow> set prs \<subseteq> set (ftPullRequests res) \<and> set issues \<subseteq> set (ftIssues res) \<and>
        prs = rsPrs (fetchRepo c r) \<and> issues = rsIssues (fetchRepo c r) \<and>
        \<not> (\<exists>f. f \<in> set (ftFailedRepos res) \<and> flFullName f = rrFullName r \<and> (flPullRequests f \<or> flIssues f))"
proof -
  note rows = Fetch_listed[OF assms(1,2)]
  have known: "refs' (rrFullName r) = Some r" using rows(5) rememberRepos_listed[OF assms(3,4)] by simp
  let ?p = "fcListOpenPullRequests c (rrOwner r) (rrName r) (rrFullName r)"
  let ?i = "fcListOpenIssues c (rrOwner r) (rrName r) (rrFullName r)"
  have flags: "rsPrsFailed (fetchRepo c r) = (snd ?p \<noteq> None)" "rsIssuesFailed (fetchRepo c r) = (snd ?i \<noteq> None)"
    by (auto simp: fetchRepo_def Let_def split: option.splits sum.splits)
  show ?thesis
  proof (cases "snd ?p \<noteq> None \<or> snd ?i \<noteq> None")
    case True
    then have "failed_rows r (fetchRepo c r) \<noteq> []" "\<And>f. f \<in> set (failed_rows r (fetchRepo c r)) \<Longrightarrow>
        flFullName f = rrFullName r \<and> (flPullRequests f \<or> flIssues f)"
      using flags by (auto simp: failed_rows_def split: if_splits)
    then have "\<exists>f. f \<in> set (ftFailedRepos res) \<and> flFullName f = rrFullName r \<and> (flPullRequests f \<or> flIssues f)"
      using assms(4) unfolding rows(4) by (cases "failed_rows r (fetchRepo c r)") force+
    moreover obtain e where "FetchRepo c refs' (rrOwner r) (rrName r) (rrFullName r) = Inl e"
      using True by (cases ?p; cases ?i; cases "snd ?p"; cases "snd ?i") (auto simp: FetchRepo_def Let_def)
    ultimately show ?thesis by simp
  next
    case False
    then obtain prs issues where l: "?p = (prs, None)" "?i = (issues, None)" by (cases ?p; cases ?i) auto
    have own: "rsPrs (fetchRepo c r) = closesOnlyOnDefaultBranch prs (rrDefaultBranch r)" "rsIssues (fetchRepo c r) = issues"
      using l by (auto simp: fetchRepo_def Let_def split: option.splits sum.splits)
    have none: "\<not> (flPullRequests f \<or> flIssues f)" if "f \<in> set (failed_rows r (fetchRepo c r))" for f
      using that flags False by (auto simp: failed_rows_def split: if_splits)
    have "\<not> (\<exists>f. f \<in> set (ftFailedRepos res) \<and> flFullName f = rrFullName r \<and> (flPullRequests f \<or> flIssues f))"
      using none failed_rows_of[OF assms(3,4)] unfolding rows(4) by blast
    moreover have "FetchRepo c refs' (rrOwner r) (rrName r) (rrFullName r) = Inr (rsPrs (fetchRepo c r), rsIssues (fetchRepo c r))"
      using l own known by (simp add: FetchRepo_def)
    moreover have "set (rsPrs (fetchRepo c r)) \<subseteq> set (ftPullRequests res)" "set (rsIssues (fetchRepo c r)) \<subseteq> set (ftIssues res)"
      using assms(4) unfolding rows(1,2) by auto
    ultimately show ?thesis by simp
  qed
qed

text \<open>A forwarded refusal keeps the client's classification, so that it can still be told apart.\<close>

lemma forwarded_kind:
  assumes "\<And>e. errClient (f e) = errClient e"
  shows "map_option errClient (forward_action forge what f (Some call) args) = map_option errClient (call args)"
    "map_sum errClient (\<lambda>x. x) (forward_read forge what f (Some read) args) = map_sum errClient (\<lambda>x. x) (read args)"
  using assms by (auto simp: forward_action_def forward_read_def option.map_comp sum.map_comp comp_def)

lemma wrap_error_kind [simp]: "errClient (wrap_error prefix e) = errClient e"
  by (simp add: wrap_error_def)

text \<open>
  C33: A scoped refresh of a listed repository sees what the full refresh saw over the same answers: it fails exactly where the
  full refresh flags the repository's pull requests or issues as failed, and otherwise returns the very rows the full one added for
  it, closing keywords that act on no default branch included.
\<close>

theorem scoped_sees_full:
  assumes "fcListRepos c = Inr repos" "Fetch forge c refs = (res, refs')" "distinct (map rrFullName repos)" "r \<in> set repos"
  shows "case FetchRepo c refs' (rrOwner r) (rrName r) (rrFullName r) of
      Inl _ \<Rightarrow> \<exists>f. f \<in> set (ftFailedRepos res) \<and> flFullName f = rrFullName r \<and> (flPullRequests f \<or> flIssues f)
    | Inr (prs, issues) \<Rightarrow> set prs \<subseteq> set (ftPullRequests res) \<and> set issues \<subseteq> set (ftIssues res) \<and>
        prs = rsPrs (fetchRepo c r) \<and> issues = rsIssues (fetchRepo c r) \<and>
        \<not> (\<exists>f. f \<in> set (ftFailedRepos res) \<and> flFullName f = rrFullName r \<and> (flPullRequests f \<or> flIssues f))"
  by (rule scoped_full[OF assms])

section \<open>Two repositories\<close>

definition demo_source_repo :: "string \<Rightarrow> source_repo" where
  "demo_source_repo name = \<lparr>rrFullName = ''o/'' @ name, rrOwner = ''o'', rrName = name, rrURL = '''', rrLogoURL = '''',
     rrCanManageWebhooks = False, rrWebhookLockedByConnection = False, rrWebhookNeedsToken = False, rrDefaultBranch = ''main''\<rparr>"

definition demo_closing :: pull_request where
  "demo_closing = zero_pr\<lparr>prBaseBranch := ''dev'', prClosesIssues := [\<lparr>irRepo = ''o/a'', irNumber = 1, irURL = ''''\<rparr>]\<rparr>"

definition demo_client :: "(unit, unit, unit, unit) forge_client" where
  "demo_client = \<lparr>fcListRepos = Inr [demo_source_repo ''a'', demo_source_repo ''b''],
     fcListOpenPullRequests = (\<lambda>_ name _. if name = ''a'' then ([demo_closing], None)
       else ([], Some \<lparr>errText = ''down'', errClient = None\<rparr>)),
     fcListOpenIssues = (\<lambda>_ _ _. ([], None)), fcRateLimit = None, fcHasWebhook = None, fcReadMainBranch = None,
     fcEnsureWebhook = None, fcUpgradeWebhook = None, fcMerge = None, fcDeleteBranch = None, fcReadState = None,
     fcUpdateBranch = None, fcClose = None, fcReopen = None, fcCloseIssue = None, fcReopenIssue = None, fcCommentIssue = None,
     fcDisableAutoMerge = None, fcListChecks = None, fcListDefaultBranchChecks = None, fcJobLog = None, fcJobExcerpt = None,
     fcAddLabel = None, fcBody = None, fcSetBody = None, fcPullRequestDetails = None, fcIssueDetails = None,
     fcReleaseDetails = None, fcRerunFailed = None, fcRerunFailedBranch = None, fcRerunBlocked = None, fcCancelRun = None\<rparr>"

lemma scoped_sees_full_witness:
  "FetchRepo demo_client (snd (Fetch ForgeForgejo demo_client Map.empty)) ''o'' ''a'' ''o/a'' =
     Inr (rsPrs (fetchRepo demo_client (demo_source_repo ''a'')), []) \<and>
   prClosesIssues (hd (rsPrs (fetchRepo demo_client (demo_source_repo ''a'')))) = []"
proof -
  have listed: "fcListRepos demo_client = Inr [demo_source_repo ''a'', demo_source_repo ''b'']" by (simp add: demo_client_def)
  have dist: "distinct (map rrFullName [demo_source_repo ''a'', demo_source_repo ''b''])" by (simp add: demo_source_repo_def)
  have row: "prClosesIssues (hd (rsPrs (fetchRepo demo_client (demo_source_repo ''a'')))) = []"
    and none: "rsIssues (fetchRepo demo_client (demo_source_repo ''a'')) = []"
    by (simp_all add: fetchRepo_def demo_client_def demo_source_repo_def demo_closing_def closesOnlyOnDefaultBranch_def zero_pr_def Let_def)
  have ok: "\<not> isl (FetchRepo demo_client (snd (Fetch ForgeForgejo demo_client Map.empty)) ''o'' ''a'' ''o/a'')"
    by (simp add: FetchRepo_def demo_client_def Let_def)
  have "rrOwner (demo_source_repo ''a'') = ''o''" "rrName (demo_source_repo ''a'') = ''a''" "rrFullName (demo_source_repo ''a'') = ''o/a''"
    by (simp_all add: demo_source_repo_def)
  with scoped_sees_full[OF listed prod.collapse[symmetric, of "Fetch ForgeForgejo demo_client Map.empty"] dist, of "demo_source_repo ''a''"] ok row none
  show ?thesis by (auto split: sum.splits)
qed

end
