(* ===== verification/Forgejo_Ci.thy ===== *)
theory Forgejo_Ci
  imports FD_Strings Forgejo_Branch
begin

text \<open>
  The checks of a Forgejo pull request, \<open>internal/forgejo/client.go\<close>: its rollup from the commit's
  statuses (\<open>ciStatus\<close>), the list of its checks (\<open>ListChecks\<close>) and which of them are
  required (\<open>markRequired\<close>). What the forge answers is a parameter: the runs of the commit and
  their jobs, \<open>None\<close> where they cannot be read. The jobs of several runs are read side by side
  and only summed up, so they are read in order here.
\<close>

section \<open>Statuses\<close>

record commit_status =
  stState :: string
  stContext :: string
  stTargetURL :: string

record commit_run =
  crID :: int
  crNumber :: int
  crStatus :: string
  crEvent :: string
  crHeadSha :: string
  crPath :: string
  crHTMLURL :: string
  crStartedAt :: time
  crCompletedAt :: time

definition isFailureStatus :: "commit_status \<Rightarrow> bool" where
  "isFailureStatus s \<longleftrightarrow> stState s = ''failure'' \<or> stState s = ''error''"

definition count_status :: "commit_status \<Rightarrow> check_counts \<Rightarrow> check_counts" where
  "count_status s out =
     (if stState s = ''success'' \<or> stState s = ''warning'' then out\<lparr>Passed := Passed out + 1\<rparr>
      else if stState s = ''skipped'' then out\<lparr>Passed := Passed out + 1, Skipped := Skipped out + 1\<rparr>
      else if stState s = ''pending'' then out\<lparr>Waiting := Waiting out + 1\<rparr>
      else if isFailureStatus s then out\<lparr>Failed := Failed out + 1\<rparr> else out)"

definition checkCountsOf_forgejo :: "commit_status list \<Rightarrow> check_counts" where
  "checkCountsOf_forgejo statuses = fold count_status statuses no_checks"

definition statusFromCombinedState_forgejo :: "string \<Rightarrow> ci_status" where
  "statusFromCombinedState_forgejo state =
     (if state = ''success'' then CISuccess
      else if state = ''failure'' \<or> state = ''error'' then CIFailure
      else if state = ''pending'' \<or> state = ''warning'' then CIPending else CINone)"

text \<open>
  \<open>/actions/runs/(\d+)/jobs/(\d+)$\<close>, read from the end: the last digits, what stands before
  them, the digits before that.
\<close>

definition jobTarget :: "commit_status \<Rightarrow> (int \<times> int) option" where
  "jobTarget s = (let r = rev (stTargetURL s); job = takeWhile is_digit r in
     if job = [] then None
     else case cut_prefix (drop (length job) r) (rev ''/jobs/'') of
       None \<Rightarrow> None
     | Some r \<Rightarrow> (let run = takeWhile is_digit r in
         if run = [] \<or> \<not> has_prefix (drop (length run) r) (rev ''/actions/runs/'') then None
         else case atoi (rev run) of
           None \<Rightarrow> None
         | Some n \<Rightarrow> map_option (\<lambda>j. (n, j)) (atoi (rev job))))"

definition hasJobTarget :: "commit_status list \<Rightarrow> bool" where
  "hasJobTarget statuses \<longleftrightarrow> list_ex (\<lambda>s. isFailureStatus s \<and> jobTarget s \<noteq> None) statuses"

definition stateWithoutFailures :: "check_counts \<Rightarrow> commit_status list \<Rightarrow> ci_status" where
  "stateWithoutFailures counts statuses =
     (if Waiting counts > 0 \<or> list_ex (\<lambda>s. stState s = ''warning'') statuses then CIPending
      else if Passed counts > 0 then CISuccess else CINone)"

text \<open>\<open>reported\<close> is the X-Total-Count header as a number, where it is one.\<close>

definition statusListIsCapped :: "int option \<Rightarrow> int \<Rightarrow> commit_status list \<Rightarrow> bool" where
  "statusListIsCapped reported totalCount statuses =
     ((case reported of Some n \<Rightarrow> if n > totalCount then n else totalCount | None \<Rightarrow> totalCount) > int (length statuses))"

section \<open>Cancelled jobs among the failures\<close>

text \<open>A failure status's job: its position in the run's list, and the status's context.\<close>

record job_ref =
  jrPosition :: int
  jrContext :: string

definition withoutEvent :: "string \<Rightarrow> string" where
  "withoutEvent context = (case last_index context '' ('' of Some i \<Rightarrow> take i context | None \<Rightarrow> context)"

definition namesJob :: "string \<Rightarrow> string \<Rightarrow> bool" where
  "namesJob context job \<longleftrightarrow> job \<noteq> '''' \<and> has_suffix (withoutEvent context) ('' / '' @ job)"

definition job_cancelled :: "forgejo_job \<Rightarrow> bool" where
  "job_cancelled j \<longleftrightarrow> checkStateFromWorkflowStatus (fjStatus j) = CheckCancelled"

definition name_excuses :: "forgejo_job list \<Rightarrow> job_ref \<Rightarrow> bool" where
  "name_excuses jobs r = (case filter (\<lambda>j. namesJob (jrContext r) (fjName j)) jobs of
     [j] \<Rightarrow> job_cancelled j | _ \<Rightarrow> False)"

definition cancelledByName :: "forgejo_job list \<Rightarrow> job_ref list \<Rightarrow> nat" where
  "cancelledByName jobs refs = length (filter (name_excuses jobs) refs)"

text \<open>\<open>None\<close> where the answer needs more of the run.\<close>

definition cancelledOnPage :: "forgejo_job list \<Rightarrow> int \<Rightarrow> job_ref \<Rightarrow> bool option" where
  "cancelledOnPage jobs page r = (let i = jrPosition r mod pageLimit in
     if i < int (length jobs) \<and> namesJob (jrContext r) (fjName (jobs ! nat i)) then Some (job_cancelled (jobs ! nat i))
     else if page = 1 \<and> int (length jobs) < pageLimit then Some (cancelledByName jobs [r] = 1)
     else None)"

text \<open>What the forge answers for the jobs of a run: one page, the whole list, and the list read anew.\<close>

record ci_reads =
  rdPage :: "commit_run \<Rightarrow> int \<Rightarrow> forgejo_job list option"
  rdJobs :: "commit_run \<Rightarrow> forgejo_job list option"
  rdNow :: "commit_run \<Rightarrow> forgejo_job list option"

fun page_scan :: "ci_reads \<Rightarrow> commit_run \<Rightarrow> job_ref list \<Rightarrow> (nat \<times> job_ref list) option" where
  "page_scan v run [] = Some (0, [])"
| "page_scan v run (r # rs) = (let page = jrPosition r div pageLimit + 1 in
     case rdPage v run page of
       None \<Rightarrow> None
     | Some jobs \<Rightarrow> (case page_scan v run rs of
         None \<Rightarrow> None
       | Some (n, lost) \<Rightarrow> (case cancelledOnPage jobs page r of
           None \<Rightarrow> Some (n, r # lost)
         | Some c \<Rightarrow> Some (if c then Suc n else n, lost))))"

definition cancelledIn :: "ci_reads \<Rightarrow> commit_run \<Rightarrow> job_ref list \<Rightarrow> nat option" where
  "cancelledIn v run refs = (case page_scan v run refs of
       None \<Rightarrow> None
     | Some (n, lost) \<Rightarrow>
         if lost = [] then Some n
         else (case rdJobs v run of None \<Rightarrow> None | Some jobs \<Rightarrow> Some (n + cancelledByName jobs lost)))"

text \<open>The last listed run of a number, and the references of the failures that point into it.\<close>

definition run_numbered :: "commit_run list \<Rightarrow> int \<Rightarrow> commit_run option" where
  "run_numbered runs n = find_last (\<lambda>r. crNumber r = n) (filter (\<lambda>r. crNumber r > 0) runs)"

definition pointed_refs :: "commit_run list \<Rightarrow> commit_status list \<Rightarrow> (int \<times> job_ref) list" where
  "pointed_refs runs statuses = concat (map (\<lambda>s. case jobTarget s of
       Some (run, job) \<Rightarrow> if isFailureStatus s \<and> run_numbered runs run \<noteq> None
         then [(run, \<lparr>jrPosition = job, jrContext = stContext s\<rparr>)] else []
     | None \<Rightarrow> []) statuses)"

definition failuresByRun :: "commit_run list \<Rightarrow> commit_status list \<Rightarrow> (commit_run \<times> job_ref list) list" where
  "failuresByRun runs statuses = (let pointed = pointed_refs runs statuses in
     map (\<lambda>n. (the (run_numbered runs n), map snd (filter (\<lambda>p. fst p = n) pointed))) (remdups (map fst pointed)))"

definition cancelledFailures :: "ci_reads \<Rightarrow> commit_run list \<Rightarrow> commit_status list \<Rightarrow> nat" where
  "cancelledFailures v runs statuses = sum_list (map (\<lambda>(run, refs).
     case cancelledIn v run refs of Some n \<Rightarrow> n | None \<Rightarrow> 0) (failuresByRun runs statuses))"

section \<open>Waiting and running\<close>

definition blockedInFailedRuns :: "commit_run list \<Rightarrow> commit_status list \<Rightarrow> nat" where
  "blockedInFailedRuns runs statuses = length (filter (\<lambda>s. case jobTarget s of
       Some (run, _) \<Rightarrow> stState s = ''pending'' \<and>
         list_ex (\<lambda>r. checkStateFromWorkflowStatus (crStatus r) = CheckFailure \<and> crNumber r = run) runs
     | None \<Rightarrow> False) statuses)"

definition withoutShadowedPushRuns :: "commit_run list \<Rightarrow> commit_run list" where
  "withoutShadowedPushRuns runs =
     (if list_ex (\<lambda>r. isPullRequestEvent (crEvent r)) runs then filter (\<lambda>r. crEvent r \<noteq> ''push'') runs else runs)"

definition countRunningJobs :: "ci_reads \<Rightarrow> commit_run list \<Rightarrow> nat" where
  "countRunningJobs v runs = sum_list (map (\<lambda>run. case rdNow v run of None \<Rightarrow> 0
     | Some jobs \<Rightarrow> length (filter (\<lambda>j. checkStateFromWorkflowStatus (fjStatus j) = CheckRunning) jobs)) runs)"

definition splitRunning :: "ci_reads \<Rightarrow> commit_run list \<Rightarrow> check_counts \<Rightarrow> check_counts" where
  "splitRunning v runs counts =
     (let going = withoutShadowedPushRuns (filter (\<lambda>r. checkStateFromWorkflowStatus (crStatus r) = CheckRunning) runs);
          running = min (int (countRunningJobs v going)) (Waiting counts)
      in counts\<lparr>Running := Running counts + running, Waiting := Waiting counts - running\<rparr>)"

definition splitWaiting :: "ci_reads \<Rightarrow> commit_run list \<Rightarrow> commit_status list \<Rightarrow> check_counts \<Rightarrow> check_counts" where
  "splitWaiting v runs statuses counts =
     (let counts = (if Waiting counts > 0
            then counts\<lparr>Waiting := Waiting counts - min (int (blockedInFailedRuns runs statuses)) (Waiting counts)\<rparr>
            else counts)
      in if Waiting counts > 0 then splitRunning v runs counts else counts)"

definition settledState :: "ci_status \<Rightarrow> check_counts \<Rightarrow> commit_status list \<Rightarrow> ci_status" where
  "settledState state counts statuses =
     (if state = CIPending \<and> Failed counts = 0 \<and> Waiting counts = 0 \<and> Running counts = 0
      then stateWithoutFailures counts statuses else state)"

section \<open>The rollup\<close>

definition sameCommit :: "string \<Rightarrow> string \<Rightarrow> bool" where
  "sameCommit a b = (let a = lower a; b = lower b in
     if a = '''' \<or> b = '''' then False else has_prefix a b \<or> has_prefix b a)"

definition commitRuns :: "commit_run list option \<Rightarrow> string \<Rightarrow> commit_run list option" where
  "commitRuns listed sha = map_option (filter (\<lambda>r. sameCommit (crHeadSha r) sha)) listed"

record combined_status =
  cbState :: string
  cbTotalCount :: int
  cbReported :: "int option"           \<comment> \<open>the X-Total-Count header\<close>
  cbStatuses :: "commit_status list"

definition excuse_cancelled :: "ci_reads \<Rightarrow> commit_run list \<Rightarrow> commit_status list \<Rightarrow> ci_status \<times> check_counts \<Rightarrow> ci_status \<times> check_counts" where
  "excuse_cancelled v runs statuses st = (case st of (state, counts) \<Rightarrow>
     (let n = cancelledFailures v runs statuses in
      if n > 0
      then (let counts = counts\<lparr>Failed := Failed counts - int n\<rparr>
            in (if Failed counts = 0 then stateWithoutFailures counts statuses else state, counts))
      else (state, counts)))"

definition ciStatus :: "ci_reads \<Rightarrow> (string \<Rightarrow> go_error + combined_status) \<Rightarrow> (string \<Rightarrow> commit_run list option) \<Rightarrow> string \<Rightarrow>
    ci_status \<times> check_counts \<times> go_error option" where
  "ciStatus v ask listRuns sha =
     (if sha = '''' then (CINone, no_checks, None)
      else case ask sha of
        Inl err \<Rightarrow> (CINone, no_checks, Some err)
      | Inr combined \<Rightarrow>
          (let statuses = cbStatuses combined;
               counts = (if statusListIsCapped (cbReported combined) (cbTotalCount combined) statuses
                         then no_checks else checkCountsOf_forgejo statuses);
               state = statusFromCombinedState_forgejo (cbState combined);
               maybeCancelled = (Failed counts > 0 \<and> hasJobTarget statuses)
           in if Waiting counts = 0 \<and> \<not> maybeCancelled then (state, counts, None)
              else case commitRuns (listRuns (lower sha)) sha of
                None \<Rightarrow> (state, counts, None)
              | Some runs \<Rightarrow>
                  (let (state, counts) = (if maybeCancelled then excuse_cancelled v runs statuses (state, counts) else (state, counts));
                       counts = splitWaiting v runs statuses counts
                   in (settledState state counts statuses, counts, None))))"

section \<open>Only cancelled jobs are excused\<close>

text \<open>A failure reference whose job was read, carries the name the status gives, and was cancelled.\<close>

definition ref_excused :: "ci_reads \<Rightarrow> commit_run \<Rightarrow> job_ref \<Rightarrow> bool" where
  "ref_excused v run r \<longleftrightarrow> (\<exists>jobs j. ((\<exists>page. rdPage v run page = Some jobs) \<or> rdJobs v run = Some jobs) \<and>
     j \<in> set jobs \<and> namesJob (jrContext r) (fjName j) \<and> job_cancelled j)"

definition excused :: "ci_reads \<Rightarrow> commit_run list \<Rightarrow> commit_status \<Rightarrow> bool" where
  "excused v runs s \<longleftrightarrow> isFailureStatus s \<and> (\<exists>n job run. jobTarget s = Some (n, job) \<and> run_numbered runs n = Some run \<and>
     ref_excused v run \<lparr>jrPosition = job, jrContext = stContext s\<rparr>)"

lemma name_excuses_job:
  assumes "name_excuses jobs r"
  shows "\<exists>j. j \<in> set jobs \<and> namesJob (jrContext r) (fjName j) \<and> job_cancelled j"
proof -
  obtain j where j: "filter (\<lambda>j. namesJob (jrContext r) (fjName j)) jobs = [j]" "job_cancelled j"
    using assms by (auto simp: name_excuses_def split: list.splits)
  have "j \<in> set (filter (\<lambda>j. namesJob (jrContext r) (fjName j)) jobs)" using j(1) by simp
  then show ?thesis using j(2) unfolding set_filter by blast
qed

lemma cancelledOnPage_job:
  assumes "cancelledOnPage jobs page r = Some True"
  shows "\<exists>j. j \<in> set jobs \<and> namesJob (jrContext r) (fjName j) \<and> job_cancelled j"
proof (cases "jrPosition r mod pageLimit < int (length jobs) \<and> namesJob (jrContext r) (fjName (jobs ! nat (jrPosition r mod pageLimit)))")
  case True
  then have "nat (jrPosition r mod pageLimit) < length jobs" by (simp add: pageLimit_def nat_less_iff)
  then show ?thesis using True assms by (auto simp: cancelledOnPage_def Let_def intro: nth_mem)
next
  case False
  then have "name_excuses jobs r"
    using assms by (auto simp: cancelledOnPage_def cancelledByName_def Let_def split: if_splits)
  then show ?thesis by (rule name_excuses_job)
qed

lemma page_scan_excused:
  "page_scan v run refs = Some (n, lost) \<Longrightarrow>
     n + length (filter (ref_excused v run) lost) \<le> length (filter (ref_excused v run) refs)"
proof (induction refs arbitrary: n lost)
  case (Cons r rs)
  let ?page = "jrPosition r div pageLimit + 1"
  obtain jobs m lost' where p: "rdPage v run ?page = Some jobs" "page_scan v run rs = Some (m, lost')"
    using Cons.prems by (auto simp: Let_def split: option.splits)
  have E: "ref_excused v run r" if "cancelledOnPage jobs ?page r = Some True"
    using cancelledOnPage_job[OF that] p(1) unfolding ref_excused_def by blast
  show ?case using Cons.prems p E Cons.IH[OF p(2)]
    by (cases "cancelledOnPage jobs ?page r") (auto simp: Let_def split: if_splits)
qed simp

lemma cancelledIn_excused:
  assumes "cancelledIn v run refs = Some n"
  shows "n \<le> length (filter (ref_excused v run) refs)"
proof -
  obtain m lost where p: "page_scan v run refs = Some (m, lost)" using assms by (auto simp: cancelledIn_def split: option.splits)
  note scan = page_scan_excused[OF p]
  show ?thesis
  proof (cases "lost = []")
    case False
    then obtain jobs where j: "rdJobs v run = Some jobs" "n = m + cancelledByName jobs lost"
      using assms p by (auto simp: cancelledIn_def split: option.splits if_splits)
    have "ref_excused v run r" if "name_excuses jobs r" for r
      using name_excuses_job[OF that] j(1) unfolding ref_excused_def by blast
    then have "cancelledByName jobs lost \<le> length (filter (ref_excused v run) lost)"
      unfolding cancelledByName_def by (induction lost) auto
    then show ?thesis using j(2) scan by simp
  qed (use assms p scan in \<open>auto simp: cancelledIn_def\<close>)
qed

lemma sum_one: "distinct ks \<Longrightarrow> k \<in> set ks \<Longrightarrow> sum_list (map (\<lambda>x. if k = x then 1 else 0 :: nat) ks) = 1"
proof (induction ks)
  case (Cons a ks)
  have "k \<notin> set ks \<Longrightarrow> sum_list (map (\<lambda>x. if k = x then 1 else 0 :: nat) ks) = 0" by (induction ks) auto
  then show ?case using Cons by auto
qed simp

lemma sum_by_key:
  fixes key :: "'a \<Rightarrow> 'k"
  assumes "distinct ks" "key ` set xs \<subseteq> set ks"
  shows "sum_list (map (\<lambda>k. length (filter P (filter (\<lambda>p. key p = k) xs))) ks) = length (filter P xs)"
  using assms(2)
proof (induction xs)
  case Nil
  then show ?case by (simp add: sum_list_0)
next
  case (Cons x xs)
  have one: "sum_list (map (\<lambda>k. if key x = k then 1 else 0 :: nat) ks) = 1"
    using sum_one[OF assms(1), of "key x"] Cons.prems by simp
  have "sum_list (map (\<lambda>k. length (filter P (filter (\<lambda>p. key p = k) (x # xs)))) ks) =
      sum_list (map (\<lambda>k. (if P x then if key x = k then 1 else 0 else 0) + length (filter P (filter (\<lambda>p. key p = k) xs))) ks)"
    by (rule arg_cong[where f = sum_list], rule map_cong) auto
  also have "\<dots> = (if P x then 1 else 0) + length (filter P xs)"
    using Cons one by (simp add: sum_list_addf sum_list_0)
  finally show ?case by simp
qed

lemma pointed_excused:
  "length (filter (\<lambda>(n, r). ref_excused v (the (run_numbered runs n)) r) (pointed_refs runs statuses)) \<le>
   length (filter (excused v runs) statuses)"
proof (induction statuses)
  case (Cons s ss)
  have "pointed_refs runs (s # ss) = pointed_refs runs [s] @ pointed_refs runs ss" by (simp add: pointed_refs_def)
  moreover have "length (filter (\<lambda>(n, r). ref_excused v (the (run_numbered runs n)) r) (pointed_refs runs [s])) \<le>
      (if excused v runs s then 1 else 0)"
    by (auto simp: pointed_refs_def excused_def split: option.splits)
  ultimately show ?case using Cons by auto
qed (simp add: pointed_refs_def)

lemma cancelled_are_excused:
  "cancelledFailures v runs statuses \<le> length (filter (excused v runs) statuses)"
proof -
  let ?pointed = "pointed_refs runs statuses"
  let ?E = "\<lambda>(n, r). ref_excused v (the (run_numbered runs n)) r"
  let ?ks = "remdups (map fst ?pointed)"
  have each: "(case cancelledIn v (the (run_numbered runs n)) (map snd (filter (\<lambda>p. fst p = n) ?pointed)) of
      Some k \<Rightarrow> k | None \<Rightarrow> 0) \<le> length (filter ?E (filter (\<lambda>p. fst p = n) ?pointed))" for n
  proof -
    have eq: "length (filter (ref_excused v (the (run_numbered runs n))) (map snd (filter (\<lambda>p. fst p = n) ?pointed))) =
        length (filter ?E (filter (\<lambda>p. fst p = n) ?pointed))"
      by (simp add: filter_map comp_def, rule arg_cong[where f = length], rule filter_cong) auto
    show ?thesis unfolding eq[symmetric]
      by (cases "cancelledIn v (the (run_numbered runs n)) (map snd (filter (\<lambda>p. fst p = n) ?pointed))")
        (simp_all only: option.case cancelledIn_excused zero_le)
  qed
  have "cancelledFailures v runs statuses \<le> sum_list (map (\<lambda>n. length (filter ?E (filter (\<lambda>p. fst p = n) ?pointed))) ?ks)"
    unfolding cancelledFailures_def failuresByRun_def Let_def map_map comp_def prod.case
    by (rule sum_list_mono) (rule each)
  also have "\<dots> = length (filter ?E ?pointed)" by (rule sum_by_key) auto
  also have "\<dots> \<le> length (filter (excused v runs) statuses)" by (rule pointed_excused)
  finally show ?thesis .
qed

lemma fold_count_status:
  "Failed (fold count_status ss c) = Failed c + int (length (filter isFailureStatus ss))"
  "Waiting (fold count_status ss c) = Waiting c + int (length (filter (\<lambda>s. stState s = ''pending'') ss))"
  "Running (fold count_status ss c) = Running c"
  by (induction ss arbitrary: c) (simp_all add: count_status_def isFailureStatus_def)

lemma all_filtered:
  assumes "length (filter P xs) \<le> length (filter Q xs)" "\<And>x. Q x \<Longrightarrow> P x" "x \<in> set xs" "P x"
  shows "Q x"
proof (rule ccontr)
  assume "\<not> Q x"
  then have "length (filter Q (filter P xs)) < length (filter P xs)"
    using assms(3,4) by (intro length_filter_less[of x]) auto
  moreover have "filter Q (filter P xs) = filter Q xs" using assms(2) by (simp add: filter_filter) (metis)
  ultimately show False using assms(1) by simp
qed

lemma failure_dropped:
  assumes "ask sha = Inr combined" "statusFromCombinedState_forgejo (cbState combined) = CIFailure"
    and "ciStatus v ask listRuns sha = (state, counts, None)" "state \<noteq> CIFailure" "sha \<noteq> ''''"
  shows "\<exists>runs. commitRuns (listRuns (lower sha)) sha = Some runs \<and>
    (\<forall>s. s \<in> set (cbStatuses combined) \<longrightarrow> isFailureStatus s \<longrightarrow> excused v runs s)"
proof -
  let ?ss = "cbStatuses combined"
  let ?c = "if statusListIsCapped (cbReported combined) (cbTotalCount combined) ?ss then no_checks else checkCountsOf_forgejo ?ss"
  have settled: "settledState CIFailure c s = CIFailure" for c s by (simp add: settledState_def)
  have stays: "state = CIFailure" if "commitRuns (listRuns (lower sha)) sha = None \<or> \<not> (Failed ?c > 0 \<and> hasJobTarget ?ss)"
    using that assms(1-3,5) by (auto simp: ciStatus_def Let_def settled split: if_splits option.splits)
  have f: "Failed ?c > 0" "hasJobTarget ?ss" using stays assms(4) by blast+
  obtain runs where r: "commitRuns (listRuns (lower sha)) sha = Some runs"
    using stays assms(4) by (cases "commitRuns (listRuns (lower sha)) sha") blast+
  have "fst (excuse_cancelled v runs ?ss (CIFailure, ?c)) \<noteq> CIFailure"
  proof
    assume "fst (excuse_cancelled v runs ?ss (CIFailure, ?c)) = CIFailure"
    then obtain c where "excuse_cancelled v runs ?ss (CIFailure, ?c) = (CIFailure, c)" by (metis prod.collapse)
    then have "ciStatus v ask listRuns sha = (CIFailure, splitWaiting v runs ?ss c, None)"
      using assms(1,2,5) r f by (simp add: ciStatus_def Let_def settled)
    then show False using assms(3,4) by simp
  qed
  note runs = r f this
  have capped: "\<not> statusListIsCapped (cbReported combined) (cbTotalCount combined) ?ss"
    using runs(2) by (auto simp: no_checks_def split: if_splits)
  have n: "Failed ?c - int (cancelledFailures v runs ?ss) = 0"
    using runs(4) by (auto simp: excuse_cancelled_def Let_def split: if_splits)
  have "Failed ?c = int (length (filter isFailureStatus ?ss))"
    using capped by (simp add: checkCountsOf_forgejo_def fold_count_status no_checks_def)
  then have "length (filter isFailureStatus ?ss) \<le> length (filter (excused v runs) ?ss)"
    using n cancelled_are_excused[of v runs ?ss] by simp
  then have "excused v runs s" if "s \<in> set ?ss" "isFailureStatus s" for s
    using all_filtered[of isFailureStatus ?ss "excused v runs" s] that by (auto simp: excused_def)
  then show ?thesis using runs(1) by blast
qed

text \<open>No count goes negative, and what runs or waits was pending.\<close>

lemma splitWaiting_bounds:
  assumes "0 \<le> Waiting c" "Running c = 0"
  shows "0 \<le> Waiting (splitWaiting v runs ss c)" "0 \<le> Running (splitWaiting v runs ss c)"
    "Running (splitWaiting v runs ss c) + Waiting (splitWaiting v runs ss c) \<le> Waiting c"
    "Failed (splitWaiting v runs ss c) = Failed c" "Passed (splitWaiting v runs ss c) = Passed c"
  using assms by (auto simp: splitWaiting_def splitRunning_def Let_def)

lemma excuse_keeps:
  assumes "excuse_cancelled v runs ss (state, c) = (state', c')"
  shows "Waiting c' = Waiting c" "Running c' = Running c" "Passed c' = Passed c"
    "Failed c' = Failed c - int (cancelledFailures v runs ss)"
  using assms by (auto simp: excuse_cancelled_def Let_def split: if_splits)

lemma excused_failures: "length (filter (excused v runs) ss) \<le> length (filter isFailureStatus ss)"
  by (induction ss) (auto simp: excused_def)

lemma counts_bounded:
  assumes "ask sha = Inr combined" "ciStatus v ask listRuns sha = (state, counts, err)"
  shows "0 \<le> Failed counts" "0 \<le> Waiting counts" "0 \<le> Running counts"
    "Running counts + Waiting counts \<le> int (length (filter (\<lambda>s. stState s = ''pending'') (cbStatuses combined)))"
proof -
  let ?ss = "cbStatuses combined"
  let ?c = "if statusListIsCapped (cbReported combined) (cbTotalCount combined) ?ss then no_checks else checkCountsOf_forgejo ?ss"
  let ?pending = "int (length (filter (\<lambda>s. stState s = ''pending'') ?ss))"
  have c: "0 \<le> Failed ?c" "0 \<le> Waiting ?c" "Running ?c = 0" "Waiting ?c \<le> ?pending"
    by (auto simp: checkCountsOf_forgejo_def fold_count_status no_checks_def)
  have fails: "Failed ?c - int (cancelledFailures v runs ?ss) \<ge> 0" if "Failed ?c > 0" for runs
  proof -
    have "Failed ?c = int (length (filter isFailureStatus ?ss))"
      using that by (auto simp: checkCountsOf_forgejo_def fold_count_status no_checks_def split: if_splits)
    moreover have "length (filter (excused v runs) ?ss) \<le> length (filter isFailureStatus ?ss)" by (rule excused_failures)
    ultimately show ?thesis using cancelled_are_excused[of v runs ?ss] by linarith
  qed
  define base where "base = ?c"
  define st0 where "st0 = statusFromCombinedState_forgejo (cbState combined)"
  define may where "may \<longleftrightarrow> Failed base > 0 \<and> hasJobTarget ?ss"
  define mid where "mid runs = (if may then excuse_cancelled v runs ?ss (st0, base) else (st0, base))" for runs
  have shape: "ciStatus v ask listRuns sha =
      (if sha = '''' then (CINone, no_checks, None) else if Waiting base = 0 \<and> \<not> may then (st0, base, None)
       else case commitRuns (listRuns (lower sha)) sha of None \<Rightarrow> (st0, base, None)
            | Some runs \<Rightarrow> (settledState (fst (mid runs)) (splitWaiting v runs ?ss (snd (mid runs))) ?ss, splitWaiting v runs ?ss (snd (mid runs)), None))"
    using assms(1) unfolding ciStatus_def Let_def base_def st0_def may_def mid_def
    by (cases "commitRuns (listRuns (lower sha)) sha") (auto split: prod.splits)
  have "counts = no_checks \<or> counts = base \<or> (\<exists>runs. counts = splitWaiting v runs ?ss (snd (mid runs)))"
    using assms(2) shape by (auto split: if_splits option.splits)
  then consider "counts = no_checks" | "counts = base" | runs where "counts = splitWaiting v runs ?ss (snd (mid runs))"
    by blast
  then have ok: "0 \<le> Failed counts \<and> 0 \<le> Waiting counts \<and> 0 \<le> Running counts \<and> Running counts + Waiting counts \<le> ?pending"
  proof cases
    case 1
    then show ?thesis by (simp add: no_checks_def)
  next
    case 2
    then show ?thesis using c unfolding base_def[symmetric] by simp
  next
    case (3 runs)
    have b: "0 \<le> Failed base" "0 \<le> Waiting base" "Running base = 0" "Waiting base \<le> ?pending" using c unfolding base_def by auto
    have f: "0 < Failed base \<Longrightarrow> 0 \<le> Failed base - int (cancelledFailures v runs ?ss)"
      using fails[of runs] unfolding base_def by simp
    obtain st' c' where e: "excuse_cancelled v runs ?ss (st0, base) = (st', c')" by (cases "excuse_cancelled v runs ?ss (st0, base)")
    have mid: "Waiting (snd (mid runs)) = Waiting base" "Running (snd (mid runs)) = 0" "0 \<le> Failed (snd (mid runs))"
      using b f excuse_keeps[OF e] e by (simp_all add: mid_def may_def)
    then show ?thesis using splitWaiting_bounds[of "snd (mid runs)" v runs ?ss] b 3 by simp
  qed
  then show "0 \<le> Failed counts" "0 \<le> Waiting counts" "0 \<le> Running counts" "Running counts + Waiting counts \<le> ?pending" by auto
qed

section \<open>The list of checks\<close>

definition checkStateFromCombinedState_forgejo :: "string \<Rightarrow> check_state" where
  "checkStateFromCombinedState_forgejo state =
     (if state = ''success'' then CheckSuccess
      else if state = ''failure'' \<or> state = ''error'' then CheckFailure else CheckRunning)"

text \<open>\<open>path.Base\<close> and \<open>path.Ext\<close> of a path as the forge sends it.\<close>

definition path_base :: "string \<Rightarrow> string" where
  "path_base p = (if p = '''' then ''.'' else let t = trim_right_set (\<lambda>c. c = CHR ''/'') p in
     if t = '''' then ''/'' else (case cut_last t (CHR ''/'') of Some (_, b) \<Rightarrow> b | None \<Rightarrow> t))"

definition path_ext :: "string \<Rightarrow> string" where
  "path_ext p = (case cut_last (case cut_last p (CHR ''/'') of Some (_, b) \<Rightarrow> b | None \<Rightarrow> p) (CHR ''.'') of
     Some (_, e) \<Rightarrow> CHR ''.'' # e | None \<Rightarrow> '''')"

definition workflowContext :: "commit_run \<Rightarrow> string \<Rightarrow> string" where
  "workflowContext run job = trim_suffix (path_base (crPath run)) (path_ext (crPath run)) @ '' / '' @ job @ '' ('' @ crEvent run @ '')''"

text \<open>\<open>name\<close> is the workflow's name for a person.\<close>

definition queuedRunCheck :: "(commit_run \<Rightarrow> string) \<Rightarrow> commit_run \<Rightarrow> forgejo_job list \<Rightarrow> check option" where
  "queuedRunCheck name run jobs = (let state = checkStateFromWorkflowStatus (crStatus run) in
     if jobs \<noteq> [] \<or> (state \<noteq> CheckRunning \<and> state \<noteq> CheckQueued) then None
     else Some (withRunFacts (crStatus run) (crStartedAt run) (crCompletedAt run)
       (withRun (crID run) (name run) (crNumber run) (plain_check (name run) state (crHTMLURL run) ''''))))"

definition actionJobCheck :: "(commit_run \<Rightarrow> string) \<Rightarrow> commit_run \<Rightarrow> forgejo_job \<Rightarrow> check" where
  "actionJobCheck name run j = withRunFacts (crStatus run) (crStartedAt run) (crCompletedAt run)
     (withRun (crID run) (name run) (crNumber run)
       (withJobTimes j ((plain_check (fjName j) (checkStateFromWorkflowStatus (fjStatus j)) (fjHTMLURL j)
          (reportedConclusion (fjStatus j)))\<lparr>ckJobID := fjID j, ckRunAttempt := fjRunAttempt j\<rparr>)))"

definition checksFromCombinedStatus :: "combined_status \<Rightarrow> check list" where
  "checksFromCombinedStatus combined =
     map (\<lambda>s. plain_check (stContext s) (checkStateFromCombinedState_forgejo (stState s)) (stTargetURL s) '''') (cbStatuses combined)"

text \<open>Each check with the longer context an Actions job reports under, or \<open>[]\<close>.\<close>

fun action_checks :: "(commit_run \<Rightarrow> go_error + forgejo_job list) \<Rightarrow> (commit_run \<Rightarrow> string) \<Rightarrow> commit_run list \<Rightarrow>
    go_error + (check \<times> string) list" where
  "action_checks read name [] = Inr []"
| "action_checks read name (run # runs) = (case read run of
     Inl e \<Rightarrow> Inl e
   | Inr jobs \<Rightarrow> (case action_checks read name runs of
       Inl e \<Rightarrow> Inl e
     | Inr rest \<Rightarrow> Inr ((case queuedRunCheck name run jobs of Some stand \<Rightarrow> [(stand, '''')] | None \<Rightarrow> []) @
         map (\<lambda>j. (actionJobCheck name run j, workflowContext run (fjName j))) jobs @ rest)))"

text \<open>\<open>runs\<close>: the runs of the commit, or the error and whether it is a 404.\<close>

definition listChecksForSHA :: "(go_error \<times> bool) + commit_run list \<Rightarrow> (commit_run \<Rightarrow> go_error + forgejo_job list) \<Rightarrow>
    (commit_run \<Rightarrow> string) \<Rightarrow> go_error + combined_status \<Rightarrow> go_error + (check \<times> string) list" where
  "listChecksForSHA runs read name combined =
     (let legacy = (case combined of Inl e \<Rightarrow> Inl e | Inr cs \<Rightarrow> Inr (map (\<lambda>c. (c, '''')) (checksFromCombinedStatus cs)))
      in case runs of
        Inl (e, notFound) \<Rightarrow> if notFound then legacy else Inl e
      | Inr [] \<Rightarrow> legacy
      | Inr rs \<Rightarrow> action_checks read name rs)"

section \<open>Required checks\<close>

text \<open>
  A glob as \<open>globRegexp\<close> compiles it. A byte is written with \<open>string(ch)\<close>, which makes it the UTF-8 of
  the code point of that value: itself below 128, two bytes from there on.
\<close>

datatype glob_token = GlobLit string | GlobStar bool | GlobOne bool    \<comment> \<open>whether it may match a slash\<close>

definition byte_literal :: "char \<Rightarrow> string" where
  "byte_literal c = (if byte c < 128 then [c] else [char_of (192 + byte c div 64), char_of (128 + byte c mod 64)])"

fun globRegexp :: "bool \<Rightarrow> string \<Rightarrow> glob_token list" where
  "globRegexp segments [] = []"
| "globRegexp segments (c # s) =
     (if c = CHR ''*''
      then (case s of
          d # t \<Rightarrow> if d = CHR ''*'' then GlobStar True # globRegexp segments t
            else GlobStar (\<not> segments) # globRegexp segments s
        | [] \<Rightarrow> [GlobStar (\<not> segments)])
      else if c = CHR ''?'' then GlobOne (\<not> segments) # globRegexp segments s
      else GlobLit (byte_literal c) # globRegexp segments s)"

text \<open>The next rune, if the wildcard takes it: \<open>.\<close> is no newline, \<open>[^/]\<close> no slash.\<close>

definition wild_rest :: "bool \<Rightarrow> string \<Rightarrow> string option" where
  "wild_rest slash s = (case s of [] \<Rightarrow> None
     | c # _ \<Rightarrow> if c = (if slash then CHR 0x0A else CHR ''/'') then None else Some (drop (rune_width s) s))"

lemma wild_rest_less: "wild_rest slash s = Some r \<Longrightarrow> length r < length s"
  using rune_width_bounds[of s] by (auto simp: wild_rest_def split: list.splits if_splits)

function glob_match :: "glob_token list \<Rightarrow> string \<Rightarrow> bool" where
  "glob_match [] s = (s = [])"
| "glob_match (GlobLit l # ts) s = (case cut_prefix s l of Some r \<Rightarrow> glob_match ts r | None \<Rightarrow> False)"
| "glob_match (GlobOne slash # ts) s = (case wild_rest slash s of Some r \<Rightarrow> glob_match ts r | None \<Rightarrow> False)"
| "glob_match (GlobStar slash # ts) s = (glob_match ts s \<or>
     (case wild_rest slash s of Some r \<Rightarrow> glob_match (GlobStar slash # ts) r | None \<Rightarrow> False))"
  by pat_completeness auto
termination
  by (relation "(\<lambda>(ts, s). length ts) <*mlex*> (\<lambda>(ts, s). length s) <*mlex*> {}")
    (auto simp: mlex_prod_def dest: wild_rest_less intro: wf_mlex)

record branch_rule =
  blRuleName :: string
  blBranchName :: string
  blEnableStatusCheck :: bool
  blContexts :: "string list"

definition rule_name :: "branch_rule \<Rightarrow> string" where
  "rule_name r = (if blRuleName r \<noteq> '''' then blRuleName r else blBranchName r)"

definition protectionForBranch :: "branch_rule list \<Rightarrow> string \<Rightarrow> branch_rule option" where
  "protectionForBranch rules branch = (case find (\<lambda>r. rule_name r = branch) rules of
       Some r \<Rightarrow> Some r
     | None \<Rightarrow> find (\<lambda>r. glob_match (globRegexp True (rule_name r)) branch) rules)"

definition requiredPatterns :: "branch_rule list \<Rightarrow> string \<Rightarrow> glob_token list list" where
  "requiredPatterns rules base = (case protectionForBranch rules base of
       Some rule \<Rightarrow> if blEnableStatusCheck rule then map (globRegexp False) (blContexts rule) else []
     | None \<Rightarrow> [])"

definition matchesAny :: "glob_token list list \<Rightarrow> string \<Rightarrow> bool" where
  "matchesAny patterns s \<longleftrightarrow> list_ex (\<lambda>p. glob_match p s) patterns"

definition mark_check :: "glob_token list list \<Rightarrow> check \<times> string \<Rightarrow> check" where
  "mark_check patterns cp = (case cp of (c, probe) \<Rightarrow>
     (let isJob = (probe \<noteq> '''') in
      if matchesAny patterns (ckName c) \<or> (isJob \<and> matchesAny patterns probe) then c\<lparr>ckRequired := Some True\<rparr>
      else if \<not> isJob \<and> ckRunID c = 0 then c\<lparr>ckRequired := Some False\<rparr> else c))"

text \<open>\<open>rules\<close> is \<open>None\<close> where they cannot be read, which needs an admin.\<close>

definition markRequired_forgejo :: "branch_rule list option \<Rightarrow> string \<Rightarrow> (check \<times> string) list \<Rightarrow> check list" where
  "markRequired_forgejo rules base checks =
     (if base = '''' \<or> checks = [] then map fst checks
      else case rules of
        None \<Rightarrow> map fst checks
      | Some rs \<Rightarrow> map (mark_check (requiredPatterns rs base)) checks)"

text \<open>\<open>pr\<close>: the pull request's head commit and base branch.\<close>

definition ListChecks_forgejo :: "go_error + string \<times> string \<Rightarrow> (string \<Rightarrow> (go_error \<times> bool) + commit_run list) \<Rightarrow>
    (commit_run \<Rightarrow> go_error + forgejo_job list) \<Rightarrow> (commit_run \<Rightarrow> string) \<Rightarrow> (string \<Rightarrow> go_error + combined_status) \<Rightarrow>
    branch_rule list option \<Rightarrow> go_error + check list" where
  "ListChecks_forgejo pr runs read name combined rules = (case pr of
       Inl e \<Rightarrow> Inl e
     | Inr (sha, base) \<Rightarrow>
         if sha = '''' then Inr []
         else (case listChecksForSHA (runs sha) read name (combined sha) of
             Inl e \<Rightarrow> Inl e
           | Inr checks \<Rightarrow> Inr (markRequired_forgejo rules base checks)))"

text \<open>A pattern of plain ASCII with no wildcard matches exactly itself; one byte beyond ASCII does not.\<close>

lemma glob_plain:
  assumes "list_all (\<lambda>c. c \<noteq> CHR ''*'' \<and> c \<noteq> CHR ''?'' \<and> byte c < 128) p"
  shows "glob_match (globRegexp segments p) s \<longleftrightarrow> s = p"
  using assms
proof (induction p arbitrary: s)
  case (Cons c p)
  then show ?case by (cases s) (auto simp: byte_literal_def cut_prefix_def has_prefix_def)
qed simp

lemma glob_not_ascii: "\<not> matchesAny (map (globRegexp False) [[CHR 0xC3, CHR 0xA9]]) [CHR 0xC3, CHR 0xA9]"
  by code_simp


section \<open>What a failing rollup may forget\<close>

text \<open>
  C34: a failing pull request is never shown as anything better by mistake. Where the forge says the
  commit failed and the rollup says otherwise, the runs of the commit were read, and every failure
  status of it names an Actions job of one of those runs that was read, carries that job's name and
  was cancelled.
\<close>

theorem only_cancelled_excused:
  assumes "ask sha = Inr combined" "statusFromCombinedState_forgejo (cbState combined) = CIFailure"
    and "ciStatus v ask listRuns sha = (state, counts, None)" "state \<noteq> CIFailure" "sha \<noteq> ''''"
  shows "\<exists>runs. commitRuns (listRuns (lower sha)) sha = Some runs \<and>
    (\<forall>s. s \<in> set (cbStatuses combined) \<longrightarrow> isFailureStatus s \<longrightarrow> excused v runs s)"
  by (rule failure_dropped[OF assms])

definition demo_status :: commit_status where
  "demo_status = \<lparr>stState = ''failure'', stContext = ''ci / test (push)'', stTargetURL = ''/o/r/actions/runs/7/jobs/0''\<rparr>"

definition demo_commit_run :: commit_run where
  "demo_commit_run = \<lparr>crID = 70, crNumber = 7, crStatus = ''cancelled'', crEvent = ''push'', crHeadSha = ''ab'',
     crPath = ''.forgejo/workflows/ci.yml'', crHTMLURL = '''', crStartedAt = 0, crCompletedAt = 0\<rparr>"

definition demo_ci_job :: forgejo_job where
  "demo_ci_job = \<lparr>fjID = 700, fjName = ''test'', fjStatus = ''cancelled'', fjHTMLURL = '''',
     fjRunAttempt = 1, fjStartedAt = 0, fjCompletedAt = 0\<rparr>"

definition demo_combined :: combined_status where
  "demo_combined = \<lparr>cbState = ''failure'', cbTotalCount = 1, cbReported = None, cbStatuses = [demo_status]\<rparr>"

definition demo_reads :: "forgejo_job list \<Rightarrow> ci_reads" where
  "demo_reads jobs = \<lparr>rdPage = (\<lambda>_ page. Some jobs), rdJobs = (\<lambda>_. Some jobs), rdNow = (\<lambda>_. Some jobs)\<rparr>"

lemma demo_cancelled: "ciStatus (demo_reads [demo_ci_job]) (\<lambda>_. Inr demo_combined) (\<lambda>_. Some [demo_commit_run]) ''ab'' = (CINone, no_checks, None)"
  by code_simp

theorem only_cancelled_excused_witness:
  "\<exists>runs. commitRuns (Some [demo_commit_run]) ''ab'' = Some runs \<and>
    (\<forall>s. s \<in> set (cbStatuses demo_combined) \<longrightarrow> isFailureStatus s \<longrightarrow> excused (demo_reads [demo_ci_job]) runs s)"
proof -
  have "statusFromCombinedState_forgejo (cbState demo_combined) = CIFailure" by code_simp
  from only_cancelled_excused[OF refl this demo_cancelled] show ?thesis by simp
qed

end
