(* ===== verification/Forgejo_Requests.thy ===== *)
theory Forgejo_Requests
  imports Forgejo_Ci Rebase_Checkbox Generic_Source "HOL-Library.AList" "HOL-Library.Multiset"
begin

text \<open>
  What the Forgejo client makes of the forge's answers, \<open>internal/forgejo\<close> (\<open>client.go\<close>,
  \<open>scheduled_merge.go\<close>): its errors, listings page by page, hooks, the deletion of a merged branch, the
  small writes, the review state and its cache, scheduled merges and the rows of pull requests and
  issues. The SDK's answers are parameters. A listing answers a page and the number of the next, 0
  for none; since nothing but the forge ends it, the walk is a partial function.
\<close>

section \<open>Errors\<close>

text \<open>
  A failed call of the SDK: its text, the status and Retry-After header of the response if one came, and
  whether its chain holds \<open>errForgeRefused\<close>.
\<close>

record sdk_error =
  seText :: string
  seStatus :: "int option"
  seRetryAfter :: string
  seRefused :: bool

record fj_env =
  fvNow :: time
  fvParseTime :: "string \<Rightarrow> time option"                         \<comment> \<open>\<open>http.ParseTime\<close>\<close>
  fvParseURL :: "string \<Rightarrow> (string \<times> string \<times> string) option"      \<comment> \<open>scheme, host name, path\<close>

definition forgeErrorKind :: "int \<Rightarrow> forge_error_kind" where
  "forgeErrorKind status =
     (if status = 401 \<or> status = 403 then ForgeErrorUnauthorized
      else if status = 404 then ForgeErrorNotFound
      else if status = 429 then ForgeErrorRateLimited
      else if status = 405 \<or> status = 409 then ForgeErrorConflict
      else ForgeErrorUnknown)"

definition reset_at :: "time \<Rightarrow> rate_limit" where
  "reset_at t = \<lparr>rlLimit = 0, rlRemaining = 0, rlResetsAt = t, rlCost = 0\<rparr>"

definition rateLimitFromRetryAfter :: "fj_env \<Rightarrow> string \<Rightarrow> rate_limit option" where
  "rateLimitFromRetryAfter v h = (let h = trim_space h in
     if h = '''' then None
     else (case atoi h of
         Some seconds \<Rightarrow> if seconds < 0 then None else Some (reset_at (fvNow v + i64 (seconds * second)))
       | None \<Rightarrow> map_option reset_at (fvParseTime v h)))"

text \<open>The client error and the status the log would hold.\<close>

definition classifyForgejoError :: "fj_env \<Rightarrow> string \<Rightarrow> string \<Rightarrow> sdk_error \<Rightarrow> client_error \<times> int" where
  "classifyForgejoError v verb path e =
     (let msg = (case seStatus e of
            Some _ \<Rightarrow> if seRetryAfter e \<noteq> '''' then seText e @ '' (retry after '' @ seRetryAfter e @ ''s)'' else seText e
          | None \<Rightarrow> seText e);
          kind = (case seStatus e of Some st \<Rightarrow> forgeErrorKind st | None \<Rightarrow> ForgeErrorUnreachable);
          reason = (if seRefused e then seText e else ''refused: '' @ msg)
      in (\<lparr>ceKind = kind, ceErr = ''forgejo: '' @ verb @ '' '' @ path @ '': '' @ reason,
           ceRateLimit = (if kind = ForgeErrorRateLimited then rateLimitFromRetryAfter v (seRetryAfter e) else None),
           cePermissionMessage = '''',
           ceUpstreamStatus = (case seStatus e of Some st \<Rightarrow> if st \<ge> 500 \<and> st < 600 then st else 0 | None \<Rightarrow> 0),
           ceRequestID = '''', cePartial = '''', ceMayHaveRestarted = False\<rparr>,
          case seStatus e of Some st \<Rightarrow> st | None \<Rightarrow> 0))"

definition client_failure :: "client_error \<Rightarrow> go_error" where
  "client_failure c = \<lparr>errText = ceErr c, errClient = Some c\<rparr>"

definition forgejoError :: "fj_env \<Rightarrow> string \<Rightarrow> string \<Rightarrow> sdk_error \<Rightarrow> go_error" where
  "forgejoError v verb path e = client_failure (fst (classifyForgejoError v verb path e))"

definition fj_repo_path :: "string \<Rightarrow> string \<Rightarrow> string \<Rightarrow> string" where
  "fj_repo_path owner name rest = ''/repos/'' @ owner @ ''/'' @ name @ rest"

definition pull_path :: "item \<Rightarrow> string \<Rightarrow> string" where
  "pull_path it rest = (case it of (owner, name, n) \<Rightarrow> fj_repo_path owner name (''/pulls/'' @ itoa n @ rest))"

definition failed_as :: "fj_env \<Rightarrow> string \<Rightarrow> string \<Rightarrow> sdk_error option \<Rightarrow> go_error option" where
  "failed_as v verb path = map_option (forgejoError v verb path)"

section \<open>Listings\<close>

type_synonym 'a pages = "int \<Rightarrow> sdk_error + 'a list \<times> int"

text \<open>\<open>step\<close> takes a page and the state: \<open>Inl\<close> goes on, \<open>Inr\<close> returns at once. A page that fails ends the walk with the state so far.\<close>

partial_function (option) walk_pages :: "'a pages \<Rightarrow> ('a list \<Rightarrow> 's \<Rightarrow> 's + 'r) \<Rightarrow> int \<Rightarrow> 's \<Rightarrow> (sdk_error \<times> 's + 's + 'r) option" where
  "walk_pages ask step page s = (case ask page of
       Inl e \<Rightarrow> Some (Inl (e, s))
     | Inr (batch, next) \<Rightarrow> (case step batch s of
           Inr r \<Rightarrow> Some (Inr (Inr r))
         | Inl s \<Rightarrow> if next = 0 then Some (Inr (Inl s)) else walk_pages ask step next s))"

definition collect :: "('a list \<Rightarrow> 'b list) \<Rightarrow> 'a list \<Rightarrow> 'b list \<Rightarrow> 'b list + unit" where
  "collect f batch acc = Inl (acc @ f batch)"

definition list_all_pages :: "'a pages \<Rightarrow> ('a list \<Rightarrow> 'b list) \<Rightarrow> (sdk_error + 'b list) option" where
  "list_all_pages ask f = (case walk_pages ask (collect f) 0 [] of
       None \<Rightarrow> None
     | Some (Inl (e, _)) \<Rightarrow> Some (Inl e)
     | Some (Inr (Inl xs)) \<Rightarrow> Some (Inr xs)
     | Some (Inr (Inr _)) \<Rightarrow> Some (Inr []))"

definition seek_step :: "('a \<Rightarrow> bool) \<Rightarrow> 'a list \<Rightarrow> unit \<Rightarrow> unit + 'a" where
  "seek_step P batch s = (case find P batch of Some x \<Rightarrow> Inr x | None \<Rightarrow> Inl ())"

text \<open>The first entry of the listing that fits; the pages after it are not asked for.\<close>

definition seek_pages :: "'a pages \<Rightarrow> ('a \<Rightarrow> bool) \<Rightarrow> (sdk_error + 'a option) option" where
  "seek_pages ask P = (case walk_pages ask (seek_step P) 0 () of
       None \<Rightarrow> None
     | Some (Inl (e, _)) \<Rightarrow> Some (Inl e)
     | Some (Inr (Inl _)) \<Rightarrow> Some (Inr None)
     | Some (Inr (Inr x)) \<Rightarrow> Some (Inr (Some x)))"

text \<open>A forge that numbers its pages upwards to a last one, as Forgejo's Link header does.\<close>

definition pages_end :: "'a pages \<Rightarrow> bool" where
  "pages_end ask \<longleftrightarrow> (\<exists>bound. \<forall>page batch next. ask page = Inr (batch, next) \<longrightarrow> next = 0 \<or> page < next \<and> next \<le> bound)"

lemma walk_returns:
  assumes "\<And>page batch next. ask page = Inr (batch, next) \<Longrightarrow> next = 0 \<or> page < next \<and> next \<le> bound"
  shows "\<exists>r. walk_pages ask step page s = Some r"
proof (induction "nat (bound - page)" arbitrary: page s rule: less_induct)
  case less
  show ?case
  proof (cases "ask page")
    case (Inr p)
    obtain batch nxt where p: "p = (batch, nxt)" by (cases p)
    show ?thesis
    proof (cases "step batch s")
      case (Inl s')
      show ?thesis
      proof (cases "nxt = 0")
        case False
        then have "page < nxt" "nxt \<le> bound" using assms[of page batch nxt] Inr p by auto
        then have "\<exists>r. walk_pages ask step nxt s' = Some r" by (intro less) auto
        then show ?thesis using Inr p Inl False by (subst walk_pages.simps) simp
      qed (use Inr p Inl in \<open>subst walk_pages.simps, simp\<close>)
    qed (use Inr p in \<open>subst walk_pages.simps, simp\<close>)
  qed (subst walk_pages.simps, simp)
qed

lemma walk_ends: "pages_end ask \<Longrightarrow> \<exists>r. walk_pages ask step page s = Some r"
  unfolding pages_end_def by (elim exE) (rule walk_returns, blast)

lemma listing_returns:
  assumes "pages_end ask"
  shows "list_all_pages ask f \<noteq> None" "seek_pages ask P \<noteq> None"
  using walk_ends[OF assms, of "collect f" 0 "[]"] walk_ends[OF assms, of "seek_step P" 0 "()"]
  by (auto simp: list_all_pages_def seek_pages_def split: sum.splits)

section \<open>Hooks\<close>

record fj_hook =
  hkID :: int
  hkURL :: string
  hkEvents :: "string list"

definition WebhookTargetsPath :: "fj_env \<Rightarrow> string \<Rightarrow> string \<Rightarrow> bool" where
  "WebhookTargetsPath v rawURL path =
     (if path = '''' then False else (case fvParseURL v rawURL of None \<Rightarrow> False | Some (_, _, p) \<Rightarrow> p = path))"

definition WebhookCoversEvents :: "string list \<Rightarrow> string list \<Rightarrow> bool" where
  "WebhookCoversEvents have_events want \<longleftrightarrow> list_all (\<lambda>e. e \<in> set have_events) want"

definition forgejoWebhookEvents :: "string list" where
  "forgejoWebhookEvents = [''pull_request'', ''issues'', ''issue_comment'', ''pull_request_comment'',
     ''pull_request_review_comment'', ''pull_request_review_approved'', ''pull_request_review_rejected'', ''push'', ''status'',
     ''action_run_failure'', ''action_run_success'']"

definition upgradeComparedEvents :: "string list" where
  "upgradeComparedEvents = filter (\<lambda>e. e \<noteq> ''status'') forgejoWebhookEvents"

text \<open>What is written: a new hook, or hook \<open>id\<close> active with this address, secret and the events above.\<close>

datatype hook_write = CreateHook string string | EditHook int string string

record hook_api =
  haList :: "fj_hook pages"
  haWrite :: "hook_write \<Rightarrow> sdk_error option"

definition hooks_path :: "string \<Rightarrow> string \<Rightarrow> string" where "hooks_path owner name = fj_repo_path owner name ''/hooks''"

definition findOwnHook :: "fj_env \<Rightarrow> hook_api \<Rightarrow> string \<Rightarrow> string \<Rightarrow> string \<Rightarrow> (go_error + fj_hook option) option" where
  "findOwnHook v api owner name wantPath =
     map_option (case_sum (\<lambda>e. Inl (forgejoError v ''GET'' (hooks_path owner name) e)) Inr)
       (seek_pages (haList api) (\<lambda>h. WebhookTargetsPath v (hkURL h) wantPath))"

definition HasWebhook :: "fj_env \<Rightarrow> hook_api \<Rightarrow> string \<Rightarrow> string \<Rightarrow> string \<Rightarrow> (go_error + bool) option" where
  "HasWebhook v api webhookPath owner name =
     (if webhookPath = '''' then Some (Inr False)
      else map_option (case_sum Inl (\<lambda>h. Inr (h \<noteq> None))) (findOwnHook v api owner name webhookPath))"

definition write_path :: "string \<Rightarrow> string \<Rightarrow> hook_write \<Rightarrow> string" where
  "write_path owner name wr = (case wr of CreateHook _ _ \<Rightarrow> hooks_path owner name
     | EditHook i _ _ \<Rightarrow> hooks_path owner name @ ''/'' @ itoa i)"

definition write_verb :: "hook_write \<Rightarrow> string" where
  "write_verb wr = (case wr of CreateHook _ _ \<Rightarrow> ''POST'' | EditHook _ _ _ \<Rightarrow> ''PATCH'')"

definition badTarget :: "string \<Rightarrow> go_error" where
  "badTarget reason = \<lparr>errText = ''forgejo: invalid webhook target URL: '' @ reason, errClient = None\<rparr>"

text \<open>The error, and the write that was asked. \<open>reason\<close> is what \<open>url.Parse\<close> says of a target it refuses.\<close>

definition EnsureWebhook_forgejo :: "fj_env \<Rightarrow> hook_api \<Rightarrow> string \<Rightarrow> string \<Rightarrow> string \<Rightarrow> string \<Rightarrow> string \<Rightarrow>
    (go_error option \<times> hook_write list) option" where
  "EnsureWebhook_forgejo v api reason owner name targetURL secret = (case fvParseURL v targetURL of
       None \<Rightarrow> Some (Some (badTarget reason), [])
     | Some (_, _, path) \<Rightarrow> (case findOwnHook v api owner name path of
           None \<Rightarrow> None
         | Some (Inl e) \<Rightarrow> Some (Some e, [])
         | Some (Inr existing) \<Rightarrow>
             (let wr = (case existing of Some h \<Rightarrow> EditHook (hkID h) targetURL secret | None \<Rightarrow> CreateHook targetURL secret)
              in Some (failed_as v (write_verb wr) (write_path owner name wr) (haWrite api wr), [wr]))))"

definition UpgradeWebhook_forgejo :: "fj_env \<Rightarrow> hook_api \<Rightarrow> string \<Rightarrow> string \<Rightarrow> string \<Rightarrow> string \<Rightarrow> string \<Rightarrow>
    ((bool \<times> go_error option) \<times> hook_write list) option" where
  "UpgradeWebhook_forgejo v api reason owner name targetURL secret = (case fvParseURL v targetURL of
       None \<Rightarrow> Some ((False, Some (badTarget reason)), [])
     | Some (_, _, path) \<Rightarrow> (case findOwnHook v api owner name path of
           None \<Rightarrow> None
         | Some (Inl e) \<Rightarrow> Some ((False, Some e), [])
         | Some (Inr None) \<Rightarrow> Some ((False, None), [])
         | Some (Inr (Some h)) \<Rightarrow>
             if WebhookCoversEvents (hkEvents h) upgradeComparedEvents then Some ((False, None), [])
             else (let wr = EditHook (hkID h) targetURL secret in
               case failed_as v (write_verb wr) (write_path owner name wr) (haWrite api wr) of
                 Some e \<Rightarrow> Some ((False, Some e), [wr])
               | None \<Rightarrow> Some ((True, None), [wr]))))"

section \<open>Pull requests as the SDK gives them\<close>

record branch_info =
  biRef :: string
  biSha :: string
  biRepoID :: int
  biRepo :: "(string \<times> string) option"        \<comment> \<open>the repository's full name and default branch\<close>

datatype review_kind = ReviewStateApproved | ReviewStateRequestChanges | ReviewStateOther string

record fj_review =
  vwSubmitted :: time
  vwDismissed :: bool
  vwState :: review_kind
  vwReviewer :: "string option"
  vwTeam :: "string option"
  vwComments :: int

record fj_pull =
  fpIndex :: int
  fpTitle :: string
  fpBody :: string
  fpURL :: string
  fpPoster :: "(string \<times> string) option"        \<comment> \<open>login and avatar\<close>
  fpClosed :: bool
  fpMerged :: bool
  fpMergeable :: bool
  fpDraft :: bool
  fpHead :: "branch_info option"
  fpBase :: "branch_info option"
  fpMergeBase :: string
  fpDiff :: "(int \<times> int \<times> int) option"         \<comment> \<open>additions, deletions and files, where all three came\<close>
  fpLabels :: "label list"
  fpCreated :: "time option"
  fpUpdated :: "time option"
  fpRequested :: "string option list"            \<comment> \<open>their logins\<close>
  fpTeams :: nat
  fpComments :: int


definition isEmpty_pull :: "fj_pull \<Rightarrow> bool" where
  "isEmpty_pull p = (case fpDiff p of None \<Rightarrow> False | Some (a, d, n) \<Rightarrow> a = 0 \<and> d = 0 \<and> n = 0)"




section \<open>Deleting a merged branch\<close>

definition branchToDelete :: "fj_pull \<Rightarrow> string \<Rightarrow> string \<Rightarrow> branch_deletion + string" where
  "branchToDelete p owner name = (case fpHead p of
       None \<Rightarrow> Inl (BranchSkipped SkipFork)
     | Some h \<Rightarrow> (case biRepo h of
           None \<Rightarrow> Inl (BranchSkipped SkipFork)
         | Some (fullName, _) \<Rightarrow>
             if fullName \<noteq> owner @ ''/'' @ name then Inl (BranchSkipped SkipFork)
             else if biRef h = '''' then Inl BranchDeleteFailed
             else if (case fpBase p of Some b \<Rightarrow> (case biRepo b of Some (_, def) \<Rightarrow> biRef h = def | None \<Rightarrow> False) | None \<Rightarrow> False)
               then Inl (BranchSkipped SkipDefaultBranch)
             else Inr (biRef h)))"

definition uses_branch :: "string \<Rightarrow> string \<Rightarrow> string \<Rightarrow> fj_pull \<Rightarrow> bool" where
  "uses_branch owner name branch p =
     ((case fpBase p of Some b \<Rightarrow> biRef b = branch | None \<Rightarrow> False) \<or>
      (case fpHead p of Some h \<Rightarrow> biRef h = branch \<and>
          (case biRepo h of Some (fullName, _) \<Rightarrow> equal_fold fullName (owner @ ''/'' @ name) | None \<Rightarrow> False)
        | None \<Rightarrow> False))"

definition branchUseSkip :: "fj_pull pages \<Rightarrow> string \<Rightarrow> string \<Rightarrow> string \<Rightarrow> branch_deletion option option" where
  "branchUseSkip list owner name branch = (case seek_pages list (uses_branch owner name branch) of
       None \<Rightarrow> None
     | Some (Inl _) \<Rightarrow> Some (Some BranchDeleteFailed)
     | Some (Inr (Some _)) \<Rightarrow> Some (Some (BranchSkipped SkipInUse))
     | Some (Inr None) \<Rightarrow> Some None)"

text \<open>
  What the forge answers: the pull request, the open ones, a branch (whether it is protected), and a
  deletion. \<open>DeleteRepoBranch\<close> reports any status but 204 as \<open>False\<close> without an error.
\<close>

record branch_api =
  bpPull :: "sdk_error + fj_pull"
  bpOpen :: "fj_pull pages"
  bpBranch :: "string \<Rightarrow> sdk_error + bool"
  bpDelete :: "string \<Rightarrow> int option \<times> (sdk_error + bool)"

definition removeBranch :: "branch_api \<Rightarrow> string \<Rightarrow> branch_deletion" where
  "removeBranch api branch = (case bpDelete api branch of (status, res) \<Rightarrow>
     if status = Some 404 then BranchDeleted
     else (case res of
         Inr removed \<Rightarrow> if removed then BranchDeleted else BranchDeleteFailed
       | Inl _ \<Rightarrow> BranchDeleteFailed))"

text \<open>The outcome, and the branches whose deletion was asked.\<close>

definition DeletePullRequestBranch_forgejo :: "branch_api \<Rightarrow> string \<Rightarrow> string \<Rightarrow> (branch_deletion \<times> string list) option" where
  "DeletePullRequestBranch_forgejo api owner name = (case bpPull api of
       Inl _ \<Rightarrow> Some (BranchDeleteFailed, [])
     | Inr p \<Rightarrow> (case branchToDelete p owner name of
           Inl skip \<Rightarrow> Some (skip, [])
         | Inr branch \<Rightarrow> (case branchUseSkip (bpOpen api) owner name branch of
               None \<Rightarrow> None
             | Some (Some skip) \<Rightarrow> Some (skip, [])
             | Some None \<Rightarrow> (case bpBranch api branch of
                   Inl e \<Rightarrow> Some (if seStatus e = Some 404 then BranchDeleted else BranchDeleteFailed, [])
                 | Inr protected \<Rightarrow>
                     if protected then Some (BranchSkipped SkipProtected, [])
                     else Some (removeBranch api branch, [branch])))))"

section \<open>The other writes\<close>

text \<open>\<open>mergeStyle\<close> is the SDK's \<open>MergeStyleMerge\<close>.\<close>

definition MergePullRequest_forgejo :: "fj_env \<Rightarrow> string \<Rightarrow> sdk_error + string \<Rightarrow> (string \<Rightarrow> sdk_error option) \<Rightarrow> item \<Rightarrow> go_error option" where
  "MergePullRequest_forgejo v mergeStyle defaultStyle post it = (case it of (owner, name, n) \<Rightarrow> (case defaultStyle of
       Inl e \<Rightarrow> Some (forgejoError v ''GET'' (fj_repo_path owner name '''') e)
     | Inr style \<Rightarrow> failed_as v ''POST'' (pull_path it ''/merge'') (post (if style = '''' then mergeStyle else style))))"

definition ReadPullRequestState_forgejo :: "fj_env \<Rightarrow> sdk_error + fj_pull \<Rightarrow> item \<Rightarrow> go_error + pull_request_state" where
  "ReadPullRequestState_forgejo v answer it = (case answer of
       Inl e \<Rightarrow> Inl (forgejoError v ''GET'' (pull_path it '''') e)
     | Inr p \<Rightarrow> (let unmergeable = (\<not> fpClosed p \<and> \<not> fpMerged p \<and> \<not> fpMergeable p) in
         Inr \<lparr>psMerged = fpMerged p, psClosed = fpClosed p, psDraft = (\<not> fpClosed p \<and> fpDraft p), psConflicting = False,
           psBehind = False, psBlocked = (unmergeable \<and> isEmpty_pull p), psChecksFailing = False,
           psConflictUnconfirmed = (unmergeable \<and> \<not> isEmpty_pull p), psChangesWorkflows = False\<rparr>))"

datatype pull_state = StateOpen | StateClosed

text \<open>Closing and reopening write the state, an update of the branch its request.\<close>

definition ClosePullRequest_forgejo :: "fj_env \<Rightarrow> (pull_state \<Rightarrow> sdk_error option) \<Rightarrow> item \<Rightarrow> go_error option" where
  "ClosePullRequest_forgejo v edit it = failed_as v ''PATCH'' (pull_path it '''') (edit StateClosed)"

definition ReopenPullRequest_forgejo :: "fj_env \<Rightarrow> (pull_state \<Rightarrow> sdk_error option) \<Rightarrow> item \<Rightarrow> go_error option" where
  "ReopenPullRequest_forgejo v edit it = failed_as v ''PATCH'' (pull_path it '''') (edit StateOpen)"

definition UpdateBranch_forgejo :: "fj_env \<Rightarrow> sdk_error option \<Rightarrow> item \<Rightarrow> bool \<times> go_error option" where
  "UpdateBranch_forgejo v res it = (False, failed_as v ''POST'' (pull_path it ''/update'') res)"

definition DisableAutoMerge_forgejo :: "fj_env \<Rightarrow> sdk_error option \<Rightarrow> item \<Rightarrow> go_error option" where
  "DisableAutoMerge_forgejo v res it = (case res of
       None \<Rightarrow> None
     | Some e \<Rightarrow> if seStatus e = Some 404 \<or> seStatus e = Some 409 then None
         else Some (forgejoError v ''DELETE'' (pull_path it ''/merge'') e))"

definition missing_label :: "string \<Rightarrow> string \<Rightarrow> string \<Rightarrow> go_error" where
  "missing_label quoted owner name = client_failure \<lparr>ceKind = ForgeErrorNotFound,
     ceErr = ''forgejo: no label '' @ quoted @ '' on '' @ owner @ ''/'' @ name @ '' '' @ em_dash @ '' create it on the repo first: label missing'',
     ceRateLimit = None, cePermissionMessage = '''', ceUpstreamStatus = 0, ceRequestID = '''', cePartial = '''',
     ceMayHaveRestarted = False\<rparr>"

text \<open>The labels of the repo by name and id; \<open>quote\<close> is Go's quoting of a string.\<close>

definition AddLabel_forgejo :: "fj_env \<Rightarrow> (string \<Rightarrow> string) \<Rightarrow> sdk_error + (string \<times> int) list \<Rightarrow> (int \<Rightarrow> sdk_error option) \<Rightarrow> item \<Rightarrow> string \<Rightarrow> go_error option" where
  "AddLabel_forgejo v quote labels post it label = (case it of (owner, name, n) \<Rightarrow> (case labels of
       Inl e \<Rightarrow> Some (forgejoError v ''GET'' (fj_repo_path owner name ''/labels'') e)
     | Inr ls \<Rightarrow> (case find (\<lambda>l. fst l = label) ls of
           None \<Rightarrow> Some (missing_label (quote label) owner name)
         | Some (_, i) \<Rightarrow> failed_as v ''POST'' (fj_repo_path owner name (''/issues/'' @ itoa n @ ''/labels'')) (post i))))"

section \<open>Repositories\<close>

record fj_repo =
  fjFullName :: string
  fjOwner :: "string option"
  fjRepoName :: string
  fjRepoURL :: string
  fjAvatar :: string
  fjPermissions :: "(bool \<times> bool) option"       \<comment> \<open>admin, push\<close>
  fjDefault :: string
  fjArchived :: bool
  fjFork :: bool
  fjMirror :: bool

definition repoLogoURL_forgejo :: "fj_env \<Rightarrow> string \<Rightarrow> string" where
  "repoLogoURL_forgejo v avatar = (case fvParseURL v avatar of
       None \<Rightarrow> ''''
     | Some (scheme, host, _) \<Rightarrow> if scheme \<noteq> ''https'' \<or> host = '''' then '''' else avatar)"

definition repoRef :: "fj_env \<Rightarrow> fj_repo \<Rightarrow> source_repo" where
  "repoRef v r = \<lparr>rrFullName = fjFullName r, rrOwner = (case fjOwner r of Some o' \<Rightarrow> o' | None \<Rightarrow> ''''),
     rrName = fjRepoName r, rrURL = fjRepoURL r, rrLogoURL = repoLogoURL_forgejo v (fjAvatar r),
     rrCanManageWebhooks = (case fjPermissions r of Some (admin, _) \<Rightarrow> admin | None \<Rightarrow> False),
     rrWebhookLockedByConnection = (fjPermissions r = None), rrWebhookNeedsToken = False, rrDefaultBranch = fjDefault r\<rparr>"

definition hasPushAccess :: "fj_repo \<Rightarrow> bool" where
  "hasPushAccess r = (case fjPermissions r of Some (_, push) \<Rightarrow> push | None \<Rightarrow> False)"

definition own_repo :: "fj_repo \<Rightarrow> bool" where
  "own_repo r \<longleftrightarrow> \<not> (fjArchived r \<or> fjFork r \<or> fjMirror r)"

definition paged :: "fj_env \<Rightarrow> string \<Rightarrow> (sdk_error + 'b) option \<Rightarrow> (go_error + 'b) option" where
  "paged v path = map_option (case_sum (\<lambda>e. Inl (forgejoError v ''GET'' path e)) Inr)"

definition listWriteRepos :: "fj_env \<Rightarrow> fj_repo pages \<Rightarrow> (go_error + source_repo list) option" where
  "listWriteRepos v ask = paged v ''/user/repos''
     (list_all_pages ask (\<lambda>batch. map (repoRef v) (filter (\<lambda>r. hasPushAccess r \<and> own_repo r) batch)))"

definition listPublicRepos :: "fj_env \<Rightarrow> string \<Rightarrow> fj_repo pages \<Rightarrow> (go_error + source_repo list) option" where
  "listPublicRepos v username ask = paged v (''/users/'' @ username @ ''/repos'')
     (list_all_pages ask (\<lambda>batch. map (\<lambda>r. (repoRef v r)\<lparr>rrWebhookNeedsToken := True\<rparr>) (filter own_repo batch)))"

definition errNoForgejoAuth :: go_error where
  "errNoForgejoAuth = \<lparr>errText = ''forgejo: neither a token nor a username is configured'', errClient = None\<rparr>"

definition ListRepos_forgejo :: "fj_env \<Rightarrow> string \<Rightarrow> string \<Rightarrow> fj_repo pages \<Rightarrow> fj_repo pages \<Rightarrow> (go_error + source_repo list) option" where
  "ListRepos_forgejo v tok username mine theirs =
     (if tok \<noteq> '''' then listWriteRepos v mine
      else if username \<noteq> '''' then listPublicRepos v username theirs
      else Some (Inl errNoForgejoAuth))"

section \<open>Reviews\<close>





definition reviewKey :: "string \<Rightarrow> string \<Rightarrow> int \<Rightarrow> string" where
  "reviewKey owner name index = owner @ ''/'' @ name @ ''#'' @ itoa index"

record cached_review =
  cvUpdatedAt :: time
  cvState :: review_state
  cvComments :: int

text \<open>What the client remembers between calls: reviews, and each scheduled merge with when it was read.\<close>

record fj_client =
  fcReviews :: "string \<rightharpoonup> cached_review"
  fcSchedule :: "string \<rightharpoonup> (bool \<times> nat)"
  fcScheduleSeq :: nat



definition listReviews :: "fj_env \<Rightarrow> fj_review pages \<Rightarrow> item \<Rightarrow> (go_error + fj_review list) option" where
  "listReviews v ask it = paged v (pull_path it ''/reviews'') (list_all_pages ask (\<lambda>batch. batch))"




section \<open>Scheduled merges\<close>

definition maxTimelineReads :: nat where "maxTimelineReads = 8"
definition maxTimelinePages :: nat where "maxTimelinePages = 10"

definition note_event :: "string \<Rightarrow> bool \<Rightarrow> bool" where
  "note_event e scheduled =
     (if e = ''pull_scheduled_merge'' then True
      else if e = ''pull_cancel_scheduled_merge'' then False else scheduled)"

text \<open>The pages of a timeline from \<open>page\<close> on, at most \<open>fuel\<close> of them: \<open>None\<close> where one cannot be read.\<close>

fun timeline_loop :: "(nat \<Rightarrow> string list option) \<Rightarrow> nat \<Rightarrow> nat \<Rightarrow> bool \<Rightarrow> bool option" where
  "timeline_loop read page 0 scheduled = Some scheduled"
| "timeline_loop read page (Suc fuel) scheduled = (case read page of
       None \<Rightarrow> None
     | Some events \<Rightarrow> (let scheduled = fold note_event events scheduled in
         if events = [] then Some scheduled else timeline_loop read (Suc page) fuel scheduled))"

definition scheduledMerge :: "(nat \<Rightarrow> string list option) \<Rightarrow> bool option" where
  "scheduledMerge read = timeline_loop read 1 maxTimelinePages False"

definition schedule_seq :: "fj_client \<Rightarrow> string \<Rightarrow> nat" where
  "schedule_seq c key = (case fcSchedule c key of Some (_, q) \<Rightarrow> q | None \<Rightarrow> 0)"

definition eligible_pull :: "pull_request \<Rightarrow> bool" where
  "eligible_pull pr \<longleftrightarrow> \<not> prDraft pr \<and> \<not> prEmpty pr"

definition pull_key :: "string \<Rightarrow> string \<Rightarrow> pull_request \<Rightarrow> string" where
  "pull_key owner name pr = reviewKey owner name (prNumber pr)"

definition nextToRead :: "string \<Rightarrow> string \<Rightarrow> pull_request list \<Rightarrow> fj_client \<Rightarrow> pull_request list" where
  "nextToRead owner name prs c =
     take maxTimelineReads (sort_key (\<lambda>pr. schedule_seq c (pull_key owner name pr)) (filter eligible_pull prs))"

definition note_schedule :: "string \<Rightarrow> string \<Rightarrow> (pull_request \<Rightarrow> bool option) \<Rightarrow> pull_request \<Rightarrow> fj_client \<Rightarrow> fj_client" where
  "note_schedule owner name read pr c = (case read pr of
       None \<Rightarrow> c
     | Some scheduled \<Rightarrow> c\<lparr>fcScheduleSeq := Suc (fcScheduleSeq c),
         fcSchedule := (fcSchedule c)(pull_key owner name pr \<mapsto> (scheduled, Suc (fcScheduleSeq c)))\<rparr>)"

definition heldByForge_forgejo :: "bool \<Rightarrow> auto_merge_holder option" where
  "heldByForge_forgejo scheduled = (if scheduled then Some AutoMergeHeldByForge else None)"

definition show_schedule :: "string \<Rightarrow> string \<Rightarrow> fj_client \<Rightarrow> pull_request \<Rightarrow> pull_request" where
  "show_schedule owner name c pr =
     (if \<not> eligible_pull pr then pr
      else (case fcSchedule c (pull_key owner name pr) of
          Some (on, _) \<Rightarrow> pr\<lparr>prAutoMergeEnabled := Some on, prAutoMergeHeldBy := heldByForge_forgejo on\<rparr>
        | None \<Rightarrow> pr))"

text \<open>\<open>read\<close> is what \<open>scheduledMerge\<close> returns for a pull request: the reads of one listing run side by side.\<close>

definition applyScheduledMerges :: "string \<Rightarrow> string \<Rightarrow> (pull_request \<Rightarrow> bool option) \<Rightarrow> pull_request list \<Rightarrow> fj_client \<Rightarrow>
    pull_request list \<times> fj_client" where
  "applyScheduledMerges owner name read prs c =
     (let c = fold (note_schedule owner name read) (nextToRead owner name prs c) c
      in (map (show_schedule owner name c) prs, c))"

section \<open>Rows\<close>






record fj_issue =
  fiIndex :: int
  fiTitle :: string
  fiURL :: string
  fiPoster :: "(string \<times> string) option"
  fiLabels :: "label list"
  fiCreated :: time
  fiUpdated :: time

definition issue_row :: "string \<Rightarrow> fj_issue \<Rightarrow> issue" where
  "issue_row repo i = \<lparr>isForge = ForgeForgejo, isRepo = repo, isNumber = fiIndex i, isTitle = fiTitle i, isURL = fiURL i,
     isAuthor = (case fiPoster i of Some (l, _) \<Rightarrow> l | None \<Rightarrow> ''''),
     isAuthorAvatarURL = (case fiPoster i of Some (_, a) \<Rightarrow> a | None \<Rightarrow> ''''),
     isLabels = fiLabels i, isCreatedAt = fiCreated i, isUpdatedAt = fiUpdated i\<rparr>"

definition ListOpenIssues_forgejo :: "fj_env \<Rightarrow> fj_issue pages \<Rightarrow> string \<Rightarrow> string \<Rightarrow> string \<Rightarrow> (go_error + issue list) option" where
  "ListOpenIssues_forgejo v ask owner name repo =
     paged v (fj_repo_path owner name ''/issues'') (list_all_pages ask (map (issue_row repo)))"

section \<open>A branch is deleted only when nobody uses it\<close>

text \<open>The pages a listing walks through: the first and those a page names as the next.\<close>

inductive page_of :: "'a pages \<Rightarrow> int \<Rightarrow> int \<Rightarrow> bool" for ask where
  page_first: "page_of ask page page"
| page_next: "ask page = Inr (batch, next) \<Longrightarrow> next \<noteq> 0 \<Longrightarrow> page_of ask next q \<Longrightarrow> page_of ask page q"

inductive_cases page_ofE: "page_of ask page q"

definition nowhere :: "'a pages \<Rightarrow> ('a \<Rightarrow> bool) \<Rightarrow> int \<Rightarrow> bool" where
  "nowhere ask P page \<longleftrightarrow> (\<forall>q. page_of ask page q \<longrightarrow> (\<exists>batch nxt. ask q = Inr (batch, nxt) \<and> list_all (\<lambda>x. \<not> P x) batch))"

lemma walk_seek:
  fixes ask :: "'a pages"
  assumes "walk_pages ask (seek_step P) page s = Some (Inr (Inl t))"
  shows "nowhere ask P page"
proof -
  let ?Q = "\<lambda>(ask :: 'a pages) step (page :: int) (s :: unit) (r :: sdk_error \<times> unit + unit + 'a). step = seek_step P \<longrightarrow> (\<forall>t. r = Inr (Inl t) \<longrightarrow> nowhere ask P page)"
  have "?Q ask (seek_step P) page s (Inr (Inl t))"
  proof (rule walk_pages.raw_induct[where P = ?Q, OF _ assms])
    fix walk and ask :: "'a pages" and step :: "'a list \<Rightarrow> unit \<Rightarrow> unit + 'a" and page s r
    assume IH: "\<And>ask step page s r. walk ask step page s = Some r \<Longrightarrow> ?Q ask step page s r"
      and walk: "(case ask page of Inl e \<Rightarrow> Some (Inl (e, s)) | Inr (batch, next) \<Rightarrow> (case step batch s of
        Inl s \<Rightarrow> if next = 0 then Some (Inr (Inl s)) else walk ask step next s | Inr r \<Rightarrow> Some (Inr (Inr r)))) = Some r"
    show "?Q ask step page s r"
    proof (intro impI allI)
      fix t assume step: "step = seek_step P" and r: "r = Inr (Inl t)"
      obtain batch nxt where a: "ask page = Inr (batch, nxt)" using walk r by (auto split: sum.splits)
      have no: "find P batch = None" using walk step r a by (auto simp: seek_step_def split: option.splits)
      then have here: "list_all (\<lambda>x. \<not> P x) batch" by (auto simp: find_None_iff list_all_iff)
      have later: "nowhere ask P nxt" if "nxt \<noteq> 0"
        using IH[of ask step nxt "()" r] walk step r a no that by (auto simp: seek_step_def)
      show "nowhere ask P page"
        unfolding nowhere_def
      proof (intro allI impI)
        fix q assume "page_of ask page q"
        then show "\<exists>batch nxt. ask q = Inr (batch, nxt) \<and> list_all (\<lambda>x. \<not> P x) batch"
          by (cases rule: page_of.cases) (use a here later in \<open>auto simp: nowhere_def\<close>)
      qed
    qed
  qed
  then show ?thesis by simp
qed

text \<open>
  C37: a branch is only ever deleted when nobody uses it. When the deletion of a branch is asked of Forgejo, it is the
  head of the pull request, in this very repository, not its default branch and not protected, and the
  open pull requests were read to the last page without one that has the branch as its head or base.
\<close>

theorem branch_deleted_only_if_unused:
  assumes "DeletePullRequestBranch_forgejo api owner name = Some (out, asked)" "branch \<in> set asked"
  shows "(\<exists>p h. bpPull api = Inr p \<and> fpHead p = Some h \<and> biRef h = branch \<and>
      map_option fst (biRepo h) = Some (owner @ ''/'' @ name) \<and>
      branch \<noteq> '''' \<and> \<not> (\<exists>b n. fpBase p = Some b \<and> biRepo b = Some (n, branch))) \<and>
    bpBranch api branch = Inr False \<and> nowhere (bpOpen api) (uses_branch owner name branch) 0"
proof -
  obtain p where p: "bpPull api = Inr p" using assms
    by (auto simp: DeletePullRequestBranch_forgejo_def split: sum.splits)
  moreover obtain b where b: "branchToDelete p owner name = Inr b"
    using assms p by (cases "branchToDelete p owner name") (auto simp: DeletePullRequestBranch_forgejo_def)
  moreover have free: "branchUseSkip (bpOpen api) owner name b = Some None" and br: "b = branch" and un: "bpBranch api b = Inr False"
    using assms p b by (auto simp: DeletePullRequestBranch_forgejo_def split: option.splits sum.splits if_splits)
  moreover have "\<exists>t. walk_pages (bpOpen api) (seek_step (uses_branch owner name b)) 0 () = Some (Inr (Inl t))"
    using free by (auto simp: branchUseSkip_def seek_pages_def split: option.splits sum.splits prod.splits)
  then have "nowhere (bpOpen api) (uses_branch owner name b) 0" by (auto dest: walk_seek)
  moreover have "\<exists>h. fpHead p = Some h \<and> biRef h = b \<and> map_option fst (biRepo h) = Some (owner @ ''/'' @ name) \<and> b \<noteq> '''' \<and>
      \<not> (\<exists>k n. fpBase p = Some k \<and> biRepo k = Some (n, b))"
    using b by (auto simp: branchToDelete_def split: option.splits prod.splits if_splits)
  ultimately show ?thesis by blast
qed

definition demo_fj_pull :: fj_pull where
  "demo_fj_pull = \<lparr>fpIndex = 1, fpTitle = '''', fpBody = '''', fpURL = '''', fpPoster = None, fpClosed = True, fpMerged = True,
     fpMergeable = False, fpDraft = False,
     fpHead = Some \<lparr>biRef = ''fix'', biSha = '''', biRepoID = 1, biRepo = Some (''o/r'', ''main'')\<rparr>,
     fpBase = Some \<lparr>biRef = ''main'', biSha = '''', biRepoID = 1, biRepo = Some (''o/r'', ''main'')\<rparr>,
     fpMergeBase = '''', fpDiff = None, fpLabels = [], fpCreated = None, fpUpdated = None, fpRequested = [], fpTeams = 0, fpComments = 0\<rparr>"

definition demo_branch_api :: branch_api where
  "demo_branch_api = \<lparr>bpPull = Inr demo_fj_pull, bpOpen = (\<lambda>_. Inr ([], 0)), bpBranch = (\<lambda>_. Inr False),
     bpDelete = (\<lambda>_. (Some 204, Inr True))\<rparr>"

lemma demo_deleted: "DeletePullRequestBranch_forgejo demo_branch_api ''o'' ''r'' = Some (BranchDeleted, [''fix''])"
  by (simp add: DeletePullRequestBranch_forgejo_def demo_branch_api_def demo_fj_pull_def branchToDelete_def branchUseSkip_def
      seek_pages_def seek_step_def walk_pages.simps removeBranch_def)

theorem branch_deleted_only_if_unused_witness:
  "nowhere (bpOpen demo_branch_api) (uses_branch ''o'' ''r'' ''fix'') 0 \<and> bpBranch demo_branch_api ''fix'' = Inr False"
  using branch_deleted_only_if_unused[OF demo_deleted, of "''fix''"] by simp

section \<open>Timelines are read in turn\<close>









section \<open>A run of listings\<close>












lemma show_same [simp]: "prNumber (show_schedule owner name c pr) = prNumber pr"
  "eligible_pull (show_schedule owner name c pr) = eligible_pull pr"
  by (auto simp: show_schedule_def eligible_pull_def split: option.splits)









section \<open>Every timeline has its turn\<close>





















text \<open>
  A read that fails leaves the pull request where it was, first in line: eight timelines that cannot be read
  keep every other one from being read, listing after listing.
\<close>

lemma failing_reads_starve:
  assumes "list_all (\<lambda>pr. read pr = None) (nextToRead owner name prs c)"
  shows "snd (applyScheduledMerges owner name read prs c) = c"
proof -
  have "fold (note_schedule owner name read) ts c = c" if "list_all (\<lambda>pr. read pr = None) ts" for ts
    using that by (induction ts) (simp_all add: note_schedule_def)
  from this[OF assms] show ?thesis by (simp add: applyScheduledMerges_def Let_def)
qed

text \<open>A Retry-After too large for a duration lands in the past.\<close>

lemma retry_after_seconds:
  assumes "trim_space h = h" "atoi h = Some n" "0 \<le> n"
  shows "map_option rlResetsAt (rateLimitFromRetryAfter v h) = Some (fvNow v + i64 (n * second))"
  using assms by (cases h) (simp_all add: rateLimitFromRetryAfter_def reset_at_def atoi_def unsigned_of_def)

lemma retry_after_wraps:
  "map_option rlResetsAt (rateLimitFromRetryAfter v ''9300000000'') = Some (fvNow v - 9146744073709551616)"
proof -
  have "trim_space ''9300000000'' = ''9300000000''" by code_simp
  moreover have "atoi ''9300000000'' = Some 9300000000"
    by (simp add: atoi_def unsigned_of_def is_digit_def digits_val_def digit_val_def in_i64_def)
  ultimately have "map_option rlResetsAt (rateLimitFromRetryAfter v ''9300000000'') = Some (fvNow v + i64 (9300000000 * second))"
    by (rule retry_after_seconds) simp
  moreover have "i64 (9300000000 * second) = - 9146744073709551616" by (simp add: i64_def)
  ultimately show ?thesis by (simp only: diff_conv_add_uminus)
qed

end
