(* ===== verification/Action_Api.thy ===== *)
theory Action_Api
  imports Allowed_Actions Snapshot_Merge Queued_Actions Settings_Api Generic_Source
begin

text \<open>
  The handlers that write to a forge or to the queue, \<open>internal/api\<close>: \<open>pull_request_action.go\<close>,
  \<open>action_error.go\<close>, the \<open>pull_request_*.go\<close> of each action, \<open>issue_actions.go\<close>, \<open>cancel_run.go\<close>,
  \<open>main_branch_checks.go\<close>, \<open>webhook_ensure.go\<close> and \<open>queued_actions.go\<close>. A request is its decoded body,
  \<open>None\<close> where it does not decode. A source is what it can do: a capability it lacks is \<open>None\<close>.
  Every call of a capability that writes is kept in a trace, newest first.
\<close>

section \<open>Requests, sources and the world\<close>

record action_request =
  rqForge :: string
  rqFullName :: string
  rqNumber :: int

datatype forge_call = CallMerge | CallDeleteBranch | CallClose | CallReopen | CallUpdateBranch
  | CallEnableAutoMerge | CallDisableAutoMerge | CallComment string | CallLabel string | CallTick string
  | CallUntick string | CallRerun | CallRerunBranch string | CallCancelRun | CallCloseIssue | CallReopenIssue
  | CallCommentIssue string | CallEnsureWebhook string string

record action_source =
  asForge :: forge
  asMerge :: "(item \<Rightarrow> go_error option) option"
  asDeleteBranch :: "(item \<Rightarrow> branch_deletion) option"
  asClose :: "(item \<Rightarrow> go_error option) option"
  asReopen :: "(item \<Rightarrow> go_error option) option"
  asUpdateBranch :: "(item \<Rightarrow> go_error + bool) option"
  asAutoMerge :: "(item \<Rightarrow> go_error option) option"
  asDisableAutoMerge :: "(item \<Rightarrow> go_error option) option"
  asComment :: "(item \<Rightarrow> string \<Rightarrow> go_error option) option"
  asCommandsBlocked :: string
  asLabeler :: bool
  asBody :: "item \<Rightarrow> body_api"
  asRerun :: "(item \<Rightarrow> go_error option) option"
  asRerunBranch :: "(string \<times> string \<Rightarrow> string \<Rightarrow> go_error option) option"
  asCancelRun :: "(string \<times> string \<Rightarrow> int \<Rightarrow> go_error option) option"
  asCloseIssue :: "(item \<Rightarrow> go_error option) option"
  asReopenIssue :: "(item \<Rightarrow> go_error option) option"
  asCommentIssue :: "(item \<Rightarrow> string \<Rightarrow> go_error option) option"
  asEnsureWebhook :: "(string \<times> string \<Rightarrow> string \<Rightarrow> string \<Rightarrow> go_error option) option"
  asReadState :: "(item \<Rightarrow> go_error + pull_request_state) option"

text \<open>
  What a request meets: the saved credentials (\<open>None\<close> where they cannot be loaded), the Renovate
  authors, empty where they cannot be, the sources built of the credentials, whether the database
  reads and writes, and the rows of \<open>followedRows\<close> and of the main branches' page.
\<close>

record api_env =
  aeNow :: time
  aeSeq :: nat
  aeCreds :: "credentials option"
  aeAuthors :: "string list"
  aeSources :: "credentials \<Rightarrow> action_source list"
  aeReads :: bool
  aeWrites :: bool
  aeNewID :: string
  aeAddDays :: "int \<Rightarrow> time"
  aeOrigin :: string
  aeSecrets :: "string \<times> string"
  aeFollowed :: "snapshot \<Rightarrow> main_branch list"
  aeBranches :: "snapshot \<Rightarrow> main_branch list"

text \<open>\<open>apBoard\<close> is the board of the running aggregator, if one runs.\<close>

record api_world =
  apBoard :: "board option"
  apDb :: settings_db
  apQueue :: "queued_action list"
  apWoken :: nat
  apAsked :: "(forge_call \<times> forge \<times> item) list"

record action_error_body =
  ebError :: string
  ebCode :: action_code
  ebMessage :: string
  ebResetsAt :: "time option"
  ebUpstreamStatus :: int
  ebRequestID :: string

datatype action_reply = StatusOnly nat | ErrorReply nat string | FieldReply string string
  | RefusedReply nat action_error_body | DeletionReply branch_deletion | QueuedReply nat queued_action

definition asked :: "forge_call \<Rightarrow> action_source \<Rightarrow> item \<Rightarrow> api_world \<Rightarrow> api_world" where
  "asked call src it w = w\<lparr>apAsked := (call, asForge src, it) # apAsked w\<rparr>"

text \<open>A call of the service: nothing where no aggregator runs.\<close>

definition on_service :: "(board \<Rightarrow> board) \<Rightarrow> api_world \<Rightarrow> api_world" where
  "on_service f w = w\<lparr>apBoard := map_option f (apBoard w)\<rparr>"

definition on_rows :: "(bot_state \<times> pull_request list \<Rightarrow> bot_state \<times> pull_request list) \<Rightarrow> board \<Rightarrow> board" where
  "on_rows f b = (let (st, prs) = f (bdBots b, snPullRequests (bdSnap b)) in
     b\<lparr>bdBots := st, bdSnap := (bdSnap b)\<lparr>snPullRequests := prs\<rparr>\<rparr>)"

definition board_snapshot :: "api_world \<Rightarrow> snapshot" where
  "board_snapshot w = (case apBoard w of None \<Rightarrow> newEmptySnapshot | Some b \<Rightarrow> bdSnap b)"

definition find_row :: "forge \<Rightarrow> string \<Rightarrow> int \<Rightarrow> api_world \<Rightarrow> pull_request option" where
  "find_row forge repo number w =
     find (\<lambda>pr. prForge pr = forge \<and> prRepo pr = repo \<and> prNumber pr = number) (snPullRequests (board_snapshot w))"

section \<open>Reading a target\<close>

definition maxPullRequestNumber :: int where "maxPullRequestNumber = 2147483647"

definition validateActionTarget :: "action_request \<Rightarrow> action_reply + item" where
  "validateActionTarget req = (case overBound [(''fullName'', rqFullName req, maxRepoFullNameLen)] of
       Some field \<Rightarrow> Inl (FieldReply field (field @ '' is too long''))
     | None \<Rightarrow>
         if rqNumber req > maxPullRequestNumber then Inl (FieldReply ''number'' ''number is too large'')
         else (case splitFullName (rqFullName req) of
             None \<Rightarrow> Inl (ErrorReply 400 badFullName)
           | Some (owner, name) \<Rightarrow> Inr (owner, name, rqNumber req)))"

definition readActionTarget :: "action_request option \<Rightarrow> action_reply + action_request \<times> item" where
  "readActionTarget body = (case body of
       None \<Rightarrow> Inl (ErrorReply 400 ''invalid request body'')
     | Some req \<Rightarrow> (case validateActionTarget req of Inl r \<Rightarrow> Inl r | Inr it \<Rightarrow> Inr (req, it)))"

definition pickForgeSource :: "api_env \<Rightarrow> credentials \<Rightarrow> string \<Rightarrow> action_reply + action_source" where
  "pickForgeSource v creds forge = (case find (\<lambda>s. asForge s = forge_of forge) (aeSources v creds) of
       Some src \<Rightarrow> Inr src
     | None \<Rightarrow> Inl (ErrorReply 400 (''no '' @ forge @ '' credentials saved'')))"

definition lookupForgeSource :: "api_env \<Rightarrow> string \<Rightarrow> action_reply + action_source \<times> credentials" where
  "lookupForgeSource v forge = (case aeCreds v of
       None \<Rightarrow> Inl (ErrorReply 500 ''could not load settings'')
     | Some creds \<Rightarrow> (case pickForgeSource v creds forge of Inl r \<Rightarrow> Inl r | Inr src \<Rightarrow> Inr (src, creds)))"

definition capabilityFor :: "'c option \<Rightarrow> string \<Rightarrow> string \<Rightarrow> action_reply + 'c" where
  "capabilityFor capability forge words = (case capability of
       Some c \<Rightarrow> Inr c
     | None \<Rightarrow> Inl (ErrorReply 400 (forge @ '' '' @ words)))"

section \<open>Refusals\<close>

definition clientErrorStatus :: "go_error \<Rightarrow> nat" where
  "clientErrorStatus e = (case errClient e of
       None \<Rightarrow> 502
     | Some c \<Rightarrow> (case ceKind c of
           ForgeErrorUnauthorized \<Rightarrow> 403
         | ForgeErrorNotFound \<Rightarrow> 404
         | ForgeErrorConflict \<Rightarrow> 409
         | ForgeErrorRateLimited \<Rightarrow> 429
         | _ \<Rightarrow> 502))"

definition refusalNeedsNoReRead :: "go_error \<Rightarrow> bool" where
  "refusalNeedsNoReRead e = has_kind e ForgeErrorRateLimited"

definition writeRefusal :: "nat \<Rightarrow> action_refusal \<Rightarrow> go_error \<Rightarrow> action_reply" where
  "writeRefusal st r e =
     (let failed = (case errClient e of Some c \<Rightarrow> if ForgeFailed c then Some c else None | None \<Rightarrow> None)
      in RefusedReply st \<lparr>ebError = (if arCode r = ActionUnknown then arMessage r else errText e),
           ebCode = arCode r, ebMessage = arMessage r, ebResetsAt = arResetsAt r,
           ebUpstreamStatus = (case failed of Some c \<Rightarrow> ceUpstreamStatus c | None \<Rightarrow> 0),
           ebRequestID = (case failed of Some c \<Rightarrow> ceRequestID c | None \<Rightarrow> '''')\<rparr>)"

text \<open>\<open>reader\<close>: what can read the pull request again, if the refused capability can.\<close>

definition writeActionRefusal :: "(item \<Rightarrow> go_error + pull_request_state) option \<Rightarrow> pull_request_action \<Rightarrow> item \<Rightarrow>
    go_error \<Rightarrow> action_reply" where
  "writeActionRefusal reader action it e =
     (let state = (if refusalNeedsNoReRead e then None
                   else case reader of None \<Rightarrow> None
                     | Some rd \<Rightarrow> (case rd it of Inl _ \<Rightarrow> None | Inr st \<Rightarrow> Some st));
          r = ClassifyActionRefusalFor action e state;
          st = (if arCode r = ActionAlreadyMerged \<or> arCode r = ActionAlreadyClosed \<or> arCode r = ActionNotReopenable
                then 409 else clientErrorStatus e)
      in writeRefusal st r e)"

definition autoMergeNotOffered :: "pull_request \<Rightarrow> action_refusal" where
  "autoMergeNotOffered pr =
     (if prForge pr \<noteq> ForgeGitHub \<and> prForge pr \<noteq> ForgeForgejo
        then refusal ActionNotMergeable ''Auto-merge is only available on GitHub and Forgejo.''
      else if prForge pr = ForgeForgejo \<and> prDraft pr
        then refusal ActionNotMergeable ''Draft pull request. Mark it ready for review to turn on auto-merge.''
      else if prAutoMergeEnabled pr = Some True
        then refusal ActionNotMergeable ''Auto-merge is already on for this pull request.''
      else if prAutoMergeAllowed pr = Some False
        then refusal ActionAutoMergeNotAllowed ''Auto-merge isn't allowed for this pull request. Turn it on in the repo's settings.''
      else if prEmpty pr
        then refusal ActionAlreadyUpToDate ''Already up to date with the target branch, so there is nothing to merge.''
      else if prMergeStatus pr = MergeConflicting
        then refusal ActionConflict ''Merge conflict. Resolve it on the forge first.''
      else if prStackedOn pr \<noteq> None
        then refusal ActionStacked ''Stacked on another pull request. Merge that one first.''
      else refusal ActionReadyToMerge ''This pull request is already ready to merge, so there's nothing for auto-merge to wait for. Use Merge instead.'')"

definition bot_action_word :: "bot_action \<Rightarrow> string" where
  "bot_action_word a = (case a of BotRebase \<Rightarrow> ''rebase'' | BotRecreate \<Rightarrow> ''recreate'')"

definition botActionNotOffered :: "action_name \<Rightarrow> pull_request \<Rightarrow> action_refusal" where
  "botActionNotOffered action pr =
     (let pending = (case prBotRequest pr of Some r \<Rightarrow> if brPhase r \<noteq> BotExpired then Some r else None | None \<Rightarrow> None) in
      if action = ActionDependabotRebase \<or> action = ActionDependabotRecreate then
        (case pending of
           Some r \<Rightarrow>
             if brBot r = BotDependabot then
               (if (action = ActionDependabotRebase) = (brAction r = BotRebase)
                then refusal ActionAlreadyRequested (''A Dependabot '' @ bot_action_word (brAction r) @ '' is already pending on this pull request.'')
                else refusal ActionNotMergeable (''A Dependabot '' @ bot_action_word (brAction r) @
                       '' is already pending on this pull request, so this command can't go out until it finishes.''))
             else refusal ActionNotMergeable ''This isn't a Dependabot pull request on GitHub.''
         | None \<Rightarrow> refusal ActionNotMergeable ''This isn't a Dependabot pull request on GitHub.'')
      else if action = ActionRenovateRebase then
        (if prRenovateRebaseRequested pr \<or> (case pending of Some r \<Rightarrow> brBot r = BotRenovate | None \<Rightarrow> False)
         then refusal ActionAlreadyRequested ''A Renovate rebase is already requested on this pull request.''
         else refusal ActionNotMergeable ''This isn't a Renovate pull request.'')
      else
        (case pending of
           Some r \<Rightarrow>
             if brBot r = BotRenovate \<and> brPhase r = BotRebasing
             then refusal ActionNotMergeable ''Renovate is already rebasing; there is nothing left to cancel.''
             else refusal ActionNotMergeable ''No Renovate rebase is requested through the rebase box on this pull request.''
         | None \<Rightarrow> refusal ActionNotMergeable ''No Renovate rebase is requested through the rebase box on this pull request.''))"

definition notOfferedRefusal :: "action_name \<Rightarrow> pull_request \<Rightarrow> action_refusal" where
  "notOfferedRefusal action pr =
     (if action = ActionAutoMerge then autoMergeNotOffered pr
      else if action = ActionUpdateBranch then
        (if \<not> prBehind pr \<or> prEmpty pr then refusal ActionAlreadyUpToDate ''Already up to date with the base branch.''
         else refusal ActionNotMergeable ''Dependabot and Renovate pull requests update through their own rebase.'')
      else if action = ActionMerge \<and> prEmpty pr
        then refusal ActionAlreadyUpToDate ''Nothing to merge: the branch is already on the target branch.''
      else if action \<in> {ActionDependabotRebase, ActionDependabotRecreate, ActionRenovateRebase, ActionCancelRenovateRebase}
        then botActionNotOffered action pr
      else if action = ActionRerunChecks
        then refusal ActionNotMergeable ''There are no failed checks to rerun for this pull request.''
      else refusal ActionNotMergeable ''This action doesn't apply to this pull request.'')"

definition conflict_reply :: "action_code \<Rightarrow> string \<Rightarrow> action_reply" where
  "conflict_reply code message = RefusedReply 409 \<lparr>ebError = message, ebCode = code, ebMessage = message,
     ebResetsAt = None, ebUpstreamStatus = 0, ebRequestID = ''''\<rparr>"

definition refuseIfNotAllowed :: "api_env \<Rightarrow> action_name \<Rightarrow> action_request \<Rightarrow> api_world \<Rightarrow> action_reply option" where
  "refuseIfNotAllowed v action req w =
     (case find_row (forge_of (rqForge req)) (rqFullName req) (rqNumber req) w of
        None \<Rightarrow> None
      | Some pr \<Rightarrow> (case find (\<lambda>a. aaAction a = action) (AllowedActions pr (aeAuthors v)) of
            Some a \<Rightarrow> (case aaBlocked a of None \<Rightarrow> None | Some b \<Rightarrow> Some (conflict_reply (blCode b) (blMessage b)))
          | None \<Rightarrow> (let r = notOfferedRefusal action pr in Some (conflict_reply (arCode r) (arMessage r)))))"

section \<open>Actions of a pull request\<close>

definition serveGuardedAction :: "api_env \<Rightarrow> action_name \<Rightarrow> pull_request_action \<Rightarrow> string \<Rightarrow> forge_call \<Rightarrow>
    (action_source \<Rightarrow> (item \<Rightarrow> go_error option) option) \<Rightarrow> action_request \<Rightarrow> item \<Rightarrow> api_world \<Rightarrow> action_reply \<times> api_world" where
  "serveGuardedAction v allowed action words call capability req it w =
     (case refuseIfNotAllowed v allowed req w of
        Some r \<Rightarrow> (r, w)
      | None \<Rightarrow> (case lookupForgeSource v (rqForge req) of
            Inl r \<Rightarrow> (r, w)
          | Inr (src, _) \<Rightarrow> (case capabilityFor (capability src) (rqForge req) words of
                Inl r \<Rightarrow> (r, w)
              | Inr run \<Rightarrow> (let w = asked call src it w in
                  case run it of
                    Some e \<Rightarrow> (writeActionRefusal (asReadState src) action it e, w)
                  | None \<Rightarrow> (StatusOnly 204, w)))))"

definition handlePullRequestRerunChecks :: "api_env \<Rightarrow> action_request option \<Rightarrow> api_world \<Rightarrow> action_reply \<times> api_world" where
  "handlePullRequestRerunChecks v body w = (case readActionTarget body of
       Inl r \<Rightarrow> (r, w)
     | Inr (req, it) \<Rightarrow> serveGuardedAction v ActionRerunChecks PullRequestActionRerunChecks
         ''doesn't support rerunning checks'' CallRerun asRerun req it w)"

definition deleteMergedBranch :: "action_source \<Rightarrow> item \<Rightarrow> api_world \<Rightarrow> branch_deletion \<times> api_world" where
  "deleteMergedBranch src it w = (case asDeleteBranch src of
       None \<Rightarrow> (BranchSkipped SkipUnsupported, w)
     | Some delete \<Rightarrow> (delete it, asked CallDeleteBranch src it w))"

definition handlePullRequestMerge :: "api_env \<Rightarrow> (action_request \<times> bool) option \<Rightarrow> api_world \<Rightarrow> action_reply \<times> api_world" where
  "handlePullRequestMerge v body w = (case body of
       None \<Rightarrow> (ErrorReply 400 ''invalid request body'', w)
     | Some (req, deleteBranch) \<Rightarrow> (case validateActionTarget req of
           Inl r \<Rightarrow> (r, w)
         | Inr it \<Rightarrow> (case refuseIfNotAllowed v ActionMerge req w of
               Some r \<Rightarrow> (r, w)
             | None \<Rightarrow> (case lookupForgeSource v (rqForge req) of
                   Inl r \<Rightarrow> (r, w)
                 | Inr (src, _) \<Rightarrow> (case capabilityFor (asMerge src) (rqForge req) ''doesn't support merging pull requests'' of
                       Inl r \<Rightarrow> (r, w)
                     | Inr run \<Rightarrow> (let w = asked CallMerge src it w in
                         case run it of
                           Some e \<Rightarrow> (writeActionRefusal (asReadState src) PullRequestActionMerge it e, w)
                         | None \<Rightarrow>
                             (let w = on_service (MarkSettled (aeNow v) (forge_of (rqForge req)) (rqFullName req) (rqNumber req)) w
                              in if \<not> deleteBranch then (StatusOnly 204, w)
                                 else (case deleteMergedBranch src it w of (d, w) \<Rightarrow> (DeletionReply d, w)))))))))"

definition handleStateAction :: "pull_request_action \<Rightarrow> string \<Rightarrow> forge_call \<Rightarrow> (action_source \<Rightarrow> (item \<Rightarrow> go_error option) option) \<Rightarrow>
    (action_request \<Rightarrow> board \<Rightarrow> board) \<Rightarrow> api_env \<Rightarrow> action_request option \<Rightarrow> api_world \<Rightarrow> action_reply \<times> api_world" where
  "handleStateAction action words call capability settle v body w = (case readActionTarget body of
       Inl r \<Rightarrow> (r, w)
     | Inr (req, it) \<Rightarrow> (case lookupForgeSource v (rqForge req) of
           Inl r \<Rightarrow> (r, w)
         | Inr (src, _) \<Rightarrow> (case capabilityFor (capability src) (rqForge req) words of
               Inl r \<Rightarrow> (r, w)
             | Inr run \<Rightarrow> (let w = asked call src it w in
                 case run it of
                   Some e \<Rightarrow> (writeActionRefusal (asReadState src) action it e, w)
                 | None \<Rightarrow> (StatusOnly 204, on_service (settle req) w)))))"

definition handlePullRequestClose :: "api_env \<Rightarrow> action_request option \<Rightarrow> api_world \<Rightarrow> action_reply \<times> api_world" where
  "handlePullRequestClose v = handleStateAction PullRequestActionClose ''doesn't support closing pull requests'' CallClose asClose
     (\<lambda>req. MarkSettled (aeNow v) (forge_of (rqForge req)) (rqFullName req) (rqNumber req)) v"

definition handlePullRequestReopen :: "api_env \<Rightarrow> action_request option \<Rightarrow> api_world \<Rightarrow> action_reply \<times> api_world" where
  "handlePullRequestReopen v = handleStateAction PullRequestActionReopen ''doesn't support reopening pull requests'' CallReopen asReopen
     (\<lambda>req. Unsettle (forge_of (rqForge req)) (rqFullName req) (rqNumber req)) v"

definition handlePullRequestUpdateBranch :: "api_env \<Rightarrow> action_request option \<Rightarrow> api_world \<Rightarrow> action_reply \<times> api_world" where
  "handlePullRequestUpdateBranch v body w = (case readActionTarget body of
       Inl r \<Rightarrow> (r, w)
     | Inr (req, it) \<Rightarrow> (case refuseIfNotAllowed v ActionUpdateBranch req w of
           Some r \<Rightarrow> (r, w)
         | None \<Rightarrow> (case lookupForgeSource v (rqForge req) of
               Inl r \<Rightarrow> (r, w)
             | Inr (src, _) \<Rightarrow> (case capabilityFor (asUpdateBranch src) (rqForge req) ''doesn't support updating pull request branches'' of
                   Inl r \<Rightarrow> (r, w)
                 | Inr run \<Rightarrow> (let w = asked CallUpdateBranch src it w in
                     case run it of
                       Inl e \<Rightarrow> (writeActionRefusal (asReadState src) PullRequestActionUpdateBranch it e, w)
                     | Inr accepted \<Rightarrow>
                         (StatusOnly (if accepted then 202 else 204),
                          on_service (on_rows (RecordUpdateRequest (aeNow v) (aeSeq v) (forge_of (rqForge req)) (rqFullName req) (rqNumber req))) w))))))"

text \<open>The action of the request's body, and the body of the comment it stands for.\<close>

definition dependabotActions :: "string \<Rightarrow> (action_name \<times> bot_action \<times> string) option" where
  "dependabotActions a =
     (if a = ''rebase'' then Some (ActionDependabotRebase, BotRebase, DependabotRebaseComment)
      else if a = ''recreate'' then Some (ActionDependabotRecreate, BotRecreate, DependabotRecreateComment) else None)"

definition badDependabotAction :: string where
  "badDependabotAction = ''action must be '' @ [CHR 0x22] @ ''rebase'' @ [CHR 0x22] @ '' or '' @ [CHR 0x22] @ ''recreate'' @ [CHR 0x22]"

definition readDependabotTarget :: "(action_request \<times> string) option \<Rightarrow>
    action_reply + action_request \<times> item \<times> action_name \<times> bot_action \<times> string" where
  "readDependabotTarget body = (case body of
       None \<Rightarrow> Inl (ErrorReply 400 ''invalid request body'')
     | Some (req, a) \<Rightarrow> (case overBound [(''fullName'', rqFullName req, maxRepoFullNameLen)] of
           Some field \<Rightarrow> Inl (FieldReply field (field @ '' is too long''))
         | None \<Rightarrow>
             if rqNumber req > maxPullRequestNumber then Inl (FieldReply ''number'' ''number is too large'')
             else (case dependabotActions a of
                 None \<Rightarrow> Inl (ErrorReply 400 badDependabotAction)
               | Some act \<Rightarrow> (case splitFullName (rqFullName req) of
                     None \<Rightarrow> Inl (ErrorReply 400 badFullName)
                   | Some (owner, name) \<Rightarrow> Inr (req, (owner, name, rqNumber req), act)))))"

definition handlePullRequestDependabotAction :: "api_env \<Rightarrow> (action_request \<times> string) option \<Rightarrow> api_world \<Rightarrow> action_reply \<times> api_world" where
  "handlePullRequestDependabotAction v body w = (case readDependabotTarget body of
       Inl r \<Rightarrow> (r, w)
     | Inr (req, it, action, bot_act, comment) \<Rightarrow> (case refuseIfNotAllowed v action req w of
           Some r \<Rightarrow> (r, w)
         | None \<Rightarrow> (case lookupForgeSource v (rqForge req) of
               Inl r \<Rightarrow> (r, w)
             | Inr (src, _) \<Rightarrow>
                 if asCommandsBlocked src \<noteq> '''' then (conflict_reply ActionPermission (asCommandsBlocked src), w)
                 else (case capabilityFor (asComment src) (rqForge req) ''doesn't support commenting on pull requests'' of
                     Inl r \<Rightarrow> (r, w)
                   | Inr run \<Rightarrow> (let w = asked (CallComment comment) src it w in
                       case run it comment of
                         Some e \<Rightarrow> (writeActionRefusal (asReadState src) PullRequestActionDependabot it e, w)
                       | None \<Rightarrow> (StatusOnly 204,
                           on_service (on_rows (RecordBotRequest (aeNow v) (aeSeq v) (forge_of (rqForge req)) (rqFullName req) (rqNumber req)
                             BotDependabot bot_act)) w))))))"

text \<open>What a request for a rebase wrote: the ticked description, or the label.\<close>

definition rebase_writes :: "renovate_rebase_outcome \<Rightarrow> string option \<Rightarrow> string \<Rightarrow> forge_call list" where
  "rebase_writes outcome written label = (case written of
       Some body \<Rightarrow> [CallTick body]
     | None \<Rightarrow> if outcome = RenovateRebaseLabeled then [CallLabel label] else [])"

definition noteRenovateRebase :: "api_env \<Rightarrow> action_request \<Rightarrow> renovate_rebase_outcome \<Rightarrow> board \<Rightarrow> board" where
  "noteRenovateRebase v req outcome =
     (let f = forge_of (rqForge req); r = rqFullName req; n = rqNumber req
      in on_rows (case outcome of
           RenovateRebaseTicked \<Rightarrow> RecordRenovateRebase (aeNow v) (aeSeq v) f r n
         | RenovateRebaseAlreadyRequested \<Rightarrow> SetRenovateRebaseBox (aeSeq v) f r n True
         | RenovateRebaseLabeled \<Rightarrow> RecordBotRequest (aeNow v) (aeSeq v) f r n BotRenovate BotRebase))"

definition handlePullRequestRenovateRebase :: "api_env \<Rightarrow> action_request option \<Rightarrow> api_world \<Rightarrow> action_reply \<times> api_world" where
  "handlePullRequestRenovateRebase v body w = (case readActionTarget body of
       Inl r \<Rightarrow> (r, w)
     | Inr (req, it) \<Rightarrow> (case refuseIfNotAllowed v ActionRenovateRebase req w of
           Some r \<Rightarrow> (r, w)
         | None \<Rightarrow> (case lookupForgeSource v (rqForge req) of
               Inl r \<Rightarrow> (r, w)
             | Inr (src, creds) \<Rightarrow>
                 (case capabilityFor (if asLabeler src then Some () else None) (rqForge req) ''doesn't support labeling pull requests'' of
                    Inl r \<Rightarrow> (r, w)
                  | Inr _ \<Rightarrow>
                      (let label = RenovateRebaseLabelOrDefault creds in
                       case RequestRenovateRebase (asBody src it) label of (outcome, err, written) \<Rightarrow>
                         (let w = fold (\<lambda>call. asked call src it) (rebase_writes outcome written label) w in
                          case err of
                            Some e \<Rightarrow> (writeActionRefusal (asReadState src) PullRequestActionRenovateRebase it e, w)
                          | None \<Rightarrow>
                              (let w = on_service (noteRenovateRebase v req outcome) w
                               in if outcome = RenovateRebaseAlreadyRequested
                                  then (conflict_reply ActionAlreadyRequested ''A Renovate rebase is already requested on this pull request.'', w)
                                  else (StatusOnly 204, w))))))))"

definition handlePullRequestRenovateRebaseCancel :: "api_env \<Rightarrow> action_request option \<Rightarrow> api_world \<Rightarrow> action_reply \<times> api_world" where
  "handlePullRequestRenovateRebaseCancel v body w = (case readActionTarget body of
       Inl r \<Rightarrow> (r, w)
     | Inr (req, it) \<Rightarrow> (case refuseIfNotAllowed v ActionCancelRenovateRebase req w of
           Some r \<Rightarrow> (r, w)
         | None \<Rightarrow> (case lookupForgeSource v (rqForge req) of
               Inl r \<Rightarrow> (r, w)
             | Inr (src, _) \<Rightarrow>
                 (case capabilityFor (if baEditor (asBody src it) then Some () else None) (rqForge req)
                     ''doesn't support editing pull request descriptions'' of
                    Inl r \<Rightarrow> (r, w)
                  | Inr _ \<Rightarrow> (case CancelRenovateRebase (asBody src it) of (err, written) \<Rightarrow>
                      (let w = (case written of Some b \<Rightarrow> asked (CallUntick b) src it w | None \<Rightarrow> w) in
                       case err of
                         Some e \<Rightarrow> (writeActionRefusal (asReadState src) PullRequestActionCancelRenovateRebase it e, w)
                       | None \<Rightarrow> (StatusOnly 204,
                           on_service (on_rows (SetRenovateRebaseBox (aeSeq v) (forge_of (rqForge req)) (rqFullName req) (rqNumber req) False)) w)))))))"

section \<open>Auto-merge\<close>

definition pull_of :: "action_request \<Rightarrow> pull_id" where
  "pull_of req = (rqForge req, rqFullName req, rqNumber req)"

text \<open>
  \<open>AutoMergeKey\<close> of a checked name tells requests apart, so an armed key is an armed pull request.
\<close>

definition armForgejoAutoMerge :: "api_env \<Rightarrow> action_request \<Rightarrow> api_world \<Rightarrow> action_reply \<times> api_world" where
  "armForgejoAutoMerge v req w =
     (if \<not> aeReads v then (ErrorReply 500 ''could not load auto-merge settings'', w)
      else if sdArmed (apDb w) (pull_of req) \<noteq> None then (StatusOnly 204, w)
      else (case refuseIfNotAllowed v ActionAutoMerge req w of
          Some r \<Rightarrow> (r, w)
        | None \<Rightarrow> (case lookupForgeSource v (rqForge req) of
              Inl r \<Rightarrow> (r, w)
            | Inr _ \<Rightarrow>
                if \<not> aeWrites v then (ErrorReply 500 ''could not turn on auto-merge'', w)
                else (StatusOnly 204, w\<lparr>apDb := ArmAutoMerge (aeNow v) (pull_of req) (apDb w)\<rparr>))))"

definition handlePullRequestAutoMerge :: "api_env \<Rightarrow> action_request option \<Rightarrow> api_world \<Rightarrow> action_reply \<times> api_world" where
  "handlePullRequestAutoMerge v body w = (case readActionTarget body of
       Inl r \<Rightarrow> (r, w)
     | Inr (req, it) \<Rightarrow>
         if rqForge req = ''forgejo'' then armForgejoAutoMerge v req w
         else serveGuardedAction v ActionAutoMerge PullRequestActionAutoMerge
           ''doesn't support enabling auto-merge on pull requests'' CallEnableAutoMerge asAutoMerge req it w)"

definition cancelForgejoIntent :: "api_env \<Rightarrow> action_request \<Rightarrow> api_world \<Rightarrow> action_reply \<times> api_world" where
  "cancelForgejoIntent v req w =
     (if \<not> aeWrites v then (ErrorReply 500 ''could not cancel auto-merge'', w)
      else (StatusOnly 204, w\<lparr>apDb := CancelAutoMerge_row (pull_of req) (apDb w)\<rparr>))"

definition handlePullRequestAutoMergeCancel :: "api_env \<Rightarrow> action_request option \<Rightarrow> api_world \<Rightarrow> action_reply \<times> api_world" where
  "handlePullRequestAutoMergeCancel v body w = (case readActionTarget body of
       Inl r \<Rightarrow> (r, w)
     | Inr (req, it) \<Rightarrow>
         if rqForge req = ''github''
         then serveGuardedAction v ActionCancelAutoMerge PullRequestActionCancelAutoMerge
           ''doesn't support cancelling auto-merge on pull requests'' CallDisableAutoMerge asDisableAutoMerge req it w
         else if rqForge req \<noteq> ''forgejo'' then (ErrorReply 400 ''unknown forge'', w)
         else (case lookupForgeSource v (rqForge req) of
             Inl r \<Rightarrow> (r, w)
           | Inr (src, _) \<Rightarrow> (case asDisableAutoMerge src of
                 None \<Rightarrow> cancelForgejoIntent v req w
               | Some run \<Rightarrow> (let w = asked CallDisableAutoMerge src it w in
                   case run it of
                     Some e \<Rightarrow> (writeActionRefusal (asReadState src) PullRequestActionCancelAutoMerge it e, w)
                   | None \<Rightarrow> cancelForgejoIntent v req w))))"

text \<open>\<open>withAutoMergeIntent\<close>: an armed Forgejo row says so, and that the dashboard holds the merge.\<close>

definition withAutoMergeIntent :: "(pull_id \<rightharpoonup> time) \<Rightarrow> pull_request \<Rightarrow> pull_request" where
  "withAutoMergeIntent armed pr =
     (if prForge pr \<noteq> ForgeForgejo then pr
      else if armed (forge_str (prForge pr), prRepo pr, prNumber pr) \<noteq> None
        then pr\<lparr>prAutoMergeEnabled := Some True, prAutoMergeHeldBy := Some AutoMergeHeldByDashboard\<rparr>
      else pr)"

section \<open>Queued actions\<close>

definition badQueueAction :: string where
  "badQueueAction = ''action must be update_branch, dependabot_rebase or renovate_rebase; merge and close can't be queued''"

definition validQueuedActionRequest :: "action_name \<times> action_request \<Rightarrow> action_reply option" where
  "validQueuedActionRequest body = (case body of (action, req) \<Rightarrow>
     if \<not> QueueableAction action then Some (ErrorReply 400 badQueueAction)
     else (case overBound [(''fullName'', rqFullName req, maxRepoFullNameLen)] of
         Some field \<Rightarrow> Some (FieldReply field (field @ '' is too long''))
       | None \<Rightarrow>
           if rqNumber req > maxPullRequestNumber then Some (FieldReply ''number'' ''number is too large'')
           else if splitFullName (rqFullName req) = None then Some (ErrorReply 400 badFullName)
           else None))"

definition queueableTarget :: "api_env \<Rightarrow> action_name \<times> action_request \<Rightarrow> api_world \<Rightarrow> action_reply + pull_request \<times> time" where
  "queueableTarget v body w = (case body of (action, req) \<Rightarrow>
     (case find_row (forge_of (rqForge req)) (rqFullName req) (rqNumber req) w of
        None \<Rightarrow> Inl (ErrorReply 404 ''that pull request isn't on your board'')
      | Some pr \<Rightarrow> (case RateLimitedUntil (board_snapshot w) (prForge pr) (aeNow v) of (runAt, limited) \<Rightarrow>
          if \<not> limited then Inl (conflict_reply ActionNotRateLimited ''The forge isn't rate limited. Do this now instead of queueing it.'')
          else if \<not> prBehind pr then Inl (conflict_reply ActionAlreadyUpToDate ''Already up to date with the base branch.'')
          else (case refuseIfNotAllowed v action req w of
              Some r \<Rightarrow> Inl r
            | None \<Rightarrow> Inr (pr, runAt)))))"

definition wake_queue :: "api_world \<Rightarrow> api_world" where
  "wake_queue w = (if apBoard w = None then w else w\<lparr>apWoken := Suc (apWoken w)\<rparr>)"

definition handleQueuedActionsCreate :: "api_env \<Rightarrow> (action_name \<times> action_request) option \<Rightarrow> api_world \<Rightarrow> action_reply \<times> api_world" where
  "handleQueuedActionsCreate v body w = (case body of
       None \<Rightarrow> (ErrorReply 400 ''invalid request body'', w)
     | Some (action, req) \<Rightarrow> (case validQueuedActionRequest (action, req) of
           Some r \<Rightarrow> (r, w)
         | None \<Rightarrow> (case queueableTarget v (action, req) w of
               Inl r \<Rightarrow> (r, w)
             | Inr (pr, runAt) \<Rightarrow>
                 if \<not> aeWrites v then (ErrorReply 500 ''could not queue the action'', w)
                 else (case EnqueueQueuedAction (aeNewID v) \<lparr>qaID = '''', qaAction = action, qaForge = prForge pr,
                         qaRepo = rqFullName req, qaNumber = rqNumber req, qaStatus = QueuedWaiting, qaRunAt = runAt,
                         qaCreatedAt = aeNow v, qaFinishedAt = None, qaCode = None, qaMessage = ''''\<rparr> (apQueue w) of
                     ((row, created), rows) \<Rightarrow>
                       (let w = w\<lparr>apQueue := rows\<rparr>
                        in if \<not> created then (QueuedReply 200 row, w) else (QueuedReply 201 row, wake_queue w))))))"

definition handleQueuedActionsCancel :: "api_env \<Rightarrow> string \<Rightarrow> api_world \<Rightarrow> action_reply \<times> api_world" where
  "handleQueuedActionsCancel v i w =
     (if \<not> aeWrites v then (ErrorReply 500 ''could not cancel the queued action'', w)
      else (case CancelQueuedAction i (apQueue w) of (known, rows) \<Rightarrow>
        if \<not> known then (ErrorReply 404 ''no such queued action'', w)
        else (StatusOnly 204, wake_queue (w\<lparr>apQueue := rows\<rparr>))))"

section \<open>Hidden rows and automatic updates\<close>

definition maxHideDays :: int where "maxHideDays = 365"

definition badForge :: string where "badForge = ''forge must be github or forgejo''"

definition readHiddenTarget :: "action_request option \<Rightarrow> action_reply + action_request" where
  "readHiddenTarget body = (case body of
       None \<Rightarrow> Inl (ErrorReply 400 ''invalid request body'')
     | Some req \<Rightarrow> (case overBound [(''fullName'', rqFullName req, maxRepoFullNameLen)] of
           Some field \<Rightarrow> Inl (FieldReply field (field @ '' is too long''))
         | None \<Rightarrow>
             if splitFullName (rqFullName req) = None then Inl (ErrorReply 400 badFullName)
             else if rqForge req \<noteq> ''github'' \<and> rqForge req \<noteq> ''forgejo'' then Inl (FieldReply ''forge'' badForge)
             else if rqNumber req < 1 \<or> rqNumber req > maxPullRequestNumber
               then Inl (FieldReply ''number'' ''number must be a pull request number'')
             else Inr req))"

definition handlePullRequestHide :: "api_env \<Rightarrow> (action_request \<times> int option) option \<Rightarrow> api_world \<Rightarrow> action_reply \<times> api_world" where
  "handlePullRequestHide v body w = (case readHiddenTarget (map_option fst body) of
       Inl r \<Rightarrow> (r, w)
     | Inr req \<Rightarrow>
         (case (case body of Some (_, Some days) \<Rightarrow>
                    if days < 1 \<or> days > maxHideDays then None else Some (aeAddDays v days)
                  | _ \<Rightarrow> Some zero_time) of
            None \<Rightarrow> (FieldReply ''days'' ''days must be between 1 and 365'', w)
          | Some until \<Rightarrow>
              if \<not> aeWrites v then (ErrorReply 500 ''could not save'', w)
              else (StatusOnly 204, w\<lparr>apDb := HidePullRequest (pull_of req) until (apDb w)\<rparr>)))"

definition handlePullRequestUnhide :: "api_env \<Rightarrow> action_request option \<Rightarrow> api_world \<Rightarrow> action_reply \<times> api_world" where
  "handlePullRequestUnhide v body w = (case readHiddenTarget body of
       Inl r \<Rightarrow> (r, w)
     | Inr req \<Rightarrow>
         if \<not> aeWrites v then (ErrorReply 500 ''could not save'', w)
         else (StatusOnly 204, w\<lparr>apDb := UnhidePullRequest (pull_of req) (apDb w)\<rparr>))"

definition pullRequestTargetProblem :: "action_request \<Rightarrow> action_reply option" where
  "pullRequestTargetProblem req =
     (if rune_count (rqFullName req) > maxRepoFullNameLen then Some (FieldReply ''fullName'' ''fullName is too long'')
      else if splitFullName (rqFullName req) = None then Some (ErrorReply 400 badFullName)
      else if rqForge req \<noteq> ''github'' \<and> rqForge req \<noteq> ''forgejo'' then Some (FieldReply ''forge'' badForge)
      else if rqNumber req < 1 \<or> rqNumber req > maxPullRequestNumber
        then Some (FieldReply ''number'' ''number must be a pull request number'')
      else None)"

definition saveAutoUpdateChoice :: "api_env \<Rightarrow> action_request \<Rightarrow> bool option \<Rightarrow> settings_db \<Rightarrow> settings_db option" where
  "saveAutoUpdateChoice v req enabled db = (case enabled of
       None \<Rightarrow> if aeWrites v then Some (ClearPullRequestAutoUpdate (pull_of req) db) else None
     | Some on \<Rightarrow>
         if \<not> aeReads v \<or> \<not> aeWrites v then None
         else if on = ((rqForge req, rqFullName req) \<in> sdAutoUpdate db)
           then Some (ClearPullRequestAutoUpdate (pull_of req) db)
         else Some (SetPullRequestAutoUpdate (pull_of req) on db))"

definition handlePullRequestAutoUpdate :: "api_env \<Rightarrow> (action_request \<times> bool option) option \<Rightarrow> api_world \<Rightarrow> action_reply \<times> api_world" where
  "handlePullRequestAutoUpdate v body w = (case body of
       None \<Rightarrow> (ErrorReply 400 ''invalid request body'', w)
     | Some (req, enabled) \<Rightarrow> (case pullRequestTargetProblem req of
           Some r \<Rightarrow> (r, w)
         | None \<Rightarrow> (case find_row (forge_of (rqForge req)) (rqFullName req) (rqNumber req) w of
               None \<Rightarrow> (ErrorReply 404 ''pull request not found'', w)
             | Some _ \<Rightarrow> (case saveAutoUpdateChoice v req enabled (apDb w) of
                   None \<Rightarrow> (ErrorReply 500 ''could not save'', w)
                 | Some db \<Rightarrow> (StatusOnly 204, w\<lparr>apDb := db\<rparr>)))))"

section \<open>Issues, hooks and runs\<close>

definition refuseIssueAction :: "go_error \<Rightarrow> action_reply" where
  "refuseIssueAction e =
     (let r = ClassifyForgeRefusal e;
          r = (if has_kind e ForgeErrorNotFound
               then r\<lparr>arMessage := ''The forge couldn't find this issue, or the token can't see it.''\<rparr> else r)
      in writeRefusal (clientErrorStatus e) r e)"

definition handleIssueStateAction :: "string \<Rightarrow> forge_call \<Rightarrow> (action_source \<Rightarrow> (item \<Rightarrow> go_error option) option) \<Rightarrow>
    api_env \<Rightarrow> action_request option \<Rightarrow> api_world \<Rightarrow> action_reply \<times> api_world" where
  "handleIssueStateAction words call capability v body w = (case readActionTarget body of
       Inl r \<Rightarrow> (r, w)
     | Inr (req, it) \<Rightarrow> (case lookupForgeSource v (rqForge req) of
           Inl r \<Rightarrow> (r, w)
         | Inr (src, _) \<Rightarrow> (case capabilityFor (capability src) (rqForge req) words of
               Inl r \<Rightarrow> (r, w)
             | Inr run \<Rightarrow> (let w = asked call src it w in
                 case run it of
                   Some e \<Rightarrow> (refuseIssueAction e, w)
                 | None \<Rightarrow> (StatusOnly 204, w)))))"

definition handleIssueClose :: "api_env \<Rightarrow> action_request option \<Rightarrow> api_world \<Rightarrow> action_reply \<times> api_world" where
  "handleIssueClose = handleIssueStateAction ''doesn't support closing issues'' CallCloseIssue asCloseIssue"

definition handleIssueReopen :: "api_env \<Rightarrow> action_request option \<Rightarrow> api_world \<Rightarrow> action_reply \<times> api_world" where
  "handleIssueReopen = handleIssueStateAction ''doesn't support reopening issues'' CallReopenIssue asReopenIssue"

definition maxIssueCommentLen :: nat where "maxIssueCommentLen = 65536"

definition handleIssueComment :: "api_env \<Rightarrow> (action_request \<times> string) option \<Rightarrow> api_world \<Rightarrow> action_reply \<times> api_world" where
  "handleIssueComment v body w = (case body of
       None \<Rightarrow> (ErrorReply 400 ''invalid request body'', w)
     | Some (req, comment) \<Rightarrow> (case validateActionTarget req of
           Inl r \<Rightarrow> (r, w)
         | Inr it \<Rightarrow>
             if trim_space comment = '''' then (FieldReply ''body'' ''body must not be empty'', w)
             else if rune_count comment > maxIssueCommentLen then (FieldReply ''body'' ''body is too long'', w)
             else (case lookupForgeSource v (rqForge req) of
                 Inl r \<Rightarrow> (r, w)
               | Inr (src, _) \<Rightarrow> (case capabilityFor (asCommentIssue src) (rqForge req) ''doesn't support commenting on issues'' of
                     Inl r \<Rightarrow> (r, w)
                   | Inr run \<Rightarrow> (let w = asked (CallCommentIssue comment) src it w in
                       case run it comment of
                         Some e \<Rightarrow> (refuseIssueAction e, w)
                       | None \<Rightarrow> (StatusOnly 204, w))))))"

definition handleWebhookEnsure :: "api_env \<Rightarrow> action_request option \<Rightarrow> api_world \<Rightarrow> action_reply \<times> api_world" where
  "handleWebhookEnsure v body w = (case readActionTarget body of
       Inl r \<Rightarrow> (r, w)
     | Inr (req, it) \<Rightarrow> (case aeCreds v of
           None \<Rightarrow> (ErrorReply 500 ''could not load settings'', w)
         | Some creds \<Rightarrow> (case EnsureWebhookCredentials (aeReads v) (aeWrites v) (aeNow v) (aeSecrets v) (apDb w) of
               (Inl _, db) \<Rightarrow> (ErrorReply 500 ''could not load webhook credentials'', w\<lparr>apDb := db\<rparr>)
             | (Inr (tok, secret), db) \<Rightarrow> (let w = w\<lparr>apDb := db\<rparr> in
                 case pickForgeSource v creds (rqForge req) of
                   Inl r \<Rightarrow> (r, w)
                 | Inr src \<Rightarrow> (case capabilityFor (asEnsureWebhook src) (rqForge req) ''doesn't support creating webhooks'' of
                       Inl r \<Rightarrow> (r, w)
                     | Inr run \<Rightarrow>
                         (let url = aeOrigin v @ ''/api/webhooks/'' @ rqForge req @ ''/'' @ tok;
                              w = asked (CallEnsureWebhook url secret) src it w in
                          case run (fst it, fst (snd it)) url secret of
                            Some e \<Rightarrow> (writeRefusal (clientErrorStatus e) (ClassifyForgeRefusal e) e, w)
                          | None \<Rightarrow> (StatusOnly 204, w)))))))"

definition trackedRepository :: "api_env \<Rightarrow> forge \<Rightarrow> string \<Rightarrow> api_world \<Rightarrow> bool" where
  "trackedRepository v forge fullName w =
     (let snap = board_snapshot w in
      list_ex (\<lambda>r. rpForge r = forge \<and> rpFullName r = fullName) (snRepos snap) \<or>
      list_ex (\<lambda>p. prForge p = forge \<and> prRepo p = fullName) (snPullRequests snap) \<or>
      list_ex (\<lambda>b. mbForge b = forge \<and> mbFullName b = fullName) (aeFollowed v snap))"

definition handleCancelRun :: "api_env \<Rightarrow> action_request option \<Rightarrow> api_world \<Rightarrow> action_reply \<times> api_world" where
  "handleCancelRun v body w = (case body of
       None \<Rightarrow> (ErrorReply 400 ''invalid request body'', w)
     | Some req \<Rightarrow>          \<comment> \<open>the number stands for the run's id\<close>
         if rqNumber req \<le> 0 then (FieldReply ''runId'' ''runId must be a positive run id'', w)
         else (case validateActionTarget (req\<lparr>rqNumber := 0\<rparr>) of
             Inl r \<Rightarrow> (r, w)
           | Inr (owner, name, _) \<Rightarrow> (case lookupForgeSource v (rqForge req) of
                 Inl r \<Rightarrow> (r, w)
               | Inr (src, _) \<Rightarrow> (case capabilityFor (asCancelRun src) (rqForge req) ''doesn't support cancelling a run'' of
                     Inl r \<Rightarrow> (r, w)
                   | Inr run \<Rightarrow>
                       if \<not> trackedRepository v (forge_of (rqForge req)) (rqFullName req) w
                       then (RefusedReply 404 \<lparr>ebError = ''that repository isn't tracked'', ebCode = ActionUnknown,
                               ebMessage = ''That repository isn't tracked by the dashboard.'', ebResetsAt = None,
                               ebUpstreamStatus = 0, ebRequestID = ''''\<rparr>, w)
                       else (let w = asked CallCancelRun src (owner, name, rqNumber req) w in
                         case run (owner, name) (rqNumber req) of
                           Some e \<Rightarrow> (writeActionRefusal None PullRequestActionCancelRun (owner, name, 0) e, w)
                         | None \<Rightarrow> (StatusOnly 204, w))))))"

definition trackedMainBranch :: "api_env \<Rightarrow> forge \<Rightarrow> string \<Rightarrow> api_world \<Rightarrow> main_branch option" where
  "trackedMainBranch v forge fullName w =
     find (\<lambda>b. mbForge b = forge \<and> mbFullName b = fullName) (aeBranches v (board_snapshot w))"

definition handleMainBranchRerunChecks :: "api_env \<Rightarrow> action_request option \<Rightarrow> api_world \<Rightarrow> action_reply \<times> api_world" where
  "handleMainBranchRerunChecks v body w = (case readActionTarget body of
       Inl r \<Rightarrow> (r, w)
     | Inr (req, owner, name, n) \<Rightarrow> (case lookupForgeSource v (rqForge req) of
           Inl r \<Rightarrow> (r, w)
         | Inr (src, _) \<Rightarrow> (case capabilityFor (asRerunBranch src) (rqForge req) ''doesn't support rerunning default branch checks'' of
               Inl r \<Rightarrow> (r, w)
             | Inr run \<Rightarrow> (case trackedMainBranch v (forge_of (rqForge req)) (rqFullName req) w of
                   None \<Rightarrow> (ErrorReply 404 ''that repository's default branch isn't tracked'', w)
                 | Some row \<Rightarrow> (let w = asked (CallRerunBranch (mbBranch row)) src (owner, name, 0) w in
                     case run (owner, name) (mbBranch row) of
                       Some e \<Rightarrow> (writeActionRefusal None PullRequestActionRerunBranchChecks (owner, name, 0) e, w)
                     | None \<Rightarrow> (StatusOnly 204, w))))))"

section \<open>Any request\<close>

datatype api_request = ReqMerge "(action_request \<times> bool) option" | ReqClose "action_request option"
  | ReqReopen "action_request option" | ReqUpdateBranch "action_request option"
  | ReqAutoMerge "action_request option" | ReqCancelAutoMerge "action_request option"
  | ReqDependabot "(action_request \<times> string) option" | ReqRenovate "action_request option"
  | ReqCancelRenovate "action_request option" | ReqRerun "action_request option"
  | ReqQueue "(action_name \<times> action_request) option" | ReqCancelQueued string
  | ReqHide "(action_request \<times> int option) option" | ReqUnhide "action_request option"
  | ReqAutoUpdate "(action_request \<times> bool option) option"
  | ReqCloseIssue "action_request option" | ReqReopenIssue "action_request option"
  | ReqCommentIssue "(action_request \<times> string) option" | ReqEnsureWebhook "action_request option"
  | ReqCancelRun "action_request option" | ReqRerunBranch "action_request option"

definition serve_action :: "api_env \<Rightarrow> api_request \<Rightarrow> api_world \<Rightarrow> action_reply \<times> api_world" where
  "serve_action v q = (case q of
       ReqMerge b \<Rightarrow> handlePullRequestMerge v b
     | ReqClose b \<Rightarrow> handlePullRequestClose v b
     | ReqReopen b \<Rightarrow> handlePullRequestReopen v b
     | ReqUpdateBranch b \<Rightarrow> handlePullRequestUpdateBranch v b
     | ReqAutoMerge b \<Rightarrow> handlePullRequestAutoMerge v b
     | ReqCancelAutoMerge b \<Rightarrow> handlePullRequestAutoMergeCancel v b
     | ReqDependabot b \<Rightarrow> handlePullRequestDependabotAction v b
     | ReqRenovate b \<Rightarrow> handlePullRequestRenovateRebase v b
     | ReqCancelRenovate b \<Rightarrow> handlePullRequestRenovateRebaseCancel v b
     | ReqRerun b \<Rightarrow> handlePullRequestRerunChecks v b
     | ReqQueue b \<Rightarrow> handleQueuedActionsCreate v b
     | ReqCancelQueued i \<Rightarrow> handleQueuedActionsCancel v i
     | ReqHide b \<Rightarrow> handlePullRequestHide v b
     | ReqUnhide b \<Rightarrow> handlePullRequestUnhide v b
     | ReqAutoUpdate b \<Rightarrow> handlePullRequestAutoUpdate v b
     | ReqCloseIssue b \<Rightarrow> handleIssueClose v b
     | ReqReopenIssue b \<Rightarrow> handleIssueReopen v b
     | ReqCommentIssue b \<Rightarrow> handleIssueComment v b
     | ReqEnsureWebhook b \<Rightarrow> handleWebhookEnsure v b
     | ReqCancelRun b \<Rightarrow> handleCancelRun v b
     | ReqRerunBranch b \<Rightarrow> handleMainBranchRerunChecks v b)"

section \<open>No write but what the row offers\<close>

lemma find_open:
  "distinct (map aaAction as) \<Longrightarrow>
   open_in n as \<longleftrightarrow> (case find (\<lambda>a. aaAction a = n) as of Some a \<Rightarrow> aaBlocked a = None | None \<Rightarrow> False)"
proof (induction as)
  case (Cons a as)
  have "n \<notin> aaAction ` set as" if "aaAction a = n" using Cons.prems that by simp
  then have "\<not> open_in n as" if "aaAction a = n" using that unfolding open_in_iff by blast
  then show ?case using Cons by auto
qed simp

lemma refuse_iff:
  assumes "find_row (forge_of (rqForge req)) (rqFullName req) (rqNumber req) w = Some pr"
  shows "refuseIfNotAllowed v action req w = None \<longleftrightarrow> open_in action (AllowedActions pr (aeAuthors v))"
  using assms find_open[OF AllowedActions_distinct, of action pr "aeAuthors v"]
  by (auto simp: refuseIfNotAllowed_def Let_def split: option.splits)

lemma split_name: "splitFullName s = Some (owner, name) \<Longrightarrow> s = owner @ ''/'' @ name"
  by (auto simp: splitFullName_def dest!: arg_cong[of _ _ "join_with (CHR ''/'')"] split: list.splits if_splits)

lemma validated: "validateActionTarget req = Inr (owner, name, n) \<Longrightarrow> rqFullName req = owner @ ''/'' @ name \<and> n = rqNumber req"
  using split_name[of "rqFullName req"] by (auto simp: validateActionTarget_def split: option.splits if_splits)

lemma target_read:
  "readActionTarget body = Inr (req, owner, name, n) \<Longrightarrow> rqFullName req = owner @ ''/'' @ name \<and> n = rqNumber req"
  using validated by (auto simp: readActionTarget_def split: option.splits sum.splits)

lemma dependabot_read:
  "readDependabotTarget body = Inr (req, (owner, name, n), act) \<Longrightarrow>
   rqFullName req = owner @ ''/'' @ name \<and> n = rqNumber req \<and> (\<exists>a. dependabotActions a = Some act)"
  using split_name by (fastforce simp: readDependabotTarget_def split: option.splits if_splits)

lemma source_forge: "lookupForgeSource v forge = Inr (src, creds) \<Longrightarrow> asForge src = forge_of forge"
  by (auto simp: lookupForgeSource_def pickForgeSource_def find_Some_iff split: option.splits sum.splits)

lemma asked_api_simps [simp]:
  "apAsked (asked call src it w) = (call, asForge src, it) # apAsked w"
  "apBoard (asked call src it w) = apBoard w" "apDb (asked call src it w) = apDb w"
  "apQueue (asked call src it w) = apQueue w"
  "apAsked (on_service f w) = apAsked w" "apDb (on_service f w) = apDb w" "apQueue (on_service f w) = apQueue w"
  "apAsked (wake_queue w) = apAsked w"
  by (simp_all add: asked_def on_service_def wake_queue_def)

text \<open>The action of the page that stands for a call, where the page has one it may refuse.\<close>

definition call_action :: "forge \<Rightarrow> forge_call \<Rightarrow> action_name option" where
  "call_action f call = (case call of
       CallMerge \<Rightarrow> Some ActionMerge
     | CallDeleteBranch \<Rightarrow> Some ActionMerge
     | CallUpdateBranch \<Rightarrow> Some ActionUpdateBranch
     | CallEnableAutoMerge \<Rightarrow> Some ActionAutoMerge
     | CallDisableAutoMerge \<Rightarrow> if f = ForgeGitHub then Some ActionCancelAutoMerge else None
     | CallComment c \<Rightarrow> Some (if c = DependabotRebaseComment then ActionDependabotRebase else ActionDependabotRecreate)
     | CallLabel _ \<Rightarrow> Some ActionRenovateRebase
     | CallTick _ \<Rightarrow> Some ActionRenovateRebase
     | CallUntick _ \<Rightarrow> Some ActionCancelRenovateRebase
     | CallRerun \<Rightarrow> Some ActionRerunChecks
     | _ \<Rightarrow> None)"

text \<open>A call that passed the check of the server, for the pull request it was asked of.\<close>

definition passed_check :: "api_env \<Rightarrow> api_world \<Rightarrow> forge_call \<times> forge \<times> item \<Rightarrow> bool" where
  "passed_check v w e = (case e of (call, f, owner, name, n) \<Rightarrow> (case call_action f call of
       None \<Rightarrow> True
     | Some action \<Rightarrow> (\<exists>req. refuseIfNotAllowed v action req w = None \<and> forge_of (rqForge req) = f \<and>
         rqFullName req = owner @ ''/'' @ name \<and> rqNumber req = n)))"

definition only_checked :: "api_env \<Rightarrow> api_world \<Rightarrow> api_world \<Rightarrow> bool" where
  "only_checked v w w' \<longleftrightarrow> (\<exists>new. apAsked w' = new @ apAsked w \<and> list_all (passed_check v w) new)"

lemma only_checkedI:
  "apAsked w' = apAsked w \<Longrightarrow> only_checked v w w'"
  "apAsked w' = [e] @ apAsked w \<Longrightarrow> passed_check v w e \<Longrightarrow> only_checked v w w'"
  "apAsked w' = [d, e] @ apAsked w \<Longrightarrow> passed_check v w d \<Longrightarrow> passed_check v w e \<Longrightarrow> only_checked v w w'"
  unfolding only_checked_def by (rule exI[of _ "[]"], simp) (rule exI[of _ "[e]"], simp, rule exI[of _ "[d, e]"], simp)

lemma unchecked_call: "call_action f call = None \<Longrightarrow> passed_check v w (call, f, it)"
  by (cases it) (simp add: passed_check_def)

lemma asked_unchecked:
  "apAsked w' = (call, f, it) # apAsked w \<Longrightarrow> call_action f call = None \<Longrightarrow> only_checked v w w'"
  by (rule only_checkedI(2)[of _ "(call, f, it)"]) (simp_all add: unchecked_call)

lemma checked_call:
  assumes "refuseIfNotAllowed v action req w = None" "call_action (forge_of (rqForge req)) call = Some action"
    "rqFullName req = owner @ ''/'' @ name" "rqNumber req = n"
  shows "passed_check v w (call, forge_of (rqForge req), owner, name, n)"
  using assms by (auto simp: passed_check_def)

lemma guarded_checked:
  assumes "rqFullName req = owner @ ''/'' @ name" "n = rqNumber req"
    "call_action (forge_of (rqForge req)) call = Some allowed"
  shows "only_checked v w (snd (serveGuardedAction v allowed action words call capability req (owner, name, n) w))"
  using assms source_forge checked_call[of v allowed req w call owner name n]
  by (auto simp: serveGuardedAction_def Let_def split: option.splits sum.splits prod.splits intro: only_checkedI)

lemmas reply_splits = option.splits sum.splits prod.splits if_splits

lemma merge_checked: "only_checked v w (snd (handlePullRequestMerge v body w))"
proof -
  have "passed_check v w (call, asForge src, owner, name, n)"
    if "validateActionTarget req = Inr (owner, name, n)" "refuseIfNotAllowed v ActionMerge req w = None"
      "lookupForgeSource v (rqForge req) = Inr (src, creds)" "call_action (asForge src) call = Some ActionMerge"
    for req owner name n src creds call
    using that checked_call[OF that(2)] validated[OF that(1)] source_forge[OF that(3)] by simp
  then show ?thesis
    by (auto simp: handlePullRequestMerge_def deleteMergedBranch_def Let_def call_action_def split: reply_splits intro: only_checkedI)
qed

lemma state_action_checked:
  assumes "\<And>f. call_action f call = None"
  shows "only_checked v w (snd (handleStateAction action words call capability settle v body w))"
  using assms
  by (auto simp: handleStateAction_def Let_def split: reply_splits intro: only_checkedI(1) asked_unchecked)

lemma update_checked: "only_checked v w (snd (handlePullRequestUpdateBranch v body w))"
proof -
  have "passed_check v w (CallUpdateBranch, asForge src, owner, name, n)"
    if "readActionTarget body = Inr (req, owner, name, n)" "refuseIfNotAllowed v ActionUpdateBranch req w = None"
      "lookupForgeSource v (rqForge req) = Inr (src, creds)" for req owner name n src creds
    using checked_call[OF that(2)] target_read[OF that(1)] source_forge[OF that(3)] by (simp add: call_action_def)
  then show ?thesis
    by (auto simp: handlePullRequestUpdateBranch_def Let_def split: reply_splits intro: only_checkedI)
qed

lemma dependabot_call: "dependabotActions a = Some (action, act, comment) \<Longrightarrow> call_action f (CallComment comment) = Some action"
  by (auto simp: dependabotActions_def call_action_def DependabotRebaseComment_def DependabotRecreateComment_def split: if_splits)

lemma dependabot_checked: "only_checked v w (snd (handlePullRequestDependabotAction v body w))"
proof -
  have "passed_check v w (CallComment comment, asForge src, owner, name, n)"
    if "readDependabotTarget body = Inr (req, (owner, name, n), action, act, comment)" "refuseIfNotAllowed v action req w = None"
      "lookupForgeSource v (rqForge req) = Inr (src, creds)" for req owner name n action act comment src creds
    using checked_call[OF that(2)] dependabot_read[OF that(1)] source_forge[OF that(3)] dependabot_call by auto
  then show ?thesis
    by (auto simp: handlePullRequestDependabotAction_def Let_def split: reply_splits intro: only_checkedI)
qed

lemma fold_asked: "apAsked (fold (\<lambda>call. asked call src it) calls w) = rev (map (\<lambda>call. (call, asForge src, it)) calls) @ apAsked w"
  by (induction calls arbitrary: w) simp_all

lemma renovate_checked: "only_checked v w (snd (handlePullRequestRenovateRebase v body w))"
proof -
  have "list_all (passed_check v w) (rev (map (\<lambda>call. (call, asForge src, owner, name, n)) (rebase_writes outcome written label)))"
    if "readActionTarget body = Inr (req, owner, name, n)" "refuseIfNotAllowed v ActionRenovateRebase req w = None"
      "lookupForgeSource v (rqForge req) = Inr (src, creds)" for req owner name n src creds outcome written label
    using checked_call[OF that(2)] target_read[OF that(1)] source_forge[OF that(3)]
    by (auto simp: rebase_writes_def call_action_def split: option.splits)
  then show ?thesis
    by (auto simp: handlePullRequestRenovateRebase_def Let_def fold_asked only_checked_def split: reply_splits intro: only_checkedI)
qed

lemma untick_checked: "only_checked v w (snd (handlePullRequestRenovateRebaseCancel v body w))"
proof -
  have "passed_check v w (CallUntick b, asForge src, owner, name, n)"
    if "readActionTarget body = Inr (req, owner, name, n)" "refuseIfNotAllowed v ActionCancelRenovateRebase req w = None"
      "lookupForgeSource v (rqForge req) = Inr (src, creds)" for req owner name n src creds b
    using checked_call[OF that(2)] target_read[OF that(1)] source_forge[OF that(3)] by (simp add: call_action_def)
  then show ?thesis
    by (auto simp: handlePullRequestRenovateRebaseCancel_def Let_def split: reply_splits intro: only_checkedI)
qed

lemma rerun_checked: "only_checked v w (snd (handlePullRequestRerunChecks v body w))"
  by (auto simp: handlePullRequestRerunChecks_def call_action_def dest!: target_read split: reply_splits
      intro!: guarded_checked intro: only_checkedI)

lemma arm_checked: "only_checked v w (snd (handlePullRequestAutoMerge v body w))"
  by (auto simp: handlePullRequestAutoMerge_def armForgejoAutoMerge_def call_action_def dest!: target_read split: reply_splits
      intro!: guarded_checked intro: only_checkedI)

lemma disarm_checked: "only_checked v w (snd (handlePullRequestAutoMergeCancel v body w))"
  by (auto simp: handlePullRequestAutoMergeCancel_def cancelForgejoIntent_def Let_def call_action_def forge_of_def
      dest!: target_read source_forge split: reply_splits intro!: guarded_checked intro: only_checkedI(1) asked_unchecked)

lemma others_checked:
  "only_checked v w (snd (handleQueuedActionsCreate v qb w))"
  "only_checked v w (snd (handleQueuedActionsCancel v i w))"
  "only_checked v w (snd (handlePullRequestHide v hb w))"
  "only_checked v w (snd (handlePullRequestUnhide v body w))"
  "only_checked v w (snd (handlePullRequestAutoUpdate v ab w))"
  "only_checked v w (snd (handleIssueComment v cb w))"
  "only_checked v w (snd (handleWebhookEnsure v body w))"
  "only_checked v w (snd (handleCancelRun v body w))"
  "only_checked v w (snd (handleMainBranchRerunChecks v body w))"
  by (auto simp: handleQueuedActionsCreate_def handleQueuedActionsCancel_def handlePullRequestHide_def
      handlePullRequestUnhide_def handlePullRequestAutoUpdate_def handleIssueComment_def handleWebhookEnsure_def
      handleCancelRun_def handleMainBranchRerunChecks_def call_action_def Let_def
      split: reply_splits intro: only_checkedI(1) asked_unchecked)

lemma issue_checked:
  assumes "\<And>f. call_action f call = None"
  shows "only_checked v w (snd (handleIssueStateAction words call capability v body w))"
  using assms by (auto simp: handleIssueStateAction_def Let_def split: reply_splits intro: only_checkedI(1) asked_unchecked)

lemma served_checked: "only_checked v w (snd (serve_action v q w))"
  by (cases q) (simp_all add: serve_action_def merge_checked update_checked dependabot_checked renovate_checked untick_checked
      rerun_checked arm_checked disarm_checked others_checked handlePullRequestClose_def handlePullRequestReopen_def
      handleIssueClose_def handleIssueReopen_def state_action_checked issue_checked call_action_def)

text \<open>
  C2: whatever request arrives, a write that is asked of a forge for a pull request on the board is
  one the row offers right now and does not block: the server checks what the page shows. The calls
  meant are the merge and the deletion of its branch, the update of a branch, auto-merge on GitHub, the
  commands to Dependabot and Renovate and the rerun of checks.
\<close>

theorem write_was_offered:
  assumes "serve_action v q w = (r, w')" "apAsked w' = new @ apAsked w" "(call, f, owner, name, n) \<in> set new"
    and "call_action f call = Some action" "find_row f (owner @ ''/'' @ name) n w = Some pr"
  shows "open_in action (AllowedActions pr (aeAuthors v))"
proof -
  have "only_checked v w w'" using served_checked[of v w q] assms(1) by simp
  then have "list_all (passed_check v w) new" using assms(2) by (auto simp: only_checked_def)
  then obtain req where "refuseIfNotAllowed v action req w = None" "forge_of (rqForge req) = f"
    "rqFullName req = owner @ ''/'' @ name" "rqNumber req = n"
    using assms(3,4) by (fastforce simp: list_all_iff passed_check_def)
  then show ?thesis using refuse_iff[of req w pr v action] assms(5) by simp
qed

section \<open>The page's buttons and the server agree\<close>













section \<open>One command to Dependabot at a time\<close>

lemma annotate_same [simp]:
  "prForge (annotateRowRequests st pr) = prForge pr" "prRepo (annotateRowRequests st pr) = prRepo pr"
  "prNumber (annotateRowRequests st pr) = prNumber pr" "pr_key (annotateRowRequests st pr) = pr_key pr"
  by (simp_all add: annotateRowRequests_def pr_key_def)

lemma update_first_same: "find P xs = Some x \<Longrightarrow> update_first P x xs = xs"
  by (induction xs) (auto split: if_splits)

lemma find_mapped:
  assumes "\<And>x. P (g x) = P x"
  shows "find P (map g xs) = map_option g (find P xs)"
  using assms by (induction xs) auto

text \<open>A request recorded for a row of the board is what the row then shows.\<close>

lemma recorded_row:
  assumes "find_row f repo n w = Some pr" "apBoard w = Some b"
    and "apBoard w' = Some (on_rows (RecordBotRequest now seq f repo n who act) b)"
  shows "\<exists>pr'. find_row f repo n w' = Some pr' \<and>
    prBotRequest pr' = Some \<lparr>brBot = who, brAction = act, brPhase = BotQueued, brRequestedAt = now,
      brExpiresAt = now + botQueuedWait, brAcknowledgedAt = None, brCommentURL = ''''\<rparr>"
proof -
  let ?P = "\<lambda>pr. prForge pr = f \<and> prRepo pr = repo \<and> prNumber pr = n" and ?prs = "snPullRequests (bdSnap b)"
  have pr: "find ?P ?prs = Some pr" using assms(1,2) by (simp add: find_row_def board_snapshot_def)
  then have key: "pr_key pr = settledKey f repo n" "pr \<in> set ?prs" by (auto simp: find_Some_iff pr_key_def)
  then obtain pr0 where pr0: "find (\<lambda>pr. pr_key pr = settledKey f repo n) ?prs = Some pr0"
    by (cases "find (\<lambda>pr. pr_key pr = settledKey f repo n) ?prs") (auto simp: find_None_iff)
  let ?st = "recordBotLocked now seq who act pr0 (settledKey f repo n) (bdBots b)"
  have rows: "snPullRequests (bdSnap (on_rows (RecordBotRequest now seq f repo n who act) b)) = map (annotateRowRequests ?st) ?prs"
    using pr0 by (simp add: on_rows_def RecordBotRequest_def amendPullRequest_def Let_def annotateBotRequests_def update_first_same)
  have "find_row f repo n w' = Some (annotateRowRequests ?st pr)"
    using assms(3) by (simp add: find_row_def board_snapshot_def rows find_mapped pr)
  moreover have "bsRequests ?st (pr_key pr) = Some \<lparr>brBot = who, brAction = act, brPhase = BotQueued, brRequestedAt = now,
      brExpiresAt = now + botQueuedWait, brAcknowledgedAt = None, brCommentURL = '''', beWasBehind = prBehind pr0,
      beHead = prHeadSHA pr0, beSeq = seq\<rparr>" using key by (simp add: recordBotLocked_def)
  ultimately show ?thesis by (simp add: annotateRowRequests_def bot_request.defs)
qed

lemma served_command:
  assumes "handlePullRequestDependabotAction v (Some (req, a)) w = (StatusOnly st, w')"
  obtains src it action act comment creds where "readDependabotTarget (Some (req, a)) = Inr (req, it, action, act, comment)"
    "w' = on_service (on_rows (RecordBotRequest (aeNow v) (aeSeq v) (forge_of (rqForge req)) (rqFullName req) (rqNumber req)
       BotDependabot act)) (asked (CallComment comment) src it w)"
proof -
  have refl_req: "r = req" if "readDependabotTarget (Some (req, a)) = Inr (r, x)" for r x
    using that by (auto simp: readDependabotTarget_def split: option.splits if_splits)
  have no: "refuseIfNotAllowed v action r w \<noteq> Some (StatusOnly k)" "lookupForgeSource v f \<noteq> Inl (StatusOnly k)"
    "capabilityFor (c :: (item \<Rightarrow> string \<Rightarrow> go_error option) option) f z \<noteq> Inl (StatusOnly k)"
    "writeActionRefusal rd pa x e \<noteq> StatusOnly k" "readDependabotTarget bd \<noteq> Inl (StatusOnly k)"
    for action r k f c z rd pa x e bd
    by (auto simp: refuseIfNotAllowed_def conflict_reply_def Let_def lookupForgeSource_def pickForgeSource_def
        capabilityFor_def writeActionRefusal_def writeRefusal_def readDependabotTarget_def split: option.splits)
  obtain it action act comment where t: "readDependabotTarget (Some (req, a)) = Inr (req, it, action, act, comment)"
  proof (cases "readDependabotTarget (Some (req, a))")
    case (Inl r)
    then show thesis using assms no(5)[of "Some (req, a)" st] by (simp add: handlePullRequestDependabotAction_def)
  next
    case (Inr p)
    then show thesis using refl_req that by (cases p) blast
  qed
  have "refuseIfNotAllowed v action req w = None"
    using assms no(1)[of action req st] by (simp add: handlePullRequestDependabotAction_def t split: option.splits)
  moreover obtain src creds where src: "lookupForgeSource v (rqForge req) = Inr (src, creds)"
    using assms no(2)[of "rqForge req" st] calculation
    by (cases "lookupForgeSource v (rqForge req)") (auto simp: handlePullRequestDependabotAction_def t)
  moreover have "asCommandsBlocked src = ''''"
    using assms calculation by (auto simp: handlePullRequestDependabotAction_def t conflict_reply_def split: if_splits)
  moreover obtain run where "capabilityFor (asComment src) (rqForge req) ''doesn't support commenting on pull requests'' = Inr run"
    using assms no(3)[of "asComment src" "rqForge req" "''doesn't support commenting on pull requests''" st] calculation
    by (cases "capabilityFor (asComment src) (rqForge req) ''doesn't support commenting on pull requests''")
      (auto simp: handlePullRequestDependabotAction_def t)
  moreover have "run it comment = None"
    using assms no(4) calculation by (auto simp: handlePullRequestDependabotAction_def t Let_def split: option.splits)
  ultimately have "w' = on_service (on_rows (RecordBotRequest (aeNow v) (aeSeq v) (forge_of (rqForge req)) (rqFullName req) (rqNumber req)
       BotDependabot act)) (asked (CallComment comment) src it w)"
    using assms by (simp add: handlePullRequestDependabotAction_def t Let_def)
  with t show thesis by (rule that)
qed

text \<open>
  C36: one command to Dependabot at a time. Once a rebase or recreate command was sent for a pull request of
  the board, the next request for either, whoever sends it and whatever is saved by then, asks
  nothing of the forge and is answered with a conflict, until a refresh moves the request along.
\<close>

theorem one_command_at_a_time:
  assumes "handlePullRequestDependabotAction v (Some (req, a)) w = (StatusOnly st, w1)"
    and "find_row (forge_of (rqForge req)) (rqFullName req) (rqNumber req) w = Some pr"
    and "dependabotActions a2 \<noteq> None"
  shows "snd (handlePullRequestDependabotAction v2 (Some (req, a2)) w1) = w1 \<and>
    (\<exists>body. fst (handlePullRequestDependabotAction v2 (Some (req, a2)) w1) = RefusedReply 409 body \<and>
      ebCode body = (if a2 = a then ActionAlreadyRequested else ActionNotMergeable))"
proof -
  obtain src it action act comment creds where t: "readDependabotTarget (Some (req, a)) = Inr (req, it, action, act, comment)"
    and w1: "w1 = on_service (on_rows (RecordBotRequest (aeNow v) (aeSeq v) (forge_of (rqForge req)) (rqFullName req) (rqNumber req)
       BotDependabot act)) (asked (CallComment comment) src it w)"
    by (rule served_command[OF assms(1)])
  obtain b where b: "apBoard w = Some b"
    using assms(2) by (cases "apBoard w") (auto simp: find_row_def board_snapshot_def newEmptySnapshot_def)
  obtain pr' where pr': "find_row (forge_of (rqForge req)) (rqFullName req) (rqNumber req) w1 = Some pr'"
    "prBotRequest pr' = Some \<lparr>brBot = BotDependabot, brAction = act, brPhase = BotQueued, brRequestedAt = aeNow v,
      brExpiresAt = aeNow v + botQueuedWait, brAcknowledgedAt = None, brCommentURL = ''''\<rparr>"
    using recorded_row[OF assms(2) b, of w1 "aeNow v" "aeSeq v" BotDependabot act] b w1 by (auto simp: on_service_def asked_def)
  obtain action2 act2 comment2 where a2: "dependabotActions a2 = Some (action2, act2, comment2)" using assms(3) by auto
  have t2: "readDependabotTarget (Some (req, a2)) = Inr (req, it, action2, act2, comment2)"
    and a: "dependabotActions a = Some (action, act, comment)"
    using t a2 by (auto simp: readDependabotTarget_def split: option.splits if_splits)
  have d2: "action2 = ActionDependabotRebase \<or> action2 = ActionDependabotRecreate"
    and same: "(action2 = ActionDependabotRebase) = (act = BotRebase) \<longleftrightarrow> a2 = a"
    using a a2 by (auto simp: dependabotActions_def split: if_splits)
  have "\<not> offers pr' (aeAuthors v2) action2" using d2 pr'(2) by (auto simp: offers_def botRequestPending_def)
  then have "action2 \<notin> aaAction ` set (AllowedActions pr' (aeAuthors v2))" by (simp add: AllowedActions_set)
  then have "find (\<lambda>x. aaAction x = action2) (AllowedActions pr' (aeAuthors v2)) = None" by (auto simp: find_None_iff)
  then have "refuseIfNotAllowed v2 action2 req w1 = (let r = botActionNotOffered action2 pr' in Some (conflict_reply (arCode r) (arMessage r)))"
    using pr'(1) d2 by (auto simp: refuseIfNotAllowed_def notOfferedRefusal_def)
  moreover have "arCode (botActionNotOffered action2 pr') = (if a2 = a then ActionAlreadyRequested else ActionNotMergeable)"
    using pr'(2) d2 same by (auto simp: botActionNotOffered_def Let_def)
  ultimately show ?thesis using t2 by (simp add: handlePullRequestDependabotAction_def conflict_reply_def Let_def)
qed

section \<open>A board of one row\<close>

definition demo_action_source :: action_source where
  "demo_action_source = \<lparr>asForge = ForgeGitHub, asMerge = Some (\<lambda>_. None), asDeleteBranch = None, asClose = Some (\<lambda>_. None),
     asReopen = None, asUpdateBranch = Some (\<lambda>_. Inr True), asAutoMerge = Some (\<lambda>_. None), asDisableAutoMerge = Some (\<lambda>_. None),
     asComment = Some (\<lambda>_ _. None), asCommandsBlocked = '''', asLabeler = True,
     asBody = (\<lambda>_. \<lparr>baEditor = True, baBody = Inr '''', baSet = (\<lambda>_. None), baLabel = (\<lambda>_. None)\<rparr>),
     asRerun = Some (\<lambda>_. None), asRerunBranch = None, asCancelRun = None, asCloseIssue = None, asReopenIssue = None,
     asCommentIssue = None, asEnsureWebhook = None, asReadState = None\<rparr>"

definition demo_action_env :: api_env where
  "demo_action_env = \<lparr>aeNow = 0, aeSeq = 1, aeCreds = Some blank_credentials, aeAuthors = [], aeSources = (\<lambda>_. [demo_action_source]),
     aeReads = True, aeWrites = True, aeNewID = '''', aeAddDays = (\<lambda>d. d * hour), aeOrigin = '''', aeSecrets = ('''', ''''),
     aeFollowed = (\<lambda>_. []), aeBranches = (\<lambda>_. [])\<rparr>"

definition demo_action_row :: pull_request where
  "demo_action_row = zero_pr\<lparr>prRepo := ''o/r'', prNumber := 1, prAuthor := ''dependabot[bot]'', prBehind := True, prHeadSHA := ''a''\<rparr>"

definition demo_api_world :: api_world where
  "demo_api_world = \<lparr>apBoard = Some \<lparr>bdSnap = newEmptySnapshot\<lparr>snPullRequests := [demo_action_row]\<rparr>, bdSettled = Map.empty,
       bdScoped = [], bdLastGood = Map.empty, bdBots = \<lparr>bsRequests = Map.empty, bsUpdates = Map.empty, bsOverrides = Map.empty\<rparr>\<rparr>,
     apDb = empty_settings, apQueue = [], apWoken = 0, apAsked = []\<rparr>"

definition demo_target :: action_request where
  "demo_target = \<lparr>rqForge = ''github'', rqFullName = ''o/r'', rqNumber = 1\<rparr>"

lemma demo_served:
  "fst (handlePullRequestDependabotAction demo_action_env (Some (demo_target, ''rebase'')) demo_api_world) = StatusOnly 204"
  "apAsked (snd (handlePullRequestDependabotAction demo_action_env (Some (demo_target, ''rebase'')) demo_api_world)) =
     [(CallComment DependabotRebaseComment, ForgeGitHub, ''o'', ''r'', 1)] @ apAsked demo_api_world"
  "find_row ForgeGitHub ''o/r'' 1 demo_api_world = Some demo_action_row"
  by code_simp+

theorem write_was_offered_witness: "open_in ActionDependabotRebase (AllowedActions demo_action_row (aeAuthors demo_action_env))"
proof -
  let ?q = "ReqDependabot (Some (demo_target, ''rebase''))"
  show ?thesis
    by (rule write_was_offered[of demo_action_env ?q demo_api_world "fst (serve_action demo_action_env ?q demo_api_world)"
          "snd (serve_action demo_action_env ?q demo_api_world)" "[(CallComment DependabotRebaseComment, ForgeGitHub, ''o'', ''r'', 1)]"
          "CallComment DependabotRebaseComment" ForgeGitHub "''o''" "''r''" 1])
      (use demo_served(2,3) in \<open>simp_all add: serve_action_def call_action_def\<close>)
qed



theorem one_command_at_a_time_witness:
  "snd (handlePullRequestDependabotAction demo_action_env (Some (demo_target, ''recreate''))
      (snd (handlePullRequestDependabotAction demo_action_env (Some (demo_target, ''rebase'')) demo_api_world))) =
     snd (handlePullRequestDependabotAction demo_action_env (Some (demo_target, ''rebase'')) demo_api_world)"
proof -
  have row: "find_row (forge_of (rqForge demo_target)) (rqFullName demo_target) (rqNumber demo_target) demo_api_world = Some demo_action_row"
    using demo_served(3) by (simp add: demo_target_def forge_of_def)
  have first: "handlePullRequestDependabotAction demo_action_env (Some (demo_target, ''rebase'')) demo_api_world =
      (StatusOnly 204, snd (handlePullRequestDependabotAction demo_action_env (Some (demo_target, ''rebase'')) demo_api_world))"
    by (rule prod_eqI) (use demo_served(1) in simp_all)
  show ?thesis using one_command_at_a_time[OF first row, of "''recreate''" demo_action_env] by (simp add: dependabotActions_def)
qed

end
