(* ===== verification/Rate_Limit.thy ===== *)
theory Rate_Limit
  imports Complex_Main FD_Library "HOL-Library.Word"
begin

unbundle bit_operations_syntax

text \<open>
  \<open>internal/ratelimit\<close> (\<open>clientip.go\<close>, \<open>limiter.go\<close>), its use in \<open>internal/api/auth_rate_limit.go\<close> and the
  setting in \<open>cmd/forge-dashboard/auth_limit.go\<close>: which address a request to a sign-in endpoint counts against, and
  whether it may still make one.

  An address is its bits and, for version 6, its zone. The text form of addresses and
  prefixes (\<open>netip.ParseAddr\<close>, \<open>ParsePrefix\<close>, \<open>String\<close>, \<open>net.SplitHostPort\<close>) is a parameter, and so is the token bucket of
  \<open>golang.org/x/time/rate\<close>.
\<close>

section \<open>Addresses and prefixes\<close>

datatype ip_addr = InvalidIP | IPv4 "32 word" | IPv6 "128 word" string

definition mapped4 :: "128 word \<Rightarrow> bool" where
  "mapped4 w \<longleftrightarrow> drop_bit 32 w = 0xffff"

definition Unmap :: "ip_addr \<Rightarrow> ip_addr" where
  "Unmap a = (case a of IPv6 w z \<Rightarrow> if mapped4 w then IPv4 (ucast w) else a | _ \<Rightarrow> a)"

definition BitLen :: "ip_addr \<Rightarrow> nat" where
  "BitLen a = (case a of InvalidIP \<Rightarrow> 0 | IPv4 _ \<Rightarrow> 32 | IPv6 _ _ \<Rightarrow> 128)"

definition Is6 :: "ip_addr \<Rightarrow> bool" where
  "Is6 a \<longleftrightarrow> (case a of IPv6 _ _ \<Rightarrow> True | _ \<Rightarrow> False)"

text \<open>A prefix whose length does not fit its address is not valid and contains nothing.\<close>

record ip_prefix =
  ipAddr :: ip_addr
  ipBits :: "nat option"

definition without_zone :: "ip_addr \<Rightarrow> ip_addr" where
  "without_zone a = (case a of IPv6 w _ \<Rightarrow> IPv6 w '''' | _ \<Rightarrow> a)"

definition PrefixFrom :: "ip_addr \<Rightarrow> nat \<Rightarrow> ip_prefix" where
  "PrefixFrom a n = \<lparr>ipAddr = without_zone a, ipBits = (if a \<noteq> InvalidIP \<and> n \<le> BitLen a then Some n else None)\<rparr>"

definition Contains_addr :: "ip_prefix \<Rightarrow> ip_addr \<Rightarrow> bool" where
  "Contains_addr p a \<longleftrightarrow> (case (ipBits p, ipAddr p, a) of
       (Some n, IPv4 net, IPv4 w) \<Rightarrow> drop_bit (32 - n) (w XOR net) = 0
     | (Some n, IPv6 net _, IPv6 w z) \<Rightarrow> z = '''' \<and> drop_bit (128 - n) (w XOR net) = 0
     | _ \<Rightarrow> False)"

text \<open>\<open>Addr.Prefix(64)\<close> keeps the upper half and drops the zone.\<close>

definition network64 :: "128 word \<Rightarrow> 128 word" where
  "network64 w = push_bit 64 (drop_bit 64 w)"

record ip_text =
  itParseAddr :: "string \<Rightarrow> ip_addr option"
  itParsePrefix :: "string \<Rightarrow> ip_prefix option"
  itShow :: "ip_addr \<Rightarrow> string"
  itSplitHostPort :: "string \<Rightarrow> string option"

section \<open>Whom a request counts against\<close>

definition prefix4 :: "32 word \<Rightarrow> nat \<Rightarrow> ip_prefix" where "prefix4 w n = PrefixFrom (IPv4 w) n"
definition prefix6 :: "128 word \<Rightarrow> nat \<Rightarrow> ip_prefix" where "prefix6 w n = PrefixFrom (IPv6 w '''') n"

definition defaultProxies :: "ip_prefix list" where
  "defaultProxies =
     [prefix4 0x7f000000 8, prefix6 1 128, prefix4 0x0a000000 8, prefix4 0xac100000 12, prefix4 0xc0a80000 16,
      prefix4 0xa9fe0000 16, prefix6 (push_bit 120 0xfc) 7, prefix6 (push_bit 112 0xfe80) 10]"

fun parse_items :: "ip_text \<Rightarrow> string list \<Rightarrow> string + ip_prefix list" where
  "parse_items x [] = Inr []"
| "parse_items x (item # items) =
     (let item = trim_space item
      in (case (case itParsePrefix x item of
            Some p \<Rightarrow> Some p
          | None \<Rightarrow> map_option (\<lambda>a. PrefixFrom (Unmap a) (BitLen (Unmap a))) (itParseAddr x item)) of
        None \<Rightarrow> Inl item
      | Some p \<Rightarrow> (case parse_items x items of Inl e \<Rightarrow> Inl e | Inr ps \<Rightarrow> Inr (p # ps))))"

text \<open>\<open>Inl\<close> the entry that is neither an address nor a prefix.\<close>

definition ParseProxies :: "ip_text \<Rightarrow> string \<Rightarrow> string + ip_prefix list" where
  "ParseProxies x spec =
     (let spec = trim_space spec
      in if lower spec = '''' then Inr defaultProxies
         else if lower spec = ''none'' then Inr []
         else parse_items x (split_at CHR '','' spec))"

definition contains_addr :: "ip_prefix list \<Rightarrow> ip_addr \<Rightarrow> bool" where
  "contains_addr ps a \<longleftrightarrow> (\<exists>p \<in> set ps. Contains_addr p a)"

definition peerAddr :: "ip_text \<Rightarrow> string \<Rightarrow> ip_addr" where
  "peerAddr x remote =
     (let host = (case itSplitHostPort x remote of Some h \<Rightarrow> h | None \<Rightarrow> remote)
      in (case itParseAddr x host of Some a \<Rightarrow> Unmap a | None \<Rightarrow> InvalidIP))"

text \<open>The hops are walked from the right.\<close>

fun walk_hops :: "ip_text \<Rightarrow> ip_prefix list \<Rightarrow> string list \<Rightarrow> ip_addr option" where
  "walk_hops x trusted [] = None"
| "walk_hops x trusted (hop # before) = (case itParseAddr x (trim_space hop) of
       None \<Rightarrow> None
     | Some a \<Rightarrow> if contains_addr trusted (Unmap a) then walk_hops x trusted before else Some (Unmap a))"

definition hops_of :: "string list \<Rightarrow> string list" where
  "hops_of headers = concat (map (split_at CHR '','') headers)"

definition forwardedClient :: "ip_text \<Rightarrow> string list \<Rightarrow> ip_prefix list \<Rightarrow> ip_addr option" where
  "forwardedClient x headers trusted = walk_hops x trusted (rev (hops_of headers))"

definition keyOf :: "ip_text \<Rightarrow> ip_addr \<Rightarrow> string" where
  "keyOf x a = (case a of IPv6 w _ \<Rightarrow> itShow x (IPv6 (network64 w) '''') | _ \<Rightarrow> itShow x a)"

definition ClientAddr :: "ip_text \<Rightarrow> ip_prefix list \<Rightarrow> string \<Rightarrow> string list \<Rightarrow> string \<times> bool" where
  "ClientAddr x trusted remote headers =
     (let peer = peerAddr x remote
      in if \<not> contains_addr trusted peer then (keyOf x peer, True)
         else (case forwardedClient x headers trusted of
             None \<Rightarrow> (keyOf x peer, False)
           | Some client \<Rightarrow> (keyOf x client, True)))"


section \<open>The allowance\<close>

text \<open>
  The bucket of \<open>x/time/rate\<close>: a new one with its burst and refill, a reservation of one token (how long until it may be
  used, \<open>None\<close> where it never may), its cancellation, and the tokens there are at a time.
\<close>

record 'b bucket_ops =
  boNew :: "nat \<Rightarrow> duration \<Rightarrow> 'b"
  boReserve :: "'b \<Rightarrow> time \<Rightarrow> duration option \<times> 'b"
  boCancel :: "'b \<Rightarrow> time \<Rightarrow> duration \<Rightarrow> 'b"
  boTokens :: "'b \<Rightarrow> time \<Rightarrow> rat"

record 'b limiter =
  lmBurst :: nat
  lmEvery :: duration
  lmBuckets :: "string \<rightharpoonup> 'b"
  lmShared :: 'b
  lmLastSweep :: time

definition sweepEvery :: duration where "sweepEvery = minute"

definition New_limiter :: "'b bucket_ops \<Rightarrow> nat \<Rightarrow> duration \<Rightarrow> time \<Rightarrow> 'b limiter" where
  "New_limiter ops burst every now =
     \<lparr>lmBurst = burst, lmEvery = every, lmBuckets = Map.empty, lmShared = boNew ops (2 * burst) every, lmLastSweep = now\<rparr>"

definition take_token :: "'b bucket_ops \<Rightarrow> duration \<Rightarrow> 'b \<Rightarrow> time \<Rightarrow> (bool \<times> duration) \<times> 'b" where
  "take_token ops every b now = (case boReserve ops b now of
       (None, b) \<Rightarrow> ((False, every), b)
     | (Some delay, b) \<Rightarrow> if delay > 0 then ((False, delay), boCancel ops b now delay) else ((True, 0), b))"

definition sweep_buckets :: "'b bucket_ops \<Rightarrow> time \<Rightarrow> 'b limiter \<Rightarrow> 'b limiter" where
  "sweep_buckets ops now l =
     (if time_sub now (lmLastSweep l) < sweepEvery then l
      else l\<lparr>lmLastSweep := now,
             lmBuckets := (\<lambda>k. case lmBuckets l k of
                 None \<Rightarrow> None
               | Some b \<Rightarrow> if boTokens ops b now \<ge> of_nat (lmBurst l) then None else Some b)\<rparr>)"

definition Allow :: "'b bucket_ops \<Rightarrow> string \<Rightarrow> time \<Rightarrow> 'b limiter \<Rightarrow> (bool \<times> duration) \<times> 'b limiter" where
  "Allow ops key now l =
     (let l = sweep_buckets ops now l;
          b = (case lmBuckets l key of Some b \<Rightarrow> b | None \<Rightarrow> boNew ops (lmBurst l) (lmEvery l));
          (answer, b) = take_token ops (lmEvery l) b now
      in (answer, l\<lparr>lmBuckets := (lmBuckets l)(key \<mapsto> b)\<rparr>))"

definition AllowUnattributed :: "'b bucket_ops \<Rightarrow> time \<Rightarrow> 'b limiter \<Rightarrow> (bool \<times> duration) \<times> 'b limiter" where
  "AllowUnattributed ops now l =
     (let l = sweep_buckets ops now l; (answer, b) = take_token ops (lmEvery l) (lmShared l) now
      in (answer, l\<lparr>lmShared := b\<rparr>))"

text \<open>How many seconds a refused visitor is told to wait; \<open>None\<close> where the request is served.\<close>

definition retry_seconds :: "duration \<Rightarrow> int" where
  "retry_seconds wait = max 1 (- ((- wait) div second))"

record sign_in_request =
  arRemote :: string
  arForwarded :: "string list"

definition limitAuthAttempts :: "ip_text \<Rightarrow> 'b bucket_ops \<Rightarrow> ip_prefix list \<Rightarrow> sign_in_request \<Rightarrow> time \<Rightarrow> 'b limiter option \<Rightarrow>
    int option \<times> 'b limiter option" where
  "limitAuthAttempts x ops trusted r now limiter = (case limiter of
       None \<Rightarrow> (None, None)
     | Some l \<Rightarrow>
         (let (client, known) = ClientAddr x trusted (arRemote r) (arForwarded r);
              ((allowed, wait), l) = (if known then Allow ops client now l else AllowUnattributed ops now l)
          in (if allowed then None else Some (retry_seconds wait), Some l)))"

definition authBurst :: nat where "authBurst = 10"
definition authEvery :: duration where "authEvery = 6 * second"

definition resolveAuthLimit :: "ip_text \<Rightarrow> 'b bucket_ops \<Rightarrow> string \<Rightarrow> bool \<Rightarrow> time \<Rightarrow> string + 'b limiter option \<times> ip_prefix list" where
  "resolveAuthLimit x ops spec enabled now = (case ParseProxies x spec of
       Inl e \<Rightarrow> Inl e
     | Inr proxies \<Rightarrow> Inr (if enabled then Some (New_limiter ops authBurst authEvery now) else None, proxies))"

section \<open>A client cannot choose its address\<close>

lemma walk_hops_append:
  "walk_hops x trusted (as @ bs) =
     (if list_all (\<lambda>h. \<exists>a. itParseAddr x (trim_space h) = Some a \<and> contains_addr trusted (Unmap a)) as
      then walk_hops x trusted bs else walk_hops x trusted as)"
  by (induction as) (auto split: option.splits)

lemma split_at_joined: "split_at c (a @ c # b) = split_at c a @ split_at c b"
proof (induction a)
  case (Cons y a)
  then show ?case using split_at_nonempty[of c a] by (cases "split_at c a") auto
qed simp

lemma hops_appended: "hops_of (hs @ [a @ CHR '','' # b]) = hops_of (hs @ [a]) @ split_at CHR '','' b"
  by (simp add: hops_of_def split_at_joined)

definition own_hop :: "ip_text \<Rightarrow> ip_prefix list \<Rightarrow> string \<Rightarrow> bool" where
  "own_hop x trusted h \<longleftrightarrow> (\<exists>a. itParseAddr x (trim_space h) = Some a \<and> contains_addr trusted (Unmap a))"

lemma forwarded_suffix:
  assumes "hops_of headers = forged @ written" "\<not> list_all (own_hop x trusted) written"
  shows "forwardedClient x headers trusted = walk_hops x trusted (rev written)"
proof -
  have "\<not> list_all (\<lambda>h. \<exists>a. itParseAddr x (trim_space h) = Some a \<and> contains_addr trusted (Unmap a)) (rev written)"
    using assms(2) by (simp add: own_hop_def list_all_iff)
  then show ?thesis using assms(1) by (simp only: forwardedClient_def rev_append walk_hops_append if_False)
qed

text \<open>
  C39: nobody chooses the address they count against. Behind a trusted proxy, whatever a client puts into its own X-Forwarded-For
  headers, or puts before what the proxy appends to the last of them, has no effect on the key as soon as
  what the proxies wrote holds one hop that is not itself a trusted proxy; and an address outside the trusted ranges is taken
  from the connection, whatever the headers say.
\<close>

theorem spoofed_hops_ignored:
  assumes "\<not> contains_addr trusted (peerAddr x remote) \<or> \<not> list_all (own_hop x trusted) (split_at CHR '','' written)"
  shows "ClientAddr x trusted remote (forged @ [f @ CHR '','' # written]) = ClientAddr x trusted remote [written] \<and>
    ClientAddr x trusted remote (forged @ [written]) = ClientAddr x trusted remote [written]"
proof (rule conjI)
  have one: "hops_of [written] = [] @ split_at CHR '','' written" and
    two: "hops_of (forged @ [written]) = hops_of forged @ split_at CHR '','' written"
    by (simp_all add: hops_of_def)
  show "ClientAddr x trusted remote (forged @ [f @ CHR '','' # written]) = ClientAddr x trusted remote [written]"
    using assms forwarded_suffix[OF hops_appended] forwarded_suffix[OF one] by (auto simp: ClientAddr_def Let_def)
  show "ClientAddr x trusted remote (forged @ [written]) = ClientAddr x trusted remote [written]"
    using assms forwarded_suffix[OF two] forwarded_suffix[OF one] by (auto simp: ClientAddr_def Let_def)
qed

lemma same_network_same_key:
  "network64 w = network64 w' \<Longrightarrow> keyOf x (IPv6 w z) = keyOf x (IPv6 w' z')"
  by (simp add: keyOf_def)

section \<open>Forgetting an idle address changes nothing\<close>

text \<open>A request: the client it names, or none, with its time.\<close>

definition ask_limiter :: "'b bucket_ops \<Rightarrow> string option \<times> time \<Rightarrow> 'b limiter \<Rightarrow> (bool \<times> duration) \<times> 'b limiter" where
  "ask_limiter ops r l = (case r of
       (Some key, now) \<Rightarrow> Allow ops key now l
     | (None, now) \<Rightarrow> AllowUnattributed ops now l)"

fun replies :: "('r \<Rightarrow> 's \<Rightarrow> 'a \<times> 's) \<Rightarrow> 'r list \<Rightarrow> 's \<Rightarrow> 'a list" where
  "replies step [] s = []"
| "replies step (r # rs) s = (case step r s of (a, s) \<Rightarrow> a # replies step rs s)"

text \<open>The promise: every address has a bucket of its own from the start and for ever.\<close>

definition ask_forever :: "'b bucket_ops \<Rightarrow> duration \<Rightarrow> string option \<times> time \<Rightarrow> (string \<Rightarrow> 'b) \<times> 'b \<Rightarrow>
    (bool \<times> duration) \<times> (string \<Rightarrow> 'b) \<times> 'b" where
  "ask_forever ops every r s = (case r of
       (Some key, now) \<Rightarrow> (case take_token ops every (fst s key) now of (a, b) \<Rightarrow> (a, (fst s)(key := b), snd s))
     | (None, now) \<Rightarrow> (case take_token ops every (snd s) now of (a, b) \<Rightarrow> (a, fst s, b)))"

text \<open>The buckets a new one grows into. One that is full again reserves from then on as a new one does.\<close>

inductive grown :: "'b bucket_ops \<Rightarrow> nat \<Rightarrow> duration \<Rightarrow> 'b \<Rightarrow> bool" for ops :: "'b bucket_ops" and burst every where
  grown_new: "grown ops burst every (boNew ops burst every)"
| grown_reserved: "grown ops burst every b \<Longrightarrow> grown ops burst every (snd (boReserve ops b t))"
| grown_cancelled: "grown ops burst every b \<Longrightarrow> grown ops burst every (boCancel ops b t d)"

lemma grown_take: "grown ops burst every b \<Longrightarrow> grown ops burst every (snd (take_token ops e b t))"
  using grown_reserved[of ops burst every b t]
  by (cases "boReserve ops b t") (auto simp: take_token_def intro: grown_cancelled split: option.split)

definition refills :: "'b bucket_ops \<Rightarrow> nat \<Rightarrow> duration \<Rightarrow> bool" where
  "refills ops burst every \<longleftrightarrow>
     (\<forall>b t u. grown ops burst every b \<longrightarrow> boTokens ops b t \<ge> of_nat burst \<longrightarrow> t \<le> u \<longrightarrow>
        boReserve ops b u = boReserve ops (boNew ops burst every) u)"

definition like_new :: "'b bucket_ops \<Rightarrow> nat \<Rightarrow> duration \<Rightarrow> time \<Rightarrow> 'b \<Rightarrow> bool" where
  "like_new ops burst every now b \<longleftrightarrow> (\<forall>u\<ge>now. boReserve ops b u = boReserve ops (boNew ops burst every) u)"

definition agrees :: "'b bucket_ops \<Rightarrow> nat \<Rightarrow> duration \<Rightarrow> time \<Rightarrow> 'b limiter \<Rightarrow> (string \<Rightarrow> 'b) \<times> 'b \<Rightarrow> bool" where
  "agrees ops burst every now l s \<longleftrightarrow> lmBurst l = burst \<and> lmEvery l = every \<and> lmShared l = snd s \<and>
     (\<forall>k b. lmBuckets l k = Some b \<longrightarrow> fst s k = b \<and> grown ops burst every b) \<and>
     (\<forall>k. lmBuckets l k = None \<longrightarrow> like_new ops burst every now (fst s k))"

lemma agrees_later: "agrees ops burst every now l s \<Longrightarrow> now \<le> t \<Longrightarrow> agrees ops burst every t l s"
  by (auto simp: agrees_def like_new_def)

lemma agrees_swept:
  assumes "refills ops burst every" "agrees ops burst every now l s"
  shows "agrees ops burst every now (sweep_buckets ops now l) s"
  using assms by (auto simp: agrees_def sweep_buckets_def refills_def like_new_def split: option.splits if_splits)

lemma like_new_takes:
  "like_new ops burst every now b \<Longrightarrow> take_token ops every b now = take_token ops every (boNew ops burst every) now"
  by (simp add: like_new_def take_token_def)

lemma ask_agrees:
  assumes "refills ops burst every" "agrees ops burst every t l s" "t \<le> snd r"
  shows "fst (ask_limiter ops r l) = fst (ask_forever ops every r s) \<and>
    agrees ops burst every (snd r) (snd (ask_limiter ops r l)) (snd (ask_forever ops every r s))"
proof -
  obtain c now where r: "r = (c, now)" by (cases r)
  let ?l = "sweep_buckets ops now l"
  have ag: "agrees ops burst every now ?l s"
    using agrees_swept[OF assms(1) agrees_later[OF assms(2)]] assms(3) r by simp
  show ?thesis
  proof (cases c)
    case None
    have "lmEvery ?l = every" "lmShared ?l = snd s" using ag by (simp_all add: agrees_def)
    then show ?thesis using ag r None
      by (cases "take_token ops every (snd s) now") (simp add: ask_limiter_def ask_forever_def AllowUnattributed_def agrees_def Let_def)
  next
    case (Some key)
    let ?b = "case lmBuckets ?l key of Some b \<Rightarrow> b | None \<Rightarrow> boNew ops (lmBurst ?l) (lmEvery ?l)"
    have same: "take_token ops every ?b now = take_token ops every (fst s key) now"
    proof (cases "lmBuckets ?l key")
      case None
      then have "like_new ops burst every now (fst s key)" using ag by (simp add: agrees_def)
      from like_new_takes[OF this] show ?thesis using None ag by (simp add: agrees_def)
    next
      case (Some b)
      then show ?thesis using ag by (simp add: agrees_def)
    qed
    have e: "lmEvery ?l = every" using ag by (simp add: agrees_def)
    have "grown ops burst every ?b" using ag by (auto simp: agrees_def split: option.splits intro: grown_new)
    then have "grown ops burst every (snd (take_token ops every (fst s key) now))"
      using grown_take[of ops burst every ?b every now] same by simp
    then show ?thesis using ag same e r Some
      by (cases "take_token ops every (fst s key) now") (simp add: ask_limiter_def ask_forever_def Allow_def agrees_def Let_def)
  qed
qed

text \<open>
  C40: forgetting idle addresses is invisible. On any sequence of requests whose times do not go
  back, the limiter gives the answers of one that keeps a bucket for every address from the start and never drops it, so
  neither a new allowance is won by waiting for the sweep nor one lost.
\<close>

theorem sweep_invisible:
  assumes "refills ops burst every" "sorted (start # map snd rs)"
  shows "replies (ask_limiter ops) rs (New_limiter ops burst every start) =
    replies (ask_forever ops every) rs (\<lambda>_. boNew ops burst every, boNew ops (2 * burst) every)"
proof -
  have "replies (ask_limiter ops) rs l = replies (ask_forever ops every) rs s"
    if "agrees ops burst every t l s" "sorted (t # map snd rs)" for t l s
    using that
  proof (induction rs arbitrary: t l s)
    case (Cons r rs)
    then have "fst (ask_limiter ops r l) = fst (ask_forever ops every r s)"
      "agrees ops burst every (snd r) (snd (ask_limiter ops r l)) (snd (ask_forever ops every r s))"
      using ask_agrees[OF assms(1)] by auto
    then show ?case using Cons.IH[of "snd r"] Cons.prems(2)
      by (cases "ask_limiter ops r l"; cases "ask_forever ops every r s") simp
  qed simp
  moreover have "agrees ops burst every start (New_limiter ops burst every start) (\<lambda>_. boNew ops burst every, boNew ops (2 * burst) every)"
    by (simp add: agrees_def New_limiter_def like_new_def)
  ultimately show ?thesis using assms(2) by blast
qed

text \<open>A token bucket as its documentation describes it: the burst, the refill, and when it is full again.\<close>

definition demo_bucket :: "(nat \<times> duration \<times> time option) bucket_ops" where
  "demo_bucket = \<lparr>
     boNew = (\<lambda>burst every. (burst, every, None)),
     boReserve = (\<lambda>(burst, every, full) now.
        (let base = (case full of Some f \<Rightarrow> max f now | None \<Rightarrow> now)
         in (Some (max 0 (base + every - int burst * every - now)), (burst, every, Some (base + every))))),
     boCancel = (\<lambda>(burst, every, full) now delay. (burst, every, map_option (\<lambda>f. f - every) full)),
     boTokens = (\<lambda>(burst, every, full) t. of_nat burst -
        (case full of Some f \<Rightarrow> of_int (max 0 (f - t)) / of_int every | None \<Rightarrow> 0))\<rparr>"

lemma demo_grown: "grown demo_bucket burst every b \<Longrightarrow> fst b = burst \<and> fst (snd b) = every"
  by (induction rule: grown.induct) (auto simp: demo_bucket_def Let_def split: prod.splits)

lemma demo_refills: "0 < every \<Longrightarrow> refills demo_bucket burst every"
proof -
  assume every: "0 < every"
  have "boReserve demo_bucket b u = boReserve demo_bucket (boNew demo_bucket burst every) u"
    if g: "grown demo_bucket burst every b" and full: "of_nat burst \<le> boTokens demo_bucket b t" and tu: "t \<le> u" for b t u
  proof -
    obtain f where b: "b = (burst, every, f)" using demo_grown[OF g] by (cases b) auto
    have "f' \<le> t" if "f = Some f'" for f'
    proof -
      have "of_int (max 0 (f' - t)) / (of_int every :: rat) \<le> 0" using full that b by (simp add: demo_bucket_def)
      then have "max 0 (f' - t) \<le> 0" using every by (simp add: divide_le_0_iff)
      then show ?thesis by simp
    qed
    then show ?thesis using tu b by (cases f) (auto simp: demo_bucket_def Let_def)
  qed
  then show ?thesis by (auto simp: refills_def)
qed

theorem sweep_invisible_witness:
  "replies (ask_limiter demo_bucket) [(Some ''a'', 0), (Some ''a'', 5), (Some ''b'', 2 * minute), (Some ''a'', 2 * minute)]
      (New_limiter demo_bucket 1 (6 * second) 0) =
    replies (ask_forever demo_bucket (6 * second)) [(Some ''a'', 0), (Some ''a'', 5), (Some ''b'', 2 * minute), (Some ''a'', 2 * minute)]
      (\<lambda>_. boNew demo_bucket 1 (6 * second), boNew demo_bucket (2 * 1) (6 * second))"
  by (rule sweep_invisible[OF demo_refills]) simp_all

text \<open>One address of each kind: a proxy in \<open>10.0.0.0/8\<close> and a visitor beyond.\<close>

definition demo_text :: ip_text where
  "demo_text = \<lparr>
     itParseAddr = (\<lambda>s. if s = ''10.0.0.2'' then Some (IPv4 0x0a000002) else if s = ''9.9.9.9'' then Some (IPv4 0x09090909)
       else if s = ''1.2.3.4'' then Some (IPv4 0x01020304) else None),
     itParsePrefix = (\<lambda>_. None), itShow = (\<lambda>a. case a of IPv4 w \<Rightarrow> nat_str (unat w) | _ \<Rightarrow> ''?''),
     itSplitHostPort = (\<lambda>s. Some s)\<rparr>"

lemma demo_foreign: "\<not> list_all (own_hop demo_text defaultProxies) (split_at CHR '','' ''9.9.9.9'')"
  by (simp add: own_hop_def demo_text_def trim_space_def trim_right_set_def is_space_def contains_addr_def defaultProxies_def
      prefix4_def prefix6_def PrefixFrom_def without_zone_def BitLen_def Contains_addr_def Unmap_def)

theorem spoofed_hops_ignored_witness:
  "ClientAddr demo_text defaultProxies ''10.0.0.2'' ([''1.2.3.4''] @ [''1.2.3.4'' @ CHR '','' # ''9.9.9.9'']) =
    ClientAddr demo_text defaultProxies ''10.0.0.2'' [''9.9.9.9'']"
  by (rule spoofed_hops_ignored[THEN conjunct1]) (simp only: demo_foreign simp_thms)

end
