(* ===== verification/Spec2Isabelle.thy ===== *)
theory Spec2Isabelle
  imports Allowed_Actions Stacks Action_Refusal Refresh_Schedule Coalesce Debounce Bot_Requests
    Auto_Merge Rebase_Checkbox Queued_Actions Snapshot_Merge Auto_Update
    Check_Runs Github_Checks
    Lru Forgejo_Jobs Forgejo_Branch Forgejo_Rerun Server_Version
    Github_Rows Github_Required Github_Refresh
    Activity Snapshot_Cache Etag_Cache Migrations Auth_Service
    Webhook_Seen Ci_Poll Dash_Service Settings_Store Settings_Api Webhooks
    Osv_Lockfile Osv_Client Generic_Source Forgejo_Ci Forgejo_Requests Action_Api
    Rate_Limit
begin

text \<open>
  A verification development of forge-dashboard, a Go server that shows the open pull requests and
  issues of a user's GitHub and Forgejo repositories and acts on them.

  \<^bold>\<open>The program.\<close> An \<^emph>\<open>Aggregator\<close> (\<open>src/internal/dashboard/aggregator.go\<close>) holds one snapshot: the
  rows of every forge and each forge's health. A full refresh asks every source and swaps the
  snapshot; a webhook delivery or a CI poll refreshes one repository and merges its rows. Around the
  snapshot sit registries keyed by pull request: settled ones, bot and update requests, box
  overrides, auto-merge attempts, queued actions. The API answers from the snapshot and asks
  \<open>AllowedActions\<close> what a row offers; a person's action goes to the forge's client, and a refusal
  is classified for the person. The development models package \<open>dashboard\<close>, where these
  decisions are made, and what the forge clients (\<open>internal/github\<close>, \<open>internal/forgejo\<close>) make of a
  forge's answers; the answers themselves, the web server and the database appear as parameters.

  \<^bold>\<open>The theories.\<close>
  \<^item> \<open>FD_Prelude\<close>: Go's strings as byte lists, \<open>strconv\<close>, 64-bit durations, lists and maps.
  \<^item> \<open>FD_Model\<close> (\<open>model.go\<close>, \<open>source.go\<close>): the enums, rows and errors; the key of a pull request and the
    locale \<open>pr_keys\<close>, the contract every registry relies on (a key splits back and tells numbers
    apart), interpreted for both key formats.
  \<^item> \<open>Pull_Request_Kind\<close> (\<open>pull_request_kind.go\<close>, \<open>bot_pr.go\<close>): whose pull request it is.
  \<^item> \<open>Allowed_Actions\<close> (\<open>allowed_actions.go\<close>, \<open>pull_request_status.go\<close>): what a row offers, why an offer is
    blocked, the one main button and the one reason shown. C9.
  \<^item> \<open>Stacks\<close> (\<open>stack.go\<close>): which pull request a pull request is stacked on. The walk to the root is a
    partial function; it is proved to return on every list of rows. C10.
  \<^item> \<open>Action_Refusal\<close> (\<open>action_refusal.go\<close>): the code and the words of a refusal. C11.
  \<^item> \<open>Refresh_Schedule\<close> (\<open>refresh_interval.go\<close>, \<open>reserve.go\<close>, \<open>pending_schedule.go\<close>, parts of
    \<open>aggregator.go\<close>): when to refresh and poll, and the budget kept for the user. C12.
  \<^item> \<open>Coalesce\<close> (\<open>coalesce.go\<close>): the locked stretches of \<open>do\<close> as functions and any interleaving
    of callers as a step relation. C13, C14.
  \<^item> \<open>Debounce\<close> (\<open>debounce.go\<close>): the debouncer over a world of timers and contexts. C15.
  \<^item> \<open>Bot_Requests\<close> (\<open>bot_request.go\<close>, \<open>update_request.go\<close>, \<open>bot_ack.go\<close>): the registries of requests; the
    locale \<open>swept_requests\<close> holds the laws of a registry swept at every refresh and is
    interpreted for bot requests and update requests.
  \<^item> \<open>Auto_Merge\<close> (\<open>auto_merge.go\<close>, \<open>auto_merge_cancel.go\<close>, \<open>auto_merge_status.go\<close>): the auto-merge pass; the
    locale \<open>attempt_guard\<close> is the promise not to repeat an attempt, interpreted for merges and
    cancels. C3.
  \<^item> \<open>Rebase_Checkbox\<close> (\<open>renovate_rebase_checkbox.go\<close>): Renovate's box in a description. C16.
  \<^item> \<open>Queued_Actions\<close> (\<open>queued_action.go\<close>, \<open>queued_runner.go\<close>, and the table in \<open>internal/settings\<close>): actions put
    off until a rate limit resets. C5.
  \<^item> \<open>Snapshot_Merge\<close> (\<open>aggregator.go\<close>, \<open>incremental.go\<close>, parts of \<open>ci_poll.go\<close> and \<open>main_branch.go\<close>): how
    fetched rows become the snapshot, over a board that holds the snapshot and its registries.
    C17, C18.
  \<^item> \<open>Auto_Update\<close> (\<open>auto_update_branch.go\<close>, \<open>pull_request_auto_update.go\<close>, \<open>automation_pending.go\<close>): the pass
    that brings behind pull requests up to date. C19.
  \<^item> \<open>Check_Runs\<close> (\<open>newest_runs.go\<close>, \<open>run_groups.go\<close>, \<open>check_json.go\<close>, \<open>main_branch.go\<close>): which checks a newer run
    replaces, the runs of a job list, and the default branches' order; the library of both clients.
  \<^item> \<open>Github_Checks\<close> (\<open>internal/github\<close>: \<open>main_branch.go\<close>, \<open>main_branch_newest.go\<close>, the rollup in \<open>client.go\<close>): the
    row of a GitHub default branch. C20.
  \<^item> \<open>Github_Rows\<close> (\<open>client.go\<close>): a GraphQL pull request, issue and repository as the dashboard's rows.
   
  \<^item> \<open>Github_Required\<close> (\<open>required_checks.go\<close>): the lookups that keep a row from reading green while a required
    check has not reported, with their caches. C22.
  \<^item> \<open>Github_Refresh\<close> (\<open>incremental.go\<close>, \<open>issue_reconciliation.go\<close>, \<open>refresh_pending.go\<close>, the fetch in
    \<open>client.go\<close>): what a refresh reads, what it leaves out and what it remembers. C23, C24.
  \<^item> \<open>Lru\<close> (\<open>internal/forgejo/lru.go\<close>): the least-recently-used cache, refined to a list of entries;
    the locale \<open>recency_cache\<close> is what its clients rely on. C7.
  \<^item> \<open>Forgejo_Jobs\<close> (\<open>internal/forgejo\<close>: \<open>run_jobs.go\<close>, \<open>finished_jobs.go\<close>, \<open>job_log.go\<close>, parts of \<open>client.go\<close>): the
    jobs of a run page by page, kept once a run is over, and the excerpts of failed ones.
  \<^item> \<open>Forgejo_Branch\<close> (\<open>main_branch.go\<close>, \<open>main_branch_newest.go\<close>): the row of a Forgejo default branch and the
    dialog's list of its checks. C21.
  \<^item> \<open>Forgejo_Rerun\<close> (\<open>rerun.go\<close>): rerunning failed jobs.
  \<^item> \<open>Server_Version\<close> (\<open>server_version.go\<close>): the instance's version, read by one thread at a time.
   
  \<^item> \<open>Activity\<close> (\<open>activity.go\<close>): whether anyone is looking, so that the refresh may rest. C25.
  \<^item> \<open>Snapshot_Cache\<close> (\<open>snapshot_cache.go\<close>, \<open>persist.go\<close>, the rows of \<open>internal/settings/cache.go\<close>): the snapshot written to the
    database and read back after a restart. C26.
  \<^item> \<open>Etag_Cache\<close> (\<open>internal/github\<close>: \<open>etag_transport.go\<close>, \<open>etag_store.go\<close>; the table in
    \<open>internal/settings/cache.go\<close>): conditional requests; the locale \<open>etag_backing\<close> is what the store relies on in
    what is behind it, interpreted for the table. C8.
  \<^item> \<open>Migrations\<close> (\<open>internal/dbmigrate\<close>): the schema steps of a start, with a failure at any statement, and a
    database over many starts. C6.
  \<^item> \<open>Auth_Store\<close> (\<open>internal/auth/store.go\<close>): the tables of sign-in and their statements.
  \<^item> \<open>Auth_Service\<close> (\<open>internal/auth\<close>: \<open>service.go\<close>, \<open>session.go\<close>, \<open>middleware.go\<close>; \<open>internal/api\<close>: \<open>auth.go\<close>,
    \<open>credentials.go\<close>, \<open>tokens.go\<close>): ceremonies, guards and handlers, over any sequence of requests. C1, C27.
  \<^item> \<open>Webhook_Seen\<close> (\<open>webhook_seen.go\<close>): when deliveries arrived, in memory and in the store.
  \<^item> \<open>Ci_Poll\<close> (\<open>ci_poll.go\<close>, \<open>RefreshRepo\<close> in \<open>aggregator.go\<close>): the poll of pending checks and armed pull requests. C28.
  \<^item> \<open>Dash_Service\<close> (\<open>service.go\<close>, the subscribers of \<open>aggregator.go\<close>): the one running aggregator and what outlives it. C29.
  \<^item> \<open>Settings_Store\<close> (\<open>internal/settings\<close>: \<open>store.go\<close>, \<open>crypto.go\<close> and the tables beside them): the saved settings.
  \<^item> \<open>Settings_Api\<close> (\<open>internal/api\<close>: \<open>settings.go\<close>, \<open>filter_state.go\<close>, the repo switches): checking and saving them. C30.
  \<^item> \<open>Webhooks\<close> (\<open>internal/api/webhooks.go\<close>): what a delivery may change, and only if it is signed. C4.
  \<^item> \<open>Osv_Lockfile\<close> (\<open>internal/osv\<close>: \<open>lockfile.go\<close>, \<open>lockformats_json.go\<close>, \<open>lockformats_toml.go\<close>): the packages of a lock
    file that may be sent to osv.dev. C31.
  \<^item> \<open>Osv_Client\<close> (\<open>client.go\<close>, \<open>find.go\<close>, \<open>cvss.go\<close>): batches, the record cache, and the union-find that counts
    advisories. C32.
  \<^item> \<open>Generic_Source\<close> (\<open>generic_source.go\<close>): the source over a forge's client, Forgejo's. C33.
  \<^item> \<open>Forgejo_Ci\<close> (\<open>internal/forgejo/client.go\<close>): the rollup and the checks of a Forgejo pull request. C34.
  \<^item> \<open>Forgejo_Requests\<close> (\<open>client.go\<close>, \<open>scheduled_merge.go\<close>): Forgejo's listings, the writes a person asks for, webhooks,
    and the timelines read in turn. C37, C38.
  \<^item> \<open>Action_Api\<close> (\<open>internal/api\<close>: the handlers of actions, issues, queued actions and hidden rows): what a request may
    ask of a forge, and how it is answered. C2, C35, C36.
  \<^item> \<open>Rate_Limit\<close> (\<open>internal/ratelimit\<close>, \<open>internal/api/auth_rate_limit.go\<close>): which address a sign-in attempt counts against, and
    how many it may make. C39, C40.

  \<^bold>\<open>Correspondence.\<close> Definitions carry the names of the Go functions and follow their order of tests
  and early returns. A struct is a record with its fields in order under a short prefix, an enum
  that can hold other strings has a constructor for them, a pointer is an option, a slice a list, a
  Go map a partial function (or an association list where the code ranges over it). A method that
  changes state takes and returns it. Times are integers in nanoseconds, and
  \<open>Time.Sub\<close> saturates as Go's does; durations wrap at 64 bits where the code computes with
  them. The clock is an argument: where the code reads it several times in one pass, the model reads it once.

  \<^bold>\<open>What holds and what does not.\<close> The properties say that the code does what it promises, with the conditions under which it
  does. Behaviour that contradicts the code's own comments is stated by lemmas:
  \<open>unreachable_never_gives_up\<close> (Queued_Actions), \<open>poll_forgets_settled\<close> (Snapshot_Merge),
  \<open>stale_cancel_loses_event\<close> (Debounce), \<open>lowerFirst_two_bytes\<close> (Auto_Merge), \<open>settle_race\<close>,
  \<open>outage_forgets_settled\<close> and \<open>outage_then_failed_repo\<close> (Snapshot_Merge), \<open>renovate_keeps_awake\<close>
  (Auto_Update), \<open>cut_short_hides_failure\<close> (Github_Checks), \<open>complete_ignores_base\<close> (Github_Required), \<open>restored_forgets\<close> and
  \<open>unknown_rows_stay\<close> (Snapshot_Cache),
  \<open>failed_eviction_drifts\<close> (Etag_Cache), \<open>ensure_race\<close> (Settings_Store),
  \<open>forgejo_never_cleared\<close> (Settings_Api), \<open>glob_not_ascii\<close> (Forgejo_Ci), \<open>failing_reads_starve\<close> and
  \<open>retry_after_wraps\<close> (Forgejo_Requests)
  and \<open>running_run_hides_failed_job\<close> (Forgejo_Branch).

  \<^bold>\<open>Termination.\<close> Every function here is total except the stack walk and the loops of
  \<open>Stacks\<close>, the union-find's \<open>sets_find\<close> (Osv_Client) and the walk over a listing's pages \<open>walk_pages\<close>
  (Forgejo_Requests), which are partial functions into an option proved to be \<open>Some\<close> where the code calls them,
  the last one for a forge that numbers its pages upwards to an end. Eviction (\<open>lruEvict\<close>) recurses on
  the length of the list, and so does \<open>evictItems\<close>; a glob match (\<open>glob_match\<close>) on the pattern and then the text; the
  walk over a run's jobs is bounded by the code's own twenty pages.

  \<^bold>\<open>Not modelled.\<close> The requests the forge clients send and the decoding of JSON; of the HTTP API the board's views, the
  check stream, MCP and health; migrations' own SQL; metrics, logs, the command line and the web
  front end; details pages and the closing and mentioned issues of a description. Mutexes appear as the boundaries of atomic steps;
  the listings of several Forgejo repositories, which the code may run side by side, happen one after another in \<open>listing_run\<close>.
\<close>

end
